(* ===== verification/Prelude.thy ===== *)
theory Prelude
  imports Complex_Main "HOL-Library.Multiset"
begin

text \<open>
  Shared vocabulary of the development: the result type of code that may throw, the
  stable \<^verbatim>\<open>Array.prototype.sort\<close> of the runtime, decimal printing and reading of
  integers, and the list facts several components use. Lemmas that components rely on
  silently are collected in \<^verbatim>\<open>js_simps\<close> and \<^verbatim>\<open>sort_facts\<close>.
\<close>

named_theorems js_simps "evaluation rules of the JavaScript primitives"
named_theorems sort_facts "facts about the stable sort"

section \<open>Results of code that may throw\<close>

text \<open>
  \<^verbatim>\<open>Inl e\<close> is a thrown error, \<^verbatim>\<open>Inr x\<close> a normal return. \<open>bindE\<close> runs the rest of
  a function body only when the first part returned.
\<close>

definition bindE :: "'e + 'a \<Rightarrow> ('a \<Rightarrow> 'e + 'b) \<Rightarrow> 'e + 'b" where
  "bindE m f = (case m of Inl e \<Rightarrow> Inl e | Inr x \<Rightarrow> f x)"

lemma bindE_simps [simp]:
  "bindE (Inl e) f = Inl e"
  "bindE (Inr x) f = f x"
  by (simp_all add: bindE_def)

lemma bindE_eq_Inr_iff [simp]:
  "bindE m f = Inr y \<longleftrightarrow> (\<exists>x. m = Inr x \<and> f x = Inr y)"
  by (cases m) auto

lemma bindE_eq_Inl_iff:
  "bindE m f = Inl e \<longleftrightarrow> m = Inl e \<or> (\<exists>x. m = Inr x \<and> f x = Inl e)"
  by (cases m) auto

lemma bindE_cong [fundef_cong]:
  "m = m' \<Longrightarrow> (\<And>x. m' = Inr x \<Longrightarrow> f x = g x) \<Longrightarrow> bindE m f = bindE m' g"
  by (cases m') auto

text \<open>A guard: throw when the condition holds.\<close>

definition throwIf :: "bool \<Rightarrow> 'e \<Rightarrow> 'e + unit" where
  "throwIf c e = (if c then Inl e else Inr ())"

lemma throwIf_eq_Inr_iff [simp]: "throwIf c e = Inr u \<longleftrightarrow> \<not> c"
  by (auto simp: throwIf_def)

lemma throwIf_eq_Inl_iff [simp]: "throwIf c e = Inl e' \<longleftrightarrow> c \<and> e' = e"
  by (auto simp: throwIf_def)

text \<open>Left-to-right evaluation of a list of fallible steps, stopping at the first throw.\<close>

fun mapE :: "('a \<Rightarrow> 'e + 'b) \<Rightarrow> 'a list \<Rightarrow> 'e + 'b list" where
  "mapE f [] = Inr []"
| "mapE f (x # xs) = bindE (f x) (\<lambda>y. bindE (mapE f xs) (\<lambda>ys. Inr (y # ys)))"

fun forE :: "('a \<Rightarrow> 'e + unit) \<Rightarrow> 'a list \<Rightarrow> 'e + unit" where
  "forE f [] = Inr ()"
| "forE f (x # xs) = bindE (f x) (\<lambda>_. forE f xs)"

lemma forE_eq_Inr_iff: "forE f xs = Inr u \<longleftrightarrow> (\<forall>x \<in> set xs. f x = Inr ())"
  by (induction xs) auto

lemma forE_eq_Inl_D: "forE f xs = Inl e \<Longrightarrow> \<exists>x \<in> set xs. f x = Inl e"
  by (induction xs) (auto simp: bindE_eq_Inl_iff)

lemma mapE_length: "mapE f xs = Inr ys \<Longrightarrow> length ys = length xs"
  by (induction xs arbitrary: ys) auto

lemma mapE_list_all2: "mapE f xs = Inr ys \<Longrightarrow> list_all2 (\<lambda>x y. f x = Inr y) xs ys"
  by (induction xs arbitrary: ys) auto

section \<open>Stable sorting\<close>

text \<open>
  \<^verbatim>\<open>xs.sort(cmp)\<close>: ECMAScript requires a stable sort, so for a consistent comparator the
  result is determined. \<open>jsSort\<close> inserts from the right and lets an element stand before
  the later elements it is not greater than, which keeps equal elements in input order.
\<close>

fun jsInsert :: "('a \<Rightarrow> 'a \<Rightarrow> int) \<Rightarrow> 'a \<Rightarrow> 'a list \<Rightarrow> 'a list" where
  "jsInsert cmp x [] = [x]"
| "jsInsert cmp x (y # ys) = (if cmp x y \<le> 0 then x # y # ys else y # jsInsert cmp x ys)"

definition jsSort :: "('a \<Rightarrow> 'a \<Rightarrow> int) \<Rightarrow> 'a list \<Rightarrow> 'a list" where
  "jsSort cmp xs = foldr (jsInsert cmp) xs []"

lemma jsSort_simps [simp]:
  "jsSort cmp [] = []"
  "jsSort cmp (x # xs) = jsInsert cmp x (jsSort cmp xs)"
  by (simp_all add: jsSort_def)

lemma mset_jsInsert [simp]: "mset (jsInsert cmp x xs) = add_mset x (mset xs)"
  by (induction xs) auto

lemma set_jsInsert [simp]: "set (jsInsert cmp x xs) = insert x (set xs)"
  by (induction xs) auto

lemma mset_jsSort [simp, sort_facts]: "mset (jsSort cmp xs) = mset xs"
  by (induction xs) auto

lemma set_jsSort [simp, sort_facts]: "set (jsSort cmp xs) = set xs"
  by (metis mset_jsSort set_mset_mset)

lemma length_jsSort [simp, sort_facts]: "length (jsSort cmp xs) = length xs"
  by (metis mset_jsSort size_mset)

lemma distinct_jsSort [simp, sort_facts]: "distinct (jsSort cmp xs) = distinct xs"
  by (metis mset_eq_imp_distinct_iff mset_jsSort)

lemma distinct_map_jsSort [simp, sort_facts]:
  "distinct (map f (jsSort cmp xs)) = distinct (map f xs)"
  by (metis mset_eq_imp_distinct_iff mset_jsSort mset_map)

text \<open>
  A comparator is consistent on a set when its non-positive part is a total preorder
  there; then the result is sorted.
\<close>

definition cmpConsistent :: "('a \<Rightarrow> 'a \<Rightarrow> int) \<Rightarrow> 'a set \<Rightarrow> bool" where
  "cmpConsistent cmp A \<longleftrightarrow>
     (\<forall>x \<in> A. \<forall>y \<in> A. cmp x y \<le> 0 \<or> cmp y x \<le> 0) \<and>
     (\<forall>x \<in> A. \<forall>y \<in> A. \<forall>z \<in> A. cmp x y \<le> 0 \<longrightarrow> cmp y z \<le> 0 \<longrightarrow> cmp x z \<le> 0)"

lemma cmpConsistent_subset: "cmpConsistent cmp A \<Longrightarrow> B \<subseteq> A \<Longrightarrow> cmpConsistent cmp B"
  unfolding cmpConsistent_def by blast

lemma sorted_jsInsert:
  assumes "cmpConsistent cmp (insert x (set xs))"
    and "sorted_wrt (\<lambda>a b. cmp a b \<le> 0) xs"
  shows "sorted_wrt (\<lambda>a b. cmp a b \<le> 0) (jsInsert cmp x xs)"
  using assms
proof (induction xs)
  case Nil
  then show ?case by simp
next
  case (Cons y ys)
  have ys: "sorted_wrt (\<lambda>a b. cmp a b \<le> 0) ys" and y: "\<forall>z \<in> set ys. cmp y z \<le> 0"
    using Cons.prems(2) by auto
  have total: "cmp x y \<le> 0 \<or> cmp y x \<le> 0"
    using Cons.prems(1) unfolding cmpConsistent_def by simp
  have trans: "\<And>z. z \<in> set ys \<Longrightarrow> cmp x y \<le> 0 \<Longrightarrow> cmp y z \<le> 0 \<Longrightarrow> cmp x z \<le> 0"
    using Cons.prems(1) unfolding cmpConsistent_def by (meson insertCI list.set_intros)
  have IH: "sorted_wrt (\<lambda>a b. cmp a b \<le> 0) (jsInsert cmp x ys)"
    using Cons.IH[OF cmpConsistent_subset[OF Cons.prems(1)] ys] by auto
  show ?case
  proof (cases "cmp x y \<le> 0")
    case True
    then show ?thesis using Cons.prems(2) y trans by auto
  next
    case False
    then show ?thesis using IH y total by auto
  qed
qed

lemma sorted_jsSort [sort_facts]:
  "cmpConsistent cmp (set xs) \<Longrightarrow> sorted_wrt (\<lambda>a b. cmp a b \<le> 0) (jsSort cmp xs)"
proof (induction xs)
  case (Cons x xs)
  have "cmpConsistent cmp (set xs)" and "cmpConsistent cmp (insert x (set (jsSort cmp xs)))"
    using Cons.prems by (auto intro: cmpConsistent_subset)
  then show ?case using Cons.IH by (simp add: sorted_jsInsert)
qed simp

text \<open>
  When in addition no two distinct elements compare equal, the result depends on the
  elements only, not on their input order.
\<close>

lemma jsSort_unique:
  assumes cons: "cmpConsistent cmp (set xs)"
    and anti: "\<forall>x \<in> set xs. \<forall>y \<in> set xs. cmp x y \<le> 0 \<longrightarrow> cmp y x \<le> 0 \<longrightarrow> x = y"
    and perm: "mset xs = mset ys"
  shows "jsSort cmp xs = jsSort cmp ys"
proof -
  have set_eq: "set ys = set xs" using perm by (metis set_mset_mset)
  have uniq: "us = vs"
    if "sorted_wrt (\<lambda>a b. cmp a b \<le> 0) us" "sorted_wrt (\<lambda>a b. cmp a b \<le> 0) vs"
      "mset us = mset vs" "set us \<subseteq> set xs" for us vs
    using that
  proof (induction us arbitrary: vs)
    case Nil
    then show ?case by simp
  next
    case (Cons u us)
    from Cons.prems(3) obtain v vs' where vs: "vs = v # vs'"
      by (cases vs) auto
    have "u \<in> set vs" "v \<in> set (u # us)"
      using Cons.prems(3) vs by (metis list.set_intros(1) set_mset_mset)+
    moreover have "set vs \<subseteq> set xs"
      using Cons.prems(3,4) by (metis set_mset_mset)
    ultimately have "u = v"
      using Cons.prems(1,2,4) vs anti by (cases "u = v") auto
    then show ?case using Cons vs by simp
  qed
  show ?thesis
  proof (rule uniq)
    show "sorted_wrt (\<lambda>a b. cmp a b \<le> 0) (jsSort cmp xs)" by (rule sorted_jsSort[OF cons])
    show "sorted_wrt (\<lambda>a b. cmp a b \<le> 0) (jsSort cmp ys)"
      by (rule sorted_jsSort) (simp add: cons set_eq)
  qed (use perm in auto)
qed

section \<open>Decimal text of integers\<close>

text \<open>
  \<open>showInt\<close> is \<^verbatim>\<open>String(i)\<close> / \<^verbatim>\<open>i.toString()\<close> on an integer. \<open>readInt\<close> is \<^verbatim>\<open>BigInt(s)\<close> on
  decimal literals with an optional minus sign, \<open>None\<close> on everything else it is given
  here (\<^verbatim>\<open>BigInt\<close> throws a SyntaxError there, apart from blanks and radix prefixes, which
  no caller of the program produces).
\<close>

definition digitChar :: "nat \<Rightarrow> char" where
  "digitChar d = char_of (48 + d)"

definition digitOf :: "char \<Rightarrow> nat option" where
  "digitOf c = (let n = of_char c :: nat in if 48 \<le> n \<and> n \<le> 57 then Some (n - 48) else None)"

fun showNat :: "nat \<Rightarrow> string" where
  "showNat n = (if n < 10 then [digitChar n] else showNat (n div 10) @ [digitChar (n mod 10)])"

declare showNat.simps [simp del]

definition showInt :: "int \<Rightarrow> string" where
  "showInt i = (if i < 0 then CHR ''-'' # showNat (nat (- i)) else showNat (nat i))"

fun readDigits :: "nat \<Rightarrow> string \<Rightarrow> nat option" where
  "readDigits acc [] = Some acc"
| "readDigits acc (c # cs) =
     (case digitOf c of None \<Rightarrow> None | Some d \<Rightarrow> readDigits (10 * acc + d) cs)"

definition readInt :: "string \<Rightarrow> int option" where
  "readInt s =
     (case s of
        [] \<Rightarrow> None
      | c # cs \<Rightarrow>
          if c = CHR ''-'' then (if cs = [] then None else map_option (\<lambda>n. - int n) (readDigits 0 cs))
          else map_option int (readDigits 0 s))"

lemma digitChar_eval [simp]:
  "digitChar 0 = CHR ''0''" "digitChar 1 = CHR ''1''" "digitChar 2 = CHR ''2''"
  "digitChar 3 = CHR ''3''" "digitChar 4 = CHR ''4''" "digitChar 5 = CHR ''5''"
  "digitChar 6 = CHR ''6''" "digitChar 7 = CHR ''7''" "digitChar 8 = CHR ''8''"
  "digitChar 9 = CHR ''9''" "digitChar (Suc 0) = CHR ''1''"
  by code_simp+

lemma digitOf_digitChar [js_simps]: "d < 10 \<Longrightarrow> digitOf (digitChar d) = Some d"
  by (simp add: digitOf_def digitChar_def of_char_of)

lemma digitChar_not_minus: "d < 10 \<Longrightarrow> digitChar d \<noteq> CHR ''-''"
proof
  assume d: "d < 10" and "digitChar d = CHR ''-''"
  then have "digitOf (CHR ''-'') = Some d" using digitOf_digitChar by metis
  then show False by (simp add: digitOf_def)
qed

lemma readDigits_append:
  "readDigits acc (xs @ ys) = (case readDigits acc xs of None \<Rightarrow> None | Some a \<Rightarrow> readDigits a ys)"
  by (induction acc xs rule: readDigits.induct) (auto split: option.splits)

lemma showNat_not_Nil [simp]: "showNat n \<noteq> []"
  by (subst showNat.simps) simp

lemma readDigits_showNat: "readDigits 0 (showNat n) = Some n"
proof (induction n rule: showNat.induct)
  case (1 n)
  show ?case
  proof (cases "n < 10")
    case True
    then show ?thesis by (subst showNat.simps) (simp add: js_simps)
  next
    case False
    then have "readDigits 0 (showNat (n div 10)) = Some (n div 10)" using "1.IH" by simp
    with False show ?thesis
      by (subst showNat.simps) (simp add: readDigits_append js_simps)
  qed
qed

lemma hd_showNat: "\<exists>d < 10. hd (showNat n) = digitChar d"
proof (induction n rule: showNat.induct)
  case (1 n)
  show ?case
  proof (cases "n < 10")
    case True
    then show ?thesis by (subst showNat.simps) auto
  next
    case False
    with "1.IH" show ?thesis by (subst showNat.simps) (simp add: hd_append)
  qed
qed

lemma readInt_showInt [simp]: "readInt (showInt i) = Some i"
proof (cases "i < 0")
  case True
  then show ?thesis by (simp add: readInt_def showInt_def readDigits_showNat)
next
  case False
  obtain c cs where c: "showNat (nat i) = c # cs" by (cases "showNat (nat i)") auto
  then have "c \<noteq> CHR ''-''" using hd_showNat[of "nat i"] digitChar_not_minus by auto
  with False c show ?thesis
    using readDigits_showNat[of "nat i"] by (simp add: readInt_def showInt_def)
qed

lemma showInt_inject [simp]: "showInt i = showInt j \<longleftrightarrow> i = j"
  by (metis option.inject readInt_showInt)

section \<open>Lists\<close>

lemma sum_list_update_int:
  "i < length xs \<Longrightarrow> sum_list (xs[i := v]) = sum_list xs - xs ! i + (v :: int)"
  by (induction xs arbitrary: i) (auto split: nat.splits)

lemma distinct_map_filter_subset: "distinct (map f xs) \<Longrightarrow> distinct (map f (filter P xs))"
  by (induction xs) auto

end
