(* ===== verification/Money.thy ===== *)
theory Money
  imports Prelude "HOL-Library.Signed_Division"
begin

text \<open>
  \<^verbatim>\<open>src/core/money/money.ts\<close>: immutable amounts in minor units. \<^verbatim>\<open>bigint\<close> is \<open>int\<close>
  (both are unbounded); \<^verbatim>\<open>bigint\<close> division and remainder truncate towards zero, which is
  \<open>sdiv\<close> and \<open>smod\<close> of the library. The lemmas show what each operation returns on every
  branch, that \<open>allocate\<close> neither creates nor loses money on non-negative amounts, and
  what it does on negative ones.
\<close>

datatype Currency = UZS | USD | EUR

fun MINOR_UNITS :: "Currency \<Rightarrow> int" where
  "MINOR_UNITS UZS = 100"
| "MINOR_UNITS USD = 100"
| "MINOR_UNITS EUR = 100"

record Money =
  amount :: int
  currency :: Currency

datatype MoneyError =
    CurrencyMismatchError Currency Currency
  | FractionalMajorError
  | NegativePercentageError
  | AllocateEmptyError
  | AllocateNegativeRatioError
  | AllocateZeroTotalError

definition fromMinor :: "int \<Rightarrow> Currency \<Rightarrow> Money" where
  "fromMinor a c = \<lparr>amount = a, currency = c\<rparr>"

text \<open>
  The argument of \<open>fromMajor\<close> is a \<^verbatim>\<open>number\<close> or a \<^verbatim>\<open>bigint\<close>. A number is finite (a
  rational) or one of \<^verbatim>\<open>NaN\<close>, \<^verbatim>\<open>Infinity\<close>, \<^verbatim>\<open>-Infinity\<close>, for which
  \<^verbatim>\<open>Number.isInteger\<close> is false.
\<close>

datatype MajorAmount = FiniteNumber rat | NonFiniteNumber | BigIntAmount int

fun fromMajor :: "MajorAmount \<Rightarrow> Currency \<Rightarrow> MoneyError + Money" where
  "fromMajor (FiniteNumber q) c =
     (if of_int \<lfloor>q\<rfloor> \<noteq> q then Inl FractionalMajorError
      else Inr (fromMinor (\<lfloor>q\<rfloor> * MINOR_UNITS c) c))"
| "fromMajor NonFiniteNumber c = Inl FractionalMajorError"
| "fromMajor (BigIntAmount a) c = Inr (fromMinor (a * MINOR_UNITS c) c)"

definition zero :: "Currency \<Rightarrow> Money" where
  "zero c = fromMinor 0 c"

definition assertSameCurrency :: "Money \<Rightarrow> Money \<Rightarrow> MoneyError + unit" where
  "assertSameCurrency m n =
     throwIf (currency m \<noteq> currency n) (CurrencyMismatchError (currency m) (currency n))"

definition add :: "Money \<Rightarrow> Money \<Rightarrow> MoneyError + Money" where
  "add m n = bindE (assertSameCurrency m n) (\<lambda>_. Inr (fromMinor (amount m + amount n) (currency m)))"

definition subtract :: "Money \<Rightarrow> Money \<Rightarrow> MoneyError + Money" where
  "subtract m n =
     bindE (assertSameCurrency m n) (\<lambda>_. Inr (fromMinor (amount m - amount n) (currency m)))"

definition multiply :: "Money \<Rightarrow> int \<Rightarrow> Money" where
  "multiply m factor = fromMinor (amount m * factor) (currency m)"

definition percentage :: "Money \<Rightarrow> int \<Rightarrow> MoneyError + Money" where
  "percentage m basisPoints =
     (let product = amount m * basisPoints; divisor = 10000
      in if amount m < 0 then Inl NegativePercentageError
         else Inr (fromMinor ((product + divisor - 1) sdiv divisor) (currency m)))"

text \<open>
  \<open>allocate\<close>: the ratios are folded with a check per element, shares are rounded
  (towards zero), and the remainder is handed out one unit at a time. Writing past the
  end of the array would extend it, as in the source.
\<close>

fun ratioTotal :: "int \<Rightarrow> int list \<Rightarrow> MoneyError + int" where
  "ratioTotal acc [] = Inr acc"
| "ratioTotal acc (r # rs) = (if r < 0 then Inl AllocateNegativeRatioError else ratioTotal (acc + r) rs)"

fun shareLoop :: "int \<Rightarrow> int \<Rightarrow> int list \<Rightarrow> int list \<Rightarrow> int \<Rightarrow> int list \<times> int" where
  "shareLoop amt tot [] shares remainder = (shares, remainder)"
| "shareLoop amt tot (ratio # rs) shares remainder =
     (let share = (amt * ratio) sdiv tot
      in shareLoop amt tot rs (shares @ [share]) (remainder - share))"

definition bumpAt :: "nat \<Rightarrow> int list \<Rightarrow> int list" where
  "bumpAt i shares = (if i < length shares then shares[i := shares ! i + 1] else shares @ [1])"

text \<open>The loop from \<^verbatim>\<open>i = 0\<close> while \<^verbatim>\<open>i < remainder\<close>: the first argument counts the rounds left.\<close>

fun distribute :: "nat \<Rightarrow> nat \<Rightarrow> int list \<Rightarrow> int list" where
  "distribute 0 i shares = shares"
| "distribute (Suc k) i shares = distribute k (Suc i) (bumpAt i shares)"

definition allocate :: "Money \<Rightarrow> int list \<Rightarrow> MoneyError + Money list" where
  "allocate m ratios =
     (if ratios = [] then Inl AllocateEmptyError
      else bindE (ratioTotal 0 ratios) (\<lambda>tot.
        if tot = 0 then Inl AllocateZeroTotalError
        else case shareLoop (amount m) tot ratios [] (amount m) of (shares, remainder) \<Rightarrow>
          Inr (map (\<lambda>s. fromMinor s (currency m)) (distribute (nat remainder) 0 shares))))"

definition isZero :: "Money \<Rightarrow> bool" where
  "isZero m \<longleftrightarrow> amount m = 0"

definition isNegative :: "Money \<Rightarrow> bool" where
  "isNegative m \<longleftrightarrow> amount m < 0"

definition equals :: "Money \<Rightarrow> Money \<Rightarrow> bool" where
  "equals m n \<longleftrightarrow> currency m = currency n \<and> amount m = amount n"

definition compare :: "Money \<Rightarrow> Money \<Rightarrow> MoneyError + int" where
  "compare m n = bindE (assertSameCurrency m n) (\<lambda>_.
     if amount m < amount n then Inr (- 1) else if amount m > amount n then Inr 1 else Inr 0)"

text \<open>
  \<open>format\<close> builds a decimal text and hands \<^verbatim>\<open>Number(text)\<close> to \<^verbatim>\<open>Intl.NumberFormat\<close>, which
  is not modelled. \<open>formatText\<close> is that text.
\<close>

definition padStart2 :: "string \<Rightarrow> string" where
  "padStart2 s = replicate (2 - length s) (CHR ''0'') @ s"

definition formatText :: "Money \<Rightarrow> string" where
  "formatText m =
     (let minorUnit = MINOR_UNITS (currency m);
          major = amount m sdiv minorUnit;
          minor = amount m smod minorUnit
      in showInt major @ ''.'' @ padStart2 (showInt minor))"

fun showCurrency :: "Currency \<Rightarrow> string" where
  "showCurrency UZS = ''UZS''"
| "showCurrency USD = ''USD''"
| "showCurrency EUR = ''EUR''"

definition toJSON :: "Money \<Rightarrow> string \<times> Currency" where
  "toJSON m = (showInt (amount m), currency m)"

definition toString :: "Money \<Rightarrow> string" where
  "toString m = showInt (amount m) @ '' '' @ showCurrency (currency m) @ '' (minor units)''"

section \<open>Arithmetic\<close>

lemma sdiv_nonneg: "0 \<le> a \<Longrightarrow> 0 < b \<Longrightarrow> a sdiv b = a div (b :: int)"
  by (cases "a = 0") (auto simp: signed_divide_int_def sgn_if)

lemma add_eq_Inr_iff:
  "add m n = Inr s \<longleftrightarrow> currency m = currency n \<and> s = fromMinor (amount m + amount n) (currency m)"
  by (auto simp: add_def assertSameCurrency_def throwIf_def)

lemma subtract_eq_Inr_iff:
  "subtract m n = Inr s \<longleftrightarrow>
     currency m = currency n \<and> s = fromMinor (amount m - amount n) (currency m)"
  by (auto simp: subtract_def assertSameCurrency_def throwIf_def)

lemma fromMinor_sel [simp]: "amount (fromMinor a c) = a" "currency (fromMinor a c) = c"
  by (simp_all add: fromMinor_def)

lemma fromMinor_eta [simp]: "fromMinor (amount m) (currency m) = m"
  by (simp add: fromMinor_def)

text \<open>Mixing currencies is the only way arithmetic fails, and it fails for every operation alike.\<close>

lemma currency_mismatch:
  assumes "currency m \<noteq> currency n"
  shows "add m n = Inl (CurrencyMismatchError (currency m) (currency n))"
    and "subtract m n = Inl (CurrencyMismatchError (currency m) (currency n))"
    and "compare m n = Inl (CurrencyMismatchError (currency m) (currency n))"
  using assms by (simp_all add: add_def subtract_def compare_def assertSameCurrency_def throwIf_def)

lemma subtract_add_cancel: "add m n = Inr s \<Longrightarrow> subtract s n = Inr m"
  by (auto simp: add_eq_Inr_iff subtract_eq_Inr_iff)

lemma compare_spec:
  "compare m n = Inr k \<longleftrightarrow> currency m = currency n \<and> k = sgn (amount m - amount n)"
  by (auto simp: compare_def assertSameCurrency_def throwIf_def sgn_if)

lemma compare_zero_iff_equals: "compare m n = Inr 0 \<longleftrightarrow> equals m n"
  by (auto simp: compare_spec equals_def sgn_if split: if_splits)

lemma fromMajor_value: "fromMajor x c = Inr m \<Longrightarrow> currency m = c \<and> MINOR_UNITS c dvd amount m"
  by (cases x) (auto split: if_splits)

lemma percentage_ceiling:
  assumes "0 \<le> amount m" "0 \<le> bp"
  shows "percentage m bp = Inr (fromMinor \<lceil>of_int (amount m * bp) / (10000 :: rat)\<rceil> (currency m))"
proof -
  have nn: "0 \<le> amount m * bp" using assms by simp
  have "(amount m * bp + 10000 - 1) sdiv 10000 = (amount m * bp + 10000 - 1) div 10000"
    using nn by (simp add: sdiv_nonneg)
  also have "\<dots> = - (- (amount m * bp) div 10000)" by linarith
  also have "\<dots> = \<lceil>of_int (amount m * bp) / (10000 :: rat)\<rceil>"
    by (metis ceiling_divide_eq_div of_int_numeral)
  finally show ?thesis using assms by (simp add: percentage_def Let_def)
qed

section \<open>Allocation\<close>

lemma ratioTotal_eq_Inr_iff:
  "ratioTotal acc rs = Inr t \<longleftrightarrow> (\<forall>r \<in> set rs. 0 \<le> r) \<and> t = acc + sum_list rs"
  by (induction acc rs arbitrary: t rule: ratioTotal.induct) auto

lemma ratioTotal_eq_Inl_iff:
  "ratioTotal acc rs = Inl e \<longleftrightarrow> (\<exists>r \<in> set rs. r < 0) \<and> e = AllocateNegativeRatioError"
  by (induction acc rs arbitrary: e rule: ratioTotal.induct) auto

lemma shareLoop_eq:
  "shareLoop a t rs shares remainder =
     (shares @ map (\<lambda>r. (a * r) sdiv t) rs, remainder - (\<Sum>r \<leftarrow> rs. (a * r) sdiv t))"
  by (induction rs arbitrary: shares remainder) (auto simp: Let_def)

lemma length_distribute: "i + k \<le> length s \<Longrightarrow> length (distribute k i s) = length s"
  by (induction k arbitrary: i s) (auto simp: bumpAt_def)

lemma nth_distribute:
  "i + k \<le> length s \<Longrightarrow> j < length s \<Longrightarrow>
     distribute k i s ! j = s ! j + (if i \<le> j \<and> j < i + k then 1 else 0)"
proof (induction k arbitrary: i s)
  case (Suc k)
  then show ?case by (auto simp: bumpAt_def nth_list_update)
qed simp

lemma sum_distribute: "i + k \<le> length s \<Longrightarrow> sum_list (distribute k i s) = sum_list s + int k"
  by (induction k arbitrary: i s) (auto simp: bumpAt_def sum_list_update_int)

lemma allocate_eq_Inl_iff:
  "allocate m ratios = Inl e \<longleftrightarrow>
     (if ratios = [] then e = AllocateEmptyError
      else if \<exists>r \<in> set ratios. r < 0 then e = AllocateNegativeRatioError
      else sum_list ratios = 0 \<and> e = AllocateZeroTotalError)"
proof (cases "ratioTotal 0 ratios")
  case (Inl a)
  then have "\<exists>r \<in> set ratios. r < 0" "a = AllocateNegativeRatioError"
    by (simp_all add: ratioTotal_eq_Inl_iff)
  with Inl show ?thesis by (auto simp: allocate_def)
next
  case (Inr t)
  then have "\<forall>r \<in> set ratios. \<not> r < 0" and "t = sum_list ratios"
    by (auto simp: ratioTotal_eq_Inr_iff)
  then show ?thesis using Inr by (auto simp: allocate_def split: prod.splits)
qed

text \<open>The floored shares miss less than one unit per ratio.\<close>

lemma floor_shares_bound:
  assumes "0 < (t :: int)"
  shows "(\<Sum>r \<leftarrow> rs. (a * r) div t) * t \<le> a * sum_list rs"
    and "a * sum_list rs - (\<Sum>r \<leftarrow> rs. (a * r) div t) * t \<le> int (length rs) * (t - 1)"
proof (induction rs)
  case (Cons r rs)
  have "0 \<le> (a * r) mod t" "(a * r) mod t \<le> t - 1" using assms by auto
  moreover have "(a * r) div t * t = a * r - (a * r) mod t" by (simp add: minus_mod_eq_div_mult)
  ultimately have "(a * r) div t * t \<le> a * r" "a * r - (a * r) div t * t \<le> t - 1" by linarith+
  then show "(\<Sum>r \<leftarrow> r # rs. (a * r) div t) * t \<le> a * sum_list (r # rs)"
    and "a * sum_list (r # rs) - (\<Sum>r \<leftarrow> r # rs. (a * r) div t) * t
      \<le> int (length (r # rs)) * (t - 1)"
    using Cons by (auto simp: algebra_simps)
qed simp_all

lemma floor_remainder_bound:
  assumes "0 < sum_list rs"
  defines "t \<equiv> sum_list rs"
  shows "0 \<le> a - (\<Sum>r \<leftarrow> rs. (a * r) div t)" "a - (\<Sum>r \<leftarrow> rs. (a * r) div t) < int (length rs)"
proof -
  let ?s = "\<Sum>r \<leftarrow> rs. (a * r) div t"
  have t: "0 < t" using assms by simp
  have lo: "?s * t \<le> a * t" using floor_shares_bound(1)[OF t, of a rs] by (simp add: t_def)
  then show "0 \<le> a - ?s" using t by simp
  have "rs \<noteq> []" using assms by auto
  then have "int (length rs) * (t - 1) < int (length rs) * t" using t by simp
  moreover have "a * t - ?s * t \<le> int (length rs) * (t - 1)"
    using floor_shares_bound(2)[OF t, of a rs] by (simp add: t_def)
  ultimately have "(a - ?s) * t < int (length rs) * t"
    by (simp add: left_diff_distrib)
  then show "a - ?s < int (length rs)" using t by simp
qed

lemma allocate_eq_Inr:
  assumes ok: "allocate m ratios = Inr ms"
  defines "t \<equiv> sum_list ratios"
  defines "base \<equiv> map (\<lambda>r. (amount m * r) sdiv t) ratios"
  shows "\<forall>r \<in> set ratios. 0 \<le> r" "0 < t" "ratios \<noteq> []"
    "map amount ms = distribute (nat (amount m - sum_list base)) 0 base"
    "\<forall>x \<in> set ms. currency x = currency m"
proof -
  from ok have ne: "ratios \<noteq> []" by (auto simp: allocate_def)
  from ok ne obtain u where u: "ratioTotal 0 ratios = Inr u" by (auto simp: allocate_def)
  then have nn: "\<forall>r \<in> set ratios. 0 \<le> r" and ut: "u = t" by (auto simp: ratioTotal_eq_Inr_iff t_def)
  from ok ne u have "u \<noteq> 0" by (auto simp: allocate_def)
  moreover have "0 \<le> t" using nn by (simp add: t_def sum_list_nonneg)
  ultimately show "0 < t" using ut by simp
  show "\<forall>r \<in> set ratios. 0 \<le> r" "ratios \<noteq> []" by fact+
  have ms: "ms = map (\<lambda>s. fromMinor s (currency m))
      (distribute (nat (amount m - sum_list base)) 0 base)"
    using ok ne u \<open>u \<noteq> 0\<close> by (auto simp: allocate_def shareLoop_eq base_def ut comp_def)
  then show "map amount ms = distribute (nat (amount m - sum_list base)) 0 base"
    by (simp add: comp_def)
  show "\<forall>x \<in> set ms. currency x = currency m" using ms by auto
qed

text \<open>
  On a non-negative amount the shares add up to the amount, all in its currency, one per
  ratio, and the share of each ratio is its exact proportion rounded down, or one unit more.
\<close>

lemma allocate_nonneg:
  assumes ok: "allocate m ratios = Inr ms" and nn: "0 \<le> amount m"
  defines "t \<equiv> sum_list ratios"
  shows "sum_list (map amount ms) = amount m" "length ms = length ratios"
    "i < length ratios \<Longrightarrow>
       amount (ms ! i) = amount m * ratios ! i div t \<or> amount (ms ! i) = amount m * ratios ! i div t + 1"
proof -
  let ?base = "map (\<lambda>r. (amount m * r) sdiv t) ratios"
  note f = allocate_eq_Inr[OF ok, folded t_def]
  have "(amount m * r) sdiv t = (amount m * r) div t" if "r \<in> set ratios" for r
    using f(1,2) nn that by (intro sdiv_nonneg) auto
  then have base: "?base = map (\<lambda>r. (amount m * r) div t) ratios" by simp
  let ?k = "nat (amount m - sum_list ?base)"
  have eq: "sum_list ?base = (\<Sum>r \<leftarrow> ratios. (amount m * r) div t)" by (simp only: base)
  have bnd: "0 \<le> amount m - sum_list ?base" "amount m - sum_list ?base < int (length ratios)"
    using floor_remainder_bound[of ratios "amount m", folded t_def] f(2) eq by simp_all
  then have le: "0 + ?k \<le> length ?base" by simp
  show len: "length ms = length ratios"
    using length_distribute[OF le] f(4) by (metis length_map)
  show "sum_list (map amount ms) = amount m"
    using sum_distribute[OF le] f(4) bnd by simp
  assume i: "i < length ratios"
  then have "amount (ms ! i) = distribute ?k 0 ?base ! i"
    using f(4) len by (metis nth_map)
  also have "\<dots> = (amount m * ratios ! i) div t + (if i < ?k then 1 else 0)"
  proof -
    have "?base ! i = (amount m * ratios ! i) div t" using i base by (metis nth_map)
    then show ?thesis using nth_distribute[OF le, of i] i unfolding length_map by presburger
  qed
  finally show "amount (ms ! i) = amount m * ratios ! i div t \<or>
      amount (ms ! i) = amount m * ratios ! i div t + 1"
    by auto
qed

section \<open>Properties\<close>

text \<open>
  Splitting a non-negative amount over non-negative ratios that are not all zero always
  returns, one share per ratio and all in the same currency; the shares add up to exactly the
  amount, and every share is its exact proportion rounded down, or one minor unit more.
\<close>

theorem allocate_conserves:
  assumes "0 \<le> amount m" "ratios \<noteq> []" "\<forall>r \<in> set ratios. 0 \<le> r" "0 < sum_list ratios"
  shows "\<exists>ms. allocate m ratios = Inr ms \<and> sum_list (map amount ms) = amount m
    \<and> length ms = length ratios \<and> (\<forall>x \<in> set ms. currency x = currency m)
    \<and> (\<forall>i < length ratios. amount (ms ! i) - amount m * ratios ! i div sum_list ratios \<in> {0, 1})"
proof -
  have "\<nexists>e. allocate m ratios = Inl e"
    using assms by (auto simp: allocate_eq_Inl_iff)
  then obtain ms where ms: "allocate m ratios = Inr ms" by (cases "allocate m ratios") auto
  have "amount (ms ! i) - amount m * ratios ! i div sum_list ratios \<in> {0, 1}"
    if "i < length ratios" for i
    using allocate_nonneg(3)[OF ms assms(1) that] by auto
  then show ?thesis
    using ms allocate_nonneg(1,2)[OF ms assms(1)] allocate_eq_Inr(5)[OF ms] by blast
qed

theorem allocate_conserves_witness:
  "\<exists>ms. allocate (fromMinor 100 UZS) [1, 1, 1] = Inr ms \<and> sum_list (map amount ms) = 100
    \<and> length ms = 3"
  using allocate_conserves [of "fromMinor 100 UZS" "[1, 1, 1]"] by auto

text \<open>
  On a negative amount the guarantee fails: the truncated shares leave a negative
  remainder that the distribution loop never hands out, so a refund of 100 tiyin split
  three ways comes back as 99.
\<close>

theorem allocate_negative_loses:
  "allocate (fromMinor (- 100) UZS) [1, 1, 1]
     = Inr (replicate 3 (fromMinor (- 33) UZS)) \<and> 3 * (- 33) \<noteq> (- 100 :: int)"
  by (simp add: allocate_def signed_divide_int_def numeral_eq_Suc)

text \<open>
  \<open>percentage\<close> on a non-negative amount and rate is the exact commission rounded up to
  the next minor unit.
\<close>

theorem percentage_rounds_up:
  assumes "0 \<le> amount m" "0 \<le> bp"
  shows "\<exists>p. percentage m bp = Inr p \<and> currency p = currency m
    \<and> amount m * bp \<le> amount p * 10000 \<and> amount p * 10000 < amount m * bp + 10000"
proof -
  have nn: "0 \<le> amount m * bp" using assms by simp
  then have e: "(amount m * bp + 10000 - 1) sdiv 10000 = (amount m * bp + 10000 - 1) div 10000"
    by (simp add: sdiv_nonneg)
  have lo: "x \<le> (x + 10000 - 1) div 10000 * 10000" for x :: int by linarith
  have hi: "(x + 10000 - 1) div 10000 * 10000 < x + 10000" for x :: int by linarith
  have "amount m * bp \<le> (amount m * bp + 10000 - 1) sdiv 10000 * 10000
      \<and> (amount m * bp + 10000 - 1) sdiv 10000 * 10000 < amount m * bp + 10000"
    unfolding e by (intro conjI lo hi)
  moreover have "percentage m bp
      = Inr (fromMinor ((amount m * bp + 10000 - 1) sdiv 10000) (currency m))"
    using assms(1) unfolding percentage_def Let_def by simp
  ultimately show ?thesis by auto
qed

theorem percentage_rounds_up_witness:
  "\<exists>p. percentage (fromMinor 1 UZS) 5000 = Inr p \<and> 5000 \<le> amount p * 10000
    \<and> amount p * 10000 < 15000"
  using percentage_rounds_up [of "fromMinor 1 UZS" 5000] by auto

text \<open>
  The text \<open>format\<close> parses back to a number carries a second minus sign whenever a negative
  amount is not a whole number of major units; \<^verbatim>\<open>Number\<close> of such a text is \<^verbatim>\<open>NaN\<close>.
\<close>

lemma formatText_negative: "formatText (fromMinor (- 150) UZS) = ''-1.-50''"
  by (simp add: formatText_def signed_divide_int_def signed_modulo_int_def showInt_def
      showNat.simps padStart2_def)

lemma toJSON_roundtrip: "map_option (\<lambda>a. fromMinor a (snd (toJSON m))) (readInt (fst (toJSON m))) = Some m"
  by (simp add: toJSON_def)

end
