(* ===== verification/Ledger.thy ===== *)
theory Ledger
  imports Prelude
begin

text \<open>
  \<^verbatim>\<open>src/core/billing/ledger.ts\<close>: the pure builder of double-entry transactions. Account
  codes are the strings the code indexes its chart of accounts with, since the builder
  checks them at run time; amounts in tiyin are \<open>int\<close> for \<^verbatim>\<open>bigint\<close>. The lemmas show that
  exactly the balanced transactions are built, that reversing undoes a transaction account
  by account, and that every history of accepted transactions keeps the trial balance zero.
\<close>

section \<open>Chart of accounts\<close>

datatype LedgerAccountKind = Asset | Revenue | Liability | Expense

definition LEDGER_ACCOUNTS :: "(string \<times> LedgerAccountKind) list" where
  "LEDGER_ACCOUNTS =
    [(''cash.click'', Asset), (''cash.payme'', Asset), (''cash.uzum'', Asset),
     (''cash.bank_transfer'', Asset), (''cash.manual'', Asset),
     (''revenue.entry_fee'', Revenue), (''revenue.subscription'', Revenue),
     (''revenue.commission'', Revenue),
     (''liability.organizer_payable'', Liability), (''liability.tax_payable'', Liability),
     (''expense.provider_fee'', Expense)]"

text \<open>
  The run-time check is \<^verbatim>\<open>account in LEDGER_ACCOUNTS\<close>. The table is a plain object, so the
  operator also finds the names every object inherits from \<^verbatim>\<open>Object.prototype\<close>.
\<close>

definition objectPrototypeNames :: "string list" where
  "objectPrototypeNames =
    [''constructor'', ''__defineGetter__'', ''__defineSetter__'', ''hasOwnProperty'',
     ''__lookupGetter__'', ''__lookupSetter__'', ''isPrototypeOf'', ''propertyIsEnumerable'',
     ''toString'', ''valueOf'', ''__proto__'', ''toLocaleString'']"

definition inLedgerAccounts :: "string \<Rightarrow> bool" where
  "inLedgerAccounts a \<longleftrightarrow> a \<in> set (map fst LEDGER_ACCOUNTS) \<or> a \<in> set objectPrototypeNames"

section \<open>Entries and transactions\<close>

datatype LedgerEntryDirection = DEBIT | CREDIT

datatype LedgerPaymentProvider = CLICK | PAYME | UZUM | BANK_TRANSFER | MANUAL

record LedgerEntryInput =
  account :: string
  direction :: LedgerEntryDirection
  amountTiyin :: int

text \<open>Why a transaction was refused; both totals travel with the error.\<close>

datatype LedgerFault = TooFewEntries nat | NonPositiveAmount string int | UnknownAccount string | Unbalanced

datatype LedgerImbalanceError =
  LedgerImbalanceError LedgerFault (debitTotalTiyin: int) (creditTotalTiyin: int)

fun sumLoop :: "LedgerEntryDirection \<Rightarrow> int \<Rightarrow> LedgerEntryInput list \<Rightarrow> int" where
  "sumLoop d acc [] = acc"
| "sumLoop d acc (e # es) = sumLoop d (if direction e = d then acc + amountTiyin e else acc) es"

definition sumByDirection :: "LedgerEntryInput list \<Rightarrow> LedgerEntryDirection \<Rightarrow> int" where
  "sumByDirection entries d = sumLoop d 0 entries"

definition imbalance :: "LedgerFault \<Rightarrow> LedgerEntryInput list \<Rightarrow> LedgerImbalanceError" where
  "imbalance f entries =
     LedgerImbalanceError f (sumByDirection entries DEBIT) (sumByDirection entries CREDIT)"

definition checkEntry ::
  "LedgerEntryInput list \<Rightarrow> LedgerEntryInput \<Rightarrow> LedgerImbalanceError + unit" where
  "checkEntry entries e =
     (if amountTiyin e \<le> 0 then Inl (imbalance (NonPositiveAmount (account e) (amountTiyin e)) entries)
      else if \<not> inLedgerAccounts (account e) then Inl (imbalance (UnknownAccount (account e)) entries)
      else Inr ())"

definition buildLedgerTransaction ::
  "LedgerEntryInput list \<Rightarrow> LedgerImbalanceError + LedgerEntryInput list" where
  "buildLedgerTransaction entries =
     (if length entries < 2 then Inl (imbalance (TooFewEntries (length entries)) entries)
      else bindE (forE (checkEntry entries) entries) (\<lambda>_.
        let debit = sumByDirection entries DEBIT; credit = sumByDirection entries CREDIT
        in if debit \<noteq> credit then Inl (LedgerImbalanceError Unbalanced debit credit)
           else Inr entries))"

fun oppositeDirection :: "LedgerEntryDirection \<Rightarrow> LedgerEntryDirection" where
  "oppositeDirection DEBIT = CREDIT"
| "oppositeDirection CREDIT = DEBIT"

definition reverseEntry :: "LedgerEntryInput \<Rightarrow> LedgerEntryInput" where
  "reverseEntry e =
     \<lparr>account = account e, direction = oppositeDirection (direction e), amountTiyin = amountTiyin e\<rparr>"

definition reverseLedgerEntries ::
  "LedgerEntryInput list \<Rightarrow> LedgerImbalanceError + LedgerEntryInput list" where
  "reverseLedgerEntries entries = buildLedgerTransaction (map reverseEntry entries)"

fun cashAccountForProvider :: "LedgerPaymentProvider \<Rightarrow> string" where
  "cashAccountForProvider CLICK = ''cash.click''"
| "cashAccountForProvider PAYME = ''cash.payme''"
| "cashAccountForProvider UZUM = ''cash.uzum''"
| "cashAccountForProvider BANK_TRANSFER = ''cash.bank_transfer''"
| "cashAccountForProvider MANUAL = ''cash.manual''"

definition buildEntryFeePaymentEntries ::
  "LedgerPaymentProvider \<Rightarrow> int \<Rightarrow> LedgerImbalanceError + LedgerEntryInput list" where
  "buildEntryFeePaymentEntries provider amt = buildLedgerTransaction
     [\<lparr>account = cashAccountForProvider provider, direction = DEBIT, amountTiyin = amt\<rparr>,
      \<lparr>account = ''liability.organizer_payable'', direction = CREDIT, amountTiyin = amt\<rparr>]"

section \<open>Specification: balances and histories\<close>

text \<open>
  The signed effect of entries on an account (debit positive) is the abstract view of a
  ledger; a book is the append-only list of accepted transactions.
\<close>

definition acceptable :: "LedgerEntryInput list \<Rightarrow> bool" where
  "acceptable es \<longleftrightarrow> 2 \<le> length es
     \<and> (\<forall>e \<in> set es. 0 < amountTiyin e \<and> inLedgerAccounts (account e))
     \<and> sumByDirection es DEBIT = sumByDirection es CREDIT"

definition signedAmount :: "LedgerEntryInput \<Rightarrow> int" where
  "signedAmount e = (case direction e of DEBIT \<Rightarrow> amountTiyin e | CREDIT \<Rightarrow> - amountTiyin e)"

definition accountBalance :: "string \<Rightarrow> LedgerEntryInput list \<Rightarrow> int" where
  "accountBalance a es = (\<Sum>e \<leftarrow> es. if account e = a then signedAmount e else 0)"

inductive book :: "LedgerEntryInput list \<Rightarrow> bool" where
  book_empty: "book []"
| book_post: "book es \<Longrightarrow> buildLedgerTransaction tx = Inr tx' \<Longrightarrow> book (es @ tx')"
| book_refund: "book es \<Longrightarrow> buildLedgerTransaction tx = Inr tx' \<Longrightarrow> reverseLedgerEntries tx' = Inr r
    \<Longrightarrow> book (es @ r)"

section \<open>Lemmas\<close>

lemma sumLoop_eq: "sumLoop d acc es = acc + (\<Sum>e \<leftarrow> es. if direction e = d then amountTiyin e else 0)"
  by (induction es arbitrary: acc) auto

lemma sumByDirection_eq:
  "sumByDirection es d = (\<Sum>e \<leftarrow> es. if direction e = d then amountTiyin e else 0)"
  by (simp add: sumByDirection_def sumLoop_eq)

lemma sumByDirection_append [simp]:
  "sumByDirection (xs @ ys) d = sumByDirection xs d + sumByDirection ys d"
  by (simp add: sumByDirection_eq)

lemma sumByDirection_reverse [simp]:
  "sumByDirection (map reverseEntry es) d = sumByDirection es (oppositeDirection d)"
  by (induction es) (cases d; auto simp: sumByDirection_eq reverseEntry_def
      split: LedgerEntryDirection.splits elim: oppositeDirection.elims)+

lemma reverseEntry_sel [simp]:
  "account (reverseEntry e) = account e" "amountTiyin (reverseEntry e) = amountTiyin e"
  "direction (reverseEntry e) = oppositeDirection (direction e)"
  by (simp_all add: reverseEntry_def)

lemma oppositeDirection_twice [simp]: "oppositeDirection (oppositeDirection d) = d"
  by (cases d) auto

lemma reverseEntry_twice [simp]: "reverseEntry (reverseEntry e) = e"
  by (simp add: reverseEntry_def)

lemma signedAmount_reverse [simp]: "signedAmount (reverseEntry e) = - signedAmount e"
  by (cases "direction e") (simp_all add: signedAmount_def)

lemma checkEntry_eq_Inr_iff:
  "checkEntry es e = Inr () \<longleftrightarrow> 0 < amountTiyin e \<and> inLedgerAccounts (account e)"
  by (auto simp: checkEntry_def)

lemma buildLedgerTransaction_iff:
  "buildLedgerTransaction es = Inr tx \<longleftrightarrow> acceptable es \<and> tx = es"
  by (auto simp: buildLedgerTransaction_def acceptable_def forE_eq_Inr_iff checkEntry_eq_Inr_iff
      Let_def)

lemma buildLedgerTransaction_InlD: "buildLedgerTransaction es = Inl e \<Longrightarrow> \<not> acceptable es"
  using buildLedgerTransaction_iff[of es es] by auto

lemma acceptable_reverse: "acceptable (map reverseEntry es) \<longleftrightarrow> acceptable es"
  by (auto simp: acceptable_def)

lemma accountBalance_append [simp]:
  "accountBalance a (xs @ ys) = accountBalance a xs + accountBalance a ys"
  by (simp add: accountBalance_def)

lemma accountBalance_reverse [simp]: "accountBalance a (map reverseEntry es) = - accountBalance a es"
  by (induction es) (auto simp: accountBalance_def)

lemma sum_signed: "(\<Sum>e \<leftarrow> es. signedAmount e) = sumByDirection es DEBIT - sumByDirection es CREDIT"
proof (induction es)
  case (Cons e es)
  then show ?case by (cases "direction e") (simp_all add: sumByDirection_eq signedAmount_def)
qed (simp add: sumByDirection_eq)

lemma book_balanced: "book es \<Longrightarrow> sumByDirection es DEBIT = sumByDirection es CREDIT"
  by (induction rule: book.induct)
    (auto simp: buildLedgerTransaction_iff reverseLedgerEntries_def acceptable_def sumByDirection_eq[of "[]"])

text \<open>Summed over the accounts a ledger touches, balances are the total signed amount.\<close>

lemma sum_accountBalance:
  assumes "finite A" "account ` set es \<subseteq> A"
  shows "(\<Sum>a \<in> A. accountBalance a es) = (\<Sum>e \<leftarrow> es. signedAmount e)"
  using assms(2)
proof (induction es)
  case (Cons e es)
  have "(\<Sum>a \<in> A. accountBalance a (e # es))
      = (\<Sum>a \<in> A. (if account e = a then signedAmount e else 0)) + (\<Sum>a \<in> A. accountBalance a es)"
    by (simp add: accountBalance_def sum.distrib)
  then show ?case using Cons assms(1) by (simp add: sum.delta)
qed (simp add: accountBalance_def)

section \<open>Properties\<close>

text \<open>
  The builder accepts exactly the transactions with at least two entries, positive amounts,
  known account names and equal debit and credit totals, and returns them unchanged; otherwise
  the error it throws carries the true totals of the refused entries.
\<close>

theorem buildLedgerTransaction_exact:
  "(case buildLedgerTransaction es of
      Inr tx \<Rightarrow> tx = es \<and> acceptable es
    | Inl (LedgerImbalanceError f d c) \<Rightarrow>
        \<not> acceptable es \<and> d = sumByDirection es DEBIT \<and> c = sumByDirection es CREDIT)"
proof (cases "buildLedgerTransaction es")
  case (Inr tx)
  then have "acceptable es" "tx = es" by (simp_all add: buildLedgerTransaction_iff)
  with Inr show ?thesis by simp
next
  case (Inl err)
  then have "\<not> acceptable es" using buildLedgerTransaction_iff[of es es] by auto
  moreover have "\<exists>f. err = imbalance f es"
    using Inl by (auto simp: buildLedgerTransaction_def Let_def bindE_eq_Inl_iff imbalance_def
        checkEntry_def dest!: forE_eq_Inl_D split: if_splits)
  ultimately show ?thesis using Inl by (auto simp: imbalance_def)
qed

text \<open>
  Reversing an accepted transaction is always accepted, is undone by reversing again, and
  brings every account back to its balance before the transaction.
\<close>

theorem reverse_restores_balances:
  assumes "buildLedgerTransaction es = Inr tx"
  shows "\<exists>r. reverseLedgerEntries tx = Inr r \<and> reverseLedgerEntries r = Inr tx
    \<and> (\<forall>a bk. accountBalance a (bk @ tx @ r) = accountBalance a bk)"
proof (intro exI conjI allI)
  let ?r = "map reverseEntry tx"
  have ok: "acceptable tx" using assms by (simp add: buildLedgerTransaction_iff)
  show "reverseLedgerEntries tx = Inr ?r"
    using ok by (simp add: reverseLedgerEntries_def buildLedgerTransaction_iff acceptable_reverse)
  show "reverseLedgerEntries ?r = Inr tx"
    using ok by (simp add: reverseLedgerEntries_def buildLedgerTransaction_iff comp_def)
  show "accountBalance a (bk @ tx @ ?r) = accountBalance a bk" for a bk by simp
qed

theorem reverse_restores_balances_witness:
  "\<exists>tx r. buildEntryFeePaymentEntries CLICK 500 = Inr tx \<and> reverseLedgerEntries tx = Inr r
    \<and> reverseLedgerEntries r = Inr tx"
proof -
  let ?tx = "[\<lparr>account = ''cash.click'', direction = DEBIT, amountTiyin = 500\<rparr>,
      \<lparr>account = ''liability.organizer_payable'', direction = CREDIT, amountTiyin = 500\<rparr>]"
  have "buildLedgerTransaction ?tx = Inr ?tx" "buildEntryFeePaymentEntries CLICK 500 = Inr ?tx"
    by (simp_all add: buildEntryFeePaymentEntries_def buildLedgerTransaction_iff acceptable_def
        inLedgerAccounts_def LEDGER_ACCOUNTS_def sumByDirection_def)
  then show ?thesis using reverse_restores_balances[of ?tx ?tx] by blast
qed

text \<open>
  The double-entry invariant over a whole history: in every book grown by accepted
  transactions and refunds, total debits equal total credits, and the balances of all
  accounts together sum to zero.
\<close>

theorem book_trial_balance:
  assumes "book es"
  shows "sumByDirection es DEBIT = sumByDirection es CREDIT
    \<and> (\<Sum>a \<in> account ` set es. accountBalance a es) = 0"
  using book_balanced[OF assms] sum_accountBalance[of "account ` set es" es] by (simp add: sum_signed)

theorem book_trial_balance_witness:
  "\<exists>es. book es \<and> length es = 2 \<and> sumByDirection es DEBIT = sumByDirection es CREDIT"
proof -
  let ?tx = "[\<lparr>account = ''cash.manual'', direction = DEBIT, amountTiyin = 7\<rparr>,
      \<lparr>account = ''liability.organizer_payable'', direction = CREDIT, amountTiyin = 7\<rparr>]"
  have "buildLedgerTransaction ?tx = Inr ?tx"
    by (simp add: buildLedgerTransaction_iff acceptable_def inLedgerAccounts_def
        LEDGER_ACCOUNTS_def sumByDirection_def)
  then have "book ?tx" using book_post[OF book_empty] by force
  with book_trial_balance[OF this] show ?thesis by (intro exI[of _ ?tx]) simp
qed

text \<open>
  A start-fee payment is posted exactly when its amount is positive; it debits the cash
  account of the provider, credits the organizer liability, and moves nothing else.
\<close>

theorem entryFee_posting:
  "(case buildEntryFeePaymentEntries p amt of
      Inr tx \<Rightarrow> 0 < amt \<and> (\<forall>a. accountBalance a tx =
        (if a = cashAccountForProvider p then amt
         else if a = ''liability.organizer_payable'' then - amt else 0))
    | Inl err \<Rightarrow> amt \<le> 0)"
proof -
  have "inLedgerAccounts (cashAccountForProvider p)" "inLedgerAccounts ''liability.organizer_payable''"
    by (cases p; simp add: LEDGER_ACCOUNTS_def inLedgerAccounts_def)+
  moreover have "cashAccountForProvider p \<noteq> ''liability.organizer_payable''" by (cases p) simp_all
  ultimately show ?thesis
    by (auto simp: buildEntryFeePaymentEntries_def buildLedgerTransaction_iff acceptable_def
        sumByDirection_def accountBalance_def signedAmount_def
        split: sum.splits dest!: buildLedgerTransaction_InlD)
qed

text \<open>
  The run-time guard against unknown accounts lets the inherited property names of a plain
  object through.
\<close>

lemma inherited_name_accepted:
  "buildLedgerTransaction
     [\<lparr>account = ''toString'', direction = DEBIT, amountTiyin = 1\<rparr>,
      \<lparr>account = ''cash.click'', direction = CREDIT, amountTiyin = 1\<rparr>]
   = Inr [\<lparr>account = ''toString'', direction = DEBIT, amountTiyin = 1\<rparr>,
      \<lparr>account = ''cash.click'', direction = CREDIT, amountTiyin = 1\<rparr>]"
  by (simp add: buildLedgerTransaction_iff acceptable_def inLedgerAccounts_def
      LEDGER_ACCOUNTS_def objectPrototypeNames_def sumByDirection_def)

end
