(* ===== verification/Clock.thy ===== *)
theory Clock
  imports Prelude
begin

text \<open>
  \<^verbatim>\<open>src/core/clock/chess-clock.ts\<close>, \<^verbatim>\<open>src/core/clock/time-category.ts\<close> and the guard
  \<^verbatim>\<open>src/modules/play/time-control.guard.ts\<close>. Times are whole milliseconds (\<^verbatim>\<open>Date.now()\<close> and
  integer database columns), hence \<open>int\<close>; they are always finite, so the \<^verbatim>\<open>isFinite\<close> half of
  the configuration checks holds. The time source stays outside: every function takes
  \<open>now\<close>. The lemmas give the clock invariant, the agreement of the proactive flag test with
  the reactive one, the delay rules, and the conservation law over whole games.
\<close>

section \<open>State\<close>

datatype ClockSide = W | B

datatype ChessClockType =
  SUDDEN_DEATH | FISCHER_INCREMENT | BRONSTEIN_DELAY | SIMPLE_DELAY | MULTI_STAGE

record ClockConfig =
  clockType :: ChessClockType
  baseMs :: int
  incrementMs :: int

record ClockState =
  whiteRemainingMs :: int
  blackRemainingMs :: int
  turn :: ClockSide
  lastEventAtMs :: int

text \<open>The code strings of the \<^verbatim>\<open>BusinessRuleError\<close>s the clock throws.\<close>

datatype ClockError = CLOCK_TYPE_NOT_IMPLEMENTED | CLOCK_INVALID_BASE | CLOCK_INVALID_INCREMENT

record ApplyMoveResult =
  flagged :: bool
  newState :: ClockState
  elapsedMs :: int

section \<open>Operations\<close>

definition assertSupported :: "ClockConfig \<Rightarrow> ClockError + unit" where
  "assertSupported config =
     (if clockType config = MULTI_STAGE then Inl CLOCK_TYPE_NOT_IMPLEMENTED
      else if baseMs config \<le> 0 then Inl CLOCK_INVALID_BASE
      else if incrementMs config < 0 then Inl CLOCK_INVALID_INCREMENT
      else Inr ())"

definition createClock :: "ClockConfig \<Rightarrow> ClockSide \<Rightarrow> int \<Rightarrow> ClockError + ClockState" where
  "createClock config side now = bindE (assertSupported config) (\<lambda>_.
     Inr \<lparr>whiteRemainingMs = baseMs config, blackRemainingMs = baseMs config,
          turn = side, lastEventAtMs = now\<rparr>)"

definition elapsedOf :: "ClockState \<Rightarrow> int \<Rightarrow> int" where
  "elapsedOf s now = max 0 (now - lastEventAtMs s)"

definition chargeableMs :: "ClockConfig \<Rightarrow> int \<Rightarrow> ClockError + int" where
  "chargeableMs config elapsed =
     (case clockType config of
        SUDDEN_DEATH \<Rightarrow> Inr elapsed
      | FISCHER_INCREMENT \<Rightarrow> Inr elapsed
      | BRONSTEIN_DELAY \<Rightarrow> Inr (max 0 (elapsed - incrementMs config))
      | SIMPLE_DELAY \<Rightarrow> Inr (max 0 (elapsed - incrementMs config))
      | MULTI_STAGE \<Rightarrow> Inl CLOCK_TYPE_NOT_IMPLEMENTED)"

definition remainingOf :: "ClockState \<Rightarrow> ClockSide \<Rightarrow> int" where
  "remainingOf s side = (if side = W then whiteRemainingMs s else blackRemainingMs s)"

definition remaining :: "ClockConfig \<Rightarrow> ClockState \<Rightarrow> ClockSide \<Rightarrow> int \<Rightarrow> ClockError + int" where
  "remaining config s side now =
     (let stored = remainingOf s side
      in if side \<noteq> turn s then Inr stored
         else bindE (chargeableMs config (elapsedOf s now)) (\<lambda>c. Inr (max 0 (stored - c))))"

definition isFlagged :: "ClockConfig \<Rightarrow> ClockState \<Rightarrow> int \<Rightarrow> ClockError + bool" where
  "isFlagged config s now =
     bindE (chargeableMs config (elapsedOf s now)) (\<lambda>c. Inr (c > remainingOf s (turn s)))"

definition withRemaining :: "ClockState \<Rightarrow> ClockSide \<Rightarrow> int \<Rightarrow> int \<Rightarrow> ClockState" where
  "withRemaining s side v lastEvent =
     \<lparr>whiteRemainingMs = (if side = W then v else whiteRemainingMs s),
      blackRemainingMs = (if side = B then v else blackRemainingMs s),
      turn = turn s, lastEventAtMs = lastEvent\<rparr>"

fun otherSide :: "ClockSide \<Rightarrow> ClockSide" where
  "otherSide W = B"
| "otherSide B = W"

definition applyMove :: "ClockConfig \<Rightarrow> ClockState \<Rightarrow> int \<Rightarrow> ClockError + ApplyMoveResult" where
  "applyMove config s now = bindE (assertSupported config) (\<lambda>_.
     let elapsed = elapsedOf s now in
     bindE (chargeableMs config elapsed) (\<lambda>charge.
       let mover = turn s; stored = remainingOf s mover in
       if charge > stored then
         Inr \<lparr>flagged = True, newState = withRemaining s mover 0 (lastEventAtMs s), elapsedMs = elapsed\<rparr>
       else
         let increment = (if clockType config = FISCHER_INCREMENT then incrementMs config else 0);
             nextRemaining = stored - charge + increment
         in Inr \<lparr>flagged = False,
                 newState = (withRemaining s mover nextRemaining now)\<lparr>turn := otherSide mover\<rparr>,
                 elapsedMs = elapsed\<rparr>))"

text \<open>A game on the clock: moves arriving at the given times, until the flag falls.\<close>

fun playMoves :: "ClockConfig \<Rightarrow> ClockState \<Rightarrow> int list \<Rightarrow> ClockError + ApplyMoveResult list" where
  "playMoves config s [] = Inr []"
| "playMoves config s (t # ts) = bindE (applyMove config s t) (\<lambda>r.
     if flagged r then Inr [r]
     else bindE (playMoves config (newState r) ts) (\<lambda>rs. Inr (r # rs)))"

section \<open>Rating category of a time control\<close>

datatype TimeCategory = CLASSICAL | RAPID | BLITZ | BULLET

definition onlineTimeCategory :: "rat \<Rightarrow> rat \<Rightarrow> TimeCategory" where
  "onlineTimeCategory baseTimeSeconds incrementSeconds =
     (let effectiveMinutes = baseTimeSeconds / 60 + incrementSeconds
      in if effectiveMinutes < 3 then BULLET
         else if effectiveMinutes \<le> 10 then BLITZ
         else if effectiveMinutes < 30 then RAPID
         else CLASSICAL)"

text \<open>\<open>Inl expected\<close> is the \<^verbatim>\<open>TIME_CATEGORY_MISMATCH\<close> error, which names the expected category.\<close>

definition assertTimeCategoryMatches :: "TimeCategory \<Rightarrow> rat \<Rightarrow> rat \<Rightarrow> TimeCategory + unit" where
  "assertTimeCategoryMatches cat base inc =
     (let expected = onlineTimeCategory base inc in if cat = expected then Inr () else Inl expected)"

section \<open>Lemmas\<close>

definition clockInv :: "ClockState \<Rightarrow> bool" where
  "clockInv s \<longleftrightarrow> 0 \<le> whiteRemainingMs s \<and> 0 \<le> blackRemainingMs s"

definition supported :: "ClockConfig \<Rightarrow> bool" where
  "supported config \<longleftrightarrow> clockType config \<noteq> MULTI_STAGE \<and> 0 < baseMs config \<and> 0 \<le> incrementMs config"

lemma assertSupported_iff [simp]: "assertSupported config = Inr u \<longleftrightarrow> supported config"
  by (auto simp: assertSupported_def supported_def)

lemma supported_assert: "supported config \<Longrightarrow> assertSupported config = Inr ()"
  by simp

lemma otherSide_simps [simp]: "otherSide s \<noteq> s" "otherSide (otherSide s) = s" "s \<noteq> otherSide s"
  by (cases s; simp)+

lemma ClockSide_neq [simp]: "s \<noteq> W \<longleftrightarrow> s = B" "s \<noteq> B \<longleftrightarrow> s = W"
  by (cases s; simp)+

lemma remainingOf_withRemaining [simp]:
  "remainingOf (withRemaining s side v l) side' = (if side' = side then v else remainingOf s side')"
  "turn (withRemaining s side v l) = turn s" "lastEventAtMs (withRemaining s side v l) = l"
  by (cases side; cases side'; simp add: remainingOf_def withRemaining_def)+

lemma remainingOf_turn [simp]: "remainingOf (s\<lparr>turn := x\<rparr>) side = remainingOf s side"
  by (simp add: remainingOf_def)

lemma clockInv_remainingOf: "clockInv s \<longleftrightarrow> (\<forall>side. 0 \<le> remainingOf s side)"
  by (auto simp: clockInv_def remainingOf_def dest: spec[of _ W] spec[of _ B])

lemma elapsedOf_nonneg [simp]: "0 \<le> elapsedOf s now"
  by (simp add: elapsedOf_def)

text \<open>What is charged, as a total function for supported clocks.\<close>

definition charge :: "ClockConfig \<Rightarrow> int \<Rightarrow> int" where
  "charge config e =
     (if clockType config \<in> {BRONSTEIN_DELAY, SIMPLE_DELAY} then max 0 (e - incrementMs config) else e)"

definition incrementOf :: "ClockConfig \<Rightarrow> int" where
  "incrementOf config = (if clockType config = FISCHER_INCREMENT then incrementMs config else 0)"

lemma chargeableMs_eq: "clockType config \<noteq> MULTI_STAGE \<Longrightarrow> chargeableMs config e = Inr (charge config e)"
  by (cases "clockType config") (simp_all add: chargeableMs_def charge_def)

lemma charge_bounds: "0 \<le> e \<Longrightarrow> 0 \<le> incrementMs config \<Longrightarrow> 0 \<le> charge config e \<and> charge config e \<le> e"
  by (simp add: charge_def)

lemma supported_incrementMs: "supported config \<Longrightarrow> 0 \<le> incrementMs config"
  by (simp add: supported_def)

lemma incrementOf_nonneg: "supported config \<Longrightarrow> 0 \<le> incrementOf config"
  by (simp add: incrementOf_def supported_def)

lemma applyMove_eq:
  "supported config \<Longrightarrow> applyMove config s now =
     (let e = elapsedOf s now; c = charge config e; mover = turn s in
      Inr (if remainingOf s mover < c
           then \<lparr>flagged = True, newState = withRemaining s mover 0 (lastEventAtMs s), elapsedMs = e\<rparr>
           else \<lparr>flagged = False,
                 newState = (withRemaining s mover (remainingOf s mover - c + incrementOf config) now)
                   \<lparr>turn := otherSide mover\<rparr>,
                 elapsedMs = e\<rparr>))"
  by (simp add: applyMove_def chargeableMs_eq supported_assert supported_def Let_def incrementOf_def
      del: assertSupported_iff)

lemma applyMove_returns: "(\<exists>r. applyMove config s now = Inr r) \<longleftrightarrow> supported config"
proof
  assume "\<exists>r. applyMove config s now = Inr r"
  then show "supported config" by (auto simp: applyMove_def)
qed (simp add: applyMove_eq Let_def)

lemmas applyMove_facts = applyMove_eq Let_def charge_bounds incrementOf_nonneg

lemma applyMove_inv:
  assumes "supported config" "clockInv s" "applyMove config s now = Inr r"
  shows "clockInv (newState r)"
  using assms charge_bounds[of "elapsedOf s now" config] incrementOf_nonneg[of config]
  by (auto simp: applyMove_eq Let_def clockInv_remainingOf supported_def split: if_splits)

lemma applyMove_opponent:
  assumes "applyMove config s now = Inr r"
  shows "remainingOf (newState r) (otherSide (turn s)) = remainingOf s (otherSide (turn s))"
  using assms applyMove_returns[of config s now]
  by (auto simp: applyMove_eq Let_def split: if_splits)

lemma isFlagged_iff_applyMove:
  assumes "applyMove config s now = Inr r"
  shows "isFlagged config s now = Inr (flagged r)"
proof -
  have sup: "supported config" using assms applyMove_returns[of config s now] by blast
  then have "clockType config \<noteq> MULTI_STAGE" by (simp add: supported_def)
  with assms sup show ?thesis by (auto simp: isFlagged_def chargeableMs_eq applyMove_eq Let_def split: if_splits)
qed

lemma remaining_eq:
  "supported config \<Longrightarrow> remaining config s side now =
     Inr (if side \<noteq> turn s then remainingOf s side
          else max 0 (remainingOf s side - charge config (elapsedOf s now)))"
  by (simp add: remaining_def chargeableMs_eq supported_def Let_def)

lemma charge_mono: "e \<le> e' \<Longrightarrow> charge config e \<le> charge config e'"
  by (auto simp: charge_def max_def)

lemma elapsedOf_mono: "t \<le> t' \<Longrightarrow> elapsedOf s t \<le> elapsedOf s t'"
  by (simp add: elapsedOf_def)

section \<open>Whole games\<close>

text \<open>Both clocks together.\<close>

definition totalRemaining :: "ClockState \<Rightarrow> int" where
  "totalRemaining s = whiteRemainingMs s + blackRemainingMs s"

lemma totalRemaining_split:
  "totalRemaining s = remainingOf s side + remainingOf s (otherSide side)"
  by (cases side) (simp_all add: totalRemaining_def remainingOf_def)

lemma applyMove_total:
  assumes "supported config" "applyMove config s now = Inr r" "\<not> flagged r"
  shows "totalRemaining (newState r)
    = totalRemaining s - charge config (elapsedOf s now) + incrementOf config"
    and "lastEventAtMs (newState r) = now" "turn (newState r) = otherSide (turn s)"
    and "elapsedMs r = elapsedOf s now"
  using assms
  by (auto simp: applyMove_eq Let_def totalRemaining_split[of _ "turn s"] split: if_splits)

lemma playMoves_inv:
  assumes "supported config" "clockInv s" "playMoves config s ts = Inr rs"
  shows "\<forall>r \<in> set rs. clockInv (newState r)"
  using assms(2,3)
proof (induction ts arbitrary: s rs)
  case (Cons t ts)
  from Cons.prems(2) obtain r where r: "applyMove config s t = Inr r" by auto
  have inv: "clockInv (newState r)" by (rule applyMove_inv[OF assms(1) Cons.prems(1) r])
  show ?case
  proof (cases "flagged r")
    case True
    then show ?thesis using Cons.prems(2) r inv by auto
  next
    case False
    then obtain rs' where "playMoves config (newState r) ts = Inr rs'" "rs = r # rs'"
      using Cons.prems(2) r by auto
    then show ?thesis using Cons.IH[OF inv] inv by auto
  qed
qed simp

lemma playMoves_returns: "supported config \<Longrightarrow> \<exists>rs. playMoves config s ts = Inr rs"
proof (induction ts arbitrary: s)
  case (Cons t ts)
  then obtain r where "applyMove config s t = Inr r" using applyMove_returns by blast
  then show ?case using Cons.IH[OF Cons.prems, of "newState r"] Cons.prems by (cases "flagged r") auto
qed simp

text \<open>As long as no flag falls, the clocks lose exactly what is charged and gain the increments.\<close>

lemma playMoves_total:
  assumes "supported config" "playMoves config s ts = Inr rs" "\<forall>r \<in> set rs. \<not> flagged r"
  shows "length rs = length ts"
    and "totalRemaining (if rs = [] then s else newState (last rs))
      = totalRemaining s - (\<Sum>r \<leftarrow> rs. charge config (elapsedMs r)) + int (length ts) * incrementOf config"
  using assms(2,3)
proof (induction ts arbitrary: s rs)
  case (Cons t ts)
  {
    case 1
    from 1(1) obtain r where r: "applyMove config s t = Inr r" by auto
    with 1 have nf: "\<not> flagged r" by (auto split: if_splits)
    with 1 r obtain rs' where rs': "playMoves config (newState r) ts = Inr rs'" "rs = r # rs'" by auto
    with 1 show ?case using Cons.IH(1)[OF rs'(1)] by simp
  next
    case 2
    from 2(1) obtain r where r: "applyMove config s t = Inr r" by auto
    with 2 have nf: "\<not> flagged r" by (auto split: if_splits)
    with 2 r obtain rs' where rs': "playMoves config (newState r) ts = Inr rs'" "rs = r # rs'" by auto
    with 2 show ?case
      using Cons.IH(2)[OF rs'(1)] applyMove_total[OF assms(1) r nf]
      by (cases "rs' = []") (simp_all add: algebra_simps)
  }
qed simp_all

lemma playMoves_elapsed:
  assumes "supported config" "playMoves config s ts = Inr rs" "\<forall>r \<in> set rs. \<not> flagged r"
    "sorted (lastEventAtMs s # ts)"
  shows "(\<Sum>r \<leftarrow> rs. elapsedMs r) = last (lastEventAtMs s # ts) - lastEventAtMs s"
  using assms(2-4)
proof (induction ts arbitrary: s rs)
  case (Cons t ts)
  from Cons.prems(1) obtain r where r: "applyMove config s t = Inr r" by auto
  with Cons.prems have nf: "\<not> flagged r" by (auto split: if_splits)
  with Cons.prems r obtain rs' where rs': "playMoves config (newState r) ts = Inr rs'" "rs = r # rs'"
    by auto
  note tot = applyMove_total[OF assms(1) r nf]
  have "(\<Sum>r \<leftarrow> rs'. elapsedMs r) = last (t # ts) - t"
    using Cons.IH[OF rs'(1)] Cons.prems rs'(2) by (simp add: tot(2))
  moreover have "elapsedMs r = t - lastEventAtMs s"
    using Cons.prems(3) by (simp add: tot(4) elapsedOf_def)
  ultimately show ?case using rs'(2) by simp
qed simp

section \<open>Ordering of the categories\<close>

instantiation TimeCategory :: linorder
begin

fun rank_TimeCategory :: "TimeCategory \<Rightarrow> nat" where
  "rank_TimeCategory BULLET = 0"
| "rank_TimeCategory BLITZ = 1"
| "rank_TimeCategory RAPID = 2"
| "rank_TimeCategory CLASSICAL = 3"

definition less_eq_TimeCategory :: "TimeCategory \<Rightarrow> TimeCategory \<Rightarrow> bool" where
  "less_eq_TimeCategory a b \<longleftrightarrow> rank_TimeCategory a \<le> rank_TimeCategory b"

definition less_TimeCategory :: "TimeCategory \<Rightarrow> TimeCategory \<Rightarrow> bool" where
  "less_TimeCategory a b \<longleftrightarrow> rank_TimeCategory a < rank_TimeCategory b"

instance
proof
  fix x y :: TimeCategory
  show "x \<le> y \<Longrightarrow> y \<le> x \<Longrightarrow> x = y"
    by (cases x; cases y; simp add: less_eq_TimeCategory_def)
qed (auto simp: less_eq_TimeCategory_def less_TimeCategory_def)

end

section \<open>Properties\<close>

text \<open>
  Safety of the clock: a game started on a supported configuration can be played with any
  sequence of time stamps, also one that jumps backwards; the clock never throws, and after
  every move, flagged or not, neither player has negative time.
\<close>

theorem clock_never_negative:
  assumes "createClock config side t0 = Inr s"
  shows "\<exists>rs. playMoves config s ts = Inr rs
    \<and> (\<forall>r \<in> set rs. 0 \<le> whiteRemainingMs (newState r) \<and> 0 \<le> blackRemainingMs (newState r))"
proof -
  have sup: "supported config" and inv: "clockInv s"
    using assms by (auto simp: createClock_def clockInv_def supported_def)
  obtain rs where rs: "playMoves config s ts = Inr rs" using playMoves_returns[OF sup] by blast
  with playMoves_inv[OF sup inv rs] show ?thesis by (auto simp: clockInv_def)
qed

theorem clock_never_negative_witness:
  "\<exists>s rs. createClock \<lparr>clockType = FISCHER_INCREMENT, baseMs = 3000, incrementMs = 500\<rparr> W 0 = Inr s
    \<and> playMoves \<lparr>clockType = FISCHER_INCREMENT, baseMs = 3000, incrementMs = 500\<rparr> s [100, 40, 9000]
      = Inr rs \<and> (\<forall>r \<in> set rs. 0 \<le> whiteRemainingMs (newState r))"
proof -
  let ?c = "\<lparr>clockType = FISCHER_INCREMENT, baseMs = 3000, incrementMs = 500\<rparr>"
  let ?s = "\<lparr>whiteRemainingMs = 3000, blackRemainingMs = 3000, turn = W, lastEventAtMs = 0\<rparr>"
  have "createClock ?c W 0 = Inr ?s" by (simp add: createClock_def assertSupported_def)
  then show ?thesis using clock_never_negative[of ?c W 0 ?s "[100, 40, 9000]"] by blast
qed

text \<open>
  The proactive flag test and the reactive one agree: on a supported clock a move is refused
  as out of time exactly when \<open>isFlagged\<close> holds at that moment, which is when the charge
  strictly exceeds the mover's time; a fallen flag stays fallen, the refused mover is left with
  zero on an unchanged clock, and in either case the opponent's time does not move.
\<close>

theorem flag_agreement:
  assumes "supported config"
  shows "\<exists>r. applyMove config s now = Inr r \<and> isFlagged config s now = Inr (flagged r)
    \<and> (flagged r \<longleftrightarrow> remainingOf s (turn s) < charge config (elapsedOf s now))
    \<and> (flagged r \<longrightarrow> (\<forall>later \<ge> now. isFlagged config s later = Inr True)
        \<and> remainingOf (newState r) (turn s) = 0 \<and> turn (newState r) = turn s)
    \<and> remainingOf (newState r) (otherSide (turn s)) = remainingOf s (otherSide (turn s))"
proof -
  obtain r where r: "applyMove config s now = Inr r" using applyMove_returns assms by blast
  have eq: "flagged r \<longleftrightarrow> remainingOf s (turn s) < charge config (elapsedOf s now)"
    using r assms by (auto simp: applyMove_eq Let_def split: if_splits)
  have "isFlagged config s later = Inr True" if "flagged r" "now \<le> later" for later
  proof -
    have "charge config (elapsedOf s now) \<le> charge config (elapsedOf s later)"
      by (intro charge_mono elapsedOf_mono that)
    then show ?thesis using that eq assms by (simp add: isFlagged_def chargeableMs_eq supported_def)
  qed
  moreover have "flagged r \<longrightarrow> remainingOf (newState r) (turn s) = 0 \<and> turn (newState r) = turn s"
    using r assms by (auto simp: applyMove_eq Let_def split: if_splits)
  ultimately show ?thesis
    using r eq isFlagged_iff_applyMove[OF r] applyMove_opponent[OF r] by blast
qed

theorem flag_agreement_witness:
  "\<exists>r. applyMove \<lparr>clockType = SUDDEN_DEATH, baseMs = 10, incrementMs = 0\<rparr>
      \<lparr>whiteRemainingMs = 5, blackRemainingMs = 10, turn = W, lastEventAtMs = 0\<rparr> 6 = Inr r \<and> flagged r"
proof -
  have "supported \<lparr>clockType = SUDDEN_DEATH, baseMs = 10, incrementMs = 0\<rparr>"
    by (simp add: supported_def)
  from flag_agreement[OF this,
      of "\<lparr>whiteRemainingMs = 5, blackRemainingMs = 10, turn = W, lastEventAtMs = 0\<rparr>" 6]
  show ?thesis by (auto simp: remainingOf_def charge_def elapsedOf_def)
qed

text \<open>
  Conservation of time without delay: when moves arrive in order and no flag falls, both
  clocks together hold the two base times, plus one increment per move on a Fischer clock,
  minus exactly the wall time that has passed since the start.
\<close>

theorem clock_conservation:
  assumes "createClock config side t0 = Inr s" "clockType config \<in> {SUDDEN_DEATH, FISCHER_INCREMENT}"
    "playMoves config s ts = Inr rs" "\<forall>r \<in> set rs. \<not> flagged r" "sorted (t0 # ts)" "ts \<noteq> []"
  shows "totalRemaining (newState (last rs))
    = 2 * baseMs config + int (length ts) * incrementOf config - (last ts - t0)"
proof -
  have sup: "supported config" and s: "totalRemaining s = 2 * baseMs config" "lastEventAtMs s = t0"
    using assms(1) by (auto simp: createClock_def totalRemaining_def)
  have "charge config e = e" for e using assms(2) by (auto simp: charge_def)
  then have "(\<Sum>r \<leftarrow> rs. charge config (elapsedMs r)) = last ts - t0"
    using playMoves_elapsed[OF sup assms(3,4)] assms(5,6) s by simp
  moreover have "rs \<noteq> []" using playMoves_total(1)[OF sup assms(3,4)] assms(6) by auto
  ultimately show ?thesis using playMoves_total(2)[OF sup assms(3,4)] s by simp
qed

theorem clock_conservation_witness:
  "\<exists>rs. playMoves \<lparr>clockType = FISCHER_INCREMENT, baseMs = 1000, incrementMs = 20\<rparr>
      \<lparr>whiteRemainingMs = 1000, blackRemainingMs = 1000, turn = W, lastEventAtMs = 5\<rparr> [15, 45] = Inr rs
    \<and> totalRemaining (newState (last rs)) = 2000"
proof -
  let ?c = "\<lparr>clockType = FISCHER_INCREMENT, baseMs = 1000, incrementMs = 20\<rparr>"
  let ?s = "\<lparr>whiteRemainingMs = 1000, blackRemainingMs = 1000, turn = W, lastEventAtMs = 5\<rparr>"
  have sup: "supported ?c" by (simp add: supported_def)
  have s: "createClock ?c W 5 = Inr ?s" by (simp add: createClock_def assertSupported_def)
  obtain rs where rs: "playMoves ?c ?s [15, 45] = Inr rs" using playMoves_returns[OF sup] by blast
  have "\<forall>r \<in> set rs. \<not> flagged r"
    using rs by (auto simp: applyMove_eq[OF sup] Let_def remainingOf_def charge_def elapsedOf_def
        withRemaining_def incrementOf_def)
  from clock_conservation[OF s _ rs this] have "totalRemaining (newState (last rs)) = 2000"
    by (simp add: incrementOf_def)
  with rs show ?thesis by blast
qed

text \<open>
  Bronstein and simple delay charge what the textbook rule charges: the time spent, less
  a refund of at most the delay; so an accepted move leaves the mover with no more time than
  before it, and a move inside the delay costs nothing.
\<close>

theorem delay_refund_rule:
  assumes "supported config" "clockType config \<in> {BRONSTEIN_DELAY, SIMPLE_DELAY}"
    "applyMove config s now = Inr r" "\<not> flagged r"
  shows "remainingOf (newState r) (turn s)
      = remainingOf s (turn s) - elapsedMs r + min (elapsedMs r) (incrementMs config)
    \<and> remainingOf (newState r) (turn s) \<le> remainingOf s (turn s)
    \<and> (elapsedMs r \<le> incrementMs config \<longrightarrow> remainingOf (newState r) (turn s) = remainingOf s (turn s))"
  using assms by (auto simp: applyMove_eq Let_def charge_def incrementOf_def split: if_splits)

theorem delay_refund_rule_witness:
  "\<exists>r. applyMove \<lparr>clockType = BRONSTEIN_DELAY, baseMs = 1000, incrementMs = 20\<rparr>
      \<lparr>whiteRemainingMs = 1000, blackRemainingMs = 1000, turn = W, lastEventAtMs = 0\<rparr> 50 = Inr r
    \<and> remainingOf (newState r) W = 970"
proof -
  let ?c = "\<lparr>clockType = BRONSTEIN_DELAY, baseMs = 1000, incrementMs = 20\<rparr>"
  let ?s = "\<lparr>whiteRemainingMs = 1000, blackRemainingMs = 1000, turn = W, lastEventAtMs = 0\<rparr>"
  have sup: "supported ?c" by (simp add: supported_def)
  obtain r where r: "applyMove ?c ?s 50 = Inr r" using applyMove_returns sup by blast
  have f: "\<not> flagged r" "elapsedMs r = 50"
    using r by (auto simp: applyMove_eq[OF sup] Let_def remainingOf_def charge_def elapsedOf_def)
  from delay_refund_rule[OF sup _ r f(1)] f(2) r show ?thesis by (auto simp: remainingOf_def)
qed

text \<open>
  The guard on the rating pool accepts exactly one category for every time control, and a
  longer base time or increment never lands in a faster category.
\<close>

theorem time_category_guard:
  "(\<exists>!cat. assertTimeCategoryMatches cat base inc = Inr ())
    \<and> (\<forall>base' \<ge> base. \<forall>inc' \<ge> inc. onlineTimeCategory base inc \<le> onlineTimeCategory base' inc')"
proof (intro conjI allI impI)
  show "\<exists>!cat. assertTimeCategoryMatches cat base inc = Inr ()"
    by (rule ex1I[of _ "onlineTimeCategory base inc"])
      (auto simp: assertTimeCategoryMatches_def Let_def split: if_splits)
  fix base' inc' :: rat assume "base \<le> base'" "inc \<le> inc'"
  then have "base / 60 + inc \<le> base' / 60 + inc'" by (intro add_mono divide_right_mono) auto
  then show "onlineTimeCategory base inc \<le> onlineTimeCategory base' inc'"
    by (auto simp: onlineTimeCategory_def Let_def less_eq_TimeCategory_def)
qed

theorem time_category_guard_witness:
  "onlineTimeCategory 180 0 \<le> onlineTimeCategory 600 5 \<and> onlineTimeCategory 180 0 = BLITZ"
proof -
  have "onlineTimeCategory 180 0 \<le> onlineTimeCategory 600 5"
    using time_category_guard [of 180 0] by simp
  moreover have "onlineTimeCategory 180 0 = BLITZ" by (simp add: onlineTimeCategory_def)
  ultimately show ?thesis by simp
qed

end
