(* ===== verification/PairingTypes.thy ===== *)
theory PairingTypes
  imports Prelude
begin

text \<open>
  \<^verbatim>\<open>src/core/pairing/pairing.types.ts\<close>: the data exchanged with pairing engines, and the port
  they implement. The guarantees the port's documentation demands of every implementation
  are the locale \<open>pairing_port\<close>; what a caller may conclude from them is proved once inside
  it. The Swiss engine also gives the no-repeat guarantee, the extension \<open>pairing_port_c1\<close>.
  Scores are rationals (half points are exact in a \<^verbatim>\<open>number\<close>), round and pairing numbers
  integers, a \<^verbatim>\<open>ReadonlySet\<close> a set.
\<close>

type_synonym PlayerId = string
type_synonym RoundId = string

datatype Color = White | Black

datatype ColorPreferenceStrength = Absolute | Strong | Mild | NoStrength

record ColorPreference =
  prefColor :: "Color option"
  prefStrength :: ColorPreferenceStrength

datatype FloatDirection = NoFloat | Down | Up

datatype ByeType = PairingAllocated | Requested | ZeroPoint

record PlayerPairingState =
  playerId :: PlayerId
  pairingNumber :: int
  rating :: int
  points :: rat
  opponentIds :: "PlayerId set"
  colorHistory :: "Color list"
  floatHistory :: "FloatDirection list"
  hasReceivedBye :: bool
  isWithdrawn :: bool
  joinedAtRound :: int

record PairingRequest =
  roundId :: RoundId
  roundNumber :: int
  totalRounds :: int
  players :: "PlayerPairingState list"
  seed :: "int option"
  initialColor :: "Color option"

record Pairing =
  boardNumber :: int
  whitePlayerId :: PlayerId
  blackPlayerId :: PlayerId

record ByeAssignment =
  byePlayerId :: PlayerId
  byeType :: ByeType
  byePoints :: rat

text \<open>\<open>durationMs\<close>, a measurement of the running engine, is left out of the diagnostics.\<close>

record PairingDiagnostics =
  scoreGroupCount :: nat
  floatCount :: nat
  relaxedCriteria :: "nat list"

record PairingResult =
  pairings :: "Pairing list"
  byes :: "ByeAssignment list"
  engineVersion :: string
  diagnostics :: "PairingDiagnostics option"

text \<open>
  \<open>PairingImpossibleError\<close> with the reason it reports, and \<open>PairingIntegrityError\<close> with the
  violated criterion.
\<close>

datatype ImpossibleReason =
    TooFewSeats nat
  | RoundOutOfSchedule int
  | TooFewActive nat
  | DuplicatePairingNumber int
  | InvalidRoundNumber int
  | InvalidTotalRounds int
  | NoActivePlayer
  | NoCompletePairing nat

datatype PairingCriterion = C1_REPEAT | C2_BYE | C3_COLOR | COVERAGE

datatype PairingError =
    PairingImpossibleError RoundId ImpossibleReason
  | PairingIntegrityError RoundId PairingCriterion
  | InternalError string

section \<open>Vocabulary of the guarantees\<close>

definition isActive :: "PlayerPairingState \<Rightarrow> int \<Rightarrow> bool" where
  "isActive p rn \<longleftrightarrow> \<not> isWithdrawn p \<and> joinedAtRound p \<le> rn"

definition activePlayers :: "PairingRequest \<Rightarrow> PlayerPairingState list" where
  "activePlayers req = filter (\<lambda>p. isActive p (roundNumber req)) (players req)"

definition seatedIds :: "Pairing list \<Rightarrow> PlayerId list" where
  "seatedIds ps = concat (map (\<lambda>p. [whitePlayerId p, blackPlayerId p]) ps)"

definition participants :: "PairingResult \<Rightarrow> PlayerId list" where
  "participants res = seatedIds (pairings res) @ map byePlayerId (byes res)"

text \<open>Requests a caller sends: player ids are primary keys of the roster.\<close>

definition wellFormedRequest :: "PairingRequest \<Rightarrow> bool" where
  "wellFormedRequest req \<longleftrightarrow> distinct (map playerId (players req))"

text \<open>Two requests that list the same players in a different order.\<close>

definition sameRequest :: "PairingRequest \<Rightarrow> PairingRequest \<Rightarrow> bool" where
  "sameRequest r1 r2 \<longleftrightarrow> r2 = r1\<lparr>players := players r2\<rparr> \<and> mset (players r2) = mset (players r1)"

lemma length_seatedIds [simp]: "length (seatedIds ps) = 2 * length ps"
  by (induction ps) (auto simp: seatedIds_def)

lemma seatedIds_simps [simp]:
  "seatedIds [] = []"
  "seatedIds (p # ps) = whitePlayerId p # blackPlayerId p # seatedIds ps"
  "seatedIds (ps @ qs) = seatedIds ps @ seatedIds qs"
  by (simp_all add: seatedIds_def)

lemma in_seatedIds: "x \<in> set (seatedIds ps) \<longleftrightarrow> (\<exists>p \<in> set ps. x = whitePlayerId p \<or> x = blackPlayerId p)"
  by (auto simp: seatedIds_def)

text \<open>In a seating without repetition a player sits on one board only.\<close>

lemma seated_once:
  assumes "distinct (seatedIds ps)" "p \<in> set ps" "q \<in> set ps"
    "{whitePlayerId p, blackPlayerId p} \<inter> {whitePlayerId q, blackPlayerId q} \<noteq> {}"
  shows "p = q"
  using assms
proof (induction ps)
  case (Cons r ps)
  have fresh: "whitePlayerId r \<notin> set (seatedIds ps)" "blackPlayerId r \<notin> set (seatedIds ps)"
    using Cons.prems(1) by auto
  show ?case
  proof (cases "p \<in> set ps \<and> q \<in> set ps")
    case True
    then show ?thesis using Cons by auto
  next
    case False
    then show ?thesis using Cons.prems fresh by (auto simp: in_seatedIds)
  qed
qed simp

section \<open>The port\<close>

locale pairing_port =
  fixes pair :: "PairingRequest \<Rightarrow> PairingError + PairingResult"
  assumes coverage: "wellFormedRequest req \<Longrightarrow> pair req = Inr res \<Longrightarrow>
      mset (participants res) = mset (map playerId (activePlayers req))"
    and order_blind: "sameRequest r1 r2 \<Longrightarrow> pair r1 = pair r2"
    and boards: "pair req = Inr res \<Longrightarrow>
      map boardNumber (pairings res) = map int [1..<length (pairings res) + 1]"
begin

lemma active_exactly_once:
  assumes "wellFormedRequest req" "pair req = Inr res"
  shows "distinct (participants res)"
    and "set (participants res) = playerId ` set (activePlayers req)"
proof -
  note m = coverage[OF assms]
  have "distinct (map playerId (activePlayers req))"
    using assms(1) by (simp add: wellFormedRequest_def activePlayers_def distinct_map_filter_subset)
  then show "distinct (participants res)" using m mset_eq_imp_distinct_iff by blast
  show "set (participants res) = playerId ` set (activePlayers req)"
    using m by (metis list.set_map set_mset_mset)
qed

lemma head_count:
  assumes "wellFormedRequest req" "pair req = Inr res"
  shows "2 * length (pairings res) + length (byes res) = length (activePlayers req)"
proof -
  have "length (participants res) = length (activePlayers req)"
    using coverage[OF assms] by (metis length_map size_mset)
  then show ?thesis by (simp add: participants_def)
qed

lemma no_self_pairing:
  assumes "wellFormedRequest req" "pair req = Inr res" "p \<in> set (pairings res)"
  shows "whitePlayerId p \<noteq> blackPlayerId p"
proof -
  have d: "distinct (seatedIds (pairings res))"
    using active_exactly_once(1)[OF assms(1,2)] by (simp add: participants_def)
  obtain as bs where "pairings res = as @ p # bs" using assms(3) by (meson split_list)
  then show ?thesis using d by auto
qed

lemma one_board_per_player:
  assumes "wellFormedRequest req" "pair req = Inr res" "p \<in> set (pairings res)" "q \<in> set (pairings res)"
    "x \<in> {whitePlayerId p, blackPlayerId p}" "x \<in> {whitePlayerId q, blackPlayerId q}"
  shows "p = q"
proof (rule seated_once[OF _ assms(3,4)])
  show "distinct (seatedIds (pairings res))"
    using active_exactly_once(1)[OF assms(1,2)] by (simp add: participants_def)
qed (use assms(5,6) in blast)

lemma withdrawn_unpaired:
  assumes "wellFormedRequest req" "pair req = Inr res" "p \<in> set (players req)" "isWithdrawn p"
  shows "playerId p \<notin> set (participants res)"
proof
  assume "playerId p \<in> set (participants res)"
  then obtain q where q: "q \<in> set (activePlayers req)" "playerId q = playerId p"
    using active_exactly_once(2)[OF assms(1,2)] by auto
  then have "q \<in> set (players req)" by (simp add: activePlayers_def)
  then have "q = p"
    using assms(1,3) q(2) unfolding wellFormedRequest_def distinct_map inj_on_def by blast
  then show False using q assms(4) by (auto simp: activePlayers_def isActive_def)
qed

end

locale pairing_port_c1 = pairing_port +
  assumes no_repeat: "wellFormedRequest req \<Longrightarrow> pair req = Inr res \<Longrightarrow> p \<in> set (pairings res) \<Longrightarrow>
      x \<in> set (players req) \<Longrightarrow> y \<in> set (players req) \<Longrightarrow>
      playerId x = whitePlayerId p \<Longrightarrow> playerId y = blackPlayerId p \<Longrightarrow>
      playerId y \<notin> opponentIds x \<and> playerId x \<notin> opponentIds y"
begin

text \<open>After a round is published, nobody has met the same opponent twice.\<close>

lemma opponents_fresh:
  assumes "wellFormedRequest req" "pair req = Inr res" "p \<in> set (pairings res)"
  shows "\<exists>x \<in> set (players req). \<exists>y \<in> set (players req).
    playerId x = whitePlayerId p \<and> playerId y = blackPlayerId p
    \<and> playerId y \<notin> opponentIds x \<and> playerId x \<notin> opponentIds y"
proof -
  have "whitePlayerId p \<in> set (participants res)" "blackPlayerId p \<in> set (participants res)"
    using assms(3) by (auto simp: participants_def in_seatedIds)
  then obtain x y where x: "x \<in> set (players req)" "playerId x = whitePlayerId p"
    and y: "y \<in> set (players req)" "playerId y = blackPlayerId p"
    using active_exactly_once(2)[OF assms(1,2)] by (auto simp: activePlayers_def)
  have "playerId y \<notin> opponentIds x \<and> playerId x \<notin> opponentIds y"
    by (rule no_repeat[OF assms x(1) y(1) x(2) y(2)])
  with x y show ?thesis by blast
qed

end

end
