(* ===== verification/RoundRobin.thy ===== *)
theory RoundRobin
  imports PairingTypes "HOL-Library.Signed_Division"
begin

text \<open>
  \<^verbatim>\<open>src/core/pairing/round-robin.engine.ts\<close>: the Berger table by the circle method and the
  engine built on it. The table lemmas are stated over seats: every round seats everybody
  once, and two seats meet in the round their sum determines modulo \<open>N - 1\<close>, hence exactly
  once per leg. The engine is an interpretation of the pairing port.
\<close>

section \<open>The Berger table\<close>

record SeatPair =
  whiteSeat :: int
  blackSeat :: int

text \<open>\<^verbatim>\<open>%\<close> of the language truncates towards zero, as \<open>smod\<close> does.\<close>

definition wrapSeat :: "int \<Rightarrow> int \<Rightarrow> int" where
  "wrapSeat v modulus = ((((v - 1) smod modulus) + modulus) smod modulus) + 1"

definition bergerLeader :: "int \<Rightarrow> int \<Rightarrow> int" where
  "bergerLeader tableSize rnd = ((rnd - 1) * (tableSize div 2)) smod (tableSize - 1) + 1"

definition bergerRound :: "int \<Rightarrow> int \<Rightarrow> SeatPair list" where
  "bergerRound tableSize rnd =
     (let half = tableSize div 2;
          modulus = tableSize - 1;
          leader = bergerLeader tableSize rnd;
          first = (if rnd smod 2 = 1 then \<lparr>whiteSeat = leader, blackSeat = tableSize\<rparr>
                   else \<lparr>whiteSeat = tableSize, blackSeat = leader\<rparr>)
      in first # map (\<lambda>i. \<lparr>whiteSeat = wrapSeat (leader + i) modulus,
                            blackSeat = wrapSeat (leader - i) modulus\<rparr>) [1..half - 1])"

section \<open>The engine\<close>

definition roundRobinVersion :: string where
  "roundRobinVersion = ''1.0.0''"

definition legsOf :: "int option \<Rightarrow> int" where
  "legsOf opt = (case opt of None \<Rightarrow> 1 | Some l \<Rightarrow> l)"

definition systemOf :: "int option \<Rightarrow> string" where
  "systemOf opt = (if legsOf opt = 2 then ''DOUBLE_ROUND_ROBIN'' else ''ROUND_ROBIN'')"

text \<open>The adjacent equality check after sorting.\<close>

fun adjacentDuplicate :: "PlayerPairingState list \<Rightarrow> int option" where
  "adjacentDuplicate (p # q # ps) =
     (if pairingNumber q = pairingNumber p then Some (pairingNumber p) else adjacentDuplicate (q # ps))"
| "adjacentDuplicate _ = None"

definition byPairingNumber :: "PlayerPairingState \<Rightarrow> PlayerPairingState \<Rightarrow> int" where
  "byPairingNumber a b = pairingNumber a - pairingNumber b"

definition seatingOrder :: "PairingRequest \<Rightarrow> PairingError + PlayerPairingState list" where
  "seatingOrder req =
     (let sorted = jsSort byPairingNumber (players req)
      in case adjacentDuplicate sorted of
           Some n \<Rightarrow> Inl (PairingImpossibleError (roundId req) (DuplicatePairingNumber n))
         | None \<Rightarrow> Inr sorted)"

definition playerAtSeat :: "PlayerPairingState list \<Rightarrow> int \<Rightarrow> PlayerPairingState option" where
  "playerAtSeat seats seat =
     (if 1 \<le> seat \<and> seat \<le> int (length seats) then Some (seats ! nat (seat - 1)) else None)"

definition activeAtSeat :: "PlayerPairingState list \<Rightarrow> int \<Rightarrow> int \<Rightarrow> PlayerPairingState option" where
  "activeAtSeat seats rn seat =
     (case playerAtSeat seats seat of
        None \<Rightarrow> None
      | Some p \<Rightarrow> if isActive p rn then Some p else None)"

definition pairingAllocatedBye :: "PlayerPairingState \<Rightarrow> ByeAssignment" where
  "pairingAllocatedBye p = \<lparr>byePlayerId = playerId p, byeType = PairingAllocated, byePoints = 1\<rparr>"

fun boardLoop :: "PlayerPairingState list \<Rightarrow> int \<Rightarrow> bool \<Rightarrow> int \<Rightarrow> SeatPair list
    \<Rightarrow> Pairing list \<times> ByeAssignment list" where
  "boardLoop seats rn secondLeg board [] = ([], [])"
| "boardLoop seats rn secondLeg board (sp # sps) =
     (let white = activeAtSeat seats rn (if secondLeg then blackSeat sp else whiteSeat sp);
          black = activeAtSeat seats rn (if secondLeg then whiteSeat sp else blackSeat sp)
      in case white of
           Some w \<Rightarrow>
             (case black of
                Some b \<Rightarrow>
                  let (ps, bs) = boardLoop seats rn secondLeg (board + 1) sps
                  in (\<lparr>boardNumber = board, whitePlayerId = playerId w, blackPlayerId = playerId b\<rparr> # ps, bs)
              | None \<Rightarrow>
                  let (ps, bs) = boardLoop seats rn secondLeg board sps
                  in (ps, pairingAllocatedBye w # bs))
         | None \<Rightarrow>
             (case black of
                Some b \<Rightarrow>
                  let (ps, bs) = boardLoop seats rn secondLeg board sps
                  in (ps, pairingAllocatedBye b # bs)
              | None \<Rightarrow> boardLoop seats rn secondLeg board sps))"

definition roundRobinPair :: "int option \<Rightarrow> PairingRequest \<Rightarrow> PairingError + PairingResult" where
  "roundRobinPair opt req = bindE (seatingOrder req) (\<lambda>seats.
     let n = int (length seats) in
     if n < 2 then Inl (PairingImpossibleError (roundId req) (TooFewSeats (length seats)))
     else
       let tableSize = (if n mod 2 = 0 then n else n + 1);
           roundsPerLeg = tableSize - 1;
           scheduleLength = legsOf opt * roundsPerLeg;
           rn = roundNumber req
       in if rn < 1 \<or> rn > scheduleLength
          then Inl (PairingImpossibleError (roundId req) (RoundOutOfSchedule rn))
          else
            let activeCount = length (filter (\<lambda>p. isActive p rn) seats)
            in if activeCount < 2 then Inl (PairingImpossibleError (roundId req) (TooFewActive activeCount))
               else
                 let legRound = (rn - 1) smod roundsPerLeg + 1;
                     isSecondLeg = rn > roundsPerLeg;
                     (ps, bs) = boardLoop seats rn isSecondLeg 1 (bergerRound tableSize legRound)
                 in Inr \<lparr>pairings = ps, byes = bs, engineVersion = roundRobinVersion, diagnostics = None\<rparr>)"

section \<open>Table lemmas\<close>

lemma smod_nonneg: "0 \<le> a \<Longrightarrow> 0 < b \<Longrightarrow> a smod b = a mod (b :: int)"
  by (simp add: signed_modulo_int_def signed_divide_int_def sgn_if minus_div_mult_eq_mod)

lemma smod_bounds: "0 < b \<Longrightarrow> - b < a smod b \<and> a smod b < (b :: int)"
proof (cases "0 \<le> a")
  case True
  assume "0 < b"
  with True have "a smod b = a mod b" by (simp add: smod_nonneg)
  then show ?thesis using \<open>0 < b\<close> pos_mod_bound[of b a] pos_mod_sign[of b a] by linarith
next
  case False
  assume b: "0 < b"
  have "a smod b = - ((- a) mod b)"
    using False b by (simp add: signed_modulo_int_def sgn_if)
  then show ?thesis using b pos_mod_bound[OF b, of "- a"] pos_mod_sign[OF b, of "- a"] by linarith
qed

lemma smod_cong: "0 < b \<Longrightarrow> (a smod b) mod b = a mod (b :: int)"
proof -
  have "a smod b = a + (- (a sdiv b)) * b" using sdiv_mult_smod_eq[of a b] by simp
  then show ?thesis by (simp only: mod_mult_self1)
qed

lemma wrapSeat_eq: "0 < m \<Longrightarrow> wrapSeat v m = (v - 1) mod m + 1"
proof -
  assume m: "0 < m"
  have "0 \<le> (v - 1) smod m + m" using smod_bounds[OF m, of "v - 1"] by linarith
  then have "((v - 1) smod m + m) smod m = ((v - 1) smod m + m) mod m" by (simp add: smod_nonneg m)
  also have "\<dots> = (v - 1) mod m" using smod_cong[OF m] by simp
  finally show ?thesis by (simp add: wrapSeat_def)
qed

text \<open>A table of \<open>2 * h\<close> seats and the \<open>2 * h - 1\<close> residues its rounds turn through.\<close>

definition bergerSeats :: "int \<Rightarrow> int \<Rightarrow> int list" where
  "bergerSeats n r = concat (map (\<lambda>p. [whiteSeat p, blackSeat p]) (bergerRound n r))"

lemma bergerLeader_eq: "1 \<le> h \<Longrightarrow> 1 \<le> r \<Longrightarrow> bergerLeader (2 * h) r = ((r - 1) * h) mod (2 * h - 1) + 1"
  by (simp add: bergerLeader_def smod_nonneg)

lemma bergerLeader_range:
  assumes "1 \<le> h" "1 \<le> r"
  shows "1 \<le> bergerLeader (2 * h) r" "bergerLeader (2 * h) r \<le> 2 * h - 1"
  using assms pos_mod_bound[of "2 * h - 1" "(r - 1) * h"] pos_mod_sign[of "2 * h - 1" "(r - 1) * h"]
  unfolding bergerLeader_eq[OF assms] by linarith+

lemma set_bergerSeats:
  assumes "1 \<le> h"
  shows "set (bergerSeats (2 * h) r) =
    insert (2 * h) (insert (bergerLeader (2 * h) r)
      ((\<lambda>i. wrapSeat (bergerLeader (2 * h) r + i) (2 * h - 1)) ` {1..h - 1}
       \<union> (\<lambda>i. wrapSeat (bergerLeader (2 * h) r - i) (2 * h - 1)) ` {1..h - 1}))"
  by (auto simp: bergerSeats_def bergerRound_def Let_def)

lemma length_bergerSeats: "1 \<le> h \<Longrightarrow> length (bergerSeats (2 * h) r) = nat (2 * h)"
  by (simp add: bergerSeats_def bergerRound_def Let_def length_concat comp_def sum_list_triv
      nat_mult_distrib)

text \<open>Every round seats every seat exactly once.\<close>

lemma bergerSeats_cover:
  assumes h: "1 \<le> h" and r: "1 \<le> r"
  shows "set (bergerSeats (2 * h) r) = {1..2 * h}" "distinct (bergerSeats (2 * h) r)"
proof -
  let ?m = "2 * h - 1" and ?L = "bergerLeader (2 * h) r"
  let ?f = "\<lambda>j. wrapSeat (?L + j) ?m"
  have m: "0 < ?m" using h by simp
  note L = bergerLeader_range[OF h r]
  have f0: "?f 0 = ?L" using L m by (simp add: wrapSeat_eq)
  have inj: "inj_on ?f {- (h - 1)..h - 1}"
  proof (rule inj_onI)
    fix j k assume j: "j \<in> {- (h - 1)..h - 1}" and k: "k \<in> {- (h - 1)..h - 1}" and "?f j = ?f k"
    then have "(?L + j - 1) mod ?m = (?L + k - 1) mod ?m" by (simp add: wrapSeat_eq m)
    then have "?m dvd (?L + j - 1) - (?L + k - 1)" by (simp only: mod_eq_dvd_iff)
    then have "?m dvd j - k" by simp
    moreover have "\<bar>j - k\<bar> < ?m" using j k by auto
    ultimately show "j = k" using zdvd_not_zless[of "\<bar>j - k\<bar>" ?m] by (cases "j = k") auto
  qed
  have range: "?f j \<in> {1..?m}" for j
    using pos_mod_bound[OF m, of "?L + j - 1"] pos_mod_sign[OF m, of "?L + j - 1"]
    unfolding wrapSeat_eq[OF m] atLeastAtMost_iff by linarith
  have split: "{- (h - 1)..h - 1} = insert 0 ({1..h - 1} \<union> uminus ` {1..h - 1})"
  proof -
    have "j \<in> uminus ` {1..h - 1}" if "- (h - 1) \<le> j" "j < 0" for j
      using that by (intro image_eqI[of _ _ "- j"]) auto
    then show ?thesis using h by force
  qed
  have seats: "set (bergerSeats (2 * h) r) = insert (2 * h) (?f ` {- (h - 1)..h - 1})"
  proof -
    have "?f ` {- (h - 1)..h - 1} = insert ?L (?f ` {1..h - 1} \<union> (\<lambda>i. wrapSeat (?L - i) ?m) ` {1..h - 1})"
      using f0 by (simp only: split image_insert image_Un image_image add_uminus_conv_diff)
    then show ?thesis by (simp only: set_bergerSeats[OF h])
  qed
  have "card (?f ` {- (h - 1)..h - 1}) = nat ?m" using inj h by (simp add: card_image)
  then have "?f ` {- (h - 1)..h - 1} = {1..?m}"
    using range by (intro card_subset_eq) auto
  then show cov: "set (bergerSeats (2 * h) r) = {1..2 * h}" using seats h by auto
  have "card (set (bergerSeats (2 * h) r)) = length (bergerSeats (2 * h) r)"
    using cov length_bergerSeats[OF h] by simp
  then show "distinct (bergerSeats (2 * h) r)" by (rule card_distinct)
qed

text \<open>Two seats that meet in round \<open>r\<close> add up to \<open>r + 1\<close> modulo \<open>2 * h - 1\<close>; the last seat counts as its opponent.\<close>

definition seatsMeet :: "int \<Rightarrow> int \<Rightarrow> int \<Rightarrow> int \<Rightarrow> bool" where
  "seatsMeet n r a b \<longleftrightarrow> (\<exists>p \<in> set (bergerRound n r). {whiteSeat p, blackSeat p} = {a, b})"

lemma mod_add_add: "(a mod m + b mod m + c) mod m = (a + b + c) mod (m :: int)"
  by (metis mod_add_eq mod_add_left_eq)

lemma double_leader:
  assumes h: "1 \<le> h" and r: "1 \<le> r"
  shows "(2 * bergerLeader (2 * h) r) mod (2 * h - 1) = (r + 1) mod (2 * h - 1)"
proof -
  let ?m = "2 * h - 1"
  have "(2 * bergerLeader (2 * h) r) mod ?m = (2 * ((r - 1) * h) + 2) mod ?m"
    unfolding bergerLeader_eq[OF assms] by (simp add: mod_simps distrib_left)
      (metis mod_add_left_eq mod_mult_right_eq)
  also have "2 * ((r - 1) * h) + 2 = (r + 1) + (r - 1) * ?m" by (simp add: algebra_simps)
  finally show ?thesis by simp
qed

lemma meet_sum:
  assumes h: "1 \<le> h" and r: "1 \<le> r" and p: "p \<in> set (bergerRound (2 * h) r)"
  shows "({whiteSeat p, blackSeat p} = {bergerLeader (2 * h) r, 2 * h}) \<or>
    (whiteSeat p \<noteq> 2 * h \<and> blackSeat p \<noteq> 2 * h \<and>
     (whiteSeat p + blackSeat p) mod (2 * h - 1) = (r + 1) mod (2 * h - 1))"
proof -
  let ?m = "2 * h - 1" and ?L = "bergerLeader (2 * h) r"
  have m: "0 < ?m" using h by simp
  have lt: "wrapSeat v ?m \<noteq> 2 * h" for v using pos_mod_bound[OF m, of "v - 1"]
    unfolding wrapSeat_eq[OF m] by linarith
  have "(wrapSeat (?L + i) ?m + wrapSeat (?L - i) ?m) mod ?m = (2 * ?L) mod ?m" for i
  proof -
    have "(wrapSeat (?L + i) ?m + wrapSeat (?L - i) ?m) mod ?m
        = ((?L + i - 1) mod ?m + (?L - i - 1) mod ?m + 2) mod ?m"
      unfolding wrapSeat_eq[OF m] by (simp add: algebra_simps)
    also have "\<dots> = ((?L + i - 1) + (?L - i - 1) + 2) mod ?m" by (rule mod_add_add)
    also have "(?L + i - 1) + (?L - i - 1) + 2 = 2 * ?L" by simp
    finally show ?thesis .
  qed
  then show ?thesis using p lt double_leader[OF h r]
    by (auto simp: bergerRound_def Let_def split: if_splits)
qed

text \<open>The residue that decides when two seats meet.\<close>

definition meetKey :: "int \<Rightarrow> int \<Rightarrow> int \<Rightarrow> int" where
  "meetKey n a b = (if a = n then 2 * b else if b = n then 2 * a else a + b)"

lemma berger_pair_distinct:
  assumes "1 \<le> h" "1 \<le> r" "p \<in> set (bergerRound (2 * h) r)"
  shows "whiteSeat p \<noteq> blackSeat p"
proof -
  obtain as bs where "bergerRound (2 * h) r = as @ p # bs" using assms(3) by (meson split_list)
  then have "bergerSeats (2 * h) r =
      concat (map (\<lambda>p. [whiteSeat p, blackSeat p]) as) @ whiteSeat p # blackSeat p
      # concat (map (\<lambda>p. [whiteSeat p, blackSeat p]) bs)"
    by (simp add: bergerSeats_def)
  then show ?thesis using bergerSeats_cover(2)[OF assms(1,2)] by auto
qed

lemma meets_key:
  assumes h: "1 \<le> h" and r: "1 \<le> r" and m: "seatsMeet (2 * h) r a b"
  shows "meetKey (2 * h) a b mod (2 * h - 1) = (r + 1) mod (2 * h - 1)" "a \<noteq> b"
proof -
  obtain p where p: "p \<in> set (bergerRound (2 * h) r)" and ab: "{whiteSeat p, blackSeat p} = {a, b}"
    using m by (auto simp: seatsMeet_def)
  show "a \<noteq> b" using berger_pair_distinct[OF h r p] ab by (auto simp: doubleton_eq_iff)
  have L: "bergerLeader (2 * h) r \<noteq> 2 * h" using bergerLeader_range[OF h r] by linarith
  show "meetKey (2 * h) a b mod (2 * h - 1) = (r + 1) mod (2 * h - 1)"
    using meet_sum[OF h r p] ab L double_leader[OF h r]
    by (auto simp: meetKey_def doubleton_eq_iff add.commute)
qed

lemma odd_cancel_two: "odd (m :: int) \<Longrightarrow> (2 * a) mod m = (2 * b) mod m \<Longrightarrow> a mod m = b mod m"
proof -
  assume "odd m" and "(2 * a) mod m = (2 * b) mod m"
  then have "m dvd 2 * a - 2 * b" by (simp only: mod_eq_dvd_iff)
  then have "m dvd 2 * (a - b)" by (simp only: right_diff_distrib)
  moreover have "coprime m 2" using \<open>odd m\<close> by simp
  ultimately have "m dvd a - b" by (simp only: coprime_dvd_mult_right_iff)
  then show ?thesis by (simp only: mod_eq_dvd_iff)
qed

lemma residue_unique:
  "0 < (m :: int) \<Longrightarrow> x mod m = y mod m \<Longrightarrow> x \<in> {1..m} \<Longrightarrow> y \<in> {1..m} \<Longrightarrow> x = y"
proof -
  assume m: "0 < m" and "x mod m = y mod m" and xy: "x \<in> {1..m}" "y \<in> {1..m}"
  then have "m dvd x - y" by (simp only: mod_eq_dvd_iff)
  then have "m dvd \<bar>x - y\<bar>" by simp
  moreover have "\<bar>x - y\<bar> < m" using xy by auto
  ultimately have "\<not> 0 < \<bar>x - y\<bar>" using zdvd_not_zless by blast
  then show "x = y" by simp
qed

lemma add_cancel_mod: "(a + x) mod m = (a + y) mod m \<Longrightarrow> x mod m = y mod (m :: int)"
proof -
  assume "(a + x) mod m = (a + y) mod m"
  then have "m dvd (a + x) - (a + y)" by (simp only: mod_eq_dvd_iff)
  then have "m dvd x - y" by simp
  then show ?thesis by (simp only: mod_eq_dvd_iff)
qed

lemma seatsMeet_iff:
  assumes h: "1 \<le> h" and r: "1 \<le> r" and a: "a \<in> {1..2 * h}" and b: "b \<in> {1..2 * h}" and ab: "a \<noteq> b"
  shows "seatsMeet (2 * h) r a b \<longleftrightarrow> meetKey (2 * h) a b mod (2 * h - 1) = (r + 1) mod (2 * h - 1)"
proof
  assume "seatsMeet (2 * h) r a b"
  then show "meetKey (2 * h) a b mod (2 * h - 1) = (r + 1) mod (2 * h - 1)"
    by (rule meets_key(1)[OF h r])
next
  let ?m = "2 * h - 1"
  assume key: "meetKey (2 * h) a b mod ?m = (r + 1) mod ?m"
  have m: "0 < ?m" "odd ?m" using h by simp_all
  have "a \<in> set (bergerSeats (2 * h) r)" using bergerSeats_cover(1)[OF h r] a by simp
  then obtain p where p: "p \<in> set (bergerRound (2 * h) r)" and ap: "a = whiteSeat p \<or> a = blackSeat p"
    by (auto simp: bergerSeats_def)
  define c where "c = (if a = whiteSeat p then blackSeat p else whiteSeat p)"
  have pc: "{whiteSeat p, blackSeat p} = {a, c}" using ap by (auto simp: c_def)
  then have meet: "seatsMeet (2 * h) r a c" using p by (auto simp: seatsMeet_def)
  have "c \<in> set (bergerSeats (2 * h) r)" using p by (auto simp: bergerSeats_def c_def)
  then have c: "c \<in> {1..2 * h}" using bergerSeats_cover(1)[OF h r] by simp
  have ac: "a \<noteq> c" by (rule meets_key(2)[OF h r meet])
  have same: "meetKey (2 * h) a c mod ?m = meetKey (2 * h) a b mod ?m"
    using meets_key(1)[OF h r meet] key by simp
  have uniq: "x = y" if "x mod ?m = y mod ?m" "x \<in> {1..2 * h}" "y \<in> {1..2 * h}" "x \<noteq> 2 * h" "y \<noteq> 2 * h" for x y
    using residue_unique[OF m(1) that(1)] that by auto
  have "c = b"
  proof (cases "a = 2 * h")
    case True
    then have "(2 * c) mod ?m = (2 * b) mod ?m" using same unfolding meetKey_def by simp
    then have "c mod ?m = b mod ?m" by (rule odd_cancel_two[OF m(2)])
    from uniq[OF this c b] True ab ac show ?thesis by simp
  next
    case False
    consider "b = 2 * h" "c = 2 * h" | "b = 2 * h" "c \<noteq> 2 * h" | "b \<noteq> 2 * h" "c = 2 * h"
      | "b \<noteq> 2 * h" "c \<noteq> 2 * h" by blast
    then show ?thesis
    proof cases
      case 2
      then have "(a + c) mod ?m = (a + a) mod ?m" using same False by (simp add: meetKey_def)
      then have "c mod ?m = a mod ?m" by (rule add_cancel_mod)
      from uniq[OF this c a 2(2) False] ac show ?thesis by simp
    next
      case 3
      then have "(a + b) mod ?m = (a + a) mod ?m" using same False by (simp add: meetKey_def)
      then have "b mod ?m = a mod ?m" by (rule add_cancel_mod)
      from uniq[OF this b a 3(1) False] ab show ?thesis by simp
    next
      case 4
      then have "(a + c) mod ?m = (a + b) mod ?m" using same False by (simp add: meetKey_def)
      then have "c mod ?m = b mod ?m" by (rule add_cancel_mod)
      from uniq[OF this c b 4(2,1)] show ?thesis .
    qed simp
  qed
  then show "seatsMeet (2 * h) r a b" using meet by simp
qed

lemma round_of_residue:
  assumes "0 < (m :: int)"
  shows "\<exists>!r. r \<in> {1..m} \<and> k mod m = (r + 1) mod m"
proof (rule ex1I[of _ "(k - 2) mod m + 1"])
  show "(k - 2) mod m + 1 \<in> {1..m} \<and> k mod m = ((k - 2) mod m + 1 + 1) mod m"
    using pos_mod_bound[OF assms, of "k - 2"] pos_mod_sign[OF assms, of "k - 2"]
      mod_add_left_eq[of "k - 2" m 2] by (auto simp: add.assoc)
  fix r assume r: "r \<in> {1..m} \<and> k mod m = (r + 1) mod m"
  have "((k - 2) mod m + 1 + 1) mod m = k mod m"
    using mod_add_left_eq[of "k - 2" m 2] by (simp add: add.assoc)
  then have "(1 + r) mod m = (1 + ((k - 2) mod m + 1)) mod m" using r by (simp add: add.commute)
  then have "r mod m = ((k - 2) mod m + 1) mod m" by (rule add_cancel_mod)
  moreover have "(k - 2) mod m + 1 \<in> {1..m}"
    using pos_mod_bound[OF assms, of "k - 2"] pos_mod_sign[OF assms, of "k - 2"]
    unfolding atLeastAtMost_iff by linarith
  ultimately show "r = (k - 2) mod m + 1" using residue_unique[OF assms] r by blast
qed

lemma seats_meet_once:
  assumes "1 \<le> h" "a \<in> {1..2 * h}" "b \<in> {1..2 * h}" "a \<noteq> b"
  shows "\<exists>!r. r \<in> {1..2 * h - 1} \<and> seatsMeet (2 * h) r a b"
proof -
  have "r \<in> {1..2 * h - 1} \<and> seatsMeet (2 * h) r a b \<longleftrightarrow>
      r \<in> {1..2 * h - 1} \<and> meetKey (2 * h) a b mod (2 * h - 1) = (r + 1) mod (2 * h - 1)" for r
    using seatsMeet_iff[OF assms(1) _ assms(2-4), of r] by auto
  then show ?thesis using round_of_residue[of "2 * h - 1" "meetKey (2 * h) a b"] assms(1) by simp
qed

end
