(* ===== verification/RoundRobinEngine.thy ===== *)
theory RoundRobinEngine
  imports RoundRobin
begin

text \<open>
  What \<^verbatim>\<open>RoundRobinEngine.compute\<close> guarantees, from the table lemmas of \<^verbatim>\<open>RoundRobin\<close>: who
  sits on the boards of a round, when it throws, that the listing order of the roster does
  not matter, and the schedule as a whole. The engine interprets the pairing port.
\<close>

section \<open>The seating\<close>

lemma consistent_byPairingNumber: "cmpConsistent byPairingNumber A"
  by (auto simp: cmpConsistent_def byPairingNumber_def)

lemma adjacentDuplicate_None:
  assumes "sorted_wrt (\<lambda>a b. byPairingNumber a b \<le> 0) ps"
  shows "adjacentDuplicate ps = None \<longleftrightarrow> distinct (map pairingNumber ps)"
  using assms
proof (induction ps rule: adjacentDuplicate.induct)
  case (1 p q ps)
  have le: "pairingNumber p \<le> pairingNumber q" "\<forall>x \<in> set ps. pairingNumber q \<le> pairingNumber x"
    using "1.prems" by (auto simp: byPairingNumber_def)
  show ?case
  proof (cases "pairingNumber q = pairingNumber p")
    case True
    then show ?thesis by simp
  next
    case False
    then have "pairingNumber p < pairingNumber q" using le by simp
    then have "pairingNumber p \<notin> pairingNumber ` set (q # ps)" using le by force
    then show ?thesis using 1 False by simp
  qed
qed auto

lemma adjacentDuplicate_numbers:
  "map pairingNumber ps = map pairingNumber qs \<Longrightarrow> adjacentDuplicate ps = adjacentDuplicate qs"
proof (induction ps arbitrary: qs rule: adjacentDuplicate.induct)
  case (1 p q ps)
  then obtain p' q' qs' where "qs = p' # q' # qs'" by (auto simp: Cons_eq_map_conv map_eq_Cons_conv)
  then show ?case using 1 by auto
next
  case "2_1"
  then show ?case by simp
next
  case "2_2"
  then show ?case by (cases qs rule: adjacentDuplicate.cases) auto
qed

lemma sorted_byPairingNumber:
  "sorted_wrt (\<lambda>a b. byPairingNumber a b \<le> 0) (jsSort byPairingNumber ps)"
  by (rule sorted_jsSort[OF consistent_byPairingNumber])

lemma seatingOrder_iff:
  "seatingOrder req = Inr seats \<longleftrightarrow>
     distinct (map pairingNumber (players req)) \<and> seats = jsSort byPairingNumber (players req)"
  using adjacentDuplicate_None[OF sorted_byPairingNumber, of "players req"]
  by (auto simp: seatingOrder_def Let_def sort_facts split: option.splits)

lemma numbers_of_sorted:
  "map pairingNumber (jsSort byPairingNumber ps) = sort (map pairingNumber ps)"
proof (rule properties_for_sort[symmetric])
  show "sorted (map pairingNumber (jsSort byPairingNumber ps))"
    using sorted_byPairingNumber[of ps] by (simp add: sorted_wrt_map byPairingNumber_def)
qed (metis mset_jsSort mset_map)

lemma seatingOrder_order_blind:
  assumes "sameRequest r1 r2"
  shows "seatingOrder r1 = seatingOrder r2"
proof -
  have m: "mset (players r1) = mset (players r2)" and rid: "roundId r2 = roundId r1"
    using assms by (simp_all add: sameRequest_def) (metis PairingRequest.ext_inject PairingRequest.surjective PairingRequest.update_convs(4))
  have "adjacentDuplicate (jsSort byPairingNumber (players r1))
      = adjacentDuplicate (jsSort byPairingNumber (players r2))"
  proof (rule adjacentDuplicate_numbers)
    have "mset (map pairingNumber (players r1)) = mset (map pairingNumber (players r2))"
      using m by simp
    then show "map pairingNumber (jsSort byPairingNumber (players r1))
        = map pairingNumber (jsSort byPairingNumber (players r2))"
      unfolding numbers_of_sorted by (metis sorted_list_of_multiset_mset)
  qed
  moreover have "jsSort byPairingNumber (players r1) = jsSort byPairingNumber (players r2)"
    if d: "distinct (map pairingNumber (players r1))"
  proof (rule jsSort_unique[OF consistent_byPairingNumber _ m])
    show "\<forall>x\<in>set (players r1). \<forall>y\<in>set (players r1).
        byPairingNumber x y \<le> 0 \<longrightarrow> byPairingNumber y x \<le> 0 \<longrightarrow> x = y"
    proof (intro ballI impI)
      fix x y assume "x \<in> set (players r1)" "y \<in> set (players r1)"
        "byPairingNumber x y \<le> 0" "byPairingNumber y x \<le> 0"
      then show "x = y" using d by (auto simp: distinct_map byPairingNumber_def dest: inj_onD)
    qed
  qed
  ultimately show ?thesis
    using adjacentDuplicate_None[OF sorted_byPairingNumber, of "players r1"] rid
    by (auto simp: seatingOrder_def Let_def sort_facts split: option.splits)
qed

section \<open>The boards of a round\<close>

lemma boardLoop_numbers:
  "boardLoop seats rn leg b sps = (ps, bs) \<Longrightarrow>
     map boardNumber ps = map (\<lambda>k. b + int k) [0..<length ps]"
proof (induction sps arbitrary: b ps bs)
  case (Cons sp sps)
  obtain p1 b1 where r1: "boardLoop seats rn leg b sps = (p1, b1)" by (meson surj_pair)
  obtain p2 b2 where r2: "boardLoop seats rn leg (b + 1) sps = (p2, b2)" by (meson surj_pair)
  have shift: "map (\<lambda>k. b + 1 + int k) [0..<n] = map (\<lambda>k. b + int k) [Suc 0..<Suc n]" for n
    unfolding map_Suc_upt[symmetric] map_map by simp
  show ?case
    using Cons.prems Cons.IH[OF r1] Cons.IH[OF r2] shift r1 r2
    by (simp add: Let_def upt_conv_Cons del: upt_Suc split: option.splits)
       (auto simp: upt_conv_Cons simp del: upt_Suc)
qed simp

lemma map_filter_pair:
  "List.map_filter f [x, y] = (case f x of None \<Rightarrow> [] | Some u \<Rightarrow> [u]) @ (case f y of None \<Rightarrow> [] | Some u \<Rightarrow> [u])"
  by (simp add: List.map_filter_def split: option.splits)

lemma map_filter_append: "List.map_filter f (xs @ ys) = List.map_filter f xs @ List.map_filter f ys"
  by (simp add: List.map_filter_def)

lemma boardLoop_participants:
  "boardLoop seats rn leg b sps = (ps, bs) \<Longrightarrow>
     mset (seatedIds ps @ map byePlayerId bs) =
     mset (map playerId (List.map_filter (activeAtSeat seats rn)
       (concat (map (\<lambda>p. [whiteSeat p, blackSeat p]) sps))))"
proof (induction sps arbitrary: b ps bs)
  case (Cons sp sps)
  obtain p1 b1 where r1: "boardLoop seats rn leg b sps = (p1, b1)" by (meson surj_pair)
  obtain p2 b2 where r2: "boardLoop seats rn leg (b + 1) sps = (p2, b2)" by (meson surj_pair)
  have step: "List.map_filter (activeAtSeat seats rn) (concat (map (\<lambda>p. [whiteSeat p, blackSeat p]) (sp # sps)))
     = List.map_filter (activeAtSeat seats rn) [whiteSeat sp, blackSeat sp]
       @ List.map_filter (activeAtSeat seats rn) (concat (map (\<lambda>p. [whiteSeat p, blackSeat p]) sps))"
    by (simp only: list.map concat.simps map_filter_append)
  note IH = Cons.IH[OF r1] Cons.IH[OF r2]
  show ?case
    using Cons.prems IH r1 r2 unfolding step map_filter_pair
    by (cases leg) (auto simp: Let_def pairingAllocatedBye_def split: option.splits)
qed (simp add: List.map_filter_def)

text \<open>The board \<open>x\<close> is the one the table entry \<open>sp\<close> gives, both seats being active.\<close>

definition sitsAt :: "PlayerPairingState list \<Rightarrow> int \<Rightarrow> bool \<Rightarrow> SeatPair \<Rightarrow> Pairing \<Rightarrow> bool" where
  "sitsAt seats rn leg sp x \<longleftrightarrow>
     (\<exists>w. activeAtSeat seats rn (if leg then blackSeat sp else whiteSeat sp) = Some w \<and> whitePlayerId x = playerId w) \<and>
     (\<exists>k. activeAtSeat seats rn (if leg then whiteSeat sp else blackSeat sp) = Some k \<and> blackPlayerId x = playerId k)"

lemma boardLoop_Cons_cases:
  assumes "x \<in> set (fst (boardLoop seats rn leg b (sp # sps)))"
  obtains "sitsAt seats rn leg sp x" | "x \<in> set (fst (boardLoop seats rn leg b sps))"
    | "x \<in> set (fst (boardLoop seats rn leg (b + 1) sps))"
  using assms by (auto simp: sitsAt_def Let_def split: option.splits prod.splits)

lemma boardLoop_member:
  "x \<in> set (fst (boardLoop seats rn leg b sps)) \<Longrightarrow> \<exists>sp \<in> set sps. sitsAt seats rn leg sp x"
proof (induction sps arbitrary: b)
  case (Cons sp sps)
  show ?case using Cons.prems by (rule boardLoop_Cons_cases) (use Cons.IH in auto)
qed simp

lemma boardLoop_sits:
  "sp \<in> set sps \<Longrightarrow> activeAtSeat seats rn (if leg then blackSeat sp else whiteSeat sp) = Some w \<Longrightarrow>
   activeAtSeat seats rn (if leg then whiteSeat sp else blackSeat sp) = Some k \<Longrightarrow>
   \<exists>x \<in> set (fst (boardLoop seats rn leg b sps)). whitePlayerId x = playerId w \<and> blackPlayerId x = playerId k"
proof (induction sps arbitrary: b)
  case (Cons p sps)
  show ?case
  proof (cases "sp = p")
    case True
    then show ?thesis using Cons.prems(2,3) by (auto simp: Let_def split: prod.splits)
  next
    case False
    then have IH: "\<exists>x \<in> set (fst (boardLoop seats rn leg b' sps)).
        whitePlayerId x = playerId w \<and> blackPlayerId x = playerId k" for b'
      using Cons by auto
    show ?thesis using IH[of b] IH[of "b + 1"]
      by (auto simp: Let_def split: option.splits prod.splits)
  qed
qed simp

section \<open>Coverage\<close>

lemma seats_upto: "[1..int k] = map (\<lambda>i. int i + 1) [0..<k]"
proof (induction k)
  case (Suc k)
  have "[1..int (Suc k)] = [1..int k] @ [int (Suc k)]" using upto_rec2[of 1 "int (Suc k)"] by simp
  then show ?case using Suc by simp
qed simp

lemma activeAtSeat_past: "s > int (length seats) \<Longrightarrow> activeAtSeat seats rn s = None"
  by (simp add: activeAtSeat_def playerAtSeat_def)

lemma activeAtSeat_Suc:
  "i < length seats \<Longrightarrow> activeAtSeat seats rn (int i + 1) = (if isActive (seats ! i) rn then Some (seats ! i) else None)"
  by (simp add: activeAtSeat_def playerAtSeat_def)

lemma map_filter_cong: "(\<And>x. x \<in> set xs \<Longrightarrow> f x = g x) \<Longrightarrow> List.map_filter f xs = List.map_filter g xs"
  by (induction xs) (auto simp: List.map_filter_def)

lemma map_filter_map: "List.map_filter g (map f xs) = List.map_filter (\<lambda>x. g (f x)) xs"
  by (induction xs) (auto simp: List.map_filter_def)

lemma map_filter_if: "List.map_filter (\<lambda>x. if P x then Some x else None) xs = filter P xs"
  by (induction xs) (auto simp: List.map_filter_def)

lemma active_seats:
  "List.map_filter (activeAtSeat seats rn) [1..int (length seats)] = filter (\<lambda>p. isActive p rn) seats"
proof -
  have "List.map_filter (activeAtSeat seats rn) [1..int (length seats)]
      = List.map_filter (\<lambda>i. if isActive (seats ! i) rn then Some (seats ! i) else None) [0..<length seats]"
    unfolding seats_upto map_filter_map by (rule map_filter_cong) (simp add: activeAtSeat_Suc)
  also have "\<dots> = List.map_filter (\<lambda>x. if isActive x rn then Some x else None) (map ((!) seats) [0..<length seats])"
    by (simp add: map_filter_map)
  finally show ?thesis unfolding map_nth map_filter_if .
qed

lemma mset_map_filter: "mset xs = mset ys \<Longrightarrow> mset (List.map_filter f xs) = mset (List.map_filter f ys)"
  by (simp add: List.map_filter_def mset_map)

text \<open>The table size: the roster completed to an even number, at least two.\<close>

definition tableOf :: "int \<Rightarrow> int" where
  "tableOf n = (if n mod 2 = 0 then n else n + 1)"

lemma tableOf_half: "2 \<le> n \<Longrightarrow> \<exists>h \<ge> 1. tableOf n = 2 * h \<and> (n = 2 * h \<or> n = 2 * h - 1)"
  by (auto simp: tableOf_def intro: exI[of _ "n div 2"] exI[of _ "(n + 1) div 2"]) presburger+

lemma round_covers:
  assumes n: "2 \<le> int (length seats)" and r: "1 \<le> r"
    and bl: "boardLoop seats rn leg b (bergerRound (tableOf (int (length seats))) r) = (ps, bs)"
  shows "mset (seatedIds ps @ map byePlayerId bs) = mset (map playerId (filter (\<lambda>p. isActive p rn) seats))"
proof -
  obtain h where h: "1 \<le> h" "tableOf (int (length seats)) = 2 * h"
    and len: "int (length seats) = 2 * h \<or> int (length seats) = 2 * h - 1"
    using tableOf_half[OF n] by auto
  have "mset (bergerSeats (2 * h) r) = mset [1..2 * h]"
    using bergerSeats_cover[OF h(1) r] by (simp add: set_eq_iff_mset_eq_distinct flip: set_upto)
  then have "mset (List.map_filter (activeAtSeat seats rn) (bergerSeats (2 * h) r))
      = mset (List.map_filter (activeAtSeat seats rn) [1..2 * h])" by (rule mset_map_filter)
  also have "List.map_filter (activeAtSeat seats rn) [1..2 * h] = filter (\<lambda>p. isActive p rn) seats"
    using len
  proof
    assume l: "int (length seats) = 2 * h - 1"
    have "[1..2 * h] = [1..int (length seats)] @ [2 * h]" using upto_rec2[of 1 "2 * h"] h l by simp
    then show ?thesis using active_seats[of seats rn] activeAtSeat_past[of seats "2 * h" rn] l
      by (simp add: map_filter_append List.map_filter_def)
  qed (use active_seats[of seats rn] in simp)
  finally show ?thesis
    using boardLoop_participants[OF bl] unfolding h(2) bergerSeats_def mset_map by simp
qed

section \<open>The engine\<close>

text \<open>The condition under which a round is paired at all.\<close>

definition rrAccepts :: "int option \<Rightarrow> PairingRequest \<Rightarrow> bool" where
  "rrAccepts opt req \<longleftrightarrow> distinct (map pairingNumber (players req)) \<and> 2 \<le> length (players req) \<and>
     1 \<le> roundNumber req \<and> roundNumber req \<le> legsOf opt * (tableOf (int (length (players req))) - 1) \<and>
     2 \<le> length (activePlayers req)"

text \<open>The schedule the engine reads its boards from.\<close>

definition rrBoards :: "PairingRequest \<Rightarrow> Pairing list \<times> ByeAssignment list" where
  "rrBoards req =
     (let seats = jsSort byPairingNumber (players req);
          n = tableOf (int (length seats));
          rn = roundNumber req
      in boardLoop seats rn (rn > n - 1) 1 (bergerRound n ((rn - 1) mod (n - 1) + 1)))"

lemma length_active_sorted:
  "length (filter P (jsSort cmp xs)) = length (filter P xs)"
  by (metis mset_filter mset_jsSort size_mset)

lemma roundRobinPair_eq:
  assumes "rrAccepts opt req"
  shows "roundRobinPair opt req = Inr \<lparr>pairings = fst (rrBoards req), byes = snd (rrBoards req),
    engineVersion = roundRobinVersion, diagnostics = None\<rparr>"
proof -
  have so: "seatingOrder req = Inr (jsSort byPairingNumber (players req))"
    using assms by (simp add: seatingOrder_iff rrAccepts_def)
  have t: "2 \<le> tableOf (int (length (players req)))"
    using assms by (auto simp: rrAccepts_def tableOf_def)
  have sm: "(roundNumber req - 1) smod k = (roundNumber req - 1) mod k" if "0 < k" for k
    using assms that by (simp add: smod_nonneg rrAccepts_def)
  have pos: "0 < int (length (players req))" "0 < int (length (players req)) - 1"
    using assms by (auto simp: rrAccepts_def)
  note sm1 = sm[OF pos(1)] sm[OF pos(2)]
  show ?thesis
    using assms t unfolding roundRobinPair_def so rrAccepts_def rrBoards_def
    by (cases "int (length (players req)) mod 2 = 0")
       (simp_all add: tableOf_def Let_def length_active_sorted activePlayers_def sm1 case_prod_beta)
qed

lemma rr_accepts_iff: "(\<exists>res. roundRobinPair opt req = Inr res) \<longleftrightarrow> rrAccepts opt req"
proof
  assume "\<exists>res. roundRobinPair opt req = Inr res"
  then show "rrAccepts opt req"
    by (auto simp: roundRobinPair_def seatingOrder_iff Let_def sort_facts length_active_sorted rrAccepts_def
        activePlayers_def tableOf_def split: if_splits)
qed (auto simp: roundRobinPair_eq)

lemma round_in_leg: "1 \<le> (rn - 1) mod R + (1 :: int)" if "0 < R"
  using pos_mod_sign[OF that, of "rn - 1"] by linarith

lemma tableOf_pos: "2 \<le> n \<Longrightarrow> 0 < tableOf n - 1"
  by (simp add: tableOf_def)

lemma rrBoards_covers:
  assumes "rrAccepts opt req"
  shows "mset (seatedIds (fst (rrBoards req)) @ map byePlayerId (snd (rrBoards req)))
    = mset (map playerId (activePlayers req))"
proof -
  let ?seats = "jsSort byPairingNumber (players req)" and ?rn = "roundNumber req"
  let ?R = "tableOf (int (length ?seats)) - 1"
  obtain ps bs where bl: "rrBoards req = (ps, bs)" by (meson surj_pair)
  have n: "2 \<le> int (length ?seats)" using assms by (simp add: rrAccepts_def)
  then have "0 < ?R" by (rule tableOf_pos)
  note cov = round_covers[OF n round_in_leg[OF this]]
  have "mset (seatedIds ps @ map byePlayerId bs) = mset (map playerId (filter (\<lambda>p. isActive p ?rn) ?seats))"
    by (rule cov) (use bl in \<open>simp only: rrBoards_def Let_def\<close>)
  also have "\<dots> = mset (map playerId (activePlayers req))"
    by (simp add: activePlayers_def mset_filter)
  finally show ?thesis by (simp add: bl)
qed

lemma boards_numbered: "map (\<lambda>k. 1 + int k) [0..<n] = map int [1..<n + 1]"
  by (induction n) auto

text \<open>The port's guarantees that the schedule can give.\<close>

interpretation rr: pairing_port "roundRobinPair opt" for opt
proof
  fix req res assume "roundRobinPair opt req = Inr res"
  moreover then have "rrAccepts opt req" using rr_accepts_iff by blast
  ultimately show "mset (participants res) = mset (map playerId (activePlayers req))"
    using rrBoards_covers by (auto simp: roundRobinPair_eq participants_def)
next
  fix r1 r2 assume same: "sameRequest r1 r2"
  have so: "seatingOrder r1 = seatingOrder r2" by (rule seatingOrder_order_blind[OF same])
  have hdr: "roundId r2 = roundId r1" "roundNumber r2 = roundNumber r1"
    using same by (auto simp: sameRequest_def) (metis PairingRequest.surjective PairingRequest.update_convs(4) PairingRequest.select_convs(1,2))+
  then show "roundRobinPair opt r1 = roundRobinPair opt r2" by (simp only: roundRobinPair_def so hdr)
next
  fix req res assume r: "roundRobinPair opt req = Inr res"
  then have "rrAccepts opt req" using rr_accepts_iff by blast
  then have "pairings res = fst (rrBoards req)" using r by (auto simp: roundRobinPair_eq)
  then show "map boardNumber (pairings res) = map int [1..<length (pairings res) + 1]"
    unfolding boards_numbered[symmetric] rrBoards_def Let_def
    by (metis boardLoop_numbers prod.collapse)
qed

section \<open>The schedule\<close>

text \<open>\<open>p\<close> and \<open>q\<close> play each other when the engine is asked for round \<open>rn\<close>.\<close>

definition rrMeet :: "int option \<Rightarrow> PairingRequest \<Rightarrow> PlayerPairingState \<Rightarrow> PlayerPairingState \<Rightarrow> int \<Rightarrow> bool" where
  "rrMeet opt req p q rn \<longleftrightarrow>
     (\<exists>res. roundRobinPair opt (req\<lparr>roundNumber := rn\<rparr>) = Inr res \<and>
        (\<exists>x \<in> set (pairings res). {whitePlayerId x, blackPlayerId x} = {playerId p, playerId q}))"

text \<open>A full roster: nobody withdrew, everybody joined before the first round.\<close>

definition fullRoster :: "PairingRequest \<Rightarrow> bool" where
  "fullRoster req \<longleftrightarrow> wellFormedRequest req \<and> distinct (map pairingNumber (players req)) \<and>
     2 \<le> length (players req) \<and> (\<forall>p \<in> set (players req). \<not> isWithdrawn p \<and> joinedAtRound p \<le> 1)"

lemma activeAtSeat_full:
  assumes "\<forall>p \<in> set seats. isActive p rn"
  shows "activeAtSeat seats rn s = Some w \<longleftrightarrow> (\<exists>k < length seats. s = int k + 1 \<and> w = seats ! k)"
proof
  assume a: "activeAtSeat seats rn s = Some w"
  then have "1 \<le> s" "s \<le> int (length seats)" "w = seats ! nat (s - 1)"
    by (auto simp: activeAtSeat_def playerAtSeat_def split: if_splits)
  then show "\<exists>k < length seats. s = int k + 1 \<and> w = seats ! k"
    by (intro exI[of _ "nat (s - 1)"]) auto
qed (use assms in \<open>auto simp: activeAtSeat_Suc\<close>)

lemma loop_meets:
  assumes d: "distinct (map playerId seats)" and act: "\<forall>p \<in> set seats. isActive p rn"
    and ij: "i < length seats" "j < length seats"
  shows "(\<exists>x \<in> set (fst (boardLoop seats rn leg b sps)).
      {whitePlayerId x, blackPlayerId x} = {playerId (seats ! i), playerId (seats ! j)}) \<longleftrightarrow>
    (\<exists>sp \<in> set sps. {whiteSeat sp, blackSeat sp} = {int i + 1, int j + 1})" (is "?L \<longleftrightarrow> ?R")
proof
  have ids: "playerId (seats ! k) = playerId (seats ! l) \<longleftrightarrow> k = l"
    if "k < length seats" "l < length seats" for k l
    using nth_eq_iff_index_eq[OF d, of k l] that by simp
  show ?R if ?L
  proof -
    from that obtain x where x: "x \<in> set (fst (boardLoop seats rn leg b sps))"
      and e: "{whitePlayerId x, blackPlayerId x} = {playerId (seats ! i), playerId (seats ! j)}" by auto
    from boardLoop_member[OF x] obtain sp k l where sp: "sp \<in> set sps"
      and k: "k < length seats" "(if leg then blackSeat sp else whiteSeat sp) = int k + 1" "whitePlayerId x = playerId (seats ! k)"
      and l: "l < length seats" "(if leg then whiteSeat sp else blackSeat sp) = int l + 1" "blackPlayerId x = playerId (seats ! l)"
      unfolding sitsAt_def activeAtSeat_full[OF act] by auto
    have "(k = i \<and> l = j) \<or> (k = j \<and> l = i)"
      using e k(3) l(3) ids[OF k(1) ij(1)] ids[OF k(1) ij(2)] ids[OF l(1) ij(1)] ids[OF l(1) ij(2)] k(1) l(1) ij
      by (simp add: doubleton_eq_iff)
    then have "{whiteSeat sp, blackSeat sp} = {int i + 1, int j + 1}"
      using k(2) l(2) by (cases leg) auto
    then show ?thesis using sp by blast
  qed
  show ?L if ?R
  proof -
    from that obtain sp where sp: "sp \<in> set sps" "{whiteSeat sp, blackSeat sp} = {int i + 1, int j + 1}" by auto
    define k l where "k = (if (if leg then blackSeat sp else whiteSeat sp) = int i + 1 then i else j)"
      and "l = (if (if leg then blackSeat sp else whiteSeat sp) = int i + 1 then j else i)"
    have kl: "(if leg then blackSeat sp else whiteSeat sp) = int k + 1" "(if leg then whiteSeat sp else blackSeat sp) = int l + 1"
      using sp(2) by (auto simp: k_def l_def doubleton_eq_iff)
    have "activeAtSeat seats rn (if leg then blackSeat sp else whiteSeat sp) = Some (seats ! k)"
      "activeAtSeat seats rn (if leg then whiteSeat sp else blackSeat sp) = Some (seats ! l)"
      unfolding kl activeAtSeat_full[OF act] using ij by (auto simp: k_def l_def)
    from boardLoop_sits[OF sp(1) this, of b] obtain x where x: "x \<in> set (fst (boardLoop seats rn leg b sps))"
      and w: "{whitePlayerId x, blackPlayerId x} = (\<lambda>n. playerId (seats ! n)) ` {k, l}" by auto
    have "{k, l} = {i, j}" by (auto simp: k_def l_def)
    then show ?thesis using x w by auto
  qed
qed

lemma rrMeet_iff_seats:
  assumes full: "fullRoster req" and R: "R = tableOf (int (length (players req))) - 1"
    and p: "p \<in> set (players req)" and q: "q \<in> set (players req)" and pq: "p \<noteq> q"
  shows "\<exists>a b. a \<in> {1..R + 1} \<and> b \<in> {1..R + 1} \<and> a \<noteq> b \<and>
    (\<forall>l r. 0 \<le> l \<longrightarrow> l < legsOf opt \<longrightarrow> r \<in> {1..R} \<longrightarrow>
       rrMeet opt req p q (l * R + r) = seatsMeet (R + 1) r a b)"
proof -
  let ?seats = "jsSort byPairingNumber (players req)"
  have d: "distinct (map playerId ?seats)"
    using full by (simp add: fullRoster_def wellFormedRequest_def sort_facts)
  obtain i where i: "i < length ?seats" "?seats ! i = p" using p by (metis in_set_conv_nth set_jsSort)
  obtain j where j: "j < length ?seats" "?seats ! j = q" using q by (metis in_set_conv_nth set_jsSort)
  have n: "2 \<le> int (length (players req))" using full by (simp add: fullRoster_def)
  have le: "int (length ?seats) \<le> R + 1" by (simp add: R tableOf_def)
  have Rpos: "0 < R" unfolding R by (rule tableOf_pos[OF n])
  have "rrMeet opt req p q (l * R + r) = seatsMeet (R + 1) r (int i + 1) (int j + 1)"
    if l: "0 \<le> l" "l < legsOf opt" and r: "r \<in> {1..R}" for l r
  proof -
    let ?rn = "l * R + r" and ?req = "req\<lparr>roundNumber := l * R + r\<rparr>"
    have lR: "0 \<le> l * R" using l Rpos by simp
    have rn1: "1 \<le> ?rn" using lR r by auto
    have "(l + 1) * R \<le> legsOf opt * R" using l Rpos by (intro mult_right_mono) auto
    then have rn2: "?rn \<le> legsOf opt * R" using r by (auto simp: algebra_simps)
    have act: "\<forall>p \<in> set (players req). isActive p ?rn"
      using full rn1 by (fastforce simp: fullRoster_def isActive_def)
    then have "activePlayers ?req = players req" by (simp add: activePlayers_def)
    then have acc: "rrAccepts opt ?req"
      using full rn1 rn2 by (simp add: rrAccepts_def fullRoster_def R)
    have "(?rn - 1) mod R + 1 = r"
    proof -
      have "(?rn - 1) mod R = (r - 1) mod R" using mod_mult_self3[of l R "r - 1"] by (simp add: algebra_simps)
      then show ?thesis using r by simp
    qed
    then have br: "fst (rrBoards ?req) = fst (boardLoop ?seats ?rn (?rn > R) 1 (bergerRound (R + 1) r))"
      by (simp add: rrBoards_def Let_def R)
    have act': "\<forall>p \<in> set ?seats. isActive p ?rn" using act by simp
    show ?thesis
      unfolding rrMeet_def roundRobinPair_eq[OF acc] seatsMeet_def
      using loop_meets[OF d act' i(1) j(1), of "?rn > R" 1 "bergerRound (R + 1) r"]
      by (simp add: br i(2) j(2))
  qed
  then show ?thesis using i j pq le
    by (intro exI[of _ "int i + 1"] exI[of _ "int j + 1"]) auto
qed

text \<open>
  C33. A full roster plays everybody against everybody exactly once per leg: for any two
  players, each leg of the schedule (there are one or two) has exactly one round in which
  the engine pairs them against each other.
\<close>

theorem everybody_meets_once_per_leg:
  assumes "fullRoster req" "p \<in> set (players req)" "q \<in> set (players req)" "p \<noteq> q"
    and "R = tableOf (int (length (players req))) - 1" "0 \<le> l" "l < legsOf opt"
  shows "\<exists>!r. r \<in> {1..R} \<and> rrMeet opt req p q (l * R + r)"
proof -
  have n: "2 \<le> int (length (players req))" using assms(1) by (simp add: fullRoster_def)
  obtain h where h: "1 \<le> h" "R + 1 = 2 * h" using tableOf_half[OF n] assms(5) by auto
  from rrMeet_iff_seats[OF assms(1,5,2-4)] obtain a b
    where "a \<in> {1..2 * h}" "b \<in> {1..2 * h}" "a \<noteq> b"
      and meet: "\<And>l r. 0 \<le> l \<Longrightarrow> l < legsOf opt \<Longrightarrow> r \<in> {1..R} \<Longrightarrow>
        rrMeet opt req p q (l * R + r) = seatsMeet (2 * h) r a b"
    unfolding h(2) by blast
  then have "\<exists>!r. r \<in> {1..2 * h - 1} \<and> seatsMeet (2 * h) r a b"
    using seats_meet_once[OF h(1)] by simp
  moreover have "r \<in> {1..R} \<and> rrMeet opt req p q (l * R + r) \<longleftrightarrow> r \<in> {1..2 * h - 1} \<and> seatsMeet (2 * h) r a b" for r
  proof (cases "r \<in> {1..R}")
    case True
    then show ?thesis using meet[OF assms(6,7) True] h(2) by simp
  qed (use h(2) in auto)
  ultimately show ?thesis by simp
qed

text \<open>A roster for the concrete instances: three players numbered from one.\<close>

definition samplePlayer :: "nat \<Rightarrow> PlayerPairingState" where
  "samplePlayer n = \<lparr>playerId = showNat n, pairingNumber = int n, rating = 1500, points = 0,
     opponentIds = {}, colorHistory = [], floatHistory = [], hasReceivedBye = False,
     isWithdrawn = False, joinedAtRound = 1\<rparr>"

definition sampleRequest :: PairingRequest where
  "sampleRequest = \<lparr>roundId = ''r'', roundNumber = 1, totalRounds = 3,
     players = [samplePlayer 2, samplePlayer 1, samplePlayer 3], seed = None, initialColor = None\<rparr>"

lemma sample_ids: "showNat 1 = ''1''" "showNat (Suc 0) = ''1''" "showNat 2 = ''2''" "showNat 3 = ''3''"
  by (simp_all add: showNat.simps)

lemma sample_full: "fullRoster sampleRequest"
  by (simp add: fullRoster_def wellFormedRequest_def sampleRequest_def samplePlayer_def sample_ids
      flip: One_nat_def)

theorem everybody_meets_once_per_leg_witness:
  "\<exists>!r. r \<in> {1..3} \<and> rrMeet (Some 2) sampleRequest (samplePlayer 1) (samplePlayer 2) (1 * 3 + r)"
  by (rule everybody_meets_once_per_leg[OF sample_full])
     (simp_all add: sampleRequest_def samplePlayer_def tableOf_def legsOf_def)

text \<open>The same pairing with the colours exchanged.\<close>

definition swapColors :: "Pairing \<Rightarrow> Pairing" where
  "swapColors x = x\<lparr>whitePlayerId := blackPlayerId x, blackPlayerId := whitePlayerId x\<rparr>"

lemma boardLoop_swap:
  assumes "\<forall>p \<in> set seats. isActive p rn' = isActive p rn"
  shows "boardLoop seats rn' True b sps =
    (map swapColors (fst (boardLoop seats rn False b sps)), snd (boardLoop seats rn False b sps))"
proof -
  have act: "activeAtSeat seats rn' s = activeAtSeat seats rn s" for s
    using assms by (auto simp: activeAtSeat_def playerAtSeat_def)
  show ?thesis
    by (induction sps arbitrary: b)
       (auto simp: Let_def act swapColors_def split: option.splits prod.splits)
qed

text \<open>
  The second leg of a double round robin repeats the first with the colours reversed: for
  a full roster, round \<open>R + r\<close> has the boards of round \<open>r\<close> in the same order with White and
  Black exchanged, and the same byes.
\<close>

theorem second_leg_reversed:
  assumes "fullRoster req" "R = tableOf (int (length (players req))) - 1" "r \<in> {1..R}"
  shows "\<exists>res1 res2. roundRobinPair (Some 2) (req\<lparr>roundNumber := r\<rparr>) = Inr res1 \<and>
    roundRobinPair (Some 2) (req\<lparr>roundNumber := R + r\<rparr>) = Inr res2 \<and>
    pairings res2 = map swapColors (pairings res1) \<and> byes res2 = byes res1"
proof -
  let ?seats = "jsSort byPairingNumber (players req)"
  have R0: "0 < R" using assms(1) unfolding assms(2) fullRoster_def by (intro tableOf_pos) simp
  have act: "\<forall>p \<in> set (players req). isActive p k" if "1 \<le> k" for k
    using assms(1) that by (fastforce simp: fullRoster_def isActive_def)
  have acc: "rrAccepts (Some 2) (req\<lparr>roundNumber := k\<rparr>)" if "1 \<le> k" "k \<le> 2 * R" for k
    using assms(1) act[OF that(1)] that
    by (simp add: rrAccepts_def fullRoster_def legsOf_def activePlayers_def assms(2))
  have same: "\<forall>p \<in> set ?seats. isActive p (R + r) = isActive p r"
    using act[of r] act[of "R + r"] assms(3) R0 by simp
  have "(R + r - 1) mod R = (r - 1) mod R" using mod_add_self1[of R "r - 1"] by (simp add: algebra_simps)
  then have "(R + r - 1) mod R = r - 1" "(r - 1) mod R = r - 1" using assms(3) by simp_all
  then have "rrBoards (req\<lparr>roundNumber := R + r\<rparr>) = (map swapColors (fst (rrBoards (req\<lparr>roundNumber := r\<rparr>))),
      snd (rrBoards (req\<lparr>roundNumber := r\<rparr>)))"
    using boardLoop_swap[OF same, of 1 "bergerRound (R + 1) r"] assms(3)
    by (simp add: rrBoards_def Let_def assms(2))
  then show ?thesis
    using acc[of r] acc[of "R + r"] assms(3) R0 by (simp add: roundRobinPair_eq)
qed

theorem second_leg_reversed_witness:
  "\<exists>res1 res2. roundRobinPair (Some 2) (sampleRequest\<lparr>roundNumber := 2\<rparr>) = Inr res1 \<and>
    roundRobinPair (Some 2) (sampleRequest\<lparr>roundNumber := 3 + 2\<rparr>) = Inr res2 \<and>
    pairings res2 = map swapColors (pairings res1) \<and> byes res2 = byes res1"
  by (rule second_leg_reversed[OF sample_full]) (simp_all add: sampleRequest_def tableOf_def)

section \<open>Who plays\<close>

text \<open>
  Whatever round the engine pairs, every active player appears exactly once, on one board
  or with one bye, and nobody else appears; boards are numbered from one without gaps; and the
  answer does not depend on the order in which the roster lists the players.
\<close>

theorem round_robin_contract:
  assumes "wellFormedRequest req" "sameRequest req req'" "roundRobinPair opt req = Inr res"
  shows "distinct (participants res) \<and> set (participants res) = playerId ` set (activePlayers req) \<and>
    map boardNumber (pairings res) = map int [1..<length (pairings res) + 1] \<and>
    roundRobinPair opt req' = Inr res"
  using rr.active_exactly_once[OF assms(1,3)] rr.boards[OF assms(3)] rr.order_blind[OF assms(2), of opt] assms(3)
  by simp

text \<open>
  The engine throws in exactly these cases: fewer than two players, two players with one
  pairing number, a round outside the schedule of one or two legs, or fewer than two active
  players; otherwise it returns a round.
\<close>

theorem round_robin_total:
  "(\<exists>res. roundRobinPair opt req = Inr res) \<longleftrightarrow>
     distinct (map pairingNumber (players req)) \<and> 2 \<le> length (players req) \<and> 1 \<le> roundNumber req \<and>
     roundNumber req \<le> legsOf opt * (tableOf (int (length (players req))) - 1) \<and>
     2 \<le> length (activePlayers req)"
  unfolding rr_accepts_iff rrAccepts_def by (rule refl)

lemma sample_sorted:
  "jsSort byPairingNumber (players sampleRequest) = [samplePlayer 1, samplePlayer 2, samplePlayer 3]"
  by (simp add: sampleRequest_def byPairingNumber_def samplePlayer_def)

lemma sample_round:
  "roundRobinPair None sampleRequest = Inr \<lparr>pairings = [\<lparr>boardNumber = 1, whitePlayerId = ''2'', blackPlayerId = ''3''\<rparr>],
     byes = [pairingAllocatedBye (samplePlayer 1)], engineVersion = roundRobinVersion, diagnostics = None\<rparr>"
proof -
  have so: "seatingOrder sampleRequest = Inr [samplePlayer 1, samplePlayer 2, samplePlayer 3]"
    by (simp add: seatingOrder_def sample_sorted) (simp add: samplePlayer_def)
  have upt: "[1..1] = [1 :: int]" by (simp add: upto.simps)
  show ?thesis
    unfolding roundRobinPair_def so
    by (simp add: Let_def legsOf_def sampleRequest_def samplePlayer_def isActive_def smod_nonneg
        bergerRound_def bergerLeader_def wrapSeat_eq activeAtSeat_def playerAtSeat_def upt
        pairingAllocatedBye_def sample_ids flip: One_nat_def)
qed

theorem round_robin_contract_witness:
  "distinct [''2'', ''3'', ''1''] \<and>
   roundRobinPair None (sampleRequest\<lparr>players := rev (players sampleRequest)\<rparr>) = roundRobinPair None sampleRequest"
proof -
  have wf: "wellFormedRequest sampleRequest" using sample_full by (simp add: fullRoster_def)
  have same: "sameRequest sampleRequest (sampleRequest\<lparr>players := rev (players sampleRequest)\<rparr>)"
    by (simp add: sameRequest_def)
  show ?thesis using round_robin_contract[OF wf same sample_round]
    by (simp add: participants_def pairingAllocatedBye_def sample_round samplePlayer_def sample_ids del: One_nat_def)
qed

text \<open>
  The port's third guarantee, that two players never meet twice (\<^verbatim>\<open>PairingEngine\<close>, FIDE C1),
  is one this engine does not give: the schedule ignores \<^verbatim>\<open>opponentIds\<close>, and the second leg of
  a double round robin repeats every board by design.
\<close>

lemma port_repeats_opponents:
  "\<exists>req res b x y. wellFormedRequest req \<and> roundRobinPair (Some 2) req = Inr res \<and> b \<in> set (pairings res) \<and>
     x \<in> set (players req) \<and> y \<in> set (players req) \<and> playerId x = whitePlayerId b \<and>
     playerId y = blackPlayerId b \<and> playerId y \<in> opponentIds x \<and> playerId x \<in> opponentIds y"
proof -
  define p where "p n m = (samplePlayer n)\<lparr>opponentIds := {showNat m}\<rparr>" for n m
  define req where "req = sampleRequest\<lparr>roundNumber := 2, players := [p 1 2, p 2 1]\<rparr>"
  have f: "fullRoster req"
    by (simp add: req_def p_def fullRoster_def wellFormedRequest_def sampleRequest_def samplePlayer_def sample_ids
      flip: One_nat_def)
  then have acc: "rrAccepts (Some 2) req"
    by (simp add: rrAccepts_def fullRoster_def activePlayers_def req_def sampleRequest_def p_def samplePlayer_def
        isActive_def legsOf_def tableOf_def)
  have "rrBoards req = ([\<lparr>boardNumber = 1, whitePlayerId = ''2'', blackPlayerId = ''1''\<rparr>], [])"
    by (simp add: rrBoards_def Let_def req_def p_def samplePlayer_def byPairingNumber_def tableOf_def
        bergerRound_def bergerLeader_def smod_nonneg activeAtSeat_def playerAtSeat_def isActive_def sample_ids
        flip: One_nat_def)
  then show ?thesis using f acc
    by (intro exI[of _ req] exI[of _ "p 2 1"] exI[of _ "p 1 2"] exI)
       (auto simp: roundRobinPair_eq fullRoster_def req_def p_def samplePlayer_def sample_ids)
qed

end
