(* ===== verification/SwissColors.thy ===== *)
theory SwissColors
  imports PairingTypes "HOL-Library.Signed_Division"
begin

text \<open>
  \<^verbatim>\<open>src/core/pairing/swiss/colors.ts\<close>: colour difference, colour preference (FIDE C.04.3
  Articles 1.6 and 1.7) and the allocation of colours inside a pair (Article 5.2). The lemmas
  show that the allocation treats its two sides alike, that it grants the stronger
  preference, and that histories within the absolute colour limits stay within them.
\<close>

section \<open>Preference\<close>

fun oppositeColor :: "Color \<Rightarrow> Color" where
  "oppositeColor White = Black"
| "oppositeColor Black = White"

fun colorDifferenceLoop :: "int \<Rightarrow> Color list \<Rightarrow> int" where
  "colorDifferenceLoop cd [] = cd"
| "colorDifferenceLoop cd (c # cs) = colorDifferenceLoop (cd + (if c = White then 1 else -1)) cs"

definition colorDifference :: "Color list \<Rightarrow> int" where
  "colorDifference history = colorDifferenceLoop 0 history"

text \<open>\<open>history ! (n - 1)\<close> is defined after the emptiness test, so the type guard of the code on an undefined element has no branch here.\<close>

definition colorPreferenceOf :: "Color list \<Rightarrow> ColorPreference" where
  "colorPreferenceOf history =
     (let n = length history;
          cd = colorDifference history;
          last' = history ! (n - 1)
      in if n = 0 then \<lparr>prefColor = None, prefStrength = NoStrength\<rparr>
         else if cd > 1 then \<lparr>prefColor = Some Black, prefStrength = Absolute\<rparr>
         else if cd < -1 then \<lparr>prefColor = Some White, prefStrength = Absolute\<rparr>
         else if n \<ge> 2 \<and> history ! (n - 2) = last'
           then \<lparr>prefColor = Some (oppositeColor last'), prefStrength = Absolute\<rparr>
         else if cd = 1 then \<lparr>prefColor = Some Black, prefStrength = Strong\<rparr>
         else if cd = -1 then \<lparr>prefColor = Some White, prefStrength = Strong\<rparr>
         else \<lparr>prefColor = Some (oppositeColor last'), prefStrength = Mild\<rparr>)"

section \<open>Allocation inside a pair\<close>

record ColorAllocationSide =
  pref :: ColorPreference
  colorDiff :: int
  history :: "Color list"
  rankIndex :: nat
  sideNumber :: int

datatype AllocationRule = R5_2_1 | R5_2_2 | R5_2_3 | R5_2_4 | R5_2_5

record ColorAllocation =
  firstIsWhite :: bool
  rule :: AllocationRule

fun STRENGTH_ORDER :: "ColorPreferenceStrength \<Rightarrow> nat" where
  "STRENGTH_ORDER Absolute = 3"
| "STRENGTH_ORDER Strong = 2"
| "STRENGTH_ORDER Mild = 1"
| "STRENGTH_ORDER NoStrength = 0"

text \<open>The \<^verbatim>\<open>winner\<close> of rule 5.2.2 is the first side or the second; it gets the colour it wants.\<close>

definition grant :: "bool \<Rightarrow> Color \<Rightarrow> AllocationRule \<Rightarrow> ColorAllocation" where
  "grant isFirst wanted r = \<lparr>firstIsWhite = (if isFirst then wanted = White else wanted \<noteq> White), rule = r\<rparr>"

text \<open>The most recent game, counted from each player's end, in which the two had different colours.\<close>

fun lastDifference :: "Color list \<Rightarrow> Color list \<Rightarrow> nat \<Rightarrow> nat \<Rightarrow> Color option" where
  "lastDifference ha hb steps 0 = None"
| "lastDifference ha hb steps (Suc todo) =
     (let ca = ha ! (length ha - steps); cb = hb ! (length hb - steps)
      in if ca \<noteq> cb then Some ca else lastDifference ha hb (steps + 1) todo)"

definition allocateByPreference :: "ColorAllocationSide \<Rightarrow> ColorAllocationSide \<Rightarrow> ColorAllocation option" where
  "allocateByPreference a b =
     (case (prefColor (pref a), prefColor (pref b)) of
        (Some pa, Some pb) \<Rightarrow>
          if pa \<noteq> pb then Some \<lparr>firstIsWhite = (pa = White), rule = R5_2_1\<rparr>
          else
            let sa = STRENGTH_ORDER (prefStrength (pref a)); sb = STRENGTH_ORDER (prefStrength (pref b))
            in if sa \<noteq> sb then Some (grant (sa > sb) (if sa > sb then pa else pb) R5_2_2)
               else if prefStrength (pref a) = Absolute \<and> \<bar>colorDiff a\<bar> \<noteq> \<bar>colorDiff b\<bar>
                 then Some (grant (\<bar>colorDiff a\<bar> > \<bar>colorDiff b\<bar>)
                        (if \<bar>colorDiff a\<bar> > \<bar>colorDiff b\<bar> then pa else pb) R5_2_2)
               else None
      | (Some pa, None) \<Rightarrow> Some \<lparr>firstIsWhite = (pa = White), rule = R5_2_1\<rparr>
      | (None, Some pb) \<Rightarrow> Some \<lparr>firstIsWhite = (pb = Black), rule = R5_2_1\<rparr>
      | (None, None) \<Rightarrow> None)"

definition allocateByRank :: "ColorAllocationSide \<Rightarrow> ColorAllocationSide \<Rightarrow> Color \<Rightarrow> ColorAllocation" where
  "allocateByRank a b initial =
     (let firstHigher = rankIndex a < rankIndex b;
          higher = (if firstHigher then a else b)
      in case prefColor (pref higher) of
           Some c \<Rightarrow> grant firstHigher c R5_2_4
         | None \<Rightarrow> grant firstHigher
                    (if sideNumber higher smod 2 = 1 then initial else oppositeColor initial) R5_2_5)"

definition allocateColors :: "ColorAllocationSide \<Rightarrow> ColorAllocationSide \<Rightarrow> Color \<Rightarrow> ColorAllocation" where
  "allocateColors a b initial =
     (case allocateByPreference a b of
        Some alloc \<Rightarrow> alloc
      | None \<Rightarrow>
          (case lastDifference (history a) (history b) 1 (min (length (history a)) (length (history b))) of
             Some ca \<Rightarrow> \<lparr>firstIsWhite = (oppositeColor ca = White), rule = R5_2_3\<rparr>
           | None \<Rightarrow> allocateByRank a b initial))"

section \<open>The order of the strengths\<close>

instantiation ColorPreferenceStrength :: linorder
begin

definition less_eq_ColorPreferenceStrength :: "ColorPreferenceStrength \<Rightarrow> ColorPreferenceStrength \<Rightarrow> bool" where
  "less_eq_ColorPreferenceStrength s t \<longleftrightarrow> STRENGTH_ORDER s \<le> STRENGTH_ORDER t"

definition less_ColorPreferenceStrength :: "ColorPreferenceStrength \<Rightarrow> ColorPreferenceStrength \<Rightarrow> bool" where
  "less_ColorPreferenceStrength s t \<longleftrightarrow> STRENGTH_ORDER s < STRENGTH_ORDER t"

instance
proof
  fix s t :: ColorPreferenceStrength
  assume "s \<le> t" "t \<le> s"
  then show "s = t"
    by (cases s; cases t) (simp_all add: less_eq_ColorPreferenceStrength_def)
qed (auto simp: less_eq_ColorPreferenceStrength_def less_ColorPreferenceStrength_def)

end

section \<open>Lemmas\<close>

lemma oppositeColor_simps [simp]:
  "oppositeColor (oppositeColor c) = c" "oppositeColor c \<noteq> c" "c \<noteq> oppositeColor c"
  by (cases c; simp)+

lemma Color_cases_eq: "c \<noteq> White \<longleftrightarrow> c = Black" "c \<noteq> Black \<longleftrightarrow> c = White"
  "White \<noteq> c \<longleftrightarrow> c = Black" "Black \<noteq> c \<longleftrightarrow> c = White"
  by (cases c; simp)+

lemma oppositeColor_eq: "oppositeColor c = d \<longleftrightarrow> c \<noteq> d" "d = oppositeColor c \<longleftrightarrow> c \<noteq> d"
  by (cases c; cases d; simp)+

lemma colorDifferenceLoop_acc: "colorDifferenceLoop cd h = cd + colorDifferenceLoop 0 h"
proof (induction h arbitrary: cd)
  case (Cons c h)
  show ?case using Cons[of "cd + (if c = White then 1 else -1)"] Cons[of "if c = White then 1 else -1"] by simp
qed simp

lemma colorDifference_simps [simp]:
  "colorDifference [] = 0"
  "colorDifference (c # h) = (if c = White then 1 else -1) + colorDifference h"
  using colorDifferenceLoop_acc[of "if c = White then 1 else -1" h] by (simp_all add: colorDifference_def)

lemma colorDifference_append [simp]: "colorDifference (g @ h) = colorDifference g + colorDifference h"
  by (induction g) auto

text \<open>
  \<^verbatim>\<open>colorDifference\<close> is the number of games with White less the number with Black.
\<close>

lemma colorDifference_counts: "colorDifference h = int (count_list h White) - int (count_list h Black)"
proof (induction h)
  case (Cons c h)
  then show ?case by (cases c) auto
qed simp

lemma STRENGTH_ORDER_inj: "STRENGTH_ORDER s = STRENGTH_ORDER t \<longleftrightarrow> s = t"
  by (cases s; cases t) auto

lemma lastDifference_swap:
  "lastDifference hb ha steps k = map_option oppositeColor (lastDifference ha hb steps k)"
  by (induction k arbitrary: steps) (auto simp: Let_def oppositeColor_eq)

lemma firstIsWhite_grant [simp]: "firstIsWhite (grant f c r) = (f = (c = White))"
  by (auto simp: grant_def)

lemma allocateByPreference_swap:
  "map_option firstIsWhite (allocateByPreference b a) = map_option (\<lambda>x. \<not> firstIsWhite x) (allocateByPreference a b)"
proof (cases "prefColor (pref a)"; cases "prefColor (pref b)")
  fix pa pb assume p: "prefColor (pref a) = Some pa" "prefColor (pref b) = Some pb"
  let ?sa = "STRENGTH_ORDER (prefStrength (pref a))" and ?sb = "STRENGTH_ORDER (prefStrength (pref b))"
  show ?thesis
  proof (cases "pa = pb")
    case True
    consider "?sa < ?sb" | "?sb < ?sa" | "prefStrength (pref a) = prefStrength (pref b)"
      using STRENGTH_ORDER_inj linorder_neqE_nat by blast
    then show ?thesis using p True by cases (auto simp: allocateByPreference_def)
  qed (use p in \<open>auto simp: allocateByPreference_def Color_cases_eq\<close>)
qed (auto simp: allocateByPreference_def Color_cases_eq)

lemma allocateByRank_swap:
  "rankIndex a \<noteq> rankIndex b \<Longrightarrow>
   firstIsWhite (allocateByRank b a initial) = (\<not> firstIsWhite (allocateByRank a b initial))"
  by (cases "rankIndex a < rankIndex b") (auto simp: allocateByRank_def Let_def split: option.splits)

lemma allocate_swap:
  assumes "rankIndex a \<noteq> rankIndex b"
  shows "firstIsWhite (allocateColors b a initial) = (\<not> firstIsWhite (allocateColors a b initial))"
proof (cases "allocateByPreference a b")
  case (Some x)
  then obtain y where y: "allocateByPreference b a = Some y" "firstIsWhite y = (\<not> firstIsWhite x)"
    using allocateByPreference_swap[of b a] by auto
  then show ?thesis using Some by (simp add: allocateColors_def)
next
  case None
  then have "allocateByPreference b a = None" using allocateByPreference_swap[of b a] by simp
  then show ?thesis
    using None allocateByRank_swap[OF assms]
      lastDifference_swap[of "history b" "history a" 1 "min (length (history a)) (length (history b))"]
    by (auto simp: allocateColors_def min.commute oppositeColor_eq Color_cases_eq split: option.splits)
qed

text \<open>
  The allocation treats its two sides alike: naming the sides in the other order gives each
  player the same colour, provided their ranks differ.
\<close>

theorem allocateColors_swap:
  assumes "rankIndex a \<noteq> rankIndex b"
  shows "firstIsWhite (allocateColors b a initial) = (\<not> firstIsWhite (allocateColors a b initial))"
  using assms by (rule allocate_swap)

section \<open>The absolute colour limits\<close>

text \<open>
  A history within the limits of FIDE Basic Rules 6 and 7: the colour difference was never
  beyond two, and no colour came three times in a row.
\<close>

definition legalHistory :: "Color list \<Rightarrow> bool" where
  "legalHistory h \<longleftrightarrow> (\<forall>k \<le> length h. \<bar>colorDifference (take k h)\<bar> \<le> 2) \<and>
     (\<forall>k. k + 2 < length h \<longrightarrow> \<not> (h ! k = h ! (k + 1) \<and> h ! (k + 1) = h ! (k + 2)))"

definition exceedsLimit :: "Color list \<Rightarrow> Color \<Rightarrow> bool" where
  "exceedsLimit h got \<longleftrightarrow> \<bar>colorDifference h + (if got = White then 1 else -1)\<bar> > 2"

definition thirdInARow :: "Color list \<Rightarrow> Color \<Rightarrow> bool" where
  "thirdInARow h got \<longleftrightarrow> length h \<ge> 2 \<and> h ! (length h - 1) = got \<and> h ! (length h - 2) = got"

lemma legalHistory_snoc:
  "legalHistory (h @ [c]) \<longleftrightarrow> legalHistory h \<and> \<not> exceedsLimit h c \<and> \<not> thirdInARow h c"
proof -
  have cd: "(\<forall>k \<le> length (h @ [c]). \<bar>colorDifference (take k (h @ [c]))\<bar> \<le> 2) \<longleftrightarrow>
      (\<forall>k \<le> length h. \<bar>colorDifference (take k h)\<bar> \<le> 2) \<and> \<not> exceedsLimit h c"
    by (auto simp: exceedsLimit_def le_Suc_eq)
  have row: "(\<forall>k. k + 2 < length (h @ [c]) \<longrightarrow>
        \<not> ((h @ [c]) ! k = (h @ [c]) ! (k + 1) \<and> (h @ [c]) ! (k + 1) = (h @ [c]) ! (k + 2))) \<longleftrightarrow>
      (\<forall>k. k + 2 < length h \<longrightarrow> \<not> (h ! k = h ! (k + 1) \<and> h ! (k + 1) = h ! (k + 2))) \<and> \<not> thirdInARow h c"
    (is "?L \<longleftrightarrow> ?R \<and> _")
  proof (intro iffI conjI)
    assume loop: ?L
    show ?R
    proof (intro allI impI)
      fix k assume "k + 2 < length h"
      then show "\<not> (h ! k = h ! (k + 1) \<and> h ! (k + 1) = h ! (k + 2))"
        using loop[rule_format, of k] by (simp add: nth_append)
    qed
    show "\<not> thirdInARow h c"
    proof
      assume t: "thirdInARow h c"
      have l: "2 \<le> length h" using t by (simp add: thirdInARow_def)
      then have "length h - 2 + 2 < length (h @ [c])" using le_add_diff_inverse2[OF l] by simp
      have "Suc (length h - 2) = length h - 1" "Suc (Suc (length h - 2)) = length h" "length h - 1 < length h"
        "length h - 2 < length h"
        using l by linarith+
      with l show False
        using loop[rule_format, of "length h - 2"] t by (simp add: thirdInARow_def nth_append)
    qed
  next
    assume r: "?R \<and> \<not> thirdInARow h c"
    show ?L
    proof (intro allI impI)
      fix k assume "k + 2 < length (h @ [c])"
      then consider "k + 2 < length h" | "k + 2 = length h" by force
      then show "\<not> ((h @ [c]) ! k = (h @ [c]) ! (k + 1) \<and> (h @ [c]) ! (k + 1) = (h @ [c]) ! (k + 2))"
      proof cases
        case 1
        then show ?thesis using r by (simp add: nth_append)
      next
        case 2
        then have "length h - 1 = k + 1" "length h - 2 = k" by simp_all
        then show ?thesis using r 2 by (auto simp: thirdInARow_def nth_append)
      qed
    qed
  qed
  show ?thesis unfolding legalHistory_def cd row by blast
qed

lemma legalHistory_Nil [simp]: "legalHistory []"
  by (simp add: legalHistory_def)

text \<open>What each strength of preference says about a legal history.\<close>

lemma legal_take: "legalHistory h \<Longrightarrow> k \<le> length h \<Longrightarrow> \<bar>colorDifference (take k h)\<bar> \<le> 2"
  by (simp add: legalHistory_def)

lemma last_two:
  "2 \<le> length h \<Longrightarrow> h = take (length h - 2) h @ [h ! (length h - 2), h ! (length h - 1)]"
proof -
  assume l: "2 \<le> length h"
  have "h = take (length h - 2) h @ drop (length h - 2) h" by simp
  also have "drop (length h - 2) h = [h ! (length h - 2), h ! (length h - 1)]"
  proof -
    have "Suc (length h - 2) = length h - 1" "Suc (length h - 1) = length h" using l by simp_all
    then show ?thesis using l Cons_nth_drop_Suc[of "length h - 2" h] Cons_nth_drop_Suc[of "length h - 1" h] by simp
  qed
  finally show ?thesis .
qed

lemma colorPreference_nonabsolute:
  assumes "prefStrength (colorPreferenceOf h) \<noteq> Absolute" "legalHistory h"
  shows "legalHistory (h @ [c])"
proof (cases "h = []")
  case False
  have cd: "\<bar>colorDifference h\<bar> \<le> 1" and d: "2 \<le> length h \<Longrightarrow> h ! (length h - 2) \<noteq> h ! (length h - 1)"
    using assms(1) False by (auto simp: colorPreferenceOf_def Let_def split: if_splits)
  have "\<not> exceedsLimit h c" using cd by (auto simp: exceedsLimit_def)
  moreover have "\<not> thirdInARow h c" using d by (auto simp: thirdInARow_def)
  ultimately show ?thesis using assms(2) by (simp add: legalHistory_snoc)
qed (use legalHistory_snoc[of "[]" c] in \<open>simp add: exceedsLimit_def thirdInARow_def\<close>)

lemma colorPreference_absolute:
  assumes "prefStrength (colorPreferenceOf h) = Absolute" "prefColor (colorPreferenceOf h) = Some c" "legalHistory h"
  shows "legalHistory (h @ [c])"
proof -
  have cd2: "\<bar>colorDifference h\<bar> \<le> 2" using legal_take[OF assms(3), of "length h"] by simp
  have tail: "\<bar>colorDifference (take (length h - 2) h)\<bar> \<le> 2" using legal_take[OF assms(3)] by simp
  have cdtail: "colorDifference h = colorDifference (take (length h - 2) h)
      + (if h ! (length h - 2) = White then 1 else -1) + (if h ! (length h - 1) = White then 1 else -1)"
    if "2 \<le> length h" by (subst last_two[OF that]) simp
  consider (black) "colorDifference h > 1" "c = Black" | (white) "colorDifference h < -1" "c = White"
    | (twice) "2 \<le> length h" "h ! (length h - 2) = h ! (length h - 1)" "c = oppositeColor (h ! (length h - 1))"
      "\<bar>colorDifference h\<bar> \<le> 1"
    using assms(1,2) by (auto simp: colorPreferenceOf_def Let_def split: if_splits)
  then have "\<not> exceedsLimit h c \<and> \<not> thirdInARow h c"
  proof cases
    case black
    then show ?thesis using cd2 tail cdtail by (auto simp: exceedsLimit_def thirdInARow_def)
  next
    case white
    then show ?thesis using cd2 tail cdtail by (auto simp: exceedsLimit_def thirdInARow_def)
  next
    case twice
    then show ?thesis by (auto simp: exceedsLimit_def thirdInARow_def)
  qed
  then show ?thesis using assms(3) by (simp add: legalHistory_snoc)
qed

definition colorOf :: "bool \<Rightarrow> Color" where
  "colorOf white = (if white then White else Black)"

definition honestSide :: "ColorAllocationSide \<Rightarrow> bool" where
  "honestSide a \<longleftrightarrow> pref a = colorPreferenceOf (history a) \<and> colorDiff a = colorDifference (history a)"

definition absoluteClash :: "ColorPreference \<Rightarrow> ColorPreference \<Rightarrow> bool" where
  "absoluteClash p q \<longleftrightarrow> prefStrength p = Absolute \<and> prefStrength q = Absolute \<and> prefColor p = prefColor q"

lemma prefColor_None: "prefColor (colorPreferenceOf h) = None \<longleftrightarrow> h = []"
  by (simp add: colorPreferenceOf_def Let_def)

lemma absolute_has_color:
  "prefStrength (colorPreferenceOf h) = Absolute \<Longrightarrow> \<exists>c. prefColor (colorPreferenceOf h) = Some c"
  by (simp add: colorPreferenceOf_def Let_def split: if_splits)

text \<open>An absolute preference is granted whenever the opponent has no absolute preference for the same colour.\<close>

lemma absolute_granted:
  assumes "prefStrength (pref a) = Absolute" "prefColor (pref a) = Some c" "\<not> absoluteClash (pref a) (pref b)"
  shows "colorOf (firstIsWhite (allocateColors a b initial)) = c"
proof (cases "prefColor (pref b)")
  case (Some d)
  have "STRENGTH_ORDER (prefStrength (pref b)) < 3" if "d = c"
    using assms that Some by (cases "prefStrength (pref b)") (auto simp: absoluteClash_def)
  then show ?thesis
    using assms(1,2) Some
    by (cases "d = c"; cases c; cases d) (auto simp: allocateColors_def allocateByPreference_def colorOf_def)
qed (use assms in \<open>auto simp: allocateColors_def allocateByPreference_def colorOf_def Color_cases_eq\<close>)

lemma allocation_limits:
  assumes "honestSide a" "honestSide b" "rankIndex a \<noteq> rankIndex b"
    and "\<not> absoluteClash (pref a) (pref b)" "legalHistory (history a)" "legalHistory (history b)"
  shows "legalHistory (history a @ [colorOf (firstIsWhite (allocateColors a b initial))])
    \<and> legalHistory (history b @ [colorOf (\<not> firstIsWhite (allocateColors a b initial))])"
proof -
  have one: "legalHistory (history x @ [colorOf (firstIsWhite (allocateColors x y initial))])"
    if hx: "honestSide x" and leg: "legalHistory (history x)" and nc: "\<not> absoluteClash (pref x) (pref y)" for x y
  proof (cases "prefStrength (pref x) = Absolute")
    case True
    then obtain c where c: "prefColor (pref x) = Some c"
      using hx True absolute_has_color[of "history x"] by (auto simp: honestSide_def)
    show ?thesis
      using colorPreference_absolute[OF _ _ leg, of c] absolute_granted[OF True c nc] True c hx
      by (simp add: honestSide_def)
  next
    case False
    then show ?thesis using colorPreference_nonabsolute[OF _ leg] hx by (simp add: honestSide_def)
  qed
  have clash: "\<not> absoluteClash (pref b) (pref a)" using assms(4) by (auto simp: absoluteClash_def)
  show ?thesis using one[OF assms(1,5,4)] one[OF assms(2,6) clash] allocate_swap[OF assms(3)] by simp
qed

text \<open>
  Colour safety (FIDE C3, Basic Rules 6 and 7): when two players whose colour histories are
  within the absolute limits are paired, and they do not both have an absolute preference for
  the same colour, then after the allocated game both histories are still within the limits:
  nobody has a colour difference beyond two or a third game in a row with one colour.
\<close>

theorem allocation_keeps_limits:
  assumes "honestSide a" "honestSide b" "rankIndex a \<noteq> rankIndex b"
    and "\<not> absoluteClash (pref a) (pref b)" "legalHistory (history a)" "legalHistory (history b)"
  shows "legalHistory (history a @ [colorOf (firstIsWhite (allocateColors a b initial))])
    \<and> legalHistory (history b @ [colorOf (\<not> firstIsWhite (allocateColors a b initial))])"
  using assms by (rule allocation_limits)

text \<open>
  Preferences in order of strength (Article 5.2.1 and 5.2.2): a player with a preference
  receives the wanted colour whenever the opponent does not want that colour, or wants it less
  strongly.
\<close>

theorem stronger_preference_granted:
  assumes "prefColor (pref a) = Some c"
    and "prefColor (pref b) \<noteq> Some c \<or> prefStrength (pref b) < prefStrength (pref a)"
  shows "colorOf (firstIsWhite (allocateColors a b initial)) = c"
proof (cases "prefColor (pref b)")
  case (Some d)
  then show ?thesis
    using assms by (cases "d = c"; cases c; cases d)
      (auto simp: allocateColors_def allocateByPreference_def colorOf_def less_ColorPreferenceStrength_def)
qed (use assms in \<open>auto simp: allocateColors_def allocateByPreference_def colorOf_def Color_cases_eq\<close>)

definition sampleSide :: "nat \<Rightarrow> Color list \<Rightarrow> ColorAllocationSide" where
  "sampleSide n h = \<lparr>pref = colorPreferenceOf h, colorDiff = colorDifference h, history = h,
     rankIndex = n, sideNumber = int n + 1\<rparr>"

theorem allocateColors_swap_witness:
  "firstIsWhite (allocateColors (sampleSide 1 []) (sampleSide 0 []) White)
     = (\<not> firstIsWhite (allocateColors (sampleSide 0 []) (sampleSide 1 []) White))"
  by (rule allocateColors_swap) (simp add: sampleSide_def)

theorem allocation_keeps_limits_witness:
  "legalHistory [White, White, Black] \<and> legalHistory [Black, White, White]"
proof -
  let ?a = "sampleSide 0 [White, White]" and ?b = "sampleSide 1 [Black, White]"
  have leg: "legalHistory [White, White]" "legalHistory [Black, White]"
    by (auto simp: legalHistory_def le_Suc_eq numeral_2_eq_2)
  have w: "\<not> firstIsWhite (allocateColors ?a ?b White)" by code_simp
  have "\<not> absoluteClash (pref ?a) (pref ?b)" by code_simp
  then show ?thesis
    using allocation_keeps_limits[of ?a ?b White] leg w
    by (simp add: honestSide_def sampleSide_def colorOf_def)
qed

theorem stronger_preference_granted_witness:
  "colorOf (firstIsWhite (allocateColors (sampleSide 1 [Black, Black]) (sampleSide 0 [White, Black]) White)) = White"
  by (rule stronger_preference_granted) code_simp+

end
