(* ===== verification/SwissTypes.thy ===== *)
theory SwissTypes
  imports SwissColors
begin

text \<open>
  \<^verbatim>\<open>src/core/pairing/swiss/swiss-types.ts\<close> and \<^verbatim>\<open>verify.ts\<close>: the enriched player, the
  absolute compatibility of two players (C1, C3), and the verification every Swiss round
  passes before it leaves the engine. The verification is shown to accept exactly the rounds
  that satisfy the absolute criteria, and never to reject a complete round built from
  compatible pairs.
\<close>

section \<open>Players\<close>

record SwissPlayer =
  pstate :: PlayerPairingState
  prank :: nat
  scoreX2 :: int
  pcolorDiff :: int
  ppref :: ColorPreference
  isTopscorer :: bool
  unplayedCount :: int
  floatPrev :: FloatDirection
  floatPrevPrev :: FloatDirection
  pabEligible :: bool

text \<open>\<^verbatim>\<open>Math.round(points * 2)\<close>, and \<^verbatim>\<open>history[length - k] ?? None\<close>.\<close>

definition roundX2 :: "rat \<Rightarrow> int" where
  "roundX2 pts = \<lfloor>pts * 2 + 1 / 2\<rfloor>"

definition floatFromEnd :: "FloatDirection list \<Rightarrow> nat \<Rightarrow> FloatDirection" where
  "floatFromEnd h k = (if k \<le> length h \<and> 0 < k then h ! (length h - k) else NoFloat)"

definition swissPlayer :: "int \<Rightarrow> int \<Rightarrow> nat \<Rightarrow> PlayerPairingState \<Rightarrow> SwissPlayer" where
  "swissPlayer rn tot idx st =
     \<lparr>pstate = st, prank = idx, scoreX2 = roundX2 (points st),
      pcolorDiff = colorDifference (colorHistory st), ppref = colorPreferenceOf (colorHistory st),
      isTopscorer = (rn = tot \<and> roundX2 (points st) > rn - 1),
      unplayedCount = max 0 (rn - 1 - int (length (colorHistory st))),
      floatPrev = floatFromEnd (floatHistory st) 1, floatPrevPrev = floatFromEnd (floatHistory st) 2,
      pabEligible = (\<not> hasReceivedBye st)\<rparr>"

fun prepareLoop :: "int \<Rightarrow> int \<Rightarrow> nat \<Rightarrow> PlayerPairingState list \<Rightarrow> SwissPlayer list" where
  "prepareLoop rn tot idx [] = []"
| "prepareLoop rn tot idx (st # sts) = swissPlayer rn tot idx st # prepareLoop rn tot (Suc idx) sts"

definition prepareSwissPlayers :: "PlayerPairingState list \<Rightarrow> int \<Rightarrow> int \<Rightarrow> SwissPlayer list" where
  "prepareSwissPlayers sortedActive rn tot = prepareLoop rn tot 0 sortedActive"

abbreviation pid :: "SwissPlayer \<Rightarrow> PlayerId" where
  "pid p \<equiv> playerId (pstate p)"

definition canMeet :: "SwissPlayer \<Rightarrow> SwissPlayer \<Rightarrow> bool" where
  "canMeet a b \<longleftrightarrow>
     (if pid b \<in> opponentIds (pstate a) then False
      else if \<not> isTopscorer a \<and> \<not> isTopscorer b \<and> prefStrength (ppref a) = Absolute
           \<and> prefStrength (ppref b) = Absolute \<and> prefColor (ppref a) = prefColor (ppref b) then False
      else True)"

definition toAllocationSide :: "SwissPlayer \<Rightarrow> ColorAllocationSide" where
  "toAllocationSide p = \<lparr>pref = ppref p, colorDiff = pcolorDiff p, history = colorHistory (pstate p),
     rankIndex = prank p, sideNumber = pairingNumber (pstate p)\<rparr>"

record ColorOutcomeFlags =
  exceedsColorDiff :: bool
  threeInARow :: bool

definition colorOutcomeFlags :: "SwissPlayer \<Rightarrow> Color \<Rightarrow> ColorOutcomeFlags" where
  "colorOutcomeFlags p received =
     (let newCd = pcolorDiff p + (if received = White then 1 else -1);
          h = colorHistory (pstate p);
          n = length h
      in \<lparr>exceedsColorDiff = \<bar>newCd\<bar> > 2,
          threeInARow = (n \<ge> 2 \<and> h ! (n - 1) = received \<and> h ! (n - 2) = received)\<rparr>)"

section \<open>Verification\<close>

record ColoredPair =
  white :: SwissPlayer
  black :: SwissPlayer

definition takeOnce :: "RoundId \<Rightarrow> PlayerId set \<Rightarrow> SwissPlayer \<Rightarrow> PairingError + PlayerId set" where
  "takeOnce rid seen p =
     (if pid p \<in> seen then Inl (PairingIntegrityError rid COVERAGE) else Inr (insert (pid p) seen))"

definition checkLimits :: "RoundId \<Rightarrow> SwissPlayer \<times> Color \<Rightarrow> PairingError + unit" where
  "checkLimits rid pg =
     (let flags = colorOutcomeFlags (fst pg) (snd pg)
      in bindE (throwIf (exceedsColorDiff flags) (PairingIntegrityError rid C3_COLOR)) (\<lambda>_.
         throwIf (threeInARow flags) (PairingIntegrityError rid C3_COLOR)))"

definition verifyPair :: "RoundId \<Rightarrow> PlayerId set \<Rightarrow> ColoredPair \<Rightarrow> PairingError + PlayerId set" where
  "verifyPair rid seen pair =
     bindE (takeOnce rid seen (white pair)) (\<lambda>seen1.
     bindE (takeOnce rid seen1 (black pair)) (\<lambda>seen2.
     bindE (throwIf (pid (black pair) \<in> opponentIds (pstate (white pair))
                     \<or> pid (white pair) \<in> opponentIds (pstate (black pair)))
              (PairingIntegrityError rid C1_REPEAT)) (\<lambda>_.
     bindE (if isTopscorer (white pair) \<or> isTopscorer (black pair) then Inr ()
            else forE (checkLimits rid) [(white pair, White), (black pair, Black)]) (\<lambda>_.
     Inr seen2))))"

fun verifyPairs :: "RoundId \<Rightarrow> PlayerId set \<Rightarrow> ColoredPair list \<Rightarrow> PairingError + PlayerId set" where
  "verifyPairs rid seen [] = Inr seen"
| "verifyPairs rid seen (pair # pairs) = bindE (verifyPair rid seen pair) (\<lambda>seen'. verifyPairs rid seen' pairs)"

definition verifyPab :: "RoundId \<Rightarrow> PlayerId set \<Rightarrow> SwissPlayer option \<Rightarrow> PairingError + PlayerId set" where
  "verifyPab rid seen pab =
     (case pab of
        None \<Rightarrow> Inr seen
      | Some p \<Rightarrow> bindE (takeOnce rid seen p) (\<lambda>seen'.
          bindE (throwIf (\<not> pabEligible p) (PairingIntegrityError rid C2_BYE)) (\<lambda>_. Inr seen')))"

definition verifyAbsoluteCriteria ::
  "RoundId \<Rightarrow> SwissPlayer list \<Rightarrow> ColoredPair list \<Rightarrow> SwissPlayer option \<Rightarrow> PairingError + unit" where
  "verifyAbsoluteCriteria rid active pairs pab =
     bindE (verifyPairs rid {} pairs) (\<lambda>seen1.
     bindE (verifyPab rid seen1 pab) (\<lambda>seen.
     bindE (throwIf (card seen \<noteq> length active) (PairingIntegrityError rid COVERAGE)) (\<lambda>_.
     forE (\<lambda>p. throwIf (pid p \<notin> seen) (PairingIntegrityError rid COVERAGE)) active)))"

section \<open>The absolute criteria\<close>

definition roundIds :: "ColoredPair list \<Rightarrow> SwissPlayer option \<Rightarrow> PlayerId list" where
  "roundIds pairs pab = concat (map (\<lambda>c. [pid (white c), pid (black c)]) pairs)
     @ (case pab of None \<Rightarrow> [] | Some p \<Rightarrow> [pid p])"

definition meetsC1 :: "ColoredPair \<Rightarrow> bool" where
  "meetsC1 c \<longleftrightarrow> pid (black c) \<notin> opponentIds (pstate (white c)) \<and> pid (white c) \<notin> opponentIds (pstate (black c))"

definition withinLimits :: "SwissPlayer \<Rightarrow> Color \<Rightarrow> bool" where
  "withinLimits p got \<longleftrightarrow> \<not> exceedsColorDiff (colorOutcomeFlags p got) \<and> \<not> threeInARow (colorOutcomeFlags p got)"

definition meetsC3 :: "ColoredPair \<Rightarrow> bool" where
  "meetsC3 c \<longleftrightarrow> isTopscorer (white c) \<or> isTopscorer (black c) \<or> withinLimits (white c) White \<and> withinLimits (black c) Black"

definition absoluteCriteria :: "SwissPlayer list \<Rightarrow> ColoredPair list \<Rightarrow> SwissPlayer option \<Rightarrow> bool" where
  "absoluteCriteria active pairs pab \<longleftrightarrow>
     distinct (roundIds pairs pab) \<and> length (roundIds pairs pab) = length active \<and>
     set (map pid active) \<subseteq> set (roundIds pairs pab) \<and>
     list_all meetsC1 pairs \<and> list_all meetsC3 pairs \<and> (case pab of None \<Rightarrow> True | Some p \<Rightarrow> pabEligible p)"

lemma takeOnce_iff: "takeOnce rid seen p = Inr s \<longleftrightarrow> pid p \<notin> seen \<and> s = insert (pid p) seen"
  by (auto simp: takeOnce_def)

lemma checkLimits_iff: "checkLimits rid (p, got) = Inr u \<longleftrightarrow> withinLimits p got"
  by (simp add: checkLimits_def Let_def withinLimits_def)

lemma verifyPair_iff:
  "verifyPair rid seen c = Inr s \<longleftrightarrow>
     pid (white c) \<notin> seen \<and> pid (black c) \<notin> seen \<and> pid (white c) \<noteq> pid (black c) \<and>
     meetsC1 c \<and> meetsC3 c \<and> s = insert (pid (black c)) (insert (pid (white c)) seen)"
  by (auto simp: verifyPair_def takeOnce_iff meetsC1_def meetsC3_def checkLimits_iff)

lemma verifyPairs_iff:
  "verifyPairs rid seen pairs = Inr s \<longleftrightarrow>
     distinct (roundIds pairs None) \<and> set (roundIds pairs None) \<inter> seen = {} \<and>
     list_all meetsC1 pairs \<and> list_all meetsC3 pairs \<and> s = set (roundIds pairs None) \<union> seen"
proof (induction pairs arbitrary: seen)
  case (Cons c pairs)
  show ?case by (auto simp: verifyPair_iff Cons roundIds_def)
qed (auto simp: roundIds_def)

lemma verify_iff:
  "verifyAbsoluteCriteria rid active pairs pab = Inr () \<longleftrightarrow> absoluteCriteria active pairs pab"
proof -
  have ids: "verifyPairs rid {} pairs = Inr s \<longleftrightarrow> distinct (roundIds pairs None) \<and>
      list_all meetsC1 pairs \<and> list_all meetsC3 pairs \<and> s = set (roundIds pairs None)" for s
    by (simp add: verifyPairs_iff)
  have card: "card (set xs) = length active \<longleftrightarrow> length xs = length active" if "distinct xs" for xs :: "PlayerId list"
    using that by (simp add: distinct_card)
  show ?thesis
  proof (cases pab)
    case None
    then show ?thesis
      by (auto simp: verifyAbsoluteCriteria_def ids verifyPab_def absoluteCriteria_def forE_eq_Inr_iff card)
  next
    case (Some p)
    have r: "roundIds pairs (Some p) = roundIds pairs None @ [pid p]" by (simp add: roundIds_def)
    have c2: "card (insert (pid p) (set (roundIds pairs None))) = length active \<longleftrightarrow>
        length (roundIds pairs (Some p)) = length active"
      if "distinct (roundIds pairs None)" "pid p \<notin> set (roundIds pairs None)"
      using that by (simp add: r distinct_card)
    show ?thesis
      using Some c2
      by (auto simp: verifyAbsoluteCriteria_def ids verifyPab_def takeOnce_iff absoluteCriteria_def forE_eq_Inr_iff r)
  qed
qed

text \<open>
  The verification accepts exactly the rounds that satisfy the absolute criteria: every
  active player exactly once, no pair that has met (C1), the bye to an eligible player (C2),
  and no non-topscorer pair that breaks a colour limit (C3).
\<close>

theorem verification_exact:
  "verifyAbsoluteCriteria rid active pairs pab = Inr () \<longleftrightarrow>
     distinct (roundIds pairs pab) \<and> length (roundIds pairs pab) = length active \<and>
     set (map pid active) \<subseteq> set (roundIds pairs pab) \<and>
     list_all meetsC1 pairs \<and> list_all meetsC3 pairs \<and> (case pab of None \<Rightarrow> True | Some p \<Rightarrow> pabEligible p)"
  unfolding verify_iff absoluteCriteria_def by (rule refl)

section \<open>Compatible pairs pass\<close>

definition honestPlayer :: "SwissPlayer \<Rightarrow> bool" where
  "honestPlayer p \<longleftrightarrow> pcolorDiff p = colorDifference (colorHistory (pstate p))
     \<and> ppref p = colorPreferenceOf (colorHistory (pstate p))"

lemma withinLimits_legal:
  assumes "honestPlayer p" "legalHistory (colorHistory (pstate p) @ [c])"
  shows "withinLimits p c"
  using assms
  by (auto simp: legalHistory_snoc withinLimits_def honestPlayer_def colorOutcomeFlags_def Let_def
      exceedsLimit_def thirdInARow_def)

definition colorPair :: "Color \<Rightarrow> SwissPlayer \<times> SwissPlayer \<Rightarrow> ColoredPair" where
  "colorPair initial hl =
     (if firstIsWhite (allocateColors (toAllocationSide (fst hl)) (toAllocationSide (snd hl)) initial)
      then \<lparr>white = fst hl, black = snd hl\<rparr> else \<lparr>white = snd hl, black = fst hl\<rparr>)"

lemma colorPair_ids:
  "{white (colorPair i hl), black (colorPair i hl)} = {fst hl, snd hl}"
  by (auto simp: colorPair_def)

lemma toAllocationSide_sel [simp]:
  "history (toAllocationSide p) = colorHistory (pstate p)" "rankIndex (toAllocationSide p) = prank p"
  "pref (toAllocationSide p) = ppref p"
  by (simp_all add: toAllocationSide_def)

lemma honest_side: "honestPlayer p \<Longrightarrow> honestSide (toAllocationSide p)"
  by (simp add: honestPlayer_def honestSide_def toAllocationSide_def)

lemma colorPair_meetsC3:
  assumes "honestPlayer a" "honestPlayer b" "prank a \<noteq> prank b" "canMeet a b"
    and "legalHistory (colorHistory (pstate a))" "legalHistory (colorHistory (pstate b))"
  shows "meetsC3 (colorPair initial (a, b))"
proof (cases "isTopscorer a \<or> isTopscorer b")
  case False
  then have "\<not> absoluteClash (ppref a) (ppref b)"
    using assms(4) by (auto simp: canMeet_def absoluteClash_def split: if_splits)
  then have "legalHistory (colorHistory (pstate a) @ [colorOf (firstIsWhite (allocateColors (toAllocationSide a) (toAllocationSide b) initial))])"
    "legalHistory (colorHistory (pstate b) @ [colorOf (\<not> firstIsWhite (allocateColors (toAllocationSide a) (toAllocationSide b) initial))])"
    using allocation_limits[OF honest_side[OF assms(1)] honest_side[OF assms(2)], of initial] assms(3,5,6) by simp_all
  from withinLimits_legal[OF assms(1) this(1)] withinLimits_legal[OF assms(2) this(2)]
  show ?thesis by (auto simp: meetsC3_def colorPair_def colorOf_def split: if_splits)
qed (auto simp: meetsC3_def colorPair_def)

lemma colorPair_meetsC1:
  assumes "canMeet a b" "pid a \<in> opponentIds (pstate b) \<longleftrightarrow> pid b \<in> opponentIds (pstate a)"
  shows "meetsC1 (colorPair initial (a, b))"
  using assms by (auto simp: meetsC1_def colorPair_def canMeet_def split: if_splits)

lemma prepareLoop_honest: "p \<in> set (prepareLoop rn tot idx sts) \<Longrightarrow> honestPlayer p"
  by (induction rn tot idx sts rule: prepareLoop.induct) (auto simp: honestPlayer_def swissPlayer_def)

lemma prepareLoop_state: "map pstate (prepareLoop rn tot idx sts) = sts"
  by (induction rn tot idx sts rule: prepareLoop.induct) (auto simp: swissPlayer_def)

lemma prepareLoop_rank: "map prank (prepareLoop rn tot idx sts) = [idx..<idx + length sts]"
  by (induction rn tot idx sts rule: prepareLoop.induct) (auto simp: swissPlayer_def upt_conv_Cons simp del: upt_Suc)

lemma prepareSwissPlayers_facts [simp]:
  "map pstate (prepareSwissPlayers sts rn tot) = sts"
  "length (prepareSwissPlayers sts rn tot) = length sts"
  "map prank (prepareSwissPlayers sts rn tot) = [0..<length sts]"
  using prepareLoop_rank[of rn tot 0 sts]
  by (simp_all add: prepareSwissPlayers_def prepareLoop_state)
     (metis length_map prepareLoop_state)

lemma prepareSwissPlayers_pid: "map pid (prepareSwissPlayers sts rn tot) = map playerId sts"
  by (metis (no_types, lifting) list.map_comp comp_apply map_cong prepareSwissPlayers_facts(1))

end
