(* ===== verification/SwissWeights.thy ===== *)
theory SwissWeights
  imports SwissTypes
begin

text \<open>
  \<^verbatim>\<open>src/core/pairing/swiss/bracket-weights.ts\<close>: the weights that encode the FIDE quality
  criteria C5 to C21 in one integer per edge, as a mixed-radix number. The lemmas bound each
  level's total over a whole bracket and derive what the file's header claims: the level of
  C6 dominates, so a candidate with more pairs always outweighs one with fewer. A lookup in
  the tables of powers may throw; on the slots of a bracket it never does.
\<close>

section \<open>Colour penalties\<close>

record BracketSlot =
  player :: SwissPlayer
  bsn :: int
  carried :: bool

record WeightSchemeParams =
  wn :: int
  minScoreX2 :: int
  maxScoreX2 :: int
  maxUnplayed :: int
  wInitialColor :: Color

record ColorPenalties =
  c10 :: int
  c11 :: int
  c12 :: int
  c13 :: int
  aIsWhite :: bool

fun penaltyLoop :: "(SwissPlayer \<times> Color) list \<Rightarrow> ColorPenalties \<Rightarrow> ColorPenalties" where
  "penaltyLoop [] pens = pens"
| "penaltyLoop ((p, got) # rest) pens =
     (let flags = colorOutcomeFlags p got;
          pens1 = (if exceedsColorDiff flags then pens\<lparr>c10 := c10 pens + 1\<rparr> else pens);
          pens2 = (if threeInARow flags then pens1\<lparr>c11 := c11 pens1 + 1\<rparr> else pens1);
          pens3 = (if prefColor (ppref p) \<noteq> None \<and> prefColor (ppref p) \<noteq> Some got
                   then let q = pens2\<lparr>c12 := c12 pens2 + 1\<rparr>
                        in if prefStrength (ppref p) = Strong then q\<lparr>c13 := c13 q + 1\<rparr> else q
                   else pens2)
      in penaltyLoop rest pens3)"

definition colorPenaltiesFor :: "SwissPlayer \<Rightarrow> SwissPlayer \<Rightarrow> Color \<Rightarrow> ColorPenalties" where
  "colorPenaltiesFor a b initial =
     (let alloc = allocateColors (toAllocationSide a) (toAllocationSide b) initial;
          colorA = (if firstIsWhite alloc then White else Black);
          colorB = (if firstIsWhite alloc then Black else White)
      in penaltyLoop [(a, colorA), (b, colorB)]
           \<lparr>c10 = 0, c11 = 0, c12 = 0, c13 = 0, aIsWhite = firstIsWhite alloc\<rparr>)"

section \<open>The scheme\<close>

fun bpowLoop :: "int \<Rightarrow> nat \<Rightarrow> int \<Rightarrow> int" where
  "bpowLoop base 0 result = result"
| "bpowLoop base (Suc i) result = bpowLoop base i (result * base)"

definition bpow :: "int \<Rightarrow> int \<Rightarrow> int" where
  "bpow base ex = bpowLoop base (nat ex) 1"

record WeightScheme =
  params :: WeightSchemeParams
  vPow :: "int list"
  tbPow :: "int list"
  baseTB :: int
  baseC21 :: int
  baseC20 :: int
  baseC19 :: int
  baseC18 :: int
  baseC17 :: int
  baseC16 :: int
  baseC15 :: int
  baseC14 :: int
  baseC13 :: int
  baseC12 :: int
  baseC11 :: int
  baseC10 :: int
  baseC9 :: int
  baseSD :: int
  baseC7 :: int
  baseC5 :: int
  basePair :: int

definition weightScheme :: "WeightSchemeParams \<Rightarrow> WeightScheme" where
  "weightScheme ps =
     (let n = wn ps;
          span = maxScoreX2 ps - minScoreX2 ps;
          beta = 2 * n + 3;
          vBase = n + 1;
          maxTbTotal = bpow beta (n + 1);
          maxExpTotal = bpow vBase (span + 2);
          maxCount = n;
          bTB = 1;
          b21 = bTB * (maxTbTotal + 1);
          b20 = b21 * (maxExpTotal + 1);
          b19 = b20 * (maxExpTotal + 1);
          b18 = b19 * (maxExpTotal + 1);
          b17 = b18 * (maxExpTotal + 1);
          b16 = b17 * (maxCount + 1);
          b15 = b16 * (maxCount + 1);
          b14 = b15 * (maxCount + 1);
          b13 = b14 * (maxCount + 1);
          b12 = b13 * (maxCount + 1);
          b11 = b12 * (maxCount + 1);
          b10 = b11 * (maxCount + 1);
          b9 = b10 * (maxCount + 1);
          bSD = b9 * (maxUnplayed ps + 1);
          b7 = bSD * (maxExpTotal + 1);
          b5 = b7 * (maxExpTotal + 1)
      in \<lparr>params = ps,
          vPow = map (bpow vBase) [0..span + 2],
          tbPow = map (bpow beta) [0..n],
          baseTB = bTB, baseC21 = b21, baseC20 = b20, baseC19 = b19, baseC18 = b18, baseC17 = b17,
          baseC16 = b16, baseC15 = b15, baseC14 = b14, baseC13 = b13, baseC12 = b12, baseC11 = b11,
          baseC10 = b10, baseC9 = b9, baseSD = bSD, baseC7 = b7, baseC5 = b5,
          basePair = b5 * (span + 1) * 2 + 1\<rparr>)"

definition vp :: "WeightScheme \<Rightarrow> int \<Rightarrow> PairingError + int" where
  "vp s ex = (if 0 \<le> ex \<and> ex < int (length (vPow s)) then Inr (vPow s ! nat ex)
              else Inl (InternalError ''WeightScheme vPow''))"

definition tb :: "WeightScheme \<Rightarrow> int \<Rightarrow> PairingError + int" where
  "tb s ex = (if 0 \<le> ex \<and> ex < int (length (tbPow s)) then Inr (tbPow s ! nat ex)
              else Inl (InternalError ''WeightScheme tbPow''))"

definition residentBonus :: "WeightScheme \<Rightarrow> BracketSlot \<Rightarrow> int \<Rightarrow> int" where
  "residentBonus s slot w =
     (let w1 = (if \<not> carried slot \<and> floatPrev (player slot) = Down then w + baseC14 s else w)
      in if \<not> carried slot \<and> floatPrevPrev (player slot) = Down then w1 + baseC16 s else w1)"

definition subWhen :: "bool \<Rightarrow> PairingError + int \<Rightarrow> int \<Rightarrow> int \<Rightarrow> int \<Rightarrow> PairingError + int" where
  "subWhen c look flat base w = (if c then bindE look (\<lambda>x. Inr (w - flat - base * x)) else Inr w)"

definition floatLevels :: "WeightScheme \<Rightarrow> SwissPlayer \<Rightarrow> SwissPlayer \<Rightarrow> int \<Rightarrow> int \<Rightarrow> PairingError + int" where
  "floatLevels s up down dX2 w =
     bindE (subWhen (floatPrev up = Up) (vp s dX2) (baseC15 s) (baseC19 s) w) (\<lambda>w1.
     bindE (subWhen (floatPrevPrev up = Up) (vp s dX2) (baseC17 s) (baseC21 s) w1) (\<lambda>w2.
     bindE (subWhen (floatPrev down = Down) (vp s dX2) 0 (baseC18 s) w2) (\<lambda>w3.
     subWhen (floatPrevPrev down = Down) (vp s dX2) 0 (baseC20 s) w3)))"

definition tieBreak :: "WeightScheme \<Rightarrow> BracketSlot \<Rightarrow> BracketSlot \<Rightarrow> int \<Rightarrow> int \<Rightarrow> PairingError + int" where
  "tieBreak s u v split w =
     (let n = wn (params s);
          lo = (if bsn u < bsn v then u else v);
          hi = (if bsn u < bsn v then v else u);
          matchedBonus = 2 * n + 2;
          rank = (if bsn hi \<ge> split then bsn hi else 2 * n - bsn hi)
      in bindE (tb s (n - 1 - bsn lo)) (\<lambda>tl.
         bindE (tb s (n - 1 - bsn hi)) (\<lambda>th.
         Inr (w + tl * matchedBonus + th * matchedBonus - tl * rank))))"

definition realEdgeWeight :: "WeightScheme \<Rightarrow> BracketSlot \<Rightarrow> BracketSlot \<Rightarrow> int \<Rightarrow> PairingError + int" where
  "realEdgeWeight s u v split =
     (let pu = player u; pv = player v;
          minS = minScoreX2 (params s);
          dX2 = \<bar>scoreX2 pu - scoreX2 pv\<bar>;
          pens = colorPenaltiesFor pu pv (wInitialColor (params s));
          down = (if scoreX2 pu > scoreX2 pv then pu else pv);
          up = (if scoreX2 pu > scoreX2 pv then pv else pu)
      in bindE (vp s (scoreX2 pu - minS)) (\<lambda>vu.
         bindE (vp s (scoreX2 pv - minS)) (\<lambda>vv.
         bindE (subWhen (dX2 > 0) (vp s dX2) 0 (baseSD s) (basePair s + baseC7 s * (vu + vv))) (\<lambda>w1.
         let w2 = w1 - baseC10 s * c10 pens - baseC11 s * c11 pens - baseC12 s * c12 pens - baseC13 s * c13 pens;
             w3 = residentBonus s v (residentBonus s u w2)
         in bindE (if dX2 > 0 then floatLevels s up down dX2 w3 else Inr w3) (\<lambda>w4.
            tieBreak s u v split w4)))))"

definition dummyEdgeWeight :: "WeightScheme \<Rightarrow> BracketSlot \<Rightarrow> int" where
  "dummyEdgeWeight s slot =
     basePair s + baseC5 s * (maxScoreX2 (params s) - scoreX2 (player slot))
       + baseC9 s * max 0 (maxUnplayed (params s) - unplayedCount (player slot))"

section \<open>Tables\<close>

lemma bpowLoop_eq: "bpowLoop base k result = result * base ^ k"
  by (induction base k result rule: bpowLoop.induct) (auto simp: algebra_simps)

lemma bpow_eq: "bpow base ex = base ^ nat ex"
  by (simp add: bpow_def bpowLoop_eq)

text \<open>Parameters as the engine computes them from a non-empty list of players.\<close>

definition saneParams :: "WeightSchemeParams \<Rightarrow> bool" where
  "saneParams ps \<longleftrightarrow> 1 \<le> wn ps \<and> minScoreX2 ps \<le> maxScoreX2 ps \<and> 0 \<le> maxUnplayed ps"

definition saneSlot :: "WeightSchemeParams \<Rightarrow> BracketSlot \<Rightarrow> bool" where
  "saneSlot ps sl \<longleftrightarrow> minScoreX2 ps \<le> scoreX2 (player sl) \<and> scoreX2 (player sl) \<le> maxScoreX2 ps
     \<and> 0 \<le> bsn sl \<and> bsn sl < wn ps \<and> 0 \<le> unplayedCount (player sl)"

definition spanOf :: "WeightSchemeParams \<Rightarrow> int" where
  "spanOf ps = maxScoreX2 ps - minScoreX2 ps"

definition vPower :: "WeightSchemeParams \<Rightarrow> int \<Rightarrow> int" where
  "vPower ps ex = (wn ps + 1) ^ nat ex"

definition tPower :: "WeightSchemeParams \<Rightarrow> int \<Rightarrow> int" where
  "tPower ps ex = (2 * wn ps + 3) ^ nat ex"

lemma params_weightScheme [simp]: "params (weightScheme ps) = ps"
  by (simp add: weightScheme_def Let_def)

lemma vp_eq: "0 \<le> ex \<Longrightarrow> ex \<le> spanOf ps + 2 \<Longrightarrow> vp (weightScheme ps) ex = Inr (vPower ps ex)"
  by (simp add: vp_def weightScheme_def Let_def bpow_eq spanOf_def vPower_def)

lemma tb_eq: "0 \<le> ex \<Longrightarrow> ex \<le> wn ps \<Longrightarrow> tb (weightScheme ps) ex = Inr (tPower ps ex)"
  by (simp add: tb_def weightScheme_def Let_def bpow_eq tPower_def)

section \<open>An edge as bonus of its two slots less a penalty\<close>

definition slotBonus :: "WeightScheme \<Rightarrow> BracketSlot \<Rightarrow> int" where
  "slotBonus s sl =
     baseC7 s * vPower (params s) (scoreX2 (player sl) - minScoreX2 (params s))
     + (if \<not> carried sl \<and> floatPrev (player sl) = Down then baseC14 s else 0)
     + (if \<not> carried sl \<and> floatPrevPrev (player sl) = Down then baseC16 s else 0)
     + tPower (params s) (wn (params s) - 1 - bsn sl) * (2 * wn (params s) + 2)"

definition floatPenalty :: "WeightScheme \<Rightarrow> SwissPlayer \<Rightarrow> SwissPlayer \<Rightarrow> int \<Rightarrow> int" where
  "floatPenalty s up down d =
     (if floatPrev up = Up then baseC15 s + baseC19 s * vPower (params s) d else 0)
     + (if floatPrevPrev up = Up then baseC17 s + baseC21 s * vPower (params s) d else 0)
     + (if floatPrev down = Down then baseC18 s * vPower (params s) d else 0)
     + (if floatPrevPrev down = Down then baseC20 s * vPower (params s) d else 0)"

definition tieRank :: "WeightScheme \<Rightarrow> int \<Rightarrow> int \<Rightarrow> int" where
  "tieRank s hi split = (if hi \<ge> split then hi else 2 * wn (params s) - hi)"

definition pairPenalty :: "WeightScheme \<Rightarrow> BracketSlot \<Rightarrow> BracketSlot \<Rightarrow> int \<Rightarrow> int" where
  "pairPenalty s u v split =
     (let pu = player u; pv = player v; d = \<bar>scoreX2 pu - scoreX2 pv\<bar>;
          pens = colorPenaltiesFor pu pv (wInitialColor (params s))
      in (if d > 0 then baseSD s * vPower (params s) d else 0)
         + baseC10 s * c10 pens + baseC11 s * c11 pens + baseC12 s * c12 pens + baseC13 s * c13 pens
         + (if d > 0 then (if scoreX2 pu > scoreX2 pv then floatPenalty s pv pu d else floatPenalty s pu pv d) else 0)
         + tPower (params s) (wn (params s) - 1 - min (bsn u) (bsn v)) * tieRank s (max (bsn u) (bsn v)) split)"

lemma floatLevels_eq:
  "0 \<le> d \<Longrightarrow> d \<le> spanOf ps + 2 \<Longrightarrow>
   floatLevels (weightScheme ps) up down d w = Inr (w - floatPenalty (weightScheme ps) up down d)"
  by (simp add: floatLevels_def subWhen_def vp_eq floatPenalty_def)

lemma residentBonus_eq:
  "residentBonus s sl w = w + (if \<not> carried sl \<and> floatPrev (player sl) = Down then baseC14 s else 0)
     + (if \<not> carried sl \<and> floatPrevPrev (player sl) = Down then baseC16 s else 0)"
  by (simp add: residentBonus_def Let_def)

lemma tieBreak_eq:
  assumes "saneSlot ps u" "saneSlot ps v" "bsn u \<noteq> bsn v"
  shows "tieBreak (weightScheme ps) u v split w = Inr (w
     + tPower ps (wn ps - 1 - bsn u) * (2 * wn ps + 2) + tPower ps (wn ps - 1 - bsn v) * (2 * wn ps + 2)
     - tPower ps (wn ps - 1 - min (bsn u) (bsn v)) * tieRank (weightScheme ps) (max (bsn u) (bsn v)) split)"
  using assms by (cases "bsn u < bsn v") (auto simp: tieBreak_def Let_def tb_eq saneSlot_def tieRank_def)

lemma realEdgeWeight_eq:
  assumes "saneSlot ps u" "saneSlot ps v" "bsn u \<noteq> bsn v"
  shows "realEdgeWeight (weightScheme ps) u v split = Inr (basePair (weightScheme ps)
     + slotBonus (weightScheme ps) u + slotBonus (weightScheme ps) v - pairPenalty (weightScheme ps) u v split)"
proof -
  obtain d where d_def: "\<bar>scoreX2 (player u) - scoreX2 (player v)\<bar> = d" and d0: "0 \<le> d" by simp
  have d: "d \<le> spanOf ps + 2" using assms unfolding d_def[symmetric] by (auto simp: saneSlot_def spanOf_def)
  have v: "vp (weightScheme ps) (scoreX2 (player x) - minScoreX2 ps) = Inr (vPower ps (scoreX2 (player x) - minScoreX2 ps))"
    if "saneSlot ps x" for x using that by (intro vp_eq) (auto simp: saneSlot_def spanOf_def)
  show ?thesis
    unfolding realEdgeWeight_def pairPenalty_def slotBonus_def Let_def params_weightScheme
      v[OF assms(1)] v[OF assms(2)] d_def
    by (cases "d > 0"; cases "scoreX2 (player u) > scoreX2 (player v)")
      (simp_all add: subWhen_def vp_eq[OF d0 d] floatLevels_eq[OF d0 d] residentBonus_eq tieBreak_eq[OF assms]
        algebra_simps)
qed

section \<open>Bounds\<close>

definition stepPenalty :: "SwissPlayer \<Rightarrow> Color \<Rightarrow> ColorPenalties \<Rightarrow> ColorPenalties" where
  "stepPenalty p got pens = penaltyLoop [(p, got)] pens"

lemma penalty_step:
  "penaltyLoop ((p, got) # rest) pens = penaltyLoop rest (stepPenalty p got pens)"
  by (simp add: stepPenalty_def Let_def)

lemma stepPenalty_bounds:
  "c10 pens \<le> c10 (stepPenalty p got pens) \<and> c10 (stepPenalty p got pens) \<le> c10 pens + 1"
  "c11 pens \<le> c11 (stepPenalty p got pens) \<and> c11 (stepPenalty p got pens) \<le> c11 pens + 1"
  "c12 pens \<le> c12 (stepPenalty p got pens) \<and> c12 (stepPenalty p got pens) \<le> c12 pens + 1"
  "c13 pens \<le> c13 (stepPenalty p got pens) \<and> c13 (stepPenalty p got pens) \<le> c13 pens + 1"
  by (simp_all add: stepPenalty_def Let_def)

lemma colorPenalties_bounds:
  "0 \<le> c10 (colorPenaltiesFor a b i)" "c10 (colorPenaltiesFor a b i) \<le> 2"
  "0 \<le> c11 (colorPenaltiesFor a b i)" "c11 (colorPenaltiesFor a b i) \<le> 2"
  "0 \<le> c12 (colorPenaltiesFor a b i)" "c12 (colorPenaltiesFor a b i) \<le> 2"
  "0 \<le> c13 (colorPenaltiesFor a b i)" "c13 (colorPenaltiesFor a b i) \<le> 2"
proof -
  obtain x y z w u where e: "colorPenaltiesFor a b i = stepPenalty x y (stepPenalty z w
      \<lparr>c10 = 0, c11 = 0, c12 = 0, c13 = 0, aIsWhite = u\<rparr>)"
    unfolding colorPenaltiesFor_def Let_def penalty_step by simp
  let ?p = "\<lparr>c10 = 0, c11 = 0, c12 = 0, c13 = 0, aIsWhite = u\<rparr>"
  note s1 = stepPenalty_bounds[of ?p z w] and s2 = stepPenalty_bounds[of "stepPenalty z w ?p" x y]
  show "0 \<le> c10 (colorPenaltiesFor a b i)" "c10 (colorPenaltiesFor a b i) \<le> 2"
    "0 \<le> c11 (colorPenaltiesFor a b i)" "c11 (colorPenaltiesFor a b i) \<le> 2"
    "0 \<le> c12 (colorPenaltiesFor a b i)" "c12 (colorPenaltiesFor a b i) \<le> 2"
    "0 \<le> c13 (colorPenaltiesFor a b i)" "c13 (colorPenaltiesFor a b i) \<le> 2"
    using s1 s2 by (simp_all add: e)
qed

definition maxExp :: "WeightSchemeParams \<Rightarrow> int" where
  "maxExp ps = (wn ps + 1) ^ nat (spanOf ps + 2)"

definition maxTb :: "WeightSchemeParams \<Rightarrow> int" where
  "maxTb ps = (2 * wn ps + 3) ^ nat (wn ps + 1)"

text \<open>The bases as a mixed radix: each is its predecessor times the number of values that level can take.\<close>

lemma base_rec:
  "baseC21 (weightScheme ps) = maxTb ps + 1"
  "baseC20 (weightScheme ps) = baseC21 (weightScheme ps) * (maxExp ps + 1)"
  "baseC19 (weightScheme ps) = baseC20 (weightScheme ps) * (maxExp ps + 1)"
  "baseC18 (weightScheme ps) = baseC19 (weightScheme ps) * (maxExp ps + 1)"
  "baseC17 (weightScheme ps) = baseC18 (weightScheme ps) * (maxExp ps + 1)"
  "baseC16 (weightScheme ps) = baseC17 (weightScheme ps) * (wn ps + 1)"
  "baseC15 (weightScheme ps) = baseC16 (weightScheme ps) * (wn ps + 1)"
  "baseC14 (weightScheme ps) = baseC15 (weightScheme ps) * (wn ps + 1)"
  "baseC13 (weightScheme ps) = baseC14 (weightScheme ps) * (wn ps + 1)"
  "baseC12 (weightScheme ps) = baseC13 (weightScheme ps) * (wn ps + 1)"
  "baseC11 (weightScheme ps) = baseC12 (weightScheme ps) * (wn ps + 1)"
  "baseC10 (weightScheme ps) = baseC11 (weightScheme ps) * (wn ps + 1)"
  "baseC9 (weightScheme ps) = baseC10 (weightScheme ps) * (wn ps + 1)"
  "baseSD (weightScheme ps) = baseC9 (weightScheme ps) * (maxUnplayed ps + 1)"
  "baseC7 (weightScheme ps) = baseSD (weightScheme ps) * (maxExp ps + 1)"
  "baseC5 (weightScheme ps) = baseC7 (weightScheme ps) * (maxExp ps + 1)"
  "basePair (weightScheme ps) = baseC5 (weightScheme ps) * (spanOf ps + 1) * 2 + 1"
  by (simp_all add: weightScheme_def Let_def bpow_eq maxExp_def maxTb_def spanOf_def)

lemma maxExp_pos: "saneParams ps \<Longrightarrow> 0 < maxExp ps"
  by (simp add: maxExp_def saneParams_def)

lemma base_pos:
  assumes "saneParams ps"
  shows "0 < baseC21 (weightScheme ps)" "0 < baseC20 (weightScheme ps)" "0 < baseC19 (weightScheme ps)"
    "0 < baseC18 (weightScheme ps)" "0 < baseC17 (weightScheme ps)" "0 < baseC16 (weightScheme ps)"
    "0 < baseC15 (weightScheme ps)" "0 < baseC14 (weightScheme ps)" "0 < baseC13 (weightScheme ps)"
    "0 < baseC12 (weightScheme ps)" "0 < baseC11 (weightScheme ps)" "0 < baseC10 (weightScheme ps)"
    "0 < baseC9 (weightScheme ps)" "0 < baseSD (weightScheme ps)" "0 < baseC7 (weightScheme ps)"
    "0 < baseC5 (weightScheme ps)" "0 < basePair (weightScheme ps)"
proof -
  have n: "0 < wn ps + 1" "0 < maxUnplayed ps + 1" "0 < spanOf ps + 1" "0 < maxExp ps + 1"
    using assms maxExp_pos[OF assms] by (auto simp: saneParams_def spanOf_def)
  show 21: "0 < baseC21 (weightScheme ps)"
    using assms by (simp add: base_rec(1) maxTb_def saneParams_def add_pos_pos)
  note step = mult_pos_pos
  show 20: "0 < baseC20 (weightScheme ps)" unfolding base_rec(2) by (rule step[OF 21 n(4)])
  show 19: "0 < baseC19 (weightScheme ps)" unfolding base_rec(3) by (rule step[OF 20 n(4)])
  show 18: "0 < baseC18 (weightScheme ps)" unfolding base_rec(4) by (rule step[OF 19 n(4)])
  show 17: "0 < baseC17 (weightScheme ps)" unfolding base_rec(5) by (rule step[OF 18 n(4)])
  show 16: "0 < baseC16 (weightScheme ps)" unfolding base_rec(6) by (rule step[OF 17 n(1)])
  show 15: "0 < baseC15 (weightScheme ps)" unfolding base_rec(7) by (rule step[OF 16 n(1)])
  show 14: "0 < baseC14 (weightScheme ps)" unfolding base_rec(8) by (rule step[OF 15 n(1)])
  show 13: "0 < baseC13 (weightScheme ps)" unfolding base_rec(9) by (rule step[OF 14 n(1)])
  show 12: "0 < baseC12 (weightScheme ps)" unfolding base_rec(10) by (rule step[OF 13 n(1)])
  show 11: "0 < baseC11 (weightScheme ps)" unfolding base_rec(11) by (rule step[OF 12 n(1)])
  show 10: "0 < baseC10 (weightScheme ps)" unfolding base_rec(12) by (rule step[OF 11 n(1)])
  show 9: "0 < baseC9 (weightScheme ps)" unfolding base_rec(13) by (rule step[OF 10 n(1)])
  show sd: "0 < baseSD (weightScheme ps)" unfolding base_rec(14) by (rule step[OF 9 n(2)])
  show 7: "0 < baseC7 (weightScheme ps)" unfolding base_rec(15) by (rule step[OF sd n(4)])
  show 5: "0 < baseC5 (weightScheme ps)" unfolding base_rec(16) by (rule step[OF 7 n(4)])
  have "0 < baseC5 (weightScheme ps) * (spanOf ps + 1)" by (rule step[OF 5 n(3)])
  then show "0 < basePair (weightScheme ps)" unfolding base_rec(17) by simp
qed

definition topExp :: "WeightSchemeParams \<Rightarrow> int" where
  "topExp ps = vPower ps (spanOf ps)"

lemma vPower_bounds:
  assumes "saneParams ps" "0 \<le> d" "d \<le> spanOf ps"
  shows "0 < vPower ps d" "vPower ps d \<le> topExp ps"
  using assms by (auto simp: vPower_def topExp_def saneParams_def intro!: power_increasing nat_mono)

lemma tPower_pos: "saneParams ps \<Longrightarrow> 0 < tPower ps e"
  by (simp add: tPower_def saneParams_def)

lemma wn_topExp: "saneParams ps \<Longrightarrow> wn ps * topExp ps \<le> maxExp ps"
proof -
  assume p: "saneParams ps"
  have n: "nat (spanOf ps + 2) = Suc (Suc (nat (spanOf ps)))"
    using p by (simp add: saneParams_def spanOf_def nat_add_distrib)
  have t: "0 < topExp ps" using p by (simp add: topExp_def vPower_def saneParams_def)
  have "maxExp ps = (wn ps + 1) * ((wn ps + 1) * topExp ps)"
    by (simp add: maxExp_def n topExp_def vPower_def)
  moreover have "wn ps * topExp ps \<le> (wn ps + 1) * topExp ps" using t by simp
  moreover have "1 * ((wn ps + 1) * topExp ps) \<le> (wn ps + 1) * ((wn ps + 1) * topExp ps)"
    using p t by (intro mult_right_mono) (auto simp: saneParams_def)
  ultimately show ?thesis by linarith
qed

definition bonusCap :: "WeightSchemeParams \<Rightarrow> int \<Rightarrow> int" where
  "bonusCap ps b = (let s = weightScheme ps in
     baseC7 s * topExp ps + baseC14 s + baseC16 s + tPower ps (wn ps - 1 - b) * (2 * wn ps + 2))"

definition penaltyCap :: "WeightSchemeParams \<Rightarrow> int \<Rightarrow> int" where
  "penaltyCap ps b = (let s = weightScheme ps in
     baseSD s * topExp ps + baseC10 s + baseC11 s + baseC12 s + baseC13 s + baseC15 s + baseC17 s
     + (baseC18 s + baseC19 s + baseC20 s + baseC21 s) * topExp ps + tPower ps (wn ps - 1 - b) * (2 * wn ps))"

lemma slotBonus_bounds:
  assumes p: "saneParams ps" and u: "saneSlot ps u"
  shows "0 \<le> slotBonus (weightScheme ps) u" "slotBonus (weightScheme ps) u \<le> bonusCap ps (bsn u)"
proof -
  note pos = base_pos[OF p]
  let ?v = "vPower ps (scoreX2 (player u) - minScoreX2 ps)"
  have v: "0 < ?v" "?v \<le> topExp ps" using vPower_bounds[OF p] u by (auto simp: saneSlot_def spanOf_def)
  have c7: "0 \<le> baseC7 (weightScheme ps) * ?v" "baseC7 (weightScheme ps) * ?v \<le> baseC7 (weightScheme ps) * topExp ps"
    using v pos by (auto intro: mult_left_mono)
  have t: "0 \<le> tPower ps (wn ps - 1 - bsn u) * (2 * wn ps + 2)"
    using tPower_pos[OF p] p by (simp add: saneParams_def less_imp_le)
  show "0 \<le> slotBonus (weightScheme ps) u" "slotBonus (weightScheme ps) u \<le> bonusCap ps (bsn u)"
    using c7 t pos(6,8) by (auto simp: slotBonus_def bonusCap_def Let_def)
qed

lemma floatPenalty_bounds:
  assumes p: "saneParams ps" and d: "0 \<le> d" "d \<le> spanOf ps"
  defines "s \<equiv> weightScheme ps"
  shows "0 \<le> floatPenalty s up down d"
    "floatPenalty s up down d \<le> baseC15 s + baseC17 s + (baseC18 s + baseC19 s + baseC20 s + baseC21 s) * topExp ps"
proof -
  note pos = base_pos[OF p, folded s_def] and v = vPower_bounds[OF p d]
  have m: "0 \<le> b * vPower ps d" "b * vPower ps d \<le> b * topExp ps" if "0 < b" for b
    using that v by (auto intro: mult_left_mono)
  have s: "params s = ps" by (simp add: s_def)
  show "0 \<le> floatPenalty s up down d"
    using m[OF pos(1)] m[OF pos(2)] m[OF pos(3)] m[OF pos(4)] pos(5,7) by (simp add: floatPenalty_def s)
  have "floatPenalty s up down d \<le> (baseC15 s + baseC19 s * vPower ps d) + (baseC17 s + baseC21 s * vPower ps d)
      + baseC18 s * vPower ps d + baseC20 s * vPower ps d"
    using m[OF pos(1)] m[OF pos(2)] m[OF pos(3)] m[OF pos(4)] pos(5,7)
    unfolding floatPenalty_def s by (intro add_mono) auto
  then show "floatPenalty s up down d \<le> baseC15 s + baseC17 s + (baseC18 s + baseC19 s + baseC20 s + baseC21 s) * topExp ps"
    using m(2)[OF pos(1)] m(2)[OF pos(2)] m(2)[OF pos(3)] m(2)[OF pos(4)] by (simp only: distrib_right)
qed

lemma pairPenalty_bounds:
  assumes p: "saneParams ps" and u: "saneSlot ps u" and v: "saneSlot ps v"
  shows "0 \<le> pairPenalty (weightScheme ps) u v split"
    "pairPenalty (weightScheme ps) u v split \<le> penaltyCap ps (bsn u) + penaltyCap ps (bsn v)"
proof -
  let ?s = "weightScheme ps" and ?d = "\<bar>scoreX2 (player u) - scoreX2 (player v)\<bar>"
  let ?c = "colorPenaltiesFor (player u) (player v) (wInitialColor ps)"
  let ?X = "topExp ps" and ?B = "\<lambda>b. tPower ps (wn ps - 1 - b) * (2 * wn ps)"
  let ?F = "if ?d > 0 then (if scoreX2 (player u) > scoreX2 (player v) then floatPenalty ?s (player v) (player u) ?d
      else floatPenalty ?s (player u) (player v) ?d) else 0"
  let ?S = "if ?d > 0 then baseSD ?s * vPower ps ?d else 0"
  let ?T = "tPower ps (wn ps - 1 - min (bsn u) (bsn v)) * tieRank ?s (max (bsn u) (bsn v)) split"
  note pos = base_pos[OF p]
  have d: "0 \<le> ?d" "?d \<le> spanOf ps" using u v by (auto simp: saneSlot_def spanOf_def)
  note vb = vPower_bounds[OF p d]
  have X: "0 < ?X" using vb by linarith
  have sd: "0 \<le> ?S" "?S \<le> baseSD ?s * ?X" using vb X pos(14) by (auto intro: mult_left_mono)
  have fp: "0 \<le> ?F" "?F \<le> baseC15 ?s + baseC17 ?s + (baseC18 ?s + baseC19 ?s + baseC20 ?s + baseC21 ?s) * ?X"
    using floatPenalty_bounds[OF p d, of "player u" "player v"] floatPenalty_bounds[OF p d, of "player v" "player u"]
      pos(1-5,7) X by (auto intro!: add_nonneg_nonneg mult_nonneg_nonneg)
  have rank: "0 \<le> tieRank ?s (max (bsn u) (bsn v)) split" "tieRank ?s (max (bsn u) (bsn v)) split \<le> 2 * wn ps"
    using u v by (auto simp: tieRank_def saneSlot_def)
  have tp: "0 < tPower ps e" for e by (rule tPower_pos[OF p])
  have B0: "0 \<le> ?B b" for b using tp[of "wn ps - 1 - b"] p by (simp add: saneParams_def less_imp_le)
  have tb: "0 \<le> ?T" "?T \<le> ?B (bsn u) + ?B (bsn v)"
  proof -
    have "?T \<le> ?B (min (bsn u) (bsn v))" by (rule mult_left_mono[OF rank(2) less_imp_le[OF tp]])
    moreover have "?B (min (bsn u) (bsn v)) \<le> ?B (bsn u) + ?B (bsn v)"
      using B0[of "bsn u"] B0[of "bsn v"] by (cases "bsn u \<le> bsn v") (simp_all add: min_def)
    ultimately show "?T \<le> ?B (bsn u) + ?B (bsn v)" by linarith
    show "0 \<le> ?T" by (rule mult_nonneg_nonneg[OF less_imp_le[OF tp] rank(1)])
  qed
  have c: "0 \<le> b * k" "b * k \<le> b + b" if "0 < b" "0 \<le> k" "k \<le> 2" for b k :: int
    using that mult_left_mono[of k 2 b] by auto
  note cp = colorPenalties_bounds[of "player u" "player v" "wInitialColor ps"]
  note c' = c[OF pos(12) cp(1,2)] c[OF pos(11) cp(3,4)] c[OF pos(10) cp(5,6)] c[OF pos(9) cp(7,8)]
  have eq: "pairPenalty ?s u v split = ?S + baseC10 ?s * c10 ?c + baseC11 ?s * c11 ?c + baseC12 ?s * c12 ?c
      + baseC13 ?s * c13 ?c + ?F + ?T"
    by (simp only: pairPenalty_def Let_def params_weightScheme)
  show "0 \<le> pairPenalty ?s u v split" unfolding eq using c' sd fp tb by linarith
  have sX: "0 \<le> baseSD ?s * ?X" "0 \<le> (baseC18 ?s + baseC19 ?s + baseC20 ?s + baseC21 ?s) * ?X"
    using pos(1-4,14) X by (auto intro!: mult_nonneg_nonneg)
  show "pairPenalty ?s u v split \<le> penaltyCap ps (bsn u) + penaltyCap ps (bsn v)"
    unfolding eq penaltyCap_def Let_def using c' sd(2) fp(2) tb(2) sX pos(5,7) by linarith
qed

section \<open>C6 dominates\<close>

lemma geometric_tail: "m \<le> N \<Longrightarrow> (b - 1) * (\<Sum>i<m. b ^ (N - 1 - i)) = b ^ N - b ^ (N - m)" for b :: int
proof (induction m)
  case (Suc m)
  then have "Suc (N - Suc m) = N - m" by simp
  then have "b ^ (N - m) = b * b ^ (N - Suc m)" by (metis power_Suc)
  then show ?case using Suc by (simp add: algebra_simps)
qed simp

lemma tPower_total:
  assumes p: "saneParams ps" and m: "int m \<le> wn ps"
  shows "(4 * wn ps + 2) * (\<Sum>i<m. tPower ps (wn ps - 1 - int i)) \<le> maxTb ps"
proof -
  let ?b = "2 * wn ps + 3" and ?N = "nat (wn ps)"
  have n: "1 \<le> wn ps" using p by (simp add: saneParams_def)
  let ?G = "\<Sum>i<m. tPower ps (wn ps - 1 - int i)"
  have "?G = (\<Sum>i<m. ?b ^ (?N - 1 - i))"
  proof (rule sum.cong)
    fix i assume "i \<in> {..<m}"
    have "nat (wn ps - 1 - int i) = ?N - 1 - i" by arith
    then show "tPower ps (wn ps - 1 - int i) = ?b ^ (?N - 1 - i)" by (simp only: tPower_def)
  qed simp
  moreover have "m \<le> ?N" using m by simp
  moreover have "?b - 1 = 2 * wn ps + 2" by simp
  ultimately have G: "(2 * wn ps + 2) * ?G = ?b ^ ?N - ?b ^ (?N - m)"
    using geometric_tail[of m ?N ?b] by (simp only:)
  have "0 \<le> ?b ^ (?N - m)" using n by simp
  then have "(2 * wn ps + 2) * ?G \<le> ?b ^ ?N" using G by linarith
  moreover have "(4 * wn ps + 2) * ?G \<le> 2 * ((2 * wn ps + 2) * ?G)"
  proof -
    have "0 \<le> ?G" using tPower_pos[OF p] by (intro sum_nonneg) (simp add: less_imp_le)
    then have "(4 * wn ps + 2) * ?G \<le> (4 * wn ps + 4) * ?G" by (intro mult_right_mono) auto
    then show ?thesis by (simp add: algebra_simps)
  qed
  moreover have "2 * ?b ^ ?N \<le> maxTb ps"
  proof -
    have "nat (wn ps + 1) = Suc ?N" using n by simp
    then have "maxTb ps = ?b * ?b ^ ?N" by (simp add: maxTb_def)
    moreover have "2 * ?b ^ ?N \<le> ?b * ?b ^ ?N" using n by (intro mult_right_mono) auto
    ultimately show ?thesis by linarith
  qed
  ultimately show ?thesis by linarith
qed

text \<open>The levels below C5, all at their maximum, stay below one unit of C5.\<close>

lemma levels_below_C5:
  assumes p: "saneParams ps"
  defines "s \<equiv> weightScheme ps"
  shows "maxTb ps + maxExp ps * (baseC21 s + baseC20 s + baseC19 s + baseC18 s + baseSD s + baseC7 s)
    + wn ps * (baseC17 s + baseC16 s + baseC15 s + baseC14 s + baseC13 s + baseC12 s + baseC11 s + baseC10 s)
    + maxUnplayed ps * baseC9 s \<le> baseC5 s - 1"
proof -
  let ?E = "maxExp ps" and ?n = "wn ps" and ?U = "maxUnplayed ps"
  note r = base_rec[of ps, folded s_def]
  have expand: "y = k * x + x" if "y = x * (k + 1)" for x y k :: int
    using that by (simp add: algebra_simps)
  note e = r(2-16)[THEN expand]
  show ?thesis using r(1) e unfolding distrib_left by linarith
qed

definition slotCap :: "WeightSchemeParams \<Rightarrow> int \<Rightarrow> int" where
  "slotCap ps b = bonusCap ps b + penaltyCap ps b"

lemma cap_total:
  assumes p: "saneParams ps" and m: "int m \<le> wn ps"
  defines "s \<equiv> weightScheme ps"
  shows "(\<Sum>i<m. slotCap ps (int i)) + baseC5 s * spanOf ps + baseC9 s * maxUnplayed ps < basePair s"
proof -
  let ?X = "topExp ps" and ?E = "maxExp ps"
  let ?C = "baseC10 s + baseC11 s + baseC12 s + baseC13 s + baseC14 s + baseC15 s + baseC16 s + baseC17 s"
  let ?V = "baseC7 s + baseSD s + baseC18 s + baseC19 s + baseC20 s + baseC21 s"
  let ?K = "?V * ?X + ?C"
  note pos = base_pos[OF p, folded s_def]
  have X: "0 < ?X" using p by (simp add: topExp_def vPower_def saneParams_def)
  have "slotCap ps (int i) = ?K + (4 * wn ps + 2) * tPower ps (wn ps - 1 - int i)" for i
    by (simp add: slotCap_def bonusCap_def penaltyCap_def Let_def s_def algebra_simps)
  then have total: "(\<Sum>i<m. slotCap ps (int i)) = int m * ?K + (4 * wn ps + 2) * (\<Sum>i<m. tPower ps (wn ps - 1 - int i))"
    by (simp add: sum.distrib sum_distrib_left)
  have "0 \<le> ?K" using pos X by (auto intro!: add_nonneg_nonneg mult_nonneg_nonneg)
  then have "int m * ?K \<le> wn ps * ?K" by (rule mult_right_mono[OF m])
  also have "wn ps * ?K = ?V * (wn ps * ?X) + wn ps * ?C" by (simp add: algebra_simps)
  also have "\<dots> \<le> ?V * ?E + wn ps * ?C"
    using wn_topExp[OF p] pos by (intro add_right_mono mult_left_mono) (auto intro!: add_nonneg_nonneg)
  finally have mK: "int m * ?K \<le> ?E * ?V + wn ps * ?C" by (simp add: mult.commute)
  have "maxTb ps + ?E * ?V + wn ps * ?C + maxUnplayed ps * baseC9 s \<le> baseC5 s - 1"
    using levels_below_C5[OF p, folded s_def] by (simp add: algebra_simps)
  then have "(\<Sum>i<m. slotCap ps (int i)) + baseC9 s * maxUnplayed ps \<le> baseC5 s - 1"
    unfolding total using mK tPower_total[OF p m] by (simp add: mult.commute)
  moreover have "basePair s = 2 * (baseC5 s * spanOf ps) + 2 * baseC5 s + 1"
    using base_rec(17)[of ps, folded s_def] by (simp add: algebra_simps)
  moreover have "0 \<le> baseC5 s * spanOf ps"
    using pos(16) p by (intro mult_nonneg_nonneg) (auto simp: saneParams_def spanOf_def)
  ultimately show ?thesis using pos(16) by linarith
qed

text \<open>
  The slots of a bracket, in order, and the candidate pairings of the bracket: edges between
  distinct slots, or from a slot to the dummy vertex, no vertex used twice.
\<close>

definition bracketSlots :: "WeightSchemeParams \<Rightarrow> BracketSlot list \<Rightarrow> bool" where
  "bracketSlots ps slots \<longleftrightarrow> int (length slots) \<le> wn ps \<and>
     (\<forall>i < length slots. saneSlot ps (slots ! i) \<and> bsn (slots ! i) = int i)"

definition endpoints :: "(nat \<times> nat) list \<Rightarrow> nat list" where
  "endpoints M = concat (map (\<lambda>e. [fst e, snd e]) M)"

definition candidate :: "nat \<Rightarrow> (nat \<times> nat) list \<Rightarrow> bool" where
  "candidate sz M \<longleftrightarrow> distinct (endpoints M) \<and> list_all (\<lambda>e. fst e < sz \<and> snd e \<le> sz) M"

definition edgeWeight :: "WeightScheme \<Rightarrow> BracketSlot list \<Rightarrow> int \<Rightarrow> nat \<times> nat \<Rightarrow> PairingError + int" where
  "edgeWeight s slots split e =
     (if snd e = length slots then Inr (dummyEdgeWeight s (slots ! fst e))
      else realEdgeWeight s (slots ! fst e) (slots ! snd e) split)"

definition totalWeight :: "WeightScheme \<Rightarrow> BracketSlot list \<Rightarrow> int \<Rightarrow> (nat \<times> nat) list \<Rightarrow> PairingError + int" where
  "totalWeight s slots split M = bindE (mapE (edgeWeight s slots split) M) (\<lambda>ws. Inr (sum_list ws))"

definition dummyCap :: "WeightSchemeParams \<Rightarrow> int" where
  "dummyCap ps = baseC5 (weightScheme ps) * spanOf ps + baseC9 (weightScheme ps) * maxUnplayed ps"

lemma dummyEdgeWeight_bounds:
  assumes p: "saneParams ps" and u: "saneSlot ps u"
  shows "basePair (weightScheme ps) \<le> dummyEdgeWeight (weightScheme ps) u"
    "dummyEdgeWeight (weightScheme ps) u \<le> basePair (weightScheme ps) + dummyCap ps"
proof -
  note pos = base_pos[OF p]
  have c5: "0 \<le> baseC5 (weightScheme ps) * (maxScoreX2 ps - scoreX2 (player u))"
    "baseC5 (weightScheme ps) * (maxScoreX2 ps - scoreX2 (player u)) \<le> baseC5 (weightScheme ps) * spanOf ps"
    using pos(16) u by (auto simp: saneSlot_def spanOf_def intro!: mult_left_mono)
  have c9: "0 \<le> baseC9 (weightScheme ps) * max 0 (maxUnplayed ps - unplayedCount (player u))"
    "baseC9 (weightScheme ps) * max 0 (maxUnplayed ps - unplayedCount (player u)) \<le> baseC9 (weightScheme ps) * maxUnplayed ps"
    using pos(13) u p by (auto simp: saneSlot_def saneParams_def intro!: mult_left_mono)
  show "basePair (weightScheme ps) \<le> dummyEdgeWeight (weightScheme ps) u"
    "dummyEdgeWeight (weightScheme ps) u \<le> basePair (weightScheme ps) + dummyCap ps"
    using c5 c9 by (simp_all add: dummyEdgeWeight_def dummyCap_def)
qed

definition vertexBonus :: "WeightSchemeParams \<Rightarrow> nat \<Rightarrow> nat \<Rightarrow> int" where
  "vertexBonus ps sz v = (if v = sz then dummyCap ps else bonusCap ps (int v))"

definition vertexPenalty :: "WeightSchemeParams \<Rightarrow> nat \<Rightarrow> nat \<Rightarrow> int" where
  "vertexPenalty ps sz v = (if v = sz then 0 else penaltyCap ps (int v))"

lemma caps_nonneg:
  assumes p: "saneParams ps"
  shows "0 \<le> bonusCap ps b" "0 \<le> penaltyCap ps b" "0 \<le> dummyCap ps"
proof -
  note pos = base_pos[OF p]
  have X: "0 \<le> topExp ps" using p by (simp add: topExp_def vPower_def saneParams_def)
  have t: "0 \<le> tPower ps e" for e using tPower_pos[OF p] by (rule less_imp_le)
  show "0 \<le> bonusCap ps b" "0 \<le> penaltyCap ps b" "0 \<le> dummyCap ps"
    using pos X t p
    by (auto simp: bonusCap_def penaltyCap_def dummyCap_def Let_def saneParams_def spanOf_def less_imp_le
        intro!: add_nonneg_nonneg mult_nonneg_nonneg)
qed

lemma edgeWeight_bounds:
  assumes p: "saneParams ps" and b: "bracketSlots ps slots"
    and e: "fst e < length slots" "snd e \<le> length slots" "fst e \<noteq> snd e"
  shows "\<exists>w. edgeWeight (weightScheme ps) slots split e = Inr w \<and>
    basePair (weightScheme ps) - (vertexPenalty ps (length slots) (fst e) + vertexPenalty ps (length slots) (snd e)) \<le> w \<and>
    w \<le> basePair (weightScheme ps) + (vertexBonus ps (length slots) (fst e) + vertexBonus ps (length slots) (snd e))"
proof -
  let ?u = "slots ! fst e" and ?v = "slots ! snd e"
  have u: "saneSlot ps ?u" "bsn ?u = int (fst e)" using b e by (auto simp: bracketSlots_def)
  note cap = caps_nonneg(1,2)[OF p, of "int (fst e)"] caps_nonneg(3)[OF p]
  show ?thesis
  proof (cases "snd e = length slots")
    case True
    then show ?thesis using dummyEdgeWeight_bounds[OF p u(1)] cap e(1)
      by (simp add: edgeWeight_def vertexBonus_def vertexPenalty_def)
  next
    case False
    then have v: "saneSlot ps ?v" "bsn ?v = int (snd e)" using b e by (auto simp: bracketSlots_def)
    have "bsn ?u \<noteq> bsn ?v" using u v e by simp
    from realEdgeWeight_eq[OF u(1) v(1) this, of split] show ?thesis
      using False slotBonus_bounds[OF p u(1)] slotBonus_bounds[OF p v(1)] pairPenalty_bounds[OF p u(1) v(1), of split] u v e
      by (simp add: edgeWeight_def vertexBonus_def vertexPenalty_def)
  qed
qed

lemma sum_list_distinct_le:
  assumes "distinct vs" "set vs \<subseteq> {..m :: nat}" "\<And>v. 0 \<le> (f v :: int)"
  shows "sum_list (map f vs) \<le> (\<Sum>v\<le>m. f v)"
  unfolding sum_list_distinct_conv_sum_set[OF assms(1)]
  by (rule sum_mono2) (use assms in auto)

lemma endpoints_le: "candidate sz M \<Longrightarrow> set (endpoints M) \<subseteq> {..sz}"
  by (auto simp: candidate_def endpoints_def list_all_iff)

lemma endpoints_simps [simp]:
  "endpoints [] = []" "endpoints (e # M) = fst e # snd e # endpoints M"
  by (simp_all add: endpoints_def)

lemma totalWeight_bounds:
  assumes p: "saneParams ps" and b: "bracketSlots ps slots" and c: "candidate (length slots) M"
  shows "\<exists>w. totalWeight (weightScheme ps) slots split M = Inr w \<and>
    int (length M) * basePair (weightScheme ps) - sum_list (map (vertexPenalty ps (length slots)) (endpoints M)) \<le> w \<and>
    w \<le> int (length M) * basePair (weightScheme ps) + sum_list (map (vertexBonus ps (length slots)) (endpoints M))"
  using c
proof (induction M)
  case (Cons e M)
  have c: "candidate (length slots) M" "fst e < length slots" "snd e \<le> length slots" "fst e \<noteq> snd e"
    using Cons.prems by (auto simp: candidate_def)
  obtain w where "edgeWeight (weightScheme ps) slots split e = Inr w"
    "basePair (weightScheme ps) - (vertexPenalty ps (length slots) (fst e) + vertexPenalty ps (length slots) (snd e)) \<le> w"
    "w \<le> basePair (weightScheme ps) + (vertexBonus ps (length slots) (fst e) + vertexBonus ps (length slots) (snd e))"
    using edgeWeight_bounds[OF p b c(2-4)] by blast
  moreover obtain ws where "mapE (edgeWeight (weightScheme ps) slots split) M = Inr ws"
    "int (length M) * basePair (weightScheme ps) - sum_list (map (vertexPenalty ps (length slots)) (endpoints M)) \<le> sum_list ws"
    "sum_list ws \<le> int (length M) * basePair (weightScheme ps) + sum_list (map (vertexBonus ps (length slots)) (endpoints M))"
    using Cons.IH[OF c(1)] by (auto simp: totalWeight_def)
  ultimately show ?case by (simp add: totalWeight_def distrib_right)
qed (simp add: totalWeight_def)

lemma more_pairs_heavier:
  assumes p: "saneParams ps" and b: "bracketSlots ps slots"
    and c: "candidate (length slots) M" "candidate (length slots) M'" and less: "length M < length M'"
  shows "\<exists>w w'. totalWeight (weightScheme ps) slots split M = Inr w \<and>
    totalWeight (weightScheme ps) slots split M' = Inr w' \<and> w < w'"
proof -
  let ?s = "weightScheme ps" and ?z = "length slots"
  obtain w where w: "totalWeight ?s slots split M = Inr w"
    "w \<le> int (length M) * basePair ?s + sum_list (map (vertexBonus ps ?z) (endpoints M))"
    using totalWeight_bounds[OF p b c(1)] by blast
  obtain w' where w': "totalWeight ?s slots split M' = Inr w'"
    "int (length M') * basePair ?s - sum_list (map (vertexPenalty ps ?z) (endpoints M')) \<le> w'"
    using totalWeight_bounds[OF p b c(2)] by blast
  have nonneg: "0 \<le> vertexBonus ps ?z v" "0 \<le> vertexPenalty ps ?z v" for v
    using caps_nonneg[OF p] by (auto simp: vertexBonus_def vertexPenalty_def)
  have "sum_list (map (vertexBonus ps ?z) (endpoints M)) \<le> (\<Sum>v\<le>?z. vertexBonus ps ?z v)"
    using c(1) endpoints_le[OF c(1)] nonneg by (intro sum_list_distinct_le) (auto simp: candidate_def)
  moreover have "sum_list (map (vertexPenalty ps ?z) (endpoints M')) \<le> (\<Sum>v\<le>?z. vertexPenalty ps ?z v)"
    using c(2) endpoints_le[OF c(2)] nonneg by (intro sum_list_distinct_le) (auto simp: candidate_def)
  moreover have "(\<Sum>v\<le>?z. vertexBonus ps ?z v) + (\<Sum>v\<le>?z. vertexPenalty ps ?z v)
      = (\<Sum>i<?z. slotCap ps (int i)) + dummyCap ps"
  proof -
    have "(\<Sum>v\<le>?z. vertexBonus ps ?z v + vertexPenalty ps ?z v)
        = (\<Sum>v<?z. vertexBonus ps ?z v + vertexPenalty ps ?z v) + dummyCap ps"
      by (simp add: lessThan_Suc_atMost[symmetric] vertexBonus_def vertexPenalty_def)
    also have "(\<Sum>v<?z. vertexBonus ps ?z v + vertexPenalty ps ?z v) = (\<Sum>i<?z. slotCap ps (int i))"
      by (rule sum.cong) (simp_all add: vertexBonus_def vertexPenalty_def slotCap_def)
    finally show ?thesis by (simp add: sum.distrib)
  qed
  moreover have "(\<Sum>i<?z. slotCap ps (int i)) + dummyCap ps < basePair ?s"
    using cap_total[OF p, of ?z] b by (simp add: dummyCap_def bracketSlots_def)
  moreover have "int (length M) * basePair ?s + basePair ?s \<le> int (length M') * basePair ?s"
  proof -
    have "(int (length M) + 1) * basePair ?s \<le> int (length M') * basePair ?s"
      using less base_pos(17)[OF p] by (intro mult_right_mono) auto
    then show ?thesis by (simp add: distrib_right)
  qed
  ultimately have "w < w'" using w(2) w'(2) by linarith
  then show ?thesis using w(1) w'(1) by blast
qed

text \<open>
  C6 dominates every lower criterion: of two candidate pairings of one bracket, the one with
  more pairs (the bye counting as a pair) has the strictly greater total weight, whatever
  scores, floats and colours are involved; and no weight computation throws.
\<close>

theorem more_pairs_outweigh:
  assumes "saneParams ps" "bracketSlots ps slots"
    and "candidate (length slots) M" "candidate (length slots) M'" "length M < length M'"
  shows "\<exists>w w'. totalWeight (weightScheme ps) slots split M = Inr w \<and>
    totalWeight (weightScheme ps) slots split M' = Inr w' \<and> w < w'"
  using assms by (rule more_pairs_heavier)

definition freshPlayer :: "nat \<Rightarrow> PlayerPairingState" where
  "freshPlayer n = \<lparr>playerId = [char_of (64 + n)], pairingNumber = int n, rating = 1500, points = 0,
     opponentIds = {}, colorHistory = [], floatHistory = [], hasReceivedBye = False,
     isWithdrawn = False, joinedAtRound = 1\<rparr>"

definition sampleSlot :: "nat \<Rightarrow> BracketSlot" where
  "sampleSlot n = \<lparr>player = swissPlayer 1 3 n (freshPlayer (n + 1)), bsn = int n, carried = False\<rparr>"

theorem more_pairs_outweigh_witness:
  "\<exists>w w'. totalWeight (weightScheme \<lparr>wn = 2, minScoreX2 = 0, maxScoreX2 = 0, maxUnplayed = 0, wInitialColor = White\<rparr>)
        [sampleSlot 0, sampleSlot 1] 1 [] = Inr w \<and>
    totalWeight (weightScheme \<lparr>wn = 2, minScoreX2 = 0, maxScoreX2 = 0, maxUnplayed = 0, wInitialColor = White\<rparr>)
        [sampleSlot 0, sampleSlot 1] 1 [(0, 1)] = Inr w' \<and> w < w'"
proof (rule more_pairs_outweigh)
  show "bracketSlots \<lparr>wn = 2, minScoreX2 = 0, maxScoreX2 = 0, maxUnplayed = 0, wInitialColor = White\<rparr>
      [sampleSlot 0, sampleSlot 1]"
    by (auto simp: bracketSlots_def saneSlot_def sampleSlot_def swissPlayer_def freshPlayer_def roundX2_def
        less_Suc_eq)
qed (simp_all add: saneParams_def candidate_def)

end
