(* ===== verification/SwissBrackets.thy ===== *)
theory SwissBrackets
  imports SwissWeights
begin

text \<open>
  \<^verbatim>\<open>src/core/pairing/swiss/score-brackets.ts\<close>: the sequence of score brackets. The matching
  routine \<^verbatim>\<open>maximumWeightMatching\<close> of \<^verbatim>\<open>blossom.ts\<close> is the argument \<open>mwm\<close> of the
  definitions: it takes the number of vertices and the weighted edges and returns for every
  vertex its partner or \<open>-1\<close>, or throws. What a bracket promises is proved for every
  routine that returns a matching, and completeness for every routine that returns one of
  maximum weight.
\<close>

type_synonym WeightedEdge = "nat \<times> nat \<times> int"
type_synonym Matcher = "nat \<Rightarrow> WeightedEdge list \<Rightarrow> PairingError + int list"

record BracketsOutcome =
  outPairs :: "(SwissPlayer \<times> SwissPlayer) list"
  outPab :: "SwissPlayer option"
  mergeCount :: nat

record BracketResult =
  resPairs :: "(SwissPlayer \<times> SwissPlayer) list"
  floaters :: "SwissPlayer list"
  resPab :: "SwissPlayer option"

section \<open>Groups\<close>

text \<open>\<^verbatim>\<open>current\<close> is the last element of \<^verbatim>\<open>groups\<close>, which the code shares between the two variables.\<close>

fun groupLoop :: "SwissPlayer list list \<Rightarrow> int option \<Rightarrow> SwissPlayer list \<Rightarrow> SwissPlayer list list" where
  "groupLoop groups currentScore [] = groups"
| "groupLoop groups currentScore (p # ps) =
     (if currentScore = None \<or> currentScore \<noteq> Some (scoreX2 p)
      then groupLoop (groups @ [[p]]) (Some (scoreX2 p)) ps
      else groupLoop (butlast groups @ [last groups @ [p]]) currentScore ps)"

definition groupByScore :: "SwissPlayer list \<Rightarrow> SwissPlayer list list" where
  "groupByScore roster = groupLoop [] None roster"

definition mergeLastTwo :: "SwissPlayer list list \<Rightarrow> PairingError + SwissPlayer list list" where
  "mergeLastTwo groups =
     (let n = length groups
      in if n < 2 then Inl (InternalError ''score-brackets merge'')
         else Inr (take (n - 2) groups @ [groups ! (n - 2) @ groups ! (n - 1)]))"

section \<open>One bracket\<close>

definition makeSlots :: "SwissPlayer list \<Rightarrow> nat \<Rightarrow> BracketSlot list" where
  "makeSlots slots0 carriedCount =
     map (\<lambda>i. \<lparr>player = slots0 ! i, bsn = int i, carried = i < carriedCount\<rparr>) [0..<length slots0]"

definition allSameScore :: "SwissPlayer list \<Rightarrow> bool" where
  "allSameScore ps = (case ps of [] \<Rightarrow> True | f # _ \<Rightarrow> list_all (\<lambda>p. scoreX2 p = scoreX2 f) ps)"

definition noColorPenalty :: "ColorPenalties \<Rightarrow> bool" where
  "noColorPenalty pens \<longleftrightarrow> \<not> (c10 pens + c11 pens + c12 pens + c13 pens > 0)"

fun straightLoop :: "WeightScheme \<Rightarrow> (SwissPlayer \<times> SwissPlayer) list \<Rightarrow> (SwissPlayer \<times> SwissPlayer) list option" where
  "straightLoop s [] = Some []"
| "straightLoop s ((hi, lo) # rest) =
     (if \<not> canMeet hi lo then None
      else if \<not> noColorPenalty (colorPenaltiesFor hi lo (wInitialColor (params s))) then None
      else map_option (Cons (hi, lo)) (straightLoop s rest))"

definition tryStraightCandidate :: "SwissPlayer list \<Rightarrow> WeightScheme \<Rightarrow> (SwissPlayer \<times> SwissPlayer) list option" where
  "tryStraightCandidate roster s =
     (let half = length roster div 2 in straightLoop s (zip (take half roster) (drop half roster)))"

fun edgeRow :: "WeightScheme \<Rightarrow> BracketSlot list \<Rightarrow> int \<Rightarrow> nat \<Rightarrow> nat list \<Rightarrow> PairingError + WeightedEdge list" where
  "edgeRow s slots split i [] = Inr []"
| "edgeRow s slots split i (j # js) =
     (if canMeet (player (slots ! i)) (player (slots ! j))
      then bindE (realEdgeWeight s (slots ! i) (slots ! j) split) (\<lambda>w.
           bindE (edgeRow s slots split i js) (\<lambda>es. Inr ((i, j, w) # es)))
      else edgeRow s slots split i js)"

fun edgeRows :: "WeightScheme \<Rightarrow> BracketSlot list \<Rightarrow> int \<Rightarrow> bool \<Rightarrow> nat list \<Rightarrow> PairingError + WeightedEdge list" where
  "edgeRows s slots split withDummy [] = Inr []"
| "edgeRows s slots split withDummy (i # is) =
     bindE (edgeRow s slots split i [i + 1..<length slots]) (\<lambda>row.
     bindE (edgeRows s slots split withDummy is) (\<lambda>rest.
     Inr (row @ (if withDummy \<and> pabEligible (player (slots ! i))
                 then [(i, length slots, dummyEdgeWeight s (slots ! i))] else []) @ rest)))"

definition bracketEdges :: "WeightScheme \<Rightarrow> BracketSlot list \<Rightarrow> int \<Rightarrow> bool \<Rightarrow> PairingError + WeightedEdge list" where
  "bracketEdges s slots split withDummy = edgeRows s slots split withDummy [0..<length slots]"

text \<open>The loop over the matching; \<open>Inr None\<close> is the early \<^verbatim>\<open>return null\<close>.\<close>

fun readMate :: "SwissPlayer list \<Rightarrow> int list \<Rightarrow> bool \<Rightarrow> bool \<Rightarrow> nat list \<Rightarrow> BracketResult
    \<Rightarrow> PairingError + BracketResult option" where
  "readMate slots0 mate isLast withDummy [] r = Inr (Some r)"
| "readMate slots0 mate isLast withDummy (i # is) r =
     (if length mate \<le> i then Inl (InternalError ''score-brackets mate'')
      else
        let m = mate ! i
        in if m = -1
           then if isLast then Inr None
                else readMate slots0 mate isLast withDummy is (r\<lparr>floaters := floaters r @ [slots0 ! i]\<rparr>)
           else if withDummy \<and> m = int (length slots0)
           then readMate slots0 mate isLast withDummy is (r\<lparr>resPab := Some (slots0 ! i)\<rparr>)
           else if m > int i
           then if m < int (length slots0)
                then readMate slots0 mate isLast withDummy is
                       (r\<lparr>resPairs := resPairs r @ [(slots0 ! i, slots0 ! nat m)]\<rparr>)
                else Inl (InternalError ''score-brackets partner'')
           else readMate slots0 mate isLast withDummy is r)"

definition splitOf :: "nat \<Rightarrow> nat \<Rightarrow> int" where
  "splitOf sz carriedCount = int (if carriedCount > 0 then min carriedCount (sz div 2) else sz div 2)"

definition matchBracket :: "Matcher \<Rightarrow> SwissPlayer list \<Rightarrow> nat \<Rightarrow> WeightScheme \<Rightarrow> bool \<Rightarrow> bool
    \<Rightarrow> PairingError + BracketResult option" where
  "matchBracket mwm slots0 carriedCount s isLast withDummy =
     (let sz = length slots0; slots = makeSlots slots0 carriedCount
      in bindE (bracketEdges s slots (splitOf sz carriedCount) withDummy) (\<lambda>edges.
         bindE (mwm (sz + (if withDummy then 1 else 0)) edges) (\<lambda>mate.
         bindE (readMate slots0 mate isLast withDummy [0..<sz] \<lparr>resPairs = [], floaters = [], resPab = None\<rparr>) (\<lambda>r.
         Inr (case r of
                None \<Rightarrow> None
              | Some res \<Rightarrow> if withDummy \<and> resPab res = None then None else Some res)))))"

definition pairBracket :: "Matcher \<Rightarrow> SwissPlayer list \<Rightarrow> nat \<Rightarrow> WeightScheme \<Rightarrow> bool \<Rightarrow> bool
    \<Rightarrow> PairingError + BracketResult option" where
  "pairBracket mwm slots0 carriedCount s isLast withDummy =
     (if length slots0 = 0
      then Inr (if withDummy then None else Some \<lparr>resPairs = [], floaters = [], resPab = None\<rparr>)
      else
        let straight = (if \<not> withDummy \<and> carriedCount = 0 \<and> length slots0 mod 2 = 0 \<and> allSameScore slots0
                        then tryStraightCandidate slots0 s else None)
        in case straight of
             Some ps \<Rightarrow> Inr (Some \<lparr>resPairs = ps, floaters = [], resPab = None\<rparr>)
           | None \<Rightarrow> matchBracket mwm slots0 carriedCount s isLast withDummy)"

section \<open>The sequence\<close>

fun attemptLoop :: "Matcher \<Rightarrow> WeightScheme \<Rightarrow> bool \<Rightarrow> SwissPlayer list \<Rightarrow> (SwissPlayer \<times> SwissPlayer) list
    \<Rightarrow> SwissPlayer option \<Rightarrow> SwissPlayer list list
    \<Rightarrow> PairingError + ((SwissPlayer \<times> SwissPlayer) list \<times> SwissPlayer option) option" where
  "attemptLoop mwm s needPab carry pairs pab [] = Inr (Some (pairs, pab))"
| "attemptLoop mwm s needPab carry pairs pab (residents # gs) =
     (let isLast = (gs = [])
      in bindE (pairBracket mwm (carry @ residents) (length carry) s isLast (isLast \<and> needPab)) (\<lambda>r.
         case r of
           None \<Rightarrow> Inr None
         | Some res \<Rightarrow> attemptLoop mwm s needPab (floaters res) (pairs @ resPairs res)
             (case resPab res of None \<Rightarrow> pab | Some p \<Rightarrow> Some p) gs))"

definition attempt :: "Matcher \<Rightarrow> SwissPlayer list list \<Rightarrow> WeightScheme \<Rightarrow> bool
    \<Rightarrow> PairingError + ((SwissPlayer \<times> SwissPlayer) list \<times> SwissPlayer option) option" where
  "attempt mwm groups s needPab = attemptLoop mwm s needPab [] [] None groups"

lemma mergeLastTwo_shorter: "mergeLastTwo groups = Inr gs \<Longrightarrow> length gs < length groups"
  by (auto simp: mergeLastTwo_def Let_def split: if_splits)

function mergeCascade :: "Matcher \<Rightarrow> WeightScheme \<Rightarrow> bool \<Rightarrow> RoundId \<Rightarrow> nat \<Rightarrow> nat \<Rightarrow> SwissPlayer list list
    \<Rightarrow> PairingError + BracketsOutcome" where
  "mergeCascade mwm s needPab rid headCount merged groups =
     bindE (attempt mwm groups s needPab) (\<lambda>o'.
       case o' of
         Some (ps, pab) \<Rightarrow> Inr \<lparr>outPairs = ps, outPab = pab, mergeCount = merged\<rparr>
       | None \<Rightarrow>
           if length groups = 1 then Inl (PairingImpossibleError rid (NoCompletePairing headCount))
           else bindE (mergeLastTwo groups) (\<lambda>gs. mergeCascade mwm s needPab rid headCount (merged + 1) gs))"
  by pat_completeness auto
termination
  by (relation "measure (\<lambda>(_, _, _, _, _, _, groups). length groups)") (auto dest: mergeLastTwo_shorter)

declare mergeCascade.simps [simp del]

definition pairAllBrackets :: "Matcher \<Rightarrow> SwissPlayer list \<Rightarrow> WeightScheme \<Rightarrow> bool \<Rightarrow> RoundId
    \<Rightarrow> PairingError + BracketsOutcome" where
  "pairAllBrackets mwm roster s needPab rid =
     mergeCascade mwm s needPab rid (length roster) 0 (groupByScore roster)"

end
