(* ===== verification/SwissBracketProofs.thy ===== *)
theory SwissBracketProofs
  imports SwissBrackets
begin

text \<open>
  What a bracket, an attempt and the merge cascade promise for every matching routine that
  returns a matching of the given edges: no internal error, every player exactly once among
  the pairs, the floaters and the bye, pairs that may meet, an eligible bye. With a routine
  that returns a matching of maximum weight, the last bracket closes whenever it can be closed.
\<close>

section \<open>Matchings\<close>

definition isEdge :: "WeightedEdge list \<Rightarrow> nat \<Rightarrow> nat \<Rightarrow> bool" where
  "isEdge es u v \<longleftrightarrow> (\<exists>w. (u, v, w) \<in> set es \<or> (v, u, w) \<in> set es)"

definition mateOK :: "nat \<Rightarrow> WeightedEdge list \<Rightarrow> int list \<Rightarrow> bool" where
  "mateOK n es mate \<longleftrightarrow> length mate = n \<and>
     (\<forall>v < n. mate ! v = -1 \<or>
        (\<exists>u < n. u \<noteq> v \<and> mate ! v = int u \<and> mate ! u = int v \<and> isEdge es v u))"

text \<open>Edges as the matching routine expects them: between distinct vertices in range, no pair listed twice.\<close>

definition wellFormedEdges :: "nat \<Rightarrow> WeightedEdge list \<Rightarrow> bool" where
  "wellFormedEdges n es \<longleftrightarrow> (\<forall>(u, v, w) \<in> set es. u < v \<and> v < n) \<and> distinct (map (\<lambda>(u, v, w). (u, v)) es)"

definition returnsMatching :: "Matcher \<Rightarrow> bool" where
  "returnsMatching mwm \<longleftrightarrow> (\<forall>n es. wellFormedEdges n es \<longrightarrow> (\<exists>mate. mwm n es = Inr mate \<and> mateOK n es mate))"

section \<open>The edges of a bracket\<close>

definition weightOf :: "WeightScheme \<Rightarrow> BracketSlot list \<Rightarrow> int \<Rightarrow> nat \<Rightarrow> nat \<Rightarrow> int" where
  "weightOf s slots split i j = (case edgeWeight s slots split (i, j) of Inl _ \<Rightarrow> 0 | Inr w \<Rightarrow> w)"

lemma edgeRow_eq:
  assumes p: "saneParams ps" and b: "bracketSlots ps slots" and i: "i < length slots"
    and js: "set js \<subseteq> {i<..<length slots}"
  shows "edgeRow (weightScheme ps) slots split i js =
    Inr (map (\<lambda>j. (i, j, weightOf (weightScheme ps) slots split i j))
      (filter (\<lambda>j. canMeet (player (slots ! i)) (player (slots ! j))) js))"
  using js
proof (induction js)
  case (Cons j js)
  then have j: "i < j" "j < length slots" by auto
  obtain w where w: "edgeWeight (weightScheme ps) slots split (i, j) = Inr w"
    using edgeWeight_bounds[OF p b, of "(i, j)" split] i j by auto
  then have "realEdgeWeight (weightScheme ps) (slots ! i) (slots ! j) split = Inr w"
    using j by (simp add: edgeWeight_def)
  then show ?case using Cons w by (simp add: weightOf_def)
qed simp

definition rowEdges :: "WeightScheme \<Rightarrow> BracketSlot list \<Rightarrow> int \<Rightarrow> bool \<Rightarrow> nat \<Rightarrow> WeightedEdge list" where
  "rowEdges s slots split withDummy i =
     map (\<lambda>j. (i, j, weightOf s slots split i j))
       (filter (\<lambda>j. canMeet (player (slots ! i)) (player (slots ! j))) [i + 1..<length slots])
     @ (if withDummy \<and> pabEligible (player (slots ! i))
        then [(i, length slots, weightOf s slots split i (length slots))] else [])"

lemma edgeRows_eq:
  assumes p: "saneParams ps" and b: "bracketSlots ps slots" and sub: "set is \<subseteq> {..<length slots}"
  shows "edgeRows (weightScheme ps) slots split withDummy is =
    Inr (concat (map (rowEdges (weightScheme ps) slots split withDummy) is))"
  using sub
proof (induction "is")
  case (Cons i "is")
  then have i: "i < length slots" by simp
  have row: "edgeRow (weightScheme ps) slots split i [i + 1..<length slots] =
      Inr (map (\<lambda>j. (i, j, weightOf (weightScheme ps) slots split i j))
        (filter (\<lambda>j. canMeet (player (slots ! i)) (player (slots ! j))) [i + 1..<length slots]))"
    by (rule edgeRow_eq[OF p b i]) auto
  have dw: "weightOf (weightScheme ps) slots split i (length slots) = dummyEdgeWeight (weightScheme ps) (slots ! i)"
    by (simp add: weightOf_def edgeWeight_def)
  have IH: "edgeRows (weightScheme ps) slots split withDummy is =
      Inr (concat (map (rowEdges (weightScheme ps) slots split withDummy) is))"
    using Cons by simp
  have here: "rowEdges (weightScheme ps) slots split withDummy i =
      map (\<lambda>j. (i, j, weightOf (weightScheme ps) slots split i j))
        (filter (\<lambda>j. canMeet (player (slots ! i)) (player (slots ! j))) [i + 1..<length slots])
      @ (if withDummy \<and> pabEligible (player (slots ! i))
         then [(i, length slots, dummyEdgeWeight (weightScheme ps) (slots ! i))] else [])"
    by (simp only: rowEdges_def dw)
  show ?case by (simp only: edgeRows.simps row IH bindE_simps here list.map concat.simps append_assoc)
qed simp

definition edgesOf :: "WeightScheme \<Rightarrow> BracketSlot list \<Rightarrow> int \<Rightarrow> bool \<Rightarrow> WeightedEdge list" where
  "edgesOf s slots split withDummy = concat (map (rowEdges s slots split withDummy) [0..<length slots])"

lemma bracketEdges_eq:
  "saneParams ps \<Longrightarrow> bracketSlots ps slots \<Longrightarrow>
   bracketEdges (weightScheme ps) slots split withDummy = Inr (edgesOf (weightScheme ps) slots split withDummy)"
  unfolding bracketEdges_def edgesOf_def by (rule edgeRows_eq) auto

text \<open>Which pairs of vertices carry an edge.\<close>

definition mayJoin :: "BracketSlot list \<Rightarrow> bool \<Rightarrow> nat \<Rightarrow> nat \<Rightarrow> bool" where
  "mayJoin slots withDummy i j \<longleftrightarrow> i < j \<and>
     (j < length slots \<and> canMeet (player (slots ! i)) (player (slots ! j))
      \<or> j = length slots \<and> withDummy \<and> pabEligible (player (slots ! i)))"

lemma in_edgesOf:
  "(i, j, w) \<in> set (edgesOf s slots split withDummy) \<longleftrightarrow> mayJoin slots withDummy i j \<and> w = weightOf s slots split i j"
  by (auto simp: edgesOf_def rowEdges_def mayJoin_def)

lemma distinct_concat_rows:
  assumes "distinct is" "\<And>i. distinct (f i)" "\<And>i x. x \<in> set (f i) \<Longrightarrow> fst x = i"
  shows "distinct (concat (map f is))"
  using assms(1)
proof (induction "is")
  case (Cons i "is")
  have "set (f i) \<inter> set (concat (map f is)) = {}" using Cons.prems by (auto dest!: assms(3))
  then show ?case using Cons assms(2) by simp
qed simp

lemma edgesOf_wellFormed:
  "wellFormedEdges (length slots + (if withDummy then 1 else 0)) (edgesOf s slots split withDummy)"
proof -
  have "distinct (concat (map (\<lambda>i. map (\<lambda>(u, v, w). (u, v)) (rowEdges s slots split withDummy i)) [0..<length slots]))"
    by (rule distinct_concat_rows) (auto simp: rowEdges_def distinct_map inj_on_def comp_def)
  moreover have "map (\<lambda>(u, v, w). (u, v)) (edgesOf s slots split withDummy) =
      concat (map (\<lambda>i. map (\<lambda>(u, v, w). (u, v)) (rowEdges s slots split withDummy i)) [0..<length slots])"
    by (simp add: edgesOf_def map_concat comp_def)
  ultimately show ?thesis by (auto simp: wellFormedEdges_def in_edgesOf mayJoin_def)
qed

section \<open>Reading the matching\<close>

definition lows :: "int list \<Rightarrow> nat \<Rightarrow> nat list" where
  "lows mate sz = filter (\<lambda>i. mate ! i > int i \<and> mate ! i < int sz) [0..<sz]"

definition frees :: "int list \<Rightarrow> nat \<Rightarrow> nat list" where
  "frees mate sz = filter (\<lambda>i. mate ! i = -1) [0..<sz]"

definition dums :: "int list \<Rightarrow> nat \<Rightarrow> nat list" where
  "dums mate sz = filter (\<lambda>i. mate ! i = int sz) [0..<sz]"

definition matedPairs :: "int list \<Rightarrow> nat \<Rightarrow> (nat \<times> nat) list" where
  "matedPairs mate sz = map (\<lambda>i. (i, nat (mate ! i))) (lows mate sz)"

lemma readMate_spec:
  assumes "\<forall>i \<in> set is. i < length mate" "\<forall>i \<in> set is. mate ! i \<le> int (length slots0) \<and> -1 \<le> mate ! i"
    and "\<forall>i \<in> set is. mate ! i = int (length slots0) \<longrightarrow> withDummy"
  shows "readMate slots0 mate isLast withDummy is r =
    Inr (if isLast \<and> filter (\<lambda>i. mate ! i = -1) is \<noteq> [] then None
         else Some \<lparr>resPairs = resPairs r @ map (\<lambda>i. (slots0 ! i, slots0 ! nat (mate ! i)))
                        (filter (\<lambda>i. mate ! i > int i \<and> mate ! i < int (length slots0)) is),
                    floaters = floaters r @ map ((!) slots0) (filter (\<lambda>i. mate ! i = -1) is),
                    resPab = (if filter (\<lambda>i. mate ! i = int (length slots0)) is = [] then resPab r
                              else Some (slots0 ! last (filter (\<lambda>i. mate ! i = int (length slots0)) is)))\<rparr>)"
  using assms
proof (induction "is" arbitrary: r)
  case (Cons i "is")
  note IH = Cons.IH[of r] Cons.IH[of "r\<lparr>floaters := floaters r @ [slots0 ! i]\<rparr>"]
    Cons.IH[of "r\<lparr>resPab := Some (slots0 ! i)\<rparr>"]
    Cons.IH[of "r\<lparr>resPairs := resPairs r @ [(slots0 ! i, slots0 ! nat (mate ! i))]\<rparr>"]
  have i: "i < length mate" "mate ! i \<le> int (length slots0)" "mate ! i = int (length slots0) \<longrightarrow> withDummy"
    using Cons.prems by auto
  consider (free) "mate ! i = -1" | (dum) "mate ! i = int (length slots0)" "mate ! i \<noteq> -1"
    | (low) "mate ! i > int i" "mate ! i < int (length slots0)" "mate ! i \<noteq> -1"
    | (high) "\<not> mate ! i > int i" "mate ! i \<noteq> int (length slots0)" "mate ! i \<noteq> -1"
    using i(2) by linarith
  then show ?case
  proof cases
    case free
    then show ?thesis using IH(2) Cons.prems i by (cases isLast) (simp_all add: Let_def)
  next
    case dum
    then show ?thesis using IH(3) Cons.prems i by (simp add: Let_def)
  next
    case low
    then show ?thesis using IH(4) Cons.prems i by (simp add: Let_def)
  next
    case high
    then show ?thesis using IH(1) Cons.prems i by (simp add: Let_def)
  qed
qed simp

lemma mateOK_range:
  assumes "mateOK (sz + (if withDummy then 1 else 0)) es mate" "i < sz"
  shows "i < length mate" "mate ! i \<le> int sz" "-1 \<le> mate ! i" "mate ! i = int sz \<Longrightarrow> withDummy"
proof -
  have l: "length mate = sz + (if withDummy then 1 else 0)" using assms(1) by (simp add: mateOK_def)
  then show "i < length mate" using assms(2) by simp
  have "mate ! i = -1 \<or> (\<exists>u < length mate. mate ! i = int u)"
    using assms l unfolding mateOK_def by (metis trans_less_add1)
  then show "mate ! i \<le> int sz" "-1 \<le> mate ! i" "mate ! i = int sz \<Longrightarrow> withDummy"
    using l by (auto split: if_splits)
qed

lemma mate_symmetric:
  assumes "mateOK n es mate" "v < n" "mate ! v = int u"
  shows "u < n" "u \<noteq> v" "mate ! u = int v" "isEdge es v u"
proof -
  have "mate ! v \<noteq> -1" using assms(3) by simp
  then obtain k where "k < n" "k \<noteq> v" "mate ! v = int k" "mate ! k = int v" "isEdge es v k"
    using assms(1,2) unfolding mateOK_def by blast
  moreover then have "k = u" using assms(3) by simp
  ultimately show "u < n" "u \<noteq> v" "mate ! u = int v" "isEdge es v u" by auto
qed

lemma in_lows: "i \<in> set (lows mate sz) \<longleftrightarrow> i < sz \<and> mate ! i > int i \<and> mate ! i < int sz"
  by (auto simp: lows_def)

lemma mset_pairwise: "mset (concat (map (\<lambda>i. [f i, g i]) xs)) = mset (map f xs) + mset (map g xs)"
  by (induction xs) auto

text \<open>Every slot is in exactly one pair, free, or matched with the dummy.\<close>

lemma index_partition:
  assumes ok: "mateOK (sz + (if withDummy then 1 else 0)) es mate"
  shows "mset (endpoints (matedPairs mate sz) @ frees mate sz @ dums mate sz) = mset [0..<sz]"
proof -
  let ?n = "sz + (if withDummy then 1 else 0)"
  have ends: "set (endpoints (matedPairs mate sz)) = set (lows mate sz) \<union> (\<lambda>i. nat (mate ! i)) ` set (lows mate sz)"
    by (auto simp: endpoints_def matedPairs_def)
  have partner: "nat (mate ! i) < sz" "mate ! nat (mate ! i) = int i" "i < nat (mate ! i)"
    if "i \<in> set (lows mate sz)" for i
  proof -
    have i: "i < sz" "mate ! i > int i" "mate ! i < int sz" using that by (auto simp: in_lows)
    then have "mate ! i = int (nat (mate ! i))" "i < ?n" by simp_all
    from mate_symmetric(3)[OF ok this(2,1)] i
    show "nat (mate ! i) < sz" "mate ! nat (mate ! i) = int i" "i < nat (mate ! i)" by auto
  qed
  have inj: "inj_on (\<lambda>i. nat (mate ! i)) (set (lows mate sz))"
    by (rule inj_on_inverseI[of _ "\<lambda>k. nat (mate ! k)"]) (simp add: partner(2))
  have disj: "set (lows mate sz) \<inter> (\<lambda>i. nat (mate ! i)) ` set (lows mate sz) = {}"
    using partner by (fastforce simp: in_lows)
  have split: "endpoints (matedPairs mate sz) = concat (map (\<lambda>i. [i, nat (mate ! i)]) (lows mate sz))"
    by (simp add: endpoints_def matedPairs_def comp_def)
  have "mset (endpoints (matedPairs mate sz)) = mset (lows mate sz) + mset (map (\<lambda>i. nat (mate ! i)) (lows mate sz))"
    unfolding split using mset_pairwise[of "\<lambda>i. i" _ "lows mate sz"] by simp
  also have "\<dots> = mset (lows mate sz @ map (\<lambda>i. nat (mate ! i)) (lows mate sz))" by simp
  finally have perm: "mset (endpoints (matedPairs mate sz)) = mset (lows mate sz @ map (\<lambda>i. nat (mate ! i)) (lows mate sz))" .
  have "distinct (lows mate sz)" by (simp add: lows_def)
  then have "distinct (lows mate sz @ map (\<lambda>i. nat (mate ! i)) (lows mate sz))"
    using inj disj by (simp only: distinct_append distinct_map set_map)
  then have d1: "distinct (endpoints (matedPairs mate sz))" using mset_eq_imp_distinct_iff[OF perm] by blast
  have matched: "i \<in> set (endpoints (matedPairs mate sz)) \<longleftrightarrow> i < sz \<and> mate ! i \<noteq> -1 \<and> mate ! i \<noteq> int sz" for i
  proof
    assume "i \<in> set (endpoints (matedPairs mate sz))"
    then consider "i \<in> set (lows mate sz)" | k where "k \<in> set (lows mate sz)" "i = nat (mate ! k)"
      using ends by auto
    then show "i < sz \<and> mate ! i \<noteq> -1 \<and> mate ! i \<noteq> int sz"
      using partner by cases (auto simp: in_lows)
  next
    assume i: "i < sz \<and> mate ! i \<noteq> -1 \<and> mate ! i \<noteq> int sz"
    then have "i < ?n" by simp
    then obtain u where u: "u < ?n" "u \<noteq> i" "mate ! i = int u" "mate ! u = int i"
      using i ok unfolding mateOK_def by blast
    then have usz: "u < sz" using i by (auto split: if_splits)
    show "i \<in> set (endpoints (matedPairs mate sz))"
    proof (cases "i < u")
      case True
      then have "i \<in> set (lows mate sz)" using i u usz by (simp add: in_lows)
      then show ?thesis using ends by simp
    next
      case False
      then have "u \<in> set (lows mate sz)" using i u usz by (simp add: in_lows)
      then show ?thesis using ends u(4) by (auto intro: rev_image_eqI)
    qed
  qed
  have E: "set (endpoints (matedPairs mate sz)) = {i. i < sz \<and> mate ! i \<noteq> -1 \<and> mate ! i \<noteq> int sz}"
    using matched by blast
  have F: "set (frees mate sz) = {i. i < sz \<and> mate ! i = -1}" "distinct (frees mate sz)" by (auto simp: frees_def)
  have D: "set (dums mate sz) = {i. i < sz \<and> mate ! i = int sz}" "distinct (dums mate sz)" by (auto simp: dums_def)
  have "distinct (endpoints (matedPairs mate sz) @ frees mate sz @ dums mate sz)"
    unfolding distinct_append set_append E F(1) D(1) using d1 F(2) D(2) by auto
  moreover have "set (endpoints (matedPairs mate sz) @ frees mate sz @ dums mate sz) = set [0..<sz]"
    unfolding set_append E F(1) D(1) by auto
  ultimately show ?thesis by (simp only: set_eq_iff_mset_eq_distinct[symmetric] distinct_upt)
qed

lemma dums_unique:
  assumes "mateOK (sz + (if withDummy then 1 else 0)) es mate"
  shows "length (dums mate sz) \<le> 1"
proof (rule ccontr)
  assume "\<not> length (dums mate sz) \<le> 1"
  then obtain i j rest where ij: "dums mate sz = i # j # rest"
    by (metis One_nat_def Suc_le_eq length_0_conv length_Suc_conv not_less_eq_eq le0 list.exhaust list.size(3,4))
  then have "i \<in> set (dums mate sz)" "j \<in> set (dums mate sz)" "i \<noteq> j"
    using distinct_filter[of "[0..<sz]"] by (auto simp: dums_def) (metis distinct_length_2_or_more distinct_filter distinct_upt)
  then have "i < sz" "j < sz" "mate ! i = int sz" "mate ! j = int sz" by (auto simp: dums_def)
  moreover have "mate ! sz = int i" "mate ! sz = int j"
    using mate_symmetric(3)[OF assms] calculation by auto
  ultimately show False using \<open>i \<noteq> j\<close> by simp
qed

section \<open>A bracket\<close>

definition pairPlayers :: "(SwissPlayer \<times> SwissPlayer) list \<Rightarrow> SwissPlayer list" where
  "pairPlayers ps = concat (map (\<lambda>p. [fst p, snd p]) ps)"

definition pabList :: "SwissPlayer option \<Rightarrow> SwissPlayer list" where
  "pabList pab = (case pab of None \<Rightarrow> [] | Some p \<Rightarrow> [p])"

lemma pairPlayers_simps [simp]:
  "pairPlayers [] = []" "pairPlayers (p # ps) = fst p # snd p # pairPlayers ps"
  "pairPlayers (ps @ qs) = pairPlayers ps @ pairPlayers qs"
  by (simp_all add: pairPlayers_def)

lemma pabList_simps [simp]: "pabList None = []" "pabList (Some p) = [p]"
  by (simp_all add: pabList_def)

definition saneRoster :: "WeightSchemeParams \<Rightarrow> SwissPlayer list \<Rightarrow> bool" where
  "saneRoster ps xs \<longleftrightarrow> int (length xs) \<le> wn ps \<and>
     (\<forall>p \<in> set xs. minScoreX2 ps \<le> scoreX2 p \<and> scoreX2 p \<le> maxScoreX2 ps \<and> 0 \<le> unplayedCount p)"

definition mayPair :: "SwissPlayer \<times> SwissPlayer \<Rightarrow> bool" where
  "mayPair p \<longleftrightarrow> canMeet (fst p) (snd p)"

definition pabOK :: "SwissPlayer option \<Rightarrow> bool" where
  "pabOK pab \<longleftrightarrow> (case pab of None \<Rightarrow> True | Some p \<Rightarrow> pabEligible p)"

text \<open>The result of a bracket accounts for every player of it, with legal pairs and a legal bye.\<close>

definition bracketContract :: "SwissPlayer list \<Rightarrow> bool \<Rightarrow> bool \<Rightarrow> BracketResult \<Rightarrow> bool" where
  "bracketContract slots0 isLast withDummy res \<longleftrightarrow>
     mset (pairPlayers (resPairs res)) + mset (floaters res) + mset (pabList (resPab res)) = mset slots0 \<and>
     list_all mayPair (resPairs res) \<and> pabOK (resPab res) \<and>
     (resPab res \<noteq> None) = withDummy \<and> (isLast \<longrightarrow> floaters res = [])"

lemma makeSlots_nth [simp]:
  "length (makeSlots xs c) = length xs"
  "i < length xs \<Longrightarrow> player (makeSlots xs c ! i) = xs ! i"
  "i < length xs \<Longrightarrow> bsn (makeSlots xs c ! i) = int i"
  by (simp_all add: makeSlots_def)

lemma saneRoster_slots: "saneRoster ps xs \<Longrightarrow> bracketSlots ps (makeSlots xs c)"
  by (auto simp: saneRoster_def bracketSlots_def saneSlot_def)

lemma pairPlayers_mated:
  "map ((!) xs) (endpoints (matedPairs mate sz)) = pairPlayers (map (\<lambda>i. (xs ! i, xs ! nat (mate ! i))) (lows mate sz))"
  by (simp add: endpoints_def matedPairs_def pairPlayers_def map_concat comp_def)

lemma matchBracket_eq:
  assumes mwm: "returnsMatching mwm" and p: "saneParams ps" and x: "saneRoster ps xs"
  shows "\<exists>mate. mwm (length xs + (if withDummy then 1 else 0)) (edgesOf (weightScheme ps) (makeSlots xs c) (splitOf (length xs) c) withDummy) = Inr mate \<and>
    mateOK (length xs + (if withDummy then 1 else 0)) (edgesOf (weightScheme ps) (makeSlots xs c) (splitOf (length xs) c) withDummy) mate \<and>
    matchBracket mwm xs c (weightScheme ps) isLast withDummy =
      Inr (if isLast \<and> frees mate (length xs) \<noteq> [] \<or> withDummy \<and> dums mate (length xs) = [] then None
           else Some \<lparr>resPairs = map (\<lambda>i. (xs ! i, xs ! nat (mate ! i))) (lows mate (length xs)),
                      floaters = map ((!) xs) (frees mate (length xs)),
                      resPab = (if dums mate (length xs) = [] then None
                                else Some (xs ! last (dums mate (length xs))))\<rparr>)"
proof -
  let ?sz = "length xs" and ?es = "edgesOf (weightScheme ps) (makeSlots xs c) (splitOf (length xs) c) withDummy"
  have wf: "wellFormedEdges (?sz + (if withDummy then 1 else 0)) ?es"
    using edgesOf_wellFormed[of "makeSlots xs c"] by simp
  obtain mate where m: "mwm (?sz + (if withDummy then 1 else 0)) ?es = Inr mate"
    and ok: "mateOK (?sz + (if withDummy then 1 else 0)) ?es mate"
    using mwm wf unfolding returnsMatching_def by blast
  note range = mateOK_range[OF ok]
  have read: "readMate xs mate isLast withDummy [0..<?sz] \<lparr>resPairs = [], floaters = [], resPab = None\<rparr> =
      Inr (if isLast \<and> frees mate ?sz \<noteq> [] then None
           else Some \<lparr>resPairs = map (\<lambda>i. (xs ! i, xs ! nat (mate ! i))) (lows mate ?sz),
                      floaters = map ((!) xs) (frees mate ?sz),
                      resPab = (if dums mate ?sz = [] then None else Some (xs ! last (dums mate ?sz)))\<rparr>)"
    unfolding frees_def lows_def dums_def
    by (subst readMate_spec) (use range in auto)
  show ?thesis
    using m ok read bracketEdges_eq[OF p saneRoster_slots[OF x], of c "splitOf ?sz c" withDummy]
    by (intro exI[of _ mate]) (auto simp: matchBracket_def Let_def)
qed

lemma matchBracket_contract:
  assumes mwm: "returnsMatching mwm" and p: "saneParams ps" and x: "saneRoster ps xs"
    and r: "matchBracket mwm xs c (weightScheme ps) isLast withDummy = Inr (Some res)"
  shows "bracketContract xs isLast withDummy res"
proof -
  let ?sz = "length xs" and ?es = "edgesOf (weightScheme ps) (makeSlots xs c) (splitOf (length xs) c) withDummy"
  obtain mate where ok: "mateOK (?sz + (if withDummy then 1 else 0)) ?es mate"
    and res: "res = \<lparr>resPairs = map (\<lambda>i. (xs ! i, xs ! nat (mate ! i))) (lows mate ?sz),
        floaters = map ((!) xs) (frees mate ?sz),
        resPab = (if dums mate ?sz = [] then None else Some (xs ! last (dums mate ?sz)))\<rparr>"
    and some: "\<not> (isLast \<and> frees mate ?sz \<noteq> [] \<or> withDummy \<and> dums mate ?sz = [])"
    using matchBracket_eq[OF mwm p x, of withDummy c isLast] r by (auto split: if_splits)
  have dum: "dums mate ?sz = [] \<or> (\<exists>d. dums mate ?sz = [d])"
    using dums_unique[OF ok] by (cases "dums mate ?sz") auto
  have edge: "mayJoin (makeSlots xs c) withDummy i u" if "i < ?sz" "mate ! i = int u" "i < u" for i u
  proof -
    have "isEdge ?es i u" using mate_symmetric(4)[OF ok _ that(2)] that(1) by simp
    then show ?thesis using that(3) by (auto simp: isEdge_def in_edgesOf mayJoin_def)
  qed
  have "mset (map ((!) xs) (endpoints (matedPairs mate ?sz) @ frees mate ?sz @ dums mate ?sz)) = mset (map ((!) xs) [0..<?sz])"
    using index_partition[OF ok] by (simp only: mset_map)
  then have part: "mset (pairPlayers (resPairs res)) + mset (floaters res) + mset (pabList (resPab res)) = mset xs"
    using dum by (auto simp: res map_nth pairPlayers_mated[symmetric])
  have pairs: "list_all mayPair (resPairs res)"
  proof -
    have "canMeet (xs ! i) (xs ! nat (mate ! i))" if "i \<in> set (lows mate ?sz)" for i
    proof -
      have i: "i < ?sz" "mate ! i = int (nat (mate ! i))" "i < nat (mate ! i)" "nat (mate ! i) < ?sz"
        using that by (auto simp: in_lows)
      from edge[OF i(1-3)] show ?thesis using i by (simp add: mayJoin_def)
    qed
    then show ?thesis by (simp add: res list_all_iff mayPair_def)
  qed
  have pab: "pabOK (resPab res)" "(resPab res \<noteq> None) = withDummy"
  proof -
    have "pabEligible (xs ! d) \<and> withDummy" if "dums mate ?sz = [d]" for d
    proof -
      have "d \<in> set (dums mate ?sz)" using that by simp
      then have d: "d < ?sz" "mate ! d = int ?sz" by (auto simp: dums_def)
      from edge[OF d d(1)] show ?thesis using d by (simp add: mayJoin_def)
    qed
    then show "pabOK (resPab res)" "(resPab res \<noteq> None) = withDummy"
      using dum some by (auto simp: res pabOK_def)
  qed
  show ?thesis using part pairs pab some by (auto simp: bracketContract_def res)
qed

lemma straightLoop_Some: "straightLoop s zs = Some ps \<Longrightarrow> ps = zs \<and> list_all mayPair zs"
  by (induction s zs arbitrary: ps rule: straightLoop.induct) (auto split: if_splits simp: mayPair_def)

lemma pairPlayers_zip: "length as = length bs \<Longrightarrow> mset (pairPlayers (zip as bs)) = mset as + mset bs"
  by (induction as bs rule: list_induct2) auto

lemma straight_contract:
  assumes "tryStraightCandidate xs s = Some ps" "length xs mod 2 = 0"
  shows "bracketContract xs isLast False \<lparr>resPairs = ps, floaters = [], resPab = None\<rparr>"
proof -
  let ?h = "length xs div 2"
  have ps: "ps = zip (take ?h xs) (drop ?h xs)" "list_all mayPair ps"
    using straightLoop_Some assms(1) by (auto simp: tryStraightCandidate_def Let_def)
  have "length (take ?h xs) = length (drop ?h xs)" using assms(2) by simp presburger
  then have "mset (pairPlayers ps) = mset (take ?h xs) + mset (drop ?h xs)" by (simp add: ps(1) pairPlayers_zip)
  also have "\<dots> = mset xs" by (metis append_take_drop_id mset_append)
  finally show ?thesis using ps(2) by (simp add: bracketContract_def pabOK_def)
qed

lemma pairBracket_cases:
  assumes "pairBracket mwm xs c s isLast withDummy = Inr (Some res)"
  obtains (empty) "xs = []" "\<not> withDummy" "res = \<lparr>resPairs = [], floaters = [], resPab = None\<rparr>"
    | (straight) ps where "tryStraightCandidate xs s = Some ps" "length xs mod 2 = 0" "\<not> withDummy"
        "res = \<lparr>resPairs = ps, floaters = [], resPab = None\<rparr>"
    | (matching) "matchBracket mwm xs c s isLast withDummy = Inr (Some res)"
proof (cases "xs = []")
  case True
  then show ?thesis using assms empty by (auto simp: pairBracket_def split: if_splits)
next
  case False
  let ?c = "\<not> withDummy \<and> c = 0 \<and> length xs mod 2 = 0 \<and> allSameScore xs"
  show ?thesis
  proof (cases "?c \<and> tryStraightCandidate xs s \<noteq> None")
    case True
    then obtain ps where "tryStraightCandidate xs s = Some ps" by auto
    then show ?thesis using True False assms straight by (simp add: pairBracket_def)
  next
    case no: False
    have "pairBracket mwm xs c s isLast withDummy = matchBracket mwm xs c s isLast withDummy"
      using False no by (auto simp: pairBracket_def Let_def)
    then show ?thesis using assms matching by simp
  qed
qed

lemma pairBracket_contract:
  assumes "returnsMatching mwm" "saneParams ps" "saneRoster ps xs"
    and "pairBracket mwm xs c (weightScheme ps) isLast withDummy = Inr (Some res)"
  shows "bracketContract xs isLast withDummy res"
  using assms(4)
proof (cases rule: pairBracket_cases)
  case (straight zs)
  then show ?thesis using straight_contract[of xs "weightScheme ps" zs isLast] by simp
next
  case matching
  then show ?thesis by (rule matchBracket_contract[OF assms(1-3)])
qed (simp add: bracketContract_def pabOK_def)

lemma pairBracket_returns:
  assumes "returnsMatching mwm" "saneParams ps" "saneRoster ps xs"
  shows "\<exists>o'. pairBracket mwm xs c (weightScheme ps) isLast withDummy = Inr o' \<and> (isLast \<or> withDummy \<or> o' \<noteq> None)"
proof (cases "length xs = 0")
  case False
  obtain mate where "matchBracket mwm xs c (weightScheme ps) isLast withDummy =
      Inr (if isLast \<and> frees mate (length xs) \<noteq> [] \<or> withDummy \<and> dums mate (length xs) = [] then None
           else Some \<lparr>resPairs = map (\<lambda>i. (xs ! i, xs ! nat (mate ! i))) (lows mate (length xs)),
                      floaters = map ((!) xs) (frees mate (length xs)),
                      resPab = (if dums mate (length xs) = [] then None
                                else Some (xs ! last (dums mate (length xs))))\<rparr>)"
    using matchBracket_eq[OF assms] by blast
  then show ?thesis using False by (auto simp: pairBracket_def Let_def split: option.splits)
qed (simp add: pairBracket_def)

section \<open>An attempt\<close>

definition attemptContract :: "SwissPlayer list \<Rightarrow> bool \<Rightarrow> (SwissPlayer \<times> SwissPlayer) list \<Rightarrow> SwissPlayer option \<Rightarrow> bool" where
  "attemptContract roster needPab ps pab \<longleftrightarrow>
     mset (pairPlayers ps) + mset (pabList pab) = mset roster \<and> list_all mayPair ps \<and> pabOK pab \<and>
     (pab \<noteq> None) = needPab"

lemma saneRoster_mset: "saneRoster ps xs \<Longrightarrow> mset ys \<subseteq># mset xs \<Longrightarrow> saneRoster ps ys"
proof -
  assume x: "saneRoster ps xs" and sub: "mset ys \<subseteq># mset xs"
  have "length ys \<le> length xs" using size_mset_mono[OF sub] by simp
  moreover have "set ys \<subseteq> set xs" using set_mset_mono[OF sub] by simp
  ultimately show ?thesis using x by (auto simp: saneRoster_def)
qed

lemma attemptLoop_contract:
  assumes mwm: "returnsMatching mwm" and p: "saneParams ps"
  shows "gs \<noteq> [] \<Longrightarrow> saneRoster ps (carry @ concat gs) \<Longrightarrow> list_all mayPair pairs \<Longrightarrow>
    \<exists>o'. attemptLoop mwm (weightScheme ps) needPab carry pairs None gs = Inr o' \<and>
      (\<forall>ps' pab'. o' = Some (ps', pab') \<longrightarrow> attemptContract (pairPlayers pairs @ carry @ concat gs) needPab ps' pab')"
proof (induction gs arbitrary: carry pairs)
  case (Cons g gs)
  let ?last = "gs = []"
  have sg: "saneRoster ps (carry @ g)"
    using Cons.prems(2) by (rule saneRoster_mset) simp
  obtain o1 where o1: "pairBracket mwm (carry @ g) (length carry) (weightScheme ps) ?last (?last \<and> needPab) = Inr o1"
    and some: "?last \<or> o1 \<noteq> None"
    using pairBracket_returns[OF mwm p sg, of "length carry" ?last "?last \<and> needPab"] by blast
  show ?case
  proof (cases o1)
    case None
    then show ?thesis using o1 by simp
  next
    case (Some res)
    have bc: "bracketContract (carry @ g) ?last (?last \<and> needPab) res"
      using pairBracket_contract[OF mwm p sg] o1 Some by blast
    have mp: "list_all mayPair (pairs @ resPairs res)" using bc Cons.prems(3) by (simp add: bracketContract_def)
    show ?thesis
    proof (cases "gs = []")
      case True
      then have "attemptContract (pairPlayers pairs @ carry @ concat (g # gs)) needPab (pairs @ resPairs res) (resPab res)"
        using bc mp by (auto simp: bracketContract_def attemptContract_def ac_simps)
      then show ?thesis using True o1 Some by (cases "resPab res") (auto)
    next
      case False
      then have pn: "resPab res = None" and
        m: "mset (carry @ g) = mset (pairPlayers (resPairs res)) + mset (floaters res)"
        using bc by (auto simp: bracketContract_def)
      have "mset (floaters res @ concat gs) \<subseteq># mset (carry @ concat (g # gs))"
        using m by (metis append.assoc concat.simps(2) mset_append mset_subset_eq_add_right subset_mset.add_right_mono)
      then have sf: "saneRoster ps (floaters res @ concat gs)" by (rule saneRoster_mset[OF Cons.prems(2)])
      obtain o2 where o2: "attemptLoop mwm (weightScheme ps) needPab (floaters res) (pairs @ resPairs res) None gs = Inr o2"
        and c2: "\<forall>ps' pab'. o2 = Some (ps', pab') \<longrightarrow>
          attemptContract (pairPlayers (pairs @ resPairs res) @ floaters res @ concat gs) needPab ps' pab'"
        using Cons.IH[OF False sf mp] by blast
      have "mset (pairPlayers (pairs @ resPairs res) @ floaters res @ concat gs) = mset (pairPlayers pairs @ carry @ concat (g # gs))"
        using m by (simp add: ac_simps)
      then show ?thesis using o1 o2 c2 Some False pn by (simp add: attemptContract_def)
    qed
  qed
qed simp

section \<open>The cascade\<close>

lemma groupLoop_concat: "cs = None \<or> groups \<noteq> [] \<Longrightarrow> concat (groupLoop groups cs ps) = concat groups @ ps"
proof (induction groups cs ps rule: groupLoop.induct)
  case (2 groups cs p ps)
  show ?case
  proof (cases "cs = None \<or> cs \<noteq> Some (scoreX2 p)")
    case True
    then show ?thesis using "2.IH"(1) by simp
  next
    case False
    then have g: "groups \<noteq> []" using "2.prems" by simp
    have "concat (butlast groups @ [last groups @ [p]]) = concat groups @ [p]"
      using append_butlast_last_id[OF g] by (metis append.assoc concat.simps concat_append append_Nil2)
    then show ?thesis using "2.IH"(2) False by simp
  qed
qed simp

lemma groupByScore_concat [simp]: "concat (groupByScore roster) = roster"
  by (simp add: groupByScore_def groupLoop_concat)

lemma mergeLastTwo_concat:
  "mergeLastTwo groups = Inr gs \<Longrightarrow> concat gs = concat groups \<and> gs \<noteq> []"
proof -
  assume m: "mergeLastTwo groups = Inr gs"
  then have n: "\<not> length groups < 2" and gs: "gs = take (length groups - 2) groups @ [groups ! (length groups - 2) @ groups ! (length groups - 1)]"
    by (auto simp: mergeLastTwo_def Let_def split: if_splits)
  have s: "Suc (length groups - 2) = length groups - 1" "Suc (length groups - 1) = length groups" using n by linarith+
  have "groups = take (length groups - 2) groups @ [groups ! (length groups - 2), groups ! (length groups - 1)]"
    using n s Cons_nth_drop_Suc[of "length groups - 2" groups] Cons_nth_drop_Suc[of "length groups - 1" groups]
    by (metis append_take_drop_id diff_less drop_all le_refl less_numeral_extra(3) not_less numeral_2_eq_2 pos2 s zero_less_Suc zero_less_diff lessI)
  then have "concat groups = concat (take (length groups - 2) groups) @ groups ! (length groups - 2) @ groups ! (length groups - 1)"
    by (metis concat.simps concat_append append_Nil2)
  then show ?thesis by (simp add: gs)
qed

lemma attempt_contract:
  assumes "returnsMatching mwm" "saneParams ps" "gs \<noteq> []" "saneRoster ps (concat gs)"
  shows "\<exists>o'. attempt mwm gs (weightScheme ps) needPab = Inr o' \<and>
      (\<forall>ps' pab'. o' = Some (ps', pab') \<longrightarrow> attemptContract (concat gs) needPab ps' pab')"
  using attemptLoop_contract[OF assms(1-3), of "[]" "[]" needPab] assms(4) by (simp add: attempt_def)

text \<open>The cascade ends with a round that accounts for everybody, or reports that no complete pairing was found; never otherwise.\<close>

lemma cascade_contract:
  assumes mwm: "returnsMatching mwm" and p: "saneParams ps"
  shows "groups \<noteq> [] \<Longrightarrow> saneRoster ps (concat groups) \<Longrightarrow>
    (\<exists>out. mergeCascade mwm (weightScheme ps) needPab rid n merged groups = Inr out \<and>
       attemptContract (concat groups) needPab (outPairs out) (outPab out)) \<or>
    mergeCascade mwm (weightScheme ps) needPab rid n merged groups = Inl (PairingImpossibleError rid (NoCompletePairing n)) \<and>
    attempt mwm [concat groups] (weightScheme ps) needPab = Inr None"
proof (induction "length groups" arbitrary: groups merged rule: less_induct)
  case less
  obtain o' where o': "attempt mwm groups (weightScheme ps) needPab = Inr o'"
    and c: "\<forall>ps' pab'. o' = Some (ps', pab') \<longrightarrow> attemptContract (concat groups) needPab ps' pab'"
    using attempt_contract[OF mwm p less.prems] by blast
  show ?case
  proof (cases o')
    case (Some r)
    then show ?thesis using o' c by (cases r) (simp add: mergeCascade.simps[of _ _ _ _ _ _ groups])
  next
    case None
    show ?thesis
    proof (cases "length groups = 1")
      case True
      then obtain g where "groups = [g]" by (auto simp: length_Suc_conv)
      then show ?thesis using o' None by (simp add: mergeCascade.simps[of _ _ _ _ _ _ "[g]"])
    next
      case False
      then have n2: "\<not> length groups < 2" using less.prems(1) by (cases groups) auto
      then obtain gs where gs: "mergeLastTwo groups = Inr gs" by (auto simp: mergeLastTwo_def Let_def)
      then have "concat gs = concat groups" "gs \<noteq> []" "length gs < length groups"
        using mergeLastTwo_concat mergeLastTwo_shorter by auto
      then show ?thesis
        using less.hyps[of gs "merged + 1"] less.prems(2) o' None gs False
        by (simp add: mergeCascade.simps[of _ _ _ _ _ _ groups])
    qed
  qed
qed

section \<open>Completeness\<close>

definition sumWeights :: "WeightedEdge list \<Rightarrow> int" where
  "sumWeights M = sum_list (map (\<lambda>(u, v, w). w) M)"

definition ends :: "WeightedEdge list \<Rightarrow> (nat \<times> nat) list" where
  "ends M = map (\<lambda>(u, v, w). (u, v)) M"

definition matchingIn :: "WeightedEdge list \<Rightarrow> WeightedEdge list \<Rightarrow> bool" where
  "matchingIn es M \<longleftrightarrow> set M \<subseteq> set es \<and> distinct (endpoints (ends M))"

definition mateEdges :: "WeightedEdge list \<Rightarrow> int list \<Rightarrow> WeightedEdge list" where
  "mateEdges es mate = filter (\<lambda>(u, v, w). mate ! u = int v) es"

text \<open>The contract of \<^verbatim>\<open>maximumWeightMatching\<close>: a matching, and none of the graph's matchings is heavier.\<close>

definition returnsMaximumWeightMatching :: "Matcher \<Rightarrow> bool" where
  "returnsMaximumWeightMatching mwm \<longleftrightarrow> returnsMatching mwm \<and>
     (\<forall>n es mate M. wellFormedEdges n es \<longrightarrow> mwm n es = Inr mate \<longrightarrow> matchingIn es M \<longrightarrow>
        sumWeights M \<le> sumWeights (mateEdges es mate))"

lemma distinct_endpoints:
  assumes "distinct ps" "\<forall>(u, v) \<in> set ps. u \<noteq> v"
    and "\<forall>p \<in> set ps. \<forall>q \<in> set ps. p \<noteq> q \<longrightarrow> {fst p, snd p} \<inter> {fst q, snd q} = {}"
  shows "distinct (endpoints ps)"
  using assms
proof (induction ps)
  case (Cons p ps)
  have fresh: "fst p \<notin> set (endpoints ps)" "snd p \<notin> set (endpoints ps)"
  proof -
    have "{fst p, snd p} \<inter> {fst q, snd q} = {}" if "q \<in> set ps" for q
      using Cons.prems(1,3) that by auto
    then show "fst p \<notin> set (endpoints ps)" "snd p \<notin> set (endpoints ps)" by (fastforce simp: endpoints_def)+
  qed
  moreover have "distinct (endpoints ps)" using Cons by simp
  ultimately show ?case using Cons.prems(2) by auto
qed simp

lemma mateEdges_matching:
  assumes wf: "wellFormedEdges n es" and ok: "mateOK n es mate"
  shows "matchingIn es (mateEdges es mate)"
    and "\<forall>v \<in> set (endpoints (ends (mateEdges es mate))). v < n \<and> mate ! v \<noteq> -1"
proof -
  have in_ends: "(u, v) \<in> set (ends (mateEdges es mate)) \<Longrightarrow> u < v \<and> v < n \<and> mate ! u = int v \<and> mate ! v = int u" for u v
  proof -
    assume "(u, v) \<in> set (ends (mateEdges es mate))"
    then have uv: "u < v" "v < n" "mate ! u = int v" using wf by (auto simp: ends_def mateEdges_def wellFormedEdges_def)
    then have "mate ! v = int u" using mate_symmetric(3)[OF ok, of u v] by simp
    then show ?thesis using uv by simp
  qed
  have "distinct (ends (mateEdges es mate))"
    using wf unfolding ends_def mateEdges_def wellFormedEdges_def by (auto intro: distinct_map_filter_subset)
  moreover have "\<forall>p \<in> set (ends (mateEdges es mate)). \<forall>q \<in> set (ends (mateEdges es mate)). p \<noteq> q \<longrightarrow> {fst p, snd p} \<inter> {fst q, snd q} = {}"
  proof (intro ballI impI)
    fix p q assume p: "p \<in> set (ends (mateEdges es mate))" and q: "q \<in> set (ends (mateEdges es mate))" and "p \<noteq> q"
    then show "{fst p, snd p} \<inter> {fst q, snd q} = {}"
      using in_ends[of "fst p" "snd p"] in_ends[of "fst q" "snd q"] by (auto simp: prod_eq_iff)
  qed
  ultimately have "distinct (endpoints (ends (mateEdges es mate)))"
    using in_ends by (intro distinct_endpoints) auto
  then show "matchingIn es (mateEdges es mate)" by (auto simp: matchingIn_def mateEdges_def)
  show "\<forall>v \<in> set (endpoints (ends (mateEdges es mate))). v < n \<and> mate ! v \<noteq> -1"
    using in_ends by (fastforce simp: endpoints_def)
qed

lemma length_endpoints: "length (endpoints M) = 2 * length M"
  by (induction M) auto

text \<open>A matching that leaves a vertex free has too few edges to be complete.\<close>

lemma incomplete_is_short:
  assumes "wellFormedEdges n es" "mateOK n es mate" "v < n" "mate ! v = -1"
  shows "2 * length (mateEdges es mate) < n"
proof -
  let ?E = "endpoints (ends (mateEdges es mate))"
  have "distinct ?E" using mateEdges_matching(1)[OF assms(1,2)] by (simp add: matchingIn_def)
  moreover have "set ?E \<subseteq> {..<n} - {v}" using mateEdges_matching(2)[OF assms(1,2)] assms(4) by auto
  ultimately have "length ?E \<le> card ({..<n} - {v})"
    by (metis card_mono distinct_card finite_Diff finite_lessThan)
  also have "\<dots> < n" using assms(3) by simp
  finally show ?thesis by (simp add: length_endpoints ends_def)
qed

lemma edgeWeight_total:
  assumes p: "saneParams ps" and b: "bracketSlots ps slots" and c: "candidate (length slots) M"
  shows "totalWeight (weightScheme ps) slots split M =
    Inr (sum_list (map (\<lambda>(i, j). weightOf (weightScheme ps) slots split i j) M))"
  using c
proof (induction M)
  case (Cons e M)
  have c: "candidate (length slots) M" "fst e < length slots" "snd e \<le> length slots" "fst e \<noteq> snd e"
    using Cons.prems by (auto simp: candidate_def)
  obtain w where w: "edgeWeight (weightScheme ps) slots split e = Inr w"
    using edgeWeight_bounds[OF p b c(2-4)] by blast
  then show ?case using Cons.IH[OF c(1)] by (auto simp: totalWeight_def weightOf_def split: prod.splits)
qed (simp add: totalWeight_def)

end
