(* ===== verification/SwissCompleteness.thy ===== *)
theory SwissCompleteness
  imports SwissBracketProofs
begin

text \<open>
  The completeness guarantee in the header of \<^verbatim>\<open>score-brackets.ts\<close>: if a complete pairing
  that respects C1, C2 and C3 exists, the cascade finds one. It rests on the dominance of C6
  (\<^verbatim>\<open>SwissWeights\<close>) and on the contract of the matching routine, that no matching of the graph
  is heavier than the one it returns.
\<close>

section \<open>A complete pairing as a matching\<close>

definition completePairing :: "SwissPlayer list \<Rightarrow> bool \<Rightarrow> (SwissPlayer \<times> SwissPlayer) list \<Rightarrow> SwissPlayer option \<Rightarrow> bool" where
  "completePairing roster needPab P pab \<longleftrightarrow>
     mset (pairPlayers P) + mset (pabList pab) = mset roster \<and>
     list_all (\<lambda>p. canMeet (fst p) (snd p) \<and> canMeet (snd p) (fst p)) P \<and> pabOK pab \<and> (pab \<noteq> None) = needPab"

definition indexIn :: "'a list \<Rightarrow> 'a \<Rightarrow> nat" where
  "indexIn xs a = length (takeWhile (\<lambda>b. b \<noteq> a) xs)"

lemma indexIn_nth: "a \<in> set xs \<Longrightarrow> indexIn xs a < length xs \<and> xs ! indexIn xs a = a"
proof -
  assume a: "a \<in> set xs"
  then have "takeWhile (\<lambda>b. b \<noteq> a) xs \<noteq> xs" by (metis (mono_tags, lifting) set_takeWhileD)
  then have "indexIn xs a < length xs"
    unfolding indexIn_def by (metis length_takeWhile_le linorder_neqE_nat not_less takeWhile_eq_all_conv takeWhile_eq_take take_all)
  moreover have "xs ! indexIn xs a = a" using nth_length_takeWhile[of "\<lambda>b. b \<noteq> a" xs] calculation
    by (simp add: indexIn_def)
  ultimately show ?thesis by simp
qed

lemma indexIn_inj: "inj_on (indexIn xs) (set xs)"
  by (rule inj_on_inverseI[of _ "(!) xs"]) (simp add: indexIn_nth)

definition asEdge :: "nat \<Rightarrow> nat \<Rightarrow> nat \<times> nat" where
  "asEdge i j = (min i j, max i j)"

definition indexMatching :: "SwissPlayer list \<Rightarrow> (SwissPlayer \<times> SwissPlayer) list \<Rightarrow> SwissPlayer option \<Rightarrow> (nat \<times> nat) list" where
  "indexMatching roster P pab =
     map (\<lambda>p. asEdge (indexIn roster (fst p)) (indexIn roster (snd p))) P
     @ map (\<lambda>p. (indexIn roster p, length roster)) (pabList pab)"

lemma endpoints_append [simp]: "endpoints (M @ N) = endpoints M @ endpoints N"
  by (simp add: endpoints_def)

lemma mset_asEdge: "mset [fst (asEdge i j), snd (asEdge i j)] = {#i, j#}"
  by (cases "i \<le> j") (simp_all add: asEdge_def min_def max_def)

lemma endpoints_indexMatching:
  "mset (endpoints (indexMatching roster P pab)) =
     mset (map (indexIn roster) (pairPlayers P @ pabList pab) @ (if pab = None then [] else [length roster]))"
proof -
  have "mset (endpoints (map (\<lambda>p. asEdge (indexIn roster (fst p)) (indexIn roster (snd p))) P)) =
      mset (map (indexIn roster) (pairPlayers P))"
  proof (induction P)
    case (Cons p P)
    then show ?case using mset_asEdge[of "indexIn roster (fst p)" "indexIn roster (snd p)"]
      by (simp add: add_mset_commute)
  qed simp
  then show ?thesis by (cases pab) (simp_all add: indexMatching_def)
qed

lemma completePairing_matching:
  assumes d: "distinct roster" and c: "completePairing roster needPab P pab"
  shows "distinct (endpoints (indexMatching roster P pab))"
    and "2 * length (indexMatching roster P pab) = length roster + (if needPab then 1 else 0)"
    and "\<forall>e \<in> set (indexMatching roster P pab). mayJoin (makeSlots roster k) needPab (fst e) (snd e)"
proof -
  have m: "mset (pairPlayers P @ pabList pab) = mset roster" using c by (simp add: completePairing_def)
  have set: "set (pairPlayers P @ pabList pab) = set roster" using m by (metis set_mset_mset)
  have dp: "distinct (pairPlayers P @ pabList pab)" using mset_eq_imp_distinct_iff[OF m] d by simp
  have "distinct (map (indexIn roster) (pairPlayers P @ pabList pab))"
    unfolding distinct_map set using dp indexIn_inj by blast
  moreover have "length roster \<notin> set (map (indexIn roster) (pairPlayers P @ pabList pab))"
    unfolding set_map set using indexIn_nth by fastforce
  ultimately have "distinct (map (indexIn roster) (pairPlayers P @ pabList pab) @ (if pab = None then [] else [length roster]))"
    by simp
  then show "distinct (endpoints (indexMatching roster P pab))"
    using mset_eq_imp_distinct_iff[OF endpoints_indexMatching] by blast
  have "length (pairPlayers P) + length (pabList pab) = length roster" using m by (metis length_append size_mset)
  moreover have "length (pairPlayers P) = 2 * length P" by (induction P) auto
  ultimately show "2 * length (indexMatching roster P pab) = length roster + (if needPab then 1 else 0)"
    using c by (cases pab) (auto simp: indexMatching_def completePairing_def)
  show "\<forall>e \<in> set (indexMatching roster P pab). mayJoin (makeSlots roster k) needPab (fst e) (snd e)"
  proof
    fix e assume "e \<in> set (indexMatching roster P pab)"
    then consider (pair) p where "p \<in> set P" "e = asEdge (indexIn roster (fst p)) (indexIn roster (snd p))"
      | (bye) p where "pab = Some p" "e = (indexIn roster p, length roster)"
      by (cases pab) (auto simp: indexMatching_def)
    then show "mayJoin (makeSlots roster k) needPab (fst e) (snd e)"
    proof cases
      case pair
      have both: "canMeet (fst p) (snd p)" "canMeet (snd p) (fst p)"
        using c pair(1) by (auto simp: completePairing_def list_all_iff)
      obtain as bs where "P = as @ p # bs" using pair(1) by (meson split_list)
      then have "fst p \<noteq> snd p" "fst p \<in> set roster" "snd p \<in> set roster"
        using dp set by auto
      then show ?thesis
        using both indexIn_nth[of "fst p" roster] indexIn_nth[of "snd p" roster] pair(2)
        by (cases "indexIn roster (fst p) \<le> indexIn roster (snd p)")
           (auto simp: asEdge_def mayJoin_def min_def max_def le_less)
    next
      case bye
      then have "p \<in> set roster" using set by auto
      then show ?thesis using bye c indexIn_nth[of p roster]
        by (auto simp: mayJoin_def completePairing_def pabOK_def)
    qed
  qed
qed

section \<open>The last bracket closes\<close>

lemma last_bracket_closes:
  assumes mwm: "returnsMaximumWeightMatching mwm" and p: "saneParams ps" and x: "saneRoster ps roster"
    and d: "distinct roster" and c: "completePairing roster needPab P pab"
  shows "matchBracket mwm roster 0 (weightScheme ps) True needPab \<noteq> Inr None"
proof
  let ?sz = "length roster" and ?slots = "makeSlots roster 0" and ?split = "splitOf (length roster) 0"
  let ?n = "?sz + (if needPab then 1 else 0)" and ?s = "weightScheme ps"
  let ?es = "edgesOf ?s ?slots ?split needPab"
  let ?w = "\<lambda>(i, j). weightOf ?s ?slots ?split i j"
  assume none: "matchBracket mwm roster 0 ?s True needPab = Inr None"
  have rm: "returnsMatching mwm" using mwm by (simp add: returnsMaximumWeightMatching_def)
  obtain mate where m: "mwm ?n ?es = Inr mate" and ok: "mateOK ?n ?es mate"
    and res: "frees mate ?sz \<noteq> [] \<or> needPab \<and> dums mate ?sz = []"
    using matchBracket_eq[OF rm p x, of needPab 0 True] none by (auto split: if_splits)
  have wf: "wellFormedEdges ?n ?es" using edgesOf_wellFormed[of ?slots needPab ?s ?split] by simp
  have "\<exists>v < ?n. mate ! v = -1"
    using res
  proof
    assume "frees mate ?sz \<noteq> []"
    then obtain v where "v \<in> set (frees mate ?sz)" by (cases "frees mate ?sz") auto
    then show ?thesis by (intro exI[of _ v]) (auto simp: frees_def)
  next
    assume wd: "needPab \<and> dums mate ?sz = []"
    have "mate ! ?sz = -1"
    proof (rule ccontr)
      assume "mate ! ?sz \<noteq> -1"
      then obtain u where "u < ?n" "u \<noteq> ?sz" "mate ! u = int ?sz"
        using ok wd unfolding mateOK_def by auto
      moreover then have "u < ?sz" using wd by simp
      ultimately have "u \<in> set (dums mate ?sz)" unfolding dums_def by simp
      then show False using wd by simp
    qed
    then show ?thesis using wd by (intro exI[of _ ?sz]) auto
  qed
  then have short: "2 * length (mateEdges ?es mate) < ?n" using incomplete_is_short[OF wf ok] by blast
  let ?M = "indexMatching roster P pab"
  note M = completePairing_matching[OF d c]
  have b: "bracketSlots ps ?slots" by (rule saneRoster_slots[OF x])
  have candM: "candidate ?sz ?M"
    using M(1) M(3)[of 0] by (auto simp: candidate_def list_all_iff mayJoin_def)
  have candE: "candidate ?sz (ends (mateEdges ?es mate))"
    using mateEdges_matching(1)[OF wf ok]
    by (auto simp: candidate_def list_all_iff matchingIn_def ends_def mateEdges_def in_edgesOf mayJoin_def)
  have "length (ends (mateEdges ?es mate)) < length ?M" using short M(2) by (simp add: ends_def)
  from more_pairs_heavier[OF p b, of "ends (mateEdges ?es mate)" ?M ?split] candM candE this
  have less: "sum_list (map ?w (ends (mateEdges ?es mate))) < sum_list (map ?w ?M)"
    using edgeWeight_total[OF p b, of "ends (mateEdges ?es mate)" ?split] edgeWeight_total[OF p b, of ?M ?split] by simp
  have we: "map ?w (ends (mateEdges ?es mate)) = map (\<lambda>(u, v, w). w) (mateEdges ?es mate)"
    unfolding ends_def map_map by (rule map_cong) (auto simp: mateEdges_def in_edgesOf)
  let ?N = "map (\<lambda>(i, j). (i, j, weightOf ?s ?slots ?split i j)) ?M"
  have "ends ?N = ?M" by (simp add: ends_def comp_def case_prod_beta)
  moreover have "set ?N \<subseteq> set ?es" using M(3)[of 0] by (auto simp: in_edgesOf)
  ultimately have "matchingIn ?es ?N" using M(1) by (simp add: matchingIn_def)
  then have "sumWeights ?N \<le> sumWeights (mateEdges ?es mate)"
    using mwm wf m unfolding returnsMaximumWeightMatching_def by blast
  moreover have "sumWeights ?N = sum_list (map ?w ?M)"
    unfolding sumWeights_def map_map by (rule arg_cong[where f = sum_list]) (auto intro!: map_cong)
  ultimately show False using less we by (simp add: sumWeights_def)
qed

lemma attempt_single:
  "attempt mwm [roster] s needPab = Inr None \<longleftrightarrow> pairBracket mwm roster 0 s True needPab = Inr None"
  by (cases "pairBracket mwm roster 0 s True needPab") (auto simp: attempt_def split: option.splits)

lemma global_bracket_closes:
  assumes "returnsMaximumWeightMatching mwm" "saneParams ps" "saneRoster ps roster"
    and "distinct roster" "completePairing roster needPab P pab"
  shows "attempt mwm [roster] (weightScheme ps) needPab \<noteq> Inr None"
proof (cases "roster = []")
  case True
  then have "\<not> needPab" using assms(5) by (cases pab) (auto simp: completePairing_def)
  then show ?thesis using True by (simp add: attempt_single pairBracket_def)
next
  case False
  then show ?thesis using last_bracket_closes[OF assms]
    by (auto simp: attempt_single pairBracket_def Let_def split: option.splits)
qed

text \<open>Having met is recorded on both sides.\<close>

definition mutualOpponents :: "SwissPlayer list \<Rightarrow> bool" where
  "mutualOpponents roster \<longleftrightarrow>
     (\<forall>a \<in> set roster. \<forall>b \<in> set roster. pid b \<in> opponentIds (pstate a) \<longleftrightarrow> pid a \<in> opponentIds (pstate b))"

lemma canMeet_sym:
  "mutualOpponents roster \<Longrightarrow> a \<in> set roster \<Longrightarrow> b \<in> set roster \<Longrightarrow> canMeet a b = canMeet b a"
  unfolding canMeet_def mutualOpponents_def by metis

lemma attemptContract_complete:
  assumes "mutualOpponents roster" "attemptContract roster needPab P pab"
  shows "completePairing roster needPab P pab"
proof -
  have "set (pairPlayers P @ pabList pab) = set roster"
    using assms(2) unfolding attemptContract_def by (metis mset_append set_mset_mset)
  then have in_roster: "fst p \<in> set roster" "snd p \<in> set roster" if "p \<in> set P" for p
    using that by (auto simp: pairPlayers_def)
  have "canMeet (fst p) (snd p) \<and> canMeet (snd p) (fst p)" if "p \<in> set P" for p
    using assms(2) that canMeet_sym[OF assms(1) in_roster[OF that]]
    by (auto simp: attemptContract_def list_all_iff mayPair_def)
  then show ?thesis using assms(2) by (simp add: completePairing_def attemptContract_def list_all_iff)
qed

lemma brackets_contract:
  assumes "returnsMatching mwm" "saneParams ps" "saneRoster ps roster" "roster \<noteq> []"
  shows "(\<exists>out. pairAllBrackets mwm roster (weightScheme ps) needPab rid = Inr out \<and>
       attemptContract roster needPab (outPairs out) (outPab out)) \<or>
    pairAllBrackets mwm roster (weightScheme ps) needPab rid = Inl (PairingImpossibleError rid (NoCompletePairing (length roster))) \<and>
    attempt mwm [roster] (weightScheme ps) needPab = Inr None"
proof -
  have "groupByScore roster \<noteq> []" using assms(4) by (metis concat.simps(1) groupByScore_concat)
  from cascade_contract[OF assms(1,2) this, of needPab rid "length roster" 0] assms(3)
  show ?thesis by (simp add: pairAllBrackets_def)
qed

text \<open>
  The guarantee C4 in the header of the file: for players whose meetings are recorded on both
  sides, the cascade returns a round exactly when some complete pairing respects C1, C2 and C3;
  otherwise it reports that the round is impossible. No other error is possible.
\<close>

lemma brackets_complete:
  assumes "returnsMaximumWeightMatching mwm" "saneParams ps" "saneRoster ps roster"
    and "distinct roster" "mutualOpponents roster" "roster \<noteq> []"
  shows "if \<exists>P pab. completePairing roster needPab P pab
    then \<exists>out. pairAllBrackets mwm roster (weightScheme ps) needPab rid = Inr out \<and>
      completePairing roster needPab (outPairs out) (outPab out)
    else pairAllBrackets mwm roster (weightScheme ps) needPab rid
      = Inl (PairingImpossibleError rid (NoCompletePairing (length roster)))"
proof -
  have rm: "returnsMatching mwm" using assms(1) by (simp add: returnsMaximumWeightMatching_def)
  from brackets_contract[OF rm assms(2,3,6), of needPab rid] show ?thesis
  proof (elim disjE exE conjE)
    fix out assume r: "pairAllBrackets mwm roster (weightScheme ps) needPab rid = Inr out"
      and "attemptContract roster needPab (outPairs out) (outPab out)"
    then have "completePairing roster needPab (outPairs out) (outPab out)"
      by (intro attemptContract_complete[OF assms(5)])
    then show ?thesis using r by auto
  next
    assume "attempt mwm [roster] (weightScheme ps) needPab = Inr None"
      and "pairAllBrackets mwm roster (weightScheme ps) needPab rid = Inl (PairingImpossibleError rid (NoCompletePairing (length roster)))"
    then show ?thesis using global_bracket_closes[OF assms(1-4)] by auto
  qed
qed

end
