(* ===== verification/SwissEngine.thy ===== *)
theory SwissEngine
  imports SwissCompleteness
begin

text \<open>
  \<^verbatim>\<open>src/core/pairing/swiss-dutch.engine.ts\<close>: the Swiss engine, composed of the brackets, the
  colour allocation, the ordering of boards, the verification and the diagnostics. It
  interprets the pairing port with the no-repeat guarantee for every matching routine, since
  the verification stands between the brackets and the caller; with a maximum-weight routine
  the verification never fires and a round is returned whenever one exists.
\<close>

section \<open>Compute\<close>

definition swissVersion :: string where
  "swissVersion = ''1.0.0''"

text \<open>Article 1.2: score descending, pairing number ascending.\<close>

definition byScore :: "PlayerPairingState \<Rightarrow> PlayerPairingState \<Rightarrow> int" where
  "byScore a b =
     (let sa = roundX2 (points a); sb = roundX2 (points b)
      in if sa \<noteq> sb then sb - sa else pairingNumber a - pairingNumber b)"

fun firstRepeat :: "int set \<Rightarrow> PlayerPairingState list \<Rightarrow> int option" where
  "firstRepeat seenNumbers [] = None"
| "firstRepeat seenNumbers (p # ps) =
     (if pairingNumber p \<in> seenNumbers then Some (pairingNumber p)
      else firstRepeat (insert (pairingNumber p) seenNumbers) ps)"

definition boardRank :: "ColoredPair \<Rightarrow> nat" where
  "boardRank c = min (prank (white c)) (prank (black c))"

definition byBoard :: "ColoredPair \<Rightarrow> ColoredPair \<Rightarrow> int" where
  "byBoard a b = int (boardRank a) - int (boardRank b)"

fun numberBoards :: "int \<Rightarrow> ColoredPair list \<Rightarrow> Pairing list" where
  "numberBoards n [] = []"
| "numberBoards n (c # cs) =
     \<lparr>boardNumber = n, whitePlayerId = pid (white c), blackPlayerId = pid (black c)\<rparr> # numberBoards (n + 1) cs"

definition addWhen :: "bool \<Rightarrow> nat \<Rightarrow> nat set \<Rightarrow> nat set" where
  "addWhen c k relaxed = (if c then insert k relaxed else relaxed)"

fun diagnosePair :: "Color \<Rightarrow> ColoredPair \<Rightarrow> nat set \<times> nat \<Rightarrow> nat set \<times> nat" where
  "diagnosePair initial c (relaxed, floatCnt) =
     (let pens = colorPenaltiesFor (white c) (black c) initial;
          r1 = addWhen (c13 pens > 0) 13 (addWhen (c12 pens > 0) 12 (addWhen (c11 pens > 0) 11 (addWhen (c10 pens > 0) 10 relaxed)))
      in if scoreX2 (white c) \<noteq> scoreX2 (black c)
         then let down = (if scoreX2 (white c) > scoreX2 (black c) then white c else black c);
                  up = (if scoreX2 (white c) > scoreX2 (black c) then black c else white c)
              in (addWhen (floatPrevPrev up = Up) 17 (addWhen (floatPrevPrev down = Down) 16
                   (addWhen (floatPrev up = Up) 15 (addWhen (floatPrev down = Down) 14 r1))), floatCnt + 2)
         else (r1, floatCnt))"

definition buildDiagnostics :: "SwissPlayer list \<Rightarrow> ColoredPair list \<Rightarrow> SwissPlayer option \<Rightarrow> Color \<Rightarrow> PairingDiagnostics" where
  "buildDiagnostics ps pairs pab initial =
     (let (relaxed, floats) = fold (diagnosePair initial) pairs ({}, 0);
          (relaxed2, floats2) = (case pab of
             None \<Rightarrow> (relaxed, floats)
           | Some p \<Rightarrow> (addWhen (floatPrevPrev p = Down) 16 (addWhen (floatPrev p = Down) 14 relaxed), floats + 1))
      in \<lparr>scoreGroupCount = card (set (map scoreX2 ps)), floatCount = floats2,
          relaxedCriteria = sorted_list_of_set relaxed2\<rparr>)"

definition pabBye :: "SwissPlayer option \<Rightarrow> ByeAssignment list" where
  "pabBye pab = (case pab of None \<Rightarrow> [] | Some p \<Rightarrow> [\<lparr>byePlayerId = pid p, byeType = PairingAllocated, byePoints = 1\<rparr>])"

definition schemeParams :: "SwissPlayer list \<Rightarrow> int \<Rightarrow> Color \<Rightarrow> WeightSchemeParams" where
  "schemeParams ps rn initial =
     \<lparr>wn = int (length ps), minScoreX2 = Min (set (map scoreX2 ps)), maxScoreX2 = Max (set (map scoreX2 ps)),
      maxUnplayed = rn - 1, wInitialColor = initial\<rparr>"

definition initialOf :: "PairingRequest \<Rightarrow> Color" where
  "initialOf req = (case initialColor req of None \<Rightarrow> White | Some c \<Rightarrow> c)"

definition swissPair :: "Matcher \<Rightarrow> PairingRequest \<Rightarrow> PairingError + PairingResult" where
  "swissPair mwm req =
     (let rid = roundId req; rn = roundNumber req; tot = totalRounds req
      in if rn < 1 then Inl (PairingImpossibleError rid (InvalidRoundNumber rn))
         else if tot < rn then Inl (PairingImpossibleError rid (InvalidTotalRounds tot))
         else
           let sorted' = jsSort byScore (players req)
           in case firstRepeat {} sorted' of
                Some k \<Rightarrow> Inl (PairingImpossibleError rid (DuplicatePairingNumber k))
              | None \<Rightarrow>
                  let activeStates = filter (\<lambda>p. isActive p rn) sorted'
                  in if length activeStates = 0 then Inl (PairingImpossibleError rid NoActivePlayer)
                     else
                       let initial = initialOf req;
                           ps = prepareSwissPlayers activeStates rn tot;
                           needPab = (length ps mod 2 = 1);
                           scheme = weightScheme (schemeParams ps rn initial)
                       in bindE (pairAllBrackets mwm ps scheme needPab rid) (\<lambda>outcome.
                          let colored = jsSort byBoard (map (colorPair initial) (outPairs outcome))
                          in bindE (verifyAbsoluteCriteria rid ps colored (outPab outcome)) (\<lambda>_.
                             Inr \<lparr>pairings = numberBoards 1 colored, byes = pabBye (outPab outcome),
                                  engineVersion = swissVersion,
                                  diagnostics = Some (buildDiagnostics ps colored (outPab outcome) initial)\<rparr>)))"

section \<open>The order of the roster\<close>

lemma consistent_byScore: "cmpConsistent byScore A"
  by (auto simp: cmpConsistent_def byScore_def Let_def)

lemma sorted_byScore: "sorted_wrt (\<lambda>a b. byScore a b \<le> 0) (jsSort byScore ps)"
  by (rule sorted_jsSort[OF consistent_byScore])

text \<open>The key the order is made of, and the text of the numbers it lists.\<close>

definition scoreKey :: "PlayerPairingState \<Rightarrow> int \<times> int" where
  "scoreKey p = (- roundX2 (points p), pairingNumber p)"

lemma firstRepeat_numbers:
  "map pairingNumber ps = map pairingNumber qs \<Longrightarrow> firstRepeat S ps = firstRepeat S qs"
proof (induction S ps arbitrary: qs rule: firstRepeat.induct)
  case (2 S p ps)
  then obtain q qs' where "qs = q # qs'" by (cases qs) auto
  then show ?case using 2 by auto
qed simp

lemma firstRepeat_None: "firstRepeat S ps = None \<longleftrightarrow> distinct (map pairingNumber ps) \<and> pairingNumber ` set ps \<inter> S = {}"
  by (induction S ps rule: firstRepeat.induct) auto

lemma keys_determined:
  assumes "mset ps = mset qs"
  shows "map scoreKey (jsSort byScore ps) = map scoreKey (jsSort byScore qs)"
proof -
  have key: "sorted_wrt (\<lambda>k l. fst k < fst l \<or> fst k = fst l \<and> snd k \<le> snd l) (map scoreKey (jsSort byScore xs))" for xs
    unfolding sorted_wrt_map
    by (rule sorted_wrt_mono_rel[OF _ sorted_byScore]) (auto simp: byScore_def scoreKey_def Let_def split: if_splits)
  have uniq: "us = vs"
    if "sorted_wrt (\<lambda>k l. fst k < fst l \<or> fst k = fst l \<and> snd k \<le> snd l) us"
      "sorted_wrt (\<lambda>k l. fst k < fst l \<or> fst k = fst l \<and> snd k \<le> snd l) vs" "mset us = mset vs"
    for us vs :: "(int \<times> int) list"
    using that
  proof (induction us arbitrary: vs)
    case (Cons u us)
    then obtain v vs' where v: "vs = v # vs'" by (cases vs) auto
    have "u \<in> set (v # vs')" "v \<in> set (u # us)"
      using Cons.prems(3) unfolding v by (metis list.set_intros(1) set_mset_mset)+
    then have "u = v \<or> (fst v < fst u \<or> fst v = fst u \<and> snd v \<le> snd u)"
      "u = v \<or> (fst u < fst v \<or> fst u = fst v \<and> snd u \<le> snd v)"
      using Cons.prems(1,2) unfolding v by auto
    then have "u = v" by (auto simp: prod_eq_iff)
    then show ?case using Cons v by simp
  qed simp
  have "mset (map scoreKey (jsSort byScore ps)) = mset (map scoreKey (jsSort byScore qs))"
    by (simp add: assms)
  then show ?thesis by (rule uniq[OF key key])
qed

lemma sorted_players_blind:
  assumes m: "mset ps = mset qs"
  shows "firstRepeat {} (jsSort byScore ps) = firstRepeat {} (jsSort byScore qs)"
    and "firstRepeat {} (jsSort byScore ps) = None \<Longrightarrow> jsSort byScore ps = jsSort byScore qs"
proof -
  have "map snd (map scoreKey (jsSort byScore ps)) = map snd (map scoreKey (jsSort byScore qs))"
    by (simp only: keys_determined[OF m])
  then have "map pairingNumber (jsSort byScore ps) = map pairingNumber (jsSort byScore qs)"
    by (simp add: comp_def scoreKey_def)
  then show "firstRepeat {} (jsSort byScore ps) = firstRepeat {} (jsSort byScore qs)" by (rule firstRepeat_numbers)
  assume "firstRepeat {} (jsSort byScore ps) = None"
  then have d: "distinct (map pairingNumber ps)" by (simp add: firstRepeat_None sort_facts)
  show "jsSort byScore ps = jsSort byScore qs"
  proof (rule jsSort_unique[OF consistent_byScore _ m])
    show "\<forall>x\<in>set ps. \<forall>y\<in>set ps. byScore x y \<le> 0 \<longrightarrow> byScore y x \<le> 0 \<longrightarrow> x = y"
    proof (intro ballI impI)
      fix x y assume "x \<in> set ps" "y \<in> set ps" "byScore x y \<le> 0" "byScore y x \<le> 0"
      then show "x = y" using d
        by (auto simp: distinct_map byScore_def Let_def split: if_splits dest: inj_onD)
    qed
  qed
qed

section \<open>The port\<close>

lemma numberBoards_facts:
  "map boardNumber (numberBoards n cs) = map (\<lambda>k. n + int k) [0..<length cs]"
  "length (numberBoards n cs) = length cs"
  "seatedIds (numberBoards n cs) = concat (map (\<lambda>c. [pid (white c), pid (black c)]) cs)"
proof (induction n cs rule: numberBoards.induct)
  case (2 n c cs)
  have "map (\<lambda>k. n + 1 + int k) [0..<m] = map (\<lambda>k. n + int k) [Suc 0..<Suc m]" for m
    unfolding map_Suc_upt[symmetric] map_map by simp
  then show "map boardNumber (numberBoards n (c # cs)) = map (\<lambda>k. n + int k) [0..<length (c # cs)]"
    using 2(1) by (simp add: upt_conv_Cons del: upt_Suc)
qed (simp_all add: seatedIds_def)

lemma numberBoards_member:
  "b \<in> set (numberBoards n cs) \<Longrightarrow> \<exists>c \<in> set cs. whitePlayerId b = pid (white c) \<and> blackPlayerId b = pid (black c)"
  by (induction n cs rule: numberBoards.induct) auto

text \<open>A returned round, taken apart.\<close>

definition activeSorted :: "PairingRequest \<Rightarrow> PlayerPairingState list" where
  "activeSorted req = filter (\<lambda>p. isActive p (roundNumber req)) (jsSort byScore (players req))"

definition swissRoster :: "PairingRequest \<Rightarrow> SwissPlayer list" where
  "swissRoster req = prepareSwissPlayers (activeSorted req) (roundNumber req) (totalRounds req)"

lemma swissPair_InrD:
  assumes "swissPair mwm req = Inr res"
  shows "\<exists>outcome colored.
    pairAllBrackets mwm (swissRoster req) (weightScheme (schemeParams (swissRoster req) (roundNumber req) (initialOf req)))
       (length (swissRoster req) mod 2 = 1) (roundId req) = Inr outcome \<and>
    colored = jsSort byBoard (map (colorPair (initialOf req)) (outPairs outcome)) \<and>
    absoluteCriteria (swissRoster req) colored (outPab outcome) \<and>
    pairings res = numberBoards 1 colored \<and> byes res = pabBye (outPab outcome) \<and> engineVersion res = swissVersion"
  using assms
  by (auto simp: swissPair_def Let_def swissRoster_def activeSorted_def verify_iff split: if_splits option.splits)

lemma roster_ids: "map pid (swissRoster req) = map playerId (activeSorted req)"
  by (simp add: swissRoster_def prepareSwissPlayers_pid)

lemma activeSorted_mset: "mset (activeSorted req) = mset (activePlayers req)"
  by (simp add: activeSorted_def activePlayers_def mset_filter)

lemma participants_roundIds:
  "seatedIds (numberBoards n cs) @ map byePlayerId (pabBye pab) = roundIds cs pab"
  by (cases pab) (simp_all add: numberBoards_facts pabBye_def roundIds_def)

lemma criteria_cover:
  assumes "absoluteCriteria active cs pab" "distinct (map pid active)"
  shows "mset (roundIds cs pab) = mset (map pid active)"
proof -
  have d: "distinct (roundIds cs pab)" and l: "length (roundIds cs pab) = length active"
    and sub: "set (map pid active) \<subseteq> set (roundIds cs pab)"
    using assms(1) by (auto simp: absoluteCriteria_def)
  have "card (set (map pid active)) = card (set (roundIds cs pab))"
    using distinct_card[OF d] distinct_card[OF assms(2)] l by simp
  then have "set (map pid active) = set (roundIds cs pab)" using sub by (intro card_subset_eq) auto
  then show ?thesis using d assms(2) set_eq_iff_mset_eq_distinct by metis
qed

lemma sameRequest_header:
  assumes "sameRequest r1 r2"
  shows "roundId r2 = roundId r1" "roundNumber r2 = roundNumber r1" "totalRounds r2 = totalRounds r1"
    "initialColor r2 = initialColor r1" "mset (players r1) = mset (players r2)"
proof -
  have "r2 = r1\<lparr>players := players r2\<rparr>" "mset (players r2) = mset (players r1)" using assms by (simp_all add: sameRequest_def)
  moreover obtain r where "r = r1\<lparr>players := players r2\<rparr>" by simp
  ultimately show "roundId r2 = roundId r1" "roundNumber r2 = roundNumber r1" "totalRounds r2 = totalRounds r1"
    "initialColor r2 = initialColor r1" "mset (players r1) = mset (players r2)"
    by (metis PairingRequest.surjective PairingRequest.update_convs(4) PairingRequest.select_convs(1,2,3,6))+
qed

text \<open>Whatever the matching routine returns, the pairs are made of players of the roster.\<close>

definition resultPlayers :: "BracketResult \<Rightarrow> SwissPlayer set" where
  "resultPlayers r = set (pairPlayers (resPairs r)) \<union> set (floaters r) \<union> set (pabList (resPab r))"

lemma readMate_players:
  "readMate slots0 mate isLast wd is r = Inr (Some res) \<Longrightarrow> \<forall>i \<in> set is. i < length slots0 \<Longrightarrow>
   resultPlayers r \<subseteq> set slots0 \<Longrightarrow> resultPlayers res \<subseteq> set slots0"
proof (induction "is" arbitrary: r)
  case (Cons i "is")
  have i: "slots0 ! i \<in> set slots0" using Cons.prems(2) by simp
  have m: "slots0 ! nat (mate ! i) \<in> set slots0" if "mate ! i < int (length slots0)" "mate ! i > int i"
    using that by simp
  show ?case
  proof (rule Cons.IH[of "if mate ! i = -1 then r\<lparr>floaters := floaters r @ [slots0 ! i]\<rparr>
      else if wd \<and> mate ! i = int (length slots0) then r\<lparr>resPab := Some (slots0 ! i)\<rparr>
      else if mate ! i > int i then r\<lparr>resPairs := resPairs r @ [(slots0 ! i, slots0 ! nat (mate ! i))]\<rparr> else r"])
    show "readMate slots0 mate isLast wd is (if mate ! i = -1 then r\<lparr>floaters := floaters r @ [slots0 ! i]\<rparr>
      else if wd \<and> mate ! i = int (length slots0) then r\<lparr>resPab := Some (slots0 ! i)\<rparr>
      else if mate ! i > int i then r\<lparr>resPairs := resPairs r @ [(slots0 ! i, slots0 ! nat (mate ! i))]\<rparr> else r) = Inr (Some res)"
      using Cons.prems(1) by (auto simp: Let_def split: if_splits)
    show "resultPlayers (if mate ! i = -1 then r\<lparr>floaters := floaters r @ [slots0 ! i]\<rparr>
      else if wd \<and> mate ! i = int (length slots0) then r\<lparr>resPab := Some (slots0 ! i)\<rparr>
      else if mate ! i > int i then r\<lparr>resPairs := resPairs r @ [(slots0 ! i, slots0 ! nat (mate ! i))]\<rparr> else r) \<subseteq> set slots0"
      using Cons.prems(1,3) i m by (auto simp: resultPlayers_def Let_def split: if_splits)
  qed (use Cons.prems(2) in auto)
qed simp

lemma pairBracket_players:
  assumes "pairBracket mwm xs c s isLast wd = Inr (Some res)"
  shows "resultPlayers res \<subseteq> set xs"
  using assms
proof (cases rule: pairBracket_cases)
  case (straight zs)
  then have "zs = zip (take (length xs div 2) xs) (drop (length xs div 2) xs)"
    using straightLoop_Some by (auto simp: tryStraightCandidate_def Let_def)
  moreover have "fst p \<in> set xs \<and> snd p \<in> set xs" if "p \<in> set (zip (take k xs) (drop k xs))" for p k
    using that by (metis in_set_dropD in_set_takeD in_set_zipE prod.collapse)
  ultimately show ?thesis using straight(4) by (auto simp: resultPlayers_def pairPlayers_def)
next
  case matching
  then obtain mate where "readMate xs mate isLast wd [0..<length xs] \<lparr>resPairs = [], floaters = [], resPab = None\<rparr> = Inr (Some res)"
    by (auto simp: matchBracket_def Let_def split: option.splits if_splits)
  then show ?thesis by (rule readMate_players) (auto simp: resultPlayers_def)
qed (simp add: resultPlayers_def)

lemma attemptLoop_players:
  "attemptLoop mwm s needPab carry pairs pab gs = Inr (Some (ps', pab')) \<Longrightarrow>
   set (pairPlayers ps') \<union> set (pabList pab') \<subseteq> set carry \<union> set (concat gs) \<union> set (pairPlayers pairs) \<union> set (pabList pab)"
proof (induction gs arbitrary: carry pairs pab)
  case (Cons g gs)
  obtain res where res: "pairBracket mwm (carry @ g) (length carry) s (gs = []) (gs = [] \<and> needPab) = Inr (Some res)"
    and rest: "attemptLoop mwm s needPab (floaters res) (pairs @ resPairs res)
        (case resPab res of None \<Rightarrow> pab | Some p \<Rightarrow> Some p) gs = Inr (Some (ps', pab'))"
    using Cons.prems by (auto simp: Let_def split: option.splits)
  have "resultPlayers res \<subseteq> set carry \<union> set g" using pairBracket_players[OF res] by simp
  moreover have "set (pabList (case resPab res of None \<Rightarrow> pab | Some p \<Rightarrow> Some p)) \<subseteq> set (pabList pab) \<union> set (pabList (resPab res))"
    by (cases "resPab res") auto
  moreover have "set (concat (g # gs)) = set g \<union> set (concat gs)" by simp
  ultimately show ?case
    using Cons.IH[OF rest] unfolding resultPlayers_def pairPlayers_simps set_append by blast
qed auto

lemma cascade_players:
  "mergeCascade mwm s needPab rid n merged groups = Inr out \<Longrightarrow>
   set (pairPlayers (outPairs out)) \<union> set (pabList (outPab out)) \<subseteq> set (concat groups)"
proof (induction "length groups" arbitrary: groups merged rule: less_induct)
  case less
  show ?case
  proof (cases "attempt mwm groups s needPab")
    case (Inr o')
    show ?thesis
    proof (cases o')
      case (Some r)
      then show ?thesis
        using less.prems Inr attemptLoop_players[of mwm s needPab "[]" "[]" None groups]
        by (cases r) (auto simp: mergeCascade.simps[of _ _ _ _ _ _ groups] attempt_def)
    next
      case None
      then obtain gs where gs: "mergeLastTwo groups = Inr gs" "mergeCascade mwm s needPab rid n (merged + 1) gs = Inr out"
        using less.prems Inr by (auto simp: mergeCascade.simps[of _ _ _ _ _ _ groups] split: if_splits)
      then show ?thesis using less.hyps[of gs] mergeLastTwo_shorter mergeLastTwo_concat by metis
    qed
  qed (use less.prems in \<open>simp add: mergeCascade.simps[of _ _ _ _ _ _ groups]\<close>)
qed

lemma swiss_coverage:
  assumes wf: "wellFormedRequest req" and r: "swissPair mwm req = Inr res"
  shows "mset (participants res) = mset (map playerId (activePlayers req))"
proof -
  have "mset (map playerId (activeSorted req)) = mset (map playerId (activePlayers req))"
    by (simp add: activeSorted_mset)
  moreover have "distinct (map playerId (activePlayers req))"
    using wf by (simp add: wellFormedRequest_def activePlayers_def distinct_map_filter_subset)
  ultimately have d: "distinct (map pid (swissRoster req))"
    unfolding roster_ids using mset_eq_imp_distinct_iff by blast
  obtain outcome :: BracketsOutcome and colored where c: "absoluteCriteria (swissRoster req) colored (outPab outcome)"
    "pairings res = numberBoards 1 colored" "byes res = pabBye (outPab outcome)"
    using swissPair_InrD[OF r] by blast
  have "mset (participants res) = mset (map pid (swissRoster req))"
    using criteria_cover[OF c(1) d] by (simp only: participants_def c participants_roundIds)
  then show ?thesis unfolding roster_ids by (simp add: activeSorted_mset)
qed

lemma swiss_pairs_in_roster:
  assumes "swissPair mwm req = Inr res" "b \<in> set (pairings res)"
  obtains cp where "whitePlayerId b = pid (white cp)" "blackPlayerId b = pid (black cp)" "meetsC1 cp" "meetsC3 cp"
    "pstate (white cp) \<in> set (players req)" "pstate (black cp) \<in> set (players req)"
proof -
  obtain outcome colored where o': "pairAllBrackets mwm (swissRoster req) (weightScheme (schemeParams (swissRoster req) (roundNumber req) (initialOf req)))
       (length (swissRoster req) mod 2 = 1) (roundId req) = Inr outcome"
    and col: "colored = jsSort byBoard (map (colorPair (initialOf req)) (outPairs outcome))"
    and c: "absoluteCriteria (swissRoster req) colored (outPab outcome)"
    and ps: "pairings res = numberBoards 1 colored"
    using swissPair_InrD[OF assms(1)] by blast
  obtain cp where cp: "cp \<in> set colored" "whitePlayerId b = pid (white cp)" "blackPlayerId b = pid (black cp)"
    using numberBoards_member[OF assms(2)[unfolded ps]] by auto
  then obtain hl where hl: "hl \<in> set (outPairs outcome)" "cp = colorPair (initialOf req) hl" using col by auto
  then have "{white cp, black cp} = {fst hl, snd hl}" using colorPair_ids by simp
  moreover have "fst hl \<in> set (swissRoster req)" "snd hl \<in> set (swissRoster req)"
    using cascade_players[OF o'[unfolded pairAllBrackets_def]] hl(1) by (auto simp: pairPlayers_def)
  ultimately have "white cp \<in> set (swissRoster req)" "black cp \<in> set (swissRoster req)" by (auto simp: doubleton_eq_iff)
  moreover have "pstate p \<in> set (players req)" if "p \<in> set (swissRoster req)" for p
  proof -
    have "pstate p \<in> set (map pstate (swissRoster req))" using that by simp
    then have "pstate p \<in> set (activeSorted req)" by (simp only: swissRoster_def prepareSwissPlayers_facts(1))
    then show ?thesis by (simp add: activeSorted_def)
  qed
  moreover have "meetsC1 cp" "meetsC3 cp" using c cp(1) by (auto simp: absoluteCriteria_def list_all_iff)
  ultimately show ?thesis using cp(2,3) that by blast
qed

lemma same_id_same_player:
  "wellFormedRequest req \<Longrightarrow> x \<in> set (players req) \<Longrightarrow> y \<in> set (players req) \<Longrightarrow> playerId x = playerId y \<Longrightarrow> x = y"
  unfolding wellFormedRequest_def distinct_map inj_on_def by blast

interpretation swiss: pairing_port_c1 "swissPair mwm" for mwm
proof
  fix req res assume "wellFormedRequest req" "swissPair mwm req = Inr res"
  then show "mset (participants res) = mset (map playerId (activePlayers req))" by (rule swiss_coverage)
next
  fix r1 r2 assume "sameRequest r1 r2"
  note h = sameRequest_header[OF this]
  have "initialOf r2 = initialOf r1" by (simp add: initialOf_def h)
  moreover note blind = sorted_players_blind[OF h(5)]
  ultimately show "swissPair mwm r1 = swissPair mwm r2"
  proof (cases "firstRepeat {} (jsSort byScore (players r1))")
    case None
    then show ?thesis using blind(2) \<open>initialOf r2 = initialOf r1\<close> by (simp only: swissPair_def Let_def h(1-3))
  next
    case (Some k)
    then have "firstRepeat {} (jsSort byScore (players r2)) = Some k" using blind(1) by simp
    then show ?thesis using Some by (simp add: swissPair_def Let_def h(1-3))
  qed
next
  fix req res assume "swissPair mwm req = Inr res"
  then obtain colored where "pairings res = numberBoards 1 colored" by (blast dest: swissPair_InrD)
  moreover have "map (\<lambda>k. 1 + int k) [0..<n] = map int [1..<n + 1]" for n by (induction n) auto
  ultimately show "map boardNumber (pairings res) = map int [1..<length (pairings res) + 1]"
    by (simp only: numberBoards_facts(1,2))
next
  fix req res b x y assume wf: "wellFormedRequest req" and r: "swissPair mwm req = Inr res" and b: "b \<in> set (pairings res)"
    and x: "x \<in> set (players req)" "y \<in> set (players req)" "playerId x = whitePlayerId b" "playerId y = blackPlayerId b"
  obtain cp where cp: "whitePlayerId b = pid (white cp)" "blackPlayerId b = pid (black cp)" "meetsC1 cp"
    "pstate (white cp) \<in> set (players req)" "pstate (black cp) \<in> set (players req)"
    using swiss_pairs_in_roster[OF r b] by metis
  have "x = pstate (white cp)" "y = pstate (black cp)"
    using same_id_same_player[OF wf] cp x by simp_all
  then show "playerId y \<notin> opponentIds x \<and> playerId x \<notin> opponentIds y"
    using cp(3) by (simp add: meetsC1_def)
qed

section \<open>Rounds that leave the engine\<close>

definition bye_allowed :: "PairingRequest \<Rightarrow> PairingResult \<Rightarrow> bool" where
  "bye_allowed req res \<longleftrightarrow> length (byes res) \<le> 1 \<and>
     (\<forall>b \<in> set (byes res). \<forall>x \<in> set (players req). playerId x = byePlayerId b \<longrightarrow> \<not> hasReceivedBye x)"

definition topscorer :: "PairingRequest \<Rightarrow> PlayerPairingState \<Rightarrow> bool" where
  "topscorer req x \<longleftrightarrow> roundNumber req = totalRounds req \<and> roundX2 (points x) > roundNumber req - 1"

text \<open>A board respects C1 and the colour limits of C3.\<close>

definition board_allowed :: "PairingRequest \<Rightarrow> Pairing \<Rightarrow> bool" where
  "board_allowed req b \<longleftrightarrow>
     (\<forall>x \<in> set (players req). \<forall>y \<in> set (players req).
        playerId x = whitePlayerId b \<longrightarrow> playerId y = blackPlayerId b \<longrightarrow>
        playerId y \<notin> opponentIds x \<and> playerId x \<notin> opponentIds y \<and>
        (topscorer req x \<or> topscorer req y \<or>
         (\<not> exceedsLimit (colorHistory x) White \<and> \<not> thirdInARow (colorHistory x) White \<and>
          \<not> exceedsLimit (colorHistory y) Black \<and> \<not> thirdInARow (colorHistory y) Black)))"

lemma roster_member:
  "p \<in> set (swissRoster req) \<Longrightarrow>
   pstate p \<in> set (activeSorted req) \<and> honestPlayer p \<and> isTopscorer p = topscorer req (pstate p) \<and>
   pabEligible p = (\<not> hasReceivedBye (pstate p)) \<and> 0 \<le> unplayedCount p"
proof -
  have "p \<in> set (prepareLoop rn tot k sts) \<Longrightarrow>
      (\<exists>j. p = swissPlayer rn tot j (pstate p)) \<and> pstate p \<in> set sts" for rn tot k sts
    by (induction rn tot k sts rule: prepareLoop.induct) (auto simp: swissPlayer_def)
  moreover assume "p \<in> set (swissRoster req)"
  ultimately obtain j where "p = swissPlayer (roundNumber req) (totalRounds req) j (pstate p)" "pstate p \<in> set (activeSorted req)"
    unfolding swissRoster_def prepareSwissPlayers_def by blast
  moreover have "pstate (swissPlayer rn tot j st) = st" "honestPlayer (swissPlayer rn tot j st)"
    "isTopscorer (swissPlayer (roundNumber req) (totalRounds req) j st) = topscorer req st"
    "pabEligible (swissPlayer rn tot j st) = (\<not> hasReceivedBye st)" "0 \<le> unplayedCount (swissPlayer rn tot j st)" for rn tot st
    by (simp_all add: swissPlayer_def honestPlayer_def topscorer_def)
  ultimately show ?thesis by metis
qed

lemma swiss_outcome_players:
  assumes "pairAllBrackets mwm (swissRoster req) s np rid = Inr outcome"
    "c \<in> set (map (colorPair i) (outPairs outcome))"
  shows "white c \<in> set (swissRoster req)" "black c \<in> set (swissRoster req)"
proof -
  obtain hl where hl: "hl \<in> set (outPairs outcome)" "c = colorPair i hl" using assms(2) by auto
  have "fst hl \<in> set (swissRoster req)" "snd hl \<in> set (swissRoster req)"
    using cascade_players[OF assms(1)[unfolded pairAllBrackets_def]] hl(1) by (auto simp: pairPlayers_def)
  then show "white c \<in> set (swissRoster req)" "black c \<in> set (swissRoster req)"
    using colorPair_ids[of i hl] hl(2) by (auto simp: doubleton_eq_iff)
qed

lemma withinLimits_history:
  "honestPlayer p \<Longrightarrow> withinLimits p c \<longleftrightarrow>
     \<not> exceedsLimit (colorHistory (pstate p)) c \<and> \<not> thirdInARow (colorHistory (pstate p)) c"
  by (auto simp: withinLimits_def honestPlayer_def colorOutcomeFlags_def Let_def exceedsLimit_def thirdInARow_def)

lemma swiss_boards_allowed:
  assumes wf: "wellFormedRequest req" and r: "swissPair mwm req = Inr res"
  shows "list_all (board_allowed req) (pairings res)" "bye_allowed req res"
proof -
  obtain outcome colored where
    o': "pairAllBrackets mwm (swissRoster req) (weightScheme (schemeParams (swissRoster req) (roundNumber req) (initialOf req)))
       (length (swissRoster req) mod 2 = 1) (roundId req) = Inr outcome"
    and col: "colored = jsSort byBoard (map (colorPair (initialOf req)) (outPairs outcome))"
    and c: "absoluteCriteria (swissRoster req) colored (outPab outcome)"
    and ps: "pairings res = numberBoards 1 colored" "byes res = pabBye (outPab outcome)"
    using swissPair_InrD[OF r] by blast
  have in_players: "pstate p \<in> set (players req)" if "p \<in> set (swissRoster req)" for p
    using roster_member[OF that] by (simp add: activeSorted_def)
  show "list_all (board_allowed req) (pairings res)"
    unfolding list_all_iff
  proof
    fix b assume "b \<in> set (pairings res)"
    then obtain cp where cp: "cp \<in> set colored" "whitePlayerId b = pid (white cp)" "blackPlayerId b = pid (black cp)"
      using numberBoards_member ps(1) by metis
    have "cp \<in> set (map (colorPair (initialOf req)) (outPairs outcome))" using cp(1) col by simp
    note w = swiss_outcome_players[OF o' this]
    have ok: "meetsC1 cp" "meetsC3 cp" using c cp(1) by (auto simp: absoluteCriteria_def list_all_iff)
    show "board_allowed req b"
      unfolding board_allowed_def
    proof (intro ballI impI)
      fix x y assume "x \<in> set (players req)" "y \<in> set (players req)" "playerId x = whitePlayerId b" "playerId y = blackPlayerId b"
      then have "x = pstate (white cp)" "y = pstate (black cp)"
        using same_id_same_player[OF wf] in_players[OF w(1)] in_players[OF w(2)] cp by simp_all
      then show "playerId y \<notin> opponentIds x \<and> playerId x \<notin> opponentIds y \<and>
        (topscorer req x \<or> topscorer req y \<or>
         (\<not> exceedsLimit (colorHistory x) White \<and> \<not> thirdInARow (colorHistory x) White \<and>
          \<not> exceedsLimit (colorHistory y) Black \<and> \<not> thirdInARow (colorHistory y) Black))"
        using ok roster_member[OF w(1)] roster_member[OF w(2)]
          withinLimits_history[of "white cp" White] withinLimits_history[of "black cp" Black]
        by (auto simp: meetsC1_def meetsC3_def)
    qed
  qed
  show "bye_allowed req res"
  proof (cases "outPab outcome")
    case (Some p)
    have p: "p \<in> set (swissRoster req)"
      using cascade_players[OF o'[unfolded pairAllBrackets_def]] Some by simp
    have "pabEligible p" using c Some by (simp add: absoluteCriteria_def)
    then show ?thesis
      using Some ps(2) roster_member[OF p] same_id_same_player[OF wf _ in_players[OF p]]
      by (auto simp: bye_allowed_def pabBye_def)
  qed (simp add: bye_allowed_def ps(2) pabBye_def)
qed

text \<open>
  C2. Safety of every Swiss round, whatever the matching routine does: each active player appears
  exactly once and nobody else does; boards are numbered from one; no board repeats an earlier
  meeting (C1) or, unless a topscorer sits at it, breaks a colour limit (C3); at most one bye is
  given, to a player who has not had one (C2); and the roster order does not matter.
\<close>

theorem swiss_round_safe:
  assumes "wellFormedRequest req" "sameRequest req req'" "swissPair mwm req = Inr res"
  shows "distinct (participants res) \<and> set (participants res) = playerId ` set (activePlayers req) \<and>
    map boardNumber (pairings res) = map int [1..<length (pairings res) + 1] \<and>
    list_all (board_allowed req) (pairings res) \<and> bye_allowed req res \<and> swissPair mwm req' = Inr res"
  using swiss.active_exactly_once[OF assms(1,3)] swiss.boards[OF assms(3)] swiss.order_blind[OF assms(2), of mwm]
    swiss_boards_allowed[OF assms(1,3)] assms(3) by simp

end
