(* ===== verification/SwissFinds.thy ===== *)
theory SwissFinds
  imports SwissEngine
begin

text \<open>
  The Swiss engine with a maximum-weight matching routine: a round is returned exactly when a
  complete legal pairing exists, the verification never rejects it, and the only error is the
  documented impossibility. A brute-force routine shows that the contract of the matching
  routine can be met, and serves the concrete instances.
\<close>

section \<open>Requests of a running tournament\<close>

text \<open>
  The states \<^verbatim>\<open>pairing-state.builder.ts\<close> builds: distinct players and numbers, meetings recorded
  on both sides, and active players whose colour histories respect the limits so far.
\<close>

definition readyRequest :: "PairingRequest \<Rightarrow> bool" where
  "readyRequest req \<longleftrightarrow> 1 \<le> roundNumber req \<and> roundNumber req \<le> totalRounds req \<and>
     wellFormedRequest req \<and> distinct (map pairingNumber (players req)) \<and> activePlayers req \<noteq> [] \<and>
     (\<forall>x \<in> set (players req). \<forall>y \<in> set (players req). playerId y \<in> opponentIds x \<longleftrightarrow> playerId x \<in> opponentIds y) \<and>
     (\<forall>x \<in> set (activePlayers req). legalHistory (colorHistory x))"

definition legalRoundExists :: "PairingRequest \<Rightarrow> bool" where
  "legalRoundExists req \<longleftrightarrow> (\<exists>P pab. completePairing (swissRoster req) (length (swissRoster req) mod 2 = 1) P pab)"

lemma ready_roster:
  assumes "readyRequest req"
  shows "distinct (map pid (swissRoster req))" "swissRoster req \<noteq> []" "mutualOpponents (swissRoster req)"
    "\<forall>p \<in> set (swissRoster req). legalHistory (colorHistory (pstate p))" "distinct (map prank (swissRoster req))"
proof -
  have wf: "wellFormedRequest req" using assms by (simp add: readyRequest_def)
  have "mset (map playerId (activeSorted req)) = mset (map playerId (activePlayers req))"
    by (simp add: activeSorted_mset)
  moreover have "distinct (map playerId (activePlayers req))"
    using wf by (simp add: wellFormedRequest_def activePlayers_def distinct_map_filter_subset)
  ultimately show "distinct (map pid (swissRoster req))"
    unfolding roster_ids using mset_eq_imp_distinct_iff by blast
  have "length (swissRoster req) = length (activePlayers req)"
    using activeSorted_mset[of req] by (simp add: swissRoster_def) (metis size_mset)
  then show "swissRoster req \<noteq> []" using assms by (auto simp: readyRequest_def)
  have mem: "pstate p \<in> set (activePlayers req)" if "p \<in> set (swissRoster req)" for p
    using roster_member[OF that] activeSorted_mset[of req] by (metis set_mset_mset)
  then show "\<forall>p \<in> set (swissRoster req). legalHistory (colorHistory (pstate p))"
    using assms by (auto simp: readyRequest_def)
  have "pstate p \<in> set (players req)" if "p \<in> set (swissRoster req)" for p
    using mem[OF that] by (simp add: activePlayers_def)
  then show "mutualOpponents (swissRoster req)"
    using assms unfolding mutualOpponents_def readyRequest_def by blast
  show "distinct (map prank (swissRoster req))" by (simp add: swissRoster_def)
qed

lemma scheme_sane:
  assumes "readyRequest req"
  shows "saneParams (schemeParams (swissRoster req) (roundNumber req) (initialOf req))"
    "saneRoster (schemeParams (swissRoster req) (roundNumber req) (initialOf req)) (swissRoster req)"
proof -
  note ne = ready_roster(2)[OF assms]
  have "Min (scoreX2 ` set (swissRoster req)) \<le> Max (scoreX2 ` set (swissRoster req))"
  proof -
    have "scoreX2 (hd (swissRoster req)) \<in> scoreX2 ` set (swissRoster req)" using ne by simp
    then show ?thesis by (intro order_trans[OF Min_le Max_ge]) auto
  qed
  moreover have "1 \<le> length (swissRoster req)" using ne by (cases "swissRoster req") auto
  ultimately show "saneParams (schemeParams (swissRoster req) (roundNumber req) (initialOf req))"
    using assms by (simp add: saneParams_def schemeParams_def readyRequest_def)
  show "saneRoster (schemeParams (swissRoster req) (roundNumber req) (initialOf req)) (swissRoster req)"
    using roster_member by (auto simp: saneRoster_def schemeParams_def)
qed

text \<open>A complete pairing of the roster, coloured and ordered, satisfies the absolute criteria.\<close>

lemma complete_is_accepted:
  assumes ready: "readyRequest req" and c: "completePairing (swissRoster req) np P pab"
  shows "absoluteCriteria (swissRoster req) (jsSort byBoard (map (colorPair i) P)) pab"
proof -
  let ?R = "swissRoster req" and ?C = "jsSort byBoard (map (colorPair i) P)"
  note R = ready_roster[OF ready]
  have m: "mset (pairPlayers P @ pabList pab) = mset ?R" using c by (simp add: completePairing_def)
  have dR: "distinct ?R" using R(1) by (simp add: distinct_map)
  have dP: "distinct (pairPlayers P @ pabList pab)" using mset_eq_imp_distinct_iff[OF m] dR by simp
  have sP: "set (pairPlayers P @ pabList pab) = set ?R" using m by (metis set_mset_mset)
  have "mset (concat (map (\<lambda>c. [pid (white c), pid (black c)]) ?C)) =
      mset (concat (map (\<lambda>c. [pid (white c), pid (black c)]) (map (colorPair i) P)))"
    unfolding mset_pairwise by (simp add: multiset.map_comp comp_def)
  also have "\<dots> = mset (map pid (pairPlayers P))"
    by (induction P) (auto simp: colorPair_def)
  finally have ids: "mset (roundIds ?C pab) = mset (map pid ?R)"
    using m by (cases pab) (simp_all add: roundIds_def flip: m)
  have pair: "meetsC1 (colorPair i p) \<and> meetsC3 (colorPair i p)" if "p \<in> set P" for p
  proof -
    have both: "canMeet (fst p) (snd p)" "canMeet (snd p) (fst p)"
      using c that by (auto simp: completePairing_def list_all_iff)
    obtain as bs where "P = as @ p # bs" using split_list[OF \<open>p \<in> set P\<close>] by auto
    then have p: "fst p \<in> set ?R" "snd p \<in> set ?R" "fst p \<noteq> snd p" using sP dP by auto
    then have "prank (fst p) \<noteq> prank (snd p)" using R(5) by (auto simp: distinct_map dest: inj_onD)
    moreover have "honestPlayer (fst p)" "honestPlayer (snd p)" using roster_member p by auto
    ultimately have "meetsC3 (colorPair i (fst p, snd p))"
      using colorPair_meetsC3[of "fst p" "snd p" i] both(1) R(4) p by simp
    moreover have "meetsC1 (colorPair i (fst p, snd p))"
      using colorPair_meetsC1[OF both(1)] R(3) p by (simp add: mutualOpponents_def)
    ultimately show ?thesis by simp
  qed
  have "distinct (roundIds ?C pab)" using mset_eq_imp_distinct_iff[OF ids] R(1) by blast
  moreover have "length (roundIds ?C pab) = length ?R" using ids by (metis length_map size_mset)
  moreover have "set (map pid ?R) \<subseteq> set (roundIds ?C pab)" using ids by (metis order_refl set_mset_mset)
  moreover have "case pab of None \<Rightarrow> True | Some p \<Rightarrow> pabEligible p"
    using c by (simp add: completePairing_def pabOK_def)
  ultimately show ?thesis using pair by (auto simp: absoluteCriteria_def list_all_iff)
qed

lemma swiss_decides:
  assumes mwm: "returnsMaximumWeightMatching mwm" and ready: "readyRequest req"
  shows "if legalRoundExists req then \<exists>res. swissPair mwm req = Inr res
    else swissPair mwm req = Inl (PairingImpossibleError (roundId req) (NoCompletePairing (length (activePlayers req))))"
proof -
  let ?R = "swissRoster req" and ?ps = "schemeParams (swissRoster req) (roundNumber req) (initialOf req)"
  let ?np = "length (swissRoster req) mod 2 = 1"
  note R = ready_roster[OF ready] and S = scheme_sane[OF ready]
  have dR: "distinct ?R" using R(1) by (simp add: distinct_map)
  have num: "firstRepeat {} (jsSort byScore (players req)) = None"
    using ready by (simp add: firstRepeat_None readyRequest_def sort_facts)
  have len: "length ?R = length (activePlayers req)"
    using activeSorted_mset[of req] by (simp add: swissRoster_def) (metis size_mset)
  have ne: "length (filter (\<lambda>p. isActive p (roundNumber req)) (jsSort byScore (players req))) \<noteq> 0"
    using R(2) len by (simp add: swissRoster_def flip: activeSorted_def) (auto simp: prepareSwissPlayers_def)
  have unf: "swissPair mwm req = bindE (pairAllBrackets mwm ?R (weightScheme ?ps) ?np (roundId req)) (\<lambda>outcome.
      bindE (verifyAbsoluteCriteria (roundId req) ?R (jsSort byBoard (map (colorPair (initialOf req)) (outPairs outcome))) (outPab outcome)) (\<lambda>_.
      Inr \<lparr>pairings = numberBoards 1 (jsSort byBoard (map (colorPair (initialOf req)) (outPairs outcome))), byes = pabBye (outPab outcome),
           engineVersion = swissVersion,
           diagnostics = Some (buildDiagnostics ?R (jsSort byBoard (map (colorPair (initialOf req)) (outPairs outcome))) (outPab outcome) (initialOf req))\<rparr>))"
    using ready num ne unfolding swissPair_def Let_def readyRequest_def
    by (simp add: swissRoster_def activeSorted_def)
  note dec = brackets_complete[OF mwm S dR R(3,2), of ?np "roundId req"]
  show ?thesis
  proof (cases "legalRoundExists req")
    case True
    then obtain out where o': "pairAllBrackets mwm ?R (weightScheme ?ps) ?np (roundId req) = Inr out"
      and c: "completePairing ?R ?np (outPairs out) (outPab out)"
      using dec unfolding legalRoundExists_def by auto
    have "verifyAbsoluteCriteria (roundId req) ?R (jsSort byBoard (map (colorPair (initialOf req)) (outPairs out))) (outPab out) = Inr ()"
      unfolding verify_iff by (rule complete_is_accepted[OF ready c])
    then show ?thesis using True o' by (simp add: unf)
  next
    case False
    then show ?thesis using dec len unfolding legalRoundExists_def by (simp add: unf)
  qed
qed

text \<open>
  C1. The Swiss engine decides the round of a legal request: one whose round lies within the tournament, whose players
  have different identifiers and pairing numbers and record their opponents on both sides, and whose active players, at
  least one, have colour histories within the limits (difference at most two at any time, no colour three times in a
  row). For such a request, and any routine that returns maximum-weight matchings, it returns a round exactly when some
  complete pairing respects C1, C2 and C3, and otherwise reports that the round is impossible;
  the integrity check after the brackets does not fire. A running tournament can leave these requests: a played game
  corrected to a forfeit loses its colour (\<open>corrected_forfeits_stop_the_engine\<close>).
\<close>

theorem swiss_finds_round:
  assumes "returnsMaximumWeightMatching mwm" "readyRequest req"
  shows "if legalRoundExists req then \<exists>res. swissPair mwm req = Inr res
    else swissPair mwm req = Inl (PairingImpossibleError (roundId req) (NoCompletePairing (length (activePlayers req))))"
  using assms by (rule swiss_decides)

section \<open>A routine that meets the contract\<close>

fun subMatchings :: "WeightedEdge list \<Rightarrow> WeightedEdge list list" where
  "subMatchings [] = [[]]"
| "subMatchings (e # es) =
     (let rest = subMatchings es
      in rest @ map (Cons e) (filter (\<lambda>M. fst e \<notin> set (endpoints (ends M)) \<and> fst (snd e) \<notin> set (endpoints (ends M))
           \<and> fst e \<noteq> fst (snd e)) rest))"

fun heaviest :: "WeightedEdge list \<Rightarrow> WeightedEdge list list \<Rightarrow> WeightedEdge list" where
  "heaviest best [] = best"
| "heaviest best (M # Ms) = heaviest (if sumWeights best < sumWeights M then M else best) Ms"

fun partner :: "WeightedEdge list \<Rightarrow> nat \<Rightarrow> int" where
  "partner [] v = -1"
| "partner ((a, b, w) # M) v = (if a = v then int b else if b = v then int a else partner M v)"

definition bruteMatcher :: Matcher where
  "bruteMatcher n es = Inr (map (partner (heaviest [] (subMatchings es))) [0..<n])"

lemma ends_Cons [simp]: "ends (e # M) = (fst e, fst (snd e)) # ends M" "ends [] = []"
  by (simp_all add: ends_def case_prod_beta)

lemma subMatchings_sound: "M \<in> set (subMatchings es) \<Longrightarrow> set M \<subseteq> set es \<and> distinct (endpoints (ends M))"
proof (induction es arbitrary: M)
  case (Cons e es)
  consider "M \<in> set (subMatchings es)"
    | N where "N \<in> set (subMatchings es)" "M = e # N" "fst e \<notin> set (endpoints (ends N))"
        "fst (snd e) \<notin> set (endpoints (ends N))" "fst e \<noteq> fst (snd e)"
    using Cons.prems by (auto simp: Let_def)
  then show ?case
  proof cases
    case (2 N)
    then show ?thesis using Cons.IH[OF 2(1)] by auto
  qed (use Cons.IH in auto)
qed simp

lemma heaviest_in: "heaviest best Ms \<in> insert best (set Ms)"
  by (induction best Ms rule: heaviest.induct) auto

lemma heaviest_max: "M \<in> insert best (set Ms) \<Longrightarrow> sumWeights M \<le> sumWeights (heaviest best Ms)"
proof (induction best Ms arbitrary: M rule: heaviest.induct)
  case (2 best N Ms)
  let ?b = "if sumWeights best < sumWeights N then N else best"
  show ?case
  proof (cases "M \<in> set Ms")
    case False
    then have "sumWeights M \<le> sumWeights ?b" using "2.prems" by auto
    also have "\<dots> \<le> sumWeights (heaviest ?b Ms)" by (rule "2.IH") simp
    finally show ?thesis by simp
  qed (simp add: "2.IH")
qed simp

lemma endpoints_perm: "mset X = mset Y \<Longrightarrow> mset (endpoints (ends X)) = mset (endpoints (ends Y))"
  unfolding endpoints_def ends_def map_map comp_def mset_pairwise by simp

lemma sumWeights_perm: "mset X = mset Y \<Longrightarrow> sumWeights X = sumWeights Y"
  unfolding sumWeights_def by (metis mset_map sum_mset_sum_list)

text \<open>Every matching of the graph is listed, in the order of the edges.\<close>

lemma subMatchings_complete:
  "distinct es \<Longrightarrow> distinct (endpoints (ends (filter P es))) \<Longrightarrow> filter P es \<in> set (subMatchings es)"
proof (induction es)
  case (Cons e es)
  have d: "distinct (endpoints (ends (filter P es)))" using Cons.prems(2) by (cases "P e") auto
  have IH: "filter P es \<in> set (subMatchings es)" using Cons.IH Cons.prems(1) d by simp
  show ?case
  proof (cases "P e")
    case True
    then show ?thesis using IH Cons.prems(2) by (auto simp: Let_def)
  qed (use IH in \<open>simp add: Let_def\<close>)
qed simp

lemma in_endpoints: "(a, b, w) \<in> set M \<Longrightarrow> a \<in> set (endpoints (ends M)) \<and> b \<in> set (endpoints (ends M))"
  by (induction M) auto

lemma matching_distinct: "distinct (endpoints (ends M)) \<Longrightarrow> distinct M"
proof (induction M)
  case (Cons e M)
  obtain a b w where "e = (a, b, w)" by (cases e)
  then show ?case using Cons in_endpoints[of a b w M] by auto
qed simp

lemma partner_sound:
  "distinct (endpoints (ends M)) \<Longrightarrow> (a, b, w) \<in> set M \<Longrightarrow> partner M a = int b \<and> partner M b = int a"
proof (induction M)
  case (Cons e M)
  obtain c d x where e: "e = (c, d, x)" by (cases e)
  show ?case
  proof (cases "(a, b, w) \<in> set M")
    case True
    then show ?thesis using Cons e in_endpoints[OF True] by auto
  qed (use Cons.prems e in auto)
qed simp

lemma partner_only:
  "partner M v = -1 \<or> (\<exists>u w. ((v, u, w) \<in> set M \<or> (u, v, w) \<in> set M) \<and> partner M v = int u)"
  by (induction M v rule: partner.induct) auto

lemma edge_unique:
  assumes "wellFormedEdges n es" "(u, v, w) \<in> set es" "(u, v, w') \<in> set es"
  shows "w = w'"
  using assms unfolding wellFormedEdges_def distinct_map inj_on_def by force

lemma bruteMatcher_matching:
  assumes wf: "wellFormedEdges n es" and best: "set best \<subseteq> set es" "distinct (endpoints (ends best))"
  shows "mateOK n es (map (partner best) [0..<n])"
    and "sumWeights (mateEdges es (map (partner best) [0..<n])) = sumWeights best"
proof -
  let ?mate = "map (partner best) [0..<n]"
  have edge: "u < v \<and> v < n" if "(u, v, w) \<in> set best" for u v w
    using that best(1) wf by (fastforce simp: wellFormedEdges_def)
  show "mateOK n es ?mate"
    unfolding mateOK_def
  proof (intro conjI allI impI)
    fix v assume v: "v < n"
    show "?mate ! v = -1 \<or> (\<exists>u<n. u \<noteq> v \<and> ?mate ! v = int u \<and> ?mate ! u = int v \<and> isEdge es v u)"
    proof (cases "partner best v = -1")
      case False
      then obtain u w where u: "(v, u, w) \<in> set best \<or> (u, v, w) \<in> set best" "partner best v = int u"
        using partner_only[of best v] by auto
      then have "u < n" "u \<noteq> v" using edge by fastforce+
      moreover have "partner best u = int v" using u(1) partner_sound[OF best(2)] by blast
      moreover have "isEdge es v u" using u(1) best(1) by (auto simp: isEdge_def)
      ultimately show ?thesis using u(2) v by auto
    qed (use v in simp)
  qed simp
  have "set (mateEdges es ?mate) = set best"
  proof (rule set_eqI, rule iffI)
    fix e assume e: "e \<in> set best"
    obtain u v w where uvw: "e = (u, v, w)" by (cases e)
    then show "e \<in> set (mateEdges es ?mate)"
      using e best edge[of u v w] partner_sound[OF best(2), of u v w] by (auto simp: mateEdges_def)
  next
    fix e assume "e \<in> set (mateEdges es ?mate)"
    then obtain u v w where e: "e = (u, v, w)" "(u, v, w) \<in> set es" "?mate ! u = int v"
      by (auto simp: mateEdges_def)
    then have uv: "u < v" "v < n" using wf by (auto simp: wellFormedEdges_def)
    then have "partner best u = int v" using e(3) by simp
    then obtain w' where w': "(u, v, w') \<in> set best \<or> (v, u, w') \<in> set best"
      using partner_only[of best u] by auto
    then have "(u, v, w') \<in> set best" using edge uv(1) by fastforce
    then show "e \<in> set best" using edge_unique[OF wf e(2)] best(1) e(1) by blast
  qed
  moreover have "distinct (mateEdges es ?mate)"
    using wf by (auto simp: mateEdges_def wellFormedEdges_def distinct_map)
  ultimately have "mset (mateEdges es ?mate) = mset best"
    using matching_distinct[OF best(2)] set_eq_iff_mset_eq_distinct by blast
  then show "sumWeights (mateEdges es ?mate) = sumWeights best" by (rule sumWeights_perm)
qed

lemma bruteMatcher_contract: "returnsMaximumWeightMatching bruteMatcher"
  unfolding returnsMaximumWeightMatching_def returnsMatching_def
proof (intro conjI allI impI)
  fix n es assume wf: "wellFormedEdges n es"
  let ?best = "heaviest [] (subMatchings es)"
  have "?best \<in> insert [] (set (subMatchings es))" by (rule heaviest_in)
  then have best: "set ?best \<subseteq> set es" "distinct (endpoints (ends ?best))"
    using subMatchings_sound by fastforce+
  note ok = bruteMatcher_matching[OF wf best]
  show "\<exists>mate. bruteMatcher n es = Inr mate \<and> mateOK n es mate"
    using ok(1) by (simp add: bruteMatcher_def)
  fix mate M assume mate: "bruteMatcher n es = Inr mate" and M: "matchingIn es M"
  let ?F = "filter (\<lambda>e. e \<in> set M) es"
  have de: "distinct es" using wf by (simp add: wellFormedEdges_def distinct_map)
  have dM: "distinct M" using M matching_distinct by (simp add: matchingIn_def)
  have perm: "mset ?F = mset M"
    using de dM M by (intro set_eq_iff_mset_eq_distinct[THEN iffD1]) (auto simp: matchingIn_def)
  have "distinct (endpoints (ends M))" using M by (simp only: matchingIn_def)
  then have "distinct (endpoints (ends ?F))" using mset_eq_imp_distinct_iff[OF endpoints_perm[OF perm]] by blast
  then have "?F \<in> insert [] (set (subMatchings es))" using subMatchings_complete[OF de] by blast
  then have "sumWeights ?F \<le> sumWeights ?best" by (rule heaviest_max)
  then show "sumWeights M \<le> sumWeights (mateEdges es mate)"
    using mate ok(2) sumWeights_perm[OF perm] unfolding bruteMatcher_def by (simp only: sum.inject)
qed

section \<open>Concrete instances\<close>

definition swissSample :: PairingRequest where
  "swissSample = \<lparr>roundId = ''r1'', roundNumber = 1, totalRounds = 3,
     players = [freshPlayer 2, freshPlayer 1], seed = None, initialColor = None\<rparr>"

lemma swissSample_ready: "readyRequest swissSample"
  by (simp add: readyRequest_def swissSample_def freshPlayer_def wellFormedRequest_def activePlayers_def isActive_def)

lemma swissSample_roster:
  "swissRoster swissSample = [swissPlayer 1 3 0 (freshPlayer 1), swissPlayer 1 3 1 (freshPlayer 2)]"
proof -
  have "jsSort byScore [freshPlayer 2, freshPlayer 1] = [freshPlayer 1, freshPlayer 2]"
    by (simp add: byScore_def freshPlayer_def Let_def)
  moreover have "isActive (freshPlayer n) 1" for n by (simp add: isActive_def freshPlayer_def)
  ultimately show ?thesis
    by (simp add: swissRoster_def activeSorted_def swissSample_def prepareSwissPlayers_def)
qed

lemma swissSample_legal: "legalRoundExists swissSample"
  unfolding legalRoundExists_def completePairing_def swissSample_roster
  by (rule exI[of _ "[(swissPlayer 1 3 0 (freshPlayer 1), swissPlayer 1 3 1 (freshPlayer 2))]"], rule exI[of _ None])
     (simp add: canMeet_def swissPlayer_def freshPlayer_def colorPreferenceOf_def pabOK_def)

theorem swiss_finds_round_witness: "\<exists>res. swissPair bruteMatcher swissSample = Inr res"
  using swiss_finds_round[OF bruteMatcher_contract swissSample_ready] swissSample_legal by simp

theorem swiss_round_safe_witness:
  "\<exists>res. swissPair bruteMatcher swissSample = Inr res \<and> distinct (participants res) \<and>
     set (participants res) = {''A'', ''B''} \<and> list_all (board_allowed swissSample) (pairings res)"
proof -
  obtain res where res: "swissPair bruteMatcher swissSample = Inr res"
    using swiss_decides[OF bruteMatcher_contract swissSample_ready] swissSample_legal by auto
  have wf: "wellFormedRequest swissSample" using swissSample_ready by (simp add: readyRequest_def)
  have "sameRequest swissSample swissSample" by (simp add: sameRequest_def)
  from swiss_round_safe[OF wf this res] have "distinct (participants res)"
    "set (participants res) = playerId ` set (activePlayers swissSample)"
    "list_all (board_allowed swissSample) (pairings res)" by simp_all
  moreover have "playerId ` set (activePlayers swissSample) = {''A'', ''B''}"
    by (simp add: activePlayers_def swissSample_def isActive_def freshPlayer_def)
       (auto simp: char_of_def bit_0)
  ultimately show ?thesis using res by auto
qed

end
