(* ===== verification/Tiebreak.thy ===== *)
theory Tiebreak
  imports Prelude "HOL-Library.List_Lexorder" "HOL-Library.Char_ord" "HOL-Library.Product_Lexorder"
begin

text \<open>
  \<^verbatim>\<open>src/core/tiebreak/tiebreak.types.ts\<close> and \<^verbatim>\<open>tiebreak.calculator.ts\<close>: the tie-break
  formulas and the standings order. Points are rationals, half and quarter points integers,
  the one fractional value (ARO) a rational; a \<^verbatim>\<open>Map\<close> is a map, the two loops of
  \<^verbatim>\<open>buildContext\<close> throw in the order the code checks. Strings are ordered by code unit.
  The order is shown to be the sort by one explicit key, whatever order the input has.
\<close>

section \<open>Types\<close>

datatype TieBreakKey =
  BUCHHOLZ | BUCHHOLZ_CUT1 | MEDIAN_BUCHHOLZ | SONNEBORN_BERGER | DIRECT_ENCOUNTER
  | CUMULATIVE | ARO | KOYA | WINS | BLACK_GAMES

definition TIE_BREAK_KEYS :: "TieBreakKey list" where
  "TIE_BREAK_KEYS = [BUCHHOLZ, BUCHHOLZ_CUT1, MEDIAN_BUCHHOLZ, SONNEBORN_BERGER, DIRECT_ENCOUNTER,
     CUMULATIVE, ARO, KOYA, WINS, BLACK_GAMES]"

datatype GameColor = WHITE | BLACK

text \<open>The union \<^verbatim>\<open>0 | 0.5 | 1\<close>.\<close>

datatype GameScore = Score0 | ScoreHalf | Score1

record GameRecord =
  gOpponentId :: "string option"
  gColor :: "GameColor option"
  gResult :: GameScore
  gPlayedOverBoard :: bool

record PlayerTieBreakInput =
  tbPlayerId :: string
  tbPoints :: rat
  tbRating :: "rat option"
  tbGames :: "GameRecord list"

type_synonym TieBreakResult = "TieBreakKey \<rightharpoonup> rat"

record TieBreakOptions =
  unratedRating :: "rat option"

text \<open>The three reasons of a \<^verbatim>\<open>TieBreakDataError\<close> and the rejected points.\<close>

datatype TieBreakDataError =
  NotHalfStep rat | DuplicatePlayer string | OverBoardWithoutOpponent string | UnknownOpponent string string

section \<open>Context and helpers\<close>

definition comparePlayerId :: "string \<Rightarrow> string \<Rightarrow> int" where
  "comparePlayerId a b = (if a < b then -1 else if a > b then 1 else 0)"

definition toHalfPoints :: "rat \<Rightarrow> TieBreakDataError + int" where
  "toHalfPoints pts =
     (let doubled = pts * 2; rounded = \<lfloor>doubled + 1 / 2\<rfloor>
      in if doubled \<noteq> of_int rounded then Inl (NotHalfStep pts) else Inr rounded)"

record TieBreakContext =
  ctxPlayers :: "PlayerTieBreakInput list"
  points2 :: "string \<rightharpoonup> int"
  byId :: "string \<rightharpoonup> PlayerTieBreakInput"
  totalRoundsTB :: nat

type_synonym InternalValues = "string \<rightharpoonup> rat option"

fun DISPLAY_DIVISOR :: "TieBreakKey \<Rightarrow> rat" where
  "DISPLAY_DIVISOR BUCHHOLZ = 2"
| "DISPLAY_DIVISOR BUCHHOLZ_CUT1 = 2"
| "DISPLAY_DIVISOR MEDIAN_BUCHHOLZ = 2"
| "DISPLAY_DIVISOR SONNEBORN_BERGER = 4"
| "DISPLAY_DIVISOR DIRECT_ENCOUNTER = 2"
| "DISPLAY_DIVISOR CUMULATIVE = 2"
| "DISPLAY_DIVISOR ARO = 1"
| "DISPLAY_DIVISOR KOYA = 2"
| "DISPLAY_DIVISOR WINS = 1"
| "DISPLAY_DIVISOR BLACK_GAMES = 1"

text \<open>First loop of \<^verbatim>\<open>buildContext\<close>: the two maps and the longest game list.\<close>

fun indexPlayers ::
  "PlayerTieBreakInput list \<Rightarrow> (string \<rightharpoonup> PlayerTieBreakInput) \<Rightarrow> (string \<rightharpoonup> int) \<Rightarrow> nat
   \<Rightarrow> TieBreakDataError + (string \<rightharpoonup> PlayerTieBreakInput) \<times> (string \<rightharpoonup> int) \<times> nat" where
  "indexPlayers [] ids pts n = Inr (ids, pts, n)"
| "indexPlayers (p # ps) ids pts n =
     (if ids (tbPlayerId p) \<noteq> None then Inl (DuplicatePlayer (tbPlayerId p))
      else bindE (toHalfPoints (tbPoints p)) (\<lambda>h.
        indexPlayers ps (ids(tbPlayerId p \<mapsto> p)) (pts(tbPlayerId p \<mapsto> h))
          (if length (tbGames p) > n then length (tbGames p) else n)))"

definition checkGame ::
  "(string \<rightharpoonup> PlayerTieBreakInput) \<Rightarrow> string \<Rightarrow> GameRecord \<Rightarrow> TieBreakDataError + unit" where
  "checkGame ids who g =
     (if gPlayedOverBoard g \<and> gOpponentId g = None then Inl (OverBoardWithoutOpponent who)
      else case gOpponentId g of
        None \<Rightarrow> Inr ()
      | Some opp \<Rightarrow> if ids opp = None then Inl (UnknownOpponent who opp) else Inr ())"

definition buildContext :: "PlayerTieBreakInput list \<Rightarrow> TieBreakDataError + TieBreakContext" where
  "buildContext ps =
     bindE (indexPlayers ps Map.empty Map.empty 0) (\<lambda>(ids, pts, n).
     bindE (forE (\<lambda>p. forE (checkGame ids (tbPlayerId p)) (tbGames p)) ps) (\<lambda>_.
     Inr \<lparr>ctxPlayers = ps, points2 = pts, byId = ids, totalRoundsTB = n\<rparr>))"

definition mapPlayers :: "TieBreakContext \<Rightarrow> (PlayerTieBreakInput \<Rightarrow> rat) \<Rightarrow> InternalValues" where
  "mapPlayers ctx fn = foldl (\<lambda>out p. out(tbPlayerId p \<mapsto> Some (fn p))) Map.empty (ctxPlayers ctx)"

fun dedupeLoop :: "TieBreakKey set \<Rightarrow> TieBreakKey list \<Rightarrow> TieBreakKey list" where
  "dedupeLoop seen [] = []"
| "dedupeLoop seen (k # ks) =
     (if k \<notin> seen then k # dedupeLoop (insert k seen) ks else dedupeLoop seen ks)"

definition dedupe :: "TieBreakKey list \<Rightarrow> TieBreakKey list" where
  "dedupe order = dedupeLoop {} order"

definition sumTB :: "int list \<Rightarrow> int" where
  "sumTB values = foldl (+) 0 values"

fun result2 :: "GameRecord \<Rightarrow> int" where
  "result2 g = (case gResult g of Score0 \<Rightarrow> 0 | ScoreHalf \<Rightarrow> 1 | Score1 \<Rightarrow> 2)"

definition opponentPoints2 :: "string \<Rightarrow> TieBreakContext \<Rightarrow> int" where
  "opponentPoints2 opp ctx = (case points2 ctx opp of Some h \<Rightarrow> h | None \<Rightarrow> 0)"

section \<open>The formulas\<close>

subsection \<open>Buchholz, Cut-1, Median\<close>

fun buchholzLoop :: "TieBreakContext \<Rightarrow> nat \<Rightarrow> int \<Rightarrow> GameRecord list \<Rightarrow> int list" where
  "buchholzLoop ctx i before2 [] = []"
| "buchholzLoop ctx i before2 (g # gs) =
     (case (gPlayedOverBoard g, gOpponentId g) of
        (True, Some opp) \<Rightarrow> opponentPoints2 opp ctx
      | _ \<Rightarrow> before2 + (2 - result2 g) + (int (totalRoundsTB ctx) - int (i + 1)))
     # buchholzLoop ctx (Suc i) (before2 + result2 g) gs"

definition buchholzContributions2 :: "PlayerTieBreakInput \<Rightarrow> TieBreakContext \<Rightarrow> int list" where
  "buchholzContributions2 p ctx = buchholzLoop ctx 0 0 (tbGames p)"

definition buchholzCut :: "int list \<Rightarrow> nat \<Rightarrow> nat \<Rightarrow> int" where
  "buchholzCut contributions2 cutLow cutHigh =
     (if length contributions2 \<le> cutLow + cutHigh then 0
      else let sorted = jsSort (\<lambda>a b. a - b) contributions2
           in foldl (\<lambda>total i. total + sorted ! i) 0 [cutLow..<length sorted - cutHigh])"

subsection \<open>Sonneborn-Berger\<close>

definition sonnebornBerger4 :: "PlayerTieBreakInput \<Rightarrow> TieBreakContext \<Rightarrow> int" where
  "sonnebornBerger4 p ctx =
     foldl (\<lambda>total4 g. case (gPlayedOverBoard g, gOpponentId g) of
              (True, Some opp) \<Rightarrow> total4 + opponentPoints2 opp ctx * result2 g
            | _ \<Rightarrow> total4) 0 (tbGames p)"

subsection \<open>Direct encounter\<close>

text \<open>Groups of equal points, in insertion order of the \<^verbatim>\<open>Map\<close>.\<close>

fun addToGroup ::
  "int \<Rightarrow> PlayerTieBreakInput \<Rightarrow> (int \<times> PlayerTieBreakInput list) list
   \<Rightarrow> (int \<times> PlayerTieBreakInput list) list" where
  "addToGroup k p [] = [(k, [p])]"
| "addToGroup k p ((k', g) # gs) =
     (if k' = k then (k', g @ [p]) # gs else (k', g) # addToGroup k p gs)"

definition pointGroups :: "TieBreakContext \<Rightarrow> (int \<times> PlayerTieBreakInput list) list" where
  "pointGroups ctx =
     foldl (\<lambda>groups p. addToGroup (opponentPoints2 (tbPlayerId p) ctx) p groups) [] (ctxPlayers ctx)"

text \<open>The games that count in the mini-tournament of the members.\<close>

definition countsInGroup :: "string \<Rightarrow> string set \<Rightarrow> GameRecord \<Rightarrow> bool" where
  "countsInGroup me memberIds g =
     (case gOpponentId g of
        None \<Rightarrow> False
      | Some opp \<Rightarrow> gPlayedOverBoard g \<and> opp \<noteq> me \<and> opp \<in> memberIds)"

fun metLoop :: "string \<Rightarrow> string set \<Rightarrow> GameRecord list \<Rightarrow> string set \<Rightarrow> int \<Rightarrow> string set \<times> int" where
  "metLoop me memberIds [] met sum2 = (met, sum2)"
| "metLoop me memberIds (g # gs) met sum2 =
     (if countsInGroup me memberIds g
      then metLoop me memberIds gs (insert (the (gOpponentId g)) met) (sum2 + result2 g)
      else metLoop me memberIds gs met sum2)"

text \<open>The loop over the group with its \<^verbatim>\<open>break\<close>: \<^verbatim>\<open>complete\<close> and the scores set so far.\<close>

fun groupScores ::
  "string set \<Rightarrow> PlayerTieBreakInput list \<Rightarrow> (string \<rightharpoonup> int) \<Rightarrow> bool \<times> (string \<rightharpoonup> int)" where
  "groupScores memberIds [] scores = (True, scores)"
| "groupScores memberIds (p # ps) scores =
     (let (met, sum2) = metLoop (tbPlayerId p) memberIds (tbGames p) {} 0
      in if int (card met) < int (card memberIds) - 1 then (False, scores)
         else groupScores memberIds ps (scores(tbPlayerId p \<mapsto> sum2)))"

definition encounterOfGroup :: "InternalValues \<Rightarrow> PlayerTieBreakInput list \<Rightarrow> InternalValues" where
  "encounterOfGroup out grp =
     (let (complete, scores) = groupScores (set (map tbPlayerId grp)) grp Map.empty
      in foldl (\<lambda>out p. out(tbPlayerId p \<mapsto>
            (if complete
             then Some (case scores (tbPlayerId p) of Some s \<Rightarrow> of_int s | None \<Rightarrow> 0)
             else None))) out grp)"

definition directEncounter2 :: "TieBreakContext \<Rightarrow> InternalValues" where
  "directEncounter2 ctx = foldl encounterOfGroup Map.empty (map snd (pointGroups ctx))"

subsection \<open>Cumulative, Koya, ARO, wins, black games\<close>

fun cumulativeLoop :: "int \<Rightarrow> int \<Rightarrow> GameRecord list \<Rightarrow> int" where
  "cumulativeLoop running2 total2 [] = total2"
| "cumulativeLoop running2 total2 (g # gs) =
     cumulativeLoop (running2 + result2 g) (total2 + (running2 + result2 g)) gs"

definition cumulative2 :: "PlayerTieBreakInput \<Rightarrow> int" where
  "cumulative2 p = cumulativeLoop 0 0 (tbGames p)"

definition koya2 :: "PlayerTieBreakInput \<Rightarrow> TieBreakContext \<Rightarrow> int" where
  "koya2 p ctx =
     foldl (\<lambda>total2 g. case (gPlayedOverBoard g, gOpponentId g) of
              (True, Some opp) \<Rightarrow>
                if opponentPoints2 opp ctx \<ge> int (totalRoundsTB ctx) then total2 + result2 g else total2
            | _ \<Rightarrow> total2) 0 (tbGames p)"

definition winsTB :: "PlayerTieBreakInput \<Rightarrow> int" where
  "winsTB p =
     foldl (\<lambda>c g. if gResult g = Score1 \<and> gOpponentId g \<noteq> None then c + 1 else c) 0 (tbGames p)"

definition blackGames :: "PlayerTieBreakInput \<Rightarrow> int" where
  "blackGames p =
     foldl (\<lambda>c g. if gPlayedOverBoard g \<and> gColor g = Some BLACK then c + 1 else c) 0 (tbGames p)"

fun aroLoop :: "rat option \<Rightarrow> TieBreakContext \<Rightarrow> GameRecord list \<Rightarrow> rat \<Rightarrow> nat \<Rightarrow> rat \<times> nat" where
  "aroLoop unrated ctx [] ratingSum c = (ratingSum, c)"
| "aroLoop unrated ctx (g # gs) ratingSum c =
     (case (gPlayedOverBoard g, gOpponentId g) of
        (True, Some opp) \<Rightarrow>
          (case (case byId ctx opp of
                   Some o' \<Rightarrow> (case tbRating o' of Some r \<Rightarrow> Some r | None \<Rightarrow> unrated)
                 | None \<Rightarrow> unrated) of
             None \<Rightarrow> aroLoop unrated ctx gs ratingSum c
           | Some r \<Rightarrow> aroLoop unrated ctx gs (ratingSum + r) (Suc c))
      | _ \<Rightarrow> aroLoop unrated ctx gs ratingSum c)"

definition aro :: "TieBreakOptions \<Rightarrow> PlayerTieBreakInput \<Rightarrow> TieBreakContext \<Rightarrow> rat" where
  "aro opts p ctx =
     (let (ratingSum, c) = aroLoop (unratedRating opts) ctx (tbGames p) 0 0
      in if c = 0 then 0 else ratingSum / of_nat c)"

section \<open>The calculator\<close>

fun computeInternal :: "TieBreakOptions \<Rightarrow> TieBreakKey \<Rightarrow> TieBreakContext \<Rightarrow> InternalValues" where
  "computeInternal opts BUCHHOLZ ctx =
     mapPlayers ctx (\<lambda>p. of_int (sumTB (buchholzContributions2 p ctx)))"
| "computeInternal opts BUCHHOLZ_CUT1 ctx =
     mapPlayers ctx (\<lambda>p. of_int (buchholzCut (buchholzContributions2 p ctx) 1 0))"
| "computeInternal opts MEDIAN_BUCHHOLZ ctx =
     mapPlayers ctx (\<lambda>p. of_int (buchholzCut (buchholzContributions2 p ctx) 1 1))"
| "computeInternal opts SONNEBORN_BERGER ctx = mapPlayers ctx (\<lambda>p. of_int (sonnebornBerger4 p ctx))"
| "computeInternal opts DIRECT_ENCOUNTER ctx = directEncounter2 ctx"
| "computeInternal opts CUMULATIVE ctx = mapPlayers ctx (\<lambda>p. of_int (cumulative2 p))"
| "computeInternal opts ARO ctx = mapPlayers ctx (\<lambda>p. aro opts p ctx)"
| "computeInternal opts KOYA ctx = mapPlayers ctx (\<lambda>p. of_int (koya2 p ctx))"
| "computeInternal opts WINS ctx = mapPlayers ctx (\<lambda>p. of_int (winsTB p))"
| "computeInternal opts BLACK_GAMES ctx = mapPlayers ctx (\<lambda>p. of_int (blackGames p))"

text \<open>The inner loop of \<^verbatim>\<open>compute\<close>: one key's values, divided, into the players' records.\<close>

definition recordValue ::
  "TieBreakKey \<Rightarrow> InternalValues \<Rightarrow> (string \<rightharpoonup> TieBreakResult) \<Rightarrow> PlayerTieBreakInput
   \<Rightarrow> (string \<rightharpoonup> TieBreakResult)" where
  "recordValue key values result p =
     (case values (tbPlayerId p) of
        Some (Some raw) \<Rightarrow>
          (case result (tbPlayerId p) of
             Some rec \<Rightarrow> result(tbPlayerId p \<mapsto> rec(key \<mapsto> raw / DISPLAY_DIVISOR key))
           | None \<Rightarrow> result)
      | _ \<Rightarrow> result)"

definition computeTB ::
  "TieBreakOptions \<Rightarrow> PlayerTieBreakInput list \<Rightarrow> TieBreakKey list
   \<Rightarrow> TieBreakDataError + (string \<rightharpoonup> TieBreakResult)" where
  "computeTB opts ps order =
     bindE (buildContext ps) (\<lambda>ctx.
       let result = foldl (\<lambda>m p. m(tbPlayerId p \<mapsto> Map.empty)) Map.empty ps
       in Inr (foldl (\<lambda>m key. foldl (recordValue key (computeInternal opts key ctx)) m ps)
                 result (dedupe order)))"

text \<open>The comparator of \<^verbatim>\<open>rank\<close>. A sort looks at the sign of a comparator's value only.\<close>

definition signOf :: "rat \<Rightarrow> int" where
  "signOf d = (if d < 0 then -1 else if d > 0 then 1 else 0)"

fun compareByKeys ::
  "(TieBreakKey \<Rightarrow> string \<Rightarrow> rat option) \<Rightarrow> TieBreakKey list \<Rightarrow> string \<Rightarrow> string \<Rightarrow> int" where
  "compareByKeys valueOf [] a b = comparePlayerId a b"
| "compareByKeys valueOf (k # ks) a b =
     (case (valueOf k a, valueOf k b) of
        (Some va, Some vb) \<Rightarrow> if va \<noteq> vb then signOf (vb - va) else compareByKeys valueOf ks a b
      | _ \<Rightarrow> compareByKeys valueOf ks a b)"

definition rankCompare ::
  "(string \<Rightarrow> int) \<Rightarrow> (TieBreakKey \<Rightarrow> string \<Rightarrow> rat option) \<Rightarrow> TieBreakKey list
   \<Rightarrow> PlayerTieBreakInput \<Rightarrow> PlayerTieBreakInput \<Rightarrow> int" where
  "rankCompare pts valueOf keys a b =
     (let pa = pts (tbPlayerId a); pb = pts (tbPlayerId b)
      in if pa \<noteq> pb then pb - pa else compareByKeys valueOf keys (tbPlayerId a) (tbPlayerId b))"

text \<open>\<^verbatim>\<open>values.get(key)?.get(id) ?? null\<close>.\<close>

definition valueAt :: "TieBreakOptions \<Rightarrow> TieBreakContext \<Rightarrow> TieBreakKey \<Rightarrow> string \<Rightarrow> rat option" where
  "valueAt opts ctx key who = (case computeInternal opts key ctx who of Some v \<Rightarrow> v | None \<Rightarrow> None)"

definition rankTB ::
  "TieBreakOptions \<Rightarrow> PlayerTieBreakInput list \<Rightarrow> TieBreakKey list \<Rightarrow> TieBreakDataError + string list" where
  "rankTB opts ps order =
     bindE (buildContext ps) (\<lambda>ctx.
       Inr (map tbPlayerId
         (jsSort (rankCompare (\<lambda>i. opponentPoints2 i ctx) (valueAt opts ctx) (dedupe order)) ps)))"

section \<open>Maps filled by a loop\<close>

lemma foldl_upd_map_add:
  "foldl (\<lambda>m p. m(k p \<mapsto> v p)) m ps = m ++ map_of (rev (map (\<lambda>p. (k p, v p)) ps))"
proof (induction ps arbitrary: m)
  case (Cons q qs)
  have "m(k q \<mapsto> v q) ++ f = m ++ (Map.empty(k q \<mapsto> v q) ++ f)" for f
    by (rule ext) (auto simp: map_add_def split: option.splits)
  then show ?case
    unfolding foldl.simps Cons.IH list.map rev.simps map_of_append map_of.simps fst_conv snd_conv .
qed simp

lemma foldl_upd_outside:
  assumes "i \<notin> k ` set ps"
  shows "foldl (\<lambda>m p. m(k p \<mapsto> v p)) m ps i = m i"
proof -
  have "map_of (rev (map (\<lambda>p. (k p, v p)) ps)) i = None"
    using assms by (auto simp: map_of_eq_None_iff)
  then show ?thesis by (simp add: foldl_upd_map_add map_add_def)
qed

lemma foldl_upd_defined:
  assumes "i \<in> k ` set ps"
  shows "\<exists>p \<in> set ps. k p = i \<and> foldl (\<lambda>m p. m(k p \<mapsto> v p)) m ps i = Some (v p)"
proof -
  have "map_of (rev (map (\<lambda>p. (k p, v p)) ps)) i \<noteq> None"
    using assms by (auto simp: map_of_eq_None_iff image_image)
  then obtain y where y: "map_of (rev (map (\<lambda>p. (k p, v p)) ps)) i = Some y" by auto
  then have "(i, y) \<in> set (map (\<lambda>p. (k p, v p)) ps)" by (auto dest: map_of_SomeD)
  then show ?thesis using y by (auto simp: foldl_upd_map_add map_add_def)
qed

lemma foldl_upd_at:
  assumes "p \<in> set ps" "\<And>q. q \<in> set ps \<Longrightarrow> k q = k p \<Longrightarrow> v q = v p"
  shows "foldl (\<lambda>m p. m(k p \<mapsto> v p)) m ps (k p) = Some (v p)"
proof -
  have "k p \<in> k ` set ps" using assms(1) by simp
  from foldl_upd_defined[OF this, of v m] obtain q where
    "q \<in> set ps" "k q = k p" "foldl (\<lambda>m p. m(k p \<mapsto> v p)) m ps (k p) = Some (v q)"
    by blast
  then show ?thesis using assms(2) by simp
qed

lemma mapPlayers_at:
  assumes "distinct (map tbPlayerId (ctxPlayers ctx))" "p \<in> set (ctxPlayers ctx)"
  shows "mapPlayers ctx fn (tbPlayerId p) = Some (Some (fn p))"
  unfolding mapPlayers_def
  by (rule foldl_upd_at[OF assms(2)]) (use assms in \<open>auto simp: distinct_map inj_on_def\<close>)

lemma mapPlayers_applies:
  assumes "i \<in> set (map tbPlayerId (ctxPlayers ctx))"
  shows "\<exists>v. mapPlayers ctx fn i = Some (Some v)"
proof -
  have "i \<in> tbPlayerId ` set (ctxPlayers ctx)" using assms by simp
  from foldl_upd_defined[OF this, of "\<lambda>p. Some (fn p)" Map.empty]
  show ?thesis unfolding mapPlayers_def by blast
qed

section \<open>The context\<close>

text \<open>What \<open>buildContext\<close> accepts, and what it returns then.\<close>

definition inputOk :: "PlayerTieBreakInput list \<Rightarrow> bool" where
  "inputOk ps \<longleftrightarrow> distinct (map tbPlayerId ps) \<and> (\<forall>p \<in> set ps. of_int \<lfloor>tbPoints p * 2\<rfloor> = tbPoints p * 2) \<and>
     (\<forall>p \<in> set ps. \<forall>g \<in> set (tbGames p).
        (gPlayedOverBoard g \<longrightarrow> gOpponentId g \<noteq> None) \<and> set_option (gOpponentId g) \<subseteq> tbPlayerId ` set ps)"

definition contextOf :: "PlayerTieBreakInput list \<Rightarrow> TieBreakContext" where
  "contextOf ps = \<lparr>ctxPlayers = ps,
     points2 = map_of (map (\<lambda>p. (tbPlayerId p, \<lfloor>tbPoints p * 2\<rfloor>)) ps),
     byId = map_of (map (\<lambda>p. (tbPlayerId p, p)) ps),
     totalRoundsTB = foldr (\<lambda>p n. max (length (tbGames p)) n) ps 0\<rparr>"

lemma toHalfPoints_iff: "toHalfPoints x = Inr h \<longleftrightarrow> of_int h = x * 2"
proof -
  have fl: "\<lfloor>(of_int h :: rat) + 1 / 2\<rfloor> = h"
    by (rule floor_unique) auto
  show ?thesis
  proof
    assume "of_int h = x * 2"
    then have "\<lfloor>x * 2 + 1 / 2\<rfloor> = h" using fl by metis
    then show "toHalfPoints x = Inr h" using \<open>of_int h = x * 2\<close> by (simp add: toHalfPoints_def)
  qed (auto simp: toHalfPoints_def Let_def split: if_splits)
qed

lemma toHalfPoints_floor: "toHalfPoints x = Inr h \<longleftrightarrow> of_int \<lfloor>x * 2\<rfloor> = x * 2 \<and> h = \<lfloor>x * 2\<rfloor>"
  by (metis floor_of_int toHalfPoints_iff)

lemma foldr_max_acc:
  "foldr (\<lambda>p n. max (f p) n) ps (max a b) = max a (foldr (\<lambda>p n. max (f p) n) ps (b :: nat))"
  by (induction ps) (auto simp: max.left_commute)

lemma dom_by_id [simp]: "dom (map_of (map (\<lambda>p. (tbPlayerId p, f p)) ps)) = tbPlayerId ` set ps"
  by (auto simp: dom_map_of_conv_image_fst image_image)

lemma indexPlayers_eq:
  "indexPlayers ps ids pts n = Inr (ids', pts', n') \<longleftrightarrow>
     distinct (map tbPlayerId ps) \<and> tbPlayerId ` set ps \<inter> dom ids = {} \<and>
     (\<forall>p \<in> set ps. of_int \<lfloor>tbPoints p * 2\<rfloor> = tbPoints p * 2) \<and>
     ids' = ids ++ map_of (map (\<lambda>p. (tbPlayerId p, p)) ps) \<and>
     pts' = pts ++ map_of (map (\<lambda>p. (tbPlayerId p, \<lfloor>tbPoints p * 2\<rfloor>)) ps) \<and>
     n' = foldr (\<lambda>p n. max (length (tbGames p)) n) ps n"
proof (induction ps arbitrary: ids pts n)
  case Nil
  then show ?case by auto
next
  case (Cons p ps)
  let ?n = "if n < length (tbGames p) then length (tbGames p) else n"
  have mx: "foldr (\<lambda>p n. max (length (tbGames p)) n) ps ?n
      = max (length (tbGames p)) (foldr (\<lambda>p n. max (length (tbGames p)) n) ps n)"
    using foldr_max_acc[of "\<lambda>p. length (tbGames p)" ps "length (tbGames p)" n]
    by (simp add: max_def split: if_splits)
  have step: "indexPlayers (p # ps) ids pts n = Inr (ids', pts', n') \<longleftrightarrow>
      tbPlayerId p \<notin> dom ids \<and> of_int \<lfloor>tbPoints p * 2\<rfloor> = tbPoints p * 2 \<and>
      indexPlayers ps (ids(tbPlayerId p \<mapsto> p)) (pts(tbPlayerId p \<mapsto> \<lfloor>tbPoints p * 2\<rfloor>)) ?n = Inr (ids', pts', n')"
    by (auto simp: toHalfPoints_floor domIff)
  show ?case
  proof (cases "tbPlayerId p \<in> tbPlayerId ` set ps")
    case True
    then show ?thesis unfolding step Cons.IH mx by simp
  next
    case False
    then have u: "m ++ map_of (map (\<lambda>p. (tbPlayerId p, f p)) (p # ps))
        = m(tbPlayerId p \<mapsto> f p) ++ map_of (map (\<lambda>p. (tbPlayerId p, f p)) ps)"
      for m and f :: "PlayerTieBreakInput \<Rightarrow> 'x"
      by (subst map_add_upd_left) auto
    have d: "tbPlayerId ` set ps \<inter> dom (ids(tbPlayerId p \<mapsto> p)) = {} \<longleftrightarrow> tbPlayerId ` set ps \<inter> dom ids = {}"
      using False by auto
    show ?thesis unfolding step Cons.IH mx u d using False by simp blast
  qed
qed

lemma checkGame_ok_iff:
  "checkGame ids who g = Inr u \<longleftrightarrow>
     (gPlayedOverBoard g \<longrightarrow> gOpponentId g \<noteq> None) \<and> set_option (gOpponentId g) \<subseteq> dom ids"
  by (auto simp: checkGame_def split: option.splits)

lemma buildContext_iff: "buildContext ps = Inr ctx \<longleftrightarrow> inputOk ps \<and> ctx = contextOf ps"
  unfolding buildContext_def bindE_eq_Inr_iff split_paired_Ex split_conv indexPlayers_eq
    forE_eq_Inr_iff checkGame_ok_iff inputOk_def contextOf_def
  by auto

section \<open>Direct encounter\<close>

abbreviation pointsIn :: "TieBreakContext \<Rightarrow> PlayerTieBreakInput \<Rightarrow> int" where
  "pointsIn ctx p \<equiv> opponentPoints2 (tbPlayerId p) ctx"

lemma map_of_addToGroup:
  "map_of (addToGroup k p gs) = (map_of gs)(k \<mapsto> (case map_of gs k of None \<Rightarrow> [p] | Some g \<Rightarrow> g @ [p]))"
  by (induction gs) auto

lemma keys_addToGroup: "fst ` set (addToGroup k p gs) = insert k (fst ` set gs)"
  by (induction k p gs rule: addToGroup.induct) (simp_all add: insert_commute)

lemma distinct_addToGroup:
  "distinct (map fst gs) \<Longrightarrow> distinct (map fst (addToGroup k p gs))"
  by (induction k p gs rule: addToGroup.induct) (simp_all add: keys_addToGroup, blast)

lemma groups_of_foldl:
  "distinct (map fst (foldl (\<lambda>groups p. addToGroup (f p) p groups) [] ps)) \<and>
   map_of (foldl (\<lambda>groups p. addToGroup (f p) p groups) [] ps) =
     (\<lambda>k. if k \<in> f ` set ps then Some (filter (\<lambda>p. f p = k) ps) else None)"
proof (induction ps rule: rev_induct)
  case (snoc p ps)
  have "filter (\<lambda>q. f q = f p) ps = []" if "f p \<notin> f ` set ps"
    using that by (metis (mono_tags, lifting) filter_False imageI)
  then show ?case
    using snoc by (auto simp: distinct_addToGroup map_of_addToGroup fun_eq_iff)
qed simp

lemma pointGroups_iff:
  "(k, g) \<in> set (pointGroups ctx) \<longleftrightarrow>
     k \<in> pointsIn ctx ` set (ctxPlayers ctx) \<and> g = filter (\<lambda>p. pointsIn ctx p = k) (ctxPlayers ctx)"
proof -
  have d: "distinct (map fst (pointGroups ctx))"
    and m: "map_of (pointGroups ctx) = (\<lambda>k. if k \<in> pointsIn ctx ` set (ctxPlayers ctx)
      then Some (filter (\<lambda>p. pointsIn ctx p = k) (ctxPlayers ctx)) else None)"
    using groups_of_foldl[of "pointsIn ctx" "ctxPlayers ctx"] unfolding pointGroups_def by simp_all
  have "(k, g) \<in> set (pointGroups ctx) \<longleftrightarrow> map_of (pointGroups ctx) k = Some g"
    using d by simp
  then show ?thesis unfolding m by auto
qed

text \<open>The games of one player inside a group, and the value a complete group gives.\<close>

definition metInGroup :: "string set \<Rightarrow> PlayerTieBreakInput \<Rightarrow> string set" where
  "metInGroup ids p = {opp. \<exists>g \<in> set (tbGames p). countsInGroup (tbPlayerId p) ids g \<and> gOpponentId g = Some opp}"

definition scoreInGroup :: "string set \<Rightarrow> PlayerTieBreakInput \<Rightarrow> int" where
  "scoreInGroup ids p = (\<Sum>g \<leftarrow> filter (countsInGroup (tbPlayerId p) ids) (tbGames p). result2 g)"

lemma metLoop_eq:
  "metLoop me ids gs met s =
     (met \<union> {opp. \<exists>g \<in> set gs. countsInGroup me ids g \<and> gOpponentId g = Some opp},
      s + (\<Sum>g \<leftarrow> filter (countsInGroup me ids) gs. result2 g))"
proof (induction gs arbitrary: met s)
  case (Cons g gs)
  have "\<exists>opp. gOpponentId g = Some opp" if "countsInGroup me ids g"
    using that by (auto simp: countsInGroup_def split: option.splits)
  then show ?case unfolding metLoop.simps Cons.IH by (auto simp del: result2.simps)
qed simp

lemma groupScores_eq:
  "groupScores ids ps sc =
     (let complete = (\<forall>p \<in> set ps. \<not> int (card (metInGroup ids p)) < int (card ids) - 1)
      in (complete, if complete then foldl (\<lambda>m p. m(tbPlayerId p \<mapsto> scoreInGroup ids p)) sc ps
                    else snd (groupScores ids ps sc)))"
proof (induction ps arbitrary: sc)
  case (Cons p ps)
  then show ?case
    by (auto simp: metLoop_eq metInGroup_def scoreInGroup_def Let_def split: prod.splits)
qed simp

definition groupComplete :: "PlayerTieBreakInput list \<Rightarrow> bool" where
  "groupComplete grp \<longleftrightarrow>
     (\<forall>p \<in> set grp. \<not> int (card (metInGroup (tbPlayerId ` set grp) p)) < int (card (tbPlayerId ` set grp)) - 1)"

lemma encounter_other: "i \<notin> tbPlayerId ` set grp \<Longrightarrow> encounterOfGroup out grp i = out i"
  unfolding encounterOfGroup_def by (simp add: foldl_upd_outside split_def)

lemma encounter_member:
  assumes "p \<in> set grp" "\<And>q. q \<in> set grp \<Longrightarrow> tbPlayerId q = tbPlayerId p \<Longrightarrow> q = p"
  shows "encounterOfGroup out grp (tbPlayerId p) =
    Some (if groupComplete grp then Some (of_int (scoreInGroup (tbPlayerId ` set grp) p)) else None)"
proof -
  let ?gs = "groupScores (tbPlayerId ` set grp) grp Map.empty"
  have c: "fst ?gs = groupComplete grp"
    by (subst groupScores_eq) (simp add: groupComplete_def Let_def)
  have "encounterOfGroup out grp (tbPlayerId p) =
      Some (if fst ?gs then Some (case snd ?gs (tbPlayerId p) of Some s \<Rightarrow> of_int s | None \<Rightarrow> 0) else None)"
    unfolding encounterOfGroup_def split_def Let_def set_map
    by (rule foldl_upd_at[OF assms(1)]) simp
  moreover have "snd ?gs (tbPlayerId p) = Some (scoreInGroup (tbPlayerId ` set grp) p)"
    if "groupComplete grp"
  proof -
    have "snd ?gs = foldl (\<lambda>m q. m(tbPlayerId q \<mapsto> scoreInGroup (tbPlayerId ` set grp) q)) Map.empty grp"
      using that by (subst groupScores_eq) (simp add: groupComplete_def Let_def)
    moreover have "foldl (\<lambda>m q. m(tbPlayerId q \<mapsto> scoreInGroup (tbPlayerId ` set grp) q)) Map.empty grp
        (tbPlayerId p) = Some (scoreInGroup (tbPlayerId ` set grp) p)"
      by (rule foldl_upd_at[OF assms(1)]) (use assms(2) in blast)
    ultimately show ?thesis by simp
  qed
  ultimately show ?thesis using c by simp
qed

lemma encounter_applies:
  assumes "p \<in> set grp"
  shows "(\<exists>v. encounterOfGroup out grp (tbPlayerId p) = Some v \<and> (v = None \<longleftrightarrow> \<not> groupComplete grp))"
proof -
  let ?gs = "groupScores (tbPlayerId ` set grp) grp Map.empty"
  have c: "fst ?gs = groupComplete grp"
    by (subst groupScores_eq) (simp add: groupComplete_def Let_def)
  have "encounterOfGroup out grp (tbPlayerId p) =
      Some (if fst ?gs then Some (case snd ?gs (tbPlayerId p) of Some s \<Rightarrow> of_int s | None \<Rightarrow> 0) else None)"
    unfolding encounterOfGroup_def split_def Let_def set_map
    by (rule foldl_upd_at[OF assms]) simp
  then show ?thesis using c by simp
qed

lemma foldl_encounter_other:
  "(\<And>g. g \<in> set gs \<Longrightarrow> i \<notin> tbPlayerId ` set g) \<Longrightarrow> foldl encounterOfGroup out gs i = out i"
  by (induction gs arbitrary: out) (auto simp: encounter_other)

lemma foldl_encounter_at:
  assumes "distinct gs" "grp \<in> set gs" "\<And>g. g \<in> set gs \<Longrightarrow> i \<in> tbPlayerId ` set g \<Longrightarrow> g = grp"
  shows "\<exists>out'. foldl encounterOfGroup out gs i = encounterOfGroup out' grp i"
  using assms
proof (induction gs arbitrary: out)
  case (Cons g gs)
  show ?case
  proof (cases "g = grp")
    case True
    have "foldl encounterOfGroup (encounterOfGroup out grp) gs i = encounterOfGroup out grp i"
    proof (rule foldl_encounter_other)
      fix h assume h: "h \<in> set gs"
      then have "h \<noteq> grp" using Cons.prems(1) True by auto
      then show "i \<notin> tbPlayerId ` set h" using Cons.prems(3)[of h] h by auto
    qed
    then show ?thesis unfolding foldl.simps True by blast
  next
    case False
    then have "distinct gs" "grp \<in> set gs" using Cons.prems(1,2) by simp_all
    moreover have "h = grp" if "h \<in> set gs" "i \<in> tbPlayerId ` set h" for h
      using Cons.prems(3)[of h] that by simp
    ultimately show ?thesis unfolding foldl.simps by (rule Cons.IH)
  qed
qed simp

lemma directEncounter_group:
  assumes "p \<in> set (ctxPlayers ctx)"
  shows "\<exists>out. directEncounter2 ctx (tbPlayerId p)
    = encounterOfGroup out (filter (\<lambda>q. pointsIn ctx q = pointsIn ctx p) (ctxPlayers ctx)) (tbPlayerId p)"
proof -
  let ?g = "filter (\<lambda>q. pointsIn ctx q = pointsIn ctx p) (ctxPlayers ctx)"
  have in_g: "g = filter (\<lambda>q. pointsIn ctx q = k) (ctxPlayers ctx)" if "(k, g) \<in> set (pointGroups ctx)" for k g
    using that by (simp add: pointGroups_iff)
  have "distinct (map fst (pointGroups ctx))"
    using groups_of_foldl[of "pointsIn ctx" "ctxPlayers ctx"] unfolding pointGroups_def by simp
  moreover have "inj_on snd (set (pointGroups ctx))"
  proof (rule inj_onI)
    fix x y assume xy: "x \<in> set (pointGroups ctx)" "y \<in> set (pointGroups ctx)" "snd x = snd y"
    obtain k g where x: "x = (k, g)" by fastforce
    obtain k' where y: "y = (k', g)" using xy(3) x by (metis prod.collapse snd_conv)
    from xy(1) x obtain q where "q \<in> set (ctxPlayers ctx)" "pointsIn ctx q = k"
      by (auto simp: pointGroups_iff)
    then have "q \<in> set g" using xy(1) x by (simp add: pointGroups_iff)
    then have "pointsIn ctx q = k'" using xy(2) y by (simp add: pointGroups_iff)
    then show "x = y" using x y \<open>pointsIn ctx q = k\<close> by simp
  qed
  ultimately have "distinct (map snd (pointGroups ctx))"
    by (simp add: distinct_map)
  moreover have "?g \<in> set (map snd (pointGroups ctx))"
  proof -
    have "(pointsIn ctx p, ?g) \<in> set (pointGroups ctx)" using assms by (simp add: pointGroups_iff)
    then have "snd (pointsIn ctx p, ?g) \<in> snd ` set (pointGroups ctx)" by (rule imageI)
    then show ?thesis unfolding set_map snd_conv .
  qed
  moreover have "g = ?g" if "g \<in> set (map snd (pointGroups ctx))" "tbPlayerId p \<in> tbPlayerId ` set g" for g
    using that by (auto simp: pointGroups_iff)
  ultimately show ?thesis unfolding directEncounter2_def by (rule foldl_encounter_at) auto
qed

section \<open>Standings order\<close>

text \<open>
  What the comparator needs of the tie-break values: among players of equal points a key
  applies to all or to none. Skipping a key that does not apply is then harmless, and the
  comparator is a comparison of one key: points, the applicable values, the identifier.
\<close>

definition standingKey ::
  "(string \<Rightarrow> int) \<Rightarrow> (TieBreakKey \<Rightarrow> string \<Rightarrow> rat option) \<Rightarrow> TieBreakKey list \<Rightarrow> string
   \<Rightarrow> int \<times> rat list \<times> string" where
  "standingKey pts valueOf keys i =
     (- pts i, map uminus (List.map_filter (\<lambda>k. valueOf k i) keys), i)"

lemma comparePlayerId_le: "comparePlayerId a b \<le> 0 \<longleftrightarrow> a \<le> b"
  unfolding comparePlayerId_def by auto

lemma standingKey_inject: "standingKey pts valueOf keys i = standingKey pts valueOf keys j \<longleftrightarrow> i = j"
  unfolding standingKey_def by auto

lemma compareByKeys_le:
  assumes "\<And>k. k \<in> set keys \<Longrightarrow> (valueOf k a = None) = (valueOf k b = None)"
  shows "compareByKeys valueOf keys a b \<le> 0 \<longleftrightarrow>
    (map uminus (List.map_filter (\<lambda>k. valueOf k a) keys), a)
      \<le> (map uminus (List.map_filter (\<lambda>k. valueOf k b) keys), b)"
  using assms
proof (induction keys)
  case Nil
  then show ?case by (simp add: comparePlayerId_le map_filter_simps)
next
  case (Cons k ks)
  have "(valueOf k a = None) = (valueOf k b = None)" using Cons.prems by simp
  then consider "valueOf k a = None" "valueOf k b = None"
    | va vb where "valueOf k a = Some va" "valueOf k b = Some vb" by fastforce
  then show ?case
  proof cases
    case 1
    then have "compareByKeys valueOf (k # ks) a b = compareByKeys valueOf ks a b"
      "List.map_filter (\<lambda>k. valueOf k a) (k # ks) = List.map_filter (\<lambda>k. valueOf k a) ks"
      "List.map_filter (\<lambda>k. valueOf k b) (k # ks) = List.map_filter (\<lambda>k. valueOf k b) ks"
      by (simp_all add: map_filter_simps)
    then show ?thesis using Cons by simp
  next
    case 2
    then have v: "compareByKeys valueOf (k # ks) a b
        = (if va \<noteq> vb then signOf (vb - va) else compareByKeys valueOf ks a b)"
      "List.map_filter (\<lambda>k. valueOf k a) (k # ks) = va # List.map_filter (\<lambda>k. valueOf k a) ks"
      "List.map_filter (\<lambda>k. valueOf k b) (k # ks) = vb # List.map_filter (\<lambda>k. valueOf k b) ks"
      by (simp_all add: map_filter_simps)
    have "compareByKeys valueOf ks a b \<le> 0 \<longleftrightarrow>
        (map uminus (List.map_filter (\<lambda>k. valueOf k a) ks), a)
          \<le> (map uminus (List.map_filter (\<lambda>k. valueOf k b) ks), b)"
      using Cons by simp
    then show ?thesis unfolding v by (auto simp: signOf_def)
  qed
qed

locale tie_break_values =
  fixes pool :: "string set"
    and pts :: "string \<Rightarrow> int"
    and valueOf :: "TieBreakKey \<Rightarrow> string \<Rightarrow> rat option"
  assumes same_group:
    "a \<in> pool \<Longrightarrow> b \<in> pool \<Longrightarrow> pts a = pts b \<Longrightarrow> (valueOf k a = None) = (valueOf k b = None)"
begin

lemma rankCompare_le:
  assumes "tbPlayerId a \<in> pool" "tbPlayerId b \<in> pool"
  shows "rankCompare pts valueOf keys a b \<le> 0 \<longleftrightarrow>
    standingKey pts valueOf keys (tbPlayerId a) \<le> standingKey pts valueOf keys (tbPlayerId b)"
proof (cases "pts (tbPlayerId a) = pts (tbPlayerId b)")
  case True
  then have "compareByKeys valueOf keys (tbPlayerId a) (tbPlayerId b) \<le> 0 \<longleftrightarrow>
      (map uminus (List.map_filter (\<lambda>k. valueOf k (tbPlayerId a)) keys), tbPlayerId a)
      \<le> (map uminus (List.map_filter (\<lambda>k. valueOf k (tbPlayerId b)) keys), tbPlayerId b)"
    using same_group[OF assms] by (intro compareByKeys_le) simp
  then show ?thesis using True by (simp add: rankCompare_def standingKey_def)
next
  case False
  then show ?thesis by (auto simp: rankCompare_def standingKey_def)
qed

lemma sort_by_key:
  assumes "tbPlayerId ` set ps \<subseteq> pool"
  shows "jsSort (rankCompare pts valueOf keys) ps
    = sort_key (\<lambda>p. standingKey pts valueOf keys (tbPlayerId p)) ps"
proof -
  let ?f = "\<lambda>p. standingKey pts valueOf keys (tbPlayerId p)"
  have ins: "jsInsert (rankCompare pts valueOf keys) p qs = insort_key ?f p qs"
    if "tbPlayerId p \<in> pool" "tbPlayerId ` set qs \<subseteq> pool" for p qs
    using that by (induction qs) (auto simp: rankCompare_le)
  show ?thesis using assms
  proof (induction ps)
    case (Cons p ps)
    then show ?case by (simp add: ins)
  qed simp
qed

end

text \<open>The value a key gives a player; only the direct encounter is not of this shape.\<close>

fun ownValue :: "TieBreakOptions \<Rightarrow> TieBreakKey \<Rightarrow> PlayerTieBreakInput \<Rightarrow> TieBreakContext \<Rightarrow> rat" where
  "ownValue opts BUCHHOLZ p ctx = of_int (sumTB (buchholzContributions2 p ctx))"
| "ownValue opts BUCHHOLZ_CUT1 p ctx = of_int (buchholzCut (buchholzContributions2 p ctx) 1 0)"
| "ownValue opts MEDIAN_BUCHHOLZ p ctx = of_int (buchholzCut (buchholzContributions2 p ctx) 1 1)"
| "ownValue opts SONNEBORN_BERGER p ctx = of_int (sonnebornBerger4 p ctx)"
| "ownValue opts DIRECT_ENCOUNTER p ctx = 0"
| "ownValue opts CUMULATIVE p ctx = of_int (cumulative2 p)"
| "ownValue opts ARO p ctx = aro opts p ctx"
| "ownValue opts KOYA p ctx = of_int (koya2 p ctx)"
| "ownValue opts WINS p ctx = of_int (winsTB p)"
| "ownValue opts BLACK_GAMES p ctx = of_int (blackGames p)"

lemma computeInternal_own:
  "k \<noteq> DIRECT_ENCOUNTER \<Longrightarrow> computeInternal opts k ctx = mapPlayers ctx (\<lambda>p. ownValue opts k p ctx)"
  by (cases k) simp_all

lemma valueAt_same_group:
  assumes "a \<in> set (map tbPlayerId (ctxPlayers ctx))" "b \<in> set (map tbPlayerId (ctxPlayers ctx))"
    and "opponentPoints2 a ctx = opponentPoints2 b ctx"
  shows "(valueAt opts ctx k a = None) = (valueAt opts ctx k b = None)"
proof (cases "k = DIRECT_ENCOUNTER")
  case False
  have "\<exists>v. valueAt opts ctx k i = Some v" if "i \<in> set (map tbPlayerId (ctxPlayers ctx))" for i
    using mapPlayers_applies[OF that, of "\<lambda>p. ownValue opts k p ctx"]
    by (auto simp: valueAt_def computeInternal_own[OF False])
  then show ?thesis using assms(1,2) by (metis option.distinct(1))
next
  case True
  obtain p q where p: "p \<in> set (ctxPlayers ctx)" "a = tbPlayerId p"
    and q: "q \<in> set (ctxPlayers ctx)" "b = tbPlayerId q" using assms(1,2) by auto
  let ?g = "filter (\<lambda>q. pointsIn ctx q = pointsIn ctx p) (ctxPlayers ctx)"
  have "(valueAt opts ctx DIRECT_ENCOUNTER (tbPlayerId r) = None) = (\<not> groupComplete ?g)"
    if "r \<in> set ?g" for r
  proof -
    have "r \<in> set (ctxPlayers ctx)" "pointsIn ctx r = pointsIn ctx p" using that by auto
    from directEncounter_group[OF this(1)] this(2) obtain out where
      "directEncounter2 ctx (tbPlayerId r) = encounterOfGroup out ?g (tbPlayerId r)" by auto
    then show ?thesis using encounter_applies[OF that, of out] by (auto simp: valueAt_def)
  qed
  from this[of p] this[of q] show ?thesis using p q assms(3) True by simp
qed

interpretation standings:
  tie_break_values "set (map tbPlayerId (ctxPlayers ctx))" "\<lambda>i. opponentPoints2 i ctx" "valueAt opts ctx"
  for ctx opts
  by unfold_locales (rule valueAt_same_group)

lemma rankTB_sort:
  "buildContext ps = Inr ctx \<Longrightarrow>
   rankTB opts ps order = Inr (map tbPlayerId
     (sort_key (\<lambda>p. standingKey (\<lambda>i. opponentPoints2 i ctx) (valueAt opts ctx) (dedupe order) (tbPlayerId p)) ps))"
  by (simp add: rankTB_def buildContext_iff contextOf_def standings.sort_by_key)

lemma ctx_update_simps [simp]:
  "opponentPoints2 i (ctx\<lparr>ctxPlayers := ps\<rparr>) = opponentPoints2 i ctx"
  "buchholzContributions2 p (ctx\<lparr>ctxPlayers := ps\<rparr>) = buchholzContributions2 p ctx"
  "sonnebornBerger4 p (ctx\<lparr>ctxPlayers := ps\<rparr>) = sonnebornBerger4 p ctx"
  "koya2 p (ctx\<lparr>ctxPlayers := ps\<rparr>) = koya2 p ctx"
  "aro opts p (ctx\<lparr>ctxPlayers := ps\<rparr>) = aro opts p ctx"
proof -
  show o: "opponentPoints2 i (ctx\<lparr>ctxPlayers := ps\<rparr>) = opponentPoints2 i ctx" for i
    by (simp add: opponentPoints2_def)
  have "buchholzLoop (ctx\<lparr>ctxPlayers := ps\<rparr>) i b gs = buchholzLoop ctx i b gs" for i b gs
    by (induction gs arbitrary: i b) (simp_all add: o del: result2.simps split: option.splits bool.splits)
  then show "buchholzContributions2 p (ctx\<lparr>ctxPlayers := ps\<rparr>) = buchholzContributions2 p ctx"
    by (simp add: buchholzContributions2_def)
  show "sonnebornBerger4 p (ctx\<lparr>ctxPlayers := ps\<rparr>) = sonnebornBerger4 p ctx"
    and "koya2 p (ctx\<lparr>ctxPlayers := ps\<rparr>) = koya2 p ctx"
    by (simp_all add: sonnebornBerger4_def koya2_def o cong: option.case_cong bool.case_cong)
  have "aroLoop u (ctx\<lparr>ctxPlayers := ps\<rparr>) gs r c = aroLoop u ctx gs r c" for u gs r c
    by (induction gs arbitrary: r c) (simp_all cong: option.case_cong bool.case_cong)
  then show "aro opts p (ctx\<lparr>ctxPlayers := ps\<rparr>) = aro opts p ctx"
    by (simp add: aro_def)
qed

lemma ownValue_update [simp]: "ownValue opts k p (ctx\<lparr>ctxPlayers := ps\<rparr>) = ownValue opts k p ctx"
  by (cases k) simp_all

lemma contextOf_perm:
  assumes "inputOk ps" "mset ps' = mset ps"
  shows "inputOk ps' \<and> contextOf ps' = (contextOf ps)\<lparr>ctxPlayers := ps'\<rparr>"
proof -
  have s: "set ps' = set ps" using assms(2) by (metis set_mset_mset)
  have m: "mset (map tbPlayerId ps') = mset (map tbPlayerId ps)" using assms(2) by simp
  have d: "distinct (map tbPlayerId ps')"
    using mset_eq_imp_distinct_iff[OF m] assms(1) by (simp add: inputOk_def)
  have mo: "map_of (map (\<lambda>p. (tbPlayerId p, f p)) ps') = map_of (map (\<lambda>p. (tbPlayerId p, f p)) ps)"
    for f :: "PlayerTieBreakInput \<Rightarrow> 'x"
  proof (subst map_of_inject_set)
    show "distinct (map fst (map (\<lambda>p. (tbPlayerId p, f p)) ps'))" using d by (simp add: comp_def)
    show "distinct (map fst (map (\<lambda>p. (tbPlayerId p, f p)) ps))"
      using assms(1) by (simp add: inputOk_def comp_def)
  qed (simp add: s)
  have mx: "foldr (\<lambda>p n. max (length (tbGames p)) n) ps' 0 = foldr (\<lambda>p n. max (length (tbGames p)) n) ps 0"
  proof -
    have "foldr (\<lambda>p n. max (length (tbGames p)) n) qs (0 :: nat) = Max (insert 0 ((\<lambda>p. length (tbGames p)) ` set qs))"
      for qs
    proof (induction qs)
      case (Cons q qs)
      have "insert 0 ((\<lambda>p. length (tbGames p)) ` set (q # qs))
          = insert (length (tbGames q)) (insert 0 ((\<lambda>p. length (tbGames p)) ` set qs))" by auto
      then show ?case using Cons by (simp del: insert_iff)
    qed simp
    from this[of ps'] this[of ps] show ?thesis unfolding s by simp
  qed
  have "inputOk ps'" using assms(1) d unfolding inputOk_def s by simp
  then show ?thesis unfolding contextOf_def by (simp add: mo mx)
qed

lemma valueAt_own:
  assumes "inputOk ps" "p \<in> set ps" "k \<noteq> DIRECT_ENCOUNTER"
  shows "valueAt opts (contextOf ps) k (tbPlayerId p) = Some (ownValue opts k p (contextOf ps))"
proof -
  have "distinct (map tbPlayerId (ctxPlayers (contextOf ps)))" "p \<in> set (ctxPlayers (contextOf ps))"
    using assms(1,2) by (simp_all add: inputOk_def contextOf_def)
  then show ?thesis by (simp add: valueAt_def computeInternal_own[OF assms(3)] mapPlayers_at)
qed

lemma inputOk_inj: "inputOk ps \<Longrightarrow> p \<in> set ps \<Longrightarrow> q \<in> set ps \<Longrightarrow> tbPlayerId p = tbPlayerId q \<Longrightarrow> p = q"
  by (auto simp: inputOk_def distinct_map inj_on_def)

lemma pointsIn_contextOf:
  assumes "inputOk ps" "p \<in> set ps"
  shows "of_int (opponentPoints2 (tbPlayerId p) (contextOf ps)) = tbPoints p * 2"
proof -
  have "map_of (map (\<lambda>p. (tbPlayerId p, \<lfloor>tbPoints p * 2\<rfloor>)) ps) (tbPlayerId p) = Some \<lfloor>tbPoints p * 2\<rfloor>"
    using assms by (intro map_of_is_SomeI) (auto simp: inputOk_def comp_def)
  then show ?thesis using assms by (simp add: opponentPoints2_def contextOf_def inputOk_def)
qed

lemma valueAt_direct:
  assumes "inputOk ps" "p \<in> set ps"
  shows "valueAt opts (contextOf ps) DIRECT_ENCOUNTER (tbPlayerId p) =
    (let grp = filter (\<lambda>q. tbPoints q = tbPoints p) ps
     in if groupComplete grp then Some (of_int (scoreInGroup (tbPlayerId ` set grp) p)) else None)"
proof -
  have "pointsIn (contextOf ps) q = pointsIn (contextOf ps) p \<longleftrightarrow> tbPoints q = tbPoints p" if "q \<in> set ps" for q
  proof -
    have "(of_int (pointsIn (contextOf ps) q) :: rat) = of_int (pointsIn (contextOf ps) p) \<longleftrightarrow> tbPoints q = tbPoints p"
      by (simp add: pointsIn_contextOf[OF assms(1)] that assms(2))
    then show ?thesis by simp
  qed
  then have g: "filter (\<lambda>q. pointsIn (contextOf ps) q = pointsIn (contextOf ps) p) (ctxPlayers (contextOf ps))
      = filter (\<lambda>q. tbPoints q = tbPoints p) ps"
    by (simp add: contextOf_def cong: filter_cong)
  have "p \<in> set (ctxPlayers (contextOf ps))" using assms(2) by (simp add: contextOf_def)
  from directEncounter_group[OF this] g obtain out where
    "directEncounter2 (contextOf ps) (tbPlayerId p)
      = encounterOfGroup out (filter (\<lambda>q. tbPoints q = tbPoints p) ps) (tbPlayerId p)" by auto
  moreover have "encounterOfGroup out (filter (\<lambda>q. tbPoints q = tbPoints p) ps) (tbPlayerId p)
      = Some (if groupComplete (filter (\<lambda>q. tbPoints q = tbPoints p) ps)
          then Some (of_int (scoreInGroup (tbPlayerId ` set (filter (\<lambda>q. tbPoints q = tbPoints p) ps)) p)) else None)"
    using assms(2) by (intro encounter_member) (auto intro: inputOk_inj[OF assms(1)])
  ultimately show ?thesis by (simp add: valueAt_def)
qed

lemma groupComplete_set: "set g = set g' \<Longrightarrow> groupComplete g = groupComplete g'"
  by (simp add: groupComplete_def)

lemma valueAt_perm:
  assumes "inputOk ps" "mset ps' = mset ps" "p \<in> set ps"
  shows "valueAt opts (contextOf ps') k (tbPlayerId p) = valueAt opts (contextOf ps) k (tbPlayerId p)"
proof -
  have s: "set ps' = set ps" using assms(2) by (metis set_mset_mset)
  have ok: "inputOk ps'" and c: "contextOf ps' = (contextOf ps)\<lparr>ctxPlayers := ps'\<rparr>"
    using contextOf_perm[OF assms(1,2)] by auto
  show ?thesis
  proof (cases "k = DIRECT_ENCOUNTER")
    case False
    have "valueAt opts (contextOf ps') k (tbPlayerId p) = Some (ownValue opts k p (contextOf ps'))"
      using ok s assms(3) False by (intro valueAt_own) simp_all
    then show ?thesis using valueAt_own[OF assms(1,3) False, of opts] by (simp add: c)
  next
    case True
    have f: "set (filter (\<lambda>q. tbPoints q = tbPoints p) ps') = set (filter (\<lambda>q. tbPoints q = tbPoints p) ps)"
      using s by simp
    show ?thesis unfolding True
      using valueAt_direct[OF ok, of p opts] valueAt_direct[OF assms(1,3), of opts] assms(3)
      by (simp only: s Let_def f groupComplete_set[OF f])
  qed
qed

lemma rankTB_perm:
  assumes "rankTB opts ps order = Inr ids" "mset ps' = mset ps"
  shows "rankTB opts ps' order = Inr ids"
proof -
  define f where "f = (\<lambda>(ps :: PlayerTieBreakInput list) (p :: PlayerTieBreakInput). standingKey (\<lambda>i. opponentPoints2 i (contextOf ps)) (valueAt opts (contextOf ps))
    (dedupe order) (tbPlayerId p))"
  have ok: "inputOk ps" using assms(1) by (auto simp: rankTB_def buildContext_iff)
  note ok' = contextOf_perm[OF ok assms(2)]
  have s: "set ps' = set ps" using assms(2) by (metis set_mset_mset)
  have ids: "ids = map tbPlayerId (sort_key (f ps) ps)"
    using assms(1) ok by (simp add: rankTB_sort buildContext_iff f_def)
  have r': "rankTB opts ps' order = Inr (map tbPlayerId (sort_key (f ps') ps'))"
    using ok' by (simp add: rankTB_sort buildContext_iff f_def)
  have fe: "f ps' p = f ps p" if "p \<in> set ps" for p
  proof -
    have "List.map_filter (\<lambda>k. valueAt opts (contextOf ps') k (tbPlayerId p)) ks
        = List.map_filter (\<lambda>k. valueAt opts (contextOf ps) k (tbPlayerId p)) ks" for ks
      using valueAt_perm[OF ok assms(2) that] by simp
    then show ?thesis using ok' by (simp add: f_def standingKey_def)
  qed
  have "sort_key (f ps') ps' = sort_key (f ps) ps"
  proof (rule sort_key_inj_key_eq)
    show "mset ps' = mset (sort_key (f ps) ps)" using assms(2) by simp
    show "inj_on (f ps') (set ps')"
      using ok' by (auto intro!: inj_onI inputOk_inj simp: f_def standingKey_inject)
    have m: "map (f ps') (sort_key (f ps) ps) = map (f ps) (sort_key (f ps) ps)"
      using fe by simp
    show "sorted (map (f ps') (sort_key (f ps) ps))" unfolding m by (rule sorted_sort_key)
  qed
  then show ?thesis using ids r' by simp
qed

section \<open>Cut and displayed values\<close>

lemma foldl_nth_range:
  fixes xs :: "int list"
  shows "b \<le> length xs \<Longrightarrow> foldl (\<lambda>t i. t + xs ! i) c [a..<b] = c + sum_list (drop a (take b xs))"
proof (induction b)
  case (Suc b)
  then show ?case
    by (cases "a \<le> b") (simp_all add: take_Suc_conv_app_nth)
qed simp

lemma jsSort_int_sort: "jsSort (\<lambda>a b. a - b) xs = sort (xs :: int list)"
proof -
  have "jsInsert (\<lambda>a b. a - b) x ys = insort x ys" for x and ys :: "int list"
    by (induction ys) auto
  then show ?thesis by (induction xs) simp_all
qed

lemma cut_sorted:
  assumes "2 < length xs"
  shows "buchholzCut xs 1 0 = sum_list xs - Min (set xs)"
    and "buchholzCut xs 1 1 = sum_list xs - Min (set xs) - Max (set xs)"
proof -
  let ?s = "sort xs"
  have len: "length ?s = length xs" by simp
  obtain x zs where xz: "?s = x # zs" using assms len by (cases ?s) auto
  obtain ys y where yz: "zs = ys @ [y]" using assms len xz by (cases zs rule: rev_cases) auto
  have s: "?s = x # ys @ [y]" using xz yz by simp
  have srt: "sorted (x # ys @ [y])" using s by (metis sorted_sort)
  have st: "set xs = set (x # ys @ [y])" using s by (metis set_sort)
  have sm: "sum_list xs = x + sum_list ys + y"
  proof -
    have "sum_list xs = sum_list ?s" by (metis mset_sort sum_mset_sum_list)
    then show ?thesis using s by simp
  qed
  have "Min (set xs) = x" unfolding st using srt by (intro Min_eqI) auto
  moreover have "Max (set xs) = y" unfolding st using srt by (intro Max_eqI) (auto simp: sorted_append)
  moreover have n: "length xs = length ys + 2" using s len by simp
  have c0: "buchholzCut xs 1 0 = sum_list (drop 1 (take (length ?s) ?s))"
    using assms by (simp add: buchholzCut_def jsSort_int_sort foldl_nth_range Let_def)
  have c1: "buchholzCut xs 1 1 = sum_list (drop 1 (take (length ?s - 1) ?s))"
    using assms by (simp add: buchholzCut_def jsSort_int_sort foldl_nth_range Let_def)
  ultimately show "buchholzCut xs 1 0 = sum_list xs - Min (set xs)"
    and "buchholzCut xs 1 1 = sum_list xs - Min (set xs) - Max (set xs)"
    using c0 c1 s sm by (simp_all add: s)
qed

lemma sumTB_sum_list: "sumTB xs = sum_list xs"
proof -
  have "foldl (+) c xs = c + sum_list xs" for c :: int and xs
    by (induction xs arbitrary: c) simp_all
  then show ?thesis by (simp add: sumTB_def)
qed

lemma set_dedupe [simp]: "set (dedupe ks) = set ks"
proof -
  have "set (dedupeLoop seen ks) = set ks - seen" for seen
    by (induction ks arbitrary: seen) auto
  then show ?thesis by (simp add: dedupe_def)
qed

lemma recordValue_other: "i \<noteq> tbPlayerId p \<Longrightarrow> recordValue k vals m p i = m i"
  by (auto simp: recordValue_def split: option.splits)

lemma foldl_recordValue_other:
  "i \<notin> tbPlayerId ` set ps \<Longrightarrow> foldl (recordValue k vals) m ps i = m i"
  by (induction ps arbitrary: m) (simp_all add: recordValue_other)

lemma foldl_recordValue_at:
  assumes "distinct (map tbPlayerId ps)" "p \<in> set ps" "m (tbPlayerId p) = Some rec"
  shows "foldl (recordValue k vals) m ps (tbPlayerId p) =
    Some (case vals (tbPlayerId p) of Some (Some raw) \<Rightarrow> rec(k \<mapsto> raw / DISPLAY_DIVISOR k) | _ \<Rightarrow> rec)"
  using assms
proof (induction ps arbitrary: m)
  case (Cons q ps)
  show ?case
  proof (cases "q = p")
    case True
    then have "tbPlayerId p \<notin> tbPlayerId ` set ps" using Cons.prems(1) by auto
    then show ?thesis using Cons.prems(3) True
      by (simp add: foldl_recordValue_other) (simp add: recordValue_def split: option.splits)
  next
    case False
    then have "p \<in> set ps" using Cons.prems(2) by simp
    moreover from this have "tbPlayerId p \<in> tbPlayerId ` set ps" by (rule imageI)
    then have "tbPlayerId p \<noteq> tbPlayerId q" using Cons.prems(1) by auto
    ultimately show ?thesis using Cons by (simp add: recordValue_other)
  qed
qed simp

lemma foldl_keys_at:
  assumes "distinct (map tbPlayerId ps)" "p \<in> set ps" "m (tbPlayerId p) = Some rec"
  shows "foldl (\<lambda>m k. foldl (recordValue k (computeInternal opts k ctx)) m ps) m ks (tbPlayerId p) =
    Some (\<lambda>k. if k \<in> set ks \<and> valueAt opts ctx k (tbPlayerId p) \<noteq> None
           then map_option (\<lambda>v. v / DISPLAY_DIVISOR k) (valueAt opts ctx k (tbPlayerId p)) else rec k)"
  using assms(3)
proof (induction ks arbitrary: m rec)
  case Nil
  then show ?case by simp
next
  case (Cons k ks)
  let ?m = "foldl (recordValue k (computeInternal opts k ctx)) m ps"
  let ?rec = "case valueAt opts ctx k (tbPlayerId p) of
    Some raw \<Rightarrow> rec(k \<mapsto> raw / DISPLAY_DIVISOR k) | None \<Rightarrow> rec"
  have "?m (tbPlayerId p) = Some ?rec"
    using foldl_recordValue_at[where m = m and rec = rec and k = k and vals = "computeInternal opts k ctx",
        OF assms(1,2) Cons.prems]
    by (simp add: valueAt_def split: option.splits)
  from Cons.IH[where m = ?m and rec = ?rec, OF this]
  show ?case by (auto simp: fun_eq_iff split: option.splits)
qed

lemma computeTB_at:
  assumes "computeTB opts ps order = Inr m" "p \<in> set ps"
  shows "m (tbPlayerId p) = Some (\<lambda>k. if k \<in> set order
    then map_option (\<lambda>v. v / DISPLAY_DIVISOR k) (valueAt opts (contextOf ps) k (tbPlayerId p)) else None)"
proof -
  let ?m0 = "foldl (\<lambda>m p. m(tbPlayerId p \<mapsto> Map.empty :: TieBreakResult)) Map.empty ps"
  have ok: "inputOk ps"
    and m: "m = foldl (\<lambda>m k. foldl (recordValue k (computeInternal opts k (contextOf ps))) m ps) ?m0 (dedupe order)"
    using assms(1) by (auto simp: computeTB_def buildContext_iff Let_def)
  have "distinct (map tbPlayerId ps)" using ok by (simp add: inputOk_def)
  moreover have "?m0 (tbPlayerId p) = Some Map.empty" using assms(2) by (rule foldl_upd_at) simp
  ultimately show ?thesis
    unfolding m by (subst foldl_keys_at[OF _ assms(2)]) (auto simp: fun_eq_iff)
qed

lemma card_all_but_one:
  assumes "finite S" "a \<in> S" and sub: "M \<subseteq> S - {a}"
  shows "\<not> int (card M) < int (card S) - 1 \<longleftrightarrow> M = S - {a}"
proof -
  have c: "int (card (S - {a})) = int (card S) - 1"
    using card.remove[OF assms(1,2)] by simp
  have "card M \<le> card (S - {a})" by (rule card_mono) (use assms in auto)
  moreover have "M = S - {a}" if "card M = card (S - {a})"
    by (rule card_subset_eq) (use assms that in auto)
  ultimately show ?thesis using c by fastforce
qed

lemma all_but_one:
  assumes sub: "M \<subseteq> f ` G - {f a}" and neq: "\<And>b. b \<in> G \<Longrightarrow> b \<noteq> a \<Longrightarrow> f b \<noteq> f a"
  shows "M = f ` G - {f a} \<longleftrightarrow> (\<forall>b \<in> G. b \<noteq> a \<longrightarrow> f b \<in> M)"
proof
  assume m: "M = f ` G - {f a}"
  show "\<forall>b \<in> G. b \<noteq> a \<longrightarrow> f b \<in> M" unfolding m using neq by simp
next
  assume all: "\<forall>b \<in> G. b \<noteq> a \<longrightarrow> f b \<in> M"
  have "f ` G - {f a} \<subseteq> M" using all by auto
  then show "M = f ` G - {f a}" using sub by (rule subset_antisym[rotated])
qed

section \<open>Properties\<close>

text \<open>
  C34. The standings are the players sorted by one key: points descending, then the applicable
  tie-break values in the requested order (duplicates dropped) descending, then the player
  identifier ascending. (The design in the documentation ends with the pairing number instead.)
\<close>
theorem rank_is_sort_by_standing_key:
  assumes "buildContext ps = Inr ctx"
  shows "rankTB opts ps order = Inr (map tbPlayerId
     (sort_key (\<lambda>p. standingKey (\<lambda>i. opponentPoints2 i ctx) (valueAt opts ctx) (dedupe order) (tbPlayerId p)) ps))"
  using assms by (rule rankTB_sort)

text \<open>
  The standings do not depend on the order in which the players are handed in: whenever
  ranking succeeds, ranking any rearrangement of the input gives the same list.
\<close>
theorem rank_ignores_input_order:
  assumes "rankTB opts ps order = Inr ids" "mset ps' = mset ps"
  shows "rankTB opts ps' order = Inr ids"
  using assms by (rule rankTB_perm)

text \<open>
  Ranking returns exactly for consistent input (identifiers distinct, points in half
  steps, every game over the board has an opponent, every opponent listed), and then it
  lists every player once.
\<close>
theorem rank_accepts_exactly:
  "(case rankTB opts ps order of
      Inl e \<Rightarrow> \<not> inputOk ps
    | Inr ids \<Rightarrow> inputOk ps \<and> mset ids = mset (map tbPlayerId ps) \<and> distinct ids)"
proof (cases "rankTB opts ps order")
  case (Inl e)
  have "rankTB opts ps order \<noteq> Inl e" if "inputOk ps"
  proof -
    have "buildContext ps = Inr (contextOf ps)" using that by (simp add: buildContext_iff)
    from rankTB_sort[OF this] show ?thesis by simp
  qed
  then show ?thesis using Inl by auto
next
  case (Inr ids)
  then have ok: "inputOk ps" by (auto simp: rankTB_def buildContext_iff)
  then have b: "buildContext ps = Inr (contextOf ps)" by (simp add: buildContext_iff)
  have "mset ids = mset (map tbPlayerId ps)"
    using Inr rankTB_sort[OF b, of opts order] by auto
  then show ?thesis using Inr ok mset_eq_imp_distinct_iff[of ids "map tbPlayerId ps"]
    by (simp add: inputOk_def)
qed

text \<open>
  The direct encounter applies to a group of equal points exactly when every member has
  met every other member over the board; its value is then the score in those games, and
  otherwise no member of the group has a value.
\<close>
theorem direct_encounter_value:
  assumes "buildContext ps = Inr ctx" "p \<in> set ps"
  shows "valueAt opts ctx DIRECT_ENCOUNTER (tbPlayerId p) =
    (let grp = filter (\<lambda>q. tbPoints q = tbPoints p) ps;
         counts = (\<lambda>a g. gPlayedOverBoard g \<and> (\<exists>b \<in> set grp. b \<noteq> a \<and> gOpponentId g = Some (tbPlayerId b)))
     in if \<forall>a \<in> set grp. \<forall>b \<in> set grp. b \<noteq> a \<longrightarrow>
             (\<exists>g \<in> set (tbGames a). gPlayedOverBoard g \<and> gOpponentId g = Some (tbPlayerId b))
        then Some (of_int (\<Sum>g \<leftarrow> filter (counts p) (tbGames p). result2 g))
        else None)"
proof -
  let ?grp = "filter (\<lambda>q. tbPoints q = tbPoints p) ps"
  let ?ids = "tbPlayerId ` set ?grp"
  have ok: "inputOk ps" and ctx: "ctx = contextOf ps" using assms(1) by (auto simp: buildContext_iff)
  have inj: "tbPlayerId a = tbPlayerId b \<longleftrightarrow> a = b" if "a \<in> set ?grp" "b \<in> set ?grp" for a b
    using that inputOk_inj[OF ok] by auto
  have counts: "countsInGroup (tbPlayerId a) ?ids g \<longleftrightarrow>
      gPlayedOverBoard g \<and> (\<exists>b \<in> set ?grp. b \<noteq> a \<and> gOpponentId g = Some (tbPlayerId b))"
    if "a \<in> set ?grp" for a g
    using inj[OF that] inj[OF _ that] by (auto simp: countsInGroup_def split: option.splits)
  have met: "metInGroup ?ids a = {tbPlayerId b | b. b \<in> set ?grp \<and> b \<noteq> a \<and>
      (\<exists>g \<in> set (tbGames a). gPlayedOverBoard g \<and> gOpponentId g = Some (tbPlayerId b))}"
    if "a \<in> set ?grp" for a
    unfolding metInGroup_def counts[OF that] by auto
  have full: "\<not> int (card (metInGroup ?ids a)) < int (card ?ids) - 1 \<longleftrightarrow>
      (\<forall>b \<in> set ?grp. b \<noteq> a \<longrightarrow> (\<exists>g \<in> set (tbGames a). gPlayedOverBoard g \<and> gOpponentId g = Some (tbPlayerId b)))"
    if a: "a \<in> set ?grp" for a
  proof -
    have neq: "tbPlayerId b \<noteq> tbPlayerId a" if "b \<in> set ?grp" "b \<noteq> a" for b
      using inj[OF that(1) a] that(2) by simp
    have sub: "metInGroup ?ids a \<subseteq> ?ids - {tbPlayerId a}"
    proof
      fix x assume "x \<in> metInGroup ?ids a"
      then obtain b where b: "b \<in> set ?grp" "b \<noteq> a" "x = tbPlayerId b" unfolding met[OF a] by auto
      have "x \<in> ?ids" unfolding b(3) using b(1) by (rule imageI)
      then show "x \<in> ?ids - {tbPlayerId a}" using neq[OF b(1,2)] b(3) by simp
    qed
    have "tbPlayerId a \<in> ?ids" using a by (rule imageI)
    have "\<not> int (card (metInGroup ?ids a)) < int (card ?ids) - 1 \<longleftrightarrow> metInGroup ?ids a = ?ids - {tbPlayerId a}"
      by (rule card_all_but_one[OF _ \<open>tbPlayerId a \<in> ?ids\<close> sub]) simp
    also have "\<dots> \<longleftrightarrow> (\<forall>b \<in> set ?grp. b \<noteq> a \<longrightarrow> tbPlayerId b \<in> metInGroup ?ids a)"
      by (rule all_but_one[OF sub]) (rule neq)
    also have "\<dots> \<longleftrightarrow> (\<forall>b \<in> set ?grp. b \<noteq> a \<longrightarrow>
        (\<exists>g \<in> set (tbGames a). gPlayedOverBoard g \<and> gOpponentId g = Some (tbPlayerId b)))"
    proof (intro ball_cong refl imp_cong)
      fix b assume b: "b \<in> set ?grp" "b \<noteq> a"
      show "tbPlayerId b \<in> metInGroup ?ids a \<longleftrightarrow>
          (\<exists>g \<in> set (tbGames a). gPlayedOverBoard g \<and> gOpponentId g = Some (tbPlayerId b))"
        unfolding met[OF a] using inj[OF b(1)] b by (auto simp del: set_filter)
    qed
    finally show ?thesis .
  qed
  have gc: "groupComplete ?grp \<longleftrightarrow> (\<forall>a \<in> set ?grp. \<forall>b \<in> set ?grp. b \<noteq> a \<longrightarrow>
      (\<exists>g \<in> set (tbGames a). gPlayedOverBoard g \<and> gOpponentId g = Some (tbPlayerId b)))"
    unfolding groupComplete_def using full by auto
  have sc: "scoreInGroup ?ids p = (\<Sum>g \<leftarrow> filter (\<lambda>g. gPlayedOverBoard g \<and>
      (\<exists>b \<in> set ?grp. b \<noteq> p \<and> gOpponentId g = Some (tbPlayerId b))) (tbGames p). result2 g)"
  proof -
    have "countsInGroup (tbPlayerId p) ?ids
        = (\<lambda>g. gPlayedOverBoard g \<and> (\<exists>b \<in> set ?grp. b \<noteq> p \<and> gOpponentId g = Some (tbPlayerId b)))"
      by (rule ext, rule counts) (simp add: assms(2))
    then show ?thesis unfolding scoreInGroup_def by (rule arg_cong)
  qed
  show ?thesis
    unfolding ctx valueAt_direct[OF ok assms(2)] Let_def gc sc by (rule refl)
qed

text \<open>
  Cut-1 drops exactly the smallest contribution and Median the smallest and the greatest
  of at least three rounds: the value is the full Buchholz sum less the extremes.
\<close>
theorem cut_and_median_drop_extremes:
  assumes "buildContext ps = Inr ctx" "p \<in> set ps" "2 < length (tbGames p)"
  shows "valueAt opts ctx BUCHHOLZ_CUT1 (tbPlayerId p) =
      Some (the (valueAt opts ctx BUCHHOLZ (tbPlayerId p)) - of_int (Min (set (buchholzContributions2 p ctx))))
    \<and> valueAt opts ctx MEDIAN_BUCHHOLZ (tbPlayerId p) =
      Some (the (valueAt opts ctx BUCHHOLZ (tbPlayerId p)) - of_int (Min (set (buchholzContributions2 p ctx)))
        - of_int (Max (set (buchholzContributions2 p ctx))))"
proof -
  have ok: "inputOk ps" and ctx: "ctx = contextOf ps" using assms(1) by (auto simp: buildContext_iff)
  have "length (buchholzLoop c i b gs) = length gs" for c i b gs
    by (induction gs arbitrary: i b) simp_all
  then have "2 < length (buchholzContributions2 p ctx)"
    using assms(3) by (simp add: buchholzContributions2_def)
  from cut_sorted[OF this] show ?thesis
    unfolding ctx using valueAt_own[OF ok assms(2), of _ opts] by (simp add: sumTB_sum_list)
qed

text \<open>
  The published record of a player holds exactly the requested keys that apply to the
  player, each the value the standings order compares, in display units.
\<close>
theorem compute_publishes_compared_values:
  assumes "computeTB opts ps order = Inr m" "p \<in> set ps"
  shows "m (tbPlayerId p) = Some (\<lambda>k. if k \<in> set order
    then map_option (\<lambda>v. v / DISPLAY_DIVISOR k) (valueAt opts (contextOf ps) k (tbPlayerId p)) else None)"
  using assms by (rule computeTB_at)
section \<open>Witnesses\<close>

text \<open>
  A mini-tournament of three: \<^verbatim>\<open>a\<close> beats \<^verbatim>\<open>b\<close>, \<^verbatim>\<open>b\<close> beats \<^verbatim>\<open>c\<close>, \<^verbatim>\<open>c\<close> beats
  \<^verbatim>\<open>a\<close>, and each has the bye once.
\<close>

definition gameTB :: "string \<Rightarrow> GameColor \<Rightarrow> GameScore \<Rightarrow> GameRecord" where
  "gameTB opp col r = \<lparr>gOpponentId = Some opp, gColor = Some col, gResult = r, gPlayedOverBoard = True\<rparr>"

definition byeTB :: GameRecord where
  "byeTB = \<lparr>gOpponentId = None, gColor = None, gResult = Score0, gPlayedOverBoard = False\<rparr>"

definition sampleStandings :: "PlayerTieBreakInput list" where
  "sampleStandings =
     [\<lparr>tbPlayerId = ''a'', tbPoints = 1, tbRating = None,
       tbGames = [gameTB ''b'' WHITE Score1, byeTB, gameTB ''c'' BLACK Score0]\<rparr>,
      \<lparr>tbPlayerId = ''b'', tbPoints = 1, tbRating = Some 1500,
       tbGames = [gameTB ''a'' BLACK Score0, gameTB ''c'' WHITE Score1, byeTB]\<rparr>,
      \<lparr>tbPlayerId = ''c'', tbPoints = 1, tbRating = None,
       tbGames = [byeTB, gameTB ''b'' BLACK Score0, gameTB ''a'' WHITE Score1]\<rparr>]"

lemma sampleStandings_ok: "inputOk sampleStandings"
  by (simp add: inputOk_def sampleStandings_def gameTB_def byeTB_def)

lemma sampleStandings_context: "buildContext sampleStandings = Inr (contextOf sampleStandings)"
  by (simp add: buildContext_iff sampleStandings_ok)

lemma sampleStandings_ranked:
  "rankTB \<lparr>unratedRating = None\<rparr> sampleStandings [BUCHHOLZ, DIRECT_ENCOUNTER] = Inr [''a'', ''b'', ''c'']"
  by code_simp

theorem rank_is_sort_by_standing_key_witness:
  "rankTB \<lparr>unratedRating = None\<rparr> sampleStandings [KOYA] = Inr (map tbPlayerId
     (sort_key (\<lambda>p. standingKey (\<lambda>i. opponentPoints2 i (contextOf sampleStandings))
       (valueAt \<lparr>unratedRating = None\<rparr> (contextOf sampleStandings)) (dedupe [KOYA]) (tbPlayerId p)) sampleStandings))"
  by (rule rank_is_sort_by_standing_key[OF sampleStandings_context])

theorem rank_ignores_input_order_witness:
  "rankTB \<lparr>unratedRating = None\<rparr> (rev sampleStandings) [BUCHHOLZ, DIRECT_ENCOUNTER] = Inr [''a'', ''b'', ''c'']"
  by (rule rank_ignores_input_order[OF sampleStandings_ranked]) simp

theorem direct_encounter_value_witness:
  "valueAt \<lparr>unratedRating = None\<rparr> (contextOf sampleStandings) DIRECT_ENCOUNTER ''a'' = Some 2"
proof -
  have "hd sampleStandings \<in> set sampleStandings" "tbPlayerId (hd sampleStandings) = ''a''"
    by (simp_all add: sampleStandings_def)
  from direct_encounter_value[OF sampleStandings_context this(1), of "\<lparr>unratedRating = None\<rparr>"] this(2)
  show ?thesis by (simp add: sampleStandings_def gameTB_def byeTB_def Let_def)
qed

theorem cut_and_median_drop_extremes_witness:
  "valueAt \<lparr>unratedRating = None\<rparr> (contextOf sampleStandings) BUCHHOLZ ''a'' = Some 9
   \<and> valueAt \<lparr>unratedRating = None\<rparr> (contextOf sampleStandings) BUCHHOLZ_CUT1 ''a'' = Some 7
   \<and> valueAt \<lparr>unratedRating = None\<rparr> (contextOf sampleStandings) MEDIAN_BUCHHOLZ ''a'' = Some 2"
proof -
  have m: "hd sampleStandings \<in> set sampleStandings" "tbPlayerId (hd sampleStandings) = ''a''"
    "2 < length (tbGames (hd sampleStandings))"
    by (simp_all add: sampleStandings_def)
  have b: "valueAt \<lparr>unratedRating = None\<rparr> (contextOf sampleStandings) BUCHHOLZ ''a'' = Some 9"
    and s: "Min (set (buchholzContributions2 (hd sampleStandings) (contextOf sampleStandings))) = 2"
      "Max (set (buchholzContributions2 (hd sampleStandings) (contextOf sampleStandings))) = 5"
    by code_simp+
  show ?thesis
    using cut_and_median_drop_extremes[OF sampleStandings_context m(1,3), of "\<lparr>unratedRating = None\<rparr>"]
    by (simp add: b s m(2))
qed

theorem compute_publishes_compared_values_witness:
  "\<exists>m. computeTB \<lparr>unratedRating = None\<rparr> sampleStandings [CUMULATIVE] = Inr m \<and>
     m ''a'' = Some (\<lambda>k. if k \<in> set [CUMULATIVE]
       then map_option (\<lambda>v. v / DISPLAY_DIVISOR k)
         (valueAt \<lparr>unratedRating = None\<rparr> (contextOf sampleStandings) k ''a'') else None)"
proof -
  have "\<exists>m. computeTB \<lparr>unratedRating = None\<rparr> sampleStandings [CUMULATIVE] = Inr m"
    by (simp add: computeTB_def sampleStandings_context Let_def)
  then obtain m where m: "computeTB \<lparr>unratedRating = None\<rparr> sampleStandings [CUMULATIVE] = Inr m" ..
  have "hd sampleStandings \<in> set sampleStandings" "tbPlayerId (hd sampleStandings) = ''a''"
    by (simp_all add: sampleStandings_def)
  with compute_publishes_compared_values[OF m, of "hd sampleStandings"] m show ?thesis by auto
qed

end
