(* ===== verification/Service.thy ===== *)
theory Service
  imports Prelude
begin

text \<open>
  What the services share. The errors are those of \<^verbatim>\<open>src/core/errors/domain.error.ts\<close> and, in
  \<open>OtherError\<close>, whatever a called component throws. Service code is a function from the
  database to an error or a value and the database it leaves behind: what was written before
  an error stays written, except inside a \<^verbatim>\<open>$transaction\<close>, which is rolled back. The audit
  check is \<^verbatim>\<open>src/shared/audit/audit.service.ts\<close>.
\<close>

section \<open>Errors and effects\<close>

datatype 'x DomainError =
    NotFoundError string
  | BusinessRuleError string
  | ConflictError string
  | ForbiddenError string
  | OtherError 'x

type_synonym ('x, 's, 'a) action = "'s \<Rightarrow> ('x DomainError + 'a) \<times> 's"

definition bindS :: "('x, 's, 'a) action \<Rightarrow> ('a \<Rightarrow> ('x, 's, 'b) action) \<Rightarrow> ('x, 's, 'b) action" where
  "bindS m f = (\<lambda>s. case m s of (Inl e, s') \<Rightarrow> (Inl e, s') | (Inr x, s') \<Rightarrow> f x s')"

definition returnS :: "'a \<Rightarrow> ('x, 's, 'a) action" where
  "returnS x = (\<lambda>s. (Inr x, s))"

definition throwS :: "'x DomainError \<Rightarrow> ('x, 's, 'a) action" where
  "throwS e = (\<lambda>s. (Inl e, s))"

definition guardS :: "bool \<Rightarrow> 'x DomainError \<Rightarrow> ('x, 's, unit) action" where
  "guardS c e = (if c then throwS e else returnS ())"

definition getS :: "('s \<Rightarrow> 'a) \<Rightarrow> ('x, 's, 'a) action" where
  "getS f = (\<lambda>s. (Inr (f s), s))"

definition putS :: "('s \<Rightarrow> 's) \<Rightarrow> ('x, 's, unit) action" where
  "putS f = (\<lambda>s. (Inr (), f s))"

definition transaction :: "('x, 's, 'a) action \<Rightarrow> ('x, 's, 'a) action" where
  "transaction m = (\<lambda>s. case m s of (Inl e, s') \<Rightarrow> (Inl e, s) | (Inr x, s') \<Rightarrow> (Inr x, s'))"

named_theorems service_simps "evaluation of service code"

lemma bindS_eval [service_simps]:
  "m s = (Inl e, s') \<Longrightarrow> bindS m f s = (Inl e, s')"
  "m s = (Inr x, s') \<Longrightarrow> bindS m f s = f x s'"
  by (simp_all add: bindS_def)

lemma bindS_Inr_iff:
  "bindS m f s = (Inr y, s') \<longleftrightarrow> (\<exists>x s1. m s = (Inr x, s1) \<and> f x s1 = (Inr y, s'))"
  by (auto simp: bindS_def split: prod.splits sum.splits)

lemma bindS_snd_cases:
  "snd (bindS m f s) = s2 \<Longrightarrow> (\<exists>e. m s = (Inl e, s2)) \<or> (\<exists>x s1. m s = (Inr x, s1) \<and> snd (f x s1) = s2)"
  by (auto simp: bindS_def split: prod.splits sum.splits)

lemma service_eval [simp, service_simps]:
  "returnS x s = (Inr x, s)" "throwS e s = (Inl e, s)" "getS f s = (Inr (f s), s)"
  "putS g s = (Inr (), g s)" "guardS c e s = (if c then (Inl e, s) else (Inr (), s))"
  by (simp_all add: returnS_def throwS_def getS_def putS_def guardS_def)

text \<open>
  What has to hold before for \<open>Q\<close> to hold after a normal and \<open>E\<close> after an exceptional exit.
\<close>

definition wp ::
  "('x, 's, 'a) action \<Rightarrow> ('a \<Rightarrow> 's \<Rightarrow> bool) \<Rightarrow> ('x DomainError \<Rightarrow> 's \<Rightarrow> bool) \<Rightarrow> 's \<Rightarrow> bool" where
  "wp m Q E s = (case m s of (Inl e, s') \<Rightarrow> E e s' | (Inr x, s') \<Rightarrow> Q x s')"

lemma wpI:
  "(\<And>e s'. m s = (Inl e, s') \<Longrightarrow> E e s') \<Longrightarrow> (\<And>x s'. m s = (Inr x, s') \<Longrightarrow> Q x s') \<Longrightarrow> wp m Q E s"
  by (auto simp: wp_def split: prod.splits sum.splits)

lemma wp_bind: "wp (bindS m f) Q E s = wp m (\<lambda>x. wp (f x) Q E) E s"
  by (simp add: wp_def bindS_def split: prod.splits sum.splits)

lemma wp_transaction: "wp (transaction m) Q E s = wp m Q (\<lambda>e _. E e s) s"
  by (simp add: wp_def transaction_def split: prod.splits sum.splits)

lemma wp_basic:
  "wp (returnS x) Q E s = Q x s" "wp (throwS e) Q E' s = E' e s" "wp (getS f) Q' E s = Q' (f s) s"
  "wp (putS g) Q'' E s = Q'' () (g s)" "wp (guardS c e) Q'' E s = (if c then E e s else Q'' () s)"
  by (simp_all add: wp_def)

lemmas wp_simps = wp_bind wp_transaction wp_basic

lemma wp_option [simp]:
  "wp (case x of None \<Rightarrow> m | Some y \<Rightarrow> f y) Q E s = (case x of None \<Rightarrow> wp m Q E s | Some y \<Rightarrow> wp (f y) Q E s)"
  by (simp split: option.splits)

lemma wp_snd: "wp m (\<lambda>_. P) (\<lambda>_. P) s \<Longrightarrow> P (snd (m s))"
  by (simp add: wp_def split: prod.splits sum.splits)

lemma transaction_cases:
  "transaction m s = r \<Longrightarrow> (\<exists>e. r = (Inl e, s)) \<or> (\<exists>x s'. r = (Inr x, s') \<and> m s = (Inr x, s'))"
  by (auto simp: transaction_def split: prod.splits sum.splits)

lemma transaction_Inr [simp]: "transaction m s = (Inr x, s') \<longleftrightarrow> m s = (Inr x, s')"
  by (auto simp: transaction_def split: prod.splits sum.splits)

lemma transaction_Inl: "transaction m s = (Inl e, s') \<Longrightarrow> s' = s"
  by (auto simp: transaction_def split: prod.splits sum.splits)

section \<open>What an operation does not touch\<close>

definition frames :: "('s \<Rightarrow> 'b) \<Rightarrow> ('x, 's, 'a) action \<Rightarrow> bool" where
  "frames f m \<longleftrightarrow> (\<forall>s. f (snd (m s)) = f s)"

named_theorems frame_intros "rules that compute what a service leaves alone"

lemma framesD: "frames f m \<Longrightarrow> f (snd (m s)) = f s"
  by (simp add: frames_def)

lemma frames_basic [frame_intros]:
  "frames f (returnS x)" "frames f (throwS e)" "frames f (getS g)" "frames f (guardS c e)"
  "(\<And>s. f (h s) = f s) \<Longrightarrow> frames f (putS h)"
  by (simp_all add: frames_def)

lemma frames_bind [frame_intros]: "frames f m \<Longrightarrow> (\<And>x. frames f (k x)) \<Longrightarrow> frames f (bindS m k)"
  unfolding frames_def bindS_def by (simp add: case_prod_unfold split: sum.splits)

lemma frames_transaction [frame_intros]: "frames f m \<Longrightarrow> frames f (transaction m)"
  unfolding frames_def transaction_def by (simp add: case_prod_unfold split: sum.splits)

lemma frames_cases [frame_intros]:
  "(c \<Longrightarrow> frames f m) \<Longrightarrow> (\<not> c \<Longrightarrow> frames f m') \<Longrightarrow> frames f (if c then m else m')"
  "(x = None \<Longrightarrow> frames f m) \<Longrightarrow> (\<And>y. x = Some y \<Longrightarrow> frames f (k y)) \<Longrightarrow> frames f (case x of None \<Rightarrow> m | Some y \<Rightarrow> k y)"
  "(\<And>e. r = Inl e \<Longrightarrow> frames f (h e)) \<Longrightarrow> (\<And>y. r = Inr y \<Longrightarrow> frames f (k' y)) \<Longrightarrow>
     frames f (case r of Inl e \<Rightarrow> h e | Inr y \<Rightarrow> k' y)"
  by (auto split: option.splits sum.splits)

section \<open>Audit\<close>

text \<open>\<^verbatim>\<open>String.prototype.trim\<close> on the characters of the model (code points up to 255).\<close>

definition isBlankChar :: "char \<Rightarrow> bool" where
  "isBlankChar c = (let n = of_char c :: nat in 9 \<le> n \<and> n \<le> 13 \<or> n = 32 \<or> n = 160)"

definition jsTrim :: "string \<Rightarrow> string" where
  "jsTrim s = rev (dropWhile isBlankChar (rev (dropWhile isBlankChar s)))"

definition REASON_REQUIRED :: "string set" where
  "REASON_REQUIRED = {''result.updated'', ''pairing.manual_override'', ''rating.recalculated'', ''user.banned'',
     ''refund.requested'', ''admin.impersonate'', ''role.granted'', ''role.revoked'', ''user.status_changed'',
     ''fairplay.decision'', ''appeal.decision''}"

record AuditRow =
  auAction :: string
  auActor :: string
  auResourceId :: string
  auBefore :: string
  auAfter :: string
  auReason :: "string option"

text \<open>\<^verbatim>\<open>write\<close> into the audit table of a state, given by its update function.\<close>

definition auditWriteTo ::
  "((AuditRow list \<Rightarrow> AuditRow list) \<Rightarrow> 's \<Rightarrow> 's) \<Rightarrow> AuditRow \<Rightarrow> ('x, 's, unit) action" where
  "auditWriteTo table entry =
     bindS (guardS (auAction entry \<in> REASON_REQUIRED
              \<and> (case auReason entry of None \<Rightarrow> True | Some r \<Rightarrow> jsTrim r = ''''))
            (BusinessRuleError ''AUDIT_REASON_REQUIRED'')) (\<lambda>_.
     putS (table (\<lambda>rows. rows @ [entry])))"

definition auditOf :: "string \<Rightarrow> string \<Rightarrow> string \<Rightarrow> string \<Rightarrow> string \<Rightarrow> string option \<Rightarrow> AuditRow" where
  "auditOf act actor res bef aft reason =
     \<lparr>auAction = act, auActor = actor, auResourceId = res, auBefore = bef, auAfter = aft, auReason = reason\<rparr>"

end
