(* ===== verification/Interleave.thy ===== *)
theory Interleave
  imports Service
begin

text \<open>
  Requests of one service at the same time. An operation of a service is an \<^verbatim>\<open>async\<close> function: between two
  \<^verbatim>\<open>await\<close>s on the database nothing of the request happens in the tables, but another request may go on. A request
  is here the tree of its awaited accesses; each access (a query, or a transaction, which the database runs as a
  whole) is one step, and what follows depends on the state it saw. Requests run alone, one after the other, or
  interleaved in any way, and a rely-guarantee rule carries an invariant through every interleaving.
\<close>

section \<open>Requests\<close>

datatype ('s, 'r) request = Reply 'r | Await "'s \<Rightarrow> 's" "'s \<Rightarrow> ('s, 'r) request"

type_synonym ('x, 's, 'a) handler = "('s, 'x DomainError + 'a) request"

primrec bindR :: "('s, 'e + 'a) request \<Rightarrow> ('a \<Rightarrow> ('s, 'e + 'b) request) \<Rightarrow> ('s, 'e + 'b) request" where
  "bindR (Reply r) k = (case r of Inl e \<Rightarrow> Reply (Inl e) | Inr x \<Rightarrow> k x)"
| "bindR (Await f c) k = Await f (\<lambda>s. bindR (c s) k)"

lemma bindR_assoc: "bindR (bindR p f) k = bindR p (\<lambda>x. bindR (f x) k)"
  by (induction p) (simp_all add: fun_eq_iff split: sum.split)

text \<open>An access that is awaited; a decision made without one.\<close>

definition awaitR :: "('x, 's, 'a) action \<Rightarrow> ('x, 's, 'a) handler" where
  "awaitR m = Await (\<lambda>s. snd (m s)) (\<lambda>s. Reply (fst (m s)))"

definition guardR :: "bool \<Rightarrow> 'x DomainError \<Rightarrow> ('x, 's, unit) handler" where
  "guardR c e = Reply (if c then Inl e else Inr ())"

definition throwR :: "'x DomainError \<Rightarrow> ('x, 's, 'a) handler" where
  "throwR e = Reply (Inl e)"

definition returnR :: "'a \<Rightarrow> ('x, 's, 'a) handler" where
  "returnR x = Reply (Inr x)"

definition voidR :: "('x, 's, 'a) handler \<Rightarrow> ('x, 's, unit) handler" where
  "voidR p = bindR p (\<lambda>_. returnR ())"

section \<open>A request alone\<close>

primrec runAlone :: "('s, 'r) request \<Rightarrow> 's \<Rightarrow> 'r \<times> 's" where
  "runAlone (Reply r) = (\<lambda>s. (r, s))"
| "runAlone (Await f c) = (\<lambda>s. runAlone (c s) (f s))"

named_theorems run_alone "what a request does alone, as an action"

lemma runAlone_bind [run_alone]: "runAlone (bindR p k) = bindS (runAlone p) (\<lambda>x. runAlone (k x))"
proof
  show "runAlone (bindR p k) s = bindS (runAlone p) (\<lambda>x. runAlone (k x)) s" for s
    by (induction p arbitrary: s) (auto simp: bindS_def split: sum.split)
qed

lemma runAlone_simps [run_alone]:
  "runAlone (awaitR m) = m" "runAlone (guardR c e) = guardS c e" "runAlone (throwR e) = throwS e" "runAlone (returnR x) = returnS x"
  by (simp_all add: fun_eq_iff awaitR_def guardR_def throwR_def returnR_def throwS_def returnS_def)

lemma runAlone_case [run_alone]:
  "runAlone (if b then p else q) = (if b then runAlone p else runAlone q)"
  "runAlone (case x of None \<Rightarrow> p | Some y \<Rightarrow> f y) = (case x of None \<Rightarrow> runAlone p | Some y \<Rightarrow> runAlone (f y))"
  "runAlone (case z of Inl u \<Rightarrow> g u | Inr v \<Rightarrow> h v) = (case z of Inl u \<Rightarrow> runAlone (g u) | Inr v \<Rightarrow> runAlone (h v))"
  by (simp_all split: option.split sum.split)

lemma runAlone_void: "snd (runAlone (voidR p) s) = snd (runAlone p s)"
  by (cases "runAlone p s"; cases "fst (runAlone p s)") (auto simp: voidR_def run_alone bindS_def returnS_def)

section \<open>Many requests\<close>

text \<open>One after the other: each is answered before the next is taken up.\<close>

inductive serial :: "('s, 'r) request set \<Rightarrow> 's \<Rightarrow> 's \<Rightarrow> bool" for A where
  serialStart: "serial A s s"
| serialNext: "serial A s t \<Longrightarrow> p \<in> A \<Longrightarrow> serial A s (snd (runAlone p t))"

text \<open>At once: a request arrives at any time, and any request under way takes its next step.\<close>

inductive interleave :: "('s, 'r) request set \<Rightarrow> 's \<times> ('s, 'r) request list \<Rightarrow> 's \<times> ('s, 'r) request list \<Rightarrow> bool" for A where
  arrive: "p \<in> A \<Longrightarrow> interleave A (s, ps) (s, ps @ [p])"
| advance: "i < length ps \<Longrightarrow> ps ! i = Await f c \<Longrightarrow> interleave A (s, ps) (f s, ps[i := c s])"

definition interleaved :: "('s, 'r) request set \<Rightarrow> 's \<Rightarrow> 's \<Rightarrow> ('s, 'r) request list \<Rightarrow> bool" where
  "interleaved A s0 s ps \<longleftrightarrow> (interleave A)\<^sup>*\<^sup>* (s0, []) (s, ps)"

lemma interleaved_start: "interleaved A s s []"
  by (simp add: interleaved_def)

lemma interleaved_arrive: "interleaved A s0 s ps \<Longrightarrow> p \<in> A \<Longrightarrow> interleaved A s0 s (ps @ [p])"
  unfolding interleaved_def by (rule rtranclp.rtrancl_into_rtrancl) (auto intro: arrive)

lemma interleaved_advance:
  "interleaved A s0 s ps \<Longrightarrow> i < length ps \<Longrightarrow> ps ! i = Await f c \<Longrightarrow> interleaved A s0 (f s) (ps[i := c s])"
  unfolding interleaved_def by (rule rtranclp.rtrancl_into_rtrancl) (auto intro: advance)

text \<open>A schedule says whose turn it is.\<close>

fun schedule :: "nat list \<Rightarrow> 's \<times> ('s, 'r) request list \<Rightarrow> 's \<times> ('s, 'r) request list" where
  "schedule [] c = c"
| "schedule (i # is) (s, ps) = schedule is (if i < length ps then (case ps ! i of Reply r \<Rightarrow> (s, ps) | Await f k \<Rightarrow> (f s, ps[i := k s])) else (s, ps))"

lemma schedule_steps: "(interleave A)\<^sup>*\<^sup>* (s, ps) (schedule is (s, ps))"
proof (induction "is" arbitrary: s ps)
  case (Cons i "is")
  have "schedule (i # is) (s, ps) = schedule is (s, ps) \<or>
      (\<exists>f k. i < length ps \<and> ps ! i = Await f k \<and> schedule (i # is) (s, ps) = schedule is (f s, ps[i := k s]))"
    by (cases "ps ! i") auto
  then show ?case using Cons by (metis advance converse_rtranclp_into_rtranclp)
qed simp

definition repliesOf :: "('s, 'r) request list \<Rightarrow> 'r option list" where
  "repliesOf ps = map (\<lambda>p. case p of Reply r \<Rightarrow> Some r | Await f c \<Rightarrow> None) ps"

lemma interleaved_schedule: "interleaved A s0 s ps \<Longrightarrow> schedule is (s, ps) = (t, qs) \<Longrightarrow> interleaved A s0 t qs"
  unfolding interleaved_def using schedule_steps[of A s ps "is"] by (metis rtranclp_trans)

lemma interleaved_all: "set ps \<subseteq> A \<Longrightarrow> interleaved A s s ps"
  by (induction ps rule: rev_induct) (simp_all add: interleaved_start interleaved_arrive)

lemma interleaved_scheduled:
  "set ps \<subseteq> A \<Longrightarrow> interleaved A s (fst (schedule is (s, ps))) (snd (schedule is (s, ps)))"
  by (rule interleaved_schedule [OF interleaved_all]) simp_all

text \<open>Turns in a row of one request take it along its run alone, and enough of them to its answer.\<close>

lemma schedule_append: "schedule (is @ js) c = schedule js (schedule is c)"
  by (induction "is" c rule: schedule.induct) (auto split: request.split)

lemma schedule_turns:
  assumes "schedule (replicate n i) (s, ps) = (t, qs)" "i < length ps"
  shows "runAlone (qs ! i) t = runAlone (ps ! i) s \<and> qs = ps[i := qs ! i]"
  using assms
proof (induction n arbitrary: s ps)
  case (Suc n)
  show ?case
  proof (cases "ps ! i")
    case (Await f k)
    then show ?thesis using Suc.IH [of "f s" "ps[i := k s]"] Suc.prems by simp
  qed (use Suc in simp)
qed simp

lemma schedule_finish:
  "ps ! i = p \<Longrightarrow> i < length ps \<Longrightarrow> runAlone p s = (r, t) \<Longrightarrow> \<exists>n. schedule (replicate n i) (s, ps) = (t, ps[i := Reply r])"
proof (induction p arbitrary: s ps)
  case (Reply x)
  then have "ps[i := Reply r] = ps" using list_update_id [of ps i] by simp
  then show ?case using Reply by (intro exI [of _ 0]) simp
next
  case (Await f k)
  from Await.IH [of "k s" "ps[i := k s]" "f s"] obtain n where
    "schedule (replicate n i) (f s, ps[i := k s]) = (t, ps[i := Reply r])" using Await.prems by auto
  then show ?case using Await.prems by (intro exI [of _ "Suc n"]) simp
qed

lemmas schedule_whole = schedule_finish [OF refl]

text \<open>The last request may be run to its answer.\<close>

lemma interleaved_finish: "interleaved A s0 s (ps @ [p]) \<Longrightarrow> interleaved A s0 (snd (runAlone p s)) (ps @ [Reply (fst (runAlone p s))])"
proof (induction p arbitrary: s)
  case (Await f c)
  from interleaved_advance [OF Await.prems, of "length ps" f c]
  have "interleaved A s0 (f s) (ps @ [c s])" by simp
  from Await.IH [OF _ this] show ?case by simp
qed simp

lemma interleaved_whole: "interleaved A s0 s ps \<Longrightarrow> p \<in> A \<Longrightarrow> interleaved A s0 (snd (runAlone p s)) (ps @ [Reply (fst (runAlone p s))])"
  by (intro interleaved_finish interleaved_arrive)

lemma serial_interleaved: "serial A s0 s \<Longrightarrow> \<exists>ps. interleaved A s0 s ps"
  by (induction rule: serial.induct) (auto intro: interleaved_start interleaved_whole)

lemma serial_invariant:
  assumes "serial A s0 s" "I s0" "\<And>p s. p \<in> A \<Longrightarrow> I s \<Longrightarrow> I (snd (runAlone p s))"
  shows "I s"
  using assms(1,2) by (induction rule: serial.induct) (simp_all add: assms(3))

section \<open>Rely and guarantee\<close>

text \<open>
  \<open>rg I R p Q s\<close>: from \<open>s\<close> on, while others keep the invariant \<open>I\<close> and change the tables only as \<open>R\<close> allows, so does
  every step of \<open>p\<close>, and \<open>Q\<close> holds when it replies.
\<close>

primrec rg :: "('s \<Rightarrow> bool) \<Rightarrow> ('s \<Rightarrow> 's \<Rightarrow> bool) \<Rightarrow> ('s, 'r) request \<Rightarrow> ('r \<Rightarrow> 's \<Rightarrow> bool) \<Rightarrow> 's \<Rightarrow> bool" where
  "rg I R (Reply r) Q = Q r"
| "rg I R (Await f c) Q = (\<lambda>s. \<forall>t. R s t \<and> I t \<longrightarrow> R t (f t) \<and> I (f t) \<and> rg I R (c t) Q (f t))"

definition steadily :: "('s \<Rightarrow> bool) \<Rightarrow> ('s \<Rightarrow> 's \<Rightarrow> bool) \<Rightarrow> ('s, 'r) request \<Rightarrow> bool" where
  "steadily I R p \<longleftrightarrow> (\<forall>s. I s \<longrightarrow> rg I R p (\<lambda>_ _. True) s)"

lemma rg_bind: "rg I R (bindR p k) Q s \<longleftrightarrow> rg I R p (\<lambda>r. case r of Inl e \<Rightarrow> Q (Inl e) | Inr x \<Rightarrow> rg I R (k x) Q) s"
  by (induction p arbitrary: s) (auto split: sum.split)

lemma rg_await: "rg I R (awaitR m) Q s \<longleftrightarrow> (\<forall>t. R s t \<and> I t \<longrightarrow> R t (snd (m t)) \<and> I (snd (m t)) \<and> Q (fst (m t)) (snd (m t)))"
  by (auto simp: awaitR_def)

lemma rg_guard: "rg I R (guardR c e) Q s \<longleftrightarrow> Q (if c then Inl e else Inr ()) s"
  by (simp add: guardR_def)

lemma rg_throw: "rg I R (throwR e) Q s \<longleftrightarrow> Q (Inl e) s"
  by (simp add: throwR_def)

lemma rg_return: "rg I R (returnR x) Q s \<longleftrightarrow> Q (Inr x) s"
  by (simp add: returnR_def)

lemmas rg_now = rg_guard rg_throw rg_return

lemmas rg_simps = rg_bind rg_await rg_now

lemma rg_weaken: "rg I R p Q s \<Longrightarrow> (\<And>r t. Q r t \<Longrightarrow> Q' r t) \<Longrightarrow> rg I R p Q' s"
  by (induction p arbitrary: s) auto

lemma rg_void: "rg I R p (\<lambda>_ _. True) s \<Longrightarrow> rg I R (voidR p) (\<lambda>_ _. True) s"
  unfolding voidR_def rg_bind by (erule rg_weaken) (simp add: returnR_def split: sum.split)

lemma rg_later:
  assumes "\<And>x y z. R x y \<Longrightarrow> R y z \<Longrightarrow> R x z" "R s t" "rg I R p (\<lambda>_ _. True) s"
  shows "rg I R p (\<lambda>_ _. True) t"
  using assms(2,3) by (cases p) (auto intro: assms(1))

text \<open>Requests that are steady each are steady together.\<close>

theorem interleaved_steady:
  assumes refl: "\<And>x. R x x" and trans: "\<And>x y z. R x y \<Longrightarrow> R y z \<Longrightarrow> R x z"
    and each: "\<And>p. p \<in> A \<Longrightarrow> steadily I R p" and run: "interleaved A s0 s ps" and start: "I s0"
  shows "I s \<and> R s0 s \<and> (\<forall>p \<in> set ps. rg I R p (\<lambda>_ _. True) s)"
  using run [unfolded interleaved_def]
proof (induction "(s, ps)" arbitrary: s ps rule: rtranclp_induct)
  case base
  then show ?case using start refl by simp
next
  case (step c)
  obtain s1 ps1 where c: "c = (s1, ps1)" by (cases c)
  note IH = step.hyps(3) [OF c]
  from step.hyps(2) [unfolded c] show ?case
  proof cases
    case (arrive p)
    then show ?thesis using IH each [of p] by (auto simp: steadily_def)
  next
    case (advance i f k)
    then have "rg I R (Await f k) (\<lambda>_ _. True) s1" using IH by (metis nth_mem)
    then have now: "R s1 (f s1)" "I (f s1)" "rg I R (k s1) (\<lambda>_ _. True) (f s1)" using IH refl by auto
    have "rg I R p (\<lambda>_ _. True) (f s1)" if "p \<in> set ps" for p
    proof (cases "p = k s1")
      case False
      then have "p \<in> set ps1" using that set_update_subset_insert [of ps1 i "k s1"] advance by auto
      then have "rg I R p (\<lambda>_ _. True) s1" using IH by blast
      then show ?thesis by (rule rg_later [of R, rotated 2]) (use trans now(1) in blast)+
    qed (use now in simp)
    then show ?thesis using now IH trans advance by blast
  qed
qed

end
