(* ===== verification/ResultMapping.thy ===== *)
theory ResultMapping
  imports Tiebreak
begin

text \<open>
  \<^verbatim>\<open>src/modules/arbiter/arbiter.types.ts\<close> and \<^verbatim>\<open>result-mapping.ts\<close>: the results an arbiter
  records and the points, statistics, colours and tie-break games they amount to for each
  participant. The statistics are shown consistent with each other and with the results, and
  no point is created or lost between the result table and the standings.
\<close>

section \<open>Types\<close>

datatype PairingResultValue =
  WHITE_WIN | BLACK_WIN | DRAW | WHITE_WIN_FORFEIT | BLACK_WIN_FORFEIT | DOUBLE_FORFEIT
  | BYE_FULL | BYE_HALF | BYE_ZERO | UNPLAYED

definition ENTERABLE_RESULTS :: "PairingResultValue list" where
  "ENTERABLE_RESULTS = [WHITE_WIN, BLACK_WIN, DRAW, WHITE_WIN_FORFEIT, BLACK_WIN_FORFEIT,
     DOUBLE_FORFEIT, BYE_FULL, BYE_HALF, BYE_ZERO]"

definition BYE_RESULTS :: "PairingResultValue list" where
  "BYE_RESULTS = [BYE_FULL, BYE_HALF, BYE_ZERO]"

datatype RoundStatusValue =
  PENDING | PAIRING_IN_PROGRESS | PAIRING_FAILED | PAIRED | IN_PROGRESS | COMPLETED

definition DEFAULT_TIE_BREAK_ORDER :: "TieBreakKey list" where
  "DEFAULT_TIE_BREAK_ORDER = [BUCHHOLZ, BUCHHOLZ_CUT1, SONNEBORN_BERGER, DIRECT_ENCOUNTER, WINS]"

record PairingHistoryEntry =
  heRound :: int
  heWhite :: string
  heBlack :: "string option"
  heResult :: PairingResultValue

record ParticipantSeed =
  psRegistrationId :: string
  psPairingNumber :: int
  psRatingAtEntry :: "int option"
  psWithdrawn :: bool
  psJoinedAtRound :: "int option"

type_synonym Side = GameColor

record SideOutcome =
  soScore :: GameScore
  soPlayedOverBoard :: bool

section \<open>From a result to the outcome of one side\<close>

definition outcome :: "GameScore \<Rightarrow> bool \<Rightarrow> SideOutcome" where
  "outcome s otb = \<lparr>soScore = s, soPlayedOverBoard = otb\<rparr>"

fun outcomeFor :: "PairingResultValue \<Rightarrow> Side \<Rightarrow> SideOutcome option" where
  "outcomeFor WHITE_WIN side = Some (outcome (if side = WHITE then Score1 else Score0) True)"
| "outcomeFor BLACK_WIN side = Some (outcome (if side = WHITE then Score0 else Score1) True)"
| "outcomeFor DRAW side = Some (outcome ScoreHalf True)"
| "outcomeFor WHITE_WIN_FORFEIT side = Some (outcome (if side = WHITE then Score1 else Score0) False)"
| "outcomeFor BLACK_WIN_FORFEIT side = Some (outcome (if side = WHITE then Score0 else Score1) False)"
| "outcomeFor DOUBLE_FORFEIT side = Some (outcome Score0 False)"
| "outcomeFor BYE_FULL side = (if side = WHITE then Some (outcome Score1 False) else None)"
| "outcomeFor BYE_HALF side = (if side = WHITE then Some (outcome ScoreHalf False) else None)"
| "outcomeFor BYE_ZERO side = (if side = WHITE then Some (outcome Score0 False) else None)"
| "outcomeFor UNPLAYED side = None"

definition sideOf :: "PairingHistoryEntry \<Rightarrow> string \<Rightarrow> Side option" where
  "sideOf entry registrationId =
     (if heWhite entry = registrationId then Some WHITE
      else if heBlack entry = Some registrationId then Some BLACK
      else None)"

section \<open>Score views\<close>

record ParticipantScoreView =
  svRegistrationId :: string
  svPoints :: rat
  svWins :: nat
  svDraws :: nat
  svLosses :: nat
  svGamesPlayed :: nat
  svColorHistory :: "Side list"
  svGames :: "GameRecord list"

text \<open>The number \<^verbatim>\<open>0 | 0.5 | 1\<close>.\<close>

fun scoreValue :: "GameScore \<Rightarrow> rat" where
  "scoreValue Score0 = 0"
| "scoreValue ScoreHalf = 1 / 2"
| "scoreValue Score1 = 1"

definition byRound :: "PairingHistoryEntry list \<Rightarrow> PairingHistoryEntry list" where
  "byRound hist = jsSort (\<lambda>a b. heRound a - heRound b) hist"

text \<open>
  The loop body: the accumulators are the fields of the view under construction, the two
  \<^verbatim>\<open>continue\<close> statements its unchanged value.
\<close>

definition viewStep :: "string \<Rightarrow> ParticipantScoreView \<Rightarrow> PairingHistoryEntry \<Rightarrow> ParticipantScoreView" where
  "viewStep registrationId v entry =
     (case sideOf entry registrationId of
        None \<Rightarrow> v
      | Some side \<Rightarrow>
          (case outcomeFor (heResult entry) side of
             None \<Rightarrow> v
           | Some out \<Rightarrow>
               let opponentId = (if side = WHITE then heBlack entry else Some (heWhite entry));
                   game = \<lparr>gOpponentId = opponentId,
                           gColor = (if soPlayedOverBoard out then Some side else None),
                           gResult = soScore out, gPlayedOverBoard = soPlayedOverBoard out\<rparr>
               in v\<lparr>svGames := svGames v @ [game],
                    svPoints := svPoints v + scoreValue (soScore out),
                    svWins := (if soScore out = Score1 then svWins v + 1 else svWins v),
                    svDraws := (if soScore out = ScoreHalf then svDraws v + 1 else svDraws v),
                    svLosses := (if soScore out = Score0 then svLosses v + 1 else svLosses v),
                    svColorHistory := (if soPlayedOverBoard out then svColorHistory v @ [side]
                                       else svColorHistory v)\<rparr>))"

definition emptyView :: "string \<Rightarrow> ParticipantScoreView" where
  "emptyView registrationId =
     \<lparr>svRegistrationId = registrationId, svPoints = 0, svWins = 0, svDraws = 0, svLosses = 0,
      svGamesPlayed = 0, svColorHistory = [], svGames = []\<rparr>"

definition scoreView :: "PairingHistoryEntry list \<Rightarrow> string \<Rightarrow> ParticipantScoreView" where
  "scoreView ordered registrationId =
     (let v = foldl (viewStep registrationId) (emptyView registrationId) ordered
      in v\<lparr>svGamesPlayed := length (svGames v)\<rparr>)"

definition buildScoreViews :: "string list \<Rightarrow> PairingHistoryEntry list \<Rightarrow> ParticipantScoreView list" where
  "buildScoreViews registrationIds hist = (let sorted = byRound hist in map (scoreView sorted) registrationIds)"

section \<open>What one participant gets from one entry\<close>

text \<open>The outcome of a participant in an entry, the sum of points over a history.\<close>

definition outcomeOf :: "string \<Rightarrow> PairingHistoryEntry \<Rightarrow> (Side \<times> SideOutcome) option" where
  "outcomeOf i e = (case sideOf e i of None \<Rightarrow> None
     | Some s \<Rightarrow> (case outcomeFor (heResult e) s of None \<Rightarrow> None | Some out \<Rightarrow> Some (s, out)))"

definition pointsOf :: "string \<Rightarrow> PairingHistoryEntry \<Rightarrow> rat" where
  "pointsOf i e = (case outcomeOf i e of None \<Rightarrow> 0 | Some (s, out) \<Rightarrow> scoreValue (soScore out))"

definition gameOf :: "PairingHistoryEntry \<Rightarrow> Side \<times> SideOutcome \<Rightarrow> GameRecord" where
  "gameOf e so = \<lparr>gOpponentId = (if fst so = WHITE then heBlack e else Some (heWhite e)),
     gColor = (if soPlayedOverBoard (snd so) then Some (fst so) else None),
     gResult = soScore (snd so), gPlayedOverBoard = soPlayedOverBoard (snd so)\<rparr>"

definition countOutcomes :: "GameScore \<Rightarrow> string \<Rightarrow> PairingHistoryEntry list \<Rightarrow> nat" where
  "countOutcomes s i es = length (filter (\<lambda>e. \<exists>c out. outcomeOf i e = Some (c, out) \<and> soScore out = s) es)"

definition boardColors :: "string \<Rightarrow> PairingHistoryEntry list \<Rightarrow> Side list" where
  "boardColors i es = List.map_filter (\<lambda>e. case outcomeOf i e of
     Some (s, out) \<Rightarrow> if soPlayedOverBoard out then Some s else None | None \<Rightarrow> None) es"

definition gamesOf :: "string \<Rightarrow> PairingHistoryEntry list \<Rightarrow> GameRecord list" where
  "gamesOf i es = List.map_filter (\<lambda>e. map_option (gameOf e) (outcomeOf i e)) es"

lemma viewStep_None: "outcomeOf i e = None \<Longrightarrow> viewStep i v e = v"
  by (auto simp: viewStep_def outcomeOf_def split: option.splits)

lemma viewStep_Some:
  assumes "outcomeOf i e = Some (s, out)"
  shows "viewStep i v e =
     v\<lparr>svGames := svGames v @ [gameOf e (s, out)], svPoints := svPoints v + scoreValue (soScore out),
       svWins := (if soScore out = Score1 then svWins v + 1 else svWins v),
       svDraws := (if soScore out = ScoreHalf then svDraws v + 1 else svDraws v),
       svLosses := (if soScore out = Score0 then svLosses v + 1 else svLosses v),
       svColorHistory := (if soPlayedOverBoard out then svColorHistory v @ [s] else svColorHistory v)\<rparr>"
proof -
  have "sideOf e i = Some s" "outcomeFor (heResult e) s = Some out"
    using assms by (simp_all add: outcomeOf_def split: option.splits)
  then show ?thesis unfolding viewStep_def gameOf_def Let_def by simp
qed

lemma history_Nil [simp]:
  "gamesOf i [] = []" "countOutcomes r i [] = 0" "boardColors i [] = []"
  by (simp_all add: gamesOf_def countOutcomes_def boardColors_def map_filter_simps)

lemma history_None:
  assumes "outcomeOf i e = None"
  shows "gamesOf i (e # es) = gamesOf i es" "countOutcomes r i (e # es) = countOutcomes r i es"
    "boardColors i (e # es) = boardColors i es" "pointsOf i e = 0"
  using assms by (simp_all add: gamesOf_def countOutcomes_def boardColors_def map_filter_simps pointsOf_def)

lemma history_Some:
  assumes "outcomeOf i e = Some (s, out)"
  shows "gamesOf i (e # es) = gameOf e (s, out) # gamesOf i es"
    "countOutcomes r i (e # es) = (if soScore out = r then 1 else 0) + countOutcomes r i es"
    "boardColors i (e # es) = (if soPlayedOverBoard out then s # boardColors i es else boardColors i es)"
    "pointsOf i e = scoreValue (soScore out)"
  using assms by (simp_all add: gamesOf_def countOutcomes_def boardColors_def map_filter_simps pointsOf_def)

lemma foldl_viewStep:
  "foldl (viewStep i) v es =
     v\<lparr>svGames := svGames v @ gamesOf i es, svPoints := svPoints v + (\<Sum>e \<leftarrow> es. pointsOf i e),
       svWins := svWins v + countOutcomes Score1 i es, svDraws := svDraws v + countOutcomes ScoreHalf i es,
       svLosses := svLosses v + countOutcomes Score0 i es,
       svColorHistory := svColorHistory v @ boardColors i es\<rparr>"
proof (induction es arbitrary: v)
  case (Cons e es)
  show ?case
  proof (cases "outcomeOf i e")
    case None
    then show ?thesis by (simp add: viewStep_None Cons.IH history_None)
  next
    case (Some so)
    obtain s out where so: "so = (s, out)" by fastforce
    note oc = Some[unfolded so]
    show ?thesis unfolding foldl.simps viewStep_Some[OF oc] Cons.IH history_Some(1-3)[OF oc]
      by (simp add: history_Some(4)[OF oc] add.assoc)
  qed
qed simp

lemma scoreView_eq:
  "scoreView es i = \<lparr>svRegistrationId = i, svPoints = (\<Sum>e \<leftarrow> es. pointsOf i e),
     svWins = countOutcomes Score1 i es, svDraws = countOutcomes ScoreHalf i es,
     svLosses = countOutcomes Score0 i es, svGamesPlayed = length (gamesOf i es),
     svColorHistory = boardColors i es, svGames = gamesOf i es\<rparr>"
  by (simp add: scoreView_def foldl_viewStep emptyView_def)

lemma buildScoreViews_eq: "buildScoreViews ids hist = map (scoreView (byRound hist)) ids"
  by (simp add: buildScoreViews_def)

lemma mset_byRound [simp]: "mset (byRound hist) = mset hist"
  by (simp add: byRound_def)

lemma set_byRound [simp]: "set (byRound hist) = set hist"
  by (simp add: byRound_def)

lemma sum_byRound: "(\<Sum>e \<leftarrow> byRound hist. f e) = (\<Sum>e \<leftarrow> hist. f e :: 'a :: comm_monoid_add)"
  by (metis mset_byRound mset_map sum_mset_sum_list)

lemma statistics_add_up:
  "(\<Sum>e \<leftarrow> es. pointsOf i e) = of_nat (countOutcomes Score1 i es) + of_nat (countOutcomes ScoreHalf i es) / 2"
  "length (gamesOf i es) = countOutcomes Score1 i es + countOutcomes ScoreHalf i es + countOutcomes Score0 i es"
  "boardColors i es = map (\<lambda>g. the (gColor g)) (filter gPlayedOverBoard (gamesOf i es))"
  "(\<Sum>e \<leftarrow> es. pointsOf i e) = (\<Sum>g \<leftarrow> gamesOf i es. scoreValue (gResult g))"
proof (induction es)
  case (Cons e es)
  {
    fix P
    assume "outcomeOf i e = None \<Longrightarrow> P" "\<And>s out. outcomeOf i e = Some (s, out) \<Longrightarrow> P"
    then have P by (cases "outcomeOf i e") auto
  }
  note cs = this
  {
    case 1
    show ?case
    proof (rule cs)
      fix s out assume "outcomeOf i e = Some (s, out)"
      then show ?thesis using Cons(1) by (cases "soScore out") (simp_all add: history_Some add_divide_distrib)
    qed (simp add: history_None Cons(1))
  next
    case 2
    show ?case
    proof (rule cs)
      fix s out assume "outcomeOf i e = Some (s, out)"
      then show ?thesis using Cons(2) by (cases "soScore out") (simp_all add: history_Some)
    qed (simp add: history_None Cons(2))
  next
    case 3
    show ?case
    proof (rule cs)
      fix s out assume "outcomeOf i e = Some (s, out)"
      then show ?thesis using Cons(3) by (simp add: history_Some gameOf_def)
    qed (simp add: history_None Cons(3))
  next
    case 4
    show ?case
    proof (rule cs)
      fix s out assume "outcomeOf i e = Some (s, out)"
      then show ?thesis using Cons(4) by (simp add: history_Some gameOf_def)
    qed (simp add: history_None Cons(4))
  }
qed simp_all

text \<open>The points a result awards: to white, and to black where there is one.\<close>

definition awarded :: "PairingHistoryEntry \<Rightarrow> rat" where
  "awarded e = (case outcomeFor (heResult e) WHITE of None \<Rightarrow> 0 | Some out \<Rightarrow> scoreValue (soScore out))
     + (case (heBlack e, outcomeFor (heResult e) BLACK) of
          (Some b, Some out) \<Rightarrow> scoreValue (soScore out) | _ \<Rightarrow> 0)"

definition entryOk :: "string set \<Rightarrow> PairingHistoryEntry \<Rightarrow> bool" where
  "entryOk ids e \<longleftrightarrow> heWhite e \<in> ids \<and> set_option (heBlack e) \<subseteq> ids \<and> heBlack e \<noteq> Some (heWhite e)"

lemma pointsOf_white: "pointsOf (heWhite e) e
    = (case outcomeFor (heResult e) WHITE of None \<Rightarrow> 0 | Some out \<Rightarrow> scoreValue (soScore out))"
  by (simp add: pointsOf_def outcomeOf_def sideOf_def split: option.splits)

lemma pointsOf_black: "heBlack e = Some b \<Longrightarrow> b \<noteq> heWhite e \<Longrightarrow> pointsOf b e
    = (case outcomeFor (heResult e) BLACK of None \<Rightarrow> 0 | Some out \<Rightarrow> scoreValue (soScore out))"
  by (auto simp: pointsOf_def outcomeOf_def sideOf_def split: option.splits)

lemma pointsOf_other: "i \<noteq> heWhite e \<Longrightarrow> heBlack e \<noteq> Some i \<Longrightarrow> pointsOf i e = 0"
  by (auto simp: pointsOf_def outcomeOf_def sideOf_def)

lemma sum_entry:
  assumes "distinct ids" "entryOk (set ids) e"
  shows "(\<Sum>i \<leftarrow> ids. pointsOf i e) = awarded e"
proof -
  let ?S = "insert (heWhite e) (set_option (heBlack e))"
  have "(\<Sum>i \<leftarrow> ids. pointsOf i e) = (\<Sum>i \<in> set ids. pointsOf i e)"
    by (rule sum_list_distinct_conv_sum_set[OF assms(1)])
  also have "\<dots> = (\<Sum>i \<in> ?S. pointsOf i e)"
    using assms(2) by (intro sum.mono_neutral_right) (auto simp: entryOk_def intro: pointsOf_other)
  also have "\<dots> = awarded e"
  proof (cases "heBlack e")
    case None
    then show ?thesis by (simp add: pointsOf_white awarded_def)
  next
    case (Some b)
    then have "b \<noteq> heWhite e" using assms(2) by (auto simp: entryOk_def)
    then show ?thesis using Some
      by (simp add: pointsOf_white pointsOf_black[OF Some] awarded_def split: option.splits)
  qed
  finally show ?thesis .
qed

lemma points_conserved_list:
  assumes "distinct ids" "\<forall>e \<in> set hist. entryOk (set ids) e"
  shows "(\<Sum>v \<leftarrow> buildScoreViews ids hist. svPoints v) = (\<Sum>e \<leftarrow> hist. awarded e)"
proof -
  have "(\<Sum>v \<leftarrow> buildScoreViews ids hist. svPoints v) = (\<Sum>i \<leftarrow> ids. \<Sum>e \<leftarrow> hist. pointsOf i e)"
    by (simp add: buildScoreViews_eq scoreView_eq sum_byRound comp_def)
  also have "\<dots> = (\<Sum>e \<leftarrow> hist. \<Sum>i \<leftarrow> ids. pointsOf i e)"
    by (induction hist) (simp_all add: sum_list_addf)
  also have "\<dots> = (\<Sum>e \<leftarrow> hist. awarded e)"
    using assms sum_entry by (intro arg_cong[where f = sum_list] map_cong) auto
  finally show ?thesis .
qed

section \<open>Properties\<close>

text \<open>
  No point appears or disappears between the result table and the standings: when every
  entry is between listed participants, the points of all views add up to the points the
  results award.
\<close>
theorem standings_conserve_points:
  assumes "distinct ids" "\<forall>e \<in> set hist. entryOk (set ids) e"
  shows "(\<Sum>v \<leftarrow> buildScoreViews ids hist. svPoints v) = (\<Sum>e \<leftarrow> hist. awarded e)"
  using assms by (rule points_conserved_list)

text \<open>
  The figures of one participant agree with each other: points are wins plus half the
  draws and the sum over the recorded games, every counted game is a win, a draw or a loss,
  and the colour history is the colours of the games played over the board, in order.
\<close>
theorem score_view_consistent:
  "list_all (\<lambda>v. svPoints v = of_nat (svWins v) + of_nat (svDraws v) / 2
      \<and> svPoints v = (\<Sum>g \<leftarrow> svGames v. scoreValue (gResult g))
      \<and> svGamesPlayed v = svWins v + svDraws v + svLosses v
      \<and> svGamesPlayed v = length (svGames v)
      \<and> svColorHistory v = map (\<lambda>g. the (gColor g)) (filter gPlayedOverBoard (svGames v)))
    (buildScoreViews ids hist)"
  by (simp add: list_all_iff buildScoreViews_eq scoreView_eq statistics_add_up[symmetric])

theorem standings_conserve_points_witness:
  "(\<Sum>v \<leftarrow> buildScoreViews [''a'', ''b'', ''c'']
      [\<lparr>heRound = 1, heWhite = ''a'', heBlack = Some ''b'', heResult = DRAW\<rparr>,
       \<lparr>heRound = 1, heWhite = ''c'', heBlack = None, heResult = BYE_FULL\<rparr>]. svPoints v) = 2"
  by (subst standings_conserve_points) (simp_all add: entryOk_def awarded_def outcome_def)

end
