(* ===== verification/PairingState.thy ===== *)
theory PairingState
  imports PairingTypes ResultMapping
begin

text \<open>
  \<^verbatim>\<open>src/modules/arbiter/pairing-state.builder.ts\<close>: the pairing history of a section turned
  into the engine's player states, in the two passes of the code: floats round by round with
  the points at the start of each round, then points, opponents, colours and the bye block
  per participant. The states are shown to agree with the standings, the opponent sets to be
  symmetric, and the float history to be what Article 1.4 says of every round.
\<close>

section \<open>First pass: floats\<close>

definition maxRoundOf :: "PairingHistoryEntry list \<Rightarrow> int" where
  "maxRoundOf ordered = foldl (\<lambda>acc e. max acc (heRound e)) 0 ordered"

definition bucketStep ::
  "(int \<rightharpoonup> PairingHistoryEntry list) \<Rightarrow> PairingHistoryEntry \<Rightarrow> (int \<rightharpoonup> PairingHistoryEntry list)" where
  "bucketStep m entry =
     (case m (heRound entry) of
        None \<Rightarrow> m(heRound entry \<mapsto> [entry])
      | Some bucket \<Rightarrow> m(heRound entry \<mapsto> bucket @ [entry]))"

type_synonym floatArrays = "string \<rightharpoonup> FloatDirection list"

definition initFloats :: "ParticipantSeed list \<Rightarrow> int \<Rightarrow> floatArrays" where
  "initFloats seeds maxRound =
     foldl (\<lambda>m p. m(psRegistrationId p \<mapsto> replicate (nat maxRound) NoFloat)) Map.empty seeds"

definition runningOf :: "(string \<rightharpoonup> rat) \<Rightarrow> string \<Rightarrow> rat" where
  "runningOf running i = (case running i of Some x \<Rightarrow> x | None \<Rightarrow> 0)"

definition addPoints :: "(string \<rightharpoonup> rat) \<Rightarrow> string \<Rightarrow> rat \<Rightarrow> (string \<rightharpoonup> rat)" where
  "addPoints running i score = running(i \<mapsto> runningOf running i + score)"

definition setFloat :: "int \<Rightarrow> string \<Rightarrow> FloatDirection \<Rightarrow> floatArrays \<Rightarrow> floatArrays" where
  "setFloat r i d arrays =
     (case arrays i of Some arr \<Rightarrow> arrays(i \<mapsto> arr[nat (r - 1) := d]) | None \<Rightarrow> arrays)"

definition floatStep ::
  "int \<Rightarrow> (string \<rightharpoonup> rat) \<Rightarrow> floatArrays \<Rightarrow> PairingHistoryEntry \<Rightarrow> floatArrays" where
  "floatStep r running arrays entry =
     (case heBlack entry of
        None \<Rightarrow>
          if heResult entry = BYE_FULL \<or> heResult entry = BYE_HALF
          then setFloat r (heWhite entry) Down arrays else arrays
      | Some black \<Rightarrow>
          (if heResult entry \<in> {WHITE_WIN, BLACK_WIN, DRAW} then
             let pw = runningOf running (heWhite entry); pb = runningOf running black
             in if pw > pb then setFloat r black Up (setFloat r (heWhite entry) Down arrays)
                else if pb > pw then setFloat r (heWhite entry) Up (setFloat r black Down arrays)
                else arrays
           else if heResult entry = WHITE_WIN_FORFEIT then setFloat r (heWhite entry) Down arrays
           else if heResult entry = BLACK_WIN_FORFEIT then setFloat r black Down arrays
           else arrays))"

definition scoreStep :: "(string \<rightharpoonup> rat) \<Rightarrow> PairingHistoryEntry \<Rightarrow> (string \<rightharpoonup> rat)" where
  "scoreStep running entry =
     (let running1 = (case outcomeFor (heResult entry) WHITE of
                        Some out \<Rightarrow> addPoints running (heWhite entry) (scoreValue (soScore out))
                      | None \<Rightarrow> running)
      in case heBlack entry of
           None \<Rightarrow> running1
         | Some black \<Rightarrow>
             (case outcomeFor (heResult entry) BLACK of
                Some out \<Rightarrow> addPoints running1 black (scoreValue (soScore out))
              | None \<Rightarrow> running1))"

definition roundStep ::
  "(int \<rightharpoonup> PairingHistoryEntry list) \<Rightarrow> floatArrays \<times> (string \<rightharpoonup> rat) \<Rightarrow> int
   \<Rightarrow> floatArrays \<times> (string \<rightharpoonup> rat)" where
  "roundStep buckets st r =
     (let entries = (case buckets r of Some es \<Rightarrow> es | None \<Rightarrow> []);
          arrays = foldl (floatStep r (snd st)) (fst st) entries;
          running = foldl scoreStep (snd st) entries
      in (arrays, running))"

definition floatPass :: "ParticipantSeed list \<Rightarrow> PairingHistoryEntry list \<Rightarrow> floatArrays" where
  "floatPass seeds ordered =
     (let maxRound = maxRoundOf ordered;
          buckets = foldl bucketStep Map.empty ordered
      in fst (foldl (roundStep buckets) (initFloats seeds maxRound, Map.empty) [1..maxRound]))"

section \<open>Second pass: one state per participant\<close>

record StateAcc =
  acPoints :: rat
  acBye :: bool
  acOpponents :: "string set"
  acColors :: "Color list"

definition accStep :: "string \<Rightarrow> StateAcc \<Rightarrow> PairingHistoryEntry \<Rightarrow> StateAcc" where
  "accStep i acc entry =
     (case sideOf entry i of
        None \<Rightarrow> acc
      | Some side \<Rightarrow>
          let acc1 =
            (case heBlack entry of
               None \<Rightarrow> if heResult entry = BYE_FULL then acc\<lparr>acBye := True\<rparr> else acc
             | Some black \<Rightarrow>
                 let opponentId = (if side = WHITE then black else heWhite entry);
                     acc0 = acc\<lparr>acOpponents := insert opponentId (acOpponents acc)\<rparr>
                 in if side = WHITE \<and> heResult entry = WHITE_WIN_FORFEIT
                       \<or> side = BLACK \<and> heResult entry = BLACK_WIN_FORFEIT
                    then acc0\<lparr>acBye := True\<rparr> else acc0)
          in case outcomeFor (heResult entry) side of
               None \<Rightarrow> acc1
             | Some out \<Rightarrow>
                 acc1\<lparr>acPoints := acPoints acc1 + scoreValue (soScore out),
                   acColors := (if soPlayedOverBoard out
                                then acColors acc1 @ [if side = WHITE then White else Black]
                                else acColors acc1)\<rparr>)"

definition stateOf :: "PairingHistoryEntry list \<Rightarrow> floatArrays \<Rightarrow> ParticipantSeed \<Rightarrow> PlayerPairingState" where
  "stateOf ordered arrays p =
     (let acc = foldl (accStep (psRegistrationId p))
                  \<lparr>acPoints = 0, acBye = False, acOpponents = {}, acColors = []\<rparr> ordered
      in \<lparr>playerId = psRegistrationId p, pairingNumber = psPairingNumber p,
          rating = (case psRatingAtEntry p of Some x \<Rightarrow> x | None \<Rightarrow> 0),
          points = acPoints acc, opponentIds = acOpponents acc, colorHistory = acColors acc,
          floatHistory = (case arrays (psRegistrationId p) of Some arr \<Rightarrow> arr | None \<Rightarrow> []),
          hasReceivedBye = acBye acc, isWithdrawn = psWithdrawn p,
          joinedAtRound = (case psJoinedAtRound p of Some r \<Rightarrow> r | None \<Rightarrow> 1)\<rparr>)"

definition buildPairingStates ::
  "ParticipantSeed list \<Rightarrow> PairingHistoryEntry list \<Rightarrow> PlayerPairingState list" where
  "buildPairingStates seeds hist =
     (let ordered = byRound hist; arrays = floatPass seeds ordered
      in map (stateOf ordered arrays) seeds)"

section \<open>The second pass in closed form\<close>

definition opponentsOf :: "string \<Rightarrow> PairingHistoryEntry list \<Rightarrow> string set" where
  "opponentsOf i es = {j. \<exists>e \<in> set es. heWhite e = i \<and> heBlack e = Some j
                         \<or> heBlack e = Some i \<and> heWhite e = j \<and> heWhite e \<noteq> i}"

text \<open>A full point without a game: the full-point bye or a win by forfeit.\<close>

definition unplayedWin :: "string \<Rightarrow> PairingHistoryEntry \<Rightarrow> bool" where
  "unplayedWin i e \<longleftrightarrow>
     heWhite e = i \<and> (heBlack e = None \<and> heResult e = BYE_FULL \<or> heBlack e \<noteq> None \<and> heResult e = WHITE_WIN_FORFEIT)
     \<or> heBlack e = Some i \<and> heWhite e \<noteq> i \<and> heResult e = BLACK_WIN_FORFEIT"

fun toColor :: "Side \<Rightarrow> Color" where
  "toColor WHITE = White" | "toColor BLACK = Black"

lemma sideOf_iff:
  "sideOf e i = Some WHITE \<longleftrightarrow> heWhite e = i"
  "sideOf e i = Some BLACK \<longleftrightarrow> heWhite e \<noteq> i \<and> heBlack e = Some i"
  "sideOf e i = None \<longleftrightarrow> heWhite e \<noteq> i \<and> heBlack e \<noteq> Some i"
  by (simp_all add: sideOf_def)

lemma sideOf_cases:
  assumes "sideOf e i = None \<Longrightarrow> heWhite e \<noteq> i \<Longrightarrow> heBlack e \<noteq> Some i \<Longrightarrow> P"
    and "sideOf e i = Some WHITE \<Longrightarrow> heWhite e = i \<Longrightarrow> P"
    and "sideOf e i = Some BLACK \<Longrightarrow> heWhite e \<noteq> i \<Longrightarrow> heBlack e = Some i \<Longrightarrow> P"
  shows P
proof (cases "sideOf e i")
  case None
  then show P using assms(1) by (simp add: sideOf_iff)
next
  case (Some s)
  then show P using assms(2,3) by (cases s) (simp_all add: sideOf_iff)
qed

lemma accStep_points: "acPoints (accStep i acc e) = acPoints acc + pointsOf i e"
proof (cases "sideOf e i")
  case None
  then show ?thesis by (simp add: accStep_def pointsOf_def outcomeOf_def)
next
  case (Some s)
  then show ?thesis
    by (cases "heBlack e"; cases "outcomeFor (heResult e) s")
      (simp_all add: accStep_def pointsOf_def outcomeOf_def Let_def)
qed

lemma accStep_colors: "acColors (accStep i acc e) = acColors acc @ map toColor (boardColors i [e])"
proof (cases "sideOf e i")
  case None
  then show ?thesis by (simp add: accStep_def boardColors_def map_filter_simps outcomeOf_def)
next
  case (Some s)
  then show ?thesis
    by (cases "heBlack e"; cases "outcomeFor (heResult e) s"; cases s)
      (simp_all add: accStep_def boardColors_def map_filter_simps outcomeOf_def Let_def)
qed

lemma accStep_bye: "acBye (accStep i acc e) \<longleftrightarrow> acBye acc \<or> unplayedWin i e"
  by (rule sideOf_cases[of e i]; cases "heBlack e"; cases "outcomeFor (heResult e) (the (sideOf e i))")
    (auto simp add: accStep_def unplayedWin_def Let_def)

lemma accStep_opponents: "acOpponents (accStep i acc e) = acOpponents acc \<union> opponentsOf i [e]"
  by (rule sideOf_cases[of e i]; cases "heBlack e"; cases "outcomeFor (heResult e) (the (sideOf e i))")
    (auto simp add: accStep_def opponentsOf_def Let_def)

lemma boardColors_Cons: "boardColors i (e # es) = boardColors i [e] @ boardColors i es"
  by (simp add: boardColors_def map_filter_simps split: option.split)

lemma opponentsOf_Cons: "opponentsOf i (e # es) = opponentsOf i [e] \<union> opponentsOf i es"
  by (auto simp: opponentsOf_def)

lemma foldl_accStep:
  "acPoints (foldl (accStep i) acc es) = acPoints acc + (\<Sum>e \<leftarrow> es. pointsOf i e)"
  "acBye (foldl (accStep i) acc es) \<longleftrightarrow> acBye acc \<or> (\<exists>e \<in> set es. unplayedWin i e)"
  "acOpponents (foldl (accStep i) acc es) = acOpponents acc \<union> opponentsOf i es"
  "acColors (foldl (accStep i) acc es) = acColors acc @ map toColor (boardColors i es)"
proof (induction es arbitrary: acc)
  case Nil
  {
    case 1 show ?case by simp
  next
    case 2 show ?case by simp
  next
    case 3 show ?case by (simp add: opponentsOf_def)
  next
    case 4 show ?case by simp
  }
next
  case (Cons e es)
  {
    case 1 show ?case by (simp add: Cons(1) accStep_points)
  next
    case 2 show ?case by (simp add: Cons(2) accStep_bye)
  next
    case 3 show ?case
      by (simp add: Cons(3) accStep_opponents opponentsOf_Cons[of i e es] Un_assoc)
  next
    case 4 show ?case by (simp add: Cons(4) accStep_colors boardColors_Cons[of i e es])
  }
qed

lemma stateOf_eq:
  "playerId (stateOf es arrays p) = psRegistrationId p"
  "points (stateOf es arrays p) = (\<Sum>e \<leftarrow> es. pointsOf (psRegistrationId p) e)"
  "opponentIds (stateOf es arrays p) = opponentsOf (psRegistrationId p) es"
  "colorHistory (stateOf es arrays p) = map toColor (boardColors (psRegistrationId p) es)"
  "hasReceivedBye (stateOf es arrays p) \<longleftrightarrow> (\<exists>e \<in> set es. unplayedWin (psRegistrationId p) e)"
  "isWithdrawn (stateOf es arrays p) = psWithdrawn p"
  "pairingNumber (stateOf es arrays p) = psPairingNumber p"
  "floatHistory (stateOf es arrays p) = (case arrays (psRegistrationId p) of Some arr \<Rightarrow> arr | None \<Rightarrow> [])"
  by (simp_all add: stateOf_def Let_def foldl_accStep)

lemma opponentsOf_sym: "\<forall>e \<in> set es. heBlack e \<noteq> Some (heWhite e) \<Longrightarrow> j \<in> opponentsOf i es \<longleftrightarrow> i \<in> opponentsOf j es"
  by (auto simp: opponentsOf_def)

section \<open>The first pass in closed form\<close>

lemma bucket_of:
  "foldl bucketStep m es r =
     (let new = filter (\<lambda>e. heRound e = r) es
      in case m r of None \<Rightarrow> if new = [] then None else Some new | Some old \<Rightarrow> Some (old @ new))"
proof (induction es arbitrary: m)
  case Nil
  then show ?case by (simp add: Let_def split: option.splits)
next
  case (Cons e es)
  then show ?case
    by (cases "m r"; cases "m (heRound e)"; cases "heRound e = r") (simp_all add: bucketStep_def Let_def)
qed

lemma runningOf_add: "runningOf (addPoints run i x) j = runningOf run j + (if j = i then x else 0)"
  by (simp add: runningOf_def addPoints_def)

lemma runningOf_score:
  assumes "heBlack e \<noteq> Some (heWhite e)"
  shows "runningOf (scoreStep run e) j = runningOf run j + pointsOf j e"
proof -
  have p: "pointsOf j e = (case sideOf e j of None \<Rightarrow> 0
      | Some s \<Rightarrow> (case outcomeFor (heResult e) s of None \<Rightarrow> 0 | Some out \<Rightarrow> scoreValue (soScore out)))"
    by (simp add: pointsOf_def outcomeOf_def split: option.splits)
  show ?thesis unfolding p scoreStep_def Let_def
    by (rule sideOf_cases[of e j]; cases "heBlack e"; cases "outcomeFor (heResult e) WHITE";
        cases "outcomeFor (heResult e) BLACK")
      (use assms in \<open>simp_all add: runningOf_add\<close>)
qed

lemma runningOf_scores:
  "\<forall>e \<in> set es. heBlack e \<noteq> Some (heWhite e) \<Longrightarrow>
   runningOf (foldl scoreStep run es) j = runningOf run j + (\<Sum>e \<leftarrow> es. pointsOf j e)"
  by (induction es arbitrary: run) (simp_all add: runningOf_score add.assoc)

text \<open>The float an entry gives a player, for points \<open>b\<close> at the start of the round.\<close>

definition floatOpt :: "(string \<Rightarrow> rat) \<Rightarrow> string \<Rightarrow> PairingHistoryEntry \<Rightarrow> FloatDirection option" where
  "floatOpt b i e =
     (case sideOf e i of
        None \<Rightarrow> None
      | Some s \<Rightarrow>
          (case heBlack e of
             None \<Rightarrow> if heResult e = BYE_FULL \<or> heResult e = BYE_HALF then Some Down else None
           | Some black \<Rightarrow>
               let opp = (if s = WHITE then black else heWhite e)
               in if heResult e \<in> {WHITE_WIN, BLACK_WIN, DRAW}
                  then (if b i > b opp then Some Down else if b i < b opp then Some Up else None)
                  else if s = WHITE \<and> heResult e = WHITE_WIN_FORFEIT
                          \<or> s = BLACK \<and> heResult e = BLACK_WIN_FORFEIT then Some Down
                  else None))"

definition putFloat :: "nat \<Rightarrow> FloatDirection option \<Rightarrow> FloatDirection list \<Rightarrow> FloatDirection list" where
  "putFloat n d arr = (case d of None \<Rightarrow> arr | Some x \<Rightarrow> arr[n := x])"

lemma setFloat_at:
  "setFloat r i d arrays j = (if j = i then map_option (\<lambda>arr. arr[nat (r - 1) := d]) (arrays j) else arrays j)"
  by (simp add: setFloat_def split: option.splits)

lemma floatStep_at:
  assumes "heBlack e \<noteq> Some (heWhite e)"
  shows "floatStep r run arrays e j = map_option (putFloat (nat (r - 1)) (floatOpt (runningOf run) j e)) (arrays j)"
proof -
  have n: "map_option (putFloat k None) x = x" "map_option (putFloat k (Some d)) x = map_option (\<lambda>arr. arr[k := d]) x"
    for k d x by (cases x; simp add: putFloat_def)+
  show ?thesis
  proof (cases "heBlack e")
    case None
    then show ?thesis
      by (rule_tac sideOf_cases[of e j]) (simp_all add: floatStep_def floatOpt_def setFloat_at n)
  next
    case (Some black)
    then have "black \<noteq> heWhite e" using assms by simp
    with Some show ?thesis
      by (rule_tac sideOf_cases[of e j]; cases "heResult e")
        (auto simp: floatStep_def floatOpt_def setFloat_at n Let_def)
  qed
qed

lemma foldl_floatStep_at:
  assumes "\<forall>e \<in> set es. heBlack e \<noteq> Some (heWhite e)"
  shows "foldl (floatStep r run) arrays es j =
    map_option (\<lambda>arr. foldl (\<lambda>arr e. putFloat (nat (r - 1)) (floatOpt (runningOf run) j e) arr) arr es) (arrays j)"
  using assms
  by (induction es arbitrary: arrays) (simp_all add: floatStep_at option.map_comp comp_def option.map_ident)

lemma foldl_putFloat_filter:
  "foldl (\<lambda>arr e. putFloat n (floatOpt b j e) arr) arr es =
   foldl (\<lambda>arr e. putFloat n (floatOpt b j e) arr) arr (filter (\<lambda>e. sideOf e j \<noteq> None) es)"
proof (induction es arbitrary: arr)
  case (Cons e es)
  have "floatOpt b j e = None" if "sideOf e j = None" using that by (simp add: floatOpt_def)
  then show ?case using Cons by (cases "sideOf e j") (simp_all add: putFloat_def)
qed simp

definition pointsBefore :: "PairingHistoryEntry list \<Rightarrow> int \<Rightarrow> string \<Rightarrow> rat" where
  "pointsBefore hist r i = (\<Sum>e \<leftarrow> filter (\<lambda>e. 1 \<le> heRound e \<and> heRound e < r) hist. pointsOf i e)"

text \<open>Article 1.4 for one round: the player's entry of the round decides, no entry means no float.\<close>

definition floatOfRound :: "PairingHistoryEntry list \<Rightarrow> string \<Rightarrow> int \<Rightarrow> FloatDirection" where
  "floatOfRound hist i r =
     (case filter (\<lambda>e. heRound e = r \<and> sideOf e i \<noteq> None) hist of
        [] \<Rightarrow> NoFloat
      | e # _ \<Rightarrow> (case floatOpt (pointsBefore hist r) i e of None \<Rightarrow> NoFloat | Some d \<Rightarrow> d))"

definition onceARound :: "string \<Rightarrow> PairingHistoryEntry list \<Rightarrow> bool" where
  "onceARound i hist \<longleftrightarrow> (\<forall>r. length (filter (\<lambda>e. heRound e = r \<and> sideOf e i \<noteq> None) hist) \<le> 1)"

lemma pointsBefore_Suc:
  "0 \<le> k \<Longrightarrow> pointsBefore es (k + 1 + 1) j
     = pointsBefore es (k + 1) j + (\<Sum>e \<leftarrow> filter (\<lambda>e. heRound e = k + 1) es. pointsOf j e)"
  by (induction es) (auto simp: pointsBefore_def)

lemma roundStep_eq:
  "roundStep (foldl bucketStep Map.empty es) st r =
     (let entries = filter (\<lambda>e. heRound e = r) es
      in (foldl (floatStep r (snd st)) (fst st) entries, foldl scoreStep (snd st) entries))"
  by (simp add: roundStep_def bucket_of Let_def)

lemma rounds_invariant:
  fixes n k :: nat and es :: "PairingHistoryEntry list" and i :: string
  assumes opp: "\<forall>e \<in> set es. heBlack e \<noteq> Some (heWhite e)"
    and once: "onceARound i es"
    and start: "arrays0 i = Some (replicate n NoFloat)"
    and k: "k \<le> n"
  defines "run \<equiv> \<lambda>k :: nat. foldl (roundStep (foldl bucketStep Map.empty es)) (arrays0, Map.empty) [1..int k]"
  shows "(\<forall>j. runningOf (snd (run k)) j = pointsBefore es (int k + 1) j) \<and>
    (\<exists>arr. fst (run k) i = Some arr \<and> length arr = n \<and>
       (\<forall>m < n. arr ! m = (if m < k then floatOfRound es i (int m + 1) else NoFloat)))"
  using k
proof (induction k)
  case 0
  have "pointsBefore es 1 j = 0" for j by (induction es) (auto simp: pointsBefore_def)
  then show ?case using start by (auto simp: run_def runningOf_def)
next
  case (Suc k)
  then obtain arr where R: "\<forall>j. runningOf (snd (run k)) j = pointsBefore es (int k + 1) j"
    and arr: "fst (run k) i = Some arr" "length arr = n"
      "\<forall>m < n. arr ! m = (if m < k then floatOfRound es i (int m + 1) else NoFloat)" by auto
  let ?new = "filter (\<lambda>e. heRound e = int k + 1) es"
  have "[1..int (Suc k)] = [1..int k] @ [int k + 1]" by (simp add: upto_rec2)
  then have step: "run (Suc k) = (foldl (floatStep (int k + 1) (snd (run k))) (fst (run k)) ?new,
      foldl scoreStep (snd (run k)) ?new)"
    unfolding run_def by (simp add: roundStep_eq Let_def)
  have ok: "\<forall>e \<in> set ?new. heBlack e \<noteq> Some (heWhite e)" using opp by simp
  have "runningOf (snd (run (Suc k))) j = pointsBefore es (int (Suc k) + 1) j" for j
  proof -
    have "int (Suc k) + 1 = int k + 1 + 1" by simp
    then show ?thesis
      unfolding step snd_conv runningOf_scores[OF ok] using R pointsBefore_Suc[of "int k" es j] by simp
  qed
  moreover have "\<exists>arr. fst (run (Suc k)) i = Some arr \<and> length arr = n \<and>
       (\<forall>m < n. arr ! m = (if m < Suc k then floatOfRound es i (int m + 1) else NoFloat))"
  proof -
    let ?mine = "filter (\<lambda>e. heRound e = int k + 1 \<and> sideOf e i \<noteq> None) es"
    have b: "runningOf (snd (run k)) = pointsBefore es (int k + 1)" using R by auto
    have "fst (run (Suc k)) i = Some (foldl (\<lambda>arr e. putFloat k (floatOpt (pointsBefore es (int k + 1)) i e) arr) arr ?new)"
      unfolding step by (simp add: foldl_floatStep_at[OF ok] arr b)
    also have "foldl (\<lambda>arr e. putFloat k (floatOpt (pointsBefore es (int k + 1)) i e) arr) arr ?new
        = foldl (\<lambda>arr e. putFloat k (floatOpt (pointsBefore es (int k + 1)) i e) arr) arr ?mine"
      by (subst foldl_putFloat_filter) (simp add: conj_commute)
    also have "\<dots> = arr[k := floatOfRound es i (int k + 1)]"
    proof -
      have kn: "k < n" using Suc.prems by simp
      have k0: "arr ! k = NoFloat" using arr(3) kn by simp
      have "length ?mine \<le> 1" using once unfolding onceARound_def by blast
      then consider "?mine = []" | e where "?mine = [e]"
        by (cases ?mine) (auto simp: length_Suc_conv)
      then show ?thesis
      proof cases
        case 1
        then show ?thesis unfolding floatOfRound_def 1 using k0 list_update_id[of arr k] by simp
      next
        case 2
        then show ?thesis unfolding floatOfRound_def 2
          using k0 list_update_id[of arr k] by (simp add: putFloat_def split: option.splits)
      qed
    qed
    finally have "fst (run (Suc k)) i = Some (arr[k := floatOfRound es i (int k + 1)])" .
    then show ?thesis using arr Suc.prems by (auto simp: nth_list_update less_Suc_eq)
  qed
  ultimately show ?case by blast
qed

lemma maxRoundOf_nonneg: "0 \<le> maxRoundOf es"
proof -
  have "acc \<le> foldl (\<lambda>acc e. max acc (heRound e)) acc es" for acc :: int
    by (induction es arbitrary: acc) (auto intro: order_trans[OF max.cobounded1])
  then show ?thesis by (simp add: maxRoundOf_def)
qed

lemma maxRoundOf_byRound: "maxRoundOf (byRound hist) = foldl (\<lambda>acc e. max acc (heRound e)) 0 hist"
proof -
  have fm: "foldl (\<lambda>acc e. max acc (heRound e)) acc es = Max (insert acc (heRound ` set es))" for acc es
  proof (induction es arbitrary: acc)
    case (Cons e es)
    have "insert (max acc (heRound e)) (heRound ` set es) \<noteq> {}" by simp
    have "Max (insert acc (heRound ` set (e # es))) = Max (insert (max acc (heRound e)) (heRound ` set es))"
    proof (cases "set es = {}")
      case True
      then show ?thesis by (simp add: max.commute)
    next
      case False
      then show ?thesis by (simp add: max.assoc)
    qed
    then show ?case by (simp add: Cons)
  qed simp
  show ?thesis unfolding maxRoundOf_def fm by simp
qed

lemma floatPass_at:
  assumes "\<forall>e \<in> set es. heBlack e \<noteq> Some (heWhite e)" "onceARound i es"
    and "i \<in> psRegistrationId ` set seeds"
  shows "\<exists>arr. floatPass seeds es i = Some arr \<and> length arr = nat (maxRoundOf es) \<and>
    (\<forall>m < nat (maxRoundOf es). arr ! m = floatOfRound es i (int m + 1))"
proof -
  let ?n = "nat (maxRoundOf es)"
  have "initFloats seeds (maxRoundOf es) i = Some (replicate ?n NoFloat)"
    unfolding initFloats_def using foldl_upd_defined[OF assms(3), of "\<lambda>_. replicate ?n NoFloat" Map.empty]
    by blast
  from rounds_invariant[where n = ?n and k = ?n and es = es and i = i and ?arrays0.0 = "initFloats seeds (maxRoundOf es)", OF assms(1,2) this] maxRoundOf_nonneg[of es]
  show ?thesis unfolding floatPass_def Let_def by simp
qed

lemma pointsBefore_byRound: "pointsBefore (byRound hist) r i = pointsBefore hist r i"
proof -
  have "mset (map (pointsOf i) (filter P (byRound hist))) = mset (map (pointsOf i) (filter P hist))" for P
    by (simp add: mset_filter)
  then show ?thesis unfolding pointsBefore_def by (metis sum_mset_sum_list)
qed

lemma onceARound_byRound: "onceARound i (byRound hist) = onceARound i hist"
proof -
  have "length (filter P (byRound hist)) = length (filter P hist)" for P
    by (metis mset_byRound mset_filter size_mset)
  then show ?thesis by (simp add: onceARound_def)
qed

lemma floatOfRound_byRound:
  assumes "onceARound i hist"
  shows "floatOfRound (byRound hist) i r = floatOfRound hist i r"
proof -
  let ?P = "\<lambda>e. heRound e = r \<and> sideOf e i \<noteq> None"
  have m: "mset (filter ?P (byRound hist)) = mset (filter ?P hist)" by (simp add: mset_filter)
  have l: "length (filter ?P hist) \<le> 1" using assms by (simp add: onceARound_def)
  have f: "filter ?P (byRound hist) = filter ?P hist"
  proof (cases "filter ?P hist")
    case Nil
    then show ?thesis using m by simp
  next
    case (Cons e es)
    then have e: "filter ?P hist = [e]" using l by simp
    have "mset (filter ?P (byRound hist)) = {#e#}" unfolding m e by simp
    then show ?thesis unfolding e mset_single_iff .
  qed
  have g: "pointsBefore (byRound hist) r = pointsBefore hist r" by (rule ext) (rule pointsBefore_byRound)
  show ?thesis unfolding floatOfRound_def f g ..
qed

lemma buildPairingStates_eq:
  "buildPairingStates seeds hist = map (stateOf (byRound hist) (floatPass seeds (byRound hist))) seeds"
  by (simp add: buildPairingStates_def Let_def)

lemma opponentsOf_byRound: "opponentsOf i (byRound hist) = opponentsOf i hist"
  by (simp add: opponentsOf_def)

section \<open>Properties\<close>

text \<open>
  The engine and the standings see the same participants: identifiers, points and colour
  histories of the pairing states are those of the score views built from the same history.
\<close>
theorem pairing_states_agree_with_standings:
  "map (\<lambda>st. (playerId st, points st, colorHistory st)) (buildPairingStates seeds hist)
   = map (\<lambda>v. (svRegistrationId v, svPoints v, map toColor (svColorHistory v)))
       (buildScoreViews (map psRegistrationId seeds) hist)"
  by (simp add: buildPairingStates_eq buildScoreViews_eq scoreView_eq stateOf_eq)

text \<open>
  Having met is mutual: of any two states each names the other as an opponent or neither
  does, and they do exactly when the history pairs the two, whatever the result.
\<close>
theorem opponents_mutual:
  assumes "\<forall>e \<in> set hist. heBlack e \<noteq> Some (heWhite e)"
    and "s \<in> set (buildPairingStates seeds hist)" "t \<in> set (buildPairingStates seeds hist)"
  shows "(playerId t \<in> opponentIds s \<longleftrightarrow> playerId s \<in> opponentIds t)
    \<and> (playerId t \<in> opponentIds s \<longleftrightarrow>
        (\<exists>e \<in> set hist. heWhite e = playerId s \<and> heBlack e = Some (playerId t)
                      \<or> heWhite e = playerId t \<and> heBlack e = Some (playerId s)))"
proof -
  have "opponentIds s = opponentsOf (playerId s) hist" "opponentIds t = opponentsOf (playerId t) hist"
    using assms(2,3) by (auto simp: buildPairingStates_eq stateOf_eq opponentsOf_byRound)
  then show ?thesis using assms(1) by (auto simp: opponentsOf_def)
qed

text \<open>
  The float history has one element for every round so far, and the element of round
  \<^verbatim>\<open>r\<close> is what Article 1.4 gives for that round: a downfloat for a bye or a win without play,
  down or up for meeting a player of fewer or more points before the round, otherwise none.
\<close>
theorem float_history_exact:
  assumes "\<forall>e \<in> set hist. heBlack e \<noteq> Some (heWhite e)"
    and "st \<in> set (buildPairingStates seeds hist)" "onceARound (playerId st) hist"
  shows "length (floatHistory st) = nat (maxRoundOf hist)
    \<and> (\<forall>m < nat (maxRoundOf hist). floatHistory st ! m = floatOfRound hist (playerId st) (int m + 1))"
proof -
  obtain p where p: "p \<in> set seeds" "st = stateOf (byRound hist) (floatPass seeds (byRound hist)) p"
    using assms(2) by (auto simp: buildPairingStates_eq)
  have pid: "playerId st = psRegistrationId p" by (simp add: p(2) stateOf_eq)
  have mx: "maxRoundOf (byRound hist) = maxRoundOf hist"
    unfolding maxRoundOf_byRound by (simp add: maxRoundOf_def)
  have in_seeds: "psRegistrationId p \<in> psRegistrationId ` set seeds" using p(1) by (rule imageI)
  have "\<forall>e \<in> set (byRound hist). heBlack e \<noteq> Some (heWhite e)" "onceARound (psRegistrationId p) (byRound hist)"
    using assms(1,3) pid by (simp_all add: onceARound_byRound)
  from floatPass_at[OF this in_seeds] obtain arr where
    "floatPass seeds (byRound hist) (psRegistrationId p) = Some arr" "length arr = nat (maxRoundOf hist)"
    "\<forall>m < nat (maxRoundOf hist). arr ! m = floatOfRound (byRound hist) (psRegistrationId p) (int m + 1)"
    unfolding mx by blast
  then show ?thesis using assms(3) by (simp add: p(2) stateOf_eq floatOfRound_byRound)
qed

section \<open>Witnesses\<close>

definition sampleHistory :: "PairingHistoryEntry list" where
  "sampleHistory =
     [\<lparr>heRound = 1, heWhite = ''a'', heBlack = Some ''b'', heResult = WHITE_WIN\<rparr>,
      \<lparr>heRound = 1, heWhite = ''c'', heBlack = None, heResult = BYE_FULL\<rparr>,
      \<lparr>heRound = 2, heWhite = ''b'', heBlack = Some ''c'', heResult = DRAW\<rparr>,
      \<lparr>heRound = 2, heWhite = ''a'', heBlack = None, heResult = BYE_ZERO\<rparr>]"

definition sampleSeed :: "string \<Rightarrow> int \<Rightarrow> ParticipantSeed" where
  "sampleSeed i n = \<lparr>psRegistrationId = i, psPairingNumber = n, psRatingAtEntry = None, psWithdrawn = False,
     psJoinedAtRound = None\<rparr>"

definition sampleSeeds :: "ParticipantSeed list" where
  "sampleSeeds = [sampleSeed ''a'' 1, sampleSeed ''b'' 2, sampleSeed ''c'' 3]"

lemma sampleHistory_ok: "\<forall>e \<in> set sampleHistory. heBlack e \<noteq> Some (heWhite e)"
  by (simp add: sampleHistory_def)

lemma sampleStates:
  "playerId (buildPairingStates sampleSeeds sampleHistory ! 1) = ''b''"
  "playerId (buildPairingStates sampleSeeds sampleHistory ! 2) = ''c''"
  "length (buildPairingStates sampleSeeds sampleHistory) = 3"
  by (simp_all add: buildPairingStates_eq stateOf_eq sampleSeeds_def sampleSeed_def)

theorem opponents_mutual_witness:
  "''c'' \<in> opponentIds (buildPairingStates sampleSeeds sampleHistory ! 1)
   \<and> ''b'' \<in> opponentIds (buildPairingStates sampleSeeds sampleHistory ! 2)"
proof -
  have "buildPairingStates sampleSeeds sampleHistory ! 1 \<in> set (buildPairingStates sampleSeeds sampleHistory)"
    "buildPairingStates sampleSeeds sampleHistory ! 2 \<in> set (buildPairingStates sampleSeeds sampleHistory)"
    by (simp_all add: sampleStates)
  note m = opponents_mutual[OF sampleHistory_ok this, unfolded sampleStates]
  have "\<exists>e \<in> set sampleHistory. heWhite e = ''b'' \<and> heBlack e = Some ''c''
      \<or> heWhite e = ''c'' \<and> heBlack e = Some ''b''"
    by (simp add: sampleHistory_def)
  with m show ?thesis by blast
qed

theorem float_history_exact_witness:
  "floatHistory (buildPairingStates sampleSeeds sampleHistory ! 2) = [Down, Down]"
proof -
  let ?st = "buildPairingStates sampleSeeds sampleHistory ! 2"
  have "?st \<in> set (buildPairingStates sampleSeeds sampleHistory)" by (simp add: sampleStates)
  moreover have "onceARound (playerId ?st) sampleHistory"
    by (simp add: sampleStates onceARound_def sampleHistory_def sideOf_def)
  ultimately have *: "length (floatHistory ?st) = nat (maxRoundOf sampleHistory)"
    "\<forall>m < nat (maxRoundOf sampleHistory). floatHistory ?st ! m = floatOfRound sampleHistory (playerId ?st) (int m + 1)"
    using float_history_exact[OF sampleHistory_ok, of ?st] by blast+
  have "maxRoundOf sampleHistory = 2" by (simp add: maxRoundOf_def sampleHistory_def)
  moreover have "floatOfRound sampleHistory ''c'' 1 = Down" "floatOfRound sampleHistory ''c'' 2 = Down"
    by code_simp+
  ultimately show ?thesis using * sampleStates(2)
    by (auto intro!: nth_equalityI simp: less_Suc_eq numeral_2_eq_2)
qed

end
