(* ===== verification/SectionDb.thy ===== *)
theory SectionDb
  imports Interleave PairingState RoundRobinEngine SwissEngine
begin

text \<open>
  The rows of one tournament section and the functions that read and write them:
  \<^verbatim>\<open>src/modules/arbiter/arbiter.repository.ts\<close>, the registration part of
  \<^verbatim>\<open>src/modules/tournament/tournament.repository.ts\<close>, and the status machine
  \<^verbatim>\<open>src/modules/tournament/tournament-status.machine.ts\<close>. A table is the list of its rows
  in insertion order, a query the filter and sort its \<^verbatim>\<open>where\<close> and \<^verbatim>\<open>orderBy\<close> say. A query is one step of
  the database, and so is a \<^verbatim>\<open>$transaction\<close>.
\<close>

section \<open>Status machine\<close>

datatype TournamentStatus =
  DRAFT | REGISTRATION_OPEN | REGISTRATION_CLOSED | TOURNAMENT_IN_PROGRESS | TOURNAMENT_COMPLETED | CANCELLED

fun ALLOWED_TRANSITIONS :: "TournamentStatus \<Rightarrow> TournamentStatus list" where
  "ALLOWED_TRANSITIONS DRAFT = [REGISTRATION_OPEN, CANCELLED]"
| "ALLOWED_TRANSITIONS REGISTRATION_OPEN = [REGISTRATION_CLOSED, CANCELLED]"
| "ALLOWED_TRANSITIONS REGISTRATION_CLOSED = [TOURNAMENT_IN_PROGRESS, CANCELLED]"
| "ALLOWED_TRANSITIONS TOURNAMENT_IN_PROGRESS = [TOURNAMENT_COMPLETED, CANCELLED]"
| "ALLOWED_TRANSITIONS TOURNAMENT_COMPLETED = []"
| "ALLOWED_TRANSITIONS CANCELLED = []"

definition canTransition :: "TournamentStatus \<Rightarrow> TournamentStatus \<Rightarrow> bool" where
  "canTransition from' to' \<longleftrightarrow> to' \<in> set (ALLOWED_TRANSITIONS from')"

section \<open>Rows\<close>

datatype PairingSystem = SWISS_DUTCH | ROUND_ROBIN | DOUBLE_ROUND_ROBIN | KNOCKOUT | SCHEVENINGEN | TEAM_SWISS

record RegistrationRow =
  regId :: string
  regPlayerId :: string
  regPairingNumber :: "int option"
  regRating :: "int option"
  regConfirmed :: bool
  regWithdrawn :: bool
  regJoinedAt :: "int option"
  regCreatedAt :: int

record RoundRow =
  rowRoundId :: nat
  rowNumber :: int
  rowStatus :: RoundStatusValue
  rowEngineVersion :: string

record PairingRow =
  rowPairingId :: nat
  rowPairingRound :: nat
  rowBoard :: int
  rowWhite :: string
  rowBlack :: "string option"
  rowResult :: PairingResultValue
  rowEnteredBy :: "string option"

text \<open>Points stay a number here; the row stores their text with one decimal.\<close>

record StandingRow =
  stRegistrationId :: string
  stPoints :: rat
  stRank :: nat
  stTieBreaks :: TieBreakResult
  stGamesPlayed :: nat
  stWins :: nat
  stDraws :: nat
  stLosses :: nat
  stColorHistory :: "Side list"
  stFloatHistory :: "FloatDirection list"

record SectionDb =
  dbSectionId :: string
  dbStatus :: TournamentStatus
  dbDeleted :: bool
  dbIsPublic :: bool
  dbSystem :: PairingSystem
  dbTotalRounds :: int
  dbMaxPlayers :: "nat option"
  dbTieBreakOrder :: "string list"
  dbArbiters :: "string list"
  dbRegistrations :: "RegistrationRow list"
  dbRounds :: "RoundRow list"
  dbPairings :: "PairingRow list"
  dbStandings :: "StandingRow list"
  dbAudit :: "AuditRow list"
  dbOutbox :: "(string \<times> nat) list"
  dbNextId :: nat

text \<open>What \<^verbatim>\<open>findSectionWithTournament\<close> returns: a copy, which later writes do not change.\<close>

record SectionContext =
  cxId :: string
  cxSystem :: PairingSystem
  cxTotalRounds :: int
  cxTieBreakOrder :: "string list"
  cxStatus :: TournamentStatus
  cxIsPublic :: bool

section \<open>Effects\<close>

text \<open>
  What may be thrown besides the domain errors: the errors of the engines and the calculator,
  and the violation of a unique index of \<^verbatim>\<open>prisma/schema.prisma\<close>, which the database
  reports when the write would break it.
\<close>

datatype SectionFailure =
    EngineError PairingError
  | TieBreakError TieBreakDataError
  | UniqueViolation string

type_synonym 'a service = "(SectionFailure, SectionDb, 'a) action"
type_synonym 'a sectionRequest = "(SectionFailure, SectionDb, 'a) handler"

definition auditWrite :: "AuditRow \<Rightarrow> unit service" where
  "auditWrite = auditWriteTo dbAudit_update"

section \<open>Reads\<close>

definition findSectionWithTournament :: "SectionDb \<Rightarrow> SectionContext option" where
  "findSectionWithTournament s = (if dbDeleted s then None
     else Some \<lparr>cxId = dbSectionId s, cxSystem = dbSystem s, cxTotalRounds = dbTotalRounds s,
       cxTieBreakOrder = dbTieBreakOrder s, cxStatus = dbStatus s, cxIsPublic = dbIsPublic s\<rparr>)"

text \<open>\<^verbatim>\<open>findById\<close> of the tournament: its status, unless it is deleted.\<close>

definition findTournamentById :: "SectionDb \<Rightarrow> TournamentStatus option" where
  "findTournamentById s = (if dbDeleted s then None else Some (dbStatus s))"

definition findRegistration :: "SectionDb \<Rightarrow> string \<Rightarrow> RegistrationRow option" where
  "findRegistration s who = find (\<lambda>r. regPlayerId r = who) (dbRegistrations s)"

definition findRegistrationById :: "SectionDb \<Rightarrow> string \<Rightarrow> RegistrationRow option" where
  "findRegistrationById s i = find (\<lambda>r. regId r = i) (dbRegistrations s)"

definition countActiveRegistrations :: "SectionDb \<Rightarrow> nat" where
  "countActiveRegistrations s = length (filter (\<lambda>r. \<not> regWithdrawn r) (dbRegistrations s))"

definition isArbiterOf :: "SectionDb \<Rightarrow> string \<Rightarrow> bool" where
  "isArbiterOf s userId \<longleftrightarrow> userId \<in> set (dbArbiters s)"

definition activeRegistrations :: "SectionDb \<Rightarrow> RegistrationRow list" where
  "activeRegistrations s =
     sort_key regCreatedAt (filter (\<lambda>r. regConfirmed r \<and> \<not> regWithdrawn r) (dbRegistrations s))"

definition numberedRegistrations :: "SectionDb \<Rightarrow> RegistrationRow list" where
  "numberedRegistrations s =
     sort_key (\<lambda>r. the (regPairingNumber r)) (filter (\<lambda>r. regPairingNumber r \<noteq> None) (dbRegistrations s))"

fun latestOf :: "RoundRow option \<Rightarrow> RoundRow list \<Rightarrow> RoundRow option" where
  "latestOf best [] = best"
| "latestOf best (r # rs) =
     latestOf (case best of None \<Rightarrow> Some r
       | Some b \<Rightarrow> if rowNumber r > rowNumber b then Some r else Some b) rs"

definition latestRound :: "SectionDb \<Rightarrow> RoundRow option" where
  "latestRound s = latestOf None (dbRounds s)"

definition findRoundRow :: "SectionDb \<Rightarrow> nat \<Rightarrow> RoundRow option" where
  "findRoundRow s i = find (\<lambda>r. rowRoundId r = i) (dbRounds s)"

definition pairingsOfRound :: "SectionDb \<Rightarrow> nat \<Rightarrow> PairingRow list" where
  "pairingsOfRound s i = sort_key rowBoard (filter (\<lambda>p. rowPairingRound p = i) (dbPairings s))"

definition findRound :: "SectionDb \<Rightarrow> nat \<Rightarrow> (RoundRow \<times> PairingRow list) option" where
  "findRound s i = map_option (\<lambda>r. (r, pairingsOfRound s i)) (findRoundRow s i)"

definition findPairing :: "SectionDb \<Rightarrow> nat \<Rightarrow> PairingRow option" where
  "findPairing s i = find (\<lambda>p. rowPairingId p = i) (dbPairings s)"

definition numberOfRound :: "SectionDb \<Rightarrow> nat \<Rightarrow> int" where
  "numberOfRound s i = (case findRoundRow s i of Some r \<Rightarrow> rowNumber r | None \<Rightarrow> 0)"

text \<open>\<^verbatim>\<open>completedPairingsForSection\<close>: every pairing of the section, by round and board.\<close>

definition toHistoryEntry :: "SectionDb \<Rightarrow> PairingRow \<Rightarrow> PairingHistoryEntry" where
  "toHistoryEntry s p = \<lparr>heRound = numberOfRound s (rowPairingRound p), heWhite = rowWhite p,
     heBlack = rowBlack p, heResult = rowResult p\<rparr>"

definition completedPairingsForSection :: "SectionDb \<Rightarrow> PairingHistoryEntry list" where
  "completedPairingsForSection s =
     map (toHistoryEntry s) (sort_key (\<lambda>p. (numberOfRound s (rowPairingRound p), rowBoard p)) (dbPairings s))"

section \<open>Writes\<close>

text \<open>The order of \<^verbatim>\<open>assignPairingNumbers\<close>: rating descending with nulls last, creation, id.\<close>

definition numberingKey :: "RegistrationRow \<Rightarrow> nat \<times> int \<times> int \<times> string" where
  "numberingKey r = (case regRating r of
     Some x \<Rightarrow> (0, - x, regCreatedAt r, regId r) | None \<Rightarrow> (1, 0, regCreatedAt r, regId r))"

fun assignLoop :: "int \<Rightarrow> RegistrationRow list \<Rightarrow> RegistrationRow list \<Rightarrow> RegistrationRow list" where
  "assignLoop nxt [] tbl = tbl"
| "assignLoop nxt (r # rs) tbl =
     assignLoop (nxt + 1) rs
       (map (\<lambda>x. if regId x = regId r then x\<lparr>regPairingNumber := Some nxt\<rparr> else x) tbl)"

definition assignPairingNumbers :: "string \<Rightarrow> unit service" where
  "assignPairingNumbers actor = transaction (
     bindS (getS (\<lambda>s. sort_key numberingKey
              (filter (\<lambda>r. regConfirmed r \<and> \<not> regWithdrawn r) (dbRegistrations s)))) (\<lambda>regs.
     let numbered = filter (\<lambda>r. regPairingNumber r \<noteq> None) regs
     in if length numbered = length regs \<and> length regs > 0 then returnS ()
        else if length numbered > 0 then throwS (ConflictError ''TournamentSection'')
        else bindS (getS (\<lambda>s. assignLoop 1 regs (dbRegistrations s))) (\<lambda>tbl.
             bindS (guardS (\<not> distinct (List.map_filter regPairingNumber tbl))
                     (OtherError (UniqueViolation ''Registration.pairingNumber''))) (\<lambda>_.
             bindS (putS (\<lambda>s. s\<lparr>dbRegistrations := tbl\<rparr>)) (\<lambda>_.
             bindS (getS dbSectionId) (\<lambda>sid.
             auditWrite (auditOf ''section.pairing_numbers_assigned'' actor sid '''' (showNat (length regs)) None)))))))"

record BoardInput =
  bdNumber :: int
  bdWhite :: string
  bdBlack :: "string option"
  bdResult :: PairingResultValue

fun insertPairings :: "nat \<Rightarrow> nat \<Rightarrow> BoardInput list \<Rightarrow> PairingRow list" where
  "insertPairings rid fresh [] = []"
| "insertPairings rid fresh (b # bs) =
     \<lparr>rowPairingId = fresh, rowPairingRound = rid, rowBoard = bdNumber b, rowWhite = bdWhite b,
      rowBlack = bdBlack b, rowResult = bdResult b, rowEnteredBy = None\<rparr> # insertPairings rid (Suc fresh) bs"

definition createRoundWithPairings :: "int \<Rightarrow> string \<Rightarrow> BoardInput list \<Rightarrow> string \<Rightarrow> nat service" where
  "createRoundWithPairings number version boards actor = transaction (
     bindS (getS dbRounds) (\<lambda>rounds.
     bindS (guardS (number \<in> rowNumber ` set rounds) (OtherError (UniqueViolation ''Round.number''))) (\<lambda>_.
     bindS (guardS (\<not> distinct (map bdNumber boards)) (OtherError (UniqueViolation ''Pairing.boardNumber''))) (\<lambda>_.
     bindS (getS dbNextId) (\<lambda>rid.
     bindS (putS (\<lambda>s. s\<lparr>dbRounds := dbRounds s @ [\<lparr>rowRoundId = rid, rowNumber = number,
                           rowStatus = PAIRED, rowEngineVersion = version\<rparr>],
                        dbPairings := dbPairings s @ insertPairings rid (Suc rid) boards,
                        dbNextId := Suc rid + length boards\<rparr>)) (\<lambda>_.
     bindS (auditWrite (auditOf ''round.paired'' actor (showNat rid) '''' (showInt number) None)) (\<lambda>_.
     returnS rid)))))))"

fun showResult :: "PairingResultValue \<Rightarrow> string" where
  "showResult WHITE_WIN = ''WHITE_WIN''"
| "showResult BLACK_WIN = ''BLACK_WIN''"
| "showResult DRAW = ''DRAW''"
| "showResult WHITE_WIN_FORFEIT = ''WHITE_WIN_FORFEIT''"
| "showResult BLACK_WIN_FORFEIT = ''BLACK_WIN_FORFEIT''"
| "showResult DOUBLE_FORFEIT = ''DOUBLE_FORFEIT''"
| "showResult BYE_FULL = ''BYE_FULL''"
| "showResult BYE_HALF = ''BYE_HALF''"
| "showResult BYE_ZERO = ''BYE_ZERO''"
| "showResult UNPLAYED = ''UNPLAYED''"

definition repoEnterResult ::
  "nat \<Rightarrow> PairingResultValue \<Rightarrow> string \<Rightarrow> string option \<Rightarrow> unit service" where
  "repoEnterResult pairingId result actor reason = transaction (
     bindS (getS (\<lambda>s. findPairing s pairingId)) (\<lambda>found.
     case found of
       None \<Rightarrow> throwS (NotFoundError ''Pairing'')
     | Some bef \<Rightarrow>
         bindS (putS (\<lambda>s. s\<lparr>dbPairings := map (\<lambda>p. if rowPairingId p = pairingId
                 then p\<lparr>rowResult := result, rowEnteredBy := Some actor\<rparr> else p) (dbPairings s)\<rparr>)) (\<lambda>_.
         auditWrite (auditOf (if rowResult bef = UNPLAYED then ''result.created'' else ''result.updated'')
           actor (showNat pairingId) (showResult (rowResult bef)) (showResult result) reason))))"

definition repoCompleteRound :: "nat \<Rightarrow> string \<Rightarrow> unit service" where
  "repoCompleteRound roundRowId actor = transaction (
     bindS (getS (\<lambda>s. findRoundRow s roundRowId)) (\<lambda>found.
     case found of
       None \<Rightarrow> throwS (NotFoundError ''Round'')
     | Some bef \<Rightarrow>
         bindS (putS (\<lambda>s. s\<lparr>dbRounds := map (\<lambda>r. if rowRoundId r = roundRowId
                 then r\<lparr>rowStatus := COMPLETED\<rparr> else r) (dbRounds s),
               dbOutbox := dbOutbox s @ [(''RoundCompleted'', roundRowId)]\<rparr>)) (\<lambda>_.
         auditWrite (auditOf ''round.completed'' actor (showNat roundRowId) '''' ''COMPLETED'' None))))"

fun upsertStanding :: "StandingRow \<Rightarrow> StandingRow list \<Rightarrow> StandingRow list" where
  "upsertStanding row [] = [row]"
| "upsertStanding row (x # xs) =
     (if stRegistrationId x = stRegistrationId row then row # xs else x # upsertStanding row xs)"

definition upsertStandings :: "StandingRow list \<Rightarrow> unit service" where
  "upsertStandings rows =
     transaction (putS (\<lambda>s. s\<lparr>dbStandings := foldl (\<lambda>t row. upsertStanding row t) (dbStandings s) rows\<rparr>))"

text \<open>Registrations: creation (the database gives the id and the time) and withdrawal.\<close>

definition createRegistration ::
  "string \<Rightarrow> string \<Rightarrow> int option \<Rightarrow> bool \<Rightarrow> int \<Rightarrow> string \<Rightarrow> unit service" where
  "createRegistration newId who rtng confirmed now actor = transaction (
     bindS (getS dbRegistrations) (\<lambda>regs.
     bindS (guardS (newId \<in> regId ` set regs) (OtherError (UniqueViolation ''Registration.id''))) (\<lambda>_.
     bindS (guardS (who \<in> regPlayerId ` set regs) (OtherError (UniqueViolation ''Registration.playerId''))) (\<lambda>_.
     bindS (putS (\<lambda>s. s\<lparr>dbRegistrations := dbRegistrations s @
              [\<lparr>regId = newId, regPlayerId = who, regPairingNumber = None, regRating = rtng,
                regConfirmed = confirmed, regWithdrawn = False, regJoinedAt = None, regCreatedAt = now\<rparr>]\<rparr>)) (\<lambda>_.
     auditWrite (auditOf ''registration.created'' actor newId '''' who None))))))"

definition withdrawRegistration :: "string \<Rightarrow> string \<Rightarrow> string \<Rightarrow> unit service" where
  "withdrawRegistration rid reason actor = transaction (
     bindS (putS (\<lambda>s. s\<lparr>dbRegistrations := map (\<lambda>r. if regId r = rid then r\<lparr>regWithdrawn := True\<rparr> else r)
              (dbRegistrations s)\<rparr>)) (\<lambda>_.
     auditWrite (auditOf ''registration.withdrawn'' actor rid '''' ''true'' (Some reason))))"

text \<open>The status is written whatever it is by then.\<close>

definition repoChangeStatus :: "TournamentStatus \<Rightarrow> string \<Rightarrow> string option \<Rightarrow> unit service" where
  "repoChangeStatus status actor reason = transaction (
     bindS (putS (\<lambda>s. s\<lparr>dbStatus := status\<rparr>)) (\<lambda>_.
     auditWrite (auditOf ''tournament.status_changed'' actor '''' '''' '''' reason)))"

end
