(* ===== verification/Arbiter.thy ===== *)
theory Arbiter
  imports SectionDb
begin

text \<open>
  \<^verbatim>\<open>src/modules/arbiter/arbiter.service.ts\<close> with the registration and status operations of
  \<^verbatim>\<open>src/modules/tournament/tournament.service.ts\<close>: generating a round, entering and
  correcting results, closing a round, recomputing the standings, registering, withdrawing,
  changing the status. Each operation is a request whose steps are its awaited queries and
  transactions; other requests may come between them. The access decision of \<^verbatim>\<open>RbacService\<close>
  is an argument.
\<close>

section \<open>Standings\<close>

definition toSeed :: "RegistrationRow \<Rightarrow> ParticipantSeed" where
  "toSeed r = \<lparr>psRegistrationId = regId r,
     psPairingNumber = (case regPairingNumber r of Some n \<Rightarrow> n | None \<Rightarrow> 0),
     psRatingAtEntry = regRating r, psWithdrawn = regWithdrawn r, psJoinedAtRound = regJoinedAt r\<rparr>"

fun keyName :: "TieBreakKey \<Rightarrow> string" where
  "keyName BUCHHOLZ = ''BUCHHOLZ''"
| "keyName BUCHHOLZ_CUT1 = ''BUCHHOLZ_CUT1''"
| "keyName MEDIAN_BUCHHOLZ = ''MEDIAN_BUCHHOLZ''"
| "keyName SONNEBORN_BERGER = ''SONNEBORN_BERGER''"
| "keyName DIRECT_ENCOUNTER = ''DIRECT_ENCOUNTER''"
| "keyName CUMULATIVE = ''CUMULATIVE''"
| "keyName ARO = ''ARO''"
| "keyName KOYA = ''KOYA''"
| "keyName WINS = ''WINS''"
| "keyName BLACK_GAMES = ''BLACK_GAMES''"

definition resolveTieBreakOrder :: "string list \<Rightarrow> TieBreakKey list" where
  "resolveTieBreakOrder names =
     (let known = List.map_filter (\<lambda>n. find (\<lambda>k. keyName k = n) TIE_BREAK_KEYS) names
      in if length known > 0 then known else DEFAULT_TIE_BREAK_ORDER)"

definition tieBreakInput :: "(string \<rightharpoonup> int option) \<Rightarrow> ParticipantScoreView \<Rightarrow> PlayerTieBreakInput" where
  "tieBreakInput ratingById v =
     \<lparr>tbPlayerId = svRegistrationId v, tbPoints = svPoints v,
      tbRating = (case ratingById (svRegistrationId v) of Some (Some r) \<Rightarrow> Some (of_int r) | _ \<Rightarrow> None),
      tbGames = svGames v\<rparr>"

definition standingRow ::
  "(string \<rightharpoonup> TieBreakResult) \<Rightarrow> (string \<rightharpoonup> nat) \<Rightarrow> (string \<rightharpoonup> FloatDirection list) \<Rightarrow> nat
   \<Rightarrow> ParticipantScoreView \<Rightarrow> StandingRow" where
  "standingRow values rankById floats total' v =
     \<lparr>stRegistrationId = svRegistrationId v, stPoints = svPoints v,
      stRank = (case rankById (svRegistrationId v) of Some r \<Rightarrow> r | None \<Rightarrow> total'),
      stTieBreaks = (case values (svRegistrationId v) of Some t \<Rightarrow> t | None \<Rightarrow> Map.empty),
      stGamesPlayed = svGamesPlayed v, stWins = svWins v, stDraws = svDraws v, stLosses = svLosses v,
      stColorHistory = svColorHistory v,
      stFloatHistory = (case floats (svRegistrationId v) of Some f \<Rightarrow> f | None \<Rightarrow> [])\<rparr>"

text \<open>The rows \<^verbatim>\<open>recomputeStandings\<close> computes from the participants and the history.\<close>

definition computeStandings ::
  "string list \<Rightarrow> RegistrationRow list \<Rightarrow> PairingHistoryEntry list \<Rightarrow> TieBreakDataError + StandingRow list" where
  "computeStandings orderNames regs hist =
     (let views = buildScoreViews (map regId regs) hist;
          floats = foldl (\<lambda>m st. m(playerId st \<mapsto> floatHistory st)) Map.empty
                     (buildPairingStates (map toSeed regs) hist);
          ratingById = foldl (\<lambda>m r. m(regId r \<mapsto> regRating r)) Map.empty regs;
          inputs = map (tieBreakInput ratingById) views;
          order = resolveTieBreakOrder orderNames
      in bindE (computeTB \<lparr>unratedRating = None\<rparr> inputs order) (\<lambda>values.
         bindE (rankTB \<lparr>unratedRating = None\<rparr> inputs order) (\<lambda>ranking.
         let rankById = foldl (\<lambda>m p. m(fst p \<mapsto> snd p)) Map.empty (zip ranking [1..<length ranking + 1])
         in Inr (map (standingRow values rankById floats (length views)) views))))"

definition recomputeStandings :: "SectionContext \<Rightarrow> unit sectionRequest" where
  "recomputeStandings section =
     bindR (awaitR (getS numberedRegistrations)) (\<lambda>regs.
     if length regs = 0 then returnR ()
     else bindR (awaitR (getS completedPairingsForSection)) (\<lambda>hist.
          case computeStandings (cxTieBreakOrder section) regs hist of
            Inl e \<Rightarrow> throwR (OtherError (TieBreakError e))
          | Inr rows \<Rightarrow> awaitR (upsertStandings rows)))"

section \<open>Guards\<close>

definition requireSection :: "string \<Rightarrow> SectionContext sectionRequest" where
  "requireSection resource =
     bindR (awaitR (getS findSectionWithTournament)) (\<lambda>found.
     case found of None \<Rightarrow> throwR (NotFoundError resource) | Some section \<Rightarrow> returnR section)"

text \<open>\<open>may\<close> is \<^verbatim>\<open>rbac.can(actor, 'update', tournament)\<close> for the user.\<close>

definition assertManageAccess :: "(string \<Rightarrow> bool) \<Rightarrow> string \<Rightarrow> string \<Rightarrow> unit sectionRequest" where
  "assertManageAccess may userId resource =
     bindR (awaitR (getS (\<lambda>s. isArbiterOf s userId))) (\<lambda>arbiter.
     if arbiter then returnR () else guardR (\<not> may userId) (NotFoundError resource))"

definition assertTournamentInProgress :: "SectionContext \<Rightarrow> unit sectionRequest" where
  "assertTournamentInProgress section =
     guardR (cxStatus section \<noteq> TOURNAMENT_IN_PROGRESS) (BusinessRuleError ''TOURNAMENT_NOT_IN_PROGRESS'')"

section \<open>Generating a round\<close>

type_synonym Engine = "PairingRequest \<Rightarrow> PairingError + PairingResult"

fun engineFor :: "Matcher \<Rightarrow> PairingSystem \<Rightarrow> Engine option" where
  "engineFor mwm ROUND_ROBIN = Some (roundRobinPair None)"
| "engineFor mwm DOUBLE_ROUND_ROBIN = Some (roundRobinPair (Some 2))"
| "engineFor mwm SWISS_DUTCH = Some (swissPair mwm)"
| "engineFor mwm KNOCKOUT = None"
| "engineFor mwm SCHEVENINGEN = None"
| "engineFor mwm TEAM_SWISS = None"

fun byeBoards :: "int \<Rightarrow> ByeAssignment list \<Rightarrow> BoardInput list" where
  "byeBoards n [] = []"
| "byeBoards n (b # bs) =
     \<lparr>bdNumber = n, bdWhite = byePlayerId b, bdBlack = None, bdResult = BYE_FULL\<rparr> # byeBoards (n + 1) bs"

definition boardsOf :: "PairingResult \<Rightarrow> BoardInput list" where
  "boardsOf res =
     map (\<lambda>p. \<lparr>bdNumber = boardNumber p, bdWhite = whitePlayerId p, bdBlack = Some (blackPlayerId p),
               bdResult = UNPLAYED\<rparr>) (pairings res)
     @ byeBoards (int (length (pairings res)) + 1) (byes res)"

definition nextRoundNumber :: "int sectionRequest" where
  "nextRoundNumber =
     bindR (awaitR (getS latestRound)) (\<lambda>latest.
     case latest of
       None \<Rightarrow> returnR 1
     | Some r \<Rightarrow> if rowStatus r \<noteq> COMPLETED then throwR (BusinessRuleError ''PREVIOUS_ROUND_NOT_COMPLETED'')
                 else returnR (rowNumber r + 1))"

definition ensurePairingNumbers :: "string \<Rightarrow> unit sectionRequest" where
  "ensurePairingNumbers userId =
     bindR (awaitR (getS activeRegistrations)) (\<lambda>active.
     if list_all (\<lambda>r. regPairingNumber r = None) active then awaitR (assignPairingNumbers userId) else returnR ())"

definition requestFor ::
  "SectionContext \<Rightarrow> RegistrationRow list \<Rightarrow> PairingHistoryEntry list \<Rightarrow> int \<Rightarrow> PairingRequest" where
  "requestFor section regs hist n =
     \<lparr>roundId = cxId section @ ''#'' @ showInt n, roundNumber = n, totalRounds = cxTotalRounds section,
      players = buildPairingStates (map toSeed regs) hist, seed = None, initialColor = None\<rparr>"

text \<open>An impossible pairing becomes a business error, every other engine error passes through.\<close>

definition runEngine :: "Engine \<Rightarrow> PairingRequest \<Rightarrow> PairingResult sectionRequest" where
  "runEngine engine req =
     (case engine req of
       Inl e \<Rightarrow> throwR (case e of PairingImpossibleError r why \<Rightarrow> BusinessRuleError ''PAIRING_IMPOSSIBLE''
                          | _ \<Rightarrow> OtherError (EngineError e))
     | Inr res \<Rightarrow> returnR res)"

definition generateRound :: "Matcher \<Rightarrow> (string \<Rightarrow> bool) \<Rightarrow> string \<Rightarrow> nat sectionRequest" where
  "generateRound mwm may userId =
     bindR (requireSection ''Round'') (\<lambda>section.
     bindR (assertManageAccess may userId ''Round'') (\<lambda>_.
     bindR (assertTournamentInProgress section) (\<lambda>_.
     case engineFor mwm (cxSystem section) of
       None \<Rightarrow> throwR (BusinessRuleError ''PAIRING_SYSTEM_NOT_IMPLEMENTED'')
     | Some engine \<Rightarrow>
         bindR nextRoundNumber (\<lambda>n.
         bindR (ensurePairingNumbers userId) (\<lambda>_.
         bindR (awaitR (getS numberedRegistrations)) (\<lambda>regs.
         bindR (awaitR (getS completedPairingsForSection)) (\<lambda>hist.
         bindR (runEngine engine (requestFor section regs hist n)) (\<lambda>res.
         bindR (awaitR (createRoundWithPairings n (engineVersion res) (boardsOf res) userId)) (\<lambda>rid.
         bindR (recomputeStandings section) (\<lambda>_. returnR rid))))))))))"

section \<open>Entering results, closing a round\<close>

definition enterResult ::
  "(string \<Rightarrow> bool) \<Rightarrow> string \<Rightarrow> nat \<Rightarrow> PairingResultValue \<Rightarrow> string option \<Rightarrow> unit sectionRequest" where
  "enterResult may userId pairingId result reason =
     bindR (awaitR (getS (\<lambda>s. findPairing s pairingId))) (\<lambda>found.
     case found of
       None \<Rightarrow> throwR (NotFoundError ''Pairing'')
     | Some p \<Rightarrow>
         bindR (requireSection ''Pairing'') (\<lambda>section.
         bindR (assertManageAccess may userId ''Pairing'') (\<lambda>_.
         bindR (assertTournamentInProgress section) (\<lambda>_.
         bindR (guardR ((rowBlack p = None) \<noteq> (result \<in> set BYE_RESULTS))
                 (BusinessRuleError ''RESULT_NOT_APPLICABLE'')) (\<lambda>_.
         let trimmed = map_option jsTrim reason;
             given = (case trimmed of None \<Rightarrow> None | Some t \<Rightarrow> if t = '''' then None else Some t)
         in bindR (guardR (rowResult p \<noteq> UNPLAYED \<and> given = None)
                    (BusinessRuleError ''RESULT_CHANGE_REASON_REQUIRED'')) (\<lambda>_.
            bindR (awaitR (repoEnterResult pairingId result userId given)) (\<lambda>_.
            recomputeStandings section)))))))"

definition completeRound :: "(string \<Rightarrow> bool) \<Rightarrow> string \<Rightarrow> nat \<Rightarrow> unit sectionRequest" where
  "completeRound may userId rid =
     bindR (awaitR (getS (\<lambda>s. findRound s rid))) (\<lambda>found.
     case found of
       None \<Rightarrow> throwR (NotFoundError ''Round'')
     | Some r \<Rightarrow>
         bindR (requireSection ''Round'') (\<lambda>section.
         bindR (assertManageAccess may userId ''Round'') (\<lambda>_.
         bindR (assertTournamentInProgress section) (\<lambda>_.
         bindR (guardR (rowStatus (fst r) = COMPLETED) (ConflictError ''Round'')) (\<lambda>_.
         let unplayed = filter (\<lambda>p. rowResult p = UNPLAYED) (snd r)
         in bindR (guardR (length unplayed > 0) (BusinessRuleError ''ROUND_HAS_UNPLAYED_GAMES'')) (\<lambda>_.
            bindR (awaitR (repoCompleteRound rid userId)) (\<lambda>_.
            recomputeStandings section)))))))"

section \<open>Registration and status\<close>

text \<open>
  \<open>allowed\<close> is the decision of \<^verbatim>\<open>RbacService\<close>; \<open>who\<close> the player the player port found, with
  the current rating the rating port returned; the id and time of the row come from the
  database.
\<close>

definition requireTournament :: "string \<Rightarrow> TournamentStatus sectionRequest" where
  "requireTournament resource =
     bindR (awaitR (getS findTournamentById)) (\<lambda>found.
     case found of None \<Rightarrow> throwR (NotFoundError resource) | Some st \<Rightarrow> returnR st)"

definition registerPlayer ::
  "bool \<Rightarrow> string \<Rightarrow> string option \<Rightarrow> rat option \<Rightarrow> bool \<Rightarrow> string \<Rightarrow> int \<Rightarrow> unit sectionRequest" where
  "registerPlayer allowed userId who currentRating free newId now =
     bindR (awaitR (getS dbMaxPlayers)) (\<lambda>maxPlayers.
     bindR (requireTournament ''Tournament'') (\<lambda>st.
     bindR (guardR (\<not> allowed) (NotFoundError ''TournamentSection'')) (\<lambda>_.
     bindR (guardR (st \<noteq> REGISTRATION_OPEN) (BusinessRuleError ''REGISTRATION_NOT_OPEN'')) (\<lambda>_.
     case who of
       None \<Rightarrow> throwR (NotFoundError ''Player'')
     | Some pl \<Rightarrow>
         bindR (awaitR (getS (\<lambda>s. findRegistration s pl))) (\<lambda>existing.
         bindR (guardR (existing \<noteq> None) (ConflictError ''Registration'')) (\<lambda>_.
         bindR (case maxPlayers of None \<Rightarrow> returnR ()
            | Some limit \<Rightarrow> bindR (awaitR (getS countActiveRegistrations)) (\<lambda>active.
                guardR (active \<ge> limit) (BusinessRuleError ''SECTION_FULL''))) (\<lambda>_.
         awaitR (createRegistration newId pl (map_option (\<lambda>x. \<lfloor>x + 1 / 2\<rfloor>) currentRating) free now userId))))))))"

definition withdrawPlayer :: "bool \<Rightarrow> string \<Rightarrow> string \<Rightarrow> string \<Rightarrow> unit sectionRequest" where
  "withdrawPlayer allowed userId rid reason =
     bindR (guardR (jsTrim reason = '''') (BusinessRuleError ''WITHDRAW_REASON_REQUIRED'')) (\<lambda>_.
     bindR (awaitR (getS (\<lambda>s. findRegistrationById s rid))) (\<lambda>found.
     case found of
       None \<Rightarrow> throwR (NotFoundError ''Registration'')
     | Some r \<Rightarrow>
         bindR (requireTournament ''Registration'') (\<lambda>_.
         bindR (guardR (\<not> allowed) (NotFoundError ''Registration'')) (\<lambda>_.
         bindR (guardR (regWithdrawn r) (ConflictError ''Registration'')) (\<lambda>_.
         awaitR (withdrawRegistration rid (jsTrim reason) userId))))))"

definition changeStatus :: "bool \<Rightarrow> string \<Rightarrow> TournamentStatus \<Rightarrow> string option \<Rightarrow> unit sectionRequest" where
  "changeStatus allowed userId status reason =
     bindR (requireTournament ''Tournament'') (\<lambda>cur.
     bindR (guardR (\<not> allowed) (NotFoundError ''Tournament'')) (\<lambda>_.
     bindR (guardR (\<not> canTransition cur status) (BusinessRuleError ''INVALID_STATUS_TRANSITION'')) (\<lambda>_.
     let trimmed = map_option jsTrim reason
     in bindR (guardR (status = CANCELLED \<and> (trimmed = None \<or> trimmed = Some ''''))
                (BusinessRuleError ''CANCEL_REASON_REQUIRED'')) (\<lambda>_.
        awaitR (repoChangeStatus status userId trimmed)))))"

text \<open>
  The write a confirmed payment makes to a section: \<^verbatim>\<open>confirmPayment\<close> of
  \<^verbatim>\<open>src/modules/billing/billing.repository.ts\<close> marks the registrations of the invoice.
\<close>

definition confirmRegistrations :: "string set \<Rightarrow> unit sectionRequest" where
  "confirmRegistrations ofInvoice =
     awaitR (putS (\<lambda>s. s\<lparr>dbRegistrations := map (\<lambda>r. if regId r \<in> ofInvoice then r\<lparr>regConfirmed := True\<rparr> else r)
       (dbRegistrations s)\<rparr>))"

end
