(* ===== verification/ArbiterRuns.thy ===== *)
theory ArbiterRuns
  imports Arbiter
begin

text \<open>
  What every run of the arbiter and registration operations on a section keeps: the
  invariant of the tables, its preservation by each operation, whether it returns or throws,
  and the reachable sections.
\<close>

section \<open>The invariant of a section\<close>

definition numberedIds :: "SectionDb \<Rightarrow> string set" where
  "numberedIds s = regId ` {r \<in> set (dbRegistrations s). regPairingNumber r \<noteq> None}"

definition boardOk :: "string set \<Rightarrow> PairingRow \<Rightarrow> bool" where
  "boardOk ids p \<longleftrightarrow> rowWhite p \<in> ids \<and> set_option (rowBlack p) \<subseteq> ids \<and> rowBlack p \<noteq> Some (rowWhite p) \<and>
     ((rowBlack p = None) = (rowResult p \<in> set BYE_RESULTS))"

definition seatsOf :: "PairingRow list \<Rightarrow> string list" where
  "seatsOf ps = concat (map (\<lambda>p. rowWhite p # (case rowBlack p of None \<Rightarrow> [] | Some b \<Rightarrow> [b])) ps)"

definition meetings :: "PairingRow list \<Rightarrow> string set list" where
  "meetings ps = List.map_filter (\<lambda>p. map_option (\<lambda>b. {rowWhite p, b}) (rowBlack p)) ps"

definition regsOk :: "SectionDb \<Rightarrow> bool" where
  "regsOk s \<longleftrightarrow> distinct (map regId (dbRegistrations s))"

definition roundsOk :: "SectionDb \<Rightarrow> bool" where
  "roundsOk s \<longleftrightarrow> map rowNumber (dbRounds s) = [1..int (length (dbRounds s))]
     \<and> distinct (map rowRoundId (dbRounds s)) \<and> (\<forall>r \<in> set (dbRounds s). rowRoundId r < dbNextId s)"

definition pairingsOk :: "SectionDb \<Rightarrow> bool" where
  "pairingsOk s \<longleftrightarrow> distinct (map rowPairingId (dbPairings s)) \<and>
     (\<forall>p \<in> set (dbPairings s). rowPairingId p < dbNextId s
        \<and> rowPairingRound p \<in> rowRoundId ` set (dbRounds s) \<and> boardOk (numberedIds s) p)"

definition seatingOk :: "SectionDb \<Rightarrow> bool" where
  "seatingOk s \<longleftrightarrow> (\<forall>rid. distinct (seatsOf (filter (\<lambda>p. rowPairingRound p = rid) (dbPairings s))))"

definition closedOk :: "SectionDb \<Rightarrow> bool" where
  "closedOk s \<longleftrightarrow> (\<forall>r \<in> set (dbRounds s).
     if rowStatus r = COMPLETED
     then \<forall>p \<in> set (dbPairings s). rowPairingRound p = rowRoundId r \<longrightarrow> rowResult p \<noteq> UNPLAYED
     else rowNumber r = int (length (dbRounds s)))"

definition norepeatOk :: "SectionDb \<Rightarrow> bool" where
  "norepeatOk s \<longleftrightarrow> (dbSystem s = SWISS_DUTCH \<longrightarrow> distinct (meetings (dbPairings s)))"

definition sectionOk :: "SectionDb \<Rightarrow> bool" where
  "sectionOk s \<longleftrightarrow> regsOk s \<and> roundsOk s \<and> pairingsOk s \<and> seatingOk s \<and> closedOk s \<and> norepeatOk s"

lemmas sectionOk_defs = sectionOk_def regsOk_def roundsOk_def pairingsOk_def seatingOk_def closedOk_def
  norepeatOk_def

lemma sectionOk_derived [simp]:
  "sectionOk (s\<lparr>dbStandings := x\<rparr>) = sectionOk s"
  "sectionOk (s\<lparr>dbAudit := y\<rparr>) = sectionOk s"
  "sectionOk (s\<lparr>dbOutbox := z\<rparr>) = sectionOk s"
  "sectionOk (s\<lparr>dbStatus := w\<rparr>) = sectionOk s"
  by (simp_all add: sectionOk_defs numberedIds_def)

section \<open>Effects of the building blocks\<close>

lemma auditWrite_eq:
  "auditWrite a s = (if auAction a \<in> REASON_REQUIRED \<and> (case auReason a of None \<Rightarrow> True | Some r \<Rightarrow> jsTrim r = '''')
     then (Inl (BusinessRuleError ''AUDIT_REASON_REQUIRED''), s)
     else (Inr (), s\<lparr>dbAudit := dbAudit s @ [a]\<rparr>))"
  by (simp add: auditWrite_def auditWriteTo_def bindS_def)

lemma auditWrite_InrD: "auditWrite a s = (Inr u, s') \<Longrightarrow> s' = s\<lparr>dbAudit := dbAudit s @ [a]\<rparr>"
  by (simp add: auditWrite_eq split: if_splits)

subsection \<open>Numbering\<close>

definition numberingOf :: "RegistrationRow \<Rightarrow> RegistrationRow \<Rightarrow> bool" where
  "numberingOf r r' \<longleftrightarrow> r' = r\<lparr>regPairingNumber := regPairingNumber r'\<rparr> \<and>
     (regPairingNumber r \<noteq> None \<longrightarrow> regPairingNumber r' \<noteq> None)"

lemma numberingOf_refl: "numberingOf r r"
  by (simp add: numberingOf_def)

lemma numberingOf_trans: "numberingOf a b \<Longrightarrow> numberingOf b c \<Longrightarrow> numberingOf a c"
  by (cases a; cases b; cases c) (auto simp: numberingOf_def)

lemma assignLoop_numbering: "list_all2 numberingOf tbl (assignLoop n regs tbl)"
proof (induction n regs tbl rule: assignLoop.induct)
  case (1 n tbl)
  then show ?case by (simp add: list_all2_same numberingOf_refl)
next
  case (2 n r rs tbl)
  have "list_all2 numberingOf tbl (map (\<lambda>x. if regId x = regId r then x\<lparr>regPairingNumber := Some n\<rparr> else x) tbl)"
    by (auto simp: list_all2_map2 list_all2_same numberingOf_def)
  from list_all2_trans[OF numberingOf_trans this 2] show ?case by simp
qed

lemma numbering_facts:
  assumes "list_all2 numberingOf tbl tbl'"
  shows "map regId tbl' = map regId tbl"
    and "regId ` {r \<in> set tbl. regPairingNumber r \<noteq> None} \<subseteq> regId ` {r \<in> set tbl'. regPairingNumber r \<noteq> None}"
proof -
  have id: "regId b = regId a" if "numberingOf a b" for a b
    using that by (cases a; cases b) (simp add: numberingOf_def)
  have nn: "regPairingNumber b \<noteq> None" if "numberingOf a b" "regPairingNumber a \<noteq> None" for a b
    using that unfolding numberingOf_def by blast
  show "map regId tbl' = map regId tbl"
    using assms by (induction rule: list_all2_induct) (simp_all add: id)
  show "regId ` {r \<in> set tbl. regPairingNumber r \<noteq> None} \<subseteq> regId ` {r \<in> set tbl'. regPairingNumber r \<noteq> None}"
  proof
    fix i assume "i \<in> regId ` {r \<in> set tbl. regPairingNumber r \<noteq> None}"
    then obtain k where k: "k < length tbl" "i = regId (tbl ! k)" "regPairingNumber (tbl ! k) \<noteq> None"
      by (auto simp: in_set_conv_nth)
    have n: "numberingOf (tbl ! k) (tbl' ! k)" using list_all2_nthD[OF assms k(1)] .
    have "tbl' ! k \<in> set tbl'" using k(1) list_all2_lengthD[OF assms] by simp
    then have "tbl' ! k \<in> {r \<in> set tbl'. regPairingNumber r \<noteq> None}" using nn[OF n k(3)] by simp
    then have "regId (tbl' ! k) \<in> regId ` {r \<in> set tbl'. regPairingNumber r \<noteq> None}" by (rule imageI)
    then show "i \<in> regId ` {r \<in> set tbl'. regPairingNumber r \<noteq> None}" using k(2) id[OF n] by simp
  qed
qed

lemma assignNumbers_effect:
  "\<exists>tbl au. snd (assignPairingNumbers u s) = s\<lparr>dbRegistrations := tbl, dbAudit := au\<rparr> \<and> list_all2 numberingOf (dbRegistrations s) tbl"
proof -
  have same: "\<exists>tbl au. s = s\<lparr>dbRegistrations := tbl, dbAudit := au\<rparr> \<and> list_all2 numberingOf (dbRegistrations s) tbl"
    by (rule exI[of _ "dbRegistrations s"], rule exI[of _ "dbAudit s"])
      (simp add: list_all2_same numberingOf_refl)
  let ?regs = "sort_key numberingKey (filter (\<lambda>r. regConfirmed r \<and> \<not> regWithdrawn r) (dbRegistrations s))"
  let ?tbl = "assignLoop 1 ?regs (dbRegistrations s)"
  have "wp (assignPairingNumbers u) (\<lambda>_ t. t = s \<or> (\<exists>au. t = s\<lparr>dbRegistrations := ?tbl, dbAudit := au\<rparr>)) (\<lambda>_ t. t = s) s"
    by (simp add: assignPairingNumbers_def wp_simps Let_def wp_def[of "auditWrite _"] auditWrite_eq)
      (intro impI, rule disjI2, rule exI, rule refl)
  then have "snd (assignPairingNumbers u s) = s \<or> (\<exists>au. snd (assignPairingNumbers u s) = s\<lparr>dbRegistrations := ?tbl, dbAudit := au\<rparr>)"
    by (auto simp: wp_def split: prod.splits sum.splits)
  then show ?thesis using same assignLoop_numbering by fastforce
qed

subsection \<open>A new round\<close>

lemma numbering_keeps:
  assumes "sectionOk s" "list_all2 numberingOf (dbRegistrations s) tbl"
  shows "sectionOk (s\<lparr>dbRegistrations := tbl, dbAudit := au\<rparr>)"
proof -
  note n = numbering_facts[OF assms(2)]
  have ids: "numberedIds s \<subseteq> numberedIds (s\<lparr>dbRegistrations := tbl, dbAudit := au\<rparr>)"
    using n(2) by (simp add: numberedIds_def)
  have mono: "boardOk A p \<Longrightarrow> A \<subseteq> B \<Longrightarrow> boardOk B p" for A B p
    by (auto simp: boardOk_def)
  show ?thesis
    using assms(1) n(1) ids mono unfolding sectionOk_defs by (simp; blast)
qed

lemma createRound_effect:
  assumes "createRoundWithPairings n ver boards u s = (r, s')"
  shows "s' = s \<or> (\<exists>au. s' = s\<lparr>dbRounds := dbRounds s @ [\<lparr>rowRoundId = dbNextId s, rowNumber = n,
             rowStatus = PAIRED, rowEngineVersion = ver\<rparr>],
           dbPairings := dbPairings s @ insertPairings (dbNextId s) (Suc (dbNextId s)) boards,
           dbNextId := Suc (dbNextId s) + length boards, dbAudit := au\<rparr> \<and> r = Inr (dbNextId s) \<and> n \<notin> rowNumber ` set (dbRounds s))"
proof (cases r)
  case (Inl e)
  then show ?thesis using assms unfolding createRoundWithPairings_def by (auto dest: transaction_Inl)
next
  case (Inr x)
  show ?thesis
    using assms unfolding Inr createRoundWithPairings_def transaction_Inr
    by (auto simp: bindS_Inr_iff dest!: auditWrite_InrD split: if_splits)
qed

lemma insertPairings_ids: "map rowPairingId (insertPairings rid f bs) = [f..<f + length bs]"
proof (induction bs arbitrary: f)
  case (Cons b bs)
  have "[f..<f + length (b # bs)] = f # [Suc f..<Suc f + length bs]"
    using upt_conv_Cons[of f "f + length (b # bs)"] by simp
  then show ?case by (simp add: Cons)
qed simp

lemma insertPairings_seats:
  "seatsOf (insertPairings rid f bs)
     = concat (map (\<lambda>b. bdWhite b # (case bdBlack b of None \<Rightarrow> [] | Some x \<Rightarrow> [x])) bs)"
  by (induction bs arbitrary: f) (simp_all add: seatsOf_def)

lemma insertPairings_meetings:
  "meetings (insertPairings rid f bs) = List.map_filter (\<lambda>b. map_option (\<lambda>x. {bdWhite b, x}) (bdBlack b)) bs"
  by (induction bs arbitrary: f) (simp_all add: meetings_def map_filter_simps split: option.splits)

lemma insertPairings_rows:
  "p \<in> set (insertPairings rid f bs) \<Longrightarrow> rowPairingRound p = rid \<and>
     (\<exists>b \<in> set bs. rowWhite p = bdWhite b \<and> rowBlack p = bdBlack b \<and> rowResult p = bdResult b)"
  by (induction bs arbitrary: f) auto

lemma byeBoards_seats:
  "concat (map (\<lambda>b. bdWhite b # (case bdBlack b of None \<Rightarrow> [] | Some x \<Rightarrow> [x])) (byeBoards n bs)) = map byePlayerId bs"
  by (induction bs arbitrary: n) simp_all

lemma byeBoards_meetings:
  "List.map_filter (\<lambda>b. map_option (\<lambda>x. {bdWhite b, x}) (bdBlack b)) (byeBoards n bs) = []"
  by (induction bs arbitrary: n) (simp_all add: map_filter_simps)

lemma byeBoards_rows:
  "b \<in> set (byeBoards n bs) \<Longrightarrow> bdBlack b = None \<and> bdResult b = BYE_FULL \<and> bdWhite b \<in> byePlayerId ` set bs"
  by (induction bs arbitrary: n) auto

lemma boardsOf_seats:
  "concat (map (\<lambda>b. bdWhite b # (case bdBlack b of None \<Rightarrow> [] | Some x \<Rightarrow> [x])) (boardsOf res)) = participants res"
  by (simp add: boardsOf_def participants_def byeBoards_seats seatedIds_def comp_def)

lemma boardsOf_meetings:
  "List.map_filter (\<lambda>b. map_option (\<lambda>x. {bdWhite b, x}) (bdBlack b)) (boardsOf res)
     = map (\<lambda>p. {whitePlayerId p, blackPlayerId p}) (pairings res)"
proof -
  have "List.map_filter (\<lambda>b. map_option (\<lambda>x. {bdWhite b, x}) (bdBlack b))
      (map (\<lambda>p. \<lparr>bdNumber = boardNumber p, bdWhite = whitePlayerId p, bdBlack = Some (blackPlayerId p),
               bdResult = UNPLAYED\<rparr>) ps) = map (\<lambda>p. {whitePlayerId p, blackPlayerId p}) ps" for ps
    by (induction ps) (simp_all add: map_filter_simps)
  then show ?thesis by (simp add: boardsOf_def map_filter_append byeBoards_meetings)
qed

lemma boardsOf_cases:
  assumes "b \<in> set (boardsOf res)"
  shows "(\<exists>p \<in> set (pairings res). bdWhite b = whitePlayerId p \<and> bdBlack b = Some (blackPlayerId p) \<and> bdResult b = UNPLAYED)
    \<or> (bdBlack b = None \<and> bdResult b = BYE_FULL \<and> bdWhite b \<in> byePlayerId ` set (byes res))"
  using assms by (auto simp: boardsOf_def dest: byeBoards_rows)

subsection \<open>The request the engine gets\<close>

lemma set_numbered: "set (numberedRegistrations s) = {r \<in> set (dbRegistrations s). regPairingNumber r \<noteq> None}"
  by (simp add: numberedRegistrations_def)

lemma distinct_numbered: "regsOk s \<Longrightarrow> distinct (map regId (numberedRegistrations s))"
proof -
  assume "regsOk s"
  then have "distinct (map regId (filter (\<lambda>r. regPairingNumber r \<noteq> None) (dbRegistrations s)))"
    by (simp add: regsOk_def distinct_map_filter_subset)
  moreover have "mset (map regId (numberedRegistrations s))
      = mset (map regId (filter (\<lambda>r. regPairingNumber r \<noteq> None) (dbRegistrations s)))"
    by (simp add: numberedRegistrations_def)
  ultimately show ?thesis using mset_eq_imp_distinct_iff by blast
qed

lemma request_players: "map playerId (players (requestFor c regs hist n)) = map regId regs"
  by (simp add: requestFor_def buildPairingStates_eq stateOf_eq toSeed_def comp_def)

lemma request_ids: "playerId ` set (players (requestFor c regs hist n)) = regId ` set regs"
  using arg_cong[OF request_players, of set c regs hist n] by simp

lemma request_wellFormed: "distinct (map regId regs) \<Longrightarrow> wellFormedRequest (requestFor c regs hist n)"
  by (simp add: wellFormedRequest_def request_players)

lemma set_history: "set (completedPairingsForSection s) = toHistoryEntry s ` set (dbPairings s)"
  by (simp add: completedPairingsForSection_def)

lemma request_opponents:
  assumes "x \<in> set (players (requestFor c regs hist n))" "e \<in> set hist" "heBlack e = Some b"
    "heWhite e \<noteq> b" "{playerId x, j} = {heWhite e, b}"
  shows "j \<in> opponentIds x"
proof -
  have "opponentIds x = opponentsOf (playerId x) hist"
    using assms(1) by (auto simp: requestFor_def buildPairingStates_eq stateOf_eq opponentsOf_byRound)
  moreover have "playerId x = heWhite e \<and> j = b \<or> playerId x = b \<and> j = heWhite e"
    using assms(5) by (auto simp: doubleton_eq_iff)
  ultimately show ?thesis using assms(2-4) unfolding opponentsOf_def by (auto intro!: bexI[of _ e])
qed

lemma engine_is_port: "engineFor mwm sys = Some engine \<Longrightarrow> pairing_port engine"
  by (cases sys) (auto intro: rr.pairing_port_axioms swiss.pairing_port_axioms)

section \<open>Preservation\<close>

lemma seatsOf_append [simp]: "seatsOf (xs @ ys) = seatsOf xs @ seatsOf ys"
  by (simp add: seatsOf_def)

lemma meetings_append [simp]: "meetings (xs @ ys) = meetings xs @ meetings ys"
  by (simp add: meetings_def map_filter_append)

lemma set_meetings: "set (meetings ps) = {{rowWhite p, b} | p b. p \<in> set ps \<and> rowBlack p = Some b}"
proof -
  have "x \<in> set (meetings ps) \<longleftrightarrow> (\<exists>p \<in> set ps. \<exists>b. rowBlack p = Some b \<and> x = {rowWhite p, b})" for x
    by (induction ps) (auto simp: meetings_def map_filter_simps split: option.splits)
  then show ?thesis by blast
qed

lemma distinct_edges:
  "distinct (seatedIds ps) \<Longrightarrow> distinct (map (\<lambda>p. {whitePlayerId p, blackPlayerId p}) ps)"
proof (induction ps)
  case (Cons p ps)
  have "{whitePlayerId p, blackPlayerId p} \<noteq> {whitePlayerId q, blackPlayerId q}" if "q \<in> set ps" for q
    using Cons.prems that by (auto simp: in_seatedIds)
  then show ?case using Cons by auto
qed simp

text \<open>
  The boards of a published round, computed from participants and a history that were read at some time: they
  repeat no meeting the history shows.
\<close>

lemma published_round:
  fixes rid fresh :: nat
  assumes dist: "distinct (map regId regs)" and eng: "engineFor mwm sys = Some engine"
    and res: "engine (requestFor c regs hist n) = Inr res"
  defines "rows \<equiv> insertPairings rid fresh (boardsOf res)"
  shows "distinct (seatsOf rows)"
    and "\<forall>p \<in> set rows. rowPairingRound p = rid \<and> boardOk (regId ` set regs) p"
    and "sys = SWISS_DUTCH \<Longrightarrow> distinct (meetings old) \<Longrightarrow>
      (\<And>p. p \<in> set old \<Longrightarrow> rowBlack p \<noteq> Some (rowWhite p) \<and> (\<exists>e \<in> set hist. heWhite e = rowWhite p \<and> heBlack e = rowBlack p)) \<Longrightarrow>
      distinct (meetings (old @ rows))"
proof -
  have port: "pairing_port engine" by (rule engine_is_port[OF eng])
  have wf: "wellFormedRequest (requestFor c regs hist n)" by (rule request_wellFormed[OF dist])
  note once = pairing_port.active_exactly_once[OF port wf res]
  have sub: "set (participants res) \<subseteq> regId ` set regs"
    using once(2) request_ids[of c regs hist n] by (auto simp: activePlayers_def)
  show seats: "distinct (seatsOf rows)"
    unfolding rows_def insertPairings_seats boardsOf_seats by (rule once(1))
  have ds: "distinct (seatedIds (pairings res))" using once(1) by (simp add: participants_def)
  show "\<forall>p \<in> set rows. rowPairingRound p = rid \<and> boardOk (regId ` set regs) p"
  proof
    fix p assume "p \<in> set rows"
    then obtain b where r: "rowPairingRound p = rid" and b: "b \<in> set (boardsOf res)"
      "rowWhite p = bdWhite b" "rowBlack p = bdBlack b" "rowResult p = bdResult b"
      unfolding rows_def using insertPairings_rows by blast
    from boardsOf_cases[OF b(1)] have "boardOk (regId ` set regs) p"
    proof (elim disjE bexE conjE)
      fix q assume q: "q \<in> set (pairings res)" "bdWhite b = whitePlayerId q" "bdBlack b = Some (blackPlayerId q)"
        "bdResult b = UNPLAYED"
      have "whitePlayerId q \<in> set (participants res)" "blackPlayerId q \<in> set (participants res)"
        using q(1) by (auto simp: participants_def in_seatedIds)
      moreover have "whitePlayerId q \<noteq> blackPlayerId q"
        by (rule pairing_port.no_self_pairing[OF port wf res q(1)])
      ultimately show ?thesis using sub b q by (auto simp: boardOk_def BYE_RESULTS_def)
    next
      assume "bdBlack b = None" "bdResult b = BYE_FULL" "bdWhite b \<in> byePlayerId ` set (byes res)"
      moreover from this(3) have "bdWhite b \<in> set (participants res)" by (auto simp: participants_def)
      ultimately show ?thesis using sub b by (auto simp: boardOk_def BYE_RESULTS_def)
    qed
    with r show "rowPairingRound p = rid \<and> boardOk (regId ` set regs) p" ..
  qed
  show "distinct (meetings (old @ rows))" if swiss: "sys = SWISS_DUTCH" and old: "distinct (meetings old)"
    and seen: "\<And>p. p \<in> set old \<Longrightarrow> rowBlack p \<noteq> Some (rowWhite p) \<and> (\<exists>e \<in> set hist. heWhite e = rowWhite p \<and> heBlack e = rowBlack p)"
  proof -
    have c1: "pairing_port_c1 engine"
      using eng swiss by (auto intro: swiss.pairing_port_c1_axioms)
    have new: "meetings rows = map (\<lambda>p. {whitePlayerId p, blackPlayerId p}) (pairings res)"
      unfolding rows_def insertPairings_meetings boardsOf_meetings ..
    have "{whitePlayerId q, blackPlayerId q} \<notin> set (meetings old)" if q: "q \<in> set (pairings res)" for q
    proof
      assume "{whitePlayerId q, blackPlayerId q} \<in> set (meetings old)"
      then obtain p b where p: "p \<in> set old" "rowBlack p = Some b"
        "{whitePlayerId q, blackPlayerId q} = {rowWhite p, b}"
        unfolding set_meetings by blast
      obtain x y where xy: "x \<in> set (players (requestFor c regs hist n))" "y \<in> set (players (requestFor c regs hist n))"
        "playerId x = whitePlayerId q" "playerId y = blackPlayerId q"
        "playerId y \<notin> opponentIds x"
        using pairing_port_c1.opponents_fresh[OF c1 wf res q] by blast
      obtain e where e: "e \<in> set hist" "heWhite e = rowWhite p" "heBlack e = Some b" "rowWhite p \<noteq> b"
        using seen[OF p(1)] p(2) by auto
      have "playerId y \<in> opponentIds x"
        by (rule request_opponents[OF xy(1) e(1,3)]) (use e p(3) xy(3,4) in simp_all)
      then show False using xy(5) by simp
    qed
    then have "set (meetings old) \<inter> set (meetings rows) = {}" unfolding new by auto
    moreover have "distinct (meetings rows)" unfolding new by (rule distinct_edges[OF ds])
    ultimately show ?thesis using old by simp
  qed
qed

lemma latestOf_increasing:
  "sorted_wrt (<) (map rowNumber (b # rs)) \<Longrightarrow> latestOf (Some b) rs = Some (last (b # rs))"
proof (induction rs arbitrary: b)
  case (Cons r rs)
  then show ?case using Cons.IH[of r] by simp
qed simp

lemma latest_is_last:
  assumes "roundsOk s" "dbRounds s \<noteq> []"
  shows "latestRound s = Some (last (dbRounds s))" "rowNumber (last (dbRounds s)) = int (length (dbRounds s))"
proof -
  have nums: "map rowNumber (dbRounds s) = [1..int (length (dbRounds s))]" using assms(1) by (simp add: roundsOk_def)
  then have "sorted_wrt (<) (map rowNumber (dbRounds s))" by (simp only: sorted_wrt_upto)
  moreover obtain r rs where rs: "dbRounds s = r # rs" using assms(2) by (cases "dbRounds s") auto
  ultimately show "latestRound s = Some (last (dbRounds s))"
    using latestOf_increasing[of r rs] by (simp add: latestRound_def)
  have "rowNumber (last (dbRounds s)) = last (map rowNumber (dbRounds s))"
    using assms(2) by (simp add: last_map)
  also have "\<dots> = int (length (dbRounds s))"
  proof -
    have "1 \<le> int (length (dbRounds s))" using assms(2) by (cases "dbRounds s") auto
    then show ?thesis unfolding nums by (simp add: upto_rec2)
  qed
  finally show "rowNumber (last (dbRounds s)) = int (length (dbRounds s))" .
qed

lemma latest_completed:
  assumes "sectionOk s" "dbRounds s \<noteq> []" "rowStatus (last (dbRounds s)) = COMPLETED" "r \<in> set (dbRounds s)"
  shows "rowStatus r = COMPLETED"
proof (rule ccontr)
  assume open_: "rowStatus r \<noteq> COMPLETED"
  have ro: "roundsOk s" using assms(1) by (simp add: sectionOk_def)
  have nums: "map rowNumber (dbRounds s) = [1..int (length (dbRounds s))]" using ro by (simp add: roundsOk_def)
  have "rowNumber r = rowNumber (last (dbRounds s))"
    using assms(1,4) latest_is_last(2)[OF ro assms(2)] open_ by (auto simp: sectionOk_def closedOk_def)
  moreover have "inj_on rowNumber (set (dbRounds s))" using nums by (metis distinct_map distinct_upto)
  ultimately have "r = last (dbRounds s)" using assms(2,4) by (auto dest: inj_onD)
  then show False using assms(3) open_ by simp
qed

lemma upto_snoc: "[1..1 + int k] = [1..int k] @ [int k + 1]"
  using upto_rec2[of 1 "1 + int k"] by simp

lemma new_round_keeps:
  assumes ok: "sectionOk s" and closed: "\<forall>r \<in> set (dbRounds s). rowStatus r = COMPLETED"
    and rows: "map rowPairingId rows = [Suc (dbNextId s)..<Suc (dbNextId s) + k]" "distinct (seatsOf rows)"
      "\<forall>p \<in> set rows. rowPairingRound p = dbNextId s \<and> boardOk (numberedIds s) p"
      "dbSystem s = SWISS_DUTCH \<Longrightarrow> distinct (meetings (dbPairings s @ rows))"
  shows "sectionOk (s\<lparr>dbRounds := dbRounds s @ [\<lparr>rowRoundId = dbNextId s, rowNumber = int (length (dbRounds s)) + 1,
             rowStatus = PAIRED, rowEngineVersion = ver\<rparr>],
           dbPairings := dbPairings s @ rows, dbNextId := Suc (dbNextId s) + k, dbAudit := au\<rparr>)" (is "sectionOk ?t")
proof -
  let ?new = "\<lparr>rowRoundId = dbNextId s, rowNumber = int (length (dbRounds s)) + 1, rowStatus = PAIRED,
    rowEngineVersion = ver\<rparr>"
  have oldRound: "rowPairingRound p < dbNextId s" if "p \<in> set (dbPairings s)" for p
    using ok that by (auto simp: sectionOk_defs)
  have newId: "dbNextId s < rowPairingId p \<and> rowPairingId p < Suc (dbNextId s) + k" if "p \<in> set rows" for p
  proof -
    have "rowPairingId p \<in> set (map rowPairingId rows)" using that by simp
    then show ?thesis unfolding rows(1) set_upt by simp
  qed
  have "regsOk ?t" using ok by (simp add: sectionOk_defs)
  moreover have "roundsOk ?t"
    using ok upto_snoc[of "length (dbRounds s)"] by (auto simp: sectionOk_defs)
  moreover have "pairingsOk ?t"
  proof -
    have "distinct (map rowPairingId rows)" unfolding rows(1) by simp
    moreover have "rowPairingId p \<noteq> rowPairingId q" if "p \<in> set (dbPairings s)" "q \<in> set rows" for p q
    proof -
      have "rowPairingId p < dbNextId s" using ok that(1) by (auto simp: sectionOk_defs)
      then show ?thesis using newId[OF that(2)] by simp
    qed
    moreover have "numberedIds ?t = numberedIds s" by (simp add: numberedIds_def)
    ultimately show ?thesis using ok rows(3) newId by (fastforce simp: sectionOk_defs)
  qed
  moreover have "seatingOk ?t"
  proof -
    have rows_of: "filter (\<lambda>p. rowPairingRound p = rid) rows = (if rid = dbNextId s then rows else [])" for rid
      using rows(3) by (auto simp: filter_empty_conv filter_id_conv)
    have old: "filter (\<lambda>p. rowPairingRound p = dbNextId s) (dbPairings s) = []"
      using oldRound by (fastforce simp: filter_empty_conv)
    have "distinct (seatsOf (filter (\<lambda>p. rowPairingRound p = rid) (dbPairings s @ rows)))" for rid
    proof (cases "rid = dbNextId s")
      case True
      then show ?thesis using rows(2) by (simp add: rows_of old)
    next
      case False
      then show ?thesis using ok by (simp add: rows_of sectionOk_def seatingOk_def)
    qed
    then show ?thesis by (simp add: seatingOk_def)
  qed
  moreover have "closedOk ?t"
  proof -
    have "rowPairingRound p = rowRoundId r \<Longrightarrow> p \<notin> set rows" if "r \<in> set (dbRounds s)" for p r
      using ok that rows(3) by (auto simp: sectionOk_defs)
    then show ?thesis using ok closed by (auto simp: sectionOk_def closedOk_def)
  qed
  moreover have "norepeatOk ?t" using rows(4) by (simp add: norepeatOk_def)
  ultimately show ?thesis by (simp add: sectionOk_def)
qed

text \<open>A result, a withdrawal and a closed round change no seat.\<close>

lemma rewrite_pairings_keeps:
  assumes ok: "sectionOk s"
    and ids: "\<And>q. rowPairingId (g q) = rowPairingId q"
    and seat: "\<And>q. rowPairingRound (g q) = rowPairingRound q" "\<And>q. rowWhite (g q) = rowWhite q"
      "\<And>q. rowBlack (g q) = rowBlack q"
    and board: "\<And>A q. q \<in> set (dbPairings s) \<Longrightarrow> boardOk A q \<Longrightarrow> boardOk A (g q)"
    and played: "\<And>q. rowResult q \<noteq> UNPLAYED \<Longrightarrow> rowResult (g q) \<noteq> UNPLAYED"
  shows "sectionOk (s\<lparr>dbPairings := map g (dbPairings s)\<rparr>)" (is "sectionOk ?t")
proof -
  have seats: "seatsOf (filter (\<lambda>p. rowPairingRound p = rid) (map g ps))
      = seatsOf (filter (\<lambda>p. rowPairingRound p = rid) ps)" for rid ps
    by (induction ps) (simp_all add: seat seatsOf_def)
  have met: "meetings (map g ps) = meetings ps" for ps
    by (induction ps) (simp_all add: seat meetings_def map_filter_simps split: option.splits)
  have same: "map rowPairingId (map g ps) = map rowPairingId ps" for ps by (simp add: ids)
  have nid: "numberedIds ?t = numberedIds s" by (simp add: numberedIds_def)
  have "pairingsOk ?t"
    using ok board unfolding sectionOk_def pairingsOk_def nid by (simp add: ids seat comp_def)
  moreover have "seatingOk ?t" using ok by (simp add: sectionOk_def seatingOk_def seats)
  moreover have "norepeatOk ?t" using ok by (simp add: sectionOk_def norepeatOk_def met)
  moreover have "closedOk ?t" using ok played by (simp add: sectionOk_def closedOk_def seat)
  ultimately show ?thesis using ok by (simp add: sectionOk_def regsOk_def roundsOk_def)
qed

lemma rewrite_rounds_keeps:
  assumes ok: "sectionOk s"
    and same: "\<And>r. rowRoundId (g r) = rowRoundId r" "\<And>r. rowNumber (g r) = rowNumber r"
    and closed: "\<And>r p. rowStatus (g r) = COMPLETED \<Longrightarrow> rowStatus r \<noteq> COMPLETED \<Longrightarrow> p \<in> set (dbPairings s) \<Longrightarrow>
        rowPairingRound p = rowRoundId r \<Longrightarrow> rowResult p \<noteq> UNPLAYED"
      "\<And>r. rowStatus r = COMPLETED \<Longrightarrow> rowStatus (g r) = COMPLETED"
  shows "sectionOk (s\<lparr>dbRounds := map g (dbRounds s)\<rparr>)" (is "sectionOk ?t")
proof -
  have nid: "numberedIds ?t = numberedIds s" by (simp add: numberedIds_def)
  have "roundsOk ?t" using ok by (simp add: sectionOk_def roundsOk_def same comp_def)
  moreover have "pairingsOk ?t"
    using ok unfolding sectionOk_def pairingsOk_def nid by (simp add: same image_image)
  moreover have "if rowStatus (g r) = COMPLETED
      then \<forall>p \<in> set (dbPairings s). rowPairingRound p = rowRoundId r \<longrightarrow> rowResult p \<noteq> UNPLAYED
      else rowNumber r = int (length (dbRounds s))" if r: "r \<in> set (dbRounds s)" for r
  proof -
    have old: "if rowStatus r = COMPLETED
      then \<forall>p \<in> set (dbPairings s). rowPairingRound p = rowRoundId r \<longrightarrow> rowResult p \<noteq> UNPLAYED
      else rowNumber r = int (length (dbRounds s))"
      using ok r unfolding sectionOk_def closedOk_def by blast
    show ?thesis
    proof (cases "rowStatus r = COMPLETED")
      case True
      then show ?thesis using old closed(2)[of r] by simp
    next
      case False
      then show ?thesis using old closed(1)[of r] by simp
    qed
  qed
  then have "closedOk ?t" by (simp add: closedOk_def same)
  ultimately show ?thesis using ok by (simp add: sectionOk_def regsOk_def seatingOk_def norepeatOk_def)
qed

lemma findPairing_Some: "findPairing s i = Some p \<Longrightarrow> p \<in> set (dbPairings s) \<and> rowPairingId p = i"
  by (auto simp: findPairing_def find_Some_iff)

lemma result_keeps:
  assumes ok: "sectionOk s" and p: "findPairing s i = Some p" and res: "res \<in> set ENTERABLE_RESULTS"
    and fits: "(rowBlack p = None) = (res \<in> set BYE_RESULTS)"
  shows "sectionOk (s\<lparr>dbPairings := map (\<lambda>q. if rowPairingId q = i
     then q\<lparr>rowResult := res, rowEnteredBy := by'\<rparr> else q) (dbPairings s)\<rparr>)"
proof (rule rewrite_pairings_keeps[OF ok])
  have only: "q = p" if "q \<in> set (dbPairings s)" "rowPairingId q = i" for q
    using ok findPairing_Some[OF p] that
    by (auto simp: sectionOk_defs distinct_map dest: inj_onD)
  show "boardOk A (if rowPairingId q = i then q\<lparr>rowResult := res, rowEnteredBy := by'\<rparr> else q)"
    if "q \<in> set (dbPairings s)" "boardOk A q" for A q
    using that fits only[OF that(1)] by (auto simp: boardOk_def)
  have "res \<noteq> UNPLAYED" using res by (auto simp: ENTERABLE_RESULTS_def)
  then show "rowResult q \<noteq> UNPLAYED \<Longrightarrow>
      rowResult (if rowPairingId q = i then q\<lparr>rowResult := res, rowEnteredBy := by'\<rparr> else q) \<noteq> UNPLAYED" for q
    by simp
qed simp_all

lemma close_keeps:
  assumes "sectionOk s"
    and "\<And>p. p \<in> set (dbPairings s) \<Longrightarrow> rowPairingRound p = rid \<Longrightarrow> rowResult p \<noteq> UNPLAYED"
  shows "sectionOk (s\<lparr>dbRounds := map (\<lambda>r. if rowRoundId r = rid then r\<lparr>rowStatus := COMPLETED\<rparr> else r)
     (dbRounds s)\<rparr>)"
  by (rule rewrite_rounds_keeps[OF assms(1)]) (use assms(2) in \<open>auto split: if_splits\<close>)

lemma rewrite_registrations_keeps:
  assumes ok: "sectionOk s" and ids: "distinct (map regId tbl)" and sub: "numberedIds s \<subseteq> numberedIds (s\<lparr>dbRegistrations := tbl\<rparr>)"
  shows "sectionOk (s\<lparr>dbRegistrations := tbl\<rparr>)"
proof -
  have mono: "boardOk (numberedIds s) p \<Longrightarrow> boardOk (numberedIds (s\<lparr>dbRegistrations := tbl\<rparr>)) p" for p
    using sub by (auto simp: boardOk_def)
  then show ?thesis using ok ids
    by (simp add: sectionOk_def regsOk_def roundsOk_def pairingsOk_def seatingOk_def closedOk_def norepeatOk_def)
qed

lemma map_registrations_keeps:
  assumes "sectionOk s" "\<And>r. regId (g r) = regId r" "\<And>r. regPairingNumber (g r) = regPairingNumber r"
  shows "sectionOk (s\<lparr>dbRegistrations := map g (dbRegistrations s)\<rparr>)"
proof (rule rewrite_registrations_keeps[OF assms(1)])
  show "distinct (map regId (map g (dbRegistrations s)))"
    using assms by (simp add: sectionOk_def regsOk_def comp_def)
  have "regId r \<in> numberedIds (s\<lparr>dbRegistrations := map g (dbRegistrations s)\<rparr>)"
    if "r \<in> set (dbRegistrations s)" "regPairingNumber r \<noteq> None" for r
    unfolding numberedIds_def by (rule image_eqI[of _ _ "g r"]) (use that assms(2,3) in auto)
  then show "numberedIds s \<subseteq> numberedIds (s\<lparr>dbRegistrations := map g (dbRegistrations s)\<rparr>)"
    by (auto simp: numberedIds_def)
qed

section \<open>What a request relies on\<close>

text \<open>
  However the others act, between two steps of a request the system of the section stays, numbered participants stay
  numbered, rounds and games are only added, games to new rounds only, and what is completed or played stays so.
\<close>

definition rowsExtend :: "('a \<Rightarrow> 'a \<Rightarrow> bool) \<Rightarrow> 'a list \<Rightarrow> 'a list \<Rightarrow> bool" where
  "rowsExtend K xs ys \<longleftrightarrow> length xs \<le> length ys \<and> (\<forall>k < length xs. K (xs ! k) (ys ! k))"

definition roundKept :: "RoundRow \<Rightarrow> RoundRow \<Rightarrow> bool" where
  "roundKept r r' \<longleftrightarrow> rowRoundId r' = rowRoundId r \<and> rowNumber r' = rowNumber r \<and>
     (rowStatus r = COMPLETED \<longrightarrow> rowStatus r' = COMPLETED)"

definition gameKept :: "PairingRow \<Rightarrow> PairingRow \<Rightarrow> bool" where
  "gameKept p p' \<longleftrightarrow> rowPairingId p' = rowPairingId p \<and> rowPairingRound p' = rowPairingRound p \<and>
     rowWhite p' = rowWhite p \<and> rowBlack p' = rowBlack p \<and> (rowResult p \<noteq> UNPLAYED \<longrightarrow> rowResult p' \<noteq> UNPLAYED)"

definition secRely :: "SectionDb \<Rightarrow> SectionDb \<Rightarrow> bool" where
  "secRely s t \<longleftrightarrow> dbSystem t = dbSystem s \<and> numberedIds s \<subseteq> numberedIds t \<and>
     rowsExtend roundKept (dbRounds s) (dbRounds t) \<and> rowsExtend gameKept (dbPairings s) (dbPairings t) \<and>
     (\<forall>k. length (dbPairings s) \<le> k \<and> k < length (dbPairings t) \<longrightarrow>
        rowPairingRound (dbPairings t ! k) \<notin> rowRoundId ` set (dbRounds s))"

lemma rowsExtend_refl: "(\<And>x. K x x) \<Longrightarrow> rowsExtend K xs xs"
  by (simp add: rowsExtend_def)

lemma rowsExtend_trans:
  "(\<And>x y z. K x y \<Longrightarrow> K y z \<Longrightarrow> K x z) \<Longrightarrow> rowsExtend K xs ys \<Longrightarrow> rowsExtend K ys zs \<Longrightarrow> rowsExtend K xs zs"
  unfolding rowsExtend_def by (metis le_trans order_less_le_trans)

lemma rowsExtend_map: "(\<And>x. x \<in> set xs \<Longrightarrow> K x (g x)) \<Longrightarrow> rowsExtend K xs (map g xs)"
  by (simp add: rowsExtend_def)

lemma rowsExtend_append: "(\<And>x. K x x) \<Longrightarrow> rowsExtend K xs (xs @ ys)"
  by (simp add: rowsExtend_def nth_append)

lemma rowsExtend_in: "rowsExtend K xs ys \<Longrightarrow> x \<in> set xs \<Longrightarrow> \<exists>y \<in> set ys. K x y"
  unfolding rowsExtend_def by (metis in_set_conv_nth nth_mem order_less_le_trans)

lemma roundKept_refl: "roundKept r r" and roundKept_trans: "roundKept a b \<Longrightarrow> roundKept b c \<Longrightarrow> roundKept a c"
  by (auto simp: roundKept_def)

lemma gameKept_refl: "gameKept p p" and gameKept_trans: "gameKept a b \<Longrightarrow> gameKept b c \<Longrightarrow> gameKept a c"
  by (auto simp: gameKept_def)

lemma rounds_grow:
  assumes e: "rowsExtend roundKept rs rs'"
  shows "rowRoundId ` set rs \<subseteq> rowRoundId ` set rs'"
proof
  fix i assume "i \<in> rowRoundId ` set rs"
  then obtain r where "r \<in> set rs" "i = rowRoundId r" by blast
  with rowsExtend_in[OF e, of r] obtain r' where "r' \<in> set rs'" "rowRoundId r' = i" by (auto simp: roundKept_def)
  then show "i \<in> rowRoundId ` set rs'" by (auto intro: image_eqI[of _ _ r'])
qed

lemma secRely_refl: "secRely s s"
  by (auto simp: secRely_def rowsExtend_refl roundKept_refl gameKept_refl)

lemma secRely_trans: "secRely s t \<Longrightarrow> secRely t u \<Longrightarrow> secRely s u"
proof -
  assume st: "secRely s t" and tu: "secRely t u"
  have "rowsExtend roundKept (dbRounds s) (dbRounds u)"
    by (rule rowsExtend_trans[of roundKept _ "dbRounds t"]) (use st tu in \<open>auto simp: secRely_def intro: roundKept_trans\<close>)
  moreover have "rowsExtend gameKept (dbPairings s) (dbPairings u)"
    by (rule rowsExtend_trans[of gameKept _ "dbPairings t"]) (use st tu in \<open>auto simp: secRely_def intro: gameKept_trans\<close>)
  moreover have "rowPairingRound (dbPairings u ! k) \<notin> rowRoundId ` set (dbRounds s)"
    if k: "length (dbPairings s) \<le> k" "k < length (dbPairings u)" for k
  proof (cases "k < length (dbPairings t)")
    case True
    then have "gameKept (dbPairings t ! k) (dbPairings u ! k)" using tu by (simp add: secRely_def rowsExtend_def)
    then show ?thesis using st k(1) True by (simp add: secRely_def gameKept_def)
  next
    case False
    then have "rowPairingRound (dbPairings u ! k) \<notin> rowRoundId ` set (dbRounds t)" using tu k(2) by (simp add: secRely_def)
    then show ?thesis using st rounds_grow[of "dbRounds s" "dbRounds t"] by (auto simp: secRely_def)
  qed
  ultimately show ?thesis using st tu by (auto simp: secRely_def)
qed

lemma secRely_same:
  "dbSystem t = dbSystem s \<Longrightarrow> dbRounds t = dbRounds s \<Longrightarrow> dbPairings t = dbPairings s \<Longrightarrow> numberedIds s \<subseteq> numberedIds t \<Longrightarrow>
     secRely s t"
  by (auto simp: secRely_def rowsExtend_refl roundKept_refl gameKept_refl)

lemma secRely_derived [simp]:
  "secRely s (t\<lparr>dbStandings := x\<rparr>) = secRely s t"
  "secRely s (t\<lparr>dbAudit := y\<rparr>) = secRely s t"
  "secRely s (t\<lparr>dbOutbox := z\<rparr>) = secRely s t"
  "secRely s (t\<lparr>dbStatus := w\<rparr>) = secRely s t"
  by (simp_all add: secRely_def numberedIds_def)

text \<open>As long as no round is added, the meetings stay.\<close>

lemma meetings_kept:
  assumes ok: "sectionOk t" and st: "secRely s t" and same: "length (dbRounds t) = length (dbRounds s)"
  shows "map (\<lambda>p. (rowWhite p, rowBlack p)) (dbPairings t) = map (\<lambda>p. (rowWhite p, rowBlack p)) (dbPairings s)"
proof -
  have "map rowRoundId (dbRounds t) = map rowRoundId (dbRounds s)"
    using st same by (auto simp: secRely_def rowsExtend_def roundKept_def intro: nth_equalityI)
  then have ids: "rowRoundId ` set (dbRounds t) = rowRoundId ` set (dbRounds s)" by (metis list.set_map)
  have "length (dbPairings t) = length (dbPairings s)"
  proof (rule ccontr)
    assume "length (dbPairings t) \<noteq> length (dbPairings s)"
    then have k: "length (dbPairings s) < length (dbPairings t)" using st by (simp add: secRely_def rowsExtend_def)
    then have "rowPairingRound (dbPairings t ! length (dbPairings s)) \<notin> rowRoundId ` set (dbRounds t)"
      using st ids by (auto simp: secRely_def)
    then show False using ok nth_mem[OF k] by (auto simp: sectionOk_def pairingsOk_def)
  qed
  then show ?thesis using st by (auto simp: secRely_def rowsExtend_def gameKept_def intro: nth_equalityI)
qed

lemma game_found:
  assumes "sectionOk t" "secRely s t" "findPairing s i = Some p" "findPairing t i = Some q"
  shows "gameKept p q"
proof -
  obtain q' where q': "q' \<in> set (dbPairings t)" "gameKept p q'"
    using rowsExtend_in[of gameKept "dbPairings s" "dbPairings t" p] assms(2) findPairing_Some[OF assms(3)]
    unfolding secRely_def by blast
  have "inj_on rowPairingId (set (dbPairings t))" using assms(1) by (simp add: sectionOk_def pairingsOk_def distinct_map)
  then have "q' = q" using q' findPairing_Some[OF assms(3)] findPairing_Some[OF assms(4)]
    by (auto simp: gameKept_def dest: inj_onD)
  then show ?thesis using q'(2) by simp
qed

section \<open>Transactions\<close>

text \<open>Each transaction, in the state in which it runs: it keeps the invariant and what others rely on.\<close>

definition steadyIn :: "SectionDb \<Rightarrow> 'a service \<Rightarrow> bool" where
  "steadyIn s m \<longleftrightarrow> sectionOk (snd (m s)) \<and> secRely s (snd (m s))"

lemma steady_wp: "wp m (\<lambda>_ t. sectionOk t \<and> secRely s t) (\<lambda>_ t. sectionOk t \<and> secRely s t) s \<Longrightarrow> steadyIn s m"
  unfolding steadyIn_def by (rule wp_snd)

lemma wp_audit:
  "wp (auditWrite a) Q E s = (if auAction a \<in> REASON_REQUIRED \<and> (case auReason a of None \<Rightarrow> True | Some r \<Rightarrow> jsTrim r = '''')
     then E (BusinessRuleError ''AUDIT_REASON_REQUIRED'') s else Q () (s\<lparr>dbAudit := dbAudit s @ [a]\<rparr>))"
  by (simp add: wp_def auditWrite_eq)

lemma steady_upsert: "sectionOk s \<Longrightarrow> steadyIn s (upsertStandings rows)"
  by (rule steady_wp) (simp add: upsertStandings_def wp_simps secRely_refl)

lemma steady_status: "sectionOk s \<Longrightarrow> steadyIn s (repoChangeStatus st u why)"
  by (rule steady_wp) (simp add: repoChangeStatus_def wp_simps wp_audit secRely_refl)

lemma steady_numbers:
  assumes ok: "sectionOk s"
  shows "steadyIn s (assignPairingNumbers u)"
proof -
  obtain tbl au where t: "snd (assignPairingNumbers u s) = s\<lparr>dbRegistrations := tbl, dbAudit := au\<rparr>"
    "list_all2 numberingOf (dbRegistrations s) tbl" using assignNumbers_effect by blast
  have "numberedIds s \<subseteq> numberedIds (s\<lparr>dbRegistrations := tbl, dbAudit := au\<rparr>)"
    using numbering_facts(2)[OF t(2)] by (simp add: numberedIds_def)
  then have "secRely s (s\<lparr>dbRegistrations := tbl, dbAudit := au\<rparr>)" by (intro secRely_same) simp_all
  then show ?thesis unfolding steadyIn_def t(1) using numbering_keeps[OF ok t(2)] by blast
qed

lemma steady_result:
  assumes ok: "sectionOk t" and st: "secRely s t" and p: "findPairing s i = Some p"
    and res: "res \<in> set ENTERABLE_RESULTS" and fits: "(rowBlack p = None) = (res \<in> set BYE_RESULTS)"
  shows "steadyIn t (repoEnterResult i res u why)"
proof (cases "findPairing t i")
  case None
  show ?thesis by (rule steady_wp) (simp add: repoEnterResult_def wp_simps None ok secRely_refl)
next
  case (Some q)
  let ?g = "\<lambda>p. if rowPairingId p = i then p\<lparr>rowResult := res, rowEnteredBy := Some u\<rparr> else p"
  have fq: "(rowBlack q = None) = (res \<in> set BYE_RESULTS)"
    using game_found[OF ok st p Some] fits by (simp add: gameKept_def)
  have un: "res \<noteq> UNPLAYED" using res by (auto simp: ENTERABLE_RESULTS_def)
  have "rowsExtend gameKept (dbPairings t) (map ?g (dbPairings t))"
    by (rule rowsExtend_map) (use un in \<open>auto simp: gameKept_def\<close>)
  then have "secRely t (t\<lparr>dbPairings := map ?g (dbPairings t)\<rparr>)"
    by (auto simp: secRely_def numberedIds_def rowsExtend_refl roundKept_refl)
  then show ?thesis using result_keeps[OF ok Some res fq]
    by (intro steady_wp) (simp add: repoEnterResult_def wp_simps wp_audit Some ok secRely_refl)
qed

lemma round_played:
  assumes ok: "sectionOk t" and st: "secRely s t" and r: "findRound s rid = Some (r, ps)"
    and all: "filter (\<lambda>p. rowResult p = UNPLAYED) ps = []" and p: "p \<in> set (dbPairings t)" "rowPairingRound p = rid"
  shows "rowResult p \<noteq> UNPLAYED"
proof -
  have ps: "ps = pairingsOfRound s rid" and rid: "rid \<in> rowRoundId ` set (dbRounds s)"
    using r by (auto simp: findRound_def findRoundRow_def find_Some_iff)
  obtain k where k: "k < length (dbPairings t)" "p = dbPairings t ! k" using p(1) by (metis in_set_conv_nth)
  have old: "k < length (dbPairings s)"
    using st k p(2) rid by (force simp: secRely_def not_less)
  then have kept: "gameKept (dbPairings s ! k) p" using st k(2) by (simp add: secRely_def rowsExtend_def)
  then have "dbPairings s ! k \<in> set ps" using old p(2) by (simp add: ps pairingsOfRound_def gameKept_def)
  then have "rowResult (dbPairings s ! k) \<noteq> UNPLAYED" using all by (auto simp: filter_empty_conv)
  then show ?thesis using kept by (simp add: gameKept_def)
qed

lemma steady_close:
  assumes ok: "sectionOk t" and st: "secRely s t" and r: "findRound s rid = Some (r, ps)"
    and all: "filter (\<lambda>p. rowResult p = UNPLAYED) ps = []"
  shows "steadyIn t (repoCompleteRound rid u)"
proof -
  let ?g = "\<lambda>r. if rowRoundId r = rid then r\<lparr>rowStatus := COMPLETED\<rparr> else r"
  have "sectionOk (t\<lparr>dbRounds := map ?g (dbRounds t)\<rparr>)" by (rule close_keeps[OF ok]) (rule round_played[OF ok st r all])
  moreover have "rowsExtend roundKept (dbRounds t) (map ?g (dbRounds t))" by (rule rowsExtend_map) (simp add: roundKept_def)
  then have "secRely t (t\<lparr>dbRounds := map ?g (dbRounds t)\<rparr>)"
    by (auto simp: secRely_def numberedIds_def rowsExtend_refl gameKept_refl)
  ultimately show ?thesis
    by (intro steady_wp) (simp add: repoCompleteRound_def wp_simps wp_audit ok secRely_refl split: option.split)
qed

text \<open>
  A round is published some time after the latest round, the participants and the history were read: that its number is
  still free shows that no round, hence no game, was added since.
\<close>

lemma steady_create:
  assumes ok: "sectionOk s1" "sectionOk s2" "sectionOk t" and rely: "secRely s1 s2" "secRely s2 s3" "secRely s3 t"
    and n: "n = int (length (dbRounds s1)) + 1" and closed: "\<And>r. r \<in> set (dbRounds s1) \<Longrightarrow> rowStatus r = COMPLETED"
    and eng: "engineFor mwm (dbSystem t) = Some engine"
    and res: "engine (requestFor c (numberedRegistrations s2) (completedPairingsForSection s3) n) = Inr res"
  shows "steadyIn t (createRoundWithPairings n ver (boardsOf res) u)"
proof (cases "snd (createRoundWithPairings n ver (boardsOf res) u t) = t")
  case True
  then show ?thesis using ok by (simp add: steadyIn_def secRely_refl)
next
  case False
  let ?rows = "insertPairings (dbNextId t) (Suc (dbNextId t)) (boardsOf res)"
  obtain au where t': "snd (createRoundWithPairings n ver (boardsOf res) u t) = t\<lparr>dbRounds := dbRounds t @ [\<lparr>rowRoundId = dbNextId t, rowNumber = n,
             rowStatus = PAIRED, rowEngineVersion = ver\<rparr>], dbPairings := dbPairings t @ ?rows,
           dbNextId := Suc (dbNextId t) + length (boardsOf res), dbAudit := au\<rparr>" and free: "n \<notin> rowNumber ` set (dbRounds t)"
    using createRound_effect[OF prod.collapse[symmetric], of n ver "boardsOf res" u t] False by auto
  have s1t: "secRely s1 t" and s2t: "secRely s2 t" and s13: "secRely s1 s3" using rely secRely_trans by blast+
  have "rowNumber ` set (dbRounds t) = {1..int (length (dbRounds t))}"
    using ok(3) by (metis sectionOk_def roundsOk_def list.set_map set_upto)
  then have same1: "length (dbRounds t) = length (dbRounds s1)"
    using free n s1t by (auto simp: secRely_def rowsExtend_def)
  then have same: "length (dbRounds t) = length (dbRounds s3)"
    using s13 rely(3) by (simp add: secRely_def rowsExtend_def)
  have done': "\<forall>r \<in> set (dbRounds t). rowStatus r = COMPLETED"
  proof
    fix r assume "r \<in> set (dbRounds t)"
    then obtain k where k: "k < length (dbRounds t)" "r = dbRounds t ! k" by (metis in_set_conv_nth)
    then have "roundKept (dbRounds s1 ! k) r" "dbRounds s1 ! k \<in> set (dbRounds s1)"
      using s1t same1 by (auto simp: secRely_def rowsExtend_def)
    then show "rowStatus r = COMPLETED" using closed by (simp add: roundKept_def)
  qed
  have "distinct (map regId (numberedRegistrations s2))" using ok(2) by (simp add: distinct_numbered sectionOk_def)
  note pub = published_round[OF this eng res, where rid = "dbNextId t" and fresh = "Suc (dbNextId t)"]
  have "regId ` set (numberedRegistrations s2) \<subseteq> numberedIds t"
    using s2t by (simp add: secRely_def set_numbered numberedIds_def)
  then have boards: "\<forall>p \<in> set ?rows. rowPairingRound p = dbNextId t \<and> boardOk (numberedIds t) p"
    using pub(2) by (fastforce simp: boardOk_def)
  have meet: "distinct (meetings (dbPairings t @ ?rows))" if swiss: "dbSystem t = SWISS_DUTCH"
  proof (rule pub(3)[OF swiss])
    show "distinct (meetings (dbPairings t))" using ok(3) swiss by (simp add: sectionOk_def norepeatOk_def)
    fix p assume p: "p \<in> set (dbPairings t)"
    then have "(rowWhite p, rowBlack p) \<in> set (map (\<lambda>p. (rowWhite p, rowBlack p)) (dbPairings s3))"
      using meetings_kept[OF ok(3) rely(3) same] by (metis (no_types, lifting) image_eqI list.set_map)
    then obtain q where "q \<in> set (dbPairings s3)" "rowWhite q = rowWhite p" "rowBlack q = rowBlack p" by auto
    then have "\<exists>e \<in> set (completedPairingsForSection s3). heWhite e = rowWhite p \<and> heBlack e = rowBlack p"
      by (auto simp: set_history toHistoryEntry_def)
    then show "rowBlack p \<noteq> Some (rowWhite p) \<and> (\<exists>e \<in> set (completedPairingsForSection s3). heWhite e = rowWhite p \<and> heBlack e = rowBlack p)"
      using ok(3) p by (auto simp: sectionOk_def pairingsOk_def boardOk_def)
  qed
  have n': "n = int (length (dbRounds t)) + 1" using n same1 by simp
  have "sectionOk (snd (createRoundWithPairings n ver (boardsOf res) u t))"
    unfolding t' unfolding n' by (rule new_round_keeps[OF ok(3) done' insertPairings_ids pub(1) boards]) (rule meet)
  moreover have "dbNextId t \<notin> rowRoundId ` set (dbRounds t)" using ok(3) by (auto simp: sectionOk_def roundsOk_def)
  then have "secRely t (snd (createRoundWithPairings n ver (boardsOf res) u t))"
    unfolding t' secRely_def using boards
    by (auto simp: numberedIds_def rowsExtend_append roundKept_refl gameKept_refl nth_append)
  ultimately show ?thesis by (simp add: steadyIn_def)
qed

lemma steady_registrations:
  assumes "sectionOk (s\<lparr>dbRegistrations := tbl\<rparr>)" "numberedIds s \<subseteq> numberedIds (s\<lparr>dbRegistrations := tbl\<rparr>)"
  shows "sectionOk (s\<lparr>dbRegistrations := tbl\<rparr>) \<and> secRely s (s\<lparr>dbRegistrations := tbl\<rparr>)"
  using assms by (auto intro: secRely_same)

lemma steady_register:
  assumes ok: "sectionOk s"
  shows "steadyIn s (createRegistration newId pl rtng free now u)"
proof (rule steady_wp, cases "newId \<in> regId ` set (dbRegistrations s)")
  case False
  let ?tbl = "dbRegistrations s @ [\<lparr>regId = newId, regPlayerId = pl, regPairingNumber = None, regRating = rtng,
    regConfirmed = free, regWithdrawn = False, regJoinedAt = None, regCreatedAt = now\<rparr>]"
  have ids: "numberedIds s \<subseteq> numberedIds (s\<lparr>dbRegistrations := ?tbl\<rparr>)" by (auto simp: numberedIds_def)
  have "sectionOk (s\<lparr>dbRegistrations := ?tbl\<rparr>)"
    by (rule rewrite_registrations_keeps[OF ok _ ids]) (use ok False in \<open>auto simp: sectionOk_def regsOk_def\<close>)
  from steady_registrations[OF this ids]
  show "wp (createRegistration newId pl rtng free now u) (\<lambda>_ t. sectionOk t \<and> secRely s t) (\<lambda>_ t. sectionOk t \<and> secRely s t) s"
    by (simp add: createRegistration_def wp_simps wp_audit ok secRely_refl)
qed (simp add: createRegistration_def wp_simps ok secRely_refl)

lemma map_registrations_steady:
  assumes ok: "sectionOk s" and g: "\<And>r. regId (g r) = regId r" "\<And>r. regPairingNumber (g r) = regPairingNumber r"
  shows "sectionOk (s\<lparr>dbRegistrations := map g (dbRegistrations s)\<rparr>) \<and> secRely s (s\<lparr>dbRegistrations := map g (dbRegistrations s)\<rparr>)"
proof (rule steady_registrations[OF map_registrations_keeps[OF ok g]])
  have "regId r \<in> numberedIds (s\<lparr>dbRegistrations := map g (dbRegistrations s)\<rparr>)"
    if "r \<in> set (dbRegistrations s)" "regPairingNumber r \<noteq> None" for r
    unfolding numberedIds_def by (rule image_eqI[of _ _ "g r"]) (use that g in auto)
  then show "numberedIds s \<subseteq> numberedIds (s\<lparr>dbRegistrations := map g (dbRegistrations s)\<rparr>)"
    by (auto simp: numberedIds_def)
qed

lemma steady_withdraw: "sectionOk s \<Longrightarrow> steadyIn s (withdrawRegistration rid why u)"
  by (rule steady_wp) (simp add: withdrawRegistration_def wp_simps wp_audit secRely_refl map_registrations_steady)

lemma steady_confirm:
  "sectionOk s \<Longrightarrow> steadyIn s (putS (\<lambda>s. s\<lparr>dbRegistrations := map (\<lambda>r. if regId r \<in> bill then r\<lparr>regConfirmed := True\<rparr> else r)
     (dbRegistrations s)\<rparr>))"
  by (rule steady_wp) (simp add: wp_simps map_registrations_steady)

section \<open>Requests\<close>

abbreviation steady :: "'a sectionRequest \<Rightarrow> SectionDb \<Rightarrow> bool" where
  "steady p s \<equiv> rg sectionOk secRely p (\<lambda>_ _. True) s"

named_theorems steady_rules "from which state on a request is steady"

lemma steady_now [steady_rules]:
  "steady (returnR x) s" "steady (throwR e) s" "steady (guardR c e) s"
  by (simp_all add: rg_now)

lemma steady_guard [steady_rules]: "(\<not> c \<Longrightarrow> steady (k ()) s) \<Longrightarrow> steady (bindR (guardR c e) k) s"
  by (simp add: rg_simps)

lemma steady_read [steady_rules]:
  "(\<And>t. secRely s t \<Longrightarrow> sectionOk t \<Longrightarrow> steady (k (f t)) t) \<Longrightarrow> steady (bindR (awaitR (getS f)) k) s"
  by (simp add: rg_simps secRely_refl)

lemma steady_write [steady_rules]: "(\<And>t. secRely s t \<Longrightarrow> sectionOk t \<Longrightarrow> steadyIn t m) \<Longrightarrow> steady (awaitR m) s"
  by (simp add: rg_simps steadyIn_def)

lemma steady_write_then [steady_rules]:
  assumes "\<And>t. secRely s t \<Longrightarrow> sectionOk t \<Longrightarrow> steadyIn t m"
    and "\<And>x t. secRely s t \<Longrightarrow> sectionOk t \<Longrightarrow> steady (k x) t"
  shows "steady (bindR (awaitR m) k) s"
  unfolding rg_simps
proof (intro allI impI, elim conjE)
  fix t assume t: "secRely s t" "sectionOk t"
  then have w: "secRely t (snd (m t))" "sectionOk (snd (m t))" using assms(1) by (simp_all add: steadyIn_def)
  then have "secRely s (snd (m t))" using t secRely_trans by blast
  then show "secRely t (snd (m t)) \<and> sectionOk (snd (m t)) \<and>
      (case fst (m t) of Inl e \<Rightarrow> (\<lambda>_. True) | Inr x \<Rightarrow> steady (k x)) (snd (m t))"
    using w assms(2) by (simp split: sum.split)
qed

lemma steady_section [steady_rules]:
  "(\<And>t c. secRely s t \<Longrightarrow> sectionOk t \<Longrightarrow> findSectionWithTournament t = Some c \<Longrightarrow> steady (k c) t) \<Longrightarrow>
     steady (bindR (requireSection x) k) s"
  by (simp add: requireSection_def rg_simps secRely_refl split: option.split)

lemma steady_access [steady_rules]:
  "(\<And>t. secRely s t \<Longrightarrow> sectionOk t \<Longrightarrow> steady (k ()) t) \<Longrightarrow> steady (bindR (assertManageAccess may u x) k) s"
  by (simp add: assertManageAccess_def rg_simps secRely_refl)

lemma steady_progress [steady_rules]:
  "(cxStatus c = TOURNAMENT_IN_PROGRESS \<Longrightarrow> steady (k ()) s) \<Longrightarrow> steady (bindR (assertTournamentInProgress c) k) s"
  by (simp add: assertTournamentInProgress_def rg_simps)

lemma steady_tournament [steady_rules]:
  "(\<And>t st. secRely s t \<Longrightarrow> sectionOk t \<Longrightarrow> steady (k st) t) \<Longrightarrow> steady (bindR (requireTournament x) k) s"
  by (simp add: requireTournament_def rg_simps secRely_refl split: option.split)

lemma steady_engine [steady_rules]:
  "(\<And>res. engine req = Inr res \<Longrightarrow> steady (k res) s) \<Longrightarrow> steady (bindR (runEngine engine req) k) s"
  by (simp add: runEngine_def rg_simps split: sum.split)

lemma steady_cases [steady_rules]:
  "(x = None \<Longrightarrow> steady p s) \<Longrightarrow> (\<And>y. x = Some y \<Longrightarrow> steady (q y) s) \<Longrightarrow> steady (case x of None \<Rightarrow> p | Some y \<Rightarrow> q y) s"
  "(b \<Longrightarrow> steady p' s) \<Longrightarrow> (\<not> b \<Longrightarrow> steady q' s) \<Longrightarrow> steady (if b then p' else q') s"
  "(\<And>e. z = Inl e \<Longrightarrow> steady (f e) s) \<Longrightarrow> (\<And>y. z = Inr y \<Longrightarrow> steady (g y) s) \<Longrightarrow> steady (case z of Inl e \<Rightarrow> f e | Inr y \<Rightarrow> g y) s"
  by (auto split: option.split sum.split)

lemma steady_recompute [steady_rules]: "steady (recomputeStandings c) s"
  unfolding recomputeStandings_def by (intro steady_rules steady_upsert)

lemma steady_recompute_then [steady_rules]:
  "(\<And>t. steady (k ()) t) \<Longrightarrow> steady (bindR (recomputeStandings c) k) s"
  unfolding rg_bind by (rule rg_weaken[OF steady_recompute]) (auto split: sum.split)

lemma steady_number:
  assumes k: "\<And>n t. secRely s t \<Longrightarrow> sectionOk t \<Longrightarrow> n = int (length (dbRounds t)) + 1 \<Longrightarrow>
      (\<And>r. r \<in> set (dbRounds t) \<Longrightarrow> rowStatus r = COMPLETED) \<Longrightarrow> steady (k n) t"
  shows "steady (bindR nextRoundNumber k) s"
proof -
  have "steady (bindR (case latestRound t of None \<Rightarrow> returnR 1
      | Some r \<Rightarrow> if rowStatus r \<noteq> COMPLETED then throwR (BusinessRuleError ''PREVIOUS_ROUND_NOT_COMPLETED'')
                  else returnR (rowNumber r + 1)) k) t" if t: "secRely s t" "sectionOk t" for t
  proof (cases "dbRounds t = []")
    case True
    then show ?thesis using k[OF t] by (simp add: latestRound_def rg_simps)
  next
    case False
    have "roundsOk t" using t(2) by (simp add: sectionOk_def)
    note l = latest_is_last[OF this False]
    show ?thesis
    proof (cases "rowStatus (last (dbRounds t)) = COMPLETED")
      case True
      then show ?thesis using k[OF t] l latest_completed[OF t(2) False] by (simp add: rg_simps)
    next
      case False
      then show ?thesis using l by (simp add: rg_simps)
    qed
  qed
  then show ?thesis by (simp add: nextRoundNumber_def rg_bind rg_await secRely_refl)
qed

lemma steady_nested [steady_rules]:
  "steady (bindR p (\<lambda>x. bindR (f x) k)) s \<Longrightarrow> steady (bindR (bindR p f) k) s"
  "(x = None \<Longrightarrow> steady (bindR p' k') s) \<Longrightarrow> (\<And>y. x = Some y \<Longrightarrow> steady (bindR (q y) k') s) \<Longrightarrow>
     steady (bindR (case x of None \<Rightarrow> p' | Some y \<Rightarrow> q y) k') s"
  "(b \<Longrightarrow> steady (bindR p2 k2) s) \<Longrightarrow> (\<not> b \<Longrightarrow> steady (bindR q2 k2) s) \<Longrightarrow> steady (bindR (if b then p2 else q2) k2) s"
  "steady (k3 y) s \<Longrightarrow> steady (bindR (returnR y) k3) s"
  by (simp_all add: bindR_assoc rg_simps split: option.split)

lemma steady_ensure [steady_rules]:
  assumes k: "\<And>t. secRely s t \<Longrightarrow> sectionOk t \<Longrightarrow> steady (k ()) t"
  shows "steady (bindR (ensurePairingNumbers u) k) s"
  unfolding ensurePairingNumbers_def by (intro steady_rules steady_numbers) (use k secRely_trans in \<open>auto\<close>)

lemma steady_publish:
  assumes c: "cxSystem c = dbSystem s" and eng: "engineFor mwm (cxSystem c) = Some engine"
  shows "steady (bindR nextRoundNumber (\<lambda>n.
     bindR (ensurePairingNumbers u) (\<lambda>_.
     bindR (awaitR (getS numberedRegistrations)) (\<lambda>regs.
     bindR (awaitR (getS completedPairingsForSection)) (\<lambda>hist.
     bindR (runEngine engine (requestFor c regs hist n)) (\<lambda>res.
     bindR (awaitR (createRoundWithPairings n (engineVersion res) (boardsOf res) u)) (\<lambda>rid.
     bindR (recomputeStandings c) (\<lambda>_. returnR rid)))))))) s"
proof (rule steady_number, intro steady_rules)
  fix n s1 s1' s2 s3 res t
  assume s1: "secRely s s1" "sectionOk s1" "n = int (length (dbRounds s1)) + 1"
      "\<And>r. r \<in> set (dbRounds s1) \<Longrightarrow> rowStatus r = COMPLETED"
    and rest: "secRely s1 s1'" "secRely s1' s2" "sectionOk s2" "secRely s2 s3" "secRely s3 t" "sectionOk t"
    and res: "engine (requestFor c (numberedRegistrations s2) (completedPairingsForSection s3) n) = Inr res"
  have s12: "secRely s1 s2" using rest(1,2) by (rule secRely_trans)
  have "dbSystem t = dbSystem s" using s1(1) s12 rest(4,5) by (simp add: secRely_def)
  then have "engineFor mwm (dbSystem t) = Some engine" using c eng by simp
  from steady_create[OF s1(2) rest(3,6) s12 rest(4,5) s1(3,4) this res]
  show "steadyIn t (createRoundWithPairings n (engineVersion res) (boardsOf res) u)" .
qed

lemma generateRound_steady: "steady (generateRound mwm may u) s"
  unfolding generateRound_def
  by (intro steady_rules steady_publish) (auto simp: findSectionWithTournament_def secRely_def split: if_splits)

lemma enterResult_steady: "res \<in> set ENTERABLE_RESULTS \<Longrightarrow> steady (enterResult may u i res why) s"
  unfolding enterResult_def Let_def
  by (intro steady_rules steady_result) (auto intro: secRely_trans)

lemma completeRound_steady: "steady (completeRound may u rid) s"
  unfolding completeRound_def Let_def
proof (intro steady_rules)
  fix t r ta c tb tc
  assume r: "findRound t rid = Some r" and un: "\<not> 0 < length (filter (\<lambda>p. rowResult p = UNPLAYED) (snd r))"
    and rely: "secRely t ta" "secRely ta tb" "secRely tb tc" and ok: "sectionOk tc"
  have "secRely t tc" using rely secRely_trans by blast
  then show "steadyIn tc (repoCompleteRound rid u)"
    by (rule steady_close[where r = "fst r" and ps = "snd r", OF ok]) (use r un in simp_all)
qed

lemma registerPlayer_steady: "steady (registerPlayer allowed u who cur free newId now) s"
  unfolding registerPlayer_def by (intro steady_rules steady_register)

lemma withdrawPlayer_steady: "steady (withdrawPlayer allowed u rid why) s"
  unfolding withdrawPlayer_def by (intro steady_rules steady_withdraw)

lemma confirmRegistrations_steady: "steady (confirmRegistrations bill) s"
  unfolding confirmRegistrations_def by (intro steady_rules steady_confirm)

lemma changeStatus_steady: "steady (changeStatus allowed u st why) s"
  unfolding changeStatus_def Let_def by (intro steady_rules steady_status)

section \<open>Reachable sections\<close>

text \<open>
  The requests that change a section, by any user and at any time, their steps in any order; a request that throws
  leaves behind what its steps wrote. The result of a game passes \<^verbatim>\<open>EnterResultDto\<close>, which admits
  \<^verbatim>\<open>ENTERABLE_RESULTS\<close> only.
\<close>

inductive_set sectionRequests :: "(SectionDb, SectionFailure DomainError + unit) request set" where
  askGenerate: "voidR (generateRound mwm may u) \<in> sectionRequests"
| askResult: "res \<in> set ENTERABLE_RESULTS \<Longrightarrow> voidR (enterResult may u i res why) \<in> sectionRequests"
| askClose: "voidR (completeRound may u rid) \<in> sectionRequests"
| askRegister: "voidR (registerPlayer allowed u who cur free newId now) \<in> sectionRequests"
| askWithdraw: "voidR (withdrawPlayer allowed u regid why') \<in> sectionRequests"
| askConfirm: "voidR (confirmRegistrations bill) \<in> sectionRequests"
| askStatus: "voidR (changeStatus allowed u st why) \<in> sectionRequests"

definition emptySection :: "SectionDb \<Rightarrow> bool" where
  "emptySection s \<longleftrightarrow> dbRegistrations s = [] \<and> dbRounds s = [] \<and> dbPairings s = [] \<and> dbStandings s = [] \<and>
     dbAudit s = [] \<and> dbOutbox s = []"

definition reachableSection :: "SectionDb \<Rightarrow> bool" where
  "reachableSection s \<longleftrightarrow> (\<exists>s0 ps. emptySection s0 \<and> interleaved sectionRequests s0 s ps)"

lemma sectionRequests_steady: "p \<in> sectionRequests \<Longrightarrow> steadily sectionOk secRely p"
  unfolding steadily_def
  by (erule sectionRequests.cases) (simp_all add: rg_void generateRound_steady enterResult_steady completeRound_steady
    registerPlayer_steady withdrawPlayer_steady confirmRegistrations_steady changeStatus_steady)

lemma empty_ok: "emptySection s \<Longrightarrow> sectionOk s"
  by (simp add: emptySection_def sectionOk_defs seatsOf_def meetings_def map_filter_simps)

lemma reachable_ok: "reachableSection s \<Longrightarrow> sectionOk s"
proof -
  have "interleaved sectionRequests s0 s ps \<Longrightarrow> sectionOk s0 \<Longrightarrow> sectionOk s" for s0 ps
    using interleaved_steady[of secRely sectionRequests sectionOk s0 s ps] secRely_refl secRely_trans sectionRequests_steady
    by blast
  then show "reachableSection s \<Longrightarrow> sectionOk s" using empty_ok by (auto simp: reachableSection_def)
qed

text \<open>A whole request, with no other in between, leads on to a reachable section.\<close>

lemma reachable_empty: "emptySection s \<Longrightarrow> reachableSection s"
  unfolding reachableSection_def using interleaved_start[of sectionRequests s] by blast

lemma reachable_request: "reachableSection s \<Longrightarrow> voidR p \<in> sectionRequests \<Longrightarrow> reachableSection (snd (runAlone p s))"
  unfolding reachableSection_def using interleaved_whole[of sectionRequests _ s _ "voidR p"] by (metis runAlone_void)

section \<open>A request alone\<close>

lemma wp_guards [service_simps]:
  "wp (runAlone (requireSection x)) Q E s = (case findSectionWithTournament s of None \<Rightarrow> E (NotFoundError x) s | Some c \<Rightarrow> Q c s)"
  "wp (runAlone (requireTournament x)) Q' E s = (case findTournamentById s of None \<Rightarrow> E (NotFoundError x) s | Some st \<Rightarrow> Q' st s)"
  "wp (runAlone (assertManageAccess may u x)) Q'' E s = (if isArbiterOf s u \<or> may u then Q'' () s else E (NotFoundError x) s)"
  "wp (runAlone (assertTournamentInProgress c)) Q'' E s = (if cxStatus c = TOURNAMENT_IN_PROGRESS then Q'' () s
     else E (BusinessRuleError ''TOURNAMENT_NOT_IN_PROGRESS'') s)"
  by (simp_all add: requireSection_def requireTournament_def assertManageAccess_def assertTournamentInProgress_def run_alone wp_simps
    split: option.split)

lemma recompute_effect: "\<exists>x. snd (runAlone (recomputeStandings c) s) = s\<lparr>dbStandings := x\<rparr>"
proof -
  have "\<exists>x. s = s\<lparr>dbStandings := x\<rparr>" by (rule exI[of _ "dbStandings s"]) simp
  then show ?thesis
    by (auto simp: recomputeStandings_def run_alone bindS_def upsertStandings_def transaction_def split: sum.splits)
qed


end
