(* ===== verification/ArbiterStandings.thy ===== *)
theory ArbiterStandings
  imports ArbiterRuns
begin

text \<open>
  What the operations on a section guarantee: recomputing the standings of a reachable
  section cannot fail and yields one row per participant, the meetings of a Swiss section
  never repeat, rounds are numbered and closed in order, corrections leave a reasoned audit
  row. What requests that do not overlap cannot do to a finished tournament.
\<close>

section \<open>The input of the tie-break calculator\<close>

definition participantIds :: "SectionDb \<Rightarrow> string list" where
  "participantIds s = map regId (numberedRegistrations s)"

definition standingsInputs :: "RegistrationRow list \<Rightarrow> PairingHistoryEntry list \<Rightarrow> PlayerTieBreakInput list" where
  "standingsInputs regs hist =
     map (tieBreakInput (foldl (\<lambda>m r. m(regId r \<mapsto> regRating r)) Map.empty regs)) (buildScoreViews (map regId regs) hist)"

lemma set_participantIds: "set (participantIds s) = numberedIds s"
  by (simp add: participantIds_def set_numbered numberedIds_def)

lemma history_entryOk:
  assumes "sectionOk s" "e \<in> set (completedPairingsForSection s)"
  shows "entryOk (numberedIds s) e" "heBlack e = None \<Longrightarrow> heResult e \<in> set BYE_RESULTS"
  using assms by (auto simp: set_history toHistoryEntry_def entryOk_def sectionOk_defs boardOk_def)

lemma tbPlayerId_inputs: "map tbPlayerId (standingsInputs regs hist) = map regId regs"
  by (simp add: standingsInputs_def tieBreakInput_def buildScoreViews_eq scoreView_eq comp_def)

lemma game_in_history:
  assumes "g \<in> set (gamesOf i es)"
  shows "\<exists>e \<in> set es. \<exists>side out. sideOf e i = Some side \<and> outcomeFor (heResult e) side = Some out \<and> g = gameOf e (side, out)"
  using assms unfolding gamesOf_def
  by (induction es) (auto simp: map_filter_simps outcomeOf_def split: option.splits)

lemma bye_not_played: "outcomeFor r side = Some out \<Longrightarrow> r \<in> set BYE_RESULTS \<Longrightarrow> \<not> soPlayedOverBoard out"
  by (cases r; cases side) (auto simp: BYE_RESULTS_def outcome_def)

lemma game_wellFormed:
  assumes "g \<in> set (gamesOf i es)" "\<And>e. e \<in> set es \<Longrightarrow> entryOk A e"
    "\<And>e. e \<in> set es \<Longrightarrow> heBlack e = None \<Longrightarrow> heResult e \<in> set BYE_RESULTS"
  shows "(gPlayedOverBoard g \<longrightarrow> gOpponentId g \<noteq> None) \<and> set_option (gOpponentId g) \<subseteq> A"
proof -
  obtain e side out where e: "e \<in> set es" "outcomeFor (heResult e) side = Some out" "g = gameOf e (side, out)"
    using game_in_history[OF assms(1)] by blast
  have ok: "entryOk A e" by (rule assms(2)[OF e(1)])
  show ?thesis
  proof (cases "side = WHITE \<and> heBlack e = None")
    case True
    then have "\<not> soPlayedOverBoard out" using bye_not_played[OF e(2)] assms(3)[OF e(1)] by simp
    then show ?thesis using True by (simp add: e(3) gameOf_def)
  next
    case False
    then show ?thesis using ok by (auto simp: e(3) gameOf_def entryOk_def)
  qed
qed

lemma half_steps: "of_int \<lfloor>svPoints (scoreView es i) * 2\<rfloor> = svPoints (scoreView es i) * (2 :: rat)"
proof -
  have "svPoints (scoreView es i) * 2
      = of_int (2 * int (countOutcomes Score1 i es) + int (countOutcomes ScoreHalf i es))"
    by (simp add: scoreView_eq statistics_add_up(1))
  then show ?thesis by (metis floor_of_int)
qed

lemma standingsInputs_ok:
  assumes "sectionOk s"
  shows "inputOk (standingsInputs (numberedRegistrations s) (completedPairingsForSection s))"
proof -
  let ?h = "completedPairingsForSection s" and ?r = "numberedRegistrations s"
  have ids: "tbPlayerId ` set (standingsInputs ?r ?h) = numberedIds s"
    using arg_cong[OF tbPlayerId_inputs[of ?r ?h], of set] set_participantIds[of s] by (simp add: participantIds_def)
  have "distinct (map tbPlayerId (standingsInputs ?r ?h))"
    unfolding tbPlayerId_inputs using assms by (simp add: distinct_numbered sectionOk_def)
  moreover have "of_int \<lfloor>tbPoints p * 2\<rfloor> = tbPoints p * 2" if "p \<in> set (standingsInputs ?r ?h)" for p
    using that half_steps by (auto simp: standingsInputs_def tieBreakInput_def buildScoreViews_eq)
  moreover have "(gPlayedOverBoard g \<longrightarrow> gOpponentId g \<noteq> None) \<and> set_option (gOpponentId g) \<subseteq> numberedIds s"
    if "p \<in> set (standingsInputs ?r ?h)" "g \<in> set (tbGames p)" for p g
  proof -
    from that obtain i where "g \<in> set (gamesOf i (byRound ?h))"
      by (auto simp: standingsInputs_def tieBreakInput_def buildScoreViews_eq scoreView_eq)
    then show ?thesis by (rule game_wellFormed) (use history_entryOk[OF assms] in simp_all)
  qed
  ultimately show ?thesis unfolding inputOk_def ids by blast
qed

section \<open>The rows\<close>

lemma ranks_nth: "k < n \<Longrightarrow> [1..<n + 1] ! k = k + 1"
  by (rule trans[OF nth_upt]) simp_all

lemma length_buildScoreViews [simp]: "length (buildScoreViews ids h) = length ids"
  by (simp add: buildScoreViews_eq)

lemma rank_map:
  assumes "distinct ids"
  shows "map (\<lambda>i. case foldl (\<lambda>m p. m(fst p \<mapsto> snd p)) Map.empty (zip ids [1..<length ids + 1]) i of
      Some r \<Rightarrow> r | None \<Rightarrow> d) ids = [1..<length ids + 1]"
proof (rule nth_equalityI)
  fix k assume "k < length (map (\<lambda>i. case foldl (\<lambda>m p. m(fst p \<mapsto> snd p)) Map.empty (zip ids [1..<length ids + 1]) i of
      Some r \<Rightarrow> r | None \<Rightarrow> d) ids)"
  then have k: "k < length ids" by simp
  let ?z = "zip ids [1..<length ids + 1]"
  have p: "(ids ! k, k + 1) \<in> set ?z" using k ranks_nth[OF k]
    by (auto simp: in_set_zip simp del: upt_Suc intro!: exI[of _ k])
  have "foldl (\<lambda>m p. m(fst p \<mapsto> snd p)) Map.empty ?z (fst (ids ! k, k + 1)) = Some (snd (ids ! k, k + 1))"
  proof (rule foldl_upd_at[OF p])
    fix q assume q: "q \<in> set ?z" "fst q = fst (ids ! k, k + 1)"
    have "distinct (map fst ?z)" using assms by simp
    then have "inj_on fst (set ?z)" by (simp only: distinct_map)
    from inj_onD[OF this q(2,1) p] show "snd q = snd (ids ! k, k + 1)" by simp
  qed
  then show "map (\<lambda>i. case foldl (\<lambda>m p. m(fst p \<mapsto> snd p)) Map.empty ?z i of
      Some r \<Rightarrow> r | None \<Rightarrow> d) ids ! k = [1..<length ids + 1] ! k"
    using k by (simp only: nth_map fst_conv snd_conv option.case ranks_nth)
qed (simp del: upt_Suc)

lemma computeStandings_total:
  assumes "sectionOk s"
  shows "\<exists>rows. computeStandings names (numberedRegistrations s) (completedPairingsForSection s) = Inr rows
     \<and> map stRegistrationId rows = participantIds s
     \<and> mset (map stRank rows) = mset [1..<length rows + 1]
     \<and> map stPoints rows = map svPoints (buildScoreViews (participantIds s) (completedPairingsForSection s))"
proof -
  let ?h = "completedPairingsForSection s" and ?r = "numberedRegistrations s"
  let ?in = "standingsInputs ?r ?h" and ?opts = "\<lparr>unratedRating = None\<rparr>" and ?order = "resolveTieBreakOrder names"
  let ?views = "buildScoreViews (map regId ?r) ?h"
  have ok: "inputOk ?in" by (rule standingsInputs_ok[OF assms])
  then obtain ctx where ctx: "buildContext ?in = Inr ctx" using buildContext_iff by blast
  then obtain vals where v: "computeTB ?opts ?in ?order = Inr vals" by (simp add: computeTB_def Let_def)
  from ctx obtain ids where r: "rankTB ?opts ?in ?order = Inr ids"
    and ids: "mset ids = mset (map tbPlayerId ?in)" by (simp add: rankTB_def)
  let ?rk = "foldl (\<lambda>m p. m(fst p \<mapsto> snd p)) Map.empty (zip ids [1..<length ids + 1])"
  let ?fl = "foldl (\<lambda>m st. m(playerId st \<mapsto> floatHistory st)) Map.empty (buildPairingStates (map toSeed ?r) ?h)"
  let ?rows = "map (standingRow vals ?rk ?fl (length ?views)) ?views"
  have eq: "computeStandings names ?r ?h = Inr ?rows"
    using v r unfolding computeStandings_def Let_def standingsInputs_def[symmetric] by simp
  have m: "mset ids = mset (map regId ?r)" using ids by (simp only: tbPlayerId_inputs)
  have d: "distinct ids"
    unfolding mset_eq_imp_distinct_iff[OF m] using assms by (simp add: distinct_numbered sectionOk_def)
  have "map stRank ?rows = map (\<lambda>i. case ?rk i of Some r \<Rightarrow> r | None \<Rightarrow> length ?views) (map regId ?r)"
    unfolding length_buildScoreViews length_map
    by (simp add: standingRow_def buildScoreViews_eq scoreView_eq comp_def del: upt_Suc)
  then have "mset (map stRank ?rows) = mset (map (\<lambda>i. case ?rk i of Some r \<Rightarrow> r | None \<Rightarrow> length ?views) ids)"
    using m by (simp only: mset_map)
  also have "\<dots> = mset [1..<length ids + 1]" by (simp only: rank_map[OF d])
  finally have ranked: "mset (map stRank ?rows) = mset [1..<length ids + 1]" .
  have "length ids = length ?rows"
    using arg_cong[OF m, of size] by simp
  from trans[OF ranked arg_cong[OF this, of "\<lambda>k. mset [1..<k + 1]"]]
  have "mset (map stRank ?rows) = mset [1..<length ?rows + 1]" .
  moreover have "map stRegistrationId ?rows = participantIds s"
    by (simp add: standingRow_def buildScoreViews_eq scoreView_eq comp_def participantIds_def)
  moreover have "map stPoints ?rows = map svPoints (buildScoreViews (participantIds s) ?h)"
    by (simp add: standingRow_def comp_def participantIds_def)
  ultimately show ?thesis using eq by blast
qed

lemma recompute_total:
  assumes "sectionOk s"
  shows "\<exists>x. runAlone (recomputeStandings c) s = (Inr (), s\<lparr>dbStandings := x\<rparr>)"
proof -
  obtain rows where "computeStandings (cxTieBreakOrder c) (numberedRegistrations s) (completedPairingsForSection s) = Inr rows"
    using computeStandings_total[OF assms] by blast
  then have "fst (runAlone (recomputeStandings c) s) = Inr ()"
    by (simp add: recomputeStandings_def run_alone bindS_def upsertStandings_def transaction_def)
  then show ?thesis using recompute_effect[of c s] by (metis prod.collapse)
qed

lemma wp_recompute_total:
  assumes "sectionOk s" "\<And>x. Q () (s\<lparr>dbStandings := x\<rparr>)"
  shows "wp (runAlone (recomputeStandings c)) Q E s"
  using recompute_total[OF assms(1), of c] assms(2) by (auto simp: wp_def)

section \<open>Results\<close>

definition givenReason :: "string option \<Rightarrow> string option" where
  "givenReason why = (case map_option jsTrim why of None \<Rightarrow> None | Some t \<Rightarrow> if t = '''' then None else Some t)"

definition withResult :: "SectionDb \<Rightarrow> nat \<Rightarrow> PairingResultValue \<Rightarrow> string \<Rightarrow> SectionDb" where
  "withResult s i res u = s\<lparr>dbPairings := map (\<lambda>p. if rowPairingId p = i
     then p\<lparr>rowResult := res, rowEnteredBy := Some u\<rparr> else p) (dbPairings s)\<rparr>"

definition resultAudit :: "PairingRow \<Rightarrow> nat \<Rightarrow> PairingResultValue \<Rightarrow> string \<Rightarrow> string option \<Rightarrow> AuditRow" where
  "resultAudit p i res u why = auditOf (if rowResult p = UNPLAYED then ''result.created'' else ''result.updated'')
     u (showNat i) (showResult (rowResult p)) (showResult res) (givenReason why)"

definition resultAccepted :: "(string \<Rightarrow> bool) \<Rightarrow> string \<Rightarrow> PairingResultValue \<Rightarrow> string option \<Rightarrow> PairingRow \<Rightarrow> SectionDb \<Rightarrow> bool" where
  "resultAccepted may u res why p s \<longleftrightarrow> \<not> dbDeleted s \<and> (isArbiterOf s u \<or> may u) \<and> dbStatus s = TOURNAMENT_IN_PROGRESS
     \<and> (rowBlack p = None) = (res \<in> set BYE_RESULTS) \<and> (rowResult p = UNPLAYED \<or> givenReason why \<noteq> None)"

lemma jsTrim_nonblank_reason: "givenReason why = Some r \<Longrightarrow> r \<noteq> '''' \<and> (\<exists>w. why = Some w \<and> r = jsTrim w)"
  by (auto simp: givenReason_def split: option.splits if_splits)

lemma dropWhile_idem_rev: "dropWhile P (rev (dropWhile P (rev (dropWhile P s)))) = rev (dropWhile P (rev (dropWhile P s)))"
proof (cases "rev (dropWhile P (rev (dropWhile P s)))")
  case (Cons c t)
  let ?d = "dropWhile P s"
  have ne: "?d \<noteq> []"
  proof
    assume "?d = []"
    then show False using Cons by (simp only: rev.simps dropWhile.simps list.distinct)
  qed
  have "\<exists>u. ?d = rev (dropWhile P (rev ?d)) @ u"
    by (metis rev_append rev_rev_ident takeWhile_dropWhile_id)
  then have "hd ?d = c" using Cons by (metis append_Cons list.sel(1))
  then have "\<not> P c" using hd_dropWhile[OF ne] by simp
  then show ?thesis using Cons by simp
next
  case Nil
  show ?thesis unfolding Nil by (simp only: dropWhile.simps)
qed

lemma jsTrim_idem: "jsTrim (jsTrim s) = jsTrim s"
proof -
  have "dropWhile isBlankChar (jsTrim s) = jsTrim s"
    unfolding jsTrim_def by (cases "dropWhile isBlankChar (rev (dropWhile isBlankChar s)) = []")
      (use dropWhile_idem_rev[of isBlankChar s] in simp_all)
  then show ?thesis unfolding jsTrim_def by simp
qed

lemma enterResult_given: "enterResult may u i res why =
     bindR (awaitR (getS (\<lambda>s. findPairing s i))) (\<lambda>found.
     case found of
       None \<Rightarrow> throwR (NotFoundError ''Pairing'')
     | Some p \<Rightarrow>
         bindR (requireSection ''Pairing'') (\<lambda>section.
         bindR (assertManageAccess may u ''Pairing'') (\<lambda>_.
         bindR (assertTournamentInProgress section) (\<lambda>_.
         bindR (guardR ((rowBlack p = None) \<noteq> (res \<in> set BYE_RESULTS)) (BusinessRuleError ''RESULT_NOT_APPLICABLE'')) (\<lambda>_.
         bindR (guardR (rowResult p \<noteq> UNPLAYED \<and> givenReason why = None)
                 (BusinessRuleError ''RESULT_CHANGE_REASON_REQUIRED'')) (\<lambda>_.
         bindR (awaitR (repoEnterResult i res u (givenReason why))) (\<lambda>_.
         recomputeStandings section)))))))"
  by (simp only: enterResult_def Let_def givenReason_def)

lemma repoEnterResult_eq:
  assumes "findPairing s i = Some p" "rowResult p = UNPLAYED \<or> givenReason why \<noteq> None"
  shows "repoEnterResult i res u (givenReason why) s
     = (Inr (), (withResult s i res u)\<lparr>dbAudit := dbAudit s @ [resultAudit p i res u why]\<rparr>)"
proof -
  have "\<not> (case givenReason why of None \<Rightarrow> True | Some r \<Rightarrow> jsTrim r = '''')" if "givenReason why \<noteq> None"
    using that by (cases "givenReason why") (auto simp: jsTrim_idem dest: jsTrim_nonblank_reason)
  then show ?thesis using assms
    by (auto simp: repoEnterResult_def bindS_def auditWrite_eq resultAudit_def auditOf_def withResult_def REASON_REQUIRED_def)
qed

lemma wp_enterResult:
  assumes ok: "sectionOk s" and res: "res \<in> set ENTERABLE_RESULTS"
  shows "wp (runAlone (enterResult may u i res why))
     (\<lambda>_ s'. \<exists>p x. findPairing s i = Some p \<and> resultAccepted may u res why p s \<and>
        s' = (withResult s i res u)\<lparr>dbAudit := dbAudit s @ [resultAudit p i res u why], dbStandings := x\<rparr>)
     (\<lambda>_ s'. s' = s \<and> (\<forall>p. findPairing s i = Some p \<longrightarrow> \<not> resultAccepted may u res why p s)) s" (is "wp ?run ?Q ?E s")
proof (cases "findPairing s i")
  case None
  then show ?thesis by (simp add: enterResult_given run_alone wp_simps)
next
  case (Some p)
  show ?thesis
  proof (cases "resultAccepted may u res why p s")
    case True
    then have t: "sectionOk ((withResult s i res u)\<lparr>dbAudit := au\<rparr>)" for au
      using result_keeps[OF ok Some res] by (simp add: withResult_def resultAccepted_def)
    have a: "rowResult p = UNPLAYED \<or> givenReason why \<noteq> None" using True by (simp add: resultAccepted_def)
    have w: "wp (repoEnterResult i res u (givenReason why)) Q E s
        = Q () ((withResult s i res u)\<lparr>dbAudit := dbAudit s @ [resultAudit p i res u why]\<rparr>)" for Q E
      by (simp add: wp_def repoEnterResult_eq[OF Some a])
    show ?thesis using True a Some
      by (simp add: enterResult_given run_alone wp_simps wp_guards w findSectionWithTournament_def resultAccepted_def)
        (rule wp_recompute_total[OF t], rule exI, rule refl)
  next
    case False
    then show ?thesis using Some
      by (auto simp: enterResult_given run_alone wp_simps wp_guards findSectionWithTournament_def
          resultAccepted_def)
  qed
qed

section \<open>Requests one after the other\<close>

text \<open>
  What a request leaves when it runs alone: the status is the old one or a transition of the machine away, and rounds
  and results change only in a tournament that is in progress.
\<close>

definition orderly :: "SectionDb \<Rightarrow> SectionDb \<Rightarrow> bool" where
  "orderly s t \<longleftrightarrow> (dbStatus t = dbStatus s \<or> canTransition (dbStatus s) (dbStatus t)) \<and>
     (dbStatus s \<noteq> TOURNAMENT_IN_PROGRESS \<longrightarrow> dbRounds t = dbRounds s \<and> dbPairings t = dbPairings s)"

abbreviation (input) orderlyRun :: "'a sectionRequest \<Rightarrow> SectionDb \<Rightarrow> bool" where
  "orderlyRun p s \<equiv> wp (runAlone p) (\<lambda>_. orderly s) (\<lambda>_. orderly s) s"

lemma orderly_refl: "orderly s s"
  by (simp add: orderly_def)

lemma orderly_same: "dbStatus t = dbStatus s \<Longrightarrow> dbStatus s = TOURNAMENT_IN_PROGRESS \<Longrightarrow> orderly s t"
  by (simp add: orderly_def)

lemma frames_audit [frame_intros]:
  assumes "\<And>s x. f (s\<lparr>dbAudit := x\<rparr>) = f s"
  shows "frames f (auditWrite a)"
proof -
  have row: "dbAudit_update (\<lambda>rows. rows @ [a]) s = s\<lparr>dbAudit := dbAudit s @ [a]\<rparr>" for s by (cases s) simp
  show ?thesis unfolding auditWrite_def auditWriteTo_def by (intro frame_intros) (simp only: row assms)
qed

lemma frames_recompute [frame_intros]: "(\<And>s x. f (s\<lparr>dbStandings := x\<rparr>) = f s) \<Longrightarrow> frames f (runAlone (recomputeStandings c))"
  unfolding frames_def
proof
  fix s assume "\<And>s x. f (s\<lparr>dbStandings := x\<rparr>) = f s"
  moreover obtain x where "snd (runAlone (recomputeStandings c) s) = s\<lparr>dbStandings := x\<rparr>" using recompute_effect by blast
  ultimately show "f (snd (runAlone (recomputeStandings c) s)) = f s" by simp
qed

lemma frames_numbers [frame_intros]:
  "(\<And>s x y. f (s\<lparr>dbRegistrations := x, dbAudit := y\<rparr>) = f s) \<Longrightarrow> frames f (assignPairingNumbers u)"
  unfolding frames_def using assignNumbers_effect by metis

lemma frames_guards [frame_intros]:
  "frames f (runAlone (requireSection r))" "frames f (runAlone (requireTournament r))"
  "frames f (runAlone (assertManageAccess may u r))" "frames f (runAlone (assertTournamentInProgress c))"
  "frames f (runAlone nextRoundNumber)" "frames f (runAlone (runEngine engine req))"
  unfolding requireSection_def requireTournament_def assertManageAccess_def assertTournamentInProgress_def nextRoundNumber_def
    runEngine_def run_alone
  by (intro frame_intros)+

lemma generateRound_frames:
  "frames dbStatus (runAlone (generateRound mwm may u))" "frames dbDeleted (runAlone (generateRound mwm may u))"
  "frames dbSystem (runAlone (generateRound mwm may u))"
  unfolding generateRound_def ensurePairingNumbers_def createRoundWithPairings_def run_alone by (intro frame_intros; simp)+

lemma result_frames: "frames dbStatus (runAlone (enterResult may u i res why))"
  "frames dbStatus (runAlone (completeRound may u rid))"
  unfolding enterResult_def repoEnterResult_def completeRound_def repoCompleteRound_def Let_def run_alone
  by (intro frame_intros; simp)+

lemma frozen_first:
  assumes "dbStatus s \<noteq> TOURNAMENT_IN_PROGRESS"
  shows "wp (bindS (runAlone (requireSection x)) (\<lambda>c. bindS (runAlone (assertManageAccess may u x)) (\<lambda>_.
     bindS (runAlone (assertTournamentInProgress c)) (f c)))) (\<lambda>_ t. t = s) (\<lambda>_ t. t = s) s"
  using assms by (simp add: wp_bind wp_guards findSectionWithTournament_def)

lemma not_in_progress:
  assumes "dbStatus s \<noteq> TOURNAMENT_IN_PROGRESS"
  shows "snd (runAlone (generateRound mwm may u) s) = s" "snd (runAlone (enterResult may u i res why) s) = s"
    "snd (runAlone (completeRound may u rid) s) = s"
proof -
  show "snd (runAlone (generateRound mwm may u) s) = s"
    by (rule wp_snd) (simp only: generateRound_def run_alone(1) frozen_first[OF assms])
  show "snd (runAlone (enterResult may u i res why) s) = s"
    by (rule wp_snd, cases "findPairing s i")
      (simp_all only: enterResult_def run_alone(1,2,6) runAlone_simps wp_bind[of "getS _"] wp_basic option.case frozen_first[OF assms])
  show "snd (runAlone (completeRound may u rid) s) = s"
    by (rule wp_snd, cases "findRound s rid")
      (simp_all only: completeRound_def run_alone(1,2,6) runAlone_simps wp_bind[of "getS _"] wp_basic option.case frozen_first[OF assms])
qed

lemma orderly_alone:
  assumes "frames dbStatus (runAlone p)" "dbStatus s \<noteq> TOURNAMENT_IN_PROGRESS \<Longrightarrow> snd (runAlone p s) = s"
  shows "orderly s (snd (runAlone p s))"
proof (cases "dbStatus s = TOURNAMENT_IN_PROGRESS")
  case True
  then show ?thesis using framesD[OF assms(1), of s] by (simp add: orderly_def)
qed (use assms(2) in \<open>simp add: orderly_refl\<close>)

lemma registration_orderly: "orderlyRun (registerPlayer allowed u who cur free newId now) s"
    "orderlyRun (withdrawPlayer allowed u rid w) s" "orderlyRun (confirmRegistrations bill) s"
  by (simp_all add: registerPlayer_def createRegistration_def withdrawPlayer_def withdrawRegistration_def confirmRegistrations_def
    run_alone wp_simps wp_guards wp_audit orderly_refl split: option.split) (simp_all add: orderly_def)

lemma changeStatus_orderly: "orderlyRun (changeStatus allowed u st why) s"
  by (simp add: changeStatus_def repoChangeStatus_def Let_def run_alone wp_simps wp_guards wp_audit orderly_refl findTournamentById_def)
    (simp add: orderly_def)

lemma sectionRequests_orderly: "p \<in> sectionRequests \<Longrightarrow> orderly s (snd (runAlone p s))"
  by (erule sectionRequests.cases)
    (auto simp: runAlone_void intro: orderly_alone generateRound_frames result_frames not_in_progress
      wp_snd[OF registration_orderly(1)] wp_snd[OF registration_orderly(2)] wp_snd[OF registration_orderly(3)]
      wp_snd[OF changeStatus_orderly])

lemma serial_status: "serial sectionRequests s t \<Longrightarrow> (dbStatus s, dbStatus t) \<in> {(x, y). canTransition x y}\<^sup>*"
proof (induction rule: serial.induct)
  case (serialNext s t p)
  then show ?case using sectionRequests_orderly[OF serialNext.hyps(2), of t] by (auto simp: orderly_def intro: rtrancl_into_rtrancl)
qed simp

lemma serial_frozen:
  "serial sectionRequests s t \<Longrightarrow> ALLOWED_TRANSITIONS (dbStatus s) = [] \<Longrightarrow>
     dbStatus t = dbStatus s \<and> dbRounds t = dbRounds s \<and> dbPairings t = dbPairings s"
proof (induction rule: serial.induct)
  case (serialNext s t p)
  then have "ALLOWED_TRANSITIONS (dbStatus t) = []" "dbStatus t \<noteq> TOURNAMENT_IN_PROGRESS" by auto
  then show ?case using serialNext sectionRequests_orderly[OF serialNext.hyps(2), of t] by (auto simp: orderly_def canTransition_def)
qed simp

end
