(* ===== verification/ArbiterProps.thy ===== *)
theory ArbiterProps
  imports ArbiterStandings SwissFinds
begin

text \<open>
  The properties of a section under the arbiter's operations, and a section of two players
  that is registered, started and paired, on which they are applied.
\<close>

section \<open>A sample section\<close>

definition sampleMatcher :: Matcher where
  "sampleMatcher n es = Inr [1, 0]"

definition sample0 :: SectionDb where
  "sample0 = \<lparr>dbSectionId = ''s'', dbStatus = REGISTRATION_OPEN, dbDeleted = False, dbIsPublic = True,
     dbSystem = SWISS_DUTCH, dbTotalRounds = 3, dbMaxPlayers = Some 4, dbTieBreakOrder = [''BUCHHOLZ'', ''nonsense''],
     dbArbiters = [''arb''], dbRegistrations = [], dbRounds = [], dbPairings = [], dbStandings = [], dbAudit = [],
     dbOutbox = [], dbNextId = 1\<rparr>"

definition sampleRegister :: "string \<Rightarrow> string \<Rightarrow> rat option \<Rightarrow> int \<Rightarrow> SectionDb \<Rightarrow> SectionDb" where
  "sampleRegister i pl rtng t s = snd (runAlone (registerPlayer True ''arb'' (Some pl) rtng True i t) s)"

definition sample2 :: SectionDb where
  "sample2 = sampleRegister ''r2'' ''p2'' (Some 1800) 2 (sampleRegister ''r1'' ''p1'' None 1 sample0)"

definition sample4 :: SectionDb where
  "sample4 = sample0\<lparr>dbStatus := TOURNAMENT_IN_PROGRESS,
     dbRegistrations := [
       \<lparr>regId = ''r1'', regPlayerId = ''p1'', regPairingNumber = None, regRating = None, regConfirmed = True,
        regWithdrawn = False, regJoinedAt = None, regCreatedAt = 1\<rparr>,
       \<lparr>regId = ''r2'', regPlayerId = ''p2'', regPairingNumber = None, regRating = Some 1800, regConfirmed = True,
        regWithdrawn = False, regJoinedAt = None, regCreatedAt = 2\<rparr>],
     dbAudit := [auditOf ''registration.created'' ''arb'' ''r1'' '''' ''p1'' None,
       auditOf ''registration.created'' ''arb'' ''r2'' '''' ''p2'' None,
       auditOf ''tournament.status_changed'' ''arb'' '''' '''' '''' None,
       auditOf ''tournament.status_changed'' ''arb'' '''' '''' '''' None]\<rparr>"

definition sample5 :: SectionDb where
  "sample5 = snd (runAlone (generateRound sampleMatcher (\<lambda>_. False) ''arb'') sample4)"

lemma rounded_rating: "\<lfloor>3601 / 2 :: rat\<rfloor> = 1800"
  by (rule floor_unique) simp_all

lemma sample4_eq: "sample4 = snd (runAlone (changeStatus True ''arb'' TOURNAMENT_IN_PROGRESS None)
     (snd (runAlone (changeStatus True ''arb'' REGISTRATION_CLOSED None) sample2)))"
  by (simp add: sample4_def sample2_def sample0_def sampleRegister_def registerPlayer_def createRegistration_def
      changeStatus_def repoChangeStatus_def requireTournament_def findTournamentById_def findRegistration_def
      countActiveRegistrations_def run_alone bindS_def transaction_def auditWrite_def auditWriteTo_def auditOf_def
      REASON_REQUIRED_def canTransition_def Let_def rounded_rating)

lemma sample5_pairings:
  "map (\<lambda>p. (rowPairingId p, rowWhite p, rowBlack p, rowResult p)) (dbPairings sample5)
     = [(2, ''r2'', Some ''r1'', UNPLAYED)]"
  by code_simp

lemma sample5_rounds: "map (\<lambda>r. (rowRoundId r, rowStatus r)) (dbRounds sample5) = [(1, PAIRED)]"
  by code_simp

lemma sample5_running: "dbStatus sample5 = TOURNAMENT_IN_PROGRESS" "\<not> dbDeleted sample5" "dbSystem sample5 = SWISS_DUTCH"
  by (simp_all add: sample5_def framesD generateRound_frames sample4_def sample0_def)

lemma sample4_reachable: "reachableSection sample4"
proof -
  have "reachableSection sample2" unfolding sample2_def sampleRegister_def
    by (intro reachable_request reachable_empty askRegister) (simp add: emptySection_def sample0_def)
  then show ?thesis unfolding sample4_eq by (intro reachable_request askStatus)
qed

lemma sample5_reachable: "reachableSection sample5"
  unfolding sample5_def by (intro reachable_request sample4_reachable askGenerate)

section \<open>Properties\<close>

lemma open_is_last:
  assumes "sectionOk s" "r \<in> set (butlast (dbRounds s))"
  shows "rowStatus r = COMPLETED"
proof (rule ccontr)
  assume open_: "rowStatus r \<noteq> COMPLETED"
  obtain k where k: "k < length (dbRounds s) - 1" "r = dbRounds s ! k"
    using assms(2) by (auto simp: in_set_conv_nth nth_butlast)
  have "rowNumber r = map rowNumber (dbRounds s) ! k" using k by simp
  also have "\<dots> = int k + 1"
    using assms(1) k(1) by (simp add: sectionOk_def roundsOk_def nth_upto)
  finally show False using assms open_ k(1) in_set_butlastD[OF assms(2)] by (auto simp: sectionOk_def closedOk_def)
qed

text \<open>
  C3. Whatever requests were made, with their steps in whatever order: the participants of a Swiss section
  never meet twice. The list of the two-player sets of all boards of all rounds has no
  duplicate.
\<close>
theorem swiss_meetings_never_repeat:
  assumes "reachableSection s" "dbSystem s = SWISS_DUTCH"
  shows "distinct (meetings (dbPairings s))"
  using reachable_ok[OF assms(1)] assms(2) by (simp add: sectionOk_def norepeatOk_def)

text \<open>
  C5. The rounds of a section are numbered from one without gaps, every round but the last is
  completed, a completed round has no game without a result, every participant sits at most
  once in a round, never against itself, and only numbered participants are seated.
\<close>
theorem rounds_in_order:
  assumes "reachableSection s"
  shows "map rowNumber (dbRounds s) = [1..int (length (dbRounds s))]
    \<and> (\<forall>r \<in> set (butlast (dbRounds s)). rowStatus r = COMPLETED)
    \<and> (\<forall>r \<in> set (dbRounds s). \<forall>p \<in> set (dbPairings s).
         rowStatus r = COMPLETED \<and> rowPairingRound p = rowRoundId r \<longrightarrow> rowResult p \<noteq> UNPLAYED)
    \<and> (\<forall>rid. distinct (seatsOf (filter (\<lambda>p. rowPairingRound p = rid) (dbPairings s))))
    \<and> (\<forall>p \<in> set (dbPairings s). boardOk (set (map regId (numberedRegistrations s))) p)"
proof -
  have ok: "sectionOk s" by (rule reachable_ok[OF assms])
  then have "map rowNumber (dbRounds s) = [1..int (length (dbRounds s))]"
    "\<forall>rid. distinct (seatsOf (filter (\<lambda>p. rowPairingRound p = rid) (dbPairings s)))"
    "\<forall>p \<in> set (dbPairings s). boardOk (set (map regId (numberedRegistrations s))) p"
    using set_participantIds[of s] unfolding participantIds_def
    by (simp_all add: sectionOk_def roundsOk_def seatingOk_def pairingsOk_def)
  moreover have "rowResult p \<noteq> UNPLAYED" if "r \<in> set (dbRounds s)" "p \<in> set (dbPairings s)"
    "rowStatus r = COMPLETED \<and> rowPairingRound p = rowRoundId r" for r p
    using ok that by (auto simp: sectionOk_def closedOk_def)
  ultimately show ?thesis using open_is_last[OF ok] by blast
qed

text \<open>
  C6. Recomputing the standings of a reachable section never fails when nothing else runs meanwhile: there is one row per
  numbered participant, in their order, the ranks are 1 to n, each once, and the points add
  up to what the results of the section award.
\<close>
theorem standings_never_fail:
  assumes "reachableSection s"
  shows "fst (runAlone (recomputeStandings c) s) = Inr () \<and>
    (\<exists>rows. computeStandings (cxTieBreakOrder c) (numberedRegistrations s) (completedPairingsForSection s) = Inr rows
      \<and> map stRegistrationId rows = map regId (numberedRegistrations s)
      \<and> mset (map stRank rows) = mset [1..<length rows + 1]
      \<and> (\<Sum>r \<leftarrow> rows. stPoints r) = (\<Sum>e \<leftarrow> completedPairingsForSection s. awarded e))"
proof -
  have ok: "sectionOk s" by (rule reachable_ok[OF assms])
  have "distinct (participantIds s)" using ok by (simp add: participantIds_def distinct_numbered sectionOk_def)
  moreover have "\<forall>e \<in> set (completedPairingsForSection s). entryOk (set (participantIds s)) e"
    using history_entryOk(1)[OF ok] by (simp add: set_participantIds)
  ultimately have "(\<Sum>v \<leftarrow> buildScoreViews (participantIds s) (completedPairingsForSection s). svPoints v)
      = (\<Sum>e \<leftarrow> completedPairingsForSection s. awarded e)" by (rule points_conserved_list)
  then show ?thesis
    using recompute_total[OF ok, of c] computeStandings_total[OF ok, of "cxTieBreakOrder c"]
    unfolding participantIds_def by auto
qed

text \<open>
  C7. Entering a result in a reachable section is all or nothing, for a request that no other interrupts. Either nothing
  changed, because the pairing does not exist or the request is not acceptable (section deleted, user
  neither arbiter nor permitted, tournament not in progress, a bye result for a game or the
  reverse, a correction without a reason); or the request is acceptable, exactly that
  pairing carries the result and the user, and one audit row was added with the old and the
  new result and, for a correction, a non-blank reason.
\<close>
theorem result_entry_all_or_nothing:
  assumes "reachableSection s" "res \<in> set ENTERABLE_RESULTS"
  shows "(case runAlone (enterResult may u i res why) s of
     (Inl e, s') \<Rightarrow> s' = s \<and> (\<forall>p. findPairing s i = Some p \<longrightarrow> \<not> resultAccepted may u res why p s)
   | (Inr _, s') \<Rightarrow> \<exists>p x. findPairing s i = Some p \<and> resultAccepted may u res why p s \<and>
       s' = (withResult s i res u)\<lparr>dbAudit := dbAudit s @ [resultAudit p i res u why], dbStandings := x\<rparr> \<and>
       (rowResult p \<noteq> UNPLAYED \<longrightarrow> auAction (resultAudit p i res u why) = ''result.updated'' \<and>
          (\<exists>r. auReason (resultAudit p i res u why) = Some r \<and> jsTrim r \<noteq> '''')))"
proof -
  have "auReason (resultAudit p i res u why) = Some r \<Longrightarrow> jsTrim r \<noteq> ''''" for p r
    by (auto simp: resultAudit_def auditOf_def jsTrim_idem dest: jsTrim_nonblank_reason)
  moreover have "resultAccepted may u res why p s \<Longrightarrow> rowResult p \<noteq> UNPLAYED \<Longrightarrow>
      auAction (resultAudit p i res u why) = ''result.updated'' \<and> auReason (resultAudit p i res u why) \<noteq> None" for p
    by (auto simp: resultAudit_def auditOf_def resultAccepted_def)
  ultimately show ?thesis
    using wp_enterResult[OF reachable_ok[OF assms(1)] assms(2), of may u i why]
    unfolding wp_def by (fastforce split: prod.splits sum.splits)
qed

text \<open>
  The sample tournament is completed while a new round and a cancellation, both checked before, are still on their way.
\<close>

definition lateRequests :: "(SectionDb, SectionFailure DomainError + unit) request list" where
  "lateRequests = [voidR (generateRound sampleMatcher (\<lambda>_. False) ''arb''),
     voidR (changeStatus True ''org'' CANCELLED (Some ''no hall'')), voidR (changeStatus True ''arb'' TOURNAMENT_COMPLETED None)]"

definition lateBefore :: "SectionDb \<times> (SectionDb, SectionFailure DomainError + unit) request list" where
  "lateBefore = schedule [0, 0, 1, 2, 2] (sample4, lateRequests)"

definition lateAfter :: "SectionDb \<times> (SectionDb, SectionFailure DomainError + unit) request list" where
  "lateAfter = schedule [1, 0, 0, 0, 0, 0, 0] lateBefore"

lemma lateBefore_value: "dbStatus (fst lateBefore) = TOURNAMENT_COMPLETED" "dbRounds (fst lateBefore) = []"
  by code_simp+

lemma lateAfter_value: "(dbStatus (fst lateAfter), map rowNumber (dbRounds (fst lateAfter))) = (CANCELLED, [1])"
  by code_simp

lemma lateRequests_allowed: "set lateRequests \<subseteq> sectionRequests"
  unfolding lateRequests_def by (simp add: askGenerate askStatus)

text \<open>
  C35. A finished tournament stays as it is only while requests do not overlap. As long as each request is answered before
  the next is taken up, the status moves along the status machine, and once the tournament is completed or cancelled no
  request changes the status, a round or a result. With requests at the same time, a tournament in a reachable state
  is completed, and afterwards gets a new round and becomes cancelled, a move the machine does not allow: the
  requests looked at the status before it was completed, and their writes do not look again.
\<close>
theorem finished_tournament_frozen_without_overlap:
  "(\<forall>s t. serial sectionRequests s t \<longrightarrow> (dbStatus s, dbStatus t) \<in> {(x, y). canTransition x y}\<^sup>* \<and>
      (dbStatus s \<in> {TOURNAMENT_COMPLETED, CANCELLED} \<longrightarrow>
         dbStatus t = dbStatus s \<and> dbRounds t = dbRounds s \<and> dbPairings t = dbPairings s)) \<and>
   (\<exists>s t ps u qs. reachableSection s \<and> interleaved sectionRequests s t ps \<and> (interleave sectionRequests)\<^sup>*\<^sup>* (t, ps) (u, qs) \<and>
      dbStatus t = TOURNAMENT_COMPLETED \<and> dbStatus u = CANCELLED \<and> \<not> canTransition TOURNAMENT_COMPLETED CANCELLED \<and>
      dbRounds t = [] \<and> map rowNumber (dbRounds u) = [1])"
proof (intro conjI allI impI)
  show "\<exists>s t ps u qs. reachableSection s \<and> interleaved sectionRequests s t ps \<and> (interleave sectionRequests)\<^sup>*\<^sup>* (t, ps) (u, qs) \<and>
      dbStatus t = TOURNAMENT_COMPLETED \<and> dbStatus u = CANCELLED \<and> \<not> canTransition TOURNAMENT_COMPLETED CANCELLED \<and>
      dbRounds t = [] \<and> map rowNumber (dbRounds u) = [1]"
  proof (intro exI conjI)
    show "reachableSection sample4" by (rule sample4_reachable)
    show "interleaved sectionRequests sample4 (fst lateBefore) (snd lateBefore)"
      unfolding lateBefore_def by (rule interleaved_scheduled[OF lateRequests_allowed])
    show "(interleave sectionRequests)\<^sup>*\<^sup>* (fst lateBefore, snd lateBefore) (fst lateAfter, snd lateAfter)"
      using schedule_steps[of sectionRequests "fst lateBefore" "snd lateBefore" "[1, 0, 0, 0, 0, 0, 0]"]
      unfolding prod.collapse lateAfter_def .
  qed (use lateBefore_value lateAfter_value in \<open>simp_all add: canTransition_def\<close>)
qed (use serial_status serial_frozen in \<open>auto simp only: insert_iff empty_iff ALLOWED_TRANSITIONS.simps\<close>)

text \<open>
  Six rounds of player \<^verbatim>\<open>a\<close> with the colours W B W W B W, of which the second and the fifth ended with the result
  \<open>r\<close>; the opponents have withdrawn, and \<^verbatim>\<open>b\<close> has come late.
\<close>

definition sixRounds :: "PairingResultValue \<Rightarrow> PairingHistoryEntry list" where
  "sixRounds r = map (\<lambda>(n, w, b, res). \<lparr>heRound = n, heWhite = w, heBlack = Some b, heResult = res\<rparr>)
     [(1, ''a'', ''c1'', DRAW), (2, ''c2'', ''a'', r), (3, ''a'', ''c3'', DRAW), (4, ''a'', ''c4'', DRAW),
      (5, ''c5'', ''a'', r), (6, ''a'', ''c6'', DRAW)]"

definition sixRegistrations :: "RegistrationRow list" where
  "sixRegistrations = map (\<lambda>(i, n, gone). \<lparr>regId = i, regPlayerId = i, regPairingNumber = Some n, regRating = None,
       regConfirmed = True, regWithdrawn = gone, regJoinedAt = None, regCreatedAt = n\<rparr>)
     [(''a'', 1, False), (''b'', 2, False), (''c1'', 3, True), (''c2'', 4, True), (''c3'', 5, True), (''c4'', 6, True),
      (''c5'', 7, True), (''c6'', 8, True)]"

definition sixRequest :: "PairingResultValue \<Rightarrow> PairingRequest" where
  "sixRequest r = requestFor \<lparr>cxId = ''s'', cxSystem = SWISS_DUTCH, cxTotalRounds = 9, cxTieBreakOrder = [],
     cxStatus = TOURNAMENT_IN_PROGRESS, cxIsPublic = True\<rparr> sixRegistrations (sixRounds r) 7"


section \<open>Witnesses\<close>

lemma sample5_round:
  obtains r where "dbRounds sample5 = [r]" "rowRoundId r = 1" "rowStatus r = PAIRED"
  using sample5_rounds by (auto simp: map_eq_Cons_conv)

lemma sample5_pairing:
  obtains p where "dbPairings sample5 = [p]" "rowWhite p = ''r2''" "rowBlack p = Some ''r1''" "rowPairingId p = 2"
    "rowResult p = UNPLAYED"
  using sample5_pairings by (auto simp: map_eq_Cons_conv)

theorem swiss_meetings_never_repeat_witness:
  "meetings (dbPairings sample5) = [{''r2'', ''r1''}] \<and> distinct (meetings (dbPairings sample5))"
proof -
  obtain p where p: "dbPairings sample5 = [p]" "rowWhite p = ''r2''" "rowBlack p = Some ''r1''" by (rule sample5_pairing)
  then show ?thesis using swiss_meetings_never_repeat[OF sample5_reachable sample5_running(3)]
    by (simp add: meetings_def map_filter_simps)
qed

theorem rounds_in_order_witness:
  "map rowNumber (dbRounds sample5) = [1] \<and> length (seatsOf (dbPairings sample5)) = 2"
proof -
  obtain r where r: "dbRounds sample5 = [r]" by (rule sample5_round)
  obtain p where p: "dbPairings sample5 = [p]" "rowBlack p = Some ''r1''" by (rule sample5_pairing)
  show ?thesis using rounds_in_order[OF sample5_reachable] r p by (simp add: seatsOf_def)
qed

theorem standings_never_fail_witness:
  "fst (runAlone (recomputeStandings (the (findSectionWithTournament sample5))) sample5) = Inr () \<and> dbPairings sample5 \<noteq> []"
proof -
  obtain p where p: "dbPairings sample5 = [p]" by (rule sample5_pairing)
  then show ?thesis using standings_never_fail[OF sample5_reachable] by simp
qed

theorem result_entry_all_or_nothing_witness:
  "\<exists>x. fst (runAlone (enterResult (\<lambda>_. True) ''arb'' 2 WHITE_WIN None) sample5) = Inr x"
proof -
  obtain p where p: "dbPairings sample5 = [p]" "rowWhite p = ''r2''" "rowBlack p = Some ''r1''" "rowPairingId p = 2"
    "rowResult p = UNPLAYED" by (rule sample5_pairing)
  have "findPairing sample5 2 = Some p" using p by (simp add: findPairing_def)
  moreover have "resultAccepted (\<lambda>_. True) ''arb'' WHITE_WIN None p sample5"
    using p sample5_running by (simp add: resultAccepted_def BYE_RESULTS_def)
  moreover have "WHITE_WIN \<in> set ENTERABLE_RESULTS" by (simp add: ENTERABLE_RESULTS_def)
  ultimately show ?thesis
    using result_entry_all_or_nothing[OF sample5_reachable, where res = WHITE_WIN and may = "\<lambda>_. True"
        and u = "''arb''" and i = 2 and why = None]
    by (auto split: prod.splits sum.splits)
qed

theorem finished_tournament_frozen_without_overlap_witness:
  "(dbStatus sample4, dbStatus sample5) \<in> {(x, y). canTransition x y}\<^sup>*"
proof -
  have "serial sectionRequests sample4 (snd (runAlone (voidR (generateRound sampleMatcher (\<lambda>_. False) ''arb'')) sample4))"
    by (intro serialNext serialStart askGenerate)
  then have "serial sectionRequests sample4 sample5" by (simp add: runAlone_void sample5_def)
  then show ?thesis using finished_tournament_frozen_without_overlap by blast
qed

end
