(* ===== verification/Rbac.thy ===== *)
theory Rbac
  imports Prelude
begin

text \<open>
  Role based access control: \<^verbatim>\<open>permission.types.ts\<close>, \<^verbatim>\<open>policy.registry.ts\<close> and
  \<^verbatim>\<open>rbac.service.ts\<close> of \<^verbatim>\<open>src/modules/identity/rbac/\<close>, the conversion of stored
  assignments and the guard of \<^verbatim>\<open>src/modules/identity/rbac.port.ts\<close>. The policy is the
  source's table, cell for cell. A time is its number of milliseconds.
\<close>

section \<open>Roles, actions, resources\<close>

datatype Role =
  SUPER_ADMIN | FEDERATION_ADMIN | REGION_ADMIN | CLUB_ADMIN | ARBITER | COACH | SCHOOL_TEACHER
  | PLAYER | PARENT | SPECTATOR

datatype Action = Create | Read | Update | Delete

datatype ResourceType =
  User | Session | Player | Federation | Region | Club | ClubMembership | Tournament
  | TournamentSection | Registration | Round | Pairing | GameResult | RatingPeriod | RatingHistory
  | Title | Arbiter | Appeal | OnlineGame | Move | Puzzle | PuzzleAttempt | Coach | Lesson
  | School | SchoolClass | Student | Subscription | Invoice | Payment | AuditLog | FairPlayCase

datatype Scope =
    ScopeGlobal
  | ScopeFederation string
  | ScopeRegion string
  | ScopeClub string
  | ScopeTournament string
  | ScopeSchool string
  | ScopeOwn

record Grant =
  grResource :: ResourceType
  grActions :: "Action list"
  grScoped :: bool
  grFields :: "string list option"

record RoleAssignment =
  asRole :: Role
  asScope :: Scope
  asValidUntil :: "int option"

record Actor =
  acUserId :: string
  acAssignments :: "RoleAssignment list"

record ResourceRef =
  refType :: ResourceType
  refOwnerUserId :: "string option"
  refClubId :: "string option"
  refRegionId :: "string option"
  refFederationId :: "string option"
  refTournamentId :: "string option"
  refSchoolId :: "string option"

section \<open>The policy\<close>

definition CRUD :: "Action list" where "CRUD = [Create, Read, Update, Delete]"
definition CRU :: "Action list" where "CRU = [Create, Read, Update]"
definition CRD :: "Action list" where "CRD = [Create, Read, Delete]"
definition CR :: "Action list" where "CR = [Create, Read]"
definition RU :: "Action list" where "RU = [Read, Update]"
definition RD :: "Action list" where "RD = [Read, Delete]"
definition R' :: "Action list" where "R' = [Read]"

definition grant :: "ResourceType \<Rightarrow> Action list \<Rightarrow> Grant" where
  "grant res acts = \<lparr>grResource = res, grActions = acts, grScoped = False, grFields = None\<rparr>"

definition scoped :: "Grant \<Rightarrow> Grant" where
  "scoped g = g\<lparr>grScoped := True\<rparr>"

definition SUPER_ADMIN_grants :: "Grant list" where
  "SUPER_ADMIN_grants =
     [grant User CRUD, grant Session RD, grant Player CRUD, grant Federation CRUD,
      grant Region CRUD, grant Club CRUD, grant ClubMembership CRUD, grant Tournament CRUD,
      grant TournamentSection CRUD, grant Registration CRUD, grant Round CRUD, grant Pairing CRUD,
      grant GameResult CRUD, grant RatingPeriod CRUD, grant RatingHistory R', grant Title CRUD,
      grant Arbiter CRUD, grant Appeal CRUD, grant OnlineGame R', grant Move R', grant Puzzle CRUD,
      grant PuzzleAttempt R', grant Coach CRUD, grant Lesson CRUD, grant School CRUD,
      grant SchoolClass CRUD, grant Student CRUD, grant Subscription CRUD, grant Invoice CRUD,
      grant Payment CRUD, grant AuditLog R', grant FairPlayCase CRUD]"

definition FEDERATION_ADMIN_grants :: "Grant list" where
  "FEDERATION_ADMIN_grants =
     [grant User R', grant Player CRU, grant Federation RU, grant Region CRUD, grant Club CRUD,
      grant ClubMembership R', grant Tournament CRUD, grant TournamentSection CRUD,
      grant Registration R', grant Round R', grant Pairing R', grant GameResult RU,
      grant RatingPeriod CRU, grant RatingHistory R', grant Title CRUD, grant Arbiter CRUD,
      grant Appeal R', grant Puzzle R', grant Coach R', grant Lesson R', grant School CRUD,
      grant SchoolClass R', grant Student R', scoped (grant Subscription R'),
      scoped (grant Invoice R'), scoped (grant Payment R'), scoped (grant AuditLog R'),
      grant FairPlayCase R']"

definition REGION_ADMIN_grants :: "Grant list" where
  "REGION_ADMIN_grants =
     [scoped (grant User R'), scoped (grant Player RU), grant Federation R',
      scoped (grant Region RU), scoped (grant Club CRUD), scoped (grant ClubMembership R'),
      scoped (grant Tournament CRUD), scoped (grant TournamentSection CRUD),
      scoped (grant Registration R'), scoped (grant Round R'), scoped (grant Pairing R'),
      scoped (grant GameResult R'), grant RatingPeriod R', grant RatingHistory R', grant Title R',
      scoped (grant Arbiter CRU), scoped (grant Appeal R'), grant Puzzle R', grant Coach R',
      grant Lesson R', scoped (grant School CRU), scoped (grant SchoolClass R'),
      scoped (grant Student R'), scoped (grant Subscription R'), scoped (grant Invoice R'),
      scoped (grant Payment R'), scoped (grant AuditLog R')]"

definition CLUB_ADMIN_grants :: "Grant list" where
  "CLUB_ADMIN_grants =
     [scoped (grant User R'), scoped (grant Player RU), grant Federation R', grant Region R',
      scoped (grant Club RU), scoped (grant ClubMembership CRUD), scoped (grant Tournament CRUD),
      scoped (grant TournamentSection CRUD), scoped (grant Registration CRUD),
      scoped (grant Round CRU), scoped (grant Pairing R'), scoped (grant GameResult R'),
      grant RatingPeriod R', grant RatingHistory R', grant Title R', grant Arbiter R',
      scoped (grant Appeal R'), grant Puzzle R', scoped (grant Coach RU), scoped (grant Lesson R'),
      scoped (grant Subscription RU), scoped (grant Invoice R'), scoped (grant Payment R'),
      scoped (grant AuditLog R')]"

definition ARBITER_grants :: "Grant list" where
  "ARBITER_grants =
     [scoped (grant Player R'), grant Federation R', grant Region R', grant Club R',
      (grant Tournament RU) \<lparr>grScoped := True, grFields := Some [''status'']\<rparr>,
      scoped (grant TournamentSection RU), scoped (grant Registration RU),
      scoped (grant Round CRU), scoped (grant Pairing CRU), scoped (grant GameResult CRU),
      grant RatingPeriod R', grant RatingHistory R', grant Title R', scoped (grant Arbiter R'),
      (grant Appeal RU) \<lparr>grScoped := True, grFields := Some [''status'', ''decision'']\<rparr>,
      scoped (grant Move R'), grant Puzzle R', scoped (grant FairPlayCase R')]"

definition COACH_grants :: "Grant list" where
  "COACH_grants =
     [scoped (grant Player R'), grant Federation R', grant Region R', grant Club R',
      scoped (grant ClubMembership R'), grant Tournament R', grant TournamentSection R',
      scoped (grant Registration R'), grant Round R', grant Pairing R', grant GameResult R',
      grant RatingPeriod R', grant RatingHistory R', grant Title R', scoped (grant Appeal R'),
      scoped (grant OnlineGame R'), scoped (grant Move R'), grant Puzzle CR,
      scoped (grant PuzzleAttempt R'), scoped (grant Coach RU), scoped (grant Lesson CRUD),
      scoped (grant Student R'), scoped (grant Invoice R'), scoped (grant Payment R')]"

definition SCHOOL_TEACHER_grants :: "Grant list" where
  "SCHOOL_TEACHER_grants =
     [scoped (grant Player R'), grant Federation R', grant Region R', grant Club R',
      grant Tournament R', grant TournamentSection R', grant Round R', grant Pairing R',
      grant GameResult R', grant RatingPeriod R', grant RatingHistory R', grant Title R',
      grant Puzzle R', scoped (grant PuzzleAttempt R'), scoped (grant Lesson CRU),
      scoped (grant School R'), scoped (grant SchoolClass CRUD), scoped (grant Student CRUD)]"

definition PLAYER_grants :: "Grant list" where
  "PLAYER_grants =
     [scoped (grant User RU), scoped (grant Session RD), scoped (grant Player RU),
      grant Federation R', grant Region R', grant Club R', scoped (grant ClubMembership R'),
      grant Tournament R', grant TournamentSection R', scoped (grant Registration CRD),
      grant Round R', grant Pairing R', scoped (grant GameResult CR), grant RatingPeriod R',
      scoped (grant RatingHistory R'), grant Title R', grant Arbiter R', scoped (grant Appeal CR),
      scoped (grant OnlineGame CR), scoped (grant Move CR), grant Puzzle R',
      scoped (grant PuzzleAttempt CR), grant Coach R', scoped (grant Lesson R'),
      scoped (grant SchoolClass R'), scoped (grant Student R'), scoped (grant Invoice R'),
      scoped (grant Payment CR), scoped (grant FairPlayCase R')]"

definition PARENT_grants :: "Grant list" where
  "PARENT_grants =
     [scoped (grant User R'), scoped (grant Session RD), scoped (grant Player R'),
      grant Federation R', grant Region R', grant Club R', scoped (grant ClubMembership R'),
      grant Tournament R', grant TournamentSection R', scoped (grant Registration R'), grant Round R',
      grant Pairing R', scoped (grant GameResult R'), grant RatingPeriod R',
      scoped (grant RatingHistory R'), grant Title R', scoped (grant Appeal R'),
      scoped (grant OnlineGame R'), scoped (grant Move R'), grant Puzzle R',
      scoped (grant PuzzleAttempt R'), grant Coach R', scoped (grant Lesson R'),
      scoped (grant SchoolClass R'), scoped (grant Student R'), scoped (grant Invoice R'),
      scoped (grant Payment CR)]"

definition SPECTATOR_grants :: "Grant list" where
  "SPECTATOR_grants =
     [scoped (grant Player R'), grant Federation R', grant Region R', grant Club R',
      grant Tournament R', grant TournamentSection R', grant Round R', grant Pairing R',
      grant GameResult R', grant RatingPeriod R', grant RatingHistory R', grant Title R',
      grant Arbiter R', grant OnlineGame R', grant Move R', grant Puzzle R', grant Coach R']"

fun POLICY :: "Role \<Rightarrow> Grant list" where
  "POLICY SUPER_ADMIN = SUPER_ADMIN_grants"
| "POLICY FEDERATION_ADMIN = FEDERATION_ADMIN_grants"
| "POLICY REGION_ADMIN = REGION_ADMIN_grants"
| "POLICY CLUB_ADMIN = CLUB_ADMIN_grants"
| "POLICY ARBITER = ARBITER_grants"
| "POLICY COACH = COACH_grants"
| "POLICY SCHOOL_TEACHER = SCHOOL_TEACHER_grants"
| "POLICY PLAYER = PLAYER_grants"
| "POLICY PARENT = PARENT_grants"
| "POLICY SPECTATOR = SPECTATOR_grants"

section \<open>The service\<close>

definition scopeCovers :: "Scope \<Rightarrow> string \<Rightarrow> ResourceRef \<Rightarrow> bool" where
  "scopeCovers sc actorUserId r = (case sc of
     ScopeGlobal \<Rightarrow> True
   | ScopeOwn \<Rightarrow> refOwnerUserId r = Some actorUserId
   | ScopeFederation i \<Rightarrow> refFederationId r = Some i
   | ScopeRegion i \<Rightarrow> refRegionId r = Some i
   | ScopeClub i \<Rightarrow> refClubId r = Some i
   | ScopeTournament i \<Rightarrow> refTournamentId r = Some i
   | ScopeSchool i \<Rightarrow> refSchoolId r = Some i)"

definition expired :: "RoleAssignment \<Rightarrow> int \<Rightarrow> bool" where
  "expired a now = (case asValidUntil a of None \<Rightarrow> False | Some t \<Rightarrow> t < now)"

definition findGrant :: "RoleAssignment \<Rightarrow> ResourceType \<Rightarrow> Grant option" where
  "findGrant a res = find (\<lambda>g. grResource g = res) (POLICY (asRole a))"

definition can :: "Actor \<Rightarrow> Action \<Rightarrow> ResourceRef \<Rightarrow> int \<Rightarrow> bool" where
  "can actor act r now = list_ex (\<lambda>a.
     if expired a now then False
     else case findGrant a (refType r) of
            None \<Rightarrow> False
          | Some g \<Rightarrow>
              if act \<notin> set (grActions g) then False
              else if act = Read \<and> \<not> grScoped g then True
              else scopeCovers (asScope a) (acUserId actor) r) (acAssignments actor)"

text \<open>The value \<^verbatim>\<open>'all'\<close> or the columns in the order the \<^verbatim>\<open>Set\<close> got them.\<close>

datatype WritableFields = AllFields | FieldList "string list"

definition addField :: "string list \<Rightarrow> string \<Rightarrow> string list" where
  "addField cols f = (if f \<in> set cols then cols else cols @ [f])"

fun writableLoop :: "string \<Rightarrow> ResourceRef \<Rightarrow> int \<Rightarrow> RoleAssignment list \<Rightarrow> string list \<Rightarrow> bool \<Rightarrow> WritableFields" where
  "writableLoop u r now [] cols restricted = (if restricted then FieldList cols else FieldList [])"
| "writableLoop u r now (a # as) cols restricted =
     (if expired a now then writableLoop u r now as cols restricted
      else case findGrant a (refType r) of
             None \<Rightarrow> writableLoop u r now as cols restricted
           | Some g \<Rightarrow>
               if Update \<notin> set (grActions g) then writableLoop u r now as cols restricted
               else if \<not> scopeCovers (asScope a) u r then writableLoop u r now as cols restricted
               else case grFields g of
                      None \<Rightarrow> AllFields
                    | Some fs \<Rightarrow> if length fs = 0 then AllFields
                                 else writableLoop u r now as (foldl addField cols fs) True)"

definition writableFields :: "Actor \<Rightarrow> ResourceRef \<Rightarrow> int \<Rightarrow> WritableFields" where
  "writableFields actor r now = writableLoop (acUserId actor) r now (acAssignments actor) [] False"

section \<open>The port\<close>

text \<open>A stored assignment: the role, \<^verbatim>\<open>scopeType\<close> and \<^verbatim>\<open>scopeId\<close>.\<close>

record AssignmentView =
  avRole :: Role
  avScopeType :: "string option"
  avScopeId :: "string option"

definition toScope :: "Role \<Rightarrow> string option \<Rightarrow> string option \<Rightarrow> Scope" where
  "toScope r scopeType scopeId = (case (scopeType, scopeId) of
     (Some t, Some i) \<Rightarrow>
       if t = ''FEDERATION'' then ScopeFederation i
       else if t = ''REGION'' then ScopeRegion i
       else if t = ''CLUB'' then ScopeClub i
       else if t = ''TOURNAMENT'' then ScopeTournament i
       else if t = ''SCHOOL'' then ScopeSchool i
       else ScopeOwn
   | _ \<Rightarrow> if r = SUPER_ADMIN then ScopeGlobal else ScopeOwn)"

definition toDomainAssignments :: "AssignmentView list \<Rightarrow> RoleAssignment list" where
  "toDomainAssignments rows = map (\<lambda>row. \<lparr>asRole = avRole row,
     asScope = toScope (avRole row) (avScopeType row) (avScopeId row), asValidUntil = None\<rparr>) rows"

definition hasCapability :: "Actor \<Rightarrow> Action \<Rightarrow> ResourceType \<Rightarrow> int \<Rightarrow> bool" where
  "hasCapability actor act res now = list_ex (\<lambda>a.
     if expired a now then False
     else case findGrant a res of None \<Rightarrow> False | Some g \<Rightarrow> act \<in> set (grActions g)) (acAssignments actor)"

text \<open>
  \<^verbatim>\<open>RbacGuard.canActivate\<close>: \<open>user\<close> is the authenticated user with the stored
  assignments, \<open>required\<close> the permission of the endpoint; \<open>Inl\<close> is the \<^verbatim>\<open>NotFoundError\<close>
  with its resource, \<open>Inr\<close> the actor the request carries from then on.
\<close>

definition canActivate ::
  "(string \<times> AssignmentView list) option \<Rightarrow> (ResourceType \<times> Action) option \<Rightarrow> int \<Rightarrow> ResourceType + Actor option" where
  "canActivate user required now =
     (let actor = map_option (\<lambda>(u, rows). \<lparr>acUserId = u, acAssignments = toDomainAssignments rows\<rparr>) user
      in case required of
           None \<Rightarrow> Inr actor
         | Some (res, act) \<Rightarrow>
             (case actor of
                None \<Rightarrow> Inl res
              | Some a \<Rightarrow> if hasCapability a act res now then Inr actor else Inl res))"

section \<open>The table\<close>

lemmas grant_lists = CRUD_def CRU_def CRD_def CR_def RU_def RD_def R'_def grant_def scoped_def

lemmas policy_defs = SUPER_ADMIN_grants_def FEDERATION_ADMIN_grants_def REGION_ADMIN_grants_def CLUB_ADMIN_grants_def
  ARBITER_grants_def COACH_grants_def SCHOOL_TEACHER_grants_def PLAYER_grants_def PARENT_grants_def SPECTATOR_grants_def

text \<open>Facts about every cell, checked by evaluation of the table.\<close>

definition allCells :: "(Grant \<Rightarrow> bool) \<Rightarrow> bool" where
  "allCells P = list_all (\<lambda>r. list_all P (POLICY r)) [SUPER_ADMIN, FEDERATION_ADMIN, REGION_ADMIN, CLUB_ADMIN,
     ARBITER, COACH, SCHOOL_TEACHER, PLAYER, PARENT, SPECTATOR]"

lemma allCellsD: "allCells P \<Longrightarrow> g \<in> set (POLICY r) \<Longrightarrow> P g"
  by (cases r) (auto simp: allCells_def list_all_iff)

lemma findGrant_SomeD: "findGrant a res = Some g \<Longrightarrow> g \<in> set (POLICY (asRole a)) \<and> grResource g = res"
  by (auto simp: findGrant_def find_Some_iff)

lemma readOnly_cells: "allCells (\<lambda>g. grResource g \<in> {AuditLog, RatingHistory} \<longrightarrow> grActions g = [Read])"
  by code_simp

lemma fields_nonempty: "allCells (\<lambda>g. grFields g \<noteq> Some [])"
  by code_simp

section \<open>Decisions\<close>

text \<open>What makes one assignment allow an action, and a write.\<close>

definition allows :: "string \<Rightarrow> Action \<Rightarrow> ResourceRef \<Rightarrow> int \<Rightarrow> RoleAssignment \<Rightarrow> bool" where
  "allows u act r now a \<longleftrightarrow> \<not> expired a now \<and> (\<exists>g. findGrant a (refType r) = Some g \<and> act \<in> set (grActions g) \<and>
     ((act = Read \<and> \<not> grScoped g) \<or> scopeCovers (asScope a) u r))"

lemma can_iff: "can actor act r now \<longleftrightarrow> (\<exists>a \<in> set (acAssignments actor). allows (acUserId actor) act r now a)"
  unfolding can_def list_ex_iff allows_def by (rule bex_cong[OF refl]) (auto split: option.splits)

lemma hasCapability_iff: "hasCapability actor act res now \<longleftrightarrow>
   (\<exists>a \<in> set (acAssignments actor). \<not> expired a now \<and> (\<exists>g. findGrant a res = Some g \<and> act \<in> set (grActions g)))"
  unfolding hasCapability_def list_ex_iff by (rule bex_cong[OF refl]) (auto split: option.splits)

lemma allows_cell: "allows u act r now a \<Longrightarrow> \<exists>g \<in> set (POLICY (asRole a)). grResource g = refType r \<and> act \<in> set (grActions g)"
  by (auto simp: allows_def dest: findGrant_SomeD)

lemma foldl_addField: "cols \<noteq> [] \<or> fs \<noteq> [] \<Longrightarrow> foldl addField cols fs \<noteq> []"
proof (induction fs arbitrary: cols)
  case (Cons f fs)
  have "addField cols f \<noteq> []" by (auto simp: addField_def)
  then show ?case using Cons.IH[of "addField cols f"] by simp
qed simp

lemma writableLoop_none:
  "(restricted \<longrightarrow> cols \<noteq> []) \<Longrightarrow> writableLoop u r now as cols restricted = FieldList [] \<longleftrightarrow>
     \<not> restricted \<and> (\<forall>a \<in> set as. \<not> allows u Update r now a)"
proof (induction as arbitrary: cols restricted)
  case (Cons a as)
  show ?case
  proof (cases "allows u Update r now a")
    case False
    then have "writableLoop u r now (a # as) cols restricted = writableLoop u r now as cols restricted"
      by (auto simp: allows_def split: option.splits)
    then show ?thesis using False Cons by simp
  next
    case True
    then obtain g where g: "\<not> expired a now" "findGrant a (refType r) = Some g" "Update \<in> set (grActions g)"
      "scopeCovers (asScope a) u r" by (auto simp: allows_def)
    show ?thesis
    proof (cases "grFields g")
      case None
      then show ?thesis using g True by simp
    next
      case (Some fs)
      have "fs \<noteq> []" using allCellsD[OF fields_nonempty] findGrant_SomeD[OF g(2)] Some by auto
      then show ?thesis using g True Some Cons.IH[of True "foldl addField cols fs"] by (simp add: foldl_addField)
    qed
  qed
qed auto

lemma scopeCovers_stored:
  assumes "scopeCovers (toScope rl t i) u r"
  shows "(rl = SUPER_ADMIN \<and> (t = None \<or> i = None)) \<or> refOwnerUserId r = Some u \<or>
    (i \<noteq> None \<and> (t, i) \<in> {(Some ''FEDERATION'', refFederationId r), (Some ''REGION'', refRegionId r),
       (Some ''CLUB'', refClubId r), (Some ''TOURNAMENT'', refTournamentId r), (Some ''SCHOOL'', refSchoolId r)})"
  using assms by (auto simp: toScope_def scopeCovers_def split: option.splits if_splits)

section \<open>Properties\<close>

text \<open>
  C32. A write never leaves its scope. Whatever the stored assignments of a user are, when
  the service allows to create, update or delete a resource, then for one of them the policy
  has the action for the resource's type, and it is an unscoped super administrator, or the
  user owns the resource, or the resource carries exactly the stored identifier in the field
  of the stored scope type. A missing identifier never matches.
\<close>
theorem writes_stay_in_scope:
  assumes "can \<lparr>acUserId = u, acAssignments = toDomainAssignments rows\<rparr> act r now" "act \<noteq> Read"
  shows "\<exists>row \<in> set rows.
    (\<exists>g \<in> set (POLICY (avRole row)). grResource g = refType r \<and> act \<in> set (grActions g)) \<and>
    ((avRole row = SUPER_ADMIN \<and> (avScopeType row = None \<or> avScopeId row = None)) \<or> refOwnerUserId r = Some u \<or>
     (avScopeId row \<noteq> None \<and> (avScopeType row, avScopeId row) \<in>
        {(Some ''FEDERATION'', refFederationId r), (Some ''REGION'', refRegionId r), (Some ''CLUB'', refClubId r),
         (Some ''TOURNAMENT'', refTournamentId r), (Some ''SCHOOL'', refSchoolId r)}))"
proof -
  obtain row where row: "row \<in> set rows" and a: "allows u act r now \<lparr>asRole = avRole row,
      asScope = toScope (avRole row) (avScopeType row) (avScopeId row), asValidUntil = None\<rparr>"
    using assms(1) by (auto simp: can_iff toDomainAssignments_def)
  have "scopeCovers (toScope (avRole row) (avScopeType row) (avScopeId row)) u r"
    using a assms(2) by (auto simp: allows_def)
  from scopeCovers_stored[OF this] allows_cell[OF a] show ?thesis using row by (intro bexI[of _ row]) simp_all
qed

text \<open>
  The audit log and the rating history are read-only for everybody, super administrators
  included: the service never allows anything but reading them.
\<close>
theorem history_is_read_only:
  assumes "can actor act r now" "refType r \<in> {AuditLog, RatingHistory}"
  shows "act = Read"
proof -
  obtain a where "allows (acUserId actor) act r now a" using assms(1) by (auto simp: can_iff)
  then obtain g where g: "g \<in> set (POLICY (asRole a))" "grResource g = refType r" "act \<in> set (grActions g)"
    using allows_cell by blast
  from allCellsD[OF readOnly_cells g(1)] g(2,3) assms(2) show ?thesis by auto
qed

text \<open>
  The two questions of the service agree: some column is writable exactly when updating
  is allowed.
\<close>
theorem writable_iff_can_update: "writableFields actor r now \<noteq> FieldList [] \<longleftrightarrow> can actor Update r now"
  by (simp add: writableFields_def writableLoop_none can_iff)

text \<open>
  The guard in front of an endpoint never rejects what the service would allow: if the
  actor built from the stored assignments may act on some resource of the required type, the
  guard lets the request through with that actor.
\<close>
theorem guard_admits_what_service_allows:
  assumes "can \<lparr>acUserId = u, acAssignments = toDomainAssignments rows\<rparr> act r now"
  shows "canActivate (Some (u, rows)) (Some (refType r, act)) now
    = Inr (Some \<lparr>acUserId = u, acAssignments = toDomainAssignments rows\<rparr>)"
proof -
  have "hasCapability \<lparr>acUserId = u, acAssignments = toDomainAssignments rows\<rparr> act (refType r) now"
    using assms unfolding can_iff hasCapability_iff allows_def by auto
  then show ?thesis by (simp add: canActivate_def)
qed

section \<open>Witnesses\<close>

definition noRef :: "ResourceType \<Rightarrow> ResourceRef" where
  "noRef t = \<lparr>refType = t, refOwnerUserId = None, refClubId = None, refRegionId = None, refFederationId = None,
     refTournamentId = None, refSchoolId = None\<rparr>"

definition clubAdminRow :: AssignmentView where
  "clubAdminRow = \<lparr>avRole = CLUB_ADMIN, avScopeType = Some ''CLUB'', avScopeId = Some ''c1''\<rparr>"

lemma clubAdmin_can: "can \<lparr>acUserId = ''u'', acAssignments = toDomainAssignments [clubAdminRow]\<rparr> Update
    (noRef Tournament\<lparr>refClubId := Some ''c1''\<rparr>) 0"
  by code_simp

theorem writes_stay_in_scope_witness:
  "\<exists>g \<in> set (POLICY CLUB_ADMIN). grResource g = Tournament \<and> Update \<in> set (grActions g)"
  using writes_stay_in_scope[OF clubAdmin_can] by (simp add: clubAdminRow_def noRef_def)

theorem guard_admits_what_service_allows_witness:
  "canActivate (Some (''u'', [clubAdminRow])) (Some (Tournament, Update)) 0
     = Inr (Some \<lparr>acUserId = ''u'', acAssignments = toDomainAssignments [clubAdminRow]\<rparr>)"
  using guard_admits_what_service_allows[OF clubAdmin_can] by (simp add: noRef_def)

lemma superAdmin_reads_log:
  "can \<lparr>acUserId = ''u'', acAssignments = [\<lparr>asRole = SUPER_ADMIN, asScope = ScopeGlobal, asValidUntil = Some 5\<rparr>]\<rparr>
     Read (noRef AuditLog) 3"
  by code_simp

theorem history_is_read_only_witness:
  "\<forall>act. can \<lparr>acUserId = ''u'', acAssignments = [\<lparr>asRole = SUPER_ADMIN, asScope = ScopeGlobal, asValidUntil = Some 5\<rparr>]\<rparr>
     act (noRef AuditLog) 3 = (act = Read)"
  using history_is_read_only superAdmin_reads_log by (fastforce simp: noRef_def)

end
