(* ===== verification/RoleGrant.thy ===== *)
theory RoleGrant
  imports Rbac
begin

text \<open>
  \<^verbatim>\<open>src/modules/identity/admin/role-grant.rules.ts\<close>: which role may be given or taken by
  whom, with which scope, and when an account may be blocked.
\<close>

section \<open>The rules\<close>

datatype ScopeType = FEDERATION | REGION | CLUB | SCHOOL | TOURNAMENT

record ScopeRef =
  scScopeType :: "ScopeType option"
  scScopeId :: "string option"

datatype GrantDenial =
  ROLE_NOT_DELEGABLE | SCOPE_REQUIRED | SCOPE_NOT_ALLOWED | SCOPE_ID_REQUIRED | SCOPE_ID_NOT_ALLOWED
  | LAST_SUPER_ADMIN | SELF_LOCKOUT

datatype Decision = ALLOW | Deny GrantDenial

fun ALLOWED_SCOPES :: "Role \<Rightarrow> ScopeType option list" where
  "ALLOWED_SCOPES SUPER_ADMIN = [None]"
| "ALLOWED_SCOPES FEDERATION_ADMIN = [Some FEDERATION]"
| "ALLOWED_SCOPES REGION_ADMIN = [Some REGION]"
| "ALLOWED_SCOPES CLUB_ADMIN = [Some CLUB]"
| "ALLOWED_SCOPES SCHOOL_TEACHER = [Some SCHOOL]"
| "ALLOWED_SCOPES ARBITER = [Some TOURNAMENT, None]"
| "ALLOWED_SCOPES COACH = [Some CLUB, Some SCHOOL, None]"
| "ALLOWED_SCOPES PLAYER = [None]"
| "ALLOWED_SCOPES PARENT = [None]"
| "ALLOWED_SCOPES SPECTATOR = [None]"

fun DELEGABLE :: "Role \<Rightarrow> Role list" where
  "DELEGABLE SUPER_ADMIN = [SUPER_ADMIN, FEDERATION_ADMIN, REGION_ADMIN, CLUB_ADMIN, ARBITER, COACH,
     SCHOOL_TEACHER, PLAYER, PARENT, SPECTATOR]"
| "DELEGABLE FEDERATION_ADMIN = [REGION_ADMIN, CLUB_ADMIN, ARBITER, COACH, SCHOOL_TEACHER, PLAYER, PARENT, SPECTATOR]"
| "DELEGABLE REGION_ADMIN = [CLUB_ADMIN, ARBITER, COACH, PLAYER, PARENT, SPECTATOR]"
| "DELEGABLE CLUB_ADMIN = [COACH, PLAYER, PARENT, SPECTATOR]"
| "DELEGABLE SCHOOL_TEACHER = []"
| "DELEGABLE ARBITER = []"
| "DELEGABLE COACH = []"
| "DELEGABLE PLAYER = []"
| "DELEGABLE PARENT = []"
| "DELEGABLE SPECTATOR = []"

definition canDelegate :: "Role list \<Rightarrow> Role \<Rightarrow> bool" where
  "canDelegate actorRoles r = list_ex (\<lambda>own. r \<in> set (DELEGABLE own)) actorRoles"

definition canGrant :: "Role list \<Rightarrow> Role \<Rightarrow> ScopeRef \<Rightarrow> Decision" where
  "canGrant actorRoles r sc =
     (if \<not> canDelegate actorRoles r then Deny ROLE_NOT_DELEGABLE
      else if scScopeType sc \<notin> set (ALLOWED_SCOPES r)
      then (if scScopeType sc = None then Deny SCOPE_REQUIRED else Deny SCOPE_NOT_ALLOWED)
      else if scScopeType sc \<noteq> None \<and> scScopeId sc = None then Deny SCOPE_ID_REQUIRED
      else if scScopeType sc = None \<and> scScopeId sc \<noteq> None then Deny SCOPE_ID_NOT_ALLOWED
      else ALLOW)"

definition isLastGlobalSuperAdmin :: "Role \<Rightarrow> ScopeRef \<Rightarrow> nat \<Rightarrow> bool" where
  "isLastGlobalSuperAdmin r sc superAdmins \<longleftrightarrow> r = SUPER_ADMIN \<and> scScopeType sc = None \<and> superAdmins \<le> 1"

definition canRevoke :: "Role list \<Rightarrow> Role \<Rightarrow> ScopeRef \<Rightarrow> nat \<Rightarrow> Decision" where
  "canRevoke actorRoles r sc superAdmins =
     (if \<not> canDelegate actorRoles r then Deny ROLE_NOT_DELEGABLE
      else if isLastGlobalSuperAdmin r sc superAdmins then Deny LAST_SUPER_ADMIN
      else ALLOW)"

datatype UserStatus = PENDING_VERIFICATION | ACTIVE | SUSPENDED | BANNED | DELETED

definition canChangeStatus :: "string \<Rightarrow> string \<Rightarrow> bool \<Rightarrow> UserStatus \<Rightarrow> nat \<Rightarrow> Decision" where
  "canChangeStatus actorUserId userId isGlobalSuperAdmin newStatus superAdmins =
     (if newStatus = ACTIVE then ALLOW
      else if actorUserId = userId then Deny SELF_LOCKOUT
      else if isGlobalSuperAdmin \<and> superAdmins \<le> 1 then Deny LAST_SUPER_ADMIN
      else ALLOW)"

section \<open>The ladder\<close>

text \<open>The text of a scope type, as the row stores it.\<close>

fun scopeTypeName :: "ScopeType \<Rightarrow> string" where
  "scopeTypeName FEDERATION = ''FEDERATION''"
| "scopeTypeName REGION = ''REGION''"
| "scopeTypeName CLUB = ''CLUB''"
| "scopeTypeName SCHOOL = ''SCHOOL''"
| "scopeTypeName TOURNAMENT = ''TOURNAMENT''"

text \<open>The level of a role on the ladder.\<close>

fun level :: "Role \<Rightarrow> nat" where
  "level SUPER_ADMIN = 4"
| "level FEDERATION_ADMIN = 3"
| "level REGION_ADMIN = 2"
| "level CLUB_ADMIN = 1"
| "level _ = 0"

lemma delegation_descends: "r \<in> set (DELEGABLE own) \<Longrightarrow> own \<noteq> SUPER_ADMIN \<Longrightarrow> level r < level own"
  by (cases own) auto

lemma delegation_below: "r \<in> set (DELEGABLE own) \<Longrightarrow> level r \<le> level own"
  by (cases own) auto

lemma canGrant_ALLOW:
  "canGrant roles r sc = ALLOW \<longleftrightarrow> canDelegate roles r \<and> scScopeType sc \<in> set (ALLOWED_SCOPES r) \<and>
     (scScopeType sc = None \<longleftrightarrow> scScopeId sc = None)"
  by (auto simp: canGrant_def split: if_splits)

section \<open>Properties\<close>

text \<open>
  Nobody below a super administrator can multiply their own level: along any chain of
  grants, each given by a holder of the role granted before, that does not start at a super
  administrator, the level strictly falls. No chain leads back to the role it started from
  or to a higher one, however many accounts take part.
\<close>
theorem delegation_never_climbs:
  assumes "(own, r) \<in> {(a, b). canDelegate [a] b}\<^sup>+" "own \<noteq> SUPER_ADMIN"
  shows "level r < level own \<and> r \<noteq> SUPER_ADMIN"
  using assms(1)
proof (induction rule: trancl_induct)
  case (base y)
  then have "level y < level own" using delegation_descends assms(2) by (simp add: canDelegate_def)
  moreover have "level own \<le> 3" using assms(2) by (cases own) auto
  ultimately show ?case by (cases y) auto
next
  case (step y z)
  then have "level z < level y" using delegation_descends by (simp add: canDelegate_def)
  then have "level z < level own" using step.IH by simp
  moreover have "level own \<le> 3" using assms(2) by (cases own) auto
  ultimately show ?case by (cases z) auto
qed

text \<open>
  An accepted grant takes effect with the scope that was asked for: the row read back by
  the port covers exactly the resources of the granted identifier; without a scope it is
  global for a super administrator and the user's own resources for every other role.
\<close>
theorem granted_scope_takes_effect:
  assumes "canGrant actorRoles r sc = ALLOW"
  shows "toScope r (map_option scopeTypeName (scScopeType sc)) (scScopeId sc) =
    (case (scScopeType sc, scScopeId sc) of
       (Some FEDERATION, Some i) \<Rightarrow> ScopeFederation i
     | (Some REGION, Some i) \<Rightarrow> ScopeRegion i
     | (Some CLUB, Some i) \<Rightarrow> ScopeClub i
     | (Some SCHOOL, Some i) \<Rightarrow> ScopeSchool i
     | (Some TOURNAMENT, Some i) \<Rightarrow> ScopeTournament i
     | _ \<Rightarrow> if r = SUPER_ADMIN then ScopeGlobal else ScopeOwn)"
proof (cases "scScopeType sc")
  case (Some t)
  then obtain i where "scScopeId sc = Some i" using assms by (auto simp: canGrant_ALLOW)
  then show ?thesis using Some by (cases t) (simp_all add: toScope_def)
qed (use assms in \<open>simp add: canGrant_ALLOW toScope_def\<close>)

theorem delegation_never_climbs_witness: "level COACH < level REGION_ADMIN \<and> COACH \<noteq> SUPER_ADMIN"
proof (rule delegation_never_climbs)
  have "(REGION_ADMIN, CLUB_ADMIN) \<in> {(a, b). canDelegate [a] b}" "(CLUB_ADMIN, COACH) \<in> {(a, b). canDelegate [a] b}"
    by (simp_all add: canDelegate_def)
  then show "(REGION_ADMIN, COACH) \<in> {(a, b). canDelegate [a] b}\<^sup>+" by (rule trancl_into_trancl[OF r_into_trancl])
qed simp

theorem granted_scope_takes_effect_witness:
  "toScope CLUB_ADMIN (Some ''CLUB'') (Some ''c1'') = ScopeClub ''c1''"
proof -
  have "canGrant [SUPER_ADMIN] CLUB_ADMIN \<lparr>scScopeType = Some CLUB, scScopeId = Some ''c1''\<rparr> = ALLOW"
    by (simp add: canGrant_ALLOW canDelegate_def)
  from granted_scope_takes_effect[OF this] show ?thesis by simp
qed

end
