(* ===== verification/UserAdmin.thy ===== *)
theory UserAdmin
  imports Interleave RoleGrant
begin

text \<open>
  Managing users and roles: the controller \<^verbatim>\<open>user-admin.controller.ts\<close>, the service
  \<^verbatim>\<open>user-admin.service.ts\<close> and the writes of \<^verbatim>\<open>user-admin.repository.ts\<close> in
  \<^verbatim>\<open>src/modules/identity/admin/\<close>, with the cached assignments of
  \<^verbatim>\<open>src/modules/identity/authz/authz.service.ts\<close>. Times are milliseconds, the id of a new
  row comes from the database. The operations are requests: every \<^verbatim>\<open>await\<close> on the tables or on the cache is a
  step of its own, so that others may come between a check and the write that relies on it.
\<close>

section \<open>Tables\<close>

record UserRow =
  usId :: string
  usStatus :: UserStatus
  usDeleted :: bool

record RoleRow =
  rrId :: nat
  rrUserId :: string
  rrRole :: Role
  rrScope :: ScopeRef
  rrExpiresAt :: "int option"

record UserDb =
  udUsers :: "UserRow list"
  udRoles :: "RoleRow list"
  udTokens :: "(string \<times> bool) list"
  udCache :: "string \<rightharpoonup> AssignmentView list"
  udAudit :: "AuditRow list"
  udNextId :: nat

text \<open>What the database throws: the codes \<^verbatim>\<open>P2002\<close> and \<^verbatim>\<open>P2025\<close> of Prisma.\<close>

datatype DbFailure = UniqueConstraintFailed | RecordNotFound

type_synonym 'a admin = "(DbFailure, UserDb, 'a) action"
type_synonym 'a adminRequest = "(DbFailure, UserDb, 'a) handler"

section \<open>Reads\<close>

definition findUser :: "UserDb \<Rightarrow> string \<Rightarrow> UserRow option" where
  "findUser s i = find (\<lambda>u. usId u = i \<and> \<not> usDeleted u) (udUsers s)"

definition rolesOfUser :: "UserDb \<Rightarrow> string \<Rightarrow> RoleRow list" where
  "rolesOfUser s i = filter (\<lambda>r. rrUserId r = i) (udRoles s)"

definition findById :: "UserDb \<Rightarrow> string \<Rightarrow> (UserRow \<times> RoleRow list) option" where
  "findById s i = map_option (\<lambda>u. (u, rolesOfUser s i)) (findUser s i)"

definition findAssignment :: "UserDb \<Rightarrow> nat \<Rightarrow> RoleRow option" where
  "findAssignment s i = find (\<lambda>r. rrId r = i) (udRoles s)"

definition activeUser :: "UserDb \<Rightarrow> string \<Rightarrow> bool" where
  "activeUser s i \<longleftrightarrow> (\<exists>u \<in> set (udUsers s). usId u = i \<and> \<not> usDeleted u \<and> usStatus u = ACTIVE)"

definition isGlobalSuperAdminRow :: "RoleRow \<Rightarrow> bool" where
  "isGlobalSuperAdminRow r \<longleftrightarrow> rrRole r = SUPER_ADMIN \<and> scScopeType (rrScope r) = None"

definition countGlobalSuperAdmins :: "UserDb \<Rightarrow> nat" where
  "countGlobalSuperAdmins s =
     length (filter (\<lambda>r. isGlobalSuperAdminRow r \<and> activeUser s (rrUserId r)) (udRoles s))"

definition toAssignmentView :: "RoleRow \<Rightarrow> AssignmentView" where
  "toAssignmentView r = \<lparr>avRole = rrRole r, avScopeType = map_option scopeTypeName (scScopeType (rrScope r)),
     avScopeId = scScopeId (rrScope r)\<rparr>"

definition findActiveAssignments :: "UserDb \<Rightarrow> string \<Rightarrow> int \<Rightarrow> AssignmentView list" where
  "findActiveAssignments s i now = map toAssignmentView
     (filter (\<lambda>r. rrUserId r = i \<and> (case rrExpiresAt r of None \<Rightarrow> True | Some t \<Rightarrow> t > now)) (udRoles s))"

text \<open>The cache of assignments.\<close>

definition getAssignments :: "string \<Rightarrow> int \<Rightarrow> AssignmentView list adminRequest" where
  "getAssignments userId now =
     bindR (awaitR (getS (\<lambda>s. udCache s userId))) (\<lambda>cached.
     case cached of
       Some rows \<Rightarrow> returnR rows
     | None \<Rightarrow>
         bindR (awaitR (getS (\<lambda>s. findActiveAssignments s userId now))) (\<lambda>rows.
         bindR (awaitR (putS (\<lambda>s. s\<lparr>udCache := (udCache s)(userId \<mapsto> rows)\<rparr>))) (\<lambda>_.
         returnR rows)))"

definition invalidate :: "string \<Rightarrow> unit adminRequest" where
  "invalidate userId = awaitR (putS (\<lambda>s. s\<lparr>udCache := (udCache s)(userId := None)\<rparr>))"

definition writeAudit :: "AuditRow \<Rightarrow> unit admin" where
  "writeAudit = auditWriteTo udAudit_update"

section \<open>Writes\<close>

text \<open>
  Each is one transaction. The unique constraint on user, role and scope does not bind rows without a scope: two null
  values differ in PostgreSQL.
\<close>

definition repoGrant :: "string \<Rightarrow> Role \<Rightarrow> ScopeRef \<Rightarrow> int option \<Rightarrow> string \<Rightarrow> string \<Rightarrow> nat admin" where
  "repoGrant userId r sc expiresAt actor reason = transaction (
     bindS (getS udNextId) (\<lambda>i.
     bindS (getS (\<lambda>s. scScopeType sc \<noteq> None \<and> scScopeId sc \<noteq> None \<and>
              (\<exists>x \<in> set (udRoles s). rrUserId x = userId \<and> rrRole x = r \<and> rrScope x = sc))) (\<lambda>taken.
     bindS (guardS taken (OtherError UniqueConstraintFailed)) (\<lambda>_.
     bindS (putS (\<lambda>s. s\<lparr>udRoles := udRoles s @ [\<lparr>rrId = i, rrUserId = userId, rrRole = r, rrScope = sc,
              rrExpiresAt = expiresAt\<rparr>], udNextId := Suc i\<rparr>)) (\<lambda>_.
     bindS (writeAudit (auditOf ''role.granted'' actor userId '''' '''' (Some reason))) (\<lambda>_.
     returnS i))))))"

definition repoRevoke :: "nat \<Rightarrow> string \<Rightarrow> string \<Rightarrow> unit admin" where
  "repoRevoke assignmentId actor reason = transaction (
     bindS (getS (\<lambda>s. findAssignment s assignmentId)) (\<lambda>before.
     bindS (guardS (before = None) (OtherError RecordNotFound)) (\<lambda>_.
     bindS (putS (\<lambda>s. s\<lparr>udRoles := filter (\<lambda>r. rrId r \<noteq> assignmentId) (udRoles s)\<rparr>)) (\<lambda>_.
     writeAudit (auditOf ''role.revoked'' actor '''' '''' '''' (Some reason))))))"

definition repoSetStatus :: "string \<Rightarrow> UserStatus \<Rightarrow> string \<Rightarrow> string \<Rightarrow> unit admin" where
  "repoSetStatus userId status actor reason = transaction (
     bindS (getS (\<lambda>s. usId ` set (udUsers s))) (\<lambda>stored.
     bindS (guardS (userId \<notin> stored) (OtherError RecordNotFound)) (\<lambda>_.
     bindS (putS (\<lambda>s. s\<lparr>udUsers := map (\<lambda>u. if usId u = userId then u\<lparr>usStatus := status\<rparr> else u) (udUsers s)\<rparr>)) (\<lambda>_.
     bindS (if status \<noteq> ACTIVE
            then putS (\<lambda>s. s\<lparr>udTokens := map (\<lambda>(u, revoked). (u, revoked \<or> u = userId)) (udTokens s)\<rparr>)
            else returnS ()) (\<lambda>_.
     writeAudit (auditOf ''user.status_changed'' actor userId '''' '''' (Some reason)))))))"

section \<open>The service\<close>

definition rolesOf :: "Actor \<Rightarrow> int \<Rightarrow> Role list" where
  "rolesOf actor now = map asRole
     (filter (\<lambda>a. case asValidUntil a of None \<Rightarrow> True | Some t \<Rightarrow> t > now) (acAssignments actor))"

fun denialCode :: "GrantDenial \<Rightarrow> string" where
  "denialCode ROLE_NOT_DELEGABLE = ''ROLE_NOT_DELEGABLE''"
| "denialCode SCOPE_REQUIRED = ''SCOPE_REQUIRED''"
| "denialCode SCOPE_NOT_ALLOWED = ''SCOPE_NOT_ALLOWED''"
| "denialCode SCOPE_ID_REQUIRED = ''SCOPE_ID_REQUIRED''"
| "denialCode SCOPE_ID_NOT_ALLOWED = ''SCOPE_ID_NOT_ALLOWED''"
| "denialCode LAST_SUPER_ADMIN = ''LAST_SUPER_ADMIN''"
| "denialCode SELF_LOCKOUT = ''SELF_LOCKOUT''"

definition assertAllowed :: "Decision \<Rightarrow> unit adminRequest" where
  "assertAllowed d = (case d of ALLOW \<Rightarrow> returnR () | Deny why \<Rightarrow> throwR (BusinessRuleError (denialCode why)))"

definition grantRole ::
  "Actor \<Rightarrow> int \<Rightarrow> string \<Rightarrow> Role \<Rightarrow> ScopeRef \<Rightarrow> int option \<Rightarrow> string \<Rightarrow> nat adminRequest" where
  "grantRole actor now userId r sc expiresAt reason =
     bindR (awaitR (getS (\<lambda>s. findById s userId))) (\<lambda>target.
     case target of
       None \<Rightarrow> throwR (NotFoundError ''User'')
     | Some t \<Rightarrow>
         bindR (assertAllowed (canGrant (rolesOf actor now) r sc)) (\<lambda>_.
         bindR (guardR (\<exists>x \<in> set (snd t). rrRole x = r \<and> scScopeType (rrScope x) = scScopeType sc
                  \<and> scScopeId (rrScope x) = scScopeId sc) (BusinessRuleError ''ROLE_ALREADY_GRANTED'')) (\<lambda>_.
         bindR (awaitR (repoGrant userId r sc expiresAt (acUserId actor) reason)) (\<lambda>row.
         bindR (invalidate userId) (\<lambda>_. returnR row)))))"

definition revokeRole :: "Actor \<Rightarrow> int \<Rightarrow> nat \<Rightarrow> string \<Rightarrow> unit adminRequest" where
  "revokeRole actor now assignmentId reason =
     bindR (awaitR (getS (\<lambda>s. findAssignment s assignmentId))) (\<lambda>assignment.
     case assignment of
       None \<Rightarrow> throwR (NotFoundError ''UserRole'')
     | Some a \<Rightarrow>
         bindR (awaitR (getS countGlobalSuperAdmins)) (\<lambda>n.
         bindR (assertAllowed (canRevoke (rolesOf actor now) (rrRole a) (rrScope a) n)) (\<lambda>_.
         bindR (awaitR (repoRevoke assignmentId (acUserId actor) reason)) (\<lambda>_.
         invalidate (rrUserId a)))))"

definition setStatus :: "Actor \<Rightarrow> string \<Rightarrow> UserStatus \<Rightarrow> string \<Rightarrow> unit adminRequest" where
  "setStatus actor userId status reason =
     bindR (awaitR (getS (\<lambda>s. findById s userId))) (\<lambda>target.
     case target of
       None \<Rightarrow> throwR (NotFoundError ''User'')
     | Some t \<Rightarrow>
         bindR (awaitR (getS countGlobalSuperAdmins)) (\<lambda>n.
         bindR (assertAllowed (canChangeStatus (acUserId actor) userId (\<exists>r \<in> set (snd t). isGlobalSuperAdminRow r) status n)) (\<lambda>_.
         bindR (awaitR (repoSetStatus userId status (acUserId actor) reason)) (\<lambda>_.
         invalidate userId))))"

definition getById :: "string \<Rightarrow> (UserRow \<times> RoleRow list) adminRequest" where
  "getById userId =
     bindR (awaitR (getS (\<lambda>s. findById s userId))) (\<lambda>target.
     case target of None \<Rightarrow> throwR (NotFoundError ''User'') | Some t \<Rightarrow> returnR t)"

section \<open>The controller\<close>

definition assertGlobal :: "Actor \<Rightarrow> Action \<Rightarrow> int \<Rightarrow> unit adminRequest" where
  "assertGlobal actor act now = guardR (\<not> can actor act (noRef User) now) (NotFoundError ''User'')"

definition grantEndpoint ::
  "Actor \<Rightarrow> int \<Rightarrow> string \<Rightarrow> Role \<Rightarrow> ScopeRef \<Rightarrow> int option \<Rightarrow> string \<Rightarrow> nat adminRequest" where
  "grantEndpoint actor now userId r sc expiresAt reason =
     bindR (assertGlobal actor Update now) (\<lambda>_. grantRole actor now userId r sc expiresAt reason)"

definition revokeEndpoint :: "Actor \<Rightarrow> int \<Rightarrow> nat \<Rightarrow> string \<Rightarrow> unit adminRequest" where
  "revokeEndpoint actor now assignmentId reason =
     bindR (assertGlobal actor Update now) (\<lambda>_. revokeRole actor now assignmentId reason)"

definition setStatusEndpoint :: "Actor \<Rightarrow> int \<Rightarrow> string \<Rightarrow> UserStatus \<Rightarrow> string \<Rightarrow> unit adminRequest" where
  "setStatusEndpoint actor now userId status reason =
     bindR (assertGlobal actor Update now) (\<lambda>_. setStatus actor userId status reason)"

definition getByIdEndpoint :: "Actor \<Rightarrow> int \<Rightarrow> string \<Rightarrow> (UserRow \<times> RoleRow list) adminRequest" where
  "getByIdEndpoint actor now userId = bindR (assertGlobal actor Read now) (\<lambda>_. getById userId)"

end
