(* ===== verification/UserAdminRuns.thy ===== *)
theory UserAdminRuns
  imports UserAdmin
begin

text \<open>
  What every run of the user administration keeps: one super administrator stays, and the
  cache never serves a role that is no longer stored.
\<close>

section \<open>The invariant\<close>

definition roleKey :: "RoleRow \<Rightarrow> string \<times> Role \<times> ScopeRef" where
  "roleKey r = (rrUserId r, rrRole r, rrScope r)"

definition rolesOk :: "UserDb \<Rightarrow> bool" where
  "rolesOk s \<longleftrightarrow> distinct (map usId (udUsers s)) \<and> distinct (map rrId (udRoles s)) \<and> distinct (map roleKey (udRoles s)) \<and>
     (\<forall>r \<in> set (udRoles s). rrId r < udNextId s \<and> (scScopeType (rrScope r) = None \<longrightarrow> scScopeId (rrScope r) = None))"

definition cacheOk :: "UserDb \<Rightarrow> bool" where
  "cacheOk s \<longleftrightarrow> (\<forall>u rows. udCache s u = Some rows \<longrightarrow> set rows \<subseteq> toAssignmentView ` set (rolesOfUser s u))"

definition adminOk :: "UserDb \<Rightarrow> bool" where
  "adminOk s \<longleftrightarrow> rolesOk s \<and> cacheOk s \<and> 1 \<le> countGlobalSuperAdmins s"

definition counted :: "UserDb \<Rightarrow> RoleRow \<Rightarrow> bool" where
  "counted s r \<longleftrightarrow> isGlobalSuperAdminRow r \<and> activeUser s (rrUserId r)"

lemma roleKey_new: "roleKey \<lparr>rrId = i, rrUserId = u, rrRole = r, rrScope = sc, rrExpiresAt = e\<rparr> = (u, r, sc)"
  by (simp add: roleKey_def)

lemma count_counted: "countGlobalSuperAdmins s = length (filter (counted s) (udRoles s))"
  by (simp add: countGlobalSuperAdmins_def counted_def[abs_def])

lemma cacheOk_update:
  assumes "cacheOk s" "udCache t = (udCache s)(u := None)" "\<And>v. v \<noteq> u \<Longrightarrow> rolesOfUser t v = rolesOfUser s v"
  shows "cacheOk t"
  using assms by (auto simp: cacheOk_def)

text \<open>The three writes, on a state \<open>t\<close> that differs from \<open>s\<close> as the write says.\<close>

lemma grant_keeps:
  assumes ok: "adminOk s" and new: "\<not> (\<exists>x \<in> set (rolesOfUser s u). rrRole x = r \<and> rrScope x = sc)"
    and sc: "scScopeType sc = None \<longrightarrow> scScopeId sc = None"
    and t: "udUsers t = udUsers s" "udRoles t = udRoles s @ [\<lparr>rrId = udNextId s, rrUserId = u, rrRole = r, rrScope = sc,
        rrExpiresAt = e\<rparr>]" "udNextId t = Suc (udNextId s)" "udCache t = (udCache s)(u := None)"
  shows "adminOk t"
proof -
  have act: "activeUser t = activeUser s" by (rule ext) (simp add: activeUser_def t)
  then have "counted t = counted s" by (simp add: counted_def fun_eq_iff)
  then have "1 \<le> countGlobalSuperAdmins t" using ok by (simp add: adminOk_def count_counted t)
  moreover have "rolesOk t"
  proof -
    have "(u, r, sc) \<notin> roleKey ` set (udRoles s)"
    proof
      assume "(u, r, sc) \<in> roleKey ` set (udRoles s)"
      then obtain x where "x \<in> set (udRoles s)" "rrUserId x = u" "rrRole x = r" "rrScope x = sc"
        by (auto simp: roleKey_def)
      then show False using new by (simp add: rolesOfUser_def)
    qed
    moreover have "udNextId s \<notin> rrId ` set (udRoles s)" using ok by (auto simp: adminOk_def rolesOk_def)
    ultimately show ?thesis using ok sc
      by (simp add: adminOk_def rolesOk_def t roleKey_new less_Suc_eq)
  qed
  moreover have "cacheOk t" by (rule cacheOk_update[of s]) (use ok in \<open>auto simp: adminOk_def t rolesOfUser_def\<close>)
  ultimately show ?thesis by (simp add: adminOk_def)
qed

lemma length_filter_remove:
  assumes "distinct (map f xs)"
  shows "length (filter P xs) \<le> Suc (length (filter P (filter (\<lambda>x. f x \<noteq> k) xs)))"
  using assms
proof (induction xs)
  case (Cons x xs)
  show ?case
  proof (cases "f x = k")
    case True
    then have "\<forall>y \<in> set xs. f y \<noteq> k" using Cons.prems by (metis distinct.simps(2) image_eqI list.set_map list.simps(9))
    then have "filter (\<lambda>x. f x \<noteq> k) xs = xs" by (simp add: filter_id_conv)
    then show ?thesis using True by simp
  qed (use Cons in simp)
qed simp

lemma revoke_keeps:
  assumes ok: "adminOk s" and a: "find (\<lambda>r. rrId r = i) (udRoles s) = Some a"
    and two: "isGlobalSuperAdminRow a \<Longrightarrow> 1 < countGlobalSuperAdmins s"
    and t: "udUsers t = udUsers s" "udRoles t = filter (\<lambda>r. rrId r \<noteq> i) (udRoles s)" "udNextId t = udNextId s"
      "udCache t = (udCache s)(rrUserId a := None)"
  shows "adminOk t"
proof -
  have am: "a \<in> set (udRoles s)" "rrId a = i" using a by (auto simp: find_Some_iff)
  have dist: "distinct (map rrId (udRoles s))" using ok by (simp add: adminOk_def rolesOk_def)
  have only: "r = a" if "r \<in> set (udRoles s)" "rrId r = i" for r
    using dist that am by (auto simp: distinct_map dest: inj_onD)
  have "activeUser t = activeUser s" by (rule ext) (simp add: activeUser_def t)
  then have ct: "counted t = counted s" by (simp add: counted_def fun_eq_iff)
  have "1 \<le> countGlobalSuperAdmins t"
  proof (cases "isGlobalSuperAdminRow a")
    case True
    then show ?thesis using two length_filter_remove[OF dist, of "counted s" i]
      by (simp add: count_counted t(2) ct)
  next
    case False
    then have "filter (counted s) (filter (\<lambda>r. rrId r \<noteq> i) (udRoles s)) = filter (counted s) (udRoles s)"
      unfolding filter_filter by (intro filter_cong[OF refl]) (use only in \<open>auto simp: counted_def\<close>)
    then show ?thesis using ok by (simp add: count_counted t(2) ct adminOk_def)
  qed
  moreover have "rolesOk t"
    using ok by (auto simp: adminOk_def rolesOk_def t intro: distinct_map_filter_subset)
  moreover have "cacheOk t"
  proof (rule cacheOk_update[of s])
    show "rolesOfUser t v = rolesOfUser s v" if "v \<noteq> rrUserId a" for v
      unfolding rolesOfUser_def t(2) filter_filter by (rule filter_cong[OF refl]) (use that only in blast)
  qed (use ok t in \<open>simp_all add: adminOk_def\<close>)
  ultimately show ?thesis by (simp add: adminOk_def)
qed

lemma length_filter_disjoint:
  assumes "distinct xs" "finite B" "\<forall>x \<in> set xs. P x \<longrightarrow> Q x \<or> x \<in> B"
  shows "length (filter P xs) \<le> length (filter Q xs) + card B"
proof -
  have "length (filter P xs) = card {x \<in> set xs. P x}" using assms(1)
    by (metis distinct_card distinct_filter set_filter)
  also have "\<dots> \<le> card ({x \<in> set xs. Q x} \<union> B)" using assms(2,3) by (intro card_mono) auto
  also have "\<dots> \<le> card {x \<in> set xs. Q x} + card B" by (rule card_Un_le)
  also have "card {x \<in> set xs. Q x} = length (filter Q xs)" using assms(1)
    by (metis distinct_card distinct_filter set_filter)
  finally show ?thesis .
qed

lemma status_keeps:
  assumes ok: "adminOk s"
    and two: "status \<noteq> ACTIVE \<Longrightarrow> \<exists>r \<in> set (rolesOfUser s u). isGlobalSuperAdminRow r \<Longrightarrow> 1 < countGlobalSuperAdmins s"
    and t: "udUsers t = map (\<lambda>x. if usId x = u then x\<lparr>usStatus := status\<rparr> else x) (udUsers s)" "udRoles t = udRoles s"
      "udNextId t = udNextId s" "udCache t = (udCache s)(u := None)"
  shows "adminOk t"
proof -
  have other: "activeUser t v = activeUser s v" if "v \<noteq> u" for v
    using that by (auto simp: activeUser_def t)
  have same: "activeUser t v" if status: "status = ACTIVE" and v: "activeUser s v" for v
  proof -
    obtain x where x: "x \<in> set (udUsers s)" "usId x = v" "\<not> usDeleted x" "usStatus x = ACTIVE"
      using v by (auto simp: activeUser_def)
    show ?thesis unfolding activeUser_def t(1) using x status
      by (intro bexI[of _ "if usId x = u then x\<lparr>usStatus := status\<rparr> else x"]) simp_all
  qed
  let ?G = "{r \<in> set (udRoles s). rrUserId r = u \<and> isGlobalSuperAdminRow r}"
  have key: "distinct (map roleKey (udRoles s))" using ok by (simp add: adminOk_def rolesOk_def)
  then have dist: "distinct (udRoles s)" by (simp add: distinct_map)
  have one: "card ?G \<le> 1"
  proof -
    have eq: "x = y" if "x \<in> ?G" "y \<in> ?G" for x y
    proof -
      have "scScopeId (rrScope x) = None" "scScopeId (rrScope y) = None"
        using ok that by (auto simp: adminOk_def rolesOk_def isGlobalSuperAdminRow_def)
      then have "rrScope x = rrScope y" using that by (auto simp: isGlobalSuperAdminRow_def)
      then have "roleKey x = roleKey y" using that by (simp add: roleKey_def isGlobalSuperAdminRow_def)
      then show ?thesis using key that by (auto simp: distinct_map dest: inj_onD)
    qed
    have "finite ?G" by simp
    then show ?thesis using eq card_le_Suc0_iff_eq[of ?G] unfolding One_nat_def by blast
  qed
  have "1 \<le> countGlobalSuperAdmins t"
  proof (cases "status \<noteq> ACTIVE \<and> (\<exists>r \<in> set (rolesOfUser s u). isGlobalSuperAdminRow r)")
    case True
    have "length (filter (counted s) (udRoles s)) \<le> length (filter (counted t) (udRoles s)) + card ?G"
      by (rule length_filter_disjoint[OF dist]) (use other in \<open>auto simp: counted_def\<close>)
    then show ?thesis using True two one by (simp add: count_counted t(2))
  next
    case False
    have "counted t r" if "r \<in> set (udRoles s)" "counted s r" for r
    proof (cases "rrUserId r = u")
      case True
      then have "status = ACTIVE" using False that by (auto simp: rolesOfUser_def counted_def)
      then show ?thesis using same that by (simp add: counted_def)
    qed (use that other in \<open>simp add: counted_def\<close>)
    then have "\<forall>r \<in> set (udRoles s). counted s r \<longrightarrow> counted t r \<or> r \<in> {}" by blast
    from length_filter_disjoint[OF dist finite.emptyI this]
    have "length (filter (counted s) (udRoles s)) \<le> length (filter (counted t) (udRoles s))" by simp
    then show ?thesis using ok by (simp add: count_counted t(2) adminOk_def)
  qed
  moreover have "map usId (udUsers t) = map usId (udUsers s)" by (simp add: t(1))
  then have "rolesOk t" using ok by (simp add: adminOk_def rolesOk_def t(2,3))
  moreover have "cacheOk t" by (rule cacheOk_update[of s]) (use ok t in \<open>simp_all add: adminOk_def rolesOfUser_def\<close>)
  ultimately show ?thesis by (simp add: adminOk_def)
qed

section \<open>The operations\<close>

lemma wp_assertAllowed:
  "wp (runAlone (assertAllowed d)) Q E s = (case d of ALLOW \<Rightarrow> Q () s | Deny why \<Rightarrow> E (BusinessRuleError (denialCode why)) s)"
  by (cases d) (simp_all add: assertAllowed_def run_alone wp_simps)

lemma wp_writeAudit:
  "wp (writeAudit a) Q E s = (if auAction a \<in> REASON_REQUIRED \<and> (case auReason a of None \<Rightarrow> True | Some r \<Rightarrow> jsTrim r = '''')
     then E (BusinessRuleError ''AUDIT_REASON_REQUIRED'') s else Q () (udAudit_update (\<lambda>rows. rows @ [a]) s))"
  by (simp add: writeAudit_def auditWriteTo_def wp_simps)

lemma adminOk_audit [simp]: "adminOk (udAudit_update f s) = adminOk s"
  by (simp add: adminOk_def rolesOk_def cacheOk_def rolesOfUser_def countGlobalSuperAdmins_def activeUser_def)

abbreviation (input) keepsAdmin :: "'a adminRequest \<Rightarrow> UserDb \<Rightarrow> bool" where
  "keepsAdmin p s \<equiv> wp (runAlone p) (\<lambda>_. adminOk) (\<lambda>_. adminOk) s"

lemma grantRole_keeps:
  assumes ok: "adminOk s"
  shows "keepsAdmin (grantRole actor now u r sc e why) s"
proof (cases "canGrant (rolesOf actor now) r sc")
  case ALLOW
  then have sc: "scScopeType sc = None \<longrightarrow> scScopeId sc = None" by (simp add: canGrant_ALLOW)
  show ?thesis
  proof (cases "\<exists>x \<in> set (rolesOfUser s u). rrRole x = r \<and> scScopeType (rrScope x) = scScopeType sc
      \<and> scScopeId (rrScope x) = scScopeId sc")
    case True
    then show ?thesis using ok ALLOW
      by (simp add: grantRole_def findById_def findAssignment_def run_alone wp_simps wp_assertAllowed split: option.splits)
  next
    case False
    then have "\<not> (\<exists>x \<in> set (rolesOfUser s u). rrRole x = r \<and> rrScope x = sc)" by auto
    note keep = grant_keeps[OF ok this sc]
    show ?thesis using ok ALLOW False
      by (simp add: grantRole_def findById_def findAssignment_def run_alone repoGrant_def invalidate_def wp_simps wp_assertAllowed wp_writeAudit split: option.splits)
        (auto intro!: keep)
  qed
next
  case (Deny d)
  then show ?thesis using ok
    by (simp add: grantRole_def findById_def findAssignment_def run_alone wp_simps wp_assertAllowed split: option.splits)
qed

lemma revokeRole_keeps:
  assumes ok: "adminOk s"
  shows "keepsAdmin (revokeRole actor now i why) s"
proof (cases "find (\<lambda>r. rrId r = i) (udRoles s)")
  case None
  then show ?thesis using ok by (simp add: revokeRole_def findById_def findAssignment_def run_alone wp_simps)
next
  case (Some a)
  show ?thesis
  proof (cases "canRevoke (rolesOf actor now) (rrRole a) (rrScope a) (countGlobalSuperAdmins s)")
    case ALLOW
    then have "isGlobalSuperAdminRow a \<Longrightarrow> 1 < countGlobalSuperAdmins s"
      by (auto simp: canRevoke_def isLastGlobalSuperAdmin_def isGlobalSuperAdminRow_def split: if_splits)
    note keep = revoke_keeps[OF ok Some this]
    show ?thesis using ok ALLOW Some
      by (simp add: revokeRole_def findById_def findAssignment_def run_alone repoRevoke_def invalidate_def wp_simps wp_assertAllowed wp_writeAudit)
        (auto intro!: keep)
  next
    case (Deny d)
    then show ?thesis using ok Some by (simp add: revokeRole_def findById_def findAssignment_def run_alone wp_simps wp_assertAllowed)
  qed
qed

lemma setStatus_keeps:
  assumes ok: "adminOk s"
  shows "keepsAdmin (setStatus actor u st why) s"
proof (cases "canChangeStatus (acUserId actor) u (\<exists>r \<in> set (rolesOfUser s u). isGlobalSuperAdminRow r) st
    (countGlobalSuperAdmins s)")
  case ALLOW
  then have two: "st \<noteq> ACTIVE \<Longrightarrow> \<exists>r \<in> set (rolesOfUser s u). isGlobalSuperAdminRow r \<Longrightarrow> 1 < countGlobalSuperAdmins s"
    by (auto simp: canChangeStatus_def split: if_splits)
  have keep: "adminOk t" if "udUsers t = map (\<lambda>x. if usId x = u then x\<lparr>usStatus := st\<rparr> else x) (udUsers s)"
    "udRoles t = udRoles s" "udNextId t = udNextId s" "udCache t = (udCache s)(u := None)" for t
    by (rule status_keeps[OF ok _ that]) (rule two)
  show ?thesis
  proof (cases "findUser s u")
    case None
    then show ?thesis using ok by (simp add: setStatus_def findById_def findAssignment_def run_alone wp_simps)
  next
    case (Some x)
    show ?thesis
    proof (cases "st = ACTIVE")
      case True
      then show ?thesis using ok ALLOW Some
        by (simp add: setStatus_def findById_def findAssignment_def run_alone repoSetStatus_def invalidate_def wp_simps wp_assertAllowed wp_writeAudit)
          (auto intro!: keep)
    next
      case False
      then show ?thesis using ok ALLOW Some
        by (simp add: setStatus_def findById_def findAssignment_def run_alone repoSetStatus_def invalidate_def wp_simps wp_assertAllowed wp_writeAudit)
          (auto intro!: keep)
    qed
  qed
next
  case (Deny d)
  then show ?thesis using ok by (simp add: setStatus_def findById_def findAssignment_def run_alone wp_simps wp_assertAllowed split: option.splits)
qed

lemma getAssignments_keeps:
  assumes ok: "adminOk s"
  shows "keepsAdmin (getAssignments u now) s"
proof -
  have "set (findActiveAssignments s u now) \<subseteq> toAssignmentView ` set (rolesOfUser s u)"
    by (auto simp: findActiveAssignments_def rolesOfUser_def)
  then have "adminOk (s\<lparr>udCache := (udCache s)(u \<mapsto> findActiveAssignments s u now)\<rparr>)"
    using ok by (auto simp: adminOk_def rolesOk_def cacheOk_def rolesOfUser_def countGlobalSuperAdmins_def activeUser_def)
  then show ?thesis using ok by (simp add: getAssignments_def run_alone wp_simps split: option.splits)
qed

section \<open>Runs\<close>

text \<open>
  The requests of the endpoints by any actor at any time, the lookup of assignments that fills
  the cache, the expiry of a cache entry, and a new account, which starts without roles.
\<close>

definition expireCache :: "string \<Rightarrow> unit adminRequest" where
  "expireCache u = awaitR (putS (\<lambda>s. s\<lparr>udCache := (udCache s)(u := None)\<rparr>))"

definition registerAccount :: "string \<Rightarrow> unit adminRequest" where
  "registerAccount u = awaitR (putS (\<lambda>s. if u \<in> usId ` set (udUsers s) then s
     else s\<lparr>udUsers := udUsers s @ [\<lparr>usId = u, usStatus = PENDING_VERIFICATION, usDeleted = False\<rparr>]\<rparr>))"

inductive_set adminRequests :: "(UserDb, DbFailure DomainError + unit) request set" where
  "voidR (grantEndpoint actor now u r sc e why) \<in> adminRequests"
| "voidR (revokeEndpoint actor now i why) \<in> adminRequests"
| "voidR (setStatusEndpoint actor now u st why) \<in> adminRequests"
| "voidR (getByIdEndpoint actor now u) \<in> adminRequests"
| "voidR (getAssignments u now) \<in> adminRequests"
| "voidR (expireCache u) \<in> adminRequests"
| "voidR (registerAccount u) \<in> adminRequests"

definition freshInstall :: "string \<Rightarrow> UserDb" where
  "freshInstall admin = \<lparr>udUsers = [\<lparr>usId = admin, usStatus = ACTIVE, usDeleted = False\<rparr>],
     udRoles = [\<lparr>rrId = 0, rrUserId = admin, rrRole = SUPER_ADMIN,
                 rrScope = \<lparr>scScopeType = None, scScopeId = None\<rparr>, rrExpiresAt = None\<rparr>],
     udTokens = [], udCache = Map.empty, udAudit = [], udNextId = 1\<rparr>"

text \<open>Requests that do not overlap.\<close>

definition reachableAdmin :: "UserDb \<Rightarrow> bool" where
  "reachableAdmin s \<longleftrightarrow> (\<exists>admin. serial adminRequests (freshInstall admin) s)"

lemma guarded_keeps: "adminOk s \<Longrightarrow> keepsAdmin p s \<Longrightarrow> keepsAdmin (bindR (assertGlobal actor act now) (\<lambda>_. p)) s"
  by (simp add: assertGlobal_def run_alone wp_simps)

lemma newUser_keeps:
  assumes ok: "adminOk s" and new: "u \<notin> usId ` set (udUsers s)"
  shows "adminOk (s\<lparr>udUsers := udUsers s @ [\<lparr>usId = u, usStatus = PENDING_VERIFICATION, usDeleted = False\<rparr>]\<rparr>)"
    (is "adminOk ?t")
proof -
  have "activeUser ?t = activeUser s" by (auto simp: activeUser_def fun_eq_iff)
  then have "countGlobalSuperAdmins ?t = countGlobalSuperAdmins s" by (simp add: countGlobalSuperAdmins_def)
  then show ?thesis using ok new by (simp add: adminOk_def rolesOk_def cacheOk_def rolesOfUser_def)
qed

lemma expireCache_keeps: "adminOk s \<Longrightarrow> keepsAdmin (expireCache u) s"
  by (auto simp: expireCache_def run_alone wp_simps adminOk_def rolesOk_def cacheOk_def rolesOfUser_def countGlobalSuperAdmins_def
    activeUser_def)

lemma registerAccount_keeps: "adminOk s \<Longrightarrow> keepsAdmin (registerAccount u) s"
  using newUser_keeps by (simp add: registerAccount_def run_alone wp_simps)

lemma getById_keeps: "adminOk s \<Longrightarrow> keepsAdmin (getById u) s"
  by (simp add: getById_def run_alone wp_simps split: option.splits)

lemmas request_keeps = guarded_keeps grantRole_keeps revokeRole_keeps setStatus_keeps getAssignments_keeps getById_keeps
  expireCache_keeps registerAccount_keeps

lemma request_keeps_void: "adminOk s \<Longrightarrow> keepsAdmin p s \<Longrightarrow> adminOk (snd (runAlone (voidR p) s))"
  unfolding runAlone_void by (rule wp_snd)

lemma adminRequests_keep: "p \<in> adminRequests \<Longrightarrow> adminOk s \<Longrightarrow> adminOk (snd (runAlone p s))"
  by (erule adminRequests.cases) (simp_all add: request_keeps_void request_keeps grantEndpoint_def revokeEndpoint_def
    setStatusEndpoint_def getByIdEndpoint_def)

lemma freshInstall_ok: "adminOk (freshInstall admin)"
  by (simp add: adminOk_def rolesOk_def cacheOk_def freshInstall_def countGlobalSuperAdmins_def isGlobalSuperAdminRow_def
    activeUser_def)

lemma reachableAdmin_ok: "reachableAdmin s \<Longrightarrow> adminOk s"
  unfolding reachableAdmin_def by (auto elim!: serial_invariant intro: freshInstall_ok adminRequests_keep)

section \<open>Properties\<close>

lemma adminOk_holder:
  assumes ok: "adminOk s"
  shows "\<exists>r \<in> set (udRoles s). rrRole r = SUPER_ADMIN \<and> rrScope r = \<lparr>scScopeType = None, scScopeId = None\<rparr> \<and>
    (\<exists>u \<in> set (udUsers s). usId u = rrUserId r \<and> usStatus u = ACTIVE \<and> \<not> usDeleted u)"
proof -
  from ok have "filter (counted s) (udRoles s) \<noteq> []" by (auto simp: adminOk_def count_counted)
  then obtain r where r: "r \<in> set (udRoles s)" "counted s r" by (auto simp: filter_empty_conv)
  then have "scScopeType (rrScope r) = None" by (simp add: counted_def isGlobalSuperAdminRow_def)
  moreover from this have "scScopeId (rrScope r) = None" using ok r(1) by (simp add: adminOk_def rolesOk_def)
  ultimately show ?thesis using r
    by (intro bexI[of _ r]) (auto simp: counted_def isGlobalSuperAdminRow_def activeUser_def)
qed

text \<open>
  The cache of assignments never serves a revoked role while requests do not overlap: every cached assignment of a
  user is one of the rows the user holds at that moment.
\<close>
theorem cache_never_outlives_roles:
  assumes "reachableAdmin s" "udCache s u = Some rows" "v \<in> set rows"
  shows "\<exists>r \<in> set (udRoles s). rrUserId r = u \<and> toAssignmentView r = v"
  using reachableAdmin_ok[OF assms(1)] assms(2,3) by (fastforce simp: adminOk_def cacheOk_def rolesOfUser_def)

text \<open>The super administrators whose assignment is still valid.\<close>

definition validSuperAdmins :: "int \<Rightarrow> UserDb \<Rightarrow> RoleRow list" where
  "validSuperAdmins now s = filter (\<lambda>r. isGlobalSuperAdminRow r \<and> activeUser s (rrUserId r) \<and>
     (case rrExpiresAt r of None \<Rightarrow> True | Some t \<Rightarrow> t > now)) (udRoles s)"

text \<open>
  A run that locks everybody out: \<^verbatim>\<open>b\<close> becomes super administrator until time 10, and at
  time 20 \<^verbatim>\<open>a\<close> gives up the role, which is allowed because the expired row is counted.
\<close>

definition superAdminActor :: "string \<Rightarrow> Actor" where
  "superAdminActor u = \<lparr>acUserId = u, acAssignments = toDomainAssignments (findActiveAssignments (freshInstall u) u 5)\<rparr>"

definition adminRun :: "'a adminRequest \<Rightarrow> UserDb \<Rightarrow> UserDb" where
  "adminRun p s = snd (runAlone (voidR p) s)"

definition lock2 :: "int option \<Rightarrow> UserDb" where
  "lock2 e = adminRun (grantEndpoint (superAdminActor ''a'') 5 ''b'' SUPER_ADMIN \<lparr>scScopeType = None, scScopeId = None\<rparr> e
       ''stand-in for a week'')
     (adminRun (setStatusEndpoint (superAdminActor ''a'') 5 ''b'' ACTIVE ''email checked'')
       (adminRun (registerAccount ''b'') (freshInstall ''a'')))"

definition giveUp :: "string \<Rightarrow> nat \<Rightarrow> unit adminRequest" where
  "giveUp u i = revokeEndpoint (superAdminActor u) 20 i ''role no longer needed''"

definition lock3 :: UserDb where
  "lock3 = adminRun (giveUp ''a'' 0) (lock2 (Some 10))"

lemma lock3_counts:
  "(length (validSuperAdmins 20 (lock2 (Some 10))), countGlobalSuperAdmins lock3, length (validSuperAdmins 20 lock3)) = (1, 1, 0)"
  by code_simp

lemma adminRun_reachable: "reachableAdmin s \<Longrightarrow> voidR p \<in> adminRequests \<Longrightarrow> reachableAdmin (adminRun p s)"
  unfolding reachableAdmin_def adminRun_def by (blast intro: serialNext)

lemma freshInstall_reachable: "reachableAdmin (freshInstall a)"
  unfolding reachableAdmin_def by (blast intro: serialStart)

lemma lock2_reachable: "reachableAdmin (lock2 e)"
  unfolding lock2_def by (intro adminRun_reachable freshInstall_reachable adminRequests.intros)

lemma lock3_reachable: "reachableAdmin lock3"
  unfolding lock3_def giveUp_def by (intro adminRun_reachable lock2_reachable adminRequests.intros)

text \<open>
  The protection counts rows, not valid ones: a reachable state exists in which nobody's
  super administrator role is valid any more, although the counted number is still one.
\<close>
theorem expired_role_can_lock_out:
  "\<exists>s now. reachableAdmin s \<and> countGlobalSuperAdmins s = 1 \<and> validSuperAdmins now s = []"
  using lock3_reachable lock3_counts by (intro exI[of _ lock3] exI[of _ 20]) simp

text \<open>
  Two super administrators who give up their roles at the same time: both are counted before either row is deleted.
\<close>

definition bothGiveUp :: "UserDb \<times> (UserDb, DbFailure DomainError + unit) request list" where
  "bothGiveUp = schedule [0, 0, 1, 1, 0, 0, 1, 1] (lock2 None, [voidR (giveUp ''a'' 0), voidR (giveUp ''b'' 1)])"

lemma bothGiveUp_value: "(udRoles (fst bothGiveUp), repliesOf (snd bothGiveUp)) = ([], [Some (Inr ()), Some (Inr ())])"
  by code_simp

lemma bothGiveUp_at_once: "interleaved adminRequests (lock2 None) (fst bothGiveUp) (snd bothGiveUp)"
  unfolding bothGiveUp_def giveUp_def by (intro interleaved_scheduled) (simp only: list.set insert_subset empty_subsetI adminRequests.intros simp_thms)

lemma lock2_count: "countGlobalSuperAdmins (lock2 None) = 2"
  by code_simp

text \<open>
  C4. The last super administrator is protected only while requests do not overlap. As long as each request is answered
  before the next is taken up, an active, undeleted account holds the super administrator role without a scope, whatever
  the requests and their actors (the assignment may have expired: the code counts rows, not valid ones). With requests
  at the same time it can be lost: from a state reached that way, with two super administrators, both give up their role
  at once, both requests succeed, and no role is left in the table.
\<close>
theorem super_admin_kept_without_overlap:
  "(\<forall>s. reachableAdmin s \<longrightarrow> (\<exists>r \<in> set (udRoles s). rrRole r = SUPER_ADMIN \<and>
       rrScope r = \<lparr>scScopeType = None, scScopeId = None\<rparr> \<and>
       (\<exists>u \<in> set (udUsers s). usId u = rrUserId r \<and> usStatus u = ACTIVE \<and> \<not> usDeleted u))) \<and>
   (\<exists>s t ps. reachableAdmin s \<and> countGlobalSuperAdmins s = 2 \<and> interleaved adminRequests s t ps \<and>
       repliesOf ps = [Some (Inr ()), Some (Inr ())] \<and> udRoles t = [])"
proof (intro conjI allI impI)
  show "\<exists>s t ps. reachableAdmin s \<and> countGlobalSuperAdmins s = 2 \<and> interleaved adminRequests s t ps \<and>
       repliesOf ps = [Some (Inr ()), Some (Inr ())] \<and> udRoles t = []"
    by (intro exI[of _ "lock2 None"] exI[of _ "fst bothGiveUp"] exI[of _ "snd bothGiveUp"])
      (use bothGiveUp_value in \<open>simp add: lock2_reachable bothGiveUp_at_once lock2_count\<close>)
qed (intro adminOk_holder reachableAdmin_ok)

theorem super_admin_kept_without_overlap_witness: "\<exists>r \<in> set (udRoles lock3). rrRole r = SUPER_ADMIN"
  using super_admin_kept_without_overlap lock3_reachable by blast

text \<open>
  The cache can serve a revoked role for its minute: the assignments are read, the role is revoked and the entry
  dropped, and then the assignments read before are stored.
\<close>

definition staleCache :: "UserDb \<times> (UserDb, DbFailure DomainError + unit) request list" where
  "staleCache = schedule [0, 0, 1, 1, 1, 1, 0] (lock2 None, [voidR (getAssignments ''b'' 5), voidR (giveUp ''b'' 1)])"

lemma cache_may_outlive_roles:
  "(map avRole (the (udCache (fst staleCache) ''b'')), rolesOfUser (fst staleCache) ''b'') = ([SUPER_ADMIN], [])"
  by code_simp

text \<open>
  Reading is not restricted to global rights: the administrator of any one federation is
  shown every account of the platform with its roles.
\<close>
theorem federation_admin_reads_every_account:
  assumes "findUser s u = Some row"
  shows "fst (runAlone (getByIdEndpoint \<lparr>acUserId = f, acAssignments = toDomainAssignments
     [\<lparr>avRole = FEDERATION_ADMIN, avScopeType = Some ''FEDERATION'', avScopeId = Some i\<rparr>]\<rparr> now u) s)
   = Inr (row, rolesOfUser s u)"
proof -
  have "findGrant \<lparr>asRole = FEDERATION_ADMIN, asScope = sc, asValidUntil = None\<rparr> User = Some (grant User [Read])" for sc
    by (simp add: findGrant_def FEDERATION_ADMIN_grants_def grant_def R'_def)
  then have "can \<lparr>acUserId = f, acAssignments = toDomainAssignments
     [\<lparr>avRole = FEDERATION_ADMIN, avScopeType = Some ''FEDERATION'', avScopeId = Some i\<rparr>]\<rparr> Read (noRef User) now"
    by (simp add: can_def toDomainAssignments_def expired_def noRef_def grant_def)
  then show ?thesis using assms by (simp add: getByIdEndpoint_def getById_def findById_def assertGlobal_def run_alone bindS_def)
qed

theorem cache_never_outlives_roles_witness:
  "\<exists>r \<in> set (udRoles (freshInstall ''a'')). rrUserId r = ''a'' \<and>
     toAssignmentView r = \<lparr>avRole = SUPER_ADMIN, avScopeType = None, avScopeId = None\<rparr>"
proof -
  let ?v = "\<lparr>avRole = SUPER_ADMIN, avScopeType = None, avScopeId = None\<rparr>"
  let ?s = "adminRun (getAssignments ''a'' 0) (freshInstall ''a'')"
  have r: "reachableAdmin ?s" by (intro adminRun_reachable freshInstall_reachable adminRequests.intros)
  have c: "udCache ?s ''a'' = Some [?v]" and rows: "udRoles ?s = udRoles (freshInstall ''a'')"
    by (simp_all add: adminRun_def runAlone_void getAssignments_def run_alone bindS_def freshInstall_def findActiveAssignments_def toAssignmentView_def)
  show ?thesis using cache_never_outlives_roles[OF r c, of ?v] unfolding rows by simp
qed

theorem federation_admin_reads_every_account_witness:
  "\<exists>row. fst (runAlone (getByIdEndpoint \<lparr>acUserId = ''f'', acAssignments = toDomainAssignments
     [\<lparr>avRole = FEDERATION_ADMIN, avScopeType = Some ''FEDERATION'', avScopeId = Some ''uz''\<rparr>]\<rparr> 0 ''a'') (freshInstall ''a''))
   = Inr row"
proof -
  have "findUser (freshInstall ''a'') ''a'' = Some \<lparr>usId = ''a'', usStatus = ACTIVE, usDeleted = False\<rparr>"
    by (simp add: findUser_def freshInstall_def)
  from federation_admin_reads_every_account[OF this] show ?thesis by blast
qed

end
