(* ===== verification/InvoiceNumber.thy ===== *)
theory InvoiceNumber
  imports Prelude
begin

text \<open>
  Invoice numbers \<^verbatim>\<open>FRZ-YYYY-NNNNNN\<close>: \<^verbatim>\<open>src/modules/billing/invoice-number.ts\<close>. The lemmas
  show that printing and reading are inverse and that the textual order the database uses
  for the last number of a year is the order of the sequence numbers.
\<close>

section \<open>Operations\<close>

definition padStart :: "string \<Rightarrow> nat \<Rightarrow> char \<Rightarrow> string" where
  "padStart s n c = replicate (n - length s) c @ s"

text \<open>\<^verbatim>\<open>Inl\<close> is the \<^verbatim>\<open>RangeError\<close>, with the value refused.\<close>

definition formatInvoiceNumber :: "int \<Rightarrow> int \<Rightarrow> int + string" where
  "formatInvoiceNumber year sequence =
     (if year < 2000 \<or> year > 9999 then Inl year
      else if sequence < 1 \<or> sequence > 999999 then Inl sequence
      else Inr (''FRZ-'' @ showInt year @ ''-'' @ padStart (showInt sequence) 6 CHR ''0''))"

definition isDigit :: "char \<Rightarrow> bool" where
  "isDigit c \<longleftrightarrow> digitOf c \<noteq> None"

text \<open>The match of \<^verbatim>\<open>/^FRZ-(\d{4})-(\d{6})$/\<close>: the second group.\<close>

definition matchInvoice :: "string \<Rightarrow> string option" where
  "matchInvoice s =
     (if length s = 15 \<and> take 4 s = ''FRZ-'' \<and> list_all isDigit (take 4 (drop 4 s)) \<and> s ! 8 = CHR ''-''
         \<and> list_all isDigit (drop 9 s)
      then Some (drop 9 s) else None)"

definition parseInvoiceSequence :: "string \<Rightarrow> int option" where
  "parseInvoiceSequence number =
     (case matchInvoice number of
        None \<Rightarrow> None
      | Some part \<Rightarrow> map_option int (readDigits 0 part))"

definition nextInvoiceSequence :: "string option \<Rightarrow> int" where
  "nextInvoiceSequence lastNumber =
     (case lastNumber of
        None \<Rightarrow> 1
      | Some n \<Rightarrow> (case parseInvoiceSequence n of None \<Rightarrow> 1 | Some k \<Rightarrow> k + 1))"

definition yearPrefix :: "int \<Rightarrow> string" where
  "yearPrefix year = ''FRZ-'' @ showInt year @ ''-''"

definition startsWith :: "string \<Rightarrow> string \<Rightarrow> bool" where
  "startsWith s p \<longleftrightarrow> take (length p) s = p"

text \<open>
  \<^verbatim>\<open>ORDER BY number DESC\<close>, first row: the greatest text. The order is by character codes;
  on these numbers every collation that sorts the digits does the same.
\<close>

fun codeLe :: "string \<Rightarrow> string \<Rightarrow> bool" where
  "codeLe [] ds = True"
| "codeLe (c # cs) [] = False"
| "codeLe (c # cs) (d # ds) =
     ((of_char c :: nat) < of_char d \<or> c = d \<and> codeLe cs ds)"

fun greatestText :: "string list \<Rightarrow> string option" where
  "greatestText [] = None"
| "greatestText (x # xs) =
     (case greatestText xs of None \<Rightarrow> Some x | Some y \<Rightarrow> Some (if codeLe x y then y else x))"

section \<open>Printing digits\<close>

lemma isDigit_digitChar: "d < 10 \<Longrightarrow> isDigit (digitChar d)"
  by (simp add: isDigit_def digitOf_digitChar)

lemma digits_showNat: "list_all isDigit (showNat n)"
proof (induction n rule: showNat.induct)
  case (1 n)
  then show ?case by (subst showNat.simps) (simp add: isDigit_digitChar)
qed

lemma length_showNat_le: "n < 10 ^ k \<Longrightarrow> 0 < k \<Longrightarrow> length (showNat n) \<le> k"
proof (induction n arbitrary: k rule: showNat.induct)
  case (1 n)
  show ?case
  proof (cases "n < 10")
    case True
    then show ?thesis using 1(3) by (subst showNat.simps) simp
  next
    case False
    obtain j where j: "k = Suc j" using 1(3) by (cases k) auto
    have jp: "0 < j" using False 1(2) j by (cases j) auto
    have "n div 10 < 10 ^ j" using 1(2) j by (simp add: less_mult_imp_div_less)
    from 1(1)[OF False this jp] False j show ?thesis by (subst showNat.simps) simp
  qed
qed

lemma length_showNat_ge: "10 ^ k \<le> n \<Longrightarrow> Suc k \<le> length (showNat n)"
proof (induction n arbitrary: k rule: showNat.induct)
  case (1 n)
  show ?case
  proof (cases k)
    case 0
    then show ?thesis by (simp add: Suc_le_eq)
  next
    case (Suc j)
    have "10 * 10 ^ j \<le> n" and "1 \<le> (10 :: nat) ^ j" using 1(2) Suc by simp_all
    then have ge: "\<not> n < 10" by linarith
    have "10 ^ j \<le> n div 10" using 1(2) Suc by (simp add: less_eq_div_iff_mult_less_eq mult.commute)
    from 1(1)[OF ge this] ge Suc show ?thesis by (subst showNat.simps) simp
  qed
qed

lemma length_padStart: "length s \<le> n \<Longrightarrow> length (padStart s n c) = n"
  by (simp add: padStart_def)

lemma readDigits_zeros: "readDigits 0 (replicate n CHR ''0'' @ s) = readDigits 0 s"
proof (induction n)
  case (Suc n)
  have "digitOf (CHR ''0'') = Some 0" by code_simp
  with Suc show ?case by simp
qed simp

lemma readDigits_padStart: "readDigits 0 (padStart (showNat n) k CHR ''0'') = Some n"
  by (simp add: padStart_def readDigits_zeros readDigits_showNat)

lemma digits_padStart: "list_all isDigit (padStart (showNat n) k CHR ''0'')"
proof -
  have "isDigit (CHR ''0'')" by code_simp
  then have "list_all isDigit (replicate m CHR ''0'')" for m by (induction m) auto
  then show ?thesis by (simp add: padStart_def digits_showNat)
qed

section \<open>The text of a number\<close>

definition invoiceText :: "int \<Rightarrow> int \<Rightarrow> string" where
  "invoiceText year sequence = yearPrefix year @ padStart (showInt sequence) 6 CHR ''0''"

lemma formatInvoiceNumber_eq:
  "formatInvoiceNumber y n = (if y < 2000 \<or> y > 9999 then Inl y else if n < 1 \<or> n > 999999 then Inl n
     else Inr (invoiceText y n))"
  by (simp add: formatInvoiceNumber_def invoiceText_def yearPrefix_def)

lemma showInt_nonneg: "0 \<le> i \<Longrightarrow> showInt i = showNat (nat i)"
  by (simp add: showInt_def)

lemma length_year: "2000 \<le> y \<Longrightarrow> y \<le> 9999 \<Longrightarrow> length (showInt y) = 4"
proof -
  assume y: "2000 \<le> y" "y \<le> 9999"
  then have "nat y < 10000" "1000 \<le> nat y" by linarith+
  then show ?thesis
    using length_showNat_le[of "nat y" 4] length_showNat_ge[of 3 "nat y"] y by (simp add: showInt_nonneg)
qed

lemma length_yearPrefix: "2000 \<le> y \<Longrightarrow> y \<le> 9999 \<Longrightarrow> length (yearPrefix y) = 9"
  by (simp add: yearPrefix_def length_year)

lemma length_sequence: "1 \<le> n \<Longrightarrow> n \<le> 999999 \<Longrightarrow> length (padStart (showInt n) 6 CHR ''0'') = 6"
  using length_showNat_le[of "nat n" 6] by (simp add: showInt_nonneg length_padStart)

lemma parse_invoiceText:
  assumes "2000 \<le> y" "y \<le> 9999" "1 \<le> n" "n \<le> 999999"
  shows "parseInvoiceSequence (invoiceText y n) = Some n"
proof -
  let ?p = "padStart (showInt n) 6 CHR ''0''"
  have s: "invoiceText y n = ''FRZ-'' @ showInt y @ ''-'' @ ?p" by (simp add: invoiceText_def yearPrefix_def)
  have len: "length (showInt y) = 4" "length ?p = 6" using assms by (simp_all add: length_year length_sequence)
  have dig: "list_all isDigit (showInt y)" "list_all isDigit ?p"
    using assms digits_showNat digits_padStart by (simp_all add: showInt_nonneg)
  have at8: "invoiceText y n ! 8 = CHR ''-''" by (simp add: s nth_append len)
  have d9: "drop 9 (invoiceText y n) = ?p" by (simp add: s len)
  have d4: "take 4 (drop 4 (invoiceText y n)) = showInt y" by (simp add: s len)
  have m: "matchInvoice (invoiceText y n) = Some ?p"
    unfolding matchInvoice_def d9 d4 at8 using dig len by (simp add: s)
  have "readDigits 0 ?p = Some (nat n)"
    using assms readDigits_padStart[of "nat n" 6] by (simp add: showInt_nonneg)
  with m show ?thesis using assms by (simp add: parseInvoiceSequence_def)
qed

lemma startsWith_invoiceText:
  assumes "2000 \<le> y" "y \<le> 9999" "2000 \<le> z" "z \<le> 9999"
  shows "startsWith (invoiceText y n) (yearPrefix z) \<longleftrightarrow> y = z"
proof -
  have "length (yearPrefix y) = length (yearPrefix z)" using assms by (simp add: length_yearPrefix)
  moreover have "yearPrefix y = yearPrefix z \<longleftrightarrow> y = z"
    by (simp add: yearPrefix_def)
  ultimately show ?thesis by (simp add: startsWith_def invoiceText_def)
qed

lemma invoiceText_inject:
  assumes "2000 \<le> y" "y \<le> 9999" "1 \<le> n" "n \<le> 999999" "2000 \<le> z" "z \<le> 9999" "1 \<le> m" "m \<le> 999999"
  shows "invoiceText y n = invoiceText z m \<longleftrightarrow> y = z \<and> n = m"
proof
  assume eq: "invoiceText y n = invoiceText z m"
  have "Some n = Some m" using parse_invoiceText[OF assms(1-4)] parse_invoiceText[OF assms(5-8)] eq by simp
  moreover have "y = z"
    using startsWith_invoiceText[of y y n] startsWith_invoiceText[of z y m] eq assms by auto
  ultimately show "y = z \<and> n = m" by simp
qed simp

section \<open>Textual and numerical order\<close>

lemma codeLe_refl: "codeLe s s"
  by (induction s) auto

lemma codeLe_total: "codeLe s t \<or> codeLe t s"
  by (induction s t rule: codeLe.induct) auto

lemma codeLe_trans: "codeLe a b \<Longrightarrow> codeLe b c \<Longrightarrow> codeLe a c"
proof (induction a b arbitrary: c rule: codeLe.induct)
  case (3 x xs y ys)
  then show ?case by (cases c) auto
qed auto

lemma codeLe_prefix: "codeLe (p @ s) (p @ t) \<longleftrightarrow> codeLe s t"
  by (induction p) auto

lemma readDigits_bound: "readDigits acc s = Some n \<Longrightarrow> acc * 10 ^ length s \<le> n \<and> n < (acc + 1) * 10 ^ length s"
proof (induction acc s arbitrary: n rule: readDigits.induct)
  case (2 acc c cs)
  obtain d where d: "digitOf c = Some d" "readDigits (10 * acc + d) cs = Some n"
    using 2(2) by (auto split: option.splits)
  have "d < 10" using d(1) by (auto simp: digitOf_def Let_def split: if_splits)
  have IH: "(10 * acc + d) * 10 ^ length cs \<le> n" "n < (10 * acc + d + 1) * 10 ^ length cs"
    using 2(1)[OF d] by auto
  have lo: "acc * (10 * 10 ^ length cs) \<le> n"
  proof -
    have "acc * (10 * 10 ^ length cs) = (10 * acc) * 10 ^ length cs" by simp
    also have "\<dots> \<le> (10 * acc + d) * 10 ^ length cs" by (rule mult_right_mono) auto
    finally show ?thesis using IH(1) by linarith
  qed
  have hi: "n < (acc + 1) * (10 * 10 ^ length cs)"
  proof -
    have "(10 * acc + d + 1) * 10 ^ length cs \<le> (10 * (acc + 1)) * 10 ^ length cs"
      using \<open>d < 10\<close> by (intro mult_right_mono) auto
    also have "\<dots> = (acc + 1) * (10 * 10 ^ length cs)" by (simp only: mult.assoc mult.left_commute)
    finally show ?thesis using IH(2) by linarith
  qed
  from lo hi show ?case by simp
qed simp

lemma readDigits_mono:
  "length s = length t \<Longrightarrow> readDigits acc s = Some n \<Longrightarrow> readDigits acc t = Some m \<Longrightarrow> codeLe s t \<longleftrightarrow> n \<le> m"
proof (induction s t arbitrary: acc rule: codeLe.induct)
  case (3 c cs d ds)
  obtain a b where a: "digitOf c = Some a" "readDigits (10 * acc + a) cs = Some n"
    and b: "digitOf d = Some b" "readDigits (10 * acc + b) ds = Some m"
    using 3(3,4) by (auto split: option.splits)
  have codes: "of_char c = 48 + a" "of_char d = 48 + b"
    using a(1) b(1) by (auto simp: digitOf_def Let_def split: if_splits)
  have len: "length cs = length ds" using 3(2) by simp
  consider "a < b" | "a = b" | "b < a" by linarith
  then show ?case
  proof cases
    case 1
    have "n < (10 * acc + a + 1) * 10 ^ length cs" using readDigits_bound[OF a(2)] by simp
    also have "\<dots> \<le> (10 * acc + b) * 10 ^ length ds" unfolding len using 1 by (intro mult_right_mono) auto
    also have "\<dots> \<le> m" using readDigits_bound[OF b(2)] by simp
    finally show ?thesis using codes 1 by simp
  next
    case 2
    then have "(of_char c :: nat) = of_char d" using codes by simp
    then have "c = d" by simp
    with 2 show ?thesis using 3(1)[OF len a(2), of] b(2) codes by simp
  next
    case 3
    have "m < (10 * acc + b + 1) * 10 ^ length ds" using readDigits_bound[OF b(2)] by simp
    also have "\<dots> \<le> (10 * acc + a) * 10 ^ length cs" unfolding len using 3 by (intro mult_right_mono) auto
    also have "\<dots> \<le> n" using readDigits_bound[OF a(2)] by simp
    finally show ?thesis using codes 3 by auto
  qed
qed auto

lemma codeLe_invoiceText:
  assumes "1 \<le> n" "n \<le> 999999" "1 \<le> m" "m \<le> 999999"
  shows "codeLe (invoiceText y n) (invoiceText y m) \<longleftrightarrow> n \<le> m"
proof -
  have "readDigits 0 (padStart (showInt k) 6 CHR ''0'') = Some (nat k)" if "1 \<le> k" for k
    using that readDigits_padStart[of "nat k" 6] by (simp add: showInt_nonneg)
  from readDigits_mono[OF _ this[OF assms(1)] this[OF assms(3)]] show ?thesis
    using assms by (simp add: invoiceText_def codeLe_prefix length_sequence nat_le_eq_zle)
qed

lemma greatestText_None [simp]: "greatestText xs = None \<longleftrightarrow> xs = []"
  by (cases xs) (auto split: option.splits)

lemma greatestText_SomeD: "greatestText xs = Some x \<Longrightarrow> x \<in> set xs \<and> (\<forall>y \<in> set xs. codeLe y x)"
proof (induction xs arbitrary: x)
  case (Cons a xs)
  show ?case
  proof (cases "greatestText xs")
    case None
    with Cons.prems show ?thesis by (simp add: codeLe_refl)
  next
    case (Some b)
    then have b: "b \<in> set xs" "\<forall>y \<in> set xs. codeLe y b" using Cons.IH by auto
    show ?thesis
    proof (cases "codeLe a b")
      case True
      then show ?thesis using Cons.prems Some b by auto
    next
      case False
      then have "codeLe b a" using codeLe_total by blast
      then show ?thesis using Cons.prems Some False b codeLe_trans codeLe_refl by (auto simp: codeLe_refl)
    qed
  qed
qed simp

end
