(* ===== verification/Billing.thy ===== *)
theory Billing
  imports Service Ledger Rbac InvoiceNumber
begin

text \<open>
  Invoices and payments, \<^verbatim>\<open>src/modules/billing/\<close>: the tables, the repository
  (\<^verbatim>\<open>billing.repository.ts\<close>), the providers (\<^verbatim>\<open>payment-provider.port.ts\<close>,
  \<^verbatim>\<open>providers/\<close>), the service (\<^verbatim>\<open>billing.service.ts\<close>) and the guards of the
  controller. Amounts are tiyin; the rows of the API carry their decimal text, from which
  the service reads the same number back. Row identifiers come from one growing counter,
  as the time-ordered identifiers of the database do.
\<close>

section \<open>Statuses\<close>

datatype PaymentStatusValue =
  CREATED | PENDING | PAID | FAILED | EXPIRED | CANCELLED | REFUND_REQUESTED | REFUNDED

fun TRANSITIONS :: "PaymentStatusValue \<Rightarrow> PaymentStatusValue list" where
  "TRANSITIONS CREATED = [PENDING, PAID, CANCELLED, EXPIRED]"
| "TRANSITIONS PENDING = [PAID, FAILED, EXPIRED, CANCELLED]"
| "TRANSITIONS PAID = [REFUND_REQUESTED]"
| "TRANSITIONS REFUND_REQUESTED = [REFUNDED, PAID]"
| "TRANSITIONS FAILED = []"
| "TRANSITIONS EXPIRED = []"
| "TRANSITIONS CANCELLED = []"
| "TRANSITIONS REFUNDED = []"

definition canTransitionPayment :: "PaymentStatusValue \<Rightarrow> PaymentStatusValue \<Rightarrow> bool" where
  "canTransitionPayment frm to \<longleftrightarrow> to \<in> set (TRANSITIONS frm)"

section \<open>Tables\<close>

record InvoiceRow =
  invId :: nat
  invNumber :: string
  invUserId :: "string option"
  invSubscriptionId :: "string option"
  invTournamentId :: "string option"
  invSubtotalAmount :: int
  invTaxAmount :: int
  invTotalAmount :: int
  invCurrency :: string
  invStatus :: PaymentStatusValue
  invDueAt :: "int option"
  invPaidAt :: "int option"
  invCreatedAt :: int

record PaymentRow =
  payId :: nat
  payInvoiceId :: nat
  payProvider :: LedgerPaymentProvider
  payStatus :: PaymentStatusValue
  payAmount :: int
  payCurrency :: string
  payProviderTransactionId :: "string option"
  payIdempotencyKey :: string
  payFailureReason :: "string option"
  payPaidAt :: "int option"
  payRefundedAt :: "int option"
  payCreatedAt :: int

record LedgerRow =
  lrTransactionId :: nat
  lrPaymentId :: nat
  lrEntry :: LedgerEntryInput
  lrCurrency :: string
  lrDescription :: string

text \<open>A registration with the fee and the organisation of its tournament.\<close>

record BillingRegistration =
  brId :: string
  brPlayerId :: string
  brIsConfirmed :: bool
  brIsWithdrawn :: bool
  brInvoiceId :: "nat option"
  brTournamentId :: string
  brEntryFeeAmount :: "int option"
  brEntryFeeCurrency :: string
  brClubId :: "string option"
  brRegionId :: "string option"
  brFederationId :: "string option"

datatype OutboxEventType = PaymentCompleted | RefundIssued

datatype PaymentMetric =
    PaymentAttempt LedgerPaymentProvider
  | PaymentFailure LedgerPaymentProvider string
  | LedgerImbalanceGauge int

record BillingDb =
  bdInvoices :: "InvoiceRow list"
  bdPayments :: "PaymentRow list"
  bdLedger :: "LedgerRow list"
  bdRegistrations :: "BillingRegistration list"
  bdAudit :: "AuditRow list"
  bdOutbox :: "(OutboxEventType \<times> nat) list"
  bdMetrics :: "PaymentMetric list"
  bdNextId :: nat

text \<open>What else may be thrown than the errors of the domain.\<close>

datatype BillingFault =
    LedgerError LedgerImbalanceError
  | RangeError int
  | UniqueViolation string
  | RecordNotFound
  | BadRequest string
  | ProviderFault

type_synonym BillingError = "BillingFault DomainError"
type_synonym 'a billing = "(BillingFault, BillingDb, 'a) action"

text \<open>A part of the program without effects inside service code.\<close>

definition liftE :: "('e \<Rightarrow> 'x DomainError) \<Rightarrow> 'e + 'a \<Rightarrow> ('x, 's, 'a) action" where
  "liftE f r = (case r of Inl e \<Rightarrow> throwS (f e) | Inr x \<Rightarrow> returnS x)"

definition freshId :: "nat billing" where
  "freshId = bindS (getS bdNextId) (\<lambda>i. bindS (putS (\<lambda>s. s\<lparr>bdNextId := Suc i\<rparr>)) (\<lambda>_. returnS i))"

definition billingAudit :: "AuditRow \<Rightarrow> unit billing" where
  "billingAudit = auditWriteTo bdAudit_update"

definition enqueue :: "OutboxEventType \<Rightarrow> nat \<Rightarrow> unit billing" where
  "enqueue ev i = putS (\<lambda>s. s\<lparr>bdOutbox := bdOutbox s @ [(ev, i)]\<rparr>)"

definition metric :: "PaymentMetric \<Rightarrow> unit billing" where
  "metric m = putS (\<lambda>s. s\<lparr>bdMetrics := bdMetrics s @ [m]\<rparr>)"

definition assertPaymentTransition :: "PaymentStatusValue \<Rightarrow> PaymentStatusValue \<Rightarrow> unit billing" where
  "assertPaymentTransition frm to =
     guardS (\<not> canTransitionPayment frm to) (BusinessRuleError ''ILLEGAL_PAYMENT_TRANSITION'')"

definition assertRefundPath :: "PaymentStatusValue \<Rightarrow> unit billing" where
  "assertRefundPath frm =
     bindS (assertPaymentTransition frm REFUND_REQUESTED) (\<lambda>_. assertPaymentTransition REFUND_REQUESTED REFUNDED)"

section \<open>Reads\<close>

definition findInvoiceById :: "nat \<Rightarrow> BillingDb \<Rightarrow> InvoiceRow option" where
  "findInvoiceById i s = find (\<lambda>r. invId r = i) (bdInvoices s)"

definition findPaymentById :: "nat \<Rightarrow> BillingDb \<Rightarrow> PaymentRow option" where
  "findPaymentById i s = find (\<lambda>p. payId p = i) (bdPayments s)"

definition findPaymentByIdempotencyKey :: "string \<Rightarrow> BillingDb \<Rightarrow> PaymentRow option" where
  "findPaymentByIdempotencyKey k s = find (\<lambda>p. payIdempotencyKey p = k) (bdPayments s)"

definition findPaymentByProviderTx :: "LedgerPaymentProvider \<Rightarrow> string \<Rightarrow> BillingDb \<Rightarrow> PaymentRow option" where
  "findPaymentByProviderTx prov ref s =
     find (\<lambda>p. payProvider p = prov \<and> payProviderTransactionId p = Some ref) (bdPayments s)"

definition findRegistrationBilling :: "string \<Rightarrow> BillingDb \<Rightarrow> BillingRegistration option" where
  "findRegistrationBilling i s = find (\<lambda>r. brId r = i) (bdRegistrations s)"

definition listInvoicesForUser :: "string \<Rightarrow> nat \<Rightarrow> nat option \<Rightarrow> BillingDb \<Rightarrow> InvoiceRow list" where
  "listInvoicesForUser userId n afterId s = take (n + 1) (sort_key invId
     (filter (\<lambda>r. invUserId r = Some userId \<and> (case afterId of None \<Rightarrow> True | Some a \<Rightarrow> a < invId r)) (bdInvoices s)))"

definition lastNumberOf :: "int \<Rightarrow> BillingDb \<Rightarrow> string option" where
  "lastNumberOf year s = greatestText (filter (\<lambda>n. startsWith n (yearPrefix year)) (map invNumber (bdInvoices s)))"

section \<open>Creating an invoice\<close>

record CreateInvoiceInput =
  ciUserId :: string
  ciTournamentId :: string
  ciRegistrationId :: string
  ciSubtotalTiyin :: int
  ciTaxTiyin :: int
  ciTotalTiyin :: int
  ciCurrency :: string
  ciActorUserId :: string

definition insertInvoice :: "InvoiceRow \<Rightarrow> unit billing" where
  "insertInvoice r = bindS (getS bdInvoices) (\<lambda>rows.
     bindS (guardS (invNumber r \<in> invNumber ` set rows) (OtherError (UniqueViolation ''Invoice.number''))) (\<lambda>_.
     putS (\<lambda>s. s\<lparr>bdInvoices := bdInvoices s @ [r]\<rparr>)))"

definition linkRegistration :: "string \<Rightarrow> nat \<Rightarrow> unit billing" where
  "linkRegistration regId i = bindS (getS (findRegistrationBilling regId)) (\<lambda>r.
     bindS (guardS (r = None) (OtherError RecordNotFound)) (\<lambda>_.
     putS (\<lambda>s. s\<lparr>bdRegistrations := map (\<lambda>r. if brId r = regId then r\<lparr>brInvoiceId := Some i\<rparr> else r)
       (bdRegistrations s)\<rparr>)))"

text \<open>
  One attempt. \<open>seen\<close> is the result of its first query; when other transactions commit in
  between, it need not be the last number any more.
\<close>

definition createInvoiceAttempt :: "CreateInvoiceInput \<Rightarrow> int \<Rightarrow> int \<Rightarrow> string option \<Rightarrow> InvoiceRow billing" where
  "createInvoiceAttempt inp year now seen = transaction (
     bindS (liftE (\<lambda>n. OtherError (RangeError n)) (formatInvoiceNumber year (nextInvoiceSequence seen))) (\<lambda>number.
     bindS freshId (\<lambda>i.
     let row = \<lparr>invId = i, invNumber = number, invUserId = Some (ciUserId inp), invSubscriptionId = None,
       invTournamentId = Some (ciTournamentId inp), invSubtotalAmount = ciSubtotalTiyin inp,
       invTaxAmount = ciTaxTiyin inp, invTotalAmount = ciTotalTiyin inp, invCurrency = ciCurrency inp,
       invStatus = CREATED, invDueAt = None, invPaidAt = None, invCreatedAt = now\<rparr>
     in bindS (insertInvoice row) (\<lambda>_.
     bindS (linkRegistration (ciRegistrationId inp) i) (\<lambda>_.
     bindS (billingAudit (auditOf ''invoice.created'' (ciActorUserId inp) (showNat i) '''' number None)) (\<lambda>_.
     returnS row))))))"

definition MAX_ATTEMPTS :: nat where
  "MAX_ATTEMPTS = 3"

definition isUniqueViolation :: "BillingError \<Rightarrow> bool" where
  "isUniqueViolation e = (case e of OtherError (UniqueViolation _) \<Rightarrow> True | _ \<Rightarrow> False)"

text \<open>
  The attempts left, each with the year it reads off the clock and the number its query
  returns. Running out of the list is the end of the \<^verbatim>\<open>for\<close> loop.
\<close>

fun createInvoiceLoop :: "CreateInvoiceInput \<Rightarrow> int \<Rightarrow> (int \<times> (BillingDb \<Rightarrow> string option)) list \<Rightarrow> InvoiceRow billing" where
  "createInvoiceLoop inp now [] = throwS (ConflictError ''INVOICE_NUMBER'')"
| "createInvoiceLoop inp now ((year, query) # rest) = (\<lambda>s.
     case createInvoiceAttempt inp year now (query s) s of
       (Inr row, s') \<Rightarrow> (Inr row, s')
     | (Inl e, s') \<Rightarrow> if isUniqueViolation e then createInvoiceLoop inp now rest s' else (Inl e, s'))"

definition createInvoice :: "CreateInvoiceInput \<Rightarrow> int \<Rightarrow> int \<Rightarrow> InvoiceRow billing" where
  "createInvoice inp year now = createInvoiceLoop inp now (replicate MAX_ATTEMPTS (year, lastNumberOf year))"

section \<open>Creating a payment\<close>

record CreatePaymentInput =
  cpInvoiceId :: nat
  cpProvider :: LedgerPaymentProvider
  cpAmountTiyin :: int
  cpCurrency :: string
  cpIdempotencyKey :: string
  cpActorUserId :: string

definition createPaymentIdempotent :: "CreatePaymentInput \<Rightarrow> int \<Rightarrow> (PaymentRow \<times> bool) billing" where
  "createPaymentIdempotent inp now = (\<lambda>s.
     case transaction (
       bindS freshId (\<lambda>i.
       let row = \<lparr>payId = i, payInvoiceId = cpInvoiceId inp, payProvider = cpProvider inp, payStatus = CREATED,
         payAmount = cpAmountTiyin inp, payCurrency = cpCurrency inp, payProviderTransactionId = None,
         payIdempotencyKey = cpIdempotencyKey inp, payFailureReason = None, payPaidAt = None,
         payRefundedAt = None, payCreatedAt = now\<rparr>
       in bindS (getS bdPayments) (\<lambda>rows.
       bindS (guardS (cpIdempotencyKey inp \<in> payIdempotencyKey ` set rows)
         (OtherError (UniqueViolation ''Payment.idempotencyKey''))) (\<lambda>_.
       bindS (putS (\<lambda>s. s\<lparr>bdPayments := bdPayments s @ [row]\<rparr>)) (\<lambda>_.
       bindS (billingAudit (auditOf ''payment.initiated'' (cpActorUserId inp) (showNat i) '''' '''' None)) (\<lambda>_.
       returnS row)))))) s of
       (Inr row, s') \<Rightarrow> (Inr (row, True), s')
     | (Inl e, s') \<Rightarrow>
         if isUniqueViolation e
         then (case findPaymentByIdempotencyKey (cpIdempotencyKey inp) s' of
                 Some existing \<Rightarrow> (Inr (existing, False), s')
               | None \<Rightarrow> (Inl e, s'))
         else (Inl e, s'))"

text \<open>\<^verbatim>\<open>update\<close> of a payment's provider reference, with the unique index over provider and reference.\<close>

definition refTaken :: "nat \<Rightarrow> string option \<Rightarrow> BillingDb \<Rightarrow> bool" where
  "refTaken i ref s \<longleftrightarrow> ref \<noteq> None \<and>
     (\<exists>p \<in> set (bdPayments s). payId p = i \<and>
       (\<exists>q \<in> set (bdPayments s). payId q \<noteq> i \<and> payProvider q = payProvider p \<and> payProviderTransactionId q = ref))"

definition updatePayments :: "(PaymentRow \<Rightarrow> bool) \<Rightarrow> (PaymentRow \<Rightarrow> PaymentRow) \<Rightarrow> BillingDb \<Rightarrow> BillingDb" where
  "updatePayments P f s = s\<lparr>bdPayments := map (\<lambda>p. if P p then f p else p) (bdPayments s)\<rparr>"

definition setProviderCheckout :: "nat \<Rightarrow> string \<Rightarrow> unit billing" where
  "setProviderCheckout i ref =
     bindS (getS (refTaken i (Some ref))) (\<lambda>taken.
     bindS (guardS taken (OtherError (UniqueViolation ''Payment.providerTransactionId''))) (\<lambda>_.
     bindS (getS (findPaymentById i)) (\<lambda>p.
     bindS (guardS (p = None) (OtherError RecordNotFound)) (\<lambda>_.
     putS (updatePayments (\<lambda>p. payId p = i) (\<lambda>p. p\<lparr>payProviderTransactionId := Some ref\<rparr>))))))"

section \<open>Success and refund of a payment\<close>

record ApplyPaymentSuccessInput =
  apPaymentId :: nat
  apActorUserId :: "string option"
  apEntries :: "LedgerEntryInput list"
  apProviderTransactionId :: "string option"
  apReason :: "string option"

record ApplyRefundInput =
  arPaymentId :: nat
  arActorUserId :: string
  arReason :: string
  arEntries :: "LedgerEntryInput list"

definition updateInvoice :: "nat \<Rightarrow> (InvoiceRow \<Rightarrow> InvoiceRow) \<Rightarrow> unit billing" where
  "updateInvoice i f = bindS (getS (findInvoiceById i)) (\<lambda>r.
     bindS (guardS (r = None) (OtherError RecordNotFound)) (\<lambda>_.
     putS (\<lambda>s. s\<lparr>bdInvoices := map (\<lambda>r. if invId r = i then f r else r) (bdInvoices s)\<rparr>)))"

definition confirmRegistrationsOf :: "nat \<Rightarrow> unit billing" where
  "confirmRegistrationsOf i = putS (\<lambda>s. s\<lparr>bdRegistrations :=
     map (\<lambda>r. if brInvoiceId r = Some i then r\<lparr>brIsConfirmed := True\<rparr> else r) (bdRegistrations s)\<rparr>)"

definition ledgerRows :: "nat \<Rightarrow> PaymentRow \<Rightarrow> string \<Rightarrow> LedgerEntryInput list \<Rightarrow> LedgerRow list" where
  "ledgerRows tid p what es = map (\<lambda>e. \<lparr>lrTransactionId = tid, lrPaymentId = payId p, lrEntry = e,
     lrCurrency = payCurrency p, lrDescription = what @ '' '' @ showNat (payId p)\<rparr>) es"

definition insertLedger :: "LedgerRow list \<Rightarrow> unit billing" where
  "insertLedger rows = putS (\<lambda>s. s\<lparr>bdLedger := bdLedger s @ rows\<rparr>)"

definition findPaymentOrThrow :: "nat \<Rightarrow> PaymentRow billing" where
  "findPaymentOrThrow i = bindS (getS (findPaymentById i)) (\<lambda>p.
     case p of None \<Rightarrow> throwS (OtherError RecordNotFound) | Some row \<Rightarrow> returnS row)"

text \<open>\<^verbatim>\<open>updateMany\<close> with the status in its condition: how many rows it changed.\<close>

definition casStatus ::
  "nat \<Rightarrow> PaymentStatusValue \<Rightarrow> string option \<Rightarrow> (PaymentRow \<Rightarrow> PaymentRow) \<Rightarrow> nat billing" where
  "casStatus i expected ref f =
     bindS (getS (\<lambda>s. length (filter (\<lambda>p. payId p = i \<and> payStatus p = expected) (bdPayments s)))) (\<lambda>n.
     bindS (getS (refTaken i ref)) (\<lambda>taken.
     bindS (guardS (0 < n \<and> taken) (OtherError (UniqueViolation ''Payment.providerTransactionId''))) (\<lambda>_.
     bindS (putS (updatePayments (\<lambda>p. payId p = i \<and> payStatus p = expected) f)) (\<lambda>_.
     returnS n))))"

text \<open>
  The transaction after its first read, which returned \<open>payment\<close>: another transaction may
  have committed since.
\<close>

definition applySuccessTo :: "PaymentRow \<Rightarrow> ApplyPaymentSuccessInput \<Rightarrow> int \<Rightarrow> (bool \<times> PaymentRow) billing" where
  "applySuccessTo payment inp now =
     (if payStatus payment = PAID then returnS (False, payment)
      else bindS (assertPaymentTransition (payStatus payment) PAID) (\<lambda>_.
       bindS (casStatus (payId payment) (payStatus payment) (apProviderTransactionId inp)
         (\<lambda>p. p\<lparr>payStatus := PAID, payPaidAt := Some now,
            payProviderTransactionId := (case apProviderTransactionId inp of
                None \<Rightarrow> payProviderTransactionId p | Some ref \<Rightarrow> Some ref)\<rparr>)) (\<lambda>n.
       if n = 0 then bindS (findPaymentOrThrow (payId payment)) (\<lambda>again. returnS (False, again))
       else
         bindS (updateInvoice (payInvoiceId payment) (\<lambda>r. r\<lparr>invStatus := PAID, invPaidAt := Some now\<rparr>)) (\<lambda>_.
         bindS (confirmRegistrationsOf (payInvoiceId payment)) (\<lambda>_.
         bindS freshId (\<lambda>tid.
         bindS (insertLedger (ledgerRows tid payment ''payment.succeeded'' (apEntries inp))) (\<lambda>_.
         bindS (billingAudit (auditOf ''payment.succeeded'' (case apActorUserId inp of None \<Rightarrow> '''' | Some u \<Rightarrow> u)
           (showNat (payId payment)) '''' '''' (apReason inp))) (\<lambda>_.
         bindS (enqueue PaymentCompleted (payId payment)) (\<lambda>_.
         bindS (findPaymentOrThrow (payId payment)) (\<lambda>updated. returnS (True, updated)))))))))))"

definition applyPaymentSuccess :: "ApplyPaymentSuccessInput \<Rightarrow> int \<Rightarrow> (bool \<times> PaymentRow) billing" where
  "applyPaymentSuccess inp now = transaction (
     bindS (getS (findPaymentById (apPaymentId inp))) (\<lambda>found.
     case found of
       None \<Rightarrow> throwS (NotFoundError ''Payment'')
     | Some payment \<Rightarrow> applySuccessTo payment inp now))"

definition applyRefundTo :: "PaymentRow \<Rightarrow> ApplyRefundInput \<Rightarrow> int \<Rightarrow> (bool \<times> PaymentRow) billing" where
  "applyRefundTo payment inp now =
     (if payStatus payment = REFUNDED then returnS (False, payment)
      else bindS (assertRefundPath (payStatus payment)) (\<lambda>_.
       bindS (casStatus (payId payment) PAID None (\<lambda>p. p\<lparr>payStatus := REFUNDED, payRefundedAt := Some now\<rparr>)) (\<lambda>n.
       if n = 0 then bindS (findPaymentOrThrow (payId payment)) (\<lambda>again. returnS (False, again))
       else
         bindS (updateInvoice (payInvoiceId payment) (\<lambda>r. r\<lparr>invStatus := REFUNDED\<rparr>)) (\<lambda>_.
         bindS freshId (\<lambda>tid.
         bindS (insertLedger (ledgerRows tid payment ''refund.requested'' (arEntries inp))) (\<lambda>_.
         bindS (billingAudit (auditOf ''refund.requested'' (arActorUserId inp) (showNat (payId payment)) '''' ''''
           (Some (arReason inp)))) (\<lambda>_.
         bindS (enqueue RefundIssued (payId payment)) (\<lambda>_.
         bindS (findPaymentOrThrow (payId payment)) (\<lambda>updated. returnS (True, updated))))))))))"

definition applyRefund :: "ApplyRefundInput \<Rightarrow> int \<Rightarrow> (bool \<times> PaymentRow) billing" where
  "applyRefund inp now = transaction (
     bindS (getS (findPaymentById (arPaymentId inp))) (\<lambda>found.
     case found of
       None \<Rightarrow> throwS (NotFoundError ''Payment'')
     | Some payment \<Rightarrow> applyRefundTo payment inp now))"

section \<open>Balances\<close>

text \<open>
  \<^verbatim>\<open>groupBy\<close> account and direction with the sum of the amounts, then one line per account;
  \<open>localeCompare\<close> is the collation of the runtime.
\<close>

definition groupSums :: "LedgerEntryInput list \<Rightarrow> (string \<times> LedgerEntryDirection \<times> int) list" where
  "groupSums es = map (\<lambda>(a, d). (a, d, sum_list (map amountTiyin (filter (\<lambda>e. account e = a \<and> direction e = d) es))))
     (remdups (map (\<lambda>e. (account e, direction e)) es))"

fun addGroup :: "string \<Rightarrow> LedgerEntryDirection \<Rightarrow> int \<Rightarrow> (string \<times> int \<times> int) list \<Rightarrow> (string \<times> int \<times> int) list" where
  "addGroup a d t [] = [(a, if d = DEBIT then (t, 0) else (0, t))]"
| "addGroup a d t ((b, deb, cred) # m) =
     (if a = b then (b, if d = DEBIT then (deb + t, cred) else (deb, cred + t)) # m
      else (b, deb, cred) # addGroup a d t m)"

definition ledgerBalances ::
  "(string \<Rightarrow> string \<Rightarrow> int) \<Rightarrow> string option \<Rightarrow> BillingDb \<Rightarrow> (string \<times> int \<times> int) list" where
  "ledgerBalances localeCompare acct s =
     (let rows = filter (\<lambda>e. case acct of None \<Rightarrow> True | Some a \<Rightarrow> account e = a) (map lrEntry (bdLedger s))
      in jsSort (\<lambda>x y. localeCompare (fst x) (fst y))
           (foldl (\<lambda>m (a, d, t). addGroup a d t m) [] (groupSums rows)))"

end
