(* ===== verification/BillingService.thy ===== *)
theory BillingService
  imports Billing
begin

text \<open>
  The providers (\<^verbatim>\<open>src/modules/billing/providers/\<close> behind \<^verbatim>\<open>payment-provider.port.ts\<close>), the
  operations of \<^verbatim>\<open>billing.service.ts\<close> and the guards of \<^verbatim>\<open>billing.controller.ts\<close>. The service
  takes its registry as an argument, as its constructor does; \<open>PROVIDERS\<close> is the list the
  module injects. The owner of a player comes from the player module, as an argument.
\<close>

section \<open>Providers\<close>

record CheckoutInput =
  coPaymentId :: nat
  coInvoiceId :: nat
  coInvoiceNumber :: string
  coAmountTiyin :: int
  coCurrency :: string

record CheckoutResult =
  crProviderRef :: string
  crCheckoutUrl :: "string option"

record WebhookVerifyInput =
  wvRawBody :: "string option"
  wvParsedBody :: string
  wvHeaders :: "(string \<times> string) list"

datatype WebhookStatus = WebhookPaid | WebhookFailed | WebhookCancelled

record NormalizedWebhookEvent =
  weProviderTransactionId :: string
  wePaymentId :: "nat option"
  weStatus :: WebhookStatus
  weAmountTiyin :: int
  weCurrency :: string

record RefundInput =
  riPaymentId :: nat
  riProviderTransactionId :: "string option"
  riAmountTiyin :: int
  riCurrency :: string
  riReason :: string

record ProviderRefundResult =
  prAccepted :: bool
  prProviderRefundRef :: "string option"

record PaymentProviderAdapter =
  adCode :: LedgerPaymentProvider
  adConfigured :: bool
  adCreateCheckout :: "CheckoutInput \<Rightarrow> BillingError + CheckoutResult"
  adVerifyWebhook :: "WebhookVerifyInput \<Rightarrow> BillingError + NormalizedWebhookEvent"
  adRefund :: "RefundInput \<Rightarrow> BillingError + ProviderRefundResult"

definition notConfigured :: BillingError where
  "notConfigured = BusinessRuleError ''PROVIDER_NOT_CONFIGURED''"

definition ClickProvider :: PaymentProviderAdapter where
  "ClickProvider = \<lparr>adCode = CLICK, adConfigured = False, adCreateCheckout = (\<lambda>_. Inl notConfigured),
     adVerifyWebhook = (\<lambda>_. Inl notConfigured), adRefund = (\<lambda>_. Inl notConfigured)\<rparr>"

definition PaymeProvider :: PaymentProviderAdapter where
  "PaymeProvider = \<lparr>adCode = PAYME, adConfigured = False, adCreateCheckout = (\<lambda>_. Inl notConfigured),
     adVerifyWebhook = (\<lambda>_. Inl notConfigured), adRefund = (\<lambda>_. Inl notConfigured)\<rparr>"

definition manualCheckout :: "CheckoutInput \<Rightarrow> BillingError + CheckoutResult" where
  "manualCheckout inp = Inr \<lparr>crProviderRef = ''MANUAL-'' @ showNat (coPaymentId inp), crCheckoutUrl = None\<rparr>"

definition ManualProvider :: PaymentProviderAdapter where
  "ManualProvider = \<lparr>adCode = MANUAL, adConfigured = True, adCreateCheckout = manualCheckout,
     adVerifyWebhook = (\<lambda>_. Inl (BusinessRuleError ''WEBHOOK_NOT_SUPPORTED'')),
     adRefund = (\<lambda>_. Inr \<lparr>prAccepted = True, prProviderRefundRef = None\<rparr>)\<rparr>"

definition PROVIDERS :: "PaymentProviderAdapter list" where
  "PROVIDERS = [ManualProvider, ClickProvider, PaymeProvider]"

text \<open>The constructor of the registry: \<^verbatim>\<open>Inl\<close> is the error that stops the start of the program.\<close>

fun registryLoop :: "(LedgerPaymentProvider \<times> PaymentProviderAdapter) list \<Rightarrow> PaymentProviderAdapter list \<Rightarrow>
    LedgerPaymentProvider + (LedgerPaymentProvider \<times> PaymentProviderAdapter) list" where
  "registryLoop m [] = Inr m"
| "registryLoop m (a # as) =
     (if map_of m (adCode a) \<noteq> None then Inl (adCode a) else registryLoop (m @ [(adCode a, a)]) as)"

definition ProviderRegistry ::
  "PaymentProviderAdapter list \<Rightarrow> LedgerPaymentProvider + (LedgerPaymentProvider \<times> PaymentProviderAdapter) list" where
  "ProviderRegistry adapters = registryLoop [] adapters"

type_synonym Registry = "(LedgerPaymentProvider \<times> PaymentProviderAdapter) list"

definition registryGet :: "Registry \<Rightarrow> LedgerPaymentProvider \<Rightarrow> BillingError + PaymentProviderAdapter" where
  "registryGet reg code =
     (case map_of reg code of None \<Rightarrow> Inl (BusinessRuleError ''PROVIDER_NOT_AVAILABLE'') | Some a \<Rightarrow> Inr a)"

section \<open>Helpers of the service\<close>

datatype IdempotencyOutcome = REPLAY | CONFLICT

definition evaluateIdempotentInitiate ::
  "nat \<times> LedgerPaymentProvider \<Rightarrow> nat \<times> LedgerPaymentProvider \<Rightarrow> IdempotencyOutcome" where
  "evaluateIdempotentInitiate existing incoming =
     (if fst existing = fst incoming \<and> snd existing = snd incoming then REPLAY else CONFLICT)"

definition failPayment :: "LedgerPaymentProvider \<Rightarrow> string \<Rightarrow> unit billing" where
  "failPayment prov reason = metric (PaymentFailure prov reason)"

text \<open>A provider call: its error is counted and passed on; the measured duration is left out.\<close>

definition timedProviderCall :: "LedgerPaymentProvider \<Rightarrow> 'a billing \<Rightarrow> 'a billing" where
  "timedProviderCall prov call = (\<lambda>s.
     case call s of
       (Inr x, s') \<Rightarrow> (Inr x, s')
     | (Inl e, s') \<Rightarrow> bindS (failPayment prov ''PROVIDER_ERROR'') (\<lambda>_. throwS e) s')"

definition replayOrConflict :: "PaymentRow \<Rightarrow> nat \<Rightarrow> LedgerPaymentProvider \<Rightarrow> (PaymentRow \<times> string option) billing" where
  "replayOrConflict existing invoiceId prov =
     (if evaluateIdempotentInitiate (payInvoiceId existing, payProvider existing) (invoiceId, prov) = CONFLICT
      then throwS (BusinessRuleError ''IDEMPOTENCY_KEY_REUSE'')
      else returnS (existing, None))"

definition toRegistrationRef :: "BillingRegistration \<Rightarrow> Actor \<Rightarrow> bool \<Rightarrow> ResourceRef" where
  "toRegistrationRef view actor isOwn = \<lparr>refType = Registration,
     refOwnerUserId = (if isOwn then Some (acUserId actor) else None), refClubId = brClubId view,
     refRegionId = brRegionId view, refFederationId = brFederationId view,
     refTournamentId = Some (brTournamentId view), refSchoolId = None\<rparr>"

definition paymentRef :: ResourceRef where
  "paymentRef = noRef Payment"

definition ledgerE :: "LedgerImbalanceError + LedgerEntryInput list \<Rightarrow> LedgerEntryInput list billing" where
  "ledgerE = liftE (\<lambda>e. OtherError (LedgerError e))"

section \<open>Invoices\<close>

definition createInvoiceForRegistration ::
  "(string \<Rightarrow> string option) \<Rightarrow> Actor \<Rightarrow> string \<Rightarrow> int \<Rightarrow> int \<Rightarrow> InvoiceRow billing" where
  "createInvoiceForRegistration playerOf actor registrationId year now =
     bindS (getS (findRegistrationBilling registrationId)) (\<lambda>found.
     case found of
       None \<Rightarrow> throwS (NotFoundError ''Registration'')
     | Some view \<Rightarrow>
         let isOwn = (playerOf (acUserId actor) = Some (brPlayerId view));
             allowed = isOwn \<or> can actor Update (toRegistrationRef view actor isOwn) now;
             fee = (case brEntryFeeAmount view of None \<Rightarrow> 0 | Some a \<Rightarrow> a)
         in bindS (guardS (\<not> allowed) (NotFoundError ''Registration'')) (\<lambda>_.
         bindS (guardS (brIsWithdrawn view) (BusinessRuleError ''REGISTRATION_WITHDRAWN'')) (\<lambda>_.
         bindS (guardS (brIsConfirmed view) (ConflictError ''REGISTRATION_CONFIRMED'')) (\<lambda>_.
         bindS (guardS (fee \<le> 0) (BusinessRuleError ''NO_ENTRY_FEE'')) (\<lambda>_.
         bindS (case brInvoiceId view of
             None \<Rightarrow> returnS ()
           | Some i \<Rightarrow> bindS (getS (findInvoiceById i)) (\<lambda>existing.
               guardS (case existing of None \<Rightarrow> False | Some r \<Rightarrow> invStatus r \<in> {CREATED, PENDING, PAID})
                 (ConflictError ''INVOICE_EXISTS''))) (\<lambda>_.
         createInvoice \<lparr>ciUserId = acUserId actor, ciTournamentId = brTournamentId view,
           ciRegistrationId = registrationId, ciSubtotalTiyin = fee, ciTaxTiyin = 0, ciTotalTiyin = fee,
           ciCurrency = brEntryFeeCurrency view, ciActorUserId = acUserId actor\<rparr> year now))))))"

definition DEFAULT_PAGE_SIZE :: int where "DEFAULT_PAGE_SIZE = 20"
definition MAX_PAGE_SIZE :: int where "MAX_PAGE_SIZE = 100"

text \<open>
  A page: the rows, whether there are more, and the identifier in the cursor of the last one.
  A cursor is opaque text whose decoding the caller has done: \<open>Some None\<close> is a cursor that
  is not valid, which reads from the start.
\<close>

definition toPage :: "InvoiceRow list \<Rightarrow> nat \<Rightarrow> InvoiceRow list \<times> bool \<times> nat option" where
  "toPage rows n =
     (let items = (if length rows > n then take n rows else rows)
      in (items, length rows > n, if items = [] then None else Some (invId (last items))))"

definition listInvoices :: "Actor \<Rightarrow> int option \<Rightarrow> nat option option \<Rightarrow> (InvoiceRow list \<times> bool \<times> nat option) billing" where
  "listInvoices actor n after =
     (let pageSize = nat (min (max (case n of None \<Rightarrow> DEFAULT_PAGE_SIZE | Some k \<Rightarrow> k) 1) MAX_PAGE_SIZE);
          afterId = (case after of None \<Rightarrow> None | Some c \<Rightarrow> c)
      in bindS (getS (listInvoicesForUser (acUserId actor) pageSize afterId)) (\<lambda>rows.
         returnS (toPage rows pageSize)))"

section \<open>Payments\<close>

text \<open>The part of \<^verbatim>\<open>initiatePayment\<close> that writes; \<open>invoice\<close> is the row it has read.\<close>

definition initiateWith ::
  "PaymentProviderAdapter \<Rightarrow> Actor \<Rightarrow> InvoiceRow \<Rightarrow> LedgerPaymentProvider \<Rightarrow> string \<Rightarrow> int \<Rightarrow>
     (PaymentRow \<times> string option) billing" where
  "initiateWith adapter actor invoice prov idempotencyKey now =
     bindS (createPaymentIdempotent \<lparr>cpInvoiceId = invId invoice, cpProvider = prov,
         cpAmountTiyin = invTotalAmount invoice, cpCurrency = invCurrency invoice,
         cpIdempotencyKey = idempotencyKey, cpActorUserId = acUserId actor\<rparr> now) (\<lambda>(payment, created).
     if \<not> created then replayOrConflict payment (invId invoice) prov
     else
       bindS (timedProviderCall prov (liftE (\<lambda>e. e) (adCreateCheckout adapter
         \<lparr>coPaymentId = payId payment, coInvoiceId = invId invoice, coInvoiceNumber = invNumber invoice,
          coAmountTiyin = invTotalAmount invoice, coCurrency = invCurrency invoice\<rparr>))) (\<lambda>checkout.
       bindS (setProviderCheckout (payId payment) (crProviderRef checkout)) (\<lambda>_.
       returnS (payment\<lparr>payProviderTransactionId := Some (crProviderRef checkout)\<rparr>, crCheckoutUrl checkout))))"

definition initiatePayment ::
  "Registry \<Rightarrow> Actor \<Rightarrow> nat \<Rightarrow> LedgerPaymentProvider \<Rightarrow> string \<Rightarrow> int \<Rightarrow> (PaymentRow \<times> string option) billing" where
  "initiatePayment reg actor invoiceId prov idempotencyKey now =
     bindS (getS (findInvoiceById invoiceId)) (\<lambda>found.
     case found of
       None \<Rightarrow> throwS (NotFoundError ''Invoice'')
     | Some invoice \<Rightarrow>
         bindS (guardS (\<not> (invUserId invoice = Some (acUserId actor) \<or> can actor Create paymentRef now))
           (NotFoundError ''Invoice'')) (\<lambda>_.
         bindS (getS (findPaymentByIdempotencyKey idempotencyKey)) (\<lambda>seen.
         case seen of
           Some existing \<Rightarrow> replayOrConflict existing invoiceId prov
         | None \<Rightarrow>
             bindS (metric (PaymentAttempt prov)) (\<lambda>_.
             if invStatus invoice \<noteq> CREATED \<and> invStatus invoice \<noteq> PENDING
             then bindS (failPayment prov ''INVOICE_NOT_OPEN'') (\<lambda>_. throwS (ConflictError ''INVOICE_NOT_OPEN''))
             else bindS (liftE (\<lambda>e. e) (registryGet reg prov)) (\<lambda>adapter.
               if \<not> adConfigured adapter
               then bindS (failPayment prov ''PROVIDER_NOT_CONFIGURED'') (\<lambda>_. throwS notConfigured)
               else initiateWith adapter actor invoice prov idempotencyKey now)))))"

definition confirmManualPayment :: "Actor \<Rightarrow> nat \<Rightarrow> string \<Rightarrow> int \<Rightarrow> PaymentRow billing" where
  "confirmManualPayment actor paymentId reason now =
     (let trimmedReason = jsTrim reason in
     bindS (guardS (trimmedReason = '''') (BusinessRuleError ''CONFIRM_REASON_REQUIRED'')) (\<lambda>_.
     bindS (getS (findPaymentById paymentId)) (\<lambda>found.
     case found of
       None \<Rightarrow> throwS (NotFoundError ''Payment'')
     | Some payment \<Rightarrow>
         bindS (guardS (\<not> can actor Update paymentRef now) (NotFoundError ''Payment'')) (\<lambda>_.
         bindS (guardS (payProvider payment \<noteq> MANUAL) (BusinessRuleError ''MANUAL_CONFIRM_ONLY'')) (\<lambda>_.
         bindS (ledgerE (buildEntryFeePaymentEntries MANUAL (payAmount payment))) (\<lambda>es.
         bindS (timedProviderCall MANUAL (applyPaymentSuccess \<lparr>apPaymentId = paymentId,
             apActorUserId = Some (acUserId actor), apEntries = es, apProviderTransactionId = None,
             apReason = Some trimmedReason\<rparr> now)) (\<lambda>result.
         returnS (snd result))))))))"

definition webhook :: "Registry \<Rightarrow> LedgerPaymentProvider \<Rightarrow> WebhookVerifyInput \<Rightarrow> int \<Rightarrow> bool billing" where
  "webhook reg providerCode inp now =
     bindS (liftE (\<lambda>e. e) (registryGet reg providerCode)) (\<lambda>adapter.
     bindS (timedProviderCall providerCode (liftE (\<lambda>e. e) (adVerifyWebhook adapter inp))) (\<lambda>event.
     bindS (getS (findPaymentByProviderTx providerCode (weProviderTransactionId event))) (\<lambda>byTx.
     bindS (getS (\<lambda>s. case byTx of
         Some p \<Rightarrow> Some p
       | None \<Rightarrow> (case wePaymentId event of None \<Rightarrow> None | Some i \<Rightarrow> findPaymentById i s))) (\<lambda>found.
     case found of
       None \<Rightarrow> throwS (NotFoundError ''Payment'')
     | Some payment \<Rightarrow>
         if weStatus event = WebhookPaid then
           (if payAmount payment \<noteq> weAmountTiyin event \<or> payCurrency payment \<noteq> weCurrency event
            then bindS (failPayment providerCode ''AMOUNT_MISMATCH'') (\<lambda>_. throwS (BusinessRuleError ''AMOUNT_MISMATCH''))
            else bindS (ledgerE (buildEntryFeePaymentEntries providerCode (payAmount payment))) (\<lambda>es.
              bindS (applyPaymentSuccess \<lparr>apPaymentId = payId payment, apActorUserId = None, apEntries = es,
                apProviderTransactionId = Some (weProviderTransactionId event), apReason = None\<rparr> now) (\<lambda>result.
              returnS (\<not> fst result))))
         else returnS False))))"

definition refund :: "Registry \<Rightarrow> Actor \<Rightarrow> nat \<Rightarrow> string \<Rightarrow> int \<Rightarrow> PaymentRow billing" where
  "refund reg actor paymentId reason now =
     (let trimmedReason = jsTrim reason in
     bindS (guardS (trimmedReason = '''') (BusinessRuleError ''REFUND_REASON_REQUIRED'')) (\<lambda>_.
     bindS (getS (findPaymentById paymentId)) (\<lambda>found.
     case found of
       None \<Rightarrow> throwS (NotFoundError ''Payment'')
     | Some payment \<Rightarrow>
         bindS (guardS (\<not> can actor Update paymentRef now) (NotFoundError ''Payment'')) (\<lambda>_.
         if payStatus payment = REFUNDED then returnS payment
         else bindS (assertRefundPath (payStatus payment)) (\<lambda>_.
           bindS (liftE (\<lambda>e. e) (registryGet reg (payProvider payment))) (\<lambda>adapter.
           bindS (timedProviderCall (payProvider payment) (liftE (\<lambda>e. e) (adRefund adapter
             \<lparr>riPaymentId = payId payment, riProviderTransactionId = payProviderTransactionId payment,
              riAmountTiyin = payAmount payment, riCurrency = payCurrency payment, riReason = trimmedReason\<rparr>)))
           (\<lambda>providerResult.
           if \<not> prAccepted providerResult
           then bindS (failPayment (payProvider payment) ''REFUND_REJECTED'') (\<lambda>_. throwS (BusinessRuleError ''REFUND_REJECTED''))
           else
             bindS (ledgerE (buildEntryFeePaymentEntries (payProvider payment) (payAmount payment))) (\<lambda>posted.
             bindS (ledgerE (reverseLedgerEntries posted)) (\<lambda>es.
             bindS (applyRefund \<lparr>arPaymentId = paymentId, arActorUserId = acUserId actor, arReason = trimmedReason,
               arEntries = es\<rparr> now) (\<lambda>result.
             returnS (snd result)))))))))))"

section \<open>Reconciliation\<close>

record ReconciliationReport =
  rpAccounts :: "(string \<times> int \<times> int \<times> int) list"
  rpImbalanceTiyin :: int
  rpBalanced :: bool

definition reconciliationReport :: "(string \<Rightarrow> string \<Rightarrow> int) \<Rightarrow> Actor \<Rightarrow> int \<Rightarrow> ReconciliationReport billing" where
  "reconciliationReport localeCompare actor now =
     bindS (guardS (\<not> can actor Read paymentRef now) (NotFoundError ''Payment'')) (\<lambda>_.
     bindS (getS (ledgerBalances localeCompare None)) (\<lambda>balances.
     let totalDebit = foldl (\<lambda>acc (_, deb, _). acc + deb) 0 balances;
         totalCredit = foldl (\<lambda>acc (_, _, cred). acc + cred) 0 balances;
         imb = totalDebit - totalCredit
     in bindS (metric (LedgerImbalanceGauge imb)) (\<lambda>_.
        returnS \<lparr>rpAccounts = map (\<lambda>(a, deb, cred). (a, deb, cred, deb - cred)) balances,
          rpImbalanceTiyin = imb, rpBalanced = (imb = 0)\<rparr>)))"

definition refreshLedgerImbalanceMetric :: "(string \<Rightarrow> string \<Rightarrow> int) \<Rightarrow> unit billing" where
  "refreshLedgerImbalanceMetric localeCompare =
     bindS (getS (ledgerBalances localeCompare None)) (\<lambda>balances.
     metric (LedgerImbalanceGauge (foldl (\<lambda>acc (_, deb, cred). acc + (deb - cred)) 0 balances)))"

section \<open>The controller\<close>

definition initiateEndpoint ::
  "Registry \<Rightarrow> Actor \<Rightarrow> nat \<Rightarrow> LedgerPaymentProvider \<Rightarrow> string option \<Rightarrow> int \<Rightarrow> (PaymentRow \<times> string option) billing" where
  "initiateEndpoint reg actor invoiceId prov idempotencyKey now =
     (case map_option jsTrim idempotencyKey of
        None \<Rightarrow> throwS (OtherError (BadRequest ''IDEMPOTENCY_KEY_REQUIRED''))
      | Some key \<Rightarrow>
          if key = '''' then throwS (OtherError (BadRequest ''IDEMPOTENCY_KEY_REQUIRED''))
          else initiatePayment reg actor invoiceId prov key now)"

definition toLowerCase :: "string \<Rightarrow> string" where
  "toLowerCase s = map (\<lambda>c. let n = of_char c :: nat in if 65 \<le> n \<and> n \<le> 90 then char_of (n + 32) else c) s"

text \<open>The path table is a plain object: a name it inherits is not \<^verbatim>\<open>undefined\<close> either.\<close>

definition PROVIDER_BY_PATH :: "(string \<times> LedgerPaymentProvider) list" where
  "PROVIDER_BY_PATH = [(''click'', CLICK), (''payme'', PAYME), (''uzum'', UZUM),
     (''bank_transfer'', BANK_TRANSFER), (''manual'', MANUAL)]"

definition webhookEndpoint :: "Registry \<Rightarrow> string \<Rightarrow> WebhookVerifyInput \<Rightarrow> int \<Rightarrow> bool billing" where
  "webhookEndpoint reg provider inp now =
     (let segment = toLowerCase provider in
      case map_of PROVIDER_BY_PATH segment of
        Some code \<Rightarrow> webhook reg code inp now
      | None \<Rightarrow>
          if segment \<in> set objectPrototypeNames then throwS (BusinessRuleError ''PROVIDER_NOT_AVAILABLE'')
          else throwS (NotFoundError ''PaymentProvider''))"

end
