(* ===== verification/BillingRuns.thy ===== *)
theory BillingRuns
  imports BillingService
begin

text \<open>
  Billing as a transition system. A step is one committed transaction of the repository;
  the rows it works on may have been read before other transactions committed, so requests
  interleave freely between their reads and their transaction. Every operation of the
  service is shown to be a sequence of such steps, and the invariants of the tables are
  preserved by each of them.
\<close>

section \<open>Weakest preconditions of the repository\<close>

lemma wp_freshId: "wp freshId Q E s = Q (bdNextId s) (s\<lparr>bdNextId := Suc (bdNextId s)\<rparr>)"
  by (simp add: freshId_def wp_simps)

lemma wp_metric: "wp (metric m) Q E s = Q () (s\<lparr>bdMetrics := bdMetrics s @ [m]\<rparr>)"
  by (simp add: metric_def wp_simps)

lemma wp_enqueue: "wp (enqueue ev i) Q E s = Q () (s\<lparr>bdOutbox := bdOutbox s @ [(ev, i)]\<rparr>)"
  by (simp add: enqueue_def wp_simps)

lemma wp_insertLedger: "wp (insertLedger rows) Q E s = Q () (s\<lparr>bdLedger := bdLedger s @ rows\<rparr>)"
  by (simp add: insertLedger_def wp_simps)

lemma wp_confirmRegistrationsOf: "wp (confirmRegistrationsOf i) Q E s = Q () (s\<lparr>bdRegistrations :=
     map (\<lambda>r. if brInvoiceId r = Some i then r\<lparr>brIsConfirmed := True\<rparr> else r) (bdRegistrations s)\<rparr>)"
  by (simp add: confirmRegistrationsOf_def wp_simps)

definition inStatus :: "nat \<Rightarrow> PaymentStatusValue \<Rightarrow> BillingDb \<Rightarrow> bool" where
  "inStatus i e s \<longleftrightarrow> (\<exists>q \<in> set (bdPayments s). payId q = i \<and> payStatus q = e)"

lemma inStatus_length:
  "inStatus i e s \<Longrightarrow> filter (\<lambda>p. payId p = i \<and> payStatus p = e) (bdPayments s) \<noteq> []"
  by (auto simp: inStatus_def filter_empty_conv)

lemma wp_casStatus:
  "\<not> inStatus i e s \<Longrightarrow> wp (casStatus i e ref f) Q E s = Q 0 s"
  "inStatus i e s \<Longrightarrow> wp (casStatus i e ref f) Q E s =
     (if refTaken i ref s then E (OtherError (UniqueViolation ''Payment.providerTransactionId'')) s
      else Q (length (filter (\<lambda>p. payId p = i \<and> payStatus p = e) (bdPayments s)))
             (updatePayments (\<lambda>p. payId p = i \<and> payStatus p = e) f s))"
proof -
  show "\<not> inStatus i e s \<Longrightarrow> wp (casStatus i e ref f) Q E s = Q 0 s"
  proof -
    assume no: "\<not> inStatus i e s"
    then have none: "filter (\<lambda>p. payId p = i \<and> payStatus p = e) (bdPayments s) = []"
      by (auto simp: inStatus_def filter_empty_conv)
    have "map (\<lambda>p. if payId p = i \<and> payStatus p = e then f p else p) (bdPayments s) = bdPayments s"
      using no by (intro map_idI) (auto simp: inStatus_def)
    then have "updatePayments (\<lambda>p. payId p = i \<and> payStatus p = e) f s = s" by (simp add: updatePayments_def)
    then show ?thesis by (simp add: casStatus_def wp_simps none)
  qed
  show "inStatus i e s \<Longrightarrow> wp (casStatus i e ref f) Q E s =
     (if refTaken i ref s then E (OtherError (UniqueViolation ''Payment.providerTransactionId'')) s
      else Q (length (filter (\<lambda>p. payId p = i \<and> payStatus p = e) (bdPayments s)))
             (updatePayments (\<lambda>p. payId p = i \<and> payStatus p = e) f s))"
    by (simp add: casStatus_def wp_simps inStatus_length)
qed

lemma wp_updateInvoice:
  "wp (updateInvoice i f) Q E s =
     (if findInvoiceById i s = None then E (OtherError RecordNotFound) s
      else Q () (s\<lparr>bdInvoices := map (\<lambda>r. if invId r = i then f r else r) (bdInvoices s)\<rparr>))"
  by (simp add: updateInvoice_def wp_simps)

lemma wp_findPaymentOrThrow:
  "wp (findPaymentOrThrow i) Q E s =
     (case findPaymentById i s of None \<Rightarrow> E (OtherError RecordNotFound) s | Some p \<Rightarrow> Q p s)"
  by (simp add: findPaymentOrThrow_def wp_simps split: option.split)

lemma wp_billingAudit:
  "wp (billingAudit row) Q E s =
     (if auAction row \<in> REASON_REQUIRED \<and> (case auReason row of None \<Rightarrow> True | Some r \<Rightarrow> jsTrim r = '''')
      then E (BusinessRuleError ''AUDIT_REASON_REQUIRED'') s
      else Q () (s\<lparr>bdAudit := bdAudit s @ [row]\<rparr>))"
proof -
  have upd: "bdAudit_update (\<lambda>rows. rows @ [row]) s = s\<lparr>bdAudit := bdAudit s @ [row]\<rparr>" by (cases s) simp
  show ?thesis by (simp only: billingAudit_def auditWriteTo_def wp_simps upd)
qed

lemma wp_liftE: "wp (liftE f r) Q E s = (case r of Inl e \<Rightarrow> E (f e) s | Inr x \<Rightarrow> Q x s)"
  by (simp add: liftE_def wp_simps split: sum.splits)

lemma wp_assertPaymentTransition:
  "wp (assertPaymentTransition a b) Q E s =
     (if canTransitionPayment a b then Q () s else E (BusinessRuleError ''ILLEGAL_PAYMENT_TRANSITION'') s)"
  by (simp add: assertPaymentTransition_def wp_simps)

lemmas wp_repo = wp_freshId wp_metric wp_enqueue wp_insertLedger wp_confirmRegistrationsOf wp_casStatus
  wp_updateInvoice wp_findPaymentOrThrow wp_billingAudit wp_liftE wp_assertPaymentTransition

lemma wp_if: "wp (if c then m else m') Q E s = (if c then wp m Q E s else wp m' Q E s)"
  by simp

section \<open>What a transaction leaves behind\<close>

lemma refTaken_None [simp]: "\<not> refTaken i None s"
  by (simp add: refTaken_def)

lemma find_payment_upd:
  "(\<And>p. payId (f p) = payId p) \<Longrightarrow>
   findPaymentById i (updatePayments P f s) = map_option (\<lambda>p. if P p then f p else p) (findPaymentById i s)"
proof -
  assume f: "\<And>p. payId (f p) = payId p"
  have "find (\<lambda>p. payId p = i) (map (\<lambda>p. if P p then f p else p) ps)
      = map_option (\<lambda>p. if P p then f p else p) (find (\<lambda>p. payId p = i) ps)" for ps
    by (induction ps) (auto simp: f)
  then show ?thesis by (simp add: findPaymentById_def updatePayments_def)
qed

lemma updatePayments_sel [simp]:
  "bdPayments (updatePayments P f s) = map (\<lambda>p. if P p then f p else p) (bdPayments s)"
  "bdInvoices (updatePayments P f s) = bdInvoices s" "bdLedger (updatePayments P f s) = bdLedger s"
  "bdRegistrations (updatePayments P f s) = bdRegistrations s" "bdAudit (updatePayments P f s) = bdAudit s"
  "bdOutbox (updatePayments P f s) = bdOutbox s" "bdMetrics (updatePayments P f s) = bdMetrics s"
  "bdNextId (updatePayments P f s) = bdNextId s"
  by (simp_all add: updatePayments_def)

text \<open>The tables after a successful collection of payment \<open>p\<close>.\<close>

definition paidBy :: "ApplyPaymentSuccessInput \<Rightarrow> int \<Rightarrow> PaymentRow \<Rightarrow> PaymentRow" where
  "paidBy inp now p = p\<lparr>payStatus := PAID, payPaidAt := Some now,
     payProviderTransactionId := (case apProviderTransactionId inp of
        None \<Rightarrow> payProviderTransactionId p | Some ref \<Rightarrow> Some ref)\<rparr>"

definition refundedAt :: "int \<Rightarrow> PaymentRow \<Rightarrow> PaymentRow" where
  "refundedAt now p = p\<lparr>payStatus := REFUNDED, payRefundedAt := Some now\<rparr>"

lemma paidBy_sel [simp]:
  "payId (paidBy inp now p) = payId p" "payInvoiceId (paidBy inp now p) = payInvoiceId p"
  "payProvider (paidBy inp now p) = payProvider p" "payAmount (paidBy inp now p) = payAmount p"
  "payCurrency (paidBy inp now p) = payCurrency p" "payIdempotencyKey (paidBy inp now p) = payIdempotencyKey p"
  "payStatus (paidBy inp now p) = PAID"
  by (simp_all add: paidBy_def)

lemma refundedAt_sel [simp]:
  "payId (refundedAt now p) = payId p" "payInvoiceId (refundedAt now p) = payInvoiceId p"
  "payProvider (refundedAt now p) = payProvider p" "payAmount (refundedAt now p) = payAmount p"
  "payCurrency (refundedAt now p) = payCurrency p" "payIdempotencyKey (refundedAt now p) = payIdempotencyKey p"
  "payStatus (refundedAt now p) = REFUNDED"
  "payProviderTransactionId (refundedAt now p) = payProviderTransactionId p"
  by (simp_all add: refundedAt_def)

definition setInvoice :: "nat \<Rightarrow> PaymentStatusValue \<Rightarrow> int option \<Rightarrow> InvoiceRow \<Rightarrow> InvoiceRow" where
  "setInvoice i st paid r = (if invId r = i then r\<lparr>invStatus := st, invPaidAt := paid\<rparr> else r)"

definition collected :: "PaymentRow \<Rightarrow> ApplyPaymentSuccessInput \<Rightarrow> int \<Rightarrow> BillingDb \<Rightarrow> BillingDb \<Rightarrow> bool" where
  "collected p inp now s t \<longleftrightarrow>
     payStatus p \<in> {CREATED, PENDING, REFUND_REQUESTED} \<and>
     inStatus (payId p) (payStatus p) s \<and>
     \<not> refTaken (payId p) (apProviderTransactionId inp) s \<and>
     bdPayments t = map (\<lambda>q. if payId q = payId p \<and> payStatus q = payStatus p then paidBy inp now q else q) (bdPayments s) \<and>
     bdInvoices t = map (\<lambda>r. if invId r = payInvoiceId p then r\<lparr>invStatus := PAID, invPaidAt := Some now\<rparr> else r) (bdInvoices s) \<and>
     bdRegistrations t = map (\<lambda>r. if brInvoiceId r = Some (payInvoiceId p) then r\<lparr>brIsConfirmed := True\<rparr> else r) (bdRegistrations s) \<and>
     bdLedger t = bdLedger s @ ledgerRows (bdNextId s) p ''payment.succeeded'' (apEntries inp) \<and>
     bdOutbox t = bdOutbox s @ [(PaymentCompleted, payId p)] \<and>
     bdAudit t = bdAudit s @ [auditOf ''payment.succeeded'' (case apActorUserId inp of None \<Rightarrow> '''' | Some u \<Rightarrow> u)
       (showNat (payId p)) '''' '''' (apReason inp)] \<and>
     bdMetrics t = bdMetrics s \<and> bdNextId t = Suc (bdNextId s)"

definition refunded :: "PaymentRow \<Rightarrow> ApplyRefundInput \<Rightarrow> int \<Rightarrow> BillingDb \<Rightarrow> BillingDb \<Rightarrow> bool" where
  "refunded p inp now s t \<longleftrightarrow>
     payStatus p = PAID \<and> jsTrim (arReason inp) \<noteq> '''' \<and>
     inStatus (payId p) PAID s \<and>
     bdPayments t = map (\<lambda>q. if payId q = payId p \<and> payStatus q = PAID then refundedAt now q else q) (bdPayments s) \<and>
     bdInvoices t = map (\<lambda>r. if invId r = payInvoiceId p then r\<lparr>invStatus := REFUNDED\<rparr> else r) (bdInvoices s) \<and>
     bdRegistrations t = bdRegistrations s \<and>
     bdLedger t = bdLedger s @ ledgerRows (bdNextId s) p ''refund.requested'' (arEntries inp) \<and>
     bdOutbox t = bdOutbox s @ [(RefundIssued, payId p)] \<and>
     bdAudit t = bdAudit s @ [auditOf ''refund.requested'' (arActorUserId inp) (showNat (payId p)) '''' '''' (Some (arReason inp))] \<and>
     bdMetrics t = bdMetrics s \<and> bdNextId t = Suc (bdNextId s)"

lemma canTransition_PAID: "canTransitionPayment a PAID \<longleftrightarrow> a \<in> {CREATED, PENDING, REFUND_REQUESTED}"
  by (cases a) (simp_all add: canTransitionPayment_def)

lemma canTransition_refund:
  "canTransitionPayment a REFUND_REQUESTED \<longleftrightarrow> a = PAID" "canTransitionPayment REFUND_REQUESTED REFUNDED"
  by (cases a) (simp_all add: canTransitionPayment_def)

text \<open>
  A success is all or nothing: an error or the answer \<open>False\<close> leaves everything as it was.
\<close>

lemma case_option_True: "(case x of None \<Rightarrow> True | Some y \<Rightarrow> b) \<longleftrightarrow> x = None \<or> b"
  by (cases x) simp_all

lemma wp_success:
  "wp (applySuccessTo p inp now) (\<lambda>(applied, row) t. if applied then collected p inp now s t else t = s) (\<lambda>_ _. True) s"
proof (cases "inStatus (payId p) (payStatus p) s")
  case False
  then show ?thesis
    unfolding applySuccessTo_def
    by (simp add: wp_if wp_simps wp_repo split: option.splits)
next
  case True
  have free: "auAction (auditOf ''payment.succeeded'' a i b c d) \<notin> REASON_REQUIRED" for a i b c d
    by (simp add: auditOf_def REASON_REQUIRED_def)
  show ?thesis
    unfolding applySuccessTo_def collected_def paidBy_def[abs_def]
    by (simp cong: option.case_cong add: wp_if wp_simps wp_repo True inStatus_length[OF True] canTransition_PAID free case_option_True
        del: insert_iff)
qed

lemma wp_refund:
  "wp (applyRefundTo p inp now) (\<lambda>(applied, row) t. if applied then refunded p inp now s t else t = s) (\<lambda>_ _. True) s"
proof (cases "inStatus (payId p) PAID s")
  case False
  then show ?thesis
    unfolding applyRefundTo_def assertRefundPath_def
    by (simp add: wp_if wp_simps wp_repo canTransition_refund split: option.splits)
next
  case True
  show ?thesis
    unfolding applyRefundTo_def assertRefundPath_def refunded_def refundedAt_def[abs_def]
    by (simp add: wp_if wp_simps wp_repo True inStatus_length[OF True] canTransition_refund REASON_REQUIRED_def
        auditOf_def split: option.split)
qed

section \<open>Steps\<close>

text \<open>
  A row read earlier in a run is the current row up to what the transactions in between have
  changed: its status may have moved on.
\<close>

fun movedOn :: "PaymentStatusValue \<Rightarrow> PaymentStatusValue \<Rightarrow> bool" where
  "movedOn CREATED b = (b \<in> {CREATED, PAID, REFUNDED})"
| "movedOn PAID b = (b \<in> {PAID, REFUNDED})"
| "movedOn a b = (a = b)"

definition sameBill :: "PaymentRow \<Rightarrow> PaymentRow \<Rightarrow> bool" where
  "sameBill p q \<longleftrightarrow> payId p = payId q \<and> payInvoiceId p = payInvoiceId q \<and> payProvider p = payProvider q
     \<and> payAmount p = payAmount q \<and> payCurrency p = payCurrency q \<and> payIdempotencyKey p = payIdempotencyKey q"

definition earlierRead :: "BillingDb \<Rightarrow> PaymentRow \<Rightarrow> bool" where
  "earlierRead s p \<longleftrightarrow> (\<exists>q \<in> set (bdPayments s). sameBill p q \<and> movedOn (payStatus p) (payStatus q))"

definition knownNumber :: "BillingDb \<Rightarrow> int \<Rightarrow> string option \<Rightarrow> bool" where
  "knownNumber s year seen \<longleftrightarrow>
     (case seen of None \<Rightarrow> True | Some n \<Rightarrow> n \<in> invNumber ` set (bdInvoices s) \<and> startsWith n (yearPrefix year))"

inductive billingStep :: "BillingDb \<Rightarrow> BillingDb \<Rightarrow> bool" where
  stepInvoice: "0 < ciTotalTiyin inp \<Longrightarrow> knownNumber s year seen \<Longrightarrow>
     billingStep s (snd (createInvoiceAttempt inp year now seen s))"
| stepPayment: "r \<in> set (bdInvoices s) \<Longrightarrow> cpInvoiceId inp = invId r \<Longrightarrow> cpAmountTiyin inp = invTotalAmount r \<Longrightarrow>
     cpCurrency inp = invCurrency r \<Longrightarrow> billingStep s (snd (createPaymentIdempotent inp now s))"
| stepCheckout: "billingStep s (snd (setProviderCheckout i ref s))"
| stepSuccess: "earlierRead s p \<Longrightarrow> buildEntryFeePaymentEntries prov (payAmount p) = Inr (apEntries inp) \<Longrightarrow>
     billingStep s (snd (transaction (applySuccessTo p inp now) s))"
| stepRefund: "earlierRead s p \<Longrightarrow> buildEntryFeePaymentEntries (payProvider p) (payAmount p) = Inr posted \<Longrightarrow>
     reverseLedgerEntries posted = Inr (arEntries inp) \<Longrightarrow>
     billingStep s (snd (transaction (applyRefundTo p inp now) s))"
| stepMetrics: "billingStep s (s\<lparr>bdMetrics := ms\<rparr>)"
| stepRegistrations: "billingStep s (s\<lparr>bdRegistrations := rs\<rparr>)"

definition emptyBilling :: "BillingDb \<Rightarrow> bool" where
  "emptyBilling s \<longleftrightarrow> bdInvoices s = [] \<and> bdPayments s = [] \<and> bdLedger s = [] \<and> bdOutbox s = []"

definition reachableBilling :: "BillingDb \<Rightarrow> bool" where
  "reachableBilling s \<longleftrightarrow> (\<exists>s0. emptyBilling s0 \<and> billingStep\<^sup>*\<^sup>* s0 s)"

section \<open>The effect of each step\<close>

definition invoiced :: "CreateInvoiceInput \<Rightarrow> int \<Rightarrow> int \<Rightarrow> BillingDb \<Rightarrow> BillingDb \<Rightarrow> bool" where
  "invoiced inp year n s t \<longleftrightarrow>
     2000 \<le> year \<and> year \<le> 9999 \<and> 1 \<le> n \<and> n \<le> 999999 \<and> invoiceText year n \<notin> invNumber ` set (bdInvoices s) \<and>
     (\<exists>r. bdInvoices t = bdInvoices s @ [r] \<and> invId r = bdNextId s \<and> invNumber r = invoiceText year n \<and>
        invTotalAmount r = ciTotalTiyin inp \<and> invStatus r = CREATED) \<and>
     bdPayments t = bdPayments s \<and> bdLedger t = bdLedger s \<and> bdOutbox t = bdOutbox s \<and> bdNextId t = Suc (bdNextId s)"

definition charged :: "CreatePaymentInput \<Rightarrow> BillingDb \<Rightarrow> BillingDb \<Rightarrow> bool" where
  "charged inp s t \<longleftrightarrow>
     cpIdempotencyKey inp \<notin> payIdempotencyKey ` set (bdPayments s) \<and>
     (\<exists>p. bdPayments t = bdPayments s @ [p] \<and> payId p = bdNextId s \<and> payInvoiceId p = cpInvoiceId inp \<and>
        payProvider p = cpProvider inp \<and> payAmount p = cpAmountTiyin inp \<and> payCurrency p = cpCurrency inp \<and>
        payIdempotencyKey p = cpIdempotencyKey inp \<and> payStatus p = CREATED) \<and>
     bdInvoices t = bdInvoices s \<and> bdLedger t = bdLedger s \<and> bdOutbox t = bdOutbox s \<and> bdNextId t = Suc (bdNextId s)"

definition withRef :: "string \<Rightarrow> PaymentRow \<Rightarrow> PaymentRow" where
  "withRef ref p = p\<lparr>payProviderTransactionId := Some ref\<rparr>"

lemma withRef_sel [simp]:
  "payId (withRef ref p) = payId p" "payInvoiceId (withRef ref p) = payInvoiceId p"
  "payProvider (withRef ref p) = payProvider p" "payAmount (withRef ref p) = payAmount p"
  "payCurrency (withRef ref p) = payCurrency p" "payIdempotencyKey (withRef ref p) = payIdempotencyKey p"
  "payStatus (withRef ref p) = payStatus p" "payProviderTransactionId (withRef ref p) = Some ref"
  by (simp_all add: withRef_def)

definition referenced :: "nat \<Rightarrow> string \<Rightarrow> BillingDb \<Rightarrow> BillingDb \<Rightarrow> bool" where
  "referenced i ref s t \<longleftrightarrow> \<not> refTaken i (Some ref) s \<and>
     bdPayments t = map (\<lambda>p. if payId p = i then withRef ref p else p) (bdPayments s) \<and>
     bdInvoices t = bdInvoices s \<and> bdLedger t = bdLedger s \<and> bdOutbox t = bdOutbox s \<and> bdNextId t = bdNextId s"

lemma wp_insertInvoice:
  "wp (insertInvoice r) Q E s =
     (if invNumber r \<in> invNumber ` set (bdInvoices s) then E (OtherError (UniqueViolation ''Invoice.number'')) s
      else Q () (s\<lparr>bdInvoices := bdInvoices s @ [r]\<rparr>))"
  by (simp add: insertInvoice_def wp_simps)

lemma wp_linkRegistration:
  "wp (linkRegistration regId i) Q E s =
     (if findRegistrationBilling regId s = None then E (OtherError RecordNotFound) s
      else Q () (s\<lparr>bdRegistrations := map (\<lambda>r. if brId r = regId then r\<lparr>brInvoiceId := Some i\<rparr> else r) (bdRegistrations s)\<rparr>))"
  by (simp add: linkRegistration_def wp_simps)

lemma transaction_state:
  "wp m (\<lambda>_ t. P t) (\<lambda>_ _. True) s \<Longrightarrow> snd (transaction m s) = s \<or> P (snd (transaction m s))"
  by (simp add: wp_def transaction_def split: prod.splits sum.splits)

lemma attempt_effect:
  "snd (createInvoiceAttempt inp year now seen s) = s
   \<or> invoiced inp year (nextInvoiceSequence seen) s (snd (createInvoiceAttempt inp year now seen s))"
proof -
  have free: "auAction (auditOf ''invoice.created'' a i b c d) \<notin> REASON_REQUIRED" for a i b c d
    by (simp add: auditOf_def REASON_REQUIRED_def)
  show ?thesis
    unfolding createInvoiceAttempt_def
    by (rule transaction_state)
       (simp add: wp_simps wp_repo wp_insertInvoice wp_linkRegistration Let_def formatInvoiceNumber_eq free invoiced_def)
qed

lemma payment_effect:
  "snd (createPaymentIdempotent inp now s) = s \<or> charged inp s (snd (createPaymentIdempotent inp now s))"
proof -
  have free: "auAction (auditOf ''payment.initiated'' a i b c d) \<notin> REASON_REQUIRED" for a i b c d
    by (simp add: auditOf_def REASON_REQUIRED_def)
  let ?m = "transaction (
       bindS freshId (\<lambda>i.
       let row = \<lparr>payId = i, payInvoiceId = cpInvoiceId inp, payProvider = cpProvider inp, payStatus = CREATED,
         payAmount = cpAmountTiyin inp, payCurrency = cpCurrency inp, payProviderTransactionId = None,
         payIdempotencyKey = cpIdempotencyKey inp, payFailureReason = None, payPaidAt = None,
         payRefundedAt = None, payCreatedAt = now\<rparr>
       in bindS (getS bdPayments) (\<lambda>rows.
       bindS (guardS (cpIdempotencyKey inp \<in> payIdempotencyKey ` set rows)
         (OtherError (UniqueViolation ''Payment.idempotencyKey''))) (\<lambda>_.
       bindS (putS (\<lambda>s. s\<lparr>bdPayments := bdPayments s @ [row]\<rparr>)) (\<lambda>_.
       bindS (billingAudit (auditOf ''payment.initiated'' (cpActorUserId inp) (showNat i) '''' '''' None)) (\<lambda>_.
       returnS row))))))"
  have "snd (createPaymentIdempotent inp now s) = snd (?m s)"
    unfolding createPaymentIdempotent_def by (simp split: prod.splits sum.splits option.splits)
  moreover have "snd (?m s) = s \<or> charged inp s (snd (?m s))"
    by (rule transaction_state)
       (simp add: wp_simps wp_repo Let_def free charged_def)
  ultimately show ?thesis by simp
qed

lemma checkout_effect:
  "snd (setProviderCheckout i ref s) = s \<or> referenced i ref s (snd (setProviderCheckout i ref s))"
  unfolding setProviderCheckout_def referenced_def withRef_def[abs_def]
  by (simp add: bindS_def updatePayments_def)

lemma success_effect:
  "snd (transaction (applySuccessTo p inp now) s) = s
   \<or> collected p inp now s (snd (transaction (applySuccessTo p inp now) s))"
proof -
  have "wp (applySuccessTo p inp now) (\<lambda>_ t. t = s \<or> collected p inp now s t) (\<lambda>_ _. True) s"
    using wp_success[of p inp now s] by (auto simp: wp_def split: prod.splits sum.splits if_splits)
  from transaction_state[OF this] show ?thesis by blast
qed

lemma refund_effect:
  "snd (transaction (applyRefundTo p inp now) s) = s
   \<or> refunded p inp now s (snd (transaction (applyRefundTo p inp now) s))"
proof -
  have "wp (applyRefundTo p inp now) (\<lambda>_ t. t = s \<or> refunded p inp now s t) (\<lambda>_ _. True) s"
    using wp_refund[of p inp now s] by (auto simp: wp_def split: prod.splits sum.splits if_splits)
  from transaction_state[OF this] show ?thesis by blast
qed

text \<open>The kinds of change a step can make, with the tables of billing only.\<close>

lemma billingStep_cases [consumes 1, case_names same other invoice payment checkout success refund]:
  assumes "billingStep s t"
  obtains
      "t = s"
    | "bdInvoices t = bdInvoices s" "bdPayments t = bdPayments s" "bdLedger t = bdLedger s"
      "bdOutbox t = bdOutbox s" "bdNextId t = bdNextId s"
    | inp year seen where "0 < ciTotalTiyin inp" "knownNumber s year seen"
      "invoiced inp year (nextInvoiceSequence seen) s t"
    | r inp where "r \<in> set (bdInvoices s)" "cpInvoiceId inp = invId r" "cpAmountTiyin inp = invTotalAmount r"
      "cpCurrency inp = invCurrency r" "charged inp s t"
    | i ref where "referenced i ref s t"
    | p inp now prov where "earlierRead s p" "buildEntryFeePaymentEntries prov (payAmount p) = Inr (apEntries inp)"
      "collected p inp now s t"
    | p inp now posted where "earlierRead s p" "buildEntryFeePaymentEntries (payProvider p) (payAmount p) = Inr posted"
      "reverseLedgerEntries posted = Inr (arEntries inp)" "refunded p inp now s t"
  using assms
proof (cases rule: billingStep.cases)
  case (stepInvoice inp year seen now)
  then show ?thesis using attempt_effect[of inp year now seen s] that by metis
next
  case (stepPayment r inp now)
  then show ?thesis using payment_effect[of inp now s] that by metis
next
  case (stepCheckout i ref)
  then show ?thesis using checkout_effect[of i ref s] that by metis
next
  case (stepSuccess p prov inp now)
  then show ?thesis using success_effect[of p inp now s] that by metis
next
  case (stepRefund p posted inp now)
  then show ?thesis using refund_effect[of p inp now s] that by metis
next
  case (stepMetrics ms)
  then show ?thesis using that(2) by simp
next
  case (stepRegistrations rs)
  then show ?thesis using that(2) by simp
qed

end
