(* ===== verification/BillingInvariants.thy ===== *)
theory BillingInvariants
  imports BillingRuns
begin

text \<open>
  The invariants of the billing tables: identifiers and idempotency keys are unique, a
  payment carries the amount of its invoice, the ledger and the outbox of a payment are
  exactly those of its status, the status of an invoice is that of its payments, and the
  numbers of a year are consecutive.
\<close>

section \<open>The invariants\<close>

definition idsOk :: "BillingDb \<Rightarrow> bool" where
  "idsOk s \<longleftrightarrow> distinct (map invId (bdInvoices s)) \<and> distinct (map payId (bdPayments s))
     \<and> distinct (map payIdempotencyKey (bdPayments s))
     \<and> (\<forall>r \<in> set (bdInvoices s). invId r < bdNextId s) \<and> (\<forall>p \<in> set (bdPayments s). payId p < bdNextId s)
     \<and> (\<forall>l \<in> set (bdLedger s). lrTransactionId l < bdNextId s)"

definition billedOk :: "BillingDb \<Rightarrow> bool" where
  "billedOk s \<longleftrightarrow> (\<forall>r \<in> set (bdInvoices s). 0 < invTotalAmount r) \<and>
     (\<forall>p \<in> set (bdPayments s). payStatus p \<in> {CREATED, PAID, REFUNDED} \<and>
        (\<exists>r \<in> set (bdInvoices s). invId r = payInvoiceId p \<and> invTotalAmount r = payAmount p \<and> invCurrency r = payCurrency p))"

definition posting :: "LedgerPaymentProvider \<Rightarrow> int \<Rightarrow> LedgerEntryInput list" where
  "posting prov a =
     [\<lparr>account = cashAccountForProvider prov, direction = DEBIT, amountTiyin = a\<rparr>,
      \<lparr>account = ''liability.organizer_payable'', direction = CREDIT, amountTiyin = a\<rparr>]"

definition successRows :: "nat \<Rightarrow> LedgerPaymentProvider \<Rightarrow> PaymentRow \<Rightarrow> LedgerRow list" where
  "successRows t prov p = ledgerRows t p ''payment.succeeded'' (posting prov (payAmount p))"

definition refundRows :: "nat \<Rightarrow> PaymentRow \<Rightarrow> LedgerRow list" where
  "refundRows t p = ledgerRows t p ''refund.requested'' (map reverseEntry (posting (payProvider p) (payAmount p)))"

definition postedAs :: "PaymentRow \<Rightarrow> LedgerRow list \<Rightarrow> bool" where
  "postedAs p rows \<longleftrightarrow>
     (payStatus p = CREATED \<longrightarrow> rows = []) \<and>
     (payStatus p = PAID \<longrightarrow> (\<exists>t prov. rows = successRows t prov p)) \<and>
     (payStatus p = REFUNDED \<longrightarrow> (\<exists>t prov t'. t < t' \<and> rows = successRows t prov p @ refundRows t' p))"

definition rowsOf :: "nat \<Rightarrow> BillingDb \<Rightarrow> LedgerRow list" where
  "rowsOf i s = filter (\<lambda>l. lrPaymentId l = i) (bdLedger s)"

definition postedOk :: "BillingDb \<Rightarrow> bool" where
  "postedOk s \<longleftrightarrow> (\<forall>p \<in> set (bdPayments s). postedAs p (rowsOf (payId p) s))
     \<and> (\<forall>l \<in> set (bdLedger s). lrPaymentId l \<in> payId ` set (bdPayments s))"

fun eventHistory :: "PaymentStatusValue \<Rightarrow> OutboxEventType list" where
  "eventHistory PAID = [PaymentCompleted]"
| "eventHistory REFUNDED = [PaymentCompleted, RefundIssued]"
| "eventHistory _ = []"

definition eventsOf :: "nat \<Rightarrow> BillingDb \<Rightarrow> OutboxEventType list" where
  "eventsOf i s = map fst (filter (\<lambda>e. snd e = i) (bdOutbox s))"

definition eventsOk :: "BillingDb \<Rightarrow> bool" where
  "eventsOk s \<longleftrightarrow> (\<forall>p \<in> set (bdPayments s). eventsOf (payId p) s = eventHistory (payStatus p))
     \<and> (\<forall>e \<in> set (bdOutbox s). snd e \<in> payId ` set (bdPayments s))"

definition invoicesOk :: "BillingDb \<Rightarrow> bool" where
  "invoicesOk s \<longleftrightarrow> (\<forall>r \<in> set (bdInvoices s). invStatus r \<in> {CREATED, PAID, REFUNDED} \<and>
     (invStatus r = CREATED \<longleftrightarrow> (\<forall>p \<in> set (bdPayments s). payInvoiceId p = invId r \<longrightarrow> payStatus p = CREATED)))"

definition goodNumber :: "int \<Rightarrow> int \<Rightarrow> bool" where
  "goodNumber y n \<longleftrightarrow> 2000 \<le> y \<and> y \<le> 9999 \<and> 1 \<le> n \<and> n \<le> 999999"

definition numbersOk :: "BillingDb \<Rightarrow> bool" where
  "numbersOk s \<longleftrightarrow> distinct (map invNumber (bdInvoices s))
     \<and> (\<forall>x \<in> invNumber ` set (bdInvoices s). \<exists>y n. goodNumber y n \<and> x = invoiceText y n)
     \<and> (\<forall>y n. goodNumber y n \<longrightarrow> invoiceText y n \<in> invNumber ` set (bdInvoices s) \<longrightarrow>
          (\<forall>m. 1 \<le> m \<longrightarrow> m \<le> n \<longrightarrow> invoiceText y m \<in> invNumber ` set (bdInvoices s)))"

definition billingOk :: "BillingDb \<Rightarrow> bool" where
  "billingOk s \<longleftrightarrow> idsOk s \<and> billedOk s \<and> postedOk s \<and> eventsOk s \<and> invoicesOk s \<and> numbersOk s"

lemma posting_built: "buildEntryFeePaymentEntries prov a = Inr es \<Longrightarrow> es = posting prov a \<and> 0 < a"
  unfolding buildEntryFeePaymentEntries_def posting_def[symmetric] buildLedgerTransaction_iff
  by (simp add: acceptable_def posting_def)

lemma reversed_built: "reverseLedgerEntries es = Inr es' \<Longrightarrow> es' = map reverseEntry es"
  by (simp add: reverseLedgerEntries_def buildLedgerTransaction_iff)

section \<open>The payment a transaction works on\<close>

lemma earlierReadE:
  assumes "earlierRead s p"
  obtains q where "q \<in> set (bdPayments s)" "sameBill p q" "movedOn (payStatus p) (payStatus q)"
  using assms unfolding earlierRead_def by blast

lemma idsOk_payment: "idsOk s \<Longrightarrow> p \<in> set (bdPayments s) \<Longrightarrow> q \<in> set (bdPayments s) \<Longrightarrow> payId p = payId q \<Longrightarrow> p = q"
  unfolding idsOk_def by (meson inj_onD distinct_map)

lemma idsOk_invoice: "idsOk s \<Longrightarrow> p \<in> set (bdInvoices s) \<Longrightarrow> q \<in> set (bdInvoices s) \<Longrightarrow> invId p = invId q \<Longrightarrow> p = q"
  unfolding idsOk_def by (meson inj_onD distinct_map)

text \<open>
  When a compare-and-set succeeds, the row read earlier is the current one in everything but
  the reference, and its payment is in exactly the expected status.
\<close>

lemma cas_current:
  assumes ok: "idsOk s" "billedOk s" and read: "earlierRead s p" and cas: "inStatus (payId p) st s"
  obtains q where "q \<in> set (bdPayments s)" "sameBill p q" "payStatus q = st" "st \<in> {CREATED, PAID, REFUNDED}"
proof -
  obtain q where q: "q \<in> set (bdPayments s)" "sameBill p q" using read by (rule earlierReadE)
  obtain r where r: "r \<in> set (bdPayments s)" "payId r = payId p" "payStatus r = st"
    using cas unfolding inStatus_def by blast
  have "r = q" using idsOk_payment[OF ok(1) r(1) q(1)] r(2) q(2) by (simp add: sameBill_def)
  then show ?thesis using q r ok(2) that unfolding billedOk_def by blast
qed

text \<open>The updates of payments seen as one map that keeps the bill.\<close>

definition movesPayment :: "nat \<Rightarrow> PaymentStatusValue \<Rightarrow> PaymentStatusValue \<Rightarrow> BillingDb \<Rightarrow> BillingDb \<Rightarrow> bool" where
  "movesPayment i a b s t \<longleftrightarrow>
     (\<exists>f. bdPayments t = map f (bdPayments s) \<and> (\<forall>p. sameBill p (f p)) \<and>
        (\<forall>p. payStatus (f p) = (if payId p = i \<and> payStatus p = a then b else payStatus p)))"

lemma movesPayment_refl: "bdPayments t = bdPayments s \<Longrightarrow> movesPayment i a a s t"
  unfolding movesPayment_def by (rule exI[of _ "\<lambda>p. p"]) (auto simp: sameBill_def)

lemma collected_moves: "collected p inp now s t \<Longrightarrow> movesPayment (payId p) (payStatus p) PAID s t"
  unfolding collected_def movesPayment_def
  by (intro exI[of _ "\<lambda>q. if payId q = payId p \<and> payStatus q = payStatus p then paidBy inp now q else q"])
     (auto simp: sameBill_def)

lemma refunded_moves: "refunded p inp now s t \<Longrightarrow> movesPayment (payId p) PAID REFUNDED s t"
  unfolding refunded_def movesPayment_def
  by (intro exI[of _ "\<lambda>q. if payId q = payId p \<and> payStatus q = PAID then refundedAt now q else q"])
     (auto simp: sameBill_def)

lemma referenced_moves: "referenced i ref s t \<Longrightarrow> movesPayment i CREATED CREATED s t"
  unfolding referenced_def movesPayment_def
  by (intro exI[of _ "\<lambda>q. if payId q = i then withRef ref q else q"]) (auto simp: sameBill_def)

lemma movesPaymentE:
  assumes "movesPayment i a b s t"
  obtains f where "bdPayments t = map f (bdPayments s)" "\<And>p. sameBill p (f p)"
    "\<And>p. payStatus (f p) = (if payId p = i \<and> payStatus p = a then b else payStatus p)"
  using assms unfolding movesPayment_def by blast

lemma sameBillD:
  "sameBill p q \<Longrightarrow> payId p = payId q" "sameBill p q \<Longrightarrow> payInvoiceId p = payInvoiceId q"
  "sameBill p q \<Longrightarrow> payProvider p = payProvider q" "sameBill p q \<Longrightarrow> payAmount p = payAmount q"
  "sameBill p q \<Longrightarrow> payCurrency p = payCurrency q" "sameBill p q \<Longrightarrow> payIdempotencyKey p = payIdempotencyKey q"
  by (simp_all add: sameBill_def)

lemma rows_sameBill:
  "sameBill p q \<Longrightarrow> ledgerRows t p w es = ledgerRows t q w es"
  "sameBill p q \<Longrightarrow> successRows t prov p = successRows t prov q"
  "sameBill p q \<Longrightarrow> refundRows t p = refundRows t q"
  by (simp_all add: ledgerRows_def successRows_def refundRows_def sameBill_def)

lemma postedAs_sameBill: "sameBill p q \<Longrightarrow> payStatus p = payStatus q \<Longrightarrow> postedAs p rows = postedAs q rows"
  unfolding postedAs_def by (simp add: rows_sameBill[of p q])

section \<open>Preservation\<close>

lemma moves_same: "movesPayment i a b s t \<Longrightarrow> payId ` set (bdPayments t) = payId ` set (bdPayments s)"
  by (erule movesPaymentE) (metis (no_types, lifting) image_cong image_image list.set_map sameBillD(1))

lemma idsOk_moves:
  assumes ok: "idsOk s" and mv: "movesPayment i a b s t"
    and inv: "map invId (bdInvoices t) = map invId (bdInvoices s)" and nx: "bdNextId s \<le> bdNextId t"
    and led: "\<forall>l \<in> set (bdLedger t). l \<in> set (bdLedger s) \<or> lrTransactionId l < bdNextId t"
  shows "idsOk t"
proof -
  obtain f where f: "bdPayments t = map f (bdPayments s)" "\<And>p. sameBill p (f p)"
      "\<And>p. payStatus (f p) = (if payId p = i \<and> payStatus p = a then b else payStatus p)"
    using mv by (rule movesPaymentE) blast
  have fs: "\<And>p. payId (f p) = payId p" "\<And>p. payIdempotencyKey (f p) = payIdempotencyKey p"
    using sameBillD[OF f(2)] by simp_all
  have "invId ` set (bdInvoices t) = invId ` set (bdInvoices s)" using inv by (metis list.set_map)
  then have r: "\<forall>r \<in> set (bdInvoices t). invId r < bdNextId t"
    using ok nx unfolding idsOk_def by (metis (no_types, lifting) image_iff order_less_le_trans)
  have l: "lrTransactionId l < bdNextId t" if "l \<in> set (bdLedger t)" for l
    using led that ok nx unfolding idsOk_def by (metis order_less_le_trans)
  have p: "payId p < bdNextId t" if "p \<in> set (bdPayments s)" for p
    using that ok nx unfolding idsOk_def by (metis order_less_le_trans)
  show ?thesis
    using ok r l p unfolding idsOk_def inv by (simp add: f(1) o_def fs)
qed

lemma billedOk_moves:
  assumes ok: "billedOk s" and mv: "movesPayment i a b s t" and st: "b \<in> {CREATED, PAID, REFUNDED}"
    and inv: "map (\<lambda>r. (invId r, invTotalAmount r, invCurrency r)) (bdInvoices t)
            = map (\<lambda>r. (invId r, invTotalAmount r, invCurrency r)) (bdInvoices s)"
  shows "billedOk t"
proof -
  obtain f where f: "bdPayments t = map f (bdPayments s)" "\<And>p. sameBill p (f p)"
      "\<And>p. payStatus (f p) = (if payId p = i \<and> payStatus p = a then b else payStatus p)"
    using mv by (rule movesPaymentE) blast
  let ?k = "\<lambda>r. (invId r, invTotalAmount r, invCurrency r)"
  have k: "?k ` set (bdInvoices t) = ?k ` set (bdInvoices s)"
    using arg_cong[OF inv, of set] by (simp only: list.set_map)
  have pos: "0 < invTotalAmount r" if "r \<in> set (bdInvoices t)" for r
  proof -
    from imageI[OF that, of ?k] have "?k r \<in> ?k ` set (bdInvoices s)" unfolding k .
    then obtain r' where r': "?k r = ?k r'" "r' \<in> set (bdInvoices s)" by (rule imageE)
    then have "0 < invTotalAmount r'" using ok unfolding billedOk_def by blast
    then show ?thesis using r'(1) by simp
  qed
  have bill: "payStatus (f p) \<in> {CREATED, PAID, REFUNDED} \<and> (\<exists>r \<in> set (bdInvoices t). invId r = payInvoiceId (f p)
      \<and> invTotalAmount r = payAmount (f p) \<and> invCurrency r = payCurrency (f p))" if p: "p \<in> set (bdPayments s)" for p
  proof -
    obtain r where r: "r \<in> set (bdInvoices s)" "?k r = (payInvoiceId p, payAmount p, payCurrency p)"
      using ok p unfolding billedOk_def by blast
    from imageI[OF r(1), of ?k] have "?k r \<in> ?k ` set (bdInvoices t)" unfolding k .
    then obtain r' where r': "?k r = ?k r'" "r' \<in> set (bdInvoices t)" by (rule imageE)
    have "invId r' = payInvoiceId (f p) \<and> invTotalAmount r' = payAmount (f p) \<and> invCurrency r' = payCurrency (f p)"
      using r'(1) r(2) sameBillD[OF f(2)[of p]] by simp
    with r'(2) have "\<exists>r \<in> set (bdInvoices t). invId r = payInvoiceId (f p) \<and> invTotalAmount r = payAmount (f p)
      \<and> invCurrency r = payCurrency (f p)" by blast
    moreover have "payStatus (f p) \<in> {CREATED, PAID, REFUNDED}"
      using ok p st unfolding billedOk_def by (auto simp: f(3))
    ultimately show ?thesis by blast
  qed
  from pos bill show ?thesis unfolding billedOk_def f(1) by simp
qed

lemma invoicesOk_moves:
  assumes ok: "invoicesOk s" and ids: "idsOk s" and q: "q \<in> set (bdPayments s)" "payStatus q = a"
    and mv: "movesPayment (payId q) a b s t" and ab: "(a = CREATED \<longrightarrow> b \<noteq> CREATED) \<and> (a \<noteq> CREATED \<longrightarrow> b \<noteq> CREATED)"
    and c: "c \<in> {PAID, REFUNDED}"
    and inv: "\<exists>g. bdInvoices t = map g (bdInvoices s) \<and> (\<forall>r. invId (g r) = invId r
        \<and> invStatus (g r) = (if invId r = payInvoiceId q then c else invStatus r))"
  shows "invoicesOk t"
proof -
  obtain f where f: "bdPayments t = map f (bdPayments s)" "\<And>p. sameBill p (f p)"
      "\<And>p. payStatus (f p) = (if payId p = payId q \<and> payStatus p = a then b else payStatus p)"
    using mv by (rule movesPaymentE) blast
  obtain g where g: "bdInvoices t = map g (bdInvoices s)" "\<And>r. invId (g r) = invId r"
      "\<And>r. invStatus (g r) = (if invId r = payInvoiceId q then c else invStatus r)" using inv by blast
  have fs: "payInvoiceId (f p) = payInvoiceId p" for p using sameBillD[OF f(2)[of p]] by simp
  have each: "invStatus (g r) \<in> {CREATED, PAID, REFUNDED} \<and>
     (invStatus (g r) = CREATED \<longleftrightarrow> (\<forall>p \<in> set (bdPayments s). payInvoiceId p = invId r \<longrightarrow> payStatus (f p) = CREATED))"
    if r: "r \<in> set (bdInvoices s)" for r
  proof (cases "invId r = payInvoiceId q")
    case True
    then have "invStatus (g r) \<noteq> CREATED" "invStatus (g r) \<in> {CREATED, PAID, REFUNDED}" using c by (auto simp: g(3))
    moreover have "payStatus (f q) \<noteq> CREATED" using ab q by (auto simp: f(3))
    ultimately show ?thesis using q True by auto
  next
    case False
    have same: "payStatus (f p) = payStatus p" if "p \<in> set (bdPayments s)" "payInvoiceId p = invId r" for p
      using that False idsOk_payment[OF ids that(1) q(1)] by (auto simp: f(3))
    show ?thesis using ok r False same unfolding invoicesOk_def by (auto simp: g(3))
  qed
  show ?thesis
    unfolding invoicesOk_def f(1) g(1) list.set_map ball_simps(9) g(2) fs using each by blast
qed

lemma rowsOf_append: "bdLedger t = bdLedger s @ rows \<Longrightarrow> rowsOf i t = rowsOf i s @ filter (\<lambda>l. lrPaymentId l = i) rows"
  by (simp add: rowsOf_def)

lemma filter_ledgerRows:
  "filter (\<lambda>l. lrPaymentId l = i) (ledgerRows t p w es) = (if payId p = i then ledgerRows t p w es else [])"
  by (induction es) (auto simp: ledgerRows_def)

lemma rowsOf_tid: "idsOk s \<Longrightarrow> l \<in> set (rowsOf i s) \<Longrightarrow> lrTransactionId l < bdNextId s"
  by (auto simp: idsOk_def rowsOf_def)

lemma successRows_tid: "rows = successRows t prov p \<Longrightarrow> \<exists>l \<in> set rows. lrTransactionId l = t"
  by (simp add: successRows_def ledgerRows_def posting_def)

text \<open>
  A compare-and-set of the payment \<open>q\<close> that appends to its ledger rows what its new status
  asks for keeps the ledger in step with the payments.
\<close>

lemma postedOk_moves:
  assumes ok: "postedOk s" and ids: "idsOk s" and q: "q \<in> set (bdPayments s)" "payStatus q = a"
    and mv: "movesPayment (payId q) a b s t"
    and led: "bdLedger t = bdLedger s @ rows" "\<forall>l \<in> set rows. lrPaymentId l = payId q"
    and post: "\<And>q'. sameBill q q' \<Longrightarrow> payStatus q' = b \<Longrightarrow> postedAs q (rowsOf (payId q) s) \<Longrightarrow>
       postedAs q' (rowsOf (payId q) s @ rows)"
  shows "postedOk t"
proof -
  obtain f where f: "bdPayments t = map f (bdPayments s)" "\<And>p. sameBill p (f p)"
      "\<And>p. payStatus (f p) = (if payId p = payId q \<and> payStatus p = a then b else payStatus p)"
    using mv by (rule movesPaymentE) blast
  have new: "filter (\<lambda>l. lrPaymentId l = i) rows = (if i = payId q then rows else [])" for i
    using led(2) by (auto simp: filter_empty_conv)
  have "postedAs (f p) (rowsOf (payId (f p)) t)" if p: "p \<in> set (bdPayments s)" for p
  proof (cases "payId p = payId q")
    case True
    then have "p = q" using idsOk_payment[OF ids p q(1)] by simp
    moreover have "postedAs q (rowsOf (payId q) s)" using ok q unfolding postedOk_def by blast
    ultimately show ?thesis
      using post[OF f(2)[of q]] q f(3)[of q] sameBillD(1)[OF f(2)[of q]] by (simp add: rowsOf_append[OF led(1)] new)
  next
    case False
    have "postedAs p (rowsOf (payId p) s)" using ok p unfolding postedOk_def by blast
    then have "postedAs (f p) (rowsOf (payId p) s)"
      using postedAs_sameBill[OF f(2)[of p]] f(3)[of p] False by simp
    then show ?thesis using sameBillD(1)[OF f(2)[of p]] False by (simp add: rowsOf_append[OF led(1)] new)
  qed
  moreover have "\<forall>l \<in> set (bdLedger t). lrPaymentId l \<in> payId ` set (bdPayments t)"
    unfolding moves_same[OF mv] using ok q led unfolding postedOk_def by auto
  ultimately show ?thesis unfolding postedOk_def by (simp add: f(1))
qed

lemma eventsOk_moves:
  assumes ok: "eventsOk s" and ids: "idsOk s" and q: "q \<in> set (bdPayments s)" "payStatus q = a"
    and mv: "movesPayment (payId q) a b s t"
    and out: "bdOutbox t = bdOutbox s @ [(e, payId q)]" and h: "eventHistory b = eventHistory a @ [e]"
  shows "eventsOk t"
proof -
  obtain f where f: "bdPayments t = map f (bdPayments s)" "\<And>p. sameBill p (f p)"
      "\<And>p. payStatus (f p) = (if payId p = payId q \<and> payStatus p = a then b else payStatus p)"
    using mv by (rule movesPaymentE) blast
  have "eventsOf (payId (f p)) t = eventHistory (payStatus (f p))" if p: "p \<in> set (bdPayments s)" for p
  proof (cases "payId p = payId q")
    case True
    then have "p = q" using idsOk_payment[OF ids p q(1)] by simp
    moreover have "eventsOf (payId q) s = eventHistory a" using ok q unfolding eventsOk_def by blast
    ultimately show ?thesis using q h sameBillD(1)[OF f(2)[of q]] by (simp add: f(3) out eventsOf_def)
  next
    case False
    have "eventsOf (payId p) s = eventHistory (payStatus p)" using ok p unfolding eventsOk_def by blast
    then show ?thesis using False sameBillD(1)[OF f(2)[of p]] by (auto simp: f(3) out eventsOf_def)
  qed
  moreover have "\<forall>e \<in> set (bdOutbox t). snd e \<in> payId ` set (bdPayments t)"
    unfolding moves_same[OF mv] using ok q out unfolding eventsOk_def by auto
  ultimately show ?thesis unfolding eventsOk_def by (simp add: f(1))
qed

lemma numbersOk_same: "map invNumber (bdInvoices t) = map invNumber (bdInvoices s) \<Longrightarrow> numbersOk s \<Longrightarrow> numbersOk t"
  unfolding numbersOk_def by (metis list.set_map)

section \<open>Every step keeps the invariants\<close>

lemma billingOk_tables:
  assumes "bdInvoices t = bdInvoices s" "bdPayments t = bdPayments s" "bdLedger t = bdLedger s"
    "bdOutbox t = bdOutbox s" "bdNextId t = bdNextId s"
  shows "billingOk t = billingOk s"
  unfolding billingOk_def idsOk_def billedOk_def postedOk_def rowsOf_def eventsOk_def eventsOf_def invoicesOk_def
    numbersOk_def assms ..

lemma invoiceText_known:
  "goodNumber y n \<Longrightarrow> goodNumber z m \<Longrightarrow> invoiceText y n = invoiceText z m \<Longrightarrow> y = z \<and> n = m"
  using invoiceText_inject[of y n z m] by (simp add: goodNumber_def)

lemma next_known:
  assumes ok: "numbersOk s" and known: "knownNumber s year seen" and n: "n = nextInvoiceSequence seen"
    and good: "goodNumber year n"
  shows "n = 1 \<or> invoiceText year (n - 1) \<in> invNumber ` set (bdInvoices s)"
proof (cases seen)
  case None
  then show ?thesis using n by (simp add: nextInvoiceSequence_def)
next
  case (Some x)
  then have x: "x \<in> invNumber ` set (bdInvoices s)" "startsWith x (yearPrefix year)"
    using known by (simp_all add: knownNumber_def)
  obtain y m where ym: "goodNumber y m" "x = invoiceText y m" using ok x(1) unfolding numbersOk_def by blast
  have "y = year" using x(2) ym good startsWith_invoiceText[of y year m] by (simp add: goodNumber_def)
  moreover have "n = m + 1"
    using n Some ym parse_invoiceText[of y m] by (simp add: nextInvoiceSequence_def goodNumber_def)
  ultimately show ?thesis using x(1) ym(2) by simp
qed

lemma numbersOk_append:
  assumes ok: "numbersOk s" and known: "knownNumber s year seen" and n: "n = nextInvoiceSequence seen"
    and good: "goodNumber year n" and new: "invoiceText year n \<notin> invNumber ` set (bdInvoices s)"
    and t: "bdInvoices t = bdInvoices s @ [r]" "invNumber r = invoiceText year n"
  shows "numbersOk t"
proof -
  let ?N = "invNumber ` set (bdInvoices s)"
  have N: "invNumber ` set (bdInvoices t) = insert (invoiceText year n) ?N" using t by simp
  have below: "invoiceText year m \<in> insert (invoiceText year n) ?N" if "1 \<le> m" "m \<le> n" for m
  proof (cases "m = n")
    case False
    then have mn: "m \<le> n - 1" "n \<noteq> 1" using that by linarith+
    then have "invoiceText year (n - 1) \<in> ?N" using next_known[OF ok known n good] by blast
    moreover have "goodNumber year (n - 1)" using good that False by (simp add: goodNumber_def)
    ultimately show ?thesis using ok that(1) mn(1) unfolding numbersOk_def by blast
  qed simp
  have gap: "invoiceText y m \<in> insert (invoiceText year n) ?N"
    if g: "goodNumber y k" "invoiceText y k \<in> insert (invoiceText year n) ?N" "1 \<le> m" "m \<le> k" for y k m
  proof (cases "invoiceText y k \<in> ?N")
    case True
    then show ?thesis using ok g unfolding numbersOk_def by blast
  next
    case False
    then have "y = year \<and> k = n" using g(1,2) good invoiceText_known by blast
    then show ?thesis using below g by blast
  qed
  have d: "distinct (map invNumber (bdInvoices t))" using ok new t unfolding numbersOk_def by simp
  have f: "\<forall>x \<in> insert (invoiceText year n) ?N. \<exists>y n. goodNumber y n \<and> x = invoiceText y n"
    using ok good unfolding numbersOk_def by blast
  show ?thesis unfolding numbersOk_def N using d f gap by blast
qed

lemma payments_below: "idsOk s \<Longrightarrow> p \<in> set (bdPayments s) \<Longrightarrow> payId p \<noteq> bdNextId s"
  by (auto simp: idsOk_def)

lemma billed_below: "idsOk s \<Longrightarrow> billedOk s \<Longrightarrow> p \<in> set (bdPayments s) \<Longrightarrow> payInvoiceId p \<noteq> bdNextId s"
  unfolding billedOk_def idsOk_def by (metis nat_neq_iff)

lemma invoiced_ok:
  assumes ok: "billingOk s" and pos: "0 < ciTotalTiyin inp" and known: "knownNumber s year seen"
    and eff: "invoiced inp year (nextInvoiceSequence seen) s t"
  shows "billingOk t"
proof -
  have oks: "idsOk s" "billedOk s" "postedOk s" "eventsOk s" "invoicesOk s" "numbersOk s"
    using ok by (simp_all add: billingOk_def)
  obtain r where t: "bdInvoices t = bdInvoices s @ [r]" "invId r = bdNextId s"
      "invNumber r = invoiceText year (nextInvoiceSequence seen)" "invTotalAmount r = ciTotalTiyin inp"
      "invStatus r = CREATED" "bdPayments t = bdPayments s" "bdLedger t = bdLedger s" "bdOutbox t = bdOutbox s"
      "bdNextId t = Suc (bdNextId s)" and good: "goodNumber year (nextInvoiceSequence seen)"
      and new: "invoiceText year (nextInvoiceSequence seen) \<notin> invNumber ` set (bdInvoices s)"
    using eff unfolding invoiced_def goodNumber_def by blast
  have "idsOk t" using oks(1) unfolding idsOk_def by (auto simp: t less_Suc_eq)
  moreover have "billedOk t" using oks(2) pos unfolding billedOk_def t by (auto simp: t(4))
  moreover have "postedOk t" "eventsOk t"
    using oks(3,4) unfolding postedOk_def rowsOf_def eventsOk_def eventsOf_def t by blast+
  moreover have "invoicesOk t"
    using oks(5) billed_below[OF oks(1,2)] unfolding invoicesOk_def t by (auto simp: t(2,5))
  moreover have "numbersOk t" by (rule numbersOk_append[OF oks(6) known refl good new t(1,3)])
  ultimately show ?thesis by (simp add: billingOk_def)
qed

lemma charged_ok:
  assumes ok: "billingOk s" and r: "r \<in> set (bdInvoices s)" "cpInvoiceId inp = invId r"
      "cpAmountTiyin inp = invTotalAmount r" "cpCurrency inp = invCurrency r"
    and eff: "charged inp s t"
  shows "billingOk t"
proof -
  have oks: "idsOk s" "billedOk s" "postedOk s" "eventsOk s" "invoicesOk s" "numbersOk s"
    using ok by (simp_all add: billingOk_def)
  obtain p where t: "bdPayments t = bdPayments s @ [p]" "payId p = bdNextId s" "payInvoiceId p = cpInvoiceId inp"
      "payAmount p = cpAmountTiyin inp" "payCurrency p = cpCurrency inp" "payIdempotencyKey p = cpIdempotencyKey inp"
      "payStatus p = CREATED" "bdInvoices t = bdInvoices s" "bdLedger t = bdLedger s" "bdOutbox t = bdOutbox s"
      "bdNextId t = Suc (bdNextId s)" and key: "cpIdempotencyKey inp \<notin> payIdempotencyKey ` set (bdPayments s)"
    using eff unfolding charged_def by blast
  have "idsOk t" using oks(1) key unfolding idsOk_def by (auto simp: t less_Suc_eq)
  moreover have "billedOk t" using oks(2) r unfolding billedOk_def t by (auto simp: t)
  moreover have "postedOk t"
  proof -
    have "rowsOf (payId p) s = []"
      using oks(3) payments_below[OF oks(1)] unfolding postedOk_def rowsOf_def by (fastforce simp: filter_empty_conv t(2))
    then have "postedAs p (rowsOf (payId p) s)" by (simp add: postedAs_def t(7))
    then show ?thesis using oks(3) unfolding postedOk_def rowsOf_def t(1,9) by auto
  qed
  moreover have "eventsOk t"
  proof -
    have "eventsOf (payId p) s = []"
      using oks(4) payments_below[OF oks(1)] unfolding eventsOk_def eventsOf_def by (fastforce simp: filter_empty_conv t(2))
    then have "eventsOf (payId p) s = eventHistory (payStatus p)" by (simp add: t(7))
    then show ?thesis using oks(4) unfolding eventsOk_def eventsOf_def t(1,10) by auto
  qed
  moreover have "invoicesOk t" using oks(5) unfolding invoicesOk_def t by (auto simp: t(7))
  moreover have "numbersOk t" using oks(6) unfolding numbersOk_def t .
  ultimately show ?thesis by (simp add: billingOk_def)
qed

lemma referenced_ok:
  assumes ok: "billingOk s" and eff: "referenced i ref s t"
  shows "billingOk t"
proof -
  have oks: "idsOk s" "billedOk s" "postedOk s" "eventsOk s" "invoicesOk s" "numbersOk s"
    using ok by (simp_all add: billingOk_def)
  have "\<exists>f. bdPayments t = map f (bdPayments s) \<and> (\<forall>p. sameBill p (f p)) \<and> (\<forall>p. payStatus (f p) = payStatus p)"
    using eff unfolding referenced_def
    by (intro exI[of _ "\<lambda>p. if payId p = i then withRef ref p else p"]) (auto simp: sameBill_def)
  then obtain f where tf: "bdPayments t = map f (bdPayments s)" and f: "\<And>p. sameBill p (f p)"
      "\<And>p. payStatus (f p) = payStatus p" by blast
  have t: "bdPayments t = map f (bdPayments s)" "bdInvoices t = bdInvoices s" "bdLedger t = bdLedger s"
      "bdOutbox t = bdOutbox s" "bdNextId t = bdNextId s"
    using eff tf by (simp_all add: referenced_def)
  note fs = sameBillD[OF f(1)]
  have "idsOk t" using oks(1) unfolding idsOk_def t by (simp add: o_def fs[symmetric])
  moreover have "billedOk t" using oks(2) unfolding billedOk_def t by (simp add: f(2) fs[symmetric])
  moreover have "postedOk t"
  proof -
    have "postedAs (f p) rows = postedAs p rows" for p rows
      using postedAs_sameBill[OF f(1), of p rows] f(2)[of p] by simp
    then show ?thesis
      using oks(3) unfolding postedOk_def rowsOf_def t by (simp add: fs(1)[symmetric] image_image)
  qed
  moreover have "eventsOk t"
    using oks(4) unfolding eventsOk_def eventsOf_def t by (simp add: f(2) fs(1)[symmetric] image_image)
  moreover have "invoicesOk t"
    using oks(5) unfolding invoicesOk_def t list.set_map ball_simps(9) f(2) fs(2)[symmetric] .
  moreover have "numbersOk t" using oks(6) unfolding numbersOk_def t .
  ultimately show ?thesis by (simp add: billingOk_def)
qed

lemma collected_ok:
  assumes ok: "billingOk s" and read: "earlierRead s p"
    and es: "buildEntryFeePaymentEntries prov (payAmount p) = Inr (apEntries inp)" and eff: "collected p inp now s t"
  shows "billingOk t"
proof -
  have oks: "idsOk s" "billedOk s" "postedOk s" "eventsOk s" "invoicesOk s" "numbersOk s"
    using ok by (simp_all add: billingOk_def)
  have cas: "inStatus (payId p) (payStatus p) s" and st: "payStatus p \<in> {CREATED, PENDING, REFUND_REQUESTED}"
    using eff by (simp_all add: collected_def)
  obtain q where q: "q \<in> set (bdPayments s)" "sameBill p q" "payStatus q = payStatus p"
      "payStatus p \<in> {CREATED, PAID, REFUNDED}"
    using cas_current[OF oks(1,2) read cas] by metis
  then have created: "payStatus p = CREATED" "payStatus q = CREATED" using st by auto
  have id: "payId p = payId q" "payInvoiceId p = payInvoiceId q" using sameBillD[OF q(2)] by simp_all
  have mv: "movesPayment (payId q) CREATED PAID s t" using collected_moves[OF eff] id created by simp
  let ?rows = "successRows (bdNextId s) prov p"
  have led: "bdLedger t = bdLedger s @ ?rows"
    using eff posting_built[OF es] by (simp add: collected_def successRows_def)
  have out: "bdOutbox t = bdOutbox s @ [(PaymentCompleted, payId q)]" and nx: "bdNextId t = Suc (bdNextId s)"
    and inv: "bdInvoices t = map (\<lambda>r. if invId r = payInvoiceId q then r\<lparr>invStatus := PAID, invPaidAt := Some now\<rparr> else r) (bdInvoices s)"
    using eff id by (simp_all add: collected_def)
  have "idsOk t"
  proof (rule idsOk_moves[OF oks(1) mv])
    show "map invId (bdInvoices t) = map invId (bdInvoices s)" by (simp add: inv)
    show "\<forall>l \<in> set (bdLedger t). l \<in> set (bdLedger s) \<or> lrTransactionId l < bdNextId t"
      by (auto simp: led nx successRows_def ledgerRows_def)
  qed (simp add: nx)
  moreover have "billedOk t" by (rule billedOk_moves[OF oks(2) mv]) (simp_all add: inv)
  moreover have "postedOk t"
  proof (rule postedOk_moves[OF oks(3,1) q(1) created(2) mv led])
    show "\<forall>l \<in> set ?rows. lrPaymentId l = payId q" by (auto simp: successRows_def ledgerRows_def id)
    fix q' assume q': "sameBill q q'" "payStatus q' = PAID" "postedAs q (rowsOf (payId q) s)"
    have "sameBill p q'" using q(2) q'(1) by (simp add: sameBill_def)
    then show "postedAs q' (rowsOf (payId q) s @ ?rows)"
      using q'(2,3) created(2) rows_sameBill(2)[of p q'] by (auto simp: postedAs_def)
  qed
  moreover have "eventsOk t" by (rule eventsOk_moves[OF oks(4,1) q(1) created(2) mv out]) simp
  moreover have "invoicesOk t"
  proof (rule invoicesOk_moves[OF oks(5,1) q(1) created(2) mv, where c = PAID])
    show "\<exists>g. bdInvoices t = map g (bdInvoices s) \<and> (\<forall>r. invId (g r) = invId r
        \<and> invStatus (g r) = (if invId r = payInvoiceId q then PAID else invStatus r))"
      unfolding inv by (rule exI, rule conjI[OF refl]) simp
  qed simp_all
  moreover have "numbersOk t" by (rule numbersOk_same[OF _ oks(6)]) (simp add: inv)
  ultimately show ?thesis by (simp add: billingOk_def)
qed

lemma refunded_ok:
  assumes ok: "billingOk s" and read: "earlierRead s p"
    and es: "buildEntryFeePaymentEntries (payProvider p) (payAmount p) = Inr posted"
      "reverseLedgerEntries posted = Inr (arEntries inp)"
    and eff: "refunded p inp now s t"
  shows "billingOk t"
proof -
  have oks: "idsOk s" "billedOk s" "postedOk s" "eventsOk s" "invoicesOk s" "numbersOk s"
    using ok by (simp_all add: billingOk_def)
  have cas: "inStatus (payId p) PAID s" using eff by (simp add: refunded_def)
  obtain q where q: "q \<in> set (bdPayments s)" "sameBill p q" "payStatus q = PAID"
    using cas_current[OF oks(1,2) read cas] by metis
  have id: "payId p = payId q" "payInvoiceId p = payInvoiceId q" using sameBillD[OF q(2)] by simp_all
  have mv: "movesPayment (payId q) PAID REFUNDED s t" using refunded_moves[OF eff] id by simp
  let ?rows = "refundRows (bdNextId s) p"
  have led: "bdLedger t = bdLedger s @ ?rows"
    using eff posting_built[OF es(1)] reversed_built[OF es(2)] by (simp add: refunded_def refundRows_def)
  have out: "bdOutbox t = bdOutbox s @ [(RefundIssued, payId q)]" and nx: "bdNextId t = Suc (bdNextId s)"
    and inv: "bdInvoices t = map (\<lambda>r. if invId r = payInvoiceId q then r\<lparr>invStatus := REFUNDED\<rparr> else r) (bdInvoices s)"
    using eff id by (simp_all add: refunded_def)
  have "idsOk t"
  proof (rule idsOk_moves[OF oks(1) mv])
    show "map invId (bdInvoices t) = map invId (bdInvoices s)" by (simp add: inv)
    show "\<forall>l \<in> set (bdLedger t). l \<in> set (bdLedger s) \<or> lrTransactionId l < bdNextId t"
      by (auto simp: led nx refundRows_def ledgerRows_def)
  qed (simp add: nx)
  moreover have "billedOk t" by (rule billedOk_moves[OF oks(2) mv]) (simp_all add: inv)
  moreover have "postedOk t"
  proof (rule postedOk_moves[OF oks(3,1) q(1) q(3) mv led])
    show "\<forall>l \<in> set ?rows. lrPaymentId l = payId q" by (auto simp: refundRows_def ledgerRows_def id)
    fix q' assume q': "sameBill q q'" "payStatus q' = REFUNDED" "postedAs q (rowsOf (payId q) s)"
    obtain t0 prov where rows: "rowsOf (payId q) s = successRows t0 prov q" using q'(3) q(3) by (auto simp: postedAs_def)
    obtain l where "l \<in> set (rowsOf (payId q) s)" "lrTransactionId l = t0" using successRows_tid[OF rows] by blast
    then have "t0 < bdNextId s" using rowsOf_tid[OF oks(1)] by blast
    moreover have "sameBill p q'" using q(2) q'(1) by (simp add: sameBill_def)
    ultimately have "postedAs q' (successRows t0 prov q' @ refundRows (bdNextId s) q')"
      using q'(2) by (auto simp: postedAs_def)
    then show "postedAs q' (rowsOf (payId q) s @ ?rows)"
      unfolding rows rows_sameBill(2)[OF q'(1)] rows_sameBill(3)[OF \<open>sameBill p q'\<close>] .
  qed
  moreover have "eventsOk t" by (rule eventsOk_moves[OF oks(4,1) q(1) q(3) mv out]) simp
  moreover have "invoicesOk t"
  proof (rule invoicesOk_moves[OF oks(5,1) q(1) q(3) mv, where c = REFUNDED])
    show "\<exists>g. bdInvoices t = map g (bdInvoices s) \<and> (\<forall>r. invId (g r) = invId r
        \<and> invStatus (g r) = (if invId r = payInvoiceId q then REFUNDED else invStatus r))"
      unfolding inv by (rule exI, rule conjI[OF refl]) simp
  qed simp_all
  moreover have "numbersOk t" by (rule numbersOk_same[OF _ oks(6)]) (simp add: inv)
  ultimately show ?thesis by (simp add: billingOk_def)
qed

lemma billingOk_step: "billingStep s t \<Longrightarrow> billingOk s \<Longrightarrow> billingOk t"
proof (induction rule: billingStep_cases)
qed (use billingOk_tables invoiced_ok charged_ok referenced_ok collected_ok refunded_ok in metis)+

lemma billingOk_empty: "emptyBilling s \<Longrightarrow> billingOk s"
  by (simp add: emptyBilling_def billingOk_def idsOk_def billedOk_def postedOk_def eventsOk_def invoicesOk_def numbersOk_def)

lemma billingOk_reachable: "reachableBilling s \<Longrightarrow> billingOk s"
proof -
  have "billingOk t" if "billingStep\<^sup>*\<^sup>* s0 t" "emptyBilling s0" for s0 t
    using that by (induction rule: rtranclp_induct) (auto intro: billingOk_step billingOk_empty)
  then show "reachableBilling s \<Longrightarrow> billingOk s" unfolding reachableBilling_def by blast
qed

end
