(* ===== verification/BillingTrace.thy ===== *)
theory BillingTrace
  imports BillingInvariants
begin

text \<open>
  Every operation of the billing service is a sequence of the steps of \<open>BillingRuns\<close>, so the
  invariants hold along every run of requests.
\<close>

section \<open>Evaluating the first action of a sequence\<close>

lemma bind_eval:
  "bindS (returnS x) f1 s1 = f1 x s1" "bindS (throwS e) f2 s2 = (Inl e, s2)" "bindS (getS g) f3 s3 = f3 (g s3) s3"
  "bindS (guardS c e) f4 s4 = (if c then (Inl e, s4) else f4 () s4)" "bindS (putS h) f5 s5 = f5 () (h s5)"
  "bindS (liftE k r) f6 s6 = (case r of Inl e \<Rightarrow> (Inl (k e), s6) | Inr x \<Rightarrow> f6 x s6)"
  "bindS (ledgerE r') f7 s7 = (case r' of Inl e \<Rightarrow> (Inl (OtherError (LedgerError e)), s7) | Inr x \<Rightarrow> f7 x s7)"
  "bindS (metric m) f8 s8 = f8 () (s8\<lparr>bdMetrics := bdMetrics s8 @ [m]\<rparr>)"
  by (simp_all add: bindS_def liftE_def ledgerE_def metric_def split: sum.splits)

section \<open>Operations as sequences of steps\<close>

definition traced :: "'a billing \<Rightarrow> bool" where
  "traced m \<longleftrightarrow> (\<forall>s. billingStep\<^sup>*\<^sup>* s (snd (m s)))"

named_theorems trace_intros "operations that only take steps"

lemma traced_basic [trace_intros]:
  "traced (returnS x)" "traced (throwS e)" "traced (getS f)" "traced (guardS c e)" "traced (liftE g r)"
  by (auto simp: traced_def liftE_def split: sum.splits)

lemma traced_metric [trace_intros]: "traced (metric m)" "traced (failPayment prov reason)"
  by (auto simp: traced_def metric_def failPayment_def intro: stepMetrics)

lemma snd_bindS: "snd (bindS m f s) = (case fst (m s) of Inl e \<Rightarrow> snd (m s) | Inr x \<Rightarrow> snd (f x (snd (m s))))"
  by (simp add: bindS_def split: prod.splits sum.splits)

lemma traced_bind_at:
  "billingStep\<^sup>*\<^sup>* s (snd (m s)) \<Longrightarrow> (\<And>x. traced (f x)) \<Longrightarrow> billingStep\<^sup>*\<^sup>* s (snd (bindS m f s))"
  unfolding snd_bindS traced_def by (auto split: sum.splits intro: rtranclp_trans)

lemma traced_bind [trace_intros]: "traced m \<Longrightarrow> (\<And>x. traced (f x)) \<Longrightarrow> traced (bindS m f)"
  unfolding traced_def[of "bindS m f"] by (auto intro: traced_bind_at simp: traced_def[of m])

lemma traced_if [trace_intros]: "traced m \<Longrightarrow> traced m' \<Longrightarrow> traced (if c then m else m')"
  by simp

lemma snd_timed:
  "snd (timedProviderCall prov m s) = snd (m s) \<or> billingStep (snd (m s)) (snd (timedProviderCall prov m s))"
  by (auto simp: timedProviderCall_def bindS_def failPayment_def metric_def intro: stepMetrics split: prod.splits sum.splits)

lemma traced_timed_at: "billingStep\<^sup>*\<^sup>* s (snd (m s)) \<Longrightarrow> billingStep\<^sup>*\<^sup>* s (snd (timedProviderCall prov m s))"
  using snd_timed[of prov m s] by (metis rtranclp.rtrancl_into_rtrancl)

lemma traced_timed [trace_intros]: "traced m \<Longrightarrow> traced (timedProviderCall prov m)"
  by (simp add: traced_def traced_timed_at)

lemma traced_checkout [trace_intros]: "traced (setProviderCheckout i ref)"
  by (auto simp: traced_def intro: stepCheckout)

lemma tracedD: "traced m \<Longrightarrow> billingStep\<^sup>*\<^sup>* s (snd (m s))"
  by (simp add: traced_def)

lemma bindS_assoc: "bindS (bindS m f) g = bindS m (\<lambda>x. bindS (f x) g)"
  by (rule ext) (simp add: bindS_def split: prod.splits sum.splits)

lemma timed_liftE:
  "bindS (timedProviderCall prov (liftE k r)) f s =
     (case r of Inl e \<Rightarrow> (Inl (k e), s\<lparr>bdMetrics := bdMetrics s @ [PaymentFailure prov ''PROVIDER_ERROR'']\<rparr>)
      | Inr x \<Rightarrow> f x s)"
  by (simp add: timedProviderCall_def liftE_def bindS_def failPayment_def metric_def split: sum.splits)

section \<open>Invoices\<close>

lemma lastNumber_known: "knownNumber s year (lastNumberOf year s)"
proof (cases "lastNumberOf year s")
  case (Some x)
  then have "x \<in> set (filter (\<lambda>n. startsWith n (yearPrefix year)) (map invNumber (bdInvoices s)))"
    unfolding lastNumberOf_def by (blast dest: greatestText_SomeD)
  with Some show ?thesis by (auto simp: knownNumber_def)
qed (simp add: knownNumber_def)

lemma createInvoiceLoop_steps:
  "0 < ciTotalTiyin inp \<Longrightarrow> (\<And>y q u. (y, q) \<in> set tries \<Longrightarrow> knownNumber u y (q u)) \<Longrightarrow>
   billingStep\<^sup>*\<^sup>* s (snd (createInvoiceLoop inp now tries s))"
proof (induction tries arbitrary: s)
  case (Cons a tries)
  obtain y q where a: "a = (y, q)" by (cases a)
  have step: "billingStep s (snd (createInvoiceAttempt inp y now (q s) s))"
    by (rule stepInvoice) (use Cons.prems a in auto)
  obtain r s' where m: "createInvoiceAttempt inp y now (q s) s = (r, s')" by force
  have rest: "billingStep\<^sup>*\<^sup>* s' (snd (createInvoiceLoop inp now tries s'))"
    using Cons.IH[OF Cons.prems(1), of s'] Cons.prems(2) by simp
  have go: "billingStep s s'" using step m by simp
  show ?case
  proof (cases r)
    case (Inl e)
    then show ?thesis
      using go rest converse_rtranclp_into_rtranclp[OF go rest] by (simp add: a m r_into_rtranclp)
  next
    case (Inr x)
    then show ?thesis using go by (simp add: a m r_into_rtranclp)
  qed
qed simp

lemma createInvoice_steps: "0 < ciTotalTiyin inp \<Longrightarrow> billingStep\<^sup>*\<^sup>* s (snd (createInvoice inp year now s))"
  unfolding createInvoice_def by (rule createInvoiceLoop_steps) (auto simp: lastNumber_known)

lemma createInvoiceForRegistration_steps:
  "billingStep\<^sup>*\<^sup>* s (snd (createInvoiceForRegistration playerOf actor regId year now s))"
  unfolding createInvoiceForRegistration_def
  by (auto simp: bindS_def Let_def createInvoice_steps split: option.split)

section \<open>Payments\<close>

lemma traced_replay [trace_intros]: "traced (replayOrConflict p i prov)"
  by (simp add: replayOrConflict_def trace_intros)

lemma initiateWith_steps:
  assumes "r \<in> set (bdInvoices s)"
  shows "billingStep\<^sup>*\<^sup>* s (snd (initiateWith adapter actor r prov key now s))"
  unfolding initiateWith_def
proof (rule traced_bind_at)
  show "billingStep\<^sup>*\<^sup>* s (snd (createPaymentIdempotent \<lparr>cpInvoiceId = invId r, cpProvider = prov,
         cpAmountTiyin = invTotalAmount r, cpCurrency = invCurrency r,
         cpIdempotencyKey = key, cpActorUserId = acUserId actor\<rparr> now s))"
    by (rule r_into_rtranclp, rule stepPayment[OF assms]) simp_all
qed (auto split: prod.split intro!: trace_intros)

lemma findInvoice_mem: "findInvoiceById i s = Some r \<Longrightarrow> r \<in> set (bdInvoices s) \<and> invId r = i"
  by (auto simp: findInvoiceById_def find_Some_iff)

lemma findPayment_mem: "findPaymentById i s = Some p \<Longrightarrow> p \<in> set (bdPayments s) \<and> payId p = i"
  by (auto simp: findPaymentById_def find_Some_iff)

lemma initiatePayment_steps: "billingStep\<^sup>*\<^sup>* s (snd (initiatePayment reg actor i prov key now s))"
proof -
  let ?s = "s\<lparr>bdMetrics := bdMetrics s @ [PaymentAttempt prov]\<rparr>"
  have m: "billingStep s ?s" by (rule stepMetrics)
  have "billingStep\<^sup>*\<^sup>* s (snd (initiateWith adapter actor r prov key now ?s))" if "r \<in> set (bdInvoices s)" for r adapter
    using converse_rtranclp_into_rtranclp[OF m initiateWith_steps[of r ?s]] that by simp
  moreover have "billingStep\<^sup>*\<^sup>* s (snd (bindS (failPayment prov w) (\<lambda>_. throwS e) ?s))" for w and e :: BillingError
    by (rule converse_rtranclp_into_rtranclp[OF m tracedD]) (intro trace_intros)
  ultimately show ?thesis
    using m unfolding initiatePayment_def
    by (auto simp: bind_eval dest: findInvoice_mem intro: tracedD[OF traced_replay] split: option.split sum.split)
qed

lemma earlierRead_current: "p \<in> set (bdPayments s) \<Longrightarrow> billedOk s \<Longrightarrow> earlierRead s p"
  unfolding earlierRead_def billedOk_def by (intro bexI[of _ p]) (auto simp: sameBill_def)

lemma find_unique: "idsOk s \<Longrightarrow> p \<in> set (bdPayments s) \<Longrightarrow> findPaymentById (payId p) s = Some p"
proof -
  assume ids: "idsOk s" and p: "p \<in> set (bdPayments s)"
  then obtain q where q: "findPaymentById (payId p) s = Some q"
    unfolding findPaymentById_def by (cases "find (\<lambda>q. payId q = payId p) (bdPayments s)") (auto simp: find_None_iff)
  then show ?thesis using idsOk_payment[OF ids _ p] findPayment_mem[OF q] by simp
qed

lemma applyPaymentSuccess_steps:
  assumes ok: "billingOk s" and p: "p \<in> set (bdPayments s)" "apPaymentId inp = payId p"
    and es: "buildEntryFeePaymentEntries prov (payAmount p) = Inr (apEntries inp)"
  shows "billingStep\<^sup>*\<^sup>* s (snd (applyPaymentSuccess inp now s))"
proof -
  have oks: "idsOk s" "billedOk s" using ok by (simp_all add: billingOk_def)
  have "applyPaymentSuccess inp now s = transaction (applySuccessTo p inp now) s"
    unfolding applyPaymentSuccess_def transaction_def p(2)
    by (simp add: bind_eval find_unique[OF oks(1) p(1)])
  then show ?thesis
    using stepSuccess[OF earlierRead_current[OF p(1) oks(2)] es, of now] by simp
qed

lemma applyRefund_steps:
  assumes ok: "billingOk s" and p: "p \<in> set (bdPayments s)" "arPaymentId inp = payId p"
    and es: "buildEntryFeePaymentEntries (payProvider p) (payAmount p) = Inr posted"
      "reverseLedgerEntries posted = Inr (arEntries inp)"
  shows "billingStep\<^sup>*\<^sup>* s (snd (applyRefund inp now s))"
proof -
  have oks: "idsOk s" "billedOk s" using ok by (simp_all add: billingOk_def)
  have "applyRefund inp now s = transaction (applyRefundTo p inp now) s"
    unfolding applyRefund_def transaction_def p(2)
    by (simp add: bind_eval find_unique[OF oks(1) p(1)])
  then show ?thesis
    using stepRefund[OF earlierRead_current[OF p(1) oks(2)] es, of now] by simp
qed

lemma confirmManualPayment_steps:
  assumes ok: "billingOk s"
  shows "billingStep\<^sup>*\<^sup>* s (snd (confirmManualPayment actor i reason now s))"
proof -
  have "billingStep\<^sup>*\<^sup>* s (snd (bindS (timedProviderCall MANUAL (applyPaymentSuccess \<lparr>apPaymentId = i,
      apActorUserId = u, apEntries = es, apProviderTransactionId = None, apReason = why\<rparr> now)) (\<lambda>x. returnS (snd x)) s))"
    if "findPaymentById i s = Some p" "buildEntryFeePaymentEntries MANUAL (payAmount p) = Inr es" for p es u why
  proof (rule traced_bind_at[OF traced_timed_at])
    show "billingStep\<^sup>*\<^sup>* s (snd (applyPaymentSuccess \<lparr>apPaymentId = i, apActorUserId = u, apEntries = es,
        apProviderTransactionId = None, apReason = why\<rparr> now s))"
      by (rule applyPaymentSuccess_steps[OF ok, where p = p and prov = MANUAL])
         (use that findPayment_mem in auto)
  qed (intro trace_intros)
  then show ?thesis
    unfolding confirmManualPayment_def
    by (auto simp: bind_eval Let_def split: option.split sum.split)
qed

lemma webhook_steps:
  assumes ok: "billingOk s"
  shows "billingStep\<^sup>*\<^sup>* s (snd (webhook reg prov inp now s))"
proof -
  have collect: "billingStep\<^sup>*\<^sup>* u (snd (bindS (ledgerE (buildEntryFeePaymentEntries prov a)) (\<lambda>es.
      bindS (applyPaymentSuccess \<lparr>apPaymentId = payId p, apActorUserId = None, apEntries = es,
        apProviderTransactionId = Some ref, apReason = None\<rparr> now) (\<lambda>result. returnS (\<not> fst result))) u))"
    if p: "p \<in> set (bdPayments u)" and a: "payAmount p = a" and u: "billingOk u" for p a ref u
  proof (cases "buildEntryFeePaymentEntries prov a")
    case (Inl e)
    then show ?thesis by (simp add: bind_eval)
  next
    case (Inr es)
    have "billingStep\<^sup>*\<^sup>* u (snd (bindS (applyPaymentSuccess \<lparr>apPaymentId = payId p, apActorUserId = None, apEntries = es,
        apProviderTransactionId = Some ref, apReason = None\<rparr> now) (\<lambda>result. returnS (\<not> fst result)) u))"
      by (rule traced_bind_at, rule applyPaymentSuccess_steps[OF u p, where prov = prov])
         (simp_all add: Inr a trace_intros)
    with Inr show ?thesis by (simp add: bind_eval)
  qed
  have byTx: "p \<in> set (bdPayments u)" if "findPaymentByProviderTx c ref u = Some p" for c ref p u
    using that by (auto simp: findPaymentByProviderTx_def find_Some_iff)
  have fail: "billingStep\<^sup>*\<^sup>* u (snd (bindS (failPayment prov w) (\<lambda>_. throwS e) u))" for w and e :: BillingError and u
    by (rule tracedD) (intro trace_intros)
  have body: "billingStep\<^sup>*\<^sup>* s (snd ((
       bindS (getS (findPaymentByProviderTx prov (weProviderTransactionId event))) (\<lambda>byTx.
       bindS (getS (\<lambda>s. case byTx of Some p \<Rightarrow> Some p
         | None \<Rightarrow> (case wePaymentId event of None \<Rightarrow> None | Some i \<Rightarrow> findPaymentById i s))) (\<lambda>found.
       case found of
         None \<Rightarrow> throwS (NotFoundError ''Payment'')
       | Some payment \<Rightarrow>
           if weStatus event = WebhookPaid then
             (if payAmount payment \<noteq> weAmountTiyin event \<or> payCurrency payment \<noteq> weCurrency event
              then bindS (failPayment prov ''AMOUNT_MISMATCH'') (\<lambda>_. throwS (BusinessRuleError ''AMOUNT_MISMATCH''))
              else bindS (ledgerE (buildEntryFeePaymentEntries prov (payAmount payment))) (\<lambda>es.
                bindS (applyPaymentSuccess \<lparr>apPaymentId = payId payment, apActorUserId = None, apEntries = es,
                  apProviderTransactionId = Some (weProviderTransactionId event), apReason = None\<rparr> now) (\<lambda>result.
                returnS (\<not> fst result))))
           else returnS False))) s))" for event
    using collect[OF _ _ ok] fail byTx findPayment_mem
    by (auto simp: bind_eval split: option.split)
  show ?thesis
  proof (cases "registryGet reg prov")
    case (Inl e)
    then show ?thesis by (simp add: webhook_def bind_eval)
  next
    case (Inr adapter)
    show ?thesis
    proof (cases "adVerifyWebhook adapter inp")
      case (Inl e)
      have "billingStep\<^sup>*\<^sup>* s (snd (bindS (failPayment prov ''PROVIDER_ERROR'') (\<lambda>_. throwS e) s))" by (rule fail)
      with Inl Inr show ?thesis by (simp add: webhook_def bind_eval timed_liftE failPayment_def)
    next
      case (Inr event)
      with \<open>registryGet reg prov = Inr adapter\<close> show ?thesis
        using body[of event] by (simp only: webhook_def bind_eval timed_liftE sum.case)
    qed
  qed
qed

lemma refund_steps:
  assumes ok: "billingOk s"
  shows "billingStep\<^sup>*\<^sup>* s (snd (refund reg actor i reason now s))"
proof -
  have pay: "billingStep\<^sup>*\<^sup>* s (snd (bindS (ledgerE (buildEntryFeePaymentEntries (payProvider p) (payAmount p))) (\<lambda>posted.
      bindS (ledgerE (reverseLedgerEntries posted)) (\<lambda>es.
      bindS (applyRefund \<lparr>arPaymentId = i, arActorUserId = u, arReason = why, arEntries = es\<rparr> now) (\<lambda>result.
      returnS (snd result)))) s))" if p: "findPaymentById i s = Some p" for p u why
  proof (cases "buildEntryFeePaymentEntries (payProvider p) (payAmount p)")
    case (Inl e)
    then show ?thesis by (simp add: bind_eval)
  next
    case built: (Inr posted)
    show ?thesis
    proof (cases "reverseLedgerEntries posted")
      case (Inl e)
      with built show ?thesis by (simp add: bind_eval)
    next
      case (Inr es)
      have "billingStep\<^sup>*\<^sup>* s (snd (bindS (applyRefund \<lparr>arPaymentId = i, arActorUserId = u, arReason = why,
          arEntries = es\<rparr> now) (\<lambda>result. returnS (snd result)) s))"
        by (rule traced_bind_at, rule applyRefund_steps[OF ok, where p = p and posted = posted])
           (use findPayment_mem[OF p] built Inr in \<open>auto intro: trace_intros\<close>)
      with built Inr show ?thesis by (simp add: bind_eval)
    qed
  qed
  have fail: "billingStep\<^sup>*\<^sup>* s (snd (bindS (failPayment prov w) (\<lambda>_. throwS e) s))" for prov w and e :: BillingError
    by (rule tracedD) (intro trace_intros)
  have m: "billingStep\<^sup>*\<^sup>* s (s\<lparr>bdMetrics := ms\<rparr>)" for ms by (rule r_into_rtranclp, rule stepMetrics)
  show ?thesis
    using pay fail m
    unfolding refund_def assertRefundPath_def assertPaymentTransition_def
    by (auto simp: bind_eval Let_def timed_liftE bindS_assoc split: option.split sum.split)
qed

lemma reconciliation_steps:
  "billingStep\<^sup>*\<^sup>* s (snd (reconciliationReport cmp actor now s))"
  "billingStep\<^sup>*\<^sup>* s (snd (refreshLedgerImbalanceMetric cmp s))"
  unfolding reconciliationReport_def refreshLedgerImbalanceMetric_def Let_def
  by (rule tracedD; intro trace_intros)+

end
