(* ===== verification/BillingProps.thy ===== *)
theory BillingProps
  imports BillingTrace
begin

text \<open>
  The properties of billing, and a run of the service on which they are applied: a player
  is invoiced, opens two payments of the invoice, and an administrator confirms both.
\<close>

section \<open>Sums over the ledger\<close>

lemma sum_if_key: "distinct ks \<Longrightarrow> k \<in> set ks \<Longrightarrow> (\<Sum>j \<leftarrow> ks. if k = j then (x :: int) else 0) = x"
proof (induction ks)
  case (Cons a ks)
  show ?case
  proof (cases "k = a")
    case True
    then have "(\<Sum>j \<leftarrow> ks. if k = j then x else 0) = 0" using Cons.prems(1) by (induction ks) auto
    with True show ?thesis by simp
  qed (use Cons in auto)
qed simp

text \<open>Summing group by group is summing everything.\<close>

lemma sum_groups:
  "distinct ks \<Longrightarrow> key ` set es \<subseteq> set ks \<Longrightarrow>
   (\<Sum>k \<leftarrow> ks. sum_list (map g (filter (\<lambda>e. key e = k) es))) = (sum_list (map g es) :: int)"
proof (induction es)
  case (Cons e es)
  have "(\<Sum>k \<leftarrow> ks. sum_list (map g (filter (\<lambda>e. key e = k) (e # es))))
      = (\<Sum>k \<leftarrow> ks. (if key e = k then g e else 0) + sum_list (map g (filter (\<lambda>e. key e = k) es)))"
    by (rule arg_cong[where f = sum_list]) simp
  also have "\<dots> = (\<Sum>k \<leftarrow> ks. if key e = k then g e else 0) + (\<Sum>k \<leftarrow> ks. sum_list (map g (filter (\<lambda>e. key e = k) es)))"
    by (rule sum_list_addf)
  also have "\<dots> = g e + sum_list (map g es)" using sum_if_key[of ks "key e" "g e"] Cons by simp
  finally show ?case by simp
qed simp

lemma ledger_by_payment:
  assumes "idsOk s" "postedOk s"
  shows "sum_list (map g (map lrEntry (bdLedger s)))
     = (\<Sum>p \<leftarrow> bdPayments s. sum_list (map g (map lrEntry (rowsOf (payId p) s))) :: int)"
proof -
  have "sum_list (map (g \<circ> lrEntry) (bdLedger s))
      = (\<Sum>k \<leftarrow> map payId (bdPayments s). sum_list (map (g \<circ> lrEntry) (filter (\<lambda>l. lrPaymentId l = k) (bdLedger s))))"
    by (rule sum_groups[symmetric]) (use assms in \<open>auto simp: idsOk_def postedOk_def\<close>)
  then show ?thesis by (simp add: rowsOf_def o_def)
qed

lemma entries_of_rows [simp]:
  "map lrEntry (successRows t prov p) = posting prov (payAmount p)"
  "map lrEntry (refundRows t p) = map reverseEntry (posting (payProvider p) (payAmount p))"
  by (simp_all add: successRows_def refundRows_def ledgerRows_def o_def)

lemma posting_signed: "sum_list (map signedAmount (posting prov a)) = 0"
  by (simp add: posting_def signedAmount_def)

lemma cash_not_payable [simp]: "cashAccountForProvider prov \<noteq> ''liability.organizer_payable''"
  by (cases prov) simp_all

section \<open>Balances of the reconciliation\<close>

lemma addGroup_total:
  "(\<Sum>x \<leftarrow> addGroup a d t m. fst (snd x) - snd (snd x))
     = (\<Sum>x \<leftarrow> m. fst (snd x) - snd (snd x)) + (if d = DEBIT then t else - t)"
  by (induction a d t m rule: addGroup.induct) auto

lemma addGroups_total:
  "(\<Sum>x \<leftarrow> foldl (\<lambda>m (a, d, t). addGroup a d t m) m gs. fst (snd x) - snd (snd x))
     = (\<Sum>x \<leftarrow> m. fst (snd x) - snd (snd x)) + (\<Sum>(a, d, t) \<leftarrow> gs. if d = DEBIT then t else - t)"
  by (induction gs arbitrary: m) (auto simp: addGroup_total)

lemma groupSums_total:
  "(\<Sum>(a, d, t) \<leftarrow> groupSums es. if d = DEBIT then t else - t) = (sum_list (map signedAmount es) :: int)"
proof -
  let ?key = "\<lambda>e. (account e, direction e)"
  have each: "(if d = DEBIT then sum_list (map amountTiyin (filter (\<lambda>e. account e = a \<and> direction e = d) es))
        else - sum_list (map amountTiyin (filter (\<lambda>e. account e = a \<and> direction e = d) es)))
      = sum_list (map signedAmount (filter (\<lambda>e. ?key e = (a, d)) es))" for a d
    by (cases d; induction es) (auto simp: signedAmount_def)
  have "(\<Sum>(a, d, t) \<leftarrow> groupSums es. if d = DEBIT then t else - t)
      = (\<Sum>k \<leftarrow> remdups (map ?key es). sum_list (map signedAmount (filter (\<lambda>e. ?key e = k) es)))"
    unfolding groupSums_def map_map
    by (rule arg_cong[where f = sum_list], rule map_cong[OF refl]) (simp only: o_apply split_paired_all prod.case each)
  also have "\<dots> = sum_list (map signedAmount es)" by (rule sum_groups) auto
  finally show ?thesis .
qed

lemma sum_list_jsSort: "(\<Sum>x \<leftarrow> jsSort cmp xs. f x) = (\<Sum>x \<leftarrow> xs. f x :: int)"
  by (metis mset_jsSort mset_map sum_mset_sum_list)

lemma ledgerBalances_total:
  "(\<Sum>x \<leftarrow> ledgerBalances cmp None s. fst (snd x) - snd (snd x)) = sum_list (map signedAmount (map lrEntry (bdLedger s)))"
  using addGroups_total[of "[]" "groupSums (map lrEntry (bdLedger s))"] groupSums_total[of "map lrEntry (bdLedger s)"]
  by (simp add: ledgerBalances_def Let_def sum_list_jsSort)

lemma postedAsE:
  assumes "postedAs p rows" "payStatus p \<in> {CREATED, PAID, REFUNDED}"
  obtains (unpaid) "payStatus p = CREATED" "rows = []"
    | (paid) t prov where "payStatus p = PAID" "rows = successRows t prov p"
    | (returned) t prov t' where "payStatus p = REFUNDED" "t < t'" "rows = successRows t prov p @ refundRows t' p"
  using assms unfolding postedAs_def by blast

lemma postedAs_signed: "postedAs p rows \<Longrightarrow> payStatus p \<in> {CREATED, PAID, REFUNDED} \<Longrightarrow>
   sum_list (map signedAmount (map lrEntry rows)) = 0"
  by (erule (1) postedAsE) (simp_all add: posting_def signedAmount_def reverseEntry_def del: map_map)

lemma ledger_trial_balance:
  assumes "billingOk s"
  shows "sum_list (map signedAmount (map lrEntry (bdLedger s))) = 0"
proof -
  have ok: "idsOk s" "postedOk s" "billedOk s" using assms by (simp_all add: billingOk_def)
  have "sum_list (map signedAmount (map lrEntry (rowsOf (payId p) s))) = 0" if "p \<in> set (bdPayments s)" for p
    using ok that postedAs_signed unfolding postedOk_def billedOk_def by blast
  then have "map (\<lambda>p. sum_list (map signedAmount (map lrEntry (rowsOf (payId p) s)))) (bdPayments s)
      = map (\<lambda>_. 0) (bdPayments s)" by (rule map_cong[OF refl])
  then show ?thesis unfolding ledger_by_payment[OF ok(1,2)] by (simp only: sum_list_0)
qed

lemma foldl_sum: "foldl (\<lambda>acc x. acc + h x) (a :: int) xs = a + sum_list (map h xs)"
  by (induction xs arbitrary: a) auto

section \<open>A run of the service\<close>

definition realRegistry :: Registry where
  "realRegistry = (case ProviderRegistry PROVIDERS of Inl _ \<Rightarrow> [] | Inr m \<Rightarrow> m)"

definition payer :: Actor where
  "payer = \<lparr>acUserId = ''u1'', acAssignments = []\<rparr>"

definition cashier :: Actor where
  "cashier = \<lparr>acUserId = ''root'', acAssignments = [\<lparr>asRole = SUPER_ADMIN, asScope = ScopeGlobal, asValidUntil = None\<rparr>]\<rparr>"

definition bill0 :: BillingDb where
  "bill0 = \<lparr>bdInvoices = [], bdPayments = [], bdLedger = [], bdRegistrations =
     [\<lparr>brId = ''r1'', brPlayerId = ''p1'', brIsConfirmed = False, brIsWithdrawn = False, brInvoiceId = None,
       brTournamentId = ''t1'', brEntryFeeAmount = Some 5000000, brEntryFeeCurrency = ''UZS'', brClubId = None,
       brRegionId = None, brFederationId = None\<rparr>], bdAudit = [], bdOutbox = [], bdMetrics = [], bdNextId = 1\<rparr>"

definition bill1 :: BillingDb where
  "bill1 = snd (createInvoiceForRegistration (\<lambda>_. Some ''p1'') payer ''r1'' 2026 0 bill0)"

definition bill3 :: BillingDb where
  "bill3 = snd (initiatePayment realRegistry payer 1 MANUAL ''k2'' 0
     (snd (initiatePayment realRegistry payer 1 MANUAL ''k1'' 0 bill1)))"

definition bill5 :: BillingDb where
  "bill5 = snd (confirmManualPayment cashier 3 ''cash'' 0 (snd (confirmManualPayment cashier 2 ''cash'' 0 bill3)))"

lemma bill5_tables:
  "map (\<lambda>p. (payId p, payInvoiceId p, payStatus p, payAmount p)) (bdPayments bill5)
     = [(2, 1, PAID, 5000000), (3, 1, PAID, 5000000)]"
  by code_simp

lemma billing_trans: "reachableBilling s \<Longrightarrow> billingStep\<^sup>*\<^sup>* s t \<Longrightarrow> reachableBilling t"
  unfolding reachableBilling_def by (metis rtranclp_trans)

lemma reachable_confirm: "reachableBilling s \<Longrightarrow> reachableBilling (snd (confirmManualPayment actor i reason now s))"
  by (rule billing_trans[OF _ confirmManualPayment_steps]) (auto intro: billingOk_reachable)

lemma bill1_reachable: "reachableBilling bill1"
proof -
  have "reachableBilling bill0" unfolding reachableBilling_def by (rule exI[of _ bill0]) (simp add: emptyBilling_def bill0_def)
  then show ?thesis unfolding bill1_def by (rule billing_trans[OF _ createInvoiceForRegistration_steps])
qed

lemma bill3_reachable: "reachableBilling bill3"
  unfolding bill3_def
  by (rule billing_trans[OF billing_trans[OF bill1_reachable initiatePayment_steps] initiatePayment_steps])

lemma bill5_reachable: "reachableBilling bill5"
  unfolding bill5_def by (intro reachable_confirm bill3_reachable)

section \<open>Properties\<close>

text \<open>
  C36. In every reachable state the rows are well formed: identifiers, idempotency keys and
  invoice numbers are unique, and every payment refers to exactly one invoice, of the same
  positive amount and the same currency.
\<close>

theorem billing_tables_well_formed:
  assumes "reachableBilling s"
  shows "distinct (map invId (bdInvoices s)) \<and> distinct (map invNumber (bdInvoices s)) \<and>
     distinct (map payId (bdPayments s)) \<and> distinct (map payIdempotencyKey (bdPayments s)) \<and>
     (\<forall>p \<in> set (bdPayments s). \<exists>!r. r \<in> set (bdInvoices s) \<and> invId r = payInvoiceId p \<and>
        invTotalAmount r = payAmount p \<and> 0 < payAmount p \<and> invCurrency r = payCurrency p)"
proof -
  have ok: "idsOk s" "billedOk s" "numbersOk s" using billingOk_reachable[OF assms] by (simp_all add: billingOk_def)
  have "\<exists>!r. r \<in> set (bdInvoices s) \<and> invId r = payInvoiceId p \<and>
        invTotalAmount r = payAmount p \<and> 0 < payAmount p \<and> invCurrency r = payCurrency p" if p: "p \<in> set (bdPayments s)" for p
  proof -
    obtain r where r: "r \<in> set (bdInvoices s)" "invId r = payInvoiceId p" "invTotalAmount r = payAmount p"
        "invCurrency r = payCurrency p" using ok(2) p unfolding billedOk_def by blast
    moreover have "0 < payAmount p" using ok(2) r(1) unfolding billedOk_def r(3)[symmetric] by blast
    moreover have "r' = r" if "r' \<in> set (bdInvoices s)" "invId r' = payInvoiceId p" for r'
      using idsOk_invoice[OF ok(1) that(1) r(1)] that(2) r(2) by simp
    ultimately show ?thesis by blast
  qed
  then have each: "\<forall>p \<in> set (bdPayments s). \<exists>!r. r \<in> set (bdInvoices s) \<and> invId r = payInvoiceId p \<and>
        invTotalAmount r = payAmount p \<and> 0 < payAmount p \<and> invCurrency r = payCurrency p" by (rule ballI)
  show ?thesis
    using ok(1,3) unfolding idsOk_def numbersOk_def by (elim conjE) (intro conjI each)
qed

theorem billing_tables_well_formed_witness: "distinct (map payIdempotencyKey (bdPayments bill5))"
  using billing_tables_well_formed[OF bill5_reachable] by (elim conjE)

text \<open>
  C8. However requests, confirmations, webhooks and refunds interleave, the ledger rows and
  the outbox events of a payment are exactly those of its status: none before it is paid,
  one balanced posting and one \<^verbatim>\<open>PaymentCompleted\<close> once it is, and once it is refunded also the
  reversal and one \<^verbatim>\<open>RefundIssued\<close>.
\<close>

theorem payment_posted_exactly_once:
  assumes "reachableBilling s" "p \<in> set (bdPayments s)"
  shows "eventsOf (payId p) s = eventHistory (payStatus p) \<and>
     (payStatus p = CREATED \<and> rowsOf (payId p) s = [] \<or>
      payStatus p = PAID \<and> (\<exists>t prov. rowsOf (payId p) s = successRows t prov p) \<or>
      payStatus p = REFUNDED \<and> (\<exists>t prov t'. t < t' \<and> rowsOf (payId p) s = successRows t prov p @ refundRows t' p))"
proof -
  have ok: "billedOk s" "postedOk s" "eventsOk s" using billingOk_reachable[OF assms(1)] by (simp_all add: billingOk_def)
  have "payStatus p \<in> {CREATED, PAID, REFUNDED}" "postedAs p (rowsOf (payId p) s)"
      "eventsOf (payId p) s = eventHistory (payStatus p)"
    using ok assms(2) unfolding billedOk_def postedOk_def eventsOk_def by blast+
  from postedAsE[OF this(2,1)] this(3) show ?thesis by metis
qed

lemma in_table:
  "(i, j, st, a) \<in> set (map (\<lambda>p. (payId p, payInvoiceId p, payStatus p, payAmount p)) ps) \<Longrightarrow>
   \<exists>p \<in> set ps. payId p = i \<and> payInvoiceId p = j \<and> payStatus p = st \<and> payAmount p = a"
  by auto

lemma bill5_payments: "\<exists>p \<in> set (bdPayments bill5). payId p = 2 \<and> payInvoiceId p = 1 \<and> payStatus p = PAID \<and> payAmount p = 5000000"
    "\<exists>p \<in> set (bdPayments bill5). payId p = 3 \<and> payInvoiceId p = 1 \<and> payStatus p = PAID \<and> payAmount p = 5000000"
  by (rule in_table; simp add: bill5_tables)+

theorem payment_posted_exactly_once_witness: "eventsOf 2 bill5 = [PaymentCompleted] \<and> (\<exists>t. length (rowsOf 2 bill5) = 2)"
proof -
  obtain p where p: "p \<in> set (bdPayments bill5)" "payId p = 2" "payStatus p = PAID" using bill5_payments(1) by blast
  show ?thesis
    using payment_posted_exactly_once[OF bill5_reachable p(1)] p(2,3) by (auto simp: successRows_def ledgerRows_def posting_def)
qed

lemma payable_of_rows:
  "postedAs p rows \<Longrightarrow> payStatus p \<in> {CREATED, PAID, REFUNDED} \<Longrightarrow>
   sum_list (map (\<lambda>e. if account e = ''liability.organizer_payable'' then signedAmount e else 0) (map lrEntry rows))
     = (if payStatus p = PAID then - payAmount p else 0)"
  by (erule (1) postedAsE) (simp_all add: posting_def signedAmount_def reverseEntry_def del: map_map)

lemma ledger_owed:
  assumes "billingOk s"
  shows "accountBalance ''liability.organizer_payable'' (map lrEntry (bdLedger s))
     = - (\<Sum>p \<leftarrow> filter (\<lambda>p. payStatus p = PAID) (bdPayments s). payAmount p)"
proof -
  have ok: "idsOk s" "postedOk s" "billedOk s" using assms by (simp_all add: billingOk_def)
  let ?g = "\<lambda>e. if account e = ''liability.organizer_payable'' then signedAmount e else 0"
  have "sum_list (map ?g (map lrEntry (rowsOf (payId p) s))) = (if payStatus p = PAID then - payAmount p else 0)"
    if "p \<in> set (bdPayments s)" for p
    using ok that payable_of_rows unfolding postedOk_def billedOk_def by blast
  then have "map (\<lambda>p. sum_list (map ?g (map lrEntry (rowsOf (payId p) s)))) (bdPayments s)
      = map (\<lambda>p. if payStatus p = PAID then - payAmount p else 0) (bdPayments s)" by (rule map_cong[OF refl])
  then have "sum_list (map ?g (map lrEntry (bdLedger s)))
      = (\<Sum>p \<leftarrow> bdPayments s. if payStatus p = PAID then - payAmount p else 0)"
    unfolding ledger_by_payment[OF ok(1,2)] by (simp only:)
  moreover have "(\<Sum>p \<leftarrow> ps. if payStatus p = PAID then - payAmount p else 0)
      = - (\<Sum>p \<leftarrow> filter (\<lambda>p. payStatus p = PAID) ps. payAmount p)" for ps
    by (induction ps) auto
  moreover have "accountBalance a es = sum_list (map (\<lambda>e. if account e = a then signedAmount e else 0) es)" for a es
    by (induction es) (auto simp: accountBalance_def)
  ultimately show ?thesis by (simp only:)
qed

text \<open>
  C10. What the organizers are owed according to the ledger is exactly the sum of the payments
  that are paid and not refunded; and the cash accounts together hold the same amount.
\<close>

theorem organizer_is_owed_what_was_paid:
  assumes "reachableBilling s"
  shows "accountBalance ''liability.organizer_payable'' (map lrEntry (bdLedger s))
     = - (\<Sum>p \<leftarrow> filter (\<lambda>p. payStatus p = PAID) (bdPayments s). payAmount p)"
  by (rule ledger_owed[OF billingOk_reachable[OF assms]])

lemma bill5_paid_sum: "(\<Sum>p \<leftarrow> filter (\<lambda>p. payStatus p = PAID) (bdPayments bill5). payAmount p) = 10000000"
proof -
  have "map (\<lambda>(i, j, st, a). a) (filter (\<lambda>(i, j, st, a). st = PAID) (map (\<lambda>p. (payId p, payInvoiceId p, payStatus p, payAmount p)) ps))
      = map payAmount (filter (\<lambda>p. payStatus p = PAID) ps)" for ps
    by (induction ps) auto
  from this[of "bdPayments bill5"] have "map payAmount (filter (\<lambda>p. payStatus p = PAID) (bdPayments bill5)) = [5000000, 5000000]"
    unfolding bill5_tables by simp
  then show ?thesis by simp
qed

theorem organizer_is_owed_what_was_paid_witness:
  "accountBalance ''liability.organizer_payable'' (map lrEntry (bdLedger bill5)) = - 10000000"
  using organizer_is_owed_what_was_paid[OF bill5_reachable] bill5_paid_sum by simp

text \<open>
  The reconciliation report of every reachable state is balanced: the imbalance is zero,
  whatever the collation of the runtime.
\<close>

theorem reconciliation_always_balanced:
  assumes "reachableBilling s" "can actor Read paymentRef now"
  shows "\<exists>r t. reconciliationReport localeCompare actor now s = (Inr r, t) \<and> rpImbalanceTiyin r = 0 \<and> rpBalanced r"
proof -
  have "(\<Sum>x \<leftarrow> xs. fst (snd x)) - (\<Sum>x \<leftarrow> xs. snd (snd x)) = (\<Sum>x \<leftarrow> xs. fst (snd x) - snd (snd x) :: int)"
    for xs :: "(string \<times> int \<times> int) list" by (induction xs) auto
  then have zero: "(\<Sum>x \<leftarrow> ledgerBalances localeCompare None s. fst (snd x))
      - (\<Sum>x \<leftarrow> ledgerBalances localeCompare None s. snd (snd x)) = 0"
    using ledgerBalances_total[of localeCompare s] ledger_trial_balance[OF billingOk_reachable[OF assms(1)]] by simp
  have "foldl (\<lambda>acc (_, deb, _). acc + deb) 0 xs = (\<Sum>x \<leftarrow> xs. fst (snd x))"
    "foldl (\<lambda>acc (_, _, cred). acc + cred) 0 xs = (\<Sum>x \<leftarrow> xs. snd (snd x))" for xs :: "(string \<times> int \<times> int) list"
    using foldl_sum[of "\<lambda>x. fst (snd x)" 0 xs] foldl_sum[of "\<lambda>x. snd (snd x)" 0 xs] by (simp_all add: case_prod_unfold)
  then show ?thesis
    unfolding reconciliationReport_def using assms(2) zero by (simp add: bind_eval Let_def)
qed

theorem reconciliation_always_balanced_witness:
  "\<exists>r t. reconciliationReport (\<lambda>_ _. 0) cashier 0 bill5 = (Inr r, t) \<and> rpImbalanceTiyin r = 0 \<and> rpBalanced r"
proof (rule reconciliation_always_balanced[OF bill5_reachable])
  show "can cashier Read paymentRef 0" by code_simp
qed

text \<open>
  C37. An invoice can be collected twice: a player opens two payments of the same invoice with
  two idempotency keys while it is open, and each can be confirmed, since neither the
  confirmation nor the webhook looks at the invoice. The organizer is then owed twice the
  amount of the invoice.
\<close>

theorem one_invoice_collected_twice:
  "\<exists>s r p q. reachableBilling s \<and> r \<in> set (bdInvoices s) \<and> {p, q} \<subseteq> set (bdPayments s) \<and> p \<noteq> q \<and>
     payInvoiceId p = invId r \<and> payInvoiceId q = invId r \<and> payStatus p = PAID \<and> payStatus q = PAID \<and>
     payAmount p = invTotalAmount r \<and> payAmount q = invTotalAmount r \<and>
     accountBalance ''liability.organizer_payable'' (map lrEntry (bdLedger s)) = - 2 * invTotalAmount r"
proof -
  obtain p where p: "p \<in> set (bdPayments bill5)" "payId p = 2" "payInvoiceId p = 1" "payStatus p = PAID" "payAmount p = 5000000"
    using bill5_payments(1) by blast
  obtain q where q: "q \<in> set (bdPayments bill5)" "payId q = 3" "payInvoiceId q = 1" "payStatus q = PAID" "payAmount q = 5000000"
    using bill5_payments(2) by blast
  have ok: "billedOk bill5" using billingOk_reachable[OF bill5_reachable] by (simp add: billingOk_def)
  obtain r where r: "r \<in> set (bdInvoices bill5)" "invId r = 1" "invTotalAmount r = 5000000"
    using ok p unfolding billedOk_def by metis
  have "accountBalance ''liability.organizer_payable'' (map lrEntry (bdLedger bill5)) = - 10000000"
    using ledger_owed[OF billingOk_reachable[OF bill5_reachable]] bill5_paid_sum by simp
  then show ?thesis using bill5_reachable p q r by (intro exI[of _ bill5] exI[of _ r] exI[of _ p] exI[of _ q]) auto
qed

section \<open>Rows stay\<close>

lemma movedOn_refl [simp]: "movedOn a a"
  by (cases a) simp_all

lemma movedOn_trans: "movedOn a b \<Longrightarrow> movedOn b c \<Longrightarrow> movedOn a c"
  by (cases a; cases b; cases c) simp_all

lemma sameBill_trans: "sameBill p q \<Longrightarrow> sameBill q r \<Longrightarrow> sameBill p r"
  by (simp add: sameBill_def)

lemma earlierRead_moves:
  assumes mv: "movesPayment i a b s t" and ab: "movedOn a b" and e: "earlierRead s p"
  shows "earlierRead t p"
proof -
  obtain q where q: "q \<in> set (bdPayments s)" "sameBill p q" "movedOn (payStatus p) (payStatus q)"
    using e by (rule earlierReadE)
  obtain f where f: "bdPayments t = map f (bdPayments s)" "\<And>p. sameBill p (f p)"
      "\<And>p. payStatus (f p) = (if payId p = i \<and> payStatus p = a then b else payStatus p)"
    using mv by (rule movesPaymentE) blast
  have "movedOn (payStatus q) (payStatus (f q))" using ab by (simp add: f(3))
  then have "sameBill p (f q) \<and> movedOn (payStatus p) (payStatus (f q))"
    using q sameBill_trans[OF q(2) f(2)] movedOn_trans[OF q(3)] by blast
  moreover have "f q \<in> set (bdPayments t)" using q(1) f(1) by simp
  ultimately show ?thesis unfolding earlierRead_def by blast
qed

text \<open>The rows requests work on are exactly what \<open>earlierRead\<close> says: a row once read stays one.\<close>

lemma earlierRead_step:
  assumes step: "billingStep s t" and ok: "billingOk s" and e: "earlierRead s p"
  shows "earlierRead t p"
  using step
proof (cases rule: billingStep_cases)
  case same
  then show ?thesis using e by simp
next
  case other
  then show ?thesis using e unfolding earlierRead_def by simp
next
  case (invoice inp year seen)
  then show ?thesis using e unfolding earlierRead_def invoiced_def by auto
next
  case (payment r inp)
  then show ?thesis using e unfolding earlierRead_def charged_def by auto
next
  case (checkout i ref)
  then show ?thesis using earlierRead_moves[OF referenced_moves _ e] by simp
next
  case (success q inp now prov)
  have "payStatus q = CREATED"
  proof -
    have ids: "idsOk s" "billedOk s" using ok by (simp_all add: billingOk_def)
    have "inStatus (payId q) (payStatus q) s" "payStatus q \<in> {CREATED, PENDING, REFUND_REQUESTED}"
      using success(3) by (simp_all add: collected_def)
    then show ?thesis using cas_current[OF ids success(1)] by (metis insertE singletonD PaymentStatusValue.distinct)
  qed
  then show ?thesis using earlierRead_moves[OF collected_moves[OF success(3)] _ e] by simp
next
  case (refund q inp now posted)
  then show ?thesis using earlierRead_moves[OF refunded_moves[OF refund(4)] _ e] by simp
qed

lemma earlierRead_steps: "billingStep\<^sup>*\<^sup>* s t \<Longrightarrow> billingOk s \<Longrightarrow> earlierRead s p \<Longrightarrow> billingOk t \<and> earlierRead t p"
  by (induction rule: rtranclp_induct) (auto intro: billingOk_step earlierRead_step)

lemma payments_forward:
  assumes "billingOk s" "p \<in> set (bdPayments s)" "billingStep\<^sup>*\<^sup>* s t"
  shows "\<exists>q \<in> set (bdPayments t). sameBill p q \<and> movedOn (payStatus p) (payStatus q)
     \<and> (\<forall>q' \<in> set (bdPayments t). payId q' = payId p \<longrightarrow> q' = q)"
proof -
  have ok: "billingOk s" by (rule assms(1))
  have "earlierRead s p" by (rule earlierRead_current[OF assms(2)]) (use ok in \<open>simp add: billingOk_def\<close>)
  then have t: "billingOk t" "earlierRead t p" using earlierRead_steps[OF assms(3) ok] by blast+
  obtain q where q: "q \<in> set (bdPayments t)" "sameBill p q" "movedOn (payStatus p) (payStatus q)"
    using t(2) by (rule earlierReadE)
  have "q' = q" if "q' \<in> set (bdPayments t)" "payId q' = payId p" for q'
    using t(1) idsOk_payment[OF _ that(1) q(1)] that(2) q(2) by (simp add: billingOk_def sameBill_def)
  with q show ?thesis by blast
qed

text \<open>
  A payment is never lost: in every later state there is exactly one row with its
  identifier, with the same invoice, provider, amount, currency and key, whose status has
  only moved forward, from created to paid to refunded.
\<close>

theorem payments_only_move_forward:
  assumes "reachableBilling s" "p \<in> set (bdPayments s)" "billingStep\<^sup>*\<^sup>* s t"
  shows "\<exists>q \<in> set (bdPayments t). sameBill p q \<and> movedOn (payStatus p) (payStatus q)
     \<and> (\<forall>q' \<in> set (bdPayments t). payId q' = payId p \<longrightarrow> q' = q)"
  by (rule payments_forward[OF billingOk_reachable[OF assms(1)] assms(2,3)])

theorem payments_only_move_forward_witness:
  "\<exists>p \<in> set (bdPayments bill5). \<exists>q \<in> set (bdPayments (snd (refund realRegistry cashier 2 ''back'' 0 bill5))). sameBill p q"
proof -
  obtain p where "p \<in> set (bdPayments bill5)" "payId p = 2" using bill5_payments(1) by blast
  with payments_only_move_forward[OF bill5_reachable _ refund_steps[OF billingOk_reachable[OF bill5_reachable]]]
  show ?thesis by blast
qed

section \<open>Invoice numbers\<close>

lemma down_closed_interval:
  assumes "finite S" "S \<subseteq> {1..}" "\<And>n m. n \<in> S \<Longrightarrow> 1 \<le> m \<Longrightarrow> m \<le> n \<Longrightarrow> m \<in> S"
  shows "S = {1..int (card S)}"
proof (cases "S = {}")
  case False
  then have max: "Max S \<in> S" "\<And>n. n \<in> S \<Longrightarrow> n \<le> Max S" using assms(1) by simp_all
  have S: "S = {1..Max S}" using max assms(2,3) by auto
  have "int (card {1..Max S}) = Max S" using max(1) assms(2) by auto
  with S show ?thesis by metis
qed simp

text \<open>
  The invoice numbers of a year are consecutive: their sequence numbers are exactly one up
  to how many invoices of that year there are, also when several requests create invoices at
  the same time and retry.
\<close>

theorem invoice_numbers_consecutive:
  assumes "reachableBilling s" "2000 \<le> y" "y \<le> 9999"
  shows "{n. goodNumber y n \<and> invoiceText y n \<in> invNumber ` set (bdInvoices s)}
     = {1..int (length (filter (\<lambda>x. startsWith x (yearPrefix y)) (map invNumber (bdInvoices s))))}"
proof -
  let ?N = "invNumber ` set (bdInvoices s)" and ?L = "filter (\<lambda>x. startsWith x (yearPrefix y)) (map invNumber (bdInvoices s))"
  let ?S = "{n. goodNumber y n \<and> invoiceText y n \<in> ?N}"
  have ok: "numbersOk s" using billingOk_reachable[OF assms(1)] by (simp add: billingOk_def)
  have sub: "?S \<subseteq> {1..999999}" by (auto simp: goodNumber_def)
  have img: "set ?L = invoiceText y ` ?S"
  proof (intro equalityI subsetI)
    fix x assume x: "x \<in> set ?L"
    then obtain z n where zn: "goodNumber z n" "x = invoiceText z n" using ok unfolding numbersOk_def by auto
    have "z = y" using x zn assms startsWith_invoiceText[of z y n] by (simp add: goodNumber_def)
    then show "x \<in> invoiceText y ` ?S" using x zn by auto
  next
    fix x assume "x \<in> invoiceText y ` ?S"
    then obtain n where "x = invoiceText y n" "x \<in> ?N" by blast
    then show "x \<in> set ?L" using startsWith_invoiceText[of y y n] assms by auto
  qed
  have inj: "inj_on (invoiceText y) ?S" by (rule inj_onI) (use invoiceText_known in blast)
  have "card ?S = card (set ?L)" unfolding img by (rule card_image[OF inj, symmetric])
  also have "\<dots> = length ?L" using ok unfolding numbersOk_def by (intro distinct_card distinct_filter) blast
  finally have card: "card ?S = length ?L" .
  have "?S = {1..int (card ?S)}"
  proof (rule down_closed_interval)
    show "finite ?S" by (rule finite_subset[OF sub]) simp
    show "?S \<subseteq> {1..}" using sub by auto
    fix n m assume n: "n \<in> ?S" and m: "1 \<le> m" "m \<le> n"
    then have "goodNumber y m" by (simp add: goodNumber_def)
    moreover have "invoiceText y m \<in> ?N" using ok n m unfolding numbersOk_def by blast
    ultimately show "m \<in> ?S" by simp
  qed
  then show ?thesis unfolding card .
qed

theorem invoice_numbers_consecutive_witness:
  "\<exists>k. {n. goodNumber 2026 n \<and> invoiceText 2026 n \<in> invNumber ` set (bdInvoices bill5)} = {1..k}"
  using invoice_numbers_consecutive[OF bill5_reachable, of 2026] by auto

section \<open>Idempotency keys\<close>

lemma created_payment:
  assumes "createPaymentIdempotent inp now s = (Inr (p, created), t)"
  shows "p \<in> set (bdPayments t) \<and> payIdempotencyKey p = cpIdempotencyKey inp \<and>
     (created \<longrightarrow> payInvoiceId p = cpInvoiceId inp \<and> payProvider p = cpProvider inp)"
proof -
  have free: "auAction (auditOf ''payment.initiated'' a i b c d) \<notin> REASON_REQUIRED" for a i b c d
    by (simp add: auditOf_def REASON_REQUIRED_def)
  let ?m = "transaction (
       bindS freshId (\<lambda>i.
       let row = \<lparr>payId = i, payInvoiceId = cpInvoiceId inp, payProvider = cpProvider inp, payStatus = CREATED,
         payAmount = cpAmountTiyin inp, payCurrency = cpCurrency inp, payProviderTransactionId = None,
         payIdempotencyKey = cpIdempotencyKey inp, payFailureReason = None, payPaidAt = None,
         payRefundedAt = None, payCreatedAt = now\<rparr>
       in bindS (getS bdPayments) (\<lambda>rows.
       bindS (guardS (cpIdempotencyKey inp \<in> payIdempotencyKey ` set rows)
         (OtherError (UniqueViolation ''Payment.idempotencyKey''))) (\<lambda>_.
       bindS (putS (\<lambda>s. s\<lparr>bdPayments := bdPayments s @ [row]\<rparr>)) (\<lambda>_.
       bindS (billingAudit (auditOf ''payment.initiated'' (cpActorUserId inp) (showNat i) '''' '''' None)) (\<lambda>_.
       returnS row))))))"
  have "wp ?m (\<lambda>row u. row \<in> set (bdPayments u) \<and> payIdempotencyKey row = cpIdempotencyKey inp
      \<and> payInvoiceId row = cpInvoiceId inp \<and> payProvider row = cpProvider inp) (\<lambda>_ _. True) s"
    by (simp add: wp_simps wp_repo Let_def free)
  then show ?thesis
    using assms unfolding createPaymentIdempotent_def wp_def
    by (auto simp: findPaymentByIdempotencyKey_def find_Some_iff split: prod.splits sum.splits if_splits option.splits)
qed

lemma replay_result:
  "replayOrConflict p i prov s = (Inr (q, url), t) \<Longrightarrow> q = p \<and> t = s \<and> payInvoiceId p = i \<and> payProvider p = prov"
  by (auto simp: replayOrConflict_def evaluateIdempotentInitiate_def split: if_splits)

lemma checkout_keeps:
  "p \<in> set (bdPayments s) \<Longrightarrow> \<exists>q \<in> set (bdPayments (snd (setProviderCheckout i ref s))). sameBill p q"
proof -
  assume p: "p \<in> set (bdPayments s)"
  let ?f = "\<lambda>p. if payId p = i then withRef ref p else p"
  have same: "sameBill p (?f p)" "sameBill p p" by (simp_all add: sameBill_def)
  from checkout_effect[of i ref s] show ?thesis
  proof
    assume "snd (setProviderCheckout i ref s) = s"
    then show ?thesis using p same(2) by auto
  next
    assume "referenced i ref s (snd (setProviderCheckout i ref s))"
    then have "?f p \<in> set (bdPayments (snd (setProviderCheckout i ref s)))"
      unfolding referenced_def using p by simp
    with same(1) show ?thesis by (rule bexI)
  qed
qed

lemma initiateWith_row:
  assumes "initiateWith adapter actor r prov key now s = (Inr (p, url), t)"
  shows "\<exists>q \<in> set (bdPayments t). payId q = payId p \<and> payIdempotencyKey q = key \<and> payInvoiceId q = invId r \<and> payProvider q = prov"
proof -
  let ?inp = "\<lparr>cpInvoiceId = invId r, cpProvider = prov, cpAmountTiyin = invTotalAmount r, cpCurrency = invCurrency r,
         cpIdempotencyKey = key, cpActorUserId = acUserId actor\<rparr>"
  obtain pay created u where c: "createPaymentIdempotent ?inp now s = (Inr (pay, created), u)"
    using assms unfolding initiateWith_def bindS_Inr_iff by (auto split: prod.splits)
  note row = created_payment[OF c]
  show ?thesis
  proof (cases created)
    case False
    then have "replayOrConflict pay (invId r) prov u = (Inr (p, url), t)"
      using assms c by (simp add: initiateWith_def bindS_def[of "createPaymentIdempotent _ _"])
    then show ?thesis using replay_result row by fastforce
  next
    case True
    then obtain ref v where v: "setProviderCheckout (payId pay) ref u = (Inr (), v)" and p: "payId p = payId pay" "t = v"
      using assms c
      by (auto simp: initiateWith_def bindS_def[of "createPaymentIdempotent _ _"] timed_liftE bindS_Inr_iff split: sum.splits)
    obtain q where "q \<in> set (bdPayments v)" "sameBill pay q" using checkout_keeps[of pay u "payId pay" ref] row v by auto
    then show ?thesis using row True p by (auto simp: sameBill_def)
  qed
qed

lemma initiatePayment_row:
  assumes "initiatePayment reg actor i prov key now s = (Inr (p, url), t)"
  shows "\<exists>q \<in> set (bdPayments t). payId q = payId p \<and> payIdempotencyKey q = key \<and> payInvoiceId q = i \<and> payProvider q = prov"
proof -
  obtain r where r: "findInvoiceById i s = Some r" using assms
    by (auto simp: initiatePayment_def bind_eval split: option.splits)
  have id: "invId r = i" using findInvoice_mem[OF r] by blast
  show ?thesis
  proof (cases "findPaymentByIdempotencyKey key s")
    case (Some e)
    then have "replayOrConflict e i prov s = (Inr (p, url), t)"
      using assms r by (auto simp: initiatePayment_def bind_eval split: if_splits)
    moreover have "e \<in> set (bdPayments s)" "payIdempotencyKey e = key"
      using Some by (auto simp: findPaymentByIdempotencyKey_def find_Some_iff)
    ultimately show ?thesis using replay_result by blast
  next
    case None
    let ?s = "s\<lparr>bdMetrics := bdMetrics s @ [PaymentAttempt prov]\<rparr>"
    have "\<exists>adapter. initiateWith adapter actor r prov key now ?s = (Inr (p, url), t)"
      using assms r None
      by (auto simp: initiatePayment_def bind_eval failPayment_def split: if_splits sum.splits)
    then show ?thesis using initiateWith_row id by blast
  qed
qed

text \<open>
  C9. An idempotency key is honoured for ever: once a payment was opened under it, every later
  request with the key, by whoever may pay the invoice asked for, changes nothing. It returns
  that payment, without a checkout address, when it asks for the same invoice and provider, whatever has happened to the
  invoice since, and is refused as a reuse of the key otherwise. (The API document lets a key live for 24 hours and
  promises the first response again; the code does neither.)
\<close>

theorem idempotency_key_is_final:
  assumes "reachableBilling s" "initiatePayment reg actor i prov key now s = (Inr (p, url), t)" "billingStep\<^sup>*\<^sup>* t u"
    and "findInvoiceById j u = Some r" "invUserId r = Some (acUserId actor') \<or> can actor' Create paymentRef now'"
  shows "if j = i \<and> prov' = prov
     then \<exists>q. initiatePayment reg' actor' j prov' key now' u = (Inr (q, None), u) \<and> payId q = payId p
     else initiatePayment reg' actor' j prov' key now' u = (Inl (BusinessRuleError ''IDEMPOTENCY_KEY_REUSE''), u)"
proof -
  have t: "reachableBilling t" using billing_trans[OF assms(1) initiatePayment_steps] assms(2) by (metis snd_conv)
  obtain q where q: "q \<in> set (bdPayments t)" "payId q = payId p" "payIdempotencyKey q = key" "payInvoiceId q = i"
      "payProvider q = prov" using initiatePayment_row[OF assms(2)] by blast
  obtain q' where q': "q' \<in> set (bdPayments u)" "sameBill q q'"
    using payments_forward[OF billingOk_reachable[OF t] q(1) assms(3)] by blast
  have u: "idsOk u" using billingOk_reachable[OF billing_trans[OF t assms(3)]] by (simp add: billingOk_def)
  have "findPaymentByIdempotencyKey key u = Some q'"
  proof -
    obtain x where x: "findPaymentByIdempotencyKey key u = Some x"
      using q' q(3) unfolding findPaymentByIdempotencyKey_def
      by (cases "find (\<lambda>p. payIdempotencyKey p = key) (bdPayments u)") (auto simp: find_None_iff sameBill_def)
    then have "x \<in> set (bdPayments u)" "payIdempotencyKey x = payIdempotencyKey q'"
      using q' q(3) by (auto simp: findPaymentByIdempotencyKey_def find_Some_iff sameBill_def)
    then show ?thesis using x q'(1) u unfolding idsOk_def by (metis distinct_map inj_onD)
  qed
  then show ?thesis
    using assms(4,5) q q' sameBillD[OF q'(2)]
    by (auto simp: initiatePayment_def bind_eval replayOrConflict_def evaluateIdempotentInitiate_def)
qed

lemma first_payment: "case fst (initiatePayment realRegistry payer 1 MANUAL ''k1'' 0 bill1) of Inl _ \<Rightarrow> False | Inr _ \<Rightarrow> True"
  by code_simp

lemma bill3_invoice: "map_option invUserId (findInvoiceById 1 bill3) = Some (Some ''u1'')"
  by code_simp

theorem idempotency_key_is_final_witness:
  "initiatePayment realRegistry payer 1 CLICK ''k1'' 0 bill3 = (Inl (BusinessRuleError ''IDEMPOTENCY_KEY_REUSE''), bill3)"
proof -
  obtain p url t where t: "initiatePayment realRegistry payer 1 MANUAL ''k1'' 0 bill1 = (Inr (p, url), t)"
    using first_payment by (cases "initiatePayment realRegistry payer 1 MANUAL ''k1'' 0 bill1") (auto split: sum.splits)
  have u: "billingStep\<^sup>*\<^sup>* t bill3"
    using initiatePayment_steps[of t realRegistry payer 1 MANUAL "''k2''" 0] t by (simp add: bill3_def)
  obtain r where r: "findInvoiceById 1 bill3 = Some r" "invUserId r = Some ''u1''" using bill3_invoice by auto
  have "invUserId r = Some (acUserId payer) \<or> can payer Create paymentRef 0" using r(2) by (simp add: payer_def)
  from idempotency_key_is_final[OF bill1_reachable t u r(1) this, where prov' = CLICK and reg' = realRegistry]
  show ?thesis by simp
qed

end
