(* ===== verification/Friends.thy ===== *)
theory Friends
  imports Service
begin

text \<open>
  Friendship between players, \<^verbatim>\<open>src/modules/friend/\<close>: the rules (\<^verbatim>\<open>friendship.rules.ts\<close>), the
  table with the constraints of its migration (\<^verbatim>\<open>friend.repository.ts\<close>) and the service
  (\<^verbatim>\<open>friend.service.ts\<close>). What the player module answers is an argument: the player of a
  user, whether a player exists, and the summaries of players.
\<close>

section \<open>The rules\<close>

datatype FriendshipStatus = PENDING | ACCEPTED | BLOCKED

record FriendshipRow =
  frId :: nat
  frRequesterId :: string
  frAddresseeId :: string
  frStatus :: FriendshipStatus
  frBlockedById :: "string option"
  frAcceptedAt :: "int option"
  frCreatedAt :: int

datatype Denial =
    SELF_FRIENDSHIP | ALREADY_FRIENDS | REQUEST_PENDING | INCOMING_REQUEST_PENDING | BLOCKED_PAIR
  | NOT_ADDRESSEE | NOT_PENDING | NOT_MEMBER | NOT_BLOCKED | NOT_BLOCKER

datatype Decision = ALLOW | Deny Denial

definition isMember :: "string \<Rightarrow> FriendshipRow \<Rightarrow> bool" where
  "isMember i r \<longleftrightarrow> frRequesterId r = i \<or> frAddresseeId r = i"

definition canRequest :: "string \<Rightarrow> string \<Rightarrow> FriendshipRow option \<Rightarrow> Decision" where
  "canRequest actor target existing =
     (if actor = target then Deny SELF_FRIENDSHIP
      else case existing of
        None \<Rightarrow> ALLOW
      | Some r \<Rightarrow>
          if frStatus r = BLOCKED then Deny BLOCKED_PAIR
          else if frStatus r = ACCEPTED then Deny ALREADY_FRIENDS
          else if frRequesterId r = actor then Deny REQUEST_PENDING
          else Deny INCOMING_REQUEST_PENDING)"

definition canAccept :: "string \<Rightarrow> FriendshipRow \<Rightarrow> Decision" where
  "canAccept actor r =
     (if frStatus r \<noteq> PENDING then Deny NOT_PENDING
      else if frAddresseeId r \<noteq> actor then Deny NOT_ADDRESSEE
      else ALLOW)"

definition canDecline :: "string \<Rightarrow> FriendshipRow \<Rightarrow> Decision" where
  "canDecline actor r =
     (if frStatus r \<noteq> PENDING then Deny NOT_PENDING
      else if isMember actor r then ALLOW else Deny NOT_MEMBER)"

definition canRemove :: "string \<Rightarrow> FriendshipRow \<Rightarrow> Decision" where
  "canRemove actor r =
     (if \<not> isMember actor r then Deny NOT_MEMBER
      else if frStatus r = BLOCKED then Deny BLOCKED_PAIR
      else ALLOW)"

definition canBlock :: "string \<Rightarrow> string \<Rightarrow> Decision" where
  "canBlock actor target = (if actor = target then Deny SELF_FRIENDSHIP else ALLOW)"

definition canUnblock :: "string \<Rightarrow> FriendshipRow \<Rightarrow> Decision" where
  "canUnblock actor r =
     (if frStatus r \<noteq> BLOCKED then Deny NOT_BLOCKED
      else if frBlockedById r = Some actor then ALLOW else Deny NOT_BLOCKER)"

definition otherSide :: "string \<Rightarrow> FriendshipRow \<Rightarrow> string" where
  "otherSide actor r = (if frRequesterId r = actor then frAddresseeId r else frRequesterId r)"

section \<open>The table\<close>

record FriendDb =
  fdRows :: "FriendshipRow list"
  fdAudit :: "AuditRow list"
  fdNextId :: nat

datatype FriendFault = UniqueViolation | CheckViolation string | RecordNotFound

type_synonym 'a friend = "(FriendFault, FriendDb, 'a) action"

definition samePair :: "string \<Rightarrow> string \<Rightarrow> FriendshipRow \<Rightarrow> bool" where
  "samePair a b r \<longleftrightarrow> frRequesterId r = a \<and> frAddresseeId r = b \<or> frRequesterId r = b \<and> frAddresseeId r = a"

text \<open>The check constraints of the migration, for one row.\<close>

definition rowConstraints :: "FriendshipRow \<Rightarrow> FriendFault option" where
  "rowConstraints r =
     (if frRequesterId r = frAddresseeId r then Some (CheckViolation ''friendships_not_self'')
      else if (frStatus r = BLOCKED) \<noteq> (frBlockedById r \<noteq> None) then Some (CheckViolation ''friendships_blocked_by_consistent'')
      else if frBlockedById r \<noteq> None \<and> frBlockedById r \<notin> {Some (frRequesterId r), Some (frAddresseeId r)}
        then Some (CheckViolation ''friendships_blocked_by_member'')
      else if (frStatus r = ACCEPTED) \<noteq> (frAcceptedAt r \<noteq> None) then Some (CheckViolation ''friendships_accepted_at_consistent'')
      else None)"

definition checkRow :: "FriendshipRow \<Rightarrow> unit friend" where
  "checkRow r = (case rowConstraints r of None \<Rightarrow> returnS () | Some f \<Rightarrow> throwS (OtherError f))"

definition findPair :: "string \<Rightarrow> string \<Rightarrow> FriendDb \<Rightarrow> FriendshipRow option" where
  "findPair a b s = find (samePair a b) (fdRows s)"

definition findRow :: "nat \<Rightarrow> FriendDb \<Rightarrow> FriendshipRow option" where
  "findRow i s = find (\<lambda>r. frId r = i) (fdRows s)"

text \<open>The audit row of a write; the objects \<^verbatim>\<open>before\<close> and \<^verbatim>\<open>after\<close> as their printed values.\<close>

definition friendAudit :: "string \<Rightarrow> string \<Rightarrow> nat \<Rightarrow> string \<Rightarrow> string \<Rightarrow> unit friend" where
  "friendAudit act actorUserId i before after =
     auditWriteTo fdAudit_update (auditOf act actorUserId (showNat i) before after None)"

fun statusName :: "FriendshipStatus \<Rightarrow> string" where
  "statusName PENDING = ''PENDING''"
| "statusName ACCEPTED = ''ACCEPTED''"
| "statusName BLOCKED = ''BLOCKED''"

definition pairText :: "string \<Rightarrow> string \<Rightarrow> FriendshipStatus \<Rightarrow> string" where
  "pairText requesterId addresseeId st = requesterId @ '' '' @ addresseeId @ '' '' @ statusName st"

text \<open>\<^verbatim>\<open>create\<close> and \<^verbatim>\<open>update\<close> with the unique index over the pair and the check constraints.\<close>

definition createRow :: "string \<Rightarrow> string \<Rightarrow> FriendshipStatus \<Rightarrow> string option \<Rightarrow> int \<Rightarrow> FriendshipRow friend" where
  "createRow a b st blockedBy now =
     bindS (getS fdNextId) (\<lambda>i.
     let row = \<lparr>frId = i, frRequesterId = a, frAddresseeId = b, frStatus = st, frBlockedById = blockedBy,
       frAcceptedAt = None, frCreatedAt = now\<rparr>
     in bindS (checkRow row) (\<lambda>_.
     bindS (getS (findPair a b)) (\<lambda>taken.
     bindS (guardS (taken \<noteq> None) (OtherError UniqueViolation)) (\<lambda>_.
     bindS (putS (\<lambda>s. s\<lparr>fdRows := fdRows s @ [row], fdNextId := Suc i\<rparr>)) (\<lambda>_.
     returnS row)))))"

definition updateRow :: "nat \<Rightarrow> (FriendshipRow \<Rightarrow> FriendshipRow) \<Rightarrow> FriendshipRow friend" where
  "updateRow i f =
     bindS (getS (findRow i)) (\<lambda>found.
     case found of
       None \<Rightarrow> throwS (OtherError RecordNotFound)
     | Some r \<Rightarrow>
         bindS (checkRow (f r)) (\<lambda>_.
         bindS (putS (\<lambda>s. s\<lparr>fdRows := map (\<lambda>r. if frId r = i then f r else r) (fdRows s)\<rparr>)) (\<lambda>_.
         returnS (f r))))"

definition deleteRow :: "nat \<Rightarrow> unit friend" where
  "deleteRow i =
     bindS (getS (findRow i)) (\<lambda>found.
     bindS (guardS (found = None) (OtherError RecordNotFound)) (\<lambda>_.
     putS (\<lambda>s. s\<lparr>fdRows := filter (\<lambda>r. frId r \<noteq> i) (fdRows s)\<rparr>)))"

section \<open>The repository\<close>

definition repoCreateRequest :: "string \<Rightarrow> string \<Rightarrow> string \<Rightarrow> int \<Rightarrow> FriendshipRow friend" where
  "repoCreateRequest requesterId addresseeId actorUserId now = transaction (
     bindS (createRow requesterId addresseeId PENDING None now) (\<lambda>row.
     bindS (friendAudit ''friend.request'' actorUserId (frId row) '''' (pairText requesterId addresseeId PENDING)) (\<lambda>_.
     returnS row)))"

definition repoAccept :: "nat \<Rightarrow> string \<Rightarrow> int \<Rightarrow> unit friend" where
  "repoAccept i actorUserId now = transaction (
     bindS (updateRow i (\<lambda>r. r\<lparr>frStatus := ACCEPTED, frAcceptedAt := Some now\<rparr>)) (\<lambda>_.
     friendAudit ''friend.accept'' actorUserId i '''' ''ACCEPTED''))"

definition repoRemove :: "nat \<Rightarrow> string \<Rightarrow> string \<Rightarrow> unit friend" where
  "repoRemove i actorUserId act = transaction (
     bindS (getS (findRow i)) (\<lambda>found.
     bindS (deleteRow i) (\<lambda>_.
     friendAudit act actorUserId i
       (case found of None \<Rightarrow> '''' | Some r \<Rightarrow> pairText (frRequesterId r) (frAddresseeId r) (frStatus r)) '''')))"

definition repoBlock :: "string \<Rightarrow> string \<Rightarrow> string \<Rightarrow> int \<Rightarrow> FriendshipRow friend" where
  "repoBlock actorPlayerId targetPlayerId actorUserId now = transaction (
     bindS (getS (findPair actorPlayerId targetPlayerId)) (\<lambda>existing.
     bindS (case existing of
         None \<Rightarrow> createRow actorPlayerId targetPlayerId BLOCKED (Some actorPlayerId) now
       | Some r \<Rightarrow> updateRow (frId r) (\<lambda>r. r\<lparr>frStatus := BLOCKED, frBlockedById := Some actorPlayerId, frAcceptedAt := None\<rparr>)) (\<lambda>row.
     bindS (friendAudit ''friend.block'' actorUserId (frId row) '''' (actorPlayerId @ '' '' @ targetPlayerId)) (\<lambda>_.
     returnS row))))"

definition repoUnblock :: "nat \<Rightarrow> string \<Rightarrow> unit friend" where
  "repoUnblock i actorUserId = transaction (
     bindS (deleteRow i) (\<lambda>_. friendAudit ''friend.unblock'' actorUserId i '''' ''''))"

record FriendLink =
  flFriendshipId :: nat
  flOtherPlayerId :: string
  flStatus :: FriendshipStatus
  flOutgoing :: bool
  flCreatedAt :: int

definition toLink :: "string \<Rightarrow> FriendshipRow \<Rightarrow> FriendLink" where
  "toLink playerId r = \<lparr>flFriendshipId = frId r, flOtherPlayerId = otherSide playerId r, flStatus = frStatus r,
     flOutgoing = (frRequesterId r = playerId), flCreatedAt = frCreatedAt r\<rparr>"

definition LIST_LIMIT :: nat where "LIST_LIMIT = 200"

text \<open>\<^verbatim>\<open>ORDER BY createdAt DESC\<close>: rows of the same time in the order of the table.\<close>

definition newestFirst :: "FriendshipRow list \<Rightarrow> FriendshipRow list" where
  "newestFirst = sort_key (\<lambda>r. - frCreatedAt r)"

definition listFor :: "string \<Rightarrow> FriendshipStatus \<Rightarrow> FriendDb \<Rightarrow> FriendLink list" where
  "listFor playerId st s = map (toLink playerId) (take LIST_LIMIT (newestFirst
     (filter (\<lambda>r. frStatus r = st \<and> isMember playerId r) (fdRows s))))"

definition listBlockedBy :: "string \<Rightarrow> FriendDb \<Rightarrow> FriendLink list" where
  "listBlockedBy playerId s = map (toLink playerId) (take LIST_LIMIT (newestFirst
     (filter (\<lambda>r. frStatus r = BLOCKED \<and> frBlockedById r = Some playerId) (fdRows s))))"

section \<open>The service\<close>

record PlayerPort =
  ptPlayerOf :: "string \<Rightarrow> string option"
  ptExists :: "string \<Rightarrow> bool"
  ptNames :: "string list \<Rightarrow> (string \<times> string) list"

fun denialName :: "Denial \<Rightarrow> string" where
  "denialName SELF_FRIENDSHIP = ''SELF_FRIENDSHIP''"
| "denialName ALREADY_FRIENDS = ''ALREADY_FRIENDS''"
| "denialName REQUEST_PENDING = ''REQUEST_PENDING''"
| "denialName INCOMING_REQUEST_PENDING = ''INCOMING_REQUEST_PENDING''"
| "denialName BLOCKED_PAIR = ''BLOCKED''"
| "denialName NOT_ADDRESSEE = ''NOT_ADDRESSEE''"
| "denialName NOT_PENDING = ''NOT_PENDING''"
| "denialName NOT_MEMBER = ''NOT_MEMBER''"
| "denialName NOT_BLOCKED = ''NOT_BLOCKED''"
| "denialName NOT_BLOCKER = ''NOT_BLOCKER''"

definition assertAllowed :: "Decision \<Rightarrow> unit friend" where
  "assertAllowed d = (case d of ALLOW \<Rightarrow> returnS () | Deny why \<Rightarrow> throwS (BusinessRuleError (denialName why)))"

definition mePlayer :: "PlayerPort \<Rightarrow> string \<Rightarrow> string friend" where
  "mePlayer port actorUserId = (case ptPlayerOf port actorUserId of
     None \<Rightarrow> throwS (BusinessRuleError ''PLAYER_PROFILE_REQUIRED'') | Some p \<Rightarrow> returnS p)"

text \<open>\<^verbatim>\<open>load\<close>: the row of a member; anybody else learns nothing about it.\<close>

definition loadRow :: "PlayerPort \<Rightarrow> string \<Rightarrow> nat \<Rightarrow> (string \<times> FriendshipRow) friend" where
  "loadRow port actorUserId i =
     bindS (mePlayer port actorUserId) (\<lambda>meId.
     bindS (getS (findRow i)) (\<lambda>found.
     case found of
       None \<Rightarrow> throwS (NotFoundError ''Friendship'')
     | Some row \<Rightarrow>
         if frRequesterId row \<noteq> meId \<and> frAddresseeId row \<noteq> meId then throwS (NotFoundError ''Friendship'')
         else returnS (meId, row)))"

definition requestFriend :: "PlayerPort \<Rightarrow> string \<Rightarrow> string \<Rightarrow> int \<Rightarrow> nat friend" where
  "requestFriend port actorUserId targetPlayerId now =
     bindS (mePlayer port actorUserId) (\<lambda>meId.
     bindS (guardS (\<not> ptExists port targetPlayerId) (NotFoundError ''Player'')) (\<lambda>_.
     bindS (getS (findPair meId targetPlayerId)) (\<lambda>existing.
     bindS (assertAllowed (canRequest meId targetPlayerId existing)) (\<lambda>_. (\<lambda>s.
       case repoCreateRequest meId targetPlayerId actorUserId now s of
         (Inr row, s') \<Rightarrow> (Inr (frId row), s')
       | (Inl e, s') \<Rightarrow>
           if e = OtherError UniqueViolation then (Inl (BusinessRuleError ''INCOMING_REQUEST_PENDING''), s')
           else (Inl e, s'))))))"

definition acceptFriend :: "PlayerPort \<Rightarrow> string \<Rightarrow> nat \<Rightarrow> int \<Rightarrow> unit friend" where
  "acceptFriend port actorUserId i now =
     bindS (loadRow port actorUserId i) (\<lambda>(meId, row).
     bindS (assertAllowed (canAccept meId row)) (\<lambda>_.
     repoAccept i actorUserId now))"

definition endFriend :: "PlayerPort \<Rightarrow> string \<Rightarrow> nat \<Rightarrow> unit friend" where
  "endFriend port actorUserId i =
     bindS (loadRow port actorUserId i) (\<lambda>(meId, row).
     if frStatus row = PENDING then
       bindS (assertAllowed (canDecline meId row)) (\<lambda>_. repoRemove i actorUserId ''friend.decline'')
     else
       bindS (assertAllowed (canRemove meId row)) (\<lambda>_. repoRemove i actorUserId ''friend.remove''))"

definition blockPlayer :: "PlayerPort \<Rightarrow> string \<Rightarrow> string \<Rightarrow> int \<Rightarrow> nat friend" where
  "blockPlayer port actorUserId targetPlayerId now =
     bindS (mePlayer port actorUserId) (\<lambda>meId.
     bindS (assertAllowed (canBlock meId targetPlayerId)) (\<lambda>_.
     bindS (guardS (\<not> ptExists port targetPlayerId) (NotFoundError ''Player'')) (\<lambda>_.
     bindS (repoBlock meId targetPlayerId actorUserId now) (\<lambda>row. returnS (frId row)))))"

definition unblockPlayer :: "PlayerPort \<Rightarrow> string \<Rightarrow> nat \<Rightarrow> unit friend" where
  "unblockPlayer port actorUserId i =
     bindS (loadRow port actorUserId i) (\<lambda>(meId, row).
     bindS (assertAllowed (canUnblock meId row)) (\<lambda>_.
     repoUnblock i actorUserId))"

text \<open>A link whose player the port does not know is left out.\<close>

definition withNames :: "PlayerPort \<Rightarrow> FriendLink list \<Rightarrow> (FriendLink \<times> string) list" where
  "withNames port links =
     (if links = [] then []
      else let byId = map_of (rev (ptNames port (map flOtherPlayerId links)))
           in concat (map (\<lambda>link. case byId (flOtherPlayerId link) of None \<Rightarrow> [] | Some name \<Rightarrow> [(link, name)]) links))"

definition listFriends :: "PlayerPort \<Rightarrow> string \<Rightarrow> (FriendLink \<times> string) list friend" where
  "listFriends port actorUserId =
     bindS (mePlayer port actorUserId) (\<lambda>meId.
     bindS (getS (listFor meId ACCEPTED)) (\<lambda>links. returnS (withNames port links)))"

definition listPending :: "PlayerPort \<Rightarrow> string \<Rightarrow> (FriendLink \<times> string) list friend" where
  "listPending port actorUserId =
     bindS (mePlayer port actorUserId) (\<lambda>meId.
     bindS (getS (listFor meId PENDING)) (\<lambda>links. returnS (withNames port links)))"

definition listBlocked :: "PlayerPort \<Rightarrow> string \<Rightarrow> (FriendLink \<times> string) list friend" where
  "listBlocked port actorUserId =
     bindS (mePlayer port actorUserId) (\<lambda>meId.
     bindS (getS (listBlockedBy meId)) (\<lambda>links. returnS (withNames port links)))"

end
