(* ===== verification/FriendProps.thy ===== *)
theory FriendProps
  imports Friends
begin

text \<open>
  The properties of friendship: the table stays consistent and nobody becomes a friend
  without having asked or accepted, also when requests interleave; strangers cannot tell a
  friendship from none; a block holds against every request but \<^verbatim>\<open>block\<close> itself.
\<close>

section \<open>What the writes leave behind\<close>

definition logged :: "string \<Rightarrow> string \<Rightarrow> nat \<Rightarrow> FriendDb \<Rightarrow> FriendDb \<Rightarrow> bool" where
  "logged act u i s t \<longleftrightarrow> (\<exists>row. fdAudit t = fdAudit s @ [row] \<and>
     auAction row = act \<and> auActor row = u \<and> auResourceId row = showNat i)"

definition created :: "string \<Rightarrow> string \<Rightarrow> FriendshipStatus \<Rightarrow> string option \<Rightarrow> string \<Rightarrow> string \<Rightarrow> int \<Rightarrow> FriendDb \<Rightarrow> FriendDb \<Rightarrow> bool" where
  "created a b st by act u now s t \<longleftrightarrow> findPair a b s = None \<and>
     (\<exists>r. r = \<lparr>frId = fdNextId s, frRequesterId = a, frAddresseeId = b, frStatus = st, frBlockedById = by,
        frAcceptedAt = None, frCreatedAt = now\<rparr> \<and> rowConstraints r = None \<and> fdRows t = fdRows s @ [r]) \<and>
     fdNextId t = Suc (fdNextId s) \<and> logged act u (fdNextId s) s t"

definition updated :: "nat \<Rightarrow> (FriendshipRow \<Rightarrow> FriendshipRow) \<Rightarrow> string \<Rightarrow> string \<Rightarrow> FriendDb \<Rightarrow> FriendDb \<Rightarrow> bool" where
  "updated i f act u s t \<longleftrightarrow>
     (\<exists>r. findRow i s = Some r \<and> rowConstraints (f r) = None) \<and>
     fdRows t = map (\<lambda>r. if frId r = i then f r else r) (fdRows s) \<and> fdNextId t = fdNextId s \<and>
     logged act u i s t"

definition deleted :: "nat \<Rightarrow> string \<Rightarrow> string \<Rightarrow> FriendDb \<Rightarrow> FriendDb \<Rightarrow> bool" where
  "deleted i act u s t \<longleftrightarrow> fdRows t = filter (\<lambda>r. frId r \<noteq> i) (fdRows s) \<and> fdNextId t = fdNextId s \<and>
     logged act u i s t"

lemma wp_checkRow: "wp (checkRow r) Q E s = (case rowConstraints r of None \<Rightarrow> Q () s | Some f \<Rightarrow> E (OtherError f) s)"
  by (simp add: checkRow_def wp_simps split: option.split)

lemma wp_createRow:
  "wp (createRow a b st by now) Q E s =
     (let r = \<lparr>frId = fdNextId s, frRequesterId = a, frAddresseeId = b, frStatus = st, frBlockedById = by,
        frAcceptedAt = None, frCreatedAt = now\<rparr>
      in case rowConstraints r of
           Some f \<Rightarrow> E (OtherError f) s
         | None \<Rightarrow> if findPair a b s \<noteq> None then E (OtherError UniqueViolation) s
                   else Q r (s\<lparr>fdRows := fdRows s @ [r], fdNextId := Suc (fdNextId s)\<rparr>))"
  by (simp add: createRow_def wp_simps wp_checkRow Let_def split: option.split)

lemma wp_updateRow:
  "wp (updateRow i f) Q E s =
     (case findRow i s of
        None \<Rightarrow> E (OtherError RecordNotFound) s
      | Some r \<Rightarrow> (case rowConstraints (f r) of
           Some e \<Rightarrow> E (OtherError e) s
         | None \<Rightarrow> Q (f r) (s\<lparr>fdRows := map (\<lambda>r. if frId r = i then f r else r) (fdRows s)\<rparr>)))"
  by (simp add: updateRow_def wp_simps wp_checkRow split: option.split)

lemma wp_deleteRow:
  "wp (deleteRow i) Q E s =
     (if findRow i s = None then E (OtherError RecordNotFound) s
      else Q () (s\<lparr>fdRows := filter (\<lambda>r. frId r \<noteq> i) (fdRows s)\<rparr>))"
  by (simp add: deleteRow_def wp_simps)

lemma wp_friendAudit:
  assumes "act \<notin> REASON_REQUIRED"
  shows "wp (friendAudit act u i bef aft) Q E s = Q () (s\<lparr>fdAudit := fdAudit s @ [auditOf act u (showNat i) bef aft None]\<rparr>)"
proof -
  have upd: "fdAudit_update (\<lambda>rows. rows @ [r]) s = s\<lparr>fdAudit := fdAudit s @ [r]\<rparr>" for r by (cases s) simp
  have "auAction (auditOf act u x bef aft None) \<notin> REASON_REQUIRED" for x using assms by (simp add: auditOf_def)
  then show ?thesis by (simp only: friendAudit_def auditWriteTo_def wp_simps upd) simp
qed

lemma free_actions: "''friend.request'' \<notin> REASON_REQUIRED" "''friend.accept'' \<notin> REASON_REQUIRED"
  "''friend.decline'' \<notin> REASON_REQUIRED" "''friend.remove'' \<notin> REASON_REQUIRED"
  "''friend.block'' \<notin> REASON_REQUIRED" "''friend.unblock'' \<notin> REASON_REQUIRED"
  by (simp_all add: REASON_REQUIRED_def)

lemma transaction_result:
  "wp m (\<lambda>_ t. P t) (\<lambda>_ _. True) s \<Longrightarrow>
   (\<exists>e. transaction m s = (Inl e, s)) \<or> (\<exists>x t. transaction m s = (Inr x, t) \<and> P t)"
  by (auto simp: wp_def transaction_def split: prod.splits sum.splits)

lemma request_effect:
  "(\<exists>e. repoCreateRequest a b u now s = (Inl e, s)) \<or>
   (\<exists>x t. repoCreateRequest a b u now s = (Inr x, t) \<and> created a b PENDING None ''friend.request'' u now s t)"
  unfolding repoCreateRequest_def
  by (rule transaction_result)
     (simp add: wp_simps wp_createRow wp_friendAudit free_actions created_def logged_def auditOf_def Let_def split: option.split)

lemma accept_effect:
  "(\<exists>e. repoAccept i u now s = (Inl e, s)) \<or>
   (\<exists>x t. repoAccept i u now s = (Inr x, t) \<and>
      updated i (\<lambda>r. r\<lparr>frStatus := ACCEPTED, frAcceptedAt := Some now\<rparr>) ''friend.accept'' u s t)"
  unfolding repoAccept_def
  by (rule transaction_result)
     (simp add: wp_simps wp_updateRow wp_friendAudit free_actions updated_def logged_def auditOf_def split: option.split)

lemma remove_effect:
  "act \<notin> REASON_REQUIRED \<Longrightarrow>
   (\<exists>e. repoRemove i u act s = (Inl e, s)) \<or> (\<exists>x t. repoRemove i u act s = (Inr x, t) \<and> deleted i act u s t)"
  unfolding repoRemove_def
  by (rule transaction_result) (simp add: wp_simps wp_deleteRow wp_friendAudit deleted_def logged_def auditOf_def)

lemma unblock_effect:
  "(\<exists>e. repoUnblock i u s = (Inl e, s)) \<or> (\<exists>x t. repoUnblock i u s = (Inr x, t) \<and> deleted i ''friend.unblock'' u s t)"
  unfolding repoUnblock_def
  by (rule transaction_result) (simp add: wp_simps wp_deleteRow wp_friendAudit free_actions deleted_def logged_def auditOf_def)

definition blockedRow :: "string \<Rightarrow> FriendshipRow \<Rightarrow> FriendshipRow" where
  "blockedRow m r = r\<lparr>frStatus := BLOCKED, frBlockedById := Some m, frAcceptedAt := None\<rparr>"

lemma block_effect:
  "(\<exists>e. repoBlock m x u now s = (Inl e, s)) \<or>
   (\<exists>y t. repoBlock m x u now s = (Inr y, t) \<and>
      (case findPair m x s of
         None \<Rightarrow> created m x BLOCKED (Some m) ''friend.block'' u now s t
       | Some r \<Rightarrow> updated (frId r) (blockedRow m) ''friend.block'' u s t))"
  if ids: "\<And>r. findPair m x s = Some r \<Longrightarrow> findRow (frId r) s = Some r"
proof (cases "findPair m x s")
  case None
  then show ?thesis
    unfolding repoBlock_def
    by (intro transaction_result)
       (simp add: wp_simps wp_createRow wp_friendAudit free_actions created_def logged_def auditOf_def Let_def split: option.split)
next
  case (Some r)
  then show ?thesis
    unfolding repoBlock_def
    by (intro transaction_result)
       (simp add: wp_simps wp_updateRow wp_friendAudit free_actions updated_def logged_def auditOf_def blockedRow_def[abs_def] ids split: option.split)
qed

section \<open>Requests in two phases\<close>

text \<open>
  A request reads and decides, and later commits one transaction; between the two, other
  requests may commit. \<open>decide\<close> is the first phase of each service operation and \<open>commit\<close> the
  second; \<open>serve\<close> is the operation itself.
\<close>

datatype FriendRequest =
    AskFriend string string int
  | AcceptRequest string nat int
  | EndFriendship string nat
  | BlockPlayer string string int
  | UnblockPlayer string nat

datatype FriendCommit =
    CommitRequest string string string int
  | CommitAccept nat string int
  | CommitRemove nat string string
  | CommitBlock string string string int
  | CommitUnblock nat string

fun serve :: "PlayerPort \<Rightarrow> FriendRequest \<Rightarrow> unit friend" where
  "serve port (AskFriend u x now) = bindS (requestFriend port u x now) (\<lambda>_. returnS ())"
| "serve port (AcceptRequest u i now) = acceptFriend port u i now"
| "serve port (EndFriendship u i) = endFriend port u i"
| "serve port (BlockPlayer u x now) = bindS (blockPlayer port u x now) (\<lambda>_. returnS ())"
| "serve port (UnblockPlayer u i) = unblockPlayer port u i"

fun decide :: "PlayerPort \<Rightarrow> FriendRequest \<Rightarrow> FriendCommit friend" where
  "decide port (AskFriend u x now) =
     bindS (mePlayer port u) (\<lambda>me.
     bindS (guardS (\<not> ptExists port x) (NotFoundError ''Player'')) (\<lambda>_.
     bindS (getS (findPair me x)) (\<lambda>existing.
     bindS (assertAllowed (canRequest me x existing)) (\<lambda>_. returnS (CommitRequest me x u now)))))"
| "decide port (AcceptRequest u i now) =
     bindS (loadRow port u i) (\<lambda>(me, row).
     bindS (assertAllowed (canAccept me row)) (\<lambda>_. returnS (CommitAccept i u now)))"
| "decide port (EndFriendship u i) =
     bindS (loadRow port u i) (\<lambda>(me, row).
     bindS (assertAllowed (if frStatus row = PENDING then canDecline me row else canRemove me row)) (\<lambda>_.
     returnS (CommitRemove i u (if frStatus row = PENDING then ''friend.decline'' else ''friend.remove''))))"
| "decide port (BlockPlayer u x now) =
     bindS (mePlayer port u) (\<lambda>me.
     bindS (assertAllowed (canBlock me x)) (\<lambda>_.
     bindS (guardS (\<not> ptExists port x) (NotFoundError ''Player'')) (\<lambda>_.
     returnS (CommitBlock me x u now))))"
| "decide port (UnblockPlayer u i) =
     bindS (loadRow port u i) (\<lambda>(me, row).
     bindS (assertAllowed (canUnblock me row)) (\<lambda>_. returnS (CommitUnblock i u)))"

fun commit :: "FriendCommit \<Rightarrow> unit friend" where
  "commit (CommitRequest a b u now) = (\<lambda>s. case repoCreateRequest a b u now s of
     (Inr _, t) \<Rightarrow> (Inr (), t)
   | (Inl e, t) \<Rightarrow> if e = OtherError UniqueViolation then (Inl (BusinessRuleError ''INCOMING_REQUEST_PENDING''), t) else (Inl e, t))"
| "commit (CommitAccept i u now) = repoAccept i u now"
| "commit (CommitRemove i u act) = repoRemove i u act"
| "commit (CommitBlock a b u now) = bindS (repoBlock a b u now) (\<lambda>_. returnS ())"
| "commit (CommitUnblock i u) = repoUnblock i u"

lemma decide_keeps: "snd (decide port q s) = s"
  by (cases q)
     (auto simp: bindS_def returnS_def getS_def guardS_def throwS_def mePlayer_def assertAllowed_def loadRow_def
        split: option.splits Decision.splits sum.splits prod.splits)

lemma serve_two_phases: "serve port q = bindS (decide port q) commit"
proof -
  note defs = bindS_def returnS_def getS_def guardS_def throwS_def mePlayer_def assertAllowed_def loadRow_def
  show ?thesis
  proof (cases q)
    case (AskFriend u x now)
    then show ?thesis
      by (auto simp: defs requestFriend_def fun_eq_iff split: option.splits Decision.splits sum.splits prod.splits)
  next
    case (AcceptRequest u i now)
    then show ?thesis
      by (auto simp: defs acceptFriend_def fun_eq_iff split: option.splits Decision.splits)
  next
    case (EndFriendship u i)
    then show ?thesis
      by (auto simp: defs endFriend_def fun_eq_iff split: option.splits Decision.splits)
  next
    case (BlockPlayer u x now)
    then show ?thesis
      by (auto simp: defs blockPlayer_def fun_eq_iff split: option.splits Decision.splits sum.splits prod.splits)
  next
    case (UnblockPlayer u i)
    then show ?thesis
      by (auto simp: defs unblockPlayer_def fun_eq_iff split: option.splits Decision.splits)
  qed
qed

text \<open>The system: the table and the commits still on their way.\<close>

type_synonym FriendSystem = "FriendDb \<times> FriendCommit list"

inductive friendSystem :: "PlayerPort \<Rightarrow> FriendSystem \<Rightarrow> FriendSystem \<Rightarrow> bool" for port where
  decides: "decide port q s = (Inr c, s) \<Longrightarrow> friendSystem port (s, cs) (s, c # cs)"
| commits: "c \<in> set cs \<Longrightarrow> friendSystem port (s, cs) (snd (commit c s), remove1 c cs)"

definition noFriends :: FriendDb where
  "noFriends = \<lparr>fdRows = [], fdAudit = [], fdNextId = 0\<rparr>"

inductive friendReachable :: "PlayerPort \<Rightarrow> FriendSystem \<Rightarrow> bool" for port where
  initially: "friendReachable port (noFriends, [])"
| continues: "friendReachable port w \<Longrightarrow> friendSystem port w w' \<Longrightarrow> friendReachable port w'"

section \<open>The invariant of the table\<close>

text \<open>Somebody whose player is \<open>m\<close> has done \<open>act\<close> on row \<open>i\<close>.\<close>

definition didBy :: "PlayerPort \<Rightarrow> FriendDb \<Rightarrow> string \<Rightarrow> nat \<Rightarrow> string \<Rightarrow> bool" where
  "didBy port s act i m \<longleftrightarrow> (\<exists>row \<in> set (fdAudit s). auAction row = act \<and> auResourceId row = showNat i \<and>
     ptPlayerOf port (auActor row) = Some m)"

definition consented :: "PlayerPort \<Rightarrow> FriendDb \<Rightarrow> FriendshipRow \<Rightarrow> bool" where
  "consented port s r \<longleftrightarrow>
     (frStatus r \<noteq> BLOCKED \<longrightarrow> didBy port s ''friend.request'' (frId r) (frRequesterId r)) \<and>
     (frStatus r = ACCEPTED \<longrightarrow> didBy port s ''friend.accept'' (frId r) (frAddresseeId r)) \<and>
     (\<forall>m. frBlockedById r = Some m \<longrightarrow> didBy port s ''friend.block'' (frId r) m)"

definition friendOk :: "PlayerPort \<Rightarrow> FriendDb \<Rightarrow> bool" where
  "friendOk port s \<longleftrightarrow>
     distinct (map frId (fdRows s)) \<and>
     (\<forall>r \<in> set (fdRows s). frId r < fdNextId s \<and> rowConstraints r = None \<and> consented port s r) \<and>
     (\<forall>r \<in> set (fdRows s). \<forall>q \<in> set (fdRows s). samePair (frRequesterId r) (frAddresseeId r) q \<longrightarrow> q = r)"

fun commitOk :: "PlayerPort \<Rightarrow> FriendDb \<Rightarrow> FriendCommit \<Rightarrow> bool" where
  "commitOk port s (CommitRequest a b u now) = (ptPlayerOf port u = Some a)"
| "commitOk port s (CommitAccept i u now) = (i < fdNextId s \<and> (\<exists>me. ptPlayerOf port u = Some me \<and>
     (\<forall>r \<in> set (fdRows s). frId r = i \<longrightarrow> frAddresseeId r = me)))"
| "commitOk port s (CommitRemove i u act) = (act \<in> {''friend.decline'', ''friend.remove''})"
| "commitOk port s (CommitBlock a b u now) = (ptPlayerOf port u = Some a)"
| "commitOk port s (CommitUnblock i u) = True"

lemma findRow_Some_D: "findRow i s = Some r \<Longrightarrow> r \<in> set (fdRows s) \<and> frId r = i"
  by (auto simp: findRow_def find_Some_iff)

lemma findPair_Some_D: "findPair a b s = Some r \<Longrightarrow> r \<in> set (fdRows s) \<and> samePair a b r"
  by (auto simp: findPair_def find_Some_iff)

lemma findRow_unique: "distinct (map frId (fdRows s)) \<Longrightarrow> r \<in> set (fdRows s) \<Longrightarrow> findRow (frId r) s = Some r"
proof -
  have "distinct (map frId rs) \<Longrightarrow> r \<in> set rs \<Longrightarrow> find (\<lambda>q. frId q = frId r) rs = Some r" for rs
    by (induction rs) force+
  then show "distinct (map frId (fdRows s)) \<Longrightarrow> r \<in> set (fdRows s) \<Longrightarrow> findRow (frId r) s = Some r"
    by (simp add: findRow_def)
qed

lemma didBy_mono: "didBy port s act i m \<Longrightarrow> set (fdAudit s) \<subseteq> set (fdAudit t) \<Longrightarrow> didBy port t act i m"
  by (auto simp: didBy_def)

lemma consented_mono: "consented port s r \<Longrightarrow> set (fdAudit s) \<subseteq> set (fdAudit t) \<Longrightarrow> consented port t r"
  by (auto simp: consented_def intro: didBy_mono)

lemma logged_mono: "logged act u i s t \<Longrightarrow> set (fdAudit s) \<subseteq> set (fdAudit t)"
  by (auto simp: logged_def)

lemma logged_didBy: "logged act u i s t \<Longrightarrow> ptPlayerOf port u = Some m \<Longrightarrow> didBy port t act i m"
  by (auto simp: logged_def didBy_def)

lemma created_ok:
  assumes ok: "friendOk port s" and c: "created a b st by act u now s t"
    and new: "\<And>r. frId r = fdNextId s \<Longrightarrow> frRequesterId r = a \<Longrightarrow> frAddresseeId r = b \<Longrightarrow> frStatus r = st \<Longrightarrow>
      frBlockedById r = by \<Longrightarrow> consented port t r"
  shows "friendOk port t"
proof -
  from c obtain r where r: "frId r = fdNextId s" "frRequesterId r = a" "frAddresseeId r = b" "frStatus r = st"
      "frBlockedById r = by" "rowConstraints r = None" "fdRows t = fdRows s @ [r]"
    and t: "findPair a b s = None" "fdNextId t = Suc (fdNextId s)" "logged act u (fdNextId s) s t"
    unfolding created_def by (elim conjE exE) (rule that, simp_all)
  have mono: "set (fdAudit s) \<subseteq> set (fdAudit t)" by (rule logged_mono [OF t(3)])
  have rc: "consented port t r" by (rule new [OF r(1-5)])
  have none: "\<not> samePair a b q" if "q \<in> set (fdRows s)" for q
    using t(1) that by (auto simp: findPair_def find_None_iff)
  then have none': "\<not> samePair (frRequesterId q) (frAddresseeId q) r" if "q \<in> set (fdRows s)" for q
    using none [OF that] r(2,3) by (auto simp: samePair_def)
  have old: "frId q < fdNextId s" "rowConstraints q = None" "consented port t q" if "q \<in> set (fdRows s)" for q
    using ok that mono by (auto simp: friendOk_def intro: consented_mono)
  have "frId r \<notin> frId ` set (fdRows s)"
  proof
    assume "frId r \<in> frId ` set (fdRows s)"
    then obtain q where q: "q \<in> set (fdRows s)" "frId r = frId q" by (elim imageE)
    show False using old(1) [OF q(1)] q(2) r(1) by simp
  qed
  then have "distinct (map frId (fdRows t))"
    using ok r(7) by (simp add: friendOk_def)
  moreover have "\<forall>q \<in> set (fdRows t). frId q < fdNextId t \<and> rowConstraints q = None \<and> consented port t q"
    using old rc r(1,6,7) t(2) by (auto intro: less_SucI)
  moreover have "\<forall>p \<in> set (fdRows t). \<forall>q \<in> set (fdRows t). samePair (frRequesterId p) (frAddresseeId p) q \<longrightarrow> q = p"
    using ok none none' r(2,3,7) by (auto simp: friendOk_def)
  ultimately show ?thesis by (simp add: friendOk_def)
qed

lemma updated_ok:
  assumes ok: "friendOk port s" and c: "updated i f act u s t"
    and keeps: "\<And>r. frId (f r) = frId r \<and> frRequesterId (f r) = frRequesterId r \<and> frAddresseeId (f r) = frAddresseeId r"
    and new: "\<And>r. r \<in> set (fdRows s) \<Longrightarrow> frId r = i \<Longrightarrow> rowConstraints (f r) = None \<Longrightarrow> consented port t (f r)"
  shows "friendOk port t"
proof -
  from c obtain r where r: "findRow i s = Some r" "rowConstraints (f r) = None"
    and t: "fdRows t = map (\<lambda>r. if frId r = i then f r else r) (fdRows s)" "fdNextId t = fdNextId s" "logged act u i s t"
    by (auto simp: updated_def)
  let ?g = "\<lambda>r. if frId r = i then f r else r"
  have mono: "set (fdAudit s) \<subseteq> set (fdAudit t)" by (rule logged_mono [OF t(3)])
  have d: "distinct (map frId (fdRows s))" using ok by (simp add: friendOk_def)
  have only: "q = r" if "q \<in> set (fdRows s)" "frId q = i" for q
    using findRow_unique [OF d that(1)] r(1) that(2) by simp
  have ids: "map frId (fdRows t) = map frId (fdRows s)" using keeps by (simp add: t(1))
  have old: "frId (?g q) < fdNextId t \<and> rowConstraints (?g q) = None \<and> consented port t (?g q)" if "q \<in> set (fdRows s)" for q
    using ok that mono keeps only r(2) new [OF that] by (auto simp: friendOk_def t(2) intro: consented_mono)
  have pairs: "samePair (frRequesterId (?g p)) (frAddresseeId (?g p)) (?g q) = samePair (frRequesterId p) (frAddresseeId p) q" for p q
    using keeps by (simp add: samePair_def)
  have "?g q = ?g p" if "p \<in> set (fdRows s)" "q \<in> set (fdRows s)" "samePair (frRequesterId (?g p)) (frAddresseeId (?g p)) (?g q)" for p q
  proof -
    have "q = p" using ok that unfolding pairs by (simp add: friendOk_def)
    then show ?thesis by simp
  qed
  then have "\<forall>p \<in> set (fdRows t). \<forall>q \<in> set (fdRows t). samePair (frRequesterId p) (frAddresseeId p) q \<longrightarrow> q = p"
    unfolding t(1) set_map by blast
  moreover have "\<forall>q \<in> set (fdRows t). frId q < fdNextId t \<and> rowConstraints q = None \<and> consented port t q"
  proof
    fix q assume "q \<in> set (fdRows t)"
    then obtain p where p: "p \<in> set (fdRows s)" "q = ?g p" unfolding t(1) set_map by (elim imageE)
    show "frId q < fdNextId t \<and> rowConstraints q = None \<and> consented port t q"
      unfolding p(2) by (rule old [OF p(1)])
  qed
  ultimately show ?thesis using d by (simp add: friendOk_def ids)
qed

lemma deleted_ok:
  assumes ok: "friendOk port s" and c: "deleted i act u s t"
  shows "friendOk port t"
proof -
  have mono: "set (fdAudit s) \<subseteq> set (fdAudit t)" using c logged_mono [of act u i s t] by (simp add: deleted_def)
  have "map frId (fdRows t) = filter (\<lambda>k. k \<noteq> i) (map frId (fdRows s))"
    using c by (simp add: deleted_def filter_map comp_def)
  then have "distinct (map frId (fdRows t))" using ok by (simp add: friendOk_def)
  then show ?thesis
    using ok c mono by (auto simp: friendOk_def deleted_def intro: consented_mono)
qed

section \<open>Every reachable state\<close>

lemma rowConstraints_accepted: "rowConstraints (r\<lparr>frStatus := ACCEPTED, frAcceptedAt := Some now\<rparr>) = None \<Longrightarrow> frBlockedById r = None"
  by (auto simp: rowConstraints_def split: if_splits)

lemma rowConstraints_status: "rowConstraints r = None \<Longrightarrow> frStatus r = BLOCKED \<longleftrightarrow> frBlockedById r \<noteq> None"
  by (auto simp: rowConstraints_def split: if_splits)

lemma block_effect_ok:
  assumes ok: "friendOk port s"
  shows "(\<exists>e. repoBlock m x u now s = (Inl e, s)) \<or>
   (\<exists>y t. repoBlock m x u now s = (Inr y, t) \<and>
      (case findPair m x s of
         None \<Rightarrow> created m x BLOCKED (Some m) ''friend.block'' u now s t
       | Some r \<Rightarrow> updated (frId r) (blockedRow m) ''friend.block'' u s t))"
proof (rule block_effect)
  fix r assume "findPair m x s = Some r"
  then show "findRow (frId r) s = Some r"
    using ok findPair_Some_D [of m x s r] by (auto simp: friendOk_def intro: findRow_unique)
qed

lemma commit_keeps_table:
  assumes ok: "friendOk port s" and c: "commitOk port s c"
  shows "friendOk port (snd (commit c s))"
proof (cases c)
  case (CommitRequest a b u now)
  have u: "ptPlayerOf port u = Some a" using c CommitRequest by simp
  show ?thesis
    using request_effect [of a b u now s]
  proof (elim disjE exE conjE)
    fix e assume "repoCreateRequest a b u now s = (Inl e, s)"
    then show ?thesis using ok by (simp add: CommitRequest)
  next
    fix x t assume t: "repoCreateRequest a b u now s = (Inr x, t)"
      and eff: "created a b PENDING None ''friend.request'' u now s t"
    have "logged ''friend.request'' u (fdNextId s) s t" using eff by (simp add: created_def)
    then have "friendOk port t"
      by (intro created_ok [OF ok eff]) (simp add: consented_def logged_didBy u)
    then show ?thesis using t by (simp add: CommitRequest)
  qed
next
  case (CommitAccept i u now)
  obtain me where me: "ptPlayerOf port u = Some me" "\<forall>r \<in> set (fdRows s). frId r = i \<longrightarrow> frAddresseeId r = me"
    using c CommitAccept by auto
  show ?thesis
    using accept_effect [of i u now s]
  proof (elim disjE exE conjE)
    fix e assume "repoAccept i u now s = (Inl e, s)"
    then show ?thesis using ok by (simp add: CommitAccept)
  next
    let ?f = "\<lambda>r. r\<lparr>frStatus := ACCEPTED, frAcceptedAt := Some now\<rparr>"
    fix x t assume t: "repoAccept i u now s = (Inr x, t)" and eff: "updated i ?f ''friend.accept'' u s t"
    have l: "logged ''friend.accept'' u i s t" using eff by (simp add: updated_def)
    have "consented port t (?f r)" if r: "r \<in> set (fdRows s)" "frId r = i" "rowConstraints (?f r) = None" for r
    proof -
      have rc: "rowConstraints r = None" "consented port s r" using ok r(1) by (auto simp: friendOk_def)
      have nb: "frBlockedById r = None" by (rule rowConstraints_accepted [OF r(3)])
      then have "frStatus r \<noteq> BLOCKED" using rowConstraints_status [OF rc(1)] by simp
      then have "didBy port t ''friend.request'' i (frRequesterId r)"
        using rc(2) r(2) logged_mono [OF l] by (auto simp: consented_def intro: didBy_mono)
      moreover have "didBy port t ''friend.accept'' i (frAddresseeId r)"
        using logged_didBy [OF l me(1)] me(2) r(1,2) by simp
      ultimately show ?thesis using nb r(2) by (simp add: consented_def)
    qed
    then have "friendOk port t" by (intro updated_ok [OF ok eff]) simp_all
    then show ?thesis using t by (simp add: CommitAccept)
  qed
next
  case (CommitRemove i u act)
  have "act \<notin> REASON_REQUIRED" using c CommitRemove free_actions by auto
  from remove_effect [OF this, of i u s] show ?thesis
    using ok deleted_ok [OF ok] by (auto simp: CommitRemove)
next
  case (CommitBlock a b u now)
  have u: "ptPlayerOf port u = Some a" using c CommitBlock by simp
  show ?thesis
    using block_effect_ok [OF ok, of a b u now]
  proof (elim disjE exE conjE)
    fix e assume "repoBlock a b u now s = (Inl e, s)"
    then show ?thesis using ok by (simp add: CommitBlock bindS_def)
  next
    fix y t assume t: "repoBlock a b u now s = (Inr y, t)"
      and eff: "case findPair a b s of None \<Rightarrow> created a b BLOCKED (Some a) ''friend.block'' u now s t
        | Some r \<Rightarrow> updated (frId r) (blockedRow a) ''friend.block'' u s t"
    have "friendOk port t"
    proof (cases "findPair a b s")
      case None
      then have eff: "created a b BLOCKED (Some a) ''friend.block'' u now s t" using eff by simp
      then have "logged ''friend.block'' u (fdNextId s) s t" by (simp add: created_def)
      then show ?thesis by (intro created_ok [OF ok eff]) (simp add: consented_def logged_didBy u)
    next
      case (Some r)
      then have eff: "updated (frId r) (blockedRow a) ''friend.block'' u s t" using eff by simp
      then have "logged ''friend.block'' u (frId r) s t" by (simp add: updated_def)
      then show ?thesis
        by (intro updated_ok [OF ok eff]) (simp_all add: consented_def blockedRow_def logged_didBy u)
    qed
    then show ?thesis using t by (simp add: CommitBlock bindS_def returnS_def)
  qed
next
  case (CommitUnblock i u)
  from unblock_effect [of i u s] show ?thesis
    using ok deleted_ok [OF ok] by (auto simp: CommitUnblock)
qed

text \<open>What a commit leaves of the other commits on their way: rows keep their members, and a
  new row has a new id.\<close>

definition grewFrom :: "FriendDb \<Rightarrow> FriendDb \<Rightarrow> bool" where
  "grewFrom s t \<longleftrightarrow> fdNextId s \<le> fdNextId t \<and>
     (\<forall>q \<in> set (fdRows t). fdNextId s \<le> frId q \<or>
        (\<exists>r \<in> set (fdRows s). frId r = frId q \<and> frAddresseeId r = frAddresseeId q))"

lemma grewFrom_refl [simp]: "grewFrom s s"
  by (auto simp: grewFrom_def)

lemma created_grew: "created a b st by act u now s t \<Longrightarrow> grewFrom s t"
  by (auto simp: created_def grewFrom_def)

lemma updated_grew:
  "updated i f act u s t \<Longrightarrow> (\<And>r. frId (f r) = frId r \<and> frAddresseeId (f r) = frAddresseeId r) \<Longrightarrow> grewFrom s t"
  by (fastforce simp: updated_def grewFrom_def)

lemma deleted_grew: "deleted i act u s t \<Longrightarrow> grewFrom s t"
  by (auto simp: deleted_def grewFrom_def)

lemma commit_grew:
  assumes ok: "friendOk port s" and c: "commitOk port s c"
  shows "grewFrom s (snd (commit c s))"
proof (cases c)
  case (CommitRequest a b u now)
  from request_effect [of a b u now s] show ?thesis by (auto simp: CommitRequest dest: created_grew)
next
  case (CommitAccept i u now)
  from accept_effect [of i u now s] show ?thesis by (auto simp: CommitAccept dest: updated_grew)
next
  case (CommitRemove i u act)
  have "act \<notin> REASON_REQUIRED" using c CommitRemove free_actions by auto
  from remove_effect [OF this, of i u s] show ?thesis by (auto simp: CommitRemove dest: deleted_grew)
next
  case (CommitBlock a b u now)
  from block_effect_ok [OF ok, of a b u now] show ?thesis
    by (auto simp: CommitBlock bindS_def returnS_def blockedRow_def split: option.splits
          dest!: created_grew updated_grew)
next
  case (CommitUnblock i u)
  from unblock_effect [of i u s] show ?thesis by (auto simp: CommitUnblock dest: deleted_grew)
qed

lemma commitOk_grew: "commitOk port s c \<Longrightarrow> grewFrom s t \<Longrightarrow> commitOk port t c"
proof (cases c)
  case (CommitAccept i u now)
  assume ok: "commitOk port s c" and g: "grewFrom s t"
  then obtain me where me: "i < fdNextId s" "ptPlayerOf port u = Some me" "\<forall>r \<in> set (fdRows s). frId r = i \<longrightarrow> frAddresseeId r = me"
    using CommitAccept by auto
  have "frAddresseeId q = me" if "q \<in> set (fdRows t)" "frId q = i" for q
    using g me(1,3) that by (fastforce simp: grewFrom_def)
  then show ?thesis using me(1,2) g CommitAccept by (auto simp: grewFrom_def)
qed auto

lemma decide_ok:
  assumes ok: "friendOk port s" and d: "decide port q s = (Inr c, s)"
  shows "commitOk port s c"
proof -
  note defs = bindS_def returnS_def getS_def guardS_def throwS_def mePlayer_def assertAllowed_def loadRow_def
  show ?thesis
  proof (cases q)
    case (AcceptRequest u i now)
    then obtain me r where c: "c = CommitAccept i u now" and me: "ptPlayerOf port u = Some me"
      and r: "findRow i s = Some r" and may: "canAccept me r = ALLOW"
      using d by (auto simp: defs split: option.splits if_splits Decision.splits)
    have m: "frAddresseeId r = me" using may by (auto simp: canAccept_def split: if_splits)
    have r': "r \<in> set (fdRows s)" "frId r = i" using findRow_Some_D [OF r] by auto
    have "q = r" if "q \<in> set (fdRows s)" "frId q = i" for q
    proof -
      have "findRow (frId q) s = Some q" using ok that(1) by (intro findRow_unique) (simp_all add: friendOk_def)
      then show ?thesis using r that(2) by simp
    qed
    moreover have "i < fdNextId s" using ok r' by (auto simp: friendOk_def)
    ultimately show ?thesis using c me m by auto
  qed (use d in \<open>auto simp: defs split: option.splits if_splits Decision.splits\<close>)
qed

definition systemOk :: "PlayerPort \<Rightarrow> FriendSystem \<Rightarrow> bool" where
  "systemOk port w \<longleftrightarrow> friendOk port (fst w) \<and> (\<forall>c \<in> set (snd w). commitOk port (fst w) c)"

lemma systemOk_step: "friendSystem port w w' \<Longrightarrow> systemOk port w \<Longrightarrow> systemOk port w'"
proof (induction rule: friendSystem.induct)
  case (decides q s c cs)
  then show ?case by (auto simp: systemOk_def intro: decide_ok)
next
  case (commits c cs s)
  then have ok: "friendOk port s" "commitOk port s c" by (auto simp: systemOk_def)
  show ?case
    using commits commit_keeps_table [OF ok] commit_grew [OF ok]
    by (auto simp: systemOk_def dest: notin_set_remove1 intro: commitOk_grew)
qed

lemma friendReachable_ok: "friendReachable port w \<Longrightarrow> systemOk port w"
proof (induction rule: friendReachable.induct)
  case initially
  show ?case by (simp add: systemOk_def friendOk_def noFriends_def)
next
  case (continues w w')
  then show ?case by (auto intro: systemOk_step)
qed

section \<open>Properties\<close>

text \<open>
  C29. Nobody is a friend, or blocked, without the member concerned having acted: in every
  state the service can reach, with any requests deciding on what they read earlier and
  committing in any order, an accepted row was asked for by a user of the requester and
  accepted by a user of the addressee, a blocked row names the member whose user blocked it,
  and a pair of players has one row.
\<close>

theorem friends_have_consented:
  assumes "friendReachable port (s, cs)" "r \<in> set (fdRows s)"
  shows "(frStatus r = ACCEPTED \<longrightarrow> didBy port s ''friend.request'' (frId r) (frRequesterId r) \<and>
      didBy port s ''friend.accept'' (frId r) (frAddresseeId r)) \<and>
    (frStatus r = BLOCKED \<longrightarrow> (\<exists>m \<in> {frRequesterId r, frAddresseeId r}. frBlockedById r = Some m \<and>
      didBy port s ''friend.block'' (frId r) m)) \<and>
    (\<forall>q \<in> set (fdRows s). samePair (frRequesterId r) (frAddresseeId r) q \<longrightarrow> q = r)"
proof -
  have ok: "friendOk port s" using friendReachable_ok [OF assms(1)] by (simp add: systemOk_def)
  then have r: "consented port s r" "rowConstraints r = None"
    "\<forall>q \<in> set (fdRows s). samePair (frRequesterId r) (frAddresseeId r) q \<longrightarrow> q = r"
    using assms(2) by (auto simp: friendOk_def)
  have "frStatus r = BLOCKED \<Longrightarrow> \<exists>m \<in> {frRequesterId r, frAddresseeId r}. frBlockedById r = Some m"
    using r(2) by (auto simp: rowConstraints_def split: if_splits)
  then show ?thesis using r(1,3) by (auto simp: consented_def)
qed

definition twoPlayers :: PlayerPort where
  "twoPlayers = \<lparr>ptPlayerOf = (\<lambda>u. if u = ''ua'' then Some ''a'' else if u = ''ub'' then Some ''b'' else None),
     ptExists = (\<lambda>x. x \<in> {''a'', ''b''}), ptNames = (\<lambda>xs. zip xs xs)\<rparr>"

definition asked :: FriendDb where
  "asked = snd (serve twoPlayers (AskFriend ''ua'' ''b'' 1) noFriends)"

definition befriended :: FriendDb where
  "befriended = snd (serve twoPlayers (AcceptRequest ''ub'' 0 2) asked)"

lemma serve_reachable:
  assumes "friendReachable port (s, [])"
  shows "friendReachable port (snd (serve port q s), [])"
proof (cases "decide port q s")
  case (Pair d s')
  then have s': "s' = s" using decide_keeps [of port q s] by simp
  show ?thesis
  proof (cases d)
    case (Inl e)
    then show ?thesis using assms Pair s' by (simp add: serve_two_phases bindS_def)
  next
    case (Inr c)
    then have "friendSystem port (s, []) (s, [c])" using Pair s' by (auto intro: decides)
    then have "friendReachable port (s, [c])" using assms by (auto intro: continues)
    moreover have "friendSystem port (s, [c]) (snd (commit c s), remove1 c [c])" by (rule commits) simp
    ultimately have "friendReachable port (snd (commit c s), [])" by (auto intro: continues)
    then show ?thesis using Pair Inr s' by (simp add: serve_two_phases bindS_def)
  qed
qed

lemma befriended_reachable: "friendReachable twoPlayers (befriended, [])"
  unfolding befriended_def asked_def by (intro serve_reachable initially)

lemma befriended_row: "fdRows befriended = [\<lparr>frId = 0, frRequesterId = ''a'', frAddresseeId = ''b'',
    frStatus = ACCEPTED, frBlockedById = None, frAcceptedAt = Some 2, frCreatedAt = 1\<rparr>]"
  by code_simp

lemma friends_have_consented_witness:
  "\<exists>r \<in> set (fdRows befriended). frStatus r = ACCEPTED \<and>
     didBy twoPlayers befriended ''friend.accept'' (frId r) (frAddresseeId r)"
proof -
  let ?r = "hd (fdRows befriended)"
  have r: "?r \<in> set (fdRows befriended)" "frStatus ?r = ACCEPTED" by (simp_all add: befriended_row)
  show ?thesis using friends_have_consented [OF befriended_reachable r(1)] r by blast
qed

text \<open>
  Whoever is not a member of a friendship learns nothing of it: accepting, ending or
  unblocking it answers just what it answers when there is no such row, and changes nothing.
\<close>

theorem strangers_see_no_row:
  assumes "ptPlayerOf port u = Some me"
    and "case findRow i s of None \<Rightarrow> True | Some r \<Rightarrow> \<not> isMember me r"
    and "q \<in> {AcceptRequest u i now, EndFriendship u i, UnblockPlayer u i}"
  shows "serve port q s = (Inl (NotFoundError ''Friendship''), s)"
proof -
  have "loadRow port u i s = (Inl (NotFoundError ''Friendship''), s)"
    using assms(1,2)
    by (auto simp: loadRow_def mePlayer_def isMember_def bindS_def getS_def throwS_def returnS_def split: option.splits)
  then show ?thesis
    using assms(3) by (auto simp: acceptFriend_def endFriend_def unblockPlayer_def bindS_def)
qed

definition passerBy :: PlayerPort where
  "passerBy = twoPlayers\<lparr>ptPlayerOf := (\<lambda>u. Some ''c'')\<rparr>"

lemma strangers_see_no_row_witness:
  "serve passerBy (UnblockPlayer ''uc'' 0) befriended = (Inl (NotFoundError ''Friendship''), befriended)"
  by (rule strangers_see_no_row [where me = "''c''" and now = 0])
     (simp_all add: passerBy_def findRow_def befriended_row isMember_def)

section \<open>Blocks\<close>

lemma transaction_succeeds:
  "wp m (\<lambda>_ t. P t) (\<lambda>_ _. False) s \<Longrightarrow> \<exists>x t. transaction m s = (Inr x, t) \<and> P t"
  by (auto simp: wp_def transaction_def split: prod.splits sum.splits)

lemma deletes_row:
  "findRow i s = Some r \<Longrightarrow> \<exists>t. repoUnblock i u s = (Inr (), t) \<and> deleted i ''friend.unblock'' u s t"
  "findRow i s = Some r \<Longrightarrow> \<exists>t. repoRemove i u ''friend.decline'' s = (Inr (), t) \<and> deleted i ''friend.decline'' u s t"
  unfolding repoUnblock_def repoRemove_def
  using transaction_succeeds [where s = s and P = "deleted i ''friend.unblock'' u s" and
      m = "bindS (deleteRow i) (\<lambda>_. friendAudit ''friend.unblock'' u i '''' '''')"]
    transaction_succeeds [where s = s and P = "deleted i ''friend.decline'' u s" and
      m = "bindS (getS (findRow i)) (\<lambda>found. bindS (deleteRow i) (\<lambda>_. friendAudit ''friend.decline'' u i
        (case found of None \<Rightarrow> '''' | Some r \<Rightarrow> pairText (frRequesterId r) (frAddresseeId r) (frStatus r)) ''''))"]
  by (simp_all add: wp_simps wp_deleteRow wp_friendAudit free_actions deleted_def logged_def auditOf_def)

lemma blocks_row:
  assumes ok: "friendOk port s" and f: "findPair m x s = Some r" and c: "rowConstraints (blockedRow m r) = None"
  shows "\<exists>y t. repoBlock m x u now s = (Inr y, t) \<and> updated (frId r) (blockedRow m) ''friend.block'' u s t"
proof -
  have "findRow (frId r) s = Some r"
    using ok findPair_Some_D [OF f] by (auto simp: friendOk_def intro: findRow_unique)
  then show ?thesis
    unfolding repoBlock_def using f c
    by (intro transaction_succeeds)
       (simp add: wp_simps wp_updateRow wp_friendAudit free_actions updated_def logged_def auditOf_def
          blockedRow_def[abs_def] split: option.split)
qed

lemma samePair_commute: "samePair a b r = samePair b a r"
  by (auto simp: samePair_def)

lemma pair_only:
  assumes "friendOk port s" "findPair a b s = Some r" "q \<in> set (fdRows s)" "samePair a b q"
  shows "q = r"
proof -
  have r: "r \<in> set (fdRows s)" "samePair a b r" using findPair_Some_D [OF assms(2)] by auto
  have "samePair (frRequesterId r) (frAddresseeId r) q" using r(2) assms(4) by (auto simp: samePair_def)
  then show ?thesis using assms(1,3) r(1) by (auto simp: friendOk_def)
qed

lemma findPair_intro:
  assumes "friendOk port s" "r \<in> set (fdRows s)" "samePair a b r"
  shows "findPair a b s = Some r"
proof -
  obtain q where q: "findPair a b s = Some q"
    using assms(2,3) by (cases "findPair a b s") (auto simp: findPair_def find_None_iff)
  then show ?thesis using pair_only [OF assms(1) q assms(2,3)] by simp
qed

lemma findPair_updated:
  assumes ok: "friendOk port s" and f: "findPair a b s = Some r" and u: "updated i f act u s t"
    and ok': "friendOk port t" and keeps: "\<And>r. frRequesterId (f r) = frRequesterId r \<and> frAddresseeId (f r) = frAddresseeId r"
  shows "findPair a b t = Some (if frId r = i then f r else r)"
proof (rule findPair_intro [OF ok'])
  show "(if frId r = i then f r else r) \<in> set (fdRows t)"
    using u findPair_Some_D [OF f] by (auto simp: updated_def)
  show "samePair a b (if frId r = i then f r else r)"
    using findPair_Some_D [OF f] keeps by (auto simp: samePair_def)
qed

lemma findPair_deleted:
  assumes ok: "friendOk port s" and f: "findPair a b s = Some r" and d: "deleted i act u s t"
  shows "findPair a b t = (if frId r = i then None else Some r)"
proof (cases "frId r = i")
  case True
  have "\<not> samePair a b q" if "q \<in> set (fdRows t)" for q
    using that d pair_only [OF ok f, of q] True by (auto simp: deleted_def)
  then show ?thesis using True by (simp add: findPair_def find_None_iff)
next
  case False
  have "r \<in> set (fdRows t)" "samePair a b r" using findPair_Some_D [OF f] False d by (auto simp: deleted_def)
  then show ?thesis using findPair_intro [OF deleted_ok [OF ok d]] False by simp
qed

lemma findPair_created:
  assumes f: "findPair a b s = Some r" and c: "created c d st by act u now s t"
  shows "findPair a b t = Some r"
proof -
  have "find P xs = Some y \<Longrightarrow> find P (xs @ ys) = Some y" for P and xs ys :: "FriendshipRow list" and y
    by (induction xs) (auto split: if_splits)
  then show ?thesis using f c by (auto simp: findPair_def created_def)
qed

text \<open>
  C31. What \<^verbatim>\<open>canUnblock\<close> is there to prevent: a blocked player gets out of the block alone. Its own
  \<^verbatim>\<open>block\<close> of the blocker takes the row over, and \<^verbatim>\<open>unblock\<close> then deletes it, so that the
  player can ask for friendship again.
\<close>

theorem blocked_player_lifts_block:
  assumes "friendOk port s" "findPair a b s = Some r" "frStatus r = BLOCKED" "frBlockedById r = Some b"
    and "ptPlayerOf port u = Some a" "ptExists port b"
  shows "\<exists>t t'. serve port (BlockPlayer u b now) s = (Inr (), t) \<and>
     serve port (UnblockPlayer u (frId r)) t = (Inr (), t') \<and> findPair a b t' = None"
proof -
  have r: "r \<in> set (fdRows s)" "samePair a b r" "rowConstraints r = None"
    using assms(1,2) findPair_Some_D by (auto simp: friendOk_def)
  have ab: "a \<noteq> b" using r(2,3) by (auto simp: rowConstraints_def samePair_def split: if_splits)
  have keeps: "frId (blockedRow a q) = frId q" "frRequesterId (blockedRow a q) = frRequesterId q"
    "frAddresseeId (blockedRow a q) = frAddresseeId q" for q by (simp_all add: blockedRow_def)
  have "rowConstraints (blockedRow a r) = None"
    using r(2,3) by (auto simp: blockedRow_def rowConstraints_def samePair_def split: if_splits)
  then obtain y t where t: "repoBlock a b u now s = (Inr y, t)"
    and eff: "updated (frId r) (blockedRow a) ''friend.block'' u s t"
    using blocks_row [OF assms(1,2)] by blast
  have ok': "friendOk port t"
    using commit_keeps_table [OF assms(1), of "CommitBlock a b u now"] t assms(5) by (simp add: bindS_def returnS_def)
  have first: "serve port (BlockPlayer u b now) s = (Inr (), t)"
    using t assms(5,6) ab
    by (simp add: blockPlayer_def bindS_def mePlayer_def assertAllowed_def canBlock_def guardS_def returnS_def)
  have pair: "findPair a b t = Some (blockedRow a r)"
    using findPair_updated [OF assms(1,2) eff ok'] keeps by simp
  then have row: "findRow (frId r) t = Some (blockedRow a r)"
    using ok' findPair_Some_D [OF pair] findRow_unique [of t "blockedRow a r"] keeps by (auto simp: friendOk_def)
  obtain t' where t': "repoUnblock (frId r) u t = (Inr (), t')" "deleted (frId r) ''friend.unblock'' u t t'"
    using deletes_row(1) [OF row] by blast
  have member: "frRequesterId r = a \<or> frAddresseeId r = a" using r(2) by (auto simp: samePair_def)
  have "serve port (UnblockPlayer u (frId r)) t = (Inr (), t')"
    using t'(1) row member assms(5)
    by (auto simp: unblockPlayer_def loadRow_def mePlayer_def bindS_def getS_def returnS_def assertAllowed_def
        canUnblock_def blockedRow_def)
  then show ?thesis using first findPair_deleted [OF ok' pair t'(2)] keeps by auto
qed

definition blockedDb :: FriendDb where
  "blockedDb = snd (serve twoPlayers (BlockPlayer ''ub'' ''a'' 3) befriended)"

lemma blockedDb_row: "fdRows blockedDb = [\<lparr>frId = 0, frRequesterId = ''a'', frAddresseeId = ''b'',
    frStatus = BLOCKED, frBlockedById = Some ''b'', frAcceptedAt = None, frCreatedAt = 1\<rparr>]"
  by code_simp

lemma blockedDb_ok: "friendOk twoPlayers blockedDb"
  using friendReachable_ok [OF serve_reachable [OF befriended_reachable]] unfolding blockedDb_def
  by (simp add: systemOk_def del: serve.simps)

lemma blocked_player_lifts_block_witness:
  "\<exists>t t'. serve twoPlayers (BlockPlayer ''ua'' ''b'' 4) blockedDb = (Inr (), t) \<and>
     serve twoPlayers (UnblockPlayer ''ua'' 0) t = (Inr (), t') \<and> findPair ''a'' ''b'' t' = None"
proof -
  let ?r = "hd (fdRows blockedDb)"
  have "findPair ''a'' ''b'' blockedDb = Some ?r" "frStatus ?r = BLOCKED" "frBlockedById ?r = Some ''b''" "frId ?r = 0"
    by (simp_all add: findPair_def blockedDb_row samePair_def)
  then show ?thesis
    using blocked_player_lifts_block [OF blockedDb_ok, of "''a''" "''b''" ?r "''ua''" 4] by (simp add: twoPlayers_def)
qed

fun requesterOf :: "FriendRequest \<Rightarrow> string" where
  "requesterOf (AskFriend u x now) = u"
| "requesterOf (AcceptRequest u i now) = u"
| "requesterOf (EndFriendship u i) = u"
| "requesterOf (BlockPlayer u x now) = u"
| "requesterOf (UnblockPlayer u i) = u"

text \<open>A commit that is about another row than \<open>r\<close>, the one of \<open>a\<close> and \<open>b\<close>.\<close>

fun elsewhere :: "string \<Rightarrow> string \<Rightarrow> FriendshipRow \<Rightarrow> FriendCommit \<Rightarrow> bool" where
  "elsewhere a b r (CommitRequest x y u now) = True"
| "elsewhere a b r (CommitAccept i u now) = (frId r \<noteq> i)"
| "elsewhere a b r (CommitRemove i u act) = (frId r \<noteq> i)"
| "elsewhere a b r (CommitBlock x y u now) = ((x, y) \<notin> {(a, b), (b, a)})"
| "elsewhere a b r (CommitUnblock i u) = (frId r \<noteq> i)"

lemma decided_elsewhere:
  assumes ok: "friendOk port s" and f: "findPair a b s = Some r" "frStatus r = BLOCKED" "frBlockedById r = Some b"
    and no: "ptPlayerOf port (requesterOf q) \<noteq> Some b"
      "\<forall>u now. q = BlockPlayer u b now \<longrightarrow> ptPlayerOf port u \<noteq> Some a"
    and d: "decide port q s = (Inr c, s)"
  shows "elsewhere a b r c"
proof -
  note defs = bindS_def returnS_def getS_def guardS_def throwS_def mePlayer_def assertAllowed_def loadRow_def
    canAccept_def canDecline_def canRemove_def canUnblock_def
  have row: "findRow (frId r) s = Some r"
    using ok findPair_Some_D [OF f(1)] by (auto simp: friendOk_def intro: findRow_unique)
  show ?thesis
    by (cases q) (use d row f(2,3) no in \<open>auto simp: defs split: option.splits if_splits Decision.splits\<close>)
qed

lemma block_elsewhere:
  assumes ok: "friendOk port s" and f: "findPair a b s = Some r" and other: "(x, y) \<notin> {(a, b), (b, a)}"
    and okt: "friendOk port t"
    and eff: "case findPair x y s of None \<Rightarrow> created x y BLOCKED (Some x) ''friend.block'' u now s t
      | Some q \<Rightarrow> updated (frId q) (blockedRow x) ''friend.block'' u s t"
  shows "findPair a b t = Some r"
proof (cases "findPair x y s")
  case None
  then show ?thesis using eff findPair_created [OF f] by simp
next
  case (Some q)
  have q: "q \<in> set (fdRows s)" "samePair x y q" using findPair_Some_D [OF Some] by auto
  have "r \<noteq> q" using q(2) findPair_Some_D [OF f] other by (auto simp: samePair_def)
  then have "frId r \<noteq> frId q"
    using ok q(1) findPair_Some_D [OF f] findRow_unique [of s] by (metis friendOk_def option.inject)
  then show ?thesis using Some eff findPair_updated [OF ok f _ okt, of "frId q" "blockedRow x"]
    by (simp add: blockedRow_def)
qed

lemma commit_elsewhere:
  assumes ok: "friendOk port s" and cok: "commitOk port s c" and f: "findPair a b s = Some r" and e: "elsewhere a b r c"
  shows "findPair a b (snd (commit c s)) = Some r"
proof -
  have ok': "friendOk port (snd (commit c s))" by (rule commit_keeps_table [OF ok cok])
  show ?thesis
  proof (cases c)
    case (CommitRequest x y u now)
    from request_effect [of x y u now s] f show ?thesis unfolding CommitRequest
      by (auto dest: findPair_created)
  next
    case (CommitAccept i u now)
    from accept_effect [of i u now s] show ?thesis
    proof (elim disjE exE conjE)
      fix x t assume t: "repoAccept i u now s = (Inr x, t)"
        and eff: "updated i (\<lambda>r. r\<lparr>frStatus := ACCEPTED, frAcceptedAt := Some now\<rparr>) ''friend.accept'' u s t"
      then have "friendOk port t" using ok' CommitAccept by simp
      then show ?thesis using findPair_updated [OF ok f eff] e t CommitAccept by simp
    qed (use f CommitAccept in simp)
  next
    case (CommitRemove i u act)
    have "act \<notin> REASON_REQUIRED" using cok CommitRemove free_actions by auto
    from remove_effect [OF this, of i u s] show ?thesis
      using f e findPair_deleted [OF ok f] by (auto simp: CommitRemove)
  next
    case (CommitBlock x y u now)
    from block_effect_ok [OF ok, of x y u now] show ?thesis
    proof (elim disjE exE conjE)
      fix z t assume t: "repoBlock x y u now s = (Inr z, t)"
        and eff: "case findPair x y s of None \<Rightarrow> created x y BLOCKED (Some x) ''friend.block'' u now s t
          | Some q \<Rightarrow> updated (frId q) (blockedRow x) ''friend.block'' u s t"
      have "friendOk port t" using ok' CommitBlock t by (simp add: bindS_def returnS_def)
      then have "findPair a b t = Some r" using block_elsewhere [OF ok f _ _ eff] e CommitBlock by simp
      then show ?thesis using t CommitBlock by (simp add: bindS_def returnS_def)
    qed (use f CommitBlock in \<open>simp add: bindS_def\<close>)
  next
    case (CommitUnblock i u)
    from unblock_effect [of i u s] show ?thesis
      using f e findPair_deleted [OF ok f] by (auto simp: CommitUnblock)
  qed
qed

text \<open>
  C30. A block holds against every request of another that decides and writes undisturbed after it was set: if the
  request is not made by the player who set the block, and is not a block back by the blocked one, the row of the
  pair stays as it is (asking again, accepting or ending an old request, unblocking). A request that had decided before
  the block was set is not covered: \<open>stale_decline_lifts_block\<close> deletes it.
\<close>

theorem block_holds:
  assumes "friendOk port s" "findPair a b s = Some r" "frStatus r = BLOCKED" "frBlockedById r = Some b"
    and "ptPlayerOf port (requesterOf q) \<noteq> Some b"
    and "\<forall>u now. q = BlockPlayer u b now \<longrightarrow> ptPlayerOf port u \<noteq> Some a"
  shows "findPair a b (snd (serve port q s)) = Some r"
proof (cases "fst (decide port q s)")
  case (Inl e)
  then show ?thesis
    using assms(2) decide_keeps [of port q s] by (cases "decide port q s") (simp add: serve_two_phases bindS_def)
next
  case (Inr c)
  then have d: "decide port q s = (Inr c, s)" using decide_keeps [of port q s] by (cases "decide port q s") simp
  then show ?thesis
    using commit_elsewhere [OF assms(1) decide_ok [OF assms(1) d] assms(2) decided_elsewhere [OF assms d]]
    by (simp add: serve_two_phases bindS_def)
qed

lemma block_holds_witness:
  "findPair ''a'' ''b'' (snd (serve twoPlayers (EndFriendship ''ua'' 0) blockedDb)) = Some (hd (fdRows blockedDb))"
  by (rule block_holds [OF blockedDb_ok]) (simp_all add: findPair_def blockedDb_row samePair_def twoPlayers_def)

text \<open>
  A request that decided before the block undoes it as well: \<^verbatim>\<open>end\<close> reads a pending row,
  the other side blocks, and the delete that follows takes the block away with the row.
\<close>

theorem stale_decline_lifts_block:
  assumes "friendOk port s" "findPair a b s = Some r" "frStatus r = PENDING"
    and "ptPlayerOf port u = Some a" "ptPlayerOf port v = Some b" "ptExists port a"
  shows "\<exists>c t. decide port (EndFriendship u (frId r)) s = (Inr c, s) \<and>
     serve port (BlockPlayer v a now) s = (Inr (), t) \<and>
     findPair a b t = Some (r\<lparr>frStatus := BLOCKED, frBlockedById := Some b, frAcceptedAt := None\<rparr>) \<and>
     findPair a b (snd (commit c t)) = None"
proof -
  have r: "r \<in> set (fdRows s)" "samePair a b r" "rowConstraints r = None"
    using assms(1,2) findPair_Some_D by (auto simp: friendOk_def)
  have ba: "b \<noteq> a" using r(2,3) by (auto simp: rowConstraints_def samePair_def split: if_splits)
  have row: "findRow (frId r) s = Some r" using assms(1) r(1) by (auto simp: friendOk_def intro: findRow_unique)
  have "decide port (EndFriendship u (frId r)) s = (Inr (CommitRemove (frId r) u ''friend.decline''), s)"
    using row assms(3,4) r(2)
    by (auto simp: loadRow_def mePlayer_def bindS_def getS_def returnS_def assertAllowed_def canDecline_def isMember_def samePair_def)
  moreover
  have "rowConstraints (blockedRow b r) = None"
    using r(2,3) by (auto simp: blockedRow_def rowConstraints_def samePair_def split: if_splits)
  moreover have f': "findPair b a s = Some r"
    using findPair_intro [OF assms(1) r(1)] r(2) by (simp add: samePair_commute)
  ultimately obtain y t where d: "decide port (EndFriendship u (frId r)) s = (Inr (CommitRemove (frId r) u ''friend.decline''), s)"
    and t: "repoBlock b a v now s = (Inr y, t)" and eff: "updated (frId r) (blockedRow b) ''friend.block'' v s t"
    using blocks_row [OF assms(1)] by blast
  have ok': "friendOk port t"
    using commit_keeps_table [OF assms(1), of "CommitBlock b a v now"] t assms(5) by (simp add: bindS_def returnS_def)
  have blocks: "serve port (BlockPlayer v a now) s = (Inr (), t)"
    using t assms(5,6) ba
    by (simp add: blockPlayer_def bindS_def mePlayer_def assertAllowed_def canBlock_def guardS_def returnS_def)
  have pair: "findPair a b t = Some (blockedRow b r)"
    using findPair_updated [OF assms(1,2) eff ok'] by (simp add: blockedRow_def)
  then have "findRow (frId r) t = Some (blockedRow b r)"
    using ok' findPair_Some_D [OF pair] findRow_unique [of t "blockedRow b r"] by (auto simp: friendOk_def blockedRow_def)
  then obtain t' where t': "repoRemove (frId r) u ''friend.decline'' t = (Inr (), t')"
      "deleted (frId r) ''friend.decline'' u t t'"
    using deletes_row(2) by blast
  have "findPair a b t' = None" using findPair_deleted [OF ok' pair t'(2)] by (simp add: blockedRow_def)
  then show ?thesis using d blocks pair t'(1) unfolding blockedRow_def by (intro exI conjI) (assumption | simp)+
qed

lemma stale_decline_lifts_block_witness:
  "\<exists>c t. decide twoPlayers (EndFriendship ''ua'' 0) asked = (Inr c, asked) \<and>
     serve twoPlayers (BlockPlayer ''ub'' ''a'' 5) asked = (Inr (), t) \<and>
     findPair ''a'' ''b'' (snd (commit c t)) = None"
proof -
  have rows: "fdRows asked = [\<lparr>frId = 0, frRequesterId = ''a'', frAddresseeId = ''b'',
      frStatus = PENDING, frBlockedById = None, frAcceptedAt = None, frCreatedAt = 1\<rparr>]"
    by code_simp
  let ?r = "hd (fdRows asked)"
  have "friendOk twoPlayers asked"
    using friendReachable_ok [OF serve_reachable [OF initially [of twoPlayers]]] unfolding asked_def
    by (simp add: systemOk_def del: serve.simps)
  moreover have "findPair ''a'' ''b'' asked = Some ?r" "frStatus ?r = PENDING" "frId ?r = 0"
    by (simp_all add: findPair_def rows samePair_def)
  ultimately show ?thesis
    using stale_decline_lifts_block [of twoPlayers asked "''a''" "''b''" ?r "''ua''" "''ub''" 5]
    by (simp add: twoPlayers_def del: serve.simps decide.simps) blast
qed

end
