(* ===== verification/RateLimit.thy ===== *)
theory RateLimit
  imports Service
begin

text \<open>
  The sliding window limiter, \<^verbatim>\<open>src/shared/rate-limit/sliding-window.limiter.ts\<close>: one sorted
  set of Redis per key, with the times (milliseconds) of the attempts in the window as scores
  and a fresh member per attempt, and an expiry that Redis applies to the whole set. The
  \<^verbatim>\<open>MULTI\<close> block is one step (\<open>hit\<close>); what follows a refusal is another, and other requests may
  come in between.
\<close>

section \<open>Sorted sets with an expiry\<close>

record Window =
  wnEntries :: "(nat \<times> int) list"
  wnExpires :: "int option"

definition emptyWindow :: Window where
  "emptyWindow = \<lparr>wnEntries = [], wnExpires = None\<rparr>"

definition liveEntries :: "int \<Rightarrow> Window \<Rightarrow> (nat \<times> int) list" where
  "liveEntries now w = (case wnExpires w of
     None \<Rightarrow> wnEntries w
   | Some e \<Rightarrow> if e \<le> now then [] else wnEntries w)"

record RateLimitDecision =
  rdAllowed :: bool
  rdRetryAfterSeconds :: int
  rdRemaining :: nat
  rdToken :: "nat option"

text \<open>\<^verbatim>\<open>ZREMRANGEBYSCORE 0 windowStart\<close>, \<^verbatim>\<open>ZADD\<close>, \<^verbatim>\<open>ZCARD\<close>, \<^verbatim>\<open>EXPIRE\<close>.\<close>

definition trimmed :: "int \<Rightarrow> int \<Rightarrow> (nat \<times> int) list \<Rightarrow> (nat \<times> int) list" where
  "trimmed windowSeconds now z = filter (\<lambda>(m, score). \<not> (0 \<le> score \<and> score \<le> now - windowSeconds * 1000)) z"

definition hit :: "int \<Rightarrow> int \<Rightarrow> nat \<Rightarrow> Window \<Rightarrow> nat \<times> Window" where
  "hit windowSeconds now member w =
     (let z = trimmed windowSeconds now (liveEntries now w) @ [(member, now)]
      in (length z, \<lparr>wnEntries = z, wnExpires = Some (now + windowSeconds * 1000)\<rparr>))"

definition zrem :: "nat \<Rightarrow> Window \<Rightarrow> Window" where
  "zrem member w = w\<lparr>wnEntries := filter (\<lambda>(m, score). m \<noteq> member) (wnEntries w)\<rparr>"

definition oldestScore :: "int \<Rightarrow> Window \<Rightarrow> int" where
  "oldestScore now w = (if wnEntries w = [] then now else Min (set (map snd (wnEntries w))))"

definition ceilDiv :: "int \<Rightarrow> int \<Rightarrow> int" where
  "ceilDiv a b = - ((- a) div b)"

definition refusal :: "int \<Rightarrow> int \<Rightarrow> Window \<Rightarrow> RateLimitDecision" where
  "refusal windowSeconds now w =
     \<lparr>rdAllowed = False,
      rdRetryAfterSeconds = max 1 (ceilDiv (oldestScore now w + windowSeconds * 1000 - now) 1000),
      rdRemaining = 0, rdToken = None\<rparr>"

definition consumeWindow :: "nat \<Rightarrow> int \<Rightarrow> int \<Rightarrow> nat \<Rightarrow> Window \<Rightarrow> RateLimitDecision \<times> Window" where
  "consumeWindow limit windowSeconds now member w =
     (let (count, w1) = hit windowSeconds now member w
      in if limit < count then
           (let w2 = zrem member w1 in (refusal windowSeconds now w2, w2))
         else
           (\<lparr>rdAllowed = True, rdRetryAfterSeconds = 0, rdRemaining = limit - count, rdToken = Some member\<rparr>, w1))"

section \<open>The keys\<close>

record RateDb =
  rlWindows :: "string \<Rightarrow> Window"
  rlNext :: nat

definition noLimits :: RateDb where
  "noLimits = \<lparr>rlWindows = (\<lambda>_. emptyWindow), rlNext = 0\<rparr>"

definition consume :: "string \<Rightarrow> nat \<Rightarrow> int \<Rightarrow> int \<Rightarrow> RateDb \<Rightarrow> RateLimitDecision \<times> RateDb" where
  "consume key limit windowSeconds now s =
     (let redisKey = ''rl:'' @ key;
          (d, w) = consumeWindow limit windowSeconds now (rlNext s) (rlWindows s redisKey)
      in (d, \<lparr>rlWindows = (rlWindows s)(redisKey := w), rlNext = Suc (rlNext s)\<rparr>))"

definition refundAttempt :: "string \<Rightarrow> nat option \<Rightarrow> RateDb \<Rightarrow> RateDb" where
  "refundAttempt key token s = (case token of
     None \<Rightarrow> s
   | Some m \<Rightarrow> s\<lparr>rlWindows := (rlWindows s)(''rl:'' @ key := zrem m (rlWindows s (''rl:'' @ key)))\<rparr>)"

definition resetKey :: "string \<Rightarrow> RateDb \<Rightarrow> RateDb" where
  "resetKey key s = s\<lparr>rlWindows := (rlWindows s)(''rl:'' @ key := emptyWindow)\<rparr>"

section \<open>One key over time\<close>

text \<open>
  Everything that can happen to a key, in any order: the \<^verbatim>\<open>MULTI\<close> of an attempt, the removal
  that follows a refusal, the refund of an admitted attempt, a reset. Besides the window the
  run keeps what was decided: the admitted attempts that were neither refunded nor reset, and
  the refused ones whose entry is still there.
\<close>

datatype LimitEvent = Attempt int | Forget nat | Refund nat | Reset

record LimitRun =
  lrWindow :: Window
  lrNext :: nat
  lrNow :: int
  lrAdmitted :: "(nat \<times> int) list"
  lrRefused :: "nat list"

fun limitStep :: "nat \<Rightarrow> int \<Rightarrow> LimitEvent \<Rightarrow> LimitRun \<Rightarrow> LimitRun" where
  "limitStep limit ws (Attempt now) s =
     (let (count, w) = hit ws now (lrNext s) (lrWindow s)
      in s\<lparr>lrWindow := w, lrNext := Suc (lrNext s), lrNow := now,
         lrAdmitted := (if limit < count then lrAdmitted s else lrAdmitted s @ [(lrNext s, now)]),
         lrRefused := (if limit < count then lrNext s # lrRefused s else lrRefused s)\<rparr>)"
| "limitStep limit ws (Forget m) s =
     (if m \<in> set (lrRefused s) then s\<lparr>lrWindow := zrem m (lrWindow s)\<rparr> else s)"
| "limitStep limit ws (Refund m) s =
     s\<lparr>lrWindow := zrem m (lrWindow s), lrAdmitted := filter (\<lambda>(k, t). k \<noteq> m) (lrAdmitted s)\<rparr>"
| "limitStep limit ws Reset s = s\<lparr>lrWindow := emptyWindow, lrAdmitted := []\<rparr>"

definition limitStart :: LimitRun where
  "limitStart = \<lparr>lrWindow = emptyWindow, lrNext = 0, lrNow = 0, lrAdmitted = [], lrRefused = []\<rparr>"

fun onTime :: "int \<Rightarrow> LimitEvent list \<Rightarrow> bool" where
  "onTime t [] = True"
| "onTime t (Attempt now # es) = (t \<le> now \<and> onTime now es)"
| "onTime t (e # es) = onTime t es"

definition limitRun :: "nat \<Rightarrow> int \<Rightarrow> LimitEvent list \<Rightarrow> LimitRun \<Rightarrow> LimitRun" where
  "limitRun limit ws = fold (limitStep limit ws)"

definition inWindow :: "int \<Rightarrow> int \<Rightarrow> (nat \<times> int) list \<Rightarrow> (nat \<times> int) list" where
  "inWindow ws t xs = filter (\<lambda>(m, u). t - ws * 1000 < u \<and> u \<le> t) xs"

definition limitOk :: "nat \<Rightarrow> int \<Rightarrow> LimitRun \<Rightarrow> bool" where
  "limitOk limit ws s \<longleftrightarrow>
     distinct (lrAdmitted s) \<and>
     (\<forall>(m, t) \<in> set (lrAdmitted s). m < lrNext s \<and> m \<notin> set (lrRefused s) \<and> t \<le> lrNow s) \<and>
     (\<forall>m \<in> set (lrRefused s). m < lrNext s) \<and>
     (\<forall>(m, t) \<in> set (lrAdmitted s). lrNow s - ws * 1000 < t \<longrightarrow> (m, t) \<in> set (wnEntries (lrWindow s))) \<and>
     (\<forall>e. wnExpires (lrWindow s) = Some e \<longrightarrow> e = lrNow s + ws * 1000) \<and>
     (\<forall>t. length (inWindow ws t (lrAdmitted s)) \<le> limit)"

lemma zrem_entries [simp]: "wnEntries (zrem m w) = filter (\<lambda>(k, t). k \<noteq> m) (wnEntries w)"
  "wnExpires (zrem m w) = wnExpires w"
  by (simp_all add: zrem_def)

lemma emptyWindow_sel [simp]: "wnEntries emptyWindow = []" "wnExpires emptyWindow = None"
  by (simp_all add: emptyWindow_def)

lemma length_inWindow_filter: "length (inWindow ws t (filter P xs)) \<le> length (inWindow ws t xs)"
  unfolding inWindow_def by (induction xs) auto

text \<open>What was admitted in the last \<open>ws\<close> seconds is still in the window when the next attempt
  is counted.\<close>

lemma hit_keeps:
  assumes ok: "limitOk limit ws s" and now: "lrNow s \<le> now" and m: "(m, t) \<in> set (lrAdmitted s)"
    and recent: "now - ws * 1000 < t"
  shows "(m, t) \<in> set (trimmed ws now (liveEntries now (lrWindow s)))"
proof -
  have t: "t \<le> lrNow s" and e: "(m, t) \<in> set (wnEntries (lrWindow s))"
    using ok m now recent by (auto simp: limitOk_def)
  have "(m, t) \<in> set (liveEntries now (lrWindow s))"
  proof (cases "wnExpires (lrWindow s)")
    case None
    then show ?thesis using e by (simp add: liveEntries_def)
  next
    case (Some x)
    then have "x = lrNow s + ws * 1000" using ok by (simp add: limitOk_def)
    then have "\<not> x \<le> now" using t recent by simp
    then show ?thesis using e Some by (simp add: liveEntries_def)
  qed
  then show ?thesis using recent by (auto simp: trimmed_def)
qed

lemma admit_inWindow:
  assumes ok: "limitOk limit ws s" and now: "lrNow s \<le> now"
    and admitted: "length (trimmed ws now (liveEntries now (lrWindow s)) @ [(lrNext s, now)]) \<le> limit"
  shows "length (inWindow ws t (lrAdmitted s @ [(lrNext s, now)])) \<le> limit"
proof (cases "now \<le> t")
  case False
  then have "inWindow ws t (lrAdmitted s @ [(lrNext s, now)]) = inWindow ws t (lrAdmitted s)" by (simp add: inWindow_def)
  then show ?thesis using ok by (simp add: limitOk_def)
next
  case True
  let ?z = "trimmed ws now (liveEntries now (lrWindow s)) @ [(lrNext s, now)]"
  let ?x = "inWindow ws t (lrAdmitted s @ [(lrNext s, now)])"
  have "set ?x \<subseteq> set ?z"
  proof
    fix e assume e: "e \<in> set ?x"
    obtain m u where mu: "e = (m, u)" by (cases e)
    have "t - ws * 1000 < u" using e by (auto simp: mu inWindow_def split: if_splits)
    then have u: "now - ws * 1000 < u" using True by simp
    show "e \<in> set ?z"
    proof (cases "e = (lrNext s, now)")
      case False
      then have "(m, u) \<in> set (lrAdmitted s)" using e by (auto simp: mu inWindow_def split: if_splits)
      then show ?thesis using hit_keeps [OF ok now _ u] by (simp add: mu)
    qed simp
  qed
  moreover have "distinct ?x"
    using ok by (fastforce simp: inWindow_def limitOk_def)
  ultimately have "length ?x \<le> length ?z"
    by (metis distinct_card card_length card_mono List.finite_set le_trans)
  then show ?thesis using admitted by simp
qed

lemma limitOk_step:
  assumes ok: "limitOk limit ws s" and time: "\<And>now. e = Attempt now \<Longrightarrow> lrNow s \<le> now"
  shows "limitOk limit ws (limitStep limit ws e s)"
proof (cases e)
  case (Attempt now)
  have now: "lrNow s \<le> now" by (rule time [OF Attempt])
  have basic: "distinct (lrAdmitted s)"
    "\<forall>(m, t) \<in> set (lrAdmitted s). m < lrNext s \<and> m \<notin> set (lrRefused s) \<and> t \<le> now"
    "\<forall>m \<in> set (lrRefused s). m < lrNext s"
    "(lrNext s, now) \<notin> set (lrAdmitted s)"
    using ok now by (auto simp: limitOk_def)
  have kept: "\<forall>(m, t) \<in> set (lrAdmitted s). now - ws * 1000 < t \<longrightarrow>
      (m, t) \<in> set (trimmed ws now (liveEntries now (lrWindow s)))"
    using hit_keeps [OF ok now] by auto
  have bound: "\<forall>t. length (inWindow ws t (lrAdmitted s)) \<le> limit" using ok by (simp add: limitOk_def)
  show ?thesis
  proof (cases "limit < length (trimmed ws now (liveEntries now (lrWindow s)) @ [(lrNext s, now)])")
    case True
    then show ?thesis using basic kept bound
      by (auto simp: Attempt hit_def Let_def limitOk_def)
  next
    case False
    then have "\<forall>t. length (inWindow ws t (lrAdmitted s @ [(lrNext s, now)])) \<le> limit"
      using admit_inWindow [OF ok now] by (simp add: not_less)
    then show ?thesis using False basic kept
      by (auto simp: Attempt hit_def Let_def limitOk_def)
  qed
next
  case (Forget m)
  then show ?thesis using ok by (auto simp: limitOk_def)
next
  case (Refund m)
  have "\<forall>t. length (inWindow ws t (filter (\<lambda>(k, u). k \<noteq> m) (lrAdmitted s))) \<le> limit"
    using ok length_inWindow_filter le_trans unfolding limitOk_def by blast
  then show ?thesis using ok by (auto simp: Refund limitOk_def)
next
  case Reset
  then show ?thesis using ok by (auto simp: limitOk_def inWindow_def)
qed

lemma limitRun_simps [simp]:
  "limitRun limit ws [] s = s" "limitRun limit ws (e # es) s = limitRun limit ws es (limitStep limit ws e s)"
  by (simp_all add: limitRun_def)

lemma limitOk_run: "limitOk limit ws s \<Longrightarrow> onTime (lrNow s) es \<Longrightarrow> limitOk limit ws (limitRun limit ws es s)"
proof (induction es arbitrary: s)
  case (Cons e es)
  have "limitOk limit ws (limitStep limit ws e s)"
    using Cons.prems by (intro limitOk_step) auto
  moreover have "onTime (lrNow (limitStep limit ws e s)) es"
    using Cons.prems(2) by (cases e) (auto simp: hit_def Let_def)
  ultimately show ?case using Cons.IH by simp
qed simp

lemma limitOk_start: "limitOk limit ws limitStart"
  by (simp add: limitOk_def limitStart_def inWindow_def)

section \<open>Properties\<close>

text \<open>
  The limit holds over every window, not only over aligned ones: whatever attempts,
  refusals, refunds and resets a key has seen, in any order and interleaving, at most \<open>limit\<close>
  of the admitted attempts that were neither refunded nor reset lie in any \<open>windowSeconds\<close>
  (and Redis dropping the whole set at its expiry never lets one more through).
\<close>

theorem limit_holds_in_every_window:
  assumes "onTime 0 es"
  shows "length (inWindow ws t (lrAdmitted (limitRun limit ws es limitStart))) \<le> limit"
proof -
  have "limitOk limit ws (limitRun limit ws es limitStart)"
    using assms by (intro limitOk_run limitOk_start) (simp add: limitStart_def)
  then show ?thesis by (simp add: limitOk_def)
qed

lemma limit_holds_in_every_window_witness:
  "length (inWindow 900 905000 (lrAdmitted (limitRun 2 900
     [Attempt 5000, Attempt 6000, Attempt 7000, Forget 2, Attempt 905000] limitStart))) \<le> 2"
  by (rule limit_holds_in_every_window) simp

lemma refusal_seconds:
  assumes "wnEntries w \<noteq> []" "\<forall>(m, t) \<in> set (wnEntries w). now - ws * 1000 < t \<and> t \<le> now"
  shows "1 \<le> rdRetryAfterSeconds (refusal ws now w) \<and> rdRetryAfterSeconds (refusal ws now w) \<le> max 1 ws \<and>
    (\<exists>(m, t) \<in> set (wnEntries w). t + ws * 1000 \<le> now + rdRetryAfterSeconds (refusal ws now w) * 1000)"
proof -
  let ?o = "oldestScore now w"
  have "?o \<in> set (map snd (wnEntries w))"
    using assms(1) unfolding oldestScore_def by (simp add: Min_in del: set_map)
  then obtain m where m: "(m, ?o) \<in> set (wnEntries w)" by auto
  then have o: "now - ws * 1000 < ?o" "?o \<le> now" using assms(2) by auto
  let ?d = "?o + ws * 1000 - now"
  have c: "?d \<le> ceilDiv ?d 1000 * 1000" "ceilDiv ?d 1000 * 1000 < ?d + 1000"
    unfolding ceilDiv_def by (simp_all add: algebra_simps)
  have "ceilDiv ?d 1000 \<le> ws" using c(2) o(2) by simp
  moreover have "?o + ws * 1000 \<le> now + max 1 (ceilDiv ?d 1000) * 1000" using c(1) by (simp add: max_def)
  ultimately show ?thesis using m unfolding refusal_def by (auto intro: bexI [of _ "(m, ?o)"])
qed

text \<open>
  A refusal tells the truth about when to come back: the seconds it names lie between one
  and the window, and the next attempt of an otherwise quiet key made that much later is
  admitted.
\<close>

theorem retry_after_is_enough:
  assumes "0 < limit" "0 < ws" "length (wnEntries w) \<le> limit"
    and "\<forall>(m, t) \<in> set (wnEntries w). 0 \<le> t \<and> t \<le> now"
    and "consumeWindow limit ws now m w = (d, w')" "\<not> rdAllowed d"
  shows "1 \<le> rdRetryAfterSeconds d \<and> rdRetryAfterSeconds d \<le> ws \<and>
    rdAllowed (fst (consumeWindow limit ws (now + rdRetryAfterSeconds d * 1000) m' w'))"
proof -
  let ?z = "trimmed ws now (liveEntries now w)"
  have small: "length ?z \<le> limit"
    using assms(3) by (auto simp: trimmed_def liveEntries_def split: option.split intro: le_trans [OF length_filter_le])
  have full: "limit \<le> length ?z" and w': "wnEntries w' = filter (\<lambda>(k, t). k \<noteq> m) ?z"
    and d: "d = refusal ws now w'"
    using assms(5,6) by (auto simp: consumeWindow_def hit_def Let_def split: if_splits)
  have recent: "\<forall>(k, t) \<in> set ?z. now - ws * 1000 < t \<and> t \<le> now \<and> 0 \<le> t"
    using assms(4) by (auto simp: trimmed_def liveEntries_def split: option.splits if_splits)
  let ?r = "rdRetryAfterSeconds d"
  let ?z' = "trimmed ws (now + ?r * 1000) (liveEntries (now + ?r * 1000) w')"
  show ?thesis
  proof (cases "wnEntries w' = []")
    case True
    have "(- ws * 1000) div 1000 = - ws" by (rule nonzero_mult_div_cancel_right) simp
    then have "ceilDiv (ws * 1000) 1000 = ws" by (simp add: ceilDiv_def)
    then have r: "?r = ws" using assms(2) unfolding d refusal_def oldestScore_def True by simp
    have "?z' = []" by (simp add: trimmed_def liveEntries_def True split: option.split)
    then show ?thesis using assms(1,2) r by (auto simp: consumeWindow_def hit_def Let_def)
  next
    case False
    have "\<forall>(k, t) \<in> set (wnEntries w'). now - ws * 1000 < t \<and> t \<le> now"
      using recent unfolding w' by auto
    note sec = refusal_seconds [OF False this, folded d]
    then obtain k t where kt: "(k, t) \<in> set (wnEntries w')" "t + ws * 1000 \<le> now + ?r * 1000" by auto
    have t0: "0 \<le> t" using kt(1) recent unfolding w' by auto
    have "\<exists>e \<in> set (wnEntries w'). \<not> (case e of (m, score) \<Rightarrow> \<not> (0 \<le> score \<and> score \<le> now + ?r * 1000 - ws * 1000))"
      using kt t0 by (intro bexI [of _ "(k, t)"]) auto
    then have less: "length (trimmed ws (now + ?r * 1000) (wnEntries w')) < length (wnEntries w')"
      unfolding trimmed_def by (meson length_filter_less)
    have "length (wnEntries w') \<le> limit"
      using small length_filter_le [of "\<lambda>(k, t). k \<noteq> m" ?z] unfolding w' by linarith
    then have "length (trimmed ws (now + ?r * 1000) (wnEntries w')) < limit" using less by linarith
    moreover have "?z' = [] \<or> ?z' = trimmed ws (now + ?r * 1000) (wnEntries w')"
      by (auto simp: liveEntries_def trimmed_def split: option.split)
    ultimately have "length ?z' < limit" using assms(1) by auto
    then show ?thesis using sec assms(2) by (auto simp: consumeWindow_def hit_def Let_def)
  qed
qed

lemma retry_after_is_enough_witness:
  "rdAllowed (fst (consumeWindow 2 900 (700000 + 300 * 1000) 8
     (snd (consumeWindow 2 900 700000 7 \<lparr>wnEntries = [(1, 100000), (2, 650000)], wnExpires = Some 1550000\<rparr>))))"
proof -
  let ?w = "\<lparr>wnEntries = [(1, 100000), (2, 650000)], wnExpires = Some 1550000\<rparr>"
  have c: "fst (consumeWindow 2 900 700000 7 ?w) = \<lparr>rdAllowed = False, rdRetryAfterSeconds = 300, rdRemaining = 0, rdToken = None\<rparr>"
    by code_simp
  show ?thesis
    using retry_after_is_enough [of 2 900 ?w 700000 7 "fst (consumeWindow 2 900 700000 7 ?w)"
        "snd (consumeWindow 2 900 700000 7 ?w)" 8] c by simp
qed

end
