(* ===== verification/Auth.thy ===== *)
theory Auth
  imports RateLimit
begin

text \<open>
  Accounts and sessions: the user table (\<^verbatim>\<open>identity/user.repository.ts\<close>), refresh tokens
  (\<^verbatim>\<open>identity/token/refresh-token.repository.ts\<close>), two-factor codes (\<^verbatim>\<open>identity/mfa/totp.service.ts\<close>)
  and passwords (\<^verbatim>\<open>identity/password/password.service.ts\<close>). Hashing, encryption, the one-time
  code algorithm, the random generator and the mail server are arguments, collected in
  \<open>AuthEnv\<close>; every operation gets the time of its request. Redis keys with a time to live carry
  their expiry.
\<close>

section \<open>State\<close>

datatype AccountStatus = PENDING_VERIFICATION | ACTIVE | SUSPENDED | BANNED | DELETED

record UserView =
  usId :: nat
  usEmail :: "string option"
  usPasswordHash :: "string option"
  usStatus :: AccountStatus
  usEmailVerified :: bool
  usLocale :: string
  usDeletedAt :: "int option"
  usTotpEnabled :: bool
  usTotpSecret :: "string option"
  usBackupCodes :: "string list"
  usLastLoginAt :: "int option"

record RefreshToken =
  rtId :: nat
  rtUserId :: nat
  rtTokenHash :: string
  rtFamilyId :: nat
  rtUsedAt :: "int option"
  rtRevokedAt :: "int option"
  rtExpiresAt :: int

record AuthDb =
  adUsers :: "UserView list"
  adTokens :: "RefreshToken list"
  adAudit :: "AuditRow list"
  adRate :: RateDb
  adVerify :: "(string \<times> nat \<times> int) list"
  adReset :: "(string \<times> nat \<times> int) list"
  adTotpUsed :: "((nat \<times> string) \<times> int) list"
  adTotpPending :: "(nat \<times> string \<times> int) list"
  adMails :: "(string \<times> string \<times> string) list"
  adNextId :: nat

record AuthEnv =
  enRandom :: "nat \<Rightarrow> string"
  enSha256 :: "string \<Rightarrow> string"
  enHash :: "string \<Rightarrow> nat \<Rightarrow> string"
  enVerify :: "string \<Rightarrow> string \<Rightarrow> bool"
  enNeedsRehash :: "string \<Rightarrow> bool"
  enTotp :: "string \<Rightarrow> string \<Rightarrow> int \<Rightarrow> bool"
  enEncrypt :: "string \<Rightarrow> string"
  enDecrypt :: "string \<Rightarrow> string"
  enTotpKey :: bool
  enMailer :: bool
  enMailFails :: "string \<Rightarrow> bool"

datatype AuthError =
    InvalidCredentials | TooManyAttempts int | AccountDisabled | EmailAlreadyRegistered
  | InvalidVerificationToken | InvalidPasswordResetToken | CurrentPasswordMismatch
  | InvalidTotpCode | TotpRequired | TotpNotConfigured | Unauthorized string
  | UniqueViolation string | RecordNotFound

type_synonym 'a auth = "(AuthError, AuthDb, 'a) action"

record RequestMeta =
  rmIp :: "string option"
  rmUserAgent :: "string option"

definition freshNumber :: "nat auth" where
  "freshNumber = bindS (getS adNextId) (\<lambda>n. bindS (putS (\<lambda>s. s\<lparr>adNextId := Suc n\<rparr>)) (\<lambda>_. returnS n))"

definition authAudit :: "string \<Rightarrow> nat \<Rightarrow> string \<Rightarrow> unit auth" where
  "authAudit act userId res = auditWriteTo adAudit_update (auditOf act (showNat userId) res '''' '''' None)"

section \<open>User repository\<close>

definition findByEmail :: "string \<Rightarrow> AuthDb \<Rightarrow> UserView option" where
  "findByEmail email s = find (\<lambda>u. usEmail u = Some email) (adUsers s)"

definition findUser :: "nat \<Rightarrow> AuthDb \<Rightarrow> UserView option" where
  "findUser i s = find (\<lambda>u. usId u = i) (adUsers s)"

definition updateUser :: "nat \<Rightarrow> (UserView \<Rightarrow> UserView) \<Rightarrow> unit auth" where
  "updateUser i f =
     bindS (getS (findUser i)) (\<lambda>found.
     bindS (guardS (found = None) (OtherError RecordNotFound)) (\<lambda>_.
     putS (\<lambda>s. s\<lparr>adUsers := map (\<lambda>u. if usId u = i then f u else u) (adUsers s)\<rparr>)))"

text \<open>The profile and the \<^verbatim>\<open>PLAYER\<close> role go into the tables of other components.\<close>

definition createWithPlayer :: "string \<Rightarrow> string \<Rightarrow> string \<Rightarrow> UserView auth" where
  "createWithPlayer email passwordHash locale = transaction (
     bindS freshNumber (\<lambda>i.
     let user = \<lparr>usId = i, usEmail = Some email, usPasswordHash = Some passwordHash, usStatus = PENDING_VERIFICATION,
       usEmailVerified = False, usLocale = locale, usDeletedAt = None, usTotpEnabled = False, usTotpSecret = None,
       usBackupCodes = [], usLastLoginAt = None\<rparr>
     in bindS (getS (findByEmail email)) (\<lambda>taken.
     bindS (guardS (taken \<noteq> None) (OtherError (UniqueViolation ''User.email''))) (\<lambda>_.
     bindS (putS (\<lambda>s. s\<lparr>adUsers := adUsers s @ [user]\<rparr>)) (\<lambda>_.
     bindS (authAudit ''user.registered'' i (showNat i)) (\<lambda>_.
     returnS user))))))"

definition updatePasswordHash :: "nat \<Rightarrow> string \<Rightarrow> unit auth" where
  "updatePasswordHash i passwordHash = updateUser i (\<lambda>u. u\<lparr>usPasswordHash := Some passwordHash\<rparr>)"

definition repoChangePassword :: "nat \<Rightarrow> string \<Rightarrow> string \<Rightarrow> unit auth" where
  "repoChangePassword i passwordHash act = transaction (
     bindS (updateUser i (\<lambda>u. u\<lparr>usPasswordHash := Some passwordHash\<rparr>)) (\<lambda>_.
     authAudit act i (showNat i)))"

definition recordLogin :: "nat \<Rightarrow> int \<Rightarrow> unit auth" where
  "recordLogin i now = transaction (
     bindS (updateUser i (\<lambda>u. u\<lparr>usLastLoginAt := Some now\<rparr>)) (\<lambda>_.
     authAudit ''auth.login'' i (showNat i)))"

definition recordLoginFailed :: "nat \<Rightarrow> unit auth" where
  "recordLoginFailed i = transaction (authAudit ''auth.login_failed'' i (showNat i))"

definition markEmailVerified :: "nat \<Rightarrow> unit auth" where
  "markEmailVerified i = updateUser i (\<lambda>u. u\<lparr>usEmailVerified := True, usStatus := ACTIVE\<rparr>)"

definition enableTotp :: "nat \<Rightarrow> string \<Rightarrow> string list \<Rightarrow> unit auth" where
  "enableTotp i encryptedSecret hashedBackupCodes = transaction (
     bindS (updateUser i (\<lambda>u. u\<lparr>usTotpSecret := Some encryptedSecret, usTotpEnabled := True,
       usBackupCodes := hashedBackupCodes\<rparr>)) (\<lambda>_.
     authAudit ''auth.2fa_enabled'' i (showNat i)))"

definition disableTotp :: "nat \<Rightarrow> unit auth" where
  "disableTotp i = transaction (
     bindS (updateUser i (\<lambda>u. u\<lparr>usTotpSecret := None, usTotpEnabled := False, usBackupCodes := []\<rparr>)) (\<lambda>_.
     authAudit ''auth.2fa_disabled'' i (showNat i)))"

definition replaceBackupCodes :: "nat \<Rightarrow> string list \<Rightarrow> unit auth" where
  "replaceBackupCodes i remainingHashed = updateUser i (\<lambda>u. u\<lparr>usBackupCodes := remainingHashed\<rparr>)"

section \<open>Refresh tokens\<close>

definition REFRESH_TTL_MS :: int where "REFRESH_TTL_MS = 30 * 24 * 60 * 60 * 1000"

record IssuedRefreshToken =
  irToken :: string
  irUserId :: nat
  irFamilyId :: nat
  irExpiresAt :: int

definition revokeWhere :: "(RefreshToken \<Rightarrow> bool) \<Rightarrow> int \<Rightarrow> AuthDb \<Rightarrow> AuthDb" where
  "revokeWhere P now s = s\<lparr>adTokens :=
     map (\<lambda>t. if P t \<and> rtRevokedAt t = None then t\<lparr>rtRevokedAt := Some now\<rparr> else t) (adTokens s)\<rparr>"

definition revokeFamily :: "nat \<Rightarrow> int \<Rightarrow> unit auth" where
  "revokeFamily familyId now = putS (revokeWhere (\<lambda>t. rtFamilyId t = familyId) now)"

definition revokeAllForUser :: "nat \<Rightarrow> int \<Rightarrow> nat auth" where
  "revokeAllForUser userId now =
     bindS (getS (\<lambda>s. length (filter (\<lambda>t. rtUserId t = userId \<and> rtRevokedAt t = None) (adTokens s)))) (\<lambda>n.
     bindS (putS (revokeWhere (\<lambda>t. rtUserId t = userId) now)) (\<lambda>_.
     returnS n))"

definition findToken :: "string \<Rightarrow> AuthDb \<Rightarrow> RefreshToken option" where
  "findToken tokenHash s = find (\<lambda>t. rtTokenHash t = tokenHash) (adTokens s)"

definition persistToken :: "AuthEnv \<Rightarrow> nat \<Rightarrow> nat \<Rightarrow> int \<Rightarrow> IssuedRefreshToken auth" where
  "persistToken env userId familyId now =
     bindS freshNumber (\<lambda>n.
     let token = enRandom env n; tokenHash = enSha256 env token; expiresAt = now + REFRESH_TTL_MS
     in bindS (getS (findToken tokenHash)) (\<lambda>taken.
     bindS (guardS (taken \<noteq> None) (OtherError (UniqueViolation ''RefreshToken.tokenHash''))) (\<lambda>_.
     bindS (putS (\<lambda>s. s\<lparr>adTokens := adTokens s @ [\<lparr>rtId = n, rtUserId = userId, rtTokenHash = tokenHash,
       rtFamilyId = familyId, rtUsedAt = None, rtRevokedAt = None, rtExpiresAt = expiresAt\<rparr>]\<rparr>)) (\<lambda>_.
     returnS \<lparr>irToken = token, irUserId = userId, irFamilyId = familyId, irExpiresAt = expiresAt\<rparr>))))"

definition issueNewFamily :: "AuthEnv \<Rightarrow> nat \<Rightarrow> int \<Rightarrow> IssuedRefreshToken auth" where
  "issueNewFamily env userId now = bindS freshNumber (\<lambda>familyId. persistToken env userId familyId now)"

datatype RotationOutcome = Rotated IssuedRefreshToken | Invalid | Expired | Reuse nat nat

text \<open>\<^verbatim>\<open>updateMany\<close> on the token if it is still unused: the number of rows changed.\<close>

definition markUsed :: "nat \<Rightarrow> int \<Rightarrow> nat auth" where
  "markUsed i now =
     bindS (getS (\<lambda>s. length (filter (\<lambda>t. rtId t = i \<and> rtUsedAt t = None) (adTokens s)))) (\<lambda>n.
     bindS (putS (\<lambda>s. s\<lparr>adTokens := map (\<lambda>t. if rtId t = i \<and> rtUsedAt t = None
        then t\<lparr>rtUsedAt := Some now, rtRevokedAt := Some now\<rparr> else t) (adTokens s)\<rparr>)) (\<lambda>_.
     returnS n))"

text \<open>The transaction is serializable: it runs as one step, and returns instead of throwing, so
  that the revocation of a family is not rolled back.\<close>

definition rotateOutcome :: "AuthEnv \<Rightarrow> string \<Rightarrow> int \<Rightarrow> RotationOutcome auth" where
  "rotateOutcome env rawToken now = transaction (
     bindS (getS (findToken (enSha256 env rawToken))) (\<lambda>found.
     case found of
       None \<Rightarrow> returnS Invalid
     | Some stored \<Rightarrow>
         if rtUsedAt stored \<noteq> None \<or> rtRevokedAt stored \<noteq> None then
           bindS (revokeFamily (rtFamilyId stored) now) (\<lambda>_.
           bindS (authAudit ''auth.refresh_reuse_detected'' (rtUserId stored) (showNat (rtId stored))) (\<lambda>_.
           returnS (Reuse (rtUserId stored) (rtFamilyId stored))))
         else if rtExpiresAt stored < now then returnS Expired
         else
           bindS (markUsed (rtId stored) now) (\<lambda>n.
           if n \<noteq> 1 then
             bindS (revokeFamily (rtFamilyId stored) now) (\<lambda>_.
             returnS (Reuse (rtUserId stored) (rtFamilyId stored)))
           else
             bindS (persistToken env (rtUserId stored) (rtFamilyId stored) now) (\<lambda>issued.
             returnS (Rotated issued)))))"

definition rotate_token :: "AuthEnv \<Rightarrow> string \<Rightarrow> int \<Rightarrow> IssuedRefreshToken auth" where
  "rotate_token env rawToken now =
     bindS (rotateOutcome env rawToken now) (\<lambda>out. case out of
       Rotated issued \<Rightarrow> returnS issued
     | Invalid \<Rightarrow> throwS (OtherError (Unauthorized ''Invalid refresh token''))
     | Expired \<Rightarrow> throwS (OtherError (Unauthorized ''Refresh token expired''))
     | Reuse u f \<Rightarrow> throwS (OtherError (Unauthorized ''Token reuse detected. Please sign in again.'')))"

definition revokeByToken :: "AuthEnv \<Rightarrow> string \<Rightarrow> int \<Rightarrow> unit auth" where
  "revokeByToken env rawToken now =
     bindS (getS (findToken (enSha256 env rawToken))) (\<lambda>found.
     case found of
       None \<Rightarrow> returnS ()
     | Some stored \<Rightarrow> transaction (revokeFamily (rtFamilyId stored) now))"

section \<open>Two-factor codes\<close>

definition PENDING_TTL_SECONDS :: int where "PENDING_TTL_SECONDS = 10 * 60"
definition BACKUP_CODE_COUNT :: nat where "BACKUP_CODE_COUNT = 10"

text \<open>A key with a time to live, as of \<open>now\<close>.\<close>

fun unexpired :: "int \<Rightarrow> ('v \<times> int) option \<Rightarrow> 'v option" where
  "unexpired now None = None"
| "unexpired now (Some (v, e)) = (if e \<le> now then None else Some v)"

definition upperToLower :: "char \<Rightarrow> char" where
  "upperToLower c = (let n = of_char c :: nat in
     if 65 \<le> n \<and> n \<le> 90 \<or> 192 \<le> n \<and> n \<le> 222 \<and> n \<noteq> 215 then char_of (n + 32) else c)"

text \<open>\<^verbatim>\<open>String.prototype.toLowerCase\<close> on the characters of the model.\<close>

definition jsLower :: "string \<Rightarrow> string" where
  "jsLower = map upperToLower"

definition isDigit :: "char \<Rightarrow> bool" where
  "isDigit c = (let n = of_char c :: nat in 48 \<le> n \<and> n \<le> 57)"

definition isTotpForm :: "string \<Rightarrow> bool" where
  "isTotpForm code \<longleftrightarrow> length code = 6 \<and> list_all isDigit code"

definition requireBox :: "AuthEnv \<Rightarrow> unit auth" where
  "requireBox env = guardS (\<not> enTotpKey env) (BusinessRuleError ''TOTP_NOT_CONFIGURED_SERVER'')"

definition enrollTotp :: "AuthEnv \<Rightarrow> nat \<Rightarrow> int \<Rightarrow> string auth" where
  "enrollTotp env userId now =
     bindS (requireBox env) (\<lambda>_.
     bindS freshNumber (\<lambda>n.
     let secret = enRandom env n
     in bindS (putS (\<lambda>s. s\<lparr>adTotpPending := (userId, enEncrypt env secret, now + PENDING_TTL_SECONDS * 1000)
          # filter (\<lambda>(u, v). u \<noteq> userId) (adTotpPending s)\<rparr>)) (\<lambda>_.
     returnS secret)))"

fun freshCodes :: "AuthEnv \<Rightarrow> nat \<Rightarrow> string list auth" where
  "freshCodes env 0 = returnS []"
| "freshCodes env (Suc k) =
     bindS freshNumber (\<lambda>n. bindS (freshCodes env k) (\<lambda>rest. returnS (enRandom env n # rest)))"

definition activateTotp :: "AuthEnv \<Rightarrow> nat \<Rightarrow> string \<Rightarrow> int \<Rightarrow> string list auth" where
  "activateTotp env userId code now =
     bindS (requireBox env) (\<lambda>_.
     bindS (getS (\<lambda>s. unexpired now (map_of (adTotpPending s) userId))) (\<lambda>pending.
     case pending of
       None \<Rightarrow> throwS (BusinessRuleError ''TOTP_ENROLLMENT_EXPIRED'')
     | Some encrypted \<Rightarrow>
         let secret = enDecrypt env encrypted
         in bindS (guardS (\<not> enTotp env code secret now) (OtherError InvalidTotpCode)) (\<lambda>_.
         bindS (freshCodes env BACKUP_CODE_COUNT) (\<lambda>codes.
         bindS (enableTotp userId (enEncrypt env secret) (map (enSha256 env) codes)) (\<lambda>_.
         bindS (putS (\<lambda>s. s\<lparr>adTotpPending := filter (\<lambda>(u, v). u \<noteq> userId) (adTotpPending s)\<rparr>)) (\<lambda>_.
         returnS codes))))))"

text \<open>\<^verbatim>\<open>SET key 1 EX 90 NX\<close>: whether the key was set.\<close>

definition markCodeUsed :: "nat \<Rightarrow> string \<Rightarrow> int \<Rightarrow> bool auth" where
  "markCodeUsed userId code now =
     bindS (getS (\<lambda>s. \<exists>(k, e) \<in> set (adTotpUsed s). k = (userId, code) \<and> now < e)) (\<lambda>used.
     if used then returnS False
     else bindS (putS (\<lambda>s. s\<lparr>adTotpUsed := ((userId, code), now + 90 * 1000)
            # filter (\<lambda>(k, e). k \<noteq> (userId, code)) (adTotpUsed s)\<rparr>)) (\<lambda>_. returnS True))"

text \<open>\<open>user\<close> is the row as the caller read it.\<close>

definition verifyBackupCode :: "AuthEnv \<Rightarrow> UserView \<Rightarrow> string \<Rightarrow> unit auth" where
  "verifyBackupCode env user code =
     (let codeHash = enSha256 env (jsLower code)
      in if codeHash \<in> set (usBackupCodes user)
         then replaceBackupCodes (usId user) (filter (\<lambda>stored. stored \<noteq> codeHash) (usBackupCodes user))
         else throwS (OtherError InvalidTotpCode))"

definition verifyTotp :: "AuthEnv \<Rightarrow> UserView \<Rightarrow> string \<Rightarrow> int \<Rightarrow> unit auth" where
  "verifyTotp env user code now =
     bindS (requireBox env) (\<lambda>_.
     case usTotpSecret user of
       None \<Rightarrow> throwS (OtherError TotpNotConfigured)
     | Some secret \<Rightarrow>
         if \<not> usTotpEnabled user then throwS (OtherError TotpNotConfigured)
         else if isTotpForm code \<and> enTotp env code (enDecrypt env secret) now then
           bindS (markCodeUsed (usId user) code now) (\<lambda>isFresh.
           guardS (\<not> isFresh) (OtherError InvalidTotpCode))
         else verifyBackupCode env user code)"

definition disableTotpFor :: "AuthEnv \<Rightarrow> UserView \<Rightarrow> string \<Rightarrow> int \<Rightarrow> unit auth" where
  "disableTotpFor env user code now =
     bindS (verifyTotp env user code now) (\<lambda>_. disableTotp (usId user))"

end
