(* ===== verification/AuthService.thy ===== *)
theory AuthService
  imports Auth
begin

text \<open>
  The authentication service, \<^verbatim>\<open>identity/auth/auth.service.ts\<close>: registration, login, refresh,
  logout, verification of the address, and the password flows. Signing the access token is the
  library's: the model keeps its subject and session. Messages to the log are left out.
\<close>

section \<open>Constants\<close>

definition EMAIL_VERIFY_TTL_SECONDS :: int where "EMAIL_VERIFY_TTL_SECONDS = 24 * 60 * 60"
definition ACCESS_TTL_SECONDS :: int where "ACCESS_TTL_SECONDS = 15 * 60"
definition LOGIN_LIMIT :: nat where "LOGIN_LIMIT = 5"
definition LOGIN_IP_LIMIT :: nat where "LOGIN_IP_LIMIT = 20"
definition LOGIN_WINDOW_SECONDS :: int where "LOGIN_WINDOW_SECONDS = 15 * 60"
definition REGISTER_LIMIT :: nat where "REGISTER_LIMIT = 3"
definition REGISTER_WINDOW_SECONDS :: int where "REGISTER_WINDOW_SECONDS = 60 * 60"
definition TOTP_LIMIT :: nat where "TOTP_LIMIT = 5"
definition TOTP_WINDOW_SECONDS :: int where "TOTP_WINDOW_SECONDS = 15 * 60"
definition PASSWORD_FORGOT_LIMIT :: nat where "PASSWORD_FORGOT_LIMIT = 3"
definition PASSWORD_FORGOT_WINDOW_SECONDS :: int where "PASSWORD_FORGOT_WINDOW_SECONDS = 60 * 60"
definition PASSWORD_RESET_LIMIT :: nat where "PASSWORD_RESET_LIMIT = 5"
definition PASSWORD_RESET_WINDOW_SECONDS :: int where "PASSWORD_RESET_WINDOW_SECONDS = 60 * 60"
definition PASSWORD_RESET_TTL_SECONDS :: int where "PASSWORD_RESET_TTL_SECONDS = 60 * 60"

lemmas auth_limits = LOGIN_LIMIT_def LOGIN_IP_LIMIT_def LOGIN_WINDOW_SECONDS_def REGISTER_LIMIT_def
  REGISTER_WINDOW_SECONDS_def TOTP_LIMIT_def TOTP_WINDOW_SECONDS_def PASSWORD_FORGOT_LIMIT_def
  PASSWORD_FORGOT_WINDOW_SECONDS_def PASSWORD_RESET_LIMIT_def PASSWORD_RESET_WINDOW_SECONDS_def

section \<open>Helpers\<close>

record AuthTokens =
  atUserId :: nat
  atSessionId :: nat
  atExpiresIn :: int
  atRefreshToken :: string
  atRefreshExpiresAt :: int

definition consumeS :: "string \<Rightarrow> nat \<Rightarrow> int \<Rightarrow> int \<Rightarrow> RateLimitDecision auth" where
  "consumeS key limit windowSeconds now = (\<lambda>s.
     let (d, r) = consume key limit windowSeconds now (adRate s) in (Inr d, s\<lparr>adRate := r\<rparr>))"

definition ipOf :: "RequestMeta \<Rightarrow> string" where
  "ipOf meta = (case rmIp meta of None \<Rightarrow> ''unknown'' | Some ip \<Rightarrow> ip)"

definition normalEmail :: "string \<Rightarrow> string" where
  "normalEmail email = jsTrim (jsLower email)"

definition tokensOf :: "IssuedRefreshToken \<Rightarrow> AuthTokens" where
  "tokensOf issued = \<lparr>atUserId = irUserId issued, atSessionId = irFamilyId issued, atExpiresIn = ACCESS_TTL_SECONDS,
     atRefreshToken = irToken issued, atRefreshExpiresAt = irExpiresAt issued\<rparr>"

definition issueTokens :: "AuthEnv \<Rightarrow> nat \<Rightarrow> int \<Rightarrow> AuthTokens auth" where
  "issueTokens env userId now = bindS (issueNewFamily env userId now) (\<lambda>issued. returnS (tokensOf issued))"

text \<open>Sending never fails the caller: an error of the mail server is logged.\<close>

definition sendMail :: "AuthEnv \<Rightarrow> string \<Rightarrow> string \<Rightarrow> string \<Rightarrow> unit auth" where
  "sendMail env to templateKey token =
     (if \<not> enMailer env \<or> enMailFails env to then returnS ()
      else putS (\<lambda>s. s\<lparr>adMails := adMails s @ [(to, templateKey, token)]\<rparr>))"

definition sendEmailVerification :: "AuthEnv \<Rightarrow> nat \<Rightarrow> string \<Rightarrow> int \<Rightarrow> unit auth" where
  "sendEmailVerification env userId email now =
     bindS freshNumber (\<lambda>n.
     let token = enRandom env n
     in bindS (putS (\<lambda>s. s\<lparr>adVerify := (token, userId, now + EMAIL_VERIFY_TTL_SECONDS * 1000) # adVerify s\<rparr>)) (\<lambda>_.
     sendMail env email ''auth.verify_email'' token))"

definition hashPassword :: "AuthEnv \<Rightarrow> string \<Rightarrow> string auth" where
  "hashPassword env password = bindS freshNumber (\<lambda>salt. returnS (enHash env password salt))"

definition bothAllowed :: "RateLimitDecision \<Rightarrow> RateLimitDecision \<Rightarrow> unit auth" where
  "bothAllowed a b = guardS (\<not> rdAllowed a \<or> \<not> rdAllowed b)
     (OtherError (TooManyAttempts (max (rdRetryAfterSeconds a) (rdRetryAfterSeconds b))))"

section \<open>Operations\<close>

record CurrentUserResponse =
  cuUserId :: nat
  cuEmail :: "string option"
  cuStatus :: AccountStatus
  cuEmailVerified :: bool
  cuTotpEnabled :: bool
  cuLocale :: string

text \<open>The roles of the answer are those of \<^verbatim>\<open>findActiveAssignments\<close> (user administration).\<close>

definition describe :: "nat \<Rightarrow> CurrentUserResponse auth" where
  "describe userId =
     bindS (getS (findUser userId)) (\<lambda>found.
     case found of
       None \<Rightarrow> throwS (NotFoundError ''User'')
     | Some user \<Rightarrow>
         bindS (guardS (usDeletedAt user \<noteq> None) (NotFoundError ''User'')) (\<lambda>_.
         returnS \<lparr>cuUserId = usId user, cuEmail = usEmail user, cuStatus = usStatus user,
           cuEmailVerified = usEmailVerified user, cuTotpEnabled = usTotpEnabled user, cuLocale = usLocale user\<rparr>))"

definition register_user :: "AuthEnv \<Rightarrow> string \<Rightarrow> string \<Rightarrow> string option \<Rightarrow> RequestMeta \<Rightarrow> int \<Rightarrow> AuthTokens auth" where
  "register_user env dtoEmail password locale meta now =
     bindS (consumeS (''register:ip:'' @ ipOf meta) REGISTER_LIMIT REGISTER_WINDOW_SECONDS now) (\<lambda>d.
     bindS (guardS (\<not> rdAllowed d) (OtherError (TooManyAttempts (rdRetryAfterSeconds d)))) (\<lambda>_.
     let email = normalEmail dtoEmail; language = (case locale of None \<Rightarrow> ''uz-Latn'' | Some l \<Rightarrow> l)
     in bindS (getS (findByEmail email)) (\<lambda>existing.
     bindS (guardS (existing \<noteq> None) (OtherError EmailAlreadyRegistered)) (\<lambda>_.
     bindS (hashPassword env password) (\<lambda>passwordHash.
     bindS (createWithPlayer email passwordHash language) (\<lambda>user.
     bindS (sendEmailVerification env (usId user) email now) (\<lambda>_.
     issueTokens env (usId user) now)))))))"

definition checkSecondFactor :: "AuthEnv \<Rightarrow> UserView \<Rightarrow> string option \<Rightarrow> int \<Rightarrow> unit auth" where
  "checkSecondFactor env user totpCode now =
     (if usTotpEnabled user then
        (case totpCode of
           None \<Rightarrow> throwS (OtherError TotpRequired)
         | Some code \<Rightarrow>
             bindS (consumeS (''2fa:user:'' @ showNat (usId user)) TOTP_LIMIT TOTP_WINDOW_SECONDS now) (\<lambda>d.
             bindS (guardS (\<not> rdAllowed d) (OtherError (TooManyAttempts (rdRetryAfterSeconds d)))) (\<lambda>_.
             verifyTotp env user code now)))
      else returnS ())"

definition rehashIfNeeded :: "AuthEnv \<Rightarrow> nat \<Rightarrow> string \<Rightarrow> string \<Rightarrow> unit auth" where
  "rehashIfNeeded env userId passwordHash password =
     (if enNeedsRehash env passwordHash then
        bindS (hashPassword env password) (\<lambda>newHash. updatePasswordHash userId newHash)
      else returnS ())"

definition mayNotLogIn :: "UserView \<Rightarrow> bool" where
  "mayNotLogIn user \<longleftrightarrow> usStatus user \<in> {SUSPENDED, BANNED, DELETED} \<or> usDeletedAt user \<noteq> None"

text \<open>The password of the account behind the address: the same answer for an unknown address, an
  account without password and a wrong password.\<close>

definition checkPassword :: "AuthEnv \<Rightarrow> UserView option \<Rightarrow> string \<Rightarrow> (UserView \<times> string) auth" where
  "checkPassword env found password = (case found of
     None \<Rightarrow> throwS (OtherError InvalidCredentials)
   | Some user \<Rightarrow> (case usPasswordHash user of
       None \<Rightarrow> throwS (OtherError InvalidCredentials)
     | Some passwordHash \<Rightarrow>
         if enVerify env passwordHash password then returnS (user, passwordHash)
         else bindS (recordLoginFailed (usId user)) (\<lambda>_. throwS (OtherError InvalidCredentials))))"

text \<open>The part of \<^verbatim>\<open>login\<close> between the limiter and the release of its counters.\<close>

definition acceptCredentials :: "AuthEnv \<Rightarrow> string \<Rightarrow> string \<Rightarrow> string option \<Rightarrow> int \<Rightarrow> UserView auth" where
  "acceptCredentials env email password totpCode now =
     bindS (getS (findByEmail email)) (\<lambda>found.
     bindS (checkPassword env found password) (\<lambda>(user, passwordHash).
     bindS (guardS (mayNotLogIn user) (OtherError AccountDisabled)) (\<lambda>_.
     bindS (checkSecondFactor env user totpCode now) (\<lambda>_.
     bindS (rehashIfNeeded env (usId user) passwordHash password) (\<lambda>_.
     bindS (recordLogin (usId user) now) (\<lambda>_.
     returnS user))))))"

definition login :: "AuthEnv \<Rightarrow> string \<Rightarrow> string \<Rightarrow> string option \<Rightarrow> RequestMeta \<Rightarrow> int \<Rightarrow> AuthTokens auth" where
  "login env dtoEmail password totpCode meta now =
     (let email = normalEmail dtoEmail; ipKey = ''login:ip:'' @ ipOf meta; emailKey = ''login:email:'' @ email
      in bindS (consumeS ipKey LOGIN_IP_LIMIT LOGIN_WINDOW_SECONDS now) (\<lambda>byIp.
      bindS (consumeS emailKey LOGIN_LIMIT LOGIN_WINDOW_SECONDS now) (\<lambda>byEmail.
      bindS (bothAllowed byIp byEmail) (\<lambda>_.
      bindS (acceptCredentials env email password totpCode now) (\<lambda>user.
      bindS (putS (\<lambda>s. s\<lparr>adRate := refundAttempt ipKey (rdToken byIp) (resetKey emailKey (adRate s))\<rparr>)) (\<lambda>_.
      issueTokens env (usId user) now))))))"

definition refresh :: "AuthEnv \<Rightarrow> string \<Rightarrow> int \<Rightarrow> AuthTokens auth" where
  "refresh env rawRefreshToken now =
     bindS (rotate_token env rawRefreshToken now) (\<lambda>rotated. returnS (tokensOf rotated))"

definition logout :: "AuthEnv \<Rightarrow> string \<Rightarrow> int \<Rightarrow> unit auth" where
  "logout env rawRefreshToken now = revokeByToken env rawRefreshToken now"

definition logoutAll :: "nat \<Rightarrow> int \<Rightarrow> nat auth" where
  "logoutAll userId now = revokeAllForUser userId now"

definition verifyEmail :: "string \<Rightarrow> int \<Rightarrow> unit auth" where
  "verifyEmail token now =
     bindS (guardS (token = '''') (OtherError InvalidVerificationToken)) (\<lambda>_.
     bindS (getS (\<lambda>s. unexpired now (map_of (adVerify s) token))) (\<lambda>found.
     case found of
       None \<Rightarrow> throwS (OtherError InvalidVerificationToken)
     | Some userId \<Rightarrow>
         bindS (putS (\<lambda>s. s\<lparr>adVerify := filter (\<lambda>(k, v). k \<noteq> token) (adVerify s)\<rparr>)) (\<lambda>_.
         markEmailVerified userId)))"

definition requestPasswordReset :: "AuthEnv \<Rightarrow> string \<Rightarrow> RequestMeta \<Rightarrow> int \<Rightarrow> unit auth" where
  "requestPasswordReset env email meta now =
     (let normalized = normalEmail email
      in bindS (consumeS (''pwdforgot:ip:'' @ ipOf meta) PASSWORD_FORGOT_LIMIT PASSWORD_FORGOT_WINDOW_SECONDS now) (\<lambda>byIp.
      bindS (consumeS (''pwdforgot:email:'' @ normalized) PASSWORD_FORGOT_LIMIT PASSWORD_FORGOT_WINDOW_SECONDS now) (\<lambda>byEmail.
      bindS (bothAllowed byIp byEmail) (\<lambda>_.
      bindS (getS (findByEmail normalized)) (\<lambda>found.
      case found of
        None \<Rightarrow> returnS ()
      | Some user \<Rightarrow>
          if usDeletedAt user \<noteq> None \<or> usEmail user = None then returnS ()
          else bindS freshNumber (\<lambda>n.
            let token = enRandom env n
            in bindS (putS (\<lambda>s. s\<lparr>adReset := (token, usId user, now + PASSWORD_RESET_TTL_SECONDS * 1000) # adReset s\<rparr>)) (\<lambda>_.
            sendMail env normalized ''auth.password_reset'' token)))))))"

text \<open>\<^verbatim>\<open>GETDEL\<close>: read and delete in one step.\<close>

definition takeResetToken :: "string \<Rightarrow> int \<Rightarrow> nat option auth" where
  "takeResetToken token now =
     bindS (getS (\<lambda>s. unexpired now (map_of (adReset s) token))) (\<lambda>found.
     bindS (putS (\<lambda>s. s\<lparr>adReset := filter (\<lambda>(k, v). k \<noteq> token) (adReset s)\<rparr>)) (\<lambda>_. returnS found))"

text \<open>The part of \<^verbatim>\<open>resetPassword\<close> after the token was taken.\<close>

definition setNewPassword :: "AuthEnv \<Rightarrow> nat \<Rightarrow> string \<Rightarrow> int \<Rightarrow> unit auth" where
  "setNewPassword env userId newPassword now =
     bindS (getS (findUser userId)) (\<lambda>found.
     case found of
       None \<Rightarrow> throwS (OtherError InvalidPasswordResetToken)
     | Some user \<Rightarrow>
         bindS (guardS (usDeletedAt user \<noteq> None) (OtherError InvalidPasswordResetToken)) (\<lambda>_.
         bindS (hashPassword env newPassword) (\<lambda>passwordHash.
         bindS (repoChangePassword userId passwordHash ''auth.password_reset'') (\<lambda>_.
         bindS (revokeAllForUser userId now) (\<lambda>_.
         case usEmail user of
           None \<Rightarrow> returnS ()
         | Some e \<Rightarrow> putS (\<lambda>s. s\<lparr>adRate := resetKey (''login:email:'' @ e) (adRate s)\<rparr>))))))"

definition resetPassword :: "AuthEnv \<Rightarrow> string \<Rightarrow> string \<Rightarrow> RequestMeta \<Rightarrow> int \<Rightarrow> unit auth" where
  "resetPassword env token newPassword meta now =
     bindS (consumeS (''pwdreset:ip:'' @ ipOf meta) PASSWORD_RESET_LIMIT PASSWORD_RESET_WINDOW_SECONDS now) (\<lambda>d.
     bindS (guardS (\<not> rdAllowed d) (OtherError (TooManyAttempts (rdRetryAfterSeconds d)))) (\<lambda>_.
     bindS (guardS (token = '''') (OtherError InvalidPasswordResetToken)) (\<lambda>_.
     bindS (takeResetToken token now) (\<lambda>owner.
     case owner of
       None \<Rightarrow> throwS (OtherError InvalidPasswordResetToken)
     | Some userId \<Rightarrow> setNewPassword env userId newPassword now))))"

definition changePassword :: "AuthEnv \<Rightarrow> nat \<Rightarrow> string \<Rightarrow> string \<Rightarrow> int \<Rightarrow> unit auth" where
  "changePassword env userId currentPassword newPassword now =
     bindS (getS (findUser userId)) (\<lambda>found.
     case found of
       None \<Rightarrow> throwS (OtherError CurrentPasswordMismatch)
     | Some user \<Rightarrow> (case usPasswordHash user of
         None \<Rightarrow> throwS (OtherError CurrentPasswordMismatch)
       | Some currentHash \<Rightarrow>
           bindS (guardS (\<not> enVerify env currentHash currentPassword) (OtherError CurrentPasswordMismatch)) (\<lambda>_.
           bindS (hashPassword env newPassword) (\<lambda>passwordHash.
           bindS (repoChangePassword userId passwordHash ''auth.password_changed'') (\<lambda>_.
           bindS (revokeAllForUser userId now) (\<lambda>_. returnS ()))))))"

text \<open>What user administration does to an account (\<^verbatim>\<open>user-admin.repository.ts\<close>, \<^verbatim>\<open>setStatus\<close>), on the
  tables of this component.\<close>

definition setAccountStatus :: "nat \<Rightarrow> AccountStatus \<Rightarrow> nat \<Rightarrow> string \<Rightarrow> int \<Rightarrow> unit auth" where
  "setAccountStatus userId status actorUserId reason now = transaction (
     bindS (updateUser userId (\<lambda>u. u\<lparr>usStatus := status\<rparr>)) (\<lambda>_.
     bindS (if status \<noteq> ACTIVE then putS (revokeWhere (\<lambda>t. rtUserId t = userId) now) else returnS ()) (\<lambda>_.
     auditWriteTo adAudit_update
       (auditOf ''user.status_changed'' (showNat actorUserId) (showNat userId) '''' '''' (Some reason)))))"

section \<open>The endpoints of two-factor authentication\<close>

definition enrollEndpoint :: "AuthEnv \<Rightarrow> nat \<Rightarrow> int \<Rightarrow> string auth" where
  "enrollEndpoint env userId now =
     bindS (getS (findUser userId)) (\<lambda>found.
     bindS (guardS (found = None) (NotFoundError ''User'')) (\<lambda>_. enrollTotp env userId now))"

definition disableEndpoint :: "AuthEnv \<Rightarrow> nat \<Rightarrow> string \<Rightarrow> int \<Rightarrow> unit auth" where
  "disableEndpoint env userId code now =
     bindS (getS (findUser userId)) (\<lambda>found.
     case found of
       None \<Rightarrow> throwS (NotFoundError ''User'')
     | Some account \<Rightarrow> disableTotpFor env account code now)"

end
