(* ===== verification/AuthSessions.thy ===== *)
theory AuthSessions
  imports AuthService
begin

text \<open>
  Sessions over time. What any operation does to the refresh tokens is a sequence of moves:
  rows only wear out, and a new row is either the first of a family or the successor of the
  family's last live row. From this follow, for every sequence of requests, one live token per
  family, the death of a family after a replay, and the end of all sessions of a user.
\<close>

section \<open>Moves\<close>

definition tokenLive :: "RefreshToken \<Rightarrow> bool" where
  "tokenLive t \<longleftrightarrow> rtUsedAt t = None \<and> rtRevokedAt t = None"

definition worn :: "RefreshToken \<Rightarrow> RefreshToken \<Rightarrow> bool" where
  "worn t t' \<longleftrightarrow> rtId t' = rtId t \<and> rtUserId t' = rtUserId t \<and> rtTokenHash t' = rtTokenHash t \<and>
     rtFamilyId t' = rtFamilyId t \<and> rtExpiresAt t' = rtExpiresAt t \<and> (tokenLive t' \<longrightarrow> tokenLive t)"

definition newToken :: "AuthEnv \<Rightarrow> AuthDb \<Rightarrow> AuthDb \<Rightarrow> RefreshToken list \<Rightarrow> RefreshToken \<Rightarrow> bool" where
  "newToken env s t olds r \<longleftrightarrow>
     adNextId s \<le> rtId r \<and> rtId r < adNextId t \<and> rtTokenHash r = enSha256 env (enRandom env (rtId r)) \<and> tokenLive r \<and>
     (adNextId s \<le> rtFamilyId r \<and> rtFamilyId r < adNextId t \<or>
      (\<exists>p \<in> set (adTokens s). tokenLive p \<and> rtFamilyId p = rtFamilyId r \<and> rtUserId p = rtUserId r) \<and>
      (\<forall>x \<in> set olds. rtFamilyId x = rtFamilyId r \<longrightarrow> \<not> tokenLive x))"

definition tokenMove :: "AuthEnv \<Rightarrow> AuthDb \<Rightarrow> AuthDb \<Rightarrow> bool" where
  "tokenMove env s t \<longleftrightarrow> adNextId s \<le> adNextId t \<and>
     (\<exists>olds news. adTokens t = olds @ news \<and> list_all2 worn (adTokens s) olds \<and>
        (news = [] \<or> (\<exists>r. news = [r] \<and> newToken env s t olds r)))"

definition tokensOk :: "AuthEnv \<Rightarrow> AuthDb \<Rightarrow> bool" where
  "tokensOk env s \<longleftrightarrow>
     distinct (map rtId (adTokens s)) \<and>
     (\<forall>t \<in> set (adTokens s). rtId t < adNextId s \<and> rtFamilyId t < adNextId s \<and>
        rtTokenHash t = enSha256 env (enRandom env (rtId t))) \<and>
     (\<forall>t \<in> set (adTokens s). \<forall>u \<in> set (adTokens s). rtFamilyId t = rtFamilyId u \<longrightarrow>
        rtUserId t = rtUserId u \<and> (tokenLive t \<longrightarrow> tokenLive u \<longrightarrow> t = u))"

lemma worn_refl [simp]: "worn t t"
  by (simp add: worn_def)

lemma worn_trans: "worn a b \<Longrightarrow> worn b c \<Longrightarrow> worn a c"
  by (auto simp: worn_def)

lemma wornD: "worn t t' \<Longrightarrow> rtId t' = rtId t" "worn t t' \<Longrightarrow> rtUserId t' = rtUserId t"
  "worn t t' \<Longrightarrow> rtTokenHash t' = rtTokenHash t" "worn t t' \<Longrightarrow> rtFamilyId t' = rtFamilyId t"
  "worn t t' \<Longrightarrow> tokenLive t' \<Longrightarrow> tokenLive t"
  by (auto simp: worn_def)

lemma worn_list_refl [simp]: "list_all2 worn ts ts"
  by (simp add: list_all2_same)

lemma worn_map: "(\<And>t. worn t (f t)) \<Longrightarrow> list_all2 worn ts (map f ts)"
  by (simp add: list_all2_conv_all_nth)

lemma worn_ids: "list_all2 worn ts us \<Longrightarrow> map rtId us = map rtId ts"
  by (induction rule: list_all2_induct) (auto simp: worn_def)

lemma worn_back: "list_all2 worn ts us \<Longrightarrow> u \<in> set us \<Longrightarrow> \<exists>t \<in> set ts. worn t u"
  by (metis in_set_conv_nth list_all2_conv_all_nth)

lemma worn_forth: "list_all2 worn ts us \<Longrightarrow> t \<in> set ts \<Longrightarrow> \<exists>u \<in> set us. worn t u"
  by (metis in_set_conv_nth list_all2_conv_all_nth)

lemma worn_same:
  assumes "list_all2 worn ts us" "distinct (map rtId ts)" "t \<in> set ts" "u \<in> set us" "u' \<in> set us"
    "worn t u" "worn t u'"
  shows "u = u'"
proof -
  have "distinct (map rtId us)" using assms(1,2) by (simp add: worn_ids)
  then show ?thesis using assms(4-7) wornD(1) by (metis distinct_map inj_on_eq_iff)
qed

lemma tokensOkD:
  assumes "tokensOk env s"
  shows "distinct (map rtId (adTokens s))"
    and "t \<in> set (adTokens s) \<Longrightarrow> rtId t < adNextId s \<and> rtFamilyId t < adNextId s \<and>
      rtTokenHash t = enSha256 env (enRandom env (rtId t))"
    and "t \<in> set (adTokens s) \<Longrightarrow> u \<in> set (adTokens s) \<Longrightarrow> rtFamilyId t = rtFamilyId u \<Longrightarrow> rtUserId t = rtUserId u"
    and "t \<in> set (adTokens s) \<Longrightarrow> u \<in> set (adTokens s) \<Longrightarrow> rtFamilyId t = rtFamilyId u \<Longrightarrow>
      tokenLive t \<Longrightarrow> tokenLive u \<Longrightarrow> t = u"
  using assms unfolding tokensOk_def by (elim conjE, (assumption | blast)+)

lemma worn_pairs:
  assumes ok: "tokensOk env s" and w: "list_all2 worn (adTokens s) olds"
    and uv: "u \<in> set olds" "v \<in> set olds" "rtFamilyId u = rtFamilyId v"
  shows "rtUserId u = rtUserId v" and "tokenLive u \<Longrightarrow> tokenLive v \<Longrightarrow> u = v"
proof -
  obtain a where a: "a \<in> set (adTokens s)" "worn a u" using worn_back [OF w uv(1)] by blast
  obtain b where b: "b \<in> set (adTokens s)" "worn b v" using worn_back [OF w uv(2)] by blast
  have fam: "rtFamilyId a = rtFamilyId b" using wornD(4) [OF a(2)] wornD(4) [OF b(2)] uv(3) by simp
  show "rtUserId u = rtUserId v"
    using tokensOkD(3) [OF ok a(1) b(1) fam] wornD(2) [OF a(2)] wornD(2) [OF b(2)] by simp
  assume live: "tokenLive u" "tokenLive v"
  have "a = b" by (rule tokensOkD(4) [OF ok a(1) b(1) fam wornD(5) [OF a(2) live(1)] wornD(5) [OF b(2) live(2)]])
  then show "u = v" using worn_same [OF w tokensOkD(1) [OF ok] a(1) uv(1,2) a(2)] b(2) by simp
qed

lemma worn_bounds:
  assumes ok: "tokensOk env s" and w: "list_all2 worn (adTokens s) olds" and u: "u \<in> set olds"
  shows "rtId u < adNextId s \<and> rtFamilyId u < adNextId s \<and> rtTokenHash u = enSha256 env (enRandom env (rtId u))"
proof -
  obtain a where a: "a \<in> set (adTokens s)" "worn a u" using worn_back [OF w u] by blast
  show ?thesis using tokensOkD(2) [OF ok a(1)] wornD(1,3,4) [OF a(2)] by simp
qed

lemma newToken_successor:
  assumes "newToken env s t olds r" "rtFamilyId r < adNextId s"
  shows "\<exists>p \<in> set (adTokens s). tokenLive p \<and> rtFamilyId p = rtFamilyId r \<and> rtUserId p = rtUserId r"
    and "\<forall>x \<in> set olds. rtFamilyId x = rtFamilyId r \<longrightarrow> \<not> tokenLive x"
  using assms by (simp_all add: newToken_def)

lemma newToken_family:
  assumes "tokensOk env s" "adNextId s \<le> adNextId t" "newToken env s t olds r"
  shows "rtFamilyId r < adNextId t"
proof (cases "rtFamilyId r < adNextId s")
  case True
  then show ?thesis using assms(2) by simp
next
  case False
  then show ?thesis using assms(3) tokensOkD(2) [OF assms(1)] unfolding newToken_def by force
qed

lemma tokenMove_ok:
  assumes ok: "tokensOk env s" and m: "tokenMove env s t"
  shows "tokensOk env t"
proof -
  obtain olds news where t: "adTokens t = olds @ news" and w: "list_all2 worn (adTokens s) olds"
    and news: "news = [] \<or> (\<exists>r. news = [r] \<and> newToken env s t olds r)" and grows: "adNextId s \<le> adNextId t"
    using m unfolding tokenMove_def by (elim conjE exE) (rule that, assumption+)
  note old = worn_bounds [OF ok w]
  note pairs = worn_pairs [OF ok w]
  have d: "distinct (map rtId olds)" using tokensOkD(1) [OF ok] by (simp add: worn_ids [OF w])
  show ?thesis
  proof (cases "news = []")
    case True
    have "\<forall>u \<in> set olds. rtId u < adNextId t \<and> rtFamilyId u < adNextId t \<and> rtTokenHash u = enSha256 env (enRandom env (rtId u))"
      using old grows by fastforce
    moreover have "\<forall>u \<in> set olds. \<forall>v \<in> set olds. rtFamilyId u = rtFamilyId v \<longrightarrow>
        rtUserId u = rtUserId v \<and> (tokenLive u \<longrightarrow> tokenLive v \<longrightarrow> u = v)"
      using pairs by blast
    ultimately show ?thesis using d unfolding tokensOk_def t True append_Nil2 by blast
  next
    case False
    then obtain r where r: "news = [r]" "newToken env s t olds r" using news by blast
    have rb: "adNextId s \<le> rtId r" "rtId r < adNextId t" "rtTokenHash r = enSha256 env (enRandom env (rtId r))"
      using r(2) by (simp_all add: newToken_def)
    have fam: "rtUserId u = rtUserId r \<and> \<not> tokenLive u" if u: "u \<in> set olds" "rtFamilyId u = rtFamilyId r" for u
    proof -
      have f: "rtFamilyId r < adNextId s" using old [OF u(1)] u(2) by simp
      obtain p where p: "p \<in> set (adTokens s)" "rtFamilyId p = rtFamilyId r" "rtUserId p = rtUserId r"
        using newToken_successor(1) [OF r(2) f] by blast
      obtain x where x: "x \<in> set olds" "worn p x" using worn_forth [OF w p(1)] by blast
      have "rtFamilyId u = rtFamilyId x" using wornD(4) [OF x(2)] p(2) u(2) by simp
      then have "rtUserId u = rtUserId r" using pairs(1) [OF u(1) x(1)] wornD(2) [OF x(2)] p(3) by simp
      then show ?thesis using newToken_successor(2) [OF r(2) f] u by simp
    qed
    note bounds = newToken_family [OF ok grows r(2)]
    have "\<forall>u \<in> set olds. rtId u < adNextId t \<and> rtFamilyId u < adNextId t \<and>
        rtTokenHash u = enSha256 env (enRandom env (rtId u))"
      using old grows by fastforce
    then have "\<forall>u \<in> set (adTokens t). rtId u < adNextId t \<and> rtFamilyId u < adNextId t \<and>
        rtTokenHash u = enSha256 env (enRandom env (rtId u))"
      using rb bounds by (simp add: t r(1))
    moreover have "\<forall>u \<in> set (adTokens t). \<forall>v \<in> set (adTokens t). rtFamilyId u = rtFamilyId v \<longrightarrow>
        rtUserId u = rtUserId v \<and> (tokenLive u \<longrightarrow> tokenLive v \<longrightarrow> u = v)"
    proof (intro ballI impI)
      fix u v assume uv: "u \<in> set (adTokens t)" "v \<in> set (adTokens t)" "rtFamilyId u = rtFamilyId v"
      then consider "u \<in> set olds" "v \<in> set olds" | "u \<in> set olds" "v = r" | "u = r" "v \<in> set olds" | "u = r" "v = r"
        by (auto simp: t r(1))
      then show "rtUserId u = rtUserId v \<and> (tokenLive u \<longrightarrow> tokenLive v \<longrightarrow> u = v)"
        using uv(3) pairs [of u v] fam [of u] fam [of v] by cases simp_all
    qed
    moreover have "distinct (map rtId (adTokens t))"
    proof -
      have "rtId r \<notin> rtId ` set olds" using rb(1) old by fastforce
      then show ?thesis using d by (simp add: t r(1))
    qed
    ultimately show ?thesis unfolding tokensOk_def by blast
  qed
qed

text \<open>A dead row stays dead, and so does a family without a live row.\<close>

definition familyDead :: "nat \<Rightarrow> AuthDb \<Rightarrow> bool" where
  "familyDead f s \<longleftrightarrow> f < adNextId s \<and> (\<forall>t \<in> set (adTokens s). rtFamilyId t = f \<longrightarrow> \<not> tokenLive t)"

definition rowDead :: "RefreshToken \<Rightarrow> AuthDb \<Rightarrow> bool" where
  "rowDead x s \<longleftrightarrow> (\<exists>y \<in> set (adTokens s). rtId y = rtId x \<and> rtTokenHash y = rtTokenHash x \<and> \<not> tokenLive y)"

lemma rowDead_move: "tokenMove env s t \<Longrightarrow> rowDead x s \<Longrightarrow> rowDead x t"
proof -
  assume m: "tokenMove env s t" and "rowDead x s"
  then obtain y where y: "y \<in> set (adTokens s)" "rtId y = rtId x" "rtTokenHash y = rtTokenHash x" "\<not> tokenLive y"
    by (auto simp: rowDead_def)
  obtain olds news where t: "adTokens t = olds @ news" and w: "list_all2 worn (adTokens s) olds"
    using m by (auto simp: tokenMove_def)
  obtain z where z: "z \<in> set olds" "worn y z" using worn_forth [OF w y(1)] by blast
  show ?thesis unfolding rowDead_def
    using z y wornD(1,3,5) [OF z(2)] by (intro bexI [of _ z]) (auto simp: t)
qed

lemma familyDead_move: "tokenMove env s t \<Longrightarrow> familyDead f s \<Longrightarrow> familyDead f t"
proof -
  assume m: "tokenMove env s t" and dead: "familyDead f s"
  obtain olds news where t: "adTokens t = olds @ news" and w: "list_all2 worn (adTokens s) olds"
    and news: "news = [] \<or> (\<exists>r. news = [r] \<and> newToken env s t olds r)" and grows: "adNextId s \<le> adNextId t"
    using m unfolding tokenMove_def by (elim conjE exE) (rule that, assumption+)
  have old: "\<not> tokenLive u" if u: "u \<in> set olds" "rtFamilyId u = f" for u
  proof -
    obtain a where a: "a \<in> set (adTokens s)" "worn a u" using worn_back [OF w u(1)] by blast
    then show ?thesis using dead wornD(4,5) [OF a(2)] u(2) by (auto simp: familyDead_def)
  qed
  have no: "rtFamilyId r \<noteq> f" if r: "newToken env s t olds r" for r
  proof
    assume f: "rtFamilyId r = f"
    then have "rtFamilyId r < adNextId s" using dead by (simp add: familyDead_def)
    then show False using newToken_successor(1) [OF r] dead f by (auto simp: familyDead_def)
  qed
  have "\<not> tokenLive u" if u: "u \<in> set (adTokens t)" "rtFamilyId u = f" for u
  proof (cases "u \<in> set olds")
    case True
    then show ?thesis using old u(2) by simp
  next
    case False
    then have "newToken env s t olds u" using u(1) news by (auto simp: t)
    then show ?thesis using no u(2) by blast
  qed
  then show ?thesis using dead grows by (simp add: familyDead_def)
qed

section \<open>Every operation is a sequence of moves\<close>

abbreviation tokenMoves :: "AuthEnv \<Rightarrow> AuthDb \<Rightarrow> AuthDb \<Rightarrow> bool" where
  "tokenMoves env \<equiv> (tokenMove env)\<^sup>*\<^sup>*"

definition movesTokens :: "AuthEnv \<Rightarrow> 'a auth \<Rightarrow> bool" where
  "movesTokens env m \<longleftrightarrow> (\<forall>s. tokensOk env s \<longrightarrow> tokenMoves env s (snd (m s)))"

named_theorems moves_intros "operations that move tokens lawfully"

lemma tokenMoves_ok: "tokenMoves env s t \<Longrightarrow> tokensOk env s \<Longrightarrow> tokensOk env t"
  by (induction rule: rtranclp_induct) (auto intro: tokenMove_ok)

lemma rowDead_moves: "tokenMoves env s t \<Longrightarrow> rowDead x s \<Longrightarrow> rowDead x t"
  by (induction rule: rtranclp_induct) (auto intro: rowDead_move)

lemma familyDead_moves: "tokenMoves env s t \<Longrightarrow> familyDead f s \<Longrightarrow> familyDead f t"
  by (induction rule: rtranclp_induct) (auto intro: familyDead_move)

lemma tokenMove_idle: "adTokens t = adTokens s \<Longrightarrow> adNextId s \<le> adNextId t \<Longrightarrow> tokenMove env s t"
  unfolding tokenMove_def by (intro conjI exI [of _ "adTokens s"] exI [of _ "[]"]) simp_all

lemma tokenMove_wear:
  "adTokens t = map f (adTokens s) \<Longrightarrow> (\<And>x. worn x (f x)) \<Longrightarrow> adNextId s \<le> adNextId t \<Longrightarrow> tokenMove env s t"
  by (auto simp: tokenMove_def intro: worn_map)

lemma tokenMove_new:
  "adTokens t = olds @ [r] \<Longrightarrow> list_all2 worn (adTokens s) olds \<Longrightarrow> newToken env s t olds r \<Longrightarrow>
   adNextId s \<le> adNextId t \<Longrightarrow> tokenMove env s t"
  unfolding tokenMove_def by (intro conjI exI [of _ olds] exI [of _ "[r]"]) simp_all

lemma moves_basic [moves_intros]:
  "movesTokens env (returnS x)" "movesTokens env (throwS e)" "movesTokens env (getS g)" "movesTokens env (guardS c e)"
  by (simp_all add: movesTokens_def)

lemma moves_put [moves_intros]:
  "(\<And>s. adTokens (h s) = adTokens s) \<Longrightarrow> (\<And>s. adNextId s \<le> adNextId (h s)) \<Longrightarrow> movesTokens env (putS h)"
  by (auto simp: movesTokens_def intro!: r_into_rtranclp tokenMove_idle)

lemma moves_bind [moves_intros]:
  assumes "movesTokens env m" "\<And>x. movesTokens env (k x)"
  shows "movesTokens env (bindS m k)"
  unfolding movesTokens_def
proof (intro allI impI)
  fix s assume ok: "tokensOk env s"
  obtain r s1 where m: "m s = (r, s1)" by (cases "m s")
  have s1: "tokenMoves env s s1" using assms(1) ok m by (auto simp: movesTokens_def)
  have "\<And>x. tokenMoves env s1 (snd (k x s1))"
    using assms(2) tokenMoves_ok [OF s1 ok] by (simp add: movesTokens_def)
  then show "tokenMoves env s (snd (bindS m k s))"
    using s1 m by (cases r) (auto simp: bindS_def intro: rtranclp_trans)
qed

lemma moves_transaction [moves_intros]: "movesTokens env m \<Longrightarrow> movesTokens env (transaction m)"
  by (auto simp: movesTokens_def transaction_def case_prod_unfold split: sum.splits)

lemma moves_cases [moves_intros]:
  "(c \<Longrightarrow> movesTokens env m) \<Longrightarrow> (\<not> c \<Longrightarrow> movesTokens env m') \<Longrightarrow> movesTokens env (if c then m else m')"
  "movesTokens env n \<Longrightarrow> (\<And>y. movesTokens env (k y)) \<Longrightarrow>
     movesTokens env (case x of None \<Rightarrow> n | Some y \<Rightarrow> k y)"
  by (auto split: option.splits)

lemma moves_leaf [moves_intros]:
  "movesTokens env freshNumber" "movesTokens env (updateUser i f)" "movesTokens env (authAudit act u res)"
  "movesTokens env (consumeS key limit ws now)" "movesTokens env (markCodeUsed u code now)"
  "movesTokens env (sendMail env' to key token)" "movesTokens env (hashPassword env' pw)"
  "movesTokens env (bothAllowed a b)"
proof -
  show fresh: "movesTokens env freshNumber"
    by (auto simp: movesTokens_def freshNumber_def bindS_def intro!: r_into_rtranclp tokenMove_idle)
  show "movesTokens env (consumeS key limit ws now)"
    by (auto simp: movesTokens_def consumeS_def case_prod_unfold Let_def intro!: r_into_rtranclp tokenMove_idle)
  show "movesTokens env (updateUser i f)" "movesTokens env (authAudit act u res)"
    unfolding updateUser_def authAudit_def auditWriteTo_def by (intro moves_intros; simp)+
  show "movesTokens env (markCodeUsed u code now)" "movesTokens env (sendMail env' to key token)"
    unfolding markCodeUsed_def sendMail_def by (intro moves_intros; simp)+
  show "movesTokens env (hashPassword env' pw)" "movesTokens env (bothAllowed a b)"
    unfolding hashPassword_def bothAllowed_def by (intro moves_intros fresh; simp)+
qed

lemma worn_revoked: "worn x (if P x \<and> rtRevokedAt x = None then x\<lparr>rtRevokedAt := Some now\<rparr> else x)"
  by (simp add: worn_def tokenLive_def)

lemma worn_used: "worn x (if P x then x\<lparr>rtUsedAt := Some now, rtRevokedAt := Some now\<rparr> else x)"
  by (simp add: worn_def tokenLive_def)

lemma moves_revoke [moves_intros]: "movesTokens env (putS (revokeWhere P now))"
proof -
  have "tokenMove env s (revokeWhere P now s)" for s
    by (rule tokenMove_wear [where f = "\<lambda>x. if P x \<and> rtRevokedAt x = None then x\<lparr>rtRevokedAt := Some now\<rparr> else x"])
       (simp_all add: revokeWhere_def worn_revoked)
  then show ?thesis by (auto simp: movesTokens_def)
qed

lemma moves_repository [moves_intros]:
  "movesTokens env (revokeFamily f now)" "movesTokens env (revokeAllForUser u now)"
  "movesTokens env (createWithPlayer email h locale)" "movesTokens env (updatePasswordHash i h)"
  "movesTokens env (repoChangePassword i h act)" "movesTokens env (recordLogin i now)"
  "movesTokens env (recordLoginFailed i)" "movesTokens env (markEmailVerified i)"
  "movesTokens env (enableTotp i h codes)" "movesTokens env (disableTotp i)" "movesTokens env (replaceBackupCodes i codes)"
  unfolding revokeFamily_def revokeAllForUser_def createWithPlayer_def updatePasswordHash_def repoChangePassword_def
    recordLogin_def recordLoginFailed_def markEmailVerified_def enableTotp_def disableTotp_def replaceBackupCodes_def Let_def
  by (intro moves_intros; simp)+

lemma persistToken_eval:
  "persistToken env u f now s =
     (let n = adNextId s; h = enSha256 env (enRandom env n); s' = s\<lparr>adNextId := Suc n\<rparr>
      in if findToken h s \<noteq> None then (Inl (OtherError (UniqueViolation ''RefreshToken.tokenHash'')), s')
         else (Inr \<lparr>irToken = enRandom env n, irUserId = u, irFamilyId = f, irExpiresAt = now + REFRESH_TTL_MS\<rparr>,
           s'\<lparr>adTokens := adTokens s @ [\<lparr>rtId = n, rtUserId = u, rtTokenHash = h, rtFamilyId = f, rtUsedAt = None,
             rtRevokedAt = None, rtExpiresAt = now + REFRESH_TTL_MS\<rparr>]\<rparr>))"
  by (simp add: persistToken_def freshNumber_def bindS_def Let_def findToken_def)

lemma moves_issue [moves_intros]: "movesTokens env (issueNewFamily env u now)"
proof -
  have "tokenMove env s (snd (issueNewFamily env u now s))" for s
  proof (cases "findToken (enSha256 env (enRandom env (Suc (adNextId s)))) s = None")
    case True
    then show ?thesis
      by (intro tokenMove_new [of _ "adTokens s"])
         (auto simp: issueNewFamily_def persistToken_eval freshNumber_def bindS_def findToken_def newToken_def tokenLive_def Let_def)
  next
    case False
    then show ?thesis
      by (intro tokenMove_idle)
         (auto simp: issueNewFamily_def persistToken_eval freshNumber_def bindS_def findToken_def Let_def)
  qed
  then show ?thesis by (auto simp: movesTokens_def)
qed

section \<open>Rotation\<close>

definition used :: "nat \<Rightarrow> int \<Rightarrow> RefreshToken \<Rightarrow> RefreshToken" where
  "used i now t = (if rtId t = i \<and> rtUsedAt t = None then t\<lparr>rtUsedAt := Some now, rtRevokedAt := Some now\<rparr> else t)"

definition rotatedTo :: "AuthEnv \<Rightarrow> RefreshToken \<Rightarrow> int \<Rightarrow> AuthDb \<Rightarrow> RefreshToken" where
  "rotatedTo env x now s = \<lparr>rtId = adNextId s, rtUserId = rtUserId x,
     rtTokenHash = enSha256 env (enRandom env (adNextId s)), rtFamilyId = rtFamilyId x, rtUsedAt = None,
     rtRevokedAt = None, rtExpiresAt = now + REFRESH_TTL_MS\<rparr>"

lemma findToken_Some_D: "findToken h s = Some x \<Longrightarrow> x \<in> set (adTokens s) \<and> rtTokenHash x = h"
  by (auto simp: findToken_def find_Some_iff)

lemma one_unused:
  assumes "distinct (map rtId ts)" "x \<in> set ts" "rtUsedAt x = None"
  shows "length (filter (\<lambda>t. rtId t = rtId x \<and> rtUsedAt t = None) ts) = 1"
  using assms
proof (induction ts)
  case (Cons t ts)
  show ?case
  proof (cases "t = x")
    case True
    then have "\<forall>u \<in> set ts. rtId u \<noteq> rtId x" using Cons.prems(1) by (simp add: image_iff) metis
    then have "filter (\<lambda>u. rtId u = rtId x \<and> rtUsedAt u = None) ts = []" by (simp add: filter_empty_conv)
    then show ?thesis using True Cons.prems(3) by simp
  next
    case False
    then have "rtId t \<noteq> rtId x" using Cons.prems by auto
    then show ?thesis using Cons False by simp
  qed
qed simp

lemma rotate_replay:
  assumes "findToken (enSha256 env raw) s = Some x" "\<not> tokenLive x"
  shows "\<exists>t. rotateOutcome env raw now s = (Inr (Reuse (rtUserId x) (rtFamilyId x)), t) \<and>
    adTokens t = adTokens (revokeWhere (\<lambda>t. rtFamilyId t = rtFamilyId x) now s) \<and> adNextId t = adNextId s"
  using assms
  by (auto simp: rotateOutcome_def transaction_def bindS_def tokenLive_def revokeFamily_def authAudit_def auditWriteTo_def
      auditOf_def REASON_REQUIRED_def revokeWhere_def)

lemma rotate_live:
  assumes ok: "tokensOk env s" and f: "findToken (enSha256 env raw) s = Some x" and live: "tokenLive x"
    and e: "\<not> rtExpiresAt x < now"
  shows "(\<exists>err. rotateOutcome env raw now s = (Inl err, s)) \<or>
    (\<exists>t. rotateOutcome env raw now s = (Inr (Rotated \<lparr>irToken = enRandom env (adNextId s), irUserId = rtUserId x,
        irFamilyId = rtFamilyId x, irExpiresAt = now + REFRESH_TTL_MS\<rparr>), t) \<and>
      adTokens t = map (used (rtId x) now) (adTokens s) @ [rotatedTo env x now s] \<and> adNextId t = Suc (adNextId s))"
proof -
  have x: "x \<in> set (adTokens s)" using findToken_Some_D [OF f] by simp
  have n: "length (filter (\<lambda>t. rtId t = rtId x \<and> rtUsedAt t = None) (adTokens s)) = 1"
    using live by (intro one_unused [OF tokensOkD(1) [OF ok] x]) (simp add: tokenLive_def)
  show ?thesis
    using f live e n
    by (simp add: rotateOutcome_def transaction_def bindS_def tokenLive_def markUsed_def persistToken_eval Let_def
        used_def[abs_def] rotatedTo_def)
qed

lemma rotate_live_move:
  assumes ok: "tokensOk env s" and x: "x \<in> set (adTokens s)" "tokenLive x"
    and t: "adTokens t = map (used (rtId x) now) (adTokens s) @ [rotatedTo env x now s]" "adNextId t = Suc (adNextId s)"
  shows "tokenMove env s t"
proof (rule tokenMove_new [OF t(1)])
  show "list_all2 worn (adTokens s) (map (used (rtId x) now) (adTokens s))"
    by (rule worn_map) (simp add: used_def worn_def tokenLive_def)
  have dead: "\<not> tokenLive (used (rtId x) now y)" if y: "y \<in> set (adTokens s)" "rtFamilyId y = rtFamilyId x" for y
  proof
    assume live: "tokenLive (used (rtId x) now y)"
    then have "tokenLive y" by (auto simp: used_def tokenLive_def split: if_splits)
    then have "y = x" using tokensOkD(4) [OF ok y(1) x(1) y(2)] x(2) by simp
    then show False using live x(2) by (simp add: used_def tokenLive_def)
  qed
  have fam: "rtFamilyId (used i now y) = rtFamilyId y" for i y by (simp add: used_def)
  have "(\<exists>p \<in> set (adTokens s). tokenLive p \<and> rtFamilyId p = rtFamilyId x \<and> rtUserId p = rtUserId x) \<and>
    (\<forall>y \<in> set (map (used (rtId x) now) (adTokens s)). rtFamilyId y = rtFamilyId x \<longrightarrow> \<not> tokenLive y)"
    using x dead fam by auto
  then show "newToken env s t (map (used (rtId x) now) (adTokens s)) (rotatedTo env x now s)"
    unfolding newToken_def using t(2) by (simp add: rotatedTo_def tokenLive_def)
qed (simp add: t(2))

lemma moves_rotate [moves_intros]: "movesTokens env (rotateOutcome env raw now)"
  unfolding movesTokens_def
proof (intro allI impI)
  fix s assume ok: "tokensOk env s"
  show "tokenMoves env s (snd (rotateOutcome env raw now s))"
  proof (cases "findToken (enSha256 env raw) s")
    case None
    then show ?thesis by (simp add: rotateOutcome_def transaction_def bindS_def)
  next
    case (Some x)
    note xin = findToken_Some_D [OF Some, THEN conjunct1]
    show ?thesis
    proof (cases "tokenLive x")
      case False
      obtain t where t: "rotateOutcome env raw now s = (Inr (Reuse (rtUserId x) (rtFamilyId x)), t)"
        "adTokens t = adTokens (revokeWhere (\<lambda>t. rtFamilyId t = rtFamilyId x) now s)" "adNextId t = adNextId s"
        using rotate_replay [OF Some False] by blast
      have "tokenMove env s t"
        by (rule tokenMove_wear [where f = "\<lambda>y. if rtFamilyId y = rtFamilyId x \<and> rtRevokedAt y = None
              then y\<lparr>rtRevokedAt := Some now\<rparr> else y"])
           (auto simp: t revokeWhere_def worn_def tokenLive_def)
      then show ?thesis using t by auto
    next
      case True
      show ?thesis
      proof (cases "rtExpiresAt x < now")
        case True
        then show ?thesis using Some \<open>tokenLive x\<close>
          by (simp add: rotateOutcome_def transaction_def bindS_def tokenLive_def)
      next
        case False
        then show ?thesis
          using rotate_live [OF ok Some True False] rotate_live_move [OF ok xin True] by force
      qed
    qed
  qed
qed

section \<open>Requests\<close>

lemma moves_outcome [moves_intros]: "movesTokens env (rotate_token env raw now)"
  unfolding rotate_token_def
proof (intro moves_bind moves_rotate)
  fix out show "movesTokens env (case out of Rotated issued \<Rightarrow> returnS issued
     | Invalid \<Rightarrow> throwS (OtherError (Unauthorized ''Invalid refresh token''))
     | Expired \<Rightarrow> throwS (OtherError (Unauthorized ''Refresh token expired''))
     | Reuse u f \<Rightarrow> throwS (OtherError (Unauthorized ''Token reuse detected. Please sign in again.'')))"
    by (cases out) (simp_all add: moves_basic)
qed

lemma moves_codes [moves_intros]: "movesTokens env (freshCodes env' k)"
proof (induction k)
  case 0
  show ?case unfolding freshCodes.simps by (rule moves_basic)
next
  case (Suc k)
  then show ?case unfolding freshCodes.simps by (intro moves_intros)
qed

lemma moves_mfa [moves_intros]:
  "movesTokens env (verifyTotp env' user code now)" "movesTokens env (disableTotpFor env' user code now)"
  "movesTokens env (enrollTotp env' u now)" "movesTokens env (activateTotp env' u code now)"
  unfolding verifyTotp_def disableTotpFor_def enrollTotp_def activateTotp_def verifyBackupCode_def requireBox_def Let_def
  by (intro moves_intros; simp)+

lemma moves_password [moves_intros]: "movesTokens env (checkPassword env' found pw)"
  unfolding checkPassword_def by (intro moves_intros)

lemma moves_split [moves_intros]: "(\<And>a b. movesTokens env (k a b)) \<Longrightarrow> movesTokens env (case p of (a, b) \<Rightarrow> k a b)"
  by (cases p) simp

lemma moves_parts [moves_intros]:
  "movesTokens env (issueTokens env u now)" "movesTokens env (sendEmailVerification env' u email now)"
  "movesTokens env (checkSecondFactor env' user totp now)" "movesTokens env (rehashIfNeeded env' u h pw)"
  "movesTokens env (takeResetToken token now)" "movesTokens env (setNewPassword env' u new now)"
  unfolding setNewPassword_def issueTokens_def sendEmailVerification_def checkSecondFactor_def rehashIfNeeded_def takeResetToken_def Let_def
  by (intro moves_intros; simp)+

lemma moves_accept [moves_intros]: "movesTokens env (acceptCredentials env' email pw totp now)"
  unfolding acceptCredentials_def by (intro moves_intros)

lemma moves_services:
  "movesTokens env (register_user env email pw locale meta now)"
  "movesTokens env (login env email pw totp meta now)"
  "movesTokens env (refresh env raw now)" "movesTokens env (logout env' raw now)"
  "movesTokens env (logoutAll u now)" "movesTokens env (verifyEmail token now)"
  "movesTokens env (requestPasswordReset env' email meta now)"
  "movesTokens env (resetPassword env' token new meta now)"
  "movesTokens env (changePassword env' u cur new now)"
  "movesTokens env (setAccountStatus u st actor why now)"
  "movesTokens env (enrollEndpoint env' u now)" "movesTokens env (disableEndpoint env' u code now)"
  unfolding register_user_def login_def refresh_def logout_def revokeByToken_def logoutAll_def verifyEmail_def
    requestPasswordReset_def resetPassword_def changePassword_def setAccountStatus_def auditWriteTo_def
    enrollEndpoint_def disableEndpoint_def Let_def
  by (intro moves_intros; simp)+

text \<open>A request, and a sequence of requests.\<close>

datatype AuthRequest =
    Register string string "string option" RequestMeta int
  | Login string string "string option" RequestMeta int
  | RefreshSession string int
  | Logout string int
  | LogoutAll nat int
  | VerifyEmail string int
  | ForgotPassword string RequestMeta int
  | ResetPassword string string RequestMeta int
  | ChangePassword nat string string int
  | EnrollTotp nat int
  | ActivateTotp nat string int
  | DisableTotp nat string int
  | SetStatus nat AccountStatus nat string int

fun serveAuth :: "AuthEnv \<Rightarrow> AuthRequest \<Rightarrow> AuthDb \<Rightarrow> AuthDb" where
  "serveAuth env (Register email pw locale meta now) s = snd (register_user env email pw locale meta now s)"
| "serveAuth env (Login email pw totp meta now) s = snd (login env email pw totp meta now s)"
| "serveAuth env (RefreshSession raw now) s = snd (refresh env raw now s)"
| "serveAuth env (Logout raw now) s = snd (logout env raw now s)"
| "serveAuth env (LogoutAll u now) s = snd (logoutAll u now s)"
| "serveAuth env (VerifyEmail token now) s = snd (verifyEmail token now s)"
| "serveAuth env (ForgotPassword email meta now) s = snd (requestPasswordReset env email meta now s)"
| "serveAuth env (ResetPassword token new meta now) s = snd (resetPassword env token new meta now s)"
| "serveAuth env (ChangePassword u cur new now) s = snd (changePassword env u cur new now s)"
| "serveAuth env (EnrollTotp u now) s = snd (enrollEndpoint env u now s)"
| "serveAuth env (ActivateTotp u code now) s = snd (activateTotp env u code now s)"
| "serveAuth env (DisableTotp u code now) s = snd (disableEndpoint env u code now s)"
| "serveAuth env (SetStatus u st actor why now) s = snd (setAccountStatus u st actor why now s)"

definition runAuth :: "AuthEnv \<Rightarrow> AuthRequest list \<Rightarrow> AuthDb \<Rightarrow> AuthDb" where
  "runAuth env = fold (serveAuth env)"

definition noAccounts :: AuthDb where
  "noAccounts = \<lparr>adUsers = [], adTokens = [], adAudit = [], adRate = noLimits, adVerify = [], adReset = [],
     adTotpUsed = [], adTotpPending = [], adMails = [], adNextId = 0\<rparr>"

lemma serveAuth_moves: "tokensOk env s \<Longrightarrow> tokenMoves env s (serveAuth env q s)"
  by (cases q) (use moves_services moves_mfa in \<open>auto simp: movesTokens_def\<close>)

lemma runAuth_moves: "tokensOk env s \<Longrightarrow> tokenMoves env s (runAuth env qs s)"
proof (induction qs arbitrary: s)
  case (Cons q qs)
  have m: "tokenMoves env s (serveAuth env q s)" by (rule serveAuth_moves [OF Cons.prems])
  then show ?case using Cons.IH [OF tokenMoves_ok [OF m Cons.prems]] by (auto simp: runAuth_def intro: rtranclp_trans)
qed (simp add: runAuth_def)

lemma runAuth_ok: "tokensOk env (runAuth env qs noAccounts)"
proof -
  have "tokensOk env noAccounts" by (simp add: tokensOk_def noAccounts_def)
  then show ?thesis using runAuth_moves tokenMoves_ok by blast
qed

section \<open>Properties\<close>

definition reuseDetected :: "AuthError DomainError" where
  "reuseDetected = OtherError (Unauthorized ''Token reuse detected. Please sign in again.'')"

text \<open>The raw tokens are random, and the hash tells them apart.\<close>

definition tokensDiffer :: "AuthEnv \<Rightarrow> bool" where
  "tokensDiffer env \<longleftrightarrow> inj (\<lambda>n. enSha256 env (enRandom env n))"

lemma moves_row: "tokenMoves env s t \<Longrightarrow> x \<in> set (adTokens s) \<Longrightarrow> \<exists>y \<in> set (adTokens t). worn x y"
proof (induction rule: rtranclp_induct)
  case base
  then show ?case by (intro bexI [of _ x]) auto
next
  case (step t u)
  then obtain y where y: "y \<in> set (adTokens t)" "worn x y" by blast
  obtain olds news where t: "adTokens u = olds @ news" and w: "list_all2 worn (adTokens t) olds"
    using step.hyps(2) unfolding tokenMove_def by (elim conjE exE) (rule that, assumption+)
  then obtain z where "z \<in> set olds" "worn y z" using worn_forth [OF w y(1)] by blast
  then show ?case using worn_trans [OF y(2)] t by (intro bexI [of _ z]) auto
qed

lemma refresh_dead_found:
  "findToken (enSha256 env raw) s = Some x \<Longrightarrow> \<not> tokenLive x \<Longrightarrow> fst (refresh env raw now s) = Inl reuseDetected"
  using rotate_replay [of env raw s x now]
  by (auto simp: refresh_def rotate_token_def bindS_def reuseDetected_def)

lemma refresh_dead:
  assumes ok: "tokensOk env s" and inj: "tokensDiffer env" and dead: "rowDead x s" and h: "enSha256 env raw = rtTokenHash x"
  shows "fst (refresh env raw now s) = Inl reuseDetected"
proof -
  obtain y where y: "y \<in> set (adTokens s)" "rtTokenHash y = rtTokenHash x" "\<not> tokenLive y"
    using dead by (auto simp: rowDead_def)
  have "findToken (enSha256 env raw) s \<noteq> None"
    using y h by (auto simp: findToken_def find_None_iff)
  then obtain z where z: "findToken (enSha256 env raw) s = Some z" by auto
  note zin = findToken_Some_D [OF z]
  have "enSha256 env (enRandom env (rtId z)) = enSha256 env (enRandom env (rtId y))"
    using tokensOkD(2) [OF ok y(1)] tokensOkD(2) [OF ok zin [THEN conjunct1]] zin y(2) h by simp
  then have "rtId z = rtId y" using inj injD unfolding tokensDiffer_def by fastforce
  then have "z = y" using tokensOkD(1) [OF ok] y(1) zin by (metis distinct_map inj_on_eq_iff)
  then show ?thesis using refresh_dead_found [OF z] y(3) by simp
qed

lemma refresh_dead_later:
  assumes "tokensOk env t" "tokensDiffer env" "rowDead x t" "enSha256 env raw = rtTokenHash x"
  shows "fst (refresh env raw now (runAuth env qs t)) = Inl reuseDetected"
  using runAuth_moves [OF assms(1)] assms
  by (intro refresh_dead [where x = x]) (blast intro: tokenMoves_ok rowDead_moves)+

text \<open>
  C25. A stolen refresh token does not survive its reuse: when a token that was rotated or
  revoked is presented again, the request is refused, and from then on, whatever requests
  follow, no token of its family is live, so the thief and the owner are both out.
\<close>

theorem replay_kills_family:
  assumes "s = runAuth env qs noAccounts" "findToken (enSha256 env raw) s = Some x" "\<not> tokenLive x"
  shows "fst (refresh env raw now s) = Inl reuseDetected \<and>
    (\<forall>y \<in> set (adTokens (runAuth env qs' (serveAuth env (RefreshSession raw now) s))).
       rtFamilyId y = rtFamilyId x \<longrightarrow> \<not> tokenLive y)"
proof -
  let ?t = "serveAuth env (RefreshSession raw now) s"
  have ok: "tokensOk env s" using runAuth_ok assms(1) by simp
  obtain t where t: "rotateOutcome env raw now s = (Inr (Reuse (rtUserId x) (rtFamilyId x)), t)"
    "adTokens t = adTokens (revokeWhere (\<lambda>t. rtFamilyId t = rtFamilyId x) now s)" "adNextId t = adNextId s"
    using rotate_replay [OF assms(2,3)] by blast
  have eq: "?t = t" using t(1) by (simp add: refresh_def rotate_token_def bindS_def)
  have "rtFamilyId x < adNextId s" using tokensOkD(2) [OF ok] findToken_Some_D [OF assms(2)] by simp
  then have "familyDead (rtFamilyId x) ?t"
    unfolding eq familyDead_def using t(2,3) by (auto simp: revokeWhere_def tokenLive_def)
  moreover have "tokenMoves env ?t (runAuth env qs' ?t)"
    by (rule runAuth_moves [OF tokenMoves_ok [OF serveAuth_moves [OF ok] ok]])
  ultimately have "familyDead (rtFamilyId x) (runAuth env qs' ?t)" by (rule familyDead_moves [rotated])
  then show ?thesis using refresh_dead_found [OF assms(2,3)] by (simp add: familyDead_def)
qed

text \<open>
  A refresh token works once: a successful refresh was made with a live, unexpired row and
  continues its session for the same user, the token it hands out is the only live one of the
  family, and the old token is refused for ever after.
\<close>

theorem refresh_rotates:
  assumes "tokensDiffer env" "s = runAuth env qs noAccounts" "refresh env raw now s = (Inr r, t)"
  shows "\<exists>x \<in> set (adTokens s). rtTokenHash x = enSha256 env raw \<and> tokenLive x \<and> now \<le> rtExpiresAt x \<and>
    atUserId r = rtUserId x \<and> atSessionId r = rtFamilyId x \<and>
    (\<forall>y \<in> set (adTokens t). rtFamilyId y = rtFamilyId x \<longrightarrow> tokenLive y \<longrightarrow> rtTokenHash y = enSha256 env (atRefreshToken r)) \<and>
    (\<forall>qs' now'. fst (refresh env raw now' (runAuth env qs' t)) = Inl reuseDetected)"
proof -
  have ok: "tokensOk env s" using runAuth_ok assms(2) by simp
  obtain x where f: "findToken (enSha256 env raw) s = Some x"
    using assms(3) by (cases "findToken (enSha256 env raw) s")
      (auto simp: refresh_def rotate_token_def rotateOutcome_def transaction_def bindS_def)
  note x = findToken_Some_D [OF f]
  have live: "tokenLive x" using refresh_dead_found [OF f] assms(3) by (metis Inl_Inr_False fst_conv)
  have e: "\<not> rtExpiresAt x < now"
    using assms(3) f live
    by (auto simp: refresh_def rotate_token_def rotateOutcome_def transaction_def bindS_def tokenLive_def)
  obtain t' where rot: "rotateOutcome env raw now s = (Inr (Rotated \<lparr>irToken = enRandom env (adNextId s), irUserId = rtUserId x,
        irFamilyId = rtFamilyId x, irExpiresAt = now + REFRESH_TTL_MS\<rparr>), t')"
    and t': "adTokens t' = map (used (rtId x) now) (adTokens s) @ [rotatedTo env x now s]" "adNextId t' = Suc (adNextId s)"
    using rotate_live [OF ok f live e] assms(3) by (auto simp: refresh_def rotate_token_def bindS_def)
  have t: "t = t'" and r: "r = tokensOf \<lparr>irToken = enRandom env (adNextId s), irUserId = rtUserId x,
        irFamilyId = rtFamilyId x, irExpiresAt = now + REFRESH_TTL_MS\<rparr>"
    using assms(3) rot by (simp_all add: refresh_def rotate_token_def bindS_def)
  have move: "tokenMove env s t" unfolding t by (rule rotate_live_move [OF ok x [THEN conjunct1] live t'])
  have okt: "tokensOk env t" by (rule tokenMove_ok [OF ok move])
  have new: "rotatedTo env x now s \<in> set (adTokens t)" "tokenLive (rotatedTo env x now s)"
    "rtFamilyId (rotatedTo env x now s) = rtFamilyId x"
    "rtTokenHash (rotatedTo env x now s) = enSha256 env (atRefreshToken r)"
    by (simp_all add: t t'(1) r rotatedTo_def tokenLive_def tokensOf_def)
  have "\<forall>y \<in> set (adTokens t). rtFamilyId y = rtFamilyId x \<longrightarrow> tokenLive y \<longrightarrow> rtTokenHash y = enSha256 env (atRefreshToken r)"
    using tokensOkD(4) [OF okt _ new(1) _ _ new(2)] new(3,4) by metis
  moreover have "rowDead x t"
    unfolding rowDead_def using x live
    by (intro bexI [of _ "used (rtId x) now x"]) (simp_all add: used_def tokenLive_def t t'(1))
  then have "fst (refresh env raw now' (runAuth env qs' t)) = Inl reuseDetected" for qs' now'
    using refresh_dead_later [OF okt assms(1)] x by simp
  ultimately show ?thesis
    using x live e by (intro bexI [of _ x] conjI allI) (simp_all add: r tokensOf_def)
qed

text \<open>All sessions of a user at once.\<close>

definition endsSessionsOf :: "AuthEnv \<Rightarrow> AuthDb \<Rightarrow> nat \<Rightarrow> AuthRequest \<Rightarrow> bool" where
  "endsSessionsOf env s u q \<longleftrightarrow> (case q of
     LogoutAll v now \<Rightarrow> v = u
   | ResetPassword token new meta now \<Rightarrow>
       unexpired now (map_of (adReset s) token) = Some u \<and> fst (resetPassword env token new meta now s) = Inr ()
   | ChangePassword v cur new now \<Rightarrow> v = u \<and> fst (changePassword env u cur new now s) = Inr ()
   | SetStatus v st actor why now \<Rightarrow> v = u \<and> st \<noteq> ACTIVE \<and> fst (setAccountStatus u st actor why now s) = Inr ()
   | _ \<Rightarrow> False)"

definition tokensVia :: "(RefreshToken list \<Rightarrow> RefreshToken list) \<Rightarrow> 'a auth \<Rightarrow> bool" where
  "tokensVia g m \<longleftrightarrow> (\<forall>s x t. m s = (Inr x, t) \<longrightarrow> adTokens t = g (adTokens s))"

lemma tokensVia_rules:
  "tokensVia g (throwS e)"
  "frames adTokens m \<Longrightarrow> (\<And>x. tokensVia g (k x)) \<Longrightarrow> tokensVia g (bindS m k)"
  "tokensVia g n \<Longrightarrow> (\<And>x. frames adTokens (k' x)) \<Longrightarrow> tokensVia g (bindS n k')"
  "tokensVia g n \<Longrightarrow> (\<And>y. tokensVia g (f y)) \<Longrightarrow> tokensVia g (case z of None \<Rightarrow> n | Some y \<Rightarrow> f y)"
proof -
  show "frames adTokens m \<Longrightarrow> (\<And>x. tokensVia g (k x)) \<Longrightarrow> tokensVia g (bindS m k)"
    unfolding tokensVia_def bindS_Inr_iff by (metis framesD snd_conv)
  show "tokensVia g n \<Longrightarrow> (\<And>x. frames adTokens (k' x)) \<Longrightarrow> tokensVia g (bindS n k')"
    unfolding tokensVia_def bindS_Inr_iff by (metis framesD snd_conv)
qed (auto simp: tokensVia_def split: option.splits)

lemma frames_consume [frame_intros]: "frames adTokens (consumeS key limit ws now)"
  by (simp add: frames_def consumeS_def case_prod_unfold Let_def)

lemma frames_tokens [frame_intros]:
  "frames adTokens freshNumber" "frames adTokens (updateUser i f)" "frames adTokens (authAudit act u res)"
  "frames adTokens (hashPassword env pw)" "frames adTokens (repoChangePassword i h act)"
  "frames adTokens (takeResetToken token now)"
  unfolding hashPassword_def repoChangePassword_def updateUser_def authAudit_def auditWriteTo_def freshNumber_def takeResetToken_def
  by (intro frame_intros; simp)+

definition revokedOf :: "nat \<Rightarrow> int \<Rightarrow> RefreshToken list \<Rightarrow> RefreshToken list" where
  "revokedOf u now = map (\<lambda>t. if rtUserId t = u \<and> rtRevokedAt t = None then t\<lparr>rtRevokedAt := Some now\<rparr> else t)"

lemma revokedOf_dead: "y \<in> set (revokedOf u now ts) \<Longrightarrow> rtUserId y = u \<Longrightarrow> \<not> tokenLive y"
proof -
  assume y: "y \<in> set (revokedOf u now ts)" "rtUserId y = u"
  then obtain t where t: "y = (if rtUserId t = u \<and> rtRevokedAt t = None then t\<lparr>rtRevokedAt := Some now\<rparr> else t)"
    unfolding revokedOf_def set_map by (elim imageE)
  show ?thesis
  proof (cases "rtUserId t = u \<and> rtRevokedAt t = None")
    case True
    then have "y = t\<lparr>rtRevokedAt := Some now\<rparr>" using t by simp
    then show ?thesis by (simp add: tokenLive_def)
  next
    case False
    then have eq: "y = t" using t by (simp only: if_False)
    then have "rtRevokedAt t \<noteq> None" using False y(2) by simp
    then show ?thesis by (simp add: eq tokenLive_def)
  qed
qed

lemma tokensVia_revokeAll: "tokensVia (revokedOf u now) (revokeAllForUser u now)"
  by (simp add: tokensVia_def revokeAllForUser_def revokeWhere_def revokedOf_def bindS_def)

lemma tokensVia_setNewPassword: "tokensVia (revokedOf u now) (setNewPassword env u new now)"
  unfolding setNewPassword_def
  by (intro tokensVia_rules frame_intros tokensVia_revokeAll) (simp_all add: tokensVia_rules)

lemma tokensVia_changePassword: "tokensVia (revokedOf u now) (changePassword env u cur new now)"
  unfolding changePassword_def
  by (intro tokensVia_rules frame_intros tokensVia_revokeAll)

lemma tokensVia_setStatus: "st \<noteq> ACTIVE \<Longrightarrow> tokensVia (revokedOf u now) (setAccountStatus u st actor why now)"
proof -
  assume st: "st \<noteq> ACTIVE"
  have "tokensVia (revokedOf u now) (putS (revokeWhere (\<lambda>t. rtUserId t = u) now))"
    by (simp add: tokensVia_def revokeWhere_def revokedOf_def)
  moreover have "frames adTokens (auditWriteTo adAudit_update row)" for row
    unfolding auditWriteTo_def by (intro frame_intros) simp
  ultimately have "tokensVia (revokedOf u now) (bindS (updateUser u (\<lambda>u. u\<lparr>usStatus := st\<rparr>)) (\<lambda>_.
     bindS (putS (revokeWhere (\<lambda>t. rtUserId t = u) now)) (\<lambda>_. auditWriteTo adAudit_update
       (auditOf ''user.status_changed'' (showNat actor) (showNat u) '''' '''' (Some why)))))"
    by (rule tokensVia_rules(2) [OF frames_tokens(2) tokensVia_rules(3)])
  then show ?thesis using st by (simp add: setAccountStatus_def tokensVia_def)
qed

lemma tokensVia_Inr: "tokensVia g m \<Longrightarrow> fst (m s) = Inr x \<Longrightarrow> adTokens (snd (m s)) = g (adTokens s)"
  unfolding tokensVia_def by (metis prod.collapse)

lemma resetPassword_tokens:
  assumes "unexpired now (map_of (adReset s) token) = Some u" "fst (resetPassword env token new meta now s) = Inr ()"
  shows "adTokens (snd (resetPassword env token new meta now s)) = revokedOf u now (adTokens s)"
proof -
  let ?d = "consume (''pwdreset:ip:'' @ ipOf meta) PASSWORD_RESET_LIMIT PASSWORD_RESET_WINDOW_SECONDS now (adRate s)"
  let ?s = "s\<lparr>adRate := snd ?d, adReset := filter (\<lambda>(k, v). k \<noteq> token) (adReset s)\<rparr>"
  have "resetPassword env token new meta now s = setNewPassword env u new now ?s"
    using assms
    by (simp add: resetPassword_def bindS_def consumeS_def takeResetToken_def case_prod_unfold Let_def split: if_splits)
  then show ?thesis using tokensVia_Inr [OF tokensVia_setNewPassword, of env u new now ?s "()"] assms(2) by simp
qed

lemma endsSessions_tokens:
  assumes "endsSessionsOf env s u q"
  shows "\<exists>now. adTokens (serveAuth env q s) = revokedOf u now (adTokens s)"
proof (cases q)
  case (LogoutAll v now)
  then show ?thesis using assms tokensVia_Inr [OF tokensVia_revokeAll]
    by (auto simp: endsSessionsOf_def logoutAll_def revokeAllForUser_def bindS_def)
next
  case (ResetPassword token new meta now)
  then show ?thesis using assms resetPassword_tokens by (auto simp: endsSessionsOf_def)
next
  case (ChangePassword v cur new now)
  then show ?thesis using assms tokensVia_Inr [OF tokensVia_changePassword] by (auto simp: endsSessionsOf_def)
next
  case (SetStatus v st actor why now)
  then show ?thesis using assms tokensVia_Inr [OF tokensVia_setStatus] by (auto simp: endsSessionsOf_def)
qed (use assms in \<open>simp_all add: endsSessionsOf_def\<close>)

text \<open>
  C26. After a password reset or change, a logout from all devices, or a suspension, no session
  opened before continues: every refresh token the user had at that moment is refused at every
  later moment, whatever requests were served in between.
\<close>

theorem password_change_ends_sessions:
  assumes "tokensDiffer env" "s = runAuth env qs noAccounts" "endsSessionsOf env s u q"
    and "x \<in> set (adTokens s)" "rtUserId x = u" "enSha256 env raw = rtTokenHash x"
  shows "fst (refresh env raw now (runAuth env qs' (serveAuth env q s))) = Inl reuseDetected"
proof (rule refresh_dead_later [OF _ assms(1) _ assms(6)])
  have ok: "tokensOk env s" using runAuth_ok assms(2) by simp
  have moves: "tokenMoves env s (serveAuth env q s)" by (rule serveAuth_moves [OF ok])
  show "tokensOk env (serveAuth env q s)" by (rule tokenMoves_ok [OF moves ok])
  obtain y where y: "y \<in> set (adTokens (serveAuth env q s))" "worn x y" using moves_row [OF moves assms(4)] by blast
  obtain now' where "adTokens (serveAuth env q s) = revokedOf u now' (adTokens s)"
    using endsSessions_tokens [OF assms(3)] by blast
  then have "\<not> tokenLive y"
    using revokedOf_dead [of y u now' "adTokens s"] y(1) wornD(2) [OF y(2)] assms(5) by simp
  then show "rowDead x (serveAuth env q s)"
    unfolding rowDead_def using y(1) wornD(1,3) [OF y(2)] by blast
qed

section \<open>An example\<close>

definition sampleEnv :: AuthEnv where
  "sampleEnv = \<lparr>enRandom = (\<lambda>n. replicate n CHR ''x''), enSha256 = (\<lambda>s. CHR ''#'' # s), enHash = (\<lambda>pw salt. pw),
     enVerify = (\<lambda>h pw. h = pw), enNeedsRehash = (\<lambda>h. False), enTotp = (\<lambda>code secret now. False),
     enEncrypt = (\<lambda>s. s), enDecrypt = (\<lambda>s. s), enTotpKey = True, enMailer = True, enMailFails = (\<lambda>to. False)\<rparr>"

definition home :: RequestMeta where
  "home = \<lparr>rmIp = Some ''10.0.0.1'', rmUserAgent = None\<rparr>"

definition aliceJoins :: AuthRequest where
  "aliceJoins = Register ''Alice@x.uz'' ''secret'' None home 1000"

lemma sampleEnv_differ: "tokensDiffer sampleEnv"
  by (auto simp: tokensDiffer_def sampleEnv_def inj_def dest: arg_cong [of _ _ length])

definition aliceRaw :: string where "aliceRaw = ''xxxx''"

definition afterJoin :: AuthDb where
  "afterJoin = runAuth sampleEnv [aliceJoins] noAccounts"

lemma afterJoin_tokens: "adTokens afterJoin = [\<lparr>rtId = 4, rtUserId = 1, rtTokenHash = ''#xxxx'', rtFamilyId = 3,
    rtUsedAt = None, rtRevokedAt = None, rtExpiresAt = 2592001000\<rparr>]"
  by code_simp

lemma refresh_rotates_witness:
  "\<exists>r t. refresh sampleEnv aliceRaw 2000 afterJoin = (Inr r, t) \<and> atUserId r = 1 \<and>
     fst (refresh sampleEnv aliceRaw 3000 (runAuth sampleEnv [Logout ''y'' 2500] t)) = Inl reuseDetected"
proof -
  have "fst (refresh sampleEnv aliceRaw 2000 afterJoin) = Inr \<lparr>atUserId = 1, atSessionId = 3, atExpiresIn = 900,
      atRefreshToken = ''xxxxx'', atRefreshExpiresAt = 2592002000\<rparr>"
    by code_simp
  then obtain r t where r: "refresh sampleEnv aliceRaw 2000 afterJoin = (Inr r, t)" "atUserId r = 1"
    by (cases "refresh sampleEnv aliceRaw 2000 afterJoin") auto
  show ?thesis
    using refresh_rotates [OF sampleEnv_differ afterJoin_def r(1)] r by blast
qed

lemma replay_kills_family_witness:
  "fst (refresh sampleEnv aliceRaw 3000 (runAuth sampleEnv [aliceJoins, RefreshSession aliceRaw 2000] noAccounts)) = Inl reuseDetected \<and>
   filter (\<lambda>y. rtFamilyId y = 3 \<and> tokenLive y)
     (adTokens (runAuth sampleEnv [RefreshSession ''xxxxx'' 4000] (serveAuth sampleEnv (RefreshSession aliceRaw 3000)
      (runAuth sampleEnv [aliceJoins, RefreshSession aliceRaw 2000] noAccounts)))) = []"
proof -
  let ?s = "runAuth sampleEnv [aliceJoins, RefreshSession aliceRaw 2000] noAccounts"
  let ?x = "\<lparr>rtId = 4, rtUserId = 1, rtTokenHash = ''#xxxx'', rtFamilyId = 3,
    rtUsedAt = Some 2000, rtRevokedAt = Some 2000, rtExpiresAt = 2592001000\<rparr>"
  have "findToken (enSha256 sampleEnv aliceRaw) ?s = Some ?x" by code_simp
  moreover have "\<not> tokenLive ?x" by (simp add: tokenLive_def)
  ultimately show ?thesis
    using replay_kills_family [OF refl, of sampleEnv aliceRaw "[aliceJoins, RefreshSession aliceRaw 2000]" ?x 3000 "[RefreshSession ''xxxxx'' 4000]"]
    by (simp add: filter_empty_conv)
qed

lemma password_change_ends_sessions_witness:
  "fst (refresh sampleEnv aliceRaw 9000 (runAuth sampleEnv []
     (serveAuth sampleEnv (ChangePassword 1 ''secret'' ''better'' 5000) afterJoin))) = Inl reuseDetected"
proof -
  let ?x = "hd (adTokens afterJoin)"
  have "fst (changePassword sampleEnv 1 ''secret'' ''better'' 5000 afterJoin) = Inr ()" by code_simp
  then have "endsSessionsOf sampleEnv afterJoin 1 (ChangePassword 1 ''secret'' ''better'' 5000)"
    by (simp add: endsSessionsOf_def)
  moreover have "?x \<in> set (adTokens afterJoin)" "rtUserId ?x = 1" "enSha256 sampleEnv aliceRaw = rtTokenHash ?x"
    by (simp_all add: afterJoin_tokens sampleEnv_def aliceRaw_def)
  ultimately show ?thesis by (rule password_change_ends_sessions [OF sampleEnv_differ afterJoin_def])
qed

end
