(* ===== verification/AuthProps.thy ===== *)
theory AuthProps
  imports AuthSessions "HOL-Library.Sublist"
begin

text \<open>
  Properties of login and of the flows around it: what a successful login proves, what the
  answers give away, and two ways around a protection that the code means to have.
\<close>

section \<open>Login\<close>

lemma consumeS_Inr: "consumeS key limit ws now s = (Inr d, t) \<Longrightarrow> \<exists>r. t = s\<lparr>adRate := r\<rparr>"
  by (auto simp: consumeS_def case_prod_unfold Let_def)

lemma checkPassword_Inr:
  "checkPassword env found pw s = (Inr (user, h), t) \<Longrightarrow>
   found = Some user \<and> usPasswordHash user = Some h \<and> enVerify env h pw \<and> t = s"
  by (auto simp: checkPassword_def bindS_def split: option.splits if_splits prod.splits sum.splits)

text \<open>What counts as a second factor: a one-time code not seen in the last ninety seconds, or a
  backup code of the account.\<close>

definition secondFactor :: "AuthEnv \<Rightarrow> UserView \<Rightarrow> string \<Rightarrow> int \<Rightarrow> AuthDb \<Rightarrow> bool" where
  "secondFactor env user code now s \<longleftrightarrow> (\<exists>secret. usTotpSecret user = Some secret \<and>
     (isTotpForm code \<and> enTotp env code (enDecrypt env secret) now \<and>
        (\<forall>(k, e) \<in> set (adTotpUsed s). k = (usId user, code) \<longrightarrow> e \<le> now) \<or>
      enSha256 env (jsLower code) \<in> set (usBackupCodes user)))"

lemma verifyTotp_Inr: "verifyTotp env user code now s = (Inr (), t) \<Longrightarrow> secondFactor env user code now s"
  by (fastforce simp: verifyTotp_def requireBox_def markCodeUsed_def verifyBackupCode_def secondFactor_def bindS_def Let_def
      split: option.splits if_splits prod.splits)

lemma checkSecondFactor_Inr:
  "checkSecondFactor env user totp now s = (Inr (), t) \<Longrightarrow> usTotpEnabled user \<Longrightarrow>
   \<exists>code r. totp = Some code \<and> secondFactor env user code now (s\<lparr>adRate := r\<rparr>)"
  by (fastforce simp: checkSecondFactor_def bindS_Inr_iff dest: consumeS_Inr verifyTotp_Inr split: option.splits if_splits)

lemma secondFactor_rate [simp]: "secondFactor env user code now (s\<lparr>adRate := r\<rparr>) = secondFactor env user code now s"
  by (simp add: secondFactor_def)

lemma acceptCredentials_Inr:
  assumes "acceptCredentials env email pw totp now s = (Inr user, t)"
  shows "findByEmail email s = Some user \<and> (\<exists>h. usPasswordHash user = Some h \<and> enVerify env h pw) \<and> \<not> mayNotLogIn user \<and>
    (usTotpEnabled user \<longrightarrow> (\<exists>code. totp = Some code \<and> secondFactor env user code now s))"
proof -
  obtain h s0 s1 where c: "checkPassword env (findByEmail email s) pw s = (Inr (user, h), s0)"
    and m: "\<not> mayNotLogIn user" and f: "checkSecondFactor env user totp now s0 = (Inr (), s1)"
    using assms unfolding acceptCredentials_def by (auto simp: bindS_Inr_iff split: if_splits prod.splits)
  have "s0 = s" using checkPassword_Inr [OF c] by simp
  then show ?thesis using checkPassword_Inr [OF c] m checkSecondFactor_Inr [OF f] by auto
qed

lemma issueTokens_Inr: "issueTokens env u now s = (Inr r, t) \<Longrightarrow> atUserId r = u \<and> atSessionId r = adNextId s"
  by (auto simp: issueTokens_def issueNewFamily_def persistToken_eval freshNumber_def bindS_def tokensOf_def Let_def
      split: if_splits)

text \<open>
  C27. Nobody gets a session without the credentials: a login that succeeds was for the account
  with the given address, neither suspended, banned nor deleted, with its password, and, where
  two-factor authentication is on, with a one-time code not used before or a backup code of
  the account; both counters admitted it, and the session is that account's.
\<close>

theorem login_needs_credentials:
  assumes "login env email pw totp meta now s = (Inr r, t)"
  shows "\<exists>user h. findByEmail (normalEmail email) s = Some user \<and> atUserId r = usId user \<and>
    usPasswordHash user = Some h \<and> enVerify env h pw \<and>
    usStatus user \<in> {ACTIVE, PENDING_VERIFICATION} \<and> usDeletedAt user = None \<and>
    (usTotpEnabled user \<longrightarrow> (\<exists>code. totp = Some code \<and> secondFactor env user code now s)) \<and>
    rdAllowed (fst (consume (''login:ip:'' @ ipOf meta) LOGIN_IP_LIMIT LOGIN_WINDOW_SECONDS now (adRate s)))"
proof -
  obtain d r1 e s2 user s3 s4 where
    ip: "consumeS (''login:ip:'' @ ipOf meta) LOGIN_IP_LIMIT LOGIN_WINDOW_SECONDS now s = (Inr d, r1)"
    and em: "consumeS (''login:email:'' @ normalEmail email) LOGIN_LIMIT LOGIN_WINDOW_SECONDS now r1 = (Inr e, s2)"
    and both: "rdAllowed d" "rdAllowed e"
    and acc: "acceptCredentials env (normalEmail email) pw totp now s2 = (Inr user, s3)"
    and iss: "issueTokens env (usId user) now s4 = (Inr r, t)"
    using assms unfolding login_def Let_def bindS_Inr_iff bothAllowed_def by (auto split: if_splits)
  obtain r2 where s2: "s2 = s\<lparr>adRate := r2\<rparr>" using consumeS_Inr [OF ip] consumeS_Inr [OF em] by auto
  have "rdAllowed (fst (consume (''login:ip:'' @ ipOf meta) LOGIN_IP_LIMIT LOGIN_WINDOW_SECONDS now (adRate s)))"
    using ip both(1) by (auto simp: consumeS_def case_prod_unfold Let_def)
  moreover have "findByEmail (normalEmail email) s2 = findByEmail (normalEmail email) s" by (simp add: s2 findByEmail_def)
  moreover have "usStatus user \<in> {ACTIVE, PENDING_VERIFICATION} \<and> usDeletedAt user = None"
    using acceptCredentials_Inr [OF acc] by (cases "usStatus user") (auto simp: mayNotLogIn_def)
  ultimately show ?thesis
    using acceptCredentials_Inr [OF acc] issueTokens_Inr [OF iss] by (auto simp: s2)
qed

lemma login_needs_credentials_witness:
  "\<exists>user. findByEmail ''alice@x.uz'' afterJoin = Some user \<and> usPasswordHash user = Some ''secret''"
proof -
  have "fst (login sampleEnv ''ALICE@x.uz '' ''secret'' None home 5000 afterJoin) = Inr \<lparr>atUserId = 1, atSessionId = 5,
      atExpiresIn = 900, atRefreshToken = ''xxxxxx'', atRefreshExpiresAt = 2592005000\<rparr>"
    by code_simp
  then obtain r t where "login sampleEnv ''ALICE@x.uz '' ''secret'' None home 5000 afterJoin = (Inr r, t)"
    by (cases "login sampleEnv ''ALICE@x.uz '' ''secret'' None home 5000 afterJoin") auto
  from login_needs_credentials [OF this] have
    "\<exists>user h. findByEmail (normalEmail ''ALICE@x.uz '') afterJoin = Some user \<and> usPasswordHash user = Some h \<and> enVerify sampleEnv h ''secret''"
    by blast
  moreover have "normalEmail ''ALICE@x.uz '' = ''alice@x.uz''" by code_simp
  ultimately show ?thesis by (auto simp: sampleEnv_def)
qed

section \<open>What the answers give away\<close>

lemma requestPasswordReset_answer:
  "fst (requestPasswordReset env email meta now s) =
     (let (a, r) = consume (''pwdforgot:ip:'' @ ipOf meta) PASSWORD_FORGOT_LIMIT PASSWORD_FORGOT_WINDOW_SECONDS now (adRate s);
          b = fst (consume (''pwdforgot:email:'' @ normalEmail email) PASSWORD_FORGOT_LIMIT PASSWORD_FORGOT_WINDOW_SECONDS now r)
      in if \<not> rdAllowed a \<or> \<not> rdAllowed b
         then Inl (OtherError (TooManyAttempts (max (rdRetryAfterSeconds a) (rdRetryAfterSeconds b)))) else Inr ())"
  by (simp add: requestPasswordReset_def bindS_def consumeS_def bothAllowed_def case_prod_unfold Let_def freshNumber_def
      sendMail_def split: option.split)

lemma wrong_password:
  assumes "\<And>user h. found = Some user \<Longrightarrow> usPasswordHash user = Some h \<Longrightarrow> \<not> enVerify env h pw"
  shows "fst (checkPassword env found pw s) = Inl (OtherError InvalidCredentials)"
  using assms
  by (auto simp: checkPassword_def bindS_def recordLoginFailed_def transaction_def authAudit_def auditWriteTo_def auditOf_def
      REASON_REQUIRED_def split: option.split)

lemma login_wrong:
  assumes "\<And>user h. findByEmail (normalEmail email) s = Some user \<Longrightarrow> usPasswordHash user = Some h \<Longrightarrow> \<not> enVerify env h pw"
  shows "fst (login env email pw totp meta now s) =
     (let (a, r) = consume (''login:ip:'' @ ipOf meta) LOGIN_IP_LIMIT LOGIN_WINDOW_SECONDS now (adRate s);
          b = fst (consume (''login:email:'' @ normalEmail email) LOGIN_LIMIT LOGIN_WINDOW_SECONDS now r)
      in if \<not> rdAllowed a \<or> \<not> rdAllowed b
         then Inl (OtherError (TooManyAttempts (max (rdRetryAfterSeconds a) (rdRetryAfterSeconds b))))
         else Inl (OtherError InvalidCredentials))"
proof -
  have acc: "fst (acceptCredentials env (normalEmail email) pw totp now (s\<lparr>adRate := r\<rparr>)) = Inl (OtherError InvalidCredentials)" for r
  proof -
    have f: "findByEmail (normalEmail email) (s\<lparr>adRate := r\<rparr>) = findByEmail (normalEmail email) s" by (simp add: findByEmail_def)
    have "fst (checkPassword env (findByEmail (normalEmail email) s) pw (s\<lparr>adRate := r\<rparr>)) = Inl (OtherError InvalidCredentials)"
      by (rule wrong_password) (rule assms)
    then show ?thesis by (cases "checkPassword env (findByEmail (normalEmail email) s) pw (s\<lparr>adRate := r\<rparr>)")
      (simp add: acceptCredentials_def bindS_def f)
  qed
  then have acc': "\<exists>t. acceptCredentials env (normalEmail email) pw totp now (s\<lparr>adRate := r\<rparr>) = (Inl (OtherError InvalidCredentials), t)" for r
    by (metis prod.collapse)
  let ?a = "consume (''login:ip:'' @ ipOf meta) LOGIN_IP_LIMIT LOGIN_WINDOW_SECONDS now (adRate s)"
  let ?b = "consume (''login:email:'' @ normalEmail email) LOGIN_LIMIT LOGIN_WINDOW_SECONDS now (snd ?a)"
  obtain t where "acceptCredentials env (normalEmail email) pw totp now (s\<lparr>adRate := snd ?b\<rparr>) = (Inl (OtherError InvalidCredentials), t)"
    using acc' by blast
  then show ?thesis
    by (simp add: login_def bindS_def consumeS_def bothAllowed_def case_prod_unfold Let_def)
qed

text \<open>
  The answers do not tell which addresses have an account: asking for a password reset is
  answered the same for every user table, and a login with a wrong password is answered as one
  for an address nobody has. Only the counters, which count addresses and not accounts, show.
\<close>

theorem answers_reveal_no_account:
  shows "fst (requestPasswordReset env email meta now s) = fst (requestPasswordReset env email meta now (s\<lparr>adUsers := us\<rparr>)) \<and>
    ((\<forall>user h. findByEmail (normalEmail email) s = Some user \<longrightarrow> usPasswordHash user = Some h \<longrightarrow> \<not> enVerify env h pw) \<longrightarrow>
     fst (login env email pw totp meta now s) = fst (login env email pw totp meta now (s\<lparr>adUsers := []\<rparr>)))"
proof (intro conjI impI)
  show "fst (requestPasswordReset env email meta now s) = fst (requestPasswordReset env email meta now (s\<lparr>adUsers := us\<rparr>))"
    by (simp only: requestPasswordReset_answer) simp
  assume wrong: "\<forall>user h. findByEmail (normalEmail email) s = Some user \<longrightarrow> usPasswordHash user = Some h \<longrightarrow> \<not> enVerify env h pw"
  have "fst (login env email pw totp meta now s) = (let (a, r) = consume (''login:ip:'' @ ipOf meta) LOGIN_IP_LIMIT LOGIN_WINDOW_SECONDS now (adRate s);
          b = fst (consume (''login:email:'' @ normalEmail email) LOGIN_LIMIT LOGIN_WINDOW_SECONDS now r)
      in if \<not> rdAllowed a \<or> \<not> rdAllowed b
         then Inl (OtherError (TooManyAttempts (max (rdRetryAfterSeconds a) (rdRetryAfterSeconds b))))
         else Inl (OtherError InvalidCredentials))"
    by (rule login_wrong) (use wrong in blast)
  also have "\<dots> = fst (login env email pw totp meta now (s\<lparr>adUsers := []\<rparr>))"
    by (subst login_wrong) (simp_all add: findByEmail_def)
  finally show "fst (login env email pw totp meta now s) = fst (login env email pw totp meta now (s\<lparr>adUsers := []\<rparr>))" .
qed

lemma answers_reveal_no_account_witness:
  "fst (login sampleEnv ''alice@x.uz'' ''guess'' None home 5000 afterJoin) =
   fst (login sampleEnv ''alice@x.uz'' ''guess'' None home 5000 (afterJoin\<lparr>adUsers := []\<rparr>))"
proof -
  have "findByEmail (normalEmail ''alice@x.uz'') afterJoin = Some (hd (adUsers afterJoin))"
    "usPasswordHash (hd (adUsers afterJoin)) = Some ''secret''"
    by code_simp+
  then show ?thesis
    using answers_reveal_no_account [of sampleEnv "''alice@x.uz''" home 5000 afterJoin "[]" "''guess''" None]
    by (simp add: sampleEnv_def)
qed

section \<open>A ban lifted by its subject\<close>

lemma find_user_updated:
  "find (\<lambda>u. usId u = i) us = Some user \<Longrightarrow> (\<And>u. usId (f u) = usId u) \<Longrightarrow>
   find (\<lambda>u. usId u = i) (map (\<lambda>u. if usId u = i then f u else u) us) = Some (f user)"
  by (induction us) (auto split: if_splits)

text \<open>
  Verifying an address makes the account active whatever its status was: an account that
  was suspended or banned while its verification link was still good is back in force as soon
  as its owner opens the link, without any administrator.
\<close>

theorem verification_lifts_ban:
  assumes "token \<noteq> ''''" "unexpired now (map_of (adVerify s) token) = Some u" "findUser u s = Some user"
    and "usDeletedAt user = None"
  shows "\<exists>t user'. verifyEmail token now s = (Inr (), t) \<and> findUser u t = Some user' \<and>
    usStatus user' = ACTIVE \<and> usPasswordHash user' = usPasswordHash user \<and> \<not> mayNotLogIn user'"
proof -
  let ?f = "\<lambda>u. u\<lparr>usEmailVerified := True, usStatus := ACTIVE\<rparr>"
  let ?s = "s\<lparr>adVerify := filter (\<lambda>(k, v). k \<noteq> token) (adVerify s)\<rparr>"
  let ?t = "?s\<lparr>adUsers := map (\<lambda>w. if usId w = u then ?f w else w) (adUsers s)\<rparr>"
  have "verifyEmail token now s = (Inr (), ?t)"
    using assms(1-3) by (simp add: verifyEmail_def markEmailVerified_def updateUser_def bindS_def findUser_def)
  moreover have "findUser u ?t = Some (?f user)"
    using find_user_updated [of u "adUsers s" user ?f] assms(3) by (simp add: findUser_def)
  ultimately show ?thesis
    using assms(4) by (intro exI [of _ ?t] exI [of _ "?f user"] conjI) (simp_all add: mayNotLogIn_def)
qed

lemma verification_lifts_ban_witness:
  "\<exists>t user'. verifyEmail ''xx'' 9000 (runAuth sampleEnv [aliceJoins, SetStatus 1 BANNED 0 ''fraud'' 5000] noAccounts) = (Inr (), t) \<and>
     findUser 1 t = Some user' \<and> usStatus user' = ACTIVE"
proof -
  let ?s = "runAuth sampleEnv [aliceJoins, SetStatus 1 BANNED 0 ''fraud'' 5000] noAccounts"
  have v: "unexpired 9000 (map_of (adVerify ?s) ''xx'') = Some 1" by code_simp
  have f: "findUser 1 ?s = Some (hd (adUsers ?s))" by code_simp
  have d: "usDeletedAt (hd (adUsers ?s)) = None \<and> usStatus (hd (adUsers ?s)) = BANNED" by code_simp
  show ?thesis using verification_lifts_ban [OF _ v f] d by fastforce
qed

section \<open>Backup codes under parallel logins\<close>

text \<open>
  C28. Backup codes are not single-use when logins run in parallel: \<^verbatim>\<open>verify\<close> works on the row read
  earlier and writes back what is left of that list. The same code passes twice, and after two
  different codes passed, the one used first is valid again.
\<close>

theorem backup_code_comes_back:
  assumes "enTotpKey env" "usTotpEnabled user" "usTotpSecret user = Some secret"
    and "findUser (usId user) s = Some user"
    and "enSha256 env (jsLower a) \<in> set (usBackupCodes user)" "enSha256 env (jsLower b) \<in> set (usBackupCodes user)"
    and "enSha256 env (jsLower a) \<noteq> enSha256 env (jsLower b)" "\<not> isTotpForm a" "\<not> isTotpForm b"
  shows "\<exists>s1 s2 user'. verifyTotp env user a now s = (Inr (), s1) \<and> fst (verifyTotp env user a now s1) = Inr () \<and>
    verifyTotp env user b now s1 = (Inr (), s2) \<and> findUser (usId user) s2 = Some user' \<and>
    enSha256 env (jsLower a) \<in> set (usBackupCodes user')"
proof -
  let ?put = "\<lambda>code s. s\<lparr>adUsers := map (\<lambda>w. if usId w = usId user
      then w\<lparr>usBackupCodes := filter (\<lambda>h. h \<noteq> enSha256 env (jsLower code)) (usBackupCodes user)\<rparr> else w) (adUsers s)\<rparr>"
  have put: "findUser (usId user) (?put code s) =
      Some (v\<lparr>usBackupCodes := filter (\<lambda>h. h \<noteq> enSha256 env (jsLower code)) (usBackupCodes user)\<rparr>)"
    if "findUser (usId user) s = Some v" for code v s
    using find_user_updated [of "usId user" "adUsers s" v] that by (simp add: findUser_def)
  have ver: "verifyTotp env user code now s = (Inr (), ?put code s)"
    if "code \<in> {a, b}" "findUser (usId user) s = Some v" for code v s
    using that assms
    by (auto simp: verifyTotp_def requireBox_def verifyBackupCode_def replaceBackupCodes_def updateUser_def bindS_def Let_def)
  show ?thesis
    using ver [OF _ assms(4), of a] ver [OF _ put [OF assms(4), of a], of a] ver [OF _ put [OF assms(4), of a], of b]
      put [OF put [OF assms(4), of a], of b] assms(5,7)
    by (intro exI [of _ "?put a s"] exI [of _ "?put b (?put a s)"] exI conjI) (assumption | simp)+
qed

definition guarded :: UserView where
  "guarded = \<lparr>usId = 1, usEmail = Some ''a@x.uz'', usPasswordHash = Some ''secret'', usStatus = ACTIVE, usEmailVerified = True,
     usLocale = ''ru'', usDeletedAt = None, usTotpEnabled = True, usTotpSecret = Some ''k'',
     usBackupCodes = [''#aaaaaaaaaa'', ''#bbbbbbbbbb''], usLastLoginAt = None\<rparr>"

lemma backup_code_comes_back_witness:
  "\<exists>s1. verifyTotp sampleEnv guarded ''aaaaaaaaaa'' 5 (noAccounts\<lparr>adUsers := [guarded]\<rparr>) = (Inr (), s1) \<and>
     fst (verifyTotp sampleEnv guarded ''aaaaaaaaaa'' 5 s1) = Inr ()"
proof -
  let ?s = "noAccounts\<lparr>adUsers := [guarded]\<rparr>"
  have l: "enSha256 sampleEnv (jsLower ''aaaaaaaaaa'') = ''#aaaaaaaaaa''" "enSha256 sampleEnv (jsLower ''bbbbbbbbbb'') = ''#bbbbbbbbbb''"
    by code_simp+
  have k: "enTotpKey sampleEnv" "usTotpEnabled guarded" "usTotpSecret guarded = Some ''k''" "findUser (usId guarded) ?s = Some guarded"
    "\<not> isTotpForm ''aaaaaaaaaa''" "\<not> isTotpForm ''bbbbbbbbbb''"
    by (simp_all add: sampleEnv_def guarded_def findUser_def isTotpForm_def)
  show ?thesis
    using backup_code_comes_back [OF k(1-4) _ _ _ k(5,6), unfolded l] by (fastforce simp: guarded_def)
qed

section \<open>Guessing a password\<close>

definition emailKey :: "string \<Rightarrow> string" where
  "emailKey e = ''rl:login:email:'' @ e"

text \<open>The times of the logins for address \<open>e\<close> that were refused for a wrong password, since the
  last one that was right or the last reset of the password.\<close>

definition noteLogin :: "AuthEnv \<Rightarrow> string \<Rightarrow> AuthRequest \<Rightarrow> AuthDb \<Rightarrow> int list \<Rightarrow> int list" where
  "noteLogin env e q s acc = (case q of
     Login email pw totp meta now \<Rightarrow>
       if normalEmail email \<noteq> e then acc
       else (case fst (login env email pw totp meta now s) of
           Inr r \<Rightarrow> []
         | Inl (OtherError InvalidCredentials) \<Rightarrow> acc @ [now]
         | Inl (OtherError (UniqueViolation what)) \<Rightarrow> []
         | Inl err \<Rightarrow> acc)
   | ResetPassword token new meta now \<Rightarrow>
       if fst (resetPassword env token new meta now s) = Inr () \<and>
          (\<exists>u user. unexpired now (map_of (adReset s) token) = Some u \<and> findUser u s = Some user \<and> usEmail user = Some e)
       then [] else acc
   | _ \<Rightarrow> acc)"

fun wrongGuesses :: "AuthEnv \<Rightarrow> string \<Rightarrow> AuthRequest list \<Rightarrow> AuthDb \<Rightarrow> int list \<Rightarrow> int list" where
  "wrongGuesses env e [] s acc = acc"
| "wrongGuesses env e (q # qs) s acc = wrongGuesses env e qs (serveAuth env q s) (noteLogin env e q s acc)"

fun timeOf :: "AuthRequest \<Rightarrow> int" where
  "timeOf (Register email pw locale meta now) = now"
| "timeOf (Login email pw totp meta now) = now"
| "timeOf (RefreshSession raw now) = now"
| "timeOf (Logout raw now) = now"
| "timeOf (LogoutAll u now) = now"
| "timeOf (VerifyEmail token now) = now"
| "timeOf (ForgotPassword email meta now) = now"
| "timeOf (ResetPassword token new meta now) = now"
| "timeOf (ChangePassword u cur new now) = now"
| "timeOf (EnrollTotp u now) = now"
| "timeOf (ActivateTotp u code now) = now"
| "timeOf (DisableTotp u code now) = now"
| "timeOf (SetStatus u st actor why now) = now"

fun inOrder :: "int \<Rightarrow> AuthRequest list \<Rightarrow> bool" where
  "inOrder t [] = True"
| "inOrder t (q # qs) = (t \<le> timeOf q \<and> inOrder (timeOf q) qs)"

text \<open>The counter of \<open>e\<close> as a run of the limiter: the wrong guesses are among the attempts it
  admitted.\<close>

definition rateNeutral :: "string \<Rightarrow> AuthDb \<Rightarrow> AuthDb \<Rightarrow> bool" where
  "rateNeutral e s t \<longleftrightarrow> rlWindows (adRate t) (emailKey e) = rlWindows (adRate s) (emailKey e) \<and> rlNext (adRate s) \<le> rlNext (adRate t)"

definition counts :: "string \<Rightarrow> int \<Rightarrow> int list \<Rightarrow> AuthDb \<Rightarrow> bool" where
  "counts e now acc s \<longleftrightarrow> (\<exists>run. limitOk LOGIN_LIMIT LOGIN_WINDOW_SECONDS run \<and>
     lrWindow run = rlWindows (adRate s) (emailKey e) \<and> lrNext run = rlNext (adRate s) \<and> lrNow run \<le> now \<and>
     subseq acc (map snd (lrAdmitted run)))"

definition neutral :: "string \<Rightarrow> 'a auth \<Rightarrow> bool" where
  "neutral e m \<longleftrightarrow> (\<forall>s. rateNeutral e s (snd (m s)))"

named_theorems neutral_intros "operations that leave the counter of an address alone"

lemma rateNeutral_refl [simp]: "rateNeutral e s s"
  by (simp add: rateNeutral_def)

lemma rateNeutral_trans: "rateNeutral e s t \<Longrightarrow> rateNeutral e t u \<Longrightarrow> rateNeutral e s u"
  by (auto simp: rateNeutral_def)

lemma neutral_basic [neutral_intros]:
  "neutral e (returnS x)" "neutral e (throwS err)" "neutral e (getS g)" "neutral e (guardS c err)"
  "(\<And>s. adRate (h s) = adRate s) \<Longrightarrow> neutral e (putS h)"
  by (simp_all add: neutral_def rateNeutral_def)

lemma neutral_bind [neutral_intros]: "neutral e m \<Longrightarrow> (\<And>x. neutral e (k x)) \<Longrightarrow> neutral e (bindS m k)"
  unfolding neutral_def bindS_def
  by (auto simp: case_prod_unfold split: sum.split intro: rateNeutral_trans)

lemma neutral_transaction [neutral_intros]: "neutral e m \<Longrightarrow> neutral e (transaction m)"
  unfolding neutral_def transaction_def by (auto simp: case_prod_unfold split: sum.split)

lemma neutral_cases [neutral_intros]:
  "neutral e m \<Longrightarrow> neutral e m' \<Longrightarrow> neutral e (if c then m else m')"
  "neutral e n \<Longrightarrow> (\<And>y. neutral e (k y)) \<Longrightarrow> neutral e (case x of None \<Rightarrow> n | Some y \<Rightarrow> k y)"
  "(\<And>a b. neutral e (f a b)) \<Longrightarrow> neutral e (case p of (a, b) \<Rightarrow> f a b)"
  by (auto split: option.splits prod.splits)

lemma neutral_consume:
  "''rl:'' @ key \<noteq> emailKey e \<Longrightarrow> neutral e (consumeS key limit ws now)"
  by (auto simp: neutral_def rateNeutral_def consumeS_def consume_def case_prod_unfold Let_def)

lemma neutral_leaf [neutral_intros]:
  "neutral e freshNumber" "neutral e (updateUser i f)" "neutral e (authAudit act u res)" "neutral e (persistToken env u f' now)"
  "neutral e (markCodeUsed u code now)" "neutral e (sendMail env to k token)" "neutral e (putS (revokeWhere P now))"
  "neutral e (hashPassword env pw)" "neutral e (markUsed i now)"
  unfolding freshNumber_def updateUser_def authAudit_def auditWriteTo_def persistToken_def markCodeUsed_def sendMail_def
    revokeWhere_def hashPassword_def markUsed_def Let_def
  by (intro neutral_intros; simp)+

lemma neutral_repository [neutral_intros]:
  "neutral e (revokeFamily f now)" "neutral e (revokeAllForUser u now)" "neutral e (issueNewFamily env u now)"
  "neutral e (createWithPlayer email h locale)" "neutral e (updatePasswordHash i h)" "neutral e (repoChangePassword i h act)"
  "neutral e (recordLogin i now)" "neutral e (recordLoginFailed i)" "neutral e (markEmailVerified i)"
  "neutral e (enableTotp i h codes)" "neutral e (disableTotp i)" "neutral e (replaceBackupCodes i codes)"
  "neutral e (rotateOutcome env raw now)" "neutral e (issueTokens env u now)"
  unfolding revokeFamily_def revokeAllForUser_def issueNewFamily_def createWithPlayer_def updatePasswordHash_def
    repoChangePassword_def recordLogin_def recordLoginFailed_def markEmailVerified_def enableTotp_def disableTotp_def
    replaceBackupCodes_def rotateOutcome_def issueTokens_def Let_def
  by (intro neutral_intros; simp)+

lemma other_keys:
  "''rl:'' @ ''login:ip:'' @ x \<noteq> emailKey e" "''rl:'' @ ''register:ip:'' @ x \<noteq> emailKey e"
  "''rl:'' @ ''2fa:user:'' @ x \<noteq> emailKey e" "''rl:'' @ ''pwdforgot:ip:'' @ x \<noteq> emailKey e"
  "''rl:'' @ ''pwdforgot:email:'' @ x \<noteq> emailKey e" "''rl:'' @ ''pwdreset:ip:'' @ x \<noteq> emailKey e"
  "x \<noteq> e \<Longrightarrow> ''rl:'' @ ''login:email:'' @ x \<noteq> emailKey e"
  by (simp_all add: emailKey_def)

lemmas neutral_keys [neutral_intros] = other_keys [THEN neutral_consume]

lemma neutral_codes [neutral_intros]: "neutral e (freshCodes env k)"
proof (induction k)
  case 0
  show ?case unfolding freshCodes.simps by (rule neutral_basic)
next
  case (Suc k)
  then show ?case unfolding freshCodes.simps by (intro neutral_intros)
qed

lemma neutral_parts [neutral_intros]:
  "neutral e (verifyTotp env user code now)" "neutral e (checkPassword env found pw)"
  "neutral e (rehashIfNeeded env u h pw)" "neutral e (sendEmailVerification env u email now)"
  "neutral e (bothAllowed a b)" "neutral e (takeResetToken token now)" "neutral e (requireBox env)"
  unfolding verifyTotp_def checkPassword_def rehashIfNeeded_def sendEmailVerification_def bothAllowed_def takeResetToken_def
    requireBox_def verifyBackupCode_def Let_def
  by (intro neutral_intros; simp)+

lemma neutral_rotate [neutral_intros]: "neutral e (rotate_token env raw now)"
  unfolding rotate_token_def
proof (intro neutral_intros)
  fix out show "neutral e (case out of Rotated issued \<Rightarrow> returnS issued
     | Invalid \<Rightarrow> throwS (OtherError (Unauthorized ''Invalid refresh token''))
     | Expired \<Rightarrow> throwS (OtherError (Unauthorized ''Refresh token expired''))
     | Reuse u f \<Rightarrow> throwS (OtherError (Unauthorized ''Token reuse detected. Please sign in again.'')))"
    by (cases out) (simp_all add: neutral_basic)
qed

lemma neutral_services:
  "neutral e (register_user env email pw locale meta now)" "neutral e (refresh env raw now)" "neutral e (logout env raw now)"
  "neutral e (logoutAll u now)" "neutral e (verifyEmail token now)" "neutral e (requestPasswordReset env email meta now)"
  "neutral e (changePassword env u cur new now)" "neutral e (setAccountStatus u st actor why now)"
  "neutral e (enrollEndpoint env u now)" "neutral e (disableEndpoint env u code now)" "neutral e (activateTotp env u code now)"
  "neutral e (acceptCredentials env email pw totp now)"
  unfolding register_user_def refresh_def logout_def revokeByToken_def logoutAll_def verifyEmail_def requestPasswordReset_def
    changePassword_def setAccountStatus_def auditWriteTo_def enrollEndpoint_def enrollTotp_def disableEndpoint_def disableTotpFor_def
    activateTotp_def acceptCredentials_def checkSecondFactor_def Let_def
  by (intro neutral_intros; simp)+

lemma neutral_login_elsewhere: "normalEmail email \<noteq> e \<Longrightarrow> neutral e (login env email pw totp meta now)"
proof -
  assume other: "normalEmail email \<noteq> e"
  have release: "neutral e (putS (\<lambda>s. s\<lparr>adRate := refundAttempt (''login:ip:'' @ ip) m (resetKey (''login:email:'' @ normalEmail email) (adRate s))\<rparr>))"
    for ip m
    using other_keys(1) [of ip e] other_keys(7) [OF other]
    by (auto simp: neutral_def rateNeutral_def refundAttempt_def resetKey_def split: option.split)
  then show ?thesis
    unfolding login_def Let_def
    by (intro neutral_bind neutral_keys(1) neutral_keys(7) [OF other] neutral_parts neutral_services release neutral_repository)
qed

section \<open>The counter of an address\<close>

lemma limitOk_next: "limitOk limit ws run \<Longrightarrow> lrNext run \<le> n \<Longrightarrow> limitOk limit ws (run\<lparr>lrNext := n\<rparr>)"
  by (fastforce simp: limitOk_def)

lemma counts_neutral:
  assumes "counts e now acc s" "rateNeutral e s t"
  shows "counts e now acc t"
proof -
  obtain run where run: "limitOk LOGIN_LIMIT LOGIN_WINDOW_SECONDS run" "lrWindow run = rlWindows (adRate s) (emailKey e)"
    "lrNext run = rlNext (adRate s)" "lrNow run \<le> now" "subseq acc (map snd (lrAdmitted run))"
    using assms(1) by (auto simp: counts_def)
  then show ?thesis
    unfolding counts_def using assms(2) limitOk_next [OF run(1), of "rlNext (adRate t)"]
    by (intro exI [of _ "run\<lparr>lrNext := rlNext (adRate t)\<rparr>"]) (simp add: rateNeutral_def)
qed

lemma counts_weaken: "counts e now acc s \<Longrightarrow> now \<le> now' \<Longrightarrow> subseq acc' acc \<Longrightarrow> counts e now' acc' s"
  unfolding counts_def using subseq_order.trans by fastforce

lemma counts_reset:
  assumes "counts e now acc s" "rlWindows (adRate t) (emailKey e) = emptyWindow" "rlNext (adRate s) \<le> rlNext (adRate t)"
  shows "counts e now [] t"
proof -
  obtain run where run: "limitOk LOGIN_LIMIT LOGIN_WINDOW_SECONDS run" "lrNext run = rlNext (adRate s)" "lrNow run \<le> now"
    using assms(1) by (auto simp: counts_def)
  have "limitOk LOGIN_LIMIT LOGIN_WINDOW_SECONDS (limitStep LOGIN_LIMIT LOGIN_WINDOW_SECONDS Reset run)"
    by (rule limitOk_step [OF run(1)]) simp
  then have "limitOk LOGIN_LIMIT LOGIN_WINDOW_SECONDS (run\<lparr>lrWindow := emptyWindow, lrAdmitted := [], lrNext := rlNext (adRate t)\<rparr>)"
    using limitOk_next [of _ _ "run\<lparr>lrWindow := emptyWindow, lrAdmitted := []\<rparr>" "rlNext (adRate t)"] run(2) assms(3) by simp
  then show ?thesis
    unfolding counts_def using run assms(2)
    by (intro exI [of _ "run\<lparr>lrWindow := emptyWindow, lrAdmitted := [], lrNext := rlNext (adRate t)\<rparr>"]) simp
qed

lemma counts_attempt:
  assumes c: "counts e t0 acc s" and time: "t0 \<le> now"
    and a: "consumeS (''login:email:'' @ e) LOGIN_LIMIT LOGIN_WINDOW_SECONDS now s = (Inr d, t)"
  shows "counts e now (if rdAllowed d then acc @ [now] else acc) t"
proof -
  obtain run where run: "limitOk LOGIN_LIMIT LOGIN_WINDOW_SECONDS run" "lrWindow run = rlWindows (adRate s) (emailKey e)"
    "lrNext run = rlNext (adRate s)" "lrNow run \<le> t0" "subseq acc (map snd (lrAdmitted run))"
    using c by (auto simp: counts_def)
  let ?w = "consumeWindow LOGIN_LIMIT LOGIN_WINDOW_SECONDS now (lrNext run) (lrWindow run)"
  have d: "d = fst ?w" and t: "rlWindows (adRate t) (emailKey e) = snd ?w" "rlNext (adRate t) = Suc (lrNext run)"
    using a run(2,3) by (auto simp: consumeS_def consume_def emailKey_def case_prod_unfold Let_def)
  let ?r1 = "limitStep LOGIN_LIMIT LOGIN_WINDOW_SECONDS (Attempt now) run"
  let ?r2 = "limitStep LOGIN_LIMIT LOGIN_WINDOW_SECONDS (Forget (lrNext run)) ?r1"
  have ok1: "limitOk LOGIN_LIMIT LOGIN_WINDOW_SECONDS ?r1"
    by (rule limitOk_step [OF run(1)]) (use run(4) time in simp)
  have ok2: "limitOk LOGIN_LIMIT LOGIN_WINDOW_SECONDS ?r2" by (rule limitOk_step [OF ok1]) simp
  show ?thesis
  proof (cases "LOGIN_LIMIT < fst (hit LOGIN_WINDOW_SECONDS now (lrNext run) (lrWindow run))")
    case True
    then have "\<not> rdAllowed d \<and> lrWindow ?r2 = snd ?w \<and> lrNext ?r2 = Suc (lrNext run) \<and> lrNow ?r2 = now \<and> lrAdmitted ?r2 = lrAdmitted run"
      by (auto simp: d consumeWindow_def refusal_def case_prod_unfold Let_def)
    then show ?thesis using ok2 run(5) t unfolding counts_def by (intro exI [of _ ?r2]) simp
  next
    case False
    then have "rdAllowed d \<and> lrWindow ?r1 = snd ?w \<and> lrNext ?r1 = Suc (lrNext run) \<and> lrNow ?r1 = now \<and>
        lrAdmitted ?r1 = lrAdmitted run @ [(lrNext run, now)]"
      by (auto simp: d consumeWindow_def case_prod_unfold Let_def)
    then show ?thesis using ok1 run(5) t unfolding counts_def by (intro exI [of _ ?r1]) simp
  qed
qed

lemma neutralD: "neutral e m \<Longrightarrow> m s = (r, t) \<Longrightarrow> rateNeutral e s t"
  unfolding neutral_def by (metis snd_conv)

lemma issueTokens_Inl: "issueTokens env u now s = (Inl err, t) \<Longrightarrow> \<exists>what. err = OtherError (UniqueViolation what)"
  by (auto simp: issueTokens_def issueNewFamily_def persistToken_eval freshNumber_def bindS_def Let_def split: if_splits)

lemma counts_login:
  assumes c: "counts e t0 acc s" and time: "t0 \<le> now" and e: "normalEmail email = e"
  shows "counts e now (noteLogin env e (Login email pw totp meta now) s acc) (snd (login env email pw totp meta now s))"
proof -
  let ?ip = "''login:ip:'' @ ipOf meta"
  obtain d1 s1 where ip: "consumeS ?ip LOGIN_IP_LIMIT LOGIN_WINDOW_SECONDS now s = (Inr d1, s1)"
    by (auto simp: consumeS_def case_prod_unfold Let_def)
  obtain d2 s2 where em: "consumeS (''login:email:'' @ e) LOGIN_LIMIT LOGIN_WINDOW_SECONDS now s1 = (Inr d2, s2)"
    by (auto simp: consumeS_def case_prod_unfold Let_def)
  have "counts e t0 acc s1" by (rule counts_neutral [OF c neutralD [OF neutral_keys(1) ip]])
  then have c2: "counts e now (if rdAllowed d2 then acc @ [now] else acc) s2" by (rule counts_attempt [OF _ time em])
  have sub: "subseq acc (acc @ [now])" by (rule list_emb_prefix) simp
  show ?thesis
  proof (cases "rdAllowed d1 \<and> rdAllowed d2")
    case False
    then have l: "login env email pw totp meta now s
        = (Inl (OtherError (TooManyAttempts (max (rdRetryAfterSeconds d1) (rdRetryAfterSeconds d2)))), s2)"
      using ip em e by (auto simp: login_def bindS_def bothAllowed_def Let_def)
    then show ?thesis using counts_weaken [OF c2 order_refl, of acc] sub e by (simp add: noteLogin_def split: if_splits)
  next
    case True
    obtain r s3 where acc: "acceptCredentials env e pw totp now s2 = (r, s3)"
      by (cases "acceptCredentials env e pw totp now s2")
    have c3: "counts e now (acc @ [now]) s3"
      using counts_neutral [OF c2 neutralD [OF neutral_services(12) acc]] True by simp
    show ?thesis
    proof (cases r)
      case (Inl err)
      then have "login env email pw totp meta now s = (Inl err, s3)"
        using ip em e acc True by (auto simp: login_def bindS_def bothAllowed_def Let_def)
      moreover have "counts e now acc s3" "counts e now [] s3"
        using counts_weaken [OF c3 order_refl] sub by auto
      ultimately show ?thesis using c3 e by (simp add: noteLogin_def split: DomainError.split AuthError.split)
    next
      case (Inr user)
      let ?s4 = "s3\<lparr>adRate := refundAttempt ?ip (rdToken d1) (resetKey (''login:email:'' @ e) (adRate s3))\<rparr>"
      obtain q s5 where iss: "issueTokens env (usId user) now ?s4 = (q, s5)" by (cases "issueTokens env (usId user) now ?s4")
      have l: "login env email pw totp meta now s = (q, s5)"
        using ip em e acc True Inr iss by (auto simp: login_def bindS_def bothAllowed_def Let_def)
      have "rlWindows (adRate ?s4) (emailKey e) = emptyWindow"
        using other_keys(1) [of "ipOf meta" e]
        by (auto simp: refundAttempt_def resetKey_def emailKey_def split: option.split)
      then have "counts e now [] ?s4"
        by (intro counts_reset [OF c3]) (auto simp: refundAttempt_def resetKey_def split: option.split)
      then have "counts e now [] s5" by (rule counts_neutral [OF _ neutralD [OF neutral_repository(14) iss]])
      moreover have "\<exists>what. q = Inl (OtherError (UniqueViolation what))" if "q = Inl err" for err
        using issueTokens_Inl [of env "usId user" now ?s4 err s5] iss that by auto
      ultimately show ?thesis using l e by (cases q) (auto simp: noteLogin_def)
    qed
  qed
qed

lemma setNewPassword_Inr:
  "setNewPassword env u new now s = (Inr (), t) \<Longrightarrow> findUser u s = Some user \<Longrightarrow> usEmail user = Some e \<Longrightarrow>
   rlWindows (adRate t) (emailKey e) = emptyWindow \<and> rlNext (adRate s) \<le> rlNext (adRate t)"
proof -
  assume a: "setNewPassword env u new now s = (Inr (), t)" and f: "findUser u s = Some user" "usEmail user = Some e"
  have n: "neutral e (bindS (hashPassword env new) (\<lambda>h. bindS (repoChangePassword u h ''auth.password_reset'') (\<lambda>_.
     revokeAllForUser u now)))" by (intro neutral_intros)
  obtain h s1 s2 n' s3 where c: "hashPassword env new s = (Inr h, s1)"
    "repoChangePassword u h ''auth.password_reset'' s1 = (Inr (), s2)" "revokeAllForUser u now s2 = (Inr n', s3)"
    and t: "t = s3\<lparr>adRate := resetKey (''login:email:'' @ e) (adRate s3)\<rparr>"
    using a f unfolding setNewPassword_def by (auto simp: bindS_Inr_iff split: if_splits)
  have "rateNeutral e s s3"
    using neutralD [OF n, of s "Inr n'" s3] c by (simp add: bindS_def)
  then show ?thesis by (simp add: t rateNeutral_def resetKey_def emailKey_def)
qed

lemma setNewPassword_neutral:
  "\<not> (fst (setNewPassword env u new now s) = Inr () \<and> (\<exists>user. findUser u s = Some user \<and> usEmail user = Some e)) \<Longrightarrow>
   rateNeutral e s (snd (setNewPassword env u new now s))"
proof -
  assume no: "\<not> (fst (setNewPassword env u new now s) = Inr () \<and> (\<exists>user. findUser u s = Some user \<and> usEmail user = Some e))"
  let ?m = "\<lambda>v. bindS (guardS (usDeletedAt v \<noteq> None) (OtherError InvalidPasswordResetToken)) (\<lambda>_.
     bindS (hashPassword env new) (\<lambda>h. bindS (repoChangePassword u h ''auth.password_reset'') (\<lambda>_. revokeAllForUser u now)))"
  have n: "neutral e (?m v)" for v by (intro neutral_intros)
  show ?thesis
  proof (cases "findUser u s")
    case None
    then show ?thesis by (simp add: setNewPassword_def bindS_def)
  next
    case (Some v)
    obtain r t where m: "?m v s = (r, t)" by (cases "?m v s")
    then have eq: "setNewPassword env u new now s = (case r of Inl err \<Rightarrow> (Inl err, t) | Inr k \<Rightarrow> (case usEmail v of None \<Rightarrow> returnS ()
        | Some e \<Rightarrow> putS (\<lambda>s. s\<lparr>adRate := resetKey (''login:email:'' @ e) (adRate s)\<rparr>)) t)"
      using Some by (auto simp: setNewPassword_def bindS_def split: prod.splits sum.splits)
    have st: "rateNeutral e s t" by (rule neutralD [OF n m])
    show ?thesis
    proof (cases r)
      case (Inr k)
      then have "usEmail v \<noteq> Some e" using no Some eq by (auto split: option.splits)
      then have "rateNeutral e t (snd (setNewPassword env u new now s))"
        using Inr by (auto simp: eq rateNeutral_def resetKey_def emailKey_def split: option.split)
      then show ?thesis by (rule rateNeutral_trans [OF st])
    qed (use st eq in simp)
  qed
qed

lemma counts_resetPassword:
  assumes c: "counts e t0 acc s" and time: "t0 \<le> now"
  shows "counts e now (noteLogin env e (ResetPassword token new meta now) s acc) (snd (resetPassword env token new meta now s))"
proof -
  obtain d s1 where lim: "consumeS (''pwdreset:ip:'' @ ipOf meta) PASSWORD_RESET_LIMIT PASSWORD_RESET_WINDOW_SECONDS now s = (Inr d, s1)"
    by (auto simp: consumeS_def case_prod_unfold Let_def)
  obtain r1 where s1: "s1 = s\<lparr>adRate := r1\<rparr>" using consumeS_Inr [OF lim] by blast
  have c1: "counts e now acc s1"
    using counts_neutral [OF counts_weaken [OF c time subseq_order.order_refl] neutralD [OF neutral_keys(6) lim]] .
  show ?thesis
  proof (cases "rdAllowed d \<and> token \<noteq> '''' \<and> unexpired now (map_of (adReset s) token) \<noteq> None")
    case False
    have n: "neutral e (takeResetToken token now)" by (rule neutral_parts)
    have "rateNeutral e s1 (snd (resetPassword env token new meta now s)) \<and> fst (resetPassword env token new meta now s) \<noteq> Inr ()"
      using False lim n [unfolded neutral_def, rule_format, of s1]
      by (auto simp: resetPassword_def takeResetToken_def bindS_def s1 split: option.split)
    then show ?thesis using counts_neutral [OF c1] by (simp add: noteLogin_def)
  next
    case True
    then obtain u where u: "unexpired now (map_of (adReset s) token) = Some u" by auto
    let ?s2 = "s1\<lparr>adReset := filter (\<lambda>(k, v). k \<noteq> token) (adReset s1)\<rparr>"
    have eq: "resetPassword env token new meta now s = setNewPassword env u new now ?s2"
      using True lim u by (simp add: resetPassword_def takeResetToken_def bindS_def s1)
    have c2: "counts e now acc ?s2" by (rule counts_neutral [OF c1]) (simp add: rateNeutral_def)
    have f: "findUser u ?s2 = findUser u s" by (simp add: findUser_def s1)
    show ?thesis
    proof (cases "fst (setNewPassword env u new now ?s2) = Inr () \<and> (\<exists>user. findUser u s = Some user \<and> usEmail user = Some e)")
      case True
      then obtain t user where t: "setNewPassword env u new now ?s2 = (Inr (), t)" and usr: "findUser u s = Some user" "usEmail user = Some e"
        by (metis prod.collapse)
      have "counts e now [] t"
        using counts_reset [OF c2] setNewPassword_Inr [OF t _ usr(2)] usr(1) f by simp
      then show ?thesis using eq t u usr by (simp add: noteLogin_def)
    next
      case False
      then have "rateNeutral e ?s2 (snd (setNewPassword env u new now ?s2))"
        by (intro setNewPassword_neutral) (simp add: f)
      then show ?thesis using counts_neutral [OF c2] eq u False by (auto simp: noteLogin_def)
    qed
  qed
qed

lemma counts_serve:
  assumes c: "counts e t0 acc s" and time: "t0 \<le> timeOf q"
  shows "counts e (timeOf q) (noteLogin env e q s acc) (serveAuth env q s)"
proof -
  have n: "neutral e m \<Longrightarrow> counts e (timeOf q) acc (snd (m s))" for m :: "'x auth"
    using counts_neutral [OF counts_weaken [OF c time subseq_order.order_refl]] by (simp add: neutral_def)
  show ?thesis
  proof (cases q)
    case (Login email pw totp meta now)
    show ?thesis
    proof (cases "normalEmail email = e")
      case True
      then show ?thesis using counts_login [OF c _ True] time Login by simp
    next
      case False
      then show ?thesis using n [OF neutral_login_elsewhere [OF False]] Login by (simp add: noteLogin_def)
    qed
  next
    case (ResetPassword token new meta now)
    then show ?thesis using counts_resetPassword [OF c] time by simp
  qed (use n [OF neutral_services(1)] n [OF neutral_services(2)] n [OF neutral_services(3)] n [OF neutral_services(4)]
        n [OF neutral_services(5)] n [OF neutral_services(6)] n [OF neutral_services(7)] n [OF neutral_services(8)]
        n [OF neutral_services(9)] n [OF neutral_services(10)] n [OF neutral_services(11)]
      in \<open>simp_all add: noteLogin_def\<close>)
qed

lemma counts_run:
  "counts e t0 acc s \<Longrightarrow> inOrder t0 qs \<Longrightarrow>
   \<exists>now s'. counts e now (wrongGuesses env e qs s acc) s'"
proof (induction qs arbitrary: t0 acc s)
  case Nil
  then show ?case by auto
next
  case (Cons q qs)
  have "counts e (timeOf q) (noteLogin env e q s acc) (serveAuth env q s)"
    using Cons.prems by (intro counts_serve) auto
  then show ?case using Cons.IH Cons.prems(2) by simp
qed

text \<open>
  C24. An account cannot be tried at will: over any sequence of requests, in any window of
  fifteen minutes, at most five logins for an address are answered "wrong password" that were
  not followed by a right one or a reset, from however many addresses of the network they come.
\<close>

theorem guesses_are_limited:
  assumes "inOrder 0 qs"
  shows "length (filter (\<lambda>x. t - 900000 < x \<and> x \<le> t) (wrongGuesses env e qs noAccounts [])) \<le> 5"
proof -
  have "counts e 0 [] noAccounts"
    unfolding counts_def
    by (intro exI [of _ limitStart]) (simp add: limitOk_start, simp add: limitStart_def noAccounts_def noLimits_def)
  then obtain now s' where "counts e now (wrongGuesses env e qs noAccounts []) s'"
    using counts_run assms by blast
  then obtain run where run: "limitOk LOGIN_LIMIT LOGIN_WINDOW_SECONDS run"
    and sub: "subseq (wrongGuesses env e qs noAccounts []) (map snd (lrAdmitted run))"
    by (auto simp: counts_def)
  have "length (filter (\<lambda>x. t - 900000 < x \<and> x \<le> t) (wrongGuesses env e qs noAccounts []))
      \<le> length (filter (\<lambda>x. t - 900000 < x \<and> x \<le> t) (map snd (lrAdmitted run)))"
    by (rule list_emb_length [OF subseq_filter [OF sub]])
  also have "\<dots> = length (inWindow LOGIN_WINDOW_SECONDS t (lrAdmitted run))"
    by (simp add: inWindow_def filter_map comp_def case_prod_unfold LOGIN_WINDOW_SECONDS_def)
  also have "\<dots> \<le> 5" using run by (simp add: limitOk_def LOGIN_LIMIT_def)
  finally show ?thesis .
qed

lemma guesses_are_limited_witness:
  "length (filter (\<lambda>x. 9000 - 900000 < x \<and> x \<le> 9000) (wrongGuesses sampleEnv ''alice@x.uz''
     [aliceJoins, Login ''alice@x.uz'' ''a'' None home 2000, Login ''Alice@x.uz'' ''b'' None home 3000] noAccounts [])) \<le> 5"
  by (rule guesses_are_limited) (simp add: aliceJoins_def)

end
