(* ===== verification/ChessRules.thy ===== *)
theory ChessRules
  imports Clock Service "HOL-Library.Word"
begin

text \<open>
  \<^verbatim>\<open>src/core/chess/rules.ts\<close>: what the server decides about a position. The move generator
  \<^verbatim>\<open>chess.js\<close> is not part of the repository and is the record of functions \<open>ChessJs\<close>, an argument
  of every definition that calls it; \<open>'c\<close> is its position object. What is assumed of it stands
  in \<open>readsFen\<close>, \<open>turnsAlternate\<close> and \<open>progresses\<close>, each a rule of chess or of the FEN format.
  Numbers in a FEN are decimal: other literals of \<^verbatim>\<open>Number\<close> (exponents, hexadecimal) are read
  as not finite, and chess.js writes none.
\<close>

unbundle bit_operations_syntax

section \<open>The move generator\<close>

datatype PieceType = PAWN | KNIGHT | BISHOP | ROOK | QUEEN | KING

type_synonym Square = "(PieceType \<times> ClockSide) option"

type_synonym Board = "Square list list"

record ChessMove =
  mvSan :: string
  mvIsCapture :: bool
  mvPiece :: PieceType

text \<open>
  \<open>chessNew\<close> is the constructor (\<open>None\<close>: it throws), \<open>chessMove\<close> the move from one square to
  another with an optional promotion (\<open>None\<close>: it throws), and \<open>chessMoves\<close> the positions after
  each of the legal moves, as \<^verbatim>\<open>move\<close> and \<^verbatim>\<open>undo\<close> produce them.
\<close>

record 'c ChessJs =
  chessNew :: "string \<Rightarrow> 'c option"
  chessMove :: "'c \<Rightarrow> string \<Rightarrow> string \<Rightarrow> char option \<Rightarrow> (ChessMove \<times> 'c) option"
  chessMoves :: "'c \<Rightarrow> 'c list"
  chessFen :: "'c \<Rightarrow> string"
  chessBoard :: "'c \<Rightarrow> Board"
  chessTurn :: "'c \<Rightarrow> ClockSide"
  chessInCheck :: "'c \<Rightarrow> bool"
  chessIsCheckmate :: "'c \<Rightarrow> bool"
  chessIsStalemate :: "'c \<Rightarrow> bool"

datatype ChessFailure = InvalidFen

definition newChess :: "'c ChessJs \<Rightarrow> string \<Rightarrow> ChessFailure + 'c" where
  "newChess lib fen = (case chessNew lib fen of None \<Rightarrow> Inl InvalidFen | Some c \<Rightarrow> Inr c)"

section \<open>FEN\<close>

text \<open>\<^verbatim>\<open>s.split(c)\<close> on one character, and \<^verbatim>\<open>xs.join(c)\<close>.\<close>

fun jsSplit :: "char \<Rightarrow> string \<Rightarrow> string list" where
  "jsSplit c [] = [[]]"
| "jsSplit c (x # xs) =
     (if x = c then [] # jsSplit c xs
      else case jsSplit c xs of [] \<Rightarrow> [[x]] | w # ws \<Rightarrow> (x # w) # ws)"

fun jsJoin :: "string \<Rightarrow> string list \<Rightarrow> string" where
  "jsJoin sep [] = []"
| "jsJoin sep [w] = w"
| "jsJoin sep (w # v # ws) = w @ sep @ jsJoin sep (v # ws)"

definition itemAt :: "'a list \<Rightarrow> nat \<Rightarrow> 'a option" where
  "itemAt xs i = (if i < length xs then Some (xs ! i) else None)"

definition STARTING_FEN :: string where
  "STARTING_FEN = ''rnbqkbnr/pppppppp/8/8/8/8/PPPPPPPP/RNBQKBNR w KQkq - 0 1''"

definition sideToMove :: "string \<Rightarrow> ClockSide" where
  "sideToMove fen = (if itemAt (jsSplit CHR '' '' fen) 1 = Some ''b'' then B else W)"

definition halfmoveClock :: "string \<Rightarrow> int" where
  "halfmoveClock fen =
     (case itemAt (jsSplit CHR '' '' fen) 4 of
        None \<Rightarrow> 0
      | Some field \<Rightarrow> (case readInt field of None \<Rightarrow> 0 | Some n \<Rightarrow> n))"

definition positionKey :: "string \<Rightarrow> string" where
  "positionKey fen = jsJoin '' '' (take 4 (jsSplit CHR '' '' fen))"

section \<open>Material\<close>

datatype Shade = LIGHT | DARK

record SidePieces =
  pcP :: nat
  pcN :: nat
  pcB :: nat
  pcR :: nat
  pcQ :: nat
  bishopSquares :: "Shade list"

definition noPieces :: SidePieces where
  "noPieces = \<lparr>pcP = 0, pcN = 0, pcB = 0, pcR = 0, pcQ = 0, bishopSquares = []\<rparr>"

definition shadeAt :: "nat \<Rightarrow> nat \<Rightarrow> Shade" where
  "shadeAt rankIdx fileIdx = (if (rankIdx + fileIdx) mod 2 = 0 then LIGHT else DARK)"

fun addPiece :: "PieceType \<Rightarrow> Shade \<Rightarrow> SidePieces \<Rightarrow> SidePieces" where
  "addPiece PAWN sh s = s\<lparr>pcP := pcP s + 1\<rparr>"
| "addPiece KNIGHT sh s = s\<lparr>pcN := pcN s + 1\<rparr>"
| "addPiece BISHOP sh s = s\<lparr>pcB := pcB s + 1, bishopSquares := bishopSquares s @ [sh]\<rparr>"
| "addPiece ROOK sh s = s\<lparr>pcR := pcR s + 1\<rparr>"
| "addPiece QUEEN sh s = s\<lparr>pcQ := pcQ s + 1\<rparr>"
| "addPiece KING sh s = s"

fun countSquare :: "nat \<Rightarrow> nat \<times> Square \<Rightarrow> (ClockSide \<Rightarrow> SidePieces) \<Rightarrow> ClockSide \<Rightarrow> SidePieces" where
  "countSquare rankIdx (fileIdx, None) out = out"
| "countSquare rankIdx (fileIdx, Some (t, side)) out =
     (if t = KING then out else out(side := addPiece t (shadeAt rankIdx fileIdx) (out side)))"

definition countBoard :: "Board \<Rightarrow> ClockSide \<Rightarrow> SidePieces" where
  "countBoard board =
     fold (\<lambda>(rankIdx, row). fold (countSquare rankIdx) (enumerate 0 row)) (enumerate 0 board) (\<lambda>_. noPieces)"

definition countPieces :: "'c ChessJs \<Rightarrow> string \<Rightarrow> ChessFailure + (ClockSide \<Rightarrow> SidePieces)" where
  "countPieces lib fen = bindE (newChess lib fen) (\<lambda>c. Inr (countBoard (chessBoard lib c)))"

text \<open>FIDE 5.2.2 and FIDE 6.9 on counted material.\<close>

definition deadMaterial :: "SidePieces \<Rightarrow> SidePieces \<Rightarrow> bool" where
  "deadMaterial w b =
     (if pcP w + pcP b > 0 \<or> pcR w + pcR b > 0 \<or> pcQ w + pcQ b > 0 then False
      else let minorsW = pcN w + pcB w; minorsB = pcN b + pcB b in
        if minorsW = 0 \<and> minorsB = 0 then True
        else if minorsW = 1 \<and> minorsB = 0 \<or> minorsW = 0 \<and> minorsB = 1 then True
        else if pcB w = 1 \<and> pcB b = 1 \<and> minorsW = 1 \<and> minorsB = 1
          then itemAt (bishopSquares w) 0 = itemAt (bishopSquares b) 0
        else False)"

definition matingMaterial :: "SidePieces \<Rightarrow> bool" where
  "matingMaterial c = (if pcP c > 0 \<or> pcR c > 0 \<or> pcQ c > 0 then True else pcN c + pcB c \<ge> 2)"

definition isDeadPosition :: "'c ChessJs \<Rightarrow> string \<Rightarrow> ChessFailure + bool" where
  "isDeadPosition lib fen = bindE (countPieces lib fen) (\<lambda>pieces. Inr (deadMaterial (pieces W) (pieces B)))"

definition hasMatingMaterial :: "'c ChessJs \<Rightarrow> string \<Rightarrow> ClockSide \<Rightarrow> ChessFailure + bool" where
  "hasMatingMaterial lib fen side = bindE (countPieces lib fen) (\<lambda>pieces. Inr (matingMaterial (pieces side)))"

section \<open>Zobrist hashing\<close>

text \<open>
  The keys are 64-bit words: every \<^verbatim>\<open>BigInt\<close> of the generator is masked to 64 bits, or, in the
  middle line of \<^verbatim>\<open>next\<close>, shifted right from such a value. The first value drawn is the first
  key of the first piece.
\<close>

definition xorshiftSeed :: "64 word \<Rightarrow> 64 word" where
  "xorshiftSeed seed = (if seed = 0 then 0x9e3779b97f4a7c15 else seed)"

definition xorshiftNext :: "64 word \<Rightarrow> 64 word" where
  "xorshiftNext s =
     (let x = s XOR push_bit 13 s;
          y = x XOR drop_bit 7 x
      in y XOR push_bit 17 y)"

fun drawKeys :: "nat \<Rightarrow> 64 word \<Rightarrow> 64 word list \<times> 64 word" where
  "drawKeys 0 s = ([], s)"
| "drawKeys (Suc n) s = (let x = xorshiftNext s; (ks, s') = drawKeys n x in (x # ks, s'))"

fun drawTable :: "nat \<Rightarrow> 64 word \<Rightarrow> 64 word list list \<times> 64 word" where
  "drawTable 0 s = ([], s)"
| "drawTable (Suc n) s = (let (row, s') = drawKeys 64 s; (rows, s'') = drawTable n s' in (row # rows, s''))"

record ZobristHasher =
  pieceKeys :: "64 word list list"
  sideKey :: "64 word"
  castlingKeys :: "64 word list"
  epFileKeys :: "64 word list"

definition newHasher :: "64 word \<Rightarrow> ZobristHasher" where
  "newHasher seed =
     (let (pieces, s1) = drawTable 12 (xorshiftSeed seed);
          side = xorshiftNext s1;
          (castling, s2) = drawKeys 16 side;
          (files, s3) = drawKeys 8 s2
      in \<lparr>pieceKeys = pieces, sideKey = side, castlingKeys = castling, epFileKeys = files\<rparr>)"

definition ZOBRIST_SEED :: "64 word" where
  "ZOBRIST_SEED = 0x515279f384d1c0de"

text \<open>A key that is not there leaves the hash as it is.\<close>

definition keyOf :: "64 word option \<Rightarrow> 64 word" where
  "keyOf k = (case k of None \<Rightarrow> 0 | Some x \<Rightarrow> x)"

fun typeIndex :: "PieceType \<Rightarrow> nat" where
  "typeIndex PAWN = 0"
| "typeIndex KNIGHT = 1"
| "typeIndex BISHOP = 2"
| "typeIndex ROOK = 3"
| "typeIndex QUEEN = 4"
| "typeIndex KING = 5"

definition pieceIndex :: "PieceType \<Rightarrow> ClockSide \<Rightarrow> nat" where
  "pieceIndex t color = typeIndex t + (if color = W then 0 else 6)"

definition fenField :: "nat \<Rightarrow> string \<Rightarrow> string" where
  "fenField i fen = (case itemAt (jsSplit CHR '' '' fen) i of None \<Rightarrow> ''-'' | Some field \<Rightarrow> field)"

definition castlingMask :: "string \<Rightarrow> nat" where
  "castlingMask fen =
     (let field = fenField 2 fen
      in (if CHR ''K'' \<in> set field then 1 else 0) + (if CHR ''Q'' \<in> set field then 2 else 0)
       + (if CHR ''k'' \<in> set field then 4 else 0) + (if CHR ''q'' \<in> set field then 8 else 0))"

text \<open>\<open>None\<close> also for an index no key has: an empty field, or a character below \<^verbatim>\<open>a\<close>.\<close>

definition enPassantFile :: "string \<Rightarrow> nat option" where
  "enPassantFile fen =
     (case fenField 3 fen of
        [] \<Rightarrow> None
      | c # cs \<Rightarrow> if fenField 3 fen = ''-'' then None
          else if (of_char c :: nat) < 97 then None else Some (of_char c - 97))"

fun hashSquare :: "ZobristHasher \<Rightarrow> nat \<Rightarrow> nat \<times> Square \<Rightarrow> 64 word \<Rightarrow> 64 word" where
  "hashSquare H rankIdx (fileIdx, None) h = h"
| "hashSquare H rankIdx (fileIdx, Some (t, side)) h =
     h XOR keyOf (case itemAt (pieceKeys H) (pieceIndex t side) of
       None \<Rightarrow> None | Some ks \<Rightarrow> itemAt ks (rankIdx * 8 + fileIdx))"

definition hashPosition :: "ZobristHasher \<Rightarrow> Board \<Rightarrow> ClockSide \<Rightarrow> string \<Rightarrow> 64 word" where
  "hashPosition H board side fen =
     (let h = fold (\<lambda>(rankIdx, row). fold (hashSquare H rankIdx) (enumerate 0 row)) (enumerate 0 board) 0;
          h1 = (if side = W then h XOR sideKey H else h);
          h2 = h1 XOR keyOf (itemAt (castlingKeys H) (castlingMask fen))
      in h2 XOR keyOf (case enPassantFile fen of None \<Rightarrow> None | Some f \<Rightarrow> itemAt (epFileKeys H) f))"

text \<open>\<^verbatim>\<open>toString(16)\<close> and \<^verbatim>\<open>padStart(16, '0')\<close>.\<close>

definition hexDigit :: "nat \<Rightarrow> char" where
  "hexDigit d = (if d < 10 then char_of (48 + d) else char_of (87 + d))"

fun showHex :: "nat \<Rightarrow> string" where
  "showHex n = (if n < 16 then [hexDigit n] else showHex (n div 16) @ [hexDigit (n mod 16)])"

declare showHex.simps [simp del]

definition padStart :: "nat \<Rightarrow> char \<Rightarrow> string \<Rightarrow> string" where
  "padStart n c s = replicate (n - length s) c @ s"

definition zobristHash :: "'c ChessJs \<Rightarrow> string \<Rightarrow> ChessFailure + string" where
  "zobristHash lib fen = bindE (newChess lib fen) (\<lambda>c.
     Inr (padStart 16 CHR ''0''
       (showHex (unat (hashPosition (newHasher ZOBRIST_SEED) (chessBoard lib c) (chessTurn lib c) fen)))))"

section \<open>Moves and the end of the game\<close>

record MoveFlags =
  flCheck :: bool
  flCheckmate :: bool
  flStalemate :: bool
  flInsufficientMaterial :: bool
  flFiftyMove :: bool
  flCapture :: bool
  flPawnMove :: bool

record ValidatedMove =
  vmSan :: string
  vmUci :: string
  vmFenAfter :: string
  vmPositionHash :: string
  vmIrreversible :: bool
  vmFlags :: MoveFlags

definition isFile :: "char \<Rightarrow> bool" where
  "isFile c \<longleftrightarrow> c \<in> set ''abcdefgh''"

definition isRank :: "char \<Rightarrow> bool" where
  "isRank c \<longleftrightarrow> c \<in> set ''12345678''"

text \<open>\<^verbatim>\<open>UCI_RE\<close>: two squares and at most one promotion letter.\<close>

definition parseUci :: "string \<Rightarrow> (string \<times> string \<times> char option) option" where
  "parseUci uci =
     (case uci of
        [a, b, c, d] \<Rightarrow>
          if isFile a \<and> isRank b \<and> isFile c \<and> isRank d then Some ([a, b], [c, d], None) else None
      | [a, b, c, d, e] \<Rightarrow>
          if isFile a \<and> isRank b \<and> isFile c \<and> isRank d \<and> e \<in> set ''qrbn''
          then Some ([a, b], [c, d], Some e) else None
      | _ \<Rightarrow> None)"

text \<open>\<open>None\<close> is \<^verbatim>\<open>{ legal: false }\<close>, the answer to everything chess.js throws on.\<close>

definition validateMove :: "'c ChessJs \<Rightarrow> string \<Rightarrow> string \<Rightarrow> ValidatedMove option" where
  "validateMove lib fen uci =
     (case parseUci uci of None \<Rightarrow> None | Some (src, dst, promotion) \<Rightarrow>
      case chessNew lib fen of None \<Rightarrow> None | Some c \<Rightarrow>
      case chessMove lib c src dst promotion of None \<Rightarrow> None | Some (mv, c') \<Rightarrow>
      let fenAfter = chessFen lib c' in
      case bindE (zobristHash lib fenAfter) (\<lambda>hash. bindE (isDeadPosition lib fenAfter) (\<lambda>dead.
        Inr \<lparr>vmSan = mvSan mv, vmUci = uci, vmFenAfter = fenAfter, vmPositionHash = hash,
             vmIrreversible = (mvIsCapture mv \<or> mvPiece mv = PAWN),
             vmFlags = \<lparr>flCheck = chessInCheck lib c', flCheckmate = chessIsCheckmate lib c',
               flStalemate = chessIsStalemate lib c', flInsufficientMaterial = dead,
               flFiftyMove = (halfmoveClock fenAfter \<ge> 100), flCapture = mvIsCapture mv,
               flPawnMove = (mvPiece mv = PAWN)\<rparr>\<rparr>))
      of Inl e \<Rightarrow> None | Inr v \<Rightarrow> Some v)"

datatype PositionEnd =
  CHECKMATE | STALEMATE | THREEFOLD_REPETITION | FIFTY_MOVE_RULE | INSUFFICIENT_MATERIAL

definition gameEndFromPosition :: "'c ChessJs \<Rightarrow> string \<Rightarrow> string list \<Rightarrow> ChessFailure + PositionEnd option" where
  "gameEndFromPosition lib fen priorFens = bindE (newChess lib fen) (\<lambda>c.
     if chessIsCheckmate lib c then Inr (Some CHECKMATE)
     else if chessIsStalemate lib c then Inr (Some STALEMATE)
     else bindE (isDeadPosition lib fen) (\<lambda>dead.
       if dead then Inr (Some INSUFFICIENT_MATERIAL)
       else if halfmoveClock fen \<ge> 100 then Inr (Some FIFTY_MOVE_RULE)
       else let key = positionKey fen;
                repetitions = 1 + length (filter (\<lambda>f. positionKey f = key) priorFens)
            in if repetitions \<ge> 3 then Inr (Some THREEFOLD_REPETITION) else Inr None))"

fun perftRec :: "'c ChessJs \<Rightarrow> nat \<Rightarrow> 'c \<Rightarrow> nat" where
  "perftRec lib depth c =
     (if depth = 0 then 1
      else let moves = chessMoves lib c in
        if depth = 1 then length moves
        else fold (\<lambda>c' nodes. nodes + perftRec lib (depth - 1) c') moves 0)"

declare perftRec.simps [simp del]

definition perft :: "'c ChessJs \<Rightarrow> string \<Rightarrow> nat \<Rightarrow> ChessFailure + nat" where
  "perft lib fen depth = bindE (newChess lib fen) (\<lambda>c. Inr (perftRec lib depth c))"

fun pgnParts :: "nat \<Rightarrow> string list \<Rightarrow> string list" where
  "pgnParts moveNo [] = []"
| "pgnParts moveNo [white] = [jsTrim (showNat moveNo @ ''. '' @ white)]"
| "pgnParts moveNo (white # black # sans) =
     (showNat moveNo @ ''. '' @ white @ '' '' @ black) # pgnParts (moveNo + 1) sans"

definition buildPgn :: "string list \<Rightarrow> string \<Rightarrow> string" where
  "buildPgn sans res = jsJoin '' '' (pgnParts 1 sans @ [res])"

section \<open>Lemmas on FEN fields\<close>

lemma jsSplit_not_Nil [simp]: "jsSplit c s \<noteq> []"
  by (induction s) (auto split: list.split)

lemma jsJoin_jsSplit: "jsJoin [c] (jsSplit c s) = s"
proof (induction s)
  case (Cons x s)
  then show ?case by (cases "jsSplit c s"; cases "tl (jsSplit c s)") auto
qed simp

lemma jsSplit_fields: "w \<in> set (jsSplit c s) \<Longrightarrow> c \<notin> set w"
  by (induction s arbitrary: w) (auto split: list.splits if_splits)

lemma jsSplit_word: "c \<notin> set w \<Longrightarrow> jsSplit c (w @ c # s) = w # jsSplit c s"
  by (induction w) auto

lemma jsSplit_last: "c \<notin> set w \<Longrightarrow> jsSplit c w = [w]"
  by (induction w) auto

lemma jsSplit_jsJoin: "ws \<noteq> [] \<Longrightarrow> \<forall>w \<in> set ws. c \<notin> set w \<Longrightarrow> jsSplit c (jsJoin [c] ws) = ws"
  by (induction "[c]" ws rule: jsJoin.induct) (auto simp: jsSplit_last jsSplit_word)

lemma positionKey_fields: "jsSplit CHR '' '' (positionKey fen) = take 4 (jsSplit CHR '' '' fen)"
  unfolding positionKey_def
  by (rule jsSplit_jsJoin) (auto dest!: in_set_takeD jsSplit_fields)

lemma itemAt_key:
  assumes "positionKey f = positionKey g" "i < 4"
  shows "itemAt (jsSplit CHR '' '' f) i = itemAt (jsSplit CHR '' '' g) i"
proof -
  have "take 4 (jsSplit CHR '' '' f) = take 4 (jsSplit CHR '' '' g)"
    using assms(1) positionKey_fields by metis
  then have "itemAt (take 4 (jsSplit CHR '' '' f)) i = itemAt (take 4 (jsSplit CHR '' '' g)) i" by simp
  then show ?thesis using assms(2) by (auto simp: itemAt_def split: if_splits)
qed

lemma key_facts:
  assumes "positionKey f = positionKey g"
  shows "sideToMove f = sideToMove g" "castlingMask f = castlingMask g" "enPassantFile f = enPassantFile g"
proof -
  have "fenField i f = fenField i g" if "i < 4" for i using itemAt_key [OF assms that] by (simp add: fenField_def)
  then show "sideToMove f = sideToMove g" "castlingMask f = castlingMask g" "enPassantFile f = enPassantFile g"
    using itemAt_key [OF assms, of 1] by (simp_all add: sideToMove_def castlingMask_def enPassantFile_def cong: list.case_cong)
qed

section \<open>What is assumed of the move generator\<close>

text \<open>The board and the side to move are read from the first fields of the FEN.\<close>

definition readsFen :: "'c ChessJs \<Rightarrow> bool" where
  "readsFen lib \<longleftrightarrow> (\<forall>f g c d. chessNew lib f = Some c \<longrightarrow> chessNew lib g = Some d \<longrightarrow>
     positionKey f = positionKey g \<longrightarrow> chessBoard lib c = chessBoard lib d \<and> chessTurn lib c = chessTurn lib d)"

text \<open>A legal move passes the turn.\<close>

definition turnsAlternate :: "'c ChessJs \<Rightarrow> bool" where
  "turnsAlternate lib \<longleftrightarrow> (\<forall>f c src dst p mv c'. chessNew lib f = Some c \<longrightarrow>
     chessMove lib c src dst p = Some (mv, c') \<longrightarrow> sideToMove (chessFen lib c') = otherSide (sideToMove f))"

text \<open>
  Captures and pawn moves use something up that nothing restores: some measure of the position,
  for instance the pieces on the board plus the ranks the pawns still have ahead of them, never
  grows and falls with each of them.
\<close>

definition progresses :: "'c ChessJs \<Rightarrow> (string \<Rightarrow> nat) \<Rightarrow> bool" where
  "progresses lib \<mu> \<longleftrightarrow> (\<forall>f c src dst p mv c'. chessNew lib f = Some c \<longrightarrow>
     chessMove lib c src dst p = Some (mv, c') \<longrightarrow>
     \<mu> (positionKey (chessFen lib c')) \<le> \<mu> (positionKey f) \<and>
     (mvIsCapture mv \<or> mvPiece mv = PAWN \<longrightarrow> \<mu> (positionKey (chessFen lib c')) < \<mu> (positionKey f)))"

lemma validateMove_Some:
  assumes "validateMove lib fen uci = Some v"
  obtains c src dst p mv c' where "chessNew lib fen = Some c" "chessMove lib c src dst p = Some (mv, c')"
    "vmFenAfter v = chessFen lib c'" "vmIrreversible v = (mvIsCapture mv \<or> mvPiece mv = PAWN)"
    "zobristHash lib (vmFenAfter v) = Inr (vmPositionHash v)" "vmUci v = uci" "vmSan v = mvSan mv"
  using assms unfolding validateMove_def by (auto simp: Let_def split: option.splits sum.splits prod.splits)

lemma validateMove_turn: "turnsAlternate lib \<Longrightarrow> validateMove lib fen uci = Some v \<Longrightarrow>
    sideToMove (vmFenAfter v) = otherSide (sideToMove fen)"
  by (erule validateMove_Some) (auto simp: turnsAlternate_def)

lemma validateMove_progress:
  "progresses lib \<mu> \<Longrightarrow> validateMove lib fen uci = Some v \<Longrightarrow>
   \<mu> (positionKey (vmFenAfter v)) \<le> \<mu> (positionKey fen) \<and>
   (vmIrreversible v \<longrightarrow> \<mu> (positionKey (vmFenAfter v)) < \<mu> (positionKey fen))"
  by (erule validateMove_Some) (auto simp: progresses_def)

lemma newChess_Inr [simp]: "newChess lib fen = Inr c \<longleftrightarrow> chessNew lib fen = Some c"
  by (simp add: newChess_def split: option.split)

section \<open>Hashes\<close>

lemma hash_of_key:
  assumes "readsFen lib" "zobristHash lib f = Inr h" "zobristHash lib g = Inr k" "positionKey f = positionKey g"
  shows "h = k"
proof -
  obtain c d where cd: "chessNew lib f = Some c" "chessNew lib g = Some d" using assms(2,3) by (auto simp: zobristHash_def)
  then have "chessBoard lib c = chessBoard lib d" "chessTurn lib c = chessTurn lib d"
    using assms(1,4) unfolding readsFen_def by blast+
  then have "hashPosition H (chessBoard lib c) (chessTurn lib c) f = hashPosition H (chessBoard lib d) (chessTurn lib d) g" for H
    using key_facts [OF assms(4)] by (simp add: hashPosition_def)
  then show ?thesis using assms(2,3) cd by (simp add: zobristHash_def newChess_def)
qed

lemma length_showHex: "n < 16 ^ k \<Longrightarrow> 0 < k \<Longrightarrow> length (showHex n) \<le> k"
proof (induction n arbitrary: k rule: showHex.induct)
  case (1 n)
  show ?case
  proof (cases "n < 16")
    case True
    then show ?thesis using 1(3) by (subst showHex.simps) simp
  next
    case False
    then obtain j where k: "k = Suc j" "0 < j" using 1(2,3) by (cases k; cases "k - 1") auto
    have "n div 16 < 16 ^ j" using 1(2) k by (simp add: less_mult_imp_div_less mult.commute)
    then show ?thesis using False k "1.IH" [of j] by (subst showHex.simps) simp
  qed
qed

lemma zobristHash_length: "zobristHash lib fen = Inr h \<Longrightarrow> length h = 16"
proof -
  have "length (padStart 16 CHR ''0'' (showHex (unat (x :: 64 word)))) = 16" for x
    using length_showHex [of "unat x" 16] unsigned_less [of x, where 'a = nat] by (simp add: padStart_def)
  then show "zobristHash lib fen = Inr h \<Longrightarrow> length h = 16" by (auto simp: zobristHash_def)
qed

section \<open>Material\<close>

text \<open>The counts are those of the board.\<close>

fun countOf :: "PieceType \<Rightarrow> SidePieces \<Rightarrow> nat" where
  "countOf PAWN s = pcP s"
| "countOf KNIGHT s = pcN s"
| "countOf BISHOP s = pcB s"
| "countOf ROOK s = pcR s"
| "countOf QUEEN s = pcQ s"
| "countOf KING s = 0"

lemma countOf_addPiece: "u \<noteq> KING \<Longrightarrow> countOf u (addPiece t sh s) = countOf u s + (if t = u then 1 else 0)"
  by (cases t; cases u) simp_all

lemma countOf_countSquare:
  "u \<noteq> KING \<Longrightarrow> countOf u (countSquare r fsq out side) = countOf u (out side) + (if snd fsq = Some (u, side) then 1 else 0)"
  by (cases "(r, fsq, out)" rule: countSquare.cases) (auto simp: countOf_addPiece)

lemma countOf_row:
  "u \<noteq> KING \<Longrightarrow> countOf u (fold (countSquare r) (enumerate k row) out side)
     = countOf u (out side) + length (filter (\<lambda>sq. sq = Some (u, side)) row)"
  by (induction row arbitrary: k out) (simp_all add: countOf_countSquare)

lemma countOf_rows:
  "u \<noteq> KING \<Longrightarrow> countOf u (fold (\<lambda>(r, row). fold (countSquare r) (enumerate 0 row)) (enumerate k board) out side)
     = countOf u (out side) + length (filter (\<lambda>sq. sq = Some (u, side)) (concat board))"
  by (induction board arbitrary: k out) (simp_all add: countOf_row)

lemma countBoard_counts:
  "t \<noteq> KING \<Longrightarrow> countOf t (countBoard board side) = length (filter (\<lambda>sq. sq = Some (t, side)) (concat board))"
  unfolding countBoard_def using countOf_rows [of t 0 board "\<lambda>_. noPieces" side]
  by (cases t) (simp_all add: noPieces_def)

text \<open>Who can still mate, and when nobody can: the two tables fit together.\<close>

lemma dead_no_mate: "deadMaterial w b \<Longrightarrow> \<not> matingMaterial w \<and> \<not> matingMaterial b"
  by (auto simp: deadMaterial_def matingMaterial_def Let_def split: if_splits)

lemma no_mate_dead:
  "\<not> matingMaterial w \<Longrightarrow> \<not> matingMaterial b \<Longrightarrow>
   deadMaterial w b \<longleftrightarrow> pcN w + pcB w + pcN b + pcB b \<le> 1 \<or>
     (pcB w = 1 \<and> pcB b = 1 \<and> itemAt (bishopSquares w) 0 = itemAt (bishopSquares b) 0)"
  by (auto simp: deadMaterial_def matingMaterial_def Let_def split: if_splits)

section \<open>Move texts\<close>

text \<open>The moves of a movetext: its words without the move numbers and the result.\<close>

definition pgnSans :: "string \<Rightarrow> string list" where
  "pgnSans pgn = filter (\<lambda>w. w \<noteq> [] \<and> last w \<noteq> CHR ''.'') (butlast (jsSplit CHR '' '' pgn))"

definition sanWord :: "string \<Rightarrow> bool" where
  "sanWord w \<longleftrightarrow> w \<noteq> [] \<and> last w \<noteq> CHR ''.'' \<and> (\<forall>c \<in> set w. \<not> isBlankChar c)"

lemma jsTrim_ends: "s \<noteq> [] \<Longrightarrow> \<not> isBlankChar (hd s) \<Longrightarrow> \<not> isBlankChar (last s) \<Longrightarrow> jsTrim s = s"
proof -
  assume s: "s \<noteq> []" "\<not> isBlankChar (hd s)" "\<not> isBlankChar (last s)"
  then have "dropWhile isBlankChar s = s" "dropWhile isBlankChar (rev s) = rev s"
    by (simp_all add: dropWhile_eq_self_iff hd_rev)
  then show "jsTrim s = s" by (simp add: jsTrim_def)
qed

lemma digitChar_facts: "d < 10 \<Longrightarrow> \<not> isBlankChar (digitChar d)"
  unfolding digitChar_def isBlankChar_def by (simp add: of_char_of)

lemma isBlankChar_blank [simp]: "isBlankChar CHR '' ''" "\<not> isBlankChar CHR ''.''"
  by code_simp+

lemma showNat_chars: "\<forall>c \<in> set (showNat n). \<not> isBlankChar c"
proof (induction n rule: showNat.induct)
  case (1 n)
  then show ?case by (subst showNat.simps) (auto simp: digitChar_facts)
qed

lemma pgnParts_words:
  assumes "\<forall>w \<in> set sans. sanWord w"
  shows "filter (\<lambda>w. w \<noteq> [] \<and> last w \<noteq> CHR ''.'')
      (concat (map (jsSplit CHR '' '') (pgnParts n sans))) = sans"
  using assms
proof (induction n sans rule: pgnParts.induct)
  case (2 n w)
  have w: "sanWord w" and nb: "CHR '' '' \<notin> set w" "CHR '' '' \<notin> set (showNat n)"
    using 2 showNat_chars [of n] by (auto simp: sanWord_def)
  have "jsTrim (showNat n @ ''. '' @ w) = showNat n @ ''. '' @ w"
    by (rule jsTrim_ends) (use w showNat_chars [of n] in \<open>auto simp: sanWord_def hd_append last_append\<close>)
  moreover have "jsSplit CHR '' '' (showNat n @ ''. '' @ w) = [showNat n @ ''.'', w]"
    using nb jsSplit_word [of "CHR '' ''" "showNat n @ ''.''" w] by (simp add: jsSplit_last)
  ultimately show ?case using w by (simp add: sanWord_def)
next
  case (3 n w b sans)
  have w: "sanWord w" "sanWord b" and nb: "CHR '' '' \<notin> set w" "CHR '' '' \<notin> set b" "CHR '' '' \<notin> set (showNat n)"
    using 3 showNat_chars [of n] by (auto simp: sanWord_def)
  have "jsSplit CHR '' '' (showNat n @ ''. '' @ w @ '' '' @ b) = [showNat n @ ''.'', w, b]"
    using nb jsSplit_word [of "CHR '' ''" "showNat n @ ''.''" "w @ '' '' @ b"] jsSplit_word [of "CHR '' ''" w b]
    by (simp add: jsSplit_last)
  then show ?case using 3 w by (simp add: sanWord_def)
qed simp

lemma jsSplit_append: "jsSplit c (u @ c # v) = jsSplit c u @ jsSplit c v"
  by (induction u) (auto split: list.split)

lemma jsSplit_joined: "ws \<noteq> [] \<Longrightarrow> jsSplit c (jsJoin [c] ws) = concat (map (jsSplit c) ws)"
  by (induction "[c]" ws rule: jsJoin.induct) (auto simp: jsSplit_append)

lemma pgnSans_buildPgn:
  assumes "\<forall>w \<in> set sans. sanWord w" "CHR '' '' \<notin> set res"
  shows "pgnSans (buildPgn sans res) = sans"
proof -
  have "jsSplit CHR '' '' (buildPgn sans res) = concat (map (jsSplit CHR '' '') (pgnParts 1 sans)) @ [res]"
    using jsSplit_joined [of "pgnParts 1 sans @ [res]" "CHR '' ''"] assms(2) by (simp add: buildPgn_def jsSplit_last)
  then show ?thesis using pgnParts_words [OF assms(1)] by (simp add: pgnSans_def)
qed

section \<open>Perft\<close>

text \<open>The lines of legal moves of a given length.\<close>

fun legalLines :: "'c ChessJs \<Rightarrow> nat \<Rightarrow> 'c \<Rightarrow> 'c list list" where
  "legalLines lib 0 c = [[]]"
| "legalLines lib (Suc n) c = concat (map (\<lambda>c'. map ((#) c') (legalLines lib n c')) (chessMoves lib c))"

lemma fold_plus: "fold (\<lambda>x n. n + f x) xs a = a + sum_list (map f xs)" for a :: nat
  by (induction xs arbitrary: a) simp_all

lemma perftRec_lines: "perftRec lib n c = length (legalLines lib n c)"
proof (induction n arbitrary: c)
  case 0
  then show ?case by (subst perftRec.simps) simp
next
  case (Suc n)
  have "length (concat (map (\<lambda>c'. map ((#) c') (legalLines lib n c')) cs)) = sum_list (map (\<lambda>c'. length (legalLines lib n c')) cs)" for cs
    by (simp add: length_concat comp_def)
  moreover have "sum_list (map (\<lambda>c'. Suc 0) cs) = length cs" for cs :: "'a list" by (induction cs) simp_all
  ultimately show ?case using Suc by (subst perftRec.simps) (auto simp: fold_plus Let_def)
qed

section \<open>Repetitions\<close>

text \<open>
  Counting a position among the stored ones by hash first and by key afterwards counts it
  exactly, if the hashes stored are those of the positions.
\<close>

lemma indexed_count:
  assumes "readsFen lib" "zobristHash lib fen = Inr h" "\<forall>(f, k) \<in> set rows. zobristHash lib f = Inr k"
  shows "filter (\<lambda>f. positionKey f = positionKey fen) (map fst (filter (\<lambda>(f, k). k = h) rows))
    = filter (\<lambda>f. positionKey f = positionKey fen) (map fst rows)"
  using assms(3)
proof (induction rows)
  case (Cons row rows)
  obtain f k where row: "row = (f, k)" by (cases row)
  then have "zobristHash lib f = Inr k" using Cons.prems by simp
  then have "positionKey f = positionKey fen \<Longrightarrow> k = h" using hash_of_key [OF assms(1) _ assms(2)] by blast
  then show ?case using Cons row by auto
qed simp

section \<open>A small generator\<close>

text \<open>
  Two rooks that shuffle for ever: the concrete generator the sample runs use. A position is
  its FEN, every move is legal and passes the turn.
\<close>

definition passTurn :: "string \<Rightarrow> string" where
  "passTurn fen = (case jsSplit CHR '' '' fen of
     p # s # rest \<Rightarrow> jsJoin '' '' (p # (if s = ''b'' then ''w'' else ''b'') # rest)
   | ws \<Rightarrow> jsJoin '' '' (ws @ [''b'']))"

definition shuffleChess :: "string ChessJs" where
  "shuffleChess =
     \<lparr>chessNew = Some, chessMove = (\<lambda>c src dst p. Some (\<lparr>mvSan = CHR ''R'' # dst, mvIsCapture = False, mvPiece = ROOK\<rparr>, passTurn c)),
      chessMoves = (\<lambda>c. [passTurn c]), chessFen = id,
      chessBoard = (\<lambda>_. [[Some (ROOK, W), None, Some (ROOK, B)]]), chessTurn = sideToMove,
      chessInCheck = (\<lambda>_. False), chessIsCheckmate = (\<lambda>_. False), chessIsStalemate = (\<lambda>_. False)\<rparr>"

lemma passTurn_turn: "sideToMove (passTurn fen) = otherSide (sideToMove fen)"
proof -
  have words: "\<forall>w \<in> set (jsSplit CHR '' '' fen). CHR '' '' \<notin> set w" using jsSplit_fields by blast
  show ?thesis
  proof (cases "jsSplit CHR '' '' fen")
    case (Cons p ws)
    show ?thesis
    proof (cases ws)
      case Nil
      then show ?thesis using Cons words jsSplit_jsJoin [of "[p, ''b'']" "CHR '' ''"]
        by (simp add: sideToMove_def passTurn_def itemAt_def)
    next
      case (Cons s rest)
      let ?ws = "p # (if s = ''b'' then ''w'' else ''b'') # rest"
      have "jsSplit CHR '' '' (jsJoin '' '' ?ws) = ?ws"
        using jsSplit_jsJoin [of ?ws "CHR '' ''"] words Cons \<open>jsSplit CHR '' '' fen = p # ws\<close> by auto
      then show ?thesis using Cons \<open>jsSplit CHR '' '' fen = p # ws\<close>
        by (simp add: sideToMove_def passTurn_def itemAt_def)
    qed
  qed simp
qed

lemma shuffle_facts:
  "readsFen shuffleChess" "turnsAlternate shuffleChess" "progresses shuffleChess (\<lambda>_. 0)"
proof -
  have "chessNew shuffleChess f = Some f" "chessBoard shuffleChess c = [[Some (ROOK, W), None, Some (ROOK, B)]]"
    "chessTurn shuffleChess = sideToMove" for f c by (simp_all add: shuffleChess_def)
  then show "readsFen shuffleChess" by (auto simp: readsFen_def intro: key_facts(1))
  have "chessMove shuffleChess c src dst p =
      Some (\<lparr>mvSan = CHR ''R'' # dst, mvIsCapture = False, mvPiece = ROOK\<rparr>, passTurn c)" for c src dst p
    by (simp add: shuffleChess_def)
  moreover have "chessNew shuffleChess f = Some f" "chessFen shuffleChess c = c" for f c
    by (simp_all add: shuffleChess_def)
  ultimately show "turnsAlternate shuffleChess" "progresses shuffleChess (\<lambda>_. 0)"
    by (auto simp: turnsAlternate_def progresses_def passTurn_turn)
qed

end
