(* ===== verification/Play.thy ===== *)
theory Play
  imports ChessRules
begin

text \<open>
  Online games, \<^verbatim>\<open>src/modules/play/\<close>: the tables and their transactions (\<^verbatim>\<open>play.repository.ts\<close>),
  the live records in Redis (\<^verbatim>\<open>clock.store.ts\<close>), the timer rules (\<^verbatim>\<open>game-timers.ts\<close>) and the row
  types (\<^verbatim>\<open>play.types.ts\<close>). A Lua script and a \<^verbatim>\<open>MULTI\<close> block are single steps; keys that expire
  are forgotten by the steps of \<^verbatim>\<open>PlayRuns\<close>, so no time to live is kept here.
\<close>

section \<open>Rows\<close>

text \<open>\<open>ByPosition\<close> holds the statuses that \<^verbatim>\<open>gameEndFromPosition\<close> gives.\<close>

datatype OnlineGameStatus =
    PENDING
  | ACTIVE
  | ByPosition PositionEnd
  | RESIGNATION
  | TIMEOUT
  | DRAW_AGREED
  | TIMEOUT_VS_INSUFFICIENT_MATERIAL
  | ABANDONED
  | ABORTED

datatype ColorValue = WHITE | BLACK

record OnlineGame =
  gmWhitePlayerId :: string
  gmBlackPlayerId :: string
  gmStatus :: OnlineGameStatus
  gmTimeCategory :: TimeCategory
  gmClockType :: ChessClockType
  gmBaseTimeSeconds :: int
  gmIncrementSeconds :: int
  gmFen :: string
  gmPgn :: "string option"
  gmWinnerColor :: "ColorValue option"
  gmWhiteTimeLeftMs :: "int option"
  gmBlackTimeLeftMs :: "int option"
  gmIsRated :: bool
  gmStartedAt :: "int option"
  gmEndedAt :: "int option"
  gmCreatedAt :: int
  gmUpdatedAt :: int

text \<open>\<^verbatim>\<open>toGameRow\<close>: the columns together with the identifier and the number of moves.\<close>

record GameRow =
  grId :: string
  grGame :: OnlineGame
  grPlyCount :: nat

record MoveRow =
  mrPly :: nat
  mrSan :: string
  mrUci :: string
  mrFenAfter :: string
  mrPositionHash :: string
  mrThinkTimeMs :: "int option"
  mrClockAfterMs :: "int option"

record ClockEntry =
  ceVersion :: nat
  ceState :: ClockState

datatype PlayEvent =
    PlayMatched string string string
  | PlayGameFinished string OnlineGame OnlineGameStatus
  | PlayGameSwept string OnlineGameStatus "ColorValue option"

record PlayDb =
  pdGames :: "string \<Rightarrow> OnlineGame option"
  pdMoves :: "string \<Rightarrow> MoveRow list"
  pdAudit :: "AuditRow list"
  pdNextId :: nat
  rdClock :: "string \<Rightarrow> ClockEntry option"
  rdDraw :: "string \<Rightarrow> ClockSide option"
  rdPresence :: "string \<Rightarrow> ClockSide \<Rightarrow> bool"
  rdGone :: "string \<Rightarrow> ClockSide \<Rightarrow> int option"
  rdGoneIndex :: "(string \<times> ClockSide) list"
  pdEvents :: "PlayEvent list"

datatype PlayFailure = UniqueViolation | ChessThrew ChessFailure

type_synonym 'a play = "(PlayFailure, PlayDb, 'a) action"

fun endText :: "PositionEnd \<Rightarrow> string" where
  "endText CHECKMATE = ''CHECKMATE''"
| "endText STALEMATE = ''STALEMATE''"
| "endText THREEFOLD_REPETITION = ''THREEFOLD_REPETITION''"
| "endText FIFTY_MOVE_RULE = ''FIFTY_MOVE_RULE''"
| "endText INSUFFICIENT_MATERIAL = ''INSUFFICIENT_MATERIAL''"

fun statusText :: "OnlineGameStatus \<Rightarrow> string" where
  "statusText PENDING = ''PENDING''"
| "statusText ACTIVE = ''ACTIVE''"
| "statusText (ByPosition e) = endText e"
| "statusText RESIGNATION = ''RESIGNATION''"
| "statusText TIMEOUT = ''TIMEOUT''"
| "statusText DRAW_AGREED = ''DRAW_AGREED''"
| "statusText TIMEOUT_VS_INSUFFICIENT_MATERIAL = ''TIMEOUT_VS_INSUFFICIENT_MATERIAL''"
| "statusText ABANDONED = ''ABANDONED''"
| "statusText ABORTED = ''ABORTED''"

definition TERMINAL_STATUSES :: "OnlineGameStatus list" where
  "TERMINAL_STATUSES =
     [ByPosition CHECKMATE, ByPosition STALEMATE, RESIGNATION, TIMEOUT, DRAW_AGREED, ByPosition THREEFOLD_REPETITION,
      ByPosition FIFTY_MOVE_RULE, ByPosition INSUFFICIENT_MATERIAL, TIMEOUT_VS_INSUFFICIENT_MATERIAL, ABANDONED, ABORTED]"

section \<open>The tables\<close>

record CreateGameInput =
  cgWhitePlayerId :: string
  cgBlackPlayerId :: string
  cgTimeCategory :: TimeCategory
  cgClockType :: ChessClockType
  cgBaseTimeSeconds :: int
  cgIncrementSeconds :: int
  cgIsRated :: bool

record FinishGameInput =
  fiStatus :: OnlineGameStatus
  fiWinnerColor :: "ColorValue option"
  fiWhiteTimeLeftMs :: int
  fiBlackTimeLeftMs :: int
  fiPgn :: string
  fiActorUserId :: "string option"

definition toGameRow :: "string \<Rightarrow> OnlineGame \<Rightarrow> nat \<Rightarrow> GameRow" where
  "toGameRow gid g plyCount = \<lparr>grId = gid, grGame = g, grPlyCount = plyCount\<rparr>"

definition createGame :: "CreateGameInput \<Rightarrow> int \<Rightarrow> GameRow play" where
  "createGame input now =
     bindS (getS (\<lambda>s. showNat (pdNextId s))) (\<lambda>gid.
     let g = \<lparr>gmWhitePlayerId = cgWhitePlayerId input, gmBlackPlayerId = cgBlackPlayerId input, gmStatus = ACTIVE,
        gmTimeCategory = cgTimeCategory input, gmClockType = cgClockType input,
        gmBaseTimeSeconds = cgBaseTimeSeconds input, gmIncrementSeconds = cgIncrementSeconds input,
        gmFen = STARTING_FEN, gmPgn = None, gmWinnerColor = None, gmWhiteTimeLeftMs = None, gmBlackTimeLeftMs = None,
        gmIsRated = cgIsRated input, gmStartedAt = Some now, gmEndedAt = None, gmCreatedAt = now, gmUpdatedAt = now\<rparr>
     in bindS (putS (\<lambda>s. s\<lparr>pdGames := (pdGames s)(gid := Some g), pdNextId := Suc (pdNextId s)\<rparr>)) (\<lambda>_.
     returnS (toGameRow gid g 0)))"

definition findGame :: "string \<Rightarrow> PlayDb \<Rightarrow> GameRow option" where
  "findGame gid s = map_option (\<lambda>g. toGameRow gid g (length (pdMoves s gid))) (pdGames s gid)"

definition listMoves :: "string \<Rightarrow> PlayDb \<Rightarrow> MoveRow list" where
  "listMoves gid s = sort_key mrPly (pdMoves s gid)"

definition positionOccurrences :: "string \<Rightarrow> string \<Rightarrow> PlayDb \<Rightarrow> string list" where
  "positionOccurrences gid hash s = map mrFenAfter (filter (\<lambda>m. mrPositionHash m = hash) (pdMoves s gid))"

definition finishedColumns :: "FinishGameInput \<Rightarrow> int \<Rightarrow> OnlineGame \<Rightarrow> OnlineGame" where
  "finishedColumns f now g =
     g\<lparr>gmStatus := fiStatus f, gmWinnerColor := fiWinnerColor f, gmWhiteTimeLeftMs := Some (fiWhiteTimeLeftMs f),
       gmBlackTimeLeftMs := Some (fiBlackTimeLeftMs f), gmPgn := Some (fiPgn f), gmEndedAt := Some now, gmUpdatedAt := now\<rparr>"

text \<open>\<^verbatim>\<open>updateMany\<close> where the status is \<^verbatim>\<open>ACTIVE\<close>: whether a row was updated.\<close>

definition updateActive :: "string \<Rightarrow> (OnlineGame \<Rightarrow> OnlineGame) \<Rightarrow> bool play" where
  "updateActive gid f =
     bindS (getS (\<lambda>s. pdGames s gid)) (\<lambda>row.
     case row of
       None \<Rightarrow> returnS False
     | Some g \<Rightarrow> if gmStatus g \<noteq> ACTIVE then returnS False
         else bindS (putS (\<lambda>s. s\<lparr>pdGames := (pdGames s)(gid := Some (f g))\<rparr>)) (\<lambda>_. returnS True))"

definition auditFinished :: "string \<Rightarrow> FinishGameInput \<Rightarrow> unit play" where
  "auditFinished gid f =
     auditWriteTo pdAudit_update
       (auditOf ''game.finished'' (case fiActorUserId f of None \<Rightarrow> '''' | Some u \<Rightarrow> u) gid '''' (statusText (fiStatus f)) None)"

definition appendMoveTx :: "string \<Rightarrow> MoveRow \<Rightarrow> FinishGameInput option \<Rightarrow> int \<Rightarrow> unit play" where
  "appendMoveTx gid move finish now = transaction (
     bindS (getS (\<lambda>s. \<exists>m \<in> set (pdMoves s gid). mrPly m = mrPly move)) (\<lambda>dup.
     bindS (guardS dup (OtherError UniqueViolation)) (\<lambda>_.
     bindS (putS (\<lambda>s. s\<lparr>pdMoves := (pdMoves s)(gid := pdMoves s gid @ [move])\<rparr>)) (\<lambda>_.
     bindS (updateActive gid (\<lambda>g. case finish of
         None \<Rightarrow> g\<lparr>gmFen := mrFenAfter move, gmUpdatedAt := now\<rparr>
       | Some f \<Rightarrow> finishedColumns f now (g\<lparr>gmFen := mrFenAfter move\<rparr>))) (\<lambda>updated.
     bindS (guardS (\<not> updated) (ConflictError ''OnlineGame'')) (\<lambda>_.
     case finish of None \<Rightarrow> returnS () | Some f \<Rightarrow> auditFinished gid f))))))"

definition appendMove :: "string \<Rightarrow> MoveRow \<Rightarrow> FinishGameInput option \<Rightarrow> int \<Rightarrow> unit play" where
  "appendMove gid move finish now =
     (\<lambda>s. case appendMoveTx gid move finish now s of
        (Inl e, t) \<Rightarrow> (Inl (if e = OtherError UniqueViolation then ConflictError ''OnlineGame'' else e), t)
      | (Inr u, t) \<Rightarrow> (Inr u, t))"

definition finishGame :: "string \<Rightarrow> FinishGameInput \<Rightarrow> int \<Rightarrow> GameRow option play" where
  "finishGame gid f now = transaction (
     bindS (updateActive gid (finishedColumns f now)) (\<lambda>updated.
     if \<not> updated then returnS None
     else bindS (auditFinished gid f) (\<lambda>_. getS (findGame gid))))"

text \<open>The lists over all games take the identifiers, newest first.\<close>

definition gameIds :: "PlayDb \<Rightarrow> string list" where
  "gameIds s = rev (map showNat [0..<pdNextId s])"

definition listActiveForPlayer :: "string \<Rightarrow> PlayDb \<Rightarrow> GameRow list" where
  "listActiveForPlayer pid s =
     filter (\<lambda>r. gmStatus (grGame r) = ACTIVE \<and> (gmWhitePlayerId (grGame r) = pid \<or> gmBlackPlayerId (grGame r) = pid))
       (List.map_filter (\<lambda>gid. findGame gid s) (gameIds s))"

definition countActiveGames :: "PlayDb \<Rightarrow> nat" where
  "countActiveGames s =
     length (filter (\<lambda>r. gmStatus (grGame r) = ACTIVE) (List.map_filter (\<lambda>gid. findGame gid s) (gameIds s)))"

definition listStaleActiveGameIds :: "int \<Rightarrow> nat \<Rightarrow> int \<Rightarrow> PlayDb \<Rightarrow> string list" where
  "listStaleActiveGameIds idleForMs limit now s =
     take limit (map grId (sort_key (\<lambda>r. gmUpdatedAt (grGame r))
       (filter (\<lambda>r. gmStatus (grGame r) = ACTIVE \<and> gmUpdatedAt (grGame r) < now - idleForMs \<and> 0 < grPlyCount r)
         (List.map_filter (\<lambda>gid. findGame gid s) (gameIds s)))))"

section \<open>The live records\<close>

definition initClock :: "string \<Rightarrow> ClockState \<Rightarrow> unit play" where
  "initClock gid st = putS (\<lambda>s. s\<lparr>rdClock := (rdClock s)(gid := Some \<lparr>ceVersion = 1, ceState = st\<rparr>)\<rparr>)"

definition loadClock :: "string \<Rightarrow> PlayDb \<Rightarrow> ClockEntry option" where
  "loadClock gid s = rdClock s gid"

text \<open>\<^verbatim>\<open>CAS_SCRIPT\<close>: replace the entry if its version is the expected one.\<close>

definition updateClock :: "string \<Rightarrow> nat \<Rightarrow> ClockState \<Rightarrow> bool play" where
  "updateClock gid expectedVersion st =
     bindS (getS (\<lambda>s. rdClock s gid)) (\<lambda>cur.
     case cur of
       None \<Rightarrow> returnS False
     | Some e \<Rightarrow> if ceVersion e \<noteq> expectedVersion then returnS False
         else bindS (putS (\<lambda>s. s\<lparr>rdClock := (rdClock s)(gid := Some \<lparr>ceVersion = expectedVersion + 1, ceState = st\<rparr>)\<rparr>))
           (\<lambda>_. returnS True))"

definition clearClock :: "string \<Rightarrow> unit play" where
  "clearClock gid = putS (\<lambda>s. s\<lparr>rdClock := (rdClock s)(gid := None), rdDraw := (rdDraw s)(gid := None),
     rdPresence := (rdPresence s)(gid := (\<lambda>_. False)), rdGone := (rdGone s)(gid := (\<lambda>_. None)),
     rdGoneIndex := filter (\<lambda>m. fst m \<noteq> gid) (rdGoneIndex s)\<rparr>)"

definition setDrawOffer :: "string \<Rightarrow> ClockSide \<Rightarrow> unit play" where
  "setDrawOffer gid side = putS (\<lambda>s. s\<lparr>rdDraw := (rdDraw s)(gid := Some side)\<rparr>)"

definition getDrawOffer :: "string \<Rightarrow> PlayDb \<Rightarrow> ClockSide option" where
  "getDrawOffer gid s = rdDraw s gid"

definition clearDrawOffer :: "string \<Rightarrow> unit play" where
  "clearDrawOffer gid = putS (\<lambda>s. s\<lparr>rdDraw := (rdDraw s)(gid := None)\<rparr>)"

definition setPresence :: "string \<Rightarrow> ClockSide \<Rightarrow> unit play" where
  "setPresence gid side = putS (\<lambda>s. s\<lparr>rdPresence := (rdPresence s)(gid := (rdPresence s gid)(side := True))\<rparr>)"

definition clearPresence :: "string \<Rightarrow> ClockSide \<Rightarrow> unit play" where
  "clearPresence gid side = putS (\<lambda>s. s\<lparr>rdPresence := (rdPresence s)(gid := (rdPresence s gid)(side := False))\<rparr>)"

definition isPresent :: "string \<Rightarrow> ClockSide \<Rightarrow> PlayDb \<Rightarrow> bool" where
  "isPresent gid side s = rdPresence s gid side"

definition markGone :: "string \<Rightarrow> ClockSide \<Rightarrow> int \<Rightarrow> unit play" where
  "markGone gid side atMs = putS (\<lambda>s. s\<lparr>rdGone := (rdGone s)(gid := (rdGone s gid)(side := Some atMs)),
     rdGoneIndex := List.insert (gid, side) (rdGoneIndex s)\<rparr>)"

definition clearGone :: "string \<Rightarrow> ClockSide \<Rightarrow> unit play" where
  "clearGone gid side = putS (\<lambda>s. s\<lparr>rdGone := (rdGone s)(gid := (rdGone s gid)(side := None)),
     rdGoneIndex := removeAll (gid, side) (rdGoneIndex s)\<rparr>)"

text \<open>
  The members of the index with a key, the others being taken out of it. Members and keys are
  written by \<^verbatim>\<open>markGone\<close> only, so their texts parse.
\<close>

fun listGone :: "(string \<times> ClockSide) list \<Rightarrow> (string \<times> ClockSide \<times> int) list play" where
  "listGone [] = returnS []"
| "listGone ((gid, side) # ms) =
     bindS (getS (\<lambda>s. rdGone s gid side)) (\<lambda>raw.
     case raw of
       None \<Rightarrow> bindS (putS (\<lambda>s. s\<lparr>rdGoneIndex := removeAll (gid, side) (rdGoneIndex s)\<rparr>)) (\<lambda>_. listGone ms)
     | Some atMs \<Rightarrow> bindS (listGone ms) (\<lambda>out. returnS ((gid, side, atMs) # out)))"

section \<open>Timers\<close>

definition FLAG_EPSILON_MS :: int where
  "FLAG_EPSILON_MS = 100"

fun DISCONNECT_GRACE_MS :: "TimeCategory \<Rightarrow> int" where
  "DISCONNECT_GRACE_MS BULLET = 10000"
| "DISCONNECT_GRACE_MS BLITZ = 15000"
| "DISCONNECT_GRACE_MS RAPID = 30000"
| "DISCONNECT_GRACE_MS CLASSICAL = 120000"

definition graceMsFor :: "TimeCategory \<Rightarrow> int option \<Rightarrow> int" where
  "graceMsFor category overrideMs = (case overrideMs of Some ms \<Rightarrow> ms | None \<Rightarrow> DISCONNECT_GRACE_MS category)"

record ClockPayload =
  cpWhiteMs :: int
  cpBlackMs :: int
  cpRunning :: "ClockSide option"
  cpServerSentAtMs :: int

definition flagDelayMs :: "ClockPayload \<Rightarrow> int option" where
  "flagDelayMs clock = (case cpRunning clock of
     None \<Rightarrow> None
   | Some side \<Rightarrow> Some (max 0 (if side = W then cpWhiteMs clock else cpBlackMs clock) + FLAG_EPSILON_MS))"

end
