(* ===== verification/PlayService.thy ===== *)
theory PlayService
  imports Play
begin

text \<open>
  \<^verbatim>\<open>src/modules/play/play.service.ts\<close>: the life of an online game. Every request first reads and
  decides, then commits one database transaction and last writes to Redis and emits; the three
  phases are separate definitions, because another request, or the end of the process, can come
  between them (\<^verbatim>\<open>PlayRuns\<close>). The reads of the first phase are themselves made at several
  moments: \<open>Reads\<close> holds the state each of them sees. The service functions compose the phases
  the way the code does when nothing comes between.
\<close>

section \<open>What the service calls\<close>

text \<open>
  The player and rating modules, as far as the answers matter here, and the move generator. The
  summaries are the texts of \<^verbatim>\<open>PlayerPayload\<close>.
\<close>

record 'c PlayEnv =
  peChess :: "'c ChessJs"
  pePlayerOfUser :: "string \<Rightarrow> string option"
  peFindPlayer :: "string \<Rightarrow> (string \<times> string option) option"
  peSummary :: "string \<Rightarrow> (string \<times> string \<times> string option) option"
  peRating :: "string \<Rightarrow> TimeCategory \<Rightarrow> rat option"

definition FLAG_SWEEP_IDLE_MS :: int where
  "FLAG_SWEEP_IDLE_MS = 10000"

definition FLAG_SWEEP_LIMIT :: nat where
  "FLAG_SWEEP_LIMIT = 200"

definition GRACE_SWEEP_SLACK_MS :: int where
  "GRACE_SWEEP_SLACK_MS = 5000"

section \<open>Pure helpers\<close>

definition clockConfig :: "OnlineGame \<Rightarrow> ClockConfig" where
  "clockConfig g = \<lparr>clockType = gmClockType g, baseMs = gmBaseTimeSeconds g * 1000, incrementMs = gmIncrementSeconds g * 1000\<rparr>"

definition toClockPayload :: "ClockState \<Rightarrow> bool \<Rightarrow> int \<Rightarrow> ClockPayload" where
  "toClockPayload st stopped now =
     \<lparr>cpWhiteMs = whiteRemainingMs st, cpBlackMs = blackRemainingMs st,
      cpRunning = (if stopped then None else Some (turn st)), cpServerSentAtMs = now\<rparr>"

definition pgnResult :: "OnlineGameStatus \<Rightarrow> ColorValue option \<Rightarrow> string" where
  "pgnResult st winner =
     (if st = ABORTED \<or> st = PENDING \<or> st = ACTIVE then ''*''
      else if winner = Some WHITE then ''1-0''
      else if winner = Some BLACK then ''0-1''
      else ''1/2-1/2'')"

fun colorOf :: "ClockSide \<Rightarrow> ColorValue" where
  "colorOf W = WHITE"
| "colorOf B = BLACK"

fun clockErrorCode :: "ClockError \<Rightarrow> string" where
  "clockErrorCode CLOCK_TYPE_NOT_IMPLEMENTED = ''CLOCK_TYPE_NOT_IMPLEMENTED''"
| "clockErrorCode CLOCK_INVALID_BASE = ''CLOCK_INVALID_BASE''"
| "clockErrorCode CLOCK_INVALID_INCREMENT = ''CLOCK_INVALID_INCREMENT''"

definition orClockError :: "ClockError + 'a \<Rightarrow> PlayFailure DomainError + 'a" where
  "orClockError r = (case r of Inl e \<Rightarrow> Inl (BusinessRuleError (clockErrorCode e)) | Inr x \<Rightarrow> Inr x)"

definition orChessError :: "ChessFailure + 'a \<Rightarrow> PlayFailure DomainError + 'a" where
  "orChessError r = (case r of Inl e \<Rightarrow> Inl (OtherError (ChessThrew e)) | Inr x \<Rightarrow> Inr x)"

definition reconstructClock :: "GameRow \<Rightarrow> MoveRow list \<Rightarrow> int \<Rightarrow> ClockState" where
  "reconstructClock game moves now =
     (let config = clockConfig (grGame game);
          (whiteMs, blackMs) = fold (\<lambda>m (w, b).
             case mrClockAfterMs m of
               None \<Rightarrow> (w, b)
             | Some ms \<Rightarrow> if mrPly m mod 2 = 1 then (ms, b) else (w, ms)) moves (baseMs config, baseMs config)
      in \<lparr>whiteRemainingMs = whiteMs, blackRemainingMs = blackMs, turn = sideToMove (gmFen (grGame game)),
          lastEventAtMs = now\<rparr>)"

definition sideOf :: "'c PlayEnv \<Rightarrow> string \<Rightarrow> OnlineGame \<Rightarrow> ClockSide option" where
  "sideOf env userId g =
     (case pePlayerOfUser env userId of
        None \<Rightarrow> None
      | Some me \<Rightarrow> if me = gmWhitePlayerId g then Some W else if me = gmBlackPlayerId g then Some B else None)"

section \<open>Reads\<close>

text \<open>
  The states in which a request reads the game, the clock entry, the move log of a lost clock, the
  earlier occurrences of the position or the draw offer, and the move log of the movetext.
\<close>

record Reads =
  atGame :: PlayDb
  atClock :: PlayDb
  atMoves :: PlayDb
  atOccurrences :: PlayDb
  atSans :: PlayDb

definition atOnce :: "PlayDb \<Rightarrow> Reads" where
  "atOnce s = \<lparr>atGame = s, atClock = s, atMoves = s, atOccurrences = s, atSans = s\<rparr>"

text \<open>The live clock, or the one the move log gives when the entry is lost.\<close>

definition liveClock :: "GameRow \<Rightarrow> int \<Rightarrow> Reads \<Rightarrow> ClockState" where
  "liveClock game now R =
     (case loadClock (grId game) (atClock R) of
        Some e \<Rightarrow> ceState e
      | None \<Rightarrow> reconstructClock game (listMoves (grId game) (atMoves R)) now)"

definition activeGame :: "string \<Rightarrow> PlayDb \<Rightarrow> GameRow option" where
  "activeGame gid s = (case findGame gid s of
     None \<Rightarrow> None
   | Some game \<Rightarrow> if gmStatus (grGame game) = ACTIVE then Some game else None)"

definition requireActivePlayer :: "'c PlayEnv \<Rightarrow> string \<Rightarrow> string \<Rightarrow> PlayDb \<Rightarrow> PlayFailure DomainError + GameRow \<times> ClockSide" where
  "requireActivePlayer env userId gid s =
     (case findGame gid s of
        None \<Rightarrow> Inl (NotFoundError ''OnlineGame'')
      | Some game \<Rightarrow>
          if gmStatus (grGame game) \<noteq> ACTIVE then Inl (BusinessRuleError ''GAME_NOT_ACTIVE'')
          else case sideOf env userId (grGame game) of
            None \<Rightarrow> Inl (NotFoundError ''OnlineGame'')
          | Some side \<Rightarrow> Inr (game, side))"

section \<open>Ending a game without a move\<close>

text \<open>What is about to be committed, and the clock the room will be shown.\<close>

record FinishPlan =
  fpGame :: GameRow
  fpInput :: FinishGameInput
  fpClock :: ClockState

definition planTimeout ::
  "'c PlayEnv \<Rightarrow> GameRow \<Rightarrow> ClockSide \<Rightarrow> ClockState \<Rightarrow> string option \<Rightarrow> Reads \<Rightarrow> PlayFailure DomainError + FinishPlan" where
  "planTimeout env game loser finalClock actor R =
     (let winner = otherSide loser in
      bindE (orChessError (hasMatingMaterial (peChess env) (gmFen (grGame game)) winner)) (\<lambda>winnerHasMaterial.
        let st = (if winnerHasMaterial then TIMEOUT else TIMEOUT_VS_INSUFFICIENT_MATERIAL);
            winnerColor = (if winnerHasMaterial then Some (colorOf winner) else None);
            sans = map mrSan (listMoves (grId game) (atSans R))
        in Inr \<lparr>fpGame = game,
             fpInput = \<lparr>fiStatus = st, fiWinnerColor = winnerColor, fiWhiteTimeLeftMs = whiteRemainingMs finalClock,
               fiBlackTimeLeftMs = blackRemainingMs finalClock, fiPgn = buildPgn sans (pgnResult st winnerColor),
               fiActorUserId = actor\<rparr>,
             fpClock = finalClock\<rparr>))"

definition planNoMove ::
  "GameRow \<Rightarrow> OnlineGameStatus \<Rightarrow> ColorValue option \<Rightarrow> string option \<Rightarrow> int \<Rightarrow> Reads \<Rightarrow> PlayFailure DomainError + FinishPlan" where
  "planNoMove game st winnerColor actor now R =
     (let moves = listMoves (grId game) (atSans R);
          config = clockConfig (grGame game);
          clock = (case loadClock (grId game) (atClock R) of Some e \<Rightarrow> ceState e | None \<Rightarrow> reconstructClock game moves now);
          left = (\<lambda>side. if grPlyCount game = 0 then Inr (baseMs config) else orClockError (remaining config clock side now))
      in bindE (left W) (\<lambda>w. bindE (left B) (\<lambda>b.
         let finalState = \<lparr>whiteRemainingMs = w, blackRemainingMs = b, turn = turn clock, lastEventAtMs = now\<rparr>
         in Inr \<lparr>fpGame = game,
              fpInput = \<lparr>fiStatus = st, fiWinnerColor = winnerColor, fiWhiteTimeLeftMs = w, fiBlackTimeLeftMs = b,
                fiPgn = buildPgn (map mrSan moves) (pgnResult st winnerColor), fiActorUserId = actor\<rparr>,
              fpClock = finalState\<rparr>)))"

definition planResign :: "'c PlayEnv \<Rightarrow> string \<Rightarrow> string \<Rightarrow> int \<Rightarrow> Reads \<Rightarrow> PlayFailure DomainError + FinishPlan" where
  "planResign env userId gid now R =
     bindE (requireActivePlayer env userId gid (atGame R)) (\<lambda>(game, side).
     planNoMove game RESIGNATION (Some (colorOf (otherSide side))) (Some userId) now R)"

definition planAcceptDraw :: "'c PlayEnv \<Rightarrow> string \<Rightarrow> string \<Rightarrow> int \<Rightarrow> Reads \<Rightarrow> PlayFailure DomainError + FinishPlan" where
  "planAcceptDraw env userId gid now R =
     bindE (requireActivePlayer env userId gid (atGame R)) (\<lambda>(game, side).
     let offer = getDrawOffer gid (atOccurrences R)
     in bindE (throwIf (offer = None \<or> offer = Some side) (BusinessRuleError ''NO_DRAW_OFFER'')) (\<lambda>_.
        planNoMove game DRAW_AGREED None (Some userId) now R))"

definition planAbort :: "'c PlayEnv \<Rightarrow> string \<Rightarrow> string \<Rightarrow> int \<Rightarrow> Reads \<Rightarrow> PlayFailure DomainError + FinishPlan" where
  "planAbort env userId gid now R =
     bindE (requireActivePlayer env userId gid (atGame R)) (\<lambda>(game, side).
     bindE (throwIf (grPlyCount game \<ge> 2) (BusinessRuleError ''ABORT_WINDOW_CLOSED'')) (\<lambda>_.
     planNoMove game ABORTED None (Some userId) now R))"

text \<open>\<open>Inr (Inl ms)\<close>: the claim is turned down, with the time that remains.\<close>

definition planClaimTimeout ::
  "'c PlayEnv \<Rightarrow> string \<Rightarrow> string \<Rightarrow> int \<Rightarrow> Reads \<Rightarrow> PlayFailure DomainError + (int + FinishPlan)" where
  "planClaimTimeout env userId gid now R =
     bindE (requireActivePlayer env userId gid (atGame R)) (\<lambda>(game, side).
     let opponent = otherSide side; config = clockConfig (grGame game) in
     if grPlyCount game = 0 then Inr (Inl (baseMs config))
     else let st = liveClock game now R in
       bindE (orClockError (remaining config st opponent now)) (\<lambda>rem.
       if rem > 0 then Inr (Inl rem)
       else let flaggedState = \<lparr>whiteRemainingMs = (if opponent = W then 0 else whiteRemainingMs st),
                  blackRemainingMs = (if opponent = B then 0 else blackRemainingMs st),
                  turn = turn st, lastEventAtMs = lastEventAtMs st\<rparr>
         in bindE (planTimeout env game opponent flaggedState (Some userId) R) (\<lambda>p. Inr (Inr p))))"

datatype FlagDecision = StopTimer | WaitMs int | EndByFlag FinishPlan

definition planCheckFlag :: "'c PlayEnv \<Rightarrow> string \<Rightarrow> int \<Rightarrow> Reads \<Rightarrow> PlayFailure DomainError + FlagDecision" where
  "planCheckFlag env gid now R =
     (case activeGame gid (atGame R) of
        None \<Rightarrow> Inr StopTimer
      | Some game \<Rightarrow>
          if grPlyCount game = 0 then Inr StopTimer
          else let config = clockConfig (grGame game); st = liveClock game now R; mover = turn st in
            bindE (orClockError (remaining config st mover now)) (\<lambda>rem.
            if rem > 0 then Inr (WaitMs rem)
            else bindE (if mover = W then Inr 0 else orClockError (remaining config st W now)) (\<lambda>w.
                 bindE (if mover = B then Inr 0 else orClockError (remaining config st B now)) (\<lambda>b.
                 bindE (planTimeout env game mover
                   \<lparr>whiteRemainingMs = w, blackRemainingMs = b, turn = turn st, lastEventAtMs = lastEventAtMs st\<rparr> None R) (\<lambda>p.
                 Inr (EndByFlag p))))))"

definition planAbandon ::
  "string \<Rightarrow> ClockSide \<Rightarrow> bool \<Rightarrow> int \<Rightarrow> Reads \<Rightarrow> PlayFailure DomainError + FinishPlan option" where
  "planAbandon gid goneSide opponentConnected now R =
     (case activeGame gid (atGame R) of
        None \<Rightarrow> Inr None
      | Some game \<Rightarrow>
          let winnerColor = (if opponentConnected then Some (colorOf (otherSide goneSide)) else None)
          in bindE (planNoMove game ABANDONED winnerColor None now R) (\<lambda>p. Inr (Some p)))"

text \<open>The last phase: the live records go, the rest of the program is told.\<close>

definition emit :: "PlayEvent \<Rightarrow> unit play" where
  "emit e = putS (\<lambda>s. s\<lparr>pdEvents := pdEvents s @ [e]\<rparr>)"

definition emitFinished :: "GameRow \<Rightarrow> OnlineGameStatus \<Rightarrow> unit play" where
  "emitFinished game st = emit (PlayGameFinished (grId game) (grGame game) st)"

definition afterFinish :: "GameRow \<Rightarrow> OnlineGameStatus \<Rightarrow> unit play" where
  "afterFinish game st = bindS (clearClock (grId game)) (\<lambda>_. emitFinished game st)"

record GameEnded =
  geGameId :: string
  geStatus :: OnlineGameStatus
  geWinnerColor :: "ColorValue option"
  geFinalFen :: string
  geClock :: ClockPayload

definition endedPayload :: "FinishPlan \<Rightarrow> int \<Rightarrow> GameEnded" where
  "endedPayload p now =
     \<lparr>geGameId = grId (fpGame p), geStatus = fiStatus (fpInput p), geWinnerColor = fiWinnerColor (fpInput p),
      geFinalFen = gmFen (grGame (fpGame p)), geClock = toClockPayload (fpClock p) True now\<rparr>"

text \<open>\<open>None\<close>: the game had already ended, and nothing is broadcast.\<close>

definition runFinish :: "FinishPlan \<Rightarrow> int \<Rightarrow> GameEnded option play" where
  "runFinish p now =
     bindS (finishGame (grId (fpGame p)) (fpInput p) now) (\<lambda>row.
     case row of
       None \<Rightarrow> returnS None
     | Some r \<Rightarrow> bindS (afterFinish (fpGame p) (fiStatus (fpInput p))) (\<lambda>_. returnS (Some (endedPayload p now))))"

definition planned :: "(PlayDb \<Rightarrow> PlayFailure DomainError + 'p) \<Rightarrow> ('p \<Rightarrow> 'a play) \<Rightarrow> 'a play" where
  "planned plan f = bindS (getS plan) (\<lambda>r. case r of Inl e \<Rightarrow> throwS e | Inr p \<Rightarrow> f p)"

definition requireFinished :: "GameEnded option \<Rightarrow> GameEnded play" where
  "requireFinished ended = (case ended of None \<Rightarrow> throwS (BusinessRuleError ''GAME_NOT_ACTIVE'') | Some p \<Rightarrow> returnS p)"

definition resign :: "'c PlayEnv \<Rightarrow> string \<Rightarrow> string \<Rightarrow> int \<Rightarrow> GameEnded play" where
  "resign env userId gid now =
     planned (\<lambda>s. planResign env userId gid now (atOnce s)) (\<lambda>p. bindS (runFinish p now) requireFinished)"

definition offerDraw :: "'c PlayEnv \<Rightarrow> string \<Rightarrow> string \<Rightarrow> ClockSide play" where
  "offerDraw env userId gid =
     planned (requireActivePlayer env userId gid) (\<lambda>(game, side).
       bindS (setDrawOffer gid side) (\<lambda>_. returnS side))"

definition acceptDraw :: "'c PlayEnv \<Rightarrow> string \<Rightarrow> string \<Rightarrow> int \<Rightarrow> GameEnded play" where
  "acceptDraw env userId gid now =
     planned (\<lambda>s. planAcceptDraw env userId gid now (atOnce s)) (\<lambda>p. bindS (runFinish p now) requireFinished)"

definition abort :: "'c PlayEnv \<Rightarrow> string \<Rightarrow> string \<Rightarrow> int \<Rightarrow> GameEnded play" where
  "abort env userId gid now =
     planned (\<lambda>s. planAbort env userId gid now (atOnce s)) (\<lambda>p. bindS (runFinish p now) requireFinished)"

datatype ClaimAnswer = ClaimRejected "int option" | ClaimAccepted GameEnded

definition claimTimeout :: "'c PlayEnv \<Rightarrow> string \<Rightarrow> string \<Rightarrow> int \<Rightarrow> ClaimAnswer play" where
  "claimTimeout env userId gid now =
     planned (\<lambda>s. planClaimTimeout env userId gid now (atOnce s)) (\<lambda>d. case d of
       Inl ms \<Rightarrow> returnS (ClaimRejected (Some ms))
     | Inr p \<Rightarrow> bindS (runFinish p now) (\<lambda>ended. case ended of
         None \<Rightarrow> returnS (ClaimRejected None) | Some e \<Rightarrow> returnS (ClaimAccepted e)))"

datatype FlagAnswer = FlagEnded GameEnded | FlagWait int | FlagStop

definition checkFlag :: "'c PlayEnv \<Rightarrow> string \<Rightarrow> int \<Rightarrow> FlagAnswer play" where
  "checkFlag env gid now =
     planned (\<lambda>s. planCheckFlag env gid now (atOnce s)) (\<lambda>d. case d of
       StopTimer \<Rightarrow> returnS FlagStop
     | WaitMs ms \<Rightarrow> returnS (FlagWait ms)
     | EndByFlag p \<Rightarrow> bindS (runFinish p now) (\<lambda>ended. case ended of
         None \<Rightarrow> returnS FlagStop | Some e \<Rightarrow> returnS (FlagEnded e)))"

definition abandonAfterDisconnect :: "string \<Rightarrow> ClockSide \<Rightarrow> bool \<Rightarrow> int \<Rightarrow> GameEnded option play" where
  "abandonAfterDisconnect gid goneSide opponentConnected now =
     planned (\<lambda>s. planAbandon gid goneSide opponentConnected now (atOnce s)) (\<lambda>d. case d of
       None \<Rightarrow> returnS None | Some p \<Rightarrow> runFinish p now)"

section \<open>Making a move\<close>

datatype GameErrorCode =
  NOT_YOUR_TURN | ILLEGAL_MOVE | GAME_NOT_ACTIVE | NOT_A_PLAYER | STALE_SEQ | CLOCK_EXPIRED
  | TIME_REMAINS | NO_DRAW_OFFER | ABORT_WINDOW_CLOSED | TOKEN_EXPIRED | RATE_LIMITED | INTERNAL

text \<open>What the transaction and the Redis write after it will need.\<close>

record MovePlan =
  mpGame :: GameRow
  mpMove :: MoveRow
  mpFinish :: "FinishGameInput option"
  mpEnd :: "PositionEnd option"
  mpClock :: ClockState
  mpEntryVersion :: "nat option"
  mpElapsedMs :: int

datatype MoveDecision =
    RejectMove GameErrorCode "string option"
  | FlagFell FinishPlan
  | PlayMove MovePlan

record MovedClock =
  mcClock :: ClockState
  mcVersion :: "nat option"
  mcElapsedMs :: int

text \<open>Step 4: the clock after the move, or the state in which the flag has fallen.\<close>

definition clockStep :: "GameRow \<Rightarrow> int \<Rightarrow> Reads \<Rightarrow> PlayFailure DomainError + (ClockState + MovedClock)" where
  "clockStep game now R =
     (let config = clockConfig (grGame game); ply = grPlyCount game + 1 in
      if ply = 1 then
        Inr (Inr \<lparr>mcClock = \<lparr>whiteRemainingMs = baseMs config, blackRemainingMs = baseMs config, turn = B, lastEventAtMs = now\<rparr>,
                 mcVersion = None, mcElapsedMs = 0\<rparr>)
      else let entry = loadClock (grId game) (atClock R); st = liveClock game now R in
        bindE (orClockError (applyMove config st now)) (\<lambda>applied.
          if flagged applied then Inr (Inl (newState applied))
          else Inr (Inr \<lparr>mcClock = newState applied, mcVersion = map_option ceVersion entry, mcElapsedMs = elapsedMs applied\<rparr>)))"

text \<open>
  Step 6: the end of the game, the repetitions counted through the hash index and checked with
  the key; the starting position, which no row holds, counts as well.
\<close>

definition endStep :: "'c PlayEnv \<Rightarrow> string \<Rightarrow> ValidatedMove \<Rightarrow> Reads \<Rightarrow> PlayFailure DomainError + PositionEnd option" where
  "endStep env gid v R =
     bindE (orChessError (gameEndFromPosition (peChess env) (vmFenAfter v) [])) (\<lambda>e.
     if e = None \<and> \<not> vmIrreversible v then
       let occurrences = positionOccurrences gid (vmPositionHash v) (atOccurrences R);
           key = positionKey (vmFenAfter v);
           inHistory = length (filter (\<lambda>f. positionKey f = key) occurrences);
           startBonus = (if positionKey STARTING_FEN = key then 1 else 0)
       in if inHistory + startBonus + 1 \<ge> 3 then Inr (Some THREEFOLD_REPETITION) else Inr None
     else Inr e)"

definition planMove :: "'c PlayEnv \<Rightarrow> string \<Rightarrow> string \<Rightarrow> string \<Rightarrow> int \<Rightarrow> Reads \<Rightarrow> PlayFailure DomainError + MoveDecision" where
  "planMove env userId gid uci now R =
     (case activeGame gid (atGame R) of
        None \<Rightarrow> Inr (RejectMove GAME_NOT_ACTIVE None)
      | Some game \<Rightarrow>
      let fen = gmFen (grGame game) in
      case sideOf env userId (grGame game) of
        None \<Rightarrow> Inr (RejectMove NOT_A_PLAYER None)
      | Some side \<Rightarrow>
      if sideToMove fen \<noteq> side then Inr (RejectMove NOT_YOUR_TURN (Some fen))
      else bindE (clockStep game now R) (\<lambda>step. case step of
        Inl flaggedState \<Rightarrow> bindE (planTimeout env game side flaggedState (Some userId) R) (\<lambda>p. Inr (FlagFell p))
      | Inr c \<Rightarrow>
        (case validateMove (peChess env) fen uci of
           None \<Rightarrow> Inr (RejectMove ILLEGAL_MOVE (Some fen))
         | Some v \<Rightarrow>
           bindE (endStep env gid v R) (\<lambda>endStatus.
           let ply = grPlyCount game + 1;
               winnerColor = (if endStatus = Some CHECKMATE then Some (colorOf side) else None);
               finish = (case endStatus of
                   None \<Rightarrow> None
                 | Some e \<Rightarrow> Some \<lparr>fiStatus = ByPosition e, fiWinnerColor = winnerColor,
                     fiWhiteTimeLeftMs = whiteRemainingMs (mcClock c), fiBlackTimeLeftMs = blackRemainingMs (mcClock c),
                     fiPgn = buildPgn (map mrSan (listMoves gid (atSans R)) @ [vmSan v]) (pgnResult (ByPosition e) winnerColor),
                     fiActorUserId = Some userId\<rparr>)
           in Inr (PlayMove
             \<lparr>mpGame = game,
              mpMove = \<lparr>mrPly = ply, mrSan = vmSan v, mrUci = vmUci v, mrFenAfter = vmFenAfter v,
                mrPositionHash = vmPositionHash v,
                mrThinkTimeMs = (if ply = 1 then None else Some (mcElapsedMs c)),
                mrClockAfterMs = Some (remainingOf (mcClock c) side)\<rparr>,
              mpFinish = finish, mpEnd = endStatus, mpClock = mcClock c, mpEntryVersion = mcVersion c,
              mpElapsedMs = mcElapsedMs c\<rparr>)))))"

text \<open>Step 7, and step 8 with what follows it.\<close>

definition commitMove :: "MovePlan \<Rightarrow> int \<Rightarrow> unit play" where
  "commitMove p now = appendMove (grId (mpGame p)) (mpMove p) (mpFinish p) now"

definition afterMove :: "MovePlan \<Rightarrow> unit play" where
  "afterMove p =
     (let gid = grId (mpGame p) in
      case mpEnd p of
        Some e \<Rightarrow> afterFinish (mpGame p) (ByPosition e)
      | None \<Rightarrow>
          bindS (if mrPly (mpMove p) = 1 \<or> mpEntryVersion p = None then initClock gid (mpClock p)
                 else bindS (updateClock gid (the (mpEntryVersion p)) (mpClock p)) (\<lambda>casOk.
                      if casOk then returnS () else clearClock gid))
            (\<lambda>_. clearDrawOffer gid))"

record MoveMade =
  mmGameId :: string
  mmPly :: nat
  mmSan :: string
  mmUci :: string
  mmFen :: string
  mmClock :: ClockPayload
  mmMsSpent :: int

datatype MoveResult =
    MoveOk MoveMade "GameEnded option"
  | MoveRejected GameErrorCode "string option" "GameEnded option"

definition moveMade :: "MovePlan \<Rightarrow> int \<Rightarrow> MoveResult" where
  "moveMade p now =
     (let gid = grId (mpGame p); m = mpMove p; clock = toClockPayload (mpClock p) (mpEnd p \<noteq> None) now
      in MoveOk \<lparr>mmGameId = gid, mmPly = mrPly m, mmSan = mrSan m, mmUci = mrUci m, mmFen = mrFenAfter m, mmClock = clock,
                mmMsSpent = (if mrPly m = 1 then 0 else mpElapsedMs p)\<rparr>
           (case mpFinish p of
              None \<Rightarrow> None
            | Some f \<Rightarrow> Some \<lparr>geGameId = gid, geStatus = fiStatus f, geWinnerColor = fiWinnerColor f,
                geFinalFen = mrFenAfter m, geClock = clock\<rparr>))"

definition isConflict :: "'x DomainError \<Rightarrow> bool" where
  "isConflict e = (case e of ConflictError x \<Rightarrow> True | _ \<Rightarrow> False)"

definition makeMove :: "'c PlayEnv \<Rightarrow> string \<Rightarrow> string \<Rightarrow> string \<Rightarrow> int \<Rightarrow> MoveResult play" where
  "makeMove env userId gid uci now =
     planned (\<lambda>s. planMove env userId gid uci now (atOnce s)) (\<lambda>d. case d of
       RejectMove code resync \<Rightarrow> returnS (MoveRejected code resync None)
     | FlagFell p \<Rightarrow> bindS (runFinish p now) (\<lambda>ended.
         returnS (MoveRejected CLOCK_EXPIRED (Some (gmFen (grGame (fpGame p)))) ended))
     | PlayMove p \<Rightarrow> (\<lambda>s. case commitMove p now s of
         (Inl e, t) \<Rightarrow> if isConflict e then (Inr (MoveRejected STALE_SEQ (Some (gmFen (grGame (mpGame p)))) None), t) else (Inl e, t)
       | (Inr u, t) \<Rightarrow> bindS (afterMove p) (\<lambda>_. returnS (moveMade p now)) t))"

section \<open>Creating games\<close>

definition createGameWithClock :: "CreateGameInput \<Rightarrow> int \<Rightarrow> GameRow play" where
  "createGameWithClock input now =
     bindS (createGame input now) (\<lambda>game.
     case orClockError (createClock (clockConfig (grGame game)) W now) of
       Inl e \<Rightarrow> throwS e
     | Inr st \<Rightarrow> bindS (initClock (grId game) st) (\<lambda>_. returnS game))"

record ChallengeInput =
  chOpponentPlayerId :: string
  chTimeCategory :: TimeCategory
  chClockType :: ChessClockType
  chBaseTimeSeconds :: int
  chIncrementSeconds :: int

text \<open>The checks of \<^verbatim>\<open>CreateChallengeDto\<close>.\<close>

definition SUPPORTED_CLOCK_TYPES :: "ChessClockType list" where
  "SUPPORTED_CLOCK_TYPES = [SUDDEN_DEATH, FISCHER_INCREMENT, BRONSTEIN_DELAY, SIMPLE_DELAY]"

definition challengeDtoOk :: "ChallengeInput \<Rightarrow> bool" where
  "challengeDtoOk c \<longleftrightarrow> chClockType c \<in> set SUPPORTED_CLOCK_TYPES \<and>
     5 \<le> chBaseTimeSeconds c \<and> chBaseTimeSeconds c \<le> 21600 \<and> 0 \<le> chIncrementSeconds c \<and> chIncrementSeconds c \<le> 180"

definition createFriendChallenge :: "'c PlayEnv \<Rightarrow> string \<Rightarrow> ChallengeInput \<Rightarrow> int \<Rightarrow> GameRow play" where
  "createFriendChallenge env actorUserId input now =
     (case assertTimeCategoryMatches (chTimeCategory input) (of_int (chBaseTimeSeconds input)) (of_int (chIncrementSeconds input)) of
        Inl expected \<Rightarrow> throwS (BusinessRuleError ''TIME_CATEGORY_MISMATCH'')
      | Inr _ \<Rightarrow>
     (case pePlayerOfUser env actorUserId of
        None \<Rightarrow> throwS (BusinessRuleError ''PLAYER_PROFILE_REQUIRED'')
      | Some me \<Rightarrow>
     (case peFindPlayer env (chOpponentPlayerId input) of
        None \<Rightarrow> throwS (NotFoundError ''Player'')
      | Some (opponentId, opponentUser) \<Rightarrow>
     bindS (guardS (opponentId = me) (BusinessRuleError ''SELF_CHALLENGE'')) (\<lambda>_.
     bindS (createGameWithClock
       \<lparr>cgWhitePlayerId = me, cgBlackPlayerId = opponentId, cgTimeCategory = chTimeCategory input,
        cgClockType = chClockType input, cgBaseTimeSeconds = chBaseTimeSeconds input,
        cgIncrementSeconds = chIncrementSeconds input, cgIsRated = False\<rparr> now) (\<lambda>game.
     bindS (case opponentUser of None \<Rightarrow> returnS () | Some u \<Rightarrow> emit (PlayMatched (grId game) actorUserId u)) (\<lambda>_.
     returnS game))))))"

section \<open>Views\<close>

definition clockPayloadFor :: "GameRow \<Rightarrow> MoveRow list \<Rightarrow> int \<Rightarrow> PlayDb \<Rightarrow> PlayFailure DomainError + ClockPayload" where
  "clockPayloadFor game moves now s =
     (let config = clockConfig (grGame game) in
      if gmStatus (grGame game) \<noteq> ACTIVE then
        Inr \<lparr>cpWhiteMs = (case gmWhiteTimeLeftMs (grGame game) of None \<Rightarrow> baseMs config | Some ms \<Rightarrow> ms),
             cpBlackMs = (case gmBlackTimeLeftMs (grGame game) of None \<Rightarrow> baseMs config | Some ms \<Rightarrow> ms),
             cpRunning = None, cpServerSentAtMs = now\<rparr>
      else if grPlyCount game = 0 then
        Inr \<lparr>cpWhiteMs = baseMs config, cpBlackMs = baseMs config, cpRunning = None, cpServerSentAtMs = now\<rparr>
      else let st = (case loadClock (grId game) s of Some e \<Rightarrow> ceState e | None \<Rightarrow> reconstructClock game moves now) in
        bindE (orClockError (remaining config st W now)) (\<lambda>w.
        bindE (orClockError (remaining config st B now)) (\<lambda>b.
        Inr \<lparr>cpWhiteMs = w, cpBlackMs = b, cpRunning = Some (turn st), cpServerSentAtMs = now\<rparr>)))"

definition liveClockPayload :: "string \<Rightarrow> int \<Rightarrow> PlayDb \<Rightarrow> PlayFailure DomainError + ClockPayload option" where
  "liveClockPayload gid now s =
     (case activeGame gid s of
        None \<Rightarrow> Inr None
      | Some game \<Rightarrow>
          let config = clockConfig (grGame game) in
          if grPlyCount game = 0 then
            Inr (Some \<lparr>cpWhiteMs = baseMs config, cpBlackMs = baseMs config, cpRunning = None, cpServerSentAtMs = now\<rparr>)
          else let st = liveClock game now (atOnce s) in
            bindE (orClockError (remaining config st W now)) (\<lambda>w.
            bindE (orClockError (remaining config st B now)) (\<lambda>b.
            Inr (Some \<lparr>cpWhiteMs = w, cpBlackMs = b, cpRunning = Some (turn st), cpServerSentAtMs = now\<rparr>))))"

record PlayerPayload =
  ppPlayerId :: string
  ppFirstName :: string
  ppLastName :: string
  ppTitle :: "string option"
  ppRating :: rat

definition toPlayerPayload :: "'c PlayEnv \<Rightarrow> string \<Rightarrow> rat \<Rightarrow> PlayerPayload" where
  "toPlayerPayload env pid rating =
     (case peSummary env pid of
        None \<Rightarrow> \<lparr>ppPlayerId = pid, ppFirstName = '''', ppLastName = '''', ppTitle = None, ppRating = rating\<rparr>
      | Some (firstName, lastName, t) \<Rightarrow> \<lparr>ppPlayerId = pid, ppFirstName = firstName, ppLastName = lastName, ppTitle = t, ppRating = rating\<rparr>)"

record GameView =
  gvRow :: GameRow
  gvMoves :: "string list"
  gvClock :: ClockPayload
  gvWhite :: PlayerPayload
  gvBlack :: PlayerPayload
  gvViewer :: "ClockSide option"
  gvDrawOfferFrom :: "ClockSide option"

text \<open>\<open>gvViewer\<close> is \<^verbatim>\<open>viewerRole\<close>, with \<open>None\<close> for a spectator.\<close>

definition getGameView :: "'c PlayEnv \<Rightarrow> string \<Rightarrow> string option \<Rightarrow> int \<Rightarrow> PlayDb \<Rightarrow> PlayFailure DomainError + GameView" where
  "getGameView env gid viewer now s =
     (case findGame gid s of
        None \<Rightarrow> Inl (NotFoundError ''OnlineGame'')
      | Some game \<Rightarrow>
          let g = grGame game; moves = listMoves gid s;
              ratingOf = (\<lambda>pid. case peRating env pid (gmTimeCategory g) of None \<Rightarrow> 1500 | Some r \<Rightarrow> r)
          in bindE (clockPayloadFor game moves now s) (\<lambda>clock.
             Inr \<lparr>gvRow = game, gvMoves = map mrSan moves, gvClock = clock,
                  gvWhite = toPlayerPayload env (gmWhitePlayerId g) (ratingOf (gmWhitePlayerId g)),
                  gvBlack = toPlayerPayload env (gmBlackPlayerId g) (ratingOf (gmBlackPlayerId g)),
                  gvViewer = (case viewer of None \<Rightarrow> None | Some u \<Rightarrow> sideOf env u g),
                  gvDrawOfferFrom = (if gmStatus g = ACTIVE then getDrawOffer gid s else None)\<rparr>))"

definition listActiveGamesFor :: "'c PlayEnv \<Rightarrow> string \<Rightarrow> PlayDb \<Rightarrow> GameRow list" where
  "listActiveGamesFor env userId s =
     (case pePlayerOfUser env userId of None \<Rightarrow> [] | Some me \<Rightarrow> listActiveForPlayer me s)"

section \<open>Sweeps\<close>

text \<open>
  What an instance that died left behind. An error ends the sweep and is logged; the flag that
  keeps one instance from sweeping twice at a time is part of the process, not of the database.
\<close>

fun sweepFlags :: "'c PlayEnv \<Rightarrow> int \<Rightarrow> string list \<Rightarrow> unit play" where
  "sweepFlags env now [] = returnS ()"
| "sweepFlags env now (gid # gids) =
     bindS (checkFlag env gid now) (\<lambda>r.
     bindS (case r of FlagEnded e \<Rightarrow> emit (PlayGameSwept gid (geStatus e) (geWinnerColor e)) | _ \<Rightarrow> returnS ()) (\<lambda>_.
     sweepFlags env now gids))"

definition logged :: "unit play \<Rightarrow> unit play" where
  "logged m = (\<lambda>s. (Inr (), snd (m s)))"

definition sweepExpiredFlags :: "'c PlayEnv \<Rightarrow> int \<Rightarrow> unit play" where
  "sweepExpiredFlags env now = logged (
     bindS (getS (listStaleActiveGameIds FLAG_SWEEP_IDLE_MS FLAG_SWEEP_LIMIT now)) (\<lambda>gids. sweepFlags env now gids))"

definition sweepGone :: "int option \<Rightarrow> int \<Rightarrow> string \<times> ClockSide \<times> int \<Rightarrow> unit play" where
  "sweepGone graceOverride now gone =
     (case gone of (gid, side, atMs) \<Rightarrow>
      bindS (getS (activeGame gid)) (\<lambda>row. case row of
        None \<Rightarrow> clearGone gid side
      | Some game \<Rightarrow>
        if now - atMs < graceMsFor (gmTimeCategory (grGame game)) graceOverride + GRACE_SWEEP_SLACK_MS then returnS ()
        else bindS (getS (isPresent gid side)) (\<lambda>present.
          if present then clearGone gid side
          else bindS (getS (isPresent gid (otherSide side))) (\<lambda>opponentConnected.
               bindS (abandonAfterDisconnect gid side opponentConnected now) (\<lambda>ended.
               bindS (clearGone gid side) (\<lambda>_.
               case ended of None \<Rightarrow> returnS ()
               | Some e \<Rightarrow> emit (PlayGameSwept gid (geStatus e) (geWinnerColor e))))))))"

fun sweepAll :: "int option \<Rightarrow> int \<Rightarrow> (string \<times> ClockSide \<times> int) list \<Rightarrow> unit play" where
  "sweepAll graceOverride now [] = returnS ()"
| "sweepAll graceOverride now (g # gs) = bindS (sweepGone graceOverride now g) (\<lambda>_. sweepAll graceOverride now gs)"

definition sweepAbandonedGames :: "int option \<Rightarrow> int \<Rightarrow> unit play" where
  "sweepAbandonedGames graceOverride now = logged (
     bindS (getS rdGoneIndex) (\<lambda>members. bindS (listGone members) (\<lambda>gone. sweepAll graceOverride now gone)))"

end
