(* ===== verification/PlayHistory.thy ===== *)
theory PlayHistory
  imports PlayService "HOL-Library.Sublist"
begin

text \<open>
  The stored record of a game: its rows are a line of legal moves from the starting position, and
  the end of the game found through the hash index is the one \<^verbatim>\<open>gameEndFromPosition\<close> finds in the
  whole history.
\<close>

section \<open>Lines of legal moves\<close>

definition lastFen :: "string \<Rightarrow> MoveRow list \<Rightarrow> string" where
  "lastFen fen ms = (if ms = [] then fen else mrFenAfter (last ms))"

definition rowOf :: "'c ChessJs \<Rightarrow> string \<Rightarrow> MoveRow \<Rightarrow> bool" where
  "rowOf lib fen m \<longleftrightarrow> (case validateMove lib fen (mrUci m) of
     None \<Rightarrow> False
   | Some v \<Rightarrow> mrFenAfter m = vmFenAfter v \<and> mrSan m = vmSan v \<and> mrPositionHash m = vmPositionHash v)"

fun legalLine :: "'c ChessJs \<Rightarrow> string \<Rightarrow> MoveRow list \<Rightarrow> bool" where
  "legalLine lib fen [] \<longleftrightarrow> True"
| "legalLine lib fen (m # ms) \<longleftrightarrow> rowOf lib fen m \<and> legalLine lib (mrFenAfter m) ms"

lemma lastFen_simps [simp]: "lastFen fen [] = fen" "lastFen fen (ms @ [m]) = mrFenAfter m"
  "lastFen fen (m # ms) = lastFen (mrFenAfter m) ms"
  by (simp_all add: lastFen_def)

lemma legalLine_append [simp]:
  "legalLine lib fen (ms @ ms') \<longleftrightarrow> legalLine lib fen ms \<and> legalLine lib (lastFen fen ms) ms'"
  by (induction ms arbitrary: fen) auto

lemma rowOf_hash: "rowOf lib fen m \<Longrightarrow> zobristHash lib (mrFenAfter m) = Inr (mrPositionHash m)"
  unfolding rowOf_def by (auto split: option.splits elim!: validateMove_Some)

lemma rowOf_turn: "turnsAlternate lib \<Longrightarrow> rowOf lib fen m \<Longrightarrow> sideToMove (mrFenAfter m) = otherSide (sideToMove fen)"
  unfolding rowOf_def by (auto split: option.splits dest: validateMove_turn)

lemma rowOf_progress: "progresses lib \<mu> \<Longrightarrow> rowOf lib fen m \<Longrightarrow> \<mu> (positionKey (mrFenAfter m)) \<le> \<mu> (positionKey fen)"
  unfolding rowOf_def by (auto split: option.splits dest: validateMove_progress)

lemma legalLine_hashes: "legalLine lib fen ms \<Longrightarrow> m \<in> set ms \<Longrightarrow> zobristHash lib (mrFenAfter m) = Inr (mrPositionHash m)"
  by (induction ms arbitrary: fen) (auto dest: rowOf_hash)

lemma legalLine_turn:
  "turnsAlternate lib \<Longrightarrow> legalLine lib fen ms \<Longrightarrow>
   sideToMove (lastFen fen ms) = (if even (length ms) then sideToMove fen else otherSide (sideToMove fen))"
  by (induction ms arbitrary: fen) (auto dest: rowOf_turn)

lemma legalLine_progress:
  "progresses lib \<mu> \<Longrightarrow> legalLine lib fen ms \<Longrightarrow> f \<in> set (fen # map mrFenAfter ms) \<Longrightarrow>
   \<mu> (positionKey (lastFen fen ms)) \<le> \<mu> (positionKey f)"
proof (induction ms arbitrary: fen f)
  case (Cons m ms)
  have "rowOf lib fen m" using Cons.prems by simp
  then have "\<mu> (positionKey (mrFenAfter m)) \<le> \<mu> (positionKey fen)" by (rule rowOf_progress [OF Cons.prems(1)])
  moreover have "\<mu> (positionKey (lastFen (mrFenAfter m) ms)) \<le> \<mu> (positionKey g)" if "g = mrFenAfter m \<or> f \<noteq> fen \<and> g = f" for g
    by (rule Cons.IH) (use Cons.prems that in auto)
  ultimately show ?case by (cases "f = fen") auto
qed simp

section \<open>Repetitions through the index\<close>

lemma gameEnd_prior:
  "gameEndFromPosition lib fen prior =
     bindE (gameEndFromPosition lib fen []) (\<lambda>e.
       if e = None \<and> 3 \<le> 1 + length (filter (\<lambda>f. positionKey f = positionKey fen) prior) then Inr (Some THREEFOLD_REPETITION)
       else Inr e)"
proof (cases "isDeadPosition lib fen")
  case (Inl e)
  then show ?thesis by (cases "chessNew lib fen") (simp_all add: gameEndFromPosition_def newChess_def)
next
  case (Inr dead)
  then show ?thesis by (cases "chessNew lib fen") (simp_all add: gameEndFromPosition_def newChess_def Let_def)
qed

lemma irreversible_new:
  assumes "progresses lib \<mu>" "legalLine lib STARTING_FEN ms" "validateMove lib (lastFen STARTING_FEN ms) uci = Some v"
    and "vmIrreversible v"
  shows "filter (\<lambda>f. positionKey f = positionKey (vmFenAfter v)) (STARTING_FEN # map mrFenAfter ms) = []"
proof -
  have less: "\<mu> (positionKey (vmFenAfter v)) < \<mu> (positionKey (lastFen STARTING_FEN ms))"
    using validateMove_progress [OF assms(1,3)] assms(4) by blast
  have "positionKey f \<noteq> positionKey (vmFenAfter v)" if "f \<in> set (STARTING_FEN # map mrFenAfter ms)" for f
    using legalLine_progress [OF assms(1,2) that] less by auto
  then show ?thesis by (meson filter_False)
qed

lemma occurrences_exact:
  assumes "readsFen lib" "legalLine lib STARTING_FEN (pdMoves s gid)" "zobristHash lib (vmFenAfter v) = Inr (vmPositionHash v)"
  shows "length (filter (\<lambda>f. positionKey f = positionKey (vmFenAfter v)) (positionOccurrences gid (vmPositionHash v) s))
    = length (filter (\<lambda>f. positionKey f = positionKey (vmFenAfter v)) (map mrFenAfter (pdMoves s gid)))"
proof -
  let ?rows = "map (\<lambda>m. (mrFenAfter m, mrPositionHash m)) (pdMoves s gid)"
  have "map fst (filter (\<lambda>(f, k). k = h) (map (\<lambda>m. (mrFenAfter m, mrPositionHash m)) ms))
      = map mrFenAfter (filter (\<lambda>m. mrPositionHash m = h) ms)" for h and ms :: "MoveRow list"
    by (induction ms) auto
  moreover have "\<forall>(f, k) \<in> set ?rows. zobristHash lib f = Inr k" using legalLine_hashes [OF assms(2)] by auto
  moreover have "map fst ?rows = map mrFenAfter (pdMoves s gid)" by simp
  ultimately show ?thesis
    using indexed_count [OF assms(1,3), of ?rows] unfolding positionOccurrences_def by (simp only:)
qed

lemma endStep_reference:
  assumes lib: "readsFen (peChess env)" "progresses (peChess env) \<mu>"
    and line: "legalLine (peChess env) STARTING_FEN ms" "pdMoves (atOccurrences R) gid = ms"
    and v: "validateMove (peChess env) (lastFen STARTING_FEN ms) uci = Some v"
  shows "endStep env gid v R =
    orChessError (gameEndFromPosition (peChess env) (vmFenAfter v) (STARTING_FEN # map mrFenAfter ms))"
proof -
  let ?lib = "peChess env" and ?f = "vmFenAfter v"
  let ?same = "\<lambda>f. positionKey f = positionKey ?f"
  have hash: "zobristHash ?lib ?f = Inr (vmPositionHash v)" using v by (rule validateMove_Some)
  have occ: "length (filter ?same (positionOccurrences gid (vmPositionHash v) (atOccurrences R)))
      = length (filter ?same (map mrFenAfter ms))"
    using occurrences_exact [OF lib(1) _ hash, of "atOccurrences R" gid] line by simp
  show ?thesis
  proof (cases "gameEndFromPosition ?lib ?f []")
    case (Inl x)
    then show ?thesis by (simp add: endStep_def gameEnd_prior [of ?lib ?f "STARTING_FEN # _"] orChessError_def)
  next
    case (Inr e)
    show ?thesis
    proof (cases "vmIrreversible v")
      case True
      then show ?thesis
        using Inr irreversible_new [OF lib(2) line(1) v True]
        by (simp add: endStep_def gameEnd_prior [of ?lib ?f "STARTING_FEN # _"] orChessError_def del: filter.simps)
    next
      case False
      then show ?thesis
        using Inr occ by (auto simp: endStep_def gameEnd_prior [of ?lib ?f "STARTING_FEN # _"] orChessError_def Let_def)
    qed
  qed
qed

end
