(* ===== verification/PlayRuns.thy ===== *)
theory PlayRuns
  imports PlayHistory
begin

text \<open>
  Online games under concurrency. A run is the list of the states the database and Redis have
  been in, newest first, with the Redis writes that are still to be made. A request may have read
  any of these states, commits on the newest, and its later writes come at any time or never: the
  process may stop, or Redis fail. Keys expire at any time. \<open>dbOk\<close> holds in all these states and
  the stored games only ever grow (\<open>extends\<close>).
\<close>

section \<open>Runs\<close>

datatype AfterTask =
    AfterCreate string ClockState
  | AfterMove MovePlan
  | AfterFinish GameRow OnlineGameStatus

fun afterTask :: "AfterTask \<Rightarrow> unit play" where
  "afterTask (AfterCreate gid st) = initClock gid st"
| "afterTask (AfterMove p) = afterMove p"
| "afterTask (AfterFinish game st) = afterFinish game st"

text \<open>The game is read first, everything else afterwards.\<close>

definition readsIn :: "PlayDb list \<Rightarrow> Reads \<Rightarrow> bool" where
  "readsIn h R \<longleftrightarrow> (\<exists>k < length h. atGame R = h ! k \<and>
     {atClock R, atMoves R, atOccurrences R, atSans R} \<subseteq> set (take (Suc k) h))"

text \<open>The decisions that end a game without a move.\<close>

definition finishPlanned :: "'c PlayEnv \<Rightarrow> int \<Rightarrow> Reads \<Rightarrow> FinishPlan \<Rightarrow> bool" where
  "finishPlanned env now R p \<longleftrightarrow>
     (\<exists>u gid. planResign env u gid now R = Inr p \<or> planAcceptDraw env u gid now R = Inr p
        \<or> planAbort env u gid now R = Inr p \<or> planClaimTimeout env u gid now R = Inr (Inr p))
     \<or> (\<exists>gid. planCheckFlag env gid now R = Inr (EndByFlag p))
     \<or> (\<exists>gid side conn. planAbandon gid side conn now R = Inr (Some p))
     \<or> (\<exists>u gid uci. planMove env u gid uci now R = Inr (FlagFell p))"

definition noGames :: PlayDb where
  "noGames = \<lparr>pdGames = (\<lambda>_. None), pdMoves = (\<lambda>_. []), pdAudit = [], pdNextId = 0, rdClock = (\<lambda>_. None),
     rdDraw = (\<lambda>_. None), rdPresence = (\<lambda>_ _. False), rdGone = (\<lambda>_ _. None), rdGoneIndex = [], pdEvents = []\<rparr>"

text \<open>What concerns only presence, offers, events and expiry leaves tables and clocks alone.\<close>

definition tablesOf :: "PlayDb \<Rightarrow> (string \<Rightarrow> OnlineGame option) \<times> (string \<Rightarrow> MoveRow list) \<times> AuditRow list \<times> nat" where
  "tablesOf s = (pdGames s, pdMoves s, pdAudit s, pdNextId s)"

inductive playRun :: "'c PlayEnv \<Rightarrow> PlayDb list \<Rightarrow> AfterTask list \<Rightarrow> bool" for env where
  starts: "playRun env [noGames] []"
| creates: "playRun env (s # h) ts \<Longrightarrow> createGame input now s = (Inr game, t) \<Longrightarrow>
    createClock (clockConfig (grGame game)) W now = Inr st \<Longrightarrow>
    playRun env (t # s # h) (AfterCreate (grId game) st # ts)"
| moves: "playRun env (s # h) ts \<Longrightarrow> readsIn (s # h) R \<Longrightarrow> planMove env u gid uci now R = Inr (PlayMove p) \<Longrightarrow>
    commitMove p now s = (Inr (), t) \<Longrightarrow> playRun env (t # s # h) (AfterMove p # ts)"
| finishes: "playRun env (s # h) ts \<Longrightarrow> readsIn (s # h) R \<Longrightarrow> finishPlanned env now R p \<Longrightarrow>
    finishGame (grId (fpGame p)) (fpInput p) now s = (Inr (Some row), t) \<Longrightarrow>
    playRun env (t # s # h) (AfterFinish (fpGame p) (fiStatus (fpInput p)) # ts)"
| writes: "playRun env (s # h) ts \<Longrightarrow> a \<in> set ts \<Longrightarrow> playRun env (snd (afterTask a s) # s # h) (remove1 a ts)"
| stops: "playRun env h ts \<Longrightarrow> playRun env h (remove1 a ts)"
| expires: "playRun env (s # h) ts \<Longrightarrow> playRun env (s\<lparr>rdClock := (rdClock s)(gid := None)\<rparr> # s # h) ts"
| other: "playRun env (s # h) ts \<Longrightarrow> tablesOf t = tablesOf s \<Longrightarrow> rdClock t = rdClock s \<Longrightarrow> playRun env (t # s # h) ts"

lemma playRun_nonempty: "playRun env h ts \<Longrightarrow> h \<noteq> []"
  by (induction rule: playRun.induct) auto

lemma readsIn_atOnce: "readsIn (s # h) (atOnce s)"
  unfolding readsIn_def atOnce_def by (intro exI [of _ 0]) simp

section \<open>Stored games\<close>

fun statusEnd :: "OnlineGameStatus \<Rightarrow> PositionEnd option" where
  "statusEnd (ByPosition e) = Some e"
| "statusEnd st = None"

text \<open>The end of the game that the position after move \<open>k\<close> (counted from 0) makes.\<close>

definition endAfter :: "'c ChessJs \<Rightarrow> MoveRow list \<Rightarrow> nat \<Rightarrow> ChessFailure + PositionEnd option" where
  "endAfter lib ms k = gameEndFromPosition lib (mrFenAfter (ms ! k)) (STARTING_FEN # map mrFenAfter (take k ms))"

definition moverOf :: "nat \<Rightarrow> ColorValue" where
  "moverOf ply = (if odd ply then WHITE else BLACK)"

fun winnerOk :: "OnlineGameStatus \<Rightarrow> ColorValue option \<Rightarrow> nat \<Rightarrow> bool" where
  "winnerOk PENDING w n \<longleftrightarrow> False"
| "winnerOk (ByPosition e) w n \<longleftrightarrow> w = (if e = CHECKMATE then Some (moverOf n) else None)"
| "winnerOk RESIGNATION w n \<longleftrightarrow> w \<noteq> None"
| "winnerOk TIMEOUT w n \<longleftrightarrow> w \<noteq> None"
| "winnerOk ABANDONED w n \<longleftrightarrow> True"
| "winnerOk st w n \<longleftrightarrow> w = None"

definition nonneg :: "int option \<Rightarrow> bool" where
  "nonneg x \<longleftrightarrow> (\<exists>ms. x = Some ms \<and> 0 \<le> ms)"

definition movesOk :: "'c ChessJs \<Rightarrow> MoveRow list \<Rightarrow> OnlineGameStatus \<Rightarrow> bool" where
  "movesOk lib ms st \<longleftrightarrow> legalLine lib STARTING_FEN ms \<and> map mrPly ms = [1..<Suc (length ms)] \<and>
     (\<forall>m \<in> set ms. nonneg (mrClockAfterMs m)) \<and>
     (\<forall>k < length ms. endAfter lib ms k = Inr (if Suc k = length ms then statusEnd st else None)) \<and>
     (ms = [] \<longrightarrow> statusEnd st = None)"

definition gameOk :: "'c ChessJs \<Rightarrow> OnlineGame \<Rightarrow> MoveRow list \<Rightarrow> bool" where
  "gameOk lib g ms \<longleftrightarrow> supported (clockConfig g) \<and> movesOk lib ms (gmStatus g) \<and> gmFen g = lastFen STARTING_FEN ms \<and>
     winnerOk (gmStatus g) (gmWinnerColor g) (length ms) \<and>
     (gmStatus g \<noteq> ACTIVE \<longrightarrow> nonneg (gmWhiteTimeLeftMs g) \<and> nonneg (gmBlackTimeLeftMs g))"

definition finishedRows :: "string \<Rightarrow> PlayDb \<Rightarrow> nat" where
  "finishedRows gid s = length (filter (\<lambda>r. auAction r = ''game.finished'' \<and> auResourceId r = gid) (pdAudit s))"

definition entryOk :: "'c ChessJs \<Rightarrow> PlayDb \<Rightarrow> string \<Rightarrow> bool" where
  "entryOk lib s gid \<longleftrightarrow> (case pdGames s gid of
     None \<Rightarrow> pdMoves s gid = [] \<and> finishedRows gid s = 0
   | Some g \<Rightarrow> gameOk lib g (pdMoves s gid) \<and> finishedRows gid s = (if gmStatus g = ACTIVE then 0 else 1) \<and>
       (\<exists>i < pdNextId s. gid = showNat i))"

definition dbOk :: "'c ChessJs \<Rightarrow> PlayDb \<Rightarrow> bool" where
  "dbOk lib s \<longleftrightarrow> (\<forall>gid. entryOk lib s gid) \<and> (\<forall>gid e. rdClock s gid = Some e \<longrightarrow> clockInv (ceState e))"

lemma dbOk_entry: "dbOk lib s \<Longrightarrow> entryOk lib s gid"
  by (simp add: dbOk_def)

lemma dbOk_game:
  assumes "dbOk lib s" "pdGames s gid = Some g"
  shows "gameOk lib g (pdMoves s gid)" "finishedRows gid s = (if gmStatus g = ACTIVE then 0 else 1)" "\<exists>i < pdNextId s. gid = showNat i"
  using dbOk_entry [OF assms(1), of gid] assms(2) by (simp_all add: entryOk_def)

lemma dbOk_none: "dbOk lib s \<Longrightarrow> pdGames s gid = None \<Longrightarrow> pdMoves s gid = [] \<and> finishedRows gid s = 0"
  using dbOk_entry [of lib s gid] by (simp add: entryOk_def)

lemma dbOk_clock: "dbOk lib s \<Longrightarrow> rdClock s gid = Some e \<Longrightarrow> clockInv (ceState e)"
  unfolding dbOk_def by blast

text \<open>A later state holds every game of an earlier one: the same, or with more moves, or over.\<close>

definition extends :: "PlayDb \<Rightarrow> PlayDb \<Rightarrow> bool" where
  "extends s t \<longleftrightarrow> (\<forall>gid g. pdGames s gid = Some g \<longrightarrow>
     (\<exists>g'. pdGames t gid = Some g' \<and> prefix (pdMoves s gid) (pdMoves t gid) \<and>
        gmWhitePlayerId g' = gmWhitePlayerId g \<and> gmBlackPlayerId g' = gmBlackPlayerId g \<and> clockConfig g' = clockConfig g \<and>
        (gmStatus g \<noteq> ACTIVE \<longrightarrow> g' = g \<and> pdMoves t gid = pdMoves s gid)))"

lemma extends_refl [simp]: "extends s s"
  by (simp add: extends_def)

lemma extendsD:
  assumes "extends s t" "pdGames s gid = Some g"
  obtains g' where "pdGames t gid = Some g'" "prefix (pdMoves s gid) (pdMoves t gid)"
    "gmWhitePlayerId g' = gmWhitePlayerId g" "gmBlackPlayerId g' = gmBlackPlayerId g" "clockConfig g' = clockConfig g"
    "gmStatus g \<noteq> ACTIVE \<longrightarrow> g' = g \<and> pdMoves t gid = pdMoves s gid"
  using assms unfolding extends_def by meson

lemma extends_trans:
  assumes "extends s t" "extends t u"
  shows "extends s u"
  unfolding extends_def
proof (intro allI impI)
  fix gid g assume g: "pdGames s gid = Some g"
  obtain g1 where g1: "pdGames t gid = Some g1" "prefix (pdMoves s gid) (pdMoves t gid)"
    "gmWhitePlayerId g1 = gmWhitePlayerId g" "gmBlackPlayerId g1 = gmBlackPlayerId g" "clockConfig g1 = clockConfig g"
    "gmStatus g \<noteq> ACTIVE \<longrightarrow> g1 = g \<and> pdMoves t gid = pdMoves s gid"
    by (rule extendsD [OF assms(1) g])
  obtain g2 where g2: "pdGames u gid = Some g2" "prefix (pdMoves t gid) (pdMoves u gid)"
    "gmWhitePlayerId g2 = gmWhitePlayerId g1" "gmBlackPlayerId g2 = gmBlackPlayerId g1" "clockConfig g2 = clockConfig g1"
    "gmStatus g1 \<noteq> ACTIVE \<longrightarrow> g2 = g1 \<and> pdMoves u gid = pdMoves t gid"
    by (rule extendsD [OF assms(2) g1(1)])
  show "\<exists>g'. pdGames u gid = Some g' \<and> prefix (pdMoves s gid) (pdMoves u gid) \<and>
      gmWhitePlayerId g' = gmWhitePlayerId g \<and> gmBlackPlayerId g' = gmBlackPlayerId g \<and> clockConfig g' = clockConfig g \<and>
      (gmStatus g \<noteq> ACTIVE \<longrightarrow> g' = g \<and> pdMoves u gid = pdMoves s gid)"
    by (intro exI [of _ g2] conjI) (use g1 g2 in \<open>simp_all add: prefix_order.trans [OF g1(2) g2(2)]\<close>)
qed

lemma tables_dbOk:
  assumes "dbOk lib s" "tablesOf t = tablesOf s" "\<And>gid e. rdClock t gid = Some e \<Longrightarrow> clockInv (ceState e)"
  shows "dbOk lib t"
proof -
  have t: "pdGames t = pdGames s" "pdMoves t = pdMoves s" "pdAudit t = pdAudit s" "pdNextId t = pdNextId s"
    using assms(2) by (simp_all add: tablesOf_def)
  have "entryOk lib t gid = entryOk lib s gid" for gid unfolding entryOk_def finishedRows_def t ..
  then show "dbOk lib t" using assms(1,3) by (simp add: dbOk_def)
qed

lemma tables_extends: "tablesOf t = tablesOf s \<Longrightarrow> extends s t"
  by (simp add: extends_def tablesOf_def)

text \<open>Writing the row of one game and its moves.\<close>

lemma dbOk_write:
  assumes ok: "dbOk lib s" and g: "gameOk lib g ms" "\<exists>i < n. gid = showNat i"
    and t: "pdGames t = (pdGames s)(gid := Some g)" "pdMoves t = (pdMoves s)(gid := ms)" "pdNextId t = n" "pdNextId s \<le> n"
      "rdClock t = rdClock s"
    and rows: "finishedRows gid t = (if gmStatus g = ACTIVE then 0 else 1)" "\<And>j. j \<noteq> gid \<Longrightarrow> finishedRows j t = finishedRows j s"
  shows "dbOk lib t"
proof -
  have "entryOk lib t j" for j
  proof (cases "j = gid")
    case True
    then show ?thesis using g rows(1) t by (simp add: entryOk_def)
  next
    case False
    show ?thesis
    proof (cases "pdGames s j")
      case None
      then show ?thesis using False t rows(2) [OF False] dbOk_none [OF ok] by (simp add: entryOk_def)
    next
      case (Some g')
      have "\<exists>i < pdNextId t. j = showNat i" using dbOk_game(3) [OF ok Some] t(3,4) by (metis order.strict_trans2)
      then show ?thesis using Some False t rows(2) [OF False] dbOk_game(1,2) [OF ok Some] by (simp add: entryOk_def)
    qed
  qed
  moreover have "clockInv (ceState e)" if "rdClock t j = Some e" for j e using dbOk_clock [OF ok] that t(5) by simp
  ultimately show ?thesis unfolding dbOk_def by blast
qed

lemma extends_write:
  assumes "pdGames t = (pdGames s)(gid := Some g')" "pdMoves t = (pdMoves s)(gid := ms)"
    and "\<And>g. pdGames s gid = Some g \<Longrightarrow> gmStatus g = ACTIVE \<and> prefix (pdMoves s gid) ms \<and>
       gmWhitePlayerId g' = gmWhitePlayerId g \<and> gmBlackPlayerId g' = gmBlackPlayerId g \<and> clockConfig g' = clockConfig g"
  shows "extends s t"
  unfolding extends_def
proof (intro allI impI)
  fix j g assume "pdGames s j = Some g"
  then show "\<exists>g'. pdGames t j = Some g' \<and> prefix (pdMoves s j) (pdMoves t j) \<and>
      gmWhitePlayerId g' = gmWhitePlayerId g \<and> gmBlackPlayerId g' = gmBlackPlayerId g \<and> clockConfig g' = clockConfig g \<and>
      (gmStatus g \<noteq> ACTIVE \<longrightarrow> g' = g \<and> pdMoves t j = pdMoves s j)"
    using assms(1,2) assms(3) [of g] by (cases "j = gid") simp_all
qed

section \<open>What the transactions leave behind\<close>

definition movedGame :: "MovePlan \<Rightarrow> int \<Rightarrow> OnlineGame \<Rightarrow> OnlineGame" where
  "movedGame p now g = (case mpFinish p of
     None \<Rightarrow> g\<lparr>gmFen := mrFenAfter (mpMove p), gmUpdatedAt := now\<rparr>
   | Some f \<Rightarrow> finishedColumns f now (g\<lparr>gmFen := mrFenAfter (mpMove p)\<rparr>))"

definition finishedRow :: "string \<Rightarrow> FinishGameInput \<Rightarrow> AuditRow" where
  "finishedRow gid f = auditOf ''game.finished'' (case fiActorUserId f of None \<Rightarrow> '''' | Some u \<Rightarrow> u) gid '''' (statusText (fiStatus f)) None"

lemma finished_free: "''game.finished'' \<notin> REASON_REQUIRED"
  by (simp add: REASON_REQUIRED_def)

lemma auditFinished_eval: "auditFinished gid f s = (Inr (), s\<lparr>pdAudit := pdAudit s @ [finishedRow gid f]\<rparr>)"
proof -
  have upd: "pdAudit_update (\<lambda>rows. rows @ [r]) s = s\<lparr>pdAudit := pdAudit s @ [r]\<rparr>" for r by (cases s) simp
  show ?thesis
    using finished_free by (simp add: auditFinished_def auditWriteTo_def bindS_def guardS_def returnS_def putS_def finishedRow_def auditOf_def upd)
qed

lemma appendMoveTx_Inr:
  assumes "appendMoveTx gid m fin now s = (Inr (), t)"
  obtains g where "pdGames s gid = Some g" "gmStatus g = ACTIVE" "\<forall>x \<in> set (pdMoves s gid). mrPly x \<noteq> mrPly m"
    "t = s\<lparr>pdMoves := (pdMoves s)(gid := pdMoves s gid @ [m]),
       pdGames := (pdGames s)(gid := Some (case fin of
         None \<Rightarrow> g\<lparr>gmFen := mrFenAfter m, gmUpdatedAt := now\<rparr>
       | Some f \<Rightarrow> finishedColumns f now (g\<lparr>gmFen := mrFenAfter m\<rparr>))),
       pdAudit := pdAudit s @ (case fin of None \<Rightarrow> [] | Some f \<Rightarrow> [finishedRow gid f])\<rparr>"
proof -
  note defs = bindS_def getS_def guardS_def throwS_def returnS_def putS_def
  have no: "\<forall>x \<in> set (pdMoves s gid). mrPly x \<noteq> mrPly m"
  proof (rule ccontr)
    assume "\<not> ?thesis"
    then show False using assms by (auto simp: appendMoveTx_def transaction_def defs)
  qed
  obtain g where g: "pdGames s gid = Some g" "gmStatus g = ACTIVE"
  proof (cases "pdGames s gid")
    case None
    then show ?thesis using assms no by (auto simp: appendMoveTx_def transaction_def defs updateActive_def)
  next
    case (Some g)
    then show ?thesis using assms no that by (cases "gmStatus g = ACTIVE") (auto simp: appendMoveTx_def transaction_def defs updateActive_def)
  qed
  have "\<not> (\<exists>x \<in> set (pdMoves s gid). mrPly x = mrPly m)" using no by blast
  then have "t = s\<lparr>pdMoves := (pdMoves s)(gid := pdMoves s gid @ [m]),
       pdGames := (pdGames s)(gid := Some (case fin of
         None \<Rightarrow> g\<lparr>gmFen := mrFenAfter m, gmUpdatedAt := now\<rparr>
       | Some f \<Rightarrow> finishedColumns f now (g\<lparr>gmFen := mrFenAfter m\<rparr>))),
       pdAudit := pdAudit s @ (case fin of None \<Rightarrow> [] | Some f \<Rightarrow> [finishedRow gid f])\<rparr>"
    using assms g by (cases fin) (auto simp: appendMoveTx_def transaction_def defs updateActive_def auditFinished_eval)
  then show ?thesis using that g no by blast
qed

lemma commitMove_Inr:
  assumes "commitMove p now s = (Inr (), t)"
  obtains g where "pdGames s (grId (mpGame p)) = Some g" "gmStatus g = ACTIVE"
    "\<forall>x \<in> set (pdMoves s (grId (mpGame p))). mrPly x \<noteq> mrPly (mpMove p)"
    "t = s\<lparr>pdMoves := (pdMoves s)(grId (mpGame p) := pdMoves s (grId (mpGame p)) @ [mpMove p]),
       pdGames := (pdGames s)(grId (mpGame p) := Some (movedGame p now g)),
       pdAudit := pdAudit s @ (case mpFinish p of None \<Rightarrow> [] | Some f \<Rightarrow> [finishedRow (grId (mpGame p)) f])\<rparr>"
proof -
  have "appendMoveTx (grId (mpGame p)) (mpMove p) (mpFinish p) now s = (Inr (), t)"
    using assms by (simp add: commitMove_def appendMove_def split: prod.splits sum.splits)
  then show ?thesis by (rule appendMoveTx_Inr) (use that in \<open>simp add: movedGame_def\<close>)
qed

lemma finishGame_Inr:
  assumes "finishGame gid f now s = (Inr (Some row), t)"
  obtains g where "pdGames s gid = Some g" "gmStatus g = ACTIVE"
    "t = s\<lparr>pdGames := (pdGames s)(gid := Some (finishedColumns f now g)), pdAudit := pdAudit s @ [finishedRow gid f]\<rparr>"
proof -
  note defs = bindS_def getS_def guardS_def throwS_def returnS_def putS_def
  obtain g where g: "pdGames s gid = Some g" "gmStatus g = ACTIVE"
  proof (cases "pdGames s gid")
    case None
    then show ?thesis using assms by (simp add: finishGame_def transaction_def defs updateActive_def)
  next
    case (Some g)
    then show ?thesis using assms that by (cases "gmStatus g = ACTIVE") (simp_all add: finishGame_def transaction_def defs updateActive_def)
  qed
  then have "t = s\<lparr>pdGames := (pdGames s)(gid := Some (finishedColumns f now g)), pdAudit := pdAudit s @ [finishedRow gid f]\<rparr>"
    using assms by (simp add: finishGame_def transaction_def defs updateActive_def auditFinished_eval)
  then show ?thesis using that g by blast
qed

lemma finishGame_other: "finishGame gid f now s = (Inr None, t) \<Longrightarrow> t = s"
  by (auto simp: finishGame_def transaction_def bindS_def getS_def returnS_def putS_def updateActive_def auditFinished_eval findGame_def
      split: option.splits if_splits)

lemma finishGame_returns: "\<exists>r. fst (finishGame gid f now s) = Inr r"
  by (cases "pdGames s gid")
     (simp_all add: finishGame_def transaction_def bindS_def getS_def returnS_def putS_def updateActive_def auditFinished_eval)

lemma finishedRows_append:
  "finishedRows j (s\<lparr>pdAudit := pdAudit s @ rs\<rparr>) = finishedRows j s + length (filter (\<lambda>r. auAction r = ''game.finished'' \<and> auResourceId r = j) rs)"
  by (simp add: finishedRows_def)

lemma finishedRow_filter: "auAction (finishedRow gid f) = ''game.finished''" "auResourceId (finishedRow gid f) = gid"
  by (simp_all add: finishedRow_def auditOf_def)

section \<open>What the decisions rest on\<close>

lemma activeGame_Some:
  assumes "activeGame gid s = Some game"
  obtains g where "pdGames s gid = Some g" "gmStatus g = ACTIVE" "game = toGameRow gid g (length (pdMoves s gid))"
  using assms by (auto simp: activeGame_def findGame_def toGameRow_def split: option.splits if_splits)

lemma requireActivePlayer_Inr:
  assumes "requireActivePlayer env u gid s = Inr (game, side)"
  shows "activeGame gid s = Some game" "sideOf env u (grGame game) = Some side"
  using assms by (auto simp: requireActivePlayer_def activeGame_def split: option.splits if_splits)

lemma orClock_Inr [simp]: "orClockError r = Inr x \<longleftrightarrow> r = Inr x"
  by (cases r) (simp_all add: orClockError_def)

lemma orChess_Inr [simp]: "orChessError r = Inr x \<longleftrightarrow> r = Inr x"
  by (cases r) (simp_all add: orChessError_def)

lemma planMove_PlayMove:
  assumes "planMove env u gid uci now R = Inr (PlayMove p)"
  obtains game side c v where "activeGame gid (atGame R) = Some game" "sideOf env u (grGame game) = Some side"
    "sideToMove (gmFen (grGame game)) = side" "clockStep game now R = Inr (Inr c)"
    "validateMove (peChess env) (gmFen (grGame game)) uci = Some v" "endStep env gid v R = Inr (mpEnd p)"
    "mpGame p = game" "mpClock p = mcClock c" "mpEntryVersion p = mcVersion c"
    "mpMove p = \<lparr>mrPly = grPlyCount game + 1, mrSan = vmSan v, mrUci = vmUci v, mrFenAfter = vmFenAfter v,
        mrPositionHash = vmPositionHash v, mrThinkTimeMs = (if grPlyCount game = 0 then None else Some (mcElapsedMs c)),
        mrClockAfterMs = Some (remainingOf (mcClock c) side)\<rparr>"
    "mpFinish p = (case mpEnd p of None \<Rightarrow> None | Some e \<Rightarrow>
       let w = (if e = CHECKMATE then Some (colorOf side) else None) in
       Some \<lparr>fiStatus = ByPosition e, fiWinnerColor = w,
         fiWhiteTimeLeftMs = whiteRemainingMs (mcClock c), fiBlackTimeLeftMs = blackRemainingMs (mcClock c),
         fiPgn = buildPgn (map mrSan (listMoves gid (atSans R)) @ [vmSan v]) (pgnResult (ByPosition e) w),
         fiActorUserId = Some u\<rparr>)"
proof -
  obtain game where game: "activeGame gid (atGame R) = Some game"
    using assms by (cases "activeGame gid (atGame R)") (simp_all add: planMove_def)
  obtain side where side: "sideOf env u (grGame game) = Some side"
    using assms game by (cases "sideOf env u (grGame game)") (simp_all add: planMove_def)
  have toMove: "sideToMove (gmFen (grGame game)) = side"
    using assms game side by (cases "sideToMove (gmFen (grGame game)) = side") (simp_all add: planMove_def)
  obtain c where c: "clockStep game now R = Inr (Inr c)"
  proof (cases "clockStep game now R")
    case (Inr r)
    then show ?thesis using assms game side toMove that by (cases r) (auto simp: planMove_def)
  qed (use assms game side toMove in \<open>simp add: planMove_def\<close>)
  obtain v where v: "validateMove (peChess env) (gmFen (grGame game)) uci = Some v"
    using assms game side toMove c by (cases "validateMove (peChess env) (gmFen (grGame game)) uci") (simp_all add: planMove_def)
  obtain e where e: "endStep env gid v R = Inr e"
    using assms game side toMove c v by (cases "endStep env gid v R") (simp_all add: planMove_def)
  show ?thesis
    by (rule that [OF game side toMove c v])
       (use assms game side toMove c v e in \<open>auto simp: planMove_def Let_def split: option.splits\<close>)
qed

lemma planMove_FlagFell:
  assumes "planMove env u gid uci now R = Inr (FlagFell p)"
  obtains game side st where "activeGame gid (atGame R) = Some game" "sideOf env u (grGame game) = Some side"
    "sideToMove (gmFen (grGame game)) = side" "clockStep game now R = Inr (Inl st)" "planTimeout env game side st (Some u) R = Inr p"
proof -
  obtain game where game: "activeGame gid (atGame R) = Some game"
    using assms by (cases "activeGame gid (atGame R)") (simp_all add: planMove_def)
  obtain side where side: "sideOf env u (grGame game) = Some side"
    using assms game by (cases "sideOf env u (grGame game)") (simp_all add: planMove_def)
  have toMove: "sideToMove (gmFen (grGame game)) = side"
    using assms game side by (cases "sideToMove (gmFen (grGame game)) = side") (simp_all add: planMove_def)
  obtain st where st: "clockStep game now R = Inr (Inl st)"
  proof (cases "clockStep game now R")
    case (Inr r)
    then show ?thesis using assms game side toMove that
      by (cases r; cases "validateMove (peChess env) (gmFen (grGame game)) uci") (auto simp: planMove_def Let_def)
  qed (use assms game side toMove in \<open>simp add: planMove_def\<close>)
  show ?thesis
    by (rule that [OF game side toMove st]) (use assms game side toMove st in \<open>auto simp: planMove_def Let_def\<close>)
qed

section \<open>Clocks stay non-negative\<close>

lemma clockInv_reconstruct:
  assumes "\<forall>m \<in> set ms. nonneg (mrClockAfterMs m)" "0 \<le> gmBaseTimeSeconds (grGame game)"
  shows "clockInv (reconstructClock game ms now)"
proof -
  let ?step = "\<lambda>m (w, b). case mrClockAfterMs m of None \<Rightarrow> (w, b) | Some x \<Rightarrow> if mrPly m mod 2 = 1 then (x, b) else (w, x)"
  have fold: "0 \<le> fst (fold ?step ms wb) \<and> 0 \<le> snd (fold ?step ms wb)" if "0 \<le> fst wb" "0 \<le> (snd wb :: int)" for wb
    using assms(1) that by (induction ms arbitrary: wb) (auto simp: nonneg_def split: prod.splits)
  have "0 \<le> baseMs (clockConfig (grGame game))" using assms(2) by (simp add: clockConfig_def)
  then show ?thesis
    using fold [of "(baseMs (clockConfig (grGame game)), baseMs (clockConfig (grGame game)))"]
    by (simp add: reconstructClock_def Let_def clockInv_def case_prod_unfold)
qed

text \<open>What the reads of a request show, when the states it reads are in order.\<close>

definition readsOk :: "'c ChessJs \<Rightarrow> Reads \<Rightarrow> bool" where
  "readsOk lib R \<longleftrightarrow> (\<forall>r \<in> {atGame R, atClock R, atMoves R, atOccurrences R, atSans R}. dbOk lib r) \<and>
     (\<forall>r \<in> {atClock R, atMoves R, atOccurrences R, atSans R}. extends (atGame R) r)"

lemma readsOkD:
  assumes "readsOk lib R"
  shows "dbOk lib (atGame R)" "dbOk lib (atClock R)" "dbOk lib (atMoves R)" "dbOk lib (atOccurrences R)" "dbOk lib (atSans R)"
    "extends (atGame R) (atOccurrences R)"
  using assms by (simp_all add: readsOk_def)

lemma dbOk_moves_nonneg: "dbOk lib s \<Longrightarrow> m \<in> set (listMoves gid s) \<Longrightarrow> nonneg (mrClockAfterMs m)"
  using dbOk_none [of lib s gid] dbOk_game(1) [of lib s gid]
  by (cases "pdGames s gid") (auto simp: listMoves_def gameOk_def movesOk_def)

lemma activeGame_base:
  assumes "dbOk lib s" "activeGame gid s = Some game"
  shows "supported (clockConfig (grGame game))" "0 \<le> gmBaseTimeSeconds (grGame game)" "grId game = gid"
proof -
  obtain g where g: "pdGames s gid = Some g" "game = toGameRow gid g (length (pdMoves s gid))" using activeGame_Some [OF assms(2)] by metis
  then show "supported (clockConfig (grGame game))" "grId game = gid"
    using dbOk_game(1) [OF assms(1) g(1)] by (simp_all add: gameOk_def toGameRow_def)
  then show "0 \<le> gmBaseTimeSeconds (grGame game)" by (simp add: supported_def clockConfig_def)
qed

lemma liveClock_inv:
  assumes "readsOk lib R" "activeGame gid (atGame R) = Some game"
  shows "clockInv (liveClock game now R)"
proof (cases "loadClock (grId game) (atClock R)")
  case None
  have "clockInv (reconstructClock game (listMoves (grId game) (atMoves R)) now)"
  proof (rule clockInv_reconstruct)
    show "\<forall>m \<in> set (listMoves (grId game) (atMoves R)). nonneg (mrClockAfterMs m)"
      using assms(1) dbOk_moves_nonneg [of lib "atMoves R"] by (auto simp: readsOk_def)
    show "0 \<le> gmBaseTimeSeconds (grGame game)" by (rule activeGame_base(2) [OF readsOkD(1) [OF assms(1)] assms(2)])
  qed
  then show ?thesis using None by (simp add: liveClock_def)
next
  case (Some e)
  then show ?thesis using assms(1) dbOk_clock [of lib "atClock R"] by (simp add: liveClock_def loadClock_def readsOk_def)
qed

lemma clockStep_inv:
  assumes "readsOk lib R" "activeGame gid (atGame R) = Some game"
  shows "clockStep game now R = Inr (Inr c) \<Longrightarrow> clockInv (mcClock c)" "clockStep game now R = Inr (Inl st) \<Longrightarrow> clockInv st"
proof -
  have sup: "supported (clockConfig (grGame game))" by (rule activeGame_base(1) [OF readsOkD(1) [OF assms(1)] assms(2)])
  then have base: "0 \<le> baseMs (clockConfig (grGame game))" by (simp add: supported_def)
  note live = applyMove_inv [OF sup liveClock_inv [OF assms]]
  show "clockStep game now R = Inr (Inr c) \<Longrightarrow> clockInv (mcClock c)"
    using live base by (auto simp: clockStep_def Let_def clockInv_def split: if_splits)
  show "clockStep game now R = Inr (Inl st) \<Longrightarrow> clockInv st"
    using live by (auto simp: clockStep_def Let_def split: if_splits)
qed

lemma remaining_nonneg: "clockInv st \<Longrightarrow> remaining config st side now = Inr x \<Longrightarrow> 0 \<le> x"
  by (auto simp: remaining_def Let_def clockInv_remainingOf split: if_splits)

section \<open>Ends without a move\<close>

definition finishOk :: "FinishGameInput \<Rightarrow> bool" where
  "finishOk f \<longleftrightarrow> 0 \<le> fiWhiteTimeLeftMs f \<and> 0 \<le> fiBlackTimeLeftMs f \<and> fiStatus f \<noteq> ACTIVE \<and> statusEnd (fiStatus f) = None \<and>
     (\<forall>n. winnerOk (fiStatus f) (fiWinnerColor f) n)"

lemma planTimeout_ok:
  "planTimeout env game loser st actor R = Inr p \<Longrightarrow> clockInv st \<Longrightarrow> fpGame p = game \<and> finishOk (fpInput p)"
  by (auto simp: planTimeout_def Let_def finishOk_def clockInv_def split: if_splits)

lemma planNoMove_ok:
  assumes "planNoMove game st w actor now R = Inr p" "readsOk lib R" "activeGame gid (atGame R) = Some game"
    and "st \<noteq> ACTIVE" "statusEnd st = None" "\<forall>n. winnerOk st w n"
  shows "fpGame p = game \<and> finishOk (fpInput p)"
proof -
  have db: "dbOk lib (atGame R)" "dbOk lib (atClock R)" "dbOk lib (atSans R)" using assms(2) by (auto simp: readsOk_def)
  note base = activeGame_base [OF db(1) assms(3)]
  let ?clock = "case loadClock (grId game) (atClock R) of Some e \<Rightarrow> ceState e
    | None \<Rightarrow> reconstructClock game (listMoves (grId game) (atSans R)) now"
  have "clockInv ?clock"
    using dbOk_clock [OF db(2)] clockInv_reconstruct [OF _ base(2)] dbOk_moves_nonneg [OF db(3)]
    by (auto simp: loadClock_def split: option.split)
  then have rem: "remaining (clockConfig (grGame game)) ?clock side now = Inr x \<Longrightarrow> 0 \<le> x" for side x by (rule remaining_nonneg)
  moreover have "0 \<le> baseMs (clockConfig (grGame game))" using base(1) by (simp add: supported_def)
  ultimately show ?thesis
    using assms(1,4-6) unfolding planNoMove_def Let_def finishOk_def by (auto split: if_splits)
qed

lemma finishPlanned_ok:
  assumes "finishPlanned env now R p" "readsOk (peChess env) R"
  shows "finishOk (fpInput p) \<and> activeGame (grId (fpGame p)) (atGame R) = Some (fpGame p)"
proof -
  let ?lib = "peChess env"
  have db: "dbOk ?lib (atGame R)" using assms(2) by (simp add: readsOk_def)
  have id: "activeGame gid (atGame R) = Some game \<Longrightarrow> grId game = gid" for gid game
    by (rule activeGame_base(3) [OF db])
  have settle: ?thesis if "fpGame p = game \<and> finishOk (fpInput p)" "activeGame gid (atGame R) = Some game" for gid game
    using that id [OF that(2)] by simp
  consider u gid where "planResign env u gid now R = Inr p" | u gid where "planAcceptDraw env u gid now R = Inr p"
    | u gid where "planAbort env u gid now R = Inr p" | u gid where "planClaimTimeout env u gid now R = Inr (Inr p)"
    | gid where "planCheckFlag env gid now R = Inr (EndByFlag p)"
    | gid side conn where "planAbandon gid side conn now R = Inr (Some p)"
    | u gid uci where "planMove env u gid uci now R = Inr (FlagFell p)"
    using assms(1) unfolding finishPlanned_def by blast
  then show ?thesis
  proof cases
    case (1 u gid)
    then obtain game side where "requireActivePlayer env u gid (atGame R) = Inr (game, side)"
      "planNoMove game RESIGNATION (Some (colorOf (otherSide side))) (Some u) now R = Inr p"
      by (auto simp: planResign_def)
    then show ?thesis using planNoMove_ok [OF _ assms(2)] requireActivePlayer_Inr(1) settle by fastforce
  next
    case (2 u gid)
    then obtain game side where "requireActivePlayer env u gid (atGame R) = Inr (game, side)"
      "planNoMove game DRAW_AGREED None (Some u) now R = Inr p"
      by (auto simp: planAcceptDraw_def Let_def)
    then show ?thesis using planNoMove_ok [OF _ assms(2)] requireActivePlayer_Inr(1) settle by fastforce
  next
    case (3 u gid)
    then obtain game side where "requireActivePlayer env u gid (atGame R) = Inr (game, side)"
      "planNoMove game ABORTED None (Some u) now R = Inr p"
      by (auto simp: planAbort_def)
    then show ?thesis using planNoMove_ok [OF _ assms(2)] requireActivePlayer_Inr(1) settle by fastforce
  next
    case (4 u gid)
    then obtain game side st where g: "requireActivePlayer env u gid (atGame R) = Inr (game, side)"
      and st: "planTimeout env game (otherSide side) st (Some u) R = Inr p"
        "st = \<lparr>whiteRemainingMs = (if otherSide side = W then 0 else whiteRemainingMs (liveClock game now R)),
           blackRemainingMs = (if otherSide side = B then 0 else blackRemainingMs (liveClock game now R)),
           turn = turn (liveClock game now R), lastEventAtMs = lastEventAtMs (liveClock game now R)\<rparr>"
      by (auto simp: planClaimTimeout_def Let_def split: if_splits)
    have "clockInv st" using liveClock_inv [OF assms(2) requireActivePlayer_Inr(1) [OF g], of now] st(2) by (auto simp: clockInv_def)
    then show ?thesis using planTimeout_ok [OF st(1)] requireActivePlayer_Inr(1) [OF g] settle by blast
  next
    case (5 gid)
    then obtain game st where g: "activeGame gid (atGame R) = Some game"
      and st: "planTimeout env game (turn (liveClock game now R)) st None R = Inr p" "clockInv st"
    proof -
      obtain game where g: "activeGame gid (atGame R) = Some game"
        using 5 by (cases "activeGame gid (atGame R)") (simp_all add: planCheckFlag_def)
      have live: "clockInv (liveClock game now R)" by (rule liveClock_inv [OF assms(2) g])
      from 5 g obtain w b where wb: "(if turn (liveClock game now R) = W then Inr 0
            else orClockError (remaining (clockConfig (grGame game)) (liveClock game now R) W now)) = Inr w"
          "(if turn (liveClock game now R) = B then Inr 0
            else orClockError (remaining (clockConfig (grGame game)) (liveClock game now R) B now)) = Inr b"
        and plan: "planTimeout env game (turn (liveClock game now R))
            \<lparr>whiteRemainingMs = w, blackRemainingMs = b, turn = turn (liveClock game now R),
             lastEventAtMs = lastEventAtMs (liveClock game now R)\<rparr> None R = Inr p"
        unfolding planCheckFlag_def by (simp add: Let_def split: if_splits) blast+
      have "0 \<le> w" "0 \<le> b" using wb remaining_nonneg [OF live] by (auto split: if_splits)
      then show ?thesis using that [OF g plan] by (simp add: clockInv_def)
    qed
    then show ?thesis using planTimeout_ok settle by blast
  next
    case (6 gid side conn)
    then obtain game w where "activeGame gid (atGame R) = Some game" "planNoMove game ABANDONED w None now R = Inr p"
      by (auto simp: planAbandon_def Let_def split: option.splits)
    then show ?thesis using planNoMove_ok [OF _ assms(2)] settle by fastforce
  next
    case (7 u gid uci)
    then obtain game side st where g: "activeGame gid (atGame R) = Some game" "sideOf env u (grGame game) = Some side"
      "sideToMove (gmFen (grGame game)) = side"
      and "clockStep game now R = Inr (Inl st)" "planTimeout env game side st (Some u) R = Inr p"
      by (rule planMove_FlagFell)
    then show ?thesis using planTimeout_ok clockStep_inv(2) [OF assms(2) g(1)] g(1) settle by blast
  qed
qed

section \<open>Every step keeps the stored games\<close>

text \<open>The rules of chess that the proofs use.\<close>

definition chessOk :: "'c ChessJs \<Rightarrow> (string \<Rightarrow> nat) \<Rightarrow> bool" where
  "chessOk lib \<mu> \<longleftrightarrow> readsFen lib \<and> turnsAlternate lib \<and> progresses lib \<mu>"

lemma validateMove_uci: "validateMove lib fen uci = Some v \<Longrightarrow> vmUci v = uci"
  by (erule validateMove_Some)

lemma starting_side: "sideToMove STARTING_FEN = W"
  by code_simp

lemma movesOk_append:
  assumes "movesOk lib ms ACTIVE" "rowOf lib (lastFen STARTING_FEN ms) m" "mrPly m = Suc (length ms)" "nonneg (mrClockAfterMs m)"
    and "gameEndFromPosition lib (mrFenAfter m) (STARTING_FEN # map mrFenAfter ms) = Inr (statusEnd st)"
  shows "movesOk lib (ms @ [m]) st"
proof -
  have "endAfter lib (ms @ [m]) k = Inr (if Suc k = length (ms @ [m]) then statusEnd st else None)" if "k < length (ms @ [m])" for k
  proof (cases "k = length ms")
    case True
    then show ?thesis using assms(5) by (simp add: endAfter_def)
  next
    case False
    then have "k < length ms" using that by simp
    then have "endAfter lib (ms @ [m]) k = Inr None"
      using assms(1) by (simp add: movesOk_def endAfter_def nth_append)
    then show ?thesis using False by simp
  qed
  then show ?thesis using assms(1-4) unfolding movesOk_def by auto
qed

lemma plies_distinct:
  assumes "movesOk lib ms st" "\<forall>x \<in> set ms. mrPly x \<noteq> Suc (length ms0)" "prefix ms0 ms"
  shows "ms = ms0"
proof -
  have plies: "mrPly ` set ms = {1..<Suc (length ms)}"
    using assms(1) unfolding movesOk_def by (metis set_map set_upt)
  have "Suc (length ms0) \<notin> mrPly ` set ms" using assms(2) by force
  then have "\<not> length ms0 < length ms" unfolding plies by auto
  then show ?thesis using assms(3) by (auto simp: prefix_def)
qed

lemma mover_color:
  assumes "turnsAlternate lib" "legalLine lib STARTING_FEN ms" "sideToMove (lastFen STARTING_FEN ms) = side"
  shows "colorOf side = moverOf (Suc (length ms))"
  using legalLine_turn [OF assms(1,2)] assms(3) by (auto simp: starting_side moverOf_def split: if_splits)

lemma commit_keeps_db:
  assumes chess: "chessOk (peChess env) \<mu>" and R: "readsOk (peChess env) R"
    and plan: "planMove env u gid uci now R = Inr (PlayMove p)"
    and s: "dbOk (peChess env) s" "extends (atGame R) s" "extends (atOccurrences R) s"
    and c: "commitMove p now' s = (Inr (), t)"
  shows "dbOk (peChess env) t" "extends s t" "clockInv (mpClock p)"
proof -
  let ?lib = "peChess env"
  have lib: "readsFen ?lib" "turnsAlternate ?lib" "progresses ?lib \<mu>" using chess by (simp_all add: chessOk_def)
  obtain game side cl v where g: "activeGame gid (atGame R) = Some game"
      "sideOf env u (grGame game) = Some side" "sideToMove (gmFen (grGame game)) = side"
    and cl: "clockStep game now R = Inr (Inr cl)" and v: "validateMove ?lib (gmFen (grGame game)) uci = Some v"
    and e: "endStep env gid v R = Inr (mpEnd p)" and p: "mpGame p = game" "mpClock p = mcClock cl" "mpEntryVersion p = mcVersion cl"
    and m: "mpMove p = \<lparr>mrPly = grPlyCount game + 1, mrSan = vmSan v, mrUci = vmUci v, mrFenAfter = vmFenAfter v,
        mrPositionHash = vmPositionHash v, mrThinkTimeMs = (if grPlyCount game = 0 then None else Some (mcElapsedMs cl)),
        mrClockAfterMs = Some (remainingOf (mcClock cl) side)\<rparr>"
    and fin: "mpFinish p = (case mpEnd p of None \<Rightarrow> None | Some e \<Rightarrow>
       let w = (if e = CHECKMATE then Some (colorOf side) else None) in
       Some \<lparr>fiStatus = ByPosition e, fiWinnerColor = w,
         fiWhiteTimeLeftMs = whiteRemainingMs (mcClock cl), fiBlackTimeLeftMs = blackRemainingMs (mcClock cl),
         fiPgn = buildPgn (map mrSan (listMoves gid (atSans R)) @ [vmSan v]) (pgnResult (ByPosition e) w),
         fiActorUserId = Some u\<rparr>)"
    by (rule planMove_PlayMove [OF plan])
  let ?ms = "pdMoves (atGame R) gid"
  obtain g0 where g0: "pdGames (atGame R) gid = Some g0" "gmStatus g0 = ACTIVE" "game = toGameRow gid g0 (length ?ms)"
    using activeGame_Some [OF g(1)] by metis
  have ok0: "gameOk ?lib g0 ?ms" by (rule dbOk_game(1) [OF readsOkD(1) [OF R] g0(1)])
  have gid: "grId (mpGame p) = gid" "mrPly (mpMove p) = Suc (length ?ms)" using p m g0(3) by (simp_all add: toGameRow_def)
  obtain g1 where g1: "pdGames s gid = Some g1" "gmStatus g1 = ACTIVE"
    and free: "\<forall>x \<in> set (pdMoves s gid). mrPly x \<noteq> Suc (length ?ms)"
    and t: "t = s\<lparr>pdMoves := (pdMoves s)(gid := pdMoves s gid @ [mpMove p]),
       pdGames := (pdGames s)(gid := Some (movedGame p now' g1)),
       pdAudit := pdAudit s @ (case mpFinish p of None \<Rightarrow> [] | Some f \<Rightarrow> [finishedRow gid f])\<rparr>"
    by (rule commitMove_Inr [OF c, unfolded gid])
  have ok1: "gameOk ?lib g1 (pdMoves s gid)" by (rule dbOk_game(1) [OF s(1) g1(1)])
  have "prefix ?ms (pdMoves s gid)" by (rule extendsD [OF s(2) g0(1)])
  then have ms: "pdMoves s gid = ?ms" using plies_distinct [of ?lib "pdMoves s gid" "gmStatus g1" ?ms] ok1 free by (simp add: gameOk_def)
  have occ: "pdMoves (atOccurrences R) gid = ?ms"
  proof -
    obtain g2 where g2: "pdGames (atOccurrences R) gid = Some g2" "prefix ?ms (pdMoves (atOccurrences R) gid)"
      by (rule extendsD [OF readsOkD(6) [OF R] g0(1)])
    have "prefix (pdMoves (atOccurrences R) gid) (pdMoves s gid)" by (rule extendsD [OF s(3) g2(1)])
    then show ?thesis using g2(2) ms by (simp add: prefix_order.antisym)
  qed
  have fen: "gmFen (grGame game) = lastFen STARTING_FEN ?ms" using ok0 g0(3) by (simp add: gameOk_def toGameRow_def)
  have line: "movesOk ?lib ?ms ACTIVE" "legalLine ?lib STARTING_FEN ?ms" using ok0 g0(2) by (simp_all add: gameOk_def movesOk_def)
  have row: "rowOf ?lib (lastFen STARTING_FEN ?ms) (mpMove p)"
    using v m fen validateMove_uci [OF v] by (simp add: rowOf_def)
  have "orChessError (gameEndFromPosition ?lib (vmFenAfter v) (STARTING_FEN # map mrFenAfter ?ms)) = Inr (mpEnd p)"
    using endStep_reference [OF lib(1,3) line(2) occ] v e fen by simp
  then have ended: "gameEndFromPosition ?lib (mrFenAfter (mpMove p)) (STARTING_FEN # map mrFenAfter ?ms) = Inr (mpEnd p)"
    using m by simp
  have inv: "clockInv (mcClock cl)" by (rule clockStep_inv(1) [OF R g(1) cl])
  then show "clockInv (mpClock p)" using p by simp
  let ?g = "movedGame p now' g1"
  have stat: "gmStatus ?g = (case mpEnd p of None \<Rightarrow> ACTIVE | Some e \<Rightarrow> ByPosition e)"
    using g1(2) fin by (simp add: movedGame_def finishedColumns_def Let_def split: option.split)
  then have send: "statusEnd (gmStatus ?g) = mpEnd p" by (simp split: option.split)
  have clk: "nonneg (mrClockAfterMs (mpMove p))" using m inv by (simp add: nonneg_def clockInv_remainingOf)
  have moves': "movesOk ?lib (?ms @ [mpMove p]) (gmStatus ?g)"
    using movesOk_append [OF line(1) row gid(2) clk, of "gmStatus ?g"] ended send by simp
  have color: "colorOf side = moverOf (Suc (length ?ms))" using mover_color [OF lib(2) line(2)] g(3) fen by simp
  have conf: "clockConfig ?g = clockConfig g1" "gmFen ?g = mrFenAfter (mpMove p)"
    "gmWhitePlayerId ?g = gmWhitePlayerId g1" "gmBlackPlayerId ?g = gmBlackPlayerId g1"
    by (simp_all add: movedGame_def finishedColumns_def clockConfig_def split: option.split)
  have okg: "gameOk ?lib ?g (?ms @ [mpMove p])"
  proof (cases "mpEnd p")
    case None
    then have "?g = g1\<lparr>gmFen := mrFenAfter (mpMove p), gmUpdatedAt := now'\<rparr>" using fin by (simp add: movedGame_def)
    then show ?thesis using ok1 g1(2) moves' by (simp add: gameOk_def clockConfig_def)
  next
    case (Some e)
    then show ?thesis using ok1 moves' conf stat fin inv color
      by (simp add: gameOk_def movedGame_def finishedColumns_def Let_def nonneg_def clockInv_def)
  qed
  show "dbOk ?lib t"
  proof (rule dbOk_write [OF s(1) okg])
    show "\<exists>i < pdNextId s. gid = showNat i" by (rule dbOk_game(3) [OF s(1) g1(1)])
    show "pdMoves t = (pdMoves s)(gid := ?ms @ [mpMove p])" using t ms by simp
    have "finishedRows gid s = 0" using dbOk_game(2) [OF s(1) g1(1)] g1(2) by simp
    then show "finishedRows gid t = (if gmStatus ?g = ACTIVE then 0 else 1)"
      using t stat fin by (simp add: finishedRows_def finishedRow_filter Let_def split: option.split)
    show "finishedRows j t = finishedRows j s" if "j \<noteq> gid" for j
      using t that by (simp add: finishedRows_def finishedRow_filter split: option.split)
  qed (simp_all add: t)
  show "extends s t"
    by (rule extends_write [where gid = gid and g' = ?g and ms = "?ms @ [mpMove p]"])
       (use t ms g1 conf in simp_all)
qed

lemma finish_keeps_db:
  assumes f: "finishOk f" and s: "dbOk lib s" and c: "finishGame gid f now s = (Inr (Some row), t)"
  shows "dbOk lib t" "extends s t"
proof -
  obtain g where g: "pdGames s gid = Some g" "gmStatus g = ACTIVE"
    and t: "t = s\<lparr>pdGames := (pdGames s)(gid := Some (finishedColumns f now g)), pdAudit := pdAudit s @ [finishedRow gid f]\<rparr>"
    by (rule finishGame_Inr [OF c])
  let ?g = "finishedColumns f now g"
  have ok: "gameOk lib g (pdMoves s gid)" by (rule dbOk_game(1) [OF s g(1)])
  have okg: "gameOk lib ?g (pdMoves s gid)"
    using ok f g(2) by (simp add: gameOk_def finishedColumns_def movesOk_def finishOk_def nonneg_def clockConfig_def)
  show "dbOk lib t"
  proof (rule dbOk_write [OF s okg])
    show "\<exists>i < pdNextId s. gid = showNat i" by (rule dbOk_game(3) [OF s g(1)])
    have "finishedRows gid s = 0" using dbOk_game(2) [OF s g(1)] g(2) by simp
    then show "finishedRows gid t = (if gmStatus ?g = ACTIVE then 0 else 1)"
      using t f by (simp add: finishedRows_def finishedRow_filter finishedColumns_def finishOk_def)
    show "finishedRows j t = finishedRows j s" if "j \<noteq> gid" for j
      using t that by (simp add: finishedRows_def finishedRow_filter)
  qed (simp_all add: t)
  show "extends s t"
    by (rule extends_write [where gid = gid and g' = ?g and ms = "pdMoves s gid"])
       (use t g in \<open>simp_all add: finishedColumns_def clockConfig_def\<close>)
qed

lemma create_keeps_db:
  assumes s: "dbOk lib s" and c: "createGame input now s = (Inr game, t)" and st: "createClock (clockConfig (grGame game)) W now = Inr st"
  shows "dbOk lib t" "extends s t" "clockInv st"
proof -
  define g where "g = grGame game"
  have gm: "game = toGameRow (showNat (pdNextId s)) g 0"
    and t: "t = s\<lparr>pdGames := (pdGames s)(showNat (pdNextId s) := Some g), pdNextId := Suc (pdNextId s)\<rparr>"
    and g: "gmStatus g = ACTIVE" "gmFen g = STARTING_FEN" "gmWinnerColor g = None"
    using c unfolding g_def createGame_def bindS_def getS_def putS_def returnS_def Let_def toGameRow_def by auto
  let ?gid = "showNat (pdNextId s)"
  have sup: "supported (clockConfig g)" using st gm by (auto simp: createClock_def toGameRow_def)
  have free: "pdGames s ?gid = None"
  proof (cases "pdGames s ?gid")
    case (Some g')
    then obtain i where i: "i < pdNextId s" "?gid = showNat i" using dbOk_game(3) [OF s] by blast
    then have "Some (pdNextId s) = Some i" using readDigits_showNat by metis
    then show ?thesis using i(1) by simp
  qed
  then have none: "pdMoves s ?gid = []" "finishedRows ?gid s = 0" using dbOk_none [OF s] by auto
  have ms: "pdMoves s = (pdMoves s)(?gid := [])" using none(1) by (simp add: fun_upd_idem)
  have okg: "gameOk lib g []" using sup g by (simp add: gameOk_def movesOk_def)
  have rows: "finishedRows j t = finishedRows j s" for j using t by (simp add: finishedRows_def)
  show "dbOk lib t"
  proof (rule dbOk_write [OF s okg, of "Suc (pdNextId s)" ?gid])
    show "pdMoves t = (pdMoves s)(?gid := [])" using t ms by simp
    show "finishedRows ?gid t = (if gmStatus g = ACTIVE then 0 else 1)" using rows none(2) g(1) by simp
  qed (use t rows in auto)
  show "extends s t"
    by (rule extends_write [where gid = ?gid and g' = g and ms = "[]"]) (use t ms free in auto)
  show "clockInv st" using st sup gm by (auto simp: createClock_def clockInv_def supported_def toGameRow_def)
qed

section \<open>The invariant of runs\<close>

fun taskOk :: "AfterTask \<Rightarrow> bool" where
  "taskOk (AfterCreate gid st) = clockInv st"
| "taskOk (AfterMove p) = clockInv (mpClock p)"
| "taskOk (AfterFinish game st) = True"

definition clocksOk :: "PlayDb \<Rightarrow> bool" where
  "clocksOk s \<longleftrightarrow> (\<forall>gid e. rdClock s gid = Some e \<longrightarrow> clockInv (ceState e))"

text \<open>A Redis write touches no table and leaves good clocks good.\<close>

definition redisOnly :: "'a play \<Rightarrow> bool" where
  "redisOnly m \<longleftrightarrow> frames tablesOf m \<and> (\<forall>s. clocksOk s \<longrightarrow> clocksOk (snd (m s)))"

lemma redisOnlyI:
  "(\<And>s. tablesOf (snd (m s)) = tablesOf s) \<Longrightarrow>
   (\<And>s gid e. rdClock (snd (m s)) gid = Some e \<Longrightarrow> rdClock s gid = Some e \<or> clockInv (ceState e)) \<Longrightarrow> redisOnly m"
  unfolding redisOnly_def frames_def clocksOk_def by blast

lemma redisOnly_basic:
  "redisOnly (returnS x)" "clockInv st \<Longrightarrow> redisOnly (initClock gid st)"
  "redisOnly (clearClock gid)" "redisOnly (clearDrawOffer gid)" "redisOnly (emit e)"
  by (rule redisOnlyI; auto simp: tablesOf_def initClock_def clearClock_def clearDrawOffer_def emit_def split: if_splits)+

lemma redisOnly_update: "clockInv st \<Longrightarrow> redisOnly (updateClock gid v st)"
proof (rule redisOnlyI)
  fix s j e assume st: "clockInv st" and e: "rdClock (snd (updateClock gid v st s)) j = Some e"
  then show "rdClock s j = Some e \<or> clockInv (ceState e)"
    by (cases "rdClock s gid"; cases "ceVersion (the (rdClock s gid)) = v"; cases "j = gid")
       (simp_all add: updateClock_def bindS_def split: if_splits, auto)
next
  fix s show "tablesOf (snd (updateClock gid v st s)) = tablesOf s"
    by (cases "rdClock s gid") (simp_all add: updateClock_def bindS_def tablesOf_def)
qed

lemma redisOnly_bind: "redisOnly m \<Longrightarrow> (\<And>x. redisOnly (f x)) \<Longrightarrow> redisOnly (bindS m f)"
proof -
  assume m: "redisOnly m" and f: "\<And>x. redisOnly (f x)"
  have "clocksOk (snd (bindS m f s))" if s: "clocksOk s" for s
  proof (cases "m s")
    case (Pair r s')
    have "clocksOk (snd (m s))" using m s by (simp add: redisOnly_def)
    then have s': "clocksOk s'" using Pair by simp
    show ?thesis
    proof (cases r)
      case (Inr x)
      have "clocksOk (snd (f x s'))" using f [of x] s' by (simp add: redisOnly_def)
      then show ?thesis using Pair Inr by (simp add: bindS_def)
    qed (use Pair s' in \<open>simp add: bindS_def\<close>)
  qed
  moreover have "frames tablesOf (bindS m f)" using m f by (intro frames_bind) (simp_all add: redisOnly_def)
  ultimately show "redisOnly (bindS m f)" by (simp add: redisOnly_def)
qed

lemma redisOnly_afterTask: "taskOk a \<Longrightarrow> redisOnly (afterTask a)"
  by (cases a)
     (auto simp: afterMove_def afterFinish_def emitFinished_def Let_def split: option.split
        intro!: redisOnly_bind redisOnly_basic redisOnly_update)

lemma redis_keeps_db:
  assumes "redisOnly m" "dbOk lib s"
  shows "dbOk lib (snd (m s))" "extends s (snd (m s))"
proof -
  have same: "tablesOf (snd (m s)) = tablesOf s" using assms(1) by (simp add: redisOnly_def frames_def)
  have "clocksOk s" using dbOk_clock [OF assms(2)] by (simp add: clocksOk_def)
  then have "clocksOk (snd (m s))" using assms(1) by (simp add: redisOnly_def)
  then have "\<And>gid e. rdClock (snd (m s)) gid = Some e \<Longrightarrow> clockInv (ceState e)" by (simp add: clocksOk_def)
  then show "dbOk lib (snd (m s))" by (rule tables_dbOk [OF assms(2) same])
  show "extends s (snd (m s))" by (rule tables_extends [OF same])
qed

definition runOk :: "'c ChessJs \<Rightarrow> PlayDb list \<Rightarrow> AfterTask list \<Rightarrow> bool" where
  "runOk lib h ts \<longleftrightarrow> h \<noteq> [] \<and> (\<forall>s \<in> set h. dbOk lib s) \<and> sorted_wrt (\<lambda>new old. extends old new) h \<and> (\<forall>a \<in> set ts. taskOk a)"

lemma runOkD:
  assumes "runOk lib h ts"
  shows "s \<in> set h \<Longrightarrow> dbOk lib s" "a \<in> set ts \<Longrightarrow> taskOk a"
  using assms by (simp_all add: runOk_def)

lemma runOk_step:
  "runOk lib (s # h) ts \<Longrightarrow> dbOk lib t \<Longrightarrow> extends s t \<Longrightarrow> \<forall>a \<in> set ts'. taskOk a \<Longrightarrow> runOk lib (t # s # h) ts'"
  unfolding runOk_def using extends_trans by auto

lemma runOk_reads:
  assumes "runOk lib (s # h) ts" "readsIn (s # h) R"
  shows "readsOk lib R" "extends (atGame R) s" "extends (atOccurrences R) s"
proof -
  obtain k where k: "k < length (s # h)" "atGame R = (s # h) ! k"
    and others: "{atClock R, atMoves R, atOccurrences R, atSans R} \<subseteq> set (take (Suc k) (s # h))"
    using assms(2) unfolding readsIn_def by blast
  have sorted: "sorted_wrt (\<lambda>new old. extends old new) (s # h)" and db: "\<forall>r \<in> set (s # h). dbOk lib r"
    using assms(1) by (simp_all add: runOk_def)
  have before: "extends (atGame R) r" if r: "r \<in> set (take (Suc k) (s # h))" for r
  proof -
    obtain j where j: "j < length (take (Suc k) (s # h))" "r = take (Suc k) (s # h) ! j" using r by (metis in_set_conv_nth)
    then have j: "j < Suc k" "j < length (s # h)" "r = (s # h) ! j" by (simp_all del: take_Suc_Cons)
    show ?thesis
    proof (cases "j = k")
      case False
      then show ?thesis using sorted_wrt_nth_less [OF sorted, of j k] j k by simp
    qed (use j k in simp)
  qed
  have latest: "extends r s" if "r \<in> set (s # h)" for r using sorted that by auto
  have here: "atGame R \<in> set (s # h)" using k by (metis nth_mem)
  have there: "{atClock R, atMoves R, atOccurrences R, atSans R} \<subseteq> set (s # h)"
    using others set_take_subset by (rule subset_trans)
  have "dbOk lib r" if "r \<in> {atGame R, atClock R, atMoves R, atOccurrences R, atSans R}" for r using db here there that by blast
  moreover have "extends (atGame R) r" if "r \<in> {atClock R, atMoves R, atOccurrences R, atSans R}" for r
    using before others that by blast
  ultimately show "readsOk lib R" unfolding readsOk_def by blast
  show "extends (atGame R) s" by (rule latest [OF here])
  show "extends (atOccurrences R) s" by (rule latest) (use there in blast)
qed

lemma noGames_ok: "dbOk lib noGames"
  by (simp add: dbOk_def entryOk_def noGames_def finishedRows_def)

theorem playRun_ok:
  assumes "chessOk (peChess env) \<mu>"
  shows "playRun env h ts \<Longrightarrow> runOk (peChess env) h ts"
proof (induction rule: playRun.induct)
  case starts
  then show ?case by (simp add: runOk_def noGames_ok)
next
  case (creates s h ts input now game t st)
  have db: "dbOk (peChess env) s" by (rule runOkD(1) [OF creates.IH]) simp
  note t = create_keeps_db [OF db creates(2,3)]
  show ?case by (rule runOk_step [OF creates.IH t(1,2)]) (use t(3) runOkD(2) [OF creates.IH] in auto)
next
  case (moves s h ts R u gid uci now p t)
  have db: "dbOk (peChess env) s" by (rule runOkD(1) [OF moves.IH]) simp
  note reads = runOk_reads [OF moves.IH moves(2)]
  note t = commit_keeps_db [OF assms reads(1) moves(3) db reads(2,3) moves(4)]
  show ?case by (rule runOk_step [OF moves.IH t(1,2)]) (use t(3) runOkD(2) [OF moves.IH] in auto)
next
  case (finishes s h ts R now p row t)
  have db: "dbOk (peChess env) s" by (rule runOkD(1) [OF finishes.IH]) simp
  have "finishOk (fpInput p)" using finishPlanned_ok [OF finishes(3) runOk_reads(1) [OF finishes.IH finishes(2)]] by simp
  note t = finish_keeps_db [OF this db finishes(4)]
  show ?case by (rule runOk_step [OF finishes.IH t]) (use runOkD(2) [OF finishes.IH] in auto)
next
  case (writes s h ts a)
  have db: "dbOk (peChess env) s" by (rule runOkD(1) [OF writes.IH]) simp
  have "redisOnly (afterTask a)" by (rule redisOnly_afterTask [OF runOkD(2) [OF writes.IH writes(2)]])
  note t = redis_keeps_db [OF this db]
  show ?case by (rule runOk_step [OF writes.IH t]) (use runOkD(2) [OF writes.IH] set_remove1_subset in fast)
next
  case (stops h ts a)
  have "\<forall>x \<in> set (remove1 a ts). taskOk x" using runOkD(2) [OF stops.IH] set_remove1_subset by fast
  then show ?case using stops.IH by (simp add: runOk_def)
next
  case (expires s h ts gid)
  have db: "dbOk (peChess env) s" by (rule runOkD(1) [OF expires.IH]) simp
  let ?t = "s\<lparr>rdClock := (rdClock s)(gid := None)\<rparr>"
  have same: "tablesOf ?t = tablesOf s" by (simp add: tablesOf_def)
  have "clockInv (ceState e)" if "rdClock ?t j = Some e" for j e
    using dbOk_clock [OF db] that by (auto split: if_splits)
  then have "dbOk (peChess env) ?t" by (rule tables_dbOk [OF db same])
  then show ?case by (rule runOk_step [OF expires.IH _ tables_extends [OF same]]) (use runOkD(2) [OF expires.IH] in auto)
next
  case (other s h ts t)
  have db: "dbOk (peChess env) s" by (rule runOkD(1) [OF other.IH]) simp
  have "clockInv (ceState e)" if "rdClock t j = Some e" for j e using dbOk_clock [OF db] that other(3) by simp
  then have "dbOk (peChess env) t" by (rule tables_dbOk [OF db other(2)])
  then show ?case by (rule runOk_step [OF other.IH _ tables_extends [OF other(2)]]) (use runOkD(2) [OF other.IH] in auto)
qed

end
