(* ===== verification/PlayProps.thy ===== *)
theory PlayProps
  imports PlayRuns
begin

text \<open>
  The properties of online games: the requests the code serves are runs; in every run the stored
  games are legal, end once and for the reason the board gives; the clock in Redis can be rebuilt
  from the move log; and what a lost Redis write does to the clocks.
\<close>

section \<open>The code's requests are runs\<close>

text \<open>An operation served without interruption leads from a run to a run.\<close>

definition serves :: "'c PlayEnv \<Rightarrow> 'a play \<Rightarrow> bool" where
  "serves env m \<longleftrightarrow> (\<forall>s h ts. playRun env (s # h) ts \<longrightarrow> (\<exists>h'. playRun env (snd (m s) # h') ts))"

named_theorems serves_intros "rules that make an operation a run"

lemma servesI: "(\<And>s h ts. playRun env (s # h) ts \<Longrightarrow> \<exists>h'. playRun env (snd (m s) # h') ts) \<Longrightarrow> serves env m"
  unfolding serves_def by blast

lemma servesD: "serves env m \<Longrightarrow> playRun env (s # h) ts \<Longrightarrow> \<exists>h'. playRun env (snd (m s) # h') ts"
  unfolding serves_def by blast

lemma serves_basic [serves_intros]:
  "serves env (returnS x)" "serves env (throwS e)" "serves env (getS g)" "serves env (guardS c e)"
  by (rule servesI; simp; blast)+

lemma serves_bind [serves_intros]:
  assumes "serves env m" "\<And>x. serves env (f x)"
  shows "serves env (bindS m f)"
proof (rule servesI)
  fix s h ts assume "playRun env (s # h) ts"
  then obtain h' where h': "playRun env (snd (m s) # h') ts" using servesD [OF assms(1)] by blast
  show "\<exists>h'. playRun env (snd (bindS m f s) # h') ts"
  proof (cases "m s")
    case (Pair r s')
    show ?thesis
    proof (cases r)
      case (Inl e)
      then show ?thesis using Pair h' by (auto simp: bindS_def)
    next
      case (Inr x)
      then show ?thesis using Pair servesD [OF assms(2)] h' by (simp add: bindS_def)
    qed
  qed
qed

lemma serves_cases [serves_intros]:
  "(c \<Longrightarrow> serves env m) \<Longrightarrow> (\<not> c \<Longrightarrow> serves env m') \<Longrightarrow> serves env (if c then m else m')"
  "(x = None \<Longrightarrow> serves env m) \<Longrightarrow> (\<And>y. x = Some y \<Longrightarrow> serves env (k y)) \<Longrightarrow> serves env (case x of None \<Rightarrow> m | Some y \<Rightarrow> k y)"
  by (auto split: option.split)

text \<open>Operations on offers, presence and events.\<close>

lemma serves_other:
  assumes "\<And>s. tablesOf (snd (m s)) = tablesOf s" "\<And>s. rdClock (snd (m s)) = rdClock s"
  shows "serves env m"
  by (rule servesI) (use playRun.other assms in blast)

lemma serves_redis [serves_intros]:
  "serves env (setDrawOffer gid side)" "serves env (clearDrawOffer gid)" "serves env (setPresence gid side)"
  "serves env (clearPresence gid side)" "serves env (markGone gid side ms)" "serves env (clearGone gid side)" "serves env (emit e)"
  by (rule serves_other;
      simp add: setDrawOffer_def clearDrawOffer_def setPresence_def clearPresence_def markGone_def clearGone_def emit_def tablesOf_def)+

text \<open>A commit and the write that follows it.\<close>

lemma writes_task: "playRun env (s # h) (a # ts) \<Longrightarrow> playRun env (snd (afterTask a s) # s # h) ts"
  using playRun.writes [of env s h "a # ts" a] by simp

lemma afterTask_frames: "frames tablesOf (afterTask a)"
  by (cases a) (auto simp: afterMove_def afterFinish_def emitFinished_def initClock_def updateClock_def clearClock_def
      clearDrawOffer_def emit_def tablesOf_def Let_def intro!: frame_intros split: option.split)

text \<open>A commit that fails leaves nothing.\<close>

lemma commitMove_Inl:
  assumes "commitMove p now s = (Inl e, t)"
  shows "t = s"
proof -
  obtain r' t' where tx: "appendMoveTx (grId (mpGame p)) (mpMove p) (mpFinish p) now s = (r', t')" by fastforce
  then have "t' = t" "isl r'" using assms by (auto simp: commitMove_def appendMove_def split: sum.splits)
  then obtain e' where "appendMoveTx (grId (mpGame p)) (mpMove p) (mpFinish p) now s = (Inl e', t)"
    using tx by (cases r') simp_all
  then show ?thesis unfolding appendMoveTx_def by (rule transaction_Inl)
qed

lemma runFinish_run:
  assumes "playRun env (s # h) ts" "finishPlanned env now (atOnce s) p"
  shows "\<exists>h'. playRun env (snd (runFinish p now s) # h') ts"
proof -
  obtain r t where f: "finishGame (grId (fpGame p)) (fpInput p) now s = (Inr r, t)"
    using finishGame_returns [of "grId (fpGame p)" "fpInput p" now s] by (metis prod.collapse)
  show ?thesis
  proof (cases r)
    case None
    then have "t = s" using f finishGame_other by simp
    then show ?thesis using None f assms(1) by (auto simp: runFinish_def bindS_def)
  next
    case (Some row)
    have "playRun env (t # s # h) (AfterFinish (fpGame p) (fiStatus (fpInput p)) # ts)"
      using playRun.finishes [OF assms(1) readsIn_atOnce assms(2)] f Some by simp
    from writes_task [OF this] show ?thesis
      using f Some by (auto simp: runFinish_def bindS_def split: prod.splits sum.splits)
  qed
qed

text \<open>Decide and end the game, with the answer computed from what came of it.\<close>

lemma serves_finish:
  assumes "\<And>s d. plan s = Inr d \<Longrightarrow> (\<exists>x. f d = returnS x) \<or>
      (\<exists>p k. f d = bindS (runFinish p now) k \<and> (\<forall>r. serves env (k r)) \<and> finishPlanned env now (atOnce s) p)"
  shows "serves env (planned plan f)"
proof (rule servesI)
  fix s h ts assume run: "playRun env (s # h) ts"
  show "\<exists>h'. playRun env (snd (planned plan f s) # h') ts"
  proof (cases "plan s")
    case (Inl e)
    then show ?thesis using run by (auto simp: planned_def bindS_def)
  next
    case (Inr d)
    from assms [OF this] consider x where "f d = returnS x"
      | p k where "f d = bindS (runFinish p now) k" "\<forall>r. serves env (k r)" "finishPlanned env now (atOnce s) p"
      by blast
    then show ?thesis
    proof cases
      case (1 x)
      then show ?thesis using run Inr by (auto simp: planned_def bindS_def)
    next
      case (2 p k)
      obtain h' where h': "playRun env (snd (runFinish p now s) # h') ts" using runFinish_run [OF run 2(3)] by blast
      obtain r t where rt: "runFinish p now s = (r, t)" by (cases "runFinish p now s")
      show ?thesis
      proof (cases r)
        case (Inl e)
        then show ?thesis using h' rt Inr 2(1) by (auto simp: planned_def bindS_def)
      next
        case (Inr y)
        then show ?thesis using h' rt \<open>plan s = Inr d\<close> 2 servesD [of env "k y"] by (simp add: planned_def bindS_def)
      qed
    qed
  qed
qed

lemma serves_requireFinished [serves_intros]: "serves env (requireFinished e)"
  by (cases e) (simp_all add: requireFinished_def serves_basic)

lemma serves_endings [serves_intros]:
  "serves env (resign env u gid now)" "serves env (acceptDraw env u gid now)" "serves env (abort env u gid now)"
  unfolding resign_def acceptDraw_def abort_def
  by (rule serves_finish; auto simp: finishPlanned_def intro!: serves_requireFinished exI)+

lemma serves_claim [serves_intros]: "serves env (claimTimeout env u gid now)"
  unfolding claimTimeout_def
  by (rule serves_finish) (auto simp: finishPlanned_def split: sum.split option.split intro!: serves_intros exI)

lemma serves_flag [serves_intros]: "serves env (checkFlag env gid now)"
  unfolding checkFlag_def
  by (rule serves_finish) (auto simp: finishPlanned_def split: FlagDecision.split option.split intro!: serves_intros exI)

lemma serves_abandon [serves_intros]: "serves env (abandonAfterDisconnect gid side conn now)"
  unfolding abandonAfterDisconnect_def
proof (rule serves_finish)
  fix s d assume d: "planAbandon gid side conn now (atOnce s) = Inr d"
  show "(\<exists>x. (case d of None \<Rightarrow> returnS None | Some p \<Rightarrow> runFinish p now) = returnS x) \<or>
      (\<exists>p k. (case d of None \<Rightarrow> returnS None | Some p \<Rightarrow> runFinish p now) = bindS (runFinish p now) k \<and>
        (\<forall>r. serves env (k r)) \<and> finishPlanned env now (atOnce s) p)"
  proof (cases d)
    case (Some p)
    have "runFinish p now = bindS (runFinish p now) returnS" by (simp add: fun_eq_iff bindS_def split: prod.split sum.split)
    moreover have "finishPlanned env now (atOnce s) p" using d Some by (auto simp: finishPlanned_def)
    ultimately show ?thesis unfolding Some option.case
      by (intro disjI2 exI [of _ p] exI [of _ returnS] conjI allI serves_basic)
  next
    case None
    show ?thesis unfolding None option.case by (intro disjI1 exI) (rule refl)
  qed
qed

lemma serves_offer [serves_intros]: "serves env (offerDraw env u gid)"
proof (rule servesI)
  fix s h ts assume run: "playRun env (s # h) ts"
  show "\<exists>h'. playRun env (snd (offerDraw env u gid s) # h') ts"
  proof (cases "requireActivePlayer env u gid s")
    case (Inl e)
    then show ?thesis using run by (auto simp: offerDraw_def planned_def bindS_def)
  next
    case (Inr r)
    have "serves env (bindS (setDrawOffer gid (snd r)) (\<lambda>_. returnS (snd r)))" by (intro serves_intros)
    from servesD [OF this run] show ?thesis using Inr by (cases r) (simp add: offerDraw_def planned_def bindS_def)
  qed
qed

lemma serves_move [serves_intros]: "serves env (makeMove env u gid uci now)"
proof (rule servesI)
  fix s h ts assume run: "playRun env (s # h) ts"
  show "\<exists>h'. playRun env (snd (makeMove env u gid uci now s) # h') ts"
  proof (cases "planMove env u gid uci now (atOnce s)")
    case (Inl e)
    then show ?thesis using run by (auto simp: makeMove_def planned_def bindS_def)
  next
    case (Inr d)
    show ?thesis
    proof (cases d)
      case (RejectMove code resync)
      then show ?thesis using run Inr by (auto simp: makeMove_def planned_def bindS_def)
    next
      case (FlagFell p)
      have "finishPlanned env now (atOnce s) p" using Inr FlagFell by (auto simp: finishPlanned_def)
      from runFinish_run [OF run this] show ?thesis using Inr FlagFell
        by (cases "runFinish p now s") (auto simp: makeMove_def planned_def bindS_def split: sum.split)
    next
      case (PlayMove p)
      obtain r t where c: "commitMove p now s = (r, t)" by (cases "commitMove p now s")
      show ?thesis
      proof (cases r)
        case (Inl e)
        have "t = s" by (rule commitMove_Inl [OF c [unfolded Inl]])
        then show ?thesis using run Inr PlayMove c Inl by (auto simp: makeMove_def planned_def bindS_def)
      next
        case (Inr x)
        have "playRun env (t # s # h) (AfterMove p # ts)"
          using playRun.moves [OF run readsIn_atOnce] \<open>planMove env u gid uci now (atOnce s) = Inr d\<close> PlayMove c Inr by simp
        from writes_task [OF this] show ?thesis
          using \<open>planMove env u gid uci now (atOnce s) = Inr d\<close> PlayMove c Inr
          by (cases "afterMove p t") (auto simp: makeMove_def planned_def bindS_def split: sum.split)
      qed
    qed
  qed
qed

lemma serves_create [serves_intros]:
  assumes "supported \<lparr>clockType = cgClockType input, baseMs = cgBaseTimeSeconds input * 1000, incrementMs = cgIncrementSeconds input * 1000\<rparr>"
  shows "serves env (createGameWithClock input now)"
proof (rule servesI)
  fix s h ts assume run: "playRun env (s # h) ts"
  have "isl (fst (createGame input now s)) = False"
    by (simp add: createGame_def bindS_def Let_def)
  then obtain game t where g: "createGame input now s = (Inr game, t)"
    by (cases "createGame input now s"; cases "fst (createGame input now s)") auto
  then have "clockConfig (grGame game) = \<lparr>clockType = cgClockType input, baseMs = cgBaseTimeSeconds input * 1000, incrementMs = cgIncrementSeconds input * 1000\<rparr>"
    unfolding createGame_def bindS_def getS_def putS_def returnS_def Let_def by (auto simp: toGameRow_def clockConfig_def)
  then obtain st where st: "createClock (clockConfig (grGame game)) W now = Inr st"
    using assms supported_assert by (simp add: createClock_def del: assertSupported_iff)
  from writes_task [OF playRun.creates [OF run g st]]
  show "\<exists>h'. playRun env (snd (createGameWithClock input now s) # h') ts"
    using g st by (auto simp: createGameWithClock_def bindS_def orClockError_def initClock_def)
qed

lemma serves_challenge [serves_intros]:
  assumes "challengeDtoOk input"
  shows "serves env (createFriendChallenge env u input now)"
proof -
  have "supported \<lparr>clockType = chClockType input, baseMs = chBaseTimeSeconds input * 1000, incrementMs = chIncrementSeconds input * 1000\<rparr>"
    using assms by (auto simp: supported_def challengeDtoOk_def SUPPORTED_CLOCK_TYPES_def)
  then show ?thesis
    unfolding createFriendChallenge_def by (auto split: sum.split option.split intro!: serves_intros)
qed

text \<open>The sweeps.\<close>

lemma serves_sweepFlags: "serves env (sweepFlags env now gids)"
proof (induction gids)
  case (Cons gid gids)
  have "serves env (case r of FlagEnded e \<Rightarrow> emit (PlayGameSwept gid (geStatus e) (geWinnerColor e)) | _ \<Rightarrow> returnS ())" for r
    by (cases r) (auto intro: serves_intros)
  then show ?case using Cons by (simp, intro serves_intros)
qed (simp only: sweepFlags.simps serves_basic)

lemma serves_logged: "serves env m \<Longrightarrow> serves env (logged m)"
  unfolding serves_def logged_def by simp

lemma serves_sweepGone: "serves env (sweepGone ov now g)"
  unfolding sweepGone_def
  by (cases g) (auto intro!: serves_intros split: option.split)

lemma serves_sweepAll: "serves env (sweepAll ov now gs)"
  by (induction gs) (simp_all only: sweepAll.simps serves_basic serves_bind serves_sweepGone)

lemma serves_listGone: "serves env (listGone ms)"
proof (induction ms rule: listGone.induct)
  case (2 gid side ms)
  have "serves env (putS (\<lambda>s. s\<lparr>rdGoneIndex := removeAll (gid, side) (rdGoneIndex s)\<rparr>))"
    by (rule serves_other) (simp_all add: tablesOf_def)
  then show ?case using 2 unfolding listGone.simps by (auto intro!: serves_intros split: option.split)
qed (simp only: listGone.simps serves_basic)

lemma serves_sweeps [serves_intros]: "serves env (sweepExpiredFlags env now)" "serves env (sweepAbandonedGames ov now)"
  unfolding sweepExpiredFlags_def sweepAbandonedGames_def
  by (auto intro!: serves_logged serves_bind serves_basic serves_sweepFlags serves_sweepAll serves_listGone)

section \<open>Stored games\<close>

text \<open>A sample: two players, and the generator whose rooks shuffle.\<close>

definition rookEnv :: "string PlayEnv" where
  "rookEnv = \<lparr>peChess = shuffleChess, pePlayerOfUser = (\<lambda>u. if u = ''uw'' then Some ''w'' else if u = ''ub'' then Some ''b'' else None),
     peFindPlayer = (\<lambda>p. if p = ''b'' then Some (''b'', Some ''ub'') else None), peSummary = (\<lambda>_. None), peRating = (\<lambda>_ _. None)\<rparr>"

definition sampleChallenge :: ChallengeInput where
  "sampleChallenge = \<lparr>chOpponentPlayerId = ''b'', chTimeCategory = BULLET, chClockType = SUDDEN_DEATH,
     chBaseTimeSeconds = 60, chIncrementSeconds = 0\<rparr>"

definition challenged :: PlayDb where
  "challenged = snd (createFriendChallenge rookEnv ''uw'' sampleChallenge 0 noGames)"

text \<open>
  The keys of the hash are left unevaluated: \<open>rookHash\<close> stands for what \<^verbatim>\<open>zobristHash\<close> returns.
\<close>

definition rookHash :: "string \<Rightarrow> string" where
  "rookHash fen = projr (zobristHash shuffleChess fen)"

definition blackToMove :: string where
  "blackToMove = ''rnbqkbnr/pppppppp/8/8/8/8/PPPPPPPP/RNBQKBNR b KQkq - 0 1''"

lemma rook_chess: "chessOk (peChess rookEnv) (\<lambda>_. 0)"
  using shuffle_facts by (simp add: chessOk_def rookEnv_def)

lemma challenged_run: "\<exists>h. playRun rookEnv (challenged # h) []"
  unfolding challenged_def
  by (rule servesD [OF serves_challenge playRun.starts]) (simp add: challengeDtoOk_def sampleChallenge_def SUPPORTED_CLOCK_TYPES_def)

lemma rookHash: "zobristHash shuffleChess fen = Inr (rookHash fen)"
  by (simp add: rookHash_def zobristHash_def newChess_def shuffleChess_def)

lemma rook_facts:
  "passTurn STARTING_FEN = blackToMove" "passTurn blackToMove = STARTING_FEN" "sideToMove STARTING_FEN = W" "sideToMove blackToMove = B"
  "positionKey STARTING_FEN \<noteq> positionKey blackToMove"
  "gameEndFromPosition shuffleChess STARTING_FEN [] = Inr None" "gameEndFromPosition shuffleChess blackToMove [] = Inr None"
  "isDeadPosition shuffleChess STARTING_FEN = Inr False" "isDeadPosition shuffleChess blackToMove = Inr False"
  "hasMatingMaterial shuffleChess STARTING_FEN W = Inr True"
  "parseUci ''a1a2'' = Some (''a1'', ''a2'', None)" "parseUci ''h8h7'' = Some (''h8'', ''h7'', None)"
  by code_simp+

lemma rook_validate:
  assumes "parseUci uci = Some (src, dst, None)" "isDeadPosition shuffleChess (passTurn fen) = Inr False"
  obtains v where "validateMove shuffleChess fen uci = Some v" "vmFenAfter v = passTurn fen" "\<not> vmIrreversible v"
    "vmSan v = CHR ''R'' # dst" "vmUci v = uci" "vmPositionHash v = rookHash (passTurn fen)"
proof -
  have "chessNew shuffleChess fen = Some fen" "chessFen shuffleChess c = c"
    "chessMove shuffleChess fen src dst None = Some (\<lparr>mvSan = CHR ''R'' # dst, mvIsCapture = False, mvPiece = ROOK\<rparr>, passTurn fen)" for c
    by (simp_all add: shuffleChess_def)
  then show ?thesis using that assms rookHash [of "passTurn fen"] by (simp add: validateMove_def)
qed

definition sampleGame :: OnlineGame where
  "sampleGame = the (pdGames challenged ''0'')"

lemma challenged_facts:
  "pdGames challenged ''0'' = Some sampleGame" "pdMoves challenged ''0'' = []" "gmStatus sampleGame = ACTIVE"
  "gmFen sampleGame = STARTING_FEN" "sideOf rookEnv ''uw'' sampleGame = Some W" "sideOf rookEnv ''ub'' sampleGame = Some B"
  "clockConfig sampleGame = \<lparr>clockType = SUDDEN_DEATH, baseMs = 60000, incrementMs = 0\<rparr>"
  by code_simp+

definition whiteMove :: MoveRow where
  "whiteMove = \<lparr>mrPly = 1, mrSan = ''Ra2'', mrUci = ''a1a2'', mrFenAfter = blackToMove, mrPositionHash = rookHash blackToMove,
     mrThinkTimeMs = None, mrClockAfterMs = Some 60000\<rparr>"

definition afterWhite :: ClockState where
  "afterWhite = \<lparr>whiteRemainingMs = 60000, blackRemainingMs = 60000, turn = B, lastEventAtMs = 1000\<rparr>"

definition whitePlan :: MovePlan where
  "whitePlan = \<lparr>mpGame = toGameRow ''0'' sampleGame 0, mpMove = whiteMove, mpFinish = None, mpEnd = None, mpClock = afterWhite,
     mpEntryVersion = None, mpElapsedMs = 0\<rparr>"

lemma white_plan: "planMove rookEnv ''uw'' ''0'' ''a1a2'' 1000 (atOnce challenged) = Inr (PlayMove whitePlan)"
proof -
  obtain v where v: "validateMove shuffleChess STARTING_FEN ''a1a2'' = Some v" "vmFenAfter v = blackToMove" "\<not> vmIrreversible v"
    "vmSan v = ''Ra2''" "vmUci v = ''a1a2''" "vmPositionHash v = rookHash blackToMove"
    using rook_validate [of "''a1a2''" "''a1''" "''a2''" STARTING_FEN] rook_facts by metis
  have game: "activeGame ''0'' challenged = Some (toGameRow ''0'' sampleGame 0)"
    by (simp add: activeGame_def findGame_def challenged_facts toGameRow_def)
  have "endStep rookEnv ''0'' v (atOnce challenged) = Inr None"
    using v(2,3) rook_facts(5,7) by (simp add: endStep_def rookEnv_def atOnce_def positionOccurrences_def challenged_facts orChessError_def)
  moreover have "clockStep (toGameRow ''0'' sampleGame 0) 1000 (atOnce challenged) =
      Inr (Inr \<lparr>mcClock = afterWhite, mcVersion = None, mcElapsedMs = 0\<rparr>)"
    by (simp add: clockStep_def toGameRow_def challenged_facts afterWhite_def)
  moreover have "peChess rookEnv = shuffleChess" by (simp add: rookEnv_def)
  ultimately show ?thesis
    using game v by (simp add: planMove_def toGameRow_def atOnce_def challenged_facts rook_facts(3) whitePlan_def whiteMove_def
        afterWhite_def remainingOf_def)
qed

definition moved :: PlayDb where
  "moved = challenged\<lparr>pdMoves := (pdMoves challenged)(''0'' := [whiteMove]),
     pdGames := (pdGames challenged)(''0'' := Some (sampleGame\<lparr>gmFen := blackToMove, gmUpdatedAt := 1000\<rparr>))\<rparr>"

definition opened :: PlayDb where
  "opened = snd (afterMove whitePlan moved)"

lemma white_commit: "commitMove whitePlan 1000 challenged = (Inr (), moved)"
  by (simp add: commitMove_def appendMove_def appendMoveTx_def transaction_def bindS_def updateActive_def whitePlan_def
      toGameRow_def challenged_facts moved_def whiteMove_def)

lemma opened_run: "\<exists>h. playRun rookEnv (opened # moved # h) []"
proof -
  obtain h where h: "playRun rookEnv (challenged # h) []" using challenged_run by blast
  have "playRun rookEnv (moved # challenged # h) [AfterMove whitePlan]"
    by (rule playRun.moves [OF h readsIn_atOnce white_plan white_commit])
  from writes_task [OF this] show ?thesis unfolding opened_def by auto
qed

lemma opened_facts:
  "pdGames opened ''0'' = Some (sampleGame\<lparr>gmFen := blackToMove, gmUpdatedAt := 1000\<rparr>)" "pdMoves opened ''0'' = [whiteMove]"
  "rdClock opened ''0'' = Some \<lparr>ceVersion = 1, ceState = afterWhite\<rparr>"
  by (simp_all add: opened_def afterMove_def bindS_def whitePlan_def whiteMove_def toGameRow_def initClock_def clearDrawOffer_def moved_def Let_def)

text \<open>
  C11. Whatever the requests, however they interleave, and even if the process stops between a commit and
  what follows it: the stored moves of a game are a line of legal moves from the starting
  position, numbered without gaps, with the position and the hash each leads to, the stored
  position is the last of them, and the game is over on the board exactly when its status says so.
\<close>

theorem stored_games_are_legal:
  assumes "chessOk (peChess env) \<mu>" "playRun env h ts" "s \<in> set h" "pdGames s gid = Some g"
  shows "legalLine (peChess env) STARTING_FEN (pdMoves s gid) \<and> map mrPly (pdMoves s gid) = [1..<Suc (length (pdMoves s gid))] \<and>
     gmFen g = lastFen STARTING_FEN (pdMoves s gid) \<and>
     list_all (\<lambda>k. endAfter (peChess env) (pdMoves s gid) k =
         Inr (if Suc k = length (pdMoves s gid) then statusEnd (gmStatus g) else None)) [0..<length (pdMoves s gid)]"
proof -
  have "dbOk (peChess env) s" by (rule runOkD(1) [OF playRun_ok [OF assms(1,2)] assms(3)])
  from dbOk_game(1) [OF this assms(4)] show ?thesis
    by (simp add: gameOk_def movesOk_def list_all_iff)
qed

lemma stored_games_are_legal_witness:
  "legalLine shuffleChess STARTING_FEN [whiteMove] \<and> gmFen (sampleGame\<lparr>gmFen := blackToMove, gmUpdatedAt := 1000\<rparr>) = blackToMove"
proof -
  obtain h where h: "playRun rookEnv (opened # moved # h) []" using opened_run by blast
  from stored_games_are_legal [OF rook_chess h _ opened_facts(1)] show ?thesis by (simp add: rookEnv_def opened_facts)
qed

text \<open>
  C12. A game ends once. When some state of a run shows it over, every later state shows the same
  row and the same moves, and exactly one \<^verbatim>\<open>game.finished\<close> row was written for it, however many
  resignations, flags and moves were on their way.
\<close>

theorem game_ends_once:
  assumes "chessOk (peChess env) \<mu>" "playRun env (newer @ s # older) ts" "pdGames s gid = Some g" "gmStatus g \<noteq> ACTIVE"
    and "t \<in> set newer"
  shows "pdGames t gid = Some g \<and> pdMoves t gid = pdMoves s gid \<and> finishedRows gid t = 1"
proof -
  note run = playRun_ok [OF assms(1,2)]
  have "extends s t" using run assms(5) unfolding runOk_def by (auto simp: sorted_wrt_append)
  then obtain g' where "pdGames t gid = Some g'" "g' = g" "pdMoves t gid = pdMoves s gid"
    using extendsD [OF _ assms(3)] assms(4) by metis
  moreover have "dbOk (peChess env) t" by (rule runOkD(1) [OF run]) (use assms(5) in simp)
  ultimately show ?thesis using dbOk_game(2) [of "peChess env" t gid g] assms(4) by simp
qed

text \<open>The white player resigns in the opened game.\<close>

definition resigned :: PlayDb where
  "resigned = snd (finishGame ''0'' \<lparr>fiStatus = RESIGNATION, fiWinnerColor = Some BLACK, fiWhiteTimeLeftMs = 60000,
     fiBlackTimeLeftMs = 59000, fiPgn = ''1. Ra2 0-1'', fiActorUserId = Some ''uw''\<rparr> 2000 opened)"

lemma resigned_run: "\<exists>h h'. playRun rookEnv (h @ resigned # h') [] \<and> h \<noteq> []"
proof -
  obtain h where h: "playRun rookEnv (opened # moved # h) []" using opened_run by blast
  have game: "findGame ''0'' opened = Some (toGameRow ''0'' (sampleGame\<lparr>gmFen := blackToMove, gmUpdatedAt := 1000\<rparr>) 1)"
    by (simp add: findGame_def opened_facts)
  have side: "sideOf rookEnv ''uw'' (sampleGame\<lparr>gmFen := blackToMove, gmUpdatedAt := 1000\<rparr>) = Some W"
    using challenged_facts(5) by (simp add: sideOf_def rookEnv_def split: if_splits)
  let ?f = "\<lparr>fiStatus = RESIGNATION, fiWinnerColor = Some BLACK, fiWhiteTimeLeftMs = 60000,
     fiBlackTimeLeftMs = 59000, fiPgn = ''1. Ra2 0-1'', fiActorUserId = Some ''uw''\<rparr>"
  have pgn: "buildPgn [''Ra2''] (pgnResult RESIGNATION (Some BLACK)) = ''1. Ra2 0-1''" by code_simp
  have conf: "clockConfig (sampleGame\<lparr>gmFen := blackToMove, gmUpdatedAt := 1000\<rparr>) =
      \<lparr>clockType = SUDDEN_DEATH, baseMs = 60000, incrementMs = 0\<rparr>"
    using challenged_facts(7) by (simp add: clockConfig_def)
  have "planResign rookEnv ''uw'' ''0'' 2000 (atOnce opened) = Inr
      \<lparr>fpGame = toGameRow ''0'' (sampleGame\<lparr>gmFen := blackToMove, gmUpdatedAt := 1000\<rparr>) 1, fpInput = ?f,
       fpClock = \<lparr>whiteRemainingMs = 60000, blackRemainingMs = 59000, turn = B, lastEventAtMs = 2000\<rparr>\<rparr>"
    using pgn by (simp add: planResign_def requireActivePlayer_def atOnce_def game side planNoMove_def toGameRow_def Let_def
        challenged_facts loadClock_def opened_facts conf remaining_def afterWhite_def remainingOf_def elapsedOf_def chargeableMs_def
        orClockError_def listMoves_def whiteMove_def)
  then have plan: "finishPlanned rookEnv 2000 (atOnce opened)
      \<lparr>fpGame = toGameRow ''0'' (sampleGame\<lparr>gmFen := blackToMove, gmUpdatedAt := 1000\<rparr>) 1, fpInput = ?f,
       fpClock = \<lparr>whiteRemainingMs = 60000, blackRemainingMs = 59000, turn = B, lastEventAtMs = 2000\<rparr>\<rparr>"
    unfolding finishPlanned_def by blast
  have "\<exists>row. finishGame ''0'' ?f 2000 opened = (Inr (Some row), resigned)"
    by (simp add: resigned_def finishGame_def transaction_def bindS_def updateActive_def opened_facts challenged_facts(3)
        auditFinished_eval findGame_def)
  then obtain row where row: "finishGame ''0'' ?f 2000 opened = (Inr (Some row), resigned)" ..
  have "playRun rookEnv (resigned # opened # moved # h)
      [AfterFinish (toGameRow ''0'' (sampleGame\<lparr>gmFen := blackToMove, gmUpdatedAt := 1000\<rparr>) 1) RESIGNATION]"
    using playRun.finishes [OF h readsIn_atOnce plan] row by (simp add: toGameRow_def)
  from writes_task [OF this] obtain t where "playRun rookEnv ([t] @ resigned # opened # moved # h) []" by auto
  then show ?thesis by blast
qed

lemma game_ends_once_witness:
  "\<exists>t h. playRun rookEnv (t # h) [] \<and> map_option gmStatus (pdGames t ''0'') = Some RESIGNATION \<and> finishedRows ''0'' t = 1"
proof -
  obtain h h' where run: "playRun rookEnv (h @ resigned # h') []" "h \<noteq> []" using resigned_run by blast
  then obtain t r where t: "h = t # r" by (cases h) auto
  obtain g where g: "pdGames resigned ''0'' = Some g" "gmStatus g = RESIGNATION"
    by (simp add: resigned_def finishGame_def transaction_def bindS_def updateActive_def opened_facts challenged_facts(3)
        auditFinished_eval findGame_def finishedColumns_def)
  have "pdGames t ''0'' = Some g \<and> pdMoves t ''0'' = pdMoves resigned ''0'' \<and> finishedRows ''0'' t = 1"
    by (rule game_ends_once [OF rook_chess run(1) g(1)]) (simp_all add: g(2) t)
  then show ?thesis using run(1) t g(2) by auto
qed

text \<open>
  C13. The repetition index decides what the rules decide. The end that \<^verbatim>\<open>makeMove\<close> finds, looking the
  position up by its 64-bit hash and only when the move is reversible, is the end that
  \<^verbatim>\<open>gameEndFromPosition\<close> finds in the whole history of the stored game, starting position included.
\<close>

theorem repetition_index_exact:
  assumes "chessOk (peChess env) \<mu>" "playRun env h ts" "s \<in> set h" "pdGames s gid = Some g"
    and "validateMove (peChess env) (gmFen g) uci = Some v"
  shows "endStep env gid v (atOnce s) =
    orChessError (gameEndFromPosition (peChess env) (vmFenAfter v) (STARTING_FEN # map mrFenAfter (pdMoves s gid)))"
proof -
  have db: "dbOk (peChess env) s" by (rule runOkD(1) [OF playRun_ok [OF assms(1,2)] assms(3)])
  note ok = dbOk_game(1) [OF db assms(4)]
  have line: "legalLine (peChess env) STARTING_FEN (pdMoves s gid)" "gmFen g = lastFen STARTING_FEN (pdMoves s gid)"
    using ok by (simp_all add: gameOk_def movesOk_def)
  show ?thesis
  proof (rule endStep_reference [OF _ _ line(1)])
    show "readsFen (peChess env)" "progresses (peChess env) \<mu>" using assms(1) by (simp_all add: chessOk_def)
    show "pdMoves (atOccurrences (atOnce s)) gid = pdMoves s gid" by (simp add: atOnce_def)
    show "validateMove (peChess env) (lastFen STARTING_FEN (pdMoves s gid)) uci = Some v" using assms(5) line(2) by simp
  qed
qed

lemma repetition_index_exact_witness:
  "\<exists>v. validateMove shuffleChess blackToMove ''h8h7'' = Some v \<and> endStep rookEnv ''0'' v (atOnce opened) = Inr None"
proof -
  obtain h where h: "playRun rookEnv (opened # moved # h) []" using opened_run by blast
  obtain v where v: "validateMove shuffleChess blackToMove ''h8h7'' = Some v" "vmFenAfter v = STARTING_FEN"
    using rook_validate [of "''h8h7''" "''h8''" "''h7''" blackToMove] rook_facts by metis
  have "gameEndFromPosition shuffleChess STARTING_FEN [STARTING_FEN, blackToMove] = Inr None" by code_simp
  then show ?thesis
    using repetition_index_exact [OF rook_chess h _ opened_facts(1), of "''h8h7''" v] v
    by (simp add: rookEnv_def opened_facts whiteMove_def orChessError_def)
qed

text \<open>
  C14. The result fits the end, and no clock is negative: a mate is won by the side that made the last
  move, a draw and an aborted game have no winner, a resignation and a fallen flag have one; the
  clock after every move and the final clocks are times of at least 0.
\<close>

theorem results_fit_and_clocks_hold:
  assumes "chessOk (peChess env) \<mu>" "playRun env h ts" "s \<in> set h" "pdGames s gid = Some g"
  shows "winnerOk (gmStatus g) (gmWinnerColor g) (length (pdMoves s gid)) \<and>
    list_all (\<lambda>m. nonneg (mrClockAfterMs m)) (pdMoves s gid) \<and>
    (gmStatus g = ACTIVE \<or> nonneg (gmWhiteTimeLeftMs g) \<and> nonneg (gmBlackTimeLeftMs g)) \<and>
    (case rdClock s gid of None \<Rightarrow> True | Some e \<Rightarrow> clockInv (ceState e))"
proof -
  have db: "dbOk (peChess env) s" by (rule runOkD(1) [OF playRun_ok [OF assms(1,2)] assms(3)])
  have "case rdClock s gid of None \<Rightarrow> True | Some e \<Rightarrow> clockInv (ceState e)"
    using dbOk_clock [OF db] by (simp split: option.split)
  then show ?thesis using dbOk_game(1) [OF db assms(4)] by (auto simp: gameOk_def movesOk_def list_all_iff)
qed

lemma results_fit_and_clocks_hold_witness: "nonneg (mrClockAfterMs whiteMove) \<and> clockInv afterWhite"
proof -
  obtain h where h: "playRun rookEnv (opened # moved # h) []" using opened_run by blast
  from results_fit_and_clocks_hold [OF rook_chess h _ opened_facts(1)] show ?thesis by (simp add: opened_facts)
qed

section \<open>The clock in Redis is a cache of the move log\<close>

definition logTimes :: "GameRow \<Rightarrow> MoveRow list \<Rightarrow> int \<times> int" where
  "logTimes game ms = (whiteRemainingMs (reconstructClock game ms 0), blackRemainingMs (reconstructClock game ms 0))"

lemma reconstruct_simps:
  "whiteRemainingMs (reconstructClock game ms now) = fst (logTimes game ms)"
  "blackRemainingMs (reconstructClock game ms now) = snd (logTimes game ms)"
  "turn (reconstructClock game ms now) = sideToMove (gmFen (grGame game))" "lastEventAtMs (reconstructClock game ms now) = now"
  by (simp_all add: logTimes_def reconstructClock_def Let_def case_prod_unfold)

lemma logTimes_simps:
  "logTimes game [] = (baseMs (clockConfig (grGame game)), baseMs (clockConfig (grGame game)))"
  "mrClockAfterMs m = Some c \<Longrightarrow> logTimes game (ms @ [m]) =
     (if odd (mrPly m) then (c, snd (logTimes game ms)) else (fst (logTimes game ms), c))"
  by (simp_all add: logTimes_def reconstructClock_def Let_def case_prod_unfold odd_iff_mod_2_eq_one)

lemma logTimes_first: "mrClockAfterMs m = Some c \<Longrightarrow> logTimes game [m] =
     (if odd (mrPly m) then (c, baseMs (clockConfig (grGame game))) else (baseMs (clockConfig (grGame game)), c))"
  using logTimes_simps(2) [of m c game "[]"] by (simp add: logTimes_simps(1))

lemma logTimes_cong: "clockConfig (grGame game) = clockConfig (grGame game') \<Longrightarrow> logTimes game ms = logTimes game' ms"
  by (simp add: logTimes_def reconstructClock_def Let_def case_prod_unfold)

lemma ClockState_eqI:
  "whiteRemainingMs s = whiteRemainingMs s' \<Longrightarrow> blackRemainingMs s = blackRemainingMs s' \<Longrightarrow> turn s = turn s' \<Longrightarrow>
   lastEventAtMs s = lastEventAtMs s' \<Longrightarrow> s = (s' :: ClockState)"
  by simp

text \<open>The entry says what the move log says, but for the time of the last event.\<close>

definition inStep :: "string \<Rightarrow> PlayDb \<Rightarrow> bool" where
  "inStep gid s \<longleftrightarrow> (case rdClock s gid of
     None \<Rightarrow> True
   | Some e \<Rightarrow> pdMoves s gid = [] \<or> (case findGame gid s of
         None \<Rightarrow> False
       | Some game \<Rightarrow> ceState e = reconstructClock game (listMoves gid s) (lastEventAtMs (ceState e))))"

lemma listMoves_stored: "gameOk lib g (pdMoves s gid) \<Longrightarrow> listMoves gid s = pdMoves s gid"
proof -
  assume "gameOk lib g (pdMoves s gid)"
  then have "map mrPly (pdMoves s gid) = [1..<Suc (length (pdMoves s gid))]" unfolding gameOk_def movesOk_def by blast
  then have "sorted (map mrPly (pdMoves s gid))" by (metis sorted_upt)
  then show ?thesis by (simp add: listMoves_def sort_key_id_if_sorted)
qed

lemma liveClock_inStep:
  assumes "inStep gid s" "activeGame gid s = Some game" "pdMoves s gid \<noteq> []" "gameOk lib (grGame game) (pdMoves s gid)"
  obtains l where "liveClock game now (atOnce s) = reconstructClock game (pdMoves s gid) l"
proof -
  obtain g where g: "pdGames s gid = Some g" "game = toGameRow gid g (length (pdMoves s gid))" by (rule activeGame_Some [OF assms(2)])
  then have row: "findGame gid s = Some game" "grId game = gid" by (simp_all add: findGame_def toGameRow_def)
  have moves: "listMoves gid s = pdMoves s gid" by (rule listMoves_stored [OF assms(4)])
  show ?thesis
  proof (cases "rdClock s gid")
    case None
    then show ?thesis using that row(2) moves by (simp add: liveClock_def loadClock_def atOnce_def)
  next
    case (Some e)
    then have "ceState e = reconstructClock game (pdMoves s gid) (lastEventAtMs (ceState e))"
      using assms(1,3) row(1) moves by (simp add: inStep_def)
    then show ?thesis using that Some row(2) by (simp add: liveClock_def loadClock_def atOnce_def)
  qed
qed

lemma afterMove_entry:
  assumes "mpEnd p = None" "\<And>v. mrPly (mpMove p) \<noteq> 1 \<Longrightarrow> mpEntryVersion p = Some v \<Longrightarrow> map_option ceVersion (rdClock s (grId (mpGame p))) = Some v"
  shows "\<exists>v. rdClock (snd (afterMove p s)) (grId (mpGame p)) = Some \<lparr>ceVersion = v, ceState = mpClock p\<rparr> \<and>
    tablesOf (snd (afterMove p s)) = tablesOf s \<and> fst (afterMove p s) = Inr ()"
proof (cases "mrPly (mpMove p) = 1 \<or> mpEntryVersion p = None")
  case True
  then show ?thesis using assms(1) by (auto simp: afterMove_def bindS_def initClock_def clearDrawOffer_def tablesOf_def Let_def)
next
  case False
  then obtain v where v: "mpEntryVersion p = Some v" "mrPly (mpMove p) \<noteq> 1" by auto
  then obtain e where e: "rdClock s (grId (mpGame p)) = Some e" "ceVersion e = v" using assms(2) by fastforce
  have "updateClock (grId (mpGame p)) v (mpClock p) s =
      (Inr True, s\<lparr>rdClock := (rdClock s)(grId (mpGame p) := Some \<lparr>ceVersion = v + 1, ceState = mpClock p\<rparr>)\<rparr>)"
    using e by (simp add: updateClock_def bindS_def)
  then show ?thesis using v assms(1) by (auto simp: afterMove_def bindS_def clearDrawOffer_def tablesOf_def Let_def)
qed

text \<open>The clock a move leaves is the one its row lets the log rebuild.\<close>

lemma moved_clock:
  assumes chess: "turnsAlternate (peChess env)" and ok: "gameOk (peChess env) (grGame game) (pdMoves s gid)"
    and game: "activeGame gid s = Some game" and step: "inStep gid s" and side: "sideToMove (gmFen (grGame game)) = side"
    and cl: "clockStep game now (atOnce s) = Inr (Inr c)" and m: "mrPly m = Suc (length (pdMoves s gid))"
      "mrClockAfterMs m = Some (remainingOf (mcClock c) side)"
  shows "whiteRemainingMs (mcClock c) = fst (logTimes game (pdMoves s gid @ [m]))"
    "blackRemainingMs (mcClock c) = snd (logTimes game (pdMoves s gid @ [m]))"
    "turn (mcClock c) = otherSide side" "lastEventAtMs (mcClock c) = now"
proof -
  let ?ms = "pdMoves s gid"
  have line: "legalLine (peChess env) STARTING_FEN ?ms" "gmFen (grGame game) = lastFen STARTING_FEN ?ms"
    using ok by (simp_all add: gameOk_def movesOk_def)
  have mover: "side = (if even (length ?ms) then W else B)"
    using legalLine_turn [OF chess line(1)] line(2) side by (auto simp: starting_side)
  have count: "grPlyCount game = length ?ms" using activeGame_Some [OF game] by (metis toGameRow_def GameRow.select_convs(3))
  have "whiteRemainingMs (mcClock c) = fst (logTimes game (?ms @ [m])) \<and> blackRemainingMs (mcClock c) = snd (logTimes game (?ms @ [m])) \<and>
      turn (mcClock c) = otherSide side \<and> lastEventAtMs (mcClock c) = now"
  proof (cases "?ms = []")
    case True
    then show ?thesis using cl m mover count by (auto simp: clockStep_def Let_def logTimes_first remainingOf_def)
  next
    case False
    obtain l where l: "liveClock game now (atOnce s) = reconstructClock game ?ms l"
      by (rule liveClock_inStep [OF step game False ok])
    let ?st = "reconstructClock game ?ms l"
    obtain r where r: "applyMove (clockConfig (grGame game)) ?st now = Inr r" "\<not> flagged r" "mcClock c = newState r"
      using cl False count l by (auto simp: clockStep_def Let_def split: if_splits)
    have sup: "supported (clockConfig (grGame game))" using ok by (simp add: gameOk_def)
    have t: "turn ?st = side" using side by (simp add: reconstruct_simps)
    have new: "lastEventAtMs (newState r) = now" "turn (newState r) = otherSide side"
      using applyMove_total(2,3) [OF sup r(1,2)] t by simp_all
    have "remainingOf (newState r) (otherSide side) = remainingOf ?st (otherSide side)"
      using applyMove_opponent [OF r(1)] t by simp
    then show ?thesis using new r(3) m mover
      by (cases side) (auto simp: logTimes_simps remainingOf_def reconstruct_simps split: if_splits)
  qed
  then show "whiteRemainingMs (mcClock c) = fst (logTimes game (?ms @ [m]))"
    "blackRemainingMs (mcClock c) = snd (logTimes game (?ms @ [m]))"
    "turn (mcClock c) = otherSide side" "lastEventAtMs (mcClock c) = now" by blast+
qed

text \<open>
  C15. Redis is a cache: when the entry of a reachable game is missing or agrees with the stored moves, and a move that
  does not end the game is served to the end, then the entry it leaves is what \<^verbatim>\<open>reconstructClock\<close>
  computes from the stored moves at that moment, so that losing it later costs nobody anything but gives the side to
  move the time since; and it agrees with the moves again. The agreement is a hypothesis, not an invariant: a write lost
  after a commit breaks it.
\<close>

theorem clock_recoverable:
  assumes "chessOk (peChess env) \<mu>" "playRun env (s # h) ts" "inStep gid s"
    and "makeMove env u gid uci now s = (Inr (MoveOk mm None), t)"
  shows "inStep gid t \<and> (\<exists>game e. findGame gid t = Some game \<and> rdClock t gid = Some e \<and>
     ceState e = reconstructClock game (listMoves gid t) now)"
proof -
  have db: "dbOk (peChess env) s" by (rule runOkD(1) [OF playRun_ok [OF assms(1,2)]]) simp
  obtain p where plan: "planMove env u gid uci now (atOnce s) = Inr (PlayMove p)"
    using assms(4) by (cases "planMove env u gid uci now (atOnce s)")
      (auto simp: makeMove_def planned_def bindS_def split: MoveDecision.splits prod.splits sum.splits)
  obtain x s1 where commit: "commitMove p now s = (Inr x, s1)" and rest: "bindS (afterMove p) (\<lambda>_. returnS (moveMade p now)) s1 = (Inr (MoveOk mm None), t)"
    using assms(4) plan by (auto simp: makeMove_def planned_def bindS_def split: prod.splits sum.splits if_splits)
  obtain game side c v where g: "activeGame gid s = Some game" "sideToMove (gmFen (grGame game)) = side"
    and cl: "clockStep game now (atOnce s) = Inr (Inr c)" and v: "validateMove (peChess env) (gmFen (grGame game)) uci = Some v"
    and p: "mpGame p = game" "mpClock p = mcClock c" "mpEntryVersion p = mcVersion c"
    and m: "mrPly (mpMove p) = grPlyCount game + 1" "mrFenAfter (mpMove p) = vmFenAfter v"
      "mrClockAfterMs (mpMove p) = Some (remainingOf (mcClock c) side)"
    and fin: "mpEnd p = None \<Longrightarrow> mpFinish p = None" "mpEnd p \<noteq> None \<Longrightarrow> mpFinish p \<noteq> None"
    by (rule planMove_PlayMove [OF plan]) (auto simp: atOnce_def Let_def split: option.splits)
  let ?ms = "pdMoves s gid"
  obtain g0 where g0: "pdGames s gid = Some g0" "gmStatus g0 = ACTIVE" "game = toGameRow gid g0 (length ?ms)"
    by (rule activeGame_Some [OF g(1)])
  have ok: "gameOk (peChess env) (grGame game) ?ms" using dbOk_game(1) [OF db g0(1)] g0(3) by (simp add: toGameRow_def)
  have gid: "grId (mpGame p) = gid" and count: "grPlyCount game = length ?ms" using p(1) g0(3) by (simp_all add: toGameRow_def)
  have none: "mpEnd p = None"
    using rest fin(2) by (cases "mpEnd p") (auto simp: bindS_def moveMade_def Let_def split: prod.splits sum.splits option.splits)
  have committed: "commitMove p now s = (Inr (), s1)" using commit by simp
  obtain g1 where g1: "pdGames s gid = Some g1" "gmStatus g1 = ACTIVE"
      "\<forall>x \<in> set ?ms. mrPly x \<noteq> mrPly (mpMove p)" and s1: "s1 = s\<lparr>pdMoves := (pdMoves s)(gid := ?ms @ [mpMove p]),
       pdGames := (pdGames s)(gid := Some (movedGame p now g1)),
       pdAudit := pdAudit s @ (case mpFinish p of None \<Rightarrow> [] | Some f \<Rightarrow> [finishedRow gid f])\<rparr>"
    by (rule commitMove_Inr [OF committed, unfolded gid])
  have "g1 = g0" using g0(1) g1(1) by simp
  have version: "map_option ceVersion (rdClock s1 gid) = Some w" if "mrPly (mpMove p) \<noteq> 1" "mpEntryVersion p = Some w" for w
    using that m(1) p(3) cl g0(3) s1
    by (auto simp: clockStep_def Let_def loadClock_def atOnce_def toGameRow_def split: if_splits)
  obtain w where entry: "rdClock (snd (afterMove p s1)) gid = Some \<lparr>ceVersion = w, ceState = mpClock p\<rparr>"
    and tables: "tablesOf (snd (afterMove p s1)) = tablesOf s1"
    using afterMove_entry [of p s1, OF none] version unfolding gid by blast
  have "t = snd (afterMove p s1)" using rest by (auto simp: bindS_def split: prod.splits sum.splits)
  with entry tables have t: "rdClock t gid = Some \<lparr>ceVersion = w, ceState = mcClock c\<rparr>"
    "pdGames t gid = Some (movedGame p now g0)" "pdMoves t gid = ?ms @ [mpMove p]"
    using s1 p(2) \<open>g1 = g0\<close> by (simp_all add: tablesOf_def)
  let ?row = "toGameRow gid (movedGame p now g0) (length (?ms @ [mpMove p]))"
  have conf: "clockConfig (grGame ?row) = clockConfig (grGame game)" "gmFen (grGame ?row) = vmFenAfter v"
    using fin(1) [OF none] m(2) g0(3) by (simp_all add: movedGame_def toGameRow_def clockConfig_def)
  have turn': "sideToMove (vmFenAfter v) = otherSide side"
    using validateMove_turn [OF _ v] assms(1) g(2) by (simp add: chessOk_def)
  have "mcClock c = reconstructClock ?row (?ms @ [mpMove p]) now"
    using moved_clock [OF _ ok g(1) assms(3) g(2) cl _ m(3)] assms(1) m(1) count conf turn' logTimes_cong [OF conf(1)]
    by (intro ClockState_eqI) (simp_all add: reconstruct_simps chessOk_def)
  moreover have moves: "listMoves gid t = ?ms @ [mpMove p]"
  proof -
    have "map mrPly ?ms = [1..<Suc (length ?ms)]" using ok unfolding gameOk_def movesOk_def by blast
    then have "map mrPly (?ms @ [mpMove p]) = [1..<Suc (Suc (length ?ms))]" using m(1) count by simp
    then have "sorted (map mrPly (?ms @ [mpMove p]))" by (metis sorted_upt)
    then show ?thesis using t(3) by (simp add: listMoves_def sort_key_id_if_sorted)
  qed
  moreover have "findGame gid t = Some ?row" using t by (simp add: findGame_def)
  ultimately show ?thesis using t(1) by (auto simp: inStep_def reconstruct_simps)
qed

lemma white_move_served: "\<exists>mm. makeMove rookEnv ''uw'' ''0'' ''a1a2'' 1000 challenged = (Inr (MoveOk mm None), opened)"
proof -
  have "afterMove whitePlan moved = (Inr (), opened)"
    by (simp add: opened_def afterMove_def bindS_def whitePlan_def whiteMove_def initClock_def clearDrawOffer_def Let_def toGameRow_def)
  then show ?thesis using white_plan white_commit
    by (simp add: makeMove_def planned_def bindS_def moveMade_def Let_def) (simp add: whitePlan_def)
qed

lemma clock_recoverable_witness:
  "\<exists>game. findGame ''0'' opened = Some game \<and> afterWhite = reconstructClock game (listMoves ''0'' opened) 1000"
proof -
  obtain h where h: "playRun rookEnv (challenged # h) []" using challenged_run by blast
  obtain mm where mm: "makeMove rookEnv ''uw'' ''0'' ''a1a2'' 1000 challenged = (Inr (MoveOk mm None), opened)"
    using white_move_served by blast
  have "inStep ''0'' challenged" using challenged_facts(2) by (simp add: inStep_def split: option.split)
  from clock_recoverable [OF rook_chess h this mm] show ?thesis by (auto simp: opened_facts)
qed

section \<open>When the Redis write is lost\<close>

text \<open>
  C16. What \<^verbatim>\<open>checkFlag\<close> does not compare: the side whose clock the entry says is running with the side
  to move of the game. If the write after a move was lost (the process stopped, or Redis failed,
  between the commit and the write), the entry still runs the clock of the player who has moved;
  when that time is gone the game is stored as lost for that player, who is not on move, and won by
  the one who is thinking.
\<close>

theorem waiting_player_loses_on_time:
  assumes "activeGame gid s = Some game" "grPlyCount game \<noteq> 0" "rdClock s gid = Some e"
    and "turn (ceState e) = otherSide (sideToMove (gmFen (grGame game)))"
    and "remaining (clockConfig (grGame game)) (ceState e) (turn (ceState e)) now = Inr 0"
    and "hasMatingMaterial (peChess env) (gmFen (grGame game)) (sideToMove (gmFen (grGame game))) = Inr True"
  shows "\<exists>ended t. checkFlag env gid now s = (Inr (FlagEnded ended), t) \<and> geStatus ended = TIMEOUT \<and>
    geWinnerColor ended = Some (colorOf (sideToMove (gmFen (grGame game))))"
proof -
  obtain g where g: "pdGames s gid = Some g" "gmStatus g = ACTIVE" "game = toGameRow gid g (length (pdMoves s gid))"
    by (rule activeGame_Some [OF assms(1)])
  let ?st = "ceState e"
  let ?to = "sideToMove (gmFen (grGame game))"
  have live: "liveClock game now (atOnce s) = ?st" using assms(3) g(3) by (simp add: liveClock_def loadClock_def atOnce_def toGameRow_def)
  have other: "remaining (clockConfig (grGame game)) ?st ?to now = Inr (remainingOf ?st ?to)"
    using assms(4) by (simp add: remaining_def)
  define p where "p = \<lparr>fpGame = game,
    fpInput = \<lparr>fiStatus = TIMEOUT, fiWinnerColor = Some (colorOf ?to),
      fiWhiteTimeLeftMs = (if ?to = W then remainingOf ?st W else 0), fiBlackTimeLeftMs = (if ?to = B then remainingOf ?st B else 0),
      fiPgn = buildPgn (map mrSan (listMoves gid s)) (pgnResult TIMEOUT (Some (colorOf ?to))), fiActorUserId = None\<rparr>,
    fpClock = \<lparr>whiteRemainingMs = (if ?to = W then remainingOf ?st W else 0),
      blackRemainingMs = (if ?to = B then remainingOf ?st B else 0), turn = otherSide ?to, lastEventAtMs = lastEventAtMs ?st\<rparr>\<rparr>"
  have "planCheckFlag env gid now (atOnce s) = Inr (EndByFlag p)"
    using assms g(3) other live
    by (cases ?to) (simp_all add: planCheckFlag_def Let_def atOnce_def orClockError_def planTimeout_def orChessError_def p_def toGameRow_def)
  moreover obtain row t where "finishGame gid (fpInput p) now s = (Inr (Some row), t)"
    using g by (simp add: finishGame_def transaction_def bindS_def updateActive_def auditFinished_eval findGame_def)
  moreover have "grId (fpGame p) = gid" using g(3) by (simp add: p_def toGameRow_def)
  moreover obtain t' where "afterFinish game TIMEOUT t = (Inr (), t')"
    by (simp add: afterFinish_def bindS_def clearClock_def emitFinished_def emit_def)
  ultimately have "checkFlag env gid now s = (Inr (FlagEnded (endedPayload p now)), t')"
    by (simp add: checkFlag_def planned_def bindS_def runFinish_def p_def)
  then show ?thesis by (simp add: endedPayload_def p_def)
qed

text \<open>Black moves in the opened game, and the write after it is lost.\<close>

definition blackMove :: MoveRow where
  "blackMove = \<lparr>mrPly = 2, mrSan = ''Rh7'', mrUci = ''h8h7'', mrFenAfter = STARTING_FEN, mrPositionHash = rookHash STARTING_FEN,
     mrThinkTimeMs = Some 1000, mrClockAfterMs = Some 59000\<rparr>"

definition blackPlan :: MovePlan where
  "blackPlan = \<lparr>mpGame = toGameRow ''0'' (sampleGame\<lparr>gmFen := blackToMove, gmUpdatedAt := 1000\<rparr>) 1, mpMove = blackMove,
     mpFinish = None, mpEnd = None,
     mpClock = \<lparr>whiteRemainingMs = 60000, blackRemainingMs = 59000, turn = W, lastEventAtMs = 2000\<rparr>,
     mpEntryVersion = Some 1, mpElapsedMs = 1000\<rparr>"

definition stuck :: PlayDb where
  "stuck = opened\<lparr>pdMoves := (pdMoves opened)(''0'' := [whiteMove, blackMove]),
     pdGames := (pdGames opened)(''0'' := Some (sampleGame\<lparr>gmFen := STARTING_FEN, gmUpdatedAt := 2000\<rparr>))\<rparr>"

lemma black_plan: "planMove rookEnv ''ub'' ''0'' ''h8h7'' 2000 (atOnce opened) = Inr (PlayMove blackPlan)"
proof -
  obtain v where v: "validateMove shuffleChess blackToMove ''h8h7'' = Some v" "vmFenAfter v = STARTING_FEN" "\<not> vmIrreversible v"
    "vmSan v = ''Rh7''" "vmUci v = ''h8h7''" "vmPositionHash v = rookHash STARTING_FEN"
    using rook_validate [of "''h8h7''" "''h8''" "''h7''" blackToMove] rook_facts by metis
  have game: "activeGame ''0'' opened = Some (toGameRow ''0'' (sampleGame\<lparr>gmFen := blackToMove, gmUpdatedAt := 1000\<rparr>) 1)"
    by (simp add: activeGame_def findGame_def opened_facts challenged_facts toGameRow_def)
  have conf: "clockConfig (sampleGame\<lparr>gmFen := blackToMove, gmUpdatedAt := 1000\<rparr>) =
      \<lparr>clockType = SUDDEN_DEATH, baseMs = 60000, incrementMs = 0\<rparr>"
    using challenged_facts(7) by (simp add: clockConfig_def)
  have side: "sideOf rookEnv ''ub'' (sampleGame\<lparr>gmFen := blackToMove, gmUpdatedAt := 1000\<rparr>) = Some B"
    using challenged_facts(6) by (simp add: sideOf_def rookEnv_def split: if_splits)
  have "endStep rookEnv ''0'' v (atOnce opened) = Inr None"
    using v(2,3) rook_facts(5,6)
    by (simp add: endStep_def rookEnv_def atOnce_def positionOccurrences_def opened_facts whiteMove_def orChessError_def)
  moreover have "clockStep (toGameRow ''0'' (sampleGame\<lparr>gmFen := blackToMove, gmUpdatedAt := 1000\<rparr>) 1) 2000 (atOnce opened) =
      Inr (Inr \<lparr>mcClock = \<lparr>whiteRemainingMs = 60000, blackRemainingMs = 59000, turn = W, lastEventAtMs = 2000\<rparr>,
        mcVersion = Some 1, mcElapsedMs = 1000\<rparr>)"
    by (simp add: clockStep_def toGameRow_def conf Let_def loadClock_def atOnce_def liveClock_def opened_facts afterWhite_def
        applyMove_def assertSupported_def elapsedOf_def chargeableMs_def remainingOf_def withRemaining_def orClockError_def)
  moreover have "peChess rookEnv = shuffleChess" by (simp add: rookEnv_def)
  ultimately show ?thesis
    using game v side by (simp add: planMove_def toGameRow_def atOnce_def rook_facts(4) blackPlan_def blackMove_def remainingOf_def)
qed

lemma black_commit: "commitMove blackPlan 2000 opened = (Inr (), stuck)"
  by (simp add: commitMove_def appendMove_def appendMoveTx_def transaction_def bindS_def updateActive_def blackPlan_def
      toGameRow_def opened_facts challenged_facts stuck_def blackMove_def whiteMove_def)

lemma stuck_run: "\<exists>h. playRun rookEnv (stuck # h) []"
proof -
  obtain h where h: "playRun rookEnv (opened # moved # h) []" using opened_run by blast
  have "playRun rookEnv (stuck # opened # moved # h) [AfterMove blackPlan]"
    by (rule playRun.moves [OF h readsIn_atOnce black_plan black_commit])
  from playRun.stops [OF this, of "AfterMove blackPlan"] show ?thesis by auto
qed

lemma waiting_player_loses_on_time_witness:
  "(\<exists>h. playRun rookEnv (stuck # h) []) \<and> sideToMove (gmFen (sampleGame\<lparr>gmFen := STARTING_FEN, gmUpdatedAt := 2000\<rparr>)) = W \<and>
   (\<exists>ended t. checkFlag rookEnv ''0'' 62000 stuck = (Inr (FlagEnded ended), t) \<and> geStatus ended = TIMEOUT \<and>
      geWinnerColor ended = Some WHITE)"
proof -
  let ?g = "sampleGame\<lparr>gmFen := STARTING_FEN, gmUpdatedAt := 2000\<rparr>"
  have game: "activeGame ''0'' stuck = Some (toGameRow ''0'' ?g 2)"
    by (simp add: activeGame_def findGame_def stuck_def challenged_facts toGameRow_def)
  have conf: "clockConfig ?g = \<lparr>clockType = SUDDEN_DEATH, baseMs = 60000, incrementMs = 0\<rparr>"
    using challenged_facts(7) by (simp add: clockConfig_def)
  have entry: "rdClock stuck ''0'' = Some \<lparr>ceVersion = 1, ceState = afterWhite\<rparr>" by (simp add: stuck_def opened_facts)
  have rem: "remaining (clockConfig ?g) afterWhite B 62000 = Inr 0"
    by (simp add: conf remaining_def afterWhite_def chargeableMs_def elapsedOf_def remainingOf_def)
  have "\<exists>ended t. checkFlag rookEnv ''0'' 62000 stuck = (Inr (FlagEnded ended), t) \<and> geStatus ended = TIMEOUT \<and>
      geWinnerColor ended = Some (colorOf (sideToMove (gmFen (grGame (toGameRow ''0'' ?g 2)))))"
    by (rule waiting_player_loses_on_time [OF game _ entry])
       (use rem rook_facts(3,10) in \<open>simp_all add: toGameRow_def afterWhite_def rookEnv_def\<close>)
  then show ?thesis using stuck_run rook_facts(3) by (simp add: toGameRow_def)
qed

end
