(* ===== verification/JsNumber.thy ===== *)
theory JsNumber
  imports Service "HOL-Library.Log_Nat"
begin

text \<open>
  \<^verbatim>\<open>Number(text)\<close> where a caller goes on with integers only: the string grammar of ECMAScript (blanks
  around, the empty text, the radix prefixes, decimal literals with fraction and exponent) and the
  nearest double of the value it denotes. \<open>numberInteger\<close> is the value when
  \<^verbatim>\<open>Number.isInteger\<close> holds of it, \<open>None\<close> for a fraction, an infinity or \<^verbatim>\<open>NaN\<close>.
\<close>

section \<open>The nearest double\<close>

text \<open>Rounding to the nearest integer, ties to the even one.\<close>

definition roundHalfEven :: "rat \<Rightarrow> int" where
  "roundHalfEven q =
     (let n = \<lfloor>q\<rfloor>; d = q - of_int n in
      if d < 1 / 2 then n else if 1 / 2 < d then n + 1 else if even n then n else n + 1)"

text \<open>
  For a value of at least 1 the significand has 53 bits; a value below 1 has an integer as its
  nearest double only close to 1 or below half of the least positive double.
\<close>

definition integerDouble :: "rat \<Rightarrow> int option" where
  "integerDouble q =
     (if q < 1 then
        (if q \<le> 1 / 2 ^ 1075 then Some 0 else if 1 - 1 / 2 ^ 54 \<le> q then Some 1 else None)
      else
        let bits = floorlog 2 (nat \<lfloor>q\<rfloor>) in
        if 53 \<le> bits then
          let v = roundHalfEven (q / 2 ^ (bits - 53)) * 2 ^ (bits - 53)
          in if v < 2 ^ 1024 then Some v else None
        else
          let n = roundHalfEven (q * 2 ^ (53 - bits)) in
          if (2 ^ (53 - bits)) dvd n then Some (n div 2 ^ (53 - bits)) else None)"

section \<open>The grammar\<close>

definition isDigitChar :: "char \<Rightarrow> bool" where
  "isDigitChar c \<longleftrightarrow> digitOf c \<noteq> None"

text \<open>The digit of \<open>c\<close> in hexadecimal.\<close>

definition hexOf :: "char \<Rightarrow> nat option" where
  "hexOf c = (let n = of_char c :: nat in
     if 48 \<le> n \<and> n \<le> 57 then Some (n - 48)
     else if 65 \<le> n \<and> n \<le> 70 then Some (n - 55)
     else if 97 \<le> n \<and> n \<le> 102 then Some (n - 87)
     else None)"

fun readRadix :: "nat \<Rightarrow> nat \<Rightarrow> string \<Rightarrow> nat option" where
  "readRadix base acc [] = Some acc"
| "readRadix base acc (c # cs) =
     (case hexOf c of
        None \<Rightarrow> None
      | Some d \<Rightarrow> if d < base then readRadix base (base * acc + d) cs else None)"

definition radixOf :: "char \<Rightarrow> nat option" where
  "radixOf c = (if c \<in> {CHR ''x'', CHR ''X''} then Some 16 else if c \<in> {CHR ''o'', CHR ''O''} then Some 8
     else if c \<in> {CHR ''b'', CHR ''B''} then Some 2 else None)"

definition signOf :: "string \<Rightarrow> int \<times> string" where
  "signOf s = (case s of
     c # cs \<Rightarrow> if c = CHR ''-'' then (- 1, cs) else if c = CHR ''+'' then (1, cs) else (1, s)
   | [] \<Rightarrow> (1, s))"

text \<open>What follows the digits: nothing, or an exponent.\<close>

definition exponentOf :: "string \<Rightarrow> int option" where
  "exponentOf s = (case s of
     [] \<Rightarrow> Some 0
   | c # cs \<Rightarrow>
       if c = CHR ''e'' \<or> c = CHR ''E'' then
         (case signOf cs of (sg, ds) \<Rightarrow> if ds = [] then None else map_option (\<lambda>n. sg * int n) (readDigits 0 ds))
       else None)"

definition scale10 :: "nat \<Rightarrow> int \<Rightarrow> rat" where
  "scale10 m e = (if 0 \<le> e then of_nat m * 10 ^ nat e else of_nat m / 10 ^ nat (- e))"

text \<open>An unsigned decimal literal.\<close>

definition decimalValue :: "string \<Rightarrow> rat option" where
  "decimalValue s =
     (let whole = takeWhile isDigitChar s; r = dropWhile isDigitChar s;
          frac = (case r of c # cs \<Rightarrow> if c = CHR ''.'' then takeWhile isDigitChar cs else [] | [] \<Rightarrow> []);
          rest = (case r of c # cs \<Rightarrow> if c = CHR ''.'' then dropWhile isDigitChar cs else r | [] \<Rightarrow> [])
      in if whole = [] \<and> frac = [] then None
         else case (readDigits 0 (whole @ frac), exponentOf rest) of
           (Some m, Some e) \<Rightarrow> Some (scale10 m (e - int (length frac)))
         | _ \<Rightarrow> None)"

definition numberInteger :: "string \<Rightarrow> int option" where
  "numberInteger text =
     (let s = jsTrim text in
      if s = [] then Some 0
      else case (case s of c # x # ds \<Rightarrow> if c = CHR ''0'' then map_option (\<lambda>b. (b, ds)) (radixOf x) else None | _ \<Rightarrow> None) of
        Some (base, ds) \<Rightarrow>
          if ds = [] then None
          else (case readRadix base 0 ds of None \<Rightarrow> None | Some n \<Rightarrow> integerDouble (of_nat n))
      | None \<Rightarrow>
          (case signOf s of (sg, u) \<Rightarrow>
           (case decimalValue u of None \<Rightarrow> None | Some q \<Rightarrow> map_option (\<lambda>v. sg * v) (integerDouble q))))"

section \<open>Integers read back\<close>

lemma roundHalfEven_int [simp]: "roundHalfEven (of_int n) = n"
  by (simp add: roundHalfEven_def)

lemma integerDouble_exact:
  assumes "n < 2 ^ 53"
  shows "integerDouble (of_nat n) = Some (int n)"
proof (cases "n = 0")
  case True
  then show ?thesis by (simp add: integerDouble_def)
next
  case False
  define bits where "bits = floorlog 2 n"
  have bits: "bits \<le> 53" unfolding bits_def using assms False by (simp add: floorlog_le_iff)
  have floor: "nat \<lfloor>of_nat n :: rat\<rfloor> = n" by simp
  have scaled: "roundHalfEven (of_nat n * 2 ^ k) = int n * 2 ^ k" for k
    using roundHalfEven_int [of "int n * 2 ^ k"] by simp
  have one: "\<not> (of_nat n :: rat) < 1" using False by simp
  have "int n < int (2 ^ 53)" using assms by (simp only: of_nat_less_iff)
  also have "\<dots> < 2 ^ 1024" by simp
  finally have big: "int n < 2 ^ 1024" .
  show ?thesis
  proof (cases "bits = 53")
    case True
    then show ?thesis using one big scaled [of 0] by (simp add: integerDouble_def Let_def floor flip: bits_def)
  next
    case False
    then have "\<not> 53 \<le> bits" using bits by simp
    then show ?thesis using one by (simp add: integerDouble_def Let_def floor scaled flip: bits_def)
  qed
qed

end
