(* ===== verification/Matchmaking.thy ===== *)
theory Matchmaking
  imports PlayService JsNumber InvoiceNumber
begin

text \<open>
  \<^verbatim>\<open>src/modules/play/matchmaking.service.ts\<close>: the queues of players who wait for an opponent. A
  queue is a sorted set of Redis, with a hash of what is remembered of each player beside it, one
  marker for each player that names the queue he waits in, and a register of the queues; the game
  found is made by \<open>PlayService\<close>. A Lua script and a \<^verbatim>\<open>MULTI\<close> block are single steps.
\<close>

section \<open>The search window\<close>

record MatchmakingConfig =
  initialDelta :: int
  deltaStep :: int
  stepIntervalMs :: int
  maxDelta :: int

definition DEFAULT_MATCHMAKING_CONFIG :: MatchmakingConfig where
  "DEFAULT_MATCHMAKING_CONFIG = \<lparr>initialDelta = 200, deltaStep = 50, stepIntervalMs = 10000, maxDelta = 500\<rparr>"

definition currentDelta :: "MatchmakingConfig \<Rightarrow> int \<Rightarrow> int" where
  "currentDelta cfg waitedMs =
     (let steps = max 0 waitedMs div stepIntervalMs cfg
      in min (initialDelta cfg + steps * deltaStep cfg) (maxDelta cfg))"

section \<open>The keys of the queues\<close>

text \<open>The enumerations are strings here, as in the source: a key read back names any text.\<close>

record PoolId =
  plTimeCategory :: string
  plClockType :: string
  plBaseTimeSeconds :: int
  plIncrementSeconds :: int

fun categoryText :: "TimeCategory \<Rightarrow> string" where
  "categoryText BULLET = ''BULLET''"
| "categoryText BLITZ = ''BLITZ''"
| "categoryText RAPID = ''RAPID''"
| "categoryText CLASSICAL = ''CLASSICAL''"

fun clockTypeText :: "ChessClockType \<Rightarrow> string" where
  "clockTypeText SUDDEN_DEATH = ''SUDDEN_DEATH''"
| "clockTypeText FISCHER_INCREMENT = ''FISCHER_INCREMENT''"
| "clockTypeText BRONSTEIN_DELAY = ''BRONSTEIN_DELAY''"
| "clockTypeText SIMPLE_DELAY = ''SIMPLE_DELAY''"
| "clockTypeText MULTI_STAGE = ''MULTI_STAGE''"

definition categoryOf :: "string \<Rightarrow> TimeCategory option" where
  "categoryOf t = List.find (\<lambda>c. categoryText c = t) [BULLET, BLITZ, RAPID, CLASSICAL]"

definition clockTypeOf :: "string \<Rightarrow> ChessClockType option" where
  "clockTypeOf t = List.find (\<lambda>c. clockTypeText c = t)
     [SUDDEN_DEATH, FISCHER_INCREMENT, BRONSTEIN_DELAY, SIMPLE_DELAY, MULTI_STAGE]"

definition bucketKey :: "PoolId \<Rightarrow> string" where
  "bucketKey pool = ''game:mm:'' @ plTimeCategory pool @ '':'' @ plClockType pool @ '':'' @
     showInt (plBaseTimeSeconds pool) @ '':'' @ showInt (plIncrementSeconds pool)"

definition parseBucketKey :: "string \<Rightarrow> PoolId option" where
  "parseBucketKey key =
     (let parts = jsSplit CHR '':'' key in
      if length parts \<noteq> 6 \<or> parts ! 0 \<noteq> ''game'' \<or> parts ! 1 \<noteq> ''mm'' then None
      else case (numberInteger (parts ! 4), numberInteger (parts ! 5)) of
        (Some base, Some inc) \<Rightarrow>
          Some \<lparr>plTimeCategory = parts ! 2, plClockType = parts ! 3, plBaseTimeSeconds = base, plIncrementSeconds = inc\<rparr>
      | _ \<Rightarrow> None)"

text \<open>The checks of \<^verbatim>\<open>MatchmakingJoinDto\<close>.\<close>

definition matchmakingDtoOk :: "PoolId \<Rightarrow> bool" where
  "matchmakingDtoOk p \<longleftrightarrow> categoryOf (plTimeCategory p) \<noteq> None \<and> plClockType p \<in> set (map clockTypeText SUPPORTED_CLOCK_TYPES) \<and>
     15 \<le> plBaseTimeSeconds p \<and> plBaseTimeSeconds p \<le> 21600 \<and> 0 \<le> plIncrementSeconds p \<and> plIncrementSeconds p \<le> 180"

section \<open>The records in Redis\<close>

record QueueMeta =
  qmU :: string
  qmT :: int
  qmR :: rat

record MmState =
  mmPlay :: PlayDb
  mmQueue :: "string \<Rightarrow> (string \<times> rat) list"
  mmMeta :: "string \<Rightarrow> string \<Rightarrow> QueueMeta option"
  mmMarker :: "string \<Rightarrow> string option"
  mmRegistry :: "string list"

text \<open>What can go wrong besides: an error of the play service, or a text that is no member of an enumeration.\<close>

datatype MmFailure = PlayThrew PlayFailure | InvalidEnum

type_synonym 'a mm = "(MmFailure, MmState, 'a) action"

definition inPlay :: "'a play \<Rightarrow> 'a mm" where
  "inPlay m = (\<lambda>s. case m (mmPlay s) of
     (Inl e, t) \<Rightarrow> (Inl (map_DomainError PlayThrew e), s\<lparr>mmPlay := t\<rparr>)
   | (Inr x, t) \<Rightarrow> (Inr x, s\<lparr>mmPlay := t\<rparr>))"

text \<open>A sorted set keeps its members by score, then by their bytes.\<close>

fun zInsert :: "string \<times> rat \<Rightarrow> (string \<times> rat) list \<Rightarrow> (string \<times> rat) list" where
  "zInsert x [] = [x]"
| "zInsert x (y # ys) =
     (if snd x < snd y \<or> snd x = snd y \<and> codeLe (fst x) (fst y) then x # y # ys else y # zInsert x ys)"

definition zRem :: "string \<Rightarrow> (string \<times> rat) list \<Rightarrow> (string \<times> rat) list" where
  "zRem p z = filter (\<lambda>x. fst x \<noteq> p) z"

definition zAdd :: "string \<Rightarrow> rat \<Rightarrow> (string \<times> rat) list \<Rightarrow> (string \<times> rat) list" where
  "zAdd p score z = zInsert (p, score) (zRem p z)"

definition queued :: "string \<Rightarrow> string \<Rightarrow> MmState \<Rightarrow> bool" where
  "queued bucket p s \<longleftrightarrow> p \<in> fst ` set (mmQueue s bucket)"

definition zRangeByScore :: "rat \<Rightarrow> rat \<Rightarrow> nat \<Rightarrow> (string \<times> rat) list \<Rightarrow> string list" where
  "zRangeByScore lo hi limit z = take limit (map fst (filter (\<lambda>x. lo \<le> snd x \<and> snd x \<le> hi) z))"

text \<open>\<^verbatim>\<open>PAIR_SCRIPT\<close>: both leave the queue, or nothing changes.\<close>

definition pairScript :: "string \<Rightarrow> string \<Rightarrow> string \<Rightarrow> bool mm" where
  "pairScript bucket a b =
     bindS (getS (\<lambda>s. \<not> queued bucket a s \<or> \<not> queued bucket b s)) (\<lambda>missing.
     if missing then returnS False
     else bindS (putS (\<lambda>s. s\<lparr>mmQueue := (mmQueue s)(bucket := zRem b (zRem a (mmQueue s bucket))),
            mmMeta := (mmMeta s)(bucket := (mmMeta s bucket)(a := None, b := None)),
            mmMarker := (mmMarker s)(a := None, b := None)\<rparr>))
       (\<lambda>_. returnS True))"

section \<open>Pairing two players\<close>

definition createInput :: "PoolId \<Rightarrow> string \<Rightarrow> string \<Rightarrow> CreateGameInput option" where
  "createInput pool white black =
     (case (categoryOf (plTimeCategory pool), clockTypeOf (plClockType pool)) of
        (Some cat, Some ct) \<Rightarrow> Some \<lparr>cgWhitePlayerId = white, cgBlackPlayerId = black, cgTimeCategory = cat, cgClockType = ct,
          cgBaseTimeSeconds = plBaseTimeSeconds pool, cgIncrementSeconds = plIncrementSeconds pool, cgIsRated = True\<rparr>
      | _ \<Rightarrow> None)"

text \<open>The one who has waited longer plays white: player and user of white, then of black.\<close>

definition colours :: "string \<Rightarrow> QueueMeta \<Rightarrow> string \<Rightarrow> QueueMeta \<Rightarrow> (string \<times> string) \<times> (string \<times> string)" where
  "colours a am b bm = (if qmT am \<le> qmT bm then ((a, qmU am), (b, qmU bm)) else ((b, qmU bm), (a, qmU am)))"

definition createMatched :: "PoolId \<Rightarrow> string \<times> string \<Rightarrow> string \<times> string \<Rightarrow> int \<Rightarrow> string mm" where
  "createMatched pool white black now =
     (case createInput pool (fst white) (fst black) of
        None \<Rightarrow> throwS (OtherError InvalidEnum)
      | Some input \<Rightarrow>
          bindS (inPlay (createGameWithClock input now)) (\<lambda>game.
          bindS (inPlay (emit (PlayMatched (grId game) (snd white) (snd black)))) (\<lambda>_.
          returnS (grId game))))"

definition pairAndCreate :: "PoolId \<Rightarrow> string \<Rightarrow> int \<Rightarrow> string \<Rightarrow> QueueMeta \<Rightarrow> string \<Rightarrow> QueueMeta \<Rightarrow> string option mm" where
  "pairAndCreate pool bucket now a am b bm =
     bindS (pairScript bucket a b) (\<lambda>removed.
     if \<not> removed then returnS None
     else case colours a am b bm of (white, black) \<Rightarrow>
       bindS (createMatched pool white black now) (\<lambda>gid. returnS (Some gid)))"

section \<open>Joining and leaving\<close>

definition joinCheck :: "'c PlayEnv \<Rightarrow> string \<Rightarrow> PoolId \<Rightarrow> MmFailure DomainError + string \<times> rat" where
  "joinCheck env userId pool =
     (if plClockType pool = ''MULTI_STAGE'' then Inl (BusinessRuleError (clockErrorCode CLOCK_TYPE_NOT_IMPLEMENTED))
      else let expected = onlineTimeCategory (of_int (plBaseTimeSeconds pool)) (of_int (plIncrementSeconds pool)) in
      if plTimeCategory pool \<noteq> categoryText expected then Inl (BusinessRuleError ''TIME_CATEGORY_MISMATCH'')
      else case pePlayerOfUser env userId of
        None \<Rightarrow> Inl (BusinessRuleError ''PLAYER_PROFILE_REQUIRED'')
      | Some me \<Rightarrow> Inr (me, case peRating env me expected of None \<Rightarrow> 1500 | Some r \<Rightarrow> r))"

text \<open>\<^verbatim>\<open>SET NX\<close> of the marker.\<close>

definition setMarker :: "string \<Rightarrow> string \<Rightarrow> bool mm" where
  "setMarker p bucket =
     bindS (getS (\<lambda>s. mmMarker s p)) (\<lambda>cur.
     if cur \<noteq> None then returnS False
     else bindS (putS (\<lambda>s. s\<lparr>mmMarker := (mmMarker s)(p := Some bucket)\<rparr>)) (\<lambda>_. returnS True))"

definition enterQueue :: "string \<Rightarrow> string \<Rightarrow> QueueMeta \<Rightarrow> unit mm" where
  "enterQueue bucket p meta =
     putS (\<lambda>s. s\<lparr>mmQueue := (mmQueue s)(bucket := zAdd p (qmR meta) (mmQueue s bucket)),
        mmMeta := (mmMeta s)(bucket := (mmMeta s bucket)(p := Some meta)),
        mmRegistry := List.insert bucket (mmRegistry s)\<rparr>)"

fun tryCandidates :: "PoolId \<Rightarrow> string \<Rightarrow> int \<Rightarrow> string \<Rightarrow> QueueMeta \<Rightarrow> string list \<Rightarrow> string option mm" where
  "tryCandidates pool bucket now self selfMeta [] = returnS None"
| "tryCandidates pool bucket now self selfMeta (c # cs) =
     (if c = self then tryCandidates pool bucket now self selfMeta cs
      else bindS (getS (\<lambda>s. mmMeta s bucket c)) (\<lambda>raw. case raw of
        None \<Rightarrow> tryCandidates pool bucket now self selfMeta cs
      | Some candidateMeta \<Rightarrow>
          bindS (pairAndCreate pool bucket now c candidateMeta self selfMeta) (\<lambda>gid. case gid of
            Some g \<Rightarrow> returnS (Some g)
          | None \<Rightarrow> tryCandidates pool bucket now self selfMeta cs)))"

definition tryMatchFor :: "PoolId \<Rightarrow> string \<Rightarrow> int \<Rightarrow> string \<Rightarrow> QueueMeta \<Rightarrow> string option mm" where
  "tryMatchFor pool bucket now self selfMeta =
     (let delta = of_int (currentDelta DEFAULT_MATCHMAKING_CONFIG 0) in
      bindS (getS (\<lambda>s. zRangeByScore (qmR selfMeta - delta) (qmR selfMeta + delta) 10 (mmQueue s bucket))) (\<lambda>candidates.
      tryCandidates pool bucket now self selfMeta candidates))"

datatype MatchmakingJoinResult = Matched string | Queued

definition join :: "'c PlayEnv \<Rightarrow> string \<Rightarrow> PoolId \<Rightarrow> int \<Rightarrow> MatchmakingJoinResult mm" where
  "join env userId pool now =
     (case joinCheck env userId pool of
        Inl e \<Rightarrow> throwS e
      | Inr (me, rating) \<Rightarrow>
          let bucket = bucketKey pool; meta = \<lparr>qmU = userId, qmT = now, qmR = rating\<rparr> in
          bindS (setMarker me bucket) (\<lambda>marked.
          bindS (guardS (\<not> marked) (BusinessRuleError ''ALREADY_IN_QUEUE'')) (\<lambda>_.
          bindS (enterQueue bucket me meta) (\<lambda>_.
          bindS (tryMatchFor pool bucket now me meta) (\<lambda>matched. case matched of
            Some gid \<Rightarrow> returnS (Matched gid)
          | None \<Rightarrow> returnS Queued)))))"

definition leaveQueue :: "string \<Rightarrow> string \<Rightarrow> unit mm" where
  "leaveQueue bucket p =
     putS (\<lambda>s. s\<lparr>mmQueue := (mmQueue s)(bucket := zRem p (mmQueue s bucket)),
        mmMeta := (mmMeta s)(bucket := (mmMeta s bucket)(p := None)),
        mmMarker := (mmMarker s)(p := None)\<rparr>)"

definition leave :: "'c PlayEnv \<Rightarrow> string \<Rightarrow> bool mm" where
  "leave env userId =
     (case pePlayerOfUser env userId of
        None \<Rightarrow> returnS False
      | Some me \<Rightarrow>
          bindS (getS (\<lambda>s. mmMarker s me)) (\<lambda>bucket. case bucket of
            None \<Rightarrow> returnS False
          | Some b \<Rightarrow> bindS (leaveQueue b me) (\<lambda>_. returnS True)))"

section \<open>The sweep\<close>

record Waiting =
  wtPlayerId :: string
  wtRating :: rat
  wtMeta :: QueueMeta

definition waitingOf :: "string \<Rightarrow> MmState \<Rightarrow> Waiting list" where
  "waitingOf bucket s =
     List.map_filter (\<lambda>(p, score). map_option (\<lambda>m. \<lparr>wtPlayerId = p, wtRating = score, wtMeta = m\<rparr>) (mmMeta s bucket p))
       (mmQueue s bucket)"

definition windowOf :: "MatchmakingConfig \<Rightarrow> int \<Rightarrow> Waiting \<Rightarrow> Waiting \<Rightarrow> int" where
  "windowOf cfg now a b = max (currentDelta cfg (now - qmT (wtMeta a))) (currentDelta cfg (now - qmT (wtMeta b)))"

text \<open>
  The two loops with their indices. \<open>remove i\<close> is \<^verbatim>\<open>splice(i, 1)\<close>; the pair is taken out of the list, later index
  first, and \<open>i\<close> stays where it is. \<open>pair\<close> is the attempt; whatever it answers and does, an error of it ends the loops.
\<close>

definition remove :: "nat \<Rightarrow> 'a list \<Rightarrow> 'a list" where
  "remove i xs = take i xs @ drop (Suc i) xs"

partial_function (option) sweepFrom ::
  "MatchmakingConfig \<Rightarrow> int \<Rightarrow> (Waiting \<Rightarrow> Waiting \<Rightarrow> 's \<Rightarrow> ('e + bool) \<times> 's) \<Rightarrow> Waiting list \<Rightarrow> nat \<Rightarrow> nat \<Rightarrow> 's \<Rightarrow>
     (('e + unit) \<times> 's) option" where
  "sweepFrom cfg now pair ws i j s =
     (if length ws \<le> i then Some (Inr (), s)
      else if length ws \<le> j then sweepFrom cfg now pair ws (Suc i) (Suc (Suc i)) s
      else if of_int (windowOf cfg now (ws ! i) (ws ! j)) < \<bar>wtRating (ws ! i) - wtRating (ws ! j)\<bar> then
        sweepFrom cfg now pair ws i (Suc j) s
      else (case pair (ws ! i) (ws ! j) s of
          (Inl e, t) \<Rightarrow> Some (Inl e, t)
        | (Inr paired, t) \<Rightarrow>
            if paired then sweepFrom cfg now pair (remove i (remove j ws)) i (Suc i) t
            else sweepFrom cfg now pair ws i (Suc j) t))"

definition pairAtomically :: "PoolId \<Rightarrow> string \<Rightarrow> int \<Rightarrow> Waiting \<Rightarrow> Waiting \<Rightarrow> bool mm" where
  "pairAtomically pool bucket now a b =
     bindS (pairAndCreate pool bucket now (wtPlayerId a) (wtMeta a) (wtPlayerId b) (wtMeta b)) (\<lambda>gid. returnS (gid \<noteq> None))"

definition sweepBucket :: "PoolId \<Rightarrow> string \<Rightarrow> int \<Rightarrow> MmState \<Rightarrow> ((MmFailure DomainError + unit) \<times> MmState) option" where
  "sweepBucket pool bucket now s =
     (let members = mmQueue s bucket in
      if members = [] then Some (Inr (), s\<lparr>mmRegistry := removeAll bucket (mmRegistry s)\<rparr>)
      else if length members < 2 then Some (Inr (), s)
      else let waiting = jsSort (\<lambda>a b. qmT (wtMeta a) - qmT (wtMeta b)) (waitingOf bucket s)
        in sweepFrom DEFAULT_MATCHMAKING_CONFIG now (pairAtomically pool bucket now) waiting 0 1 s)"

fun sweepBuckets :: "int \<Rightarrow> string list \<Rightarrow> MmState \<Rightarrow> ((MmFailure DomainError + unit) \<times> MmState) option" where
  "sweepBuckets now [] s = Some (Inr (), s)"
| "sweepBuckets now (bucket # buckets) s =
     (case parseBucketKey bucket of
        None \<Rightarrow> sweepBuckets now buckets (s\<lparr>mmRegistry := removeAll bucket (mmRegistry s)\<rparr>)
      | Some pool \<Rightarrow>
          (case sweepBucket pool bucket now s of
             None \<Rightarrow> None
           | Some (Inl e, t) \<Rightarrow> Some (Inl e, t)
           | Some (Inr u, t) \<Rightarrow> sweepBuckets now buckets t))"

text \<open>An error ends the sweep and is logged.\<close>

definition sweep :: "int \<Rightarrow> MmState \<Rightarrow> MmState option" where
  "sweep now s = map_option snd (sweepBuckets now (mmRegistry s) s)"

end
