(* ===== verification/MatchSweep.thy ===== *)
theory MatchSweep
  imports Matchmaking
begin

text \<open>
  The sweep of the queues: its loops end, the keys it reads back are the keys that were written, and
  when nothing comes between it leaves no two players waiting who fit each other.
\<close>

section \<open>The loops end\<close>

lemma length_remove: "i < length xs \<Longrightarrow> length (remove i xs) = length xs - 1"
  by (simp add: remove_def)

text \<open>At most this many attempts are left among \<open>n\<close> players.\<close>

fun pairsAmong :: "nat \<Rightarrow> nat" where
  "pairsAmong 0 = 0"
| "pairsAmong (Suc n) = n + pairsAmong n"

lemma pairsAmong_eq: "2 * pairsAmong n = n * (n - 1)"
proof (induction n)
  case (Suc n)
  then show ?case by (cases n) (auto simp: algebra_simps)
qed simp

lemma pairsAmong_pred: "pairsAmong n = n - 1 + pairsAmong (n - 1)"
  by (cases n) auto

text \<open>An attempt that is counted.\<close>

definition counting :: "(Waiting \<Rightarrow> Waiting \<Rightarrow> 's \<Rightarrow> ('e + bool) \<times> 's) \<Rightarrow> Waiting \<Rightarrow> Waiting \<Rightarrow> 's \<times> nat \<Rightarrow> ('e + bool) \<times> ('s \<times> nat)" where
  "counting pair a b x = (case pair a b (fst x) of (r, t) \<Rightarrow> (r, (t, Suc (snd x))))"

definition apart :: "MatchmakingConfig \<Rightarrow> int \<Rightarrow> Waiting \<Rightarrow> Waiting \<Rightarrow> bool" where
  "apart cfg now a b \<longleftrightarrow> of_int (windowOf cfg now a b) < \<bar>wtRating a - wtRating b\<bar>"

lemma apart_sym: "apart cfg now a b \<longleftrightarrow> apart cfg now b a"
  by (simp add: apart_def windowOf_def max.commute abs_minus_commute)

lemma sweep_done: "length ws \<le> i \<Longrightarrow> sweepFrom cfg now pair ws i j s = Some (Inr (), s)"
  by (subst sweepFrom.simps) simp

lemma sweep_further:
  "i < length ws \<Longrightarrow> length ws \<le> j \<Longrightarrow> sweepFrom cfg now pair ws i j s = sweepFrom cfg now pair ws (Suc i) (Suc (Suc i)) s"
  by (subst sweepFrom.simps) simp

lemma sweep_skip:
  "i < length ws \<Longrightarrow> j < length ws \<Longrightarrow> apart cfg now (ws ! i) (ws ! j) \<Longrightarrow>
     sweepFrom cfg now pair ws i j s = sweepFrom cfg now pair ws i (Suc j) s"
  by (subst sweepFrom.simps) (simp add: apart_def)

lemma sweep_attempt:
  "i < length ws \<Longrightarrow> j < length ws \<Longrightarrow> \<not> apart cfg now (ws ! i) (ws ! j) \<Longrightarrow> pair (ws ! i) (ws ! j) s = (r, t) \<Longrightarrow>
     sweepFrom cfg now pair ws i j s = (case r of
         Inl e \<Rightarrow> Some (Inl e, t)
       | Inr paired \<Rightarrow> if paired then sweepFrom cfg now pair (remove i (remove j ws)) i (Suc i) t
           else sweepFrom cfg now pair ws i (Suc j) t)"
  by (subst sweepFrom.simps) (simp add: apart_def split: sum.split)

text \<open>
  The induction over the loops: the part of the list ahead of \<open>i\<close> shrinks, or \<open>i\<close> stays and \<open>j\<close> moves on.
\<close>

lemma sweep_induct [consumes 1, case_names finish further skip attempt]:
  assumes "i < j"
    and finish: "\<And>ws i j. length ws \<le> i \<Longrightarrow> P ws i j"
    and further: "\<And>ws i j. i < length ws \<Longrightarrow> length ws \<le> j \<Longrightarrow> i < j \<Longrightarrow> P ws (Suc i) (Suc (Suc i)) \<Longrightarrow> P ws i j"
    and skip: "\<And>ws i j. i < length ws \<Longrightarrow> j < length ws \<Longrightarrow> i < j \<Longrightarrow> apart cfg now (ws ! i) (ws ! j) \<Longrightarrow> P ws i (Suc j) \<Longrightarrow> P ws i j"
    and attempt: "\<And>ws i j. i < length ws \<Longrightarrow> j < length ws \<Longrightarrow> i < j \<Longrightarrow> \<not> apart cfg now (ws ! i) (ws ! j) \<Longrightarrow>
      P (remove i (remove j ws)) i (Suc i) \<Longrightarrow> P ws i (Suc j) \<Longrightarrow> P ws i j"
  shows "P ws i j"
  using assms(1)
proof (induction "(length ws - i, length ws - j)" arbitrary: ws i j rule: wf_induct_rule [OF wf_lex_prod [OF wf_less_than wf_less_than]])
  case 1
  note IH = 1(1) and ij = 1(2)
  show ?case
  proof (cases "length ws \<le> i \<or> length ws \<le> j")
    case True
    show ?thesis
    proof (cases "length ws \<le> i")
      case False
      then have "P ws (Suc i) (Suc (Suc i))" by (intro IH) auto
      with False True ij show ?thesis using further [of i ws j] by simp
    qed (rule finish)
  next
    case False
    then have bounds: "i < length ws" "j < length ws" by simp_all
    have ahead: "P ws i (Suc j)" by (rule IH) (use bounds ij in simp_all)
    have "length (remove i (remove j ws)) - i < length ws - i" using bounds ij by (simp add: length_remove)
    then have removed: "P (remove i (remove j ws)) i (Suc i)" by (intro IH) simp_all
    show ?thesis
    proof (cases "apart cfg now (ws ! i) (ws ! j)")
      case True
      show ?thesis by (rule skip [OF bounds ij True ahead])
    next
      case False
      show ?thesis by (rule attempt [OF bounds ij False removed ahead])
    qed
  qed
qed

lemma sweepFrom_counted:
  assumes "i < j"
  shows "\<exists>r t k. sweepFrom cfg now pair ws i j s = Some (r, t) \<and> sweepFrom cfg now (counting pair) ws i j (s, n) = Some (r, (t, k)) \<and>
     k \<le> n + (length ws - j) + pairsAmong (length ws - Suc i)"
  using assms
proof (induction ws i j arbitrary: s n rule: sweep_induct [where cfg = cfg and now = now])
  case (finish ws i j)
  then show ?case by (simp add: sweep_done)
next
  case (further ws i j)
  have "pairsAmong (length ws - Suc i) = length ws - Suc (Suc i) + pairsAmong (length ws - Suc (Suc i))"
    using pairsAmong_pred [of "length ws - Suc i"] by simp
  then show ?case using further.IH [of s n] further.hyps(2)
    unfolding sweep_further [OF further.hyps(1,2)] by (simp add: add.assoc)
next
  case (skip ws i j)
  obtain r t k where "sweepFrom cfg now pair ws i (Suc j) s = Some (r, t)"
    "sweepFrom cfg now (counting pair) ws i (Suc j) (s, n) = Some (r, (t, k))"
    "k \<le> n + (length ws - Suc j) + pairsAmong (length ws - Suc i)"
    using skip.IH [of s n] by blast
  then show ?case unfolding sweep_skip [where cfg = cfg, OF skip.hyps(1,2,4)] by simp
next
  case (attempt ws i j)
  note here = attempt.hyps(1,2,4)
  obtain r t where att: "pair (ws ! i) (ws ! j) s = (r, t)" by force
  then have "counting pair (ws ! i) (ws ! j) (s, n) = (r, (t, Suc n))" by (simp add: counting_def)
  note eqs = sweep_attempt [where cfg = cfg and pair = pair, OF here att] sweep_attempt [where cfg = cfg and pair = "counting pair", OF here this]
  show ?case
  proof (cases r)
    case (Inl e)
    show ?thesis unfolding eqs Inl using attempt.hyps(2) by simp
  next
    case (Inr paired)
    show ?thesis
    proof (cases paired)
      case True
      have removed: "length (remove i (remove j ws)) = length ws - 2" using attempt.hyps by (simp add: length_remove)
      obtain r' t' k where rec: "sweepFrom cfg now pair (remove i (remove j ws)) i (Suc i) t = Some (r', t')"
        "sweepFrom cfg now (counting pair) (remove i (remove j ws)) i (Suc i) (t, Suc n) = Some (r', (t', k))"
        and k: "k \<le> Suc n + (length ws - 2 - Suc i) + pairsAmong (length ws - 2 - Suc i)"
        using attempt.IH(1) [of t "Suc n"] unfolding removed by blast
      have "length ws - 2 - Suc i + pairsAmong (length ws - 2 - Suc i) \<le> pairsAmong (length ws - Suc i)"
        using pairsAmong_pred [of "length ws - Suc i"] pairsAmong_pred [of "length ws - Suc i - 1"] by simp
      then have "k \<le> n + (length ws - j) + pairsAmong (length ws - Suc i)" using k attempt.hyps(2) by linarith
      then show ?thesis unfolding eqs Inr using True rec by simp
    next
      case False
      obtain r' t' k where rec: "sweepFrom cfg now pair ws i (Suc j) t = Some (r', t')"
        "sweepFrom cfg now (counting pair) ws i (Suc j) (t, Suc n) = Some (r', (t', k))"
        and k: "k \<le> Suc n + (length ws - Suc j) + pairsAmong (length ws - Suc i)"
        using attempt.IH(2) [of t "Suc n"] by blast
      have "k \<le> n + (length ws - j) + pairsAmong (length ws - Suc i)" using k attempt.hyps(2) by linarith
      then show ?thesis unfolding eqs Inr using False rec by simp
    qed
  qed
qed

lemma sweepFrom_returns:
  assumes "i < j"
  shows "\<exists>r t. sweepFrom cfg now pair ws i j s = Some (r, t)"
  using sweepFrom_counted [OF assms, of cfg now pair ws s 0] by (elim exE conjE) (intro exI)

lemma sweepBucket_returns: "\<exists>r t. sweepBucket pool b now s = Some (r, t)"
proof -
  have "\<exists>r t. sweepFrom DEFAULT_MATCHMAKING_CONFIG now (pairAtomically pool b now)
      (jsSort (\<lambda>a b. qmT (wtMeta a) - qmT (wtMeta b)) (waitingOf b s)) 0 1 s = Some (r, t)"
    by (rule sweepFrom_returns) simp
  then show ?thesis unfolding sweepBucket_def Let_def by simp
qed

lemma sweepBuckets_returns: "\<exists>r. sweepBuckets now buckets s = Some r"
proof (induction buckets arbitrary: s)
  case (Cons b bs)
  show ?case
  proof (cases "parseBucketKey b")
    case None
    then show ?thesis using Cons by simp
  next
    case (Some pool)
    obtain r t where "sweepBucket pool b now s = Some (r, t)" using sweepBucket_returns by blast
    then show ?thesis using Some Cons by (cases r) simp_all
  qed
qed simp

section \<open>The keys\<close>

lemma isDigitChar_digitChar: "d < 10 \<Longrightarrow> isDigitChar (digitChar d)"
  by (simp add: isDigitChar_def digitOf_digitChar)

lemma showNat_digits: "list_all isDigitChar (showNat n)"
proof (induction n rule: showNat.induct)
  case (1 n)
  then show ?case by (subst showNat.simps) (auto simp: isDigitChar_digitChar)
qed

lemma digit_facts:
  assumes "isDigitChar c"
  shows "c \<notin> {CHR ''-'', CHR ''+'', CHR ''.'', CHR '':'', CHR ''x'', CHR ''X'', CHR ''o'', CHR ''O'', CHR ''b'', CHR ''B''}" "\<not> isBlankChar c"
proof -
  have n: "48 \<le> (of_char c :: nat)" "(of_char c :: nat) \<le> 57"
    using assms by (auto simp: isDigitChar_def digitOf_def Let_def split: if_splits)
  then show "\<not> isBlankChar c" by (simp add: isBlankChar_def Let_def)
  show "c \<notin> {CHR ''-'', CHR ''+'', CHR ''.'', CHR '':'', CHR ''x'', CHR ''X'', CHR ''o'', CHR ''O'', CHR ''b'', CHR ''B''}"
    using n by auto
qed

lemma numberInteger_showInt:
  assumes "0 \<le> i" "i < 2 ^ 53"
  shows "numberInteger (showInt i) = Some i"
proof -
  let ?s = "showNat (nat i)"
  have digits: "list_all isDigitChar ?s" by (rule showNat_digits)
  obtain c cs where s: "?s = c # cs" by (cases ?s) auto
  have blanks: "dropWhile isBlankChar xs = xs" if "list_all isDigitChar xs" for xs
    using that by (cases xs) (auto simp: digit_facts(2))
  have trim: "jsTrim ?s = ?s" using digits by (simp add: jsTrim_def blanks)
  have c: "isDigitChar c" and cs: "list_all isDigitChar cs" using digits s by auto
  have sign: "signOf ?s = (1, ?s)" using digit_facts(1) [OF c] by (simp add: signOf_def s)
  have radix: "radixOf x = None" if "isDigitChar x" for x
    using digit_facts(1) [OF that] by (simp add: radixOf_def)
  have noRadix: "(case ?s of c # x # ds \<Rightarrow> if c = CHR ''0'' then map_option (\<lambda>b. (b, ds)) (radixOf x) else None | _ \<Rightarrow> None) = None"
    using cs s by (cases cs) (auto simp: radix)
  have whole: "takeWhile isDigitChar ?s = ?s" "dropWhile isDigitChar ?s = []"
    using digits by (simp_all add: list_all_iff)
  have decimal: "decimalValue ?s = Some (of_nat (nat i))"
    by (simp add: decimalValue_def whole exponentOf_def readDigits_showNat scale10_def)
  have "nat i < 2 ^ 53" using assms by (simp add: nat_less_iff)
  then have exact: "integerDouble (of_int i) = Some i" using integerDouble_exact [of "nat i"] assms(1) by simp
  show ?thesis
    unfolding numberInteger_def Let_def using assms(1)
    by (simp add: showInt_def trim noRadix sign decimal exact)
qed

text \<open>A key that was written is read back.\<close>

lemma parse_bucketKey:
  assumes "CHR '':'' \<notin> set (plTimeCategory pool)" "CHR '':'' \<notin> set (plClockType pool)"
    "0 \<le> plBaseTimeSeconds pool" "plBaseTimeSeconds pool < 2 ^ 53" "0 \<le> plIncrementSeconds pool" "plIncrementSeconds pool < 2 ^ 53"
  shows "parseBucketKey (bucketKey pool) = Some pool"
proof -
  have int: "CHR '':'' \<notin> set (showInt i)" if "0 \<le> i" for i
    using that showNat_digits [of "nat i"] digit_facts(1) by (auto simp: showInt_def list_all_iff)
  have "jsSplit CHR '':'' (bucketKey pool) =
      [''game'', ''mm'', plTimeCategory pool, plClockType pool, showInt (plBaseTimeSeconds pool), showInt (plIncrementSeconds pool)]"
    using jsSplit_jsJoin [of "[''game'', ''mm'', plTimeCategory pool, plClockType pool, showInt (plBaseTimeSeconds pool),
        showInt (plIncrementSeconds pool)]" "CHR '':''"] assms int
    by (simp add: bucketKey_def)
  then show ?thesis using assms by (simp add: parseBucketKey_def numberInteger_showInt)
qed

lemma categoryText_plain: "CHR '':'' \<notin> set (categoryText cat)"
  by (cases cat) simp_all

lemma clockTypeText_plain: "CHR '':'' \<notin> set (clockTypeText ct)"
  by (cases ct) simp_all

lemma categoryOf_Some: "categoryOf t = Some cat \<longleftrightarrow> t = categoryText cat"
  by (cases cat) (auto simp: categoryOf_def)

lemma clockTypeOf_Some: "clockTypeOf t = Some ct \<longleftrightarrow> t = clockTypeText ct"
  by (cases ct) (auto simp: clockTypeOf_def)

lemma parse_joined:
  assumes "matchmakingDtoOk pool"
  shows "parseBucketKey (bucketKey pool) = Some pool"
proof -
  obtain cat where cat: "plTimeCategory pool = categoryText cat"
    using assms by (auto simp: matchmakingDtoOk_def categoryOf_Some)
  obtain ct where ct: "plClockType pool = clockTypeText ct" using assms by (auto simp: matchmakingDtoOk_def)
  show ?thesis
    by (rule parse_bucketKey) (use assms in \<open>simp_all add: cat ct categoryText_plain clockTypeText_plain matchmakingDtoOk_def\<close>)
qed

section \<open>Nobody who fits is left\<close>

lemma nth_remove: "i < length xs \<Longrightarrow> l < length xs - 1 \<Longrightarrow> remove i xs ! l = xs ! (if l < i then l else Suc l)"
  by (auto simp: remove_def nth_append min_def)

lemma set_remove:
  assumes "distinct xs" "i < length xs"
  shows "set (remove i xs) = set xs - {xs ! i}" "distinct (remove i xs)"
proof -
  have "xs = take i xs @ xs ! i # drop (Suc i) xs" using assms(2) by (simp add: Cons_nth_drop_Suc)
  then have "set xs = set (take i xs) \<union> {xs ! i} \<union> set (drop (Suc i) xs)"
    "distinct (take i xs @ xs ! i # drop (Suc i) xs)"
    using assms(1) by (metis Un_insert_right list.simps(15) set_append sup_bot.right_neutral Un_insert_left, simp)
  then show "set (remove i xs) = set xs - {xs ! i}" "distinct (remove i xs)" by (auto simp: remove_def)
qed

lemma map_remove: "map f (remove i xs) = remove i (map f xs)"
  by (simp add: remove_def take_map drop_map)

lemma waitingOf_iff:
  "a \<in> set (waitingOf bucket s) \<longleftrightarrow>
     (wtPlayerId a, wtRating a) \<in> set (mmQueue s bucket) \<and> mmMeta s bucket (wtPlayerId a) = Some (wtMeta a)"
proof -
  have "a \<in> set (waitingOf bucket s) \<longleftrightarrow> (\<exists>p score m. (p, score) \<in> set (mmQueue s bucket) \<and> mmMeta s bucket p = Some m \<and>
      a = \<lparr>wtPlayerId = p, wtRating = score, wtMeta = m\<rparr>)"
    by (auto simp: waitingOf_def List.map_filter_def image_iff split: option.splits; force)
  then show ?thesis by (cases a) auto
qed

lemma distinct_waitingOf:
  assumes "distinct (map fst (mmQueue s bucket))"
  shows "distinct (map wtPlayerId (waitingOf bucket s))"
proof -
  have "map wtPlayerId (List.map_filter (\<lambda>(p, score). map_option (\<lambda>m. \<lparr>wtPlayerId = p, wtRating = score, wtMeta = m\<rparr>) (f p)) z) =
      map fst (filter (\<lambda>x. f (fst x) \<noteq> None) z)" for f :: "string \<Rightarrow> QueueMeta option" and z :: "(string \<times> rat) list"
    by (induction z) (auto simp: List.map_filter_simps split: option.split)
  then show ?thesis using assms by (simp add: waitingOf_def distinct_map_filter)
qed

lemma createGameWithClock_returns:
  assumes "supported \<lparr>clockType = cgClockType input, baseMs = cgBaseTimeSeconds input * 1000, incrementMs = cgIncrementSeconds input * 1000\<rparr>"
  shows "\<exists>game t. createGameWithClock input now s = (Inr game, t)"
  using assms
  by (auto simp: createGameWithClock_def createGame_def bindS_def Let_def toGameRow_def clockConfig_def createClock_def supported_assert
      orClockError_def initClock_def)

lemma createMatched_returns:
  assumes "matchmakingDtoOk pool"
  shows "\<exists>gid p. createMatched pool white black now s = (Inr gid, s\<lparr>mmPlay := p\<rparr>)"
proof -
  obtain cat where cat: "categoryOf (plTimeCategory pool) = Some cat" using assms by (auto simp: matchmakingDtoOk_def)
  obtain ct where ct: "plClockType pool = clockTypeText ct" "ct \<in> set SUPPORTED_CLOCK_TYPES"
    using assms unfolding matchmakingDtoOk_def by auto
  have "clockTypeOf (plClockType pool) = Some ct" using ct(1) by (simp add: clockTypeOf_Some)
  then obtain input where input: "createInput pool (fst white) (fst black) = Some input" "cgClockType input = ct"
    "cgBaseTimeSeconds input = plBaseTimeSeconds pool" "cgIncrementSeconds input = plIncrementSeconds pool"
    using cat by (simp add: createInput_def)
  have "supported \<lparr>clockType = cgClockType input, baseMs = cgBaseTimeSeconds input * 1000, incrementMs = cgIncrementSeconds input * 1000\<rparr>"
    using input(2-4) assms ct(2) by (auto simp: supported_def matchmakingDtoOk_def SUPPORTED_CLOCK_TYPES_def)
  then obtain game t where "createGameWithClock input now (mmPlay s) = (Inr game, t)" using createGameWithClock_returns by blast
  then show ?thesis by (auto simp: createMatched_def input(1) bindS_def inPlay_def emit_def)
qed

lemma pairAtomically_pairs:
  assumes "matchmakingDtoOk pool" "a \<in> set (waitingOf bucket s)" "b \<in> set (waitingOf bucket s)"
  obtains t where "pairAtomically pool bucket now a b s = (Inr True, t)"
    "mmQueue t bucket = zRem (wtPlayerId b) (zRem (wtPlayerId a) (mmQueue s bucket))"
    "mmMeta t bucket = (mmMeta s bucket)(wtPlayerId a := None, wtPlayerId b := None)"
proof -
  have present: "queued bucket (wtPlayerId a) s" "queued bucket (wtPlayerId b) s"
    using assms(2,3) by (force simp: waitingOf_iff queued_def)+
  obtain s1 where script: "pairScript bucket (wtPlayerId a) (wtPlayerId b) s = (Inr True, s1)"
    "mmQueue s1 bucket = zRem (wtPlayerId b) (zRem (wtPlayerId a) (mmQueue s bucket))"
    "mmMeta s1 bucket = (mmMeta s bucket)(wtPlayerId a := None, wtPlayerId b := None)"
    using present by (simp add: pairScript_def bindS_def)
  obtain white black where c: "colours (wtPlayerId a) (wtMeta a) (wtPlayerId b) (wtMeta b) = (white, black)" by (rule prod.exhaust)
  obtain gid p where "createMatched pool white black now s1 = (Inr gid, s1\<lparr>mmPlay := p\<rparr>)"
    using createMatched_returns [OF assms(1)] by blast
  then have "pairAtomically pool bucket now a b s = (Inr True, s1\<lparr>mmPlay := p\<rparr>)"
    using script(1) c by (simp add: pairAtomically_def pairAndCreate_def bindS_def)
  then show thesis using that script(2,3) by simp
qed

text \<open>What the loops have compared so far.\<close>

definition compared :: "MatchmakingConfig \<Rightarrow> int \<Rightarrow> Waiting list \<Rightarrow> nat \<Rightarrow> nat \<Rightarrow> bool" where
  "compared cfg now ws i j \<longleftrightarrow>
     (\<forall>k l. k < l \<longrightarrow> l < length ws \<longrightarrow> k < i \<or> k = i \<and> l < j \<longrightarrow> apart cfg now (ws ! k) (ws ! l))"

lemma compared_mono:
  assumes "compared cfg now ws i j"
    and "\<And>k l. k < l \<Longrightarrow> l < length ws \<Longrightarrow> k < i' \<or> k = i' \<and> l < j' \<Longrightarrow> k < i \<or> k = i \<and> l < j \<or> apart cfg now (ws ! k) (ws ! l)"
  shows "compared cfg now ws i' j'"
  unfolding compared_def
proof (intro allI impI)
  fix k l assume kl: "k < l" "l < length ws" "k < i' \<or> k = i' \<and> l < j'"
  from assms(2) [OF this] show "apart cfg now (ws ! k) (ws ! l)" using assms(1) kl(1,2) unfolding compared_def by blast
qed

lemma compared_remove:
  assumes "compared cfg now ws i j" "i < j" "j < length ws"
  shows "compared cfg now (remove i (remove j ws)) i (Suc i)"
  unfolding compared_def
proof (intro allI impI)
  fix k l assume kl: "k < l" "l < length (remove i (remove j ws))" "k < i \<or> k = i \<and> l < Suc i"
  then have k: "k < i" and len: "l < length ws - 2" using assms(2,3) by (auto simp: length_remove)
  define l' where "l' = (if l < i then l else if Suc l < j then Suc l else Suc (Suc l))"
  have "remove i (remove j ws) ! k = ws ! k" "remove i (remove j ws) ! l = ws ! l'"
    using k len assms(2,3) by (auto simp: nth_remove length_remove l'_def)
  moreover have "k < l'" "l' < length ws" using kl(1) len by (auto simp: l'_def)
  ultimately show "apart cfg now (remove i (remove j ws) ! k) (remove i (remove j ws) ! l)"
    using assms(1) k unfolding compared_def by auto
qed

lemma compared_all:
  assumes "compared cfg now ws i j" "length ws \<le> i" "a \<in> set ws" "b \<in> set ws" "a \<noteq> b"
  shows "apart cfg now a b"
proof -
  obtain k l where kl: "k < length ws" "l < length ws" "a = ws ! k" "b = ws ! l" using assms(3,4) by (metis in_set_conv_nth)
  then have "k < l \<or> l < k" using assms(5) by (metis linorder_neqE_nat)
  moreover have "apart cfg now (ws ! m) (ws ! n)" if "m < n" "n < length ws" for m n
    using assms(1,2) that unfolding compared_def by auto
  ultimately show ?thesis using kl apart_sym by metis
qed

lemma sweepFrom_exhausts:
  assumes ok: "matchmakingDtoOk pool" and "i < j"
    and "distinct (map wtPlayerId ws)" "set (waitingOf bucket s) = set ws" "compared cfg now ws i j"
  shows "\<exists>t. sweepFrom cfg now (pairAtomically pool bucket now) ws i j s = Some (Inr (), t) \<and>
     (\<forall>a \<in> set (waitingOf bucket t). \<forall>b \<in> set (waitingOf bucket t). a \<noteq> b \<longrightarrow> apart cfg now a b)"
  using assms(2-5)
proof (induction ws i j arbitrary: s rule: sweep_induct [where cfg = cfg and now = now])
  case (finish ws i j)
  then show ?case using compared_all [OF finish.prems(3) finish.hyps] by (simp add: sweep_done)
next
  case (further ws i j)
  have "compared cfg now ws (Suc i) (Suc (Suc i))"
    by (rule compared_mono [OF further.prems(3)]) (use further.hyps(2) in auto)
  then show ?case unfolding sweep_further [OF further.hyps(1,2)] by (rule further.IH [OF further.prems(1,2)])
next
  case (skip ws i j)
  have "compared cfg now ws i (Suc j)"
    by (rule compared_mono [OF skip.prems(3)]) (use skip.hyps(4) in \<open>auto simp: less_Suc_eq\<close>)
  then show ?case unfolding sweep_skip [where cfg = cfg, OF skip.hyps(1,2,4)] by (rule skip.IH [OF skip.prems(1,2)])
next
  case (attempt ws i j)
  let ?a = "ws ! i" and ?b = "ws ! j" and ?rest = "remove i (remove j ws)"
  have ab: "?a \<in> set (waitingOf bucket s)" "?b \<in> set (waitingOf bucket s)" using attempt.hyps(1,2) attempt.prems(2) by auto
  obtain t where t: "pairAtomically pool bucket now ?a ?b s = (Inr True, t)"
    "mmQueue t bucket = zRem (wtPlayerId ?b) (zRem (wtPlayerId ?a) (mmQueue s bucket))"
    "mmMeta t bucket = (mmMeta s bucket)(wtPlayerId ?a := None, wtPlayerId ?b := None)"
    by (rule pairAtomically_pairs [OF ok ab])
  have inj: "inj_on wtPlayerId (set ws)" using attempt.prems(1) by (simp add: distinct_map)
  have dist: "distinct ws" using attempt.prems(1) by (simp add: distinct_map)
  have at: "remove j ws ! i = ?a" using attempt.hyps(1-3) by (simp add: nth_remove)
  have rest: "set ?rest = set ws - {?b} - {?a}"
    using set_remove(1) [OF set_remove(2) [OF dist attempt.hyps(2)], of i] set_remove(1) [OF dist attempt.hyps(2)] attempt.hyps(1-3) at
    by (simp add: length_remove)
  have other: "wtPlayerId c \<noteq> wtPlayerId ?a \<and> wtPlayerId c \<noteq> wtPlayerId ?b" if "c \<in> set ws" "c \<noteq> ?a" "c \<noteq> ?b" for c
    using that ab inj inj_onD [OF inj] unfolding attempt.prems(2) by blast
  have left: "c \<in> set (waitingOf bucket t) \<longleftrightarrow> c \<in> set (waitingOf bucket s) \<and> wtPlayerId c \<noteq> wtPlayerId ?a \<and> wtPlayerId c \<noteq> wtPlayerId ?b" for c
    unfolding waitingOf_iff t(2,3) by (auto simp: zRem_def)
  have "set (waitingOf bucket t) = set ?rest"
    by (rule set_eqI) (unfold left rest attempt.prems(2), use other in blast)
  moreover have "distinct (map wtPlayerId ?rest)"
    using attempt.prems(1) attempt.hyps(1-3) by (simp add: map_remove set_remove(2) length_remove)
  moreover have "compared cfg now ?rest i (Suc i)"
    by (rule compared_remove [OF attempt.prems(3) attempt.hyps(3,2)])
  ultimately show ?case
    unfolding sweep_attempt [where cfg = cfg and pair = "pairAtomically pool bucket now", OF attempt.hyps(1,2,4) t(1)]
    using attempt.IH(1) by simp
qed

end
