(* ===== verification/MatchRuns.thy ===== *)
theory MatchRuns
  imports MatchSweep PlayProps
begin

text \<open>
  Matchmaking under concurrency. A run is the list of the states, newest first, with what requests
  have still to do and the players whose entry into a queue was made so far, one for each entry. A
  request may have read the marker or what is remembered of a player in any earlier state; it may stop
  at any point, and keys expire at any time. The play service goes on meanwhile (\<open>quietPlay\<close>).
\<close>

section \<open>Runs\<close>

datatype MmTask =
    EnterQueue string string QueueMeta
  | CreateMatched PoolId "string \<times> string" "string \<times> string"

definition emptyMm :: MmState where
  "emptyMm = \<lparr>mmPlay = noGames, mmQueue = (\<lambda>_. []), mmMeta = (\<lambda>_ _. None), mmMarker = (\<lambda>_. None), mmRegistry = []\<rparr>"

text \<open>The players of game number \<open>i\<close> when it is rated.\<close>

definition ratedPair :: "PlayDb \<Rightarrow> nat \<Rightarrow> (string \<times> string) option" where
  "ratedPair s i =
     (if i < pdNextId s then
        (case pdGames s (showNat i) of
           None \<Rightarrow> None
         | Some g \<Rightarrow> if gmIsRated g then Some (gmWhitePlayerId g, gmBlackPlayerId g) else None)
      else None)"

definition quietPlay :: "PlayDb \<Rightarrow> PlayDb \<Rightarrow> bool" where
  "quietPlay s t \<longleftrightarrow> pdNextId s \<le> pdNextId t \<and> ratedPair t = ratedPair s"

inductive mmRun :: "'c PlayEnv \<Rightarrow> MmState list \<Rightarrow> MmTask list \<Rightarrow> string list \<Rightarrow> bool" for env where
  starts: "mmRun env [emptyMm] [] []"
| marks: "mmRun env (s # h) ts js \<Longrightarrow> joinCheck env u pool = Inr (me, rating) \<Longrightarrow> setMarker me (bucketKey pool) s = (Inr True, t) \<Longrightarrow>
    mmRun env (t # s # h) (EnterQueue (bucketKey pool) me \<lparr>qmU = u, qmT = now, qmR = rating\<rparr> # ts) js"
| enters: "mmRun env (s # h) ts js \<Longrightarrow> EnterQueue bucket p meta \<in> set ts \<Longrightarrow> enterQueue bucket p meta s = (Inr (), t) \<Longrightarrow>
    mmRun env (t # s # h) (remove1 (EnterQueue bucket p meta) ts) (p # js)"
| leaves: "mmRun env (s # h) ts js \<Longrightarrow> s0 \<in> set (s # h) \<Longrightarrow> mmMarker s0 me = Some bucket \<Longrightarrow> leaveQueue bucket me s = (Inr (), t) \<Longrightarrow>
    mmRun env (t # s # h) ts js"
| pairs: "mmRun env (s # h) ts js \<Longrightarrow> a \<noteq> b \<Longrightarrow> s1 \<in> set (s # h) \<Longrightarrow> mmMeta s1 bucket a = Some am \<Longrightarrow> s2 \<in> set (s # h) \<Longrightarrow>
    mmMeta s2 bucket b = Some bm \<Longrightarrow> pairScript bucket a b s = (Inr True, t) \<Longrightarrow> colours a am b bm = (white, black) \<Longrightarrow>
    mmRun env (t # s # h) (CreateMatched pool white black # ts) js"
| creates: "mmRun env (s # h) ts js \<Longrightarrow> CreateMatched pool white black \<in> set ts \<Longrightarrow> createMatched pool white black now s = (r, t) \<Longrightarrow>
    mmRun env (t # s # h) (remove1 (CreateMatched pool white black) ts) js"
| stops: "mmRun env h ts js \<Longrightarrow> mmRun env h (remove1 a ts) js"
| markerExpires: "mmRun env (s # h) ts js \<Longrightarrow> mmRun env (s\<lparr>mmMarker := (mmMarker s)(p := None)\<rparr> # s # h) ts js"
| queueExpires: "mmRun env (s # h) ts js \<Longrightarrow>
    mmRun env (s\<lparr>mmQueue := (mmQueue s)(bucket := []), mmMeta := (mmMeta s)(bucket := (\<lambda>_. None))\<rparr> # s # h) ts js"
| registers: "mmRun env (s # h) ts js \<Longrightarrow> mmRun env (s\<lparr>mmRegistry := r\<rparr> # s # h) ts js"
| plays: "mmRun env (s # h) ts js \<Longrightarrow> quietPlay (mmPlay s) p \<Longrightarrow> mmRun env (s\<lparr>mmPlay := p\<rparr> # s # h) ts js"

lemma mmRun_nonempty: "mmRun env h ts js \<Longrightarrow> h \<noteq> []"
  by (induction rule: mmRun.induct) auto

section \<open>The play service is quiet\<close>

lemma quietI:
  assumes "pdNextId s \<le> pdNextId t" "\<And>i. ratedPair t i = ratedPair s i"
  shows "quietPlay s t"
  using assms by (auto simp: quietPlay_def)

lemma quiet_tables: "pdGames t = pdGames s \<Longrightarrow> pdNextId t = pdNextId s \<Longrightarrow> quietPlay s t"
  by (simp add: quietPlay_def ratedPair_def fun_eq_iff)

lemma quiet_trans: "quietPlay s t \<Longrightarrow> quietPlay t u \<Longrightarrow> quietPlay s u"
  by (auto simp: quietPlay_def)

text \<open>A write that keeps the players of a game and whether it is rated.\<close>

lemma quiet_update:
  assumes "pdGames s gid = Some g" "pdGames t = (pdGames s)(gid := Some g')" "pdNextId t = pdNextId s"
    "gmIsRated g' = gmIsRated g" "gmWhitePlayerId g' = gmWhitePlayerId g" "gmBlackPlayerId g' = gmBlackPlayerId g"
  shows "quietPlay s t"
  by (rule quietI) (use assms in \<open>auto simp: ratedPair_def\<close>)

lemma quiet_frame: "frames pdGames m \<Longrightarrow> frames pdNextId m \<Longrightarrow> quietPlay s (snd (m s))"
  by (rule quiet_tables) (simp_all add: framesD)

lemma showNat_inject: "showNat i = showNat j \<longleftrightarrow> i = j"
  by (metis option.inject readDigits_showNat)

lemma quiet_tablesOf: "tablesOf t = tablesOf s \<Longrightarrow> quietPlay s t"
  by (rule quiet_tables) (simp_all add: tablesOf_def)

lemma movedGame_roles: "gmIsRated (movedGame p now g) = gmIsRated g" "gmWhitePlayerId (movedGame p now g) = gmWhitePlayerId g"
  "gmBlackPlayerId (movedGame p now g) = gmBlackPlayerId g"
  by (simp_all add: movedGame_def finishedColumns_def split: option.split)

lemma finished_roles: "gmIsRated (finishedColumns f now g) = gmIsRated g"
  "gmWhitePlayerId (finishedColumns f now g) = gmWhitePlayerId g" "gmBlackPlayerId (finishedColumns f now g) = gmBlackPlayerId g"
  by (simp_all add: finishedColumns_def)

lemma createGame_roles:
  assumes "createGame input now s = (Inr game, t)"
  shows "pdNextId t = Suc (pdNextId s)" "ratedPair t i = (if i = pdNextId s
    then if cgIsRated input then Some (cgWhitePlayerId input, cgBlackPlayerId input) else None else ratedPair s i)"
  using assms by (auto simp: createGame_def bindS_def Let_def ratedPair_def showNat_inject)

text \<open>
  A step of the play service is quiet unless it makes a rated game, which its own requests never do: a
  friendly challenge is not rated.
\<close>

lemma playRun_quiet:
  assumes "playRun env (t # s # h) ts"
  shows "quietPlay s t \<or> (\<exists>input now game. cgIsRated input \<and> createGame input now s = (Inr game, t))"
  using assms
proof (induction "t # s # h" ts rule: playRun.induct)
  case (creates ts input now game st)
  show ?case
  proof (cases "cgIsRated input")
    case False
    have "quietPlay s t" by (rule quietI) (use createGame_roles [OF creates(3)] False in \<open>auto simp: ratedPair_def\<close>)
    then show ?thesis ..
  qed (use creates(3) in blast)
next
  case (moves ts R u gid uci now p)
  obtain g where "pdGames s (grId (mpGame p)) = Some g"
    "t = s\<lparr>pdMoves := (pdMoves s)(grId (mpGame p) := pdMoves s (grId (mpGame p)) @ [mpMove p]),
       pdGames := (pdGames s)(grId (mpGame p) := Some (movedGame p now g)),
       pdAudit := pdAudit s @ (case mpFinish p of None \<Rightarrow> [] | Some f \<Rightarrow> [finishedRow (grId (mpGame p)) f])\<rparr>"
    by (rule commitMove_Inr [OF moves(5)])
  then have "quietPlay s t" by (intro quiet_update [of s _ g t "movedGame p now g"]) (simp_all add: movedGame_roles)
  then show ?case ..
next
  case (finishes ts R now p row)
  obtain g where "pdGames s (grId (fpGame p)) = Some g"
    "t = s\<lparr>pdGames := (pdGames s)(grId (fpGame p) := Some (finishedColumns (fpInput p) now g)),
       pdAudit := pdAudit s @ [finishedRow (grId (fpGame p)) (fpInput p)]\<rparr>"
    by (rule finishGame_Inr [OF finishes(5)])
  then have "quietPlay s t" by (intro quiet_update [of s _ g t "finishedColumns (fpInput p) now g"]) (simp_all add: finished_roles)
  then show ?case ..
next
  case (writes ts a)
  have "quietPlay s (snd (afterTask a s))" by (rule quiet_tablesOf) (rule framesD [OF afterTask_frames])
  then show ?case using writes by auto
next
  case (expires ts gid)
  then show ?case by (auto simp: quiet_tables)
next
  case (other ts)
  show ?case by (intro disjI1 quiet_tablesOf) (rule other)
qed auto

section \<open>What a run keeps\<close>

fun taskPlays :: "string \<Rightarrow> MmTask \<Rightarrow> bool" where
  "taskPlays p (CreateMatched pool white black) \<longleftrightarrow> p \<in> {fst white, fst black}"
| "taskPlays p (EnterQueue bucket q meta) \<longleftrightarrow> False"

definition inTasks :: "string \<Rightarrow> MmTask list \<Rightarrow> nat" where
  "inTasks p ts = length (filter (taskPlays p) ts)"

definition ratedGames :: "string \<Rightarrow> PlayDb \<Rightarrow> nat" where
  "ratedGames p s = length (filter (\<lambda>i. case ratedPair s i of None \<Rightarrow> False | Some (w, b) \<Rightarrow> p \<in> {w, b}) [0..<pdNextId s])"

definition inQueues :: "string \<Rightarrow> MmState \<Rightarrow> nat" where
  "inQueues p s = card {bucket. queued bucket p s}"

definition finQueues :: "MmState \<Rightarrow> bool" where
  "finQueues s \<longleftrightarrow> finite {bucket. mmQueue s bucket \<noteq> []}"

definition metaOk :: "'c PlayEnv \<Rightarrow> string \<Rightarrow> QueueMeta \<Rightarrow> bool" where
  "metaOk env p m \<longleftrightarrow> pePlayerOfUser env (qmU m) = Some p"

fun mmTaskOk :: "'c PlayEnv \<Rightarrow> MmTask \<Rightarrow> bool" where
  "mmTaskOk env (EnterQueue bucket p meta) \<longleftrightarrow> metaOk env p meta"
| "mmTaskOk env (CreateMatched pool white black) \<longleftrightarrow> fst white \<noteq> fst black \<and>
     pePlayerOfUser env (snd white) = Some (fst white) \<and> pePlayerOfUser env (snd black) = Some (fst black)"

definition mmOk :: "'c PlayEnv \<Rightarrow> MmState \<Rightarrow> bool" where
  "mmOk env s \<longleftrightarrow> finQueues s \<and> (\<forall>bucket p m. mmMeta s bucket p = Some m \<longrightarrow> metaOk env p m) \<and>
     (\<forall>i w b. ratedPair (mmPlay s) i = Some (w, b) \<longrightarrow> w \<noteq> b)"

definition mmRunOk :: "'c PlayEnv \<Rightarrow> MmState list \<Rightarrow> MmTask list \<Rightarrow> string list \<Rightarrow> bool" where
  "mmRunOk env h ts js \<longleftrightarrow> (\<forall>s \<in> set h. mmOk env s) \<and> (\<forall>a \<in> set ts. mmTaskOk env a) \<and>
     (\<forall>p. ratedGames p (mmPlay (hd h)) + inTasks p ts + inQueues p (hd h) \<le> count_list js p)"

section \<open>Counting\<close>

lemma zInsert_fst: "fst ` set (zInsert x z) = insert (fst x) (fst ` set z)"
  by (induction z) auto

lemma zRem_fst: "fst ` set (zRem p z) = fst ` set z - {p}"
  by (auto simp: zRem_def)

lemma zAdd_fst: "fst ` set (zAdd p score z) = insert p (fst ` set z)"
  by (auto simp: zAdd_def zInsert_fst zRem_fst)

lemma finite_queued: "finQueues s \<Longrightarrow> finite {bucket. queued bucket p s}"
  unfolding finQueues_def by (erule finite_subset [rotated]) (auto simp: queued_def)

lemma inQueues_mono:
  assumes "finQueues s" "\<And>b. queued b p t \<Longrightarrow> queued b p s"
  shows "inQueues p t \<le> inQueues p s"
  unfolding inQueues_def by (rule card_mono [OF finite_queued [OF assms(1)]]) (use assms(2) in auto)

lemma inQueues_less:
  assumes "finQueues s" "\<And>b. queued b p t \<Longrightarrow> queued b p s" "queued bucket p s" "\<not> queued bucket p t"
  shows "Suc (inQueues p t) \<le> inQueues p s"
  unfolding inQueues_def Suc_le_eq by (rule psubset_card_mono [OF finite_queued [OF assms(1)]]) (use assms(2-4) in auto)

lemma inQueues_insert:
  assumes "finQueues s" "\<And>b. queued b p t \<Longrightarrow> b = bucket \<or> queued b p s"
  shows "inQueues p t \<le> Suc (inQueues p s)"
proof -
  have "card {b. queued b p t} \<le> card (insert bucket {b. queued b p s})"
    by (rule card_mono) (use finite_queued [OF assms(1)] assms(2) in auto)
  also have "\<dots> \<le> Suc (card {b. queued b p s})" by (rule card_insert_le_m1) simp_all
  finally show ?thesis by (simp add: inQueues_def)
qed

lemma inTasks_simps [simp]:
  "inTasks p [] = 0" "inTasks p (a # ts) = (if taskPlays p a then 1 else 0) + inTasks p ts"
  by (simp_all add: inTasks_def)

lemma inTasks_remove: "a \<in> set ts \<Longrightarrow> inTasks p ts = (if taskPlays p a then 1 else 0) + inTasks p (remove1 a ts)"
  by (induction ts) auto

lemma inTasks_remove_le: "inTasks p (remove1 a ts) \<le> inTasks p ts"
  by (induction ts) auto

lemma ratedGames_quiet:
  assumes "quietPlay s t"
  shows "ratedGames p t = ratedGames p s"
proof -
  obtain k where k: "pdNextId t = pdNextId s + k" using assms by (auto simp: quietPlay_def le_iff_add)
  have "ratedPair s i = None" if "pdNextId s \<le> i" for i using that by (simp add: ratedPair_def)
  then have "filter (\<lambda>i. case ratedPair s i of None \<Rightarrow> False | Some (w, b) \<Rightarrow> p \<in> {w, b}) [pdNextId s..<pdNextId s + k] = []"
    by (auto simp: filter_empty_conv)
  moreover have "ratedPair t = ratedPair s" using assms by (simp add: quietPlay_def)
  ultimately show ?thesis unfolding ratedGames_def k upt_add_eq_append [OF le0] filter_append by simp
qed

lemma createMatched_effect:
  assumes "createMatched pool white black now s = (r, t)"
  obtains (same) "t = s"
  | (made) p where "t = s\<lparr>mmPlay := p\<rparr>" "pdNextId p = Suc (pdNextId (mmPlay s))"
      "\<And>i. ratedPair p i = (if i = pdNextId (mmPlay s) then Some (fst white, fst black) else ratedPair (mmPlay s) i)"
proof (cases "createInput pool (fst white) (fst black)")
  case None
  then show ?thesis using assms same by (simp add: createMatched_def)
next
  case (Some input)
  have input: "cgIsRated input" "cgWhitePlayerId input = fst white" "cgBlackPlayerId input = fst black"
    using Some by (auto simp: createInput_def split: option.splits)
  obtain game p1 where g: "createGame input now (mmPlay s) = (Inr game, p1)" by (simp add: createGame_def bindS_def Let_def)
  have "frames tablesOf ((case orClockError (createClock (clockConfig (grGame game)) W now) of
      Inl e \<Rightarrow> throwS e | Inr st \<Rightarrow> bindS (initClock (grId game) st) (\<lambda>_. returnS game)) :: GameRow play)"
    by (auto simp: initClock_def tablesOf_def intro!: frame_intros split: sum.split)
  then have "tablesOf (snd (createGameWithClock input now (mmPlay s))) = tablesOf p1"
    by (simp add: createGameWithClock_def bindS_def g framesD)
  moreover obtain x p2 where c: "createGameWithClock input now (mmPlay s) = (x, p2)" by (rule prod.exhaust)
  moreover obtain p3 where "t = s\<lparr>mmPlay := p3\<rparr>" "tablesOf p3 = tablesOf p2"
    using assms Some c by (cases x) (auto simp: createMatched_def bindS_def inPlay_def emit_def tablesOf_def)
  ultimately have p3: "t = s\<lparr>mmPlay := p3\<rparr>" "tablesOf p3 = tablesOf p1" by simp_all
  have "quietPlay p1 p3" by (rule quiet_tablesOf [OF p3(2)])
  moreover have "pdNextId p3 = pdNextId p1" using p3(2) by (simp add: tablesOf_def)
  ultimately show ?thesis
    using made [OF p3(1)] createGame_roles [OF g] input by (simp add: quietPlay_def)
qed

lemma ratedGames_made:
  assumes "pdNextId t = Suc (pdNextId s)" "\<And>i. ratedPair t i = (if i = pdNextId s then Some (w, b) else ratedPair s i)"
  shows "ratedGames p t = ratedGames p s + (if p \<in> {w, b} then 1 else 0)"
proof -
  have "filter (\<lambda>i. case ratedPair t i of None \<Rightarrow> False | Some (w, b) \<Rightarrow> p \<in> {w, b}) [0..<pdNextId s] =
      filter (\<lambda>i. case ratedPair s i of None \<Rightarrow> False | Some (w, b) \<Rightarrow> p \<in> {w, b}) [0..<pdNextId s]"
    by (rule filter_cong) (use assms(2) in auto)
  then show ?thesis using assms by (simp add: ratedGames_def)
qed

section \<open>The invariant\<close>

lemma mmRunOkD:
  assumes "mmRunOk env (s # h) ts js"
  shows "mmOk env s" "finQueues s" "ratedGames p (mmPlay s) + inTasks p ts + inQueues p s \<le> count_list js p"
    "\<And>t. t \<in> set (s # h) \<Longrightarrow> mmOk env t" "\<And>a. a \<in> set ts \<Longrightarrow> mmTaskOk env a"
proof -
  show s: "mmOk env s" using assms by (simp add: mmRunOk_def)
  then show "finQueues s" by (simp add: mmOk_def)
  show "ratedGames p (mmPlay s) + inTasks p ts + inQueues p s \<le> count_list js p" using assms by (simp add: mmRunOk_def)
  show "mmOk env t" if "t \<in> set (s # h)" for t using assms that by (auto simp: mmRunOk_def)
  show "mmTaskOk env a" if "a \<in> set ts" for a using assms that by (auto simp: mmRunOk_def)
qed

lemma mmRunOk_step:
  assumes "mmRunOk env (s # h) ts js" "mmOk env t" "\<And>a. a \<in> set ts' \<Longrightarrow> a \<in> set ts \<or> mmTaskOk env a"
    "\<And>p. ratedGames p (mmPlay t) + inTasks p ts' + inQueues p t + count_list js p
        \<le> ratedGames p (mmPlay s) + inTasks p ts + inQueues p s + count_list js' p"
  shows "mmRunOk env (t # s # h) ts' js'"
proof -
  have "ratedGames p (mmPlay t) + inTasks p ts' + inQueues p t \<le> count_list js' p" for p
    using assms(4) [of p] mmRunOkD(3) [OF assms(1), of p] by linarith
  then show ?thesis using assms(1-3) unfolding mmRunOk_def by auto
qed

lemma mmOk_metas: "mmOk env s \<Longrightarrow> mmMeta s bucket p = Some m \<Longrightarrow> metaOk env p m"
  by (auto simp: mmOk_def)

lemma mmOk_step:
  assumes "mmOk env s" "mmPlay t = mmPlay s" "finQueues t"
    "\<And>b p m. mmMeta t b p = Some m \<Longrightarrow> mmMeta s b p = Some m \<or> metaOk env p m"
  shows "mmOk env t"
  using assms unfolding mmOk_def by metis

lemma finQueues_upd: "finQueues s \<Longrightarrow> mmQueue t = (mmQueue s)(bucket := z) \<Longrightarrow> finQueues t"
  unfolding finQueues_def by (rule finite_subset [of _ "insert bucket {b. mmQueue s b \<noteq> []}"]) auto

lemma colours_ok:
  assumes "colours a am b bm = (white, black)" "a \<noteq> b" "metaOk env a am" "metaOk env b bm"
  shows "mmTaskOk env (CreateMatched pool white black)" "taskPlays p (CreateMatched pool white black) \<longleftrightarrow> p = a \<or> p = b"
  using assms by (auto simp: colours_def metaOk_def split: if_splits)

lemma setMarker_True: "setMarker p bucket s = (Inr True, t) \<Longrightarrow> t = s\<lparr>mmMarker := (mmMarker s)(p := Some bucket)\<rparr>"
  by (auto simp: setMarker_def bindS_def split: if_splits)

lemma pairScript_True:
  assumes "pairScript bucket a b s = (Inr True, t)"
  shows "queued bucket a s" "queued bucket b s"
    "t = s\<lparr>mmQueue := (mmQueue s)(bucket := zRem b (zRem a (mmQueue s bucket))),
       mmMeta := (mmMeta s)(bucket := (mmMeta s bucket)(a := None, b := None)), mmMarker := (mmMarker s)(a := None, b := None)\<rparr>"
  using assms by (auto simp: pairScript_def bindS_def split: if_splits)

lemma pairScript_False: "pairScript bucket a b s = (r, t) \<Longrightarrow> r \<noteq> Inr True \<Longrightarrow> t = s \<and> r = Inr False"
  by (auto simp: pairScript_def bindS_def split: if_splits)

theorem mmRun_ok: "mmRun env h ts js \<Longrightarrow> mmRunOk env h ts js"
proof (induction rule: mmRun.induct)
  case starts
  have "mmOk env emptyMm" by (simp add: mmOk_def emptyMm_def finQueues_def noGames_def ratedPair_def)
  moreover have "inQueues p emptyMm = 0" "ratedGames p (mmPlay emptyMm) = 0" for p
    by (simp_all add: inQueues_def queued_def emptyMm_def ratedGames_def noGames_def)
  ultimately show ?case by (simp add: mmRunOk_def)
next
  case (marks s h ts js u pool me rating t now)
  note t = setMarker_True [OF marks(3)]
  have me: "pePlayerOfUser env u = Some me"
    using marks(2) by (auto simp: joinCheck_def Let_def split: if_splits option.splits)
  show ?case
  proof (rule mmRunOk_step [OF marks(4)])
    show "mmOk env t" by (rule mmOk_step [OF mmRunOkD(1) [OF marks(4)]]) (use mmRunOkD(2) [OF marks(4)] in \<open>auto simp: t finQueues_def\<close>)
    show "a \<in> set ts \<or> mmTaskOk env a" if "a \<in> set (EnterQueue (bucketKey pool) me \<lparr>qmU = u, qmT = now, qmR = rating\<rparr> # ts)" for a
      using that me by (auto simp: metaOk_def)
  qed (simp add: t inQueues_def queued_def)
next
  case (enters s h ts js bucket p meta t)
  have t: "t = s\<lparr>mmQueue := (mmQueue s)(bucket := zAdd p (qmR meta) (mmQueue s bucket)),
      mmMeta := (mmMeta s)(bucket := (mmMeta s bucket)(p := Some meta)), mmRegistry := List.insert bucket (mmRegistry s)\<rparr>"
    using enters(3) by (simp add: enterQueue_def)
  have meta: "metaOk env p meta" using mmRunOkD(5) [OF enters(4) enters(2)] by simp
  have q: "queued b r t \<longleftrightarrow> b = bucket \<and> r = p \<or> queued b r s" for b r by (auto simp: queued_def t zAdd_fst)
  show ?case
  proof (rule mmRunOk_step [OF enters(4)])
    show "mmOk env t"
      by (rule mmOk_step [OF mmRunOkD(1) [OF enters(4)]], simp add: t, rule finQueues_upd [OF mmRunOkD(2) [OF enters(4)]], simp add: t)
        (use meta in \<open>auto simp: t split: if_splits\<close>)
    show "a \<in> set ts \<or> mmTaskOk env a" if "a \<in> set (remove1 (EnterQueue bucket p meta) ts)" for a
      using that set_remove1_subset by fast
    fix r
    have "inQueues r t \<le> inQueues r s + (if p = r then 1 else 0)"
      using inQueues_insert [OF mmRunOkD(2) [OF enters(4)], of r t bucket] inQueues_mono [OF mmRunOkD(2) [OF enters(4)], of r t] q by auto
    moreover have "inTasks r ts = inTasks r (remove1 (EnterQueue bucket p meta) ts)" using inTasks_remove [OF enters(2)] by simp
    moreover have "mmPlay t = mmPlay s" by (simp add: t)
    ultimately show "ratedGames r (mmPlay t) + inTasks r (remove1 (EnterQueue bucket p meta) ts) + inQueues r t + count_list js r
        \<le> ratedGames r (mmPlay s) + inTasks r ts + inQueues r s + count_list (p # js) r"
      by (simp split: if_splits)
  qed
next
  case (leaves s h ts js s0 me bucket t)
  have t: "t = s\<lparr>mmQueue := (mmQueue s)(bucket := zRem me (mmQueue s bucket)),
      mmMeta := (mmMeta s)(bucket := (mmMeta s bucket)(me := None)), mmMarker := (mmMarker s)(me := None)\<rparr>"
    using leaves(4) by (simp add: leaveQueue_def)
  show ?case
  proof (rule mmRunOk_step [OF leaves(5)])
    show "mmOk env t"
      by (rule mmOk_step [OF mmRunOkD(1) [OF leaves(5)]], simp add: t, rule finQueues_upd [OF mmRunOkD(2) [OF leaves(5)]], simp add: t)
        (auto simp: t split: if_splits)
    fix r
    have "inQueues r t \<le> inQueues r s"
      by (rule inQueues_mono [OF mmRunOkD(2) [OF leaves(5)]]) (auto simp: queued_def t zRem_def split: if_splits)
    then show "ratedGames r (mmPlay t) + inTasks r ts + inQueues r t + count_list js r
        \<le> ratedGames r (mmPlay s) + inTasks r ts + inQueues r s + count_list js r" by (simp add: t)
  qed simp
next
  case (pairs s h ts js a b s1 bucket am s2 bm t white black pool)
  note t = pairScript_True [OF pairs(7)]
  have metas: "metaOk env a am" "metaOk env b bm"
    using mmOk_metas [OF mmRunOkD(4) [OF pairs(9) pairs(3)] pairs(4)] mmOk_metas [OF mmRunOkD(4) [OF pairs(9) pairs(5)] pairs(6)] by auto
  note col = colours_ok [OF pairs(8,2) metas]
  have q: "queued d r t \<longleftrightarrow> queued d r s \<and> \<not> (d = bucket \<and> (r = a \<or> r = b))" for d r
    by (auto simp: queued_def t(3) zRem_fst)
  show ?case
  proof (rule mmRunOk_step [OF pairs(9)])
    show "mmOk env t"
      by (rule mmOk_step [OF mmRunOkD(1) [OF pairs(9)]], simp add: t(3), rule finQueues_upd [OF mmRunOkD(2) [OF pairs(9)]], simp add: t(3))
        (auto simp: t(3) split: if_splits)
    show "x \<in> set ts \<or> mmTaskOk env x" if "x \<in> set (CreateMatched pool white black # ts)" for x
      using that col(1) by auto
    fix r
    have "inQueues r t + (if r = a \<or> r = b then 1 else 0) \<le> inQueues r s"
      using inQueues_less [OF mmRunOkD(2) [OF pairs(9)], of r t bucket] inQueues_mono [OF mmRunOkD(2) [OF pairs(9)], of r t] q t(1,2) by auto
    then show "ratedGames r (mmPlay t) + inTasks r (CreateMatched pool white black # ts) + inQueues r t + count_list js r
        \<le> ratedGames r (mmPlay s) + inTasks r ts + inQueues r s + count_list js r"
      using col(2) [of r] by (simp add: t(3))
  qed
next
  case (creates s h ts js pool white black now r t)
  note ok = creates(4) and rm = inTasks_remove [OF creates(2)]
  have task: "fst white \<noteq> fst black" using mmRunOkD(5) [OF ok creates(2)] by simp
  show ?case
  proof (rule mmRunOk_step [OF ok])
    show "a \<in> set ts \<or> mmTaskOk env a" if "a \<in> set (remove1 (CreateMatched pool white black) ts)" for a
      using that set_remove1_subset by fast
    show "mmOk env t"
      by (rule createMatched_effect [OF creates(3)]) (use mmRunOkD(1) [OF ok] task in \<open>auto simp: mmOk_def finQueues_def\<close>)
    fix p
    show "ratedGames p (mmPlay t) + inTasks p (remove1 (CreateMatched pool white black) ts) + inQueues p t + count_list js p
        \<le> ratedGames p (mmPlay s) + inTasks p ts + inQueues p s + count_list js p"
    proof (rule createMatched_effect [OF creates(3)])
      assume "t = s"
      then show ?thesis using rm [of p] by simp
    next
      fix q assume q: "t = s\<lparr>mmPlay := q\<rparr>" "pdNextId q = Suc (pdNextId (mmPlay s))"
        "\<And>i. ratedPair q i = (if i = pdNextId (mmPlay s) then Some (fst white, fst black) else ratedPair (mmPlay s) i)"
      have "inQueues p t = inQueues p s" by (simp add: inQueues_def queued_def q(1))
      then show ?thesis using rm [of p] ratedGames_made [OF q(2,3), of p] q(1) by simp
    qed
  qed
next
  case (stops h ts js a)
  have "mmTaskOk env x" if "x \<in> set (remove1 a ts)" for x
    using that set_remove1_subset [of a ts] stops.IH by (auto simp: mmRunOk_def)
  moreover have "ratedGames p (mmPlay (hd h)) + inTasks p (remove1 a ts) + inQueues p (hd h) \<le> count_list js p" for p
    using inTasks_remove_le [of p a ts] stops.IH unfolding mmRunOk_def by (meson add_le_mono le_refl le_trans)
  ultimately show ?case using stops.IH by (simp add: mmRunOk_def)
next
  case (markerExpires s h ts js p)
  show ?case
  proof (rule mmRunOk_step [OF markerExpires(2)])
    show "mmOk env (s\<lparr>mmMarker := (mmMarker s)(p := None)\<rparr>)"
      by (rule mmOk_step [OF mmRunOkD(1) [OF markerExpires(2)]]) (use mmRunOkD(2) [OF markerExpires(2)] in \<open>auto simp: finQueues_def\<close>)
  qed (simp_all add: inQueues_def queued_def)
next
  case (queueExpires s h ts js bucket)
  let ?t = "s\<lparr>mmQueue := (mmQueue s)(bucket := []), mmMeta := (mmMeta s)(bucket := (\<lambda>_. None))\<rparr>"
  show ?case
  proof (rule mmRunOk_step [OF queueExpires(2)])
    show "mmOk env ?t"
      by (rule mmOk_step [OF mmRunOkD(1) [OF queueExpires(2)]], simp, rule finQueues_upd [OF mmRunOkD(2) [OF queueExpires(2)]], simp)
        (auto split: if_splits)
    fix r
    have "inQueues r ?t \<le> inQueues r s"
      by (rule inQueues_mono [OF mmRunOkD(2) [OF queueExpires(2)]]) (auto simp: queued_def split: if_splits)
    then show "ratedGames r (mmPlay ?t) + inTasks r ts + inQueues r ?t + count_list js r
        \<le> ratedGames r (mmPlay s) + inTasks r ts + inQueues r s + count_list js r" by simp
  qed simp
next
  case (registers s h ts js r)
  show ?case
  proof (rule mmRunOk_step [OF registers(2)])
    show "mmOk env (s\<lparr>mmRegistry := r\<rparr>)"
      by (rule mmOk_step [OF mmRunOkD(1) [OF registers(2)]]) (use mmRunOkD(2) [OF registers(2)] in \<open>auto simp: finQueues_def\<close>)
  qed (simp_all add: inQueues_def queued_def)
next
  case (plays s h ts js p)
  show ?case
  proof (rule mmRunOk_step [OF plays(3)])
    show "mmOk env (s\<lparr>mmPlay := p\<rparr>)"
      using mmRunOkD(1) [OF plays(3)] plays(2) by (simp add: mmOk_def finQueues_def quietPlay_def)
  qed (simp_all add: inQueues_def queued_def ratedGames_quiet [OF plays(2)])
qed

end
