(* ===== verification/MatchProps.thy ===== *)
theory MatchProps
  imports MatchRuns
begin

text \<open>
  The properties of matchmaking. The requests of the service and its sweep are runs
  (\<open>join_runs\<close>, \<open>leave_runs\<close>, \<open>sweep_runs\<close>), so what holds in every run holds however they interleave.
\<close>

section \<open>The requests are runs\<close>

text \<open>Some run goes on from the states \<open>h\<close>, the newest of which is \<open>t\<close> now.\<close>

definition runsOn :: "'c PlayEnv \<Rightarrow> MmState list \<Rightarrow> MmState \<Rightarrow> bool" where
  "runsOn env h t \<longleftrightarrow> (\<exists>h' ts js. mmRun env (t # h') ts js \<and> set h \<subseteq> set (t # h'))"

lemma runsOn_step: "mmRun env (t # h') ts js \<Longrightarrow> set h \<subseteq> set (t # h') \<Longrightarrow> runsOn env h t"
  unfolding runsOn_def by blast

lemma runsOn_refl: "mmRun env (s # h) ts js \<Longrightarrow> runsOn env (s # h) s"
  by (rule runsOn_step) auto

lemma runsOn_weaken: "runsOn env h t \<Longrightarrow> set h0 \<subseteq> set h \<Longrightarrow> runsOn env h0 t"
  unfolding runsOn_def by blast

lemma runsOnE:
  assumes "runsOn env h t"
  obtains h' ts js where "mmRun env (t # h') ts js" "set h \<subseteq> set (t # h')"
  using assms unfolding runsOn_def by blast

lemma pairAndCreate_runs:
  assumes run: "mmRun env (s # h) ts js" and ab: "a \<noteq> b" "s1 \<in> set (s # h)" "mmMeta s1 bucket a = Some am"
    "s2 \<in> set (s # h)" "mmMeta s2 bucket b = Some bm"
  shows "runsOn env (s # h) (snd (pairAndCreate pool bucket now a am b bm s))"
proof (cases "fst (pairScript bucket a b s) = Inr True")
  case True
  then obtain s' where script: "pairScript bucket a b s = (Inr True, s')" by (cases "pairScript bucket a b s") auto
  obtain white black where c: "colours a am b bm = (white, black)" by (rule prod.exhaust)
  obtain r t where m: "createMatched pool white black now s' = (r, t)" by (rule prod.exhaust)
  have "mmRun env (s' # s # h) (CreateMatched pool white black # ts) js" by (rule mmRun.pairs [OF run ab script c])
  from mmRun.creates [OF this _ m] have "mmRun env (t # s' # s # h) ts js" by simp
  moreover have "snd (pairAndCreate pool bucket now a am b bm s) = t"
    using script c m by (cases r) (simp_all add: pairAndCreate_def bindS_def)
  ultimately show ?thesis by (auto intro: runsOn_step)
next
  case False
  obtain r t where script: "pairScript bucket a b s = (r, t)" by (rule prod.exhaust)
  with False have "r = Inr False" "t = s" using pairScript_False [of bucket a b s r t] by auto
  then have "snd (pairAndCreate pool bucket now a am b bm s) = s" using script by (simp add: pairAndCreate_def bindS_def)
  then show ?thesis using runsOn_refl [OF run] by simp
qed

lemma tryCandidates_runs:
  assumes "mmRun env (s # h) ts js" "s0 \<in> set (s # h)" "mmMeta s0 bucket self = Some selfMeta"
  shows "runsOn env (s # h) (snd (tryCandidates pool bucket now self selfMeta cs s))"
  using assms
proof (induction cs arbitrary: s h ts js)
  case Nil
  then show ?case by (simp add: runsOn_refl)
next
  case (Cons c cs)
  note run = Cons.prems(1)
  show ?case
  proof (cases "c = self \<or> mmMeta s bucket c = None")
    case True
    then show ?thesis using Cons by (auto simp: bindS_def)
  next
    case False
    then obtain cm where cm: "c \<noteq> self" "mmMeta s bucket c = Some cm" by auto
    obtain r t where p: "pairAndCreate pool bucket now c cm self selfMeta s = (r, t)" by (rule prod.exhaust)
    have "runsOn env (s # h) t"
      using pairAndCreate_runs [OF run cm(1) _ cm(2) Cons.prems(2,3), where pool = pool and now = now] p by simp
    then obtain h' ts' js' where run': "mmRun env (t # h') ts' js'" "set (s # h) \<subseteq> set (t # h')" by (rule runsOnE)
    have rest: "runsOn env (s # h) (snd (tryCandidates pool bucket now self selfMeta cs t))"
      by (rule runsOn_weaken [OF Cons.IH [OF run'(1)] run'(2)]) (use Cons.prems(2,3) run'(2) in auto)
    have here: "runsOn env (s # h) t" by (rule runsOn_step [OF run'])
    show ?thesis
    proof (cases r)
      case (Inl e)
      then show ?thesis using cm p here by (simp add: bindS_def)
    next
      case (Inr g)
      then show ?thesis using cm p here rest by (cases g) (simp_all add: bindS_def)
    qed
  qed
qed

lemma join_runs:
  assumes "mmRun env (s # h) ts js"
  shows "runsOn env (s # h) (snd (join env u pool now s))"
proof (cases "joinCheck env u pool")
  case (Inl e)
  then show ?thesis using runsOn_refl [OF assms] by (simp add: join_def)
next
  case (Inr x)
  obtain me rating where x: "x = (me, rating)" by (rule prod.exhaust)
  show ?thesis
  proof (cases "mmMarker s me")
    case (Some b)
    then have "snd (join env u pool now s) = s" by (simp add: join_def Inr x setMarker_def bindS_def Let_def)
    then show ?thesis using runsOn_refl [OF assms] by simp
  next
    case None
    let ?b = "bucketKey pool" and ?m = "\<lparr>qmU = u, qmT = now, qmR = rating\<rparr>"
    obtain s1 where s1: "setMarker me ?b s = (Inr True, s1)" using None by (simp add: setMarker_def bindS_def)
    obtain s2 where s2: "enterQueue ?b me ?m s1 = (Inr (), s2)" by (simp add: enterQueue_def)
    have "mmRun env (s1 # s # h) (EnterQueue ?b me ?m # ts) js"
      by (rule mmRun.marks [OF assms _ s1]) (simp add: Inr x)
    from mmRun.enters [OF this _ s2] have run: "mmRun env (s2 # s1 # s # h) ts (me # js)" by simp
    have "mmMeta s2 ?b me = Some ?m" using s2 by (auto simp: enterQueue_def)
    from tryCandidates_runs [OF run _ this]
    have tried: "runsOn env (s2 # s1 # s # h) (snd (tryMatchFor pool ?b now me ?m s2))"
      by (simp add: tryMatchFor_def Let_def bindS_def)
    obtain r t where t: "tryMatchFor pool ?b now me ?m s2 = (r, t)" by (rule prod.exhaust)
    have "snd (join env u pool now s) = t"
      using s1 s2 t by (cases r) (auto simp: join_def Inr x bindS_def Let_def split: option.split)
    moreover have "runsOn env (s # h) (snd (tryMatchFor pool ?b now me ?m s2))" by (rule runsOn_weaken [OF tried]) auto
    ultimately show ?thesis using t by simp
  qed
qed

lemma leave_runs:
  assumes "mmRun env (s # h) ts js"
  shows "runsOn env (s # h) (snd (leave env u s))"
proof (cases "pePlayerOfUser env u")
  case (Some me)
  show ?thesis
  proof (cases "mmMarker s me")
    case (Some b)
    obtain t where t: "leaveQueue b me s = (Inr (), t)" by (simp add: leaveQueue_def)
    have "mmRun env (t # s # h) ts js" by (rule mmRun.leaves [OF assms _ Some t]) simp
    moreover have "snd (leave env u s) = t" using \<open>pePlayerOfUser env u = Some me\<close> Some t by (simp add: leave_def bindS_def)
    ultimately show ?thesis by (auto intro: runsOn_step)
  qed (use runsOn_refl [OF assms] \<open>pePlayerOfUser env u = Some me\<close> in \<open>simp add: leave_def bindS_def\<close>)
qed (use runsOn_refl [OF assms] in \<open>simp add: leave_def\<close>)

lemma sweepFrom_runs:
  assumes "i < j" "distinct (map wtPlayerId ws)" "mmRun env (s # h) ts js" "s0 \<in> set (s # h)" "set ws \<subseteq> set (waitingOf bucket s0)"
    and "sweepFrom cfg now (pairAtomically pool bucket now) ws i j s = Some (r, t)"
  shows "runsOn env (s # h) t"
  using assms
proof (induction ws i j arbitrary: s h ts js rule: sweep_induct [where cfg = cfg and now = now])
  case (finish ws i j)
  then show ?case using runsOn_refl [OF finish.prems(2)] by (simp add: sweep_done)
next
  case (further ws i j)
  show ?case by (rule further.IH [OF further.prems(1-4)]) (use further.prems(5) in \<open>simp add: sweep_further [OF further.hyps(1,2)]\<close>)
next
  case (skip ws i j)
  show ?case
    by (rule skip.IH [OF skip.prems(1-4)]) (use skip.prems(5) in \<open>simp add: sweep_skip [where cfg = cfg, OF skip.hyps(1,2,4)]\<close>)
next
  case (attempt ws i j)
  let ?a = "ws ! i" and ?b = "ws ! j"
  have mem: "?a \<in> set (waitingOf bucket s0)" "?b \<in> set (waitingOf bucket s0)" using attempt.hyps(1,2) attempt.prems(4) by auto
  then have metas: "mmMeta s0 bucket (wtPlayerId ?a) = Some (wtMeta ?a)" "mmMeta s0 bucket (wtPlayerId ?b) = Some (wtMeta ?b)"
    by (simp_all add: waitingOf_iff)
  have "wtPlayerId ?a \<noteq> wtPlayerId ?b"
    using nth_eq_iff_index_eq [OF attempt.prems(1), of i j] attempt.hyps(1-3) by simp
  note runs = pairAndCreate_runs [OF attempt.prems(2) this attempt.prems(3) metas(1) attempt.prems(3) metas(2), where pool = pool and now = now]
  obtain x s' where att: "pairAtomically pool bucket now ?a ?b s = (x, s')" by (rule prod.exhaust)
  have "s' = snd (pairAndCreate pool bucket now (wtPlayerId ?a) (wtMeta ?a) (wtPlayerId ?b) (wtMeta ?b) s)"
    using att by (auto simp: pairAtomically_def bindS_def split: prod.splits sum.splits)
  with runs have "runsOn env (s # h) s'" by simp
  then obtain h' ts' js' where run': "mmRun env (s' # h') ts' js'" "set (s # h) \<subseteq> set (s' # h')" by (rule runsOnE)
  have s0: "s0 \<in> set (s' # h')" using attempt.prems(3) run'(2) by blast
  note eq = sweep_attempt [where cfg = cfg and pair = "pairAtomically pool bucket now", OF attempt.hyps(1,2,4) att]
  have dist: "distinct ws" using attempt.prems(1) by (simp add: distinct_map)
  show ?case
  proof (cases x)
    case (Inl e)
    then show ?thesis using attempt.prems(5) eq runsOn_step [OF run'] by simp
  next
    case (Inr paired)
    show ?thesis
    proof (cases paired)
      case True
      have rest: "distinct (map wtPlayerId (remove i (remove j ws)))" "set (remove i (remove j ws)) \<subseteq> set ws"
        using attempt.prems(1) attempt.hyps(1-3) set_remove [OF dist attempt.hyps(2)] set_remove(1) [OF set_remove(2) [OF dist attempt.hyps(2)], of i]
        by (auto simp: map_remove set_remove(2) length_remove)
      show ?thesis
        by (rule runsOn_weaken [OF attempt.IH(1) [OF rest(1) run'(1) s0] run'(2)])
          (use rest(2) attempt.prems(4,5) eq Inr True in auto)
    next
      case False
      show ?thesis
        by (rule runsOn_weaken [OF attempt.IH(2) [OF attempt.prems(1) run'(1) s0 attempt.prems(4)] run'(2)])
          (use attempt.prems(5) eq Inr False in auto)
    qed
  qed
qed

lemma registry_runs: "mmRun env (s # h) ts js \<Longrightarrow> runsOn env (s # h) (s\<lparr>mmRegistry := r\<rparr>)"
  by (rule runsOn_step [OF mmRun.registers]) auto

lemma sweepBucket_runs:
  assumes run: "mmRun env (s # h) ts js" and queue: "distinct (map fst (mmQueue s bucket))"
    and "sweepBucket pool bucket now s = Some (r, t)"
  shows "runsOn env (s # h) t"
proof -
  let ?ws = "jsSort (\<lambda>a b. qmT (wtMeta a) - qmT (wtMeta b)) (waitingOf bucket s)"
  consider "t = s\<lparr>mmRegistry := removeAll bucket (mmRegistry s)\<rparr>" | "t = s"
    | "sweepFrom DEFAULT_MATCHMAKING_CONFIG now (pairAtomically pool bucket now) ?ws 0 1 s = Some (r, t)"
    using assms(3) by (auto simp: sweepBucket_def Let_def split: if_splits)
  then show ?thesis
  proof cases
    case 3
    show ?thesis
      by (rule sweepFrom_runs [OF zero_less_one _ run list.set_intros(1) _ 3]) (simp_all add: distinct_waitingOf [OF queue])
  qed (use run in \<open>simp_all add: registry_runs runsOn_refl\<close>)
qed

text \<open>A sorted set holds a member once.\<close>

definition zDistinct :: "MmState \<Rightarrow> bool" where
  "zDistinct s \<longleftrightarrow> (\<forall>bucket. distinct (map fst (mmQueue s bucket)))"

lemma distinct_zInsert: "distinct (map fst (zInsert x z)) \<longleftrightarrow> distinct (map fst (x # z))"
  by (induction z) (auto simp: zInsert_fst [unfolded image_set [symmetric]])

lemma distinct_zRem: "distinct (map fst z) \<Longrightarrow> distinct (map fst (zRem p z))"
  by (simp add: zRem_def distinct_map_filter)

lemma distinct_zAdd: "distinct (map fst z) \<Longrightarrow> distinct (map fst (zAdd p sc z))"
  using zRem_fst [of p z] distinct_zRem [of z p] by (simp add: zAdd_def distinct_zInsert)

lemma createMatched_queues: "createMatched pool white black now s = (r, t) \<Longrightarrow> mmQueue t = mmQueue s"
  by (erule createMatched_effect) simp_all

lemma run_zDistinct: "mmRun env h ts js \<Longrightarrow> zDistinct (hd h)"
proof (induction rule: mmRun.induct)
  case (marks s h ts js u pool me rating t now)
  then show ?case by (simp add: zDistinct_def setMarker_True [OF marks(3)])
next
  case (enters s h ts js bucket p meta t)
  then show ?case by (auto simp: zDistinct_def enterQueue_def distinct_zAdd)
next
  case (leaves s h ts js s0 me bucket t)
  then show ?case by (auto simp: zDistinct_def leaveQueue_def distinct_zRem)
next
  case (pairs s h ts js a b s1 bucket am s2 bm t white black pool)
  then show ?case by (simp add: zDistinct_def pairScript_True(3) [OF pairs(7)] distinct_zRem)
next
  case (creates s h ts js pool white black now r t)
  then show ?case by (simp add: zDistinct_def createMatched_queues [OF creates(3)])
qed (simp_all add: zDistinct_def emptyMm_def)

lemma sweepBuckets_runs:
  assumes "mmRun env (s # h) ts js" "sweepBuckets now buckets s = Some (r, t)"
  shows "runsOn env (s # h) t"
  using assms
proof (induction buckets arbitrary: s h ts js)
  case Nil
  then show ?case by (simp add: runsOn_refl)
next
  case (Cons bucket buckets)
  have go: "runsOn env (s # h) t" if on: "runsOn env (s # h) s'" and rest: "sweepBuckets now buckets s' = Some (r, t)" for s'
  proof -
    obtain h' ts' js' where run': "mmRun env (s' # h') ts' js'" "set (s # h) \<subseteq> set (s' # h')" by (rule runsOnE [OF on])
    show ?thesis by (rule runsOn_weaken [OF Cons.IH [OF run'(1) rest] run'(2)])
  qed
  show ?case
  proof (cases "parseBucketKey bucket")
    case None
    then show ?thesis using go [OF registry_runs [OF Cons.prems(1)]] Cons.prems(2) by simp
  next
    case (Some pool)
    obtain x s' where b: "sweepBucket pool bucket now s = Some (x, s')" using sweepBucket_returns by blast
    have "zDistinct s" using run_zDistinct [OF Cons.prems(1)] by simp
    then have here: "runsOn env (s # h) s'" by (intro sweepBucket_runs [OF Cons.prems(1) _ b]) (simp add: zDistinct_def)
    show ?thesis using Cons.prems(2) Some b here go [OF here] by (cases x) simp_all
  qed
qed

lemma sweep_runs:
  assumes "mmRun env (s # h) ts js" "sweep now s = Some t"
  shows "runsOn env (s # h) t"
  using assms(2) sweepBuckets_runs [OF assms(1)] by (auto simp: sweep_def)

section \<open>Properties\<close>

text \<open>
  C20. One entry, one game. However joining, leaving, sweeping and expiring interleave, the rated games a player is in
  and the queues he stands in are together no more than the times he entered a queue; nobody is
  paired with himself.
\<close>

theorem rated_games_per_join:
  assumes "mmRun env (s # h) ts js"
  shows "ratedGames p (mmPlay s) + inQueues p s \<le> count_list js p \<and>
    list_all (\<lambda>i. case ratedPair (mmPlay s) i of None \<Rightarrow> True | Some (w, b) \<Rightarrow> w \<noteq> b) [0..<pdNextId (mmPlay s)]"
proof -
  note ok = mmRun_ok [OF assms]
  have "ratedGames p (mmPlay s) + inQueues p s \<le> count_list js p" using mmRunOkD(3) [OF ok, of p] by linarith
  then show ?thesis using mmRunOkD(1) [OF ok] by (auto simp: mmOk_def list_all_iff split: option.split)
qed

text \<open>A sample: two players who look for a game of one minute.\<close>

definition mmEnv :: "string PlayEnv" where
  "mmEnv = \<lparr>peChess = shuffleChess, pePlayerOfUser = (\<lambda>u. if u = ''uw'' then Some ''w'' else if u = ''ub'' then Some ''b'' else None),
     peFindPlayer = (\<lambda>_. None), peSummary = (\<lambda>_. None), peRating = (\<lambda>_ _. None)\<rparr>"

definition bulletPool :: PoolId where
  "bulletPool = \<lparr>plTimeCategory = ''BULLET'', plClockType = ''SUDDEN_DEATH'', plBaseTimeSeconds = 60, plIncrementSeconds = 0\<rparr>"

definition firstIn :: MmState where
  "firstIn = snd (join mmEnv ''uw'' bulletPool 0 emptyMm)"

definition bothIn :: MmState where
  "bothIn = snd (join mmEnv ''ub'' bulletPool 4000 firstIn)"

lemma rated_games_per_join_witness:
  "\<exists>h ts js. mmRun mmEnv (bothIn # h) ts js \<and> ratedGames ''w'' (mmPlay bothIn) = 1 \<and> inQueues ''w'' bothIn < count_list js ''w''"
proof -
  have "runsOn mmEnv [emptyMm] firstIn" unfolding firstIn_def by (rule join_runs [OF mmRun.starts])
  then obtain h ts js where "mmRun mmEnv (firstIn # h) ts js" by (rule runsOnE)
  then have "runsOn mmEnv (firstIn # h) bothIn" unfolding bothIn_def by (rule join_runs)
  then obtain h' ts' js' where run: "mmRun mmEnv (bothIn # h') ts' js'" by (rule runsOnE)
  have one: "ratedGames ''w'' (mmPlay bothIn) = 1" by code_simp
  have "ratedGames ''w'' (mmPlay bothIn) + inQueues ''w'' bothIn \<le> count_list js' ''w''" using rated_games_per_join [OF run] by simp
  then have "inQueues ''w'' bothIn < count_list js' ''w''" using one by simp
  then show ?thesis using run one by blast
qed

text \<open>
  C21. The sweep ends. Its loops over a list that they shorten return whatever the attempts at pairing
  answer and whatever they do to the queues in the meantime, after at most one attempt for each pair of
  players; and so does the sweep of all queues.
\<close>

theorem sweep_terminates:
  "(\<exists>t. sweep now s = Some t) \<and>
   (\<exists>r t k. sweepFrom cfg now (counting pair) ws 0 1 (x, 0) = Some (r, (t, k)) \<and> 2 * k \<le> length ws * (length ws - 1))"
proof
  show "\<exists>t. sweep now s = Some t" using sweepBuckets_returns [of now "mmRegistry s" s] by (auto simp: sweep_def)
  obtain r t k where k: "sweepFrom cfg now (counting pair) ws 0 1 (x, 0) = Some (r, (t, k))"
    "k \<le> 0 + (length ws - 1) + pairsAmong (length ws - Suc 0)"
    using sweepFrom_counted [OF zero_less_one, of cfg now pair ws x 0] by blast
  then have "2 * k \<le> 2 * pairsAmong (length ws)" using pairsAmong_pred [of "length ws"] by simp
  then show "\<exists>r t k. sweepFrom cfg now (counting pair) ws 0 1 (x, 0) = Some (r, (t, k)) \<and> 2 * k \<le> length ws * (length ws - 1)"
    using k(1) by (auto simp: pairsAmong_eq)
qed

text \<open>
  C22. A sweep that nothing disturbs leaves nobody waiting who fits: the key of a queue is read back as the pool it was
  made of, every attempt succeeds, and of any two players who still wait in the queue the ratings
  differ by more than the wider of their two windows.
\<close>

theorem sweep_leaves_no_pair:
  assumes "matchmakingDtoOk pool" "distinct (map fst (mmQueue s (bucketKey pool)))"
  shows "parseBucketKey (bucketKey pool) = Some pool \<and>
    (\<exists>t. sweepBucket pool (bucketKey pool) now s = Some (Inr (), t) \<and>
      list_all (\<lambda>(a, b). a = b \<or> of_int (windowOf DEFAULT_MATCHMAKING_CONFIG now a b) < \<bar>wtRating a - wtRating b\<bar>)
        (List.product (waitingOf (bucketKey pool) t) (waitingOf (bucketKey pool) t)))"
proof
  show "parseBucketKey (bucketKey pool) = Some pool" by (rule parse_joined [OF assms(1)])
  let ?b = "bucketKey pool"
  have "\<exists>t. sweepBucket pool ?b now s = Some (Inr (), t) \<and>
      (\<forall>x \<in> set (waitingOf ?b t). \<forall>y \<in> set (waitingOf ?b t). x \<noteq> y \<longrightarrow> apart DEFAULT_MATCHMAKING_CONFIG now x y)"
  proof (cases "length (mmQueue s ?b) < 2")
    case True
    have "x = y" if "x \<in> set (waitingOf ?b t)" "y \<in> set (waitingOf ?b t)" "mmQueue t ?b = mmQueue s ?b" for x y t
      using that True by (cases "mmQueue s ?b"; cases "tl (mmQueue s ?b)") (auto simp: waitingOf_iff)
    moreover have "sweepBucket pool ?b now s =
        Some (Inr (), if mmQueue s ?b = [] then s\<lparr>mmRegistry := removeAll ?b (mmRegistry s)\<rparr> else s)"
      using True by (simp add: sweepBucket_def Let_def)
    moreover have "mmQueue (if mmQueue s ?b = [] then s\<lparr>mmRegistry := removeAll ?b (mmRegistry s)\<rparr> else s) ?b = mmQueue s ?b" by simp
    ultimately show ?thesis by blast
  next
    case False
    let ?ws = "jsSort (\<lambda>a b. qmT (wtMeta a) - qmT (wtMeta b)) (waitingOf ?b s)"
    have "\<exists>t. sweepFrom DEFAULT_MATCHMAKING_CONFIG now (pairAtomically pool ?b now) ?ws 0 1 s = Some (Inr (), t) \<and>
        (\<forall>x \<in> set (waitingOf ?b t). \<forall>y \<in> set (waitingOf ?b t). x \<noteq> y \<longrightarrow> apart DEFAULT_MATCHMAKING_CONFIG now x y)"
      by (rule sweepFrom_exhausts [OF assms(1)]) (simp_all add: distinct_waitingOf [OF assms(2)] compared_def)
    moreover have "mmQueue s ?b \<noteq> []" using False by auto
    ultimately show ?thesis using False by (simp add: sweepBucket_def Let_def)
  qed
  then show "\<exists>t. sweepBucket pool ?b now s = Some (Inr (), t) \<and>
      list_all (\<lambda>(a, b). a = b \<or> of_int (windowOf DEFAULT_MATCHMAKING_CONFIG now a b) < \<bar>wtRating a - wtRating b\<bar>)
        (List.product (waitingOf ?b t) (waitingOf ?b t))"
    by (auto simp: list_all_iff apart_def)
qed

text \<open>Two players who wait side by side, neither of whose joins came to its first attempt.\<close>

definition sideBySide :: MmState where
  "sideBySide = snd (enterQueue (bucketKey bulletPool) ''b'' \<lparr>qmU = ''ub'', qmT = 10, qmR = 1500\<rparr>
     (snd (enterQueue (bucketKey bulletPool) ''w'' \<lparr>qmU = ''uw'', qmT = 0, qmR = 1650\<rparr> emptyMm)))"

lemma sweep_leaves_no_pair_witness:
  "map fst (mmQueue sideBySide (bucketKey bulletPool)) = [''b'', ''w''] \<and>
   (\<exists>t. sweepBucket bulletPool (bucketKey bulletPool) 5000 sideBySide = Some (Inr (), t) \<and>
      list_all (\<lambda>(a, b). a = b \<or> of_int (windowOf DEFAULT_MATCHMAKING_CONFIG 5000 a b) < \<bar>wtRating a - wtRating b\<bar>)
        (List.product (waitingOf (bucketKey bulletPool) t) (waitingOf (bucketKey bulletPool) t)))"
proof
  show q: "map fst (mmQueue sideBySide (bucketKey bulletPool)) = [''b'', ''w'']" by code_simp
  have "matchmakingDtoOk bulletPool" by code_simp
  then show "\<exists>t. sweepBucket bulletPool (bucketKey bulletPool) 5000 sideBySide = Some (Inr (), t) \<and>
      list_all (\<lambda>(a, b). a = b \<or> of_int (windowOf DEFAULT_MATCHMAKING_CONFIG 5000 a b) < \<bar>wtRating a - wtRating b\<bar>)
        (List.product (waitingOf (bucketKey bulletPool) t) (waitingOf (bucketKey bulletPool) t))"
    using sweep_leaves_no_pair [of bulletPool sideBySide 5000] q by simp
qed

text \<open>
  C23. A player who has left is paired. \<^verbatim>\<open>join\<close> sets the marker before the entry is made, and
  \<^verbatim>\<open>leave\<close> trusts the marker: when a player leaves between the two, he is told that he has left and the
  marker goes, but then the entry is made. He stands in the queue without a marker: leaving again
  is answered with no, and the next player who comes is paired with him in a rated game.
\<close>

theorem left_player_is_paired:
  "\<exists>s1 s2 s3 h meta. mmRun mmEnv (s1 # h) [EnterQueue (bucketKey bulletPool) ''w'' meta] [] \<and> leave mmEnv ''uw'' s1 = (Inr True, s2) \<and>
     mmRun mmEnv (s3 # s2 # s1 # h) [] [''w''] \<and> leave mmEnv ''uw'' s3 = (Inr False, s3) \<and>
     (case join mmEnv ''ub'' bulletPool 9000 s3 of
        (Inr (Matched gid), t) \<Rightarrow> map_option gmWhitePlayerId (pdGames (mmPlay t) gid) = Some ''w'' \<and>
          map_option gmIsRated (pdGames (mmPlay t) gid) = Some True
      | _ \<Rightarrow> False)"
proof -
  let ?b = "bucketKey bulletPool" and ?m = "\<lparr>qmU = ''uw'', qmT = 0, qmR = 1500\<rparr>"
  define s1 where "s1 = snd (setMarker ''w'' ?b emptyMm)"
  define s2 where "s2 = snd (leaveQueue ?b ''w'' s1)"
  define s3 where "s3 = snd (enterQueue ?b ''w'' ?m s2)"
  have check: "joinCheck mmEnv ''uw'' bulletPool = Inr (''w'', 1500)" by code_simp
  have marked: "setMarker ''w'' ?b emptyMm = (Inr True, s1)" by (simp add: s1_def setMarker_def bindS_def emptyMm_def)
  have run1: "mmRun mmEnv [s1, emptyMm] [EnterQueue ?b ''w'' ?m] []" by (rule mmRun.marks [OF mmRun.starts check marked])
  have marker: "mmMarker s1 ''w'' = Some ?b" by (simp add: s1_def setMarker_def bindS_def emptyMm_def)
  have away: "leaveQueue ?b ''w'' s1 = (Inr (), s2)" by (simp add: s2_def leaveQueue_def)
  have left: "leave mmEnv ''uw'' s1 = (Inr True, s2)" using marker away by (simp add: leave_def mmEnv_def bindS_def)
  have run2: "mmRun mmEnv [s2, s1, emptyMm] [EnterQueue ?b ''w'' ?m] []" by (rule mmRun.leaves [OF run1 _ marker away]) simp
  have entered: "enterQueue ?b ''w'' ?m s2 = (Inr (), s3)" by (simp add: s3_def enterQueue_def)
  have run3: "mmRun mmEnv [s3, s2, s1, emptyMm] [] [''w'']" using mmRun.enters [OF run2 _ entered] by simp
  have "mmMarker s3 ''w'' = None" by (simp add: s3_def enterQueue_def s2_def leaveQueue_def)
  then have again: "leave mmEnv ''uw'' s3 = (Inr False, s3)" by (simp add: leave_def mmEnv_def bindS_def)
  have matched: "case join mmEnv ''ub'' bulletPool 9000 s3 of
        (Inr (Matched gid), t) \<Rightarrow> map_option gmWhitePlayerId (pdGames (mmPlay t) gid) = Some ''w'' \<and>
          map_option gmIsRated (pdGames (mmPlay t) gid) = Some True
      | _ \<Rightarrow> False"
    unfolding s3_def s2_def s1_def by code_simp
  show ?thesis by (intro exI conjI) (rule run1, rule left, rule run3, rule again, rule matched)
qed

end
