(* ===== verification/PlayGateway.thy ===== *)
theory PlayGateway
  imports PlayService
begin

text \<open>
  \<^verbatim>\<open>src/modules/play/play.gateway.ts\<close> with the timers of \<^verbatim>\<open>game-timers.ts\<close>: the sockets of one
  instance, who plays which game on which socket, and the handlers of the events. A handler is a
  function on the state of the instance and of the play service below it. Where a handler waits
  between two of its effects the parts have definitions of their own, which \<open>GatewayProps\<close>
  interleaves. What is sent is kept in order; the texts that go with error codes are left out.
\<close>

section \<open>Payloads\<close>

text \<open>What a client sends: an unchecked value, of which strings and fields matter.\<close>

datatype JsonValue = JString string | JObject "string \<Rightarrow> JsonValue option" | JOther

definition stringField :: "string \<Rightarrow> JsonValue \<Rightarrow> string option" where
  "stringField key payload =
     (case payload of JObject f \<Rightarrow> (case f key of Some (JString t) \<Rightarrow> Some t | _ \<Rightarrow> None) | _ \<Rightarrow> None)"

definition gameRef :: "JsonValue \<Rightarrow> string option" where
  "gameRef payload = (case stringField ''gameId'' payload of None \<Rightarrow> None | Some t \<Rightarrow> if t = [] then None else Some t)"

definition isSquare :: "string \<Rightarrow> bool" where
  "isSquare t \<longleftrightarrow> length t = 2 \<and> t ! 0 \<in> set ''abcdefgh'' \<and> t ! 1 \<in> set ''12345678''"

definition squareField :: "string \<Rightarrow> JsonValue \<Rightarrow> string option" where
  "squareField key payload = (case stringField key payload of None \<Rightarrow> None | Some t \<Rightarrow> if isSquare t then Some t else None)"

definition moveIntent :: "JsonValue \<Rightarrow> (string \<times> string) option" where
  "moveIntent payload =
     (case (gameRef payload, squareField ''from'' payload, squareField ''to'' payload) of
        (Some gid, Some src, Some dst) \<Rightarrow>
          let promotion = (case stringField ''promotion'' payload of
                None \<Rightarrow> '''' | Some t \<Rightarrow> if length t = 1 \<and> set t \<subseteq> set ''qrbn'' then t else '''')
          in Some (gid, src @ dst @ promotion)
      | _ \<Rightarrow> None)"

section \<open>The instance\<close>

datatype WsMessage =
    MoveMadeMsg MoveMade
  | EndedMsg GameEnded
  | DrawOfferedMsg string ClockSide
  | ClockUpdateMsg string ClockPayload
  | OpponentGoneMsg string ClockSide int
  | OpponentBackMsg string ClockSide
  | MatchedMsg string
  | ErrorMsg GameErrorCode

text \<open>Rooms are those of \<^verbatim>\<open>roomOf\<close>; \<open>RoomBut\<close> leaves the sending socket out.\<close>

datatype Audience = Room string | RoomBut string string | Socket string | Users string string

text \<open>
  A timer handle is the time at which it fires. \<open>gwSocketsByGame\<close> and \<open>gwGamesBySocket\<close> are the two
  registers of players; \<open>gwUser\<close> and \<open>gwCounted\<close> are \<^verbatim>\<open>socket.data\<close>.
\<close>

record GwState =
  gwPlay :: PlayDb
  gwUser :: "string \<Rightarrow> string option"
  gwCounted :: "string \<Rightarrow> bool"
  gwConnections :: int
  gwWindows :: "string \<Rightarrow> (int \<times> nat) option"
  gwGamesBySocket :: "string \<Rightarrow> (string \<times> ClockSide) list option"
  gwSocketsByGame :: "string \<Rightarrow> (ClockSide \<Rightarrow> string list) option"
  gwRooms :: "(string \<times> string) list"
  gwFlags :: "string \<Rightarrow> int option"
  gwTicks :: "string \<Rightarrow> bool"
  gwGraces :: "string \<Rightarrow> ClockSide \<Rightarrow> int option"
  gwSent :: "(Audience \<times> WsMessage) list"

type_synonym 'a gw = "(PlayFailure, GwState, 'a) action"

definition onPlay :: "'a play \<Rightarrow> 'a gw" where
  "onPlay m = (\<lambda>s. case m (gwPlay s) of (r, t) \<Rightarrow> (r, s\<lparr>gwPlay := t\<rparr>))"

definition send :: "Audience \<Rightarrow> WsMessage \<Rightarrow> unit gw" where
  "send to m = putS (\<lambda>s. s\<lparr>gwSent := gwSent s @ [(to, m)]\<rparr>)"

section \<open>Timers\<close>

definition CLOCK_TICK_INTERVAL_MS :: int where
  "CLOCK_TICK_INTERVAL_MS = 5000"

definition clearFlag :: "string \<Rightarrow> unit gw" where
  "clearFlag gid = putS (\<lambda>s. s\<lparr>gwFlags := (gwFlags s)(gid := None)\<rparr>)"

definition scheduleFlag :: "string \<Rightarrow> int \<Rightarrow> int \<Rightarrow> unit gw" where
  "scheduleFlag gid now delayMs =
     bindS (clearFlag gid) (\<lambda>_. putS (\<lambda>s. s\<lparr>gwFlags := (gwFlags s)(gid := Some (now + delayMs))\<rparr>))"

definition startTick :: "string \<Rightarrow> unit gw" where
  "startTick gid = putS (\<lambda>s. if gwTicks s gid then s else s\<lparr>gwTicks := (gwTicks s)(gid := True)\<rparr>)"

definition stopTick :: "string \<Rightarrow> unit gw" where
  "stopTick gid = putS (\<lambda>s. s\<lparr>gwTicks := (gwTicks s)(gid := False)\<rparr>)"

definition clearGrace :: "string \<Rightarrow> ClockSide \<Rightarrow> bool gw" where
  "clearGrace gid side =
     bindS (getS (\<lambda>s. gwGraces s gid side)) (\<lambda>handle.
     if handle = None then returnS False
     else bindS (putS (\<lambda>s. s\<lparr>gwGraces := (gwGraces s)(gid := (gwGraces s gid)(side := None))\<rparr>)) (\<lambda>_. returnS True))"

definition scheduleGrace :: "string \<Rightarrow> ClockSide \<Rightarrow> int \<Rightarrow> int \<Rightarrow> unit gw" where
  "scheduleGrace gid side now delayMs =
     bindS (clearGrace gid side) (\<lambda>_.
     putS (\<lambda>s. s\<lparr>gwGraces := (gwGraces s)(gid := (gwGraces s gid)(side := Some (now + delayMs)))\<rparr>))"

definition clearGame :: "string \<Rightarrow> unit gw" where
  "clearGame gid =
     bindS (clearFlag gid) (\<lambda>_. bindS (stopTick gid) (\<lambda>_. bindS (clearGrace gid W) (\<lambda>_. bindS (clearGrace gid B) (\<lambda>_. returnS ()))))"

definition moduleDestroy :: "unit gw" where
  "moduleDestroy = putS (\<lambda>s. s\<lparr>gwFlags := (\<lambda>_. None), gwTicks := (\<lambda>_. False), gwGraces := (\<lambda>_ _. None)\<rparr>)"

section \<open>Acknowledgements\<close>

datatype 'a Ack = AckOk 'a | AckError GameErrorCode "string option"

definition toAckError :: "PlayFailure DomainError \<Rightarrow> GameErrorCode" where
  "toAckError e =
     (case e of
        NotFoundError _ \<Rightarrow> GAME_NOT_ACTIVE
      | BusinessRuleError code \<Rightarrow>
          if code = ''GAME_NOT_ACTIVE'' then GAME_NOT_ACTIVE
          else if code = ''NO_DRAW_OFFER'' then NO_DRAW_OFFER
          else if code = ''ABORT_WINDOW_CLOSED'' then ABORT_WINDOW_CLOSED
          else if code = ''PLAYER_PROFILE_REQUIRED'' then NOT_A_PLAYER
          else INTERNAL
      | _ \<Rightarrow> INTERNAL)"

text \<open>\<^verbatim>\<open>try\<close> with \<^verbatim>\<open>catch (e) { return this.toAckError(e) }\<close>.\<close>

definition acked :: "'a Ack gw \<Rightarrow> 'a Ack gw" where
  "acked m = (\<lambda>s. case m s of (Inl e, t) \<Rightarrow> (Inr (AckError (toAckError e) None), t) | (Inr a, t) \<Rightarrow> (Inr a, t))"

text \<open>A handler whose errors are only logged.\<close>

definition swallowed :: "unit gw \<Rightarrow> unit gw" where
  "swallowed m = (\<lambda>s. (Inr (), snd (m s)))"

section \<open>The end of a game\<close>

text \<open>The one way out: everybody is told, the timers go, the registers forget the game.\<close>

definition forgetGame :: "string \<Rightarrow> unit gw" where
  "forgetGame gid =
     putS (\<lambda>s. case gwSocketsByGame s gid of
        None \<Rightarrow> s
      | Some sides \<Rightarrow>
          s\<lparr>gwGamesBySocket := (\<lambda>k. if k \<in> set (sides W) \<union> set (sides B)
               then map_option (filter (\<lambda>e. fst e \<noteq> gid)) (gwGamesBySocket s k) else gwGamesBySocket s k),
            gwSocketsByGame := (gwSocketsByGame s)(gid := None)\<rparr>)"

definition announceEnd :: "string \<Rightarrow> GameEnded \<Rightarrow> unit gw" where
  "announceEnd gid ended =
     bindS (send (Room gid) (EndedMsg ended)) (\<lambda>_. bindS (clearGame gid) (\<lambda>_. forgetGame gid))"

definition notifyGameSwept :: "string \<Rightarrow> GameEnded \<Rightarrow> unit gw" where
  "notifyGameSwept gid ended = bindS (clearGame gid) (\<lambda>_. send (Room gid) (EndedMsg ended))"

definition notifyMatched :: "string \<Rightarrow> string \<Rightarrow> string \<Rightarrow> unit gw" where
  "notifyMatched gid whiteUserId blackUserId = send (Users whiteUserId blackUserId) (MatchedMsg gid)"

section \<open>Clock timers\<close>

definition armClockTimers :: "string \<Rightarrow> ClockPayload \<Rightarrow> int \<Rightarrow> unit gw" where
  "armClockTimers gid clock now =
     bindS (case flagDelayMs clock of None \<Rightarrow> returnS () | Some delay \<Rightarrow> scheduleFlag gid now delay) (\<lambda>_. startTick gid)"

definition onFlagTimer :: "'c PlayEnv \<Rightarrow> string \<Rightarrow> int \<Rightarrow> unit gw" where
  "onFlagTimer env gid now =
     bindS (onPlay (checkFlag env gid now)) (\<lambda>res. case res of
       FlagEnded e \<Rightarrow> announceEnd gid e
     | FlagWait ms \<Rightarrow> scheduleFlag gid now (ms + FLAG_EPSILON_MS)
     | FlagStop \<Rightarrow> clearGame gid)"

definition onClockTick :: "string \<Rightarrow> int \<Rightarrow> unit gw" where
  "onClockTick gid now =
     bindS (getS (\<lambda>s. liveClockPayload gid now (gwPlay s))) (\<lambda>r. case r of
       Inl e \<Rightarrow> throwS e
     | Inr None \<Rightarrow> stopTick gid
     | Inr (Some clock) \<Rightarrow> send (Room gid) (ClockUpdateMsg gid clock))"

section \<open>Coming and going\<close>

definition trackWsConnections :: "int \<Rightarrow> unit gw" where
  "trackWsConnections delta = putS (\<lambda>s. s\<lparr>gwConnections := max 0 (gwConnections s + delta)\<rparr>)"

text \<open>
  \<open>verify\<close> is \<^verbatim>\<open>jwt.verifyAsync\<close>: the subject of a valid token. The socket of a bad one is told and
  closed, which comes back as \<^verbatim>\<open>handleDisconnect\<close>.
\<close>

definition handleConnection :: "(string \<Rightarrow> string option) \<Rightarrow> string \<Rightarrow> string option \<Rightarrow> unit gw" where
  "handleConnection verify sock token =
     bindS (putS (\<lambda>s. s\<lparr>gwCounted := (gwCounted s)(sock := True)\<rparr>)) (\<lambda>_.
     bindS (trackWsConnections 1) (\<lambda>_.
     case token of
       None \<Rightarrow> returnS ()
     | Some t \<Rightarrow> (case verify t of
         None \<Rightarrow> send (Socket sock) (ErrorMsg TOKEN_EXPIRED)
       | Some sub \<Rightarrow> putS (\<lambda>s. s\<lparr>gwUser := (gwUser s)(sock := Some sub), gwRooms := (sock, ''user:'' @ sub) # gwRooms s\<rparr>))))"

text \<open>\<^verbatim>\<open>Map.set\<close> keeps the place of a key.\<close>

fun mapSet :: "'k \<Rightarrow> 'v \<Rightarrow> ('k \<times> 'v) list \<Rightarrow> ('k \<times> 'v) list" where
  "mapSet k v [] = [(k, v)]"
| "mapSet k v (e # es) = (if fst e = k then (k, v) # es else e # mapSet k v es)"

definition noSockets :: "ClockSide \<Rightarrow> string list" where
  "noSockets = (\<lambda>_. [])"

definition registerSocket :: "string \<Rightarrow> string \<Rightarrow> ClockSide \<Rightarrow> unit gw" where
  "registerSocket sock gid side =
     putS (\<lambda>s.
       let sides = (case gwSocketsByGame s gid of None \<Rightarrow> noSockets | Some x \<Rightarrow> x);
           games = (case gwGamesBySocket s sock of None \<Rightarrow> [] | Some x \<Rightarrow> x)
       in s\<lparr>gwSocketsByGame := (gwSocketsByGame s)(gid := Some (sides(side := List.insert sock (sides side)))),
            gwGamesBySocket := (gwGamesBySocket s)(sock := Some (mapSet gid side games))\<rparr>)"

definition opponentIsBack :: "string \<Rightarrow> string \<Rightarrow> ClockSide \<Rightarrow> unit gw" where
  "opponentIsBack sock gid side =
     bindS (clearGrace gid side) (\<lambda>was. if was then send (RoomBut gid sock) (OpponentBackMsg gid side) else returnS ())"

definition registerPlayerSocket :: "string \<Rightarrow> string \<Rightarrow> ClockSide \<Rightarrow> unit gw" where
  "registerPlayerSocket sock gid side =
     bindS (registerSocket sock gid side) (\<lambda>_.
     bindS (onPlay (setPresence gid side)) (\<lambda>_.
     bindS (onPlay (clearGone gid side)) (\<lambda>_.
     opponentIsBack sock gid side)))"

definition onJoin :: "'c PlayEnv \<Rightarrow> string \<Rightarrow> JsonValue \<Rightarrow> int \<Rightarrow> GameView Ack gw" where
  "onJoin env sock payload now =
     (case gameRef payload of
        None \<Rightarrow> returnS (AckError INTERNAL None)
      | Some gid \<Rightarrow> acked (
          bindS (getS (\<lambda>s. getGameView env gid (gwUser s sock) now (gwPlay s))) (\<lambda>view. case view of
            Inl e \<Rightarrow> throwS e
          | Inr v \<Rightarrow>
              bindS (putS (\<lambda>s. s\<lparr>gwRooms := (sock, ''game:'' @ gid) # gwRooms s\<rparr>)) (\<lambda>_.
              bindS (case gvViewer v of
                  Some side \<Rightarrow> if gmStatus (grGame (gvRow v)) = ACTIVE then registerPlayerSocket sock gid side else returnS ()
                | None \<Rightarrow> returnS ()) (\<lambda>_.
              returnS (AckOk v))))))"

text \<open>
  The first part of \<^verbatim>\<open>onPlayerSocketGone\<close>, before it waits for the first time: has the last socket gone?
\<close>

definition dropPlayerSocket :: "string \<Rightarrow> string \<Rightarrow> ClockSide \<Rightarrow> bool gw" where
  "dropPlayerSocket sock gid side =
     bindS (getS (\<lambda>s. gwSocketsByGame s gid)) (\<lambda>known. case known of
       None \<Rightarrow> returnS False
     | Some sides \<Rightarrow>
         let others = removeAll sock (sides side) in
         bindS (putS (\<lambda>s. s\<lparr>gwSocketsByGame := (gwSocketsByGame s)(gid := Some (sides(side := others)))\<rparr>)) (\<lambda>_.
         returnS (others = [])))"

text \<open>What follows when the game, read then, is active; the last part in turn follows two writes to Redis.\<close>

definition armGrace :: "int option \<Rightarrow> GameRow \<Rightarrow> string \<Rightarrow> ClockSide \<Rightarrow> int \<Rightarrow> unit gw" where
  "armGrace graceOverride game gid side now =
     (let graceMs = graceMsFor (gmTimeCategory (grGame game)) graceOverride in
      bindS (send (Room gid) (OpponentGoneMsg gid side graceMs)) (\<lambda>_. scheduleGrace gid side now graceMs))"

definition playerGone :: "int option \<Rightarrow> GameRow \<Rightarrow> string \<Rightarrow> ClockSide \<Rightarrow> int \<Rightarrow> unit gw" where
  "playerGone graceOverride game gid side now =
     bindS (onPlay (clearPresence gid side)) (\<lambda>_.
     bindS (onPlay (markGone gid side now)) (\<lambda>_.
     armGrace graceOverride game gid side now))"

definition onPlayerSocketGone :: "int option \<Rightarrow> string \<Rightarrow> string \<Rightarrow> ClockSide \<Rightarrow> int \<Rightarrow> unit gw" where
  "onPlayerSocketGone graceOverride sock gid side now =
     bindS (dropPlayerSocket sock gid side) (\<lambda>last.
     if \<not> last then returnS ()
     else bindS (getS (\<lambda>s. activeGame gid (gwPlay s))) (\<lambda>row. case row of
         None \<Rightarrow> returnS ()
       | Some game \<Rightarrow> playerGone graceOverride game gid side now))"

text \<open>The part of \<^verbatim>\<open>handleDisconnect\<close> before the loop over the games of the socket.\<close>

definition dropSocket :: "string \<Rightarrow> (string \<times> ClockSide) list gw" where
  "dropSocket sock =
     bindS (getS (\<lambda>s. gwCounted s sock)) (\<lambda>counted.
     bindS (if counted then bindS (putS (\<lambda>s. s\<lparr>gwCounted := (gwCounted s)(sock := False)\<rparr>)) (\<lambda>_. trackWsConnections (- 1))
            else returnS ()) (\<lambda>_.
     bindS (getS (\<lambda>s. gwGamesBySocket s sock)) (\<lambda>games.
     bindS (putS (\<lambda>s. s\<lparr>gwWindows := (gwWindows s)(sock := None), gwGamesBySocket := (gwGamesBySocket s)(sock := None)\<rparr>)) (\<lambda>_.
     returnS (case games of None \<Rightarrow> [] | Some gs \<Rightarrow> gs)))))"

fun forGames :: "(string \<times> ClockSide \<Rightarrow> unit gw) \<Rightarrow> (string \<times> ClockSide) list \<Rightarrow> unit gw" where
  "forGames f [] = returnS ()"
| "forGames f (g # gs) = bindS (swallowed (f g)) (\<lambda>_. forGames f gs)"

definition handleDisconnect :: "int option \<Rightarrow> string \<Rightarrow> int \<Rightarrow> unit gw" where
  "handleDisconnect graceOverride sock now =
     bindS (dropSocket sock) (\<lambda>games.
     forGames (\<lambda>(gid, side). onPlayerSocketGone graceOverride sock gid side now) games)"

definition connected :: "string \<Rightarrow> ClockSide \<Rightarrow> GwState \<Rightarrow> bool" where
  "connected gid side s = (case gwSocketsByGame s gid of None \<Rightarrow> False | Some sides \<Rightarrow> sides side \<noteq> [])"

definition onGraceExpired :: "string \<Rightarrow> ClockSide \<Rightarrow> int \<Rightarrow> unit gw" where
  "onGraceExpired gid side now =
     bindS (getS (connected gid side)) (\<lambda>back.
     if back then returnS ()
     else bindS (getS (connected gid (otherSide side))) (\<lambda>opponentConnected.
          bindS (onPlay (abandonAfterDisconnect gid side opponentConnected now)) (\<lambda>ended. case ended of
            None \<Rightarrow> returnS ()
          | Some e \<Rightarrow> announceEnd gid e)))"

section \<open>Moves and the other events\<close>

definition MOVE_RATE_LIMIT :: nat where
  "MOVE_RATE_LIMIT = 10"

definition MOVE_RATE_WINDOW_MS :: int where
  "MOVE_RATE_WINDOW_MS = 1000"

text \<open>The answer and the window after it.\<close>

definition countMove :: "int \<Rightarrow> (int \<times> nat) option \<Rightarrow> bool \<times> (int \<times> nat)" where
  "countMove now win =
     (case win of
        None \<Rightarrow> (True, (now, 1))
      | Some (start, n) \<Rightarrow>
          if now - start \<ge> MOVE_RATE_WINDOW_MS then (True, (now, 1))
          else (n + 1 \<le> MOVE_RATE_LIMIT, (start, n + 1)))"

definition allowMove :: "string \<Rightarrow> int \<Rightarrow> bool gw" where
  "allowMove sock now =
     bindS (getS (\<lambda>s. countMove now (gwWindows s sock))) (\<lambda>(ok, win).
     bindS (putS (\<lambda>s. s\<lparr>gwWindows := (gwWindows s)(sock := Some win)\<rparr>)) (\<lambda>_. returnS ok))"

definition onMove :: "'c PlayEnv \<Rightarrow> string \<Rightarrow> JsonValue \<Rightarrow> int \<Rightarrow> (nat \<times> ClockPayload) Ack gw" where
  "onMove env sock payload now =
     bindS (getS (\<lambda>s. gwUser s sock)) (\<lambda>user. case user of
       None \<Rightarrow> returnS (AckError NOT_A_PLAYER None)
     | Some userId \<Rightarrow>
         bindS (allowMove sock now) (\<lambda>allowed.
         if \<not> allowed then returnS (AckError RATE_LIMITED None)
         else case moveIntent payload of
           None \<Rightarrow> returnS (AckError ILLEGAL_MOVE None)
         | Some (gid, uci) \<Rightarrow>
             bindS (onPlay (makeMove env userId gid uci now)) (\<lambda>result. case result of
               MoveRejected code resync ended \<Rightarrow>
                 bindS (case ended of None \<Rightarrow> returnS () | Some e \<Rightarrow> announceEnd gid e) (\<lambda>_.
                 returnS (AckError code resync))
             | MoveOk move ended \<Rightarrow>
                 bindS (send (Room gid) (MoveMadeMsg move)) (\<lambda>_.
                 bindS (case ended of Some e \<Rightarrow> announceEnd gid e | None \<Rightarrow> armClockTimers gid (mmClock move) now) (\<lambda>_.
                 returnS (AckOk (mmPly move, mmClock move)))))))"

definition simpleGameAction :: "string \<Rightarrow> JsonValue \<Rightarrow> (string \<Rightarrow> string \<Rightarrow> unit gw) \<Rightarrow> unit Ack gw" where
  "simpleGameAction sock payload act =
     bindS (getS (\<lambda>s. gwUser s sock)) (\<lambda>user. case user of
       None \<Rightarrow> returnS (AckError NOT_A_PLAYER None)
     | Some userId \<Rightarrow> (case gameRef payload of
         None \<Rightarrow> returnS (AckError INTERNAL None)
       | Some gid \<Rightarrow> acked (bindS (act userId gid) (\<lambda>_. returnS (AckOk ())))))"

definition onResign :: "'c PlayEnv \<Rightarrow> string \<Rightarrow> JsonValue \<Rightarrow> int \<Rightarrow> unit Ack gw" where
  "onResign env sock payload now =
     simpleGameAction sock payload (\<lambda>u gid. bindS (onPlay (resign env u gid now)) (announceEnd gid))"

definition onDrawOffer :: "'c PlayEnv \<Rightarrow> string \<Rightarrow> JsonValue \<Rightarrow> unit Ack gw" where
  "onDrawOffer env sock payload =
     simpleGameAction sock payload (\<lambda>u gid. bindS (onPlay (offerDraw env u gid)) (\<lambda>side. send (Room gid) (DrawOfferedMsg gid side)))"

definition onDrawAccept :: "'c PlayEnv \<Rightarrow> string \<Rightarrow> JsonValue \<Rightarrow> int \<Rightarrow> unit Ack gw" where
  "onDrawAccept env sock payload now =
     simpleGameAction sock payload (\<lambda>u gid. bindS (onPlay (acceptDraw env u gid now)) (announceEnd gid))"

definition onAbort :: "'c PlayEnv \<Rightarrow> string \<Rightarrow> JsonValue \<Rightarrow> int \<Rightarrow> unit Ack gw" where
  "onAbort env sock payload now =
     simpleGameAction sock payload (\<lambda>u gid. bindS (onPlay (abort env u gid now)) (announceEnd gid))"

text \<open>The answer: accepted, and the time that remains when the claim was too early.\<close>

definition onClaimTimeout :: "'c PlayEnv \<Rightarrow> string \<Rightarrow> JsonValue \<Rightarrow> int \<Rightarrow> (bool \<times> int option) Ack gw" where
  "onClaimTimeout env sock payload now =
     bindS (getS (\<lambda>s. gwUser s sock)) (\<lambda>user. case user of
       None \<Rightarrow> returnS (AckError NOT_A_PLAYER None)
     | Some userId \<Rightarrow> (case gameRef payload of
         None \<Rightarrow> returnS (AckError INTERNAL None)
       | Some gid \<Rightarrow> acked (
           bindS (onPlay (claimTimeout env userId gid now)) (\<lambda>r. case r of
             ClaimAccepted e \<Rightarrow> bindS (announceEnd gid e) (\<lambda>_. returnS (AckOk (True, None)))
           | ClaimRejected ms \<Rightarrow> returnS (AckOk (False, ms))))))"

end
