(* ===== verification/GatewayProps.thy ===== *)
theory GatewayProps
  imports PlayGateway PlayProps
begin

text \<open>
  The properties of the gateway: how many moves a socket gets through in a second, who changes a
  game, when the timer of the flag ends one, and what a short break of the connection can cost.
\<close>

section \<open>Moves in a second\<close>

text \<open>The answers to the calls of one socket, with the times of the calls.\<close>

fun moveLog :: "(int \<times> nat) option \<Rightarrow> int list \<Rightarrow> (int \<times> bool) list" where
  "moveLog win [] = []"
| "moveLog win (x # xs) = (case countMove x win of (ok, win') \<Rightarrow> (x, ok) # moveLog (Some win') xs)"

fun allowMoves :: "string \<Rightarrow> int list \<Rightarrow> GwState \<Rightarrow> (int \<times> bool) list" where
  "allowMoves sock [] s = []"
| "allowMoves sock (x # xs) s =
     (case allowMove sock x s of (Inr ok, t) \<Rightarrow> (x, ok) # allowMoves sock xs t | (Inl e, t) \<Rightarrow> allowMoves sock xs t)"

lemma allowMoves_log: "allowMoves sock xs s = moveLog (gwWindows s sock) xs"
  by (induction xs arbitrary: s) (auto simp: allowMove_def bindS_def split: prod.split)

definition admitted :: "int \<Rightarrow> (int \<times> bool) list \<Rightarrow> nat" where
  "admitted t calls = length (filter (\<lambda>(x, ok). ok \<and> t \<le> x \<and> x < t + 1000) calls)"

lemma admitted_simps [simp]:
  "admitted t [] = 0"
  "admitted t ((x, ok) # calls) = (if ok \<and> t \<le> x \<and> x < t + 1000 then 1 else 0) + admitted t calls"
  by (simp_all add: admitted_def)

lemma admitted_after: "\<forall>x \<in> set xs. t + 1000 \<le> x \<Longrightarrow> admitted t (moveLog win xs) = 0"
  by (induction xs arbitrary: win) (auto split: prod.split)

text \<open>The window that is open began in the second that is looked at, or later.\<close>

lemma admitted_opened:
  "sorted xs \<Longrightarrow> t \<le> start \<Longrightarrow> \<forall>x \<in> set xs. start \<le> x \<Longrightarrow> admitted t (moveLog (Some (start, n)) xs) \<le> 10 - n"
proof (induction xs arbitrary: n)
  case (Cons x xs)
  show ?case
  proof (cases "x - start \<ge> MOVE_RATE_WINDOW_MS")
    case True
    then have "\<forall>y \<in> set (x # xs). t + 1000 \<le> y" using Cons.prems by (auto simp: MOVE_RATE_WINDOW_MS_def)
    then have "admitted t (moveLog (Some (start, n)) (x # xs)) = 0" by (rule admitted_after)
    then show ?thesis by simp
  next
    case False
    have "admitted t (moveLog (Some (start, Suc n)) xs) \<le> 10 - Suc n" by (rule Cons.IH) (use Cons.prems in auto)
    then show ?thesis using False by (auto simp: countMove_def MOVE_RATE_LIMIT_def)
  qed
qed simp

text \<open>It began before, and the calls of the second have begun.\<close>

lemma admitted_running:
  "sorted xs \<Longrightarrow> \<forall>x \<in> set xs. t \<le> x \<Longrightarrow> admitted t (moveLog (Some (start, n)) xs) \<le> 10 - n + 10"
proof (induction xs arbitrary: n)
  case (Cons x xs)
  show ?case
  proof (cases "x - start \<ge> MOVE_RATE_WINDOW_MS")
    case True
    have "admitted t (moveLog (Some (x, Suc 0)) xs) \<le> 10 - Suc 0"
      by (rule admitted_opened) (use Cons.prems in auto)
    then show ?thesis using True by (auto simp: countMove_def)
  next
    case False
    have "admitted t (moveLog (Some (start, Suc n)) xs) \<le> 10 - Suc n + 10" by (rule Cons.IH) (use Cons.prems in auto)
    then show ?thesis using False by (auto simp: countMove_def MOVE_RATE_LIMIT_def)
  qed
qed simp

text \<open>It began before, with a call that does not count.\<close>

lemma admitted_started:
  "sorted xs \<Longrightarrow> 1 \<le> n \<Longrightarrow> admitted t (moveLog (Some (start, n)) xs) \<le> 19"
proof (induction xs arbitrary: start n)
  case (Cons x xs)
  show ?case
  proof (cases "t \<le> x")
    case True
    then have "admitted t (moveLog (Some (start, n)) (x # xs)) \<le> 10 - n + 10"
      by (intro admitted_running) (use Cons.prems in auto)
    then show ?thesis using Cons.prems(2) by simp
  next
    case False
    then show ?thesis using Cons.IH Cons.prems by (auto simp: countMove_def)
  qed
qed simp

lemma admitted_total: "sorted xs \<Longrightarrow> admitted t (moveLog None xs) \<le> 19"
proof (induction xs)
  case (Cons x xs)
  have log: "moveLog None (x # xs) = (x, True) # moveLog (Some (x, Suc 0)) xs" by (simp add: countMove_def)
  show ?case
  proof (cases "t \<le> x")
    case True
    have "admitted t (moveLog (Some (x, Suc 0)) xs) \<le> 10 - Suc 0" by (rule admitted_opened) (use Cons.prems True in auto)
    then show ?thesis unfolding log by simp
  next
    case False
    have "admitted t (moveLog (Some (x, Suc 0)) xs) \<le> 19" by (rule admitted_started) (use Cons.prems in auto)
    then show ?thesis unfolding log using False by simp
  qed
qed simp

definition idleGateway :: GwState where
  "idleGateway = \<lparr>gwPlay = noGames, gwUser = (\<lambda>_. None), gwCounted = (\<lambda>_. False), gwConnections = 0, gwWindows = (\<lambda>_. None),
     gwGamesBySocket = (\<lambda>_. None), gwSocketsByGame = (\<lambda>_. None), gwRooms = [], gwFlags = (\<lambda>_. None), gwTicks = (\<lambda>_. False),
     gwGraces = (\<lambda>_ _. None), gwSent = []\<rparr>"

text \<open>
  The limit of ten moves a second is one of ten moves a window, and the windows follow the calls: whenever
  the calls of a socket come, at most 19 of any second are admitted, and 19 are when a burst meets the
  border of two windows.
\<close>

theorem moves_per_second:
  assumes "sorted xs" "gwWindows s sock = None"
  shows "admitted t (allowMoves sock xs s) \<le> 19 \<and>
    admitted 999 (allowMoves sock (0 # replicate 9 999 @ replicate 10 1000) idleGateway) = 19"
proof
  show "admitted t (allowMoves sock xs s) \<le> 19" using admitted_total [OF assms(1), of t] by (simp add: allowMoves_log assms(2))
  show "admitted 999 (allowMoves sock (0 # replicate 9 999 @ replicate 10 1000) idleGateway) = 19"
    by (simp add: allowMoves_log idleGateway_def countMove_def MOVE_RATE_LIMIT_def MOVE_RATE_WINDOW_MS_def numeral_eq_Suc)
qed

lemma moves_per_second_witness: "admitted 500 (allowMoves ''s'' [0, 100, 600, 1200] idleGateway) \<le> 19"
  using moves_per_second [of "[0, 100, 600, 1200]" idleGateway "''s''" 500] by (simp add: idleGateway_def)

section \<open>The timer of the flag\<close>

lemma runFinish_active:
  assumes "pdGames s (grId (fpGame p)) = Some g" "gmStatus g = ACTIVE"
  obtains t where "runFinish p now s = (Inr (Some (endedPayload p now)), t)"
    "pdGames t = (pdGames s)(grId (fpGame p) := Some (finishedColumns (fpInput p) now g))"
proof -
  obtain row t where f: "finishGame (grId (fpGame p)) (fpInput p) now s = (Inr (Some row), t)"
    "pdGames t = (pdGames s)(grId (fpGame p) := Some (finishedColumns (fpInput p) now g))"
    using assms by (simp add: finishGame_def transaction_def bindS_def updateActive_def auditFinished_eval findGame_def)
  obtain t' where "afterFinish (fpGame p) (fiStatus (fpInput p)) t = (Inr (), t')" "pdGames t' = pdGames t"
    by (simp add: afterFinish_def bindS_def clearClock_def emitFinished_def emit_def)
  then show thesis using that [of t'] f by (simp add: runFinish_def bindS_def)
qed

lemma timers_eval:
  "clearFlag gid s = (Inr (), s\<lparr>gwFlags := (gwFlags s)(gid := None)\<rparr>)"
  "scheduleFlag gid now ms s = (Inr (), s\<lparr>gwFlags := (gwFlags s)(gid := Some (now + ms))\<rparr>)"
  by (simp_all add: clearFlag_def scheduleFlag_def bindS_def)

lemma clearGrace_eval:
  "\<exists>b. clearGrace gid side s = (Inr b, s\<lparr>gwGraces := (gwGraces s)(gid := (gwGraces s gid)(side := None))\<rparr>)"
proof (cases "gwGraces s gid side")
  case None
  then have "(gwGraces s)(gid := (gwGraces s gid)(side := None)) = gwGraces s" by (simp add: fun_eq_iff)
  then show ?thesis using None by (intro exI [of _ False]) (simp add: clearGrace_def bindS_def)
qed (intro exI [of _ True], simp add: clearGrace_def bindS_def)

lemma clearGame_eval: "clearGame gid s = (Inr (), s\<lparr>gwFlags := (gwFlags s)(gid := None), gwTicks := (gwTicks s)(gid := False),
    gwGraces := (gwGraces s)(gid := (\<lambda>_. None))\<rparr>)"
proof -
  let ?s1 = "s\<lparr>gwFlags := (gwFlags s)(gid := None), gwTicks := (gwTicks s)(gid := False)\<rparr>"
  let ?s2 = "?s1\<lparr>gwGraces := (gwGraces ?s1)(gid := (gwGraces ?s1 gid)(W := None))\<rparr>"
  let ?s3 = "?s2\<lparr>gwGraces := (gwGraces ?s2)(gid := (gwGraces ?s2 gid)(B := None))\<rparr>"
  obtain b where b: "clearGrace gid W ?s1 = (Inr b, ?s2)" using clearGrace_eval by blast
  obtain c where c: "clearGrace gid B ?s2 = (Inr c, ?s3)" using clearGrace_eval by blast
  have "(gwGraces s gid)(W := None, B := None) = (\<lambda>_. None)"
  proof
    fix side show "((gwGraces s gid)(W := None, B := None)) side = None" by (cases side) simp_all
  qed
  then have "?s3 = s\<lparr>gwFlags := (gwFlags s)(gid := None), gwTicks := (gwTicks s)(gid := False), gwGraces := (gwGraces s)(gid := (\<lambda>_. None))\<rparr>"
    by simp
  then show ?thesis using b c by (simp add: clearGame_def bindS_def clearFlag_def stopTick_def)
qed

lemma announceEnd_eval:
  obtains t where "announceEnd gid ended s = (Inr (), t)" "gwPlay t = gwPlay s" "gwFlags t = (gwFlags s)(gid := None)"
    "gwTicks t = (gwTicks s)(gid := False)" "gwGraces t = (gwGraces s)(gid := (\<lambda>_. None))" "gwSocketsByGame t gid = None"
    "gwSent t = gwSent s @ [(Room gid, EndedMsg ended)]" "gwUser t = gwUser s"
  by (cases "gwSocketsByGame s gid") (simp_all add: announceEnd_def bindS_def send_def clearGame_eval forgetGame_def)

text \<open>What is left of the running clock, and the latest moment at which it runs out.\<close>

definition latestFlag :: "GameRow \<Rightarrow> ClockState \<Rightarrow> int" where
  "latestFlag game st = lastEventAtMs st + remainingOf st (turn st) + incrementMs (clockConfig (grGame game))"

text \<open>
  C19. The timer of the flag does not miss the end of a game. When it fires for an active game that has begun, has a
  supported clock and an entry in Redis not from the future, it either ends the game on time, tells the room and clears
  every timer of the game, or the latest moment at which the clock can run out (delay included) has not come, and it is
  set again for a time later than now but no later than 100 milliseconds after that moment. The game library is asked
  whether the opponent can still mate and answers.
\<close>

theorem flag_timer_converges:
  assumes "activeGame gid (gwPlay s) = Some game" "grPlyCount game \<noteq> 0" "supported (clockConfig (grGame game))"
    and "rdClock (gwPlay s) gid = Some e" "lastEventAtMs (ceState e) \<le> now"
    and "hasMatingMaterial (peChess env) (gmFen (grGame game)) (otherSide (turn (ceState e))) = Inr material"
  shows "\<exists>t. onFlagTimer env gid now s = (Inr (), t) \<and>
    ((\<exists>g ended. pdGames (gwPlay t) gid = Some g \<and> gmStatus g \<in> {TIMEOUT, TIMEOUT_VS_INSUFFICIENT_MATERIAL} \<and>
        gwFlags t gid = None \<and> gwTicks t gid = False \<and> gwSent t = gwSent s @ [(Room gid, EndedMsg ended)])
     \<or> now < latestFlag game (ceState e) \<and> gwPlay t = gwPlay s \<and>
       (\<exists>d. gwFlags t gid = Some d \<and> now < d \<and> d \<le> latestFlag game (ceState e) + FLAG_EPSILON_MS))"
proof -
  obtain g where g: "pdGames (gwPlay s) gid = Some g" "gmStatus g = ACTIVE"
    "game = toGameRow gid g (length (pdMoves (gwPlay s) gid))" by (rule activeGame_Some [OF assms(1)])
  let ?st = "ceState e" and ?cfg = "clockConfig (grGame game)" and ?p = "gwPlay s"
  let ?rem = "max 0 (remainingOf ?st (turn ?st) - charge ?cfg (elapsedOf ?st now))"
  have id: "grId game = gid" using g(3) by (simp add: toGameRow_def)
  have live: "liveClock game now (atOnce ?p) = ?st" using assms(4) id by (simp add: liveClock_def loadClock_def atOnce_def)
  have reads: "activeGame gid (atGame (atOnce ?p)) = Some game" using assms(1) by (simp add: atOnce_def)
  have rem: "remaining ?cfg ?st side now = Inr (if side \<noteq> turn ?st then remainingOf ?st side else ?rem)" for side
    using remaining_eq [OF assms(3)] by auto
  show ?thesis
  proof (cases "0 < ?rem")
    case True
    define r where "r = ?rem"
    have r: "orClockError (remaining ?cfg ?st (turn ?st) now) = (Inr r :: PlayFailure DomainError + int)" "0 < r"
      using True unfolding rem r_def by (simp_all add: orClockError_def)
    have "planCheckFlag env gid now (atOnce ?p) = Inr (WaitMs r)"
      unfolding planCheckFlag_def reads option.case Let_def live r(1) using assms(2) r(2) by simp
    then have "checkFlag env gid now ?p = (Inr (FlagWait ?rem), ?p)"
      by (simp add: checkFlag_def planned_def bindS_def r_def)
    then have fires: "onFlagTimer env gid now s = (Inr (), s\<lparr>gwFlags := (gwFlags s)(gid := Some (now + (?rem + FLAG_EPSILON_MS)))\<rparr>)"
      by (simp add: onFlagTimer_def onPlay_def bindS_def timers_eval)
    have "elapsedOf ?st now - incrementMs ?cfg \<le> charge ?cfg (elapsedOf ?st now)"
      using supported_incrementMs [OF assms(3)] by (simp add: charge_def)
    moreover have "elapsedOf ?st now = now - lastEventAtMs ?st" using assms(5) by (simp add: elapsedOf_def)
    ultimately have "now + ?rem \<le> latestFlag game ?st" using True by (simp add: latestFlag_def)
    then show ?thesis using fires True by (auto simp: FLAG_EPSILON_MS_def)
  next
    case False
    let ?mover = "turn ?st"
    let ?w = "if ?mover = W then 0 else remainingOf ?st W" and ?b = "if ?mover = B then 0 else remainingOf ?st B"
    obtain plan where plan: "planTimeout env game ?mover \<lparr>whiteRemainingMs = ?w, blackRemainingMs = ?b, turn = turn ?st,
          lastEventAtMs = lastEventAtMs ?st\<rparr> None (atOnce ?p) = Inr plan" "fpGame plan = game"
        "fiStatus (fpInput plan) \<in> {TIMEOUT, TIMEOUT_VS_INSUFFICIENT_MATERIAL}"
      using assms(6) by (simp add: planTimeout_def orChessError_def Let_def)
    have w: "(if ?mover = W then Inr 0 else orClockError (remaining ?cfg ?st W now)) = (Inr ?w :: PlayFailure DomainError + int)"
      and b: "(if ?mover = B then Inr 0 else orClockError (remaining ?cfg ?st B now)) = (Inr ?b :: PlayFailure DomainError + int)"
      unfolding rem by (auto simp: orClockError_def)
    have zero: "orClockError (remaining ?cfg ?st ?mover now) = (Inr ?rem :: PlayFailure DomainError + int)"
      unfolding rem by (simp add: orClockError_def)
    have "planCheckFlag env gid now (atOnce ?p) = Inr (EndByFlag plan)"
      unfolding planCheckFlag_def reads option.case Let_def live w b zero using assms(2) False plan(1) by simp
    moreover obtain t1 where "runFinish plan now ?p = (Inr (Some (endedPayload plan now)), t1)"
      "pdGames t1 = (pdGames ?p)(gid := Some (finishedColumns (fpInput plan) now g))"
      using runFinish_active [of ?p plan g now] plan(2) id g(1,2) by metis
    ultimately have check: "checkFlag env gid now ?p = (Inr (FlagEnded (endedPayload plan now)), t1)"
      "pdGames t1 gid = Some (finishedColumns (fpInput plan) now g)"
      by (simp_all add: checkFlag_def planned_def bindS_def)
    obtain t where "announceEnd gid (endedPayload plan now) (s\<lparr>gwPlay := t1\<rparr>) = (Inr (), t)" "gwPlay t = t1"
      "gwFlags t gid = None" "gwTicks t gid = False" "gwSent t = gwSent s @ [(Room gid, EndedMsg (endedPayload plan now))]"
      by (rule announceEnd_eval [of gid "endedPayload plan now" "s\<lparr>gwPlay := t1\<rparr>"]) simp
    then show ?thesis using check plan(3) by (auto simp: onFlagTimer_def onPlay_def bindS_def finishedColumns_def)
  qed
qed

text \<open>The opened game: black has a minute from second 1 on.\<close>

definition openedGateway :: GwState where
  "openedGateway = idleGateway\<lparr>gwPlay := opened\<rparr>"

lemma flag_timer_converges_witness:
  "\<exists>t. onFlagTimer rookEnv ''0'' 61100 openedGateway = (Inr (), t) \<and>
    map_option gmStatus (pdGames (gwPlay t) ''0'') \<in> {Some TIMEOUT, Some TIMEOUT_VS_INSUFFICIENT_MATERIAL} \<and> gwFlags t ''0'' = None"
proof -
  let ?game = "toGameRow ''0'' (sampleGame\<lparr>gmFen := blackToMove, gmUpdatedAt := 1000\<rparr>) 1"
  have play: "gwPlay openedGateway = opened" by (simp add: openedGateway_def)
  have game: "activeGame ''0'' opened = Some ?game"
    by (simp add: activeGame_def findGame_def opened_facts challenged_facts toGameRow_def)
  have conf: "clockConfig (grGame ?game) = \<lparr>clockType = SUDDEN_DEATH, baseMs = 60000, incrementMs = 0\<rparr>"
    using challenged_facts(7) by (simp add: clockConfig_def toGameRow_def)
  have material: "hasMatingMaterial (peChess rookEnv) (gmFen (grGame ?game)) (otherSide (turn (ceState \<lparr>ceVersion = 1, ceState = afterWhite\<rparr>)))
      = Inr (hasMatingMaterial shuffleChess blackToMove W = Inr True)"
    unfolding rookEnv_def afterWhite_def toGameRow_def by code_simp
  have latest: "latestFlag ?game afterWhite = 61000"
    unfolding latestFlag_def conf by (simp add: afterWhite_def remainingOf_def)
  have sup: "supported (clockConfig (grGame ?game))" unfolding conf by (simp add: supported_def)
  have last: "lastEventAtMs (ceState \<lparr>ceVersion = 1, ceState = afterWhite\<rparr>) \<le> 61100" by (simp add: afterWhite_def)
  have ply: "grPlyCount ?game \<noteq> 0" by (simp add: toGameRow_def)
  note flag_timer_converges [of "''0''" openedGateway ?game "\<lparr>ceVersion = 1, ceState = afterWhite\<rparr>" 61100 rookEnv,
      unfolded play, OF game ply sup opened_facts(3) last material]
  then show ?thesis using latest by (elim exE conjE disjE) (auto simp: exI)
qed

section \<open>Who changes a game\<close>

text \<open>What an operation leaves alone when it starts in one given state.\<close>

definition keeps :: "('s \<Rightarrow> 'b) \<Rightarrow> ('x, 's, 'a) action \<Rightarrow> 's \<Rightarrow> bool" where
  "keeps f m s \<longleftrightarrow> f (snd (m s)) = f s"

named_theorems keeps_intros "what an operation leaves alone in one state"

lemma keeps_frames: "frames f m \<Longrightarrow> keeps f m s"
  by (simp add: keeps_def framesD)

lemma keeps_basic [keeps_intros]: "keeps f (returnS x) s" "keeps f (throwS e) s" "keeps f (getS g) s"
  by (simp_all add: keeps_def)

lemma keeps_bind [keeps_intros]:
  "keeps f m s \<Longrightarrow> (\<And>x t. m s = (Inr x, t) \<Longrightarrow> f t = f s \<Longrightarrow> keeps f (k x) t) \<Longrightarrow> keeps f (bindS m k) s"
  unfolding keeps_def bindS_def by (cases "m s"; cases "fst (m s)") auto

text \<open>A game row with its moves.\<close>

definition gameOf :: "string \<Rightarrow> PlayDb \<Rightarrow> OnlineGame option \<times> MoveRow list" where
  "gameOf gid s = (pdGames s gid, pdMoves s gid)"

definition mayAct :: "'c PlayEnv \<Rightarrow> string \<Rightarrow> string \<Rightarrow> PlayDb \<Rightarrow> bool" where
  "mayAct env u gid s \<longleftrightarrow> (\<exists>g. pdGames s gid = Some g \<and> gmStatus g = ACTIVE \<and> sideOf env u g \<noteq> None)"

lemma gameOf_redis: "tablesOf t = tablesOf s \<Longrightarrow> gameOf gid t = gameOf gid s"
  by (simp add: gameOf_def tablesOf_def)

lemma keeps_tables: "frames tablesOf m \<Longrightarrow> keeps (gameOf gid) m s"
  unfolding keeps_def by (intro gameOf_redis framesD)

lemma afterFinish_tables: "frames tablesOf (afterFinish game st)"
  using afterTask_frames [of "AfterFinish game st"] by simp

lemma keeps_runFinish:
  assumes "grId (fpGame p) \<noteq> gid"
  shows "keeps (gameOf gid) (runFinish p now) s"
proof -
  obtain r t where f: "finishGame (grId (fpGame p)) (fpInput p) now s = (Inr r, t)"
    using finishGame_returns [of "grId (fpGame p)" "fpInput p" now s] by (metis prod.collapse)
  show ?thesis
  proof (cases r)
    case None
    then have "t = s" using f by (intro finishGame_other) simp
    then show ?thesis using None f by (simp add: keeps_def runFinish_def bindS_def)
  next
    case (Some row)
    obtain g where "t = s\<lparr>pdGames := (pdGames s)(grId (fpGame p) := Some (finishedColumns (fpInput p) now g)),
        pdAudit := pdAudit s @ [finishedRow (grId (fpGame p)) (fpInput p)]\<rparr>"
      using finishGame_Inr [OF f [unfolded Some]] by metis
    then have "gameOf gid t = gameOf gid s" using assms by (simp add: gameOf_def)
    moreover have "keeps (gameOf gid) (bindS (afterFinish (fpGame p) (fiStatus (fpInput p))) (\<lambda>_. returnS (Some (endedPayload p now)))) t"
      by (intro keeps_tables frame_intros afterFinish_tables)
    ultimately show ?thesis using f Some by (simp add: keeps_def runFinish_def bindS_def)
  qed
qed

text \<open>The decisions that end a game, with the player they were made for.\<close>

lemma noMove_game: "planNoMove game st w actor now R = Inr p \<Longrightarrow> fpGame p = game"
  by (auto simp: planNoMove_def Let_def)

lemma timeout_game: "planTimeout env game loser st actor R = Inr p \<Longrightarrow> fpGame p = game"
  by (auto simp: planTimeout_def Let_def)

lemma activeGame_id: "activeGame gid s = Some game \<Longrightarrow> grId game = gid"
  by (auto simp: activeGame_def findGame_def toGameRow_def split: option.splits if_splits)

lemma acting:
  assumes "activeGame gid s = Some game" "sideOf env u (grGame game) = Some side"
  shows "mayAct env u gid s \<and> grId game = gid"
proof -
  obtain g where "pdGames s gid = Some g" "gmStatus g = ACTIVE" "game = toGameRow gid g (length (pdMoves s gid))"
    by (rule activeGame_Some [OF assms(1)])
  then show ?thesis using assms(2) by (simp add: mayAct_def toGameRow_def)
qed

lemma required_player: "requireActivePlayer env u gid s = Inr (game, side) \<Longrightarrow> mayAct env u gid s \<and> grId game = gid"
  using acting requireActivePlayer_Inr by metis

lemma planned_player:
  "planResign env u gid now R = Inr p \<Longrightarrow> mayAct env u gid (atGame R) \<and> grId (fpGame p) = gid"
  "planAcceptDraw env u gid now R = Inr p \<Longrightarrow> mayAct env u gid (atGame R) \<and> grId (fpGame p) = gid"
  "planAbort env u gid now R = Inr p \<Longrightarrow> mayAct env u gid (atGame R) \<and> grId (fpGame p) = gid"
  "planClaimTimeout env u gid now R = Inr (Inr p) \<Longrightarrow> mayAct env u gid (atGame R) \<and> grId (fpGame p) = gid"
  by (auto simp: planResign_def planAcceptDraw_def planAbort_def planClaimTimeout_def Let_def
      dest!: noMove_game timeout_game required_player split: if_splits)

lemma planMove_player:
  "planMove env u gid uci now R = Inr (FlagFell p) \<Longrightarrow> mayAct env u gid (atGame R) \<and> grId (fpGame p) = gid"
  "planMove env u gid uci now R = Inr (PlayMove q) \<Longrightarrow> mayAct env u gid (atGame R) \<and> grId (mpGame q) = gid"
  by (erule planMove_FlagFell; use acting timeout_game in metis) (erule planMove_PlayMove; use acting in metis)

lemma keeps_planned:
  assumes "\<And>d. plan s = Inr d \<Longrightarrow> keeps f (k d) s"
  shows "keeps f (planned plan k) s"
  using assms by (cases "plan s") (simp_all add: planned_def keeps_def bindS_def)

lemma keeps_required: "keeps f (requireFinished e) s"
  by (cases e) (simp_all add: requireFinished_def keeps_basic)

lemma others_keep:
  assumes "gid' \<noteq> gid \<or> \<not> mayAct env u gid s"
  shows "keeps (gameOf gid) (resign env u gid' now) s" "keeps (gameOf gid) (acceptDraw env u gid' now) s"
    "keeps (gameOf gid) (abort env u gid' now) s" "keeps (gameOf gid) (claimTimeout env u gid' now) s"
    "keeps (gameOf gid) (offerDraw env u gid') s" "keeps (gameOf gid) (makeMove env u gid' uci now) s"
proof -
  have other: "grId (fpGame p) \<noteq> gid" if "mayAct env u gid' s \<and> grId (fpGame p) = gid'" for p using that assms by auto
  have at: "atGame (atOnce s) = s" by (simp add: atOnce_def)
  show "keeps (gameOf gid) (resign env u gid' now) s" "keeps (gameOf gid) (acceptDraw env u gid' now) s"
    "keeps (gameOf gid) (abort env u gid' now) s"
    unfolding resign_def acceptDraw_def abort_def
    by (rule keeps_planned; intro keeps_bind keeps_runFinish keeps_required other;
        use planned_player [where R = "atOnce s", unfolded at] in blast)+
  show "keeps (gameOf gid) (claimTimeout env u gid' now) s"
    unfolding claimTimeout_def
  proof (rule keeps_planned)
    fix d assume d: "planClaimTimeout env u gid' now (atOnce s) = Inr d"
    show "keeps (gameOf gid) (case d of Inl ms \<Rightarrow> returnS (ClaimRejected (Some ms))
       | Inr p \<Rightarrow> bindS (runFinish p now) (\<lambda>ended. case ended of None \<Rightarrow> returnS (ClaimRejected None) | Some e \<Rightarrow> returnS (ClaimAccepted e))) s"
    proof (cases d)
      case (Inr p)
      have "grId (fpGame p) \<noteq> gid" by (rule other) (use planned_player(4) [OF d [unfolded Inr], unfolded at] in blast)
      then show ?thesis unfolding Inr sum.case
        by (intro keeps_bind keeps_runFinish) (auto split: option.split intro: keeps_basic)
    qed (simp add: keeps_basic)
  qed
  show "keeps (gameOf gid) (offerDraw env u gid') s"
    unfolding offerDraw_def
    by (rule keeps_planned) (auto simp: setDrawOffer_def tablesOf_def intro!: keeps_tables frame_intros)
  show "keeps (gameOf gid) (makeMove env u gid' uci now) s"
    unfolding makeMove_def
  proof (rule keeps_planned)
    fix d assume d: "planMove env u gid' uci now (atOnce s) = Inr d"
    show "keeps (gameOf gid) (case d of
         RejectMove code resync \<Rightarrow> returnS (MoveRejected code resync None)
       | FlagFell p \<Rightarrow> bindS (runFinish p now) (\<lambda>ended. returnS (MoveRejected CLOCK_EXPIRED (Some (gmFen (grGame (fpGame p)))) ended))
       | PlayMove p \<Rightarrow> (\<lambda>s. case commitMove p now s of
           (Inl e, t) \<Rightarrow> if isConflict e then (Inr (MoveRejected STALE_SEQ (Some (gmFen (grGame (mpGame p)))) None), t) else (Inl e, t)
         | (Inr u, t) \<Rightarrow> bindS (afterMove p) (\<lambda>_. returnS (moveMade p now)) t)) s"
    proof (cases d)
      case (FlagFell p)
      have "grId (fpGame p) \<noteq> gid" by (rule other) (use planMove_player(1) [OF d [unfolded FlagFell], unfolded at] in blast)
      then show ?thesis unfolding FlagFell MoveDecision.case by (intro keeps_bind keeps_runFinish keeps_basic)
    next
      case (PlayMove p)
      then have p: "grId (mpGame p) \<noteq> gid" using planMove_player(2) [OF d [unfolded PlayMove], unfolded at] assms by auto
      obtain r t where c: "commitMove p now s = (r, t)" by (rule prod.exhaust)
      have kept: "gameOf gid t = gameOf gid s"
      proof (cases r)
        case (Inl e)
        then show ?thesis using commitMove_Inl c by metis
      next
        case (Inr x)
        show ?thesis by (rule commitMove_Inr [of p now s t]) (use c Inr p in \<open>simp_all add: gameOf_def\<close>)
      qed
      have "keeps (gameOf gid) (bindS (afterMove p) (\<lambda>_. returnS (moveMade p now))) t"
        using afterTask_frames [of "AfterMove p"] by (intro keeps_tables frame_intros) simp
      then show ?thesis using c kept unfolding PlayMove MoveDecision.case by (cases r) (simp_all add: keeps_def)
    qed (simp add: keeps_basic)
  qed
qed

definition gwGame :: "string \<Rightarrow> GwState \<Rightarrow> OnlineGame option \<times> MoveRow list" where
  "gwGame gid s = gameOf gid (gwPlay s)"

lemma keeps_onPlay [keeps_intros]: "keeps (gameOf gid) m (gwPlay s) \<Longrightarrow> keeps (gwGame gid) (onPlay m) s"
  by (cases "m (gwPlay s)") (simp add: keeps_def onPlay_def gwGame_def)

lemma keeps_gwPlay: "frames gwPlay m \<Longrightarrow> keeps (gwGame gid) m s"
  unfolding keeps_def gwGame_def by (simp add: framesD [of gwPlay])

lemma keeps_acked [keeps_intros]: "keeps f m s \<Longrightarrow> keeps f (acked m) s"
  by (cases "m s"; cases "fst (m s)") (simp_all add: keeps_def acked_def)

lemma send_frames: "frames gwPlay (send to m)"
  by (simp add: send_def frames_basic)

lemma clearGrace_frames: "frames gwPlay (clearGrace gid side)"
  unfolding clearGrace_def by (intro frame_intros) auto

lemma clearGame_frames: "frames gwPlay (clearGame gid)"
  by (simp add: frames_def clearGame_eval)

lemma announceEnd_frames: "frames gwPlay (announceEnd gid e)"
  unfolding announceEnd_def forgetGame_def
  by (intro frame_intros send_frames clearGame_frames) (simp split: option.split)

lemma armClockTimers_frames: "frames gwPlay (armClockTimers gid clock now)"
  unfolding armClockTimers_def scheduleFlag_def clearFlag_def startTick_def by (intro frame_intros) auto

lemma allowMove_frames: "frames gwPlay (allowMove sock now)"
  unfolding allowMove_def by (intro frame_intros) (auto intro!: frame_intros split: prod.split)

lemma registerSocket_frames: "frames gwPlay (registerSocket sock gid side)"
  unfolding registerSocket_def by (intro frame_intros) (simp add: Let_def)

lemma opponentIsBack_frames: "frames gwPlay (opponentIsBack sock gid side)"
  unfolding opponentIsBack_def by (intro frame_intros clearGrace_frames send_frames)

lemmas gateway_frames = send_frames announceEnd_frames armClockTimers_frames allowMove_frames registerSocket_frames
  opponentIsBack_frames

lemma keeps_register: "keeps (gwGame gid) (registerPlayerSocket sock gid' side) s"
  unfolding registerPlayerSocket_def
  by (intro keeps_bind keeps_onPlay keeps_tables keeps_gwPlay gateway_frames)
    (auto simp: setPresence_def clearGone_def tablesOf_def intro!: frame_intros)

lemma keeps_putRooms: "keeps (gwGame gid) (putS (\<lambda>s. s\<lparr>gwRooms := r s\<rparr>)) s"
  by (simp add: keeps_def gwGame_def)

datatype WsEvent = JoinEvent | MoveEvent | ResignEvent | DrawOfferEvent | DrawAcceptEvent | AbortEvent | ClaimTimeoutEvent

text \<open>The state after an event of a client.\<close>

fun handleEvent :: "'c PlayEnv \<Rightarrow> string \<Rightarrow> WsEvent \<Rightarrow> JsonValue \<Rightarrow> int \<Rightarrow> GwState \<Rightarrow> GwState" where
  "handleEvent env sock JoinEvent payload now s = snd (onJoin env sock payload now s)"
| "handleEvent env sock MoveEvent payload now s = snd (onMove env sock payload now s)"
| "handleEvent env sock ResignEvent payload now s = snd (onResign env sock payload now s)"
| "handleEvent env sock DrawOfferEvent payload now s = snd (onDrawOffer env sock payload s)"
| "handleEvent env sock DrawAcceptEvent payload now s = snd (onDrawAccept env sock payload now s)"
| "handleEvent env sock AbortEvent payload now s = snd (onAbort env sock payload now s)"
| "handleEvent env sock ClaimTimeoutEvent payload now s = snd (onClaimTimeout env sock payload now s)"

lemma keeps_simple:
  assumes "\<And>u gid'. gwUser s sock = Some u \<Longrightarrow> gameRef payload = Some gid' \<Longrightarrow> keeps f (act u gid') s"
  shows "keeps f (simpleGameAction sock payload act) s"
  using assms unfolding simpleGameAction_def
  by (auto intro!: keeps_intros split: option.split)

lemma onJoin_keeps: "keeps (gwGame gid) (onJoin env sock payload now) s"
  unfolding onJoin_def
  by (auto intro!: keeps_intros keeps_register keeps_putRooms split: option.split sum.split)

lemma onMove_keeps:
  assumes "\<And>u gid' uci t. gwUser s sock = Some u \<Longrightarrow> keeps (gameOf gid) (makeMove env u gid' uci now) (gwPlay s)"
  shows "keeps (gwGame gid) (onMove env sock payload now) s"
proof (cases "gwUser s sock")
  case None
  then show ?thesis by (simp add: onMove_def keeps_def bindS_def)
next
  case (Some u)
  obtain ok t where a: "allowMove sock now s = (Inr ok, t)" by (cases "countMove now (gwWindows s sock)") (auto simp: allowMove_def bindS_def)
  have play: "gwPlay t = gwPlay s" using framesD [OF allowMove_frames, of sock now s] a by simp
  have "keeps (gwGame gid) (if \<not> ok then returnS (AckError RATE_LIMITED None)
         else case moveIntent payload of
           None \<Rightarrow> returnS (AckError ILLEGAL_MOVE None)
         | Some (gid, uci) \<Rightarrow>
             bindS (onPlay (makeMove env u gid uci now)) (\<lambda>result. case result of
               MoveRejected code resync ended \<Rightarrow>
                 bindS (case ended of None \<Rightarrow> returnS () | Some e \<Rightarrow> announceEnd gid e) (\<lambda>_.
                 returnS (AckError code resync))
             | MoveOk move ended \<Rightarrow>
                 bindS (send (Room gid) (MoveMadeMsg move)) (\<lambda>_.
                 bindS (case ended of Some e \<Rightarrow> announceEnd gid e | None \<Rightarrow> armClockTimers gid (mmClock move) now) (\<lambda>_.
                 returnS (AckOk (mmPly move, mmClock move)))))) t"
    using assms [OF Some, folded play]
    by (auto intro!: keeps_intros gateway_frames [THEN keeps_gwPlay] split: option.split MoveResult.split)
  then show ?thesis using Some a play by (simp add: onMove_def keeps_def bindS_def gwGame_def)
qed

text \<open>
  C17. Only a player changes a game. Whatever a client sends, in whatever state, when the row or the moves of a
  game are different afterwards, its socket had shown a valid token, the user of the token is one of the
  two players of that game, and the game was active.
\<close>

theorem only_players_change_a_game:
  assumes "gwGame gid (handleEvent env sock event payload now s) \<noteq> gwGame gid s"
  shows "\<exists>u g. gwUser s sock = Some u \<and> pdGames (gwPlay s) gid = Some g \<and> gmStatus g = ACTIVE \<and> sideOf env u g \<noteq> None"
proof (rule ccontr)
  assume no: "\<not> ?thesis"
  have not: "\<not> mayAct env u gid (gwPlay s)" if "gwUser s sock = Some u" for u using no that by (auto simp: mayAct_def)
  note kept = keeps_onPlay [OF others_keep(1) [OF disjI2 [OF not]]] keeps_onPlay [OF others_keep(2) [OF disjI2 [OF not]]]
    keeps_onPlay [OF others_keep(3) [OF disjI2 [OF not]]] keeps_onPlay [OF others_keep(4) [OF disjI2 [OF not]]]
    keeps_onPlay [OF others_keep(5) [OF disjI2 [OF not]]]
  have "keeps (gwGame gid) (onMove env sock payload now) s" by (rule onMove_keeps) (rule others_keep(6) [OF disjI2 [OF not]])
  moreover have "keeps (gwGame gid) (onResign env sock payload now) s" "keeps (gwGame gid) (onDrawAccept env sock payload now) s"
    "keeps (gwGame gid) (onAbort env sock payload now) s" "keeps (gwGame gid) (onDrawOffer env sock payload) s"
    unfolding onResign_def onDrawAccept_def onAbort_def onDrawOffer_def
    by (rule keeps_simple, rule keeps_bind, erule kept, rule keeps_gwPlay, rule gateway_frames)+
  moreover have "keeps (gwGame gid) (onClaimTimeout env sock payload now) s"
    unfolding onClaimTimeout_def
    by (auto intro!: keeps_intros gateway_frames [THEN keeps_gwPlay] others_keep(4) not split: option.split ClaimAnswer.split)
  ultimately show False using assms onJoin_keeps [of gid env sock payload now s] by (cases event) (simp_all add: keeps_def)
qed

text \<open>A game just opened by a challenge, with a socket for each of its players.\<close>

definition gamePayload :: JsonValue where
  "gamePayload = JObject (\<lambda>k. if k = ''gameId'' then Some (JString ''0'') else None)"

definition joining :: "string \<Rightarrow> string \<Rightarrow> int \<Rightarrow> GwState \<Rightarrow> GwState" where
  "joining sock u now s = snd (onJoin rookEnv sock gamePayload now (snd (handleConnection Some sock (Some u) s)))"

definition bothJoined :: GwState where
  "bothJoined = joining ''sK'' ''ub'' 15000 (joining ''sA'' ''uw'' 10000 (idleGateway\<lparr>gwPlay := challenged\<rparr>))"

lemma gamePayload_ref: "gameRef gamePayload = Some ''0''"
  by (simp add: gameRef_def stringField_def gamePayload_def)

lemma register_eval:
  assumes "gwGraces s gid side = None"
  shows "registerPlayerSocket sock gid side s =
     (Inr (), s\<lparr>gwSocketsByGame := (gwSocketsByGame s)(gid := Some ((case gwSocketsByGame s gid of None \<Rightarrow> noSockets | Some x \<Rightarrow> x)
           (side := List.insert sock ((case gwSocketsByGame s gid of None \<Rightarrow> noSockets | Some x \<Rightarrow> x) side)))),
         gwGamesBySocket := (gwGamesBySocket s)(sock := Some (mapSet gid side (case gwGamesBySocket s sock of None \<Rightarrow> [] | Some x \<Rightarrow> x))),
         gwPlay := snd (clearGone gid side (snd (setPresence gid side (gwPlay s))))\<rparr>)"
  using assms
  by (simp add: registerPlayerSocket_def bindS_def registerSocket_def onPlay_def setPresence_def clearGone_def opponentIsBack_def
      clearGrace_def Let_def)

lemma joining_eval:
  assumes "pdGames (gwPlay s) ''0'' = Some sampleGame" "pdMoves (gwPlay s) ''0'' = []" "sideOf rookEnv u sampleGame = Some side"
    "gwGraces s ''0'' side = None"
  shows "\<exists>c n r. joining sock u now s = snd (registerPlayerSocket sock ''0'' side
     (s\<lparr>gwUser := (gwUser s)(sock := Some u), gwCounted := c, gwConnections := n, gwRooms := r\<rparr>))"
proof -
  let ?c = "(gwCounted s)(sock := True)" and ?n = "max 0 (gwConnections s + 1)" and ?r = "(sock, ''user:'' @ u) # gwRooms s"
  let ?s1 = "s\<lparr>gwCounted := ?c, gwConnections := ?n, gwUser := (gwUser s)(sock := Some u), gwRooms := ?r\<rparr>"
  let ?s2 = "?s1\<lparr>gwRooms := (sock, ''game:'' @ ''0'') # ?r\<rparr>"
  have "handleConnection Some sock (Some u) s = (Inr (), ?s1)"
    by (simp add: handleConnection_def bindS_def trackWsConnections_def)
  moreover obtain v where v: "getGameView rookEnv ''0'' (Some u) now (gwPlay s) = Inr v" "gvViewer v = Some side" "gmStatus (grGame (gvRow v)) = ACTIVE"
    using assms(1-3) challenged_facts(3)
    by (simp add: getGameView_def findGame_def toGameRow_def clockPayloadFor_def Let_def listMoves_def)
  moreover obtain s' where "registerPlayerSocket sock ''0'' side ?s2 = (Inr (), s')" using assms(4) by (simp add: register_eval)
  ultimately have "joining sock u now s = snd (registerPlayerSocket sock ''0'' side ?s2)"
    by (simp add: joining_def onJoin_def gamePayload_ref acked_def bindS_def)
  moreover have "?s2 = s\<lparr>gwUser := (gwUser s)(sock := Some u), gwCounted := ?c, gwConnections := ?n, gwRooms := (sock, ''game:'' @ ''0'') # ?r\<rparr>"
    by simp
  ultimately show ?thesis by metis
qed

lemma joining_facts:
  assumes "pdGames (gwPlay s) ''0'' = Some sampleGame" "pdMoves (gwPlay s) ''0'' = []" "sideOf rookEnv u sampleGame = Some side"
    "gwGraces s ''0'' side = None"
  shows "gwPlay (joining sock u now s) = snd (clearGone ''0'' side (snd (setPresence ''0'' side (gwPlay s))))"
    "gwUser (joining sock u now s) = (gwUser s)(sock := Some u)" "gwGraces (joining sock u now s) = gwGraces s"
    "gwSocketsByGame (joining sock u now s) ''0'' = Some ((case gwSocketsByGame s ''0'' of None \<Rightarrow> noSockets | Some x \<Rightarrow> x)
       (side := List.insert sock ((case gwSocketsByGame s ''0'' of None \<Rightarrow> noSockets | Some x \<Rightarrow> x) side)))"
    "gwGamesBySocket (joining sock u now s) = (gwGamesBySocket s)(sock := Some (mapSet ''0'' side (case gwGamesBySocket s sock of None \<Rightarrow> [] | Some x \<Rightarrow> x)))"
  using joining_eval [OF assms, of sock now] assms(4) by (auto simp: register_eval)

definition presentPlay :: PlayDb where
  "presentPlay = snd (clearGone ''0'' B (snd (setPresence ''0'' B (snd (clearGone ''0'' W (snd (setPresence ''0'' W challenged)))))))"

lemma presentPlay_facts:
  "pdGames presentPlay ''0'' = Some sampleGame" "pdMoves presentPlay ''0'' = []" "rdPresence presentPlay ''0'' W" "rdPresence presentPlay ''0'' B"
  "rdGoneIndex presentPlay = []"
  by (simp_all add: presentPlay_def clearGone_def setPresence_def challenged_facts) (code_simp+)

lemma bothJoined_facts:
  "gwPlay bothJoined = presentPlay" "gwUser bothJoined = (\<lambda>_. None)(''sA'' := Some ''uw'', ''sK'' := Some ''ub'')"
  "gwGraces bothJoined = (\<lambda>_ _. None)" "gwSocketsByGame bothJoined ''0'' = Some (noSockets(W := [''sA''], B := [''sK'']))"
  "gwGamesBySocket bothJoined ''sA'' = Some [(''0'', W)]"
proof -
  let ?s0 = "idleGateway\<lparr>gwPlay := challenged\<rparr>"
  let ?s1 = "joining ''sA'' ''uw'' 10000 ?s0"
  have zero: "pdGames (gwPlay ?s0) ''0'' = Some sampleGame" "pdMoves (gwPlay ?s0) ''0'' = []" "gwGraces ?s0 ''0'' W = None"
    by (simp_all add: challenged_facts idleGateway_def)
  note first = joining_facts [OF zero(1,2) challenged_facts(5) zero(3), of "''sA''" 10000]
  have one: "pdGames (gwPlay ?s1) ''0'' = Some sampleGame" "pdMoves (gwPlay ?s1) ''0'' = []" "gwGraces ?s1 ''0'' B = None"
    using zero unfolding first by (simp_all add: clearGone_def setPresence_def idleGateway_def)
  note second = joining_facts [OF one(1,2) challenged_facts(6) one(3), of "''sK''" 15000, folded bothJoined_def]
  show "gwPlay bothJoined = presentPlay" unfolding second(1) first(1) presentPlay_def by simp
  show "gwUser bothJoined = (\<lambda>_. None)(''sA'' := Some ''uw'', ''sK'' := Some ''ub'')"
    unfolding second(2) first(2) by (simp add: idleGateway_def)
  show "gwGraces bothJoined = (\<lambda>_ _. None)" unfolding second(3) first(3) by (simp add: idleGateway_def)
  show "gwSocketsByGame bothJoined ''0'' = Some (noSockets(W := [''sA''], B := [''sK'']))"
    unfolding second(4) first(4) by (simp add: idleGateway_def noSockets_def fun_upd_def)
  show "gwGamesBySocket bothJoined ''sA'' = Some [(''0'', W)]"
    unfolding second(5) first(5) by (simp add: idleGateway_def)
qed

lemma only_players_change_a_game_witness:
  "map_option gmStatus (fst (gwGame ''0'' (handleEvent rookEnv ''sA'' ResignEvent gamePayload 16000 bothJoined))) = Some RESIGNATION \<and>
   (\<exists>u g. gwUser bothJoined ''sA'' = Some u \<and> pdGames (gwPlay bothJoined) ''0'' = Some g \<and> gmStatus g = ACTIVE \<and> sideOf rookEnv u g \<noteq> None)"
proof
  let ?game = "toGameRow ''0'' sampleGame 0"
  have req: "requireActivePlayer rookEnv ''uw'' ''0'' presentPlay = Inr (?game, W)"
    by (simp add: requireActivePlayer_def findGame_def presentPlay_facts challenged_facts toGameRow_def)
  obtain p where p: "planResign rookEnv ''uw'' ''0'' 16000 (atOnce presentPlay) = Inr p" "fpGame p = ?game" "fiStatus (fpInput p) = RESIGNATION"
    using req by (simp add: planResign_def atOnce_def planNoMove_def Let_def toGameRow_def)
  obtain t where t: "runFinish p 16000 presentPlay = (Inr (Some (endedPayload p 16000)), t)"
    "pdGames t = (pdGames presentPlay)(''0'' := Some (finishedColumns (fpInput p) 16000 sampleGame))"
    using runFinish_active [of presentPlay p sampleGame 16000] p(2) presentPlay_facts(1) challenged_facts(3)
    by (auto simp: toGameRow_def)
  have "resign rookEnv ''uw'' ''0'' 16000 presentPlay = (Inr (endedPayload p 16000), t)"
    using p(1) t(1) by (simp add: resign_def planned_def bindS_def requireFinished_def)
  moreover obtain t' where "announceEnd ''0'' (endedPayload p 16000) (bothJoined\<lparr>gwPlay := t\<rparr>) = (Inr (), t')" "gwPlay t' = t"
    by (rule announceEnd_eval [of "''0''" "endedPayload p 16000" "bothJoined\<lparr>gwPlay := t\<rparr>"]) simp
  ultimately have "gwPlay (handleEvent rookEnv ''sA'' ResignEvent gamePayload 16000 bothJoined) = t"
    by (simp add: onResign_def simpleGameAction_def bindS_def bothJoined_facts gamePayload_ref acked_def onPlay_def)
  then show after: "map_option gmStatus (fst (gwGame ''0'' (handleEvent rookEnv ''sA'' ResignEvent gamePayload 16000 bothJoined))) = Some RESIGNATION"
    using t(2) p(3) by (simp add: gwGame_def gameOf_def finishedColumns_def)
  have "map_option gmStatus (fst (gwGame ''0'' bothJoined)) = Some ACTIVE"
    by (simp add: gwGame_def gameOf_def bothJoined_facts presentPlay_facts challenged_facts)
  then have "gwGame ''0'' (handleEvent rookEnv ''sA'' ResignEvent gamePayload 16000 bothJoined) \<noteq> gwGame ''0'' bothJoined"
    using after by auto
  then show "\<exists>u g. gwUser bothJoined ''sA'' = Some u \<and> pdGames (gwPlay bothJoined) ''0'' = Some g \<and> gmStatus g = ACTIVE \<and> sideOf rookEnv u g \<noteq> None"
    by (rule only_players_change_a_game)
qed

section \<open>A short break\<close>

lemma sweep_single:
  assumes "rdGoneIndex q = [m]" "listGone [m] q = (Inr [x], q)"
  shows "snd (sweepAbandonedGames graceOverride now q) = snd (sweepGone graceOverride now x q)"
proof -
  obtain e t where "sweepGone graceOverride now x q = (e, t)" by (rule prod.exhaust)
  then show ?thesis using assms(2)
    by (cases e) (simp_all add: sweepAbandonedGames_def logged_def bindS_def assms(1) del: listGone.simps)
qed

text \<open>
  C18. A player who is connected loses as one who has gone. When his last socket closes the gateway waits for the
  game row before it writes to Redis that he has gone, and does not look again: a new socket that joins in
  between is registered and sets the presence, and then the presence is taken away and the mark of the
  gone player is set. The timer of the grace period finds him connected and does nothing, but the
  sweep, which knows only Redis, ends the game as abandoned and gives it to the opponent.
\<close>

theorem connected_player_abandoned:
  "let dropped = dropPlayerSocket ''sA'' ''0'' W (snd (dropSocket ''sA'' bothJoined));
       again = joining ''sB'' ''uw'' 20000 (snd dropped);
       gone = snd (playerGone None (the (activeGame ''0'' (gwPlay (snd dropped)))) ''0'' W 20050 again)
   in fst dropped = Inr True \<and> activeGame ''0'' (gwPlay (snd dropped)) \<noteq> None \<and>
      connected ''0'' W gone \<and> onGraceExpired ''0'' W 30050 gone = (Inr (), gone) \<and>
      map_option (\<lambda>g. (gmStatus g, gmWinnerColor g)) (pdGames (snd (sweepAbandonedGames None 35100 (gwPlay gone))) ''0'')
        = Some (ABANDONED, Some BLACK)"
proof -
  define dropped where "dropped = dropPlayerSocket ''sA'' ''0'' W (snd (dropSocket ''sA'' bothJoined))"
  define again where "again = joining ''sB'' ''uw'' 20000 (snd dropped)"
  define gone where "gone = snd (playerGone None (the (activeGame ''0'' (gwPlay (snd dropped)))) ''0'' W 20050 again)"
  let ?game = "toGameRow ''0'' sampleGame 0"
  have active: "activeGame ''0'' p = Some ?game" if "pdGames p ''0'' = Some sampleGame" "pdMoves p ''0'' = []" for p
    using that by (simp add: activeGame_def findGame_def toGameRow_def challenged_facts)
  have d: "fst dropped = Inr True" "gwPlay (snd dropped) = presentPlay" "gwGraces (snd dropped) = (\<lambda>_ _. None)"
    "gwSocketsByGame (snd dropped) ''0'' = Some (noSockets(W := [], B := [''sK'']))"
    by (cases "gwCounted bothJoined ''sA''";
        simp add: dropped_def dropPlayerSocket_def dropSocket_def bindS_def trackWsConnections_def bothJoined_facts fun_upd_twist)+
  have p: "pdGames (gwPlay (snd dropped)) ''0'' = Some sampleGame" "pdMoves (gwPlay (snd dropped)) ''0'' = []"
    by (simp_all add: d(2) presentPlay_facts)
  note rejoined = joining_facts [OF p challenged_facts(5), of "''sB''" 20000, folded again_def]
  have b: "gwPlay again = snd (clearGone ''0'' W (snd (setPresence ''0'' W presentPlay)))"
    "gwSocketsByGame again ''0'' = Some (noSockets(W := [''sB''], B := [''sK'']))"
    using d(3) rejoined by (simp_all add: d(2,4) fun_upd_twist)
  define q where "q = snd (markGone ''0'' W 20050 (snd (clearPresence ''0'' W (gwPlay again))))"
  have g: "gwPlay gone = q" "gwSocketsByGame gone = gwSocketsByGame again"
    unfolding gone_def q_def
    by (simp_all add: playerGone_def bindS_def onPlay_def clearPresence_def markGone_def armGrace_def Let_def send_def scheduleGrace_def
        clearGrace_def)
  have q: "pdGames q ''0'' = Some sampleGame" "pdMoves q ''0'' = []" "rdGoneIndex q = [(''0'', W)]" "rdGone q ''0'' W = Some 20050"
    "\<not> rdPresence q ''0'' W" "rdPresence q ''0'' B"
    by (simp_all add: q_def b(1) clearGone_def setPresence_def clearPresence_def markGone_def presentPlay_facts)
  have conn: "connected ''0'' W gone" by (simp add: connected_def g(2) b(2))
  have "onGraceExpired ''0'' W 30050 gone = (Inr (), gone)" using conn by (simp add: onGraceExpired_def bindS_def)
  moreover have "map_option (\<lambda>g. (gmStatus g, gmWinnerColor g)) (pdGames (snd (sweepAbandonedGames None 35100 q)) ''0'')
      = Some (ABANDONED, Some BLACK)"
  proof -
    obtain plan where plan: "planAbandon ''0'' W True 35100 (atOnce q) = Inr (Some plan)" "fpGame plan = ?game"
      "fiStatus (fpInput plan) = ABANDONED" "fiWinnerColor (fpInput plan) = Some BLACK"
      using active [OF q(1,2)] by (simp add: planAbandon_def atOnce_def planNoMove_def Let_def toGameRow_def)
    obtain t where t: "runFinish plan 35100 q = (Inr (Some (endedPayload plan 35100)), t)"
      "pdGames t = (pdGames q)(''0'' := Some (finishedColumns (fpInput plan) 35100 sampleGame))"
      using runFinish_active [of q plan sampleGame 35100] plan(2) q(1) challenged_facts(3) by (auto simp: toGameRow_def)
    have "abandonAfterDisconnect ''0'' W True 35100 q = (Inr (Some (endedPayload plan 35100)), t)"
      using plan(1) t(1) by (simp add: abandonAfterDisconnect_def planned_def bindS_def)
    moreover have "gmTimeCategory (grGame ?game) = BULLET" by code_simp
    ultimately have "pdGames (snd (sweepGone None 35100 (''0'', W, 20050) q)) = pdGames t"
      using active [OF q(1,2)] q(5,6)
      by (simp add: sweepGone_def bindS_def isPresent_def graceMsFor_def GRACE_SWEEP_SLACK_MS_def clearGone_def emit_def)
    moreover have "listGone [(''0'', W)] q = (Inr [(''0'', W, 20050)], q)" using q(4) by (simp add: bindS_def)
    ultimately have "pdGames (snd (sweepAbandonedGames None 35100 q)) = pdGames t"
      using sweep_single [OF q(3)] by simp
    then show ?thesis using t(2) plan(3,4) by (simp add: finishedColumns_def)
  qed
  ultimately show ?thesis
    using d(1) active [OF p] conn unfolding Let_def dropped_def [symmetric] again_def [symmetric] gone_def [symmetric] g(1) by simp
qed

end
