(* ===== verification/Glicko.thy ===== *)
theory Glicko
  imports Prelude
begin

text \<open>
  The rating calculator, \<^verbatim>\<open>src/core/rating/glicko2.service.ts\<close> with the types of
  \<^verbatim>\<open>glicko2.types.ts\<close>. Doubles are real numbers here and the functions of \<^verbatim>\<open>Math\<close> those of
  analysis, so what is proved is the algorithm without its rounding. The two loops carry their own
  counters and throw when a counter runs over, as the code does; both are total for that reason.
\<close>

section \<open>Types\<close>

record RatingSnapshot =
  snRating :: real
  snDeviation :: real
  snVolatility :: real

text \<open>The scores \<^verbatim>\<open>0 | 0.5 | 1\<close>.\<close>

datatype GameScore = Lost | Drawn | Won

fun scoreValue :: "GameScore \<Rightarrow> real" where
  "scoreValue Lost = 0"
| "scoreValue Drawn = 1 / 2"
| "scoreValue Won = 1"

record MatchOutcome =
  moOpponent :: RatingSnapshot
  moScore :: GameScore

record Glicko2Config =
  gcTau :: real
  gcEpsilon :: real
  gcMaxIterations :: nat
  gcDefault :: RatingSnapshot

definition DEFAULT_GLICKO2_CONFIG :: Glicko2Config where
  "DEFAULT_GLICKO2_CONFIG = \<lparr>gcTau = 0.5, gcEpsilon = 0.000001, gcMaxIterations = 100,
     gcDefault = \<lparr>snRating = 1500, snDeviation = 350, snVolatility = 0.06\<rparr>\<rparr>"

definition GLICKO2_SCALE :: real where
  "GLICKO2_SCALE = 173.7178"

datatype ConvergenceError = Glicko2ConvergenceError nat

definition MIN_RATING :: real where "MIN_RATING = 100"
definition MIN_RD :: real where "MIN_RD = 30"
definition MAX_RD :: real where "MAX_RD = 350"
definition MIN_VOLATILITY :: real where "MIN_VOLATILITY = 0.01"
definition MAX_VOLATILITY :: real where "MAX_VOLATILITY = 0.1"
definition MAX_BRACKET_STEPS :: nat where "MAX_BRACKET_STEPS = 100"

section \<open>The volatility\<close>

text \<open>The function whose zero is sought; \<open>x\<close> is the logarithm of the variance.\<close>

definition volatilityF :: "real \<Rightarrow> real \<Rightarrow> real \<Rightarrow> real \<Rightarrow> real \<Rightarrow> real \<Rightarrow> real" where
  "volatilityF deltaSq phiSq v a tau x =
     (let ex = exp x; denom = phiSq + v + ex
      in (ex * (deltaSq - phiSq - v - ex)) / (2 * denom * denom) - (x - a) / (tau * tau))"

text \<open>The search for the lower bound, from \<open>k\<close> on.\<close>

function bracketFrom :: "(real \<Rightarrow> real) \<Rightarrow> real \<Rightarrow> real \<Rightarrow> nat \<Rightarrow> ConvergenceError + real" where
  "bracketFrom f a tau k =
     (if f (a - real k * tau) < 0 then
        if Suc k > MAX_BRACKET_STEPS then Inl (Glicko2ConvergenceError (Suc k)) else bracketFrom f a tau (Suc k)
      else Inr (a - real k * tau))"
  by pat_completeness auto
termination by (relation "measure (\<lambda>(f, a, tau, k). MAX_BRACKET_STEPS - k)") auto

function illinois ::
  "(real \<Rightarrow> real) \<Rightarrow> real \<Rightarrow> nat \<Rightarrow> real \<Rightarrow> real \<Rightarrow> real \<Rightarrow> real \<Rightarrow> nat \<Rightarrow> ConvergenceError + real" where
  "illinois f epsilon maxIterations A B fA fB iterations =
     (if \<bar>B - A\<bar> > epsilon then
        if Suc iterations > maxIterations then Inl (Glicko2ConvergenceError (Suc iterations))
        else let C = A + ((A - B) * fA) / (fB - fA); fC = f C
             in if fC * fB \<le> 0 then illinois f epsilon maxIterations B C fB fC (Suc iterations)
                else illinois f epsilon maxIterations A C (fA / 2) fC (Suc iterations)
      else Inr A)"
  by pat_completeness auto
termination by (relation "measure (\<lambda>(f, epsilon, maxIterations, A, B, fA, fB, iterations). maxIterations - iterations)") auto

declare bracketFrom.simps [simp del] illinois.simps [simp del]

definition solveVolatility :: "Glicko2Config \<Rightarrow> real \<Rightarrow> real \<Rightarrow> real \<Rightarrow> real \<Rightarrow> ConvergenceError + real" where
  "solveVolatility config delta phi v sigma =
     (let deltaSq = delta * delta; phiSq = phi * phi; a = ln (sigma * sigma);
          f = volatilityF deltaSq phiSq v a (gcTau config)
      in bindE (if deltaSq > phiSq + v then Inr (ln (deltaSq - phiSq - v)) else bracketFrom f a (gcTau config) 1) (\<lambda>b.
         bindE (illinois f (gcEpsilon config) (gcMaxIterations config) a b (f a) (f b) 0) (\<lambda>x.
         Inr (exp (x / 2)))))"

section \<open>One period of one player\<close>

text \<open>\<^verbatim>\<open>g\<close> and \<^verbatim>\<open>E\<close>.\<close>

definition weightG :: "real \<Rightarrow> real" where
  "weightG phi = 1 / sqrt (1 + (3 * phi * phi) / (pi * pi))"

definition expectedE :: "real \<Rightarrow> real \<Rightarrow> real \<Rightarrow> real" where
  "expectedE mu muJ gJ = 1 / (1 + exp (- gJ * (mu - muJ)))"

definition clampRating :: "real \<Rightarrow> real \<Rightarrow> real \<Rightarrow> RatingSnapshot" where
  "clampRating rating deviation volatility =
     \<lparr>snRating = max MIN_RATING rating, snDeviation = min MAX_RD (max MIN_RD deviation),
      snVolatility = min MAX_VOLATILITY (max MIN_VOLATILITY volatility)\<rparr>"

text \<open>A game on the inner scale: weight, expectation, score.\<close>

definition toGame :: "real \<Rightarrow> MatchOutcome \<Rightarrow> real \<times> real \<times> real" where
  "toGame mu outcome =
     (let muJ = (snRating (moOpponent outcome) - 1500) / GLICKO2_SCALE;
          gJ = weightG (snDeviation (moOpponent outcome) / GLICKO2_SCALE)
      in (gJ, expectedE mu muJ gJ, scoreValue (moScore outcome)))"

definition compute :: "Glicko2Config \<Rightarrow> RatingSnapshot \<Rightarrow> MatchOutcome list \<Rightarrow> ConvergenceError + RatingSnapshot" where
  "compute config current outcomes =
     (let mu = (snRating current - 1500) / GLICKO2_SCALE; phi = snDeviation current / GLICKO2_SCALE;
          sigma = snVolatility current
      in if outcomes = [] then
           let phiStar = sqrt (phi * phi + sigma * sigma)
           in Inr (clampRating (snRating current) (phiStar * GLICKO2_SCALE) sigma)
         else
           let games = map (toGame mu) outcomes;
               vInv = sum_list (map (\<lambda>(gJ, eJ, s). gJ * gJ * eJ * (1 - eJ)) games);
               v = 1 / vInv;
               outcomeSum = sum_list (map (\<lambda>(gJ, eJ, s). gJ * (s - eJ)) games);
               delta = v * outcomeSum
           in bindE (solveVolatility config delta phi v sigma) (\<lambda>sigmaPrime.
              let phiStar = sqrt (phi * phi + sigmaPrime * sigmaPrime);
                  phiPrime = 1 / sqrt (1 / (phiStar * phiStar) + 1 / v);
                  muPrime = mu + phiPrime * phiPrime * outcomeSum
              in Inr (clampRating (GLICKO2_SCALE * muPrime + 1500) (GLICKO2_SCALE * phiPrime) sigmaPrime)))"

end
