(* ===== verification/GlickoProps.thy ===== *)
theory GlickoProps
  imports Glicko
begin

text \<open>
  What the rating calculator computes: the volatility it returns is within the tolerance of a zero of
  Glickman's function, the search for the first bracket succeeds at once, the result obeys the
  bounds its port promises and does not depend on the order of the games, and the rating moves with
  the results. The port itself is a locale, interpreted on the calculator at the end.
\<close>

section \<open>The search for the volatility\<close>

lemma volatilityF_continuous:
  assumes "0 \<le> phiSq" "0 < v" "tau \<noteq> 0"
  shows "isCont (volatilityF deltaSq phiSq v a tau) x"
proof -
  have D: "0 < phiSq + v + exp x" using assms exp_gt_zero [of x] by linarith
  have "0 < 2 * (phiSq + v + exp x) * (phiSq + v + exp x)" by (rule mult_pos_pos, rule mult_pos_pos) (use D in simp_all)
  then have "2 * (phiSq + v + exp x) * (phiSq + v + exp x) \<noteq> 0" by (rule less_imp_neq [THEN not_sym])
  moreover have "tau * tau \<noteq> 0" using assms(3) by simp
  ultimately show ?thesis unfolding volatilityF_def Let_def by (intro continuous_intros)
qed

lemma root_between:
  fixes f :: "real \<Rightarrow> real"
  assumes "\<And>x. isCont f x" "f A * f B \<le> 0"
  shows "\<exists>x. f x = 0 \<and> \<bar>A - x\<bar> \<le> \<bar>B - A\<bar>"
proof -
  have between: "\<exists>x\<ge>l. x \<le> u \<and> f x = 0" if "l \<le> u" "f l * f u \<le> 0" for l u
  proof (cases "f l \<le> 0")
    case True
    show ?thesis
    proof (cases "f l = 0")
      case True
      then show ?thesis using that(1) by blast
    next
      case False
      then have "0 \<le> f u" using True that(2) by (simp add: mult_le_0_iff)
      then show ?thesis using IVT [of f l 0 u] True that(1) assms(1) by blast
    qed
  next
    case False
    then have "f u \<le> 0" using that(2) by (simp add: mult_le_0_iff)
    then show ?thesis using False IVT2 [of f u 0 l] that(1) assms(1) by fastforce
  qed
  show ?thesis
  proof (cases "A \<le> B")
    case True
    then obtain x where "A \<le> x" "x \<le> B" "f x = 0" using between assms(2) by blast
    then show ?thesis by (intro exI [of _ x]) simp
  next
    case False
    then obtain x where "B \<le> x" "x \<le> A" "f x = 0" using between [of B A] assms(2) by (auto simp: mult.commute)
    then show ?thesis by (intro exI [of _ x]) simp
  qed
qed

text \<open>
  The weight of the end that stays is halved, which keeps its sign: the two ends enclose a zero all
  the time.
\<close>

lemma illinois_root:
  "illinois f epsilon maxIt A B fA fB n = Inr r \<Longrightarrow> (\<And>x. isCont f x) \<Longrightarrow> sgn fA = sgn (f A) \<Longrightarrow> fB = f B \<Longrightarrow>
    f A * f B \<le> 0 \<Longrightarrow> \<exists>x. f x = 0 \<and> \<bar>r - x\<bar> \<le> epsilon"
proof (induction f epsilon maxIt A B fA fB n rule: illinois.induct)
  case (1 f epsilon maxIt A B fA fB n)
  show ?case
  proof (cases "\<bar>B - A\<bar> > epsilon")
    case False
    then have "r = A" using "1.prems"(1) by (subst (asm) illinois.simps) simp
    moreover obtain x where "f x = 0" "\<bar>A - x\<bar> \<le> \<bar>B - A\<bar>" using root_between "1.prems"(2,5) by blast
    ultimately show ?thesis using False by (intro exI [of _ x]) simp
  next
    case True
    define C where "C = A + ((A - B) * fA) / (fB - fA)"
    have le: "\<not> Suc n > maxIt" using "1.prems"(1) True by (subst (asm) illinois.simps) (auto split: if_splits)
    show ?thesis
    proof (cases "f C * fB \<le> 0")
      case True': True
      have "illinois f epsilon maxIt B C fB (f C) (Suc n) = Inr r"
        using "1.prems"(1) True le True' by (subst (asm) illinois.simps) (simp add: Let_def flip: C_def)
      then show ?thesis
        using "1.IH"(1) [OF True le C_def refl True'] "1.prems"(2,4) True' by (simp add: mult.commute)
    next
      case False
      have "illinois f epsilon maxIt A C (fA / 2) (f C) (Suc n) = Inr r"
        using "1.prems"(1) True le False by (subst (asm) illinois.simps) (simp add: Let_def flip: C_def)
      moreover have "f A * f C \<le> 0"
        using False "1.prems"(4,5) by (auto simp: mult_le_0_iff not_le zero_less_mult_iff)
      ultimately show ?thesis
        using "1.IH"(2) [OF True le C_def refl False] "1.prems"(2,3) by (simp add: sgn_divide)
    qed
  qed
qed

lemma illinois_stop: "\<bar>B - A\<bar> \<le> epsilon \<Longrightarrow> illinois f epsilon maxIt A B fA fB n = Inr A"
  by (subst illinois.simps) simp

lemma illinois_Inl: "illinois f epsilon maxIt A B fA fB n = Inl e \<Longrightarrow> n \<le> maxIt \<Longrightarrow> e = Glicko2ConvergenceError (Suc maxIt)"
proof (induction f epsilon maxIt A B fA fB n rule: illinois.induct)
  case (1 f epsilon maxIt A B fA fB n)
  have *: "\<bar>B - A\<bar> > epsilon" using "1.prems"(1) by (subst (asm) illinois.simps) (auto split: if_splits)
  show ?case
  proof (cases "Suc n > maxIt")
    case True
    then have "n = maxIt" using "1.prems"(2) by simp
    then show ?thesis using "1.prems"(1) * by (subst (asm) illinois.simps) simp
  next
    case False
    define C where "C = A + ((A - B) * fA) / (fB - fA)"
    show ?thesis
    proof (cases "f C * fB \<le> 0")
      case True
      have "illinois f epsilon maxIt B C fB (f C) (Suc n) = Inl e"
        using "1.prems"(1) * False True by (subst (asm) illinois.simps) (simp add: Let_def flip: C_def)
      then show ?thesis using "1.IH"(1) [OF * False C_def refl True] False by simp
    next
      case False': False
      have "illinois f epsilon maxIt A C (fA / 2) (f C) (Suc n) = Inl e"
        using "1.prems"(1) * False False' by (subst (asm) illinois.simps) (simp add: Let_def flip: C_def)
      then show ?thesis using "1.IH"(2) [OF * False C_def refl False'] False by simp
    qed
  qed
qed

text \<open>The first term of the function is never below minus one half, so one step of \<open>tau\<close> is enough.\<close>

lemma bracket_at_once:
  assumes "0 \<le> deltaSq" "0 \<le> phiSq" "0 < v" "0 < tau" "tau \<le> 2"
  shows "0 \<le> volatilityF deltaSq phiSq v a tau (a - tau)"
proof -
  define ex where "ex = exp (a - tau)"
  define D where "D = phiSq + v + ex"
  have "0 < ex" by (simp add: ex_def)
  then have "0 < D" "ex \<le> D" using assms by (simp_all add: D_def)
  have "- (1 / 2) \<le> - (ex / (2 * D))" using \<open>0 < D\<close> \<open>ex \<le> D\<close> by (simp add: field_simps)
  also have "\<dots> = ex * (- D) / (2 * D * D)" using \<open>0 < D\<close> by (simp add: field_simps)
  also have "\<dots> \<le> ex * (deltaSq - D) / (2 * D * D)"
    using \<open>0 < D\<close> \<open>0 < ex\<close> assms(1) by (intro divide_right_mono mult_left_mono) auto
  finally have "- (1 / 2) \<le> ex * (deltaSq - phiSq - v - ex) / (2 * D * D)" by (simp add: D_def algebra_simps)
  moreover have "1 / 2 \<le> tau / (tau * tau)" using assms(4,5) by (simp add: field_simps)
  ultimately show ?thesis by (simp add: volatilityF_def Let_def D_def ex_def)
qed

lemma bracketFrom_first:
  assumes "0 \<le> deltaSq" "0 \<le> phiSq" "0 < v" "0 < tau" "tau \<le> 2"
  shows "bracketFrom (volatilityF deltaSq phiSq v a tau) a tau 1 = Inr (a - tau)"
  using bracket_at_once [OF assms] by (subst bracketFrom.simps) (simp add: not_less [symmetric])

text \<open>
  The bound that the search starts with is on the other side of a zero.
\<close>

lemma bracket_encloses:
  assumes "0 \<le> deltaSq" "0 \<le> phiSq" "0 < v" "0 < tau" "tau \<le> 2"
    and "b = (if deltaSq > phiSq + v then ln (deltaSq - phiSq - v) else a - tau)"
  shows "volatilityF deltaSq phiSq v a tau a * volatilityF deltaSq phiSq v a tau b \<le> 0"
proof -
  let ?f = "volatilityF deltaSq phiSq v a tau"
  have den: "0 < 2 * (phiSq + v + exp x) * (phiSq + v + exp x)" for x :: real
    using assms exp_gt_zero [of x] by (intro mult_pos_pos) linarith+
  have fa: "?f a = (exp a * (deltaSq - phiSq - v - exp a)) / (2 * (phiSq + v + exp a) * (phiSq + v + exp a))"
    by (simp add: volatilityF_def Let_def)
  show ?thesis
  proof (cases "deltaSq > phiSq + v")
    case True
    then have b: "exp b = deltaSq - phiSq - v" using assms(6) by simp
    then have fb: "?f b = - ((b - a) / (tau * tau))" by (simp add: volatilityF_def Let_def)
    show ?thesis
    proof (cases "a \<le> b")
      case True
      then have "exp a \<le> exp b" by simp
      then have "0 \<le> deltaSq - phiSq - v - exp a" using b by simp
      then have "0 \<le> ?f a" unfolding fa using den [of a] by (intro divide_nonneg_pos mult_nonneg_nonneg) auto
      moreover have "?f b \<le> 0" unfolding fb using True by simp
      ultimately show ?thesis by (rule mult_nonneg_nonpos)
    next
      case False
      then have "exp b < exp a" by simp
      then have "deltaSq - phiSq - v - exp a \<le> 0" using b by simp
      then have "?f a \<le> 0" unfolding fa using den [of a] by (intro divide_nonpos_pos mult_nonneg_nonpos) auto
      moreover have "0 \<le> ?f b" unfolding fb using False by (simp add: divide_nonpos_nonneg)
      ultimately show ?thesis by (rule mult_nonpos_nonneg)
    qed
  next
    case False
    then have "deltaSq - phiSq - v - exp a \<le> 0" using exp_gt_zero [of a] by linarith
    then have "?f a \<le> 0" unfolding fa using den [of a] by (intro divide_nonpos_pos mult_nonneg_nonpos) auto
    moreover have "0 \<le> ?f b" using False assms bracket_at_once [OF assms(1-5)] by simp
    ultimately show ?thesis by (rule mult_nonpos_nonneg)
  qed
qed

lemma solveVolatility_eq:
  fixes delta phi sigma :: real and config :: Glicko2Config
  assumes "0 < v" "0 < gcTau config" "gcTau config \<le> 2"
  defines "f \<equiv> volatilityF (delta * delta) (phi * phi) v (ln (sigma * sigma)) (gcTau config)"
    and "b \<equiv> if delta * delta > phi * phi + v then ln (delta * delta - phi * phi - v) else ln (sigma * sigma) - gcTau config"
  shows "solveVolatility config delta phi v sigma =
    bindE (illinois f (gcEpsilon config) (gcMaxIterations config) (ln (sigma * sigma)) b (f (ln (sigma * sigma))) (f b) 0)
      (\<lambda>x. Inr (exp (x / 2)))"
proof -
  have "(if delta * delta > phi * phi + v then Inr (ln (delta * delta - phi * phi - v))
      else bracketFrom f (ln (sigma * sigma)) (gcTau config) 1) = (Inr b :: ConvergenceError + real)"
    unfolding f_def b_def using assms(1-3) by (simp add: bracketFrom_first [unfolded One_nat_def])
  then show ?thesis unfolding solveVolatility_def Let_def f_def [symmetric] by simp
qed

text \<open>
  The volatility is the one Glickman's procedure asks for. With the constant of a period within the limits
  the service accepts, and a variance of the results that is positive, the search can fail only by using up
  its iterations; the square of the volatility it returns otherwise has a logarithm within the tolerance of a zero
  of the function \<open>f\<close>. In particular the search for the first bracket, which the code guards with a hundred
  steps, never needs a second one.
\<close>

theorem volatility_solves_equation:
  assumes "0 < v" "0 < gcTau config" "gcTau config \<le> 2"
  shows "case solveVolatility config delta phi v sigma of
      Inl e \<Rightarrow> e = Glicko2ConvergenceError (Suc (gcMaxIterations config))
    | Inr s \<Rightarrow> 0 < s \<and> (\<exists>x. volatilityF (delta * delta) (phi * phi) v (ln (sigma * sigma)) (gcTau config) x = 0
                        \<and> \<bar>ln (s * s) - x\<bar> \<le> gcEpsilon config)"
proof -
  define a where "a = ln (sigma * sigma)"
  define f where "f = volatilityF (delta * delta) (phi * phi) v a (gcTau config)"
  define b where "b = (if delta * delta > phi * phi + v then ln (delta * delta - phi * phi - v) else a - gcTau config)"
  define r where "r = illinois f (gcEpsilon config) (gcMaxIterations config) a b (f a) (f b) 0"
  have eq: "solveVolatility config delta phi v sigma = bindE r (\<lambda>x. Inr (exp (x / 2)))"
    unfolding r_def f_def b_def a_def by (rule solveVolatility_eq [OF assms])
  show ?thesis
  proof (cases r)
    case (Inl e)
    then show ?thesis using illinois_Inl [of f] unfolding eq r_def by simp
  next
    case (Inr x)
    have "isCont f y" for y unfolding f_def using assms(1,2) by (intro volatilityF_continuous) auto
    moreover have "f a * f b \<le> 0"
      unfolding f_def using assms b_def by (intro bracket_encloses) auto
    ultimately obtain z where "f z = 0" "\<bar>x - z\<bar> \<le> gcEpsilon config"
      using illinois_root [of f] Inr unfolding r_def by blast
    moreover have "ln (exp (x / 2) * exp (x / 2)) = x" by (simp flip: exp_add)
    ultimately show ?thesis unfolding eq Inr f_def a_def by auto
  qed
qed

lemma volatility_solves_equation_witness:
  "solveVolatility (DEFAULT_GLICKO2_CONFIG\<lparr>gcMaxIterations := 0\<rparr>) 0 1 1 1 = Inl (Glicko2ConvergenceError 1)"
proof -
  let ?c = "DEFAULT_GLICKO2_CONFIG\<lparr>gcMaxIterations := 0\<rparr>"
  have c: "gcTau ?c = 1 / 2" "gcEpsilon ?c = 1 / 1000000" "gcMaxIterations ?c = 0" by (simp_all add: DEFAULT_GLICKO2_CONFIG_def)
  have "\<exists>e. solveVolatility ?c 0 1 1 1 = Inl e"
    unfolding solveVolatility_eq [of 1 ?c 0 1 1, unfolded c, simplified]
    by (subst illinois.simps) (simp add: c)
  then show ?thesis using volatility_solves_equation [of 1 ?c 0 1 1] c by (auto split: sum.splits)
qed

section \<open>One period\<close>

text \<open>How much better the results are than expected, weighted, and what they tell at all.\<close>

definition surplus :: "RatingSnapshot \<Rightarrow> MatchOutcome list \<Rightarrow> real" where
  "surplus current outcomes =
     sum_list (map (\<lambda>(gJ, eJ, s). gJ * (s - eJ)) (map (toGame ((snRating current - 1500) / GLICKO2_SCALE)) outcomes))"

lemma scale_pos: "0 < GLICKO2_SCALE" by (simp add: GLICKO2_SCALE_def)

lemma compute_games:
  assumes "compute config current outcomes = Inr after" "outcomes \<noteq> []"
  shows "\<exists>deviation sigma w. 0 \<le> w \<and> after = clampRating (snRating current + w * surplus current outcomes) deviation sigma"
proof -
  define mu where "mu = (snRating current - 1500) / GLICKO2_SCALE"
  define phi where "phi = snDeviation current / GLICKO2_SCALE"
  define v where "v = 1 / sum_list (map (\<lambda>(gJ, eJ, s). gJ * gJ * eJ * (1 - eJ)) (map (toGame mu) outcomes))"
  define P where "P sigma = 1 / sqrt (1 / (sqrt (phi * phi + sigma * sigma) * sqrt (phi * phi + sigma * sigma)) + 1 / v)" for sigma
  have "bindE (solveVolatility config (v * surplus current outcomes) phi v (snVolatility current))
      (\<lambda>sigma. Inr (clampRating (GLICKO2_SCALE * (mu + P sigma * P sigma * surplus current outcomes) + 1500) (GLICKO2_SCALE * P sigma) sigma)) = Inr after"
    using assms unfolding compute_def Let_def surplus_def P_def mu_def [symmetric] phi_def [symmetric] v_def [symmetric] by simp
  then obtain phiPrime sigma where "after = clampRating (GLICKO2_SCALE * ((snRating current - 1500) / GLICKO2_SCALE
      + phiPrime * phiPrime * surplus current outcomes) + 1500) (GLICKO2_SCALE * phiPrime) sigma"
    unfolding mu_def by auto
  moreover have "GLICKO2_SCALE * ((snRating current - 1500) / GLICKO2_SCALE + phiPrime * phiPrime * surplus current outcomes) + 1500
      = snRating current + GLICKO2_SCALE * (phiPrime * phiPrime) * surplus current outcomes"
    using scale_pos by (simp add: distrib_left)
  moreover have "0 \<le> GLICKO2_SCALE * (phiPrime * phiPrime)" using scale_pos by simp
  ultimately show ?thesis by metis
qed

lemma clampRating_bounds:
  "100 \<le> snRating (clampRating r d v)" "30 \<le> snDeviation (clampRating r d v)" "snDeviation (clampRating r d v) \<le> 350"
  "1 / 100 \<le> snVolatility (clampRating r d v)" "snVolatility (clampRating r d v) \<le> 1 / 10"
  by (simp_all add: clampRating_def MIN_RATING_def MIN_RD_def MAX_RD_def MIN_VOLATILITY_def MAX_VOLATILITY_def)

lemma compute_clamped: "compute config current outcomes = Inr after \<Longrightarrow> \<exists>r d v. after = clampRating r d v"
  by (auto simp: compute_def Let_def split: if_splits)

lemma compute_mset: "mset xs = mset ys \<Longrightarrow> compute config current xs = compute config current ys"
proof -
  assume eq: "mset xs = mset ys"
  have sums: "sum_list (map f (map g xs)) = sum_list (map f (map g ys))" for f :: "real \<times> real \<times> real \<Rightarrow> real" and g
    using eq by (metis map_map mset_map sum_mset_sum_list)
  have "xs = [] \<longleftrightarrow> ys = []" using eq by auto
  then show ?thesis unfolding compute_def Let_def sums by simp
qed

text \<open>
  The port \<^verbatim>\<open>Glicko2Calculator\<close>: its guarantees, and what the batch over a period needs of it, that the
  order of the games does not matter.
\<close>

locale glicko2_calculator =
  fixes calc :: "RatingSnapshot \<Rightarrow> MatchOutcome list \<Rightarrow> 'e + RatingSnapshot"
  assumes bounded: "calc current outcomes = Inr after \<Longrightarrow>
      100 \<le> snRating after \<and> 30 \<le> snDeviation after \<and> snDeviation after \<le> 350 \<and>
      1 / 100 \<le> snVolatility after \<and> snVolatility after \<le> 1 / 10"
    and order_free: "mset xs = mset ys \<Longrightarrow> calc current xs = calc current ys"

interpretation glicko2: glicko2_calculator "compute config" for config
proof
  show "compute config current outcomes = Inr after \<Longrightarrow>
      100 \<le> snRating after \<and> 30 \<le> snDeviation after \<and> snDeviation after \<le> 350 \<and>
      1 / 100 \<le> snVolatility after \<and> snVolatility after \<le> 1 / 10" for current outcomes after
    using compute_clamped [of config current outcomes after] clampRating_bounds by metis
  show "mset xs = mset ys \<Longrightarrow> compute config current xs = compute config current ys" for xs ys current
    by (rule compute_mset)
qed

text \<open>
  The rating moves with the results. When the weighted results of a period are not worse than expected the rating does
  not fall, and when they are not better it does not rise, except to the floor of 100; without games it stays, and
  the deviation does not shrink.
\<close>

theorem rating_moves_with_results:
  assumes "compute config current outcomes = Inr after"
  shows "(0 \<le> surplus current outcomes \<longrightarrow> snRating current \<le> snRating after)
    \<and> (surplus current outcomes \<le> 0 \<longrightarrow> snRating after \<le> max 100 (snRating current))
    \<and> (outcomes = [] \<longrightarrow> min 350 (snDeviation current) \<le> snDeviation after)"
proof (cases "outcomes = []")
  case True
  have "snDeviation current \<le> \<bar>snDeviation current\<bar>" by simp
  also have "\<dots> = \<bar>snDeviation current / GLICKO2_SCALE\<bar> * GLICKO2_SCALE" using scale_pos by simp
  also have "\<dots> = sqrt ((snDeviation current / GLICKO2_SCALE)\<^sup>2) * GLICKO2_SCALE" by (simp only: real_sqrt_abs)
  also have "\<dots> \<le> sqrt (snDeviation current / GLICKO2_SCALE * (snDeviation current / GLICKO2_SCALE)
      + snVolatility current * snVolatility current) * GLICKO2_SCALE"
    using scale_pos by (intro mult_right_mono real_sqrt_le_mono) (simp_all add: power2_eq_square)
  finally show ?thesis using assms True
    by (auto simp: compute_def Let_def surplus_def clampRating_def MIN_RATING_def MAX_RD_def MIN_RD_def)
next
  case False
  then obtain d v w where w: "0 \<le> w" "after = clampRating (snRating current + w * surplus current outcomes) d v"
    using compute_games [OF assms] by blast
  have "0 \<le> surplus current outcomes \<Longrightarrow> 0 \<le> w * surplus current outcomes"
    "surplus current outcomes \<le> 0 \<Longrightarrow> w * surplus current outcomes \<le> 0"
    using w(1) by (simp_all add: mult_nonneg_nonpos)
  then show ?thesis using w(2) False by (auto simp: clampRating_def MIN_RATING_def)
qed

text \<open>Two equals draw; the tolerance is wide enough for the first bracket.\<close>

lemma equals_draw:
  assumes "snRating opponent = snRating current"
  shows "surplus current [\<lparr>moOpponent = opponent, moScore = Drawn\<rparr>] = 0"
    and "\<exists>after. compute (DEFAULT_GLICKO2_CONFIG\<lparr>gcEpsilon := 1\<rparr>) current [\<lparr>moOpponent = opponent, moScore = Drawn\<rparr>] = Inr after"
proof -
  let ?c = "DEFAULT_GLICKO2_CONFIG\<lparr>gcEpsilon := 1\<rparr>" and ?mu = "(snRating current - 1500) / GLICKO2_SCALE"
  have c: "gcTau ?c = 1 / 2" "gcEpsilon ?c = 1" by (simp_all add: DEFAULT_GLICKO2_CONFIG_def)
  define gJ where "gJ = weightG (snDeviation opponent / GLICKO2_SCALE)"
  define v where "v = 1 / (gJ * gJ * (1 / 2) * (1 - 1 / 2))"
  define phi where "phi = snDeviation current / GLICKO2_SCALE"
  have g: "toGame ?mu \<lparr>moOpponent = opponent, moScore = Drawn\<rparr> = (gJ, 1 / 2, 1 / 2)"
    by (simp add: toGame_def assms expectedE_def gJ_def)
  show "surplus current [\<lparr>moOpponent = opponent, moScore = Drawn\<rparr>] = 0" by (simp add: surplus_def g)
  have "0 < 1 + 3 * (snDeviation opponent / GLICKO2_SCALE) * (snDeviation opponent / GLICKO2_SCALE) / (pi * pi)"
    by (intro add_pos_nonneg divide_nonneg_pos) (simp_all add: mult.assoc zero_le_mult_iff)
  then have "0 < gJ" unfolding gJ_def weightG_def by simp
  then have "0 < v" unfolding v_def by simp
  then have n: "\<not> 0 * 0 > phi * phi + v" using zero_le_square [of phi] by linarith
  let ?sigma = "snVolatility current"
  have "\<exists>r. solveVolatility ?c 0 phi v ?sigma = Inr r"
    using solveVolatility_eq [of v ?c 0 phi ?sigma, unfolded c] \<open>0 < v\<close> if_not_P [OF n]
    by (simp only: n) (simp add: illinois_stop)
  then obtain r where "solveVolatility ?c 0 phi v ?sigma = Inr r" by blast
  then show "\<exists>after. compute ?c current [\<lparr>moOpponent = opponent, moScore = Drawn\<rparr>] = Inr after"
    unfolding compute_def Let_def phi_def v_def by (simp add: g)
qed

definition equalPlayer :: RatingSnapshot where
  "equalPlayer = \<lparr>snRating = 1500, snDeviation = 200, snVolatility = 3 / 50\<rparr>"

lemma rating_moves_with_results_witness:
  "\<exists>after. compute (DEFAULT_GLICKO2_CONFIG\<lparr>gcEpsilon := 1\<rparr>) equalPlayer [\<lparr>moOpponent = equalPlayer, moScore = Drawn\<rparr>] = Inr after
    \<and> snRating after = 1500"
proof -
  obtain after where "compute (DEFAULT_GLICKO2_CONFIG\<lparr>gcEpsilon := 1\<rparr>) equalPlayer [\<lparr>moOpponent = equalPlayer, moScore = Drawn\<rparr>] = Inr after"
    using equals_draw(2) by blast
  then show ?thesis using rating_moves_with_results equals_draw(1) [of equalPlayer equalPlayer] by (force simp: equalPlayer_def)
qed

end
