(* ===== verification/RatingPeriod.thy ===== *)
theory RatingPeriod
  imports GlickoProps Play "HOL-Library.List_Lexorder" "HOL-Library.Char_ord"
begin

text \<open>
  The batch over one rating period, \<^verbatim>\<open>src/modules/rating/period-computation.ts\<close>, with the results of
  online games that count (\<^verbatim>\<open>online-result-mapping.ts\<close>). The calculator is an argument here as in
  the code. A \<^verbatim>\<open>Map\<close> is the list of its entries in the order of insertion; identifiers are
  compared as the code compares them, character by character.
\<close>

section \<open>Games\<close>

datatype RatedResult = WHITE_WIN | BLACK_WIN | DRAW

record RatedGame =
  rgPairingId :: string
  rgWhitePlayerId :: string
  rgBlackPlayerId :: string
  rgResult :: RatedResult

definition DECISIVE_ONLINE_STATUSES :: "OnlineGameStatus list" where
  "DECISIVE_ONLINE_STATUSES = [ByPosition CHECKMATE, RESIGNATION, TIMEOUT, ABANDONED]"

definition DRAW_ONLINE_STATUSES :: "OnlineGameStatus list" where
  "DRAW_ONLINE_STATUSES = [ByPosition STALEMATE, DRAW_AGREED, ByPosition THREEFOLD_REPETITION, ByPosition FIFTY_MOVE_RULE,
     ByPosition INSUFFICIENT_MATERIAL, TIMEOUT_VS_INSUFFICIENT_MATERIAL]"

definition RATED_ONLINE_STATUSES :: "OnlineGameStatus list" where
  "RATED_ONLINE_STATUSES = DECISIVE_ONLINE_STATUSES @ DRAW_ONLINE_STATUSES"

definition onlineRatedResult :: "OnlineGameStatus \<Rightarrow> ColorValue option \<Rightarrow> RatedResult option" where
  "onlineRatedResult status winnerColor =
     (if status \<in> set DRAW_ONLINE_STATUSES then Some DRAW
      else if status \<in> set DECISIVE_ONLINE_STATUSES then
        (case winnerColor of Some WHITE \<Rightarrow> Some WHITE_WIN | Some BLACK \<Rightarrow> Some BLACK_WIN | None \<Rightarrow> None)
      else None)"

definition scoreFor :: "RatedResult \<Rightarrow> ColorValue \<Rightarrow> GameScore" where
  "scoreFor result side =
     (if result = DRAW then Drawn
      else let whiteWon = (result = WHITE_WIN) in if (side = WHITE) = whiteWon then Won else Lost)"

record PerPlayerGame =
  ppPairingId :: string
  ppOpponentId :: string
  ppScore :: GameScore

text \<open>\<^verbatim>\<open>push\<close>: appended to the list of the player, which starts at his first game.\<close>

fun pushGame :: "string \<Rightarrow> PerPlayerGame \<Rightarrow> (string \<times> PerPlayerGame list) list \<Rightarrow> (string \<times> PerPlayerGame list) list" where
  "pushGame p g [] = [(p, [g])]"
| "pushGame p g (e # es) = (if fst e = p then (p, snd e @ [g]) # es else e # pushGame p g es)"

definition pushBoth :: "(string \<times> PerPlayerGame list) list \<Rightarrow> RatedGame \<Rightarrow> (string \<times> PerPlayerGame list) list" where
  "pushBoth m g =
     pushGame (rgBlackPlayerId g) \<lparr>ppPairingId = rgPairingId g, ppOpponentId = rgWhitePlayerId g, ppScore = scoreFor (rgResult g) BLACK\<rparr>
       (pushGame (rgWhitePlayerId g) \<lparr>ppPairingId = rgPairingId g, ppOpponentId = rgBlackPlayerId g, ppScore = scoreFor (rgResult g) WHITE\<rparr> m)"

definition groupGamesByPlayer :: "RatedGame list \<Rightarrow> (string \<times> PerPlayerGame list) list" where
  "groupGamesByPlayer games = map (\<lambda>(p, gs). (p, sort_key ppPairingId gs)) (foldl pushBoth [] games)"

section \<open>States and results\<close>

record PrePeriodState =
  psSnapshot :: RatingSnapshot
  psGamesPlayed :: int
  psIsProvisional :: bool
  psPeakRating :: "int option"

definition DEFAULT_PRE_PERIOD_STATE :: PrePeriodState where
  "DEFAULT_PRE_PERIOD_STATE = \<lparr>psSnapshot = \<lparr>snRating = 1500, snDeviation = 350, snVolatility = 0.06\<rparr>,
     psGamesPlayed = 0, psIsProvisional = True, psPeakRating = None\<rparr>"

definition ESTABLISHED_MIN_GAMES :: int where "ESTABLISHED_MIN_GAMES = 8"
definition ESTABLISHED_MAX_RD :: real where "ESTABLISHED_MAX_RD = 110"

definition isEstablished :: "int \<Rightarrow> real \<Rightarrow> bool" where
  "isEstablished gamesPlayed deviation \<longleftrightarrow> gamesPlayed \<ge> ESTABLISHED_MIN_GAMES \<and> deviation \<le> ESTABLISHED_MAX_RD"

record InputGameEntry =
  igPairingId :: string
  igOpponentId :: string
  igOpponentRating :: real
  igOpponentRd :: real
  igScore :: GameScore

datatype ClampWarning = VolatilityClamp | RatingFloorClamp | DeviationCeilingClamp

record PlayerPeriodResult =
  prPlayerId :: string
  prBefore :: RatingSnapshot
  prAfter :: RatingSnapshot
  prGamesInPeriod :: nat
  prGamesPlayedTotal :: int
  prIsProvisional :: bool
  prPeakRating :: "int option"
  prPeakChanged :: bool
  prInputGames :: "InputGameEntry list"
  prClampWarnings :: "ClampWarning list"

definition clampWarningsFor :: "RatingSnapshot \<Rightarrow> nat \<Rightarrow> ClampWarning list" where
  "clampWarningsFor after gamesInPeriod =
     (if snVolatility after \<le> MIN_VOLATILITY \<or> snVolatility after \<ge> MAX_VOLATILITY then [VolatilityClamp] else []) @
     (if snRating after \<le> MIN_RATING then [RatingFloorClamp] else []) @
     (if gamesInPeriod > 0 \<and> snDeviation after \<ge> 350 then [DeviationCeilingClamp] else [])"

section \<open>The batch\<close>

type_synonym 'e calculator = "RatingSnapshot \<Rightarrow> MatchOutcome list \<Rightarrow> 'e + RatingSnapshot"

definition preStateOf :: "(string \<times> PrePeriodState) list \<Rightarrow> string \<Rightarrow> PrePeriodState" where
  "preStateOf states p = (case map_of states p of None \<Rightarrow> DEFAULT_PRE_PERIOD_STATE | Some st \<Rightarrow> st)"

definition toInputGame :: "(string \<times> PrePeriodState) list \<Rightarrow> PerPlayerGame \<Rightarrow> InputGameEntry" where
  "toInputGame states g = (let opponent = psSnapshot (preStateOf states (ppOpponentId g)) in
     \<lparr>igPairingId = ppPairingId g, igOpponentId = ppOpponentId g, igOpponentRating = snRating opponent,
      igOpponentRd = snDeviation opponent, igScore = ppScore g\<rparr>)"

definition toOutcome :: "InputGameEntry \<Rightarrow> MatchOutcome" where
  "toOutcome g = \<lparr>moOpponent = \<lparr>snRating = igOpponentRating g, snDeviation = igOpponentRd g, snVolatility = 0.06\<rparr>, moScore = igScore g\<rparr>"

text \<open>The part after the calculator has answered.\<close>

definition playerResult :: "PrePeriodState \<Rightarrow> string \<Rightarrow> InputGameEntry list \<Rightarrow> RatingSnapshot \<Rightarrow> PlayerPeriodResult" where
  "playerResult st p inputGames after =
     (let gamesPlayedTotal = psGamesPlayed st + int (length inputGames);
          provisionalAfter = (if psIsProvisional st then \<not> isEstablished gamesPlayedTotal (snDeviation after) else False);
          candidate = round (snRating after);
          peakChanged = (\<not> provisionalAfter \<and> (case psPeakRating st of None \<Rightarrow> True | Some peak \<Rightarrow> candidate > peak))
      in \<lparr>prPlayerId = p, prBefore = psSnapshot st, prAfter = after, prGamesInPeriod = length inputGames,
          prGamesPlayedTotal = gamesPlayedTotal, prIsProvisional = provisionalAfter,
          prPeakRating = (if peakChanged then Some candidate else psPeakRating st), prPeakChanged = peakChanged,
          prInputGames = inputGames, prClampWarnings = clampWarningsFor after (length inputGames)\<rparr>)"

definition playerPeriod ::
  "'e calculator \<Rightarrow> (string \<times> PerPlayerGame list) list \<Rightarrow> (string \<times> PrePeriodState) list \<Rightarrow> string \<Rightarrow> 'e + PlayerPeriodResult" where
  "playerPeriod calc byPlayer states p =
     (let st = preStateOf states p;
          inputGames = map (toInputGame states) (case map_of byPlayer p of None \<Rightarrow> [] | Some gs \<Rightarrow> gs)
      in bindE (calc (psSnapshot st) (map toOutcome inputGames)) (\<lambda>after.
         Inr (playerResult st p inputGames after)))"

definition computePeriodResults ::
  "'e calculator \<Rightarrow> RatedGame list \<Rightarrow> (string \<times> PrePeriodState) list \<Rightarrow> 'e + PlayerPeriodResult list" where
  "computePeriodResults calc games states =
     (let byPlayer = groupGamesByPlayer games;
          playerIds = sort (remdups (map fst states @ map fst byPlayer))
      in mapE (playerPeriod calc byPlayer states) playerIds)"

section \<open>What the grouping holds\<close>

text \<open>The games of a player, as he sees them.\<close>

definition gamesOf :: "string \<Rightarrow> RatedGame list \<Rightarrow> PerPlayerGame list" where
  "gamesOf p games = concat (map (\<lambda>g.
     (if rgWhitePlayerId g = p then [\<lparr>ppPairingId = rgPairingId g, ppOpponentId = rgBlackPlayerId g, ppScore = scoreFor (rgResult g) WHITE\<rparr>] else []) @
     (if rgBlackPlayerId g = p then [\<lparr>ppPairingId = rgPairingId g, ppOpponentId = rgWhitePlayerId g, ppScore = scoreFor (rgResult g) BLACK\<rparr>] else [])) games)"

lemma map_of_pushGame:
  "map_of (pushGame p g m) q = (if q = p then Some ((case map_of m p of None \<Rightarrow> [] | Some gs \<Rightarrow> gs) @ [g]) else map_of m q)"
  by (induction m) auto

lemma fst_pushGame: "fst ` set (pushGame p g m) = insert p (fst ` set m)"
  by (induction m) auto

lemma map_of_foldl_pushBoth:
  "(case map_of (foldl pushBoth m games) p of None \<Rightarrow> [] | Some gs \<Rightarrow> gs)
     = (case map_of m p of None \<Rightarrow> [] | Some gs \<Rightarrow> gs) @ gamesOf p games"
  by (induction games arbitrary: m) (simp_all add: gamesOf_def pushBoth_def map_of_pushGame)

lemma fst_foldl_pushBoth:
  "fst ` set (foldl pushBoth m games) = fst ` set m \<union> rgWhitePlayerId ` set games \<union> rgBlackPlayerId ` set games"
  by (induction games arbitrary: m) (auto simp: pushBoth_def fst_pushGame)

lemma groupGames_of:
  "(case map_of (groupGamesByPlayer games) p of None \<Rightarrow> [] | Some gs \<Rightarrow> gs) = sort_key ppPairingId (gamesOf p games)"
proof -
  let ?m = "foldl pushBoth [] games"
  have "map_of (map (\<lambda>(p, gs). (p, sort_key ppPairingId gs)) m) p = map_option (sort_key ppPairingId) (map_of m p)" for m
    by (induction m) auto
  then have "map_of (groupGamesByPlayer games) p = map_option (sort_key ppPairingId) (map_of ?m p)"
    by (simp only: groupGamesByPlayer_def)
  then show ?thesis using map_of_foldl_pushBoth [of "[]" games p] by (cases "map_of ?m p") simp_all
qed

lemma groupGames_keys: "fst ` set (groupGamesByPlayer games) = rgWhitePlayerId ` set games \<union> rgBlackPlayerId ` set games"
  using fst_foldl_pushBoth [of "[]" games] by (simp add: groupGamesByPlayer_def image_image case_prod_beta)

end
