(* ===== verification/RatingPeriodProps.thy ===== *)
theory RatingPeriodProps
  imports RatingPeriod
begin

text \<open>
  What the batch over a period guarantees for every calculator: who gets a result, that each game counts
  once for either player with scores that add up to one, that the order in which the database returns games
  and states makes no difference, and what happens to the counters, the flag and the peak.
\<close>

section \<open>Who gets a result\<close>

definition periodPlayers :: "RatedGame list \<Rightarrow> (string \<times> PrePeriodState) list \<Rightarrow> string set" where
  "periodPlayers games states = fst ` set states \<union> rgWhitePlayerId ` set games \<union> rgBlackPlayerId ` set games"

lemma playerIds_eq:
  "sort (remdups (map fst states @ map fst (groupGamesByPlayer games))) = sorted_list_of_set (periodPlayers games states)"
  unfolding periodPlayers_def sorted_list_of_set_sort_remdups [symmetric]
  by (simp add: groupGames_keys Un_assoc)

lemma finite_periodPlayers: "finite (periodPlayers games states)" by (simp add: periodPlayers_def)

definition resultOf :: "'e calculator \<Rightarrow> RatedGame list \<Rightarrow> (string \<times> PrePeriodState) list \<Rightarrow> string \<Rightarrow> 'e + PlayerPeriodResult" where
  "resultOf calc games states p =
     (let inputGames = map (toInputGame states) (sort_key ppPairingId (gamesOf p games))
      in bindE (calc (psSnapshot (preStateOf states p)) (map toOutcome inputGames)) (\<lambda>after.
         Inr (playerResult (preStateOf states p) p inputGames after)))"

lemma computePeriodResults_eq:
  "computePeriodResults calc games states = mapE (resultOf calc games states) (sorted_list_of_set (periodPlayers games states))"
proof -
  have "playerPeriod calc (groupGamesByPlayer games) states = resultOf calc games states"
    by (rule ext) (simp add: playerPeriod_def resultOf_def Let_def groupGames_of)
  then show ?thesis by (simp only: computePeriodResults_def Let_def playerIds_eq)
qed

lemma resultOf_Inr:
  "resultOf calc games states p = Inr r \<Longrightarrow> prPlayerId r = p \<and> prBefore r = psSnapshot (preStateOf states p)
     \<and> prGamesInPeriod r = length (gamesOf p games)
     \<and> prGamesPlayedTotal r = psGamesPlayed (preStateOf states p) + int (length (gamesOf p games))"
  by (auto simp: resultOf_def Let_def playerResult_def)

lemma computePeriodResults_players:
  assumes "computePeriodResults calc games states = Inr rs"
  shows "map prPlayerId rs = sorted_list_of_set (periodPlayers games states)"
proof -
  have "mapE (resultOf calc games states) ps = Inr xs \<Longrightarrow> map prPlayerId xs = ps" for ps xs
    by (induction ps arbitrary: xs) (auto dest: resultOf_Inr)
  then show ?thesis using assms by (simp only: computePeriodResults_eq)
qed

lemma computePeriodResults_each:
  assumes "computePeriodResults calc games states = Inr rs" "r \<in> set rs"
  shows "resultOf calc games states (prPlayerId r) = Inr r"
proof -
  have "mapE (resultOf calc games states) ps = Inr xs \<Longrightarrow> r \<in> set xs \<Longrightarrow> resultOf calc games states (prPlayerId r) = Inr r" for ps xs
  proof (induction ps arbitrary: xs)
    case (Cons p ps)
    then obtain x ys where "xs = x # ys" "resultOf calc games states p = Inr x" "mapE (resultOf calc games states) ps = Inr ys" by auto
    then show ?case using Cons.IH Cons.prems(2) resultOf_Inr [of calc games states p x] by auto
  qed simp
  then show ?thesis using assms by (simp only: computePeriodResults_eq)
qed

lemma computePeriodResults_returns:
  assumes "\<And>p. p \<in> periodPlayers games states \<Longrightarrow> \<exists>r. resultOf calc games states p = Inr r"
  shows "\<exists>rs. computePeriodResults calc games states = Inr rs"
proof -
  have "\<forall>p \<in> set ps. \<exists>r. resultOf calc games states p = Inr r \<Longrightarrow> \<exists>rs. mapE (resultOf calc games states) ps = Inr rs" for ps
    by (induction ps) auto
  then show ?thesis using assms by (simp add: computePeriodResults_eq finite_periodPlayers)
qed

section \<open>Order does not matter\<close>

lemma mset_gamesOf: "mset games = mset games' \<Longrightarrow> mset (gamesOf p games) = mset (gamesOf p games')"
proof -
  let ?f = "\<lambda>g. mset ((if rgWhitePlayerId g = p then [\<lparr>ppPairingId = rgPairingId g, ppOpponentId = rgBlackPlayerId g, ppScore = scoreFor (rgResult g) WHITE\<rparr>] else []) @
     (if rgBlackPlayerId g = p then [\<lparr>ppPairingId = rgPairingId g, ppOpponentId = rgWhitePlayerId g, ppScore = scoreFor (rgResult g) BLACK\<rparr>] else []))"
  have "mset (gamesOf p gs) = sum_mset (image_mset ?f (mset gs))" for gs
    unfolding gamesOf_def by (induction gs) simp_all
  then show "mset games = mset games' \<Longrightarrow> mset (gamesOf p games) = mset (gamesOf p games')" by simp
qed

lemma gamesOf_pairing:
  assumes "distinct (map rgPairingId games)" "\<forall>g \<in> set games. rgWhitePlayerId g \<noteq> rgBlackPlayerId g"
  shows "inj_on ppPairingId (set (gamesOf p games))"
proof (rule inj_onI)
  fix x y assume "x \<in> set (gamesOf p games)" "y \<in> set (gamesOf p games)" "ppPairingId x = ppPairingId y"
  then obtain g h where "g \<in> set games" "h \<in> set games" "rgPairingId g = rgPairingId h" and
    xy: "x = \<lparr>ppPairingId = rgPairingId g, ppOpponentId = rgBlackPlayerId g, ppScore = scoreFor (rgResult g) WHITE\<rparr> \<and> rgWhitePlayerId g = p
       \<or> x = \<lparr>ppPairingId = rgPairingId g, ppOpponentId = rgWhitePlayerId g, ppScore = scoreFor (rgResult g) BLACK\<rparr> \<and> rgBlackPlayerId g = p"
      "y = \<lparr>ppPairingId = rgPairingId h, ppOpponentId = rgBlackPlayerId h, ppScore = scoreFor (rgResult h) WHITE\<rparr> \<and> rgWhitePlayerId h = p
       \<or> y = \<lparr>ppPairingId = rgPairingId h, ppOpponentId = rgWhitePlayerId h, ppScore = scoreFor (rgResult h) BLACK\<rparr> \<and> rgBlackPlayerId h = p"
    unfolding gamesOf_def by (auto split: if_splits)
  moreover from this have "g = h" using assms(1) by (metis inj_onD distinct_map)
  ultimately show "x = y" using assms(2) by auto
qed

lemma sort_gamesOf:
  assumes "mset games = mset games'" "distinct (map rgPairingId games)" "\<forall>g \<in> set games. rgWhitePlayerId g \<noteq> rgBlackPlayerId g"
  shows "sort_key ppPairingId (gamesOf p games) = sort_key ppPairingId (gamesOf p games')"
  using mset_gamesOf [OF assms(1), of p] gamesOf_pairing [OF assms(2,3), of p]
  by (intro sort_key_inj_key_eq) simp_all

text \<open>
  The batch is deterministic: whatever the order in which the database returns the games of the period and the
  states of the players, the result is the same, for any calculator. It has one entry for each player who has
  a state or a game, ascending by identifier.
\<close>

theorem period_results_ignore_order:
  assumes "mset games = mset games'" "mset states = mset states'" "distinct (map fst states)"
    and "distinct (map rgPairingId games)" "list_all (\<lambda>g. rgWhitePlayerId g \<noteq> rgBlackPlayerId g) games"
  shows "computePeriodResults calc games states = computePeriodResults calc games' states' \<and>
    (case computePeriodResults calc games states of Inl e \<Rightarrow> True
     | Inr rs \<Rightarrow> map prPlayerId rs = sorted_list_of_set (periodPlayers games states))"
proof
  have "map_of states = map_of states'"
    using assms(2,3) by (intro map_of_inject_set [THEN iffD2]) (auto dest: mset_eq_setD simp: mset_eq_imp_distinct_iff [OF arg_cong [of _ _ "image_mset fst", OF assms(2), simplified mset_map [symmetric]], symmetric])
  then have st: "preStateOf states = preStateOf states'" by (simp add: preStateOf_def fun_eq_iff)
  then have inp: "toInputGame states = toInputGame states'" by (simp add: toInputGame_def fun_eq_iff)
  have "\<forall>g \<in> set games. rgWhitePlayerId g \<noteq> rgBlackPlayerId g" using assms(5) by (simp add: list_all_iff)
  note sorts = sort_gamesOf [OF assms(1,4) this]
  have "resultOf calc games states = resultOf calc games' states'"
    by (rule ext) (simp only: resultOf_def st inp sorts)
  moreover have "periodPlayers games states = periodPlayers games' states'"
    unfolding periodPlayers_def using assms(1,2) by (simp add: mset_eq_setD [of games games'] mset_eq_setD [of states states'])
  ultimately show "computePeriodResults calc games states = computePeriodResults calc games' states'"
    by (simp only: computePeriodResults_eq)
  show "case computePeriodResults calc games states of Inl e \<Rightarrow> True
     | Inr rs \<Rightarrow> map prPlayerId rs = sorted_list_of_set (periodPlayers games states)"
    using computePeriodResults_players by (auto split: sum.splits)
qed

definition sampleGames :: "RatedGame list" where
  "sampleGames = [\<lparr>rgPairingId = ''g2'', rgWhitePlayerId = ''a'', rgBlackPlayerId = ''b'', rgResult = WHITE_WIN\<rparr>,
     \<lparr>rgPairingId = ''g1'', rgWhitePlayerId = ''c'', rgBlackPlayerId = ''a'', rgResult = DRAW\<rparr>]"

lemma period_results_ignore_order_witness:
  "computePeriodResults (compute DEFAULT_GLICKO2_CONFIG) sampleGames [(''a'', DEFAULT_PRE_PERIOD_STATE)]
     = computePeriodResults (compute DEFAULT_GLICKO2_CONFIG) (rev sampleGames) [(''a'', DEFAULT_PRE_PERIOD_STATE)]"
  by (rule period_results_ignore_order [THEN conjunct1]) (simp_all add: sampleGames_def)

section \<open>What adds up\<close>

lemma sum_gamesOf:
  fixes f :: "PerPlayerGame \<Rightarrow> 'a :: comm_monoid_add"
  assumes "finite S" "rgWhitePlayerId ` set games \<union> rgBlackPlayerId ` set games \<subseteq> S"
  shows "(\<Sum>p \<in> S. sum_list (map f (gamesOf p games))) = sum_list (map (\<lambda>g.
     f \<lparr>ppPairingId = rgPairingId g, ppOpponentId = rgBlackPlayerId g, ppScore = scoreFor (rgResult g) WHITE\<rparr>
     + f \<lparr>ppPairingId = rgPairingId g, ppOpponentId = rgWhitePlayerId g, ppScore = scoreFor (rgResult g) BLACK\<rparr>) games)"
  using assms(2)
proof (induction games)
  case Nil
  then show ?case by (simp add: gamesOf_def)
next
  case (Cons g gs)
  let ?w = "f \<lparr>ppPairingId = rgPairingId g, ppOpponentId = rgBlackPlayerId g, ppScore = scoreFor (rgResult g) WHITE\<rparr>"
  let ?b = "f \<lparr>ppPairingId = rgPairingId g, ppOpponentId = rgWhitePlayerId g, ppScore = scoreFor (rgResult g) BLACK\<rparr>"
  have "sum_list (map f (gamesOf p (g # gs))) = (if rgWhitePlayerId g = p then ?w else 0) + (if rgBlackPlayerId g = p then ?b else 0)
      + sum_list (map f (gamesOf p gs))" for p
    by (simp add: gamesOf_def add.assoc)
  moreover have "(\<Sum>p \<in> S. if rgWhitePlayerId g = p then ?w else 0) = ?w" "(\<Sum>p \<in> S. if rgBlackPlayerId g = p then ?b else 0) = ?b"
    using Cons.prems assms(1) by simp_all
  ultimately show ?case using Cons by (simp add: sum.distrib)
qed

lemma scores_complementary: "scoreValue (scoreFor r WHITE) + scoreValue (scoreFor r BLACK) = 1"
  by (cases r) (simp_all add: scoreFor_def)

lemma computePeriodResults_sum:
  fixes h :: "PlayerPeriodResult \<Rightarrow> 'a :: comm_monoid_add"
  assumes "computePeriodResults calc games states = Inr rs"
    and "\<And>p r. resultOf calc games states p = Inr r \<Longrightarrow> h r = sum_list (map f (gamesOf p games))"
  shows "sum_list (map h rs) = (\<Sum>p \<in> periodPlayers games states. sum_list (map f (gamesOf p games)))"
proof -
  have "map h rs = map (\<lambda>p. sum_list (map f (gamesOf p games))) (map prPlayerId rs)"
    using assms(2) computePeriodResults_each [OF assms(1)] by simp
  then show ?thesis
    by (simp add: computePeriodResults_players [OF assms(1)] sum_list_distinct_conv_sum_set finite_periodPlayers del: map_map)
qed

lemma resultOf_flags:
  assumes "resultOf calc games states p = Inr r"
  shows "let before = preStateOf states p in
         (psIsProvisional before \<or> \<not> prIsProvisional r)
       \<and> prGamesPlayedTotal r = psGamesPlayed before + int (prGamesInPeriod r)
       \<and> (case psPeakRating before of None \<Rightarrow> True | Some peak \<Rightarrow> (case prPeakRating r of None \<Rightarrow> False | Some peak' \<Rightarrow> peak \<le> peak'))"
proof -
  obtain inputGames after where "r = playerResult (preStateOf states p) p inputGames after"
    using assms by (auto simp: resultOf_def Let_def)
  then show ?thesis by (cases "psPeakRating (preStateOf states p)") (simp_all add: playerResult_def Let_def)
qed

text \<open>
  Every game of the period counts exactly once for each of its players, with scores that add up to one
  point; a player who is established stays so, his counter of games grows by the games of the period, and
  his peak never falls.
\<close>

theorem period_results_add_up:
  assumes "computePeriodResults calc games states = Inr rs"
  shows "sum_list (map prGamesInPeriod rs) = 2 * length games
    \<and> sum_list (map (\<lambda>r. sum_list (map (scoreValue \<circ> igScore) (prInputGames r))) rs) = real (length games)
    \<and> list_all (\<lambda>r. let before = preStateOf states (prPlayerId r) in
         (psIsProvisional before \<or> \<not> prIsProvisional r)
       \<and> prGamesPlayedTotal r = psGamesPlayed before + int (prGamesInPeriod r)
       \<and> (case psPeakRating before of None \<Rightarrow> True | Some peak \<Rightarrow> (case prPeakRating r of None \<Rightarrow> False | Some peak' \<Rightarrow> peak \<le> peak'))) rs"
proof (intro conjI)
  have sub: "rgWhitePlayerId ` set games \<union> rgBlackPlayerId ` set games \<subseteq> periodPlayers games states"
    by (auto simp: periodPlayers_def)
  have "sum_list (map prGamesInPeriod rs) = (\<Sum>p \<in> periodPlayers games states. sum_list (map (\<lambda>_. 1) (gamesOf p games)))"
    by (rule computePeriodResults_sum [OF assms]) (simp add: resultOf_Inr sum_list_triv)
  also have "\<dots> = 2 * length games"
    unfolding sum_gamesOf [OF finite_periodPlayers sub] by (simp add: sum_list_triv)
  finally show "sum_list (map prGamesInPeriod rs) = 2 * length games" .
  have "sum_list (map (\<lambda>r. sum_list (map (scoreValue \<circ> igScore) (prInputGames r))) rs)
      = (\<Sum>p \<in> periodPlayers games states. sum_list (map (scoreValue \<circ> ppScore) (gamesOf p games)))"
  proof (rule computePeriodResults_sum [OF assms])
    fix p r assume "resultOf calc games states p = Inr r"
    then have "prInputGames r = map (toInputGame states) (sort_key ppPairingId (gamesOf p games))"
      by (auto simp: resultOf_def Let_def playerResult_def)
    then have "map (scoreValue \<circ> igScore) (prInputGames r) = map (scoreValue \<circ> ppScore) (sort_key ppPairingId (gamesOf p games))"
      by (simp add: toInputGame_def Let_def)
    then show "sum_list (map (scoreValue \<circ> igScore) (prInputGames r)) = sum_list (map (scoreValue \<circ> ppScore) (gamesOf p games))"
      by (metis mset_map mset_sort sum_mset_sum_list)
  qed
  also have "\<dots> = real (length games)"
    unfolding sum_gamesOf [OF finite_periodPlayers sub] by (simp add: scores_complementary sum_list_triv)
  finally show "sum_list (map (\<lambda>r. sum_list (map (scoreValue \<circ> igScore) (prInputGames r))) rs) = real (length games)" .
  show "list_all (\<lambda>r. let before = preStateOf states (prPlayerId r) in
         (psIsProvisional before \<or> \<not> prIsProvisional r)
       \<and> prGamesPlayedTotal r = psGamesPlayed before + int (prGamesInPeriod r)
       \<and> (case psPeakRating before of None \<Rightarrow> True | Some peak \<Rightarrow> (case prPeakRating r of None \<Rightarrow> False | Some peak' \<Rightarrow> peak \<le> peak'))) rs"
    unfolding list_all_iff
  proof
    fix r assume "r \<in> set rs"
    then show "let before = preStateOf states (prPlayerId r) in
         (psIsProvisional before \<or> \<not> prIsProvisional r)
       \<and> prGamesPlayedTotal r = psGamesPlayed before + int (prGamesInPeriod r)
       \<and> (case psPeakRating before of None \<Rightarrow> True | Some peak \<Rightarrow> (case prPeakRating r of None \<Rightarrow> False | Some peak' \<Rightarrow> peak \<le> peak'))"
      using resultOf_flags computePeriodResults_each [OF assms] by metis
  qed
qed

lemma period_results_add_up_witness:
  "\<exists>rs. computePeriodResults (compute (DEFAULT_GLICKO2_CONFIG\<lparr>gcEpsilon := 1\<rparr>))
       [\<lparr>rgPairingId = ''g'', rgWhitePlayerId = ''a'', rgBlackPlayerId = ''b'', rgResult = DRAW\<rparr>] [] = Inr rs
     \<and> sum_list (map prGamesInPeriod rs) = 2
     \<and> sum_list (map (\<lambda>r. sum_list (map (scoreValue \<circ> igScore) (prInputGames r))) rs) = 1"
proof -
  let ?c = "compute (DEFAULT_GLICKO2_CONFIG\<lparr>gcEpsilon := 1\<rparr>)"
  let ?g = "[\<lparr>rgPairingId = ''g'', rgWhitePlayerId = ''a'', rgBlackPlayerId = ''b'', rgResult = DRAW\<rparr>]"
  let ?out = "\<lparr>moOpponent = \<lparr>snRating = 1500, snDeviation = 350, snVolatility = 0.06\<rparr>, moScore = Drawn\<rparr>"
  have "map toOutcome (map (toInputGame []) (sort_key ppPairingId (gamesOf p ?g))) = [?out]" if "p = ''a'' \<or> p = ''b''" for p
    using that by (auto simp: gamesOf_def scoreFor_def toInputGame_def toOutcome_def preStateOf_def DEFAULT_PRE_PERIOD_STATE_def)
  moreover obtain after where "?c (psSnapshot DEFAULT_PRE_PERIOD_STATE) [?out] = Inr after"
    using equals_draw(2) [of "moOpponent ?out" "psSnapshot DEFAULT_PRE_PERIOD_STATE"]
    by (auto simp: DEFAULT_PRE_PERIOD_STATE_def)
  ultimately have returns: "\<exists>r. resultOf ?c ?g [] p = Inr r" if "p = ''a'' \<or> p = ''b''" for p
    using that by (simp only: resultOf_def Let_def preStateOf_def map_of.simps option.case bindE_simps) simp
  have "\<exists>r. resultOf ?c ?g [] p = Inr r" if "p \<in> periodPlayers ?g []" for p
    by (rule returns) (use that in \<open>auto simp: periodPlayers_def\<close>)
  then obtain rs where "computePeriodResults ?c ?g [] = Inr rs" using computePeriodResults_returns by blast
  then show ?thesis using period_results_add_up [of ?c ?g "[]" rs] by auto
qed

end
