(* ===== verification/Ratings.thy ===== *)
theory Ratings
  imports RatingPeriodProps SectionDb Rbac "HOL-Library.Word"
begin

text \<open>
  Rating periods, ratings and their history: \<^verbatim>\<open>src/modules/rating/rating.repository.ts\<close>,
  \<^verbatim>\<open>rating.service.ts\<close> and \<^verbatim>\<open>rating.types.ts\<close>, over the tables of
  \<^verbatim>\<open>prisma/schema.prisma\<close>. The online games are those of \<open>PlayDb\<close>; the games over the board are the joined
  rows that the query of the repository sees. Numbers are stored with the digits of their columns
  (\<open>numeric\<close>); none comes near the width of its column. \<^verbatim>\<open>computePeriod\<close> reads five times before its
  transaction, so what it reads is a record of its own.
\<close>

unbundle bit_operations_syntax

section \<open>Rows\<close>

datatype PlayEnvironment = OTB | ONLINE

definition PLAY_ENVIRONMENTS :: "PlayEnvironment list" where
  "PLAY_ENVIRONMENTS = [OTB, ONLINE]"

definition TIME_CATEGORIES :: "TimeCategory list" where
  "TIME_CATEGORIES = [CLASSICAL, RAPID, BLITZ, BULLET]"

definition isValidRatingCombo :: "PlayEnvironment \<Rightarrow> TimeCategory \<Rightarrow> bool" where
  "isValidRatingCombo environment timeCategory \<longleftrightarrow> \<not> (environment = OTB \<and> timeCategory = BULLET)"

definition TAU_MIN :: real where "TAU_MIN = 0.3"
definition TAU_MAX :: real where "TAU_MAX = 1.2"
definition TAU_DEFAULT :: real where "TAU_DEFAULT = 0.5"

record RatingPeriodRow =
  rpId :: nat
  rpEnvironment :: PlayEnvironment
  rpTimeCategory :: TimeCategory
  rpStartsAt :: int
  rpEndsAt :: int
  rpTau :: real
  rpComputedAt :: "int option"
  rpPlayersAffected :: "nat option"
  rpGamesProcessed :: "nat option"
  rpRecomputeGeneration :: nat

record PlayerRatingRow =
  plId :: nat
  plPlayerId :: string
  plEnvironment :: PlayEnvironment
  plTimeCategory :: TimeCategory
  plSnapshot :: RatingSnapshot
  plGamesPlayed :: int
  plIsProvisional :: bool
  plPeakRating :: "int option"
  plPeakRatingAt :: "int option"
  plLastPeriodId :: "nat option"

record RatingHistoryRow =
  rhId :: nat
  rhPlayerId :: string
  rhPeriodId :: nat
  rhEnvironment :: PlayEnvironment
  rhTimeCategory :: TimeCategory
  rhBefore :: RatingSnapshot
  rhAfter :: RatingSnapshot
  rhGamesInPeriod :: nat
  rhInputGames :: "InputGameEntry list"

text \<open>A pairing with the columns of its round, section, tournament and registrations that are asked for.\<close>

record OtbRow =
  otPairingId :: string
  otResult :: PairingResultValue
  otWhitePlayerId :: string
  otBlackPlayerId :: "string option"
  otRoundStatus :: RoundStatusValue
  otCompletedAt :: "int option"
  otEnvironment :: PlayEnvironment
  otTimeCategory :: TimeCategory
  otNationallyRated :: bool
  otDeleted :: bool
  otTournamentStatus :: TournamentStatus

text \<open>
  \<open>rtLocked\<close> holds the advisory locks of transactions under way, \<open>rtDeleted\<close> the players that are deleted.
\<close>

record RatingDb =
  rtPeriods :: "RatingPeriodRow list"
  rtRatings :: "PlayerRatingRow list"
  rtHistory :: "RatingHistoryRow list"
  rtAudit :: "AuditRow list"
  rtOutbox :: "(string \<times> nat) list"
  rtPairings :: "OtbRow list"
  rtPlay :: PlayDb
  rtDeleted :: "string list"
  rtLocked :: "int list"
  rtNextId :: nat

datatype RatingFailure = Glicko ConvergenceError | PeriodExists | RecordNotFound

type_synonym 'a rating = "(RatingFailure, RatingDb, 'a) action"
type_synonym 'a ratingRequest = "(RatingFailure, RatingDb, 'a) handler"

text \<open>A number in a column with \<open>d\<close> digits after the point; PostgreSQL rounds halves away from zero.\<close>

definition numeric :: "nat \<Rightarrow> real \<Rightarrow> real" where
  "numeric d x = (if x < 0 then - of_int (round (- x * 10 ^ d)) / 10 ^ d else of_int (round (x * 10 ^ d)) / 10 ^ d)"

definition stored :: "RatingSnapshot \<Rightarrow> RatingSnapshot" where
  "stored s = \<lparr>snRating = numeric 4 (snRating s), snDeviation = numeric 4 (snDeviation s), snVolatility = numeric 8 (snVolatility s)\<rparr>"

definition ratingAudit :: "AuditRow \<Rightarrow> unit rating" where
  "ratingAudit = auditWriteTo rtAudit_update"

section \<open>The key of the lock\<close>

definition RATING_LOCK_CLASS :: int where
  "RATING_LOCK_CLASS = 0x0fa13d00"

text \<open>FNV-1a on 32 bits; \<^verbatim>\<open>Math.imul\<close> and the bit operations work modulo 2 to the power 32.\<close>

fun fnvLoop :: "32 word \<Rightarrow> string \<Rightarrow> 32 word" where
  "fnvLoop h [] = h"
| "fnvLoop h (c # cs) = fnvLoop ((h XOR of_char c) * 0x01000193) cs"

definition periodLockKey :: "string \<Rightarrow> int" where
  "periodLockKey text = (RATING_LOCK_CLASS + uint (drop_bit 1 (fnvLoop 0x811c9dc5 text))) mod 0x7fffffff"

section \<open>Periods\<close>

record CreatePeriodInput =
  cpdEnvironment :: PlayEnvironment
  cpdTimeCategory :: TimeCategory
  cpdStartsAt :: int
  cpdEndsAt :: int

text \<open>The row is unique by category and start.\<close>

definition repoCreatePeriod :: "CreatePeriodInput \<Rightarrow> real \<Rightarrow> string \<Rightarrow> RatingPeriodRow rating" where
  "repoCreatePeriod input tau actorUserId = transaction (
     bindS (getS (\<lambda>s. list_ex (\<lambda>p. rpEnvironment p = cpdEnvironment input \<and> rpTimeCategory p = cpdTimeCategory input
         \<and> rpStartsAt p = cpdStartsAt input) (rtPeriods s))) (\<lambda>taken.
     bindS (guardS taken (OtherError PeriodExists)) (\<lambda>_.
     bindS (getS (\<lambda>s. \<lparr>rpId = rtNextId s, rpEnvironment = cpdEnvironment input, rpTimeCategory = cpdTimeCategory input,
         rpStartsAt = cpdStartsAt input, rpEndsAt = cpdEndsAt input, rpTau = numeric 3 tau, rpComputedAt = None,
         rpPlayersAffected = None, rpGamesProcessed = None, rpRecomputeGeneration = 0\<rparr>)) (\<lambda>created.
     bindS (putS (\<lambda>s. s\<lparr>rtPeriods := rtPeriods s @ [created], rtNextId := Suc (rtNextId s)\<rparr>)) (\<lambda>_.
     bindS (ratingAudit (auditOf ''rating.period_created'' actorUserId (showNat (rpId created)) '''' '''' None)) (\<lambda>_.
     returnS created))))))"

definition findPeriodById :: "nat \<Rightarrow> RatingDb \<Rightarrow> RatingPeriodRow option" where
  "findPeriodById i s = find (\<lambda>p. rpId p = i) (rtPeriods s)"

definition findOverlappingPeriod :: "PlayEnvironment \<Rightarrow> TimeCategory \<Rightarrow> int \<Rightarrow> int \<Rightarrow> RatingDb \<Rightarrow> RatingPeriodRow option" where
  "findOverlappingPeriod environment timeCategory startsAt endsAt s =
     find (\<lambda>p. rpEnvironment p = environment \<and> rpTimeCategory p = timeCategory \<and> rpStartsAt p < endsAt \<and> rpEndsAt p > startsAt)
       (rtPeriods s)"

definition oldestUncomputedPeriodEnds :: "int \<Rightarrow> RatingDb \<Rightarrow> (PlayEnvironment \<times> TimeCategory \<times> int) list" where
  "oldestUncomputedPeriodEnds now s =
     (let pending = filter (\<lambda>p. rpComputedAt p = None \<and> rpEndsAt p \<le> now) (rtPeriods s)
      in map (\<lambda>(environment, timeCategory). (environment, timeCategory,
             Min (set (map rpEndsAt (filter (\<lambda>p. rpEnvironment p = environment \<and> rpTimeCategory p = timeCategory) pending)))))
           (remdups (map (\<lambda>p. (rpEnvironment p, rpTimeCategory p)) pending)))"

definition listPeriodRows :: "nat \<Rightarrow> nat option \<Rightarrow> PlayEnvironment option \<Rightarrow> TimeCategory option \<Rightarrow> RatingDb \<Rightarrow> RatingPeriodRow list" where
  "listPeriodRows n afterId environment timeCategory s =
     take (n + 1) (sort_key rpId (filter (\<lambda>p. (case environment of None \<Rightarrow> True | Some e \<Rightarrow> rpEnvironment p = e)
       \<and> (case timeCategory of None \<Rightarrow> True | Some c \<Rightarrow> rpTimeCategory p = c)
       \<and> (case afterId of None \<Rightarrow> True | Some i \<Rightarrow> rpId p > i)) (rtPeriods s)))"

section \<open>The games of a period\<close>

definition toRatedResult :: "PairingResultValue \<Rightarrow> RatedResult option" where
  "toRatedResult result = (case result of
     ResultMapping.WHITE_WIN \<Rightarrow> Some RatingPeriod.WHITE_WIN
   | ResultMapping.BLACK_WIN \<Rightarrow> Some RatingPeriod.BLACK_WIN
   | ResultMapping.DRAW \<Rightarrow> Some RatingPeriod.DRAW
   | _ \<Rightarrow> None)"

definition otbGamesForPeriod :: "PlayEnvironment \<Rightarrow> TimeCategory \<Rightarrow> int \<Rightarrow> int \<Rightarrow> RatingDb \<Rightarrow> RatedGame list" where
  "otbGamesForPeriod environment timeCategory startsAt endsAt s =
     List.map_filter (\<lambda>r. case (toRatedResult (otResult r), otBlackPlayerId r, otCompletedAt r) of
         (Some result, Some blackId, Some completedAt) \<Rightarrow>
           if otRoundStatus r = COMPLETED \<and> startsAt \<le> completedAt \<and> completedAt < endsAt
             \<and> otEnvironment r = environment \<and> otTimeCategory r = timeCategory
             \<and> otNationallyRated r \<and> \<not> otDeleted r \<and> otTournamentStatus r \<noteq> CANCELLED
           then Some \<lparr>rgPairingId = otPairingId r, rgWhitePlayerId = otWhitePlayerId r, rgBlackPlayerId = blackId, rgResult = result\<rparr>
           else None
       | _ \<Rightarrow> None)
       (sort_key otPairingId (rtPairings s))"

definition onlineGamesForPeriod :: "TimeCategory \<Rightarrow> int \<Rightarrow> int \<Rightarrow> RatingDb \<Rightarrow> RatedGame list" where
  "onlineGamesForPeriod timeCategory startsAt endsAt s =
     List.map_filter (\<lambda>gid. case pdGames (rtPlay s) gid of
         None \<Rightarrow> None
       | Some g \<Rightarrow> (case gmEndedAt g of
           None \<Rightarrow> None
         | Some endedAt \<Rightarrow>
             if gmIsRated g \<and> gmTimeCategory g = timeCategory \<and> startsAt \<le> endedAt \<and> endedAt < endsAt
               \<and> gmStatus g \<in> set RATED_ONLINE_STATUSES
             then map_option (\<lambda>result. \<lparr>rgPairingId = gid, rgWhitePlayerId = gmWhitePlayerId g,
                    rgBlackPlayerId = gmBlackPlayerId g, rgResult = result\<rparr>) (onlineRatedResult (gmStatus g) (gmWinnerColor g))
             else None))
       (rev (gameIds (rtPlay s)))"

definition gamesForPeriod :: "PlayEnvironment \<Rightarrow> TimeCategory \<Rightarrow> int \<Rightarrow> int \<Rightarrow> RatingDb \<Rightarrow> RatedGame list" where
  "gamesForPeriod environment timeCategory startsAt endsAt s =
     (if environment = ONLINE then onlineGamesForPeriod timeCategory startsAt endsAt s
      else otbGamesForPeriod environment timeCategory startsAt endsAt s)"

section \<open>Ratings and history\<close>

definition inPool :: "PlayEnvironment \<Rightarrow> TimeCategory \<Rightarrow> PlayerRatingRow \<Rightarrow> bool" where
  "inPool environment timeCategory r \<longleftrightarrow> plEnvironment r = environment \<and> plTimeCategory r = timeCategory"

definition playersWithRatings :: "string list \<Rightarrow> PlayEnvironment \<Rightarrow> TimeCategory \<Rightarrow> RatingDb \<Rightarrow> PlayerRatingRow list" where
  "playersWithRatings playerIds environment timeCategory s =
     (if playerIds = [] then []
      else filter (\<lambda>r. plPlayerId r \<in> set playerIds \<and> inPool environment timeCategory r) (rtRatings s))"

definition allRatedPlayers :: "PlayEnvironment \<Rightarrow> TimeCategory \<Rightarrow> RatingDb \<Rightarrow> PlayerRatingRow list" where
  "allRatedPlayers environment timeCategory s = filter (inPool environment timeCategory) (rtRatings s)"

definition findPlayerRating :: "string \<Rightarrow> PlayEnvironment \<Rightarrow> TimeCategory \<Rightarrow> RatingDb \<Rightarrow> PlayerRatingRow option" where
  "findPlayerRating p environment timeCategory s =
     find (\<lambda>r. plPlayerId r = p \<and> inPool environment timeCategory r) (rtRatings s)"

record PriorHistoryRow =
  phPlayerId :: string
  phBefore :: RatingSnapshot
  phGamesInPeriod :: nat

definition priorHistoryForPeriod :: "nat \<Rightarrow> RatingDb \<Rightarrow> PriorHistoryRow list" where
  "priorHistoryForPeriod periodId s =
     map (\<lambda>h. \<lparr>phPlayerId = rhPlayerId h, phBefore = rhBefore h, phGamesInPeriod = rhGamesInPeriod h\<rparr>)
       (filter (\<lambda>h. rhPeriodId h = periodId) (rtHistory s))"

section \<open>Applying the results\<close>

record ApplyPeriodResultsInput =
  apPeriodId :: nat
  apEnvironment :: PlayEnvironment
  apTimeCategory :: TimeCategory
  apActorUserId :: string
  apReason :: string
  apGamesProcessed :: nat
  apResults :: "PlayerPeriodResult list"

definition withResultValues :: "nat \<Rightarrow> int \<Rightarrow> PlayerPeriodResult \<Rightarrow> PlayerRatingRow \<Rightarrow> PlayerRatingRow" where
  "withResultValues periodId now r row =
     row\<lparr>plSnapshot := stored (prAfter r), plGamesPlayed := prGamesPlayedTotal r, plIsProvisional := prIsProvisional r,
         plPeakRating := prPeakRating r, plLastPeriodId := Some periodId,
         plPeakRatingAt := (if prPeakChanged r then Some now else plPeakRatingAt row)\<rparr>"

definition upsertRating :: "ApplyPeriodResultsInput \<Rightarrow> int \<Rightarrow> PlayerPeriodResult \<Rightarrow> unit rating" where
  "upsertRating input now r = putS (\<lambda>s.
     let same = (\<lambda>row. plPlayerId row = prPlayerId r \<and> inPool (apEnvironment input) (apTimeCategory input) row)
     in if list_ex same (rtRatings s)
        then s\<lparr>rtRatings := map (\<lambda>row. if same row then withResultValues (apPeriodId input) now r row else row) (rtRatings s)\<rparr>
        else s\<lparr>rtRatings := rtRatings s @ [withResultValues (apPeriodId input) now r
                 \<lparr>plId = rtNextId s, plPlayerId = prPlayerId r, plEnvironment = apEnvironment input, plTimeCategory = apTimeCategory input,
                  plSnapshot = prAfter r, plGamesPlayed = 0, plIsProvisional = True, plPeakRating = None, plPeakRatingAt = None,
                  plLastPeriodId = None\<rparr>],
               rtNextId := Suc (rtNextId s)\<rparr>)"

definition historyRow :: "ApplyPeriodResultsInput \<Rightarrow> nat \<Rightarrow> PlayerPeriodResult \<Rightarrow> RatingHistoryRow" where
  "historyRow input i r = \<lparr>rhId = i, rhPlayerId = prPlayerId r, rhPeriodId = apPeriodId input, rhEnvironment = apEnvironment input,
     rhTimeCategory = apTimeCategory input, rhBefore = stored (prBefore r), rhAfter = stored (prAfter r),
     rhGamesInPeriod = prGamesInPeriod r, rhInputGames = prInputGames r\<rparr>"

definition replaceHistory :: "ApplyPeriodResultsInput \<Rightarrow> PlayerPeriodResult \<Rightarrow> unit rating" where
  "replaceHistory input r = putS (\<lambda>s. s\<lparr>rtHistory :=
       filter (\<lambda>h. \<not> (rhPlayerId h = prPlayerId r \<and> rhPeriodId h = apPeriodId input \<and> rhEnvironment h = apEnvironment input
         \<and> rhTimeCategory h = apTimeCategory input)) (rtHistory s) @ [historyRow input (rtNextId s) r],
     rtNextId := Suc (rtNextId s)\<rparr>)"

fun applyResults :: "ApplyPeriodResultsInput \<Rightarrow> int \<Rightarrow> PlayerPeriodResult list \<Rightarrow> unit rating" where
  "applyResults input now [] = returnS ()"
| "applyResults input now (r # rs) =
     bindS (upsertRating input now r) (\<lambda>_. bindS (replaceHistory input r) (\<lambda>_. applyResults input now rs))"

definition computedPeriod :: "ApplyPeriodResultsInput \<Rightarrow> int \<Rightarrow> RatingPeriodRow \<Rightarrow> RatingPeriodRow" where
  "computedPeriod input now period =
     period\<lparr>rpComputedAt := Some now, rpPlayersAffected := Some (length (apResults input)), rpGamesProcessed := Some (apGamesProcessed input),
       rpRecomputeGeneration := (if rpComputedAt period = None then rpRecomputeGeneration period else rpRecomputeGeneration period + 1)\<rparr>"

definition applyPeriodResults :: "ApplyPeriodResultsInput \<Rightarrow> int \<Rightarrow> RatingPeriodRow rating" where
  "applyPeriodResults input now = transaction (
     bindS (getS (\<lambda>s. periodLockKey (showNat (apPeriodId input)) \<in> set (rtLocked s))) (\<lambda>locked.
     bindS (guardS locked (ConflictError ''RatingPeriod'')) (\<lambda>_.
     bindS (getS (findPeriodById (apPeriodId input))) (\<lambda>found. case found of
       None \<Rightarrow> throwS (OtherError RecordNotFound)
     | Some period \<Rightarrow>
         let updated = computedPeriod input now period
         in bindS (applyResults input now (apResults input)) (\<lambda>_.
            bindS (putS (\<lambda>s. s\<lparr>rtPeriods := map (\<lambda>p. if rpId p = apPeriodId input then updated else p) (rtPeriods s)\<rparr>)) (\<lambda>_.
            bindS (ratingAudit (auditOf ''rating.recalculated'' (apActorUserId input) (showNat (apPeriodId input))
                (showNat (rpRecomputeGeneration period)) (showNat (rpRecomputeGeneration updated)) (Some (apReason input)))) (\<lambda>_.
            bindS (putS (\<lambda>s. s\<lparr>rtOutbox := rtOutbox s @ [(''RatingRecomputed'', apPeriodId input)]\<rparr>)) (\<lambda>_.
            returnS updated))))))))"

section \<open>Reads of the public\<close>

text \<open>
  The row of the cursor is looked up first, in a query of its own; a cursor that names no row is ignored. The names of the
  players, which the second query joins, are left out.
\<close>

definition cursorRow :: "nat option \<Rightarrow> PlayerRatingRow option ratingRequest" where
  "cursorRow afterId = (case afterId of None \<Rightarrow> returnR None
     | Some i \<Rightarrow> awaitR (getS (\<lambda>s. find (\<lambda>r. plId r = i) (rtRatings s))))"

definition leaderboardRows :: "PlayEnvironment \<Rightarrow> TimeCategory \<Rightarrow> nat \<Rightarrow> PlayerRatingRow option \<Rightarrow> RatingDb \<Rightarrow> PlayerRatingRow list" where
  "leaderboardRows environment timeCategory n cursor s =
     take (n + 1) (sort_key (\<lambda>r. - snRating (plSnapshot r)) (sort_key plId
       (filter (\<lambda>r. inPool environment timeCategory r \<and> \<not> plIsProvisional r \<and> plPlayerId r \<notin> set (rtDeleted s)
          \<and> (case cursor of None \<Rightarrow> True
             | Some c \<Rightarrow> snRating (plSnapshot r) < snRating (plSnapshot c)
                 \<or> snRating (plSnapshot r) = snRating (plSnapshot c) \<and> plId r > plId c)) (rtRatings s))))"

definition historyForPlayer ::
  "string \<Rightarrow> PlayEnvironment option \<Rightarrow> TimeCategory option \<Rightarrow> nat \<Rightarrow> nat option \<Rightarrow> RatingDb \<Rightarrow> RatingHistoryRow list" where
  "historyForPlayer p environment timeCategory n afterId s =
     take (n + 1) (sort_key rhId (filter (\<lambda>h. rhPlayerId h = p
       \<and> (case environment of None \<Rightarrow> True | Some e \<Rightarrow> rhEnvironment h = e)
       \<and> (case timeCategory of None \<Rightarrow> True | Some c \<Rightarrow> rhTimeCategory h = c)
       \<and> (case afterId of None \<Rightarrow> True | Some i \<Rightarrow> rhId h > i)) (rtHistory s)))"

section \<open>The service\<close>

definition periodRef :: ResourceRef where
  "periodRef = \<lparr>refType = RatingPeriod, refOwnerUserId = None, refClubId = None, refRegionId = None,
     refFederationId = None, refTournamentId = None, refSchoolId = None\<rparr>"

text \<open>What the metric is set to, one value for each category that exists.\<close>

definition refreshPeriodLagMetric :: "int \<Rightarrow> RatingDb \<Rightarrow> (PlayEnvironment \<times> TimeCategory \<times> rat) list" where
  "refreshPeriodLagMetric now s =
     (let pending = oldestUncomputedPeriodEnds now s;
          lag = (\<lambda>e c. case find (\<lambda>(e', c', _). e' = e \<and> c' = c) pending of
             None \<Rightarrow> 0 | Some (_, _, endsAt) \<Rightarrow> max 0 (of_int (now - endsAt) / 1000))
      in concat (map (\<lambda>e. List.map_filter (\<lambda>c. if isValidRatingCombo e c then Some (e, c, lag e c) else None) TIME_CATEGORIES)
           PLAY_ENVIRONMENTS))"

definition assertValidCombo :: "PlayEnvironment \<Rightarrow> TimeCategory \<Rightarrow> unit ratingRequest" where
  "assertValidCombo environment timeCategory =
     guardR (\<not> isValidRatingCombo environment timeCategory) (BusinessRuleError ''INVALID_RATING_CATEGORY'')"

definition checkPeriodInput :: "Actor \<Rightarrow> CreatePeriodInput \<Rightarrow> real option \<Rightarrow> int \<Rightarrow> real ratingRequest" where
  "checkPeriodInput actor input tauOption now =
     bindR (guardR (\<not> can actor Create periodRef now) (NotFoundError ''RatingPeriod'')) (\<lambda>_.
     bindR (assertValidCombo (cpdEnvironment input) (cpdTimeCategory input)) (\<lambda>_.
     bindR (guardR (cpdEndsAt input \<le> cpdStartsAt input) (BusinessRuleError ''INVALID_PERIOD_RANGE'')) (\<lambda>_.
     let tau = (case tauOption of None \<Rightarrow> TAU_DEFAULT | Some t \<Rightarrow> t) in
     bindR (guardR (tau < TAU_MIN \<or> tau > TAU_MAX) (BusinessRuleError ''INVALID_TAU'')) (\<lambda>_.
     returnR tau))))"

definition createIfFree :: "Actor \<Rightarrow> CreatePeriodInput \<Rightarrow> real \<Rightarrow> RatingPeriodRow option \<Rightarrow> RatingPeriodRow ratingRequest" where
  "createIfFree actor input tau overlapping =
     bindR (guardR (overlapping \<noteq> None) (ConflictError ''RatingPeriod'')) (\<lambda>_.
     awaitR (repoCreatePeriod input tau (acUserId actor)))"

definition createPeriod :: "Actor \<Rightarrow> CreatePeriodInput \<Rightarrow> real option \<Rightarrow> int \<Rightarrow> RatingPeriodRow ratingRequest" where
  "createPeriod actor input tauOption now =
     bindR (checkPeriodInput actor input tauOption now) (\<lambda>tau.
     bindR (awaitR (getS (findOverlappingPeriod (cpdEnvironment input) (cpdTimeCategory input) (cpdStartsAt input) (cpdEndsAt input))))
       (createIfFree actor input tau))"

text \<open>The reads of a computation; the last three are made in parallel.\<close>

record PeriodReads =
  prdGames :: "RatedGame list"
  prdRated :: "PlayerRatingRow list"
  prdWithGames :: "PlayerRatingRow list"
  prdPrior :: "PriorHistoryRow list"

definition gamePlayerIds :: "RatedGame list \<Rightarrow> string list" where
  "gamePlayerIds games = rev (remdups (rev (concat (map (\<lambda>g. [rgWhitePlayerId g, rgBlackPlayerId g]) games))))"

definition periodReads :: "RatingPeriodRow \<Rightarrow> RatingDb \<Rightarrow> PeriodReads" where
  "periodReads period s =
     (let games = gamesForPeriod (rpEnvironment period) (rpTimeCategory period) (rpStartsAt period) (rpEndsAt period) s
      in \<lparr>prdGames = games, prdRated = allRatedPlayers (rpEnvironment period) (rpTimeCategory period) s,
          prdWithGames = playersWithRatings (gamePlayerIds games) (rpEnvironment period) (rpTimeCategory period) s,
          prdPrior = priorHistoryForPeriod (rpId period) s\<rparr>)"

text \<open>One by one, in the order in which the database answers the parallel ones.\<close>

datatype ParallelRead = RatedPlayers | PlayersWithGames | PriorHistory

fun readInto :: "RatingPeriodRow \<Rightarrow> ParallelRead \<Rightarrow> PeriodReads \<Rightarrow> RatingDb \<Rightarrow> PeriodReads" where
  "readInto period RatedPlayers reads s =
     reads\<lparr>prdRated := allRatedPlayers (rpEnvironment period) (rpTimeCategory period) s\<rparr>"
| "readInto period PlayersWithGames reads s =
     reads\<lparr>prdWithGames := playersWithRatings (gamePlayerIds (prdGames reads)) (rpEnvironment period) (rpTimeCategory period) s\<rparr>"
| "readInto period PriorHistory reads s = reads\<lparr>prdPrior := priorHistoryForPeriod (rpId period) s\<rparr>"

primrec parallelReads :: "RatingPeriodRow \<Rightarrow> ParallelRead list \<Rightarrow> PeriodReads \<Rightarrow> PeriodReads ratingRequest" where
  "parallelReads period [] reads = returnR reads"
| "parallelReads period (q # qs) reads =
     bindR (awaitR (getS (readInto period q reads))) (\<lambda>reads'. parallelReads period qs reads')"

definition gatherReads :: "ParallelRead list \<Rightarrow> RatingPeriodRow \<Rightarrow> PeriodReads ratingRequest" where
  "gatherReads order period =
     bindR (awaitR (getS (gamesForPeriod (rpEnvironment period) (rpTimeCategory period) (rpStartsAt period) (rpEndsAt period)))) (\<lambda>games.
     parallelReads period order \<lparr>prdGames = games, prdRated = [], prdWithGames = [], prdPrior = []\<rparr>)"

text \<open>Later entries of \<^verbatim>\<open>new Map\<close> replace earlier ones.\<close>

definition currentById :: "PeriodReads \<Rightarrow> string \<Rightarrow> PlayerRatingRow option" where
  "currentById reads = map_of (rev (map (\<lambda>r. (plPlayerId r, r)) (prdRated reads @ prdWithGames reads)))"

definition historyById :: "PeriodReads \<Rightarrow> string \<Rightarrow> PriorHistoryRow option" where
  "historyById reads = map_of (rev (map (\<lambda>h. (phPlayerId h, h)) (prdPrior reads)))"

definition prePeriodState :: "PlayerRatingRow option \<Rightarrow> PriorHistoryRow option \<Rightarrow> PrePeriodState" where
  "prePeriodState current prior =
     (case (prior, current) of
        (Some h, Some r) \<Rightarrow>
          let gamesPlayedBefore = max 0 (plGamesPlayed r - int (phGamesInPeriod h))
          in \<lparr>psSnapshot = phBefore h, psGamesPlayed = gamesPlayedBefore,
              psIsProvisional = (\<not> isEstablished gamesPlayedBefore (snDeviation (phBefore h))), psPeakRating = plPeakRating r\<rparr>
      | (None, Some r) \<Rightarrow>
          \<lparr>psSnapshot = plSnapshot r, psGamesPlayed = plGamesPlayed r, psIsProvisional = plIsProvisional r,
           psPeakRating = plPeakRating r\<rparr>
      | (_, None) \<Rightarrow> DEFAULT_PRE_PERIOD_STATE)"

definition buildPrePeriodStates :: "PeriodReads \<Rightarrow> (string \<times> PrePeriodState) list" where
  "buildPrePeriodStates reads =
     map (\<lambda>p. (p, prePeriodState (currentById reads p) (historyById reads p)))
       (rev (remdups (rev (map plPlayerId (prdRated reads @ prdWithGames reads) @ gamePlayerIds (prdGames reads)))))"

text \<open>From the reads to what is applied; \<open>calcs\<close> makes the calculator for the constant of the period.\<close>

definition computeAndApply ::
  "(real \<Rightarrow> ConvergenceError calculator) \<Rightarrow> Actor \<Rightarrow> RatingPeriodRow \<Rightarrow> string \<Rightarrow> PeriodReads \<Rightarrow> int \<Rightarrow> RatingPeriodRow ratingRequest" where
  "computeAndApply calcs actor period trimmedReason reads now =
     (case computePeriodResults (calcs (rpTau period)) (prdGames reads) (buildPrePeriodStates reads) of
        Inl e \<Rightarrow> throwR (OtherError (Glicko e))
      | Inr results \<Rightarrow> awaitR (applyPeriodResults \<lparr>apPeriodId = rpId period, apEnvironment = rpEnvironment period,
          apTimeCategory = rpTimeCategory period, apActorUserId = acUserId actor, apReason = trimmedReason,
          apGamesProcessed = length (prdGames reads), apResults = results\<rparr> now))"

definition openPeriod :: "Actor \<Rightarrow> nat \<Rightarrow> string \<Rightarrow> int \<Rightarrow> (RatingPeriodRow \<times> string) ratingRequest" where
  "openPeriod actor periodId reason now =
     bindR (guardR (\<not> can actor Update periodRef now) (NotFoundError ''RatingPeriod'')) (\<lambda>_.
     bindR (awaitR (getS (findPeriodById periodId))) (\<lambda>found. case found of
       None \<Rightarrow> throwR (NotFoundError ''RatingPeriod'')
     | Some period \<Rightarrow>
         bindR (guardR (jsTrim reason = '''') (BusinessRuleError ''RECOMPUTE_REASON_REQUIRED'')) (\<lambda>_.
         returnR (period, jsTrim reason))))"

definition computePeriodWith ::
  "(real \<Rightarrow> ConvergenceError calculator) \<Rightarrow> ParallelRead list \<Rightarrow> Actor \<Rightarrow> nat \<Rightarrow> string \<Rightarrow> int \<Rightarrow> RatingPeriodRow ratingRequest" where
  "computePeriodWith calcs order actor periodId reason now =
     bindR (openPeriod actor periodId reason now) (\<lambda>opened.
     bindR (gatherReads order (fst opened)) (\<lambda>reads.
     computeAndApply calcs actor (fst opened) (snd opened) reads now))"

text \<open>A computation that nothing interrupts reads everything in one state, whatever the order of the parallel reads.\<close>

lemma parallelReads_alone:
  "runAlone (parallelReads period qs reads) s = (Inr (foldl (\<lambda>r q. readInto period q r s) reads qs), s)"
  by (induction qs arbitrary: reads) (simp_all add: run_alone bindS_def)

lemma foldl_reads:
  "prdGames (foldl (\<lambda>r q. readInto period q r s) reads qs) = prdGames reads"
  "prdRated (foldl (\<lambda>r q. readInto period q r s) reads qs) =
     (if RatedPlayers \<in> set qs then allRatedPlayers (rpEnvironment period) (rpTimeCategory period) s else prdRated reads)"
  "prdWithGames (foldl (\<lambda>r q. readInto period q r s) reads qs) = (if PlayersWithGames \<in> set qs
     then playersWithRatings (gamePlayerIds (prdGames reads)) (rpEnvironment period) (rpTimeCategory period) s else prdWithGames reads)"
  "prdPrior (foldl (\<lambda>r q. readInto period q r s) reads qs) =
     (if PriorHistory \<in> set qs then priorHistoryForPeriod (rpId period) s else prdPrior reads)"
proof (induction qs arbitrary: reads)
  case (Cons q qs)
  { case 1 show ?case using Cons(1) by (cases q) simp_all next case 2 show ?case using Cons(2) by (cases q) simp_all next
    case 3 show ?case using Cons(3) by (cases q) simp_all next case 4 show ?case using Cons(4) by (cases q) simp_all }
qed simp_all

lemma gatherReads_alone: "set order = UNIV \<Longrightarrow> runAlone (gatherReads order period) = getS (periodReads period)"
  by (rule ext) (simp add: gatherReads_def run_alone bindS_def parallelReads_alone periodReads_def Let_def foldl_reads)

text \<open>A computation alone.\<close>

definition computeAlone :: "(real \<Rightarrow> ConvergenceError calculator) \<Rightarrow> Actor \<Rightarrow> nat \<Rightarrow> string \<Rightarrow> int \<Rightarrow> RatingPeriodRow rating" where
  "computeAlone calcs actor periodId reason now =
     runAlone (computePeriodWith calcs [RatedPlayers, PlayersWithGames, PriorHistory] actor periodId reason now)"

lemma computePeriodWith_alone:
  assumes "set order = UNIV"
  shows "runAlone (computePeriodWith calcs order actor i reason now) =
     bindS (runAlone (openPeriod actor i reason now)) (\<lambda>opened. bindS (getS (periodReads (fst opened))) (\<lambda>reads.
       runAlone (computeAndApply calcs actor (fst opened) (snd opened) reads now)))"
  by (simp add: computePeriodWith_def run_alone gatherReads_alone [OF assms])

lemma all_reads: "set [RatedPlayers, PlayersWithGames, PriorHistory] = UNIV"
  using ParallelRead.exhaust by auto

lemma computeAlone_any_order:
  "set order = UNIV \<Longrightarrow> runAlone (computePeriodWith calcs order actor i reason now) = computeAlone calcs actor i reason now"
  unfolding computeAlone_def by (simp only: computePeriodWith_alone all_reads)

lemmas computeAlone_eq = computePeriodWith_alone [OF all_reads, folded computeAlone_def]

definition glicko2For :: "real \<Rightarrow> ConvergenceError calculator" where
  "glicko2For tau = compute (DEFAULT_GLICKO2_CONFIG\<lparr>gcTau := tau\<rparr>)"

definition computePeriod :: "ParallelRead list \<Rightarrow> Actor \<Rightarrow> nat \<Rightarrow> string \<Rightarrow> int \<Rightarrow> RatingPeriodRow ratingRequest" where
  "computePeriod = computePeriodWith glicko2For"

definition getCurrentRating :: "string \<Rightarrow> PlayEnvironment \<Rightarrow> TimeCategory \<Rightarrow> RatingDb \<Rightarrow> (real \<times> bool) option" where
  "getCurrentRating p environment timeCategory s =
     map_option (\<lambda>r. (snRating (plSnapshot r), plIsProvisional r)) (findPlayerRating p environment timeCategory s)"

definition ratingPageSize :: "int option \<Rightarrow> nat" where
  "ratingPageSize n = nat (min (max (case n of None \<Rightarrow> 20 | Some k \<Rightarrow> k) 1) 100)"

definition toRatingPage :: "('r \<Rightarrow> nat) \<Rightarrow> 'r list \<Rightarrow> nat \<Rightarrow> 'r list \<times> bool \<times> nat option" where
  "toRatingPage idOf rows n =
     (let items = (if length rows > n then take n rows else rows)
      in (items, length rows > n, if items = [] then None else Some (idOf (last items))))"

definition leaderboard ::
  "PlayEnvironment \<Rightarrow> TimeCategory \<Rightarrow> int option \<Rightarrow> nat option \<Rightarrow> (PlayerRatingRow list \<times> bool \<times> nat option) ratingRequest" where
  "leaderboard environment timeCategory n afterId =
     bindR (assertValidCombo environment timeCategory) (\<lambda>_.
     bindR (cursorRow afterId) (\<lambda>cursor.
     bindR (awaitR (getS (leaderboardRows environment timeCategory (ratingPageSize n) cursor))) (\<lambda>rows.
     returnR (toRatingPage plId rows (ratingPageSize n)))))"

definition playerHistory ::
  "string \<Rightarrow> PlayEnvironment option \<Rightarrow> TimeCategory option \<Rightarrow> int option \<Rightarrow> nat option \<Rightarrow> RatingDb \<Rightarrow> RatingHistoryRow list \<times> bool \<times> nat option" where
  "playerHistory p environment timeCategory n afterId s =
     toRatingPage rhId (historyForPlayer p environment timeCategory (ratingPageSize n) afterId s) (ratingPageSize n)"

definition listPeriods ::
  "PlayEnvironment option \<Rightarrow> TimeCategory option \<Rightarrow> int option \<Rightarrow> nat option \<Rightarrow> RatingDb \<Rightarrow> RatingPeriodRow list \<times> bool \<times> nat option" where
  "listPeriods environment timeCategory n afterId s =
     toRatingPage rpId (listPeriodRows (ratingPageSize n) afterId environment timeCategory s) (ratingPageSize n)"

end
