(* ===== verification/RatingRuns.thy ===== *)
theory RatingRuns
  imports Ratings
begin

text \<open>
  Periods computed one after the other: what the transaction that applies results leaves behind, row by
  row, and the invariant of the rating tables. In it the counter of a rated player is the number of games in his
  history, whatever periods were computed, in whatever order and how often.
\<close>

section \<open>The invariant\<close>

definition ofPlayer :: "string \<Rightarrow> PlayEnvironment \<Rightarrow> TimeCategory \<Rightarrow> RatingHistoryRow \<Rightarrow> bool" where
  "ofPlayer p e c h \<longleftrightarrow> rhPlayerId h = p \<and> rhEnvironment h = e \<and> rhTimeCategory h = c"

definition gamesIn :: "(RatingHistoryRow \<Rightarrow> bool) \<Rightarrow> RatingHistoryRow list \<Rightarrow> int" where
  "gamesIn P hs = sum_list (map (\<lambda>h. int (rhGamesInPeriod h)) (filter P hs))"

definition poolKey :: "PlayerRatingRow \<Rightarrow> string \<times> PlayEnvironment \<times> TimeCategory" where
  "poolKey r = (plPlayerId r, plEnvironment r, plTimeCategory r)"

definition samePool :: "RatingPeriodRow \<Rightarrow> PlayEnvironment \<Rightarrow> TimeCategory \<Rightarrow> bool" where
  "samePool q e c \<longleftrightarrow> rpEnvironment q = e \<and> rpTimeCategory q = c"

definition ratingOk :: "RatingDb \<Rightarrow> bool" where
  "ratingOk s \<longleftrightarrow> distinct (map rpId (rtPeriods s)) \<and> (\<forall>q \<in> set (rtPeriods s). rpId q < rtNextId s)
     \<and> distinct (map poolKey (rtRatings s))
     \<and> distinct (map (\<lambda>h. (rhPlayerId h, rhPeriodId h)) (rtHistory s))
     \<and> (\<forall>h \<in> set (rtHistory s). \<exists>q \<in> set (rtPeriods s). rpId q = rhPeriodId h \<and> samePool q (rhEnvironment h) (rhTimeCategory h))
     \<and> (\<forall>h \<in> set (rtHistory s). (rhPlayerId h, rhEnvironment h, rhTimeCategory h) \<in> poolKey ` set (rtRatings s))
     \<and> (\<forall>r \<in> set (rtRatings s). plGamesPlayed r = gamesIn (ofPlayer (plPlayerId r) (plEnvironment r) (plTimeCategory r)) (rtHistory s))"

lemma gamesIn_append [simp]: "gamesIn P (hs @ hs') = gamesIn P hs + gamesIn P hs'"
  by (simp add: gamesIn_def)

lemma gamesIn_simps [simp]: "gamesIn P [] = 0" "gamesIn P (h # hs) = (if P h then int (rhGamesInPeriod h) else 0) + gamesIn P hs"
  by (simp_all add: gamesIn_def)

lemma gamesIn_filter: "gamesIn P (filter Q hs) = gamesIn (\<lambda>h. Q h \<and> P h) hs"
  by (induction hs) auto

lemma gamesIn_cong: "(\<And>h. h \<in> set hs \<Longrightarrow> P h = Q h) \<Longrightarrow> gamesIn P hs = gamesIn Q hs"
  by (induction hs) auto

lemma gamesIn_nonneg: "0 \<le> gamesIn P hs" by (induction hs) auto

text \<open>The games of a player outside one period.\<close>

definition otherGames :: "nat \<Rightarrow> PlayEnvironment \<Rightarrow> TimeCategory \<Rightarrow> string \<Rightarrow> RatingDb \<Rightarrow> int" where
  "otherGames i e c p s = gamesIn (\<lambda>h. rhPeriodId h \<noteq> i \<and> ofPlayer p e c h) (rtHistory s)"

section \<open>One result\<close>

text \<open>What one turn of the loop leaves behind.\<close>

definition afterResult :: "ApplyPeriodResultsInput \<Rightarrow> int \<Rightarrow> PlayerPeriodResult \<Rightarrow> RatingDb \<Rightarrow> RatingDb" where
  "afterResult input now r s = snd (replaceHistory input r (snd (upsertRating input now r s)))"

lemma applyResults_Cons: "applyResults input now (r # rs) s = applyResults input now rs (afterResult input now r s)"
  by (simp add: bindS_def upsertRating_def replaceHistory_def afterResult_def)

lemma applyResults_returns: "applyResults input now rs s = (Inr (), foldl (\<lambda>t r. afterResult input now r t) s rs)"
  by (induction rs arbitrary: s) (simp_all add: applyResults_Cons del: applyResults.simps(2))

lemma afterResult_frame:
  "rtPeriods (afterResult input now r s) = rtPeriods s" "rtNextId s \<le> rtNextId (afterResult input now r s)"
  "rtPairings (afterResult input now r s) = rtPairings s" "rtPlay (afterResult input now r s) = rtPlay s"
  "rtLocked (afterResult input now r s) = rtLocked s"
  by (simp_all add: afterResult_def upsertRating_def replaceHistory_def Let_def)

lemma afterResult_history:
  "rtHistory (afterResult input now r s) =
     filter (\<lambda>h. \<not> (rhPeriodId h = apPeriodId input \<and> ofPlayer (prPlayerId r) (apEnvironment input) (apTimeCategory input) h)) (rtHistory s)
     @ [historyRow input (rtNextId (snd (upsertRating input now r s))) r]"
  unfolding afterResult_def replaceHistory_def
  by (simp add: upsertRating_def Let_def ofPlayer_def cong: conj_cong) (auto intro!: filter_cong)

text \<open>The rating rows by their key.\<close>

definition ratingRow :: "RatingDb \<Rightarrow> string \<times> PlayEnvironment \<times> TimeCategory \<Rightarrow> PlayerRatingRow option" where
  "ratingRow s k = find (\<lambda>r. poolKey r = k) (rtRatings s)"

lemma findPlayerRating_row: "findPlayerRating p e c s = ratingRow s (p, e, c)"
  by (simp add: findPlayerRating_def ratingRow_def inPool_def poolKey_def)

lemma ratingRow_None: "ratingRow s k = None \<longleftrightarrow> k \<notin> poolKey ` set (rtRatings s)"
  unfolding ratingRow_def find_None_iff by (auto simp: image_iff)

lemma find_map_upd:
  assumes "\<And>x. P x \<Longrightarrow> Q (f x) = Q x"
  shows "find Q (map (\<lambda>x. if P x then f x else x) xs) = map_option (\<lambda>x. if P x then f x else x) (find Q xs)"
  using assms by (induction xs) auto

lemma find_append: "find P (xs @ ys) = (case find P xs of None \<Rightarrow> find P ys | Some x \<Rightarrow> Some x)"
  by (induction xs) auto

abbreviation resultKey :: "ApplyPeriodResultsInput \<Rightarrow> PlayerPeriodResult \<Rightarrow> string \<times> PlayEnvironment \<times> TimeCategory" where
  "resultKey input r \<equiv> (prPlayerId r, apEnvironment input, apTimeCategory input)"

lemma withResultValues_sel:
  "poolKey (withResultValues i now r row) = poolKey row" "plGamesPlayed (withResultValues i now r row) = prGamesPlayedTotal r"
  "plSnapshot (withResultValues i now r row) = stored (prAfter r)" "plIsProvisional (withResultValues i now r row) = prIsProvisional r"
  "plPeakRating (withResultValues i now r row) = prPeakRating r"
  by (simp_all add: withResultValues_def poolKey_def)

definition freshRow :: "ApplyPeriodResultsInput \<Rightarrow> PlayerPeriodResult \<Rightarrow> nat \<Rightarrow> PlayerRatingRow" where
  "freshRow input r i = \<lparr>plId = i, plPlayerId = prPlayerId r, plEnvironment = apEnvironment input, plTimeCategory = apTimeCategory input,
     plSnapshot = prAfter r, plGamesPlayed = 0, plIsProvisional = True, plPeakRating = None, plPeakRatingAt = None, plLastPeriodId = None\<rparr>"

lemma afterResult_ratings:
  "rtRatings (afterResult input now r s) =
     (if resultKey input r \<in> poolKey ` set (rtRatings s)
      then map (\<lambda>row. if poolKey row = resultKey input r then withResultValues (apPeriodId input) now r row else row) (rtRatings s)
      else rtRatings s @ [withResultValues (apPeriodId input) now r (freshRow input r (rtNextId s))])"
proof -
  have same: "plPlayerId row = prPlayerId r \<and> inPool (apEnvironment input) (apTimeCategory input) row \<longleftrightarrow> poolKey row = resultKey input r" for row
    by (auto simp: inPool_def poolKey_def)
  have ex: "list_ex (\<lambda>row. poolKey row = resultKey input r) (rtRatings s) \<longleftrightarrow> resultKey input r \<in> poolKey ` set (rtRatings s)"
    by (auto simp: list_ex_iff image_iff) metis
  show ?thesis unfolding afterResult_def upsertRating_def Let_def same replaceHistory_def by (simp add: ex freshRow_def)
qed

lemma afterResult_row:
  "ratingRow (afterResult input now r s) k =
     (if k = resultKey input r
      then Some (withResultValues (apPeriodId input) now r
             (case ratingRow s k of None \<Rightarrow> freshRow input r (rtNextId s) | Some row \<Rightarrow> row))
      else ratingRow s k)"
proof (cases "resultKey input r \<in> poolKey ` set (rtRatings s)")
  case True
  let ?upd = "\<lambda>row. if poolKey row = resultKey input r then withResultValues (apPeriodId input) now r row else row"
  have eq: "ratingRow (afterResult input now r s) k = map_option ?upd (ratingRow s k)"
    unfolding ratingRow_def afterResult_ratings if_P [OF True] by (rule find_map_upd) (simp add: withResultValues_sel)
  have "ratingRow s (resultKey input r) \<noteq> None" using True by (auto simp: ratingRow_def find_None_iff)
  moreover have "poolKey row = k" if "ratingRow s k = Some row" for row using that by (auto simp: ratingRow_def find_Some_iff)
  ultimately show ?thesis unfolding eq by (cases "ratingRow s k") auto
next
  case False
  then have "ratingRow s (resultKey input r) = None" by (simp add: ratingRow_None)
  moreover have "poolKey (withResultValues (apPeriodId input) now r (freshRow input r i)) = resultKey input r" for i
    by (simp add: withResultValues_sel) (simp add: freshRow_def poolKey_def)
  ultimately show ?thesis
    unfolding ratingRow_def afterResult_ratings if_not_P [OF False] find_append by (auto split: option.split)
qed

lemma ratingRow_iff: "distinct (map poolKey (rtRatings s)) \<Longrightarrow> ratingRow s k = Some row \<longleftrightarrow> row \<in> set (rtRatings s) \<and> poolKey row = k"
  unfolding ratingRow_def by (auto simp: find_Some_iff in_set_conv_nth distinct_conv_nth)

lemma afterResult_keys:
  "poolKey ` set (rtRatings (afterResult input now r s)) = insert (resultKey input r) (poolKey ` set (rtRatings s))"
proof -
  have "k \<in> poolKey ` set (rtRatings t) \<longleftrightarrow> ratingRow t k \<noteq> None" for k t by (simp add: ratingRow_None)
  then show ?thesis by (intro set_eqI) (simp add: afterResult_row)
qed

lemma distinct_keys_upd: "(\<And>x. f (g x) = f x) \<Longrightarrow> map f (map (\<lambda>x. if P x then g x else x) xs) = map f xs"
  by (induction xs) auto

lemma afterResult_distinct:
  "distinct (map poolKey (rtRatings s)) \<Longrightarrow> distinct (map poolKey (rtRatings (afterResult input now r s)))"
  unfolding afterResult_ratings
  by (simp add: distinct_keys_upd withResultValues_sel del: map_map) (auto simp: freshRow_def poolKey_def)

lemma gamesIn_afterResult:
  "gamesIn (ofPlayer p e c) (rtHistory (afterResult input now r s)) =
     (if (p, e, c) = resultKey input r then otherGames (apPeriodId input) e c p s + int (prGamesInPeriod r)
      else gamesIn (ofPlayer p e c) (rtHistory s))"
proof (cases "(p, e, c) = resultKey input r")
  case True
  then have "ofPlayer p e c (historyRow input i r)" for i by (simp add: ofPlayer_def historyRow_def)
  moreover have "gamesIn (\<lambda>h. \<not> (rhPeriodId h = apPeriodId input \<and> ofPlayer p e c h) \<and> ofPlayer p e c h) (rtHistory s)
      = gamesIn (\<lambda>h. rhPeriodId h \<noteq> apPeriodId input \<and> ofPlayer p e c h) (rtHistory s)"
    by (rule gamesIn_cong) blast
  moreover have "rhGamesInPeriod (historyRow input i r) = prGamesInPeriod r" for i by (simp add: historyRow_def)
  ultimately show ?thesis using True unfolding afterResult_history otherGames_def by (simp add: gamesIn_filter)
next
  case False
  then have "\<not> ofPlayer p e c (historyRow input i r)" for i by (auto simp: ofPlayer_def historyRow_def)
  moreover have "gamesIn (\<lambda>h. \<not> (rhPeriodId h = apPeriodId input \<and> ofPlayer (prPlayerId r) (apEnvironment input) (apTimeCategory input) h)
      \<and> ofPlayer p e c h) (rtHistory s) = gamesIn (ofPlayer p e c) (rtHistory s)"
    by (rule gamesIn_cong) (use False in \<open>auto simp: ofPlayer_def\<close>)
  ultimately show ?thesis using False unfolding afterResult_history by (simp only: gamesIn_append gamesIn_filter gamesIn_simps) simp
qed

lemma otherGames_afterResult:
  "otherGames (apPeriodId input) e c p (afterResult input now r s) = otherGames (apPeriodId input) e c p s"
  unfolding afterResult_history otherGames_def
  by (simp add: gamesIn_filter historyRow_def) (rule gamesIn_cong, auto)

lemma ratingOk_period:
  assumes "ratingOk s" "h \<in> set (rtHistory s)" "q \<in> set (rtPeriods s)" "rpId q = rhPeriodId h" "samePool q e c"
  shows "rhEnvironment h = e \<and> rhTimeCategory h = c"
proof -
  obtain q' where q': "q' \<in> set (rtPeriods s)" "rpId q' = rhPeriodId h" "samePool q' (rhEnvironment h) (rhTimeCategory h)"
    using assms(1,2) unfolding ratingOk_def by blast
  have "inj_on rpId (set (rtPeriods s))" using assms(1) by (simp add: ratingOk_def distinct_map)
  then have "q' = q" using q'(1,2) assms(3,4) by (metis inj_onD)
  then show ?thesis using q'(3) assms(5) by (simp add: samePool_def)
qed

lemma afterResult_ok:
  assumes "ratingOk s" "q \<in> set (rtPeriods s)" "rpId q = apPeriodId input" "samePool q (apEnvironment input) (apTimeCategory input)"
    and "prGamesPlayedTotal r = otherGames (apPeriodId input) (apEnvironment input) (apTimeCategory input) (prPlayerId r) s + int (prGamesInPeriod r)"
  shows "ratingOk (afterResult input now r s)"
  unfolding ratingOk_def afterResult_frame(1)
proof (intro conjI)
  let ?t = "afterResult input now r s"
  let ?gone = "\<lambda>h. rhPeriodId h = apPeriodId input \<and> ofPlayer (prPlayerId r) (apEnvironment input) (apTimeCategory input) h"
  have ok: "distinct (map rpId (rtPeriods s))" "\<forall>q \<in> set (rtPeriods s). rpId q < rtNextId s" "distinct (map poolKey (rtRatings s))"
    "distinct (map (\<lambda>h. (rhPlayerId h, rhPeriodId h)) (rtHistory s))"
    "\<forall>h \<in> set (rtHistory s). \<exists>q \<in> set (rtPeriods s). rpId q = rhPeriodId h \<and> samePool q (rhEnvironment h) (rhTimeCategory h)"
    "\<forall>h \<in> set (rtHistory s). (rhPlayerId h, rhEnvironment h, rhTimeCategory h) \<in> poolKey ` set (rtRatings s)"
    "\<forall>r \<in> set (rtRatings s). plGamesPlayed r = gamesIn (ofPlayer (plPlayerId r) (plEnvironment r) (plTimeCategory r)) (rtHistory s)"
    using assms(1) by (simp_all add: ratingOk_def)
  show "distinct (map rpId (rtPeriods s))" by (rule ok(1))
  show "\<forall>q \<in> set (rtPeriods s). rpId q < rtNextId ?t" using ok(2) afterResult_frame(2) [of s input now r] by fastforce
  show "distinct (map poolKey (rtRatings ?t))" using ok(3) by (rule afterResult_distinct)
  have "(prPlayerId r, apPeriodId input) \<notin> (\<lambda>h. (rhPlayerId h, rhPeriodId h)) ` set (filter (\<lambda>h. \<not> ?gone h) (rtHistory s))"
    using ratingOk_period [OF assms(1) _ assms(2) _ assms(4)] assms(3) by (auto simp: ofPlayer_def)
  then show "distinct (map (\<lambda>h. (rhPlayerId h, rhPeriodId h)) (rtHistory ?t))"
    unfolding afterResult_history using ok(4) by (auto simp: historyRow_def distinct_map_filter)
  show "\<forall>h \<in> set (rtHistory ?t). \<exists>q \<in> set (rtPeriods s). rpId q = rhPeriodId h \<and> samePool q (rhEnvironment h) (rhTimeCategory h)"
    unfolding afterResult_history using ok(5) assms(2-4) by (auto simp: historyRow_def)
  show "\<forall>h \<in> set (rtHistory ?t). (rhPlayerId h, rhEnvironment h, rhTimeCategory h) \<in> poolKey ` set (rtRatings ?t)"
    unfolding afterResult_history afterResult_keys using ok(6) by (auto simp: historyRow_def)
  show "\<forall>x \<in> set (rtRatings ?t). plGamesPlayed x = gamesIn (ofPlayer (plPlayerId x) (plEnvironment x) (plTimeCategory x)) (rtHistory ?t)"
  proof
    fix x assume "x \<in> set (rtRatings ?t)"
    then have row: "ratingRow ?t (poolKey x) = Some x" using ratingRow_iff [OF afterResult_distinct [OF ok(3)]] by blast
    show "plGamesPlayed x = gamesIn (ofPlayer (plPlayerId x) (plEnvironment x) (plTimeCategory x)) (rtHistory ?t)"
    proof (cases "poolKey x = resultKey input r")
      case True
      then have "plGamesPlayed x = prGamesPlayedTotal r" using row unfolding afterResult_row by (auto simp: withResultValues_sel)
      then show ?thesis using True assms(5) unfolding gamesIn_afterResult by (simp add: poolKey_def)
    next
      case False
      then have "x \<in> set (rtRatings s)" using row ratingRow_iff [OF ok(3)] unfolding afterResult_row by simp
      moreover have "(plPlayerId x, plEnvironment x, plTimeCategory x) \<noteq> resultKey input r" using False by (simp add: poolKey_def)
      ultimately show ?thesis using ok(7) by (simp only: gamesIn_afterResult if_False)
    qed
  qed
qed

definition afterResults :: "ApplyPeriodResultsInput \<Rightarrow> int \<Rightarrow> PlayerPeriodResult list \<Rightarrow> RatingDb \<Rightarrow> RatingDb" where
  "afterResults input now rs s = foldl (\<lambda>t r. afterResult input now r t) s rs"

lemma afterResults_simps [simp]:
  "afterResults input now [] s = s" "afterResults input now (r # rs) s = afterResults input now rs (afterResult input now r s)"
  by (simp_all add: afterResults_def)

lemma afterResults_frame:
  "rtPeriods (afterResults input now rs s) = rtPeriods s" "rtPairings (afterResults input now rs s) = rtPairings s"
  "rtPlay (afterResults input now rs s) = rtPlay s" "rtLocked (afterResults input now rs s) = rtLocked s"
  by (induction rs arbitrary: s) (simp_all add: afterResult_frame)

lemma otherGames_afterResults:
  "otherGames (apPeriodId input) e c p (afterResults input now rs s) = otherGames (apPeriodId input) e c p s"
  by (induction rs arbitrary: s) (simp_all add: otherGames_afterResult)

lemma afterResults_ok:
  assumes "ratingOk s" "q \<in> set (rtPeriods s)" "rpId q = apPeriodId input" "samePool q (apEnvironment input) (apTimeCategory input)"
    and "\<forall>r \<in> set rs. prGamesPlayedTotal r =
      otherGames (apPeriodId input) (apEnvironment input) (apTimeCategory input) (prPlayerId r) s + int (prGamesInPeriod r)"
  shows "ratingOk (afterResults input now rs s)"
  using assms(1,2,5)
proof (induction rs arbitrary: s)
  case (Cons r rs)
  then show ?case using afterResult_ok [OF Cons.prems(1,2) assms(3,4), of r now]
    by (auto simp: afterResult_frame otherGames_afterResult)
qed simp

text \<open>A player has one result, which stays.\<close>

lemma afterResults_other:
  "(\<And>r. r \<in> set rs \<Longrightarrow> resultKey input r \<noteq> k) \<Longrightarrow> ratingRow (afterResults input now rs s) k = ratingRow s k"
  by (induction rs arbitrary: s) (auto simp: afterResult_row)

lemma afterResults_row:
  "distinct (map prPlayerId rs) \<Longrightarrow> r \<in> set rs \<Longrightarrow>
    \<exists>i. ratingRow (afterResults input now rs s) (resultKey input r) = Some (withResultValues (apPeriodId input) now r
      (case ratingRow s (resultKey input r) of None \<Rightarrow> freshRow input r i | Some row \<Rightarrow> row))"
proof (induction rs arbitrary: s)
  case (Cons x xs)
  show ?case
  proof (cases "r = x")
    case True
    then have "ratingRow (afterResults input now xs (afterResult input now x s)) (resultKey input r)
        = ratingRow (afterResult input now x s) (resultKey input r)"
      using Cons.prems(1) by (intro afterResults_other) (auto simp: image_iff)
    then show ?thesis using True by (auto simp: afterResult_row)
  next
    case False
    then have "r \<in> set xs" using Cons.prems(2) by simp
    moreover from this have "prPlayerId r \<noteq> prPlayerId x" using Cons.prems(1) by (metis distinct.simps(2) image_eqI list.map(2) set_map)
    ultimately have "r \<in> set xs" "prPlayerId r \<noteq> prPlayerId x" by blast+
    then show ?thesis using Cons.IH [of "afterResult input now x s"] Cons.prems(1) by (auto simp: afterResult_row)
  qed
qed simp

section \<open>What the reads give\<close>

lemma map_of_unique:
  assumes "inj_on f (set xs)"
  shows "map_of (rev (map (\<lambda>x. (f x, g x)) xs)) p = Some y \<longleftrightarrow> (\<exists>x \<in> set xs. f x = p \<and> g x = y)"
proof
  assume "map_of (rev (map (\<lambda>x. (f x, g x)) xs)) p = Some y"
  then have "(p, y) \<in> set (rev (map (\<lambda>x. (f x, g x)) xs))" by (rule map_of_SomeD)
  then show "\<exists>x \<in> set xs. f x = p \<and> g x = y" by auto
next
  assume "\<exists>x \<in> set xs. f x = p \<and> g x = y"
  then obtain x where x: "x \<in> set xs" "f x = p" "g x = y" by blast
  then obtain z where z: "map_of (rev (map (\<lambda>x. (f x, g x)) xs)) p = Some z"
    using weak_map_of_SomeI [of p y "rev (map (\<lambda>x. (f x, g x)) xs)"] by force
  then have "(p, z) \<in> set (rev (map (\<lambda>x. (f x, g x)) xs))" by (rule map_of_SomeD)
  then show "map_of (rev (map (\<lambda>x. (f x, g x)) xs)) p = Some y" using z x assms by (auto dest: inj_onD)
qed

lemma currentById_rows:
  assumes "distinct (map poolKey (rtRatings s))"
    and "set (prdRated reads) \<union> set (prdWithGames reads) = {r \<in> set (rtRatings s). inPool e c r}"
  shows "currentById reads p = ratingRow s (p, e, c)"
proof -
  have inj: "inj_on plPlayerId (set (prdRated reads @ prdWithGames reads))"
  proof (rule inj_onI)
    fix x y assume "x \<in> set (prdRated reads @ prdWithGames reads)" "y \<in> set (prdRated reads @ prdWithGames reads)"
      "plPlayerId x = plPlayerId y"
    then have "x \<in> set (rtRatings s)" "y \<in> set (rtRatings s)" "poolKey x = poolKey y"
      using assms(2) by (auto simp: poolKey_def inPool_def set_eq_iff)
    then show "x = y" using assms(1) by (auto simp: distinct_map dest: inj_onD)
  qed
  have mem: "x \<in> set (prdRated reads @ prdWithGames reads) \<longleftrightarrow> x \<in> set (rtRatings s) \<and> inPool e c x" for x using assms(2) by auto
  have "currentById reads p = Some r \<longleftrightarrow> (\<exists>x \<in> set (prdRated reads @ prdWithGames reads). plPlayerId x = p \<and> x = r)" for r
    unfolding currentById_def by (rule map_of_unique [OF inj, where g = "\<lambda>x. x"])
  then have "currentById reads p = Some r \<longleftrightarrow> ratingRow s (p, e, c) = Some r" for r
    unfolding ratingRow_iff [OF assms(1)] by (auto simp: poolKey_def inPool_def mem simp del: set_append)
  then show ?thesis by (metis option.exhaust)
qed

lemma preStateOf_build: "preStateOf (buildPrePeriodStates reads) p = prePeriodState (currentById reads p) (historyById reads p)"
proof -
  let ?ids = "rev (remdups (rev (map plPlayerId (prdRated reads @ prdWithGames reads) @ gamePlayerIds (prdGames reads))))"
  have eq: "map_of (buildPrePeriodStates reads) p = (if p \<in> set ?ids then Some (prePeriodState (currentById reads p) (historyById reads p)) else None)"
    unfolding buildPrePeriodStates_def map_of_map_restrict by (simp add: restrict_map_def)
  show ?thesis
  proof (cases "p \<in> set ?ids")
    case True
    then show ?thesis by (simp add: preStateOf_def eq)
  next
    case False
    then have "currentById reads p = None" unfolding currentById_def map_of_eq_None_iff by force
    then show ?thesis using False by (simp add: preStateOf_def eq prePeriodState_def split: option.split)
  qed
qed

lemma periodReads_rows:
  "set (prdRated (periodReads q s)) \<union> set (prdWithGames (periodReads q s))
     = {r \<in> set (rtRatings s). inPool (rpEnvironment q) (rpTimeCategory q) r}"
  by (auto simp: periodReads_def Let_def allRatedPlayers_def playersWithRatings_def)

lemma priorHistory_inj:
  assumes "ratingOk s"
  shows "inj_on phPlayerId (set (priorHistoryForPeriod i s))"
proof (rule inj_onI)
  fix x y assume "x \<in> set (priorHistoryForPeriod i s)" "y \<in> set (priorHistoryForPeriod i s)" "phPlayerId x = phPlayerId y"
  then obtain g h where "g \<in> set (rtHistory s)" "h \<in> set (rtHistory s)" "rhPeriodId g = rhPeriodId h" "rhPlayerId g = rhPlayerId h"
    "x = \<lparr>phPlayerId = rhPlayerId g, phBefore = rhBefore g, phGamesInPeriod = rhGamesInPeriod g\<rparr>"
    "y = \<lparr>phPlayerId = rhPlayerId h, phBefore = rhBefore h, phGamesInPeriod = rhGamesInPeriod h\<rparr>"
    by (auto simp: priorHistoryForPeriod_def)
  moreover from this have "g = h" using assms by (auto simp: ratingOk_def distinct_map dest: inj_onD)
  ultimately show "x = y" by simp
qed

lemma historyById_reads:
  assumes "ratingOk s" "prdPrior reads = priorHistoryForPeriod i s"
  shows "historyById reads p = Some h \<longleftrightarrow> (\<exists>x \<in> set (rtHistory s). rhPeriodId x = i \<and> rhPlayerId x = p \<and>
    h = \<lparr>phPlayerId = p, phBefore = rhBefore x, phGamesInPeriod = rhGamesInPeriod x\<rparr>)"
  unfolding historyById_def assms(2) map_of_unique [OF priorHistory_inj [OF assms(1)]] by (auto simp: priorHistoryForPeriod_def)

section \<open>The counters\<close>

lemma gamesIn_partition: "gamesIn Q hs = gamesIn (\<lambda>h. \<not> R h \<and> Q h) hs + gamesIn (\<lambda>h. R h \<and> Q h) hs"
  by (induction hs) auto

lemma gamesIn_split: "gamesIn (ofPlayer p e c) (rtHistory s) = otherGames i e c p s + gamesIn (\<lambda>h. rhPeriodId h = i \<and> ofPlayer p e c h) (rtHistory s)"
  unfolding otherGames_def by (rule gamesIn_partition [of "ofPlayer p e c" "rtHistory s" "\<lambda>h. rhPeriodId h = i"])

lemma gamesIn_one:
  "distinct hs \<Longrightarrow> x \<in> set hs \<Longrightarrow> P x \<Longrightarrow> (\<And>y. y \<in> set hs \<Longrightarrow> P y \<Longrightarrow> y = x) \<Longrightarrow> gamesIn P hs = int (rhGamesInPeriod x)"
proof (induction hs)
  case (Cons h hs)
  show ?case
  proof (cases "h = x")
    case True
    have "\<not> P y" if "y \<in> set hs" for y
    proof
      assume "P y"
      then have "y = x" using Cons.prems(4) that by simp
      then show False using Cons.prems(1) True that by simp
    qed
    then have "gamesIn P hs = gamesIn (\<lambda>_. False) hs" by (intro gamesIn_cong) simp
    moreover have "gamesIn (\<lambda>_. False) gs = 0" for gs by (induction gs) auto
    ultimately show ?thesis using True Cons.prems(3) by simp
  next
    case False
    then have "\<not> P h" using Cons.prems(4) [of h] by auto
    moreover have "gamesIn P hs = int (rhGamesInPeriod x)"
    proof (rule Cons.IH)
      show "distinct hs" "x \<in> set hs" "P x" using Cons.prems(1-3) False by simp_all
      show "y = x" if "y \<in> set hs" "P y" for y by (rule Cons.prems(4)) (use that in simp_all)
    qed
    ultimately show ?thesis by simp
  qed
qed simp

lemma ratingOk_counter:
  "ratingOk s \<Longrightarrow> ratingRow s (p, e, c) = Some r \<Longrightarrow> plGamesPlayed r = gamesIn (ofPlayer p e c) (rtHistory s)"
  using ratingRow_iff [of s] by (auto simp: ratingOk_def poolKey_def)

lemma ratingOk_unrated:
  assumes "ratingOk s" "ratingRow s (p, e, c) = None"
  shows "gamesIn (ofPlayer p e c) (rtHistory s) = 0"
proof -
  have "gamesIn (ofPlayer p e c) (rtHistory s) = gamesIn (\<lambda>_. False) (rtHistory s)"
    using assms by (intro gamesIn_cong) (force simp: ratingOk_def ratingRow_None ofPlayer_def)
  moreover have "gamesIn (\<lambda>_. False) gs = 0" for gs by (induction gs) auto
  ultimately show ?thesis by simp
qed

lemma prePeriod_games:
  assumes "ratingOk s" "q \<in> set (rtPeriods s)" "prdPrior reads = priorHistoryForPeriod (rpId q) s"
    and "currentById reads p = ratingRow s (p, rpEnvironment q, rpTimeCategory q)"
  shows "psGamesPlayed (preStateOf (buildPrePeriodStates reads) p) = otherGames (rpId q) (rpEnvironment q) (rpTimeCategory q) p s"
proof -
  let ?e = "rpEnvironment q" and ?c = "rpTimeCategory q" and ?i = "rpId q"
  let ?mine = "\<lambda>h. rhPeriodId h = ?i \<and> ofPlayer p ?e ?c h"
  note split = gamesIn_split [of p ?e ?c s ?i]
  show ?thesis
  proof (cases "ratingRow s (p, ?e, ?c)")
    case None
    then have "gamesIn (ofPlayer p ?e ?c) (rtHistory s) = 0" by (rule ratingOk_unrated [OF assms(1)])
    then have "otherGames ?i ?e ?c p s = 0"
      using split gamesIn_nonneg [of ?mine "rtHistory s"] gamesIn_nonneg [of "\<lambda>h. rhPeriodId h \<noteq> ?i \<and> ofPlayer p ?e ?c h" "rtHistory s"]
      unfolding otherGames_def by linarith
    then show ?thesis using None assms(4) by (simp add: preStateOf_build prePeriodState_def DEFAULT_PRE_PERIOD_STATE_def split: option.split)
  next
    case (Some r)
    note total = ratingOk_counter [OF assms(1) Some]
    show ?thesis
    proof (cases "historyById reads p")
      case None
      have "gamesIn ?mine (rtHistory s) = gamesIn (\<lambda>_. False) (rtHistory s)"
        by (rule gamesIn_cong) (use None historyById_reads [OF assms(1,3), of p] in \<open>auto simp: ofPlayer_def\<close>)
      moreover have "gamesIn (\<lambda>_. False) gs = 0" for gs by (induction gs) auto
      ultimately show ?thesis using None Some assms(4) total split by (simp add: preStateOf_build prePeriodState_def)
    next
      case (Some h)
      then obtain x where x: "x \<in> set (rtHistory s)" "rhPeriodId x = ?i" "rhPlayerId x = p"
        "h = \<lparr>phPlayerId = p, phBefore = rhBefore x, phGamesInPeriod = rhGamesInPeriod x\<rparr>"
        using historyById_reads [OF assms(1,3), of p h] by blast
      have "?mine x" using ratingOk_period [OF assms(1) x(1) assms(2)] x(2,3) by (auto simp: ofPlayer_def samePool_def)
      moreover have inj: "inj_on (\<lambda>h. (rhPlayerId h, rhPeriodId h)) (set (rtHistory s))" "distinct (rtHistory s)"
        using assms(1) by (simp_all add: ratingOk_def distinct_map)
      ultimately have "gamesIn ?mine (rtHistory s) = int (rhGamesInPeriod x)"
        using x(1-3) by (intro gamesIn_one) (auto simp: ofPlayer_def dest: inj_onD)
      moreover have "0 \<le> otherGames ?i ?e ?c p s" unfolding otherGames_def by (rule gamesIn_nonneg)
      ultimately show ?thesis using Some \<open>ratingRow s _ = Some r\<close> assms(4) total split x(4)
        by (simp add: preStateOf_build prePeriodState_def Let_def)
    qed
  qed
qed

section \<open>The transaction\<close>

text \<open>What a computation never changes of a period.\<close>

definition periodKey :: "RatingPeriodRow \<Rightarrow> nat \<times> PlayEnvironment \<times> TimeCategory \<times> int \<times> int \<times> real" where
  "periodKey q = (rpId q, rpEnvironment q, rpTimeCategory q, rpStartsAt q, rpEndsAt q, rpTau q)"

lemma periodKey_computed: "periodKey (computedPeriod input now q) = periodKey q"
  by (simp add: periodKey_def computedPeriod_def)

lemma audit_outbox_ex: "\<exists>audit outbox. rtAudit_update f u\<lparr>rtOutbox := b\<rparr> = u\<lparr>rtAudit := audit, rtOutbox := outbox\<rparr>"
  by (rule exI [of _ "f (rtAudit u)"], rule exI [of _ b], cases u) simp

lemma applyPeriodResults_eval:
  assumes "periodLockKey (showNat (apPeriodId input)) \<notin> set (rtLocked s)" "findPeriodById (apPeriodId input) s = Some q"
    and "jsTrim (apReason input) \<noteq> ''''"
  shows "\<exists>audit outbox. applyPeriodResults input now s = (Inr (computedPeriod input now q),
    (afterResults input now (apResults input) s)\<lparr>
      rtPeriods := map (\<lambda>p. if rpId p = apPeriodId input then computedPeriod input now q else p) (rtPeriods s),
      rtAudit := audit, rtOutbox := outbox\<rparr>)"
proof -
  let ?t = "afterResults input now (apResults input) s"
  have m: "applyResults input now (apResults input) s = (Inr (), ?t)" by (simp add: applyResults_returns afterResults_def)
  have "rtPeriods ?t = rtPeriods s" by (rule afterResults_frame)
  then show ?thesis using assms
    by (auto simp: applyPeriodResults_def transaction_def bindS_def Let_def ratingAudit_def auditWriteTo_def auditOf_def m
        intro: audit_outbox_ex)
qed

lemma applyPeriodResults_Inr:
  assumes "applyPeriodResults input now s = (Inr row, s')"
  shows "periodLockKey (showNat (apPeriodId input)) \<notin> set (rtLocked s)" "\<exists>q. findPeriodById (apPeriodId input) s = Some q"
    "jsTrim (apReason input) \<noteq> ''''"
proof -
  show l: "periodLockKey (showNat (apPeriodId input)) \<notin> set (rtLocked s)"
    using assms by (auto simp: applyPeriodResults_def transaction_def bindS_def)
  show f: "\<exists>q. findPeriodById (apPeriodId input) s = Some q"
    using assms l by (cases "findPeriodById (apPeriodId input) s") (auto simp: applyPeriodResults_def transaction_def bindS_def)
  have m: "applyResults input now (apResults input) s = (Inr (), afterResults input now (apResults input) s)"
    by (simp add: applyResults_returns afterResults_def)
  show "jsTrim (apReason input) \<noteq> ''''"
  proof
    assume "jsTrim (apReason input) = ''''"
    then show False using assms l f
      by (auto simp: applyPeriodResults_def transaction_def bindS_def Let_def ratingAudit_def auditWriteTo_def auditOf_def m REASON_REQUIRED_def)
  qed
qed

end
