(* ===== verification/RatingProps.thy ===== *)
theory RatingProps
  imports RatingRuns ArbiterStandings
begin

text \<open>
  What the rating service promises when it answers one request after the other: the counters of the ratings are the games of
  the history.
\<close>

section \<open>Whole computations\<close>

definition resultsInput :: "Actor \<Rightarrow> RatingPeriodRow \<Rightarrow> string \<Rightarrow> PeriodReads \<Rightarrow> PlayerPeriodResult list \<Rightarrow> ApplyPeriodResultsInput" where
  "resultsInput actor q reason reads results = \<lparr>apPeriodId = rpId q, apEnvironment = rpEnvironment q, apTimeCategory = rpTimeCategory q,
     apActorUserId = acUserId actor, apReason = reason, apGamesProcessed = length (prdGames reads), apResults = results\<rparr>"

lemma resultsInput_sel [simp]:
  "apPeriodId (resultsInput actor q reason reads results) = rpId q" "apEnvironment (resultsInput actor q reason reads results) = rpEnvironment q"
  "apTimeCategory (resultsInput actor q reason reads results) = rpTimeCategory q" "apResults (resultsInput actor q reason reads results) = results"
  "apReason (resultsInput actor q reason reads results) = reason"
  by (simp_all add: resultsInput_def)

lemma openPeriod_Inr:
  "runAlone (openPeriod actor i reason now) s = (Inr (q, why), s') \<longleftrightarrow>
     can actor Update periodRef now \<and> findPeriodById i s = Some q \<and> jsTrim reason \<noteq> '''' \<and> why = jsTrim reason \<and> s' = s"
  by (cases "findPeriodById i s") (auto simp: openPeriod_def run_alone bindS_def)



lemma computeAndApply_results:
  "computePeriodResults (calcs (rpTau q)) (prdGames reads) (buildPrePeriodStates reads) = Inr results \<Longrightarrow>
     runAlone (computeAndApply calcs actor q reason reads now) = applyPeriodResults (resultsInput actor q reason reads results) now"
  by (simp add: computeAndApply_def resultsInput_def run_alone)

lemma computeAndApply_Inr:
  assumes "runAlone (computeAndApply calcs actor q reason reads now) s = (Inr row, s')"
  obtains results where "computePeriodResults (calcs (rpTau q)) (prdGames reads) (buildPrePeriodStates reads) = Inr results"
    and "applyPeriodResults (resultsInput actor q reason reads results) now s = (Inr row, s')"
  using assms by (cases "computePeriodResults (calcs (rpTau q)) (prdGames reads) (buildPrePeriodStates reads)")
    (auto simp: computeAndApply_def resultsInput_def run_alone)

lemma computeAndApply_Inl: "runAlone (computeAndApply calcs actor q reason reads now) s = (Inl e, s') \<Longrightarrow> s' = s"
  by (auto simp: computeAndApply_def applyPeriodResults_def run_alone dest: transaction_Inl split: sum.splits)



lemma computeAlone_Inr:
  "computeAlone calcs actor i reason now s = (Inr row, s') \<longleftrightarrow>
     (\<exists>q. can actor Update periodRef now \<and> findPeriodById i s = Some q \<and> jsTrim reason \<noteq> ''''
        \<and> runAlone (computeAndApply calcs actor q (jsTrim reason) (periodReads q s) now) s = (Inr row, s'))"
  by (cases "findPeriodById i s") (simp_all add: computeAlone_eq openPeriod_def run_alone bindS_def)

lemma computeAlone_Inl: "computeAlone calcs actor i reason now s = (Inl e, s') \<Longrightarrow> s' = s"
  by (cases "findPeriodById i s") (auto simp: computeAlone_eq openPeriod_def run_alone bindS_def split: if_splits dest: computeAndApply_Inl)

lemma findPeriodById_Some: "findPeriodById i s = Some q \<Longrightarrow> q \<in> set (rtPeriods s) \<and> rpId q = i"
  by (auto simp: findPeriodById_def find_Some_iff)

text \<open>What the transaction leaves of a computation that was applied to the period \<open>q\<close>.\<close>

definition applied :: "ApplyPeriodResultsInput \<Rightarrow> int \<Rightarrow> RatingPeriodRow \<Rightarrow> RatingDb \<Rightarrow> RatingDb \<Rightarrow> bool" where
  "applied input now q s s' \<longleftrightarrow> (let t = afterResults input now (apResults input) s in
     rtRatings s' = rtRatings t \<and> rtHistory s' = rtHistory t \<and> rtNextId s' = rtNextId t
     \<and> rtPeriods s' = map (\<lambda>p. if rpId p = apPeriodId input then computedPeriod input now q else p) (rtPeriods s)
     \<and> rtPairings s' = rtPairings s \<and> rtPlay s' = rtPlay s \<and> rtLocked s' = rtLocked s)"

lemma applyPeriodResults_runs:
  assumes "periodLockKey (showNat (apPeriodId input)) \<notin> set (rtLocked s)" "findPeriodById (apPeriodId input) s = Some q"
    and "jsTrim (apReason input) \<noteq> ''''"
  obtains s' where "applyPeriodResults input now s = (Inr (computedPeriod input now q), s')" "applied input now q s s'"
proof -
  obtain audit outbox where eval: "applyPeriodResults input now s = (Inr (computedPeriod input now q),
    (afterResults input now (apResults input) s)\<lparr>
      rtPeriods := map (\<lambda>p. if rpId p = apPeriodId input then computedPeriod input now q else p) (rtPeriods s),
      rtAudit := audit, rtOutbox := outbox\<rparr>)"
    using applyPeriodResults_eval [OF assms, of now] by blast
  show ?thesis by (rule that [OF eval]) (simp add: applied_def Let_def afterResults_frame)
qed

lemma applyPeriodResults_applied:
  assumes "applyPeriodResults input now s = (Inr row, s')"
  obtains q where "findPeriodById (apPeriodId input) s = Some q" "row = computedPeriod input now q" "applied input now q s s'"
proof -
  obtain q where q: "findPeriodById (apPeriodId input) s = Some q" using applyPeriodResults_Inr(2) [OF assms] by blast
  obtain s'' where "applyPeriodResults input now s = (Inr (computedPeriod input now q), s'')" "applied input now q s s''"
    by (rule applyPeriodResults_runs [OF applyPeriodResults_Inr(1) [OF assms] q applyPeriodResults_Inr(3) [OF assms]])
  then show ?thesis using that [OF q] assms by simp
qed

section \<open>The invariant holds throughout\<close>

lemma ratingOk_cong:
  assumes "ratingOk s" "map periodKey (rtPeriods t) = map periodKey (rtPeriods s)" "rtRatings t = rtRatings s"
    and "rtHistory t = rtHistory s" "rtNextId s \<le> rtNextId t"
  shows "ratingOk t"
proof -
  have ids: "map rpId qs = map fst (map periodKey qs)" for qs by (simp add: periodKey_def)
  have set: "(\<exists>q \<in> set qs. rpId q = i \<and> samePool q e c) \<longleftrightarrow>
      (\<exists>k \<in> set (map periodKey qs). fst k = i \<and> fst (snd k) = e \<and> fst (snd (snd k)) = c)" for qs i e c
    by (simp add: periodKey_def samePool_def)
  have below: "(\<forall>q \<in> set qs. rpId q < n) \<longleftrightarrow> (\<forall>k \<in> set (map periodKey qs). fst k < n)" for qs n by (simp add: periodKey_def)
  show ?thesis using assms(1,5) unfolding ratingOk_def ids set below assms(2-4) by fastforce
qed

lemma periodKey_applied:
  assumes "findPeriodById (apPeriodId input) s = Some q" "distinct (map rpId (rtPeriods s))"
  shows "map periodKey (map (\<lambda>p. if rpId p = apPeriodId input then computedPeriod input now q else p) (rtPeriods s))
    = map periodKey (rtPeriods s)"
proof -
  have "p = q" if "p \<in> set (rtPeriods s)" "rpId p = apPeriodId input" for p
    using that findPeriodById_Some [OF assms(1)] assms(2) unfolding distinct_map by (metis inj_onD)
  then show ?thesis by (auto simp: periodKey_computed)
qed

lemma applied_ok:
  assumes "ratingOk s" "findPeriodById (apPeriodId input) s = Some q" "samePool q (apEnvironment input) (apTimeCategory input)"
    and "\<forall>r \<in> set (apResults input). prGamesPlayedTotal r =
      otherGames (apPeriodId input) (apEnvironment input) (apTimeCategory input) (prPlayerId r) s + int (prGamesInPeriod r)"
    and "applied input now q s s'"
  shows "ratingOk s'"
proof (rule ratingOk_cong)
  show "ratingOk (afterResults input now (apResults input) s)"
    using afterResults_ok [OF assms(1) _ _ assms(3,4)] findPeriodById_Some [OF assms(2)] by blast
  have "distinct (map rpId (rtPeriods s))" using assms(1) by (simp add: ratingOk_def)
  then show "map periodKey (rtPeriods s') = map periodKey (rtPeriods (afterResults input now (apResults input) s))"
    using assms(5) periodKey_applied [OF assms(2)] unfolding applied_def Let_def by (simp only: afterResults_frame)
qed (use assms(5) in \<open>simp_all add: applied_def Let_def\<close>)

lemma periodReads_prior: "prdPrior (periodReads q s) = priorHistoryForPeriod (rpId q) s"
  by (simp add: periodReads_def Let_def)

lemma periodReads_games: "prdGames (periodReads q s) = gamesForPeriod (rpEnvironment q) (rpTimeCategory q) (rpStartsAt q) (rpEndsAt q) s"
  by (simp add: periodReads_def Let_def)

lemma periodReads_current:
  "ratingOk s \<Longrightarrow> currentById (periodReads q s) p = ratingRow s (p, rpEnvironment q, rpTimeCategory q)"
  by (rule currentById_rows [OF _ periodReads_rows]) (simp add: ratingOk_def)

lemma computed_totals:
  assumes "ratingOk s" "q \<in> set (rtPeriods s)" "r \<in> set results"
    and "computePeriodResults calc (prdGames (periodReads q s)) (buildPrePeriodStates (periodReads q s)) = Inr results"
  shows "prGamesPlayedTotal r = otherGames (rpId q) (rpEnvironment q) (rpTimeCategory q) (prPlayerId r) s + int (prGamesInPeriod r)"
  using resultOf_Inr [OF computePeriodResults_each [OF assms(4,3)]]
    prePeriod_games [OF assms(1,2) periodReads_prior periodReads_current [OF assms(1)], of "prPlayerId r"] by simp

lemma computeAlone_cases:
  obtains (rejected) "snd (computeAlone calcs actor i reason now s) = s"
  | (computed) q results where "findPeriodById i s = Some q"
      "computePeriodResults (calcs (rpTau q)) (prdGames (periodReads q s)) (buildPrePeriodStates (periodReads q s)) = Inr results"
      "applied (resultsInput actor q (jsTrim reason) (periodReads q s) results) now q s (snd (computeAlone calcs actor i reason now s))"
      "fst (computeAlone calcs actor i reason now s) = Inr (computedPeriod (resultsInput actor q (jsTrim reason) (periodReads q s) results) now q)"
proof (cases "computeAlone calcs actor i reason now s")
  case (Pair r s')
  show ?thesis
  proof (cases r)
    case (Inl e)
    then show ?thesis using Pair computeAlone_Inl by (intro rejected) simp
  next
    case (Inr row)
    then obtain q where q: "findPeriodById i s = Some q" "runAlone (computeAndApply calcs actor q (jsTrim reason) (periodReads q s) now) s = (Inr row, s')"
      using Pair by (auto simp: computeAlone_Inr)
    from q(2) obtain results where res: "computePeriodResults (calcs (rpTau q)) (prdGames (periodReads q s)) (buildPrePeriodStates (periodReads q s)) = Inr results"
      and ap: "applyPeriodResults (resultsInput actor q (jsTrim reason) (periodReads q s) results) now s = (Inr row, s')"
      by (rule computeAndApply_Inr)
    from ap obtain q' where q': "findPeriodById (rpId q) s = Some q'"
        "row = computedPeriod (resultsInput actor q (jsTrim reason) (periodReads q s) results) now q'"
        "applied (resultsInput actor q (jsTrim reason) (periodReads q s) results) now q' s s'"
      by (rule applyPeriodResults_applied) simp
    moreover have "q' = q" using q(1) q'(1) findPeriodById_Some [OF q(1)] by simp
    ultimately show ?thesis using q(1) res Pair Inr by (intro computed) simp_all
  qed
qed

lemma computeAlone_ok:
  assumes "ratingOk s"
  shows "ratingOk (snd (computeAlone calcs actor i reason now s))"
proof (rule computeAlone_cases [of calcs actor i reason now s])
  fix q results
  let ?input = "resultsInput actor q (jsTrim reason) (periodReads q s) results"
  assume q: "findPeriodById i s = Some q"
    and res: "computePeriodResults (calcs (rpTau q)) (prdGames (periodReads q s)) (buildPrePeriodStates (periodReads q s)) = Inr results"
    and ap: "applied ?input now q s (snd (computeAlone calcs actor i reason now s))"
  have found: "q \<in> set (rtPeriods s)" "rpId q = i" using findPeriodById_Some [OF q] by simp_all
  show "ratingOk (snd (computeAlone calcs actor i reason now s))"
  proof (rule applied_ok [OF assms _ _ _ ap])
    show "findPeriodById (apPeriodId ?input) s = Some q" using q found by simp
    show "samePool q (apEnvironment ?input) (apTimeCategory ?input)" by (simp add: samePool_def)
    show "\<forall>r \<in> set (apResults ?input). prGamesPlayedTotal r =
        otherGames (apPeriodId ?input) (apEnvironment ?input) (apTimeCategory ?input) (prPlayerId r) s + int (prGamesInPeriod r)"
      using computed_totals [OF assms found(1) _ res] by simp
  qed
qed (use assms in simp)

lemma createPeriod_cases:
  assumes "runAlone (createPeriod actor input tauOption now) s = (res, s')"
  obtains (rejected) e where "res = Inl e" "s' = s"
  | (created) q where "res = Inr q" "rpId q = rtNextId s" "rtPeriods s' = rtPeriods s @ [q]" "rtRatings s' = rtRatings s"
      "rtHistory s' = rtHistory s" "rtNextId s' = Suc (rtNextId s)"
proof (cases "runAlone (checkPeriodInput actor input tauOption now) s")
  case (Pair r t)
  then have t: "t = s" by (auto simp: checkPeriodInput_def assertValidCombo_def run_alone bindS_def Let_def split: if_splits)
  show ?thesis
  proof (cases r)
    case (Inl e)
    then show ?thesis using assms Pair t by (intro rejected) (auto simp: createPeriod_def run_alone bindS_def)
  next
    case (Inr tau)
    then have eq: "runAlone (createIfFree actor input tau (findOverlappingPeriod (cpdEnvironment input) (cpdTimeCategory input)
        (cpdStartsAt input) (cpdEndsAt input) s)) s = (res, s')"
      using assms Pair t by (simp add: createPeriod_def run_alone bindS_def)
    show ?thesis
    proof (cases res)
      case Inl
      then show ?thesis using eq transaction_Inl by (intro rejected) (auto simp: createIfFree_def repoCreatePeriod_def run_alone bindS_def split: if_splits)
    next
      case Inr
      then show ?thesis using eq
        by (intro created) (auto simp: createIfFree_def repoCreatePeriod_def run_alone bindS_def ratingAudit_def auditWriteTo_def auditOf_def split: if_splits)
    qed
  qed
qed

lemma createPeriod_ok:
  assumes "ratingOk s"
  shows "ratingOk (snd (runAlone (createPeriod actor input tauOption now) s))"
proof (cases "runAlone (createPeriod actor input tauOption now) s")
  case (Pair res s')
  then show ?thesis
  proof (cases rule: createPeriod_cases)
    case (created q)
    then show ?thesis using assms Pair unfolding ratingOk_def by (auto simp: less_Suc_eq)
  qed (use assms Pair in simp)
qed

text \<open>
  Requests to the service, one after the other, each answered before the next begins, with any changes of the other
  tables in between. A computation may use any calculator and may make its parallel reads in any order.
\<close>

inductive ratingStep :: "RatingDb \<Rightarrow> RatingDb \<Rightarrow> bool" where
  periodCreated: "ratingStep s (snd (runAlone (createPeriod actor input tauOption now) s))"
| periodComputed: "set order = UNIV \<Longrightarrow> ratingStep s (snd (runAlone (computePeriodWith calcs order actor i reason now) s))"
| othersChanged: "ratingStep s (s\<lparr>rtPairings := otb, rtPlay := online, rtDeleted := gone, rtLocked := held\<rparr>)"

inductive ratingReachable :: "RatingDb \<Rightarrow> bool" where
  ratingStart: "rtPeriods s = [] \<Longrightarrow> rtRatings s = [] \<Longrightarrow> rtHistory s = [] \<Longrightarrow> ratingReachable s"
| ratingStepped: "ratingReachable s \<Longrightarrow> ratingStep s s' \<Longrightarrow> ratingReachable s'"

lemma ratingReachable_ok: "ratingReachable s \<Longrightarrow> ratingOk s"
proof (induction rule: ratingReachable.induct)
  case (ratingStart s)
  then show ?case by (simp add: ratingOk_def)
next
  case (ratingStepped s s')
  from ratingStepped.hyps(2) ratingStepped.IH show ?case
    by cases (use createPeriod_ok computeAlone_ok in \<open>auto intro: ratingOk_cong simp: computeAlone_any_order\<close>)
qed

section \<open>A run\<close>

definition ratingOffice :: Actor where
  "ratingOffice = \<lparr>acUserId = ''root'', acAssignments = [\<lparr>asRole = SUPER_ADMIN, asScope = ScopeGlobal, asValidUntil = None\<rparr>]\<rparr>"

lemma office_may: "can ratingOffice Update periodRef 200" "can ratingOffice Update periodRef 300" "can ratingOffice Create periodRef 5"
  by code_simp+

text \<open>The calculator with a tolerance so wide that the bracket is answer enough.\<close>

definition drawCalc :: "real \<Rightarrow> ConvergenceError calculator" where
  "drawCalc tau = compute (DEFAULT_GLICKO2_CONFIG\<lparr>gcEpsilon := 1\<rparr>)"

definition drawnGame :: RatedGame where
  "drawnGame = \<lparr>rgPairingId = ''g'', rgWhitePlayerId = ''a'', rgBlackPlayerId = ''b'', rgResult = RatingPeriod.DRAW\<rparr>"

definition drawnPairing :: OtbRow where
  "drawnPairing = \<lparr>otPairingId = ''g'', otResult = ResultMapping.DRAW, otWhitePlayerId = ''a'', otBlackPlayerId = Some ''b'',
     otRoundStatus = COMPLETED, otCompletedAt = Some 50, otEnvironment = OTB, otTimeCategory = RAPID, otNationallyRated = True,
     otDeleted = False, otTournamentStatus = TOURNAMENT_COMPLETED\<rparr>"

definition samplePeriod :: RatingPeriodRow where
  "samplePeriod = \<lparr>rpId = 1, rpEnvironment = OTB, rpTimeCategory = RAPID, rpStartsAt = 0, rpEndsAt = 100, rpTau = numeric 3 TAU_DEFAULT,
     rpComputedAt = None, rpPlayersAffected = None, rpGamesProcessed = None, rpRecomputeGeneration = 0\<rparr>"

definition noOnlineGames :: PlayDb where
  "noOnlineGames = \<lparr>pdGames = Map.empty, pdMoves = (\<lambda>_. []), pdAudit = [], pdNextId = 0, rdClock = Map.empty, rdDraw = Map.empty,
     rdPresence = (\<lambda>_ _. False), rdGone = (\<lambda>_ _. None), rdGoneIndex = [], pdEvents = []\<rparr>"

definition rating0 :: RatingDb where
  "rating0 = \<lparr>rtPeriods = [], rtRatings = [], rtHistory = [], rtAudit = [], rtOutbox = [], rtPairings = [drawnPairing],
     rtPlay = noOnlineGames, rtDeleted = [], rtLocked = [], rtNextId = 1\<rparr>"

definition rating1 :: RatingDb where
  "rating1 = snd (runAlone (createPeriod ratingOffice
     \<lparr>cpdEnvironment = OTB, cpdTimeCategory = RAPID, cpdStartsAt = 0, cpdEndsAt = 100\<rparr> None 5) (rating0))"

lemma rating1_fields:
  "rtPeriods (rating1) = [samplePeriod]" "rtRatings (rating1) = []" "rtHistory (rating1) = []"
  "rtPairings (rating1) = [drawnPairing]" "rtLocked (rating1) = []"
  by (simp_all add: rating1_def rating0_def createPeriod_def checkPeriodInput_def run_alone bindS_def office_may assertValidCombo_def isValidRatingCombo_def
      Let_def TAU_DEFAULT_def TAU_MIN_def TAU_MAX_def findOverlappingPeriod_def createIfFree_def repoCreatePeriod_def ratingAudit_def
      auditWriteTo_def auditOf_def transaction_def samplePeriod_def REASON_REQUIRED_def)

lemma rating1_reachable: "ratingReachable (rating1)"
  unfolding rating1_def by (rule ratingStepped [OF ratingStart periodCreated]) (simp_all add: rating0_def)

lemma drawn_games:
  "rtPairings s = [drawnPairing] \<Longrightarrow> periodKey q = periodKey samplePeriod \<Longrightarrow> prdGames (periodReads q s) = [drawnGame]"
  by (simp add: periodReads_games gamesForPeriod_def otbGamesForPeriod_def drawnPairing_def drawnGame_def samplePeriod_def periodKey_def
      toRatedResult_def List.map_filter_def)

text \<open>A period with one drawn game between players who are rated alike can be computed.\<close>

lemma drawn_computes:
  assumes "fst ` set states \<subseteq> {''a'', ''b''}"
    and "snRating (psSnapshot (preStateOf states ''a'')) = snRating (psSnapshot (preStateOf states ''b''))"
  shows "\<exists>rs. computePeriodResults (drawCalc tau) [drawnGame] states = Inr rs"
proof (rule computePeriodResults_returns)
  fix p assume "p \<in> periodPlayers [drawnGame] states"
  then have "p = ''a'' \<or> p = ''b''" using assms(1) by (auto simp: periodPlayers_def drawnGame_def)
  then show "\<exists>r. resultOf (drawCalc tau) [drawnGame] states p = Inr r"
  proof
    assume p: "p = ''a''"
    obtain after where "drawCalc tau (psSnapshot (preStateOf states ''a'')) [\<lparr>moOpponent = \<lparr>snRating = snRating (psSnapshot (preStateOf states ''b'')),
        snDeviation = snDeviation (psSnapshot (preStateOf states ''b'')), snVolatility = 0.06\<rparr>, moScore = Drawn\<rparr>] = Inr after"
      using equals_draw(2) [of _ "psSnapshot (preStateOf states ''a'')"] assms(2) unfolding drawCalc_def by (metis RatingSnapshot.select_convs(1))
    then show ?thesis by (simp add: p resultOf_def RatingPeriod.gamesOf_def drawnGame_def toInputGame_def toOutcome_def scoreFor_def Let_def)
  next
    assume p: "p = ''b''"
    obtain after where "drawCalc tau (psSnapshot (preStateOf states ''b'')) [\<lparr>moOpponent = \<lparr>snRating = snRating (psSnapshot (preStateOf states ''a'')),
        snDeviation = snDeviation (psSnapshot (preStateOf states ''a'')), snVolatility = 0.06\<rparr>, moScore = Drawn\<rparr>] = Inr after"
      using equals_draw(2) [of _ "psSnapshot (preStateOf states ''b'')"] assms(2) unfolding drawCalc_def by (metis RatingSnapshot.select_convs(1))
    then show ?thesis by (simp add: p resultOf_def RatingPeriod.gamesOf_def drawnGame_def toInputGame_def toOutcome_def scoreFor_def Let_def)
  qed
qed


text \<open>A computation that is allowed and converges is applied.\<close>

lemma computeAlone_runs:
  assumes "can actor Update periodRef now" "findPeriodById i s = Some q" "jsTrim reason \<noteq> ''''"
    and "periodLockKey (showNat i) \<notin> set (rtLocked s)"
    and "computePeriodResults (calcs (rpTau q)) (prdGames (periodReads q s)) (buildPrePeriodStates (periodReads q s)) = Inr results"
  obtains s' where "computeAlone calcs actor i reason now s =
      (Inr (computedPeriod (resultsInput actor q (jsTrim reason) (periodReads q s) results) now q), s')"
    and "applied (resultsInput actor q (jsTrim reason) (periodReads q s) results) now q s s'"
proof -
  let ?input = "resultsInput actor q (jsTrim reason) (periodReads q s) results"
  have "rpId q = i" using findPeriodById_Some [OF assms(2)] by simp
  then have ready: "periodLockKey (showNat (apPeriodId ?input)) \<notin> set (rtLocked s)" "findPeriodById (apPeriodId ?input) s = Some q"
    "jsTrim (apReason ?input) \<noteq> ''''" using assms(2-4) by (simp_all add: jsTrim_idem)
  obtain s' where s': "applyPeriodResults ?input now s = (Inr (computedPeriod ?input now q), s')" "applied ?input now q s s'"
    by (rule applyPeriodResults_runs [OF ready])
  have "computeAlone calcs actor i reason now s = (Inr (computedPeriod ?input now q), s')"
    using assms(1-3) s'(1) computeAndApply_results [of calcs q, OF assms(5), of actor "jsTrim reason" now] by (simp add: computeAlone_Inr)
  then show ?thesis using that s'(2) by blast
qed

definition rating2 :: RatingDb where
  "rating2 = snd (computeAlone drawCalc ratingOffice 1 ''close'' 200 rating1)"

lemma rating1_period: "findPeriodById 1 rating1 = Some samplePeriod"
  by (simp add: findPeriodById_def rating1_fields) (simp add: samplePeriod_def)

lemma rating1_states:
  "preStateOf (buildPrePeriodStates (periodReads samplePeriod rating1)) p = DEFAULT_PRE_PERIOD_STATE"
  "fst ` set (buildPrePeriodStates (periodReads samplePeriod rating1)) = {''a'', ''b''}"
proof -
  have "ratingRow rating1 k = None" for k by (simp add: ratingRow_def rating1_fields)
  then show "preStateOf (buildPrePeriodStates (periodReads samplePeriod rating1)) p = DEFAULT_PRE_PERIOD_STATE"
    unfolding preStateOf_build periodReads_current [OF ratingReachable_ok [OF rating1_reachable]]
    by (simp add: prePeriodState_def split: option.split)
  have "prdRated (periodReads samplePeriod rating1) = []" "prdWithGames (periodReads samplePeriod rating1) = []"
    by (simp_all add: periodReads_def Let_def allRatedPlayers_def playersWithRatings_def rating1_fields)
  then show "fst ` set (buildPrePeriodStates (periodReads samplePeriod rating1)) = {''a'', ''b''}"
    unfolding buildPrePeriodStates_def by (simp add: drawn_games rating1_fields image_image gamePlayerIds_def) (auto simp: drawnGame_def)
qed

lemma rating2_run:
  obtains q results where "computeAlone drawCalc ratingOffice 1 ''close'' 200 rating1 = (Inr q, rating2)"
    and "computePeriodResults (drawCalc (rpTau samplePeriod)) [drawnGame] (buildPrePeriodStates (periodReads samplePeriod rating1)) = Inr results"
    and "applied (resultsInput ratingOffice samplePeriod ''close'' (periodReads samplePeriod rating1) results) 200 samplePeriod rating1 rating2"
proof -
  have games: "prdGames (periodReads samplePeriod rating1) = [drawnGame]" by (rule drawn_games) (simp_all add: rating1_fields)
  obtain results where res: "computePeriodResults (drawCalc (rpTau samplePeriod)) [drawnGame] (buildPrePeriodStates (periodReads samplePeriod rating1)) = Inr results"
    using drawn_computes [of "buildPrePeriodStates (periodReads samplePeriod rating1)" "rpTau samplePeriod"] rating1_states by auto
  have trim: "jsTrim ''close'' = ''close''" by code_simp
  obtain s' where run: "computeAlone drawCalc ratingOffice 1 ''close'' 200 rating1 =
      (Inr (computedPeriod (resultsInput ratingOffice samplePeriod ''close'' (periodReads samplePeriod rating1) results) 200 samplePeriod), s')"
      "applied (resultsInput ratingOffice samplePeriod ''close'' (periodReads samplePeriod rating1) results) 200 samplePeriod rating1 s'"
    by (rule computeAlone_runs [OF office_may(1) rating1_period, of "''close''" drawCalc results])
      (simp_all add: trim rating1_fields games res)
  then show ?thesis using that res by (simp add: rating2_def)
qed

lemma rating2_reachable: "ratingReachable rating2"
  unfolding rating2_def computeAlone_def by (rule ratingStepped [OF rating1_reachable periodComputed [OF all_reads]])

lemma rating2_row: "\<exists>r. findPlayerRating ''a'' OTB RAPID rating2 = Some r"
proof -
  obtain q results where res: "computePeriodResults (drawCalc (rpTau samplePeriod)) [drawnGame] (buildPrePeriodStates (periodReads samplePeriod rating1)) = Inr results"
    and ap: "applied (resultsInput ratingOffice samplePeriod ''close'' (periodReads samplePeriod rating1) results) 200 samplePeriod rating1 rating2"
    by (rule rating2_run)
  note players = computePeriodResults_players [OF res]
  have "''a'' \<in> set (map prPlayerId results)" unfolding players set_sorted_list_of_set [OF finite_periodPlayers] by (simp add: periodPlayers_def drawnGame_def)
  then obtain r where "r \<in> set results" "prPlayerId r = ''a''" by auto
  moreover have "distinct (map prPlayerId results)" unfolding players by simp
  ultimately show ?thesis using afterResults_row [of results r "resultsInput ratingOffice samplePeriod ''close'' (periodReads samplePeriod rating1) results" 200 rating1] ap
    by (auto simp: applied_def Let_def findPlayerRating_row ratingRow_def samplePeriod_def)
qed


end
