(* ===== verification/RatingRepeat.thy ===== *)
theory RatingRepeat
  imports RatingProps
begin

text \<open>
  Computing a period again: the states before the period come back from the history, so the second computation
  leaves ratings and history as they are. This rests on the numbers being stored with the digits of their columns
  before they are read back, and on the flag of a provisional rating being what the columns say.
\<close>

section \<open>Stored numbers\<close>

lemma numeric_grid:
  assumes "0 \<le> k"
  shows "numeric d (of_int k / 10 ^ d) = of_int k / 10 ^ d" "numeric d (- (of_int k / 10 ^ d)) = - (of_int k / 10 ^ d)"
proof -
  show "numeric d (of_int k / 10 ^ d) = of_int k / 10 ^ d" using assms by (simp add: numeric_def divide_less_0_iff)
  show "numeric d (- (of_int k / 10 ^ d)) = - (of_int k / 10 ^ d)"
    using assms by (cases "k = 0") (simp_all add: numeric_def divide_less_0_iff zero_less_divide_iff)
qed

lemma numeric_idem: "numeric d (numeric d x) = numeric d x"
proof (cases "x < 0")
  case True
  then have "0 \<le> round (- x * 10 ^ d)" using round_mono [of 0 "- x * 10 ^ d"] by (simp add: mult_le_0_iff)
  from numeric_grid(2) [OF this, of d] show ?thesis using True by (simp only: numeric_def [of d x] if_True divide_minus_left)
next
  case False
  then have "0 \<le> round (x * 10 ^ d)" using round_mono [of 0 "x * 10 ^ d"] by simp
  from numeric_grid(1) [OF this, of d] show ?thesis using False by (simp only: numeric_def [of d x] if_False)
qed

lemma stored_idem: "stored (stored x) = stored x"
  by (simp add: stored_def numeric_idem)

lemma stored_default: "stored (psSnapshot DEFAULT_PRE_PERIOD_STATE) = psSnapshot DEFAULT_PRE_PERIOD_STATE"
proof -
  have int: "numeric 4 (of_int n) = of_int n" if "0 \<le> n" for n :: int
  proof -
    have "(of_int n :: real) * 10 ^ 4 = of_int (n * 10 ^ 4)" by simp
    then show ?thesis using that unfolding numeric_def by (simp only: round_of_int) simp
  qed
  have "numeric 8 (6 / 100) = (6 / 100 :: real)"
  proof -
    have "(6 / 100 :: real) * 10 ^ 8 = of_int 6000000" by simp
    then show ?thesis unfolding numeric_def by (simp only: round_of_int) simp
  qed
  then show ?thesis using int [of 1500] int [of 350] by (simp add: stored_def DEFAULT_PRE_PERIOD_STATE_def)
qed

definition storedOk :: "RatingDb \<Rightarrow> bool" where
  "storedOk s \<longleftrightarrow> (\<forall>r \<in> set (rtRatings s). stored (plSnapshot r) = plSnapshot r) \<and> (\<forall>h \<in> set (rtHistory s). stored (rhBefore h) = rhBefore h)"

lemma afterResult_stored: "storedOk s \<Longrightarrow> storedOk (afterResult input now r s)"
  unfolding storedOk_def afterResult_ratings afterResult_history
  by (auto simp: withResultValues_sel historyRow_def stored_idem)

lemma afterResults_stored: "storedOk s \<Longrightarrow> storedOk (afterResults input now rs s)"
  by (induction rs arbitrary: s) (simp_all add: afterResult_stored)

lemma computeAlone_stored:
  assumes "storedOk s"
  shows "storedOk (snd (computeAlone calcs actor i reason now s))"
proof (rule computeAlone_cases [of calcs actor i reason now s])
  fix q results
  assume "applied (resultsInput actor q (jsTrim reason) (periodReads q s) results) now q s (snd (computeAlone calcs actor i reason now s))"
  then show "storedOk (snd (computeAlone calcs actor i reason now s))"
    using afterResults_stored [OF assms] by (simp add: applied_def Let_def storedOk_def)
qed (use assms in simp)

lemma ratingReachable_stored: "ratingReachable s \<Longrightarrow> storedOk s"
proof (induction rule: ratingReachable.induct)
  case (ratingStart s)
  then show ?case by (simp add: storedOk_def)
next
  case (ratingStepped s s')
  from ratingStepped.hyps(2) show ?case
  proof cases
    case (periodCreated actor input tauOption now)
    obtain res t where run: "runAlone (createPeriod actor input tauOption now) s = (res, t)" by fastforce
    then have "rtRatings t = rtRatings s \<and> rtHistory t = rtHistory s" by (cases rule: createPeriod_cases) simp_all
    then show ?thesis using ratingStepped.IH periodCreated run by (simp add: storedOk_def)
  next
    case (periodComputed order calcs actor i reason now)
    then show ?thesis using computeAlone_stored [OF ratingStepped.IH] by (simp add: computeAlone_any_order)
  next
    case (othersChanged otb online gone held)
    then show ?thesis using ratingStepped.IH by (simp add: storedOk_def)
  qed
qed

section \<open>The states before the period, read again\<close>

text \<open>Whether the flags are what the columns say.\<close>

definition flagsAgree :: "RatingDb \<Rightarrow> bool" where
  "flagsAgree s = list_all (\<lambda>r. plIsProvisional r \<longleftrightarrow> \<not> isEstablished (plGamesPlayed r) (snDeviation (plSnapshot r))) (rtRatings s)"

lemma preState_flag:
  assumes "flagsAgree s" "ratingOk s"
  shows "psIsProvisional (preStateOf (buildPrePeriodStates (periodReads q s)) p)
    \<longleftrightarrow> \<not> isEstablished (psGamesPlayed (preStateOf (buildPrePeriodStates (periodReads q s)) p))
         (snDeviation (psSnapshot (preStateOf (buildPrePeriodStates (periodReads q s)) p)))"
proof (cases "ratingRow s (p, rpEnvironment q, rpTimeCategory q)")
  case None
  then show ?thesis unfolding preStateOf_build periodReads_current [OF assms(2)]
    by (simp add: prePeriodState_def DEFAULT_PRE_PERIOD_STATE_def isEstablished_def ESTABLISHED_MIN_GAMES_def split: option.split)
next
  case (Some r)
  then have "r \<in> set (rtRatings s)" unfolding ratingRow_def find_Some_iff by auto
  then have "plIsProvisional r \<longleftrightarrow> \<not> isEstablished (plGamesPlayed r) (snDeviation (plSnapshot r))"
    using assms(1) by (simp add: flagsAgree_def list_all_iff)
  then show ?thesis unfolding preStateOf_build periodReads_current [OF assms(2)] Some
    by (simp add: prePeriodState_def Let_def split: option.split)
qed

lemma preState_stored:
  assumes "storedOk s" "ratingOk s"
  shows "stored (psSnapshot (preStateOf (buildPrePeriodStates (periodReads q s)) p)) = psSnapshot (preStateOf (buildPrePeriodStates (periodReads q s)) p)"
proof -
  have r: "ratingRow s k = Some r \<Longrightarrow> stored (plSnapshot r) = plSnapshot r" for k r
    using assms(1) unfolding ratingRow_def find_Some_iff storedOk_def by auto
  have h: "historyById (periodReads q s) p = Some h \<Longrightarrow> stored (phBefore h) = phBefore h" for h
    using assms(1) unfolding historyById_reads [OF assms(2) periodReads_prior] storedOk_def by auto
  show ?thesis unfolding preStateOf_build periodReads_current [OF assms(2)] prePeriodState_def
    using r h stored_default by (simp add: Let_def split: option.split)
qed

lemma states_players:
  "fst ` set (buildPrePeriodStates (periodReads q s)) =
     {p. ratingRow s (p, rpEnvironment q, rpTimeCategory q) \<noteq> None} \<union> set (gamePlayerIds (prdGames (periodReads q s)))"
proof -
  have "fst ` set (buildPrePeriodStates reads) = plPlayerId ` (set (prdRated reads) \<union> set (prdWithGames reads)) \<union> set (gamePlayerIds (prdGames reads))" for reads
    unfolding buildPrePeriodStates_def by (auto simp: image_image)
  moreover have "plPlayerId ` {r \<in> set (rtRatings s). inPool (rpEnvironment q) (rpTimeCategory q) r}
      = {p. ratingRow s (p, rpEnvironment q, rpTimeCategory q) \<noteq> None}"
    unfolding ratingRow_None by (force simp: poolKey_def inPool_def)
  ultimately show ?thesis by (simp only: periodReads_rows)
qed

lemma gamePlayerIds_set: "set (gamePlayerIds games) = rgWhitePlayerId ` set games \<union> rgBlackPlayerId ` set games"
  by (induction games) (auto simp: gamePlayerIds_def)

lemma states_periodPlayers:
  "periodPlayers (prdGames (periodReads q s)) (buildPrePeriodStates (periodReads q s)) =
     {p. ratingRow s (p, rpEnvironment q, rpTimeCategory q) \<noteq> None} \<union> set (gamePlayerIds (prdGames (periodReads q s)))"
  unfolding periodPlayers_def states_players gamePlayerIds_set by blast

section \<open>The history without its identifiers\<close>

definition historyView :: "RatingDb \<Rightarrow> RatingHistoryRow set" where
  "historyView s = (\<lambda>h. h\<lparr>rhId := 0\<rparr>) ` set (rtHistory s)"

definition replaces :: "ApplyPeriodResultsInput \<Rightarrow> PlayerPeriodResult \<Rightarrow> RatingHistoryRow \<Rightarrow> bool" where
  "replaces input r h \<longleftrightarrow> rhPeriodId h = apPeriodId input \<and> ofPlayer (prPlayerId r) (apEnvironment input) (apTimeCategory input) h"

lemma replaces_row: "replaces input r (historyRow input i r') \<longleftrightarrow> prPlayerId r' = prPlayerId r"
  by (simp add: replaces_def historyRow_def ofPlayer_def)

lemma replaces_id: "replaces input r (h\<lparr>rhId := i\<rparr>) = replaces input r h"
  by (simp add: replaces_def ofPlayer_def)

lemma afterResult_view:
  "historyView (afterResult input now r s) = {h \<in> historyView s. \<not> replaces input r h} \<union> {historyRow input 0 r}"
proof -
  have "(historyRow input i r)\<lparr>rhId := 0\<rparr> = historyRow input 0 r" for i by (simp add: historyRow_def)
  then show ?thesis unfolding historyView_def afterResult_history replaces_def [symmetric]
    by (auto simp: replaces_id)
qed

lemma afterResults_view:
  "distinct (map prPlayerId rs) \<Longrightarrow> historyView (afterResults input now rs s) =
     {h \<in> historyView s. \<forall>r \<in> set rs. \<not> replaces input r h} \<union> historyRow input 0 ` set rs"
proof (induction rs arbitrary: s)
  case (Cons x xs)
  have "\<not> replaces input r (historyRow input 0 x)" if "r \<in> set xs" for r
    using that Cons.prems by (auto simp: replaces_row)
  then show ?case using Cons.IH [of "afterResult input now x s"] Cons.prems unfolding afterResult_view by auto
qed simp

section \<open>What a computation leaves for the next\<close>

definition computedFrom ::
  "ConvergenceError calculator \<Rightarrow> RatingPeriodRow \<Rightarrow> ApplyPeriodResultsInput \<Rightarrow> int \<Rightarrow> RatingDb \<Rightarrow> RatingDb \<Rightarrow> bool" where
  "computedFrom calc q input now s s1 \<longleftrightarrow> ratingOk s \<and> storedOk s \<and> q \<in> set (rtPeriods s)
     \<and> computePeriodResults calc (prdGames (periodReads q s)) (buildPrePeriodStates (periodReads q s)) = Inr (apResults input)
     \<and> apPeriodId input = rpId q \<and> apEnvironment input = rpEnvironment q \<and> apTimeCategory input = rpTimeCategory q
     \<and> applied input now q s s1 \<and> ratingOk s1"

abbreviation statesOf :: "RatingPeriodRow \<Rightarrow> RatingDb \<Rightarrow> (string \<times> PrePeriodState) list" where
  "statesOf q s \<equiv> buildPrePeriodStates (periodReads q s)"

lemma computedFrom_distinct: "computedFrom calc q input now s s1 \<Longrightarrow> distinct (map prPlayerId (apResults input))"
  using computePeriodResults_players unfolding computedFrom_def by (metis sorted_list_of_set.distinct_sorted_key_list_of_set)

lemma computedFrom_players:
  "computedFrom calc q input now s s1 \<Longrightarrow> prPlayerId ` set (apResults input) = periodPlayers (prdGames (periodReads q s)) (statesOf q s)"
  using computePeriodResults_players finite_periodPlayers unfolding computedFrom_def
  by (metis list.set_map sorted_list_of_set.set_sorted_key_list_of_set)

lemma computedFrom_row:
  assumes "computedFrom calc q input now s s1" "r \<in> set (apResults input)"
  obtains row where "ratingRow s1 (prPlayerId r, rpEnvironment q, rpTimeCategory q) = Some (withResultValues (rpId q) now r row)"
proof -
  have "rtRatings s1 = rtRatings (afterResults input now (apResults input) s)" "apPeriodId input = rpId q"
    "apEnvironment input = rpEnvironment q" "apTimeCategory input = rpTimeCategory q"
    using assms(1) by (simp_all add: computedFrom_def applied_def Let_def)
  then show ?thesis using afterResults_row [OF computedFrom_distinct [OF assms(1)] assms(2), of input now s] that by (auto simp: ratingRow_def)
qed

lemma computedFrom_prior:
  assumes "computedFrom calc q input now s s1" "r \<in> set (apResults input)" "rpId q1 = rpId q"
  shows "historyById (periodReads q1 s1) (prPlayerId r) =
    Some \<lparr>phPlayerId = prPlayerId r, phBefore = stored (prBefore r), phGamesInPeriod = prGamesInPeriod r\<rparr>"
proof -
  have "historyRow input 0 r \<in> historyView s1"
    using assms(1,2) afterResults_view [OF computedFrom_distinct [OF assms(1)], of input now s]
    by (simp add: computedFrom_def applied_def Let_def historyView_def)
  then obtain h where h: "h \<in> set (rtHistory s1)" "historyRow input 0 r = h\<lparr>rhId := 0\<rparr>" by (auto simp: historyView_def)
  have "rhPeriodId h = rhPeriodId (historyRow input 0 r)" "rhPlayerId h = rhPlayerId (historyRow input 0 r)"
    "rhBefore h = rhBefore (historyRow input 0 r)" "rhGamesInPeriod h = rhGamesInPeriod (historyRow input 0 r)" using h(2) by simp_all
  then show ?thesis using assms(1,3) h(1) historyById_reads [of s1 "periodReads q1 s1" "rpId q" "prPlayerId r"] periodReads_prior [of q1 s1]
    by (auto simp: computedFrom_def historyRow_def)
qed

text \<open>The period itself, once computed.\<close>

definition recomputable :: "RatingPeriodRow \<Rightarrow> RatingPeriodRow \<Rightarrow> bool" where
  "recomputable q q1 \<longleftrightarrow> periodKey q1 = periodKey q"

lemma recomputable_sel:
  "recomputable q q1 \<Longrightarrow> rpId q1 = rpId q \<and> rpEnvironment q1 = rpEnvironment q \<and> rpTimeCategory q1 = rpTimeCategory q
     \<and> rpStartsAt q1 = rpStartsAt q \<and> rpEndsAt q1 = rpEndsAt q \<and> rpTau q1 = rpTau q"
  by (simp add: recomputable_def periodKey_def)

lemma games_again:
  assumes "computedFrom calc q input now s s1" "recomputable q q1"
  shows "prdGames (periodReads q1 s1) = prdGames (periodReads q s)"
  using assms recomputable_sel [OF assms(2)]
  by (simp add: periodReads_games gamesForPeriod_def onlineGamesForPeriod_def otbGamesForPeriod_def computedFrom_def applied_def Let_def)

lemma state_again:
  assumes "computedFrom calc q input now s s1" "recomputable q q1" "flagsAgree s" "r \<in> set (apResults input)"
  shows "preStateOf (statesOf q1 s1) (prPlayerId r) = (preStateOf (statesOf q s) (prPlayerId r))\<lparr>psPeakRating := prPeakRating r\<rparr>"
proof -
  let ?st = "preStateOf (statesOf q s) (prPlayerId r)"
  have ok: "ratingOk s" "storedOk s" "ratingOk s1" "q \<in> set (rtPeriods s)"
    and res: "computePeriodResults calc (prdGames (periodReads q s)) (statesOf q s) = Inr (apResults input)"
    using assms(1) by (simp_all add: computedFrom_def)
  note q1 = recomputable_sel [OF assms(2)]
  obtain row where row: "ratingRow s1 (prPlayerId r, rpEnvironment q1, rpTimeCategory q1) = Some (withResultValues (rpId q) now r row)"
    using computedFrom_row [OF assms(1,4)] q1 by auto
  note r = resultOf_Inr [OF computePeriodResults_each [OF res assms(4)]]
  have "0 \<le> psGamesPlayed ?st"
    unfolding prePeriod_games [OF ok(1,4) periodReads_prior periodReads_current [OF ok(1)]] otherGames_def by (rule gamesIn_nonneg)
  moreover have "stored (prBefore r) = psSnapshot ?st" using r preState_stored [OF ok(2,1)] by simp
  ultimately show ?thesis
    unfolding preStateOf_build [of "periodReads q1 s1"] periodReads_current [OF ok(3)] row
      computedFrom_prior [OF assms(1,4) q1 [THEN conjunct1]]
    using r preState_flag [OF assms(3) ok(1), of q "prPlayerId r"]
    by (simp add: prePeriodState_def Let_def withResultValues_sel)
qed

lemma players_again:
  assumes "computedFrom calc q input now s s1" "recomputable q q1"
  shows "periodPlayers (prdGames (periodReads q1 s1)) (statesOf q1 s1) = periodPlayers (prdGames (periodReads q s)) (statesOf q s)"
proof -
  have keys: "poolKey ` set (rtRatings (afterResults i now rs t)) = poolKey ` set (rtRatings t) \<union> resultKey i ` set rs" for i rs t
    by (induction rs arbitrary: t) (auto simp: afterResult_keys)
  have "rtRatings s1 = rtRatings (afterResults input now (apResults input) s)" "apEnvironment input = rpEnvironment q" "apTimeCategory input = rpTimeCategory q"
    using assms(1) by (simp_all add: computedFrom_def applied_def Let_def)
  then have "{p. ratingRow s1 (p, rpEnvironment q, rpTimeCategory q) \<noteq> None} =
      {p. ratingRow s (p, rpEnvironment q, rpTimeCategory q) \<noteq> None} \<union> prPlayerId ` set (apResults input)"
    unfolding ratingRow_None by (auto simp: keys)
  moreover have "set (gamePlayerIds (prdGames (periodReads q s))) \<subseteq> prPlayerId ` set (apResults input)"
    unfolding computedFrom_players [OF assms(1)] states_periodPlayers by blast
  moreover have "{p. ratingRow s (p, rpEnvironment q, rpTimeCategory q) \<noteq> None} \<subseteq> prPlayerId ` set (apResults input)"
    unfolding computedFrom_players [OF assms(1)] states_periodPlayers by blast
  ultimately have "{p. ratingRow s1 (p, rpEnvironment q, rpTimeCategory q) \<noteq> None} \<union> set (gamePlayerIds (prdGames (periodReads q s)))
      = prPlayerId ` set (apResults input)" by blast
  then show ?thesis
    using states_periodPlayers [of q1 s1] games_again [OF assms] recomputable_sel [OF assms(2)] computedFrom_players [OF assms(1)] by simp
qed

text \<open>Of the results only the mark of a new peak can change.\<close>

lemma result_again:
  assumes "computedFrom calc q input now s s1" "recomputable q q1" "flagsAgree s" "r \<in> set (apResults input)"
  shows "resultOf calc (prdGames (periodReads q1 s1)) (statesOf q1 s1) (prPlayerId r) = Inr (r\<lparr>prPeakChanged := False\<rparr>)"
proof -
  let ?games = "prdGames (periodReads q s)"
  have res: "resultOf calc ?games (statesOf q s) (prPlayerId r) = Inr r"
    using assms(1,4) computePeriodResults_each by (auto simp: computedFrom_def)
  have opponent: "psSnapshot (preStateOf (statesOf q1 s1) p) = psSnapshot (preStateOf (statesOf q s) p)"
    if "p \<in> periodPlayers ?games (statesOf q s)" for p
    using that state_again [OF assms(1-3)] unfolding computedFrom_players [OF assms(1), symmetric] by auto
  have input: "map (toInputGame (statesOf q1 s1)) (sort_key ppPairingId (RatingPeriod.gamesOf p ?games)) = map (toInputGame (statesOf q s)) (sort_key ppPairingId (RatingPeriod.gamesOf p ?games))" for p
  proof (rule map_cong [OF refl])
    fix g assume "g \<in> set (sort_key ppPairingId (RatingPeriod.gamesOf p ?games))"
    then have "ppOpponentId g \<in> periodPlayers ?games (statesOf q s)" by (auto simp: RatingPeriod.gamesOf_def periodPlayers_def)
    then show "toInputGame (statesOf q1 s1) g = toInputGame (statesOf q s) g" by (simp add: toInputGame_def opponent Let_def)
  qed
  obtain after where "calc (psSnapshot (preStateOf (statesOf q s) (prPlayerId r)))
      (map toOutcome (map (toInputGame (statesOf q s)) (sort_key ppPairingId (RatingPeriod.gamesOf (prPlayerId r) ?games)))) = Inr after"
    and r: "r = playerResult (preStateOf (statesOf q s) (prPlayerId r)) (prPlayerId r)
      (map (toInputGame (statesOf q s)) (sort_key ppPairingId (RatingPeriod.gamesOf (prPlayerId r) ?games))) after"
    using res unfolding resultOf_def Let_def by (auto simp del: map_map)
  then have "resultOf calc (prdGames (periodReads q1 s1)) (statesOf q1 s1) (prPlayerId r) =
      Inr (playerResult ((preStateOf (statesOf q s) (prPlayerId r))\<lparr>psPeakRating := prPeakRating r\<rparr>) (prPlayerId r)
        (map (toInputGame (statesOf q s)) (sort_key ppPairingId (RatingPeriod.gamesOf (prPlayerId r) ?games))) after)"
    unfolding resultOf_def Let_def games_again [OF assms(1,2)] input state_again [OF assms] by (simp del: map_map)
  moreover have "playerResult (st\<lparr>psPeakRating := prPeakRating (playerResult st p gs after)\<rparr>) p gs after = (playerResult st p gs after)\<lparr>prPeakChanged := False\<rparr>" for st p gs
    by (auto simp: playerResult_def Let_def split: option.split)
  ultimately show ?thesis using r by metis
qed

lemma mapE_map: "(\<And>x y. x \<in> set xs \<Longrightarrow> f x = Inr y \<Longrightarrow> g x = Inr (h y)) \<Longrightarrow> mapE f xs = Inr ys \<Longrightarrow> mapE g xs = Inr (map h ys)"
  by (induction xs arbitrary: ys) (auto simp: bindE_def split: sum.splits)

lemma results_again:
  assumes "computedFrom calc q input now s s1" "recomputable q q1" "flagsAgree s"
  shows "computePeriodResults calc (prdGames (periodReads q1 s1)) (statesOf q1 s1) = Inr (map (\<lambda>r. r\<lparr>prPeakChanged := False\<rparr>) (apResults input))"
proof -
  let ?f = "resultOf calc (prdGames (periodReads q s)) (statesOf q s)"
  have res: "computePeriodResults calc (prdGames (periodReads q s)) (statesOf q s) = Inr (apResults input)" using assms(1) by (simp add: computedFrom_def)
  then have first: "mapE ?f (sorted_list_of_set (periodPlayers (prdGames (periodReads q s)) (statesOf q s))) = Inr (apResults input)"
    by (simp only: computePeriodResults_eq)
  show ?thesis unfolding computePeriodResults_eq players_again [OF assms(1,2)]
  proof (rule mapE_map [OF _ first])
    fix p y assume p: "p \<in> set (sorted_list_of_set (periodPlayers (prdGames (periodReads q s)) (statesOf q s)))" and y: "?f p = Inr y"
    then obtain r where r: "r \<in> set (apResults input)" "p = prPlayerId r"
      using computedFrom_players [OF assms(1)] finite_periodPlayers [of "prdGames (periodReads q s)" "statesOf q s"] by (force simp: image_iff)
    then have "y = r" using computePeriodResults_each [OF res r(1)] y by simp
    then show "resultOf calc (prdGames (periodReads q1 s1)) (statesOf q1 s1) p = Inr (y\<lparr>prPeakChanged := False\<rparr>)"
      using result_again [OF assms r(1)] r(2) by simp
  qed
qed

lemma ratings_fixed:
  assumes "distinct (map poolKey (rtRatings t))"
    and "\<And>r. r \<in> set rs \<Longrightarrow> \<exists>row. ratingRow t (resultKey input r) = Some row \<and> withResultValues (apPeriodId input) now r row = row"
  shows "rtRatings (afterResults input now rs t) = rtRatings t"
  using assms
proof (induction rs arbitrary: t)
  case (Cons r rs)
  obtain row where row: "ratingRow t (resultKey input r) = Some row" "withResultValues (apPeriodId input) now r row = row"
    using Cons.prems(2) [of r] by auto
  have "x = row" if "x \<in> set (rtRatings t)" "poolKey x = resultKey input r" for x
    using that row(1) ratingRow_iff [OF Cons.prems(1), of "resultKey input r" x] by simp
  then have "(if poolKey x = resultKey input r then withResultValues (apPeriodId input) now r x else x) = x" if "x \<in> set (rtRatings t)" for x
    using that row(2) by auto
  moreover have "resultKey input r \<in> poolKey ` set (rtRatings t)" using row(1) ratingRow_None [of t "resultKey input r"] by auto
  ultimately have same: "rtRatings (afterResult input now r t) = rtRatings t"
    unfolding afterResult_ratings by (simp add: map_idI)
  then have "ratingRow (afterResult input now r t) = ratingRow t" by (auto simp: ratingRow_def)
  then show ?case using Cons.IH [of "afterResult input now r t"] Cons.prems same by auto
qed simp

lemma applied_again:
  assumes "computedFrom calc q input now s s1" "apPeriodId input' = rpId q" "apEnvironment input' = rpEnvironment q"
    and "apTimeCategory input' = rpTimeCategory q" "apResults input' = map (\<lambda>r. r\<lparr>prPeakChanged := False\<rparr>) (apResults input)"
    and "applied input' now' q1 s1 s2"
  shows "rtRatings s2 = rtRatings s1 \<and> historyView s2 = historyView s1"
proof
  have keys: "apPeriodId input = rpId q" "apEnvironment input = rpEnvironment q" "apTimeCategory input = rpTimeCategory q"
    and ok: "distinct (map poolKey (rtRatings s1))"
    using assms(1) by (simp_all add: computedFrom_def ratingOk_def)
  have eq: "rtRatings s2 = rtRatings (afterResults input' now' (apResults input') s1)"
    "historyView s2 = historyView (afterResults input' now' (apResults input') s1)"
    "historyView s1 = historyView (afterResults input now (apResults input) s)"
    using assms(1,6) by (simp_all add: computedFrom_def applied_def Let_def historyView_def)
  have again: "withResultValues j now' (r\<lparr>prPeakChanged := False\<rparr>) (withResultValues j now r row) = withResultValues j now r row" for j r row
    by (simp add: withResultValues_def)
  show "rtRatings s2 = rtRatings s1" unfolding eq(1)
  proof (rule ratings_fixed [OF ok])
    fix r assume "r \<in> set (apResults input')"
    then obtain r0 where r0: "r0 \<in> set (apResults input)" "r = r0\<lparr>prPeakChanged := False\<rparr>" using assms(5) by auto
    obtain row where "ratingRow s1 (prPlayerId r0, rpEnvironment q, rpTimeCategory q) = Some (withResultValues (rpId q) now r0 row)"
      using computedFrom_row [OF assms(1) r0(1)] .
    then show "\<exists>row. ratingRow s1 (resultKey input' r) = Some row \<and> withResultValues (apPeriodId input') now' r row = row"
      using assms(2-4) r0(2) again by auto
  qed
  have d: "distinct (map prPlayerId (apResults input))" "distinct (map prPlayerId (apResults input'))"
    using computedFrom_distinct [OF assms(1)] assms(5) by (simp_all add: comp_def)
  have rep: "replaces input' (r\<lparr>prPeakChanged := False\<rparr>) h = replaces input r h" for r h using assms(2-4) keys by (simp add: replaces_def)
  have row: "historyRow input' 0 (r\<lparr>prPeakChanged := False\<rparr>) = historyRow input 0 r" for r using assms(2-4) keys by (simp add: historyRow_def)
  have rows: "historyRow input' 0 ` set (apResults input') = historyRow input 0 ` set (apResults input)"
    unfolding assms(5) by (simp add: image_image row)
  have none: "(\<forall>r \<in> set (apResults input'). \<not> replaces input' r h) \<longleftrightarrow> (\<forall>r \<in> set (apResults input). \<not> replaces input r h)" for h
    unfolding assms(5) by (simp add: rep)
  show "historyView s2 = historyView s1"
    unfolding eq(2,3) afterResults_view [OF d(2)] rows none unfolding eq(3) afterResults_view [OF d(1)]
    by (auto simp: replaces_row)
qed

text \<open>
  A computation can be repeated, where the stored flags agree. \<^verbatim>\<open>computePeriod\<close> is documented as idempotent. In a state
  that requests answered one after the other can reach, and in which the provisional flag of every rating is what its other
  columns say (\<open>flagsAgree\<close>, a condition of the theorem and no invariant: an established player whose deviation has grown
  keeps his flag in the row, and a repeated computation, which derives it from the history instead, takes it from him),
  computing a period a second time immediately after the first, by anyone who may and for any reason, succeeds whenever the
  first time did; it counts one more generation, leaves every rating row as it was, peak and its date included, and leaves
  the same history but for the identifiers of its rows. Neither computation is interrupted; in which order their parallel reads are
  answered does then not matter (\<open>computeAlone_any_order\<close>).
\<close>

theorem recompute_repeats:
  assumes "ratingReachable s" "flagsAgree s" "computeAlone calcs actor i reason now s = (Inr q1, s1)"
    and "can actor' Update periodRef now'" "jsTrim reason' \<noteq> ''''"
  shows "\<exists>s2. computeAlone calcs actor' i reason' now' s1 =
      (Inr (q1\<lparr>rpComputedAt := Some now', rpRecomputeGeneration := rpRecomputeGeneration q1 + 1\<rparr>), s2)
    \<and> rtRatings s2 = rtRatings s1 \<and> historyView s2 = historyView s1"
proof -
  from assms(3) obtain q where q: "findPeriodById i s = Some q"
    and ca: "runAlone (computeAndApply calcs actor q (jsTrim reason) (periodReads q s) now) s = (Inr q1, s1)" by (auto simp: computeAlone_Inr)
  from ca obtain results where res: "computePeriodResults (calcs (rpTau q)) (prdGames (periodReads q s)) (statesOf q s) = Inr results"
    and ap: "applyPeriodResults (resultsInput actor q (jsTrim reason) (periodReads q s) results) now s = (Inr q1, s1)" by (rule computeAndApply_Inr)
  let ?input = "resultsInput actor q (jsTrim reason) (periodReads q s) results"
  have mem: "q \<in> set (rtPeriods s)" "rpId q = i" using findPeriodById_Some [OF q] by simp_all
  from ap have q1: "q1 = computedPeriod ?input now q" "applied ?input now q s s1"
    by (rule applyPeriodResults_applied, use q mem in simp)+
  have "ratingOk s1" using computeAlone_ok [OF ratingReachable_ok [OF assms(1)], of calcs actor i reason now] assms(3) by simp
  then have from1: "computedFrom (calcs (rpTau q)) q ?input now s s1"
    using ratingReachable_ok [OF assms(1)] ratingReachable_stored [OF assms(1)] mem res q1(2) by (simp add: computedFrom_def)
  have rec: "recomputable q q1" by (simp add: q1(1) recomputable_def periodKey_computed)
  note sel = recomputable_sel [OF rec]
  let ?again = "map (\<lambda>r. r\<lparr>prPeakChanged := False\<rparr>) results"
  let ?input' = "resultsInput actor' q1 (jsTrim reason') (periodReads q1 s1) ?again"
  have res': "computePeriodResults (calcs (rpTau q1)) (prdGames (periodReads q1 s1)) (statesOf q1 s1) = Inr ?again"
    using results_again [OF from1 rec assms(2)] sel by simp
  have "findPeriodById i s1 = map_option (\<lambda>p. if rpId p = i then computedPeriod ?input now q else p) (findPeriodById i s)"
    using q1(2) mem unfolding findPeriodById_def applied_def Let_def
    by (simp, intro find_map_upd) (simp add: computedPeriod_def)
  then have found: "findPeriodById i s1 = Some q1" using q mem q1(1) by simp
  have "rtLocked s1 = rtLocked s" using q1(2) by (simp add: applied_def Let_def)
  then have "periodLockKey (showNat (apPeriodId ?input')) \<notin> set (rtLocked s1)" using applyPeriodResults_Inr(1) [OF ap] sel by simp
  then obtain s2 where s2: "applyPeriodResults ?input' now' s1 = (Inr (computedPeriod ?input' now' q1), s2)" "applied ?input' now' q1 s1 s2"
    using assms(5) found sel mem by (elim applyPeriodResults_runs [where q = q1 and now = now']) (simp_all add: jsTrim_idem)
  have "computedPeriod ?input' now' q1 = q1\<lparr>rpComputedAt := Some now', rpRecomputeGeneration := rpRecomputeGeneration q1 + 1\<rparr>"
    using q1(1) games_again [OF from1 rec] by (simp add: computedPeriod_def resultsInput_def)
  moreover have "computeAlone calcs actor' i reason' now' s1 = (Inr (computedPeriod ?input' now' q1), s2)"
    using assms(4,5) found s2(1) computeAndApply_results [of calcs q1, OF res', of actor' "jsTrim reason'" now'] by (simp add: computeAlone_Inr)
  moreover have "rtRatings s2 = rtRatings s1 \<and> historyView s2 = historyView s1"
    by (rule applied_again [OF from1 _ _ _ _ s2(2)]) (use sel in simp_all)
  ultimately show ?thesis by auto
qed

lemma recompute_repeats_witness:
  "\<exists>q2 s2. computeAlone drawCalc ratingOffice 1 ''again'' 300 rating2 = (Inr q2, s2)
     \<and> rtRatings s2 = rtRatings rating2 \<and> historyView s2 = historyView rating2"
proof -
  obtain q where "computeAlone drawCalc ratingOffice 1 ''close'' 200 rating1 = (Inr q, rating2)" by (rule rating2_run)
  moreover have "flagsAgree rating1" by (simp add: flagsAgree_def rating1_fields)
  moreover have "jsTrim ''again'' \<noteq> ''''" by code_simp
  ultimately show ?thesis using recompute_repeats [OF rating1_reachable _ _ office_may(2)] by blast
qed

end
