(* ===== verification/RatingRaces.thy ===== *)
theory RatingRaces
  imports RatingRepeat
begin

text \<open>
  Where the promises of the rating service end: two computations of the same period at once.
\<close>

section \<open>Two computations of one period\<close>

lemma gamesIn_afterResults_other:
  "(p, e, c) \<notin> resultKey input ` set rs \<Longrightarrow>
    gamesIn (ofPlayer p e c) (rtHistory (afterResults input now rs s)) = gamesIn (ofPlayer p e c) (rtHistory s)"
  by (induction rs arbitrary: s) (auto simp: gamesIn_afterResult)

lemma gamesIn_afterResults:
  "distinct (map prPlayerId rs) \<Longrightarrow> r \<in> set rs \<Longrightarrow>
    gamesIn (ofPlayer (prPlayerId r) (apEnvironment input) (apTimeCategory input)) (rtHistory (afterResults input now rs s))
      = otherGames (apPeriodId input) (apEnvironment input) (apTimeCategory input) (prPlayerId r) s + int (prGamesInPeriod r)"
proof (induction rs arbitrary: s)
  case (Cons x xs)
  show ?case
  proof (cases "r = x")
    case True
    have "resultKey input r \<notin> resultKey input ` set xs" using Cons.prems(1) True by auto
    then show ?thesis using True gamesIn_afterResults_other [of "prPlayerId r" "apEnvironment input" "apTimeCategory input" input xs]
      by (simp add: gamesIn_afterResult)
  next
    case False
    then show ?thesis using Cons by (simp add: otherGames_afterResult)
  qed
qed simp

lemma computePeriodResults_member:
  assumes "computePeriodResults calc games states = Inr rs" "p \<in> periodPlayers games states"
  obtains r where "r \<in> set rs" "prPlayerId r = p"
proof -
  have "p \<in> set (map prPlayerId rs)"
    unfolding computePeriodResults_players [OF assms(1)] set_sorted_list_of_set [OF finite_periodPlayers] by (rule assms(2))
  then show ?thesis using that by auto
qed

lemma computePeriodResults_distinct: "computePeriodResults calc games states = Inr rs \<Longrightarrow> distinct (map prPlayerId rs)"
  using computePeriodResults_players by (metis sorted_list_of_set.distinct_sorted_key_list_of_set)

text \<open>The counter that a computation leaves is what it says of its games and of the others.\<close>

lemma computedFrom_counter:
  assumes "computedFrom calc q input now s s1" "p \<in> periodPlayers (prdGames (periodReads q s)) (statesOf q s)"
  shows "\<exists>row. ratingRow s1 (p, rpEnvironment q, rpTimeCategory q) = Some row
    \<and> plGamesPlayed row = otherGames (rpId q) (rpEnvironment q) (rpTimeCategory q) p s1
        + int (length (RatingPeriod.gamesOf p (prdGames (periodReads q s))))"
proof -
  have facts: "ratingOk s1" "computePeriodResults calc (prdGames (periodReads q s)) (statesOf q s) = Inr (apResults input)"
    "apPeriodId input = rpId q" "apEnvironment input = rpEnvironment q" "apTimeCategory input = rpTimeCategory q"
    "rtHistory s1 = rtHistory (afterResults input now (apResults input) s)"
    using assms(1) by (simp_all add: computedFrom_def applied_def Let_def)
  from computePeriodResults_member [OF facts(2) assms(2)] obtain r where r: "r \<in> set (apResults input)" "prPlayerId r = p" .
  obtain row where row: "ratingRow s1 (p, rpEnvironment q, rpTimeCategory q) = Some (withResultValues (rpId q) now r row)"
    using computedFrom_row [OF assms(1) r(1)] r(2) by auto
  have "otherGames (rpId q) (rpEnvironment q) (rpTimeCategory q) p s1 = otherGames (rpId q) (rpEnvironment q) (rpTimeCategory q) p s"
    using otherGames_afterResults [of input "rpEnvironment q" "rpTimeCategory q" p now "apResults input" s] facts(3,6) by (simp add: otherGames_def)
  then show ?thesis using row ratingOk_counter [OF facts(1) row] r(2)
      gamesIn_afterResults [OF computedFrom_distinct [OF assms(1)] r(1), of input now s] facts(3-6)
      resultOf_Inr [OF computePeriodResults_each [OF facts(2) r(1)]] by simp
qed

text \<open>With the ratings read after the commit and no history read, the games are added again.\<close>

lemma stale_result:
  assumes "computedFrom calc q input now s s1" "p \<in> set (gamePlayerIds (prdGames (periodReads q s)))"
    and "reads = (periodReads q s1)\<lparr>prdPrior := []\<rparr>" "rpId q' = rpId q"
    and "computePeriodResults calc (prdGames reads) (buildPrePeriodStates reads) = Inr results"
    and "applied (resultsInput actor q why reads results) now' q' s1 s2"
  shows "\<exists>r. ratingRow s2 (p, rpEnvironment q, rpTimeCategory q) = Some r
    \<and> plGamesPlayed r = gamesIn (ofPlayer p (rpEnvironment q) (rpTimeCategory q)) (rtHistory s2)
        + int (length (RatingPeriod.gamesOf p (prdGames (periodReads q s))))"
proof -
  let ?games = "prdGames (periodReads q s)" and ?input = "resultsInput actor q why reads results"
  have games: "prdGames reads = ?games" using games_again [OF assms(1), of q] assms(3) by (simp add: recomputable_def)
  have p: "p \<in> periodPlayers ?games states" for states using assms(2) by (auto simp: periodPlayers_def gamePlayerIds_set)
  obtain row where row: "ratingRow s1 (p, rpEnvironment q, rpTimeCategory q) = Some row"
    "plGamesPlayed row = otherGames (rpId q) (rpEnvironment q) (rpTimeCategory q) p s1 + int (length (RatingPeriod.gamesOf p ?games))"
    using computedFrom_counter [OF assms(1) p] by blast
  have "currentById reads p = ratingRow s1 (p, rpEnvironment q, rpTimeCategory q)"
    by (rule currentById_rows) (use assms(1,3) periodReads_rows [of q s1] in \<open>simp_all add: computedFrom_def ratingOk_def\<close>)
  moreover have "historyById reads p = None" using assms(3) by (simp add: historyById_def)
  ultimately have before: "psGamesPlayed (preStateOf (buildPrePeriodStates reads) p) = plGamesPlayed row"
    unfolding preStateOf_build using row(1) by (simp add: prePeriodState_def)
  from computePeriodResults_member [OF assms(5) [unfolded games] p] obtain r where r: "r \<in> set results" "prPlayerId r = p" .
  note d = computePeriodResults_distinct [OF assms(5)]
  have s2: "rtRatings s2 = rtRatings (afterResults ?input now' results s1)" "rtHistory s2 = rtHistory (afterResults ?input now' results s1)"
    using assms(6) by (simp_all add: applied_def Let_def)
  obtain old where "ratingRow s2 (p, rpEnvironment q, rpTimeCategory q) = Some (withResultValues (rpId q) now' r old)"
    using afterResults_row [OF d r(1), of ?input now' s1] r(2) s2(1) by (auto simp: ratingRow_def)
  then show ?thesis using gamesIn_afterResults [OF d r(1), of ?input now' s1] s2(2) row(2) before r(2) games
      resultOf_Inr [OF computePeriodResults_each [OF assms(5) r(1)]] by (simp add: withResultValues_sel)
qed

lemma stale_reads:
  assumes "ratingReachable s" "computeAlone calcs actor i reason now s = (Inr q1, s1)"
    and "runAlone (openPeriod actor' i reason' now') s = (Inr (q, why), s)" "priorHistoryForPeriod i s = []"
    and "runAlone (computeAndApply calcs actor' q why ((periodReads q s1)\<lparr>prdPrior := priorHistoryForPeriod i s\<rparr>) now') s1 = (Inr q2, s2)"
    and "p \<in> set (gamePlayerIds (prdGames (periodReads q s)))"
  shows "\<exists>r. findPlayerRating p (rpEnvironment q) (rpTimeCategory q) s2 = Some r
    \<and> plGamesPlayed r = gamesIn (ofPlayer p (rpEnvironment q) (rpTimeCategory q)) (rtHistory s2)
        + int (length (RatingPeriod.gamesOf p (prdGames (periodReads q s))))
    \<and> length (RatingPeriod.gamesOf p (prdGames (periodReads q s))) > 0"
proof -
  have q: "findPeriodById i s = Some q" using assms(3) by (simp add: openPeriod_Inr)
  have mem: "q \<in> set (rtPeriods s)" "rpId q = i" using findPeriodById_Some [OF q] by simp_all
  from assms(2) have "runAlone (computeAndApply calcs actor q (jsTrim reason) (periodReads q s) now) s = (Inr q1, s1)"
    using q by (auto simp: computeAlone_Inr)
  then obtain rs1 where rs1: "computePeriodResults (calcs (rpTau q)) (prdGames (periodReads q s)) (statesOf q s) = Inr rs1"
    and ap1: "applyPeriodResults (resultsInput actor q (jsTrim reason) (periodReads q s) rs1) now s = (Inr q1, s1)" by (rule computeAndApply_Inr)
  from ap1 have "applied (resultsInput actor q (jsTrim reason) (periodReads q s) rs1) now q s s1"
    by (rule applyPeriodResults_applied) (use q mem in simp)
  moreover have "ratingOk s1"
    using computeAlone_ok [OF ratingReachable_ok [OF assms(1)], of calcs actor i reason now] assms(2) by simp
  ultimately have from1: "computedFrom (calcs (rpTau q)) q (resultsInput actor q (jsTrim reason) (periodReads q s) rs1) now s s1"
    using ratingReachable_ok [OF assms(1)] ratingReachable_stored [OF assms(1)] mem rs1 by (simp add: computedFrom_def)
  let ?reads = "(periodReads q s1)\<lparr>prdPrior := priorHistoryForPeriod i s\<rparr>"
  obtain rs2 where rs2: "computePeriodResults (calcs (rpTau q)) (prdGames ?reads) (buildPrePeriodStates ?reads) = Inr rs2"
    and ap2: "applyPeriodResults (resultsInput actor' q why ?reads rs2) now' s1 = (Inr q2, s2)" using assms(5) by (rule computeAndApply_Inr)
  from ap2 obtain q' where q': "findPeriodById (rpId q) s1 = Some q'" "applied (resultsInput actor' q why ?reads rs2) now' q' s1 s2"
    by (rule applyPeriodResults_applied) simp
  have "rpId q' = rpId q" using findPeriodById_Some [OF q'(1)] by simp
  from stale_result [OF from1 assms(6) _ this rs2 q'(2)] obtain r where
    "ratingRow s2 (p, rpEnvironment q, rpTimeCategory q) = Some r"
    "plGamesPlayed r = gamesIn (ofPlayer p (rpEnvironment q) (rpTimeCategory q)) (rtHistory s2)
        + int (length (RatingPeriod.gamesOf p (prdGames (periodReads q s))))" using assms(4) by auto
  moreover have "RatingPeriod.gamesOf p (prdGames (periodReads q s)) \<noteq> []"
    using assms(6) by (auto simp: gamePlayerIds_set RatingPeriod.gamesOf_def)
  ultimately show ?thesis by (simp add: findPlayerRating_row)
qed

text \<open>
  A request with its reads in the order in which it sees the history before and the ratings after what happens in
  between: its first three queries, and the rest.
\<close>

abbreviation historyFirst :: "ParallelRead list" where
  "historyFirst \<equiv> [PriorHistory, RatedPlayers, PlayersWithGames]"

definition afterHistory ::
  "(real \<Rightarrow> ConvergenceError calculator) \<Rightarrow> Actor \<Rightarrow> RatingPeriodRow \<Rightarrow> string \<Rightarrow> int \<Rightarrow> RatingDb \<Rightarrow> RatingPeriodRow ratingRequest" where
  "afterHistory calcs actor q why now s = bindR (parallelReads q [RatedPlayers, PlayersWithGames]
     \<lparr>prdGames = prdGames (periodReads q s), prdRated = [], prdWithGames = [], prdPrior = priorHistoryForPeriod (rpId q) s\<rparr>)
     (\<lambda>reads. computeAndApply calcs actor q why reads now)"

lemma historyFirst_steps:
  "can actor Update periodRef now \<Longrightarrow> jsTrim reason \<noteq> '''' \<Longrightarrow> findPeriodById i s = Some q \<Longrightarrow>
    schedule [1, 1, 1] (s, [p, computePeriodWith calcs historyFirst actor i reason now])
      = (s, [p, afterHistory calcs actor q (jsTrim reason) now s])"
  by (simp add: computePeriodWith_def openPeriod_def gatherReads_def guardR_def awaitR_def returnR_def afterHistory_def periodReads_games)

lemma historyFirst_starts:
  assumes "schedule [1, 1, 1] (s, [p, computePeriodWith calcs historyFirst actor i reason now]) = (t, ps)"
    and "findPeriodById i s = Some q" "fst (runAlone (ps ! 1) s1) = Inr q2"
  shows "t = s \<and> runAlone (openPeriod actor i reason now) s = (Inr (q, jsTrim reason), s)
    \<and> ps = [p, afterHistory calcs actor q (jsTrim reason) now s]"
proof (cases "can actor Update periodRef now \<and> jsTrim reason \<noteq> ''''")
  case True
  then have may: "can actor Update periodRef now" "jsTrim reason \<noteq> ''''" by simp_all
  have "(s, [p, afterHistory calcs actor q (jsTrim reason) now s]) = (t, ps)"
    using assms(1) unfolding historyFirst_steps [OF may assms(2)] .
  then have "t = s" "ps = [p, afterHistory calcs actor q (jsTrim reason) now s]" by blast+
  then show ?thesis using may assms(2) by (simp add: openPeriod_Inr)
next
  case False
  then show ?thesis using assms
    by (auto simp: computePeriodWith_def openPeriod_def guardR_def awaitR_def throwR_def split: if_splits)
qed

lemma historyFirst_ends:
  "prdGames (periodReads q t) = prdGames (periodReads q s) \<Longrightarrow> runAlone (afterHistory calcs actor q why now s) t =
     runAlone (computeAndApply calcs actor q why ((periodReads q t)\<lparr>prdPrior := priorHistoryForPeriod (rpId q) s\<rparr>) now) t"
  by (simp add: afterHistory_def run_alone bindS_def periodReads_def Let_def)

lemma computeAlone_games:
  assumes "ratingReachable s" "computeAlone calcs actor i reason now s = (Inr q1, s1)"
  shows "prdGames (periodReads q s1) = prdGames (periodReads q s)"
proof (rule computeAlone_cases [of calcs actor i reason now s])
  fix q' results
  assume "applied (resultsInput actor q' (jsTrim reason) (periodReads q' s) results) now q' s (snd (computeAlone calcs actor i reason now s))"
  then show ?thesis using assms(2)
    by (simp add: periodReads_games gamesForPeriod_def onlineGamesForPeriod_def otbGamesForPeriod_def applied_def Let_def)
qed (use assms(2) in simp)

text \<open>
  C40. Two requests for the same period. \<^verbatim>\<open>buildPrePeriodStates\<close> reads ratings and history in separate queries,
  before the transaction and its lock. In every state that earlier requests can have left and in which the period has no
  history yet, let one request find the period and read its games and its history; then let another compute the period from
  beginning to end; then let the first go on, read the ratings and apply its results. If both are answered without
  an error, the ratings that the first read include the period and the history it read does not: every player of
  the period gets his games counted a second time, more than his history shows by just those games, and the
  result rests on ratings that already contain it. The lock only orders the two transactions.
\<close>

theorem stale_reads_count_twice:
  assumes "ratingReachable s" "findPeriodById i s = Some q" "priorHistoryForPeriod i s = []"
    and "schedule ([1, 1, 1] @ replicate n 0 @ replicate m 1)
        (s, [computePeriodWith calcs order actor i reason now, computePeriodWith calcs historyFirst actor' i reason' now'])
      = (s2, [Reply (Inr q1), Reply (Inr q2)])"
    and "set order = UNIV" "p \<in> set (gamePlayerIds (prdGames (periodReads q s)))"
  shows "\<exists>r. findPlayerRating p (rpEnvironment q) (rpTimeCategory q) s2 = Some r
    \<and> plGamesPlayed r = gamesIn (ofPlayer p (rpEnvironment q) (rpTimeCategory q)) (rtHistory s2)
        + int (length (RatingPeriod.gamesOf p (prdGames (periodReads q s))))
    \<and> length (RatingPeriod.gamesOf p (prdGames (periodReads q s))) > 0"
proof -
  let ?first = "computePeriodWith calcs order actor i reason now" and ?second = "computePeriodWith calcs historyFirst actor' i reason' now'"
  obtain t ps where a: "schedule [1, 1, 1] (s, [?first, ?second]) = (t, ps)" by fastforce
  obtain s1 qs where b: "schedule (replicate n 0) (t, ps) = (s1, qs)" by fastforce
  have c: "schedule (replicate m 1) (s1, qs) = (s2, [Reply (Inr q1), Reply (Inr q2)])" using assms(4) a b by (simp only: schedule_append)
  have "[1, 1, 1] = replicate 3 (1 :: nat)" by (simp add: numeral_3_eq_3)
  then have ps: "ps = [?first, ps ! 1]" using schedule_turns [of 3 1 s "[?first, ?second]" t ps] a by simp
  then have len: "length ps = 2" by (metis length_Cons list.size(3) numeral_2_eq_2)
  have qs: "qs = ps[0 := qs ! 0]" "runAlone (qs ! 0) s1 = runAlone (ps ! 0) t" using schedule_turns [OF b] len by simp_all
  have "length qs = 2" using qs(1) len by (metis length_list_update)
  then have fin: "[Reply (Inr q1), Reply (Inr q2)] = qs[1 := Reply (Inr q2)]" "runAlone (qs ! 1) s1 = (Inr q2, s2)"
    using schedule_turns [OF c] by simp_all
  have "qs ! 0 = Reply (Inr q1)" using fin(1) by (metis nth_Cons_0 nth_list_update_neq zero_neq_one)
  moreover have "ps ! 0 = ?first" using ps by (metis nth_Cons_0)
  ultimately have first: "runAlone ?first t = (Inr q1, s1)" using qs(2) by simp
  have rest: "runAlone (ps ! 1) s1 = (Inr q2, s2)" using fin(2) qs(1) by (metis nth_list_update_neq zero_neq_one)
  note starts = historyFirst_starts [OF a assms(2), of s1 q2]
  have s: "t = s" "ps ! 1 = afterHistory calcs actor' q (jsTrim reason') now' s"
    "runAlone (openPeriod actor' i reason' now') s = (Inr (q, jsTrim reason'), s)" using starts rest by simp_all
  have run: "computeAlone calcs actor i reason now s = (Inr q1, s1)" using first s(1) by (simp add: computeAlone_any_order [OF assms(5)])
  have i: "rpId q = i" using findPeriodById_Some [OF assms(2)] by simp
  have "prdGames (periodReads q s1) = prdGames (periodReads q s)" by (rule computeAlone_games [OF assms(1) run])
  then show ?thesis
    using stale_reads [OF assms(1) run s(3) assms(3) _ assms(6)] rest historyFirst_ends [of q s1 s] i unfolding s(2) by simp
qed

text \<open>The two players of the run are rated alike again, so a second computation converges.\<close>

lemma rating2_from: "\<exists>input. computedFrom (drawCalc (rpTau samplePeriod)) samplePeriod input 200 rating1 rating2"
proof -
  obtain q results where res: "computePeriodResults (drawCalc (rpTau samplePeriod)) [drawnGame] (buildPrePeriodStates (periodReads samplePeriod rating1)) = Inr results"
    and ap: "applied (resultsInput ratingOffice samplePeriod ''close'' (periodReads samplePeriod rating1) results) 200 samplePeriod rating1 rating2"
    by (rule rating2_run)
  moreover have "prdGames (periodReads samplePeriod rating1) = [drawnGame]" by (rule drawn_games) (simp_all add: rating1_fields)
  ultimately show ?thesis
    using ratingReachable_ok [OF rating1_reachable] ratingReachable_ok [OF rating2_reachable] ratingReachable_stored [OF rating1_reachable]
    by (intro exI [of _ "resultsInput ratingOffice samplePeriod ''close'' (periodReads samplePeriod rating1) results"])
      (simp add: computedFrom_def rating1_fields)
qed

lemma rating2_alike:
  "\<exists>ra rb. ratingRow rating2 (''a'', OTB, RAPID) = Some ra \<and> ratingRow rating2 (''b'', OTB, RAPID) = Some rb \<and> plSnapshot ra = plSnapshot rb"
proof -
  obtain input where from1: "computedFrom (drawCalc (rpTau samplePeriod)) samplePeriod input 200 rating1 rating2" using rating2_from by blast
  have pool: "rpEnvironment samplePeriod = OTB" "rpTimeCategory samplePeriod = RAPID" by (simp_all add: samplePeriod_def)
  have games: "prdGames (periodReads samplePeriod rating1) = [drawnGame]" by (rule drawn_games) (simp_all add: rating1_fields)
  have res: "computePeriodResults (drawCalc (rpTau samplePeriod)) [drawnGame] (statesOf samplePeriod rating1) = Inr (apResults input)"
    using from1 games by (simp add: computedFrom_def)
  have mem: "p \<in> periodPlayers [drawnGame] (statesOf samplePeriod rating1)" if "p \<in> {''a'', ''b''}" for p
    using that by (auto simp: periodPlayers_def drawnGame_def)
  from computePeriodResults_member [OF res mem] obtain a where a: "a \<in> set (apResults input)" "prPlayerId a = ''a''" by blast
  from computePeriodResults_member [OF res mem] obtain b where b: "b \<in> set (apResults input)" "prPlayerId b = ''b''" by blast
  have "prAfter a = prAfter b"
    using computePeriodResults_each [OF res a(1)] computePeriodResults_each [OF res b(1)] a(2) b(2)
    by (auto simp: resultOf_def RatingPeriod.gamesOf_def drawnGame_def toInputGame_def toOutcome_def scoreFor_def Let_def rating1_states playerResult_def)
  then show ?thesis using computedFrom_row [OF from1 a(1)] computedFrom_row [OF from1 b(1)] a(2) b(2) pool
    by (metis withResultValues_sel(3))
qed

abbreviation staleReads :: PeriodReads where
  "staleReads \<equiv> (periodReads samplePeriod rating2)\<lparr>prdPrior := priorHistoryForPeriod 1 rating1\<rparr>"

lemma sample_games: "prdGames (periodReads samplePeriod rating1) = [drawnGame]" "prdGames (periodReads samplePeriod rating2) = [drawnGame]"
proof -
  obtain input where from1: "computedFrom (drawCalc (rpTau samplePeriod)) samplePeriod input 200 rating1 rating2" using rating2_from by blast
  show one: "prdGames (periodReads samplePeriod rating1) = [drawnGame]" by (rule drawn_games) (simp_all add: rating1_fields)
  show "prdGames (periodReads samplePeriod rating2) = [drawnGame]"
    using games_again [OF from1, of samplePeriod] one by (simp add: recomputable_def)
qed

lemma stale_prior: "priorHistoryForPeriod 1 rating1 = []"
  by (simp add: priorHistoryForPeriod_def rating1_fields)

lemma stale_computes: "\<exists>results. computePeriodResults (drawCalc (rpTau samplePeriod)) (prdGames staleReads) (buildPrePeriodStates staleReads) = Inr results"
proof -
  obtain input where from1: "computedFrom (drawCalc (rpTau samplePeriod)) samplePeriod input 200 rating1 rating2" using rating2_from by blast
  have pool: "rpEnvironment samplePeriod = OTB" "rpTimeCategory samplePeriod = RAPID" by (simp_all add: samplePeriod_def)
  have "fst ` set (statesOf samplePeriod rating2) \<subseteq> periodPlayers [drawnGame] (statesOf samplePeriod rating1)"
    using players_again [OF from1, of samplePeriod] sample_games by (auto simp: recomputable_def periodPlayers_def)
  moreover have "fst ` set (buildPrePeriodStates staleReads) = fst ` set (statesOf samplePeriod rating2)"
    by (simp add: buildPrePeriodStates_def image_image)
  ultimately have players: "fst ` set (buildPrePeriodStates staleReads) \<subseteq> {''a'', ''b''}"
    using rating1_states(2) by (auto simp: periodPlayers_def drawnGame_def)
  have "currentById staleReads p = ratingRow rating2 (p, OTB, RAPID)" for p
    by (rule currentById_rows) (use from1 periodReads_rows [of samplePeriod rating2] pool in \<open>simp_all add: computedFrom_def ratingOk_def\<close>)
  then have "preStateOf (buildPrePeriodStates staleReads) p = prePeriodState (ratingRow rating2 (p, OTB, RAPID)) None" for p
    unfolding preStateOf_build by (simp add: historyById_def stale_prior del: One_nat_def)
  then have "psSnapshot (preStateOf (buildPrePeriodStates staleReads) ''a'') = psSnapshot (preStateOf (buildPrePeriodStates staleReads) ''b'')"
    using rating2_alike by (auto simp: prePeriodState_def)
  then show ?thesis using drawn_computes [OF players] sample_games(2) by simp
qed

lemma rating2_period: "rtLocked rating2 = []" "\<exists>q. findPeriodById 1 rating2 = Some q"
proof -
  obtain input where "computedFrom (drawCalc (rpTau samplePeriod)) samplePeriod input 200 rating1 rating2" using rating2_from by blast
  then have "rtLocked rating2 = rtLocked rating1" "rtPeriods rating2 = [computedPeriod input 200 samplePeriod]"
    by (auto simp: computedFrom_def applied_def Let_def rating1_fields)
  then show "rtLocked rating2 = []" "\<exists>q. findPeriodById 1 rating2 = Some q"
    by (simp_all add: rating1_fields findPeriodById_def) (simp add: computedPeriod_def samplePeriod_def)
qed

lemma stale_sample:
  "\<exists>q2 s2 r. runAlone (computeAndApply drawCalc ratingOffice samplePeriod ''again'' staleReads 300) rating2 = (Inr q2, s2)
     \<and> findPlayerRating ''a'' OTB RAPID s2 = Some r
     \<and> plGamesPlayed r = gamesIn (ofPlayer ''a'' OTB RAPID) (rtHistory s2) + 1"
proof -
  obtain q1 where run: "computeAlone drawCalc ratingOffice 1 ''close'' 200 rating1 = (Inr q1, rating2)" by (rule rating2_run)
  have sample: "rpEnvironment samplePeriod = OTB" "rpTimeCategory samplePeriod = RAPID" "rpId samplePeriod = 1" by (simp_all add: samplePeriod_def)
  have trim: "jsTrim ''again'' = ''again''" by code_simp
  have opened: "runAlone (openPeriod ratingOffice 1 ''again'' 300) rating1 = (Inr (samplePeriod, ''again''), rating1)"
    by (simp add: openPeriod_Inr office_may rating1_period trim del: One_nat_def)
  obtain results where res: "computePeriodResults (drawCalc (rpTau samplePeriod)) (prdGames staleReads) (buildPrePeriodStates staleReads) = Inr results"
    using stale_computes by blast
  obtain q where q: "findPeriodById 1 rating2 = Some q" using rating2_period(2) by blast
  let ?input = "resultsInput ratingOffice samplePeriod ''again'' staleReads results"
  have ready: "periodLockKey (showNat (apPeriodId ?input)) \<notin> set (rtLocked rating2)" "findPeriodById (apPeriodId ?input) rating2 = Some q"
    "jsTrim (apReason ?input) \<noteq> ''''" using q sample by (simp_all add: rating2_period trim)
  obtain s2 where s2: "applyPeriodResults ?input 300 rating2 = (Inr (computedPeriod ?input 300 q), s2)"
    by (rule applyPeriodResults_runs [OF ready])
  then have second: "runAlone (computeAndApply drawCalc ratingOffice samplePeriod ''again'' staleReads 300) rating2 = (Inr (computedPeriod ?input 300 q), s2)"
    using computeAndApply_results [of drawCalc samplePeriod, OF res] by simp
  have "''a'' \<in> set (gamePlayerIds (prdGames (periodReads samplePeriod rating1)))"
    by (simp add: sample_games gamePlayerIds_set drawnGame_def)
  from stale_reads [OF rating1_reachable run opened stale_prior second this] show ?thesis
    using second sample by (auto simp: sample_games RatingPeriod.gamesOf_def drawnGame_def)
qed

lemma stale_reads_count_twice_witness:
  "\<exists>n m q1 q2 s2 r. schedule ([1, 1, 1] @ replicate n 0 @ replicate m 1)
      (rating1, [computePeriodWith drawCalc historyFirst ratingOffice 1 ''close'' 200,
        computePeriodWith drawCalc historyFirst ratingOffice 1 ''again'' 300]) = (s2, [Reply (Inr q1), Reply (Inr q2)])
     \<and> findPlayerRating ''a'' OTB RAPID s2 = Some r
     \<and> plGamesPlayed r = gamesIn (ofPlayer ''a'' OTB RAPID) (rtHistory s2) + 1"
proof -
  have all: "set historyFirst = UNIV" using ParallelRead.exhaust by auto
  let ?first = "computePeriodWith drawCalc historyFirst ratingOffice 1 ''close'' 200"
  let ?second = "computePeriodWith drawCalc historyFirst ratingOffice 1 ''again'' 300"
  let ?rest = "afterHistory drawCalc ratingOffice samplePeriod ''again'' 300 rating1"
  obtain q1 where run: "computeAlone drawCalc ratingOffice 1 ''close'' 200 rating1 = (Inr q1, rating2)" by (rule rating2_run)
  obtain q2 s2 where second: "runAlone (computeAndApply drawCalc ratingOffice samplePeriod ''again'' staleReads 300) rating2 = (Inr q2, s2)"
    using stale_sample by blast
  have trim: "jsTrim ''again'' = ''again''" by code_simp
  have starts: "schedule [1, 1, 1] (rating1, [?first, ?second]) = (rating1, [?first, ?rest])"
    by (rule historyFirst_steps [where reason = "''again''", unfolded trim]) (simp_all add: office_may rating1_period trim del: One_nat_def)
  have id: "rpId samplePeriod = 1" by (simp add: samplePeriod_def)
  have sample: "rpEnvironment samplePeriod = OTB" "rpTimeCategory samplePeriod = RAPID" by (simp_all add: samplePeriod_def)
  have ends: "runAlone ?rest rating2 = (Inr q2, s2)"
    using second historyFirst_ends [of samplePeriod rating2 rating1] sample_games id by simp
  have first: "runAlone ?first rating1 = (Inr q1, rating2)" using run by (simp only: computeAlone_any_order [OF all])
  obtain n where n: "schedule (replicate n 0) (rating1, [?first, ?rest]) = (rating2, [Reply (Inr q1), ?rest])"
    using schedule_whole [of 0 "[?first, ?rest]" rating1] first by auto
  obtain m where m: "schedule (replicate m 1) (rating2, [Reply (Inr q1), ?rest]) = (s2, [Reply (Inr q1), Reply (Inr q2)])"
    using schedule_whole [of 1 "[Reply (Inr q1), ?rest]" rating2] ends by auto
  have all_turns: "schedule ([1, 1, 1] @ replicate n 0 @ replicate m 1) (rating1, [?first, ?second]) = (s2, [Reply (Inr q1), Reply (Inr q2)])"
    by (simp only: schedule_append starts n m)
  have "''a'' \<in> set (gamePlayerIds (prdGames (periodReads samplePeriod rating1)))" by (simp add: sample_games gamePlayerIds_set drawnGame_def)
  from stale_reads_count_twice [OF rating1_reachable rating1_period stale_prior all_turns all this] obtain r where
    "findPlayerRating ''a'' OTB RAPID s2 = Some r" "plGamesPlayed r = gamesIn (ofPlayer ''a'' OTB RAPID) (rtHistory s2) + 1"
    unfolding sample_games sample by (auto simp: RatingPeriod.gamesOf_def drawnGame_def)
  with all_turns show ?thesis by blast
qed

end
