(* ===== verification/Spec2Isabelle.thy ===== *)
theory Spec2Isabelle
  imports Prelude Money Ledger Clock RoundRobinEngine SwissFinds Tiebreak ArbiterProps UserAdminRuns BillingProps FriendProps AuthProps PlayProps MatchProps GatewayProps RatingRaces
begin

text \<open>
  Farzin is a server for chess players and federations: tournaments with their pairings and
  standings, online games, ratings, accounts and roles, friendship, and billing. It is a NestJS program
  in TypeScript over PostgreSQL (through Prisma) and Redis; \<^verbatim>\<open>src/core/\<close> is pure and
  \<^verbatim>\<open>src/modules/\<close> holds the services. This library translates the code that decides
  something, file by file, and proves what makes it correct. Paths below are relative to the root of
  the server, \<^verbatim>\<open>src/\<close> of the repository.

  \<^bold>\<open>How code becomes definitions.\<close> A pure function is a function; code that throws returns
  \<open>Inl\<close> error or \<open>Inr\<close> value (\<open>Prelude\<close>). An access to the database is an \<open>action\<close> (\<open>Service\<close>): a function from
  the database to an error or a value and the database it leaves behind, so what was written before an
  error stays, except in a \<open>transaction\<close>; a service method is an action or a tree of them (below). A table is the list or the map of its rows, a \<^verbatim>\<open>where\<close>
  a filter, an \<^verbatim>\<open>orderBy\<close> a stable sort; a unique index is a guard that throws. Enumerations are
  datatypes, rows are records, integers of TypeScript are \<open>int\<close> or \<open>nat\<close> (the code keeps them far
  below 2 to the power 53; where their text matters it is modelled, see \<open>JsNumber\<close>), numbers with a
  fraction are \<open>rat\<close>, in the rating calculator \<open>real\<close>. Every request has one \<open>now\<close>. Strings are lists of characters up to code point
  255, for which \<^verbatim>\<open>trim\<close> and \<^verbatim>\<open>toLowerCase\<close> are written out. A \<^verbatim>\<open>MULTI\<close>
  block and a Lua script of Redis are one step, a Prisma transaction is one step, and every other wait of the
  code is a place where other requests may come between.

  \<^bold>\<open>Requests at the same time.\<close> In \<open>Interleave\<close> a request is the tree of its awaited accesses: each query, transaction or
  cache access is one step on the state it finds, and what follows depends on what it saw. \<open>runAlone\<close> runs a request that
  nothing interrupts, \<open>serial\<close> answers one request after the other, \<open>interleaved\<close> lets requests arrive at any
  time and takes their steps in any order, \<open>schedule\<close> computes one such order; \<open>interleaved_steady\<close> is the
  rely-guarantee rule that carries an invariant through all of them. The sections (\<open>SectionDb\<close>, \<open>Arbiter\<close>), the
  administration of users (\<open>UserAdmin\<close>) and the ratings (\<open>Ratings\<close>) are written this way. Where a promise survives every
  interleaving (\<open>ArbiterProps\<close>: meetings, rounds) it is proved for all; where it holds only while requests do not overlap, the theorem says so
  and comes with the schedule that breaks it. The online games, the queues, friendship and billing split their operations
  at the waits by hand, into reads of an earlier state and commits on the newest (\<open>PlayRuns\<close>, \<open>MatchRuns\<close>, \<open>Friends\<close>,
  \<open>BillingRuns\<close>).

  \<^bold>\<open>Tournaments.\<close> \<open>PairingTypes\<close> is the port of the pairing engines; its documented guarantees are the
  locales \<open>pairing_port\<close> and \<open>pairing_port_c1\<close>. \<open>RoundRobin\<close> and \<open>RoundRobinEngine\<close> are
  \<^verbatim>\<open>core/pairing/round-robin.engine.ts\<close>. The Swiss engine is \<open>SwissColors\<close>, \<open>SwissTypes\<close> (with the
  final verification), \<open>SwissWeights\<close>, \<open>SwissBrackets\<close> and \<open>SwissEngine\<close>, after the files of
  \<^verbatim>\<open>core/pairing/swiss/\<close> and \<^verbatim>\<open>swiss-dutch.engine.ts\<close>; the matching routine is an argument,
  and what rests on its contract (a matching of the given edges, of maximum weight) says so. \<open>SwissBracketProofs\<close>,
  \<open>SwissCompleteness\<close> and \<open>SwissFinds\<close> prove that a round is safe for every routine and found whenever
  one exists for a correct one; a brute-force routine shows that the contract can be met. Both engines interpret
  the port. \<open>Tiebreak\<close> is the calculator with its ranking, behind the locale \<open>tie_break_values\<close>;
  \<open>ResultMapping\<close>, \<open>PairingState\<close>, \<open>SectionDb\<close> and \<open>Arbiter\<close> are the arbiter module and the
  registrations. \<open>ArbiterRuns\<close> has the reachable sections (\<open>reachableSection\<close>, all interleavings of the requests) and
  the invariant of the tables that every step keeps, \<open>ArbiterStandings\<close> and \<open>ArbiterProps\<close> what follows, and where it ends: a
  late correction to a forfeit can leave the engine a history it stops at.

  \<^bold>\<open>Online games.\<close> \<open>Clock\<close> is \<^verbatim>\<open>core/clock/\<close>, \<open>ChessRules\<close> is
  \<^verbatim>\<open>core/chess/rules.ts\<close> with chess.js as an argument, \<open>Play\<close>, \<open>PlayService\<close> and \<open>PlayGateway\<close> are
  the repository with the Redis records, the service and the gateway of \<^verbatim>\<open>modules/play/\<close>,
  \<open>Matchmaking\<close> its matchmaking. \<open>PlayHistory\<close> relates the stored moves to the line of positions and the
  hash index to the whole history. \<open>PlayRuns\<close> is the transition system: a run is the list of all states so
  far with the Redis writes still to be made; a request may have read any earlier state, commits on
  the newest, and its later writes come at any time or never. \<open>MatchRuns\<close> is the like for the queues, with keys that
  expire at any time and the play service going on beside it. \<open>MatchSweep\<close> treats the loops of the sweep;
  \<open>PlayProps\<close>, \<open>MatchProps\<close> and \<open>GatewayProps\<close> hold the properties.

  \<^bold>\<open>Accounts.\<close> \<open>Auth\<close>, \<open>AuthService\<close> and \<open>RateLimit\<close> are the user and token tables, the
  authentication service and the sliding window; \<open>AuthSessions\<close> shows that every operation is a sequence of
  token moves, from which families, replay and the end of sessions follow. \<open>Rbac\<close> is the policy table with
  the decisions, \<open>RoleGrant\<close> and \<open>UserAdmin\<close> the administration with its cache, \<open>UserAdminRuns\<close> its serial runs
  and what overlapping requests do to the last super administrator.
  \<open>Friends\<close> and \<open>FriendProps\<close> are friendship, with requests that decide on a row read earlier.

  \<^bold>\<open>Money.\<close> \<open>Money\<close> and \<open>Ledger\<close> are \<^verbatim>\<open>core/money\<close> and \<^verbatim>\<open>core/billing\<close>;
  \<open>InvoiceNumber\<close>, \<open>Billing\<close> and \<open>BillingService\<close> the tables, the service and the providers of
  \<^verbatim>\<open>modules/billing/\<close>. \<open>BillingRuns\<close> has the steps (one committed transaction each, on rows that may be
  stale), \<open>BillingTrace\<close> shows that every operation is a sequence of them, \<open>BillingInvariants\<close> and
  \<open>BillingProps\<close> what holds.

  \<^bold>\<open>Abstract specifications.\<close> The pairing port; a round exists exactly when a complete legal pairing does;
  standings as a sort by one key; the ledger and the outbox of a payment as a function of its status; the balance
  of the organizers as a sum over payments; the end of a game as \<^verbatim>\<open>gameEndFromPosition\<close> finds it in the
  whole history; the clock in Redis as what the move log reconstructs.

  \<^bold>\<open>Loops and bounds.\<close> Loops are structural recursion except the sweep of a queue (\<open>sweepFrom\<close>, a
  partial function whose return is proved with the number of attempts), the invoice number loop, which the
  code bounds by \<open>MAX_ATTEMPTS\<close>, and the two loops of the rating calculator, which carry the counters of the code. No
  other fuel is used.

  \<^bold>\<open>Ratings.\<close> \<open>Glicko\<close> is \<^verbatim>\<open>core/rating/\<close>, the algorithm over exact real numbers: what is proved of it
  (\<open>GlickoProps\<close>) is the method, not its rounding in doubles. \<open>RatingPeriod\<close> is the pure batch of
  \<^verbatim>\<open>modules/rating/period-computation.ts\<close> with the mapping of online results, \<open>RatingPeriodProps\<close> what it promises for any
  calculator; \<open>Ratings\<close> the tables, the lock key and the service, which store numbers with the digits of their columns.
  \<open>RatingRuns\<close> and \<open>RatingProps\<close> treat requests answered one after the other (\<open>ratingReachable\<close>), \<open>RatingRepeat\<close>
  a computation repeated, \<open>RatingRaces\<close> two computations of one period at the same time.

  \<^bold>\<open>Not modelled.\<close> \<^verbatim>\<open>core/pairing/swiss/blossom.ts\<close> (an imperative maximum-weight matching;
  it is the argument of the Swiss model, and \<^verbatim>\<open>verify.ts\<close>, which is modelled, checks its result at run
  time); chess.js, Prisma, Redis, socket.io, JWT, argon2 and the other packages (arguments or states); the creation,
  editing and export of tournaments; the modules for organizations, player profiles, fair play and its
  engine, notifications and health, and \<^verbatim>\<open>core/export\<close>, \<^verbatim>\<open>core/fairplay\<close>; metrics, logging,
  configuration and the wiring of modules; the web client under \<^verbatim>\<open>web/\<close>. Texts of messages, metrics and
  log lines are left out of what is modelled, except in the audit rows.
\<close>

end
